(* ===== verification/Go_Prelude.thy ===== *)
theory Go_Prelude
  imports Complex_Main "HOL-Library.Multiset" "HOL-Library.AList" "HOL-Library.Char_ord"
    "HOL-Library.List_Lexorder"
begin

text \<open>
  The part of Go that every component of TestGrid uses: error and panic values, slices read by
  index, maps as association lists, the string functions of the standard library, stable sorting,
  and cursors (the closures that hand out one value per call).  Nothing in this theory is TestGrid
  code; it is the language and its standard library.

  Conventions used by every theory of the development.
  \<^item> A Go \<open>string\<close> is a sequence of bytes: \<^typ>\<open>string\<close>, one \<^typ>\<open>char\<close> per byte.
  \<^item> \<open>int\<close>, \<open>int32\<close> and \<open>int64\<close> values are \<^typ>\<open>int\<close> (\<^typ>\<open>nat\<close> for lengths and slice
    indices); the counts and timestamps the code handles stay far from the width limits.
  \<^item> \<open>float64\<close> and \<open>float32\<close> values are exact rationals (rounding is not modelled).
  \<^item> A nil slice and an empty slice are both \<open>[]\<close>; a nil pointer is \<open>None\<close>.
  \<^item> A map is an association list; the position of an entry is the position in which one
    \<open>range\<close> loop visits it.  Go visits the entries in an arbitrary order, so a statement about a
    map-typed argument quantifies over every order.
  \<^item> A result that may be an error is a sum: \<open>Inl\<close> holds the error or the panic.
\<close>

section \<open>Errors\<close>

datatype go_error = Panic string | Failed string

type_synonym 'a go = "go_error + 'a"
type_synonym float64 = rat
type_synonym ('k, 'v) gomap = "('k \<times> 'v) list"

named_theorems go_simps \<open>evaluation of error-returning code\<close>

definition go_bind :: "'a go \<Rightarrow> ('a \<Rightarrow> 'b go) \<Rightarrow> 'b go" where
  "go_bind m f = (case m of Inl e \<Rightarrow> Inl e | Inr a \<Rightarrow> f a)"

lemma go_bind_Inl [simp]: "go_bind (Inl e) f = Inl e"
  by (simp add: go_bind_def)

lemma go_bind_Inr [simp]: "go_bind (Inr a) f = f a"
  by (simp add: go_bind_def)

lemma go_bind_eq_Inr [go_simps]:
  "go_bind m f = Inr b \<longleftrightarrow> (\<exists>a. m = Inr a \<and> f a = Inr b)"
  by (cases m) auto

lemma go_bind_assoc: "go_bind (go_bind m f) g = go_bind m (\<lambda>a. go_bind (f a) g)"
  by (cases m) auto

text \<open>A \<open>for\<close> loop over a slice whose body may fail: the first failure ends the loop.\<close>

fun go_fold :: "('b \<Rightarrow> 'a \<Rightarrow> 'b go) \<Rightarrow> 'b \<Rightarrow> 'a list \<Rightarrow> 'b go" where
  "go_fold f acc [] = Inr acc"
| "go_fold f acc (x # xs) = go_bind (f acc x) (\<lambda>acc'. go_fold f acc' xs)"

fun go_map :: "('a \<Rightarrow> 'b go) \<Rightarrow> 'a list \<Rightarrow> 'b list go" where
  "go_map f [] = Inr []"
| "go_map f (x # xs) = go_bind (f x) (\<lambda>y. go_bind (go_map f xs) (\<lambda>ys. Inr (y # ys)))"

lemma go_fold_append:
  "go_fold f acc (xs @ ys) = go_bind (go_fold f acc xs) (\<lambda>acc'. go_fold f acc' ys)"
  by (induction xs arbitrary: acc) (auto simp: go_bind_assoc)

lemma go_map_Inr: "\<forall>x \<in> set xs. f x = Inr (g x) \<Longrightarrow> go_map f xs = Inr (map g xs)"
  by (induction xs) auto

lemma go_map_length: "go_map f xs = Inr ys \<Longrightarrow> length ys = length xs"
  by (induction xs arbitrary: ys) (auto simp: go_simps)

lemma go_map_nth: "go_map f xs = Inr ys \<Longrightarrow> i < length xs \<Longrightarrow> f (xs ! i) = Inr (ys ! i)"
proof (induction xs arbitrary: ys i)
  case (Cons x xs)
  then show ?case by (cases i) (auto simp: go_simps)
qed simp

lemma go_map_total: "\<forall>x \<in> set xs. \<exists>y. f x = Inr y \<Longrightarrow> \<exists>ys. go_map f xs = Inr ys"
  by (induction xs) fastforce+

text \<open>Reading a slice at an index panics outside its bounds.\<close>

definition slice_at :: "'a list \<Rightarrow> nat \<Rightarrow> 'a go" where
  "slice_at xs i = (if i < length xs then Inr (xs ! i) else Inl (Panic ''index out of range''))"

lemma slice_at_Inr [simp]: "i < length xs \<Longrightarrow> slice_at xs i = Inr (xs ! i)"
  by (simp add: slice_at_def)

lemma slice_at_eq_Inr [go_simps]: "slice_at xs i = Inr x \<longleftrightarrow> i < length xs \<and> xs ! i = x"
  by (auto simp: slice_at_def)

section \<open>Numbers\<close>

text \<open>The keys of an association list.\<close>

lemma keys_update: "fst ` set (AList.update k v m) = insert k (fst ` set m)"
  by (metis dom_map_of_conv_image_fst dom_fun_upd option.distinct(1) update_conv')

lemma keys_map_of: "k \<in> fst ` set m \<longleftrightarrow> map_of m k \<noteq> None"
  by (simp add: map_of_eq_None_iff)

lemma keys_map_entry [simp]: "map fst (AList.map_entry k f m) = map fst m"
  by (induction m) auto

lemma map_of_map_entry':
  "map_of (AList.map_entry k f m) n = (if n = k then map_option f (map_of m k) else map_of m n)"
  by (induction m) auto

text \<open>Reading a key that a map of strings lacks gives the empty string.\<close>

definition lookup_or_empty :: "('k, string) gomap \<Rightarrow> 'k \<Rightarrow> string" where
  "lookup_or_empty m k = (case map_of m k of Some v \<Rightarrow> v | None \<Rightarrow> [])"

text \<open>\<open>int64(f)\<close> of a float drops the fraction; \<open>a / b\<close> and \<open>a % b\<close> on integers truncate.\<close>

definition trunc :: "float64 \<Rightarrow> int" where
  "trunc r = (if 0 \<le> r then \<lfloor>r\<rfloor> else \<lceil>r\<rceil>)"

definition go_div :: "int \<Rightarrow> int \<Rightarrow> int" where
  "go_div a b = sgn a * sgn b * (\<bar>a\<bar> div \<bar>b\<bar>)"

definition go_mod :: "int \<Rightarrow> int \<Rightarrow> int" where
  "go_mod a b = a - b * go_div a b"

lemma trunc_of_int [simp]: "trunc (of_int n) = n"
  by (simp add: trunc_def)

lemma trunc_mono: "a \<le> b \<Longrightarrow> trunc a \<le> trunc b"
  by (auto simp: trunc_def floor_mono ceiling_mono)
     (meson ceiling_le_zero dual_order.trans linorder_not_less nless_le zero_le_floor)

lemma go_div_nonneg [simp]: "0 \<le> a \<Longrightarrow> 0 < b \<Longrightarrow> go_div a b = a div b"
  by (cases "a = 0") (auto simp: go_div_def)

lemma nat_pos_Suc: "0 < n \<Longrightarrow> nat n = Suc (nat (n - 1))"
  by simp

section \<open>Strings\<close>

definition has_prefix :: "string \<Rightarrow> string \<Rightarrow> bool" where
  "has_prefix s p \<longleftrightarrow> take (length p) s = p"

definition has_suffix :: "string \<Rightarrow> string \<Rightarrow> bool" where
  "has_suffix s p \<longleftrightarrow> has_prefix (rev s) (rev p)"

fun str_contains :: "string \<Rightarrow> string \<Rightarrow> bool" where
  "str_contains [] p \<longleftrightarrow> p = []"
| "str_contains (c # s) p \<longleftrightarrow> has_prefix (c # s) p \<or> str_contains s p"

text \<open>\<open>strings.Split\<close> at a non-empty separator; always at least one piece.\<close>

function str_split_acc :: "string \<Rightarrow> string \<Rightarrow> string \<Rightarrow> string list" where
  "str_split_acc sep acc [] = [rev acc]"
| "str_split_acc sep acc (c # s) =
     (if sep \<noteq> [] \<and> has_prefix (c # s) sep
      then rev acc # str_split_acc sep [] (drop (length sep) (c # s))
      else str_split_acc sep (c # acc) s)"
  by pat_completeness auto
termination
  by (relation "measure (\<lambda>(sep, acc, s). length s)") auto

definition str_split :: "string \<Rightarrow> string \<Rightarrow> string list" where
  "str_split s sep = str_split_acc sep [] s"

fun str_join :: "string list \<Rightarrow> string \<Rightarrow> string" where
  "str_join [] sep = []"
| "str_join [s] sep = s"
| "str_join (s # t # r) sep = s @ sep @ str_join (t # r) sep"

text \<open>\<open>strings.ReplaceAll\<close> of a non-empty pattern, scanning left to right without overlap.\<close>

function replace_all :: "string \<Rightarrow> string \<Rightarrow> string \<Rightarrow> string" where
  "replace_all [] old new = []"
| "replace_all (c # s) old new =
     (if old \<noteq> [] \<and> has_prefix (c # s) old
      then new @ replace_all (drop (length old) (c # s)) old new
      else c # replace_all s old new)"
  by pat_completeness auto
termination
  by (relation "measure (\<lambda>(s, old, new). length s)") auto

definition is_space :: "char \<Rightarrow> bool" where
  "is_space c \<longleftrightarrow> c \<in> {CHR '' '', CHR 0x09, CHR 0x0A, CHR 0x0B, CHR 0x0C, CHR 0x0D}"

text \<open>\<open>strings.TrimSpace\<close> on ASCII text.\<close>

definition trim_space :: "string \<Rightarrow> string" where
  "trim_space s = rev (dropWhile is_space (rev (dropWhile is_space s)))"

text \<open>\<open>strconv.Itoa\<close>.\<close>

definition digit :: "nat \<Rightarrow> char" where
  "digit d = char_of (48 + d)"

fun nat_str :: "nat \<Rightarrow> string" where
  "nat_str n = (if n < 10 then [digit n] else nat_str (n div 10) @ [digit (n mod 10)])"

declare nat_str.simps [simp del]

definition itoa :: "int \<Rightarrow> string" where
  "itoa n = (if n < 0 then CHR ''-'' # nat_str (nat (- n)) else nat_str (nat n))"

text \<open>Reading the digits back: \<^const>\<open>nat_str\<close> is injective.\<close>

definition digits_val :: "string \<Rightarrow> nat" where
  "digits_val s = foldl (\<lambda>a c. 10 * a + (of_char c - 48)) 0 s"

lemma of_char_digit: "d < 10 \<Longrightarrow> of_char (digit d) = 48 + d"
  by (simp add: digit_def of_char_of)

lemma digits_val_nat_str: "digits_val (nat_str n) = n"
proof (induction n rule: nat_str.induct)
  case (1 n)
  show ?case
  proof (cases "n < 10")
    case True
    then show ?thesis
      by (simp add: nat_str.simps [of n] digits_val_def of_char_digit)
  next
    case False
    then have "digits_val (nat_str n) = 10 * digits_val (nat_str (n div 10)) + n mod 10"
      by (simp add: nat_str.simps [of n] digits_val_def of_char_digit)
    with False "1.IH" show ?thesis by simp
  qed
qed

lemma nat_str_inj [simp]: "nat_str m = nat_str n \<longleftrightarrow> m = n"
  by (metis digits_val_nat_str)

lemma itoa_of_nat_inj [simp]: "itoa (int m) = itoa (int n) \<longleftrightarrow> m = n"
  by (simp add: itoa_def)

lemma has_prefix_append [simp]: "has_prefix (p @ s) p"
  by (simp add: has_prefix_def)

lemma has_prefix_iff: "has_prefix s p \<longleftrightarrow> (\<exists>t. s = p @ t)"
  by (metis append_take_drop_id has_prefix_append has_prefix_def)

lemma str_contains_iff: "str_contains s p \<longleftrightarrow> (\<exists>u v. s = u @ p @ v)"
proof (induction s)
  case Nil
  then show ?case by auto
next
  case (Cons c s)
  have "(\<exists>u v. c # s = u @ p @ v) \<longleftrightarrow> (\<exists>t. c # s = p @ t) \<or> (\<exists>u v. s = u @ p @ v)"
    by (metis (no_types, lifting) append_Cons append_Nil list.exhaust list.inject)
  then show ?case
    using Cons.IH by (simp add: has_prefix_iff)
qed

section \<open>UTF-8\<close>

text \<open>
  UTF-8 decoding as \<open>utf8.ValidString\<close> and \<open>strings.ToValidUTF8\<close> of the standard library do it:
  the width of the valid character at the start of a string, 0 when there is none.
\<close>

definition utf8_cont :: "char \<Rightarrow> bool" where
  "utf8_cont c \<longleftrightarrow> (let b = of_char c :: nat in 0x80 \<le> b \<and> b \<le> 0xBF)"

definition utf8_second :: "nat \<Rightarrow> char \<Rightarrow> bool" where
  "utf8_second b c \<longleftrightarrow>
     (let d = of_char c :: nat in
      if b = 0xE0 then 0xA0 \<le> d \<and> d \<le> 0xBF
      else if b = 0xED then 0x80 \<le> d \<and> d \<le> 0x9F
      else if b = 0xF0 then 0x90 \<le> d \<and> d \<le> 0xBF
      else if b = 0xF4 then 0x80 \<le> d \<and> d \<le> 0x8F
      else utf8_cont c)"

definition utf8_width :: "string \<Rightarrow> nat" where
  "utf8_width s =
     (case s of [] \<Rightarrow> 0
      | c # r \<Rightarrow>
        (let b = of_char c :: nat in
         if b < 0x80 then 1
         else if 0xC2 \<le> b \<and> b \<le> 0xDF \<and> 1 \<le> length r \<and> utf8_cont (r ! 0) then 2
         else if 0xE0 \<le> b \<and> b \<le> 0xEF \<and> 2 \<le> length r \<and> utf8_second b (r ! 0) \<and> utf8_cont (r ! 1)
         then 3
         else if 0xF0 \<le> b \<and> b \<le> 0xF4 \<and> 3 \<le> length r \<and> utf8_second b (r ! 0) \<and> utf8_cont (r ! 1)
           \<and> utf8_cont (r ! 2) then 4
         else 0))"

text \<open>\<open>bad\<close> tells whether the preceding byte was invalid: a run of them is replaced once.\<close>

function to_valid_from :: "bool \<Rightarrow> string \<Rightarrow> string \<Rightarrow> string" where
  "to_valid_from bad rep s =
     (case s of [] \<Rightarrow> []
      | c # r \<Rightarrow>
        (let w = utf8_width s in
         if w = 0 then (if bad then [] else rep) @ to_valid_from True rep r
         else take w s @ to_valid_from False rep (drop w s)))"
  by pat_completeness auto
termination
  by (relation "measure (\<lambda>(bad, rep, s). length s)") auto

declare to_valid_from.simps [simp del]

definition to_valid_utf8 :: "string \<Rightarrow> string \<Rightarrow> string" where
  "to_valid_utf8 rep s = to_valid_from False rep s"

function valid_utf8 :: "string \<Rightarrow> bool" where
  "valid_utf8 s \<longleftrightarrow>
     (if s = [] then True else if utf8_width s = 0 then False else valid_utf8 (drop (utf8_width s) s))"
  by pat_completeness auto
termination
  by (relation "measure length") auto

declare valid_utf8.simps [simp del]

lemma utf8_width_le: "utf8_width s \<le> length s"
  by (cases s) (auto simp: utf8_width_def Let_def)

lemma length_to_valid_from: "length (to_valid_from bad [] s) \<le> length s"
proof (induction "length s" arbitrary: s bad rule: less_induct)
  case less
  show ?case
  proof (cases s)
    case (Cons c r)
    let ?w = "utf8_width s"
    have "length (to_valid_from True [] r) \<le> length r" using less [of r] Cons by simp
    moreover have "?w \<noteq> 0 \<Longrightarrow> length (to_valid_from False [] (drop ?w s)) \<le> length s - ?w"
      using less [of "drop ?w s"] Cons by simp
    ultimately show ?thesis
      using Cons utf8_width_le [of s]
      by (cases "?w = 0") (simp_all add: to_valid_from.simps [of bad "[]" "c # r"] Let_def)
  qed (simp add: to_valid_from.simps)
qed

lemma length_to_valid_utf8: "length (to_valid_utf8 [] s) \<le> length s"
  by (simp add: to_valid_utf8_def length_to_valid_from)

text \<open>The width of a character depends on its own bytes only.\<close>

lemma utf8_width_take_append:
  "utf8_width s \<noteq> 0 \<Longrightarrow> utf8_width (take (utf8_width s) s @ t) = utf8_width s"
proof (cases s)
  case (Cons c r)
  assume "utf8_width s \<noteq> 0"
  then consider "utf8_width s = 1" | "utf8_width s = 2" | "utf8_width s = 3" | "utf8_width s = 4"
    using Cons by (auto simp: utf8_width_def Let_def split: if_splits)
  then show ?thesis
  proof cases
    case 1
    then show ?thesis using Cons by (auto simp: utf8_width_def Let_def split: if_splits)
  next
    case 2
    then obtain d r' where r: "r = d # r'"
      using utf8_width_le [of s] Cons by (cases r) auto
    show ?thesis using 2 Cons r by (auto simp: utf8_width_def Let_def split: if_splits)
  next
    case 3
    then obtain d e r' where r: "r = d # e # r'"
      using utf8_width_le [of s] Cons by (cases r; cases "tl r") auto
    show ?thesis using 3 Cons r by (auto simp: utf8_width_def Let_def split: if_splits)
  next
    case 4
    then obtain d e f r' where r: "r = d # e # f # r'"
      using utf8_width_le [of s] Cons by (cases r; cases "tl r"; cases "tl (tl r)") auto
    show ?thesis using 4 Cons r by (auto simp: utf8_width_def Let_def split: if_splits)
  qed
qed (simp add: utf8_width_def)

lemma valid_utf8_Nil [simp]: "valid_utf8 []"
  by (simp add: valid_utf8.simps)

lemma valid_utf8_char:
  "utf8_width s \<noteq> 0 \<Longrightarrow> valid_utf8 (take (utf8_width s) s @ t) \<longleftrightarrow> valid_utf8 t"
proof -
  assume w: "utf8_width s \<noteq> 0"
  let ?u = "take (utf8_width s) s @ t"
  have "drop (utf8_width s) ?u = t" using utf8_width_le [of s] by simp
  moreover have "?u \<noteq> []" using w utf8_width_le [of s] by (cases s) auto
  ultimately show ?thesis
    using utf8_width_take_append [OF w, of t] w by (simp add: valid_utf8.simps [of ?u])
qed

lemma valid_utf8_append: "valid_utf8 s \<Longrightarrow> valid_utf8 t \<Longrightarrow> valid_utf8 (s @ t)"
proof (induction "length s" arbitrary: s rule: less_induct)
  case less
  show ?case
  proof (cases "s = []")
    case False
    let ?w = "utf8_width s"
    from less.prems(1) False have w: "?w \<noteq> 0" "valid_utf8 (drop ?w s)"
      by (simp_all add: valid_utf8.simps [of s] split: if_splits)
    have "valid_utf8 (drop ?w s @ t)"
      using less.hyps [of "drop ?w s"] w less.prems(2) False by simp
    then have "valid_utf8 (take ?w s @ drop ?w s @ t)"
      using valid_utf8_char [OF w(1)] by simp
    then show ?thesis by (metis append_assoc append_take_drop_id)
  qed (use less.prems in simp)
qed

lemma valid_to_valid_utf8: "valid_utf8 rep \<Longrightarrow> valid_utf8 (to_valid_utf8 rep s)"
proof -
  assume rep: "valid_utf8 rep"
  have "valid_utf8 (to_valid_from bad rep s)" for bad
  proof (induction "length s" arbitrary: s bad rule: less_induct)
    case less
    show ?case
    proof (cases s)
      case (Cons c r)
      have r: "valid_utf8 (to_valid_from True rep r)"
        using less [of r] Cons by simp
      have d: "utf8_width s \<noteq> 0 \<Longrightarrow> valid_utf8 (to_valid_from False rep (drop (utf8_width s) s))"
        using less [of "drop (utf8_width s) s"] Cons by simp
      show ?thesis
        using r d rep valid_utf8_char [of s] valid_utf8_append [OF rep r] Cons
        by (simp add: to_valid_from.simps [of bad rep "c # r"] Let_def)
    qed (simp add: to_valid_from.simps)
  qed
  then show ?thesis by (simp add: to_valid_utf8_def)
qed

text \<open>Hexadecimal digits, in capitals and in small letters.\<close>

definition hex_digit :: "nat \<Rightarrow> char" where
  "hex_digit n = (if n < 10 then digit n else char_of (n + 55))"

definition lower_hex :: "nat \<Rightarrow> char" where
  "lower_hex n = (if n < 10 then digit n else char_of (n + 87))"

text \<open>\<open>%q\<close>; characters beyond ASCII count as printable.\<close>

definition hex_escape :: "char \<Rightarrow> string" where
  "hex_escape c = (let b = of_char c :: nat in [CHR 0x5C, CHR ''x'', lower_hex (b div 16), lower_hex (b mod 16)])"

definition quote_ascii :: "char \<Rightarrow> string" where
  "quote_ascii c =
     (if c = CHR 0x22 \<or> c = CHR 0x5C then [CHR 0x5C, c]
      else if c = CHR 0x07 then [CHR 0x5C, CHR ''a''] else if c = CHR 0x08 then [CHR 0x5C, CHR ''b'']
      else if c = CHR 0x0C then [CHR 0x5C, CHR ''f''] else if c = CHR 0x0A then [CHR 0x5C, CHR ''n'']
      else if c = CHR 0x0D then [CHR 0x5C, CHR ''r''] else if c = CHR 0x09 then [CHR 0x5C, CHR ''t'']
      else if c = CHR 0x0B then [CHR 0x5C, CHR ''v'']
      else if c < CHR '' '' \<or> c = CHR 0x7F then hex_escape c else [c])"

function quote_chars :: "string \<Rightarrow> string" where
  "quote_chars s =
     (case s of
        [] \<Rightarrow> []
      | c # s' \<Rightarrow>
          (let w = utf8_width s in
           if w = 0 then hex_escape c @ quote_chars s'
           else if w = 1 then quote_ascii c @ quote_chars s'
           else take w s @ quote_chars (drop w s)))"
  by pat_completeness auto
termination
  by (relation "measure length") auto

declare quote_chars.simps [simp del]

definition go_quote :: "string \<Rightarrow> string" where
  "go_quote s = CHR 0x22 # quote_chars s @ [CHR 0x22]"

section \<open>Stable sorting\<close>

text \<open>
  \<open>sort.SliceStable\<close> with a comparison function, as insertion sort: every element is moved
  towards the front past the elements it is less than.  For a strict weak order every stable sort
  gives this result.
\<close>

fun ins_rev :: "('a \<Rightarrow> 'a \<Rightarrow> bool) \<Rightarrow> 'a \<Rightarrow> 'a list \<Rightarrow> 'a list" where
  "ins_rev lt x [] = [x]"
| "ins_rev lt x (y # ys) = (if lt x y then y # ins_rev lt x ys else x # y # ys)"

definition slice_stable :: "('a \<Rightarrow> 'a \<Rightarrow> bool) \<Rightarrow> 'a list \<Rightarrow> 'a list" where
  "slice_stable lt xs = rev (foldl (\<lambda>acc x. ins_rev lt x acc) [] xs)"

lemma mset_ins_rev [simp]: "mset (ins_rev lt x ys) = add_mset x (mset ys)"
  by (induction ys) auto

lemma mset_foldl_ins_rev:
  "mset (foldl (\<lambda>acc x. ins_rev lt x acc) acc xs) = mset acc + mset xs"
  by (induction xs arbitrary: acc) auto

lemma mset_slice_stable [simp]: "mset (slice_stable lt xs) = mset xs"
  by (simp add: slice_stable_def mset_foldl_ins_rev)

lemma set_slice_stable [simp]: "set (slice_stable lt xs) = set xs"
  by (metis mset_slice_stable set_mset_mset)

lemma length_slice_stable [simp]: "length (slice_stable lt xs) = length xs"
  by (metis mset_slice_stable size_mset)

lemma distinct_slice_stable [simp]: "distinct (slice_stable lt xs) = distinct xs"
  by (metis mset_eq_imp_distinct_iff mset_slice_stable)

lemma slice_stable_Nil [simp]: "slice_stable lt [] = []"
  by (simp add: slice_stable_def)

lemma distinct_map_slice_stable [simp]:
  "distinct (map f (slice_stable lt xs)) = distinct (map f xs)"
  by (metis mset_eq_imp_distinct_iff mset_map mset_slice_stable)

lemma map_ins_rev: "map f (ins_rev (\<lambda>a b. lt (f a) (f b)) x ys) = ins_rev lt (f x) (map f ys)"
  by (induction ys) auto

lemma map_slice_stable:
  "map f (slice_stable (\<lambda>a b. lt (f a) (f b)) xs) = slice_stable lt (map f xs)"
proof -
  have "map f (foldl (\<lambda>acc x. ins_rev (\<lambda>a b. lt (f a) (f b)) x acc) acc xs) =
      foldl (\<lambda>acc x. ins_rev lt x acc) (map f acc) (map f xs)" for acc
    by (induction xs arbitrary: acc) (simp_all add: map_ins_rev)
  from this [of "[]"] show ?thesis by (simp add: slice_stable_def rev_map [symmetric])
qed

text \<open>The contract of a comparison function: a strict weak order.\<close>

locale weak_order =
  fixes lt :: "'a \<Rightarrow> 'a \<Rightarrow> bool"
  assumes asym: "lt a b \<Longrightarrow> \<not> lt b a"
    and neg_trans: "\<not> lt a b \<Longrightarrow> \<not> lt b c \<Longrightarrow> \<not> lt a c"
begin

lemma irrefl: "\<not> lt a a"
  using asym by blast

lemma less_trans: "lt a b \<Longrightarrow> lt b c \<Longrightarrow> lt a c"
  using asym neg_trans by blast

lemma set_ins_rev: "set (ins_rev lt x ys) = insert x (set ys)"
  by (induction ys) auto

lemma sorted_ins_rev:
  "sorted_wrt (\<lambda>a b. \<not> lt a b) ys \<Longrightarrow> sorted_wrt (\<lambda>a b. \<not> lt a b) (ins_rev lt x ys)"
proof (induction ys)
  case (Cons y ys)
  show ?case
  proof (cases "lt x y")
    case True
    with Cons asym show ?thesis by (auto simp: set_ins_rev)
  next
    case False
    with Cons.prems neg_trans show ?thesis by auto
  qed
qed simp

lemma sorted_foldl_ins_rev:
  "sorted_wrt (\<lambda>a b. \<not> lt a b) acc \<Longrightarrow>
   sorted_wrt (\<lambda>a b. \<not> lt a b) (foldl (\<lambda>acc x. ins_rev lt x acc) acc xs)"
  by (induction xs arbitrary: acc) (auto simp: sorted_ins_rev)

lemma sorted_slice_stable: "sorted_wrt (\<lambda>a b. \<not> lt b a) (slice_stable lt xs)"
  by (simp add: slice_stable_def sorted_wrt_rev sorted_foldl_ins_rev)

text \<open>Stability: the elements equivalent to a given one keep their order.\<close>

definition equiv :: "'a \<Rightarrow> 'a \<Rightarrow> bool" where
  "equiv a b \<longleftrightarrow> \<not> lt a b \<and> \<not> lt b a"

lemma equiv_less: "equiv a x \<Longrightarrow> equiv a y \<Longrightarrow> \<not> lt x y"
  unfolding equiv_def using neg_trans by blast

lemma filter_ins_rev:
  "filter (equiv a) (ins_rev lt x ys) =
   (if equiv a x then [x] else []) @ filter (equiv a) ys"
  by (induction ys) (auto dest: equiv_less)

lemma filter_foldl_ins_rev:
  "filter (equiv a) (foldl (\<lambda>acc x. ins_rev lt x acc) acc xs) =
   rev (filter (equiv a) xs) @ filter (equiv a) acc"
  by (induction xs arbitrary: acc) (auto simp: filter_ins_rev)

lemma stable_slice_stable: "filter (equiv a) (slice_stable lt xs) = filter (equiv a) xs"
  by (simp add: slice_stable_def filter_foldl_ins_rev flip: rev_filter)

end

text \<open>Comparison of a numeric key, in either direction, is a strict weak order.\<close>

lemma weak_order_key_less: "weak_order (\<lambda>a b. (f a :: 'b :: linorder) < f b)"
  by unfold_locales auto

lemma weak_order_key_greater: "weak_order (\<lambda>a b. (f a :: 'b :: linorder) > f b)"
  by unfold_locales auto

section \<open>Cursors\<close>

text \<open>
  A closure that returns the next value of a sequence on every call, as a step on an explicit
  state: \<open>next\<close> gives the value (None when there is none left) and the state after the call,
  \<open>todo\<close> is the sequence still to come, \<open>ok\<close> the invariant of the state.
\<close>

fun calls :: "('s \<Rightarrow> 'a option \<times> 's) \<Rightarrow> nat \<Rightarrow> 's \<Rightarrow> 'a option list \<times> 's" where
  "calls f 0 s = ([], s)"
| "calls f (Suc n) s =
     (case f s of (v, s') \<Rightarrow> (case calls f n s' of (vs, s'') \<Rightarrow> (v # vs, s'')))"

definition head :: "'a list \<Rightarrow> 'a option" where
  "head xs = (case xs of [] \<Rightarrow> None | x # _ \<Rightarrow> Some x)"

lemma head_simps [simp]: "head [] = None" "head (x # xs) = Some x"
  by (simp_all add: head_def)

lemma head_drop: "i < length xs \<Longrightarrow> head (drop i xs) = Some (xs ! i)"
  by (simp add: head_def Cons_nth_drop_Suc [symmetric])

lemma head_drop_beyond: "length xs \<le> i \<Longrightarrow> head (drop i xs) = None"
  by simp

lemma drop_eq_Cons:
  "drop i xs = y # ys \<Longrightarrow> i < length xs \<and> xs ! i = y \<and> drop (Suc i) xs = ys"
  by (metis drop_Suc drop_all linorder_not_less list.distinct(1) list.sel(3) nth_via_drop tl_drop)

locale cursor =
  fixes step :: "'s \<Rightarrow> 'a option \<times> 's"
    and ok :: "'s \<Rightarrow> bool"
    and todo :: "'s \<Rightarrow> 'a list"
  assumes step_ok: "ok s \<Longrightarrow> ok (snd (step s))"
    and fst_step: "ok s \<Longrightarrow> fst (step s) = head (todo s)"
    and todo_step: "ok s \<Longrightarrow> todo (snd (step s)) = tl (todo s)"
begin

lemma calls_todo:
  "ok s \<Longrightarrow> fst (calls step n s) = map Some (take n (todo s)) @ replicate (n - length (todo s)) None
    \<and> ok (snd (calls step n s)) \<and> todo (snd (calls step n s)) = drop n (todo s)"
proof (induction n arbitrary: s)
  case (Suc n)
  obtain v s' where st: "step s = (v, s')" by fastforce
  with Suc.prems have "ok s'" "v = fst (step s)" "todo s' = tl (todo s)"
    using step_ok [of s] todo_step [of s] by auto
  with Suc.IH [of s'] Suc.prems st show ?case
    by (cases "todo s") (auto simp: fst_step split: prod.splits)
qed simp

lemma calls_all: "ok s \<Longrightarrow> fst (calls step (length (todo s)) s) = map Some (todo s)"
  by (simp add: calls_todo)

end

end
