(* ===== verification/Test_Status.thy ===== *)
theory Test_Status
  imports Go_Prelude
begin

text \<open>
  \<open>internal/result/results.go\<close> and the status enumeration of
  \<open>pb/test_status/test_status.proto\<close>: severities, the passing/failing/ignored predicates,
  \<open>Coalesce\<close>, and the iterator over run-length-encoded row results.
\<close>

section \<open>The status enumeration\<close>

text \<open>
  A protobuf enumeration is open: any \<open>int32\<close> can be stored.  Codes outside the declared ones are
  \<open>UNRECOGNIZED\<close>.
\<close>

datatype test_status =
    NO_RESULT | PASS | PASS_WITH_ERRORS | PASS_WITH_SKIPS | RUNNING | CATEGORIZED_ABORT
  | UNKNOWN | CANCEL | BLOCKED | TIMED_OUT | CATEGORIZED_FAIL | BUILD_FAIL | FAIL | FLAKY
  | TOOL_FAIL | BUILD_PASSED | UNRECOGNIZED int

fun status_code :: "test_status \<Rightarrow> int" where
  "status_code NO_RESULT = 0"
| "status_code PASS = 1"
| "status_code PASS_WITH_ERRORS = 2"
| "status_code PASS_WITH_SKIPS = 3"
| "status_code RUNNING = 4"
| "status_code CATEGORIZED_ABORT = 5"
| "status_code UNKNOWN = 6"
| "status_code CANCEL = 7"
| "status_code BLOCKED = 8"
| "status_code TIMED_OUT = 9"
| "status_code CATEGORIZED_FAIL = 10"
| "status_code BUILD_FAIL = 11"
| "status_code FAIL = 12"
| "status_code FLAKY = 13"
| "status_code TOOL_FAIL = 14"
| "status_code BUILD_PASSED = 15"
| "status_code (UNRECOGNIZED n) = n"

definition status_of :: "int \<Rightarrow> test_status" where
  "status_of n =
     (if n = 0 then NO_RESULT else if n = 1 then PASS else if n = 2 then PASS_WITH_ERRORS
      else if n = 3 then PASS_WITH_SKIPS else if n = 4 then RUNNING
      else if n = 5 then CATEGORIZED_ABORT else if n = 6 then UNKNOWN else if n = 7 then CANCEL
      else if n = 8 then BLOCKED else if n = 9 then TIMED_OUT else if n = 10 then CATEGORIZED_FAIL
      else if n = 11 then BUILD_FAIL else if n = 12 then FAIL else if n = 13 then FLAKY
      else if n = 14 then TOOL_FAIL else if n = 15 then BUILD_PASSED else UNRECOGNIZED n)"

text \<open>The statuses a code stands for: \<open>UNRECOGNIZED\<close> only with a code that is not declared.\<close>

definition canonical :: "test_status \<Rightarrow> bool" where
  "canonical s \<longleftrightarrow> status_of (status_code s) = s"

lemma status_code_of [simp]: "status_code (status_of n) = n"
  by (simp add: status_of_def)

lemma canonical_status_of [simp]: "canonical (status_of n)"
  by (simp add: canonical_def)

lemma status_of_code [simp]: "canonical s \<Longrightarrow> status_of (status_code s) = s"
  by (simp add: canonical_def)

lemma canonical_declared [simp]: "(\<forall>n. s \<noteq> UNRECOGNIZED n) \<Longrightarrow> canonical s"
  by (cases s) (auto simp: canonical_def status_of_def)

lemma canonical_code_eq:
  "canonical s \<Longrightarrow> canonical t \<Longrightarrow> status_code s = status_code t \<longleftrightarrow> s = t"
  by (metis canonical_def)

lemma canonical_code_0: "canonical s \<Longrightarrow> status_code s = 0 \<longleftrightarrow> s = NO_RESULT"
  by (metis canonical_code_eq canonical_status_of status_code.simps(1) status_code_of status_of_def)

section \<open>Severity\<close>

text \<open>\<open>statusSeverity\<close>; a map lookup of a missing key gives 0.\<close>

fun severity :: "test_status \<Rightarrow> nat" where
  "severity NO_RESULT = 0"
| "severity BUILD_PASSED = 1"
| "severity PASS = 2"
| "severity PASS_WITH_SKIPS = 3"
| "severity PASS_WITH_ERRORS = 4"
| "severity RUNNING = 5"
| "severity CATEGORIZED_ABORT = 6"
| "severity UNKNOWN = 7"
| "severity CANCEL = 8"
| "severity BLOCKED = 9"
| "severity FLAKY = 10"
| "severity TOOL_FAIL = 11"
| "severity TIMED_OUT = 12"
| "severity CATEGORIZED_FAIL = 13"
| "severity BUILD_FAIL = 14"
| "severity FAIL = 15"
| "severity (UNRECOGNIZED _) = 0"

text \<open>\<open>LTE\<close> compares severities: a preorder on statuses, with \<open>GTE\<close> its converse.\<close>

instantiation test_status :: preorder
begin

definition less_eq_test_status :: "test_status \<Rightarrow> test_status \<Rightarrow> bool" where
  "s \<le> t \<longleftrightarrow> severity s \<le> severity t"

definition less_test_status :: "test_status \<Rightarrow> test_status \<Rightarrow> bool" where
  "s < t \<longleftrightarrow> severity s < severity t"

instance
  by standard (auto simp: less_eq_test_status_def less_test_status_def)

end

definition LTE :: "test_status \<Rightarrow> test_status \<Rightarrow> bool" where
  "LTE rowResult compareTo \<longleftrightarrow> severity rowResult \<le> severity compareTo"

definition GTE :: "test_status \<Rightarrow> test_status \<Rightarrow> bool" where
  "GTE rowResult compareTo \<longleftrightarrow> severity rowResult \<ge> severity compareTo"

definition Passing :: "test_status \<Rightarrow> bool" where
  "Passing r \<longleftrightarrow> GTE r BUILD_PASSED \<and> LTE r PASS_WITH_ERRORS"

definition Failing :: "test_status \<Rightarrow> bool" where
  "Failing r \<longleftrightarrow> GTE r TOOL_FAIL \<and> LTE r FAIL"

lemma LTE_iff: "LTE s t \<longleftrightarrow> s \<le> t"
  by (simp add: LTE_def less_eq_test_status_def)

lemma GTE_iff: "GTE s t \<longleftrightarrow> t \<le> s"
  by (simp add: GTE_def less_eq_test_status_def)

lemmas severity_order = LTE_def GTE_def less_eq_test_status_def less_test_status_def

lemma Passing_iff [simp]:
  "Passing r \<longleftrightarrow> r \<in> {BUILD_PASSED, PASS, PASS_WITH_SKIPS, PASS_WITH_ERRORS}"
  by (cases r) (auto simp: Passing_def severity_order)

lemma Failing_iff [simp]:
  "Failing r \<longleftrightarrow> r \<in> {TOOL_FAIL, TIMED_OUT, CATEGORIZED_FAIL, BUILD_FAIL, FAIL}"
  by (cases r) (auto simp: Failing_def severity_order)

text \<open>
  \<open>Ignored\<close>: the statuses a dashboard tab can be configured to ignore
  (\<open>DashboardTabStatusCustomizationOptions.ignored_test_statuses\<close>).
\<close>

datatype ignored_status =
    IGN_UNSPECIFIED | IGN_CATEGORIZED_ABORT | IGN_UNKNOWN | IGN_CANCEL | IGN_BLOCKED

fun ignores :: "ignored_status \<Rightarrow> test_status \<Rightarrow> bool" where
  "ignores IGN_CATEGORIZED_ABORT r \<longleftrightarrow> r = CATEGORIZED_ABORT"
| "ignores IGN_UNKNOWN r \<longleftrightarrow> r = UNKNOWN"
| "ignores IGN_CANCEL r \<longleftrightarrow> r = CANCEL"
| "ignores IGN_BLOCKED r \<longleftrightarrow> r = BLOCKED"
| "ignores IGN_UNSPECIFIED r \<longleftrightarrow> False"

definition Ignored :: "test_status \<Rightarrow> ignored_status list \<Rightarrow> bool" where
  "Ignored r opts \<longleftrightarrow> list_ex (\<lambda>i. ignores i r) opts"

text \<open>\<open>Coalesce\<close>: RUNNING counts as no result exactly when \<open>ignoreRunning\<close> is set.\<close>

definition Coalesce :: "test_status \<Rightarrow> bool \<Rightarrow> test_status" where
  "Coalesce r ignoreRunning =
     (if r = NO_RESULT \<or> r = RUNNING \<and> ignoreRunning then NO_RESULT
      else if r = FLAKY then r
      else if Failing r then FAIL
      else if Passing r then PASS
      else UNKNOWN)"

lemma Coalesce_range: "Coalesce r b \<in> {NO_RESULT, FLAKY, FAIL, PASS, UNKNOWN}"
  by (simp add: Coalesce_def)

lemma Coalesce_idem [simp]: "Coalesce (Coalesce r b) b' = Coalesce r b"
  by (simp add: Coalesce_def)

lemma Coalesce_simps [simp]:
  "Coalesce NO_RESULT b = NO_RESULT" "Coalesce PASS b = PASS" "Coalesce FAIL b = FAIL"
  "Coalesce FLAKY b = FLAKY" "Coalesce UNKNOWN b = UNKNOWN"
  "Coalesce RUNNING True = NO_RESULT" "Coalesce RUNNING False = UNKNOWN"
  by (simp_all add: Coalesce_def)

lemma Coalesce_eq_iffs:
  "Coalesce r b = NO_RESULT \<longleftrightarrow> r = NO_RESULT \<or> r = RUNNING \<and> b"
  "Coalesce r b = FAIL \<longleftrightarrow> Failing r"
  "Coalesce r b = PASS \<longleftrightarrow> Passing r"
  "Coalesce r b = FLAKY \<longleftrightarrow> r = FLAKY"
  by (auto simp: Coalesce_def)

lemma Ignored_Coalesce: "Ignored r opts \<Longrightarrow> Coalesce r b = UNKNOWN"
proof -
  assume "Ignored r opts"
  then obtain i where "ignores i r" by (auto simp: Ignored_def list_ex_iff)
  then show ?thesis by (cases i) (auto simp: Coalesce_def)
qed

text \<open>Coalescing keeps the class of a status and never raises a passing one.\<close>

lemma Coalesce_Passing: "Passing (Coalesce r b) \<longleftrightarrow> Passing r"
  by (cases r) (simp_all add: Coalesce_def)

lemma Coalesce_Failing: "Failing (Coalesce r b) \<longleftrightarrow> Failing r"
  by (cases r) (simp_all add: Coalesce_def)

section \<open>Run-length-encoded results\<close>

text \<open>
  A row stores its results as \<open>[status, count, status, count, \<dots>]\<close>.  \<open>rle_expand\<close> is the sequence
  these stand for: the specification of the decoders below.
\<close>

fun rle_expand :: "int list \<Rightarrow> test_status list" where
  "rle_expand (r # n # rs) = replicate (nat n) (status_of r) @ rle_expand rs"
| "rle_expand _ = []"

text \<open>
  \<open>iterFast\<close>: the state of the closure is the rest of the encoded slice (Go: the slice and the
  index \<open>i\<close>), the remaining count \<open>more\<close> and the current \<open>status\<close>.
\<close>

record iter_state =
  it_rest :: "int list"
  it_more :: int
  it_status :: test_status

definition Iter :: "int list \<Rightarrow> iter_state" where
  "Iter results = \<lparr>it_rest = results, it_more = 0, it_status = NO_RESULT\<rparr>"

function iter_next :: "iter_state \<Rightarrow> (test_status \<times> bool) \<times> iter_state" where
  "iter_next it =
     (if it_more it > 0 then ((it_status it, True), it\<lparr>it_more := it_more it - 1\<rparr>)
      else (case it_rest it of
          r # n # rs \<Rightarrow> iter_next \<lparr>it_rest = rs, it_more = n, it_status = status_of r\<rparr>
        | _ \<Rightarrow> ((NO_RESULT, False), it)))"
  by pat_completeness auto
termination
  by (relation "measure (\<lambda>it. length (it_rest it))") auto

declare iter_next.simps [simp del]

text \<open>The value of a call as an option, the shape of the cursor interface.\<close>

definition iter_step :: "iter_state \<Rightarrow> test_status option \<times> iter_state" where
  "iter_step it =
     (case iter_next it of ((r, True), it') \<Rightarrow> (Some r, it') | ((_, False), it') \<Rightarrow> (None, it'))"

definition iter_todo :: "iter_state \<Rightarrow> test_status list" where
  "iter_todo it = replicate (nat (it_more it)) (it_status it) @ rle_expand (it_rest it)"

lemma iter_todo_Iter [simp]: "iter_todo (Iter results) = rle_expand results"
  by (simp add: iter_todo_def Iter_def)

lemma iter_next_spec:
  "fst (iter_next it) = (case iter_todo it of [] \<Rightarrow> (NO_RESULT, False) | x # _ \<Rightarrow> (x, True))
   \<and> iter_todo (snd (iter_next it)) = tl (iter_todo it)"
proof (induction it rule: iter_next.induct)
  case (1 it)
  show ?case
  proof (cases "it_more it > 0")
    case True
    then show ?thesis
      by (simp add: iter_next.simps [of it] iter_todo_def nat_pos_Suc [of "it_more it"])
  next
    case False
    show ?thesis
    proof (cases "it_rest it" rule: rle_expand.cases)
      case (1 r n rs)
      with False "1.IH" [OF False 1 refl] show ?thesis
        by (simp add: iter_next.simps [of it] iter_todo_def)
    qed (use False in \<open>auto simp: iter_next.simps [of it] iter_todo_def\<close>)
  qed
qed

lemmas iter_next_value = iter_next_spec [THEN conjunct1]
lemmas iter_next_todo = iter_next_spec [THEN conjunct2]

interpretation it: cursor iter_step "\<lambda>_. True" iter_todo
proof
  fix it :: iter_state
  show "fst (iter_step it) = head (iter_todo it)"
    using iter_next_value [of it]
    by (auto simp: iter_step_def split: prod.splits bool.splits list.splits)
  show "iter_todo (snd (iter_step it)) = tl (iter_todo it)"
    using iter_next_todo [of it] by (auto simp: iter_step_def split: prod.splits bool.splits)
qed simp

lemma rle_expand_append_pair:
  "even (length rs) \<Longrightarrow> rle_expand (rs @ [r, n]) = rle_expand rs @ replicate (nat n) (status_of r)"
  by (induction rs rule: rle_expand.induct) auto

lemma canonical_rle_expand: "s \<in> set (rle_expand rs) \<Longrightarrow> canonical s"
  by (induction rs rule: rle_expand.induct) auto

end
