(* ===== verification/Config_Proto.thy ===== *)
theory Config_Proto
  imports Test_Status
begin

text \<open>
  The configuration messages of \<open>pb/config/config.proto\<close> and \<open>pb/custom_evaluator\<close> as the Go
  code reads them: one record per message, with the fields that the modelled code uses.  An unset
  message field is \<open>None\<close>, and a getter on it gives the zero value of Go.
\<close>

section \<open>Custom evaluator rules\<close>

datatype comparison_op =
  OP_UNKNOWN | OP_EQ | OP_NE | OP_LT | OP_LE | OP_GT | OP_GE | OP_REGEX | OP_STARTS_WITH | OP_CONTAINS

datatype comparison_value =
  NoValue | StringValue string | NumericalValue float64 | TargetStatusValue test_status

record comparison =
  cmp_op :: comparison_op
  cmp_value :: comparison_value

datatype test_result_info =
  NoInfo | PropertyKey string | TestResultField string | TestResultErrorField string | TargetStatus bool

record result_comparison =
  rc_comparison :: "comparison option"
  rc_info :: test_result_info

record eval_rule =
  rule_comparisons :: "result_comparison list"
  rule_computed_status :: test_status

section \<open>Test groups\<close>

record name_element =
  ne_target_config :: string
  ne_test_property :: string

record test_name_config =
  tnc_elements :: "name_element list"
  tnc_format :: string

record notification =
  ntf_summary :: string
  ntf_context_link :: string

record column_header =
  hdr_label :: string
  hdr_property :: string
  hdr_configuration_value :: string
  hdr_list_all_values :: bool

record test_annotation =
  ann_short_text :: string
  ann_property_name :: string

record test_metadata_options =
  tmo_test_name_regex :: string
  tmo_message_regex :: string

record gcs_config =
  gcsc_prefix :: string
  gcsc_pubsub_project :: string
  gcsc_pubsub_subscription :: string

record resultstore_config =
  rsc_project :: string
  rsc_query :: string

datatype result_source = NoSource | GcsSource gcs_config | ResultstoreSource resultstore_config

datatype fallback_grouping =
    FALLBACK_GROUPING_NONE | FALLBACK_GROUPING_DATE | FALLBACK_GROUPING_LABELS
  | FALLBACK_GROUPING_ID | FALLBACK_GROUPING_BUILD | FALLBACK_GROUPING_CONFIGURATION_VALUE

datatype primary_grouping = PRIMARY_GROUPING_NONE | PRIMARY_GROUPING_BUILD

datatype tests_name_policy =
  TESTS_NAME_UNSPECIFIED | TESTS_NAME_IGNORE | TESTS_NAME_REPLACE | TESTS_NAME_APPEND

record test_group =
  tg_name :: string
  tg_gcs_prefix :: string
  tg_days_of_results :: int
  tg_ignore_pending :: bool
  tg_ignore_built :: bool
  tg_ignore_skip :: bool
  tg_tests_name_policy :: tests_name_policy
  tg_column_header :: "column_header list"
  tg_fallback_grouping :: fallback_grouping
  tg_fallback_grouping_configuration_value :: string
  tg_alert_stale_results_hours :: int
  tg_num_failures_to_alert :: int
  tg_num_passes_to_disable_alert :: int
  tg_code_search_path :: string
  tg_num_columns_recent :: int
  tg_alert_mail_to_addresses :: string
  tg_disable_merged_status :: bool
  tg_use_kubernetes_client :: bool
  tg_disable_prowjob_analysis :: bool
  tg_is_external :: bool
  tg_test_name_config :: "test_name_config option"
  tg_notifications :: "notification list"
  tg_primary_grouping :: primary_grouping
  tg_enable_test_methods :: bool
  tg_max_test_methods_per_test :: int
  tg_test_annotations :: "test_annotation list"
  tg_test_metadata_options :: "test_metadata_options list"
  tg_test_method_properties :: "(string \<times> string) list"
  tg_short_text_metric :: string
  tg_build_override_configuration_value :: string
  tg_build_override_strftime :: string
  tg_test_method_match_regex :: string
  tg_test_method_unmatch_regex :: string
  tg_use_full_method_names :: bool
  tg_result_source :: "result_source option"
  tg_rules :: "eval_rule list"
  tg_ignore_old_results :: bool
  tg_user_property :: string

text \<open>The zero value of the message, \<open>&configpb.TestGroup{}\<close>.\<close>

definition empty_test_group :: test_group where
  "empty_test_group =
     \<lparr>tg_name = [], tg_gcs_prefix = [], tg_days_of_results = 0, tg_ignore_pending = False,
      tg_ignore_built = False, tg_ignore_skip = False,
      tg_tests_name_policy = TESTS_NAME_UNSPECIFIED, tg_column_header = [],
      tg_fallback_grouping = FALLBACK_GROUPING_NONE,
      tg_fallback_grouping_configuration_value = [], tg_alert_stale_results_hours = 0,
      tg_num_failures_to_alert = 0, tg_num_passes_to_disable_alert = 0, tg_code_search_path = [],
      tg_num_columns_recent = 0, tg_alert_mail_to_addresses = [],
      tg_disable_merged_status = False, tg_use_kubernetes_client = False,
      tg_disable_prowjob_analysis = False, tg_is_external = False, tg_test_name_config = None,
      tg_notifications = [], tg_primary_grouping = PRIMARY_GROUPING_NONE,
      tg_enable_test_methods = False, tg_max_test_methods_per_test = 0,
      tg_test_annotations = [], tg_test_metadata_options = [], tg_test_method_properties = [],
      tg_short_text_metric = [], tg_build_override_configuration_value = [],
      tg_build_override_strftime = [], tg_test_method_match_regex = [],
      tg_test_method_unmatch_regex = [], tg_use_full_method_names = False,
      tg_result_source = None, tg_rules = [], tg_ignore_old_results = False,
      tg_user_property = []\<rparr>"

text \<open>Getters through unset messages: \<open>tg.GetResultSource().GetGcsConfig()\<close> and its sibling.\<close>

definition get_gcs_config :: "test_group \<Rightarrow> gcs_config option" where
  "get_gcs_config tg = (case tg_result_source tg of Some (GcsSource c) \<Rightarrow> Some c | _ \<Rightarrow> None)"

definition get_resultstore_config :: "test_group \<Rightarrow> resultstore_config option" where
  "get_resultstore_config tg =
     (case tg_result_source tg of Some (ResultstoreSource c) \<Rightarrow> Some c | _ \<Rightarrow> None)"

section \<open>Dashboards\<close>

record link_option =
  lo_key :: string
  lo_value :: string

record link_template =
  lt_url :: string
  lt_options :: "link_option list"
  lt_name :: string

record alert_options =
  ao_alert_stale_results_hours :: int
  ao_num_failures_to_alert :: int
  ao_num_passes_to_disable_alert :: int
  ao_alert_mail_to_addresses :: string

record status_options =
  so_max_acceptable_flakiness :: float64
  so_ignored_test_statuses :: "ignored_status list"
  so_min_acceptable_runs :: int

record health_options =
  ho_enable :: bool
  ho_days_of_analysis :: int

record dashboard_tab =
  tab_name :: string
  tab_test_group_name :: string
  tab_bug_component :: int
  tab_code_search_path :: string
  tab_num_columns_recent :: int
  tab_base_options :: string
  tab_open_test_template :: "link_template option"
  tab_file_bug_template :: "link_template option"
  tab_attach_bug_template :: "link_template option"
  tab_results_text :: string
  tab_results_url_template :: "link_template option"
  tab_code_search_url_template :: "link_template option"
  tab_tabular_names_regex :: string
  tab_alert_options :: "alert_options option"
  tab_status_options :: "status_options option"
  tab_open_bug_template :: "link_template option"
  tab_broken_column_threshold :: float64
  tab_health_options :: "health_options option"
  tab_description :: string
  tab_about_dashboard_url :: string
  tab_column_diff_link_templates :: "link_template list"
  tab_display_local_time :: bool

definition empty_dashboard_tab :: dashboard_tab where
  "empty_dashboard_tab =
     \<lparr>tab_name = [], tab_test_group_name = [], tab_bug_component = 0, tab_code_search_path = [],
      tab_num_columns_recent = 0, tab_base_options = [], tab_open_test_template = None,
      tab_file_bug_template = None, tab_attach_bug_template = None, tab_results_text = [],
      tab_results_url_template = None, tab_code_search_url_template = None,
      tab_tabular_names_regex = [], tab_alert_options = None, tab_status_options = None,
      tab_open_bug_template = None, tab_broken_column_threshold = 0, tab_health_options = None,
      tab_description = [], tab_about_dashboard_url = [], tab_column_diff_link_templates = [],
      tab_display_local_time = False\<rparr>"

definition zero_alert_options :: alert_options where
  "zero_alert_options =
     \<lparr>ao_alert_stale_results_hours = 0, ao_num_failures_to_alert = 0,
      ao_num_passes_to_disable_alert = 0, ao_alert_mail_to_addresses = []\<rparr>"

definition zero_status_options :: status_options where
  "zero_status_options =
     \<lparr>so_max_acceptable_flakiness = 0, so_ignored_test_statuses = [], so_min_acceptable_runs = 0\<rparr>"

definition get_alert_options :: "dashboard_tab \<Rightarrow> alert_options" where
  "get_alert_options t = (case tab_alert_options t of Some o' \<Rightarrow> o' | None \<Rightarrow> zero_alert_options)"

definition get_status_options :: "dashboard_tab \<Rightarrow> status_options" where
  "get_status_options t = (case tab_status_options t of Some o' \<Rightarrow> o' | None \<Rightarrow> zero_status_options)"

record dashboard =
  dash_name :: string
  dash_tabs :: "dashboard_tab list"
  dash_default_tab :: string
  dash_highlight_today :: bool
  dash_downplay_failing_tabs :: bool
  dash_notifications :: "notification list"

definition empty_dashboard :: dashboard where
  "empty_dashboard =
     \<lparr>dash_name = [], dash_tabs = [], dash_default_tab = [], dash_highlight_today = False,
      dash_downplay_failing_tabs = False, dash_notifications = []\<rparr>"

record dashboard_group =
  dg_name :: string
  dg_dashboard_names :: "string list"

record configuration =
  cfg_test_groups :: "test_group list"
  cfg_dashboards :: "dashboard list"
  cfg_dashboard_groups :: "dashboard_group list"

end
