(* ===== verification/Junit_Metadata.thy ===== *)
theory Junit_Metadata
  imports Go_Prelude
begin

text \<open>
  What a build leaves in storage, as the readers see it: \<open>metadata/junit/junit.go\<close> (suites and
  results, messages), \<open>metadata/job.go\<close> (started and finished, versions) and the pod summary of
  \<open>util/gcs/read.go\<close>.  XML and JSON decoding are outside the model.
\<close>

section \<open>JUnit results\<close>

record property =
  pr_name :: string
  pr_value :: string

text \<open>\<open>Errored\<close>, \<open>Failure\<close> and \<open>Skipped\<close> elements (the last without a type).\<close>

record outcome =
  oc_message :: string
  oc_value :: string

record junit_result =
  jr_name :: string
  jr_time :: float64
  jr_class_name :: string
  jr_output :: "string option"
  jr_error :: "string option"
  jr_errored :: "outcome option"
  jr_failure :: "outcome option"
  jr_skipped :: "outcome option"
  jr_properties :: "property list option"

datatype suite = Suite (su_name: string) (su_suites: "suite list") (su_results: "junit_result list")

definition SetProperty :: "string \<Rightarrow> string \<Rightarrow> junit_result \<Rightarrow> junit_result" where
  "SetProperty name val r =
     (let ps = (case jr_properties r of None \<Rightarrow> [] | Some ps \<Rightarrow> ps) in
      r\<lparr>jr_properties := Some
          (case List.extract (\<lambda>p. pr_name p = name) ps of
             Some (pre, p, post) \<Rightarrow> pre @ p\<lparr>pr_value := val\<rparr> # post
           | None \<Rightarrow> ps @ [\<lparr>pr_name = name, pr_value = val\<rparr>])\<rparr>)"

definition composeMessage :: "string list \<Rightarrow> string" where
  "composeMessage messages = str_join (filter (\<lambda>m. m \<noteq> []) messages) [CHR 0x0A]"

text \<open>\<open>truncate\<close> of \<open>junit.go\<close>, also in \<open>util/gcs/read.go\<close>: it cuts inside a character if need be.\<close>

definition junit_truncate :: "string \<Rightarrow> nat \<Rightarrow> string" where
  "junit_truncate s mx =
     (if mx = 0 then s
      else if length s < mx then s
      else take (mx div 2) s @ ''...'' @ drop (length s - mx div 2) s)"

definition outcome_filled :: "outcome option \<Rightarrow> bool" where
  "outcome_filled oc = (case oc of None \<Rightarrow> False | Some x \<Rightarrow> oc_message x \<noteq> [] \<or> oc_value x \<noteq> [])"

definition outcome_message :: "outcome option \<Rightarrow> string" where
  "outcome_message oc =
     (case oc of None \<Rightarrow> [] | Some x \<Rightarrow> composeMessage [oc_message x, oc_value x])"

definition raw_message :: "junit_result \<Rightarrow> string" where
  "raw_message r =
     (if outcome_filled (jr_errored r) then outcome_message (jr_errored r)
      else if outcome_filled (jr_failure r) then outcome_message (jr_failure r)
      else if outcome_filled (jr_skipped r) then outcome_message (jr_skipped r)
      else case jr_error r of
        Some (c # e) \<Rightarrow> c # e
      | _ \<Rightarrow> (case jr_output r of Some (c # out) \<Rightarrow> c # out | _ \<Rightarrow> []))"

definition Message :: "junit_result \<Rightarrow> nat \<Rightarrow> string" where
  "Message r mx =
     (let msg = junit_truncate (raw_message r) mx
      in if valid_utf8 msg then msg else ''invalid utf8: '' @ to_valid_utf8 ''?'' msg)"

lemma valid_ascii: "\<forall>c \<in> set s. of_char c < (0x80 :: nat) \<Longrightarrow> valid_utf8 s"
proof (induction s)
  case (Cons c s)
  then have "utf8_width (c # s) = 1" by (simp add: utf8_width_def)
  with Cons show ?case by (simp add: valid_utf8.simps [of "c # s"])
qed simp

text \<open>A message is valid UTF-8, whatever the result holds.\<close>

lemma valid_Message: "valid_utf8 (Message r mx)"
proof -
  have "valid_utf8 ''?''" "valid_utf8 ''invalid utf8: ''"
    by (rule valid_ascii, simp)+
  note marked = valid_utf8_append [OF this(2) valid_to_valid_utf8 [OF this(1)]]
  show ?thesis
  proof (cases "valid_utf8 (junit_truncate (raw_message r) mx)")
    case True
    then show ?thesis unfolding Message_def Let_def by (simp only: if_True)
  next
    case False
    then show ?thesis
      using marked [of "junit_truncate (raw_message r) mx"]
      unfolding Message_def Let_def by (simp only: if_False)
  qed
qed

lemma length_junit_truncate:
  "0 < mx \<Longrightarrow> length (junit_truncate s mx) \<le> mx + 3"
  by (auto simp: junit_truncate_def)

lemma junit_truncate_grows:
  "0 < mx \<Longrightarrow> length s = 2 * (mx div 2) \<Longrightarrow> mx \<le> length s \<Longrightarrow>
   length (junit_truncate s mx) = length s + 3"
  by (auto simp: junit_truncate_def)

section \<open>Started and finished\<close>

text \<open>\<open>Metadata map[string]interface{}\<close>: the dynamic types the code distinguishes.\<close>

datatype meta_value =
    MString string
  | MMeta "(string \<times> meta_value) list"
  | MStrings "string list"
  | MList "meta_value list"
  | MOther

type_synonym metadata = "(string, meta_value) gomap"

record started =
  sd_timestamp :: int
  sd_node :: string
  sd_repo_commit :: string
  sd_job_version :: string
  sd_repo_version :: string

record finished =
  fd_timestamp :: "int option"
  fd_passed :: "bool option"
  fd_metadata :: metadata
  fd_result :: string
  fd_job_version :: string
  fd_revision :: string
  fd_repo_version :: string

definition meta_String :: "metadata \<Rightarrow> string \<Rightarrow> string option \<times> bool" where
  "meta_String m name =
     (case map_of m name of
        None \<Rightarrow> (None, False)
      | Some (MString t) \<Rightarrow> (Some t, True)
      | Some _ \<Rightarrow> (None, True))"

definition meta_Meta :: "metadata \<Rightarrow> string \<Rightarrow> metadata option \<times> bool" where
  "meta_Meta m name =
     (case map_of m name of
        None \<Rightarrow> (None, False)
      | Some (MMeta t) \<Rightarrow> (Some t, True)
      | Some _ \<Rightarrow> (None, True))"

definition meta_Keys :: "metadata \<Rightarrow> string list" where
  "meta_Keys m = filter (\<lambda>k. snd (meta_Meta m k)) (map fst m)"

definition meta_Strings :: "metadata \<Rightarrow> (string, string) gomap" where
  "meta_Strings m =
     List.map_filter (\<lambda>(k, v). case v of MString s \<Rightarrow> Some (k, s) | _ \<Rightarrow> None) m"

fun meta_all_strings :: "meta_value list \<Rightarrow> string list option" where
  "meta_all_strings [] = Some []"
| "meta_all_strings (MString s # vs) = map_option (Cons s) (meta_all_strings vs)"
| "meta_all_strings (_ # vs) = None"

definition meta_MultiString :: "metadata \<Rightarrow> string \<Rightarrow> string list \<times> bool" where
  "meta_MultiString m name =
     (case map_of m name of
        None \<Rightarrow> ([], False)
      | Some (MStrings ss) \<Rightarrow> (ss, True)
      | Some (MList vs) \<Rightarrow> (case meta_all_strings vs of None \<Rightarrow> ([], True) | Some ss \<Rightarrow> (ss, True))
      | Some _ \<Rightarrow> ([], True))"

fun meta_firstFilled :: "string \<Rightarrow> string list \<Rightarrow> string" where
  "meta_firstFilled def [] = def"
| "meta_firstFilled def (x # xs) = (if x \<noteq> [] then x else meta_firstFilled def xs)"

definition Missing :: string where
  "Missing = ''missing''"

text \<open>The closure \<open>meta\<close> of \<open>Version\<close> dereferences what \<open>String\<close> returns whenever the key is present.\<close>

definition version_meta :: "finished \<Rightarrow> string \<Rightarrow> string go" where
  "version_meta f key =
     (case meta_String (fd_metadata f) key of
        (_, False) \<Rightarrow> Inr []
      | (Some v, True) \<Rightarrow> Inr v
      | (None, True) \<Rightarrow> Inl (Panic ''invalid memory address or nil pointer dereference''))"

text \<open>The part after the first plus sign.\<close>

fun after_plus :: "string \<Rightarrow> string option" where
  "after_plus [] = None"
| "after_plus (c # s) = (if c = CHR ''+'' then Some s else after_plus s)"

definition Version :: "started \<Rightarrow> finished \<Rightarrow> string go" where
  "Version started finished =
     go_bind (version_meta finished ''revision'') (\<lambda>revision.
     go_bind (version_meta finished ''repo-commit'') (\<lambda>repo_commit.
     go_bind (version_meta finished ''job-version'') (\<lambda>job_version.
       let val = meta_firstFilled Missing
             [fd_job_version finished, sd_job_version started, sd_repo_version started,
              fd_repo_version finished, revision, repo_commit, job_version, sd_repo_commit started];
           val = (case after_plus val of Some v \<Rightarrow> v | None \<Rightarrow> val)
       in Inr (if length val > 9 then take 9 val else val))))"

definition SetVersion ::
    "started option \<Rightarrow> finished option \<Rightarrow> string \<Rightarrow> string \<Rightarrow> started option \<times> finished option" where
  "SetVersion started finished repoCommit jobVersion =
     (case started of
        Some s \<Rightarrow> if repoCommit \<noteq> []
                   then Some (s\<lparr>sd_repo_version := repoCommit, sd_repo_commit := repoCommit\<rparr>)
                   else started
      | None \<Rightarrow> None,
      case finished of
        Some f \<Rightarrow> if jobVersion \<noteq> []
                   then Some (f\<lparr>fd_metadata := AList.update ''job-version'' (MString jobVersion) (fd_metadata f),
                               fd_job_version := jobVersion\<rparr>)
                   else finished
      | None \<Rightarrow> None)"

lemma version_meta_panics:
  "(\<exists>e. version_meta f key = Inl e) \<longleftrightarrow>
   (\<exists>v. map_of (fd_metadata f) key = Some v \<and> (\<forall>s. v \<noteq> MString s))"
  by (auto simp: version_meta_def meta_String_def split: option.splits meta_value.splits)

text \<open>\<open>Version\<close> panics exactly when one of its three metadata keys holds something else than a string.\<close>

lemma Version_panics:
  "(\<exists>e. Version s f = Inl e) \<longleftrightarrow>
   (\<exists>key \<in> {''revision'', ''repo-commit'', ''job-version''}.
      \<exists>v. map_of (fd_metadata f) key = Some v \<and> (\<forall>s. v \<noteq> MString s))"
proof -
  have "(\<exists>e. Version s f = Inl e) \<longleftrightarrow>
      (\<exists>key \<in> {''revision'', ''repo-commit'', ''job-version''}. \<exists>e. version_meta f key = Inl e)"
    by (cases "version_meta f ''revision''"; cases "version_meta f ''repo-commit''";
        cases "version_meta f ''job-version''") (simp_all add: Version_def Let_def)
  then show ?thesis unfolding version_meta_panics .
qed

lemma Version_length: "Version s f = Inr v \<Longrightarrow> length v \<le> 9"
  by (auto simp: Version_def go_simps Let_def split: if_splits)

lemma meta_firstFilled_nonempty: "d \<noteq> [] \<Longrightarrow> meta_firstFilled d xs \<noteq> []"
  by (induction xs) auto

section \<open>Pods\<close>

record container_state =
  cs_waiting :: "string option"
  cs_running :: bool
  cs_terminated :: "(int \<times> string) option"

record container_status =
  ct_name :: string
  ct_state :: container_state

record pod_condition =
  pc_type :: string
  pc_status :: string
  pc_message :: string

record pod =
  pod_phase :: string
  pod_conditions :: "pod_condition list"
  pod_init_containers :: "container_status list"
  pod_containers :: "container_status list"

definition MissingPodInfo :: string where
  "MissingPodInfo =
     ''podinfo.json not found in job artifacts (has not uploaded, or Prow's GCS reporter is not enabled).''"

definition NoPodUtils :: string where
  "NoPodUtils = ''Decoration is not enabled; set `decorate: true` on Prowjob.''"

definition checkContainerStatus :: "container_status \<Rightarrow> bool \<times> string" where
  "checkContainerStatus status =
     (let name = ct_name status; st = ct_state status in
      case cs_waiting st of
        Some msg \<Rightarrow> (False, name @ '' still waiting: '' @ msg)
      | None \<Rightarrow>
          if cs_running st then (False, name @ '' still running'')
          else (case cs_terminated st of
              Some (code, msg) \<Rightarrow>
                if code \<noteq> 0
                then (False, name @ '' exited '' @ itoa code @ '': '' @ junit_truncate msg 140)
                else (True, [])
            | None \<Rightarrow> (True, [])))"

fun summarize_init :: "container_status list \<Rightarrow> (bool \<times> string) option" where
  "summarize_init [] = None"
| "summarize_init (s # ss) =
     (case checkContainerStatus s of
        (False, msg) \<Rightarrow> Some (False, ''init container '' @ msg)
      | (True, _) \<Rightarrow> summarize_init ss)"

fun summarize_containers :: "bool \<Rightarrow> container_status list \<Rightarrow> bool \<times> string" where
  "summarize_containers sidecar [] = (if \<not> sidecar then (True, NoPodUtils) else (True, []))"
| "summarize_containers sidecar (s # ss) =
     (let sidecar' = (sidecar \<or> ct_name s = ''sidecar'') in
      case checkContainerStatus s of
        (True, _) \<Rightarrow> summarize_containers sidecar' ss
      | (False, msg) \<Rightarrow>
          if ct_name s = ''sidecar'' then (False, msg)
          else if cs_terminated (ct_state s) = None then (False, msg)
          else summarize_containers sidecar' ss)"

text \<open>The last condition of a type counts, as in the map the code builds.\<close>

definition find_condition :: "pod_condition list \<Rightarrow> string \<Rightarrow> pod_condition option" where
  "find_condition cs t = find (\<lambda>c. pc_type c = t) (rev cs)"

definition unmet :: "pod_condition option \<Rightarrow> string option" where
  "unmet c =
     (case c of Some cond \<Rightarrow> if pc_status cond \<noteq> ''True'' then Some (pc_message cond) else None
      | None \<Rightarrow> None)"

definition Summarize :: "pod option \<Rightarrow> bool \<times> string" where
  "Summarize info =
     (case info of
        None \<Rightarrow> (False, MissingPodInfo)
      | Some p \<Rightarrow>
          if pod_phase p = ''Succeeded'' then (True, [])
          else case unmet (find_condition (pod_conditions p) ''PodScheduled'') of
            Some msg \<Rightarrow> (False, ''pod did not schedule: '' @ msg)
          | None \<Rightarrow>
          (case unmet (find_condition (pod_conditions p) ''Initialized'') of
            Some msg \<Rightarrow> (False, ''pod could not initialize: '' @ msg)
          | None \<Rightarrow>
          (case summarize_init (pod_init_containers p) of
            Some res \<Rightarrow> res
          | None \<Rightarrow> summarize_containers False (pod_containers p))))"

text \<open>
  A pod passes although one of its containers failed only when that container has terminated and
  is not the sidecar, which reports its result.
\<close>

lemma summarize_containers_pass:
  "fst (summarize_containers b ss) \<longleftrightarrow>
   (\<forall>s \<in> set ss. fst (checkContainerStatus s) \<or>
      ct_name s \<noteq> ''sidecar'' \<and> cs_terminated (ct_state s) \<noteq> None)"
proof (induction ss arbitrary: b)
  case (Cons s ss)
  obtain ok msg where st: "checkContainerStatus s = (ok, msg)" by (metis prod.exhaust)
  show ?case
    by (cases ok) (simp_all add: st Let_def Cons.IH)
qed simp

lemma summarize_init_pass:
  "summarize_init ss = None \<longleftrightarrow> (\<forall>s \<in> set ss. fst (checkContainerStatus s))"
  by (induction ss) (auto split: prod.splits bool.splits)

end
