(* ===== verification/Custom_Eval.thy ===== *)
theory Custom_Eval
  imports Config_Proto Junit_Metadata
begin

text \<open>
  \<open>pkg/updater/eval.go\<close>: custom evaluator rules, which override the status of a test result (or of
  a target) when all their comparisons hold.  Calling a comparison function the operator does not
  have is a nil call, hence a panic.  The regular expression engine is a parameter:
  \<open>rx expr\<close> is None when \<open>expr\<close> does not compile, and otherwise tells which strings match.
\<close>

type_synonym regex = "string \<Rightarrow> (string \<Rightarrow> bool) option"

section \<open>String and number comparisons\<close>

text \<open>\<open>strReg\<close> keeps the compiled expressions in a global map.\<close>

definition strReg_cached ::
    "regex \<Rightarrow> (string, (string \<Rightarrow> bool) option) gomap \<Rightarrow> string \<Rightarrow> string \<Rightarrow>
     bool \<times> (string, (string \<Rightarrow> bool) option) gomap" where
  "strReg_cached rx res val expr =
     (let (r, res') = (case map_of res expr of
          Some r \<Rightarrow> (r, res)
        | None \<Rightarrow> (rx expr, AList.update expr (rx expr) res))
      in (case r of None \<Rightarrow> False | Some m \<Rightarrow> m val, res'))"

definition strReg :: "regex \<Rightarrow> string \<Rightarrow> string \<Rightarrow> bool" where
  "strReg rx val expr = (case rx expr of None \<Rightarrow> False | Some m \<Rightarrow> m val)"

definition cache_ok :: "regex \<Rightarrow> (string, (string \<Rightarrow> bool) option) gomap \<Rightarrow> bool" where
  "cache_ok rx res \<longleftrightarrow> (\<forall>e r. map_of res e = Some r \<longrightarrow> r = rx e)"

text \<open>The cache is transparent, from the empty map on.\<close>

lemma strReg_cached_transparent:
  "cache_ok rx res \<Longrightarrow> fst (strReg_cached rx res val expr) = strReg rx val expr \<and>
   cache_ok rx (snd (strReg_cached rx res val expr))"
  by (auto simp: strReg_cached_def strReg_def cache_ok_def update_conv' split: option.splits if_splits)

lemma cache_ok_Nil: "cache_ok rx []"
  by (simp add: cache_ok_def)

definition strStartsWith :: "string \<Rightarrow> string \<Rightarrow> bool" where
  "strStartsWith a b = has_prefix b a"

definition strContains :: "string \<Rightarrow> string \<Rightarrow> bool" where
  "strContains a b = str_contains a b"

fun string_cmp :: "regex \<Rightarrow> comparison_op \<Rightarrow> (string \<Rightarrow> string \<Rightarrow> bool) option" where
  "string_cmp rx OP_CONTAINS = Some strContains"
| "string_cmp rx OP_REGEX = Some (strReg rx)"
| "string_cmp rx OP_STARTS_WITH = Some strStartsWith"
| "string_cmp rx OP_EQ = Some (\<lambda>a b. a = b)"
| "string_cmp rx OP_NE = Some (\<lambda>a b. a \<noteq> b)"
| "string_cmp rx _ = None"

fun number_cmp :: "comparison_op \<Rightarrow> (float64 \<Rightarrow> float64 \<Rightarrow> bool) option" where
  "number_cmp OP_EQ = Some (\<lambda>a b. a = b)"
| "number_cmp OP_NE = Some (\<lambda>a b. a \<noteq> b)"
| "number_cmp _ = None"

definition get_string_value :: "comparison \<Rightarrow> string" where
  "get_string_value c = (case cmp_value c of StringValue s \<Rightarrow> s | _ \<Rightarrow> [])"

definition get_numerical_value :: "comparison \<Rightarrow> float64" where
  "get_numerical_value c = (case cmp_value c of NumericalValue v \<Rightarrow> v | _ \<Rightarrow> 0)"

definition get_target_status_value :: "comparison \<Rightarrow> test_status" where
  "get_target_status_value c = (case cmp_value c of TargetStatusValue s \<Rightarrow> s | _ \<Rightarrow> NO_RESULT)"

definition get_property_key :: "result_comparison \<Rightarrow> string" where
  "get_property_key c = (case rc_info c of PropertyKey k \<Rightarrow> k | _ \<Rightarrow> [])"

definition get_test_result_field :: "result_comparison \<Rightarrow> string" where
  "get_test_result_field c = (case rc_info c of TestResultField f \<Rightarrow> f | _ \<Rightarrow> [])"

definition get_test_result_error_field :: "result_comparison \<Rightarrow> string" where
  "get_test_result_error_field c = (case rc_info c of TestResultErrorField f \<Rightarrow> f | _ \<Rightarrow> [])"

definition get_target_status :: "result_comparison \<Rightarrow> bool" where
  "get_target_status c = (case rc_info c of TargetStatus b \<Rightarrow> b | _ \<Rightarrow> False)"

section \<open>The interface \<open>TestResult\<close> and its JUnit implementation\<close>

record test_result =
  tr_properties :: "(string, string list) gomap option"
  tr_name :: string
  tr_errors :: nat
  tr_failures :: nat
  tr_exceptions :: "string list"

text \<open>\<open>out[p.Name] = append(out[p.Name], p.Value)\<close> over a list of properties.\<close>

definition append_value ::
    "string \<Rightarrow> 'a \<Rightarrow> (string, 'a list) gomap \<Rightarrow> (string, 'a list) gomap" where
  "append_value k v m = AList.update k ((case map_of m k of Some vs \<Rightarrow> vs | None \<Rightarrow> []) @ [v]) m"

definition group_values :: "property list \<Rightarrow> (string, string list) gomap" where
  "group_values ps = fold (\<lambda>p. append_value (pr_name p) (pr_value p)) ps []"

definition jUnitTestResult :: "junit_result \<Rightarrow> test_result" where
  "jUnitTestResult r =
     \<lparr>tr_properties = (case jr_properties r of
          None \<Rightarrow> None | Some [] \<Rightarrow> None | Some ps \<Rightarrow> Some (group_values ps)),
      tr_name = jr_name r,
      tr_errors = (if jr_errored r \<noteq> None then 1 else 0),
      tr_failures = (if jr_failure r \<noteq> None then 1 else 0),
      tr_exceptions = (case jr_errored r of Some e \<Rightarrow> [oc_value e] | None \<Rightarrow> []) @
                      (case jr_failure r of Some f \<Rightarrow> [oc_value f] | None \<Rightarrow> [])\<rparr>"

lemma map_of_append_value:
  "map_of (append_value k v m) =
   (map_of m)(k \<mapsto> (case map_of m k of Some vs \<Rightarrow> vs | None \<Rightarrow> []) @ [v])"
  by (simp add: append_value_def update_conv')

lemma map_of_group_values:
  "map_of (group_values ps) k =
   (let vs = map pr_value (filter (\<lambda>p. pr_name p = k) ps) in if vs = [] then None else Some vs)"
proof -
  have "map_of (fold (\<lambda>p. append_value (pr_name p) (pr_value p)) ps m) k =
      (let vs = map pr_value (filter (\<lambda>p. pr_name p = k) ps) in
       if vs = [] then map_of m k
       else Some ((case map_of m k of Some us \<Rightarrow> us | None \<Rightarrow> []) @ vs))" for m
    by (induction ps arbitrary: m) (auto simp: map_of_append_value Let_def split: option.splits)
  from this [of "[]"] show ?thesis by (simp add: group_values_def Let_def)
qed

section \<open>Rules\<close>

definition nil_call :: "'a go" where
  "nil_call = Inl (Panic ''invalid memory address or nil pointer dereference'')"

text \<open>One comparison: Inr False is the \<open>return nil\<close> of the loop.\<close>

definition eval_comparison :: "regex \<Rightarrow> test_result \<Rightarrow> result_comparison \<Rightarrow> bool go" where
  "eval_comparison rx tr c =
     (case rc_comparison c of
        None \<Rightarrow> Inr False
      | Some cmp \<Rightarrow>
        (let scmp = string_cmp rx (cmp_op cmp); fcmp = number_cmp (cmp_op cmp);
             sval = get_string_value cmp; fval = get_numerical_value cmp in
         if get_property_key c \<noteq> [] then
           (case scmp of
              None \<Rightarrow> Inr False
            | Some f \<Rightarrow>
              (case tr_properties tr of
                 None \<Rightarrow> Inr False
               | Some props \<Rightarrow>
                 Inr (list_ex (\<lambda>val. f val sval)
                   (case map_of props (get_property_key c) of Some vs \<Rightarrow> vs | None \<Rightarrow> []))))
         else if get_test_result_field c \<noteq> [] then
           (let f = get_test_result_field c in
            if f = ''name'' then (case scmp of None \<Rightarrow> nil_call | Some g \<Rightarrow> Inr (g (tr_name tr) sval))
            else if f = ''error_count'' then
              (case fcmp of None \<Rightarrow> nil_call | Some g \<Rightarrow> Inr (g (of_nat (tr_errors tr)) fval))
            else if f = ''failure_count'' then
              (case fcmp of None \<Rightarrow> nil_call | Some g \<Rightarrow> Inr (g (of_nat (tr_failures tr)) fval))
            else Inr False)
         else if get_test_result_error_field c \<noteq> [] then
           (case scmp of
              None \<Rightarrow> Inr False
            | Some f \<Rightarrow>
                if get_test_result_error_field c \<noteq> ''exception_type'' then Inr False
                else Inr (list_ex (\<lambda>got. f got sval) (tr_exceptions tr)))
         else Inr False))"

fun eval_comparisons :: "regex \<Rightarrow> test_result \<Rightarrow> result_comparison list \<Rightarrow> bool go" where
  "eval_comparisons rx tr [] = Inr True"
| "eval_comparisons rx tr (c # cs) =
     go_bind (eval_comparison rx tr c) (\<lambda>ok. if ok then eval_comparisons rx tr cs else Inr False)"

definition evalProperties :: "regex \<Rightarrow> eval_rule \<Rightarrow> test_result \<Rightarrow> test_status option go" where
  "evalProperties rx rule tr =
     go_bind (eval_comparisons rx tr (rule_comparisons rule))
       (\<lambda>ok. Inr (if ok then Some (rule_computed_status rule) else None))"

fun CustomStatus :: "regex \<Rightarrow> eval_rule list \<Rightarrow> test_result \<Rightarrow> test_status option go" where
  "CustomStatus rx [] tr = Inr None"
| "CustomStatus rx (rule # rules) tr =
     go_bind (evalProperties rx rule tr)
       (\<lambda>got. case got of Some s \<Rightarrow> Inr (Some s) | None \<Rightarrow> CustomStatus rx rules tr)"

fun eval_target_comparisons :: "test_status \<Rightarrow> result_comparison list \<Rightarrow> bool" where
  "eval_target_comparisons status [] \<longleftrightarrow> True"
| "eval_target_comparisons status (c # cs) \<longleftrightarrow>
     (case rc_comparison c of
        None \<Rightarrow> False
      | Some cmp \<Rightarrow>
          if cmp_op cmp \<noteq> OP_EQ then False
          else if get_target_status c then
            (if status \<noteq> get_target_status_value cmp then False else eval_target_comparisons status cs)
          else False)"

definition evalTargetProperties :: "eval_rule \<Rightarrow> test_status \<Rightarrow> test_status option" where
  "evalTargetProperties rule status =
     (if eval_target_comparisons status (rule_comparisons rule) then Some (rule_computed_status rule)
      else None)"

fun CustomTargetStatus :: "eval_rule list \<Rightarrow> test_status \<Rightarrow> test_status option" where
  "CustomTargetStatus [] status = None"
| "CustomTargetStatus (rule # rules) status =
     (case evalTargetProperties rule status of
        Some s \<Rightarrow> Some s | None \<Rightarrow> CustomTargetStatus rules status)"

subsection \<open>What a rule means\<close>

text \<open>The comparisons that cannot panic: a field that is compared has the operator's function.\<close>

definition comparison_ok :: "result_comparison \<Rightarrow> bool" where
  "comparison_ok c \<longleftrightarrow>
     (\<forall>cmp. rc_comparison c = Some cmp \<longrightarrow>
        (rc_info c = TestResultField ''name'' \<longrightarrow>
           cmp_op cmp \<in> {OP_CONTAINS, OP_REGEX, OP_STARTS_WITH, OP_EQ, OP_NE}) \<and>
        (rc_info c \<in> {TestResultField ''error_count'', TestResultField ''failure_count''} \<longrightarrow>
           cmp_op cmp \<in> {OP_EQ, OP_NE}))"

definition comparison_holds :: "regex \<Rightarrow> test_result \<Rightarrow> result_comparison \<Rightarrow> bool" where
  "comparison_holds rx tr c \<longleftrightarrow> eval_comparison rx tr c = Inr True"

definition rule_matches :: "regex \<Rightarrow> test_result \<Rightarrow> eval_rule \<Rightarrow> bool" where
  "rule_matches rx tr rule \<longleftrightarrow> list_all (comparison_holds rx tr) (rule_comparisons rule)"

lemma string_cmp_None: "string_cmp rx o' = None \<longleftrightarrow> o' \<notin> {OP_CONTAINS, OP_REGEX, OP_STARTS_WITH, OP_EQ, OP_NE}"
  by (cases o') auto

lemma number_cmp_None: "number_cmp o' = None \<longleftrightarrow> o' \<notin> {OP_EQ, OP_NE}"
  by (cases o') auto

text \<open>A comparison panics exactly on a count or a name with an operator it does not have.\<close>

lemma eval_comparison_ok: "(\<exists>b. eval_comparison rx tr c = Inr b) \<longleftrightarrow> comparison_ok c"
proof (cases "rc_comparison c")
  case (Some cmp)
  note getters = get_property_key_def get_test_result_field_def get_test_result_error_field_def
  note defs = eval_comparison_def comparison_ok_def getters nil_call_def Let_def
  show ?thesis
  proof (cases "rc_info c")
    case info: (TestResultField f)
    consider "f = ''name''" | "f = ''error_count'' \<or> f = ''failure_count''"
      | "f \<notin> {''name'', ''error_count'', ''failure_count''}"
      by blast
    then show ?thesis
    proof cases
      case 1
      then show ?thesis
        by (cases "cmp_op cmp") (simp_all add: defs Some info)
    next
      case 2
      then show ?thesis
        by (elim disjE; cases "cmp_op cmp") (simp_all add: defs Some info)
    next
      case 3
      then show ?thesis by (simp add: defs Some info) blast
    qed
  next
    case (PropertyKey k)
    then show ?thesis by (auto simp: defs Some split: option.split)
  next
    case (TestResultErrorField k)
    then show ?thesis by (auto simp: defs Some split: option.split)
  qed (auto simp: defs Some)
qed (auto simp: eval_comparison_def comparison_ok_def)

lemma eval_comparisons_ok:
  "\<forall>c \<in> set cs. comparison_ok c \<Longrightarrow>
   eval_comparisons rx tr cs = Inr (list_all (comparison_holds rx tr) cs)"
proof (induction cs)
  case (Cons c cs)
  then obtain b where "eval_comparison rx tr c = Inr b"
    using eval_comparison_ok by (metis list.set_intros(1))
  with Cons show ?case by (cases b) (auto simp: comparison_holds_def)
qed simp

lemma CustomStatus_find:
  "\<forall>rule \<in> set rules. \<forall>c \<in> set (rule_comparisons rule). comparison_ok c \<Longrightarrow>
   CustomStatus rx rules tr = Inr (map_option rule_computed_status (find (rule_matches rx tr) rules))"
  by (induction rules) (auto simp: evalProperties_def eval_comparisons_ok rule_matches_def)

lemma eval_target_comparisons_all:
  "eval_target_comparisons status cs \<longleftrightarrow>
   (\<forall>c \<in> set cs. rc_info c = TargetStatus True \<and>
      (\<exists>cmp. rc_comparison c = Some cmp \<and> cmp_op cmp = OP_EQ \<and> get_target_status_value cmp = status))"
  by (induction cs) (auto simp: get_target_status_def split: option.splits test_result_info.splits)

end
