(* ===== verification/State_Proto.thy ===== *)
theory State_Proto
  imports Config_Proto
begin

text \<open>
  The grid of \<open>pb/state/state.proto\<close> (columns, run-length-encoded rows, sparse metrics, alerts) and
  the inflated cells and columns of \<open>pkg/updater/inflate.go\<close> it is built from.
\<close>

record timestamp =
  ts_seconds :: int
  ts_nanos :: int

record stats =
  st_fail_count :: int
  st_pass_count :: int
  st_total_count :: int
  st_pending :: bool
  st_broken :: bool

record column =
  col_build :: string
  col_name :: string
  col_started :: float64
  col_extra :: "string list"
  col_hotlist_ids :: string
  col_hint :: string
  col_email_addresses :: "string list"
  col_stats :: "stats option"

definition empty_column :: column where
  "empty_column =
     \<lparr>col_build = [], col_name = [], col_started = 0, col_extra = [], col_hotlist_ids = [],
      col_hint = [], col_email_addresses = [], col_stats = None\<rparr>"

text \<open>Sparse metric: \<open>indices\<close> alternates a start index and a count of filled values.\<close>

record metric =
  m_name :: string
  m_indices :: "int list"
  m_values :: "float64 list"

record alert_info =
  al_fail_count :: int
  al_fail_build_id :: string
  al_latest_fail_build_id :: string
  al_fail_time :: "timestamp option"
  al_fail_test_id :: string
  al_latest_fail_test_id :: string
  al_failure_message :: string
  al_pass_time :: "timestamp option"
  al_pass_build_id :: string
  al_email_addresses :: "string list"
  al_hotlist_ids :: "string list"
  al_properties :: "(string, string) gomap"
  al_custom_column_headers :: "(string, string) gomap"

record row =
  row_name :: string
  row_id :: string
  row_results :: "int list"
  row_cell_ids :: "string list"
  row_messages :: "string list"
  row_metric :: "string list"
  row_metrics :: "metric list"
  row_icons :: "string list"
  row_issues :: "string list"
  row_alert :: "alert_info option"
  row_user_property :: "string list"
  row_properties :: "(string, string) gomap list"

record grid =
  grid_columns :: "column list"
  grid_rows :: "row list"
  grid_config :: "test_group option"

definition empty_grid :: grid where
  "empty_grid = \<lparr>grid_columns = [], grid_rows = [], grid_config = None\<rparr>"

text \<open>\<open>Cell\<close> and \<open>InflatedColumn\<close>.\<close>

record cell =
  c_result :: test_status
  c_id :: string
  c_cell_id :: string
  c_properties :: "(string, string) gomap"
  c_icon :: string
  c_message :: string
  c_metrics :: "(string, float64) gomap"
  c_user_property :: string
  c_issues :: "string list"

definition zero_cell :: cell where
  "zero_cell =
     \<lparr>c_result = NO_RESULT, c_id = [], c_cell_id = [], c_properties = [], c_icon = [],
      c_message = [], c_metrics = [], c_user_property = [], c_issues = []\<rparr>"

record inflated_column =
  ic_column :: column
  ic_cells :: "(string, cell) gomap"

text \<open>
  \<open>result.Map\<close>: one iterator per row name; a later row of the same name replaces the earlier one.
\<close>

definition result_map :: "row list \<Rightarrow> (string, iter_state) gomap" where
  "result_map rows =
     fold (\<lambda>r m. AList.update (row_name r) (Iter (row_results r)) m) rows []"

text \<open>One call on every iterator of a map: the values, in iteration order, and the new map.\<close>

definition next_all ::
    "(string, iter_state) gomap \<Rightarrow> (test_status \<times> bool) list \<times> (string, iter_state) gomap" where
  "next_all m = (map (\<lambda>(k, it). fst (iter_next it)) m, map (\<lambda>(k, it). (k, snd (iter_next it))) m)"

lemma set_result_map:
  "(k, it) \<in> set (result_map rows) \<Longrightarrow> \<exists>r \<in> set rows. row_name r = k \<and> it = Iter (row_results r)"
proof -
  have "(k, it) \<in> set (fold (\<lambda>r m. AList.update (row_name r) (Iter (row_results r)) m) rows m0) \<Longrightarrow>
      (k, it) \<in> set m0 \<or> (\<exists>r \<in> set rows. row_name r = k \<and> it = Iter (row_results r))" for m0
  proof (induction rows arbitrary: m0)
    case (Cons r rows)
    have upd: "(k, it) \<in> set (AList.update a b m) \<Longrightarrow> (k, it) = (a, b) \<or> (k, it) \<in> set m" for a b m
      by (induction m) (auto split: if_splits)
    from Cons.IH [of "AList.update (row_name r) (Iter (row_results r)) m0"] Cons.prems
    show ?case by (auto dest: upd)
  qed simp
  then show "(k, it) \<in> set (result_map rows) \<Longrightarrow> ?thesis"
    by (fastforce simp: result_map_def)
qed

lemma result_map_distinct:
  "distinct (map row_name rows) \<Longrightarrow>
   result_map rows = map (\<lambda>r. (row_name r, Iter (row_results r))) rows"
proof -
  have "distinct (map row_name rows) \<Longrightarrow> (\<forall>r \<in> set rows. row_name r \<notin> fst ` set m) \<Longrightarrow>
      fold (\<lambda>r m. AList.update (row_name r) (Iter (row_results r)) m) rows m =
      m @ map (\<lambda>r. (row_name r, Iter (row_results r))) rows" for m
  proof (induction rows arbitrary: m)
    case (Cons r rows)
    have new: "k \<notin> fst ` set m \<Longrightarrow> AList.update k v m = m @ [(k, v)]" for k :: string and v m
      by (induction m) auto
    from Cons.prems have "\<forall>r' \<in> set rows. row_name r' \<notin> fst ` set (m @ [(row_name r, Iter (row_results r))])"
      by (auto simp: image_iff)
    with Cons show ?case by (simp add: new)
  qed simp
  then show "distinct (map row_name rows) \<Longrightarrow> ?thesis"
    by (simp add: result_map_def)
qed

end
