(* ===== verification/Cells.thy ===== *)
theory Cells
  imports Custom_Eval State_Proto
begin

text \<open>
  From a build in storage to a column: \<open>pkg/updater/gcs.go\<close> and the naming and reading parts of
  \<open>pkg/updater/read.go\<close>.  The wall clock is an argument \<open>now\<close> (Unix seconds); number parsing and
  formatting (\<open>strconv.ParseFloat\<close>, \<open>strconv.FormatFloat\<close>) are the arguments \<open>parse_float\<close> and
  \<open>format_float\<close>.
\<close>

section \<open>Duplicate cells\<close>

definition maxDuplicates :: nat where
  "maxDuplicates = 20"

definition overflowCell :: cell where
  "overflowCell =
     zero_cell\<lparr>c_result := FAIL, c_icon := ''...'', c_message := ''Too many duplicately named rows''\<rparr>"

fun split_from :: "string \<Rightarrow> nat \<Rightarrow> cell list \<Rightarrow> (string, cell) gomap" where
  "split_from name idx [] = []"
| "split_from name idx (c # cs) =
     (if idx = 0 then (name, c) # split_from name (Suc idx) cs
      else if idx = maxDuplicates then [(name @ '' [overflow]'', overflowCell)]
      else (name @ '' ['' @ nat_str idx @ '']'', c) # split_from name (Suc idx) cs)"

definition SplitCells :: "string \<Rightarrow> cell list \<Rightarrow> (string, cell) gomap" where
  "SplitCells originalName cells = split_from originalName 0 cells"

definition split_name :: "string \<Rightarrow> nat \<Rightarrow> string" where
  "split_name name i =
     (if i = 0 then name else if i = maxDuplicates then name @ '' [overflow]''
      else name @ '' ['' @ nat_str i @ '']'')"

lemma nat_str_digits: "c \<in> set (nat_str n) \<Longrightarrow> c \<in> digit ` {0..<10}"
proof (induction n rule: nat_str.induct)
  case (1 n)
  then show ?case
    by (cases "n < 10") (auto simp: nat_str.simps [of n])
qed

lemma digit_not_o: "d < 10 \<Longrightarrow> digit d \<noteq> CHR ''o''"
proof
  assume "d < 10" "digit d = CHR ''o''"
  then have "of_char (CHR ''o'') = 48 + d" using of_char_digit by metis
  then show False using \<open>d < 10\<close> by simp
qed

lemma nat_str_not_overflow: "nat_str n @ '']'' \<noteq> ''overflow]''"
proof
  assume eq: "nat_str n @ '']'' = ''overflow]''"
  have "nat_str n \<noteq> []" by (cases "n < 10") (simp_all add: nat_str.simps [of n])
  with eq have "hd (nat_str n) = CHR ''o''" "hd (nat_str n) \<in> set (nat_str n)"
    by (cases "nat_str n"; simp)+
  then show False using nat_str_digits [of _ n] digit_not_o by fastforce
qed

lemma split_name_inj: "split_name name i = split_name name j \<Longrightarrow> i = j"
  using nat_str_not_overflow [of i] nat_str_not_overflow [of j]
  by (auto simp: split_name_def split: if_splits dest: sym)

lemma split_from_spec:
  "i \<le> maxDuplicates \<Longrightarrow>
   split_from name i cs =
     map (\<lambda>k. (split_name name k, if k = maxDuplicates then overflowCell else cs ! (k - i)))
       [i..<min (i + length cs) (Suc maxDuplicates)]"
proof (induction name i cs rule: split_from.induct)
  case (2 name i c cs)
  show ?case
  proof (cases "i = maxDuplicates")
    case True
    then show ?thesis by (simp add: split_name_def maxDuplicates_def)
  next
    case False
    with "2.prems" have i: "i < maxDuplicates" by simp
    have "split_from name i (c # cs) = (split_name name i, c) # split_from name (Suc i) cs"
      using False by (simp add: split_name_def)
    moreover have "split_from name (Suc i) cs =
        map (\<lambda>k. (split_name name k, if k = maxDuplicates then overflowCell else cs ! (k - Suc i)))
          [Suc i..<min (Suc i + length cs) (Suc maxDuplicates)]"
      using "2.IH" i by (cases "i = 0") auto
    moreover have "[i..<min (i + length (c # cs)) (Suc maxDuplicates)] =
        i # [Suc i..<min (Suc i + length cs) (Suc maxDuplicates)]"
      using i upt_conv_Cons [of i "min (i + length (c # cs)) (Suc maxDuplicates)"] by simp
    ultimately show ?thesis
      using i by (auto simp: nth_Cons')
  qed
qed simp

text \<open>The names are distinct: at most twenty cells and one that says there were more.\<close>

lemma SplitCells_spec:
  "SplitCells name cs =
     map (\<lambda>k. (split_name name k, if k = maxDuplicates then overflowCell else cs ! k))
       [0..<min (length cs) (Suc maxDuplicates)]"
  using split_from_spec [of 0 name cs] by (simp add: SplitCells_def)

lemma SplitCells_distinct: "distinct (map fst (SplitCells name cs))"
  by (auto simp: SplitCells_spec distinct_map comp_def inj_on_def intro: split_name_inj)

section \<open>MergeCells\<close>

record merge_state =
  mg_current :: test_status
  mg_pass :: nat
  mg_pass_msg :: string
  mg_fail :: nat
  mg_fail_msg :: string
  mg_means :: "(string, float64 list) gomap"
  mg_issues :: "string list"
  mg_pass_result :: test_status
  mg_fail_result :: test_status

definition merge_cell :: "cell \<Rightarrow> merge_state \<Rightarrow> merge_state" where
  "merge_cell c st =
     (let st = (if GTE (c_result c) (mg_current st) then st\<lparr>mg_current := c_result c\<rparr> else st);
          st = (if Passing (c_result c) then
                  (let st = st\<lparr>mg_pass := Suc (mg_pass st)\<rparr> in
                   if c_message c \<noteq> [] \<and> GTE (c_result c) (mg_pass_result st)
                   then st\<lparr>mg_pass_msg := c_message c, mg_pass_result := c_result c\<rparr> else st)
                else if Failing (c_result c) then
                  (let st = st\<lparr>mg_fail := Suc (mg_fail st)\<rparr> in
                   if c_message c \<noteq> [] \<and> GTE (c_result c) (mg_fail_result st)
                   then st\<lparr>mg_fail_msg := c_message c, mg_fail_result := c_result c\<rparr> else st)
                else st)
      in st\<lparr>mg_means := fold (\<lambda>(k, v). append_value k v) (c_metrics c) (mg_means st),
            mg_issues := mg_issues st @ c_issues c\<rparr>)"

definition merge_init :: "test_status \<Rightarrow> merge_state" where
  "merge_init current =
     \<lparr>mg_current = current, mg_pass = 0, mg_pass_msg = [], mg_fail = 0, mg_fail_msg = [],
      mg_means = [], mg_issues = [], mg_pass_result = current, mg_fail_result = current\<rparr>"

definition mean :: "float64 list \<Rightarrow> float64" where
  "mean vs = sum_list vs / of_nat (length vs)"

definition MergeCells :: "bool \<Rightarrow> cell list \<Rightarrow> cell go" where
  "MergeCells flaky cells =
     (case cells of
        [] \<Rightarrow> Inl (Panic ''empty cells'')
      | [c] \<Rightarrow> Inr c
      | out # _ \<Rightarrow>
        (let st = fold merge_cell cells (merge_init (c_result out));
             out = (if mg_issues st \<noteq> [] then out\<lparr>c_issues := sort (remdups (mg_issues st))\<rparr> else out);
             out = out\<lparr>c_result := (if flaky \<and> mg_pass st > 0 \<and> mg_fail st > 0 then FLAKY
                                  else mg_current st),
                       c_icon := nat_str (mg_pass st) @ ''/'' @ nat_str (length cells)\<rparr>;
             msg = (if mg_fail_msg st \<noteq> [] then mg_fail_msg st
                    else if mg_pass_msg st \<noteq> [] then mg_pass_msg st else []);
             msg = (if msg \<noteq> [] then '': '' @ msg else []);
             out = out\<lparr>c_message := c_icon out @ '' runs passed'' @ msg\<rparr>
         in Inr (if mg_means st \<noteq> []
                 then out\<lparr>c_metrics := map (\<lambda>(k, vs). (k, mean vs)) (mg_means st)\<rparr> else out)))"

definition cell_count :: "(test_status \<Rightarrow> bool) \<Rightarrow> cell list \<Rightarrow> nat" where
  "cell_count P cs = length (filter (\<lambda>c. P (c_result c)) cs)"

definition metric_values :: "string \<Rightarrow> cell list \<Rightarrow> float64 list" where
  "metric_values k cs = concat (map (\<lambda>c. map snd (filter (\<lambda>kv. fst kv = k) (c_metrics c))) cs)"

lemma merge_cell_simps [simp]:
  "mg_current (merge_cell c st) = (if GTE (c_result c) (mg_current st) then c_result c else mg_current st)"
  "mg_pass (merge_cell c st) = mg_pass st + (if Passing (c_result c) then 1 else 0)"
  "mg_fail (merge_cell c st) =
     mg_fail st + (if Failing (c_result c) \<and> \<not> Passing (c_result c) then 1 else 0)"
  "mg_means (merge_cell c st) = fold (\<lambda>(k, v). append_value k v) (c_metrics c) (mg_means st)"
  "mg_issues (merge_cell c st) = mg_issues st @ c_issues c"
  by (simp_all add: merge_cell_def Let_def)

lemma merge_counts:
  "mg_pass (fold merge_cell cs st) = mg_pass st + cell_count Passing cs"
  "mg_fail (fold merge_cell cs st) = mg_fail st + cell_count Failing cs"
  "mg_issues (fold merge_cell cs st) = mg_issues st @ concat (map c_issues cs)"
  by (induction cs arbitrary: st) (auto simp: cell_count_def)

lemma merge_current:
  "mg_current (fold merge_cell cs st) \<in> insert (mg_current st) (c_result ` set cs) \<and>
   mg_current st \<le> mg_current (fold merge_cell cs st) \<and>
   (\<forall>c \<in> set cs. c_result c \<le> mg_current (fold merge_cell cs st))"
proof (induction cs arbitrary: st)
  case (Cons c cs)
  have "mg_current st \<le> mg_current (merge_cell c st)" "c_result c \<le> mg_current (merge_cell c st)"
    by (auto simp: severity_order)
  with Cons.IH [of "merge_cell c st"] show ?case
    by (auto intro: order_trans split: if_splits)
qed simp

lemma map_of_fold_append_value:
  "map_of (fold (\<lambda>(k, v). append_value k v) kvs m) x =
   (let vs = map snd (filter (\<lambda>kv. fst kv = x) kvs) in
    if vs = [] then map_of m x
    else Some ((case map_of m x of Some us \<Rightarrow> us | None \<Rightarrow> []) @ vs))"
  by (induction kvs arbitrary: m) (auto simp: map_of_append_value Let_def split: option.splits)

lemma merge_means:
  "map_of (mg_means (fold merge_cell cs st)) k =
   (let vs = metric_values k cs in
    if vs = [] then map_of (mg_means st) k
    else Some ((case map_of (mg_means st) k of Some us \<Rightarrow> us | None \<Rightarrow> []) @ vs))"
  by (induction cs arbitrary: st)
     (auto simp: metric_values_def map_of_fold_append_value Let_def split: option.splits)

lemma map_of_map_snd: "map_of (map (\<lambda>(k, v). (k, f v)) m) x = map_option f (map_of m x)"
  by (induction m) auto

text \<open>
  What merging two or more cells gives: the most severe result (or FLAKY when there are passes and
  failures and the caller asks for it), the number of passes over the number of cells, and the
  mean of every metric.
\<close>

lemma MergeCells_spec:
  assumes "2 \<le> length cs"
  shows "\<exists>out. MergeCells flaky cs = Inr out \<and>
    c_icon out = nat_str (cell_count Passing cs) @ ''/'' @ nat_str (length cs) \<and>
    (if flaky \<and> 0 < cell_count Passing cs \<and> 0 < cell_count Failing cs then c_result out = FLAKY
     else c_result out \<in> c_result ` set cs \<and> (\<forall>c \<in> set cs. c_result c \<le> c_result out)) \<and>
    (\<forall>k. map_of (c_metrics out) k =
       (if metric_values k cs = [] then None else Some (mean (metric_values k cs))))"
proof -
  from assms obtain a b r where cs: "cs = a # b # r"
    by (cases cs; cases "tl cs") auto
  define st where "st = fold merge_cell cs (merge_init (c_result a))"
  have cur: "mg_current st \<in> c_result ` set cs" "\<forall>c \<in> set cs. c_result c \<le> mg_current st"
    using merge_current [of cs "merge_init (c_result a)"] by (auto simp: st_def merge_init_def cs)
  have num: "mg_pass st = cell_count Passing cs" "mg_fail st = cell_count Failing cs"
    by (simp_all add: st_def merge_counts merge_init_def)
  have means: "map_of (mg_means st) k = (if metric_values k cs = [] then None else Some (metric_values k cs))"
    for k using merge_means [of cs "merge_init (c_result a)" k] by (simp add: st_def merge_init_def Let_def)
  have none: "c_metrics a = []" if "mg_means st = []"
  proof (rule ccontr)
    assume "c_metrics a \<noteq> []"
    then obtain k v m where "c_metrics a = (k, v) # m" by (cases "c_metrics a") auto
    then have "metric_values k cs \<noteq> []" by (simp add: metric_values_def cs)
    with means [of k] that show False by simp
  qed
  let ?metrics = "if mg_means st \<noteq> [] then map (\<lambda>(k, vs). (k, mean vs)) (mg_means st) else c_metrics a"
  have "map_of ?metrics k = (if metric_values k cs = [] then None else Some (mean (metric_values k cs)))"
    for k using means [of k] none by (auto simp: map_of_map_snd split: if_splits)
  moreover obtain out where "MergeCells flaky cs = Inr out" "c_metrics out = ?metrics"
    "c_icon out = nat_str (mg_pass st) @ ''/'' @ nat_str (length cs)"
    "c_result out = (if flaky \<and> mg_pass st > 0 \<and> mg_fail st > 0 then FLAKY else mg_current st)"
    unfolding MergeCells_def st_def by (simp add: cs Let_def)
  ultimately show ?thesis
    using cur num by (intro exI [of _ out]) auto
qed

section \<open>Properties and names of results\<close>

definition propertyMap :: "junit_result \<Rightarrow> (string, string list) gomap" where
  "propertyMap r = (case jr_properties r of None \<Rightarrow> [] | Some ps \<Rightarrow> group_values ps)"

text \<open>Values that are not numbers do not count.\<close>

definition Means ::
    "(string \<Rightarrow> float64 option) \<Rightarrow> (string, string list) gomap \<Rightarrow> (string, float64) gomap" where
  "Means parse_float properties =
     List.map_filter
       (\<lambda>(name, values). let vs = List.map_filter parse_float values in
          if vs = [] then None else Some (name, mean vs)) properties"

definition first :: "(string, string list) gomap \<Rightarrow> (string, string) gomap" where
  "first properties =
     List.map_filter (\<lambda>(k, v). case v of [] \<Rightarrow> None | x # _ \<Rightarrow> Some (k, x)) properties"

definition ElapsedKey :: string where
  "ElapsedKey = ''test-duration-minutes''"

definition setElapsed :: "(string, float64) gomap \<Rightarrow> float64 \<Rightarrow> (string, float64) gomap" where
  "setElapsed metrics seconds = AList.update ElapsedKey (seconds / 60) metrics"

definition dotName :: "string \<Rightarrow> string \<Rightarrow> string" where
  "dotName left right =
     (if left \<noteq> [] \<and> right \<noteq> [] then left @ ''.'' @ right else if right = [] then left else right)"

text \<open>
  Depth first, inner suites before the results; \<open>name\<close> is the dotted name the enclosing call gave
  to the suite.
\<close>

fun flatten_suite :: "string \<Rightarrow> suite \<Rightarrow> junit_result list" where
  "flatten_suite name (Suite n inner results) =
     concat (map (\<lambda>s. flatten_suite (dotName name (su_name s)) s) inner) @
     map (\<lambda>r. r\<lparr>jr_name := dotName name (jr_name r)\<rparr>) results"

definition flattenResults :: "suite list \<Rightarrow> junit_result list" where
  "flattenResults suites = concat (map (\<lambda>s. flatten_suite (su_name s) s) suites)"

fun suite_results :: "suite \<Rightarrow> nat" where
  "suite_results (Suite n inner results) = sum_list (map suite_results inner) + length results"

lemma length_flatten_suite: "length (flatten_suite name s) = suite_results s"
proof (induction s arbitrary: name)
  case (Suite n inner results)
  have "length (concat (map (\<lambda>s. flatten_suite (dotName name (su_name s)) s) inner)) =
      sum_list (map suite_results inner)"
    using Suite by (simp add: length_concat comp_def cong: map_cong)
  then show ?case by simp
qed

lemma length_flattenResults: "length (flattenResults suites) = sum_list (map suite_results suites)"
  by (simp add: flattenResults_def length_concat comp_def length_flatten_suite)

section \<open>Row names\<close>

definition testsName :: string where
  "testsName = ''Tests name''"

definition jobName :: string where
  "jobName = ''Job name''"

record name_config =
  nc_format :: string
  nc_parts :: "string list"
  nc_multi_job :: bool

text \<open>
  \<open>fmt.Sprintf\<close> with string arguments and verbs without flags, widths or argument indexes: \<open>%s\<close> and
  \<open>%v\<close> print an argument, \<open>%q\<close> quotes it, \<open>%x\<close> and \<open>%X\<close> print its bytes in hexadecimal, \<open>%T\<close>
  its type, and \<open>%%\<close> is a percent sign; the other results are the error forms of the package.  A format
  with a flag, a width or an index is outside the model: here it has the form of an error.
\<close>

definition verb_text :: "char \<Rightarrow> string \<Rightarrow> string" where
  "verb_text v a =
     (if v = CHR ''s'' \<or> v = CHR ''v'' then a
      else if v = CHR ''q'' then go_quote a
      else if v = CHR ''x'' then concat (map (\<lambda>c. let b = of_char c :: nat in [lower_hex (b div 16), lower_hex (b mod 16)]) a)
      else if v = CHR ''X'' then concat (map (\<lambda>c. let b = of_char c :: nat in [hex_digit (b div 16), hex_digit (b mod 16)]) a)
      else if v = CHR ''T'' then ''string''
      else ''%!'' @ [v] @ ''(string='' @ a @ '')'')"

fun sprintf :: "string \<Rightarrow> string list \<Rightarrow> string" where
  "sprintf [] [] = []"
| "sprintf [] (a # as) =
     ''%!(EXTRA '' @ str_join (map (\<lambda>x. ''string='' @ x) (a # as)) '', '' @ '')''"
| "sprintf [c] as = (if c = CHR ''%'' then ''%!(NOVERB)'' @ sprintf [] as else c # sprintf [] as)"
| "sprintf (c # v # f) as =
     (if c \<noteq> CHR ''%'' then c # sprintf (v # f) as
      else if v = CHR ''%'' then CHR ''%'' # sprintf f as
      else (case as of
          [] \<Rightarrow> ''%!'' @ [v] @ ''(MISSING)'' @ sprintf f []
        | a # as' \<Rightarrow> verb_text v a @ sprintf f as'))"

fun lookup_first :: "string \<Rightarrow> (string, string) gomap list \<Rightarrow> string" where
  "lookup_first p [] = []"
| "lookup_first p (m # ms) = (case map_of m p of Some v \<Rightarrow> v | None \<Rightarrow> lookup_first p ms)"

definition render :: "name_config \<Rightarrow> string \<Rightarrow> string \<Rightarrow> (string, string) gomap list \<Rightarrow> string" where
  "render nc job test metadatas =
     sprintf (nc_format nc)
       (map (\<lambda>p. if p = jobName then job else if p = testsName then test
                 else lookup_first p metadatas) (nc_parts nc))"

fun firstFilled :: "string list \<Rightarrow> string" where
  "firstFilled [] = []"
| "firstFilled (s # ss) = (if s \<noteq> [] then s else firstFilled ss)"

definition convertNameConfig :: "test_name_config option \<Rightarrow> name_config" where
  "convertNameConfig tnc =
     (case tnc of
        None \<Rightarrow> \<lparr>nc_format = ''%s'', nc_parts = [testsName], nc_multi_job = False\<rparr>
      | Some t \<Rightarrow>
          \<lparr>nc_format = tnc_format t,
           nc_parts = map (\<lambda>e. firstFilled [ne_target_config e, ne_test_property e]) (tnc_elements t),
           nc_multi_job = False\<rparr>)"

definition ensureJobName :: "name_config \<Rightarrow> name_config" where
  "ensureJobName nc =
     (if jobName \<in> set (nc_parts nc) then nc
      else nc\<lparr>nc_format := ''%s.'' @ nc_format nc, nc_parts := jobName # nc_parts nc\<rparr>)"

definition gcsPrefix :: "test_group \<Rightarrow> string" where
  "gcsPrefix tg =
     (case get_gcs_config tg of Some c \<Rightarrow> gcsc_prefix c | None \<Rightarrow> tg_gcs_prefix tg)"

definition makeNameConfig :: "test_group \<Rightarrow> name_config" where
  "makeNameConfig grp =
     (let nc = convertNameConfig (tg_test_name_config grp) in
      if str_contains (gcsPrefix grp) '','' then ensureJobName (nc\<lparr>nc_multi_job := True\<rparr>) else nc)"

lemma render_ensureJobName:
  assumes "jobName \<notin> set (nc_parts nc)"
  shows "render (ensureJobName nc) job test ms = job @ ''.'' @ render nc job test ms"
proof -
  have dot: "sprintf (CHR ''.'' # f) as = CHR ''.'' # sprintf f as" for f as
    by (cases f; cases as) simp_all
  show ?thesis
    using assms by (cases "nc_format nc") (simp_all add: render_def ensureJobName_def dot verb_text_def)
qed

section \<open>Options\<close>

record group_options =
  go_merge :: bool
  go_analyze_prow_job :: bool
  go_add_cell_id :: bool
  go_metric_key :: string
  go_build_key :: string
  go_user_key :: string
  go_annotations :: "test_annotation list"
  go_rules :: "eval_rule list"
  go_ignore_skip :: bool

definition makeOptions :: "test_group \<Rightarrow> group_options" where
  "makeOptions grp =
     \<lparr>go_merge = \<not> tg_disable_merged_status grp,
      go_analyze_prow_job = \<not> tg_disable_prowjob_analysis grp,
      go_add_cell_id = (tg_build_override_strftime grp \<noteq> []),
      go_metric_key = tg_short_text_metric grp,
      go_build_key = tg_build_override_configuration_value grp,
      go_user_key = tg_user_property grp,
      go_annotations = tg_test_annotations grp,
      go_rules = tg_rules grp,
      go_ignore_skip = tg_ignore_skip grp\<rparr>"

definition ignoreStatus :: "group_options \<Rightarrow> test_status \<Rightarrow> bool" where
  "ignoreStatus opt status =
     (if status = NO_RESULT then True
      else if go_ignore_skip opt \<and> status = PASS_WITH_SKIPS then True else False)"

section \<open>The injected cells of a build\<close>

record suites_meta =
  sm_suites :: "suite list option"
  sm_metadata :: "(string, string) gomap"
  sm_path :: string
  sm_err :: "string option"

record gcs_result =
  gr_pod_info :: "pod option"
  gr_started :: started
  gr_finished :: finished
  gr_suites :: "suites_meta list"
  gr_job :: string
  gr_build :: string
  gr_malformed :: "string list"

definition deadline :: "gcs_result \<Rightarrow> int" where
  "deadline r =
     (case fd_timestamp (gr_finished r) of
        None \<Rightarrow> sd_timestamp (gr_started r) + 24 * 3600
      | Some f \<Rightarrow> f + 3600)"

definition podInfoCell :: "float64 \<Rightarrow> gcs_result \<Rightarrow> cell" where
  "podInfoCell now result =
     (case Summarize (gr_pod_info result) of (pass, msg) \<Rightarrow>
       (let status = (if msg = MissingPodInfo \<and> now < of_int (deadline result) then RUNNING
                      else if msg = MissingPodInfo then PASS_WITH_SKIPS
                      else if pass then PASS else FAIL);
            icon = (if msg = NoPodUtils then ''E''
                    else if msg = MissingPodInfo then ''!''
                    else if \<not> pass then ''F'' else [])
        in zero_cell\<lparr>c_message := msg, c_icon := icon, c_result := status\<rparr>))"

definition bool_str :: "bool \<Rightarrow> string" where
  "bool_str b = (if b then ''true'' else ''false'')"

definition overallCell :: "float64 \<Rightarrow> gcs_result \<Rightarrow> cell" where
  "overallCell now result =
     (let f = gr_finished result;
          ended = (case fd_timestamp f of Some t \<Rightarrow> t | None \<Rightarrow> 0) in
      if gr_malformed result \<noteq> [] then
        zero_cell\<lparr>c_result := FAIL, c_icon := ''E'',
          c_message := ''Malformed artifacts: '' @ str_join (gr_malformed result) '', ''\<rparr>
      else if ended > 0 then
        (let (passed, c) =
           (case fd_passed f of
              Some p \<Rightarrow> (p, zero_cell)
            | None \<Rightarrow>
                if fd_result f \<noteq> [] then
                  (let p = (fd_result f = ''SUCCESS'') in
                   (p, zero_cell\<lparr>c_icon := ''E'',
                        c_message := ''finished.json missing \"passed\": '' @ bool_str p\<rparr>))
                else (False, zero_cell))
         in c\<lparr>c_result := (if passed then PASS else FAIL),
              c_metrics := setElapsed [] (of_int (ended - sd_timestamp (gr_started result)))\<rparr>)
      else if now > of_int (deadline result) then
        zero_cell\<lparr>c_result := FAIL, c_message := ''Build did not complete within 24 hours'',
                   c_icon := ''T''\<rparr>
      else zero_cell\<lparr>c_result := RUNNING, c_message := ''Build still running...'', c_icon := ''R''\<rparr>)"

lemma overallCell_result:
  "c_result (overallCell now r) \<in> {PASS, FAIL, RUNNING}"
  by (auto simp: overallCell_def Let_def split: option.split prod.split)

text \<open>A build is running only while it is not finished, not malformed and within its deadline.\<close>

lemma overallCell_running:
  "c_result (overallCell now r) = RUNNING \<longleftrightarrow>
   gr_malformed r = [] \<and> (\<forall>t. fd_timestamp (gr_finished r) = Some t \<longrightarrow> t \<le> 0) \<and>
   now \<le> of_int (deadline r)"
  by (auto simp: overallCell_def Let_def not_less split: option.split prod.split)

section \<open>convertResult\<close>

definition map_get :: "'k \<Rightarrow> ('k, 'v list) gomap \<Rightarrow> 'v list" where
  "map_get k m = (case map_of m k of Some vs \<Rightarrow> vs | None \<Rightarrow> [])"

text \<open>The cell of one test result, or None when the result is left out.\<close>

definition skip_result :: "junit_result \<Rightarrow> bool" where
  "skip_result r =
     (case jr_skipped r of
        Some k \<Rightarrow> oc_value k = [] \<and> (oc_message k = ''skipped'' \<or> oc_message k = [])
      | None \<Rightarrow> False)"

definition base_cell ::
    "(string \<Rightarrow> float64 option) \<Rightarrow> string \<Rightarrow> (string, string list) gomap \<Rightarrow> junit_result \<Rightarrow> cell" where
  "base_cell parse_float cellID props r =
     (let metrics = (if jr_time r > 0 then setElapsed [] (jr_time r) else []);
          metrics = fold (\<lambda>(k, v). AList.update k v) (Means parse_float props) metrics;
          c = zero_cell\<lparr>c_cell_id := cellID, c_metrics := metrics, c_message := Message r 140\<rparr>
      in if jr_errored r \<noteq> None \<or> jr_failure r \<noteq> None then
           c\<lparr>c_result := FAIL, c_icon := (if c_message c \<noteq> [] then ''F'' else [])\<rparr>
         else if jr_skipped r \<noteq> None then c\<lparr>c_result := PASS_WITH_SKIPS, c_icon := ''S''\<rparr>
         else c\<lparr>c_result := PASS\<rparr>)"

definition annotate ::
    "(float64 \<Rightarrow> string) \<Rightarrow> group_options \<Rightarrow> (string, string list) gomap \<Rightarrow> cell \<Rightarrow> cell" where
  "annotate format_float opt props c =
     (let c = (case find (\<lambda>a. map_of props (ann_property_name a) \<noteq> None) (go_annotations opt) of
                 Some a \<Rightarrow> c\<lparr>c_icon := ann_short_text a\<rparr> | None \<Rightarrow> c);
          c = (case map_of (c_metrics c) (go_metric_key opt) of
                 Some f \<Rightarrow> c\<lparr>c_icon := format_float f\<rparr> | None \<Rightarrow> c)
      in (case map_of props (go_user_key opt) of
            Some (v # _) \<Rightarrow> c\<lparr>c_user_property := v\<rparr> | _ \<Rightarrow> c))"

definition result_cell ::
    "regex \<Rightarrow> (string \<Rightarrow> float64 option) \<Rightarrow> (float64 \<Rightarrow> string) \<Rightarrow> string \<Rightarrow> group_options \<Rightarrow>
     junit_result \<Rightarrow> cell option go" where
  "result_cell rx parse_float format_float cellID opt r =
     (if skip_result r then Inr None
      else let props = propertyMap r; c = base_cell parse_float cellID props r in
        go_bind (CustomStatus rx (go_rules opt) (jUnitTestResult r)) (\<lambda>override.
          let c = (case override of Some s \<Rightarrow> c\<lparr>c_result := s\<rparr> | None \<Rightarrow> c) in
          Inr (if ignoreStatus opt (c_result c) then None
               else Some (annotate format_float opt props c))))"

definition suite_cells ::
    "regex \<Rightarrow> (string \<Rightarrow> float64 option) \<Rightarrow> (float64 \<Rightarrow> string) \<Rightarrow> name_config \<Rightarrow> string \<Rightarrow>
     group_options \<Rightarrow> string \<Rightarrow> (string, string) gomap \<Rightarrow> (string, cell list) gomap \<Rightarrow> suites_meta \<Rightarrow>
     (string, cell list) gomap go" where
  "suite_cells rx parse_float format_float nameCfg cellID opt job meta cells suite =
     (case sm_suites suite of
        None \<Rightarrow> Inl (Panic ''invalid memory address or nil pointer dereference'')
      | Some ss \<Rightarrow>
          go_fold (\<lambda>cells r.
              go_bind (result_cell rx parse_float format_float cellID opt r) (\<lambda>c.
                Inr (case c of
                  None \<Rightarrow> cells
                | Some c \<Rightarrow>
                    append_value
                      (render nameCfg job (jr_name r) [first (propertyMap r), sm_metadata suite, meta])
                      c cells)))
            cells (flattenResults ss))"

text \<open>A failing build without a failing test says so.\<close>

definition overall_with_reason :: "cell \<Rightarrow> (string, cell list) gomap \<Rightarrow> cell" where
  "overall_with_reason overall cells =
     (if c_result overall = FAIL \<and> c_message overall = [] \<and>
         \<not> list_ex (\<lambda>(n, cs). list_ex (\<lambda>c. c_result c = FAIL) cs) cells
      then overall\<lparr>c_icon := ''F'', c_message := ''Build failed outside of test results''\<rparr>
      else overall)"

definition prepend_cell :: "string \<Rightarrow> cell \<Rightarrow> (string, cell list) gomap \<Rightarrow> (string, cell list) gomap" where
  "prepend_cell k c m = AList.update k (c # map_get k m) m"

definition inject ::
    "name_config \<Rightarrow> string \<Rightarrow> string \<Rightarrow> string \<times> cell \<Rightarrow> (string, cell list) gomap \<Rightarrow>
     (string, cell list) gomap" where
  "inject nameCfg cellID job nc cells =
     (let c = (snd nc)\<lparr>c_cell_id := cellID\<rparr>;
          cells = prepend_cell (job @ ''.'' @ fst nc) c cells
      in if nc_multi_job nameCfg then prepend_cell (fst nc) c cells else cells)"

definition overallRow :: string where
  "overallRow = ''Overall''"

definition podInfoRow :: string where
  "podInfoRow = ''Pod''"

definition injected_cells :: "float64 \<Rightarrow> group_options \<Rightarrow> gcs_result \<Rightarrow> cell \<Rightarrow> (string, cell) gomap" where
  "injected_cells now opt result overall =
     (let pic = podInfoCell now result in
      (overallRow, overall) #
      (if go_analyze_prow_job opt \<and> (c_message pic \<noteq> MissingPodInfo \<or> c_result overall \<noteq> RUNNING)
       then [(podInfoRow, pic)] else []))"

text \<open>One cell per name, by merging or by splitting the duplicates.\<close>

definition column_cells_of :: "group_options \<Rightarrow> (string, cell list) gomap \<Rightarrow> (string, cell) gomap go" where
  "column_cells_of opt cells =
     go_fold (\<lambda>out (name, cs).
         if go_merge opt then go_bind (MergeCells True cs) (\<lambda>c. Inr (AList.update name c out))
         else Inr (fold (\<lambda>(n, c). AList.update n c) (SplitCells name cs) out))
       [] cells"

definition header_value ::
    "(string, string) gomap \<Rightarrow> string \<Rightarrow> cell \<Rightarrow> string \<Rightarrow> string" where
  "header_value meta version overall h =
     (case map_of meta h of
        Some v \<Rightarrow> v
      | None \<Rightarrow> if h = ''Commit'' \<and> version \<noteq> Missing then version
                else if c_result overall \<noteq> RUNNING then ''missing'' else [])"

definition convertResult ::
    "regex \<Rightarrow> (string \<Rightarrow> float64 option) \<Rightarrow> (float64 \<Rightarrow> string) \<Rightarrow> float64 \<Rightarrow> name_config \<Rightarrow> string \<Rightarrow>
     string list \<Rightarrow> gcs_result \<Rightarrow> group_options \<Rightarrow> inflated_column go" where
  "convertResult rx parse_float format_float now nameCfg i headers result opt =
     (let cellID = (if nc_multi_job nameCfg then gr_job result @ ''/'' @ i
                    else if go_add_cell_id opt then i else []);
          meta = meta_Strings (fd_metadata (gr_finished result)) in
      go_bind (Version (gr_started result) (gr_finished result)) (\<lambda>version.
      go_bind (go_fold (suite_cells rx parse_float format_float nameCfg cellID opt (gr_job result) meta)
                 [] (gr_suites result)) (\<lambda>cells.
        let overall = overall_with_reason (overallCell now result) cells;
            cells = fold (inject nameCfg cellID (gr_job result)) (injected_cells now opt result overall) cells;
            buildID = (if go_build_key opt \<noteq> []
                       then (case map_of meta (go_build_key opt) of Some v \<Rightarrow> v | None \<Rightarrow> []) else i)
        in go_bind (column_cells_of opt cells) (\<lambda>out.
           Inr \<lparr>ic_column = empty_column\<lparr>col_build := buildID,
                  col_started := of_int (sd_timestamp (gr_started result) * 1000), col_hint := i,
                  col_extra := map (header_value meta version overall) headers,
                  col_email_addresses :=
                    fst (meta_MultiString (fd_metadata (gr_finished result)) ''EmailAddresses'')\<rparr>,
                ic_cells = out\<rparr>))))"

text \<open>A failing build is explained by a message or by a failing test.\<close>

lemma overall_with_reason_explained:
  "c_result (overall_with_reason o' cells) = FAIL \<Longrightarrow>
   c_message (overall_with_reason o' cells) \<noteq> [] \<or>
   (\<exists>n cs c. (n, cs) \<in> set cells \<and> c \<in> set cs \<and> c_result c = FAIL)"
  by (auto simp: overall_with_reason_def list_ex_iff split: if_splits)

lemma overall_with_reason_result [simp]:
  "c_result (overall_with_reason o' cells) = c_result o'"
  by (simp add: overall_with_reason_def)

lemma go_fold_keys:
  assumes "\<And>acc x acc'. f acc x = Inr acc' \<Longrightarrow> set (map fst acc) \<subseteq> set (map fst acc')"
  shows "go_fold f acc xs = Inr acc' \<Longrightarrow> set (map fst acc) \<subseteq> set (map fst acc')"
proof (induction xs arbitrary: acc)
  case (Cons x xs)
  then obtain acc1 where "f acc x = Inr acc1" "go_fold f acc1 xs = Inr acc'"
    by (auto simp: go_simps)
  with assms [of acc x acc1] Cons.IH [of acc1] show ?case by (blast intro: subset_trans)
qed simp

lemma keys_fold_update:
  "fst ` set (fold (\<lambda>(n, c). AList.update n c) ncs m) = fst ` set ncs \<union> fst ` set m"
  by (induction ncs arbitrary: m) (simp_all add: keys_update split_beta)

lemma SplitCells_key: "cs \<noteq> [] \<Longrightarrow> name \<in> fst ` set (SplitCells name cs)"
  by (cases cs) (simp_all add: SplitCells_def)

text \<open>Every name with a cell is a name of the column.\<close>

lemma column_cells_of_keys:
  assumes "column_cells_of opt cells = Inr out" "(name, cs) \<in> set cells" "cs \<noteq> []"
  shows "name \<in> fst ` set out"
proof -
  let ?f = "\<lambda>out (name, cs).
         if go_merge opt then go_bind (MergeCells True cs) (\<lambda>c. Inr (AList.update name c out))
         else Inr (fold (\<lambda>(n, c). AList.update n c) (SplitCells name cs) out)"
  have grow: "set (map fst acc) \<subseteq> set (map fst acc')" if "?f acc x = Inr acc'" for acc x acc'
  proof (cases "go_merge opt")
    case True
    with that obtain c where "acc' = AList.update (fst x) c acc" by (auto simp: go_simps split_beta)
    then show ?thesis by (simp add: keys_update subset_insertI)
  next
    case False
    with that have "acc' = fold (\<lambda>(n, c). AList.update n c) (SplitCells (fst x) (snd x)) acc"
      by (simp add: split_beta)
    then show ?thesis by (simp only: set_map keys_fold_update Un_upper2)
  qed
  have own: "n \<in> fst ` set acc'" if "?f acc (n, cs) = Inr acc'" "cs \<noteq> []" for acc n cs acc'
  proof (cases "go_merge opt")
    case True
    with that obtain c where "acc' = AList.update n c acc" by (auto simp: go_simps)
    then show ?thesis by (simp add: keys_update)
  next
    case False
    with that have "acc' = fold (\<lambda>(n, c). AList.update n c) (SplitCells n cs) acc" by simp
    then show ?thesis
      using SplitCells_key [OF that(2), of n] by (simp only: keys_fold_update Un_iff simp_thms)
  qed
  from assms(2) obtain pre post where cells: "cells = pre @ (name, cs) # post"
    by (meson split_list)
  from assms(1) have "go_bind (go_fold ?f [] pre) (\<lambda>a. go_fold ?f a ((name, cs) # post)) = Inr out"
    by (simp only: column_cells_of_def cells go_fold_append)
  then obtain acc1 where "go_fold ?f acc1 ((name, cs) # post) = Inr out"
    unfolding go_bind_eq_Inr by blast
  then obtain acc2 where
    step: "?f acc1 (name, cs) = Inr acc2" and rest: "go_fold ?f acc2 post = Inr out"
    unfolding go_fold.simps go_bind_eq_Inr by blast
  have "set (map fst acc2) \<subseteq> set (map fst out)"
    by (rule go_fold_keys [OF grow rest])
  with own [OF step assms(3)] show ?thesis
    by (simp only: set_map) (rule subsetD)
qed

definition has_cells :: "string \<Rightarrow> (string, cell list) gomap \<Rightarrow> bool" where
  "has_cells n m \<longleftrightarrow> (\<exists>cs. map_of m n = Some cs \<and> cs \<noteq> [])"

lemma has_cells_prepend: "has_cells n (prepend_cell k c m) \<longleftrightarrow> n = k \<or> has_cells n m"
  by (auto simp: has_cells_def prepend_cell_def update_conv')

lemma has_cells_inject: "has_cells n m \<Longrightarrow> has_cells n (inject nc i job x m)"
  by (simp add: inject_def Let_def has_cells_prepend)

lemma has_cells_fold_inject: "has_cells n m \<Longrightarrow> has_cells n (fold (inject nc i job) xs m)"
  by (induction xs arbitrary: m) (auto intro: has_cells_inject)

text \<open>A converted build always has its overall row.\<close>

lemma convertResult_overall:
  assumes "convertResult rx pf ff now nc i headers r opt = Inr col"
  shows "gr_job r @ ''.'' @ overallRow \<in> fst ` set (ic_cells col)"
proof -
  from assms obtain cells overall cid out where
    "column_cells_of opt (fold (inject nc cid (gr_job r)) (injected_cells now opt r overall) cells) = Inr out"
    "ic_cells col = out"
    by (auto simp: convertResult_def go_simps Let_def)
  moreover have "has_cells (gr_job r @ ''.'' @ overallRow)
      (fold (inject nc cid (gr_job r)) (injected_cells now opt r overall) cells)"
    by (auto simp: injected_cells_def Let_def inject_def has_cells_prepend
        intro!: has_cells_fold_inject)
  ultimately show ?thesis
    using column_cells_of_keys map_of_SomeD unfolding has_cells_def by metis
qed

section \<open>readResult\<close>

text \<open>
  The four downloads of a build run at the same time; each is one event with its outcome, and the
  list of events is the order in which they complete.  \<open>stop\<close> is the oldest start to read.
\<close>

datatype 'a download = Got 'a | Eof | DownloadError string

datatype read_event =
    PodInfoRead "pod option download"
  | StartedRead "started download"
  | FinishedRead "finished download"
  | SuitesRead "suites_meta list" "string option"

definition trim_prefix :: "string \<Rightarrow> string \<Rightarrow> string" where
  "trim_prefix s p = (if has_prefix s p then drop (length p) s else s)"

definition suite_problems :: "string \<Rightarrow> suites_meta list \<Rightarrow> string list" where
  "suite_problems buildPath suites =
     List.map_filter (\<lambda>s. map_option (\<lambda>e. trim_prefix (sm_path s) buildPath @ '': '' @ e) (sm_err s)) suites"

definition add_malformed :: "string list \<Rightarrow> gcs_result \<Rightarrow> gcs_result" where
  "add_malformed ps r = r\<lparr>gr_malformed := gr_malformed r @ ps\<rparr>"

text \<open>What an event writes to the result, and the error it sends.\<close>

fun read_write :: "string \<Rightarrow> read_event \<Rightarrow> gcs_result \<Rightarrow> gcs_result" where
  "read_write buildPath (PodInfoRead (Got p)) r = (case p of Some _ \<Rightarrow> r\<lparr>gr_pod_info := p\<rparr> | None \<Rightarrow> r)"
| "read_write buildPath (PodInfoRead Eof) r = add_malformed [''podinfo.json''] r"
| "read_write buildPath (StartedRead (Got s)) r = r\<lparr>gr_started := s\<rparr>"
| "read_write buildPath (StartedRead Eof) r = add_malformed [''started.json''] r"
| "read_write buildPath (FinishedRead (Got f)) r = r\<lparr>gr_finished := f\<rparr>"
| "read_write buildPath (FinishedRead Eof) r = add_malformed [''finished.json''] r"
| "read_write buildPath (SuitesRead ss e) r =
     add_malformed (suite_problems buildPath ss)
       (r\<lparr>gr_suites := gr_suites r @ filter (\<lambda>s. sm_err s = None) ss\<rparr>)"
| "read_write buildPath _ r = r"

fun read_error :: "int \<Rightarrow> read_event \<Rightarrow> string option" where
  "read_error stop (PodInfoRead (DownloadError e)) = Some (''podinfo: '' @ e)"
| "read_error stop (StartedRead (DownloadError e)) = Some (''started: '' @ e)"
| "read_error stop (StartedRead (Got s)) =
     (if sd_timestamp s < stop then
        Some (if sd_timestamp s = 0 then ''Start timestamp for this job is 0.''
              else ''build too old; started '' @ itoa (sd_timestamp s) @ '' before '' @ itoa stop @ '')'')
      else None)"
| "read_error stop (FinishedRead (DownloadError e)) = Some (''finished: '' @ e)"
| "read_error stop (SuitesRead ss (Some e)) = Some (''suites: '' @ e)"
| "read_error stop _ = None"

fun read_loop :: "string \<Rightarrow> int \<Rightarrow> gcs_result \<Rightarrow> read_event list \<Rightarrow> gcs_result go" where
  "read_loop buildPath stop r [] = Inr r"
| "read_loop buildPath stop r (ev # evs) =
     (case read_error stop ev of
        Some e \<Rightarrow> Inl (Failed e)
      | None \<Rightarrow> read_loop buildPath stop (read_write buildPath ev r) evs)"

definition empty_started :: started where
  "empty_started =
     \<lparr>sd_timestamp = 0, sd_node = [], sd_repo_commit = [], sd_job_version = [], sd_repo_version = []\<rparr>"

definition empty_finished :: finished where
  "empty_finished =
     \<lparr>fd_timestamp = None, fd_passed = None, fd_metadata = [], fd_result = [], fd_job_version = [],
      fd_revision = [], fd_repo_version = []\<rparr>"

definition readResult ::
    "string \<Rightarrow> string \<Rightarrow> string \<Rightarrow> int \<Rightarrow> read_event list \<Rightarrow> gcs_result go" where
  "readResult job build buildPath stop evs =
     go_bind (read_loop buildPath stop
         \<lparr>gr_pod_info = None, gr_started = empty_started, gr_finished = empty_finished,
          gr_suites = [], gr_job = job, gr_build = build, gr_malformed = []\<rparr> evs)
       (\<lambda>r. Inr (r\<lparr>gr_malformed := sort (gr_malformed r)\<rparr>))"

subsection \<open>The order of completion does not matter\<close>

fun read_kind :: "read_event \<Rightarrow> nat" where
  "read_kind (PodInfoRead _) = 0"
| "read_kind (StartedRead _) = 1"
| "read_kind (FinishedRead _) = 2"
| "read_kind (SuitesRead _ _) = 3"

text \<open>The result with its malformed artifacts as a multiset.\<close>

type_synonym read_view = "gcs_result \<times> string multiset"

definition view :: "gcs_result \<Rightarrow> read_view" where
  "view r = (r\<lparr>gr_malformed := []\<rparr>, mset (gr_malformed r))"

definition write_view :: "string \<Rightarrow> read_event \<Rightarrow> read_view \<Rightarrow> read_view" where
  "write_view buildPath ev v =
     (let r = read_write buildPath ev ((fst v)\<lparr>gr_malformed := []\<rparr>)
      in (r\<lparr>gr_malformed := []\<rparr>, snd v + mset (gr_malformed r)))"

lemma view_read_write: "view (read_write b ev r) = write_view b ev (view r)"
  by (cases "(b, ev, r)" rule: read_write.cases)
     (simp_all add: view_def write_view_def add_malformed_def Let_def split: option.split)

lemma write_view_commute:
  "read_kind x \<noteq> read_kind y \<Longrightarrow> write_view b x (write_view b y v) = write_view b y (write_view b x v)"
  by (cases "(b, x, fst v)" rule: read_write.cases; cases "(b, y, fst v)" rule: read_write.cases)
     (simp_all add: write_view_def add_malformed_def Let_def split: option.split)

lemma read_loop_all:
  "\<forall>ev \<in> set evs. read_error stop ev = None \<Longrightarrow>
   read_loop b stop r evs = Inr (fold (read_write b) evs r)"
  by (induction evs arbitrary: r) auto

lemma view_fold: "view (fold (read_write b) evs r) = fold (write_view b) evs (view r)"
  by (induction evs arbitrary: r) (simp_all add: view_read_write)

lemma readResult_order:
  assumes "mset evs = mset evs'" "distinct (map read_kind evs)"
    "\<forall>ev \<in> set evs. read_error stop ev = None"
  shows "readResult job build b stop evs = readResult job build b stop evs' \<and>
    (\<exists>r. readResult job build b stop evs = Inr r)"
proof -
  let ?r = "\<lparr>gr_pod_info = None, gr_started = empty_started, gr_finished = empty_finished,
          gr_suites = [], gr_job = job, gr_build = build, gr_malformed = []\<rparr>"
  have "set evs' = set evs" using assms(1) by (metis set_mset_mset)
  with assms(3) have ok: "\<forall>ev \<in> set evs'. read_error stop ev = None" by simp
  have "write_view b x \<circ> write_view b y = write_view b y \<circ> write_view b x"
    if "x \<in> set evs" "y \<in> set evs" for x y
  proof (cases "x = y")
    case False
    with assms(2) that have "read_kind x \<noteq> read_kind y"
      by (auto simp: distinct_map inj_on_def)
    then show ?thesis by (auto simp: write_view_commute)
  qed simp
  from fold_multiset_equiv [OF this assms(1)]
  have "view (fold (read_write b) evs ?r) = view (fold (read_write b) evs' ?r)"
    by (simp add: view_fold)
  then have "(fold (read_write b) evs ?r)\<lparr>gr_malformed := []\<rparr> = (fold (read_write b) evs' ?r)\<lparr>gr_malformed := []\<rparr>"
    "sort (gr_malformed (fold (read_write b) evs ?r)) = sort (gr_malformed (fold (read_write b) evs' ?r))"
    by (simp_all add: view_def properties_for_sort)
  then have "(fold (read_write b) evs ?r)\<lparr>gr_malformed := sort (gr_malformed (fold (read_write b) evs ?r))\<rparr> =
      (fold (read_write b) evs' ?r)\<lparr>gr_malformed := sort (gr_malformed (fold (read_write b) evs' ?r))\<rparr>"
    by (cases "fold (read_write b) evs ?r"; cases "fold (read_write b) evs' ?r") simp
  with read_loop_all [OF assms(3)] read_loop_all [OF ok] show ?thesis
    by (simp add: readResult_def)
qed

end
