(* ===== verification/Inflate.thy ===== *)
theory Inflate
  imports State_Proto
begin

text \<open>
  \<open>pkg/updater/inflate.go\<close>: decoding of run-length-encoded results, sparse metrics and whole rows
  into cells, one column per call, and \<open>InflateGrid\<close>.

  The closures of the code are records of their captured variables and a step function; an index
  that only moves forward through a slice is the suffix of the slice not yet consumed.
\<close>

section \<open>inflateResults\<close>

record res_cursor =
  rr_rest :: "int list"
  rr_current :: test_status
  rr_remain :: int
  rr_more :: bool

definition inflateResults :: "int list \<Rightarrow> res_cursor" where
  "inflateResults results =
     \<lparr>rr_rest = results, rr_current = NO_RESULT, rr_remain = 0, rr_more = True\<rparr>"

function res_next :: "res_cursor \<Rightarrow> (test_status option \<times> res_cursor) go" where
  "res_next c =
     (if \<not> rr_more c then Inr (None, c)
      else if rr_remain c > 0 then Inr (Some (rr_current c), c\<lparr>rr_remain := rr_remain c - 1\<rparr>)
      else (case rr_rest c of
          [] \<Rightarrow> Inr (None, c\<lparr>rr_more := False\<rparr>)
        | [r] \<Rightarrow> Inl (Panic ''index out of range'')
        | r # n # rs \<Rightarrow>
            res_next \<lparr>rr_rest = rs, rr_current = status_of r, rr_remain = n, rr_more = True\<rparr>))"
  by pat_completeness auto
termination
  by (relation "measure (\<lambda>c. length (rr_rest c))") auto

declare res_next.simps [simp del]

definition res_todo :: "res_cursor \<Rightarrow> test_status list" where
  "res_todo c =
     (if rr_more c then replicate (nat (rr_remain c)) (rr_current c) @ rle_expand (rr_rest c)
      else [])"

definition res_ok :: "res_cursor \<Rightarrow> bool" where
  "res_ok c \<longleftrightarrow> even (length (rr_rest c))"

lemma res_todo_init [simp]: "res_todo (inflateResults results) = rle_expand results"
  by (simp add: res_todo_def inflateResults_def)

lemma res_ok_init [simp]: "res_ok (inflateResults results) \<longleftrightarrow> even (length results)"
  by (simp add: res_ok_def inflateResults_def)

lemma res_next_spec:
  "res_ok c \<Longrightarrow> \<exists>c'. res_next c = Inr (head (res_todo c), c') \<and> res_ok c' \<and>
     res_todo c' = tl (res_todo c)"
proof (induction c rule: res_next.induct)
  case (1 c)
  consider "\<not> rr_more c" | "rr_more c" "rr_remain c > 0" | "rr_more c" "\<not> rr_remain c > 0"
    by blast
  then show ?case
  proof cases
    case 1
    with "1.prems" show ?thesis by (auto simp: res_next.simps [of c] res_todo_def)
  next
    case 2
    with "1.prems" show ?thesis
      by (auto simp: res_next.simps [of c] res_todo_def res_ok_def nat_pos_Suc [of "rr_remain c"])
  next
    case 3
    show ?thesis
    proof (cases "rr_rest c" rule: rle_expand.cases)
      case (1 r n rs)
      let ?c = "\<lparr>rr_rest = rs, rr_current = status_of r, rr_remain = n, rr_more = True\<rparr>"
      have "res_ok ?c" "res_next c = res_next ?c" "res_todo c = res_todo ?c"
        using 1 3 "1.prems" by (auto simp: res_next.simps [of c] res_ok_def res_todo_def)
      with "1.IH" [of r "n # rs" n rs] 1 3 show ?thesis by simp
    qed (use 3 "1.prems" in \<open>auto simp: res_next.simps [of c] res_todo_def res_ok_def\<close>)
  qed
qed

text \<open>On an encoding of odd length the closure reads past the end of the slice.\<close>

lemma res_next_odd:
  "res_next \<lparr>rr_rest = [r], rr_current = s, rr_remain = 0, rr_more = True\<rparr> =
   Inl (Panic ''index out of range'')"
  by (simp add: res_next.simps)

definition res_step :: "res_cursor \<Rightarrow> test_status option \<times> res_cursor" where
  "res_step c = (case res_next c of Inr x \<Rightarrow> x | Inl _ \<Rightarrow> (None, c))"

lemma res_next_ok: "res_ok c \<Longrightarrow> res_next c = Inr (res_step c)"
  using res_next_spec [of c] by (auto simp: res_step_def)

interpretation res: cursor res_step res_ok res_todo
proof
  fix c :: res_cursor
  assume ok: "res_ok c"
  note spec = res_next_spec [OF ok]
  show "res_ok (snd (res_step c))"
    and "fst (res_step c) = head (res_todo c)"
    and "res_todo (snd (res_step c)) = tl (res_todo c)"
    using spec by (auto simp: res_step_def)
qed

section \<open>inflateMetric\<close>

record met_cursor =
  mt_rest :: "int list"
  mt_values :: "float64 list"
  mt_remain :: int
  mt_current :: int
  mt_start :: int
  mt_more :: bool

definition inflateMetric :: "metric \<Rightarrow> met_cursor" where
  "inflateMetric m =
     \<lparr>mt_rest = m_indices m, mt_values = m_values m, mt_remain = 0, mt_current = - 1,
      mt_start = 0, mt_more = True\<rparr>"

function met_next :: "met_cursor \<Rightarrow> (float64 option \<times> bool) \<times> met_cursor" where
  "met_next c =
     (if \<not> mt_more c then ((None, False), c)
      else if mt_remain c > 0 then
        (let c' = c\<lparr>mt_current := mt_current c + 1\<rparr> in
         if mt_current c' < mt_start c' then ((None, True), c')
         else (case mt_values c' of
             [] \<Rightarrow> ((None, False), c'\<lparr>mt_remain := mt_remain c' - 1, mt_more := False\<rparr>)
           | v # vs \<Rightarrow> ((Some v, True), c'\<lparr>mt_remain := mt_remain c' - 1, mt_values := vs\<rparr>)))
      else (case mt_rest c of
          s # n # r \<Rightarrow> met_next (c\<lparr>mt_rest := r, mt_start := s, mt_remain := n\<rparr>)
        | _ \<Rightarrow> ((None, False), c\<lparr>mt_more := False\<rparr>)))"
  by pat_completeness auto
termination
  by (relation "measure (\<lambda>c. length (mt_rest c))") auto

declare met_next.simps [simp del]

text \<open>
  The dense sequence a sparse metric stands for, from position \<open>p\<close> on: a hole is None.
\<close>

fun dense :: "int \<Rightarrow> int list \<Rightarrow> float64 list \<Rightarrow> float64 option list" where
  "dense p (s # n # r) vs =
     (if n \<le> 0 then dense p r vs
      else replicate (nat (s - p)) None @
        (if int (length vs) < n then map Some vs
         else map Some (take (nat n) vs) @ dense (max p s + n) r (drop (nat n) vs)))"
| "dense p _ vs = []"

definition met_todo :: "met_cursor \<Rightarrow> float64 option list" where
  "met_todo c =
     (if mt_more c then dense (mt_current c + 1) (mt_start c # mt_remain c # mt_rest c) (mt_values c)
      else [])"

lemma met_todo_init [simp]:
  "met_todo (inflateMetric m) = dense 0 (m_indices m) (m_values m)"
  by (simp add: met_todo_def inflateMetric_def)

lemma dense_hole:
  "p < s \<Longrightarrow> 0 < n \<Longrightarrow> dense p (s # n # r) vs = None # dense (p + 1) (s # n # r) vs"
  by (simp add: nat_pos_Suc [of "s - p"] max_def algebra_simps)

lemma dense_value:
  "s \<le> p \<Longrightarrow> 0 < n \<Longrightarrow> dense p (s # n # r) (v # vs) = Some v # dense (p + 1) (s # (n - 1) # r) vs"
  by (cases "n = 1") (auto simp: nat_pos_Suc [of n] max_def algebra_simps)

lemma dense_exhausted: "s \<le> p \<Longrightarrow> 0 < n \<Longrightarrow> dense p (s # n # r) [] = []"
  by simp

lemma met_next_spec:
  "fst (met_next c) = (case met_todo c of [] \<Rightarrow> (None, False) | x # _ \<Rightarrow> (x, True))
   \<and> met_todo (snd (met_next c)) = tl (met_todo c)"
proof (induction c rule: met_next.induct)
  case (1 c)
  consider (ended) "\<not> mt_more c"
    | (hole) "mt_more c" "mt_remain c > 0" "mt_current c + 1 < mt_start c"
    | (filled) "mt_more c" "mt_remain c > 0" "\<not> mt_current c + 1 < mt_start c"
    | (grp) "mt_more c" "\<not> mt_remain c > 0"
    by blast
  then show ?case
  proof cases
    case ended
    then show ?thesis by (simp add: met_next.simps [of c] met_todo_def)
  next
    case hole
    then show ?thesis
      by (simp add: met_next.simps [of c] met_todo_def dense_hole del: dense.simps)
  next
    case filled
    then show ?thesis
      by (cases "mt_values c")
         (simp_all add: met_next.simps [of c] met_todo_def dense_value dense_exhausted
           del: dense.simps)
  next
    case grp
    show ?thesis
    proof (cases "mt_rest c" rule: rle_expand.cases)
      case (1 s n r)
      let ?c = "c\<lparr>mt_rest := r, mt_start := s, mt_remain := n\<rparr>"
      have "met_next c = met_next ?c" "met_todo c = met_todo ?c"
        using 1 grp by (simp_all add: met_next.simps [of c] met_todo_def)
      with "1.IH" [of s "n # r" n r] 1 grp show ?thesis by simp
    qed (use grp in \<open>auto simp: met_next.simps [of c] met_todo_def\<close>)
  qed
qed

definition met_step :: "met_cursor \<Rightarrow> float64 option option \<times> met_cursor" where
  "met_step c =
     (case met_next c of ((v, True), c') \<Rightarrow> (Some v, c') | ((_, False), c') \<Rightarrow> (None, c'))"

interpretation met: cursor met_step "\<lambda>_. True" met_todo
proof
  fix c :: met_cursor
  show "fst (met_step c) = head (met_todo c)" and "met_todo (snd (met_step c)) = tl (met_todo c)"
    using met_next_spec [of c]
    by (auto simp: met_step_def split: prod.splits bool.splits list.splits)
qed simp

lemma met_next_value: "fst (fst (met_next c)) = Option.bind (head (met_todo c)) (\<lambda>x. x)"
  using met_next_spec [of c] by (auto split: list.splits)

lemmas met_next_todo = met_next_spec [THEN conjunct2]

section \<open>inflateRow\<close>

text \<open>\<open>hasCellID\<close> of \<open>updater.go\<close>: rows of test methods share the cell identifiers of their target.\<close>

definition hasCellID :: "string \<Rightarrow> bool" where
  "hasCellID name \<longleftrightarrow> \<not> str_contains name ''@TESTGRID@''"

record row_cursor =
  rw_row :: row
  rw_filled :: nat
  rw_mets :: "(string, met_cursor) gomap"
  rw_results :: res_cursor

text \<open>
  The name of metric \<open>i\<close>: its own name or, when that is empty, entry \<open>i\<close> of the legacy list
  \<open>row.Metric\<close> (guarded in the code by the length of \<open>row.Metrics\<close>, so the read can panic).
\<close>

fun inflate_mets ::
    "string list \<Rightarrow> nat \<Rightarrow> (string, met_cursor) gomap \<Rightarrow> metric list \<Rightarrow> (string, met_cursor) gomap go" where
  "inflate_mets legacy i mets [] = Inr mets"
| "inflate_mets legacy i mets (m # ms) =
     (if m_name m = []
      then go_bind (slice_at legacy i)
             (\<lambda>n. inflate_mets legacy (Suc i) (AList.update n (inflateMetric (m\<lparr>m_name := n\<rparr>)) mets) ms)
      else inflate_mets legacy (Suc i) (AList.update (m_name m) (inflateMetric m) mets) ms)"

definition inflateRow :: "row \<Rightarrow> row_cursor go" where
  "inflateRow row =
     go_bind (inflate_mets (row_metric row) 0 [] (row_metrics row))
       (\<lambda>mets. Inr \<lparr>rw_row = row, rw_filled = 0, rw_mets = mets,
                    rw_results = inflateResults (row_results row)\<rparr>)"

text \<open>The values of one call on every metric closure; only the filled ones enter the cell.\<close>

definition mets_values :: "(string, met_cursor) gomap \<Rightarrow> (string, float64) gomap" where
  "mets_values mets =
     List.map_filter (\<lambda>(n, mc). map_option (Pair n) (fst (fst (met_next mc)))) mets"

definition mets_next :: "(string, met_cursor) gomap \<Rightarrow> (string, met_cursor) gomap" where
  "mets_next mets = map (\<lambda>(n, mc). (n, snd (met_next mc))) mets"

text \<open>The filled fields of a cell with a result; every slice is read at \<open>filledIdx\<close>.\<close>

definition fill_cell :: "row \<Rightarrow> nat \<Rightarrow> cell \<Rightarrow> cell go" where
  "fill_cell row k c =
     go_bind (slice_at (row_icons row) k) (\<lambda>icon.
     go_bind (slice_at (row_messages row) k) (\<lambda>msg.
     go_bind (if hasCellID (row_name row) then slice_at (row_cell_ids row) k else Inr []) (\<lambda>cid.
     Inr (c\<lparr>c_icon := icon, c_message := msg, c_cell_id := cid,
            c_properties := (if k < length (row_properties row) then row_properties row ! k else []),
            c_user_property :=
              (if k < length (row_user_property row) then row_user_property row ! k else [])\<rparr>))))"

definition row_next :: "row_cursor \<Rightarrow> (cell option \<times> row_cursor) go" where
  "row_next rc =
     go_bind (res_next (rw_results rc)) (\<lambda>(cur, results).
       case cur of
         None \<Rightarrow> Inr (None, rc\<lparr>rw_results := results\<rparr>)
       | Some result \<Rightarrow>
           (let c = zero_cell\<lparr>c_result := result, c_id := row_id (rw_row rc),
                              c_metrics := mets_values (rw_mets rc)\<rparr>;
                rc' = rc\<lparr>rw_results := results, rw_mets := mets_next (rw_mets rc)\<rparr>
            in if result = NO_RESULT then Inr (Some c, rc')
               else go_bind (fill_cell (rw_row rc) (rw_filled rc) c)
                      (\<lambda>c'. Inr (Some c', rc'\<lparr>rw_filled := Suc (rw_filled rc)\<rparr>))))"

subsection \<open>What a row stands for\<close>

definition row_statuses :: "row \<Rightarrow> test_status list" where
  "row_statuses r = rle_expand (row_results r)"

definition filled :: "test_status list \<Rightarrow> nat" where
  "filled ss = length (filter (\<lambda>s. s \<noteq> NO_RESULT) ss)"

lemma filled_simps [simp]:
  "filled [] = 0" "filled (s # ss) = (if s = NO_RESULT then filled ss else Suc (filled ss))"
  "filled (xs @ ys) = filled xs + filled ys"
  by (auto simp: filled_def)

lemma filled_take_Suc:
  "i < length ss \<Longrightarrow>
   filled (take (Suc i) ss) = filled (take i ss) + (if ss ! i = NO_RESULT then 0 else 1)"
  by (simp add: take_Suc_conv_app_nth)

lemma filled_take_less:
  assumes "i < length ss" "ss ! i \<noteq> NO_RESULT"
  shows "filled (take i ss) < filled ss"
proof -
  have "filled ss = filled (take (Suc i) ss) + filled (drop (Suc i) ss)"
    by (metis append_take_drop_id filled_simps(3))
  with assms show ?thesis by (simp add: filled_take_Suc)
qed

definition metric_at :: "metric \<Rightarrow> nat \<Rightarrow> float64 option" where
  "metric_at m i =
     (let d = dense 0 (m_indices m) (m_values m) in if i < length d then d ! i else None)"

definition metrics_at :: "metric list \<Rightarrow> nat \<Rightarrow> (string, float64) gomap" where
  "metrics_at ms i = List.map_filter (\<lambda>m. map_option (Pair (m_name m)) (metric_at m i)) ms"

text \<open>The cell of a row in column \<open>i\<close>.\<close>

definition cell_at :: "row \<Rightarrow> nat \<Rightarrow> cell" where
  "cell_at r i =
     (let s = row_statuses r ! i; k = filled (take i (row_statuses r));
          c = zero_cell\<lparr>c_result := s, c_id := row_id r, c_metrics := metrics_at (row_metrics r) i\<rparr>
      in if s = NO_RESULT then c
         else c\<lparr>c_icon := row_icons r ! k, c_message := row_messages r ! k,
                c_cell_id := (if hasCellID (row_name r) then row_cell_ids r ! k else []),
                c_properties := (if k < length (row_properties r) then row_properties r ! k else []),
                c_user_property :=
                  (if k < length (row_user_property r) then row_user_property r ! k else [])\<rparr>)"

definition row_cells :: "row \<Rightarrow> cell list" where
  "row_cells r = map (cell_at r) [0..<length (row_statuses r)]"

lemma length_row_cells [simp]: "length (row_cells r) = length (row_statuses r)"
  by (simp add: row_cells_def)

text \<open>
  The rows the decoder accepts: results in pairs, a message and an icon (and a cell identifier,
  where the row has them) for every filled cell, and distinct metric names.
\<close>

definition inflatable :: "row \<Rightarrow> bool" where
  "inflatable r \<longleftrightarrow>
     even (length (row_results r)) \<and>
     filled (row_statuses r) \<le> length (row_icons r) \<and>
     filled (row_statuses r) \<le> length (row_messages r) \<and>
     (hasCellID (row_name r) \<longrightarrow> filled (row_statuses r) \<le> length (row_cell_ids r)) \<and>
     distinct (map m_name (row_metrics r)) \<and> row_metric r = map m_name (row_metrics r)"

text \<open>A cursor over row \<open>r\<close> that has handed out \<open>i\<close> cells.\<close>

definition cursor_at :: "row \<Rightarrow> nat \<Rightarrow> row_cursor \<Rightarrow> bool" where
  "cursor_at r i rc \<longleftrightarrow>
     i \<le> length (row_statuses r) \<and> rw_row rc = r \<and>
     rw_filled rc = filled (take i (row_statuses r)) \<and>
     res_ok (rw_results rc) \<and> res_todo (rw_results rc) = drop i (row_statuses r) \<and>
     list_all2 (\<lambda>(n, mc) m. n = m_name m \<and>
         met_todo mc = drop i (dense 0 (m_indices m) (m_values m)))
       (rw_mets rc) (row_metrics r)"

lemma inflate_mets_distinct:
  assumes "distinct (map fst mets @ map m_name ms)" "drop i legacy = map m_name ms"
  shows "\<exists>mcs. inflate_mets legacy i mets ms = Inr (mets @ mcs) \<and>
    list_all2 (\<lambda>(n, mc) m. n = m_name m \<and> met_todo mc = dense 0 (m_indices m) (m_values m)) mcs ms"
  using assms
proof (induction ms arbitrary: mets i)
  case (Cons m ms)
  have new: "AList.update (m_name m) mc mets = mets @ [(m_name m, mc)]" for mc
    using Cons.prems(1) by (induction mets) auto
  have leg: "slice_at legacy i = Inr (m_name m)" "drop (Suc i) legacy = map m_name ms"
    using Cons.prems(2)
    by (auto simp: slice_at_def nth_via_drop drop_Suc tl_drop [symmetric] not_less)
  let ?mc = "inflateMetric m"
  have "inflateMetric (m\<lparr>m_name := n\<rparr>) = ?mc" for n
    by (simp add: inflateMetric_def)
  then have "inflate_mets legacy i mets (m # ms) =
      inflate_mets legacy (Suc i) (mets @ [(m_name m, ?mc)]) ms"
    using leg new by auto
  with Cons.IH [of "mets @ [(m_name m, ?mc)]" "Suc i"] Cons.prems(1) leg(2)
  show ?case by fastforce
qed simp

lemma inflateRow_cursor: "inflatable r \<Longrightarrow> \<exists>rc. inflateRow r = Inr rc \<and> cursor_at r 0 rc"
  using inflate_mets_distinct [of "[]" "row_metrics r" 0 "row_metric r"]
  by (auto simp: inflatable_def inflateRow_def cursor_at_def row_statuses_def)

lemma mets_values_at:
  assumes "list_all2 (\<lambda>(n, mc) m. n = m_name m \<and>
      met_todo mc = drop i (dense 0 (m_indices m) (m_values m))) mets ms"
  shows "mets_values mets = metrics_at ms i"
  using assms
proof (induction mets ms rule: list_all2_induct)
  case (Cons p mets m ms)
  obtain n mc where p: "p = (n, mc)" by fastforce
  with Cons.hyps(1) have "n = m_name m" "fst (fst (met_next mc)) = metric_at m i"
    by (auto simp: met_next_value metric_at_def Let_def head_drop head_drop_beyond)
  with Cons.IH p show ?case
    by (simp add: mets_values_def metrics_at_def List.map_filter_simps split: option.split)
qed (simp add: mets_values_def metrics_at_def List.map_filter_simps)

lemma mets_next_at:
  assumes "list_all2 (\<lambda>(n, mc) m. n = m_name m \<and>
      met_todo mc = drop i (dense 0 (m_indices m) (m_values m))) mets ms"
  shows "list_all2 (\<lambda>(n, mc) m. n = m_name m \<and>
      met_todo mc = drop (Suc i) (dense 0 (m_indices m) (m_values m))) (mets_next mets) ms"
  using assms
  by (induction mets ms rule: list_all2_induct)
     (auto simp: mets_next_def met_next_todo drop_Suc tl_drop)

lemma row_next_cell:
  assumes "inflatable r" "cursor_at r i rc" "i < length (row_statuses r)"
  shows "\<exists>rc'. row_next rc = Inr (Some (cell_at r i), rc') \<and> cursor_at r (Suc i) rc'"
proof -
  let ?ss = "row_statuses r"
  from assms(2) have rc: "rw_row rc = r" "rw_filled rc = filled (take i ?ss)"
    "res_ok (rw_results rc)" "res_todo (rw_results rc) = drop i ?ss"
    by (simp_all add: cursor_at_def)
  from assms(2) have mets: "mets_values (rw_mets rc) = metrics_at (row_metrics r) i"
    by (simp add: cursor_at_def mets_values_at)
  obtain rr where rr: "res_next (rw_results rc) = Inr (Some (?ss ! i), rr)" "res_ok rr"
      "res_todo rr = drop (Suc i) ?ss"
    using res_next_spec [OF rc(3)] rc(4) assms(3) by (auto simp: head_drop drop_Suc tl_drop)
  have k: "filled (take i ?ss) < filled ?ss" if "?ss ! i \<noteq> NO_RESULT"
    using assms(3) that by (rule filled_take_less)
  have "\<exists>rc'. row_next rc = Inr (Some (cell_at r i), rc') \<and> rw_row rc' = r \<and>
      rw_filled rc' = filled (take (Suc i) ?ss) \<and> rw_results rc' = rr \<and>
      rw_mets rc' = mets_next (rw_mets rc)"
    using assms(1,3) rc mets rr(1) k
    by (auto simp: row_next_def cell_at_def fill_cell_def inflatable_def filled_take_Suc Let_def)
  with assms(2,3) rr mets_next_at show ?thesis
    unfolding cursor_at_def by fastforce
qed

lemma row_next_end:
  assumes "cursor_at r (length (row_statuses r)) rc"
  shows "\<exists>rc'. row_next rc = Inr (None, rc') \<and> cursor_at r (length (row_statuses r)) rc'"
  using assms res_next_spec [of "rw_results rc"]
  by (auto simp: row_next_def cursor_at_def)

text \<open>The closure of \<open>inflateRow\<close> as a cursor over the cells of its row.\<close>

definition row_step :: "row_cursor \<Rightarrow> cell option \<times> row_cursor" where
  "row_step rc = (case row_next rc of Inr x \<Rightarrow> x | Inl _ \<Rightarrow> (None, rc))"

definition row_pos :: "row_cursor \<Rightarrow> nat" where
  "row_pos rc = length (row_statuses (rw_row rc)) - length (res_todo (rw_results rc))"

definition row_ok :: "row_cursor \<Rightarrow> bool" where
  "row_ok rc \<longleftrightarrow> inflatable (rw_row rc) \<and> cursor_at (rw_row rc) (row_pos rc) rc"

definition row_todo :: "row_cursor \<Rightarrow> cell list" where
  "row_todo rc = drop (row_pos rc) (row_cells (rw_row rc))"

lemma row_pos_cursor_at: "cursor_at r i rc \<Longrightarrow> row_pos rc = i"
  by (auto simp: cursor_at_def row_pos_def)

lemma row_ok_cursor_at: "inflatable r \<Longrightarrow> cursor_at r i rc \<Longrightarrow> row_ok rc"
  using row_pos_cursor_at [of r i rc] by (auto simp: row_ok_def cursor_at_def)

lemma row_todo_cursor_at: "cursor_at r i rc \<Longrightarrow> row_todo rc = drop i (row_cells r)"
  using row_pos_cursor_at [of r i rc] by (simp add: row_todo_def cursor_at_def)

lemma row_step_spec:
  assumes "row_ok rc"
  shows "row_next rc = Inr (row_step rc) \<and> row_ok (snd (row_step rc)) \<and>
    fst (row_step rc) = head (row_todo rc) \<and> row_todo (snd (row_step rc)) = tl (row_todo rc)"
proof -
  let ?r = "rw_row rc" and ?i = "row_pos rc"
  from assms have ok: "inflatable ?r" "cursor_at ?r ?i rc" by (simp_all add: row_ok_def)
  show ?thesis
  proof (cases "?i < length (row_statuses ?r)")
    case True
    from row_next_cell [OF ok True] obtain rc' where
      rc': "row_next rc = Inr (Some (cell_at ?r ?i), rc')" "cursor_at ?r (Suc ?i) rc'"
      by blast
    moreover have "head (row_todo rc) = Some (cell_at ?r ?i)"
      using True by (simp add: row_todo_def head_drop) (simp add: row_cells_def)
    moreover have "row_todo rc' = tl (row_todo rc)"
      by (simp add: row_todo_cursor_at [OF rc'(2)] row_todo_def [of rc] drop_Suc tl_drop)
    ultimately show ?thesis
      using ok(1) by (auto simp: row_step_def row_ok_cursor_at)
  next
    case False
    with ok(2) have e: "?i = length (row_statuses ?r)" by (simp add: cursor_at_def)
    with row_next_end [of ?r rc] ok(2) obtain rc' where
      rc': "row_next rc = Inr (None, rc')" "cursor_at ?r ?i rc'"
      by auto
    moreover have "row_todo rc = []" "row_todo rc' = []"
      using e row_todo_cursor_at [OF rc'(2)] row_todo_cursor_at [OF ok(2)]
      by (simp_all add: row_cells_def)
    ultimately show ?thesis
      using ok(1) by (auto simp: row_step_def row_ok_cursor_at)
  qed
qed

interpretation rw: cursor row_step row_ok row_todo
  by unfold_locales (simp_all add: row_step_spec)

section \<open>InflateGrid\<close>

text \<open>
  \<open>rows[row.Name] = inflateRow(row)\<close> for every row, and the issues of the rows that have some.
\<close>

fun inflate_rows :: "(string, row_cursor) gomap \<Rightarrow> row list \<Rightarrow> (string, row_cursor) gomap go" where
  "inflate_rows m [] = Inr m"
| "inflate_rows m (r # rs) =
     go_bind (inflateRow r) (\<lambda>rc. inflate_rows (AList.update (row_name r) rc m) rs)"

definition grid_issues :: "row list \<Rightarrow> (string, string list) gomap" where
  "grid_issues rows =
     fold (\<lambda>r m. if row_issues r \<noteq> [] then AList.update (row_name r) (row_issues r) m else m) rows []"

text \<open>One call on every row closure; rows whose closure gives nil have no cell in the column.\<close>

fun next_cells ::
    "(string, row_cursor) gomap \<Rightarrow> ((string, cell) gomap \<times> (string, row_cursor) gomap) go" where
  "next_cells [] = Inr ([], [])"
| "next_cells ((n, rc) # m) =
     go_bind (row_next rc) (\<lambda>(c, rc').
     go_bind (next_cells m) (\<lambda>(cells, m').
     Inr ((case c of None \<Rightarrow> cells | Some cell \<Rightarrow> (n, cell) # cells), (n, rc') # m')))"

text \<open>
  The loop over the columns.  \<open>done i\<close> tells whether the context is cancelled when column \<open>i\<close> is
  reached; \<open>earliest\<close> and \<open>latest\<close> are Unix seconds.
\<close>

fun inflate_cols ::
    "(nat \<Rightarrow> bool) \<Rightarrow> int \<Rightarrow> int \<Rightarrow> nat \<Rightarrow> (string, row_cursor) gomap \<Rightarrow> inflated_column list \<Rightarrow>
     column list \<Rightarrow> inflated_column list go" where
  "inflate_cols cancelled earliest latest i m cols [] = Inr cols"
| "inflate_cols cancelled earliest latest i m cols (col # rest) =
     (if cancelled i then Inl (Failed ''context canceled'')
      else
        let col' = (if col_hint col = [] then col\<lparr>col_hint := col_build col\<rparr> else col) in
        go_bind (next_cells m) (\<lambda>(cells, m').
          let when = trunc (col_started col / 1000);
              cols' = (if when > latest then cols
                       else if when < earliest \<and> cols \<noteq> [] then cols
                       else cols @ [\<lparr>ic_column = col', ic_cells = cells\<rparr>])
          in inflate_cols cancelled earliest latest (Suc i) m' cols' rest))"

definition InflateGrid ::
    "(nat \<Rightarrow> bool) \<Rightarrow> grid \<Rightarrow> int \<Rightarrow> int \<Rightarrow>
     (inflated_column list \<times> (string, string list) gomap) go" where
  "InflateGrid cancelled grid earliest latest =
     go_bind (inflate_rows [] (grid_rows grid)) (\<lambda>m.
     go_bind (inflate_cols cancelled earliest latest 0 m [] (grid_columns grid)) (\<lambda>cols.
     Inr (cols, grid_issues (grid_rows grid))))"

subsection \<open>The columns that are kept, and what is in them\<close>

text \<open>
  The indices of the columns in the window.  The first column that is not too recent stays
  whatever its age.
\<close>

fun kept_columns :: "int \<Rightarrow> int \<Rightarrow> bool \<Rightarrow> nat \<Rightarrow> column list \<Rightarrow> nat list" where
  "kept_columns earliest latest some i [] = []"
| "kept_columns earliest latest some i (col # rest) =
     (let when = trunc (col_started col / 1000) in
      if when > latest \<or> (when < earliest \<and> some) then kept_columns earliest latest some (Suc i) rest
      else i # kept_columns earliest latest True (Suc i) rest)"

definition with_hint :: "column \<Rightarrow> column" where
  "with_hint col = (if col_hint col = [] then col\<lparr>col_hint := col_build col\<rparr> else col)"

definition column_cells :: "row list \<Rightarrow> nat \<Rightarrow> (string, cell) gomap" where
  "column_cells rows i = map (\<lambda>r. (row_name r, cell_at r i)) rows"

definition inflated_at :: "grid \<Rightarrow> nat \<Rightarrow> inflated_column" where
  "inflated_at g i =
     \<lparr>ic_column = with_hint (grid_columns g ! i), ic_cells = column_cells (grid_rows g) i\<rparr>"

text \<open>The grids a reader accepts: decodable rows under distinct names, one result per column.\<close>

definition grid_ok :: "grid \<Rightarrow> bool" where
  "grid_ok g \<longleftrightarrow>
     distinct (map row_name (grid_rows g)) \<and>
     (\<forall>r \<in> set (grid_rows g). inflatable r \<and> length (row_statuses r) = length (grid_columns g))"

abbreviation cursors_at :: "row list \<Rightarrow> nat \<Rightarrow> (string, row_cursor) gomap \<Rightarrow> bool" where
  "cursors_at rows i m \<equiv> list_all2 (\<lambda>(n, rc) r. n = row_name r \<and> cursor_at r i rc) m rows"

lemma inflate_rows_cursors:
  assumes "\<forall>r \<in> set rows. inflatable r" "distinct (map fst m @ map row_name rows)"
  shows "\<exists>m'. inflate_rows m rows = Inr (m @ m') \<and> cursors_at rows 0 m'"
  using assms
proof (induction rows arbitrary: m)
  case (Cons r rows)
  from Cons.prems(1) have "inflatable r" by simp
  from inflateRow_cursor [OF this] obtain rc where
    rc: "inflateRow r = Inr rc" "cursor_at r 0 rc"
    by blast
  have new: "AList.update (row_name r) rc m = m @ [(row_name r, rc)]"
    using Cons.prems(2) by (induction m) auto
  from Cons.IH [of "m @ [(row_name r, rc)]"] Cons.prems obtain m' where
    "inflate_rows (m @ [(row_name r, rc)]) rows = Inr ((m @ [(row_name r, rc)]) @ m')"
    "cursors_at rows 0 m'"
    by force
  with rc show ?case by (simp add: new)
qed simp

lemma next_cells_at:
  assumes "cursors_at rows i m" "\<forall>r \<in> set rows. inflatable r \<and> i < length (row_statuses r)"
  shows "\<exists>m'. next_cells m = Inr (column_cells rows i, m') \<and> cursors_at rows (Suc i) m'"
  using assms
proof (induction m rows rule: list_all2_induct)
  case (Cons p m r rows)
  obtain n rc where p: "p = (n, rc)" by (cases p)
  from Cons.hyps(1) have rc: "n = row_name r" "cursor_at r i rc" by (simp_all add: p)
  from Cons.prems have r: "inflatable r" "i < length (row_statuses r)" by simp_all
  from row_next_cell [OF r(1) rc(2) r(2)] obtain rc' where
    rc': "row_next rc = Inr (Some (cell_at r i), rc')" "cursor_at r (Suc i) rc'"
    by blast
  from Cons.IH Cons.prems obtain m' where
    "next_cells m = Inr (column_cells rows i, m')" "cursors_at rows (Suc i) m'"
    by force
  with rc rc' show ?case by (simp add: p column_cells_def)
qed (simp add: column_cells_def)

lemma inflate_cols_kept:
  assumes "grid_ok g" "\<forall>j. \<not> cancelled j" "cursors_at (grid_rows g) i m"
    and "cs = drop i (grid_columns g)"
  shows "inflate_cols cancelled earliest latest i m cols cs =
    Inr (cols @ map (inflated_at g) (kept_columns earliest latest (cols \<noteq> []) i cs))"
  using assms(3,4)
proof (induction cs arbitrary: i m cols)
  case (Cons col rest)
  have i: "i < length (grid_columns g)" "grid_columns g ! i = col"
      "drop (Suc i) (grid_columns g) = rest"
    using drop_eq_Cons [OF Cons.prems(2) [symmetric]] by auto
  from assms(1) i have "\<forall>r \<in> set (grid_rows g). inflatable r \<and> i < length (row_statuses r)"
    by (simp add: grid_ok_def)
  from next_cells_at [OF Cons.prems(1) this] obtain m' where
    m': "next_cells m = Inr (column_cells (grid_rows g) i, m')"
        "cursors_at (grid_rows g) (Suc i) m'"
    by blast
  have IH: "inflate_cols cancelled earliest latest (Suc i) m' cols rest =
      Inr (cols @ map (inflated_at g) (kept_columns earliest latest (cols \<noteq> []) (Suc i) rest))"
    for cols
    using Cons.IH [OF m'(2) i(3) [symmetric]] .
  have at: "inflated_at g i = \<lparr>ic_column = (if col_hint col = [] then col\<lparr>col_hint := col_build col\<rparr> else col),
      ic_cells = column_cells (grid_rows g) i\<rparr>"
    using i(2) by (simp add: inflated_at_def with_hint_def)
  have "\<not> cancelled i" using assms(2) by simp
  with m'(1) show ?case by (simp add: IH at Let_def)
qed simp

text \<open>
  The contract of \<open>InflateGrid\<close>: it returns the columns of the window, each with the cell every
  row stands for at that column.
\<close>

lemma InflateGrid_kept:
  assumes "grid_ok g" "\<forall>j. \<not> cancelled j"
  shows "InflateGrid cancelled g earliest latest =
    Inr (map (inflated_at g) (kept_columns earliest latest False 0 (grid_columns g)),
         grid_issues (grid_rows g))"
proof -
  from assms(1) inflate_rows_cursors [of "grid_rows g" "[]"] obtain m where
    m: "inflate_rows [] (grid_rows g) = Inr m" "cursors_at (grid_rows g) 0 m"
    by (auto simp: grid_ok_def)
  with inflate_cols_kept [OF assms m(2)] show ?thesis
    by (simp add: InflateGrid_def)
qed

lemma kept_columns_all:
  "\<forall>c \<in> set cs. earliest \<le> trunc (col_started c / 1000) \<and> trunc (col_started c / 1000) \<le> latest \<Longrightarrow>
   kept_columns earliest latest b i cs = [i..<i + length cs]"
  by (induction cs arbitrary: i b) (auto simp: Let_def upt_rec)

end
