(* ===== verification/Compress.thy ===== *)
theory Compress
  imports Inflate
begin

text \<open>
  The writer side of the grid in \<open>pkg/updater/updater.go\<close>: sparse metrics, run-length-encoded
  results, one cell or one column at a time, and the removal of rows without results.  Its
  contract is stated with the decoder of \<open>Inflate\<close>: what is appended is what will be read back.

  The \<open>rows\<close> map of the code holds the same pointers as \<open>grid.Rows\<close>, under their names; here the
  list of rows plays both roles.
\<close>

section \<open>truncate\<close>

definition truncate_msg :: "string \<Rightarrow> nat \<Rightarrow> string" where
  "truncate_msg msg mx =
     (if mx = 0 \<or> length msg \<le> mx then msg
      else to_valid_utf8 [] (take (mx div 2) msg) @ ''...'' @
           to_valid_utf8 [] (drop (length msg - mx div 2) msg))"

lemma length_truncate: "0 < mx \<Longrightarrow> length (truncate_msg msg mx) \<le> mx + 3"
  using length_to_valid_utf8 [of "take (mx div 2) msg"]
    length_to_valid_utf8 [of "drop (length msg - mx div 2) msg"]
  by (auto simp: truncate_msg_def)

lemma truncate_short: "length msg \<le> mx \<Longrightarrow> truncate_msg msg mx = msg"
  by (simp add: truncate_msg_def)

section \<open>appendMetric\<close>

text \<open>\<open>metric.Indices\<close> holds pairs; the code reads its last two entries.\<close>

definition appendMetric :: "metric \<Rightarrow> int \<Rightarrow> float64 \<Rightarrow> metric go" where
  "appendMetric m idx v =
     go_bind (case rev (m_indices m) of
         [] \<Rightarrow> Inr [idx, 1]
       | [_] \<Rightarrow> Inl (Panic ''index out of range'')
       | n # s # _ \<Rightarrow>
           Inr (if s + n \<noteq> idx then m_indices m @ [idx, 1] else butlast (m_indices m) @ [n + 1]))
       (\<lambda>indices. Inr (m\<lparr>m_indices := indices, m_values := m_values m @ [v]\<rparr>))"

text \<open>
  The encodings \<^const>\<open>appendMetric\<close> keeps: groups of at least one value, in order, with as many
  values as the groups announce; \<open>metric_end\<close> is the position after the last value.
\<close>

fun groups_ok :: "int \<Rightarrow> int list \<Rightarrow> float64 list \<Rightarrow> bool" where
  "groups_ok p (s # n # r) vs \<longleftrightarrow>
     p \<le> s \<and> 0 < n \<and> n \<le> int (length vs) \<and> groups_ok (s + n) r (drop (nat n) vs)"
| "groups_ok p xs vs \<longleftrightarrow> xs = [] \<and> vs = []"

fun groups_end :: "int \<Rightarrow> int list \<Rightarrow> int" where
  "groups_end p (s # n # r) = groups_end (s + n) r"
| "groups_end p _ = p"

fun append_index :: "int list \<Rightarrow> int \<Rightarrow> int list" where
  "append_index [] idx = [idx, 1]"
| "append_index [s] idx = [s]"
| "append_index [s, n] idx = (if s + n \<noteq> idx then [s, n, idx, 1] else [s, n + 1])"
| "append_index (s # n # r) idx = s # n # append_index r idx"

lemma append_index_last:
  "even (length xs) \<Longrightarrow> append_index (xs @ [s, n]) idx =
     (if s + n \<noteq> idx then xs @ [s, n, idx, 1] else xs @ [s, n + 1])"
  by (induction xs idx rule: append_index.induct) auto

lemma even_length_last:
  assumes "even (length xs)" "xs \<noteq> []"
  obtains ys a b where "xs = ys @ [a, b]" "even (length ys)"
proof (cases xs rule: rev_cases)
  case (snoc zs b)
  with assms show ?thesis by (cases zs rule: rev_cases) (auto intro: that)
qed (use assms in simp)

lemma groups_ok_even: "groups_ok p xs vs \<Longrightarrow> even (length xs)"
  by (induction p xs vs rule: groups_ok.induct) auto

lemma appendMetric_index:
  "even (length (m_indices m)) \<Longrightarrow> appendMetric m idx v =
     Inr (m\<lparr>m_indices := append_index (m_indices m) idx, m_values := m_values m @ [v]\<rparr>)"
proof (cases "m_indices m = []")
  case False
  assume "even (length (m_indices m))"
  with False obtain ys a b where "m_indices m = ys @ [a, b]" "even (length ys)"
    using even_length_last by blast
  then show ?thesis by (simp add: appendMetric_def append_index_last butlast_append)
qed (simp add: appendMetric_def)

lemma groups_end_ge: "groups_ok p xs vs \<Longrightarrow> p \<le> groups_end p xs"
  by (induction p xs vs rule: groups_ok.induct) auto

lemma length_dense:
  "groups_ok p xs vs \<Longrightarrow> int (length (dense p xs vs)) = groups_end p xs - p"
  by (induction p xs vs rule: groups_ok.induct) (auto simp: max_def)

lemma groups_ok_append_index:
  "groups_ok p xs vs \<Longrightarrow> groups_end p xs \<le> idx \<Longrightarrow>
   groups_ok p (append_index xs idx) (vs @ [v]) \<and> groups_end p (append_index xs idx) = idx + 1"
  by (induction xs idx arbitrary: p vs rule: append_index.induct) auto

lemma dense_append_index:
  "groups_ok p xs vs \<Longrightarrow> groups_end p xs \<le> idx \<Longrightarrow>
   dense p (append_index xs idx) (vs @ [v]) =
   dense p xs vs @ replicate (nat (idx - groups_end p xs)) None @ [Some v]"
proof (induction xs idx arbitrary: p vs rule: append_index.induct)
  case (3 s n idx)
  then show ?case by (auto simp: max_def)
next
  case (4 s n a r idx)
  then show ?case by (auto simp: max_def)
qed (auto simp: max_def)

section \<open>appendCell\<close>

text \<open>The run-length encoding is extended in place when the status repeats.\<close>

definition append_result :: "int list \<Rightarrow> int \<Rightarrow> nat \<Rightarrow> int list go" where
  "append_result results latest num =
     (case rev results of
        [] \<Rightarrow> Inr [latest, int num]
      | [_] \<Rightarrow> Inl (Panic ''index out of range'')
      | n # r # _ \<Rightarrow>
          Inr (if r \<noteq> latest then results @ [latest, int num]
               else butlast results @ [n + int num]))"

text \<open>The metric of that name, or a new one at the end.\<close>

fun record_metric :: "int \<Rightarrow> string \<Rightarrow> float64 \<Rightarrow> metric list \<Rightarrow> metric list go" where
  "record_metric idx n v [] =
     go_bind (appendMetric \<lparr>m_name = n, m_indices = [], m_values = []\<rparr> idx v) (\<lambda>m. Inr [m])"
| "record_metric idx n v (m # ms) =
     (if m_name m = n then go_bind (appendMetric m idx v) (\<lambda>m'. Inr (m' # ms))
      else go_bind (record_metric idx n v ms) (\<lambda>ms'. Inr (m # ms')))"

definition append_measurement :: "int \<Rightarrow> row \<Rightarrow> string \<times> float64 \<Rightarrow> row go" where
  "append_measurement idx row nv =
     go_bind (record_metric idx (fst nv) (snd nv) (row_metrics row)) (\<lambda>ms.
     Inr (row\<lparr>row_metric :=
                (if fst nv \<in> set (row_metric row) then row_metric row else row_metric row @ [fst nv]),
              row_metrics := ms\<rparr>))"

definition append_filled :: "cell \<Rightarrow> row \<Rightarrow> row" where
  "append_filled cell row =
     (if c_result cell = NO_RESULT then row
      else
        let row' = (if hasCellID (row_name row)
                    then row\<lparr>row_cell_ids := row_cell_ids row @ [c_cell_id cell],
                             row_properties := row_properties row @ [c_properties cell]\<rparr>
                    else row)
        in row'\<lparr>row_messages := row_messages row' @ [truncate_msg (c_message cell) 140],
                row_icons := row_icons row' @ [c_icon cell],
                row_user_property := row_user_property row' @ [c_user_property cell]\<rparr>)"

definition append_at :: "cell \<Rightarrow> nat \<Rightarrow> row \<Rightarrow> nat \<Rightarrow> row go" where
  "append_at cell start row i =
     go_bind (go_fold (append_measurement (int (start + i))) row (c_metrics cell))
       (\<lambda>row'. Inr (append_filled cell row'))"

definition appendCell :: "row \<Rightarrow> cell \<Rightarrow> nat \<Rightarrow> nat \<Rightarrow> row go" where
  "appendCell row cell start num =
     go_bind (append_result (row_results row) (status_code (c_result cell)) num) (\<lambda>results.
     go_bind (go_fold (append_at cell start) (row\<lparr>row_results := results\<rparr>) [0..<num]) (\<lambda>row'.
     Inr (row'\<lparr>row_issues := row_issues row' @ c_issues cell\<rparr>)))"

definition emptyCell :: cell where
  "emptyCell = zero_cell"

subsection \<open>Metrics of a row\<close>

definition metric_wf :: "int \<Rightarrow> metric \<Rightarrow> bool" where
  "metric_wf e m \<longleftrightarrow> groups_ok 0 (m_indices m) (m_values m) \<and> groups_end 0 (m_indices m) \<le> e"

definition metric_val :: "metric list \<Rightarrow> string \<Rightarrow> nat \<Rightarrow> float64 option" where
  "metric_val ms n j =
     (case find (\<lambda>m. m_name m = n) ms of None \<Rightarrow> None | Some m \<Rightarrow> metric_at m j)"

lemma metric_val_simps [simp]:
  "metric_val [] n j = None"
  "metric_val (m # ms) n j = (if m_name m = n then metric_at m j else metric_val ms n j)"
  by (simp_all add: metric_val_def)

lemma metrics_at_simps [simp]:
  "metrics_at [] j = []"
  "metrics_at (m # ms) j =
     (case metric_at m j of None \<Rightarrow> metrics_at ms j | Some x \<Rightarrow> (m_name m, x) # metrics_at ms j)"
  by (auto simp: metrics_at_def List.map_filter_simps split: option.split)

lemma metrics_at_names: "n \<in> fst ` set (metrics_at ms j) \<Longrightarrow> n \<in> m_name ` set ms"
  by (induction ms) (auto split: option.splits)

lemma map_of_metrics_at:
  "distinct (map m_name ms) \<Longrightarrow> map_of (metrics_at ms j) n = metric_val ms n j"
proof (induction ms)
  case (Cons m ms)
  have "m_name m \<notin> m_name ` set ms" using Cons.prems by simp
  then have "map_of (metrics_at ms j) (m_name m) = None"
    using metrics_at_names [of "m_name m" ms j] by (auto simp: map_of_eq_None_iff)
  with Cons show ?case by (auto split: option.split)
qed simp

lemma metric_at_end: "metric_wf e m \<Longrightarrow> e \<le> int j \<Longrightarrow> metric_at m j = None"
  using length_dense [of 0 "m_indices m" "m_values m"]
  by (auto simp: metric_wf_def metric_at_def Let_def)

lemma metric_val_end: "\<forall>m \<in> set ms. metric_wf e m \<Longrightarrow> e \<le> int j \<Longrightarrow> metric_val ms n j = None"
  by (induction ms) (auto simp: metric_at_end)

lemma appendMetric_wf:
  assumes "metric_wf (int i) m"
  shows "\<exists>m'. appendMetric m (int i) v = Inr m' \<and> m_name m' = m_name m \<and>
    metric_wf (int i + 1) m' \<and>
    (\<forall>j. metric_at m' j = (if j = i then Some v else metric_at m j))"
proof -
  let ?xs = "m_indices m" and ?vs = "m_values m"
  let ?m = "m\<lparr>m_indices := append_index ?xs (int i), m_values := ?vs @ [v]\<rparr>"
  from assms have ok: "groups_ok 0 ?xs ?vs" "groups_end 0 ?xs \<le> int i"
    by (simp_all add: metric_wf_def)
  let ?d = "dense 0 ?xs ?vs" and ?h = "nat (int i - groups_end 0 ?xs)"
  have len: "int (length ?d) = groups_end 0 ?xs"
    using length_dense [OF ok(1)] by simp
  have d: "dense 0 (append_index ?xs (int i)) (?vs @ [v]) = ?d @ replicate ?h None @ [Some v]"
    using dense_append_index [OF ok] .
  have "metric_at ?m j = (if j = i then Some v else metric_at m j)" for j
    using len ok(2) by (auto simp: metric_at_def Let_def d nth_append)
  moreover have "appendMetric m (int i) v = Inr ?m"
    using groups_ok_even [OF ok(1)] by (simp add: appendMetric_index)
  moreover have "metric_wf (int i + 1) ?m"
    using groups_ok_append_index [OF ok, of v] by (simp add: metric_wf_def)
  ultimately show ?thesis by auto
qed

lemma record_metric_spec:
  assumes "\<forall>m \<in> set ms. m_name m = n \<longrightarrow> metric_wf (int i) m"
  shows "\<exists>ms'. record_metric (int i) n v ms = Inr ms' \<and>
    map m_name ms' = (if n \<in> m_name ` set ms then map m_name ms else map m_name ms @ [n]) \<and>
    (\<forall>m' \<in> set ms'. m' \<in> set ms \<or> m_name m' = n \<and> metric_wf (int i + 1) m') \<and>
    (\<forall>n' j. metric_val ms' n' j = (if n' = n \<and> j = i then Some v else metric_val ms n' j))"
  using assms
proof (induction ms)
  case Nil
  have "metric_wf (int i) \<lparr>m_name = n, m_indices = [], m_values = []\<rparr>"
    by (simp add: metric_wf_def)
  from appendMetric_wf [OF this, of v] obtain m' where
    m': "appendMetric \<lparr>m_name = n, m_indices = [], m_values = []\<rparr> (int i) v = Inr m'"
    "m_name m' = n" "metric_wf (int i + 1) m'"
    "\<And>j. metric_at m' j = (if j = i then Some v else None)"
    by (auto simp: metric_at_def)
  then show ?case by (auto intro!: exI [of _ "[m']"])
next
  case (Cons m ms)
  show ?case
  proof (cases "m_name m = n")
    case True
    with Cons.prems appendMetric_wf [of i m v] obtain m' where
      "appendMetric m (int i) v = Inr m'" "m_name m' = n" "metric_wf (int i + 1) m'"
      "\<And>j. metric_at m' j = (if j = i then Some v else metric_at m j)"
      by auto
    with True show ?thesis by (auto intro!: exI [of _ "m' # ms"])
  next
    case False
    from Cons obtain ms' where
      "record_metric (int i) n v ms = Inr ms'"
      "map m_name ms' = (if n \<in> m_name ` set ms then map m_name ms else map m_name ms @ [n])"
      "\<forall>m' \<in> set ms'. m' \<in> set ms \<or> m_name m' = n \<and> metric_wf (int i + 1) m'"
      "\<forall>n' j. metric_val ms' n' j = (if n' = n \<and> j = i then Some v else metric_val ms n' j)"
      by auto
    with False show ?thesis by (auto intro!: exI [of _ "m # ms'"])
  qed
qed

lemma append_measurements:
  assumes "distinct (map fst nvs)" "row_metric r = map m_name (row_metrics r)"
    "distinct (map m_name (row_metrics r))"
    "\<forall>m \<in> set (row_metrics r). metric_wf (int i + 1) m \<and>
       (m_name m \<in> fst ` set nvs \<longrightarrow> metric_wf (int i) m)"
  shows "\<exists>ms. go_fold (append_measurement (int i)) r nvs =
      Inr (r\<lparr>row_metric := map m_name ms, row_metrics := ms\<rparr>) \<and>
    distinct (map m_name ms) \<and> (\<forall>m \<in> set ms. metric_wf (int i + 1) m) \<and>
    (\<forall>n j. metric_val ms n j =
      (if j = i \<and> n \<in> fst ` set nvs then map_of nvs n else metric_val (row_metrics r) n j))"
  using assms
proof (induction nvs arbitrary: r)
  case Nil
  then show ?case by (intro exI [of _ "row_metrics r"]) auto
next
  case (Cons nv nvs)
  obtain n v where nv: "nv = (n, v)" by (cases nv)
  have "\<forall>m \<in> set (row_metrics r). m_name m = n \<longrightarrow> metric_wf (int i) m"
    using Cons.prems(4) nv by simp
  from record_metric_spec [OF this, of v] obtain ms where
    ms: "record_metric (int i) n v (row_metrics r) = Inr ms"
    "map m_name ms =
      (if n \<in> m_name ` set (row_metrics r) then row_metric r else row_metric r @ [n])"
    "\<forall>m \<in> set ms. m \<in> set (row_metrics r) \<or> m_name m = n \<and> metric_wf (int i + 1) m"
    "\<forall>n' j. metric_val ms n' j = (if n' = n \<and> j = i then Some v else metric_val (row_metrics r) n' j)"
    unfolding Cons.prems(2) by blast
  let ?r = "r\<lparr>row_metric := map m_name ms, row_metrics := ms\<rparr>"
  have step: "append_measurement (int i) r nv = Inr ?r"
    using ms(1,2) Cons.prems(2) by (simp add: append_measurement_def nv)
  have dist: "distinct (map m_name ms)"
    using ms(2) Cons.prems(2,3) by (auto split: if_splits)
  have wf: "\<forall>m \<in> set ms. metric_wf (int i + 1) m \<and> (m_name m \<in> fst ` set nvs \<longrightarrow> metric_wf (int i) m)"
    using ms(3) Cons.prems(1,4) nv by auto
  from Cons.IH [of ?r] Cons.prems(1) dist wf obtain ms' where
    ms': "go_fold (append_measurement (int i)) ?r nvs =
      Inr (?r\<lparr>row_metric := map m_name ms', row_metrics := ms'\<rparr>)"
    "distinct (map m_name ms')" "\<forall>m \<in> set ms'. metric_wf (int i + 1) m"
    "\<forall>n j. metric_val ms' n j =
      (if j = i \<and> n \<in> fst ` set nvs then map_of nvs n else metric_val ms n j)"
    by auto
  have "n \<notin> fst ` set nvs" using Cons.prems(1) nv by simp
  with ms' step ms(4) show ?case
    by (intro exI [of _ ms']) (auto simp: nv)
qed

text \<open>
  The effect of the loop over \<open>num\<close> columns: the filled fields grow by \<open>num\<close> entries, or not at
  all for a cell without result, and the metrics by the cell's measurements at every index.
\<close>

definition grown :: "row \<Rightarrow> cell \<Rightarrow> nat \<Rightarrow> metric list \<Rightarrow> row" where
  "grown r c k ms =
     (let f = (if c_result c = NO_RESULT then 0 else k);
          h = (if hasCellID (row_name r) then f else 0)
      in r\<lparr>row_cell_ids := row_cell_ids r @ replicate h (c_cell_id c),
           row_properties := row_properties r @ replicate h (c_properties c),
           row_messages := row_messages r @ replicate f (truncate_msg (c_message c) 140),
           row_icons := row_icons r @ replicate f (c_icon c),
           row_user_property := row_user_property r @ replicate f (c_user_property c),
           row_metric := map m_name ms, row_metrics := ms\<rparr>)"

lemma grown_0: "row_metric r = map m_name (row_metrics r) \<Longrightarrow> grown r c 0 (row_metrics r) = r"
  by (simp add: grown_def)

lemma append_filled_grown:
  "append_filled c ((grown r c k ms)\<lparr>row_metric := map m_name ms', row_metrics := ms'\<rparr>) =
   grown r c (Suc k) ms'"
  by (simp add: append_filled_def grown_def Let_def replicate_append_same)

lemma append_at_loop:
  assumes "distinct (map fst (c_metrics c))" "row_metric r = map m_name (row_metrics r)"
    "distinct (map m_name (row_metrics r))" "\<forall>m \<in> set (row_metrics r). metric_wf (int start) m"
  shows "\<exists>ms. go_fold (append_at c start) r [0..<k] = Inr (grown r c k ms) \<and>
    distinct (map m_name ms) \<and> (\<forall>m \<in> set ms. metric_wf (int (start + k)) m) \<and>
    (\<forall>n j. metric_val ms n j =
      (if start \<le> j \<and> j < start + k then map_of (c_metrics c) n else metric_val (row_metrics r) n j))"
proof (induction k)
  case 0
  then show ?case
    using assms by (intro exI [of _ "row_metrics r"]) (auto simp: grown_0)
next
  case (Suc k)
  then obtain ms where ms: "go_fold (append_at c start) r [0..<k] = Inr (grown r c k ms)"
    "distinct (map m_name ms)" "\<forall>m \<in> set ms. metric_wf (int (start + k)) m"
    "\<forall>n j. metric_val ms n j =
      (if start \<le> j \<and> j < start + k then map_of (c_metrics c) n else metric_val (row_metrics r) n j)"
    by blast
  let ?g = "grown r c k ms"
  have "row_metric ?g = map m_name ms" "row_metrics ?g = ms"
    by (simp_all add: grown_def Let_def)
  moreover have "\<forall>m \<in> set ms. metric_wf (int (start + k) + 1) m"
    using ms(3) by (auto simp: metric_wf_def)
  ultimately obtain ms' where
    ms': "go_fold (append_measurement (int (start + k))) ?g (c_metrics c) =
      Inr (?g\<lparr>row_metric := map m_name ms', row_metrics := ms'\<rparr>)"
    "distinct (map m_name ms')" "\<forall>m \<in> set ms'. metric_wf (int (start + k) + 1) m"
    "\<forall>n j. metric_val ms' n j =
      (if j = start + k \<and> n \<in> fst ` set (c_metrics c) then map_of (c_metrics c) n
       else metric_val ms n j)"
    using append_measurements [OF assms(1), of ?g "start + k"] ms(2,3) by auto
  have step: "append_at c start ?g k = Inr (grown r c (Suc k) ms')"
    using ms'(1) by (simp add: append_at_def append_filled_grown)
  have none: "n \<notin> fst ` set (c_metrics c) \<Longrightarrow> map_of (c_metrics c) n = None" for n
    by (simp add: map_of_eq_None_iff)
  have fresh: "metric_val ms n (start + k) = None" for n
    using ms(3) by (rule metric_val_end) simp
  have vals: "metric_val ms' n j =
      (if start \<le> j \<and> j < start + Suc k then map_of (c_metrics c) n else metric_val (row_metrics r) n j)"
    for n j
  proof (cases "j = start + k")
    case True
    then show ?thesis using ms'(4) none [of n] fresh [of n] by simp
  next
    case False
    then show ?thesis using ms'(4) ms(4) by simp
  qed
  show ?case
    using ms(1) step ms'(2,3) vals
    by (intro exI [of _ ms']) (simp add: go_fold_append add.commute add.left_commute)
qed

subsection \<open>The invariant of a compressed row, and what appending does to its cells\<close>

fun counts_ok :: "int list \<Rightarrow> bool" where
  "counts_ok (r # n # rs) \<longleftrightarrow> 0 \<le> n \<and> counts_ok rs"
| "counts_ok rs \<longleftrightarrow> rs = []"

lemma counts_ok_append:
  "even (length rs) \<Longrightarrow> counts_ok (rs @ [r, n]) \<longleftrightarrow> counts_ok rs \<and> 0 \<le> n"
  by (induction rs rule: counts_ok.induct) auto

lemma counts_ok_even: "counts_ok rs \<Longrightarrow> even (length rs)"
  by (induction rs rule: counts_ok.induct) auto

lemma append_result_spec:
  assumes "counts_ok rs" "canonical s"
  shows "\<exists>rs'. append_result rs (status_code s) k = Inr rs' \<and> counts_ok rs' \<and>
    rle_expand rs' = rle_expand rs @ replicate k s"
proof (cases "rs = []")
  case True
  with assms(2) show ?thesis by (simp add: append_result_def)
next
  case False
  with counts_ok_even [OF assms(1)] obtain ys a b where ys: "rs = ys @ [a, b]" "even (length ys)"
    using even_length_last by blast
  with assms(1) have ok: "counts_ok ys" "0 \<le> b" by (simp_all add: counts_ok_append)
  show ?thesis
  proof (cases "a = status_code s")
    case True
    have "nat (b + int k) = nat b + k" using ok(2) by simp
    with True ys ok assms(2) show ?thesis
      by (simp add: append_result_def butlast_append counts_ok_append rle_expand_append_pair
          replicate_add)
  next
    case neq: False
    have "even (length (ys @ [a, b]))" using ys(2) by simp
    from rle_expand_append_pair [OF this] counts_ok_append [OF this] ok neq ys assms show ?thesis
      by (auto simp: append_result_def)
  qed
qed

definition packed :: "row \<Rightarrow> bool" where
  "packed r \<longleftrightarrow>
     (let f = filled (row_statuses r); h = (if hasCellID (row_name r) then f else 0) in
      counts_ok (row_results r) \<and> length (row_icons r) = f \<and> length (row_messages r) = f \<and>
      length (row_user_property r) = f \<and> length (row_cell_ids r) = h \<and>
      length (row_properties r) = h \<and> row_metric r = map m_name (row_metrics r) \<and>
      distinct (map m_name (row_metrics r)) \<and>
      (\<forall>m \<in> set (row_metrics r). metric_wf (int (length (row_statuses r))) m))"

lemma packed_inflatable: "packed r \<Longrightarrow> inflatable r"
  using counts_ok_even by (auto simp: packed_def inflatable_def Let_def)

text \<open>What a row keeps of a cell.\<close>

definition stored :: "string \<Rightarrow> string \<Rightarrow> cell \<Rightarrow> cell" where
  "stored name i c =
     (if c_result c = NO_RESULT then zero_cell\<lparr>c_id := i, c_metrics := c_metrics c\<rparr>
      else \<lparr>c_result = c_result c, c_id = i,
            c_cell_id = (if hasCellID name then c_cell_id c else []),
            c_properties = (if hasCellID name then c_properties c else []),
            c_icon = c_icon c, c_message = truncate_msg (c_message c) 140, c_metrics = c_metrics c,
            c_user_property = c_user_property c, c_issues = []\<rparr>)"

text \<open>Equality of cells; metrics are a map.\<close>

definition same_cell :: "cell \<Rightarrow> cell \<Rightarrow> bool" where
  "same_cell a b \<longleftrightarrow>
     a\<lparr>c_metrics := []\<rparr> = b\<lparr>c_metrics := []\<rparr> \<and> map_of (c_metrics a) = map_of (c_metrics b)"

lemma same_cell_refl [simp]: "same_cell a a"
  by (simp add: same_cell_def)

lemma same_cell_trans: "same_cell a b \<Longrightarrow> same_cell b c \<Longrightarrow> same_cell a c"
  by (simp add: same_cell_def)

lemma filled_replicate [simp]: "filled (replicate k s) = (if s = NO_RESULT then 0 else k)"
  by (simp add: filled_def)

lemma row_statuses_update [simp]: "row_statuses (r\<lparr>row_issues := x\<rparr>) = row_statuses r"
  by (simp add: row_statuses_def)

lemma grown_fields [simp]:
  "row_name (grown r c k ms) = row_name r" "row_id (grown r c k ms) = row_id r"
  "row_results (grown r c k ms) = row_results r" "row_issues (grown r c k ms) = row_issues r"
  "row_alert (grown r c k ms) = row_alert r" "row_metrics (grown r c k ms) = ms"
  "row_metric (grown r c k ms) = map m_name ms"
  by (simp_all add: grown_def Let_def)

text \<open>The cells of a row after the encoding and the filled fields have grown.\<close>

lemma grown_cell_old:
  assumes "packed r" "i < length (row_statuses r)" "r' = (grown r c k ms)\<lparr>row_results := rs\<rparr>"
    "rle_expand rs = row_statuses r @ replicate k (c_result c)"
    "\<forall>n. metric_val ms n i = metric_val (row_metrics r) n i" "distinct (map m_name ms)"
  shows "same_cell (cell_at r' i) (cell_at r i)"
proof -
  let ?ss = "row_statuses r"
  have st: "row_statuses r' = ?ss @ replicate k (c_result c)"
    using assms(3,4) by (simp add: row_statuses_def)
  have "filled (take i ?ss) < filled ?ss" if "?ss ! i \<noteq> NO_RESULT"
    using assms(2) that by (rule filled_take_less)
  moreover have "map_of (metrics_at (row_metrics r') i) = map_of (metrics_at (row_metrics r) i)"
    using assms(1,3,5,6) by (auto simp: map_of_metrics_at packed_def Let_def)
  ultimately show ?thesis
    using assms(1,2)
    by (cases "?ss ! i = NO_RESULT"; simp add: same_cell_def cell_at_def st nth_append)
      (simp_all add: assms(3) packed_def grown_def Let_def nth_append)
qed

lemma grown_cell_new:
  assumes "packed r" "i < k" "r' = (grown r c k ms)\<lparr>row_results := rs\<rparr>"
    "rle_expand rs = row_statuses r @ replicate k (c_result c)"
    "\<forall>n. metric_val ms n (length (row_statuses r) + i) = map_of (c_metrics c) n"
    "distinct (map m_name ms)"
  shows "same_cell (cell_at r' (length (row_statuses r) + i)) (stored (row_name r) (row_id r) c)"
proof -
  let ?ss = "row_statuses r"
  have st: "row_statuses r' = ?ss @ replicate k (c_result c)"
    using assms(3,4) by (simp add: row_statuses_def)
  have "map_of (metrics_at (row_metrics r') (length ?ss + i)) = map_of (c_metrics c)"
    using assms(3,5,6) by (auto simp: map_of_metrics_at)
  then show ?thesis
    using assms(1,2)
    by (simp add: same_cell_def cell_at_def st nth_append stored_def)
      (simp add: assms(3) packed_def grown_def Let_def nth_append zero_cell_def)
qed

text \<open>The contract of \<open>appendCell\<close>.\<close>

lemma packed_grown:
  assumes "packed r" "counts_ok rs" "r' = (grown r c k ms)\<lparr>row_results := rs, row_issues := is\<rparr>"
    "rle_expand rs = row_statuses r @ replicate k (c_result c)" "distinct (map m_name ms)"
    "\<forall>m \<in> set ms. metric_wf (int (length (row_statuses r) + k)) m"
  shows "packed r'"
proof -
  have "row_statuses r' = row_statuses r @ replicate k (c_result c)"
    using assms(3,4) by (simp add: row_statuses_def)
  then show ?thesis
    using assms by (auto simp: packed_def grown_def Let_def)
qed

lemma cell_at_issues [simp]: "cell_at (r\<lparr>row_issues := x\<rparr>) i = cell_at r i"
  by (simp add: cell_at_def Let_def)

lemma appendCell_spec:
  assumes "packed r" "canonical (c_result c)" "distinct (map fst (c_metrics c))"
    and n: "n = length (row_statuses r)"
  shows "\<exists>r'. appendCell r c n k = Inr r' \<and> packed r' \<and> row_name r' = row_name r \<and>
    row_id r' = row_id r \<and> row_issues r' = row_issues r @ c_issues c \<and>
    row_statuses r' = row_statuses r @ replicate k (c_result c) \<and>
    (\<forall>i < n. same_cell (cell_at r' i) (cell_at r i)) \<and>
    (\<forall>i < k. same_cell (cell_at r' (n + i)) (stored (row_name r) (row_id r) c))"
proof -
  from assms(1) have pk: "counts_ok (row_results r)" "row_metric r = map m_name (row_metrics r)"
    "distinct (map m_name (row_metrics r))" "\<forall>m \<in> set (row_metrics r). metric_wf (int n) m"
    by (simp_all add: packed_def Let_def n)
  from append_result_spec [OF pk(1) assms(2), of k] obtain rs where
    rs: "append_result (row_results r) (status_code (c_result c)) k = Inr rs" "counts_ok rs"
    "rle_expand rs = row_statuses r @ replicate k (c_result c)"
    by (auto simp: row_statuses_def)
  let ?r = "r\<lparr>row_results := rs\<rparr>"
  from append_at_loop [OF assms(3), of ?r n k] pk obtain ms where
    ms: "go_fold (append_at c n) ?r [0..<k] = Inr (grown ?r c k ms)"
    "distinct (map m_name ms)" "\<forall>m \<in> set ms. metric_wf (int (n + k)) m"
    "\<And>m j. metric_val ms m j =
      (if n \<le> j \<and> j < n + k then map_of (c_metrics c) m else metric_val (row_metrics r) m j)"
    by auto
  let ?g = "(grown r c k ms)\<lparr>row_results := rs\<rparr>"
  let ?r' = "?g\<lparr>row_issues := row_issues r @ c_issues c\<rparr>"
  have "grown ?r c k ms = ?g" by (simp add: grown_def Let_def)
  then have app: "appendCell r c n k = Inr ?r'"
    using rs(1) ms(1) by (simp add: appendCell_def)
  have pk': "packed ?r'"
    by (rule packed_grown [OF assms(1) rs(2) _ rs(3) ms(2)]) (use ms(3) n in simp_all)
  have old: "same_cell (cell_at ?r' i) (cell_at r i)" if "i < n" for i
    using grown_cell_old [OF assms(1) _ refl rs(3) _ ms(2)] that ms(4) n by simp
  have new: "same_cell (cell_at ?r' (n + i)) (stored (row_name r) (row_id r) c)" if "i < k" for i
    using grown_cell_new [OF assms(1) that refl rs(3) _ ms(2)] that ms(4) n by simp
  from app pk' old new rs(3) show ?thesis
    by (simp add: row_statuses_def)
qed

section \<open>AppendColumn\<close>

fun upd_row :: "string \<Rightarrow> (row \<Rightarrow> row go) \<Rightarrow> row list \<Rightarrow> row list go" where
  "upd_row name f [] = Inr []"
| "upd_row name f (r # rs) =
     (if row_name r = name then go_bind (f r) (\<lambda>r'. Inr (r' # rs))
      else go_bind (upd_row name f rs) (\<lambda>rs'. Inr (r # rs')))"

definition new_row :: "string \<Rightarrow> cell \<Rightarrow> row" where
  "new_row name c =
     \<lparr>row_name = name, row_id = (if c_id c = [] then name else c_id c), row_results = [],
      row_cell_ids = [], row_messages = [], row_metric = [], row_metrics = [], row_icons = [],
      row_issues = [], row_alert = None, row_user_property = [], row_properties = []\<rparr>"

definition add_cell :: "nat \<Rightarrow> row list \<Rightarrow> string \<times> cell \<Rightarrow> row list go" where
  "add_cell colIdx rows nc =
     (case nc of (name, c) \<Rightarrow>
       if name \<in> row_name ` set rows then upd_row name (\<lambda>r. appendCell r c colIdx 1) rows
       else go_bind (if 0 < colIdx then appendCell (new_row name c) emptyCell 0 colIdx
                     else Inr (new_row name c))
              (\<lambda>r. go_bind (appendCell r c colIdx 1) (\<lambda>r'. Inr (rows @ [r']))))"

definition add_missing :: "nat \<Rightarrow> row list \<Rightarrow> string \<Rightarrow> row list go" where
  "add_missing colIdx rows name = upd_row name (\<lambda>r. appendCell r emptyCell colIdx 1) rows"

definition AppendColumn :: "grid \<Rightarrow> inflated_column \<Rightarrow> grid go" where
  "AppendColumn grid inflated =
     (let colIdx = length (grid_columns grid);
          missing = filter (\<lambda>n. n \<notin> fst ` set (ic_cells inflated)) (map row_name (grid_rows grid))
      in go_bind (go_fold (add_cell colIdx) (grid_rows grid) (ic_cells inflated)) (\<lambda>rows.
         go_bind (go_fold (add_missing colIdx) rows missing) (\<lambda>rows'.
         Inr (grid\<lparr>grid_columns := grid_columns grid @ [ic_column inflated], grid_rows := rows'\<rparr>))))"

subsection \<open>What the rows of a grid hold\<close>

definition cell_of :: "inflated_column \<Rightarrow> string \<Rightarrow> cell" where
  "cell_of col name = (case map_of (ic_cells col) name of Some c \<Rightarrow> c | None \<Rightarrow> emptyCell)"

text \<open>The identifier of a row comes from the first column with a cell for it.\<close>

fun row_ident :: "string \<Rightarrow> inflated_column list \<Rightarrow> string" where
  "row_ident name [] = name"
| "row_ident name (col # cols) =
     (case map_of (ic_cells col) name of
        Some c \<Rightarrow> if c_id c = [] then name else c_id c
      | None \<Rightarrow> row_ident name cols)"

definition col_names :: "inflated_column list \<Rightarrow> string set" where
  "col_names cols = (\<Union>col \<in> set cols. fst ` set (ic_cells col))"

text \<open>The cells a column may hold: one per name, with one value per metric.\<close>

definition cells_ok :: "inflated_column \<Rightarrow> bool" where
  "cells_ok col \<longleftrightarrow>
     distinct (map fst (ic_cells col)) \<and>
     (\<forall>(n, c) \<in> set (ic_cells col). canonical (c_result c) \<and> distinct (map fst (c_metrics c)))"

text \<open>Row \<open>r\<close> holds its cells of the first \<open>m\<close> of the columns.\<close>

definition row_holds :: "inflated_column list \<Rightarrow> nat \<Rightarrow> row \<Rightarrow> bool" where
  "row_holds cols m r \<longleftrightarrow>
     packed r \<and> length (row_statuses r) = m \<and> row_id r = row_ident (row_name r) cols \<and>
     row_issues r = concat (map (\<lambda>col. c_issues (cell_of col (row_name r))) (take m cols)) \<and>
     (\<forall>i < m. same_cell (cell_at r i) (stored (row_name r) (row_id r) (cell_of (cols ! i) (row_name r))))"

definition holds :: "inflated_column list \<Rightarrow> grid \<Rightarrow> bool" where
  "holds cols g \<longleftrightarrow>
     grid_columns g = map ic_column cols \<and> distinct (map row_name (grid_rows g)) \<and>
     row_name ` set (grid_rows g) = col_names cols \<and>
     (\<forall>r \<in> set (grid_rows g). row_holds cols (length cols) r)"

lemma holds_grid_ok: "holds cols g \<Longrightarrow> grid_ok g"
  by (auto simp: holds_def grid_ok_def row_holds_def packed_inflatable)

lemma emptyCell_simps [simp]:
  "c_result emptyCell = NO_RESULT" "c_metrics emptyCell = []" "c_issues emptyCell = []"
  by (simp_all add: emptyCell_def zero_cell_def)

lemma cell_of_ok:
  "cells_ok col \<Longrightarrow> canonical (c_result (cell_of col n)) \<and> distinct (map fst (c_metrics (cell_of col n)))"
  by (auto simp: cells_ok_def cell_of_def split: option.split dest: map_of_SomeD)

lemma cell_of_member: "cells_ok col \<Longrightarrow> (n, c) \<in> set (ic_cells col) \<Longrightarrow> cell_of col n = c"
  by (simp add: cells_ok_def cell_of_def)

lemma cell_of_absent: "n \<notin> fst ` set (ic_cells col) \<Longrightarrow> cell_of col n = emptyCell"
  by (auto simp: cell_of_def map_of_eq_None_iff split: option.split)
     (metis map_of_eq_None_iff option.distinct(1))

lemma row_ident_append:
  "row_ident n (cols @ cols') = (if n \<in> col_names cols then row_ident n cols else row_ident n cols')"
proof (induction cols)
  case (Cons col cols)
  have "map_of (ic_cells col) n = None \<longleftrightarrow> n \<notin> fst ` set (ic_cells col)"
    by (rule map_of_eq_None_iff)
  with Cons show ?case
    by (cases "map_of (ic_cells col) n") (simp_all add: col_names_def)
qed (simp add: col_names_def)

lemma upd_row_spec:
  assumes "distinct (map row_name rows)" "name \<in> row_name ` set rows"
    "\<And>r. r \<in> set rows \<Longrightarrow> row_name r = name \<Longrightarrow> \<exists>r'. f r = Inr r' \<and> row_name r' = name \<and> Q r'"
  shows "\<exists>rows'. upd_row name f rows = Inr rows' \<and> map row_name rows' = map row_name rows \<and>
    (\<forall>r' \<in> set rows'. if row_name r' = name then Q r' else r' \<in> set rows)"
  using assms
proof (induction rows)
  case (Cons r rows)
  show ?case
  proof (cases "row_name r = name")
    case True
    with Cons.prems(3) [of r] obtain r' where "f r = Inr r'" "row_name r' = name" "Q r'" by auto
    moreover have "\<forall>x \<in> set rows. row_name x \<noteq> name"
      using True Cons.prems(1) by (auto simp: image_def)
    ultimately show ?thesis
      using True by (intro exI [of _ "r' # rows"]) simp
  next
    case False
    with Cons.prems Cons.IH obtain rows' where
      "upd_row name f rows = Inr rows'" "map row_name rows' = map row_name rows"
      "\<forall>r' \<in> set rows'. if row_name r' = name then Q r' else r' \<in> set rows"
      by auto
    with False show ?thesis by (intro exI [of _ "r # rows'"]) auto
  qed
qed simp

lemma row_holds_step:
  assumes "row_holds cols n r" "n < length cols" "cell_of (cols ! n) (row_name r) = c"
    "canonical (c_result c)" "distinct (map fst (c_metrics c))"
  shows "\<exists>r'. appendCell r c n 1 = Inr r' \<and> row_name r' = row_name r \<and> row_holds cols (Suc n) r'"
proof -
  from assms(1) have r: "packed r" "n = length (row_statuses r)" by (simp_all add: row_holds_def)
  from appendCell_spec [OF r(1) assms(4,5) r(2), of 1] obtain r' where
    r': "appendCell r c n 1 = Inr r'" "packed r'" "row_name r' = row_name r" "row_id r' = row_id r"
    "row_issues r' = row_issues r @ c_issues c" "row_statuses r' = row_statuses r @ [c_result c]"
    "\<forall>i < n. same_cell (cell_at r' i) (cell_at r i)"
    "same_cell (cell_at r' n) (stored (row_name r) (row_id r) c)"
    by auto
  have "same_cell (cell_at r' i) (stored (row_name r) (row_id r) (cell_of (cols ! i) (row_name r)))"
    if "i < Suc n" for i
    using that r'(7,8) assms(1,3) same_cell_trans
    unfolding row_holds_def less_Suc_eq by blast
  with r' assms show ?thesis
    by (auto simp: row_holds_def take_Suc_conv_app_nth)
qed

lemma row_holds_new:
  assumes "name \<notin> col_names cols" "map_of (ic_cells col) name = Some c"
  shows "\<exists>r. (if 0 < length cols then appendCell (new_row name c) emptyCell 0 (length cols)
      else Inr (new_row name c)) = Inr r \<and> row_name r = name \<and>
    row_holds (cols @ [col]) (length cols) r"
proof -
  let ?r = "new_row name c" and ?n = "length cols"
  have pk: "packed ?r" "row_statuses ?r = []" "row_issues ?r = []"
    by (simp_all add: packed_def new_row_def row_statuses_def)
  have ident: "row_id ?r = row_ident name (cols @ [col])" "row_name ?r = name"
    using assms by (simp_all add: row_ident_append new_row_def)
  have empty: "cell_of c' name = emptyCell" if "c' \<in> set cols" for c'
    using that assms(1) by (intro cell_of_absent) (auto simp: col_names_def)
  have issues: "concat (map (\<lambda>c'. c_issues (cell_of c' name)) cols) = []"
    using empty by (simp add: concat_eq_Nil_conv)
  from appendCell_spec [OF pk(1), of emptyCell 0 ?n] pk obtain r where
    r: "appendCell ?r emptyCell 0 ?n = Inr r" "packed r" "row_name r = name" "row_id r = row_id ?r"
    "row_issues r = []" "row_statuses r = replicate ?n NO_RESULT"
    "\<forall>i < ?n. same_cell (cell_at r i) (stored name (row_id ?r) emptyCell)"
    by (auto simp: ident)
  have "row_holds (cols @ [col]) ?n r"
    using r ident issues by (simp add: row_holds_def nth_append empty)
  moreover have "row_holds (cols @ [col]) ?n ?r" if "cols = []"
    using that pk ident by (simp add: row_holds_def)
  ultimately show ?thesis
    using r ident by auto
qed

text \<open>The state of the rows when the cells named in \<open>P\<close> have been added.\<close>

abbreviation adding :: "inflated_column list \<Rightarrow> nat \<Rightarrow> string set \<Rightarrow> row list \<Rightarrow> bool" where
  "adding cols n P rows \<equiv>
     distinct (map row_name rows) \<and>
     (\<forall>r \<in> set rows. row_holds cols (if row_name r \<in> P then Suc n else n) r)"

lemma adding_upd_row:
  assumes "adding cols n P rows" "name \<in> row_name ` set rows" "name \<notin> P" "n < length cols"
    "cells_ok (cols ! n)" "cell_of (cols ! n) name = c"
  shows "\<exists>rows'. upd_row name (\<lambda>r. appendCell r c n 1) rows = Inr rows' \<and>
    map row_name rows' = map row_name rows \<and> adding cols n (insert name P) rows'"
proof -
  have step: "\<exists>r'. appendCell r c n 1 = Inr r' \<and> row_name r' = name \<and> row_holds cols (Suc n) r'"
    if "r \<in> set rows" "row_name r = name" for r
    using row_holds_step [of cols n r c] that assms cell_of_ok [OF assms(5), of name] by auto
  have "distinct (map row_name rows)" using assms(1) by blast
  from upd_row_spec [where f = "\<lambda>r. appendCell r c n 1" and Q = "row_holds cols (Suc n)",
      OF this assms(2) step] obtain rows' where
    rows': "upd_row name (\<lambda>r. appendCell r c n 1) rows = Inr rows'"
    "map row_name rows' = map row_name rows"
    "\<forall>r' \<in> set rows'. if row_name r' = name then row_holds cols (Suc n) r' else r' \<in> set rows"
    by blast
  have "row_holds cols (if row_name r \<in> insert name P then Suc n else n) r" if "r \<in> set rows'" for r
  proof (cases "row_name r = name")
    case False
    with rows'(3) that have "r \<in> set rows" by auto
    with False assms(1) show ?thesis by simp
  qed (use rows'(3) that in auto)
  moreover have "distinct (map row_name rows')"
    using rows'(2) assms(1) by simp
  ultimately show ?thesis using rows'(1,2) by blast
qed

lemma adding_add_cell:
  assumes "adding (cols @ [col]) (length cols) P rows" "cells_ok col" "(name, c) \<in> set (ic_cells col)"
    "name \<notin> P" "row_name ` set rows = col_names cols \<union> P"
  shows "\<exists>rows'. add_cell (length cols) rows (name, c) = Inr rows' \<and>
    row_name ` set rows' = col_names cols \<union> insert name P \<and>
    adding (cols @ [col]) (length cols) (insert name P) rows'"
proof (cases "name \<in> row_name ` set rows")
  case True
  from adding_upd_row [OF assms(1) True assms(4)] assms(2,3) obtain rows' where
    rows': "upd_row name (\<lambda>r. appendCell r c (length cols) 1) rows = Inr rows'"
    "map row_name rows' = map row_name rows"
    "adding (cols @ [col]) (length cols) (insert name P) rows'"
    by (auto simp: cell_of_member)
  have "row_name ` set rows' = row_name ` set rows"
    using rows'(2) by (metis set_map)
  with rows'(1,3) True assms(5) show ?thesis
    by (auto simp: add_cell_def)
next
  case False
  then have new: "name \<notin> col_names cols" using assms(5) by auto
  have "map_of (ic_cells col) name = Some c"
    using assms(2,3) by (simp add: cells_ok_def)
  from row_holds_new [OF new this] obtain r where
    r: "(if 0 < length cols then appendCell (new_row name c) emptyCell 0 (length cols)
      else Inr (new_row name c)) = Inr r" "row_name r = name"
    "row_holds (cols @ [col]) (length cols) r"
    by blast
  from row_holds_step [OF r(3), of c] r(2) assms(2,3) cell_of_ok [OF assms(2), of name] obtain r' where
    r': "appendCell r c (length cols) 1 = Inr r'" "row_name r' = name"
    "row_holds (cols @ [col]) (Suc (length cols)) r'"
    by (auto simp: cell_of_member)
  have "add_cell (length cols) rows (name, c) = Inr (rows @ [r'])"
    using False r(1) r'(1) by (simp add: add_cell_def)
  moreover have "adding (cols @ [col]) (length cols) (insert name P) (rows @ [r'])"
    using assms(1) False r'(2,3) by (auto simp: image_iff)
  ultimately show ?thesis
    using assms(5) r'(2) by auto
qed

lemma adding_cells:
  assumes "adding (cols @ [col]) (length cols) P rows" "cells_ok col" "set ncs \<subseteq> set (ic_cells col)"
    "distinct (map fst ncs)" "fst ` set ncs \<inter> P = {}" "row_name ` set rows = col_names cols \<union> P"
  shows "\<exists>rows'. go_fold (add_cell (length cols)) rows ncs = Inr rows' \<and>
    row_name ` set rows' = col_names cols \<union> P \<union> fst ` set ncs \<and>
    adding (cols @ [col]) (length cols) (P \<union> fst ` set ncs) rows'"
  using assms
proof (induction ncs arbitrary: rows P)
  case (Cons nc ncs)
  obtain name c where nc: "nc = (name, c)" by (cases nc)
  have mem: "(name, c) \<in> set (ic_cells col)" "name \<notin> P"
    using Cons.prems(3,5) nc by auto
  from adding_add_cell [OF Cons.prems(1,2) mem Cons.prems(6)] obtain rows' where
    rows': "add_cell (length cols) rows nc = Inr rows'"
    "row_name ` set rows' = col_names cols \<union> insert name P"
    "adding (cols @ [col]) (length cols) (insert name P) rows'"
    unfolding nc by blast
  have rest: "set ncs \<subseteq> set (ic_cells col)" "distinct (map fst ncs)"
    "fst ` set ncs \<inter> insert name P = {}"
    using Cons.prems(3-5) nc by auto
  from Cons.IH [OF rows'(3) Cons.prems(2) rest rows'(2)] rows'(1) show ?case
    by (simp add: nc Un_insert_left Un_insert_right)
qed simp

lemma adding_missing:
  assumes "adding (cols @ [col]) (length cols) P rows" "cells_ok col" "set names \<subseteq> row_name ` set rows"
    "distinct names" "set names \<inter> P = {}" "set names \<inter> fst ` set (ic_cells col) = {}"
  shows "\<exists>rows'. go_fold (add_missing (length cols)) rows names = Inr rows' \<and>
    row_name ` set rows' = row_name ` set rows \<and>
    adding (cols @ [col]) (length cols) (P \<union> set names) rows'"
  using assms
proof (induction names arbitrary: rows P)
  case (Cons name names)
  have name: "name \<in> row_name ` set rows" "name \<notin> P" "cell_of col name = emptyCell"
    using Cons.prems(3,5,6) by (auto intro: cell_of_absent)
  from adding_upd_row [OF Cons.prems(1) name(1,2)] Cons.prems(2) name(3) obtain rows' where
    rows': "add_missing (length cols) rows name = Inr rows'" "map row_name rows' = map row_name rows"
    "adding (cols @ [col]) (length cols) (insert name P) rows'"
    by (auto simp: add_missing_def)
  have names': "row_name ` set rows' = row_name ` set rows"
    using rows'(2) by (metis set_map)
  have rest: "set names \<subseteq> row_name ` set rows'" "distinct names" "set names \<inter> insert name P = {}"
    "set names \<inter> fst ` set (ic_cells col) = {}"
    using Cons.prems(3-6) names' by auto
  from Cons.IH [OF rows'(3) Cons.prems(2) rest] rows'(1) names' show ?case
    by (simp add: Un_insert_left Un_insert_right)
qed simp

text \<open>\<open>AppendColumn\<close> never fails on a grid built by it, and adds exactly the given cells.\<close>

lemma row_holds_before:
  assumes "row_holds cols (length cols) r" "row_name r \<in> col_names cols"
  shows "row_holds (cols @ [col]) (length cols) r"
  using assms by (auto simp: row_holds_def row_ident_append nth_append)

lemma AppendColumn_holds:
  assumes "holds cols g" "cells_ok col"
  shows "\<exists>g'. AppendColumn g col = Inr g' \<and> holds (cols @ [col]) g' \<and> grid_config g' = grid_config g"
proof -
  let ?rows = "grid_rows g" and ?names = "fst ` set (ic_cells col)"
  from assms(1) have g: "length (grid_columns g) = length cols" "distinct (map row_name ?rows)"
    "row_name ` set ?rows = col_names cols" "\<forall>r \<in> set ?rows. row_holds cols (length cols) r"
    by (simp_all add: holds_def)
  then have init: "adding (cols @ [col]) (length cols) {} ?rows"
    using row_holds_before by fastforce
  from adding_cells [OF init assms(2) order_refl] assms(2) g(3) obtain rows where
    rows: "go_fold (add_cell (length cols)) ?rows (ic_cells col) = Inr rows"
    "row_name ` set rows = col_names cols \<union> ?names" "adding (cols @ [col]) (length cols) ?names rows"
    by (auto simp: cells_ok_def)
  let ?missing = "filter (\<lambda>n. n \<notin> ?names) (map row_name ?rows)"
  have miss: "set ?missing = col_names cols - ?names"
    using g(3) by auto
  have sub: "set ?missing \<subseteq> row_name ` set rows" "distinct ?missing" "set ?missing \<inter> ?names = {}"
    using g(2) unfolding miss rows(2) by auto
  from adding_missing [OF rows(3) assms(2) sub(1,2,3,3)] obtain rows' where
    rows': "go_fold (add_missing (length cols)) rows ?missing = Inr rows'"
    "row_name ` set rows' = col_names cols \<union> ?names"
    "adding (cols @ [col]) (length cols) (?names \<union> (col_names cols - ?names)) rows'"
    unfolding miss rows(2) by blast
  let ?g = "g\<lparr>grid_columns := grid_columns g @ [ic_column col], grid_rows := rows'\<rparr>"
  have "AppendColumn g col = Inr ?g"
    using rows(1) rows'(1) g(1) by (simp add: AppendColumn_def Let_def)
  moreover have "row_holds (cols @ [col]) (Suc (length cols)) r" if "r \<in> set rows'" for r
  proof -
    have mem: "row_name r \<in> ?names \<union> (col_names cols - ?names)"
      using that rows'(2) by blast
    from bspec [OF conjunct2 [OF rows'(3)] that] show ?thesis
      unfolding if_P [OF mem] .
  qed
  then have "holds (cols @ [col]) ?g"
    using rows'(2,3) assms(1) by (auto simp: holds_def col_names_def)
  ultimately show ?thesis by auto
qed

section \<open>dropEmptyRows\<close>

text \<open>The inner loop of \<open>dropEmptyRows\<close>: look for a result.\<close>

lemma iter_next_decreases:
  "iter_next it = ((res, True), it') \<Longrightarrow> length (iter_todo it') < length (iter_todo it)"
  using iter_next_spec [of it] by (auto split: list.splits)

function any_result :: "iter_state \<Rightarrow> bool" where
  "any_result it =
     (case iter_next it of
        ((_, False), _) \<Rightarrow> False
      | ((res, True), it') \<Rightarrow> if res = NO_RESULT then any_result it' else True)"
  by pat_completeness auto
termination
  by (relation "measure (\<lambda>it. length (iter_todo it))")
     (auto dest!: sym [of "((_, True), _)"] intro: iter_next_decreases)

declare any_result.simps [simp del]

definition dropEmptyRows :: "grid \<Rightarrow> grid" where
  "dropEmptyRows grid =
     grid\<lparr>grid_rows := filter (\<lambda>r. any_result (Iter (row_results r))) (grid_rows grid)\<rparr>"

lemma any_result_todo: "any_result it \<longleftrightarrow> (\<exists>s \<in> set (iter_todo it). s \<noteq> NO_RESULT)"
proof (induction it rule: any_result.induct)
  case (1 it)
  show ?case
    using iter_next_spec [of it] "1.IH"
    by (cases "iter_todo it") (fastforce simp: any_result.simps [of it] split: prod.splits)+
qed

lemma any_result_Iter: "any_result (Iter (row_results r)) \<longleftrightarrow> filled (row_statuses r) \<noteq> 0"
  by (auto simp: any_result_todo row_statuses_def filled_def filter_empty_conv)

end
