(* ===== verification/Alerts.thy ===== *)
theory Alerts
  imports Compress
begin

text \<open>
  The alerts and column statistics of \<open>pkg/updater/updater.go\<close>: \<open>alertRow\<close> scans a row from the
  newest column for an outage, and its contract says when there is one and which cells it reports.
\<close>

section \<open>Fields of an alert\<close>

definition hotlistIDs :: "column option \<Rightarrow> string list go" where
  "hotlistIDs col =
     (case col of
        None \<Rightarrow> Inl (Panic ''invalid memory address or nil pointer dereference'')
      | Some c \<Rightarrow> Inr (filter (\<lambda>i. i \<noteq> []) (map trim_space (str_split (col_hotlist_ids c) '',''))))"

definition emailAddresses :: "column option \<Rightarrow> string list" where
  "emailAddresses col = (case col of None \<Rightarrow> [] | Some c \<Rightarrow> col_email_addresses c)"

definition buildID :: "column option \<Rightarrow> bool \<Rightarrow> string" where
  "buildID col getCommitHeader =
     (case col of
        None \<Rightarrow> []
      | Some c \<Rightarrow> if getCommitHeader \<and> col_extra c \<noteq> [] then hd (col_extra c) else col_build c)"

definition billion :: float64 where
  "billion = 1000000000"

definition stamp :: "column option \<Rightarrow> timestamp option" where
  "stamp col =
     (case col of
        None \<Rightarrow> None
      | Some c \<Rightarrow>
          (let seconds = col_started c / 1000; whole = \<lfloor>seconds\<rfloor>; remain = seconds - of_int whole
           in Some \<lparr>ts_seconds = whole, ts_nanos = trunc (remain * billion)\<rparr>))"

lemma stamp_nanos: "stamp col = Some t \<Longrightarrow> 0 \<le> ts_nanos t \<and> ts_nanos t < 1000000000"
proof (cases col)
  case (Some c)
  assume "stamp col = Some t"
  with Some have t: "ts_nanos t = trunc (frac (col_started c / 1000) * billion)"
    by (auto simp: stamp_def Let_def frac_def)
  have "0 \<le> frac (col_started c / 1000) * billion" "frac (col_started c / 1000) * billion < 1000000000"
    using frac_lt_1 [of "col_started c / 1000"] by (simp_all add: billion_def)
  then show ?thesis by (simp add: t trunc_def floor_less_iff)
qed (simp add: stamp_def)

definition alertInfo ::
    "int \<Rightarrow> string \<Rightarrow> string \<Rightarrow> string \<Rightarrow> (string, string) gomap \<Rightarrow> column option \<Rightarrow> column option \<Rightarrow>
     column option \<Rightarrow> bool \<Rightarrow> (string, string) gomap \<Rightarrow> alert_info go" where
  "alertInfo failures msg cellID latestCellID userProperties fail latestFail pass useCommitAsBuildID
      customColumnHeaders =
     go_bind (hotlistIDs fail) (\<lambda>hotlists. Inr
       \<lparr>al_fail_count = failures, al_fail_build_id = buildID fail useCommitAsBuildID,
        al_latest_fail_build_id = buildID latestFail useCommitAsBuildID, al_fail_time = stamp fail,
        al_fail_test_id = cellID, al_latest_fail_test_id = latestCellID, al_failure_message = msg,
        al_pass_time = stamp pass, al_pass_build_id = buildID pass useCommitAsBuildID,
        al_email_addresses = emailAddresses fail, al_hotlist_ids = hotlists,
        al_properties = userProperties, al_custom_column_headers = customColumnHeaders\<rparr>)"

section \<open>alertRow\<close>

record alert_state =
  as_it :: iter_state
  as_concurrent :: int
  as_total :: int
  as_passes :: int
  as_idx :: nat
  as_first_fail :: "column option"
  as_latest_fail :: "column option"
  as_latest_pass :: "column option"
  as_fail_idx :: nat
  as_latest_fail_idx :: nat
  as_headers :: "(string, string) gomap"

definition alert_init :: "int list \<Rightarrow> alert_state" where
  "alert_init results =
     \<lparr>as_it = Iter results, as_concurrent = 0, as_total = 0, as_passes = 0, as_idx = 0,
      as_first_fail = None, as_latest_fail = None, as_latest_pass = None, as_fail_idx = 0,
      as_latest_fail_idx = 0, as_headers = []\<rparr>"

text \<open>The custom headers of one column: header \<open>i\<close> names extra value \<open>i\<close>.\<close>

fun alert_headers ::
    "column_header list \<Rightarrow> string list \<Rightarrow> (string, string) gomap \<Rightarrow> (string, string) gomap" where
  "alert_headers (h # hs) (x # xs) m =
     alert_headers hs xs
       (AList.update (if hdr_label h \<noteq> [] then hdr_label h
                      else if hdr_property h \<noteq> [] then hdr_property h
                      else hdr_configuration_value h) x m)"
| "alert_headers _ _ m = m"

text \<open>How one iteration ends: go on, leave the loop, or return nil.\<close>

datatype alert_flow = Continue alert_state | Break alert_state | NoAlert

text \<open>
  The three cases of one iteration; \<open>alert_advance\<close> is the end of the loop body that the
  cases which go on share.
\<close>

definition alert_advance :: "column_header list \<Rightarrow> column \<Rightarrow> alert_state \<Rightarrow> alert_flow" where
  "alert_advance hdrs col st =
     Continue (st\<lparr>as_idx := Suc (as_idx st),
                  as_headers := alert_headers hdrs (col_extra col) (as_headers st)\<rparr>)"

definition alert_pass :: "int \<Rightarrow> int \<Rightarrow> column_header list \<Rightarrow> column \<Rightarrow> alert_state \<Rightarrow> alert_flow" where
  "alert_pass failuresToOpen passesToClose hdrs col st =
     (let st = st\<lparr>as_passes := as_passes st + 1\<rparr> in
      if as_concurrent st \<ge> failuresToOpen then
        (let st = (if as_latest_pass st = None then st\<lparr>as_latest_pass := Some col\<rparr> else st) in
         if as_passes st \<ge> passesToClose then Break st else alert_advance hdrs col st)
      else if as_passes st \<ge> passesToClose then NoAlert
      else alert_advance hdrs col (st\<lparr>as_concurrent := 0\<rparr>))"

definition alert_fail :: "column_header list \<Rightarrow> column \<Rightarrow> alert_state \<Rightarrow> alert_flow" where
  "alert_fail hdrs col st =
     (let st = st\<lparr>as_passes := 0, as_latest_pass := None, as_concurrent := as_concurrent st + 1,
                  as_total := as_total st + 1\<rparr>;
          st = (if as_total st = 1
                then st\<lparr>as_latest_fail_idx := as_idx st, as_latest_fail := Some col\<rparr> else st)
      in alert_advance hdrs col (st\<lparr>as_fail_idx := as_idx st, as_first_fail := Some col\<rparr>))"

definition alert_flaky :: "int \<Rightarrow> column_header list \<Rightarrow> column \<Rightarrow> alert_state \<Rightarrow> alert_flow" where
  "alert_flaky failuresToOpen hdrs col st =
     (let st = st\<lparr>as_passes := 0\<rparr> in
      if as_concurrent st \<ge> failuresToOpen then Break st
      else alert_advance hdrs col (st\<lparr>as_concurrent := 0\<rparr>))"

definition alert_col :: "int \<Rightarrow> int \<Rightarrow> column_header list \<Rightarrow> column \<Rightarrow> alert_state \<Rightarrow> alert_flow" where
  "alert_col failuresToOpen passesToClose hdrs col st =
     (case iter_next (as_it st) of ((rawRes, _), it) \<Rightarrow>
       (let st = st\<lparr>as_it := it\<rparr>; res = Coalesce rawRes True in
        if res = NO_RESULT
        then Continue (if rawRes = RUNNING then st\<lparr>as_idx := Suc (as_idx st)\<rparr> else st)
        else if res = PASS then alert_pass failuresToOpen passesToClose hdrs col st
        else if res = FAIL then alert_fail hdrs col st
        else if res = FLAKY then alert_flaky failuresToOpen hdrs col st
        else alert_advance hdrs col st))"

fun alert_loop ::
    "int \<Rightarrow> int \<Rightarrow> column_header list \<Rightarrow> column list \<Rightarrow> alert_state \<Rightarrow> alert_state option" where
  "alert_loop failuresToOpen passesToClose hdrs [] st = Some st"
| "alert_loop failuresToOpen passesToClose hdrs (col # cols) st =
     (case alert_col failuresToOpen passesToClose hdrs col st of
        NoAlert \<Rightarrow> None
      | Break st' \<Rightarrow> Some st'
      | Continue st' \<Rightarrow> alert_loop failuresToOpen passesToClose hdrs cols st')"

definition alertRow ::
    "column list \<Rightarrow> row \<Rightarrow> int \<Rightarrow> int \<Rightarrow> bool \<Rightarrow> string \<Rightarrow> column_header list \<Rightarrow> alert_info option go" where
  "alertRow cols row failuresToOpen passesToClose useCommitAsBuildID userPropertyName columnHeader =
     (if failuresToOpen = 0 then Inr None
      else case alert_loop failuresToOpen passesToClose columnHeader cols (alert_init (row_results row)) of
        None \<Rightarrow> Inr None
      | Some st \<Rightarrow>
          if as_concurrent st < failuresToOpen then Inr None
          else
            go_bind (if row_cell_ids row \<noteq> [] then slice_at (row_cell_ids row) (as_fail_idx st)
                     else Inr []) (\<lambda>i.
            go_bind (if row_cell_ids row \<noteq> [] then slice_at (row_cell_ids row) (as_latest_fail_idx st)
                     else Inr []) (\<lambda>latest.
            go_bind (slice_at (row_messages row) (as_latest_fail_idx st)) (\<lambda>msg.
              let k = as_latest_fail_idx st; ups = row_user_property row;
                  userProperties = (if k < length ups \<and> ups ! k \<noteq> [] then [(userPropertyName, ups ! k)]
                                    else [])
              in go_bind (alertInfo (as_total st) msg i latest userProperties (as_first_fail st)
                           (as_latest_fail st) (as_latest_pass st) useCommitAsBuildID (as_headers st))
                   (\<lambda>a. Inr (Some a))))))"

definition alertRows ::
    "column list \<Rightarrow> row list \<Rightarrow> int \<Rightarrow> int \<Rightarrow> bool \<Rightarrow> string \<Rightarrow> column_header list \<Rightarrow> row list go" where
  "alertRows cols rows openFailures closePasses useCommitAsBuildID userProperty columnHeader =
     go_map (\<lambda>r. go_bind
         (alertRow cols r openFailures closePasses useCommitAsBuildID userProperty columnHeader)
         (\<lambda>a. Inr (r\<lparr>row_alert := a\<rparr>))) rows"

section \<open>Which cells an alert reports\<close>

text \<open>The columns with a failure among the newest \<open>n\<close>.\<close>

definition failures_before :: "test_status list \<Rightarrow> nat \<Rightarrow> nat list" where
  "failures_before ss n = filter (\<lambda>j. j < length ss \<and> Failing (ss ! j)) [0..<n]"

lemma failures_before_0 [simp]: "failures_before ss 0 = []"
  by (simp add: failures_before_def)

lemma failures_before_Suc:
  "failures_before ss (Suc n) =
   failures_before ss n @ (if n < length ss \<and> Failing (ss ! n) then [n] else [])"
  by (simp add: failures_before_def)

lemma failures_before_member:
  "j \<in> set (failures_before ss n) \<longleftrightarrow> j < n \<and> j < length ss \<and> Failing (ss ! j)"
  by (auto simp: failures_before_def)

definition fails_seen :: "column list \<Rightarrow> test_status list \<Rightarrow> nat \<Rightarrow> alert_state \<Rightarrow> bool" where
  "fails_seen cols ss n st \<longleftrightarrow>
     (let F = failures_before ss n in
      as_total st = int (length F) \<and> as_concurrent st \<le> as_total st \<and>
      (F \<noteq> [] \<longrightarrow>
        as_latest_fail st = Some (cols ! hd F) \<and> as_latest_fail_idx st = filled (take (hd F) ss) \<and>
        as_first_fail st = Some (cols ! last F) \<and> as_fail_idx st = filled (take (last F) ss)))"

definition scanned :: "column list \<Rightarrow> test_status list \<Rightarrow> nat \<Rightarrow> alert_state \<Rightarrow> bool" where
  "scanned cols ss n st \<longleftrightarrow>
     fails_seen cols ss n st \<and> as_idx st = filled (take n ss) \<and> iter_todo (as_it st) = drop n ss"

lemma scanned_init: "scanned cols (row_statuses r) 0 (alert_init (row_results r))"
  by (simp add: scanned_def fails_seen_def alert_init_def row_statuses_def)

text \<open>The status of column \<open>n\<close>; past the end of the results there is none.\<close>

definition status_at :: "test_status list \<Rightarrow> nat \<Rightarrow> test_status" where
  "status_at ss n = (if n < length ss then ss ! n else NO_RESULT)"

lemma filled_take_status:
  "filled (take (Suc n) ss) = filled (take n ss) + (if status_at ss n = NO_RESULT then 0 else 1)"
  by (cases "n < length ss") (simp_all add: status_at_def filled_take_Suc)

lemma failures_before_status:
  "failures_before ss (Suc n) = failures_before ss n @ (if Failing (status_at ss n) then [n] else [])"
  by (auto simp: failures_before_Suc status_at_def)

lemma iter_next_at:
  assumes "iter_todo it = drop n ss"
  obtains b it' where "iter_next it = ((status_at ss n, b), it')" "iter_todo it' = drop (Suc n) ss"
proof -
  obtain x b it' where it: "iter_next it = ((x, b), it')" by (metis prod.exhaust)
  have "x = status_at ss n"
    using iter_next_value [of it] it assms
    by (cases "n < length ss") (simp_all add: status_at_def Cons_nth_drop_Suc [symmetric])
  moreover have "iter_todo it' = drop (Suc n) ss"
    using iter_next_todo [of it] it assms by (simp add: drop_Suc tl_drop)
  ultimately show ?thesis using it that by blast
qed

lemma alert_advance_simps [simp]:
  "alert_advance hdrs col st \<noteq> Break st'" "alert_advance hdrs col st \<noteq> NoAlert"
  "alert_advance hdrs col st = Continue st' \<longleftrightarrow>
     st' = st\<lparr>as_idx := Suc (as_idx st),
              as_headers := alert_headers hdrs (col_extra col) (as_headers st)\<rparr>"
  by (auto simp: alert_advance_def)

lemma alert_col_cases:
  assumes "scanned cols ss n st"
  shows "\<exists>it. iter_todo it = drop (Suc n) ss \<and>
    alert_col k p hdrs (cols ! n) st =
      (let st = st\<lparr>as_it := it\<rparr>; s = status_at ss n in
       if s = NO_RESULT then Continue st
       else if s = RUNNING then Continue (st\<lparr>as_idx := Suc (as_idx st)\<rparr>)
       else if Passing s then alert_pass k p hdrs (cols ! n) st
       else if Failing s then alert_fail hdrs (cols ! n) st
       else if s = FLAKY then alert_flaky k hdrs (cols ! n) st
       else alert_advance hdrs (cols ! n) st)"
proof -
  from assms have "iter_todo (as_it st) = drop n ss" by (simp add: scanned_def)
  then obtain b it where it: "iter_next (as_it st) = ((status_at ss n, b), it)"
    "iter_todo it = drop (Suc n) ss"
    by (rule iter_next_at)
  then show ?thesis
    by (intro exI [of _ it], cases "status_at ss n") (simp_all add: alert_col_def Let_def Coalesce_def)
qed

lemma alert_col_scanned:
  assumes "scanned cols ss n st"
  shows "alert_col k p hdrs (cols ! n) st = Continue st' \<Longrightarrow> scanned cols ss (Suc n) st'"
    and "alert_col k p hdrs (cols ! n) st = Break st' \<Longrightarrow> fails_seen cols ss (Suc n) st'"
proof -
  note defs = scanned_def fails_seen_def Let_def filled_take_status failures_before_status
  obtain it where it: "iter_todo it = drop (Suc n) ss" and
    col: "alert_col k p hdrs (cols ! n) st =
      (let st = st\<lparr>as_it := it\<rparr>; s = status_at ss n in
       if s = NO_RESULT then Continue st
       else if s = RUNNING then Continue (st\<lparr>as_idx := Suc (as_idx st)\<rparr>)
       else if Passing s then alert_pass k p hdrs (cols ! n) st
       else if Failing s then alert_fail hdrs (cols ! n) st
       else if s = FLAKY then alert_flaky k hdrs (cols ! n) st
       else alert_advance hdrs (cols ! n) st)"
    using alert_col_cases [OF assms] by blast
  let ?s = "status_at ss n"
  consider "Failing ?s" | "Passing ?s" | "?s = FLAKY" | "?s = NO_RESULT \<or> ?s = RUNNING"
    | "\<not> Failing ?s" "\<not> Passing ?s" "?s \<notin> {FLAKY, NO_RESULT, RUNNING}"
    by blast
  then have "(alert_col k p hdrs (cols ! n) st = Continue st' \<longrightarrow> scanned cols ss (Suc n) st') \<and>
    (alert_col k p hdrs (cols ! n) st = Break st' \<longrightarrow> fails_seen cols ss (Suc n) st')"
  proof cases
    case 1
    then have s: "\<not> Passing ?s" "?s \<noteq> NO_RESULT" "?s \<noteq> RUNNING" by auto
    have "alert_col k p hdrs (cols ! n) st = alert_fail hdrs (cols ! n) (st\<lparr>as_it := it\<rparr>)"
      unfolding col Let_def using 1 s by (simp only: if_True if_False)
    moreover have "as_total st = int (length (failures_before ss n))"
      using assms by (simp add: scanned_def fails_seen_def Let_def)
    ultimately show ?thesis
      using assms 1 s(2) it
      by (cases "failures_before ss n = []") (auto simp: defs alert_fail_def hd_append simp del: Failing_iff)
  next
    case 2
    then have s: "\<not> Failing ?s" "?s \<noteq> NO_RESULT" "?s \<noteq> RUNNING" by auto
    have "alert_col k p hdrs (cols ! n) st = alert_pass k p hdrs (cols ! n) (st\<lparr>as_it := it\<rparr>)"
      unfolding col Let_def using 2 s by (simp only: if_True if_False)
    with assms s(1,2) it show ?thesis
      by (auto simp: defs alert_pass_def simp del: Failing_iff split: if_splits)
  next
    case 3
    then have s: "\<not> Failing ?s" "?s \<noteq> NO_RESULT" "?s \<noteq> RUNNING" "\<not> Passing ?s" by auto
    have "alert_col k p hdrs (cols ! n) st = alert_flaky k hdrs (cols ! n) (st\<lparr>as_it := it\<rparr>)"
      unfolding col Let_def using 3 s by (simp only: if_True if_False refl)
    with assms s(1,2) it show ?thesis
      by (auto simp: defs alert_flaky_def simp del: Failing_iff split: if_splits)
  next
    case 4
    then have "\<not> Failing ?s" by auto
    with 4 assms it show ?thesis
      unfolding col by (auto simp: defs simp del: Failing_iff)
  next
    case 5
    then have "alert_col k p hdrs (cols ! n) st = alert_advance hdrs (cols ! n) (st\<lparr>as_it := it\<rparr>)"
      unfolding col Let_def by (simp only: if_False) auto
    with assms 5 it show ?thesis
      by (auto simp: defs simp del: Failing_iff)
  qed
  then show "alert_col k p hdrs (cols ! n) st = Continue st' \<Longrightarrow> scanned cols ss (Suc n) st'"
    and "alert_col k p hdrs (cols ! n) st = Break st' \<Longrightarrow> fails_seen cols ss (Suc n) st'"
    by blast+
qed

lemma alert_loop_fails_seen:
  assumes "scanned cols ss n st" "alert_loop k p hdrs rest st = Some st'" "rest = drop n cols"
    "n \<le> length cols"
  shows "\<exists>m \<le> length cols. fails_seen cols ss m st'"
  using assms
proof (induction rest arbitrary: n st)
  case Nil
  then show ?case by (intro exI [of _ n]) (simp add: scanned_def)
next
  case (Cons col rest)
  from drop_eq_Cons [OF Cons.prems(3) [symmetric]] have n: "n < length cols" "cols ! n = col"
    "drop (Suc n) cols = rest"
    by blast+
  show ?case
  proof (cases "alert_col k p hdrs col st")
    case (Continue st1)
    with alert_col_scanned(1) [OF Cons.prems(1)] n(2) have sc: "scanned cols ss (Suc n) st1"
      by blast
    have "alert_loop k p hdrs rest st1 = Some st'"
      using Cons.prems(2) Continue by simp
    from Cons.IH [OF sc this n(3) [symmetric] Suc_leI [OF n(1)]] show ?thesis .
  next
    case (Break st1)
    with alert_col_scanned(2) [OF Cons.prems(1)] n(2) have "fails_seen cols ss (Suc n) st1"
      by blast
    moreover have "st1 = st'" using Cons.prems(2) Break by simp
    ultimately show ?thesis using n(1) by (intro exI [of _ "Suc n"]) simp
  qed (use Cons.prems(2) in simp)
qed

lemma packed_filled_lengths:
  "packed r \<Longrightarrow> length (row_messages r) = filled (row_statuses r) \<and>
   length (row_user_property r) = filled (row_statuses r) \<and>
   length (row_cell_ids r) = (if hasCellID (row_name r) then filled (row_statuses r) else 0)"
  by (simp add: packed_def Let_def)

lemma packed_cell_reads:
  assumes "packed r" "j < length (row_statuses r)" "row_statuses r ! j \<noteq> NO_RESULT"
  defines "k \<equiv> filled (take j (row_statuses r))"
  shows "slice_at (row_messages r) k = Inr (c_message (cell_at r j))"
    and "(if row_cell_ids r \<noteq> [] then slice_at (row_cell_ids r) k else Inr []) =
      Inr (c_cell_id (cell_at r j))"
    and "k < length (row_user_property r)" "row_user_property r ! k = c_user_property (cell_at r j)"
proof -
  have "k < filled (row_statuses r)"
    using filled_take_less [OF assms(2,3)] by (simp add: k_def)
  with packed_filled_lengths [OF assms(1)] assms(3)
  show "slice_at (row_messages r) k = Inr (c_message (cell_at r j))"
    and "(if row_cell_ids r \<noteq> [] then slice_at (row_cell_ids r) k else Inr []) =
      Inr (c_cell_id (cell_at r j))"
    and "k < length (row_user_property r)" "row_user_property r ! k = c_user_property (cell_at r j)"
    by (auto simp: cell_at_def Let_def k_def split: if_splits)
qed

text \<open>
  What an alert reports: the newest failing column and the oldest one of the outage, with the
  message and identifiers of their cells.
\<close>

definition reports :: "column list \<Rightarrow> row \<Rightarrow> int \<Rightarrow> bool \<Rightarrow> string \<Rightarrow> alert_info \<Rightarrow> bool" where
  "reports cols r failuresToOpen commit user a \<longleftrightarrow>
     (\<exists>n \<le> length cols. let F = failures_before (row_statuses r) n; new = hd F; old = last F in
       F \<noteq> [] \<and> al_fail_count a = int (length F) \<and> failuresToOpen \<le> al_fail_count a \<and>
       al_failure_message a = c_message (cell_at r new) \<and>
       al_latest_fail_test_id a = c_cell_id (cell_at r new) \<and>
       al_fail_test_id a = c_cell_id (cell_at r old) \<and>
       al_latest_fail_build_id a = buildID (Some (cols ! new)) commit \<and>
       al_fail_build_id a = buildID (Some (cols ! old)) commit \<and>
       al_fail_time a = stamp (Some (cols ! old)) \<and>
       al_email_addresses a = col_email_addresses (cols ! old) \<and>
       al_properties a =
         (if c_user_property (cell_at r new) = [] then []
          else [(user, c_user_property (cell_at r new))]))"

lemma alertRow_reports:
  assumes "packed r" "0 < k"
  shows "\<exists>a. alertRow cols r k p commit user hdrs = Inr a \<and>
    (case a of None \<Rightarrow> True | Some x \<Rightarrow> reports cols r k commit user x)"
proof (cases "alert_loop k p hdrs cols (alert_init (row_results r))")
  case None
  with assms show ?thesis by (simp add: alertRow_def)
next
  case (Some st)
  show ?thesis
  proof (cases "as_concurrent st < k")
    case True
    with Some assms show ?thesis by (simp add: alertRow_def)
  next
    case False
    let ?ss = "row_statuses r"
    from alert_loop_fails_seen [OF scanned_init Some] obtain n where
      n: "n \<le> length cols" "fails_seen cols ?ss n st"
      by auto
    define F where "F = failures_before ?ss n"
    have tot: "as_total st = int (length F)" "as_concurrent st \<le> as_total st"
      using n(2) by (simp_all add: fails_seen_def F_def Let_def)
    with False assms(2) have F: "F \<noteq> []" by auto
    with n(2) have st: "as_latest_fail st = Some (cols ! hd F)"
      "as_latest_fail_idx st = filled (take (hd F) ?ss)"
      "as_first_fail st = Some (cols ! last F)" "as_fail_idx st = filled (take (last F) ?ss)"
      by (simp_all add: fails_seen_def F_def Let_def)
    have fail: "j < length ?ss \<and> ?ss ! j \<noteq> NO_RESULT" if "j \<in> set F" for j
      using that by (auto simp: F_def failures_before_member)
    note new = packed_cell_reads [OF assms(1) conjunct1 [OF fail [OF hd_in_set [OF F]]]
        conjunct2 [OF fail [OF hd_in_set [OF F]]]]
    note old = packed_cell_reads [OF assms(1) conjunct1 [OF fail [OF last_in_set [OF F]]]
        conjunct2 [OF fail [OF last_in_set [OF F]]]]
    define a where "a = \<lparr>al_fail_count = as_total st,
        al_fail_build_id = buildID (Some (cols ! last F)) commit,
        al_latest_fail_build_id = buildID (Some (cols ! hd F)) commit,
        al_fail_time = stamp (Some (cols ! last F)), al_fail_test_id = c_cell_id (cell_at r (last F)),
        al_latest_fail_test_id = c_cell_id (cell_at r (hd F)),
        al_failure_message = c_message (cell_at r (hd F)), al_pass_time = stamp (as_latest_pass st),
        al_pass_build_id = buildID (as_latest_pass st) commit,
        al_email_addresses = col_email_addresses (cols ! last F),
        al_hotlist_ids = filter (\<lambda>i. i \<noteq> [])
          (map trim_space (str_split (col_hotlist_ids (cols ! last F)) '','')),
        al_properties = (if c_user_property (cell_at r (hd F)) = [] then []
          else [(user, c_user_property (cell_at r (hd F)))]),
        al_custom_column_headers = as_headers st\<rparr>"
    note reads = new [folded st(2)] old [folded st(4)]
    have "alertRow cols r k p commit user hdrs = Inr (Some a)"
      unfolding alertRow_def using assms(2) False
      by (simp add: Some reads st(1,3) alertInfo_def hotlistIDs_def emailAddresses_def a_def)
    moreover have "as_total st \<ge> k" using tot False by simp
    then have "reports cols r k commit user a"
      unfolding reports_def Let_def
      using n(1) F tot(1) by (intro exI [of _ n]) (simp add: a_def F_def)
    ultimately show ?thesis by simp
  qed
qed

section \<open>When there is an alert\<close>

text \<open>
  The results that count, newest first, and the runs a prefix of them ends with.  There is an
  outage when enough consecutive failures come before enough consecutive passes.
\<close>

definition relevant :: "test_status list \<Rightarrow> test_status list" where
  "relevant ss = filter (\<lambda>s. s \<in> {PASS, FAIL, FLAKY}) (map (\<lambda>s. Coalesce s True) ss)"

definition run_of :: "test_status \<Rightarrow> test_status list \<Rightarrow> nat" where
  "run_of s xs = length (takeWhile (\<lambda>x. x = s) (rev xs))"

definition outage :: "nat \<Rightarrow> nat \<Rightarrow> test_status list \<Rightarrow> bool" where
  "outage k p xs \<longleftrightarrow>
     (\<exists>n \<le> length xs. k \<le> run_of FAIL (take n xs) \<and> (\<forall>m < n. run_of PASS (take m xs) < p))"

lemma run_of_simps [simp]:
  "run_of s [] = 0" "run_of s (xs @ [x]) = (if x = s then Suc (run_of s xs) else 0)"
  by (simp_all add: run_of_def)

text \<open>The counters of the loop, on the list of results that count.\<close>

fun outage_scan :: "nat \<Rightarrow> nat \<Rightarrow> nat \<Rightarrow> nat \<Rightarrow> test_status list \<Rightarrow> bool" where
  "outage_scan k p conc passes [] \<longleftrightarrow> k \<le> conc"
| "outage_scan k p conc passes (x # xs) \<longleftrightarrow>
     k \<le> conc \<or>
     (if x = PASS then Suc passes < p \<and> outage_scan k p 0 (Suc passes) xs
      else if x = FAIL then outage_scan k p (Suc conc) 0 xs
      else outage_scan k p 0 0 xs)"

lemma outage_from:
  "run_of PASS h < p \<Longrightarrow>
   outage_scan k p (run_of FAIL h) (run_of PASS h) xs \<longleftrightarrow>
   (\<exists>n \<le> length xs. k \<le> run_of FAIL (h @ take n xs) \<and> (\<forall>m < n. run_of PASS (h @ take m xs) < p))"
proof (induction xs arbitrary: h)
  case (Cons x xs)
  let ?Q = "\<lambda>h n xs. k \<le> run_of FAIL (h @ take n xs) \<and> (\<forall>m < n. run_of PASS (h @ take m xs) < p)"
  have first: "(\<exists>n \<le> length (x # xs). ?Q h n (x # xs)) \<longleftrightarrow>
      k \<le> run_of FAIL h \<or> (\<exists>n \<le> length xs. ?Q (h @ [x]) n xs)"
  proof -
    have "?Q h (Suc n) (x # xs) \<longleftrightarrow> ?Q (h @ [x]) n xs" for n
      using Cons.prems by (simp add: All_less_Suc2)
    moreover have "(\<exists>n \<le> Suc N. P n) \<longleftrightarrow> P 0 \<or> (\<exists>n \<le> N. P (Suc n))" for P and N :: nat
      by (metis Suc_le_mono not0_implies_Suc zero_le)
    ultimately show ?thesis by (simp del: take_Suc_Cons)
  qed
  show ?case
  proof (cases "run_of PASS (h @ [x]) < p")
    case True
    with Cons.IH [OF True] show ?thesis
      unfolding first by (auto split: if_splits)
  next
    case False
    then have x: "x = PASS" "\<not> Suc (run_of PASS h) < p"
      using Cons.prems by (auto split: if_splits)
    have "k = 0" if "?Q (h @ [x]) n xs" for n
      using that False x(1) by (cases n) auto
    with x show ?thesis
      unfolding first by auto
  qed
qed simp

lemma outage_scan_iff: "0 < p \<Longrightarrow> outage_scan k p 0 0 xs \<longleftrightarrow> outage k p xs"
  using outage_from [of "[]" p k xs] by (simp add: outage_def)

text \<open>Once there are enough failures the loop cannot end without an alert.\<close>

lemma alert_loop_open:
  "k \<le> as_concurrent st \<Longrightarrow> \<exists>st'. alert_loop k p hdrs cols st = Some st' \<and> k \<le> as_concurrent st'"
proof (induction cols arbitrary: st)
  case (Cons col cols)
  obtain raw b it where it: "iter_next (as_it st) = ((raw, b), it)" by (metis prod.exhaust)
  have "(\<exists>st'. alert_col k p hdrs col st = Continue st' \<and> k \<le> as_concurrent st') \<or>
      (\<exists>st'. alert_col k p hdrs col st = Break st' \<and> k \<le> as_concurrent st')"
    using Cons.prems
    by (auto simp: alert_col_def it Let_def alert_pass_def alert_fail_def alert_flaky_def alert_advance_def)
  then show ?case using Cons.IH by auto
qed simp

lemma outage_scan_open: "k \<le> c \<Longrightarrow> outage_scan k p c q xs"
  by (cases xs) auto

definition alerts :: "int \<Rightarrow> alert_state option \<Rightarrow> bool" where
  "alerts k st = (case st of None \<Rightarrow> False | Some st' \<Rightarrow> k \<le> as_concurrent st')"

lemma alert_loop_scan:
  assumes "as_concurrent st = int c" "as_passes st = int q"
  shows "alerts (int k) (alert_loop (int k) (int p) hdrs cols st) \<longleftrightarrow>
    outage_scan k p c q (relevant (take (length cols) (iter_todo (as_it st))))"
  using assms
proof (induction cols arbitrary: st c q)
  case Nil
  then show ?case by (simp add: relevant_def alerts_def)
next
  case (Cons col cols)
  show ?case
  proof (cases "k \<le> c")
    case True
    with Cons.prems have "int k \<le> as_concurrent st" by simp
    from alert_loop_open [OF this] outage_scan_open [OF True] show ?thesis
      unfolding alerts_def by (metis option.simps(5))
  next
    case False
    obtain raw b it where it: "iter_next (as_it st) = ((raw, b), it)" by (metis prod.exhaust)
    note spec = iter_next_spec [of "as_it st", unfolded it fst_conv snd_conv]
    have col: "alert_col (int k) (int p) hdrs col st =
      (let st = st\<lparr>as_it := it\<rparr> in
       if raw = NO_RESULT then Continue st
       else if raw = RUNNING then Continue (st\<lparr>as_idx := Suc (as_idx st)\<rparr>)
       else if Coalesce raw True = PASS then alert_pass (int k) (int p) hdrs col st
       else if Coalesce raw True = FAIL then alert_fail hdrs col st
       else if Coalesce raw True = FLAKY then alert_flaky (int k) hdrs col st
       else alert_advance hdrs col st)"
      by (simp add: alert_col_def it Let_def Coalesce_eq_iffs)
    show ?thesis
    proof (cases "iter_todo (as_it st)")
      case Nil
      with spec have raw: "raw = NO_RESULT" "iter_todo it = []" by simp_all
      from Cons.IH [of "st\<lparr>as_it := it\<rparr>" c q] Cons.prems raw Nil col show ?thesis by simp
    next
      case todo: (Cons s ss)
      with spec have raw: "raw = s" "iter_todo it = ss" by simp_all
      let ?c = "Coalesce s True"
      have rel: "relevant (s # xs) = (if ?c \<in> {PASS, FAIL, FLAKY} then ?c # relevant xs else relevant xs)"
        for xs by (simp add: relevant_def)
      note IH = Cons.IH [unfolded raw(2) [symmetric]]
      consider "?c = PASS" | "?c = FAIL" | "?c = FLAKY" | "?c \<notin> {PASS, FAIL, FLAKY}" by blast
      then show ?thesis
      proof cases
        case 1
        then have "s \<noteq> NO_RESULT" "s \<noteq> RUNNING" by auto
        with 1 False Cons.prems raw todo col rel show ?thesis
          by (auto simp: alert_pass_def alert_advance_def alerts_def [of _ None] Cons.IH [of _ 0 "Suc q"])
      next
        case 2
        then have "s \<noteq> NO_RESULT" "s \<noteq> RUNNING" by auto
        with 2 False Cons.prems raw todo col rel show ?thesis
          by (auto simp: alert_fail_def alert_advance_def Let_def Cons.IH [of _ "Suc c" 0])
      next
        case 3
        then have "s \<noteq> NO_RESULT" "s \<noteq> RUNNING" by auto
        with 3 False Cons.prems raw todo col rel show ?thesis
          by (auto simp: alert_flaky_def alert_advance_def Cons.IH [of _ 0 0])
      next
        case 4
        with False Cons.prems raw todo col rel show ?thesis
          by (auto simp: Let_def alert_advance_def Cons.IH [of _ c q])
      qed
    qed
  qed
qed

theorem alertRow_iff_outage:
  assumes "packed r" "0 < k" "0 < p" "length cols \<le> length (row_statuses r)"
  shows "\<exists>a. alertRow cols r (int k) (int p) commit user hdrs = Inr a \<and>
    (a \<noteq> None \<longleftrightarrow> outage k p (relevant (take (length cols) (row_statuses r))))"
proof -
  let ?st = "alert_init (row_results r)"
  have st: "as_concurrent ?st = int 0" "as_passes ?st = int 0" "iter_todo (as_it ?st) = row_statuses r"
    by (simp_all add: alert_init_def row_statuses_def)
  from alert_loop_scan [OF st(1,2), of k p hdrs cols] outage_scan_iff [OF assms(3), of k]
  have loop: "alerts (int k) (alert_loop (int k) (int p) hdrs cols ?st) \<longleftrightarrow>
      outage k p (relevant (take (length cols) (row_statuses r)))"
    by (simp add: st(3))
  from alertRow_reports [OF assms(1), of "int k" cols "int p" commit user hdrs] assms(2) obtain a where
    a: "alertRow cols r (int k) (int p) commit user hdrs = Inr a"
    by auto
  then have "a \<noteq> None \<longleftrightarrow> alerts (int k) (alert_loop (int k) (int p) hdrs cols ?st)"
    using assms(2) by (auto simp: alertRow_def alerts_def go_simps Let_def split: option.splits if_splits)
  with a loop show ?thesis by simp
qed

section \<open>columnStats\<close>

fun stats_loop :: "cell list \<Rightarrow> stats \<Rightarrow> stats" where
  "stats_loop [] st = st"
| "stats_loop (c # cs) st =
     (let st = (if c_result c = RUNNING then st\<lparr>st_pending := True\<rparr> else st);
          status = Coalesce (c_result c) False;
          st = (if status = PASS
                then st\<lparr>st_pass_count := st_pass_count st + 1, st_total_count := st_total_count st + 1\<rparr>
                else if status = FAIL
                then st\<lparr>st_fail_count := st_fail_count st + 1, st_total_count := st_total_count st + 1\<rparr>
                else if status = FLAKY \<or> status = UNKNOWN
                then st\<lparr>st_total_count := st_total_count st + 1\<rparr> else st)
      in stats_loop cs st)"

definition columnStats :: "(string, cell) gomap option \<Rightarrow> float64 \<Rightarrow> stats option" where
  "columnStats cells brokenThreshold =
     (if brokenThreshold \<le> 0 then None
      else case cells of
        None \<Rightarrow> None
      | Some m \<Rightarrow>
          (let st = stats_loop (map snd m)
                 \<lparr>st_fail_count = 0, st_pass_count = 0, st_total_count = 0, st_pending = False,
                  st_broken = False\<rparr>;
               failRatio = (if st_total_count st \<noteq> 0
                            then of_int (st_fail_count st) / of_int (st_total_count st) else 0)
           in Some (st\<lparr>st_broken := failRatio > brokenThreshold\<rparr>)))"

definition count_cells :: "(test_status \<Rightarrow> bool) \<Rightarrow> cell list \<Rightarrow> int" where
  "count_cells P cs = int (length (filter (\<lambda>c. P (c_result c)) cs))"

lemma stats_loop_counts:
  "stats_loop cs st =
   \<lparr>st_fail_count = st_fail_count st + count_cells Failing cs,
    st_pass_count = st_pass_count st + count_cells Passing cs,
    st_total_count = st_total_count st + count_cells (\<lambda>s. s \<noteq> NO_RESULT) cs,
    st_pending = (st_pending st \<or> (\<exists>c \<in> set cs. c_result c = RUNNING)),
    st_broken = st_broken st\<rparr>"
proof (induction cs arbitrary: st)
  case (Cons c cs)
  show ?case
    by (cases "c_result c")
       (simp_all add: Cons.IH Let_def Coalesce_def count_cells_def)
qed (simp add: count_cells_def)

end
