(* ===== verification/Columns.thy ===== *)
theory Columns
  imports Cells Alerts
begin

text \<open>
  From builds to the columns of a grid: listing builds (\<open>util/gcs/sort.go\<close>, \<open>ListBuilds\<close> of
  \<open>util/gcs/read.go\<close>), reading them (\<open>pkg/updater/read.go\<close>), and the column operations of
  \<open>pkg/updater/updater.go\<close>.  \<open>nl\<close> is \<open>sortorder.NaturalLess\<close>, a comparison of a third-party package.
\<close>

type_synonym natural_less = "string \<Rightarrow> string \<Rightarrow> bool"

section \<open>Sorting and cutting columns\<close>

definition SortStarted :: "inflated_column list \<Rightarrow> inflated_column list" where
  "SortStarted cols =
     slice_stable (\<lambda>a b. col_started (ic_column a) > col_started (ic_column b)) cols"

interpretation started: weak_order
  "\<lambda>a b :: inflated_column. col_started (ic_column a) > col_started (ic_column b)"
  by (rule weak_order_key_greater)

lemma SortStarted_sorted:
  "sorted_wrt (\<lambda>a b. col_started (ic_column a) \<ge> col_started (ic_column b)) (SortStarted cols)"
  using started.sorted_slice_stable [of cols] by (simp add: SortStarted_def not_less)

lemma SortStarted_mset [simp]: "mset (SortStarted cols) = mset cols"
  by (simp add: SortStarted_def)

lemma SortStarted_stable:
  "filter (\<lambda>c. col_started (ic_column c) = t) (SortStarted cols) =
   filter (\<lambda>c. col_started (ic_column c) = t) cols"
proof (cases "\<exists>a \<in> set cols. col_started (ic_column a) = t")
  case True
  then obtain a :: inflated_column where "col_started (ic_column a) = t" by blast
  then have "started.equiv a = (\<lambda>c. col_started (ic_column c) = t)"
    by (auto simp: started.equiv_def fun_eq_iff)
  with started.stable_slice_stable [of a cols] show ?thesis by (simp add: SortStarted_def)
next
  case False
  moreover have "set (SortStarted cols) = set cols" by (metis SortStarted_mset set_mset_mset)
  ultimately show ?thesis by (metis (mono_tags, lifting) filter_False)
qed

definition has_running :: "inflated_column \<Rightarrow> bool" where
  "has_running col = list_ex (\<lambda>(n, c). c_result c = RUNNING) (ic_cells col)"

text \<open>
  \<open>truncateRunning\<close>, from the last column backwards; \<open>floorTime\<close> is in Unix seconds and \<open>n\<close> counts
  the columns not yet looked at.
\<close>

fun truncate_running_loop :: "inflated_column list \<Rightarrow> float64 \<Rightarrow> nat \<Rightarrow> inflated_column list" where
  "truncate_running_loop cols oldest 0 = cols"
| "truncate_running_loop cols oldest (Suc i) =
     (if col_started (ic_column (cols ! i)) < oldest then truncate_running_loop cols oldest i
      else if has_running (cols ! i) then drop (Suc i) cols
      else truncate_running_loop cols oldest i)"

definition truncateRunning :: "inflated_column list \<Rightarrow> int \<Rightarrow> inflated_column list" where
  "truncateRunning cols floorTime =
     truncate_running_loop cols (of_int (floorTime * 1000)) (length cols)"

definition still_running :: "int \<Rightarrow> inflated_column \<Rightarrow> bool" where
  "still_running floorTime col \<longleftrightarrow>
     of_int (floorTime * 1000) \<le> col_started (ic_column col) \<and> has_running col"

lemma truncate_running_loop_spec:
  "n \<le> length cols \<Longrightarrow> \<forall>c \<in> set (drop n cols). \<not> still_running t c \<Longrightarrow>
   truncate_running_loop cols (of_int (t * 1000)) n =
     (if \<exists>c \<in> set cols. still_running t c
      then rev (takeWhile (\<lambda>c. \<not> still_running t c) (rev cols)) else cols)"
proof (induction n)
  case (Suc i)
  let ?c = "cols ! i"
  have drop: "drop i cols = ?c # drop (Suc i) cols" using Suc.prems(1) by (simp add: Cons_nth_drop_Suc)
  show ?case
  proof (cases "still_running t ?c")
    case True
    have "rev cols = rev (drop (Suc i) cols) @ ?c # rev (take i cols)"
      by (metis Suc.prems(1) Suc_le_eq append_take_drop_id id_take_nth_drop rev.simps(2) rev_append append.assoc append_Cons append_Nil)
    then have "takeWhile (\<lambda>c. \<not> still_running t c) (rev cols) = rev (drop (Suc i) cols)"
      using Suc.prems(2) True by (subst \<open>rev cols = _\<close>, subst takeWhile_append2) auto
    moreover have "?c \<in> set cols" using Suc.prems(1) by simp
    ultimately show ?thesis using True by (auto simp: still_running_def)
  next
    case False
    then have "truncate_running_loop cols (of_int (t * 1000)) (Suc i) =
        truncate_running_loop cols (of_int (t * 1000)) i"
      by (auto simp: still_running_def)
    with Suc False drop show ?thesis by simp
  qed
qed auto

text \<open>
  What stays are the columns after the oldest one that is still running: none of them is running,
  and one more column would be.
\<close>

lemma truncateRunning_spec:
  "truncateRunning cols t =
     (if \<exists>c \<in> set cols. still_running t c
      then rev (takeWhile (\<lambda>c. \<not> still_running t c) (rev cols)) else cols)"
  using truncate_running_loop_spec [of "length cols" cols t] by (simp add: truncateRunning_def)

fun truncate_grid_loop :: "nat \<Rightarrow> nat \<Rightarrow> nat \<Rightarrow> inflated_column list \<Rightarrow> inflated_column list" where
  "truncate_grid_loop i cells cellCeiling [] = []"
| "truncate_grid_loop i cells cellCeiling (col # cols) =
     (let cells = cells + length (ic_cells col) in
      if i < 2 \<or> cells \<le> cellCeiling then col # truncate_grid_loop (Suc i) cells cellCeiling cols
      else [])"

definition truncateGrid :: "inflated_column list \<Rightarrow> nat \<Rightarrow> inflated_column list" where
  "truncateGrid cols cellCeiling = truncate_grid_loop 0 0 cellCeiling cols"

definition total_cells :: "inflated_column list \<Rightarrow> nat" where
  "total_cells cols = sum_list (map (\<lambda>c. length (ic_cells c)) cols)"

lemma total_cells_simps [simp]:
  "total_cells [] = 0" "total_cells (c # cs) = length (ic_cells c) + total_cells cs"
  by (simp_all add: total_cells_def)

lemma truncate_grid_loop_spec:
  "i \<le> 2 \<or> cells \<le> m \<Longrightarrow>
   \<exists>n \<le> length cols. truncate_grid_loop i cells m cols = take n cols \<and>
     (i + n \<le> 2 \<or> cells + total_cells (take n cols) \<le> m) \<and>
     (n < length cols \<longrightarrow> 2 \<le> i + n \<and> m < cells + total_cells (take (Suc n) cols))"
proof (induction cols arbitrary: i cells)
  case (Cons c cols)
  let ?cells = "cells + length (ic_cells c)"
  show ?case
  proof (cases "i < 2 \<or> ?cells \<le> m")
    case True
    then have "Suc i \<le> 2 \<or> ?cells \<le> m" by auto
    from Cons.IH [OF this] obtain n where
      n: "n \<le> length cols" "truncate_grid_loop (Suc i) ?cells m cols = take n cols"
      "Suc i + n \<le> 2 \<or> ?cells + total_cells (take n cols) \<le> m"
      "n < length cols \<longrightarrow> 2 \<le> Suc i + n \<and> m < ?cells + total_cells (take (Suc n) cols)"
      by blast
    with True show ?thesis by (intro exI [of _ "Suc n"]) (simp add: Let_def add.assoc)
  next
    case False
    with Cons.prems show ?thesis by (intro exI [of _ 0]) (simp add: Let_def)
  qed
qed simp

text \<open>The longest prefix within the ceiling, and two columns in any case.\<close>

lemma truncateGrid_spec:
  "\<exists>n \<le> length cols. truncateGrid cols m = take n cols \<and>
     (n \<le> 2 \<or> total_cells (take n cols) \<le> m) \<and>
     (n < length cols \<longrightarrow> 2 \<le> n \<and> m < total_cells (take (Suc n) cols))"
  using truncate_grid_loop_spec [of 0 0 m cols] by (simp add: truncateGrid_def)

text \<open>\<open>when\<close> is in Unix seconds; the configurations are compared as values.\<close>

definition reprocessColumn :: "grid \<Rightarrow> test_group \<Rightarrow> int \<Rightarrow> inflated_column option" where
  "reprocessColumn old currentCfg when =
     (if grid_config old = None \<or> grid_config old = Some currentCfg then None
      else Some \<lparr>ic_column = empty_column\<lparr>col_started := of_int (when * 1000)\<rparr>,
                 ic_cells = [(''reprocess'', zero_cell\<lparr>c_result := RUNNING\<rparr>)]\<rparr>)"

definition truncatedRowName :: string where
  "truncatedRowName = ''Truncated''"

definition truncate_last_cell :: "int \<Rightarrow> int \<Rightarrow> string \<Rightarrow> cell \<Rightarrow> cell" where
  "truncate_last_cell orig mx entity c =
     (if c_result c = NO_RESULT then c
      else c\<lparr>c_result := UNKNOWN,
             c_message := itoa orig @ '' '' @ entity @ '' grid exceeds maximum size of '' @ itoa mx @
                          '' '' @ entity @ ''s'',
             c_icon := ''...''\<rparr>)"

definition truncateLastColumn ::
    "inflated_column list \<Rightarrow> int \<Rightarrow> int \<Rightarrow> string \<Rightarrow> inflated_column list" where
  "truncateLastColumn cols orig mx entity =
     (if cols = [] then []
      else butlast cols @
        [(last cols)\<lparr>ic_cells :=
           map (\<lambda>(n, c). (n, truncate_last_cell orig mx entity c))
             (filter (\<lambda>(n, c). n \<noteq> truncatedRowName) (ic_cells (last cols)))\<rparr>])"

definition deletedColumn :: "inflated_column \<Rightarrow> inflated_column list" where
  "deletedColumn latestColumn =
     [\<lparr>ic_column = ic_column latestColumn,
       ic_cells = [(truncatedRowName, zero_cell\<lparr>c_result := UNKNOWN, c_id := truncatedRowName,
         c_message := ''The grid is too large to update. Split this testgroup into multiple testgroups.''\<rparr>)]\<rparr>]"

lemma length_truncateLastColumn [simp]: "length (truncateLastColumn cols a b e) = length cols"
  by (cases cols rule: rev_cases) (simp_all add: truncateLastColumn_def)

section \<open>Build names from the clock\<close>

definition strftime_replacements :: "(char \<times> string) list" where
  "strftime_replacements =
     [(CHR ''p'', ''PM''), (CHR ''Y'', ''2006''), (CHR ''y'', ''06''), (CHR ''m'', ''01''),
      (CHR ''d'', ''02''), (CHR ''H'', ''15''), (CHR ''M'', ''04''), (CHR ''S'', ''05'')]"

text \<open>The loop ranges over a map: \<open>rs\<close> is the order it takes, any permutation of the table.\<close>

definition FormatStrftime :: "(char \<times> string) list \<Rightarrow> string \<Rightarrow> string" where
  "FormatStrftime rs s = fold (\<lambda>(c, good) out. replace_all out [CHR ''%'', c] good) rs s"

text \<open>\<open>format_time ms fmt\<close> is \<open>time.Unix(\<dots>).Format(fmt)\<close> for a time in milliseconds.\<close>

definition overrideBuild ::
    "(int \<Rightarrow> string \<Rightarrow> string) \<Rightarrow> (char \<times> string) list \<Rightarrow> test_group \<Rightarrow> inflated_column list \<Rightarrow>
     inflated_column list" where
  "overrideBuild format_time rs tg cols =
     (if tg_build_override_strftime tg = [] then cols
      else let fmt = FormatStrftime rs (tg_build_override_strftime tg) in
        map (\<lambda>col. col\<lparr>ic_column := (ic_column col)\<lparr>col_build :=
               format_time (trunc (col_started (ic_column col))) fmt\<rparr>\<rparr>) cols)"

text \<open>One pass over the format, replacing every code of the table: what the loop amounts to.\<close>

fun scan_codes :: "(char \<times> string) list \<Rightarrow> string \<Rightarrow> string" where
  "scan_codes rs [] = []"
| "scan_codes rs [c] = [c]"
| "scan_codes rs (c # d # s) =
     (if c = CHR ''%'' then
        (case map_of rs d of Some good \<Rightarrow> good @ scan_codes rs s | None \<Rightarrow> c # scan_codes rs (d # s))
      else c # scan_codes rs (d # s))"

text \<open>A table whose replacements have no percent sign and do not begin with one of the codes.\<close>

definition codes_ok :: "(char \<times> string) list \<Rightarrow> bool" where
  "codes_ok rs \<longleftrightarrow>
     distinct (map fst rs) \<and>
     (\<forall>(c, good) \<in> set rs. c \<noteq> CHR ''%'' \<and> good \<noteq> [] \<and> CHR ''%'' \<notin> set good \<and>
        hd good \<notin> fst ` set rs)"

lemma replace_all_plain:
  "CHR ''%'' \<notin> set u \<Longrightarrow> replace_all (u @ s) (CHR ''%'' # p) g = u @ replace_all s (CHR ''%'' # p) g"
  by (induction u) (auto simp: has_prefix_def)

lemma hd_scan_codes:
  assumes "codes_ok rs'" "set rs \<subseteq> set rs'" "c \<in> fst ` set rs'"
  shows "scan_codes rs (d # s) \<noteq> [] \<and> (d \<noteq> c \<longrightarrow> hd (scan_codes rs (d # s)) \<noteq> c) \<and>
    (d \<noteq> CHR ''%'' \<longrightarrow> scan_codes rs (d # s) = d # scan_codes rs s)"
proof (cases s)
  case (Cons e s')
  show ?thesis
  proof (cases "map_of rs e")
    case (Some good)
    then have "(e, good) \<in> set rs'" using assms(2) map_of_SomeD by fastforce
    with assms(1,3) have "good \<noteq> []" "hd good \<noteq> c" by (auto simp: codes_ok_def)
    with Some Cons show ?thesis by (auto simp: hd_append)
  qed (use Cons in auto)
qed simp

lemma replace_scan:
  assumes "codes_ok rs'" "set rs \<subseteq> set rs'" "(c, g) \<in> set rs'" "c \<notin> fst ` set rs"
  shows "replace_all (scan_codes rs s) [CHR ''%'', c] g = scan_codes ((c, g) # rs) s"
  using assms
proof (induction rs s rule: scan_codes.induct)
  case (3 rs a d s)
  have c: "c \<in> fst ` set rs'" using "3.prems"(3) by force
  note hd = hd_scan_codes [OF "3.prems"(1,2) c, of d s]
  show ?case
  proof (cases "a = CHR ''%''")
    case True
    show ?thesis
    proof (cases "map_of rs d")
      case (Some good)
      then have mem: "(d, good) \<in> set rs" by (rule map_of_SomeD)
      with "3.prems" have "d \<noteq> c" "CHR ''%'' \<notin> set good"
        by (auto simp: codes_ok_def rev_image_eqI)
      with Some True "3.IH"(2) [OF True Some] "3.prems" show ?thesis
        by (simp add: replace_all_plain)
    next
      case None
      show ?thesis
      proof (cases "d = c")
        case dc: True
        then have "d \<noteq> CHR ''%''" using "3.prems"(1,3) by (auto simp: codes_ok_def)
        then have "scan_codes rs (d # s) = d # scan_codes rs s" using hd by blast
        moreover have "replace_all (scan_codes rs (d # s)) [CHR ''%'', c] g = scan_codes ((c, g) # rs) (d # s)"
          using "3.IH"(1) [OF True None] "3.prems" by blast
        moreover have "scan_codes ((c, g) # rs) (d # s) = d # scan_codes ((c, g) # rs) s"
          using \<open>d \<noteq> CHR ''%''\<close> by (cases s) simp_all
        ultimately show ?thesis
          using True None dc \<open>d \<noteq> CHR ''%''\<close> by (simp add: has_prefix_def)
      next
        case False
        then have "\<not> has_prefix (CHR ''%'' # scan_codes rs (d # s)) [CHR ''%'', c]"
          using hd by (cases "scan_codes rs (d # s)") (auto simp: has_prefix_def)
        with True None False "3.IH"(1) [OF True None] "3.prems" show ?thesis by simp
      qed
    qed
  next
    case False
    with "3.IH"(3) "3.prems" show ?thesis by (simp add: has_prefix_def)
  qed
qed (auto simp: has_prefix_def)

lemma fold_replace_scan:
  assumes "codes_ok all" "set (rs @ seen) \<subseteq> set all" "distinct (map fst (rs @ seen))"
  shows "fold (\<lambda>(c, g) out. replace_all out [CHR ''%'', c] g) rs (scan_codes seen s) =
    scan_codes (rev rs @ seen) s"
  using assms
proof (induction rs arbitrary: seen)
  case (Cons cg rs)
  obtain c g where cg: "cg = (c, g)" by (cases cg)
  have "replace_all (scan_codes seen s) [CHR ''%'', c] g = scan_codes ((c, g) # seen) s"
    using Cons.prems by (intro replace_scan [OF Cons.prems(1)]) (auto simp: cg)
  with Cons.IH [of "(c, g) # seen"] Cons.prems show ?case by (simp add: cg)
qed simp

lemma scan_codes_Nil [simp]: "scan_codes [] s = s"
  by (induction "[] :: (char \<times> string) list" s rule: scan_codes.induct) auto

lemma scan_codes_cong: "map_of rs = map_of rs' \<Longrightarrow> scan_codes rs s = scan_codes rs' s"
  by (induction rs s rule: scan_codes.induct) (auto split: option.split)

lemma codes_ok_strftime: "codes_ok strftime_replacements"
  by (simp add: codes_ok_def strftime_replacements_def)

lemma FormatStrftime_scan:
  assumes "mset rs = mset strftime_replacements"
  shows "FormatStrftime rs s = scan_codes strftime_replacements s"
proof -
  have d: "distinct (map fst strftime_replacements)" by (simp add: strftime_replacements_def)
  from assms have m: "mset (map fst rs) = mset (map fst strftime_replacements)" by simp
  from mset_eq_imp_distinct_iff [OF m] d have dist: "distinct (map fst rs)" by simp
  have sets: "set rs = set strftime_replacements" using assms by (metis set_mset_mset)
  have "FormatStrftime rs s = scan_codes (rev rs) s"
    using fold_replace_scan [OF codes_ok_strftime, of rs "[]" s] sets dist
    by (simp add: FormatStrftime_def)
  moreover have "map_of (rev rs) = map_of strftime_replacements"
    using dist d sets by (intro map_of_eqI) (auto simp: rev_map [symmetric])
  ultimately show ?thesis using scan_codes_cong by metis
qed

section \<open>groupColumns\<close>

definition columnIDSeparator :: string where
  "columnIDSeparator = [CHR 0xEE, CHR 0x80, CHR 0x80]"

definition column_id :: "inflated_column \<Rightarrow> string" where
  "column_id c = col_name (ic_column c) @ columnIDSeparator @ col_build (ic_column c)"

definition joinHeaders :: "string list \<Rightarrow> string" where
  "joinHeaders headers =
     str_join (sort (remdups (filter (\<lambda>v. v \<noteq> []) (concat (map (\<lambda>h. str_split h ''||'') headers))))) ''||''"

text \<open>The extra headers of a later column \<open>vs\<close> merged into those of the group, from index \<open>i\<close> on.\<close>

fun merge_extra :: "column_header list \<Rightarrow> nat \<Rightarrow> string list \<Rightarrow> string list \<Rightarrow> string list" where
  "merge_extra hdrs i extra [] = extra"
| "merge_extra hdrs i [] (v # vs) = v # merge_extra hdrs (Suc i) [] vs"
| "merge_extra hdrs i (e # extra) (v # vs) =
     (if v = [] \<or> v = e then e
      else if e = [] then v
      else if i < length hdrs \<and> hdr_list_all_values (hdrs ! i) then joinHeaders [e, v]
      else ''*'') # merge_extra hdrs (Suc i) extra vs"

definition merge_header :: "natural_less \<Rightarrow> column_header list \<Rightarrow> column \<Rightarrow> column \<Rightarrow> column" where
  "merge_header nl hdrs c col =
     (let col = (if col_started c < col_started col then col\<lparr>col_started := col_started c\<rparr> else col);
          col = (if \<not> nl (col_hint c) (col_hint col) then col\<lparr>col_hint := col_hint c\<rparr> else col)
      in col\<lparr>col_extra := merge_extra hdrs 0 (col_extra col) (col_extra c)\<rparr>)"

definition gather_cells :: "inflated_column list \<Rightarrow> (string, cell list) gomap" where
  "gather_cells grp = fold (\<lambda>c m. fold (\<lambda>(k, cell). append_value k cell) (ic_cells c) m) grp []"

definition merge_group :: "natural_less \<Rightarrow> test_group \<Rightarrow> inflated_column list \<Rightarrow> inflated_column" where
  "merge_group nl tg grp =
     (case grp of
        [c] \<Rightarrow> c
      | _ \<Rightarrow>
        \<lparr>ic_column = fold (\<lambda>c col. merge_header nl (tg_column_header tg) (ic_column c) col) (tl grp)
                        (ic_column (hd grp)),
         ic_cells =
           (let cells = gather_cells grp in
            if tg_ignore_old_results tg then map (\<lambda>(k, cs). (k, hd cs)) cells
            else fold (\<lambda>(name, cs) out. fold (\<lambda>(n, c). AList.update n c) (SplitCells name cs) out)
                   cells [])\<rparr>)"

definition groupColumns :: "natural_less \<Rightarrow> test_group \<Rightarrow> inflated_column list \<Rightarrow> inflated_column list" where
  "groupColumns nl tg cols =
     (let groups = fold (\<lambda>c. append_value (column_id c) c) cols [];
          ids = map column_id cols
      in map (\<lambda>i. merge_group nl tg (map_get i groups)) (rev (remdups (rev ids))))"

text \<open>The columns of one group, in order.\<close>

lemma map_of_groups:
  "map_of (fold (\<lambda>c. append_value (f c) c) cols m) i =
   (let vs = filter (\<lambda>c. f c = i) cols in
    if vs = [] then map_of m i
    else Some ((case map_of m i of Some us \<Rightarrow> us | None \<Rightarrow> []) @ vs))"
  by (induction cols arbitrary: m) (auto simp: map_of_append_value Let_def split: option.splits)

lemma map_get_groups: "map_get i (fold (\<lambda>c. append_value (f c) c) cols []) = filter (\<lambda>c. f c = i) cols"
  by (simp add: map_get_def map_of_groups Let_def)

lemma merge_header_simps [simp]:
  "col_name (merge_header nl h c col) = col_name col"
  "col_build (merge_header nl h c col) = col_build col"
  "col_started (merge_header nl h c col) = min (col_started col) (col_started c)"
  by (simp_all add: merge_header_def Let_def min_def)

lemma fold_merge_header:
  "col_name (fold (\<lambda>c col. merge_header nl h (ic_column c) col) cs col) = col_name col \<and>
   col_build (fold (\<lambda>c col. merge_header nl h (ic_column c) col) cs col) = col_build col \<and>
   col_started (fold (\<lambda>c col. merge_header nl h (ic_column c) col) cs col) =
     fold min (map (\<lambda>c. col_started (ic_column c)) cs) (col_started col)"
  by (induction cs arbitrary: col) (simp_all add: min.commute)

lemma merge_group_id:
  "grp \<noteq> [] \<Longrightarrow> column_id (merge_group nl tg grp) = column_id (hd grp)"
  by (cases grp rule: remdups_adj.cases) (simp_all add: merge_group_def column_id_def fold_merge_header)

lemma merge_group_single [simp]: "merge_group nl tg [c] = c"
  by (simp add: merge_group_def)

lemma merge_group_started:
  "grp \<noteq> [] \<Longrightarrow> col_started (ic_column (merge_group nl tg grp)) =
     Min ((\<lambda>c. col_started (ic_column c)) ` set grp)"
proof (cases grp rule: remdups_adj.cases)
  case (3 a b r)
  have "col_started (ic_column (merge_group nl tg grp)) =
      fold min (map (\<lambda>c. col_started (ic_column c)) (b # r)) (col_started (ic_column a))"
    by (simp only: 3 merge_group_def list.case list.sel inflated_column.simps fold_merge_header)
  also have "\<dots> = Min (set (map (\<lambda>c. col_started (ic_column c)) grp))"
    unfolding 3 by (metis Min.set_eq_fold list.simps(9))
  finally show ?thesis by simp
qed simp_all

definition first_occurrences :: "'a list \<Rightarrow> 'a list" where
  "first_occurrences xs = rev (remdups (rev xs))"

lemma first_occurrences_simps [simp]:
  "set (first_occurrences xs) = set xs" "distinct (first_occurrences xs)"
  "distinct xs \<Longrightarrow> first_occurrences xs = xs"
  by (simp_all add: first_occurrences_def distinct_remdups_id)

lemma groupColumns_groups:
  "groupColumns nl tg cols =
   map (\<lambda>i. merge_group nl tg (filter (\<lambda>c. column_id c = i) cols)) (first_occurrences (map column_id cols))"
  by (simp add: groupColumns_def Let_def map_get_groups first_occurrences_def)

lemma groupColumns_ids:
  "map column_id (groupColumns nl tg cols) = first_occurrences (map column_id cols)"
proof -
  have "column_id (merge_group nl tg (filter (\<lambda>c. column_id c = i) cols)) = i"
    if "i \<in> set (first_occurrences (map column_id cols))" for i
  proof -
    from that have ne: "filter (\<lambda>c. column_id c = i) cols \<noteq> []"
      by (auto simp: filter_empty_conv)
    have "hd (filter (\<lambda>c. column_id c = i) cols) \<in> set (filter (\<lambda>c. column_id c = i) cols)"
      using ne by (rule hd_in_set)
    with merge_group_id [OF ne] show ?thesis by simp
  qed
  then have "map (\<lambda>i. column_id (merge_group nl tg (filter (\<lambda>c. column_id c = i) cols)))
      (first_occurrences (map column_id cols)) = first_occurrences (map column_id cols)"
    by (intro map_idI)
  then show ?thesis by (simp add: groupColumns_groups comp_def)
qed

text \<open>Grouping grouped columns changes nothing.\<close>

lemma groupColumns_distinct:
  assumes "distinct (map column_id cols)"
  shows "groupColumns nl tg cols = cols"
proof -
  have "filter (\<lambda>d. column_id d = column_id c) cols = [c]" if "c \<in> set cols" for c
  proof -
    from that obtain xs ys where cs: "cols = xs @ c # ys" by (meson split_list)
    with assms have "\<forall>d \<in> set xs \<union> set ys. column_id d \<noteq> column_id c"
      by (auto simp: image_iff)
    then show ?thesis by (simp add: cs filter_empty_conv)
  qed
  then show ?thesis
    using assms by (simp add: groupColumns_groups comp_def map_idI)
qed

section \<open>ConstructGrid\<close>

text \<open>\<open>days\<close> gives nanoseconds.\<close>

definition days :: "float64 \<Rightarrow> int" where
  "days d = trunc (24 * d) * 3600 * 1000000000"

definition with_stats :: "float64 \<Rightarrow> inflated_column \<Rightarrow> inflated_column" where
  "with_stats brokenThreshold col =
     (if brokenThreshold > 0
      then col\<lparr>ic_column := (ic_column col)\<lparr>col_stats := columnStats (Some (ic_cells col)) brokenThreshold\<rparr>\<rparr>
      else col)"

text \<open>The issues of a row and the given ones, each once, largest first.\<close>

definition with_issues :: "natural_less \<Rightarrow> (string, string list) gomap \<Rightarrow> row \<Rightarrow> row" where
  "with_issues nl issues r =
     r\<lparr>row_issues := slice_stable (\<lambda>a b. \<not> nl a b)
        (remdups (row_issues r @ map_get (row_name r) issues))\<rparr>"

definition tidy_row :: "natural_less \<Rightarrow> row \<Rightarrow> row" where
  "tidy_row nl r =
     r\<lparr>row_user_property := (if list_ex (\<lambda>u. u \<noteq> []) (row_user_property r) then row_user_property r else []),
       row_metric := slice_stable nl (row_metric r),
       row_metrics := slice_stable (\<lambda>a b. nl (m_name a) (m_name b)) (row_metrics r)\<rparr>"

definition ConstructGrid ::
    "natural_less \<Rightarrow> inflated_column list \<Rightarrow> (string, string list) gomap \<Rightarrow> int \<Rightarrow> int \<Rightarrow> bool \<Rightarrow> string \<Rightarrow>
     float64 \<Rightarrow> column_header list \<Rightarrow> grid go" where
  "ConstructGrid nl cols issues failuresToAlert passesToDisableAlert useCommitAsBuildID userProperty
      brokenThreshold columnHeader =
     (let passesToDisableAlert = (if failuresToAlert > 0 \<and> passesToDisableAlert = 0 then 1
                                  else passesToDisableAlert) in
      go_bind (go_fold AppendColumn empty_grid (map (with_stats brokenThreshold) cols)) (\<lambda>grid.
      let grid = dropEmptyRows grid;
          rows = map (with_issues nl issues) (grid_rows grid)
      in go_bind (alertRows (grid_columns grid) rows failuresToAlert passesToDisableAlert
                    useCommitAsBuildID userProperty columnHeader) (\<lambda>rows.
         let rows = slice_stable (\<lambda>a b. nl (row_name a) (row_name b)) rows
         in Inr (grid\<lparr>grid_rows := map (tidy_row nl) rows\<rparr>))))"

definition constructGridFromGroupConfig ::
    "natural_less \<Rightarrow> test_group \<Rightarrow> inflated_column list \<Rightarrow> (string, string list) gomap \<Rightarrow> grid go" where
  "constructGridFromGroupConfig nl grp cols issues =
     ConstructGrid nl cols issues (tg_num_failures_to_alert grp) (tg_num_passes_to_disable_alert grp)
       (tg_use_kubernetes_client grp \<or> get_gcs_config grp \<noteq> None) (tg_user_property grp) 0
       (tg_column_header grp)"

subsection \<open>What the constructed grid holds\<close>

text \<open>A row with the same cells, perhaps with its metrics in another order.\<close>

definition row_equiv :: "row \<Rightarrow> row \<Rightarrow> bool" where
  "row_equiv r r' \<longleftrightarrow>
     row_name r' = row_name r \<and> row_id r' = row_id r \<and> row_results r' = row_results r \<and>
     row_icons r' = row_icons r \<and> row_messages r' = row_messages r \<and>
     row_cell_ids r' = row_cell_ids r \<and> row_properties r' = row_properties r \<and>
     (row_user_property r' = row_user_property r \<or>
      row_user_property r' = [] \<and> (\<forall>u \<in> set (row_user_property r). u = [])) \<and>
     set (row_metrics r') = set (row_metrics r) \<and> distinct (map m_name (row_metrics r')) \<and>
     row_metric r' = map m_name (row_metrics r')"

lemma metric_val_set:
  assumes "distinct (map m_name ms)"
  shows "metric_val ms n j = Some v \<longleftrightarrow> (\<exists>m \<in> set ms. m_name m = n \<and> metric_at m j = Some v)"
  using assms
proof (induction ms)
  case (Cons m ms)
  then show ?case by (auto simp: image_iff)
qed simp

lemma metric_val_same_set:
  assumes "set ms = set ms'" "distinct (map m_name ms)" "distinct (map m_name ms')"
  shows "metric_val ms n j = metric_val ms' n j"
  using metric_val_set [OF assms(2), of n j] metric_val_set [OF assms(3), of n j] assms(1)
  by (metis option.exhaust)

lemma row_equiv_cells:
  assumes "packed r" "row_equiv r r'"
  shows "inflatable r'" "row_statuses r' = row_statuses r"
    "i < length (row_statuses r) \<Longrightarrow> same_cell (cell_at r' i) (cell_at r i)"
proof -
  from assms have st: "row_statuses r' = row_statuses r"
    by (simp add: row_equiv_def row_statuses_def)
  then show "row_statuses r' = row_statuses r" .
  show "inflatable r'"
    using packed_inflatable [OF assms(1)] assms(2) st by (simp add: row_equiv_def inflatable_def)
  assume i: "i < length (row_statuses r)"
  let ?k = "filled (take i (row_statuses r))"
  have "map_of (metrics_at (row_metrics r') i) = map_of (metrics_at (row_metrics r) i)"
    using assms metric_val_same_set [of "row_metrics r'" "row_metrics r"]
    by (auto simp: row_equiv_def packed_def Let_def map_of_metrics_at)
  moreover have "(if ?k < length (row_user_property r') then row_user_property r' ! ?k else []) =
      (if ?k < length (row_user_property r) then row_user_property r ! ?k else [])"
  proof (cases "row_user_property r' = row_user_property r")
    case False
    with assms(2) have "row_user_property r' = []" "\<forall>u \<in> set (row_user_property r). u = []"
      by (simp_all add: row_equiv_def)
    then show ?thesis by (metis length_greater_0_conv less_zeroE list.size(3) nth_mem)
  qed simp
  ultimately show "same_cell (cell_at r' i) (cell_at r i)"
    using assms(2) by (simp add: same_cell_def cell_at_def st Let_def row_equiv_def)
qed

lemma packed_issues [simp]: "packed (r\<lparr>row_issues := x\<rparr>) = packed r"
  by (simp add: packed_def)

lemma row_equiv_tidy:
  assumes "packed r"
  shows "row_equiv r (tidy_row nl ((with_issues nl issues r)\<lparr>row_alert := a\<rparr>))"
proof -
  from assms have m: "row_metric r = map m_name (row_metrics r)" "distinct (map m_name (row_metrics r))"
    by (simp_all add: packed_def Let_def)
  have "slice_stable nl (map m_name (row_metrics r)) =
      map m_name (slice_stable (\<lambda>a b. nl (m_name a) (m_name b)) (row_metrics r))"
    by (simp add: map_slice_stable)
  with m show ?thesis
    by (auto simp: row_equiv_def tidy_row_def with_issues_def list_ex_iff)
qed

lemma go_fold_AppendColumn:
  assumes "holds pre g" "\<forall>c \<in> set cols. cells_ok c"
  shows "\<exists>g'. go_fold AppendColumn g cols = Inr g' \<and> holds (pre @ cols) g'"
  using assms
proof (induction cols arbitrary: pre g)
  case (Cons c cols)
  from AppendColumn_holds [OF Cons.prems(1), of c] Cons.prems(2) obtain g1 where
    "AppendColumn g c = Inr g1" "holds (pre @ [c]) g1"
    by auto
  with Cons.IH [of "pre @ [c]" g1] Cons.prems(2) show ?case by simp
qed simp

lemma holds_empty: "holds [] empty_grid"
  by (simp add: holds_def empty_grid_def col_names_def)

lemma alertRows_total:
  assumes "\<forall>r \<in> set rows. packed r" "0 \<le> k"
  shows "\<exists>as. length as = length rows \<and> alertRows cols rows k p commit user hdrs =
    Inr (map2 (\<lambda>r a. r\<lparr>row_alert := a\<rparr>) rows as)"
  using assms
proof (induction rows)
  case (Cons r rows)
  then obtain as where
    as: "length as = length rows" "alertRows cols rows k p commit user hdrs =
      Inr (map2 (\<lambda>r a. r\<lparr>row_alert := a\<rparr>) rows as)"
    by auto
  have "\<exists>a. alertRow cols r k p commit user hdrs = Inr a"
  proof (cases "k = 0")
    case False
    with Cons.prems alertRow_reports [of r k cols p commit user hdrs] show ?thesis by auto
  qed (simp add: alertRow_def)
  then obtain a where "alertRow cols r k p commit user hdrs = Inr a" by blast
  with as show ?case
    by (intro exI [of _ "a # as"]) (simp add: alertRows_def)
qed (simp add: alertRows_def)

text \<open>
  The cells a reader of the grid finds: those of the columns, as far as a row stores them, for
  every name that has a result in some column.
\<close>

definition shown_names :: "inflated_column list \<Rightarrow> string set" where
  "shown_names cols =
     {n. \<exists>col \<in> set cols. c_result (cell_of col n) \<noteq> NO_RESULT}"

definition shows_cells :: "inflated_column list \<Rightarrow> grid \<Rightarrow> bool" where
  "shows_cells cols g \<longleftrightarrow>
     grid_columns g = map ic_column cols \<and> distinct (map row_name (grid_rows g)) \<and>
     row_name ` set (grid_rows g) = shown_names cols \<and>
     (\<forall>r \<in> set (grid_rows g).
        inflatable r \<and> counts_ok (row_results r) \<and>
        (hasCellID (row_name r) \<or> row_cell_ids r = []) \<and>
        length (row_statuses r) = length cols \<and> row_id r = row_ident (row_name r) cols \<and>
        (\<forall>i < length cols. same_cell (cell_at r i)
           (stored (row_name r) (row_id r) (cell_of (cols ! i) (row_name r)))))"

lemma shows_cells_grid_ok: "shows_cells cols g \<Longrightarrow> grid_ok g"
  by (auto simp: shows_cells_def grid_ok_def)

lemma same_cell_result: "same_cell a b \<Longrightarrow> c_result a = c_result b"
  by (cases a; cases b) (simp add: same_cell_def)

lemma cell_at_result: "c_result (cell_at r i) = row_statuses r ! i"
  by (simp add: cell_at_def Let_def zero_cell_def)

lemma stored_result: "c_result (stored n i c) = c_result c"
  by (simp add: stored_def zero_cell_def)

lemma row_holds_filled:
  assumes "row_holds cols (length cols) r"
  shows "filled (row_statuses r) \<noteq> 0 \<longleftrightarrow> row_name r \<in> shown_names cols"
proof -
  from assms have len: "length (row_statuses r) = length cols"
    and res: "\<forall>i < length cols. row_statuses r ! i = c_result (cell_of (cols ! i) (row_name r))"
    by (auto simp: row_holds_def dest!: same_cell_result simp: cell_at_result stored_result)
  have "filled (row_statuses r) \<noteq> 0 \<longleftrightarrow> (\<exists>i < length cols. row_statuses r ! i \<noteq> NO_RESULT)"
    unfolding filled_def by (simp add: filter_empty_conv all_set_conv_all_nth len)
  also have "\<dots> \<longleftrightarrow> (\<exists>i < length cols. c_result (cell_of (cols ! i) (row_name r)) \<noteq> NO_RESULT)"
    by (metis res)
  also have "\<dots> \<longleftrightarrow> row_name r \<in> shown_names cols"
    unfolding shown_names_def mem_Collect_eq by (metis in_set_conv_nth)
  finally show ?thesis .
qed

lemma cell_of_with_stats [simp]: "cell_of (with_stats t c) n = cell_of c n"
  by (simp add: with_stats_def cell_of_def)

lemma cells_ok_with_stats [simp]: "cells_ok (with_stats t c) = cells_ok c"
  by (simp add: with_stats_def cells_ok_def)

lemma shown_names_sub: "shown_names cols \<subseteq> col_names cols"
proof
  fix n assume "n \<in> shown_names cols"
  then obtain col where "col \<in> set cols" "c_result (cell_of col n) \<noteq> NO_RESULT"
    by (auto simp: shown_names_def)
  moreover from this have "n \<in> fst ` set (ic_cells col)"
    using cell_of_absent [of n col] by (metis emptyCell_simps(1))
  ultimately show "n \<in> col_names cols"
    unfolding col_names_def by blast
qed

lemma row_equiv_holds:
  assumes "row_holds cols (length cols) r" "row_equiv r r'"
  shows "inflatable r' \<and> counts_ok (row_results r') \<and>
    (hasCellID (row_name r') \<or> row_cell_ids r' = []) \<and> length (row_statuses r') = length cols \<and>
    row_id r' = row_ident (row_name r') cols \<and>
    (\<forall>i < length cols. same_cell (cell_at r' i)
       (stored (row_name r') (row_id r') (cell_of (cols ! i) (row_name r'))))"
proof -
  from assms(1) have r: "packed r" "length (row_statuses r) = length cols"
    "row_id r = row_ident (row_name r) cols"
    "\<forall>i < length cols. same_cell (cell_at r i) (stored (row_name r) (row_id r) (cell_of (cols ! i) (row_name r)))"
    unfolding row_holds_def by blast+
  from assms(2) have n: "row_name r' = row_name r" "row_id r' = row_id r" "row_results r' = row_results r"
    "row_cell_ids r' = row_cell_ids r"
    by (simp_all add: row_equiv_def)
  have "counts_ok (row_results r)" "hasCellID (row_name r) \<or> row_cell_ids r = []"
    using r(1) by (simp_all add: packed_def Let_def split: if_splits)
  note e = row_equiv_cells [OF r(1) assms(2)]
  have "same_cell (cell_at r' i) (stored (row_name r) (row_id r) (cell_of (cols ! i) (row_name r)))"
    if "i < length cols" for i
    using same_cell_trans [OF e(3)] r(2,4) that by simp
  with e(1,2) r n \<open>counts_ok (row_results r)\<close> \<open>hasCellID (row_name r) \<or> _\<close> show ?thesis by simp
qed

theorem ConstructGrid_shows:
  assumes "\<forall>c \<in> set cols. cells_ok c" "0 \<le> failures"
  shows "\<exists>g. ConstructGrid nl cols issues failures passes commit user threshold hdrs = Inr g \<and>
    shows_cells (map (with_stats threshold) cols) g"
proof -
  let ?cols = "map (with_stats threshold) cols"
  let ?p = "if failures > 0 \<and> passes = 0 then 1 else passes"
  have "\<forall>c \<in> set ?cols. cells_ok c" using assms(1) by simp
  from go_fold_AppendColumn [OF holds_empty this] obtain g where
    g: "go_fold AppendColumn empty_grid ?cols = Inr g" "holds ?cols g"
    by auto
  let ?rows = "grid_rows (dropEmptyRows g)"
  have rows: "?rows = filter (\<lambda>r. row_name r \<in> shown_names ?cols) (grid_rows g)"
    using g(2) row_holds_filled [of ?cols]
    by (auto simp: dropEmptyRows_def holds_def any_result_Iter intro!: filter_cong)
  have hold: "row_holds ?cols (length ?cols) r" if "r \<in> set ?rows" for r
    using g(2) that rows by (simp add: holds_def)
  have dist: "distinct (map row_name ?rows)"
    using g(2) rows by (simp add: holds_def distinct_map_filter)
  have names: "row_name ` set ?rows = shown_names ?cols"
    using g(2) shown_names_sub [of ?cols] unfolding rows holds_def by auto
  let ?ri = "map (with_issues nl issues) ?rows"
  have pk: "\<forall>r \<in> set ?ri. packed r"
    using hold by (auto simp: with_issues_def row_holds_def)
  from alertRows_total [OF pk assms(2), of "grid_columns (dropEmptyRows g)" ?p commit user hdrs] obtain as where
    as: "length as = length ?rows" "alertRows (grid_columns (dropEmptyRows g)) ?ri failures ?p commit user hdrs =
      Inr (map2 (\<lambda>r a. r\<lparr>row_alert := a\<rparr>) ?ri as)"
    by auto
  define ra where "ra = map2 (\<lambda>r a. r\<lparr>row_alert := a\<rparr>) ?ri as"
  define sorted where "sorted = slice_stable (\<lambda>a b. nl (row_name a) (row_name b)) ra"
  define out where "out = map (tidy_row nl) sorted"
  let ?g = "(dropEmptyRows g)\<lparr>grid_rows := out\<rparr>"
  have con: "ConstructGrid nl cols issues failures passes commit user threshold hdrs = Inr ?g"
    unfolding ConstructGrid_def Let_def g(1) go_bind_Inr as(2) out_def sorted_def ra_def ..
  have "map row_name ra = map row_name ?rows"
    using as(1) by (simp add: list_eq_iff_nth_eq with_issues_def ra_def)
  moreover have "mset (map row_name sorted) = mset (map row_name ra)"
    by (simp only: sorted_def mset_map mset_slice_stable)
  moreover have "map row_name out = map row_name sorted"
    by (simp add: out_def tidy_row_def)
  ultimately have "mset (map row_name out) = mset (map row_name ?rows)" by simp
  note outs = mset_eq_imp_distinct_iff [OF this] mset_eq_setD [OF this]
  have dout: "distinct (map row_name out)"
    using outs(1) dist by simp
  have nout: "row_name ` set out = shown_names ?cols"
    using outs(2) names by simp
  have eqv: "\<exists>r \<in> set ?rows. row_equiv r r'" if r': "r' \<in> set out" for r'
  proof -
    have "set sorted = set ra" by (simp add: sorted_def)
    with r' obtain r a where r: "r \<in> set ?rows" "r' = tidy_row nl ((with_issues nl issues r)\<lparr>row_alert := a\<rparr>)"
      by (auto simp: out_def ra_def dest!: set_zip_leftD)
    have "packed r" using hold [OF r(1)] by (simp add: row_holds_def)
    from row_equiv_tidy [OF this] r show ?thesis by blast
  qed
  have gr: "grid_rows ?g = out" by simp
  have gc: "grid_columns ?g = map ic_column ?cols"
    using g(2) by (simp add: holds_def dropEmptyRows_def)
  have shown: "inflatable r' \<and> counts_ok (row_results r') \<and>
      (hasCellID (row_name r') \<or> row_cell_ids r' = []) \<and> length (row_statuses r') = length ?cols \<and>
      row_id r' = row_ident (row_name r') ?cols \<and>
      (\<forall>i < length ?cols. same_cell (cell_at r' i)
         (stored (row_name r') (row_id r') (cell_of (?cols ! i) (row_name r'))))"
    if r': "r' \<in> set out" for r'
    using eqv [OF r'] row_equiv_holds [OF hold] by blast
  have "shows_cells ?cols ?g"
    unfolding shows_cells_def gr using gc dout nout shown by blast
  with con show ?thesis by blast
qed

text \<open>
  The alerts a constructed grid shows: each row has the alert that \<^const>\<open>alertRow\<close> reports for it with the
  thresholds asked for, and it has one exactly when enough failures in a row come before enough passes.
\<close>

definition shows_alerts ::
    "inflated_column list \<Rightarrow> int \<Rightarrow> int \<Rightarrow> bool \<Rightarrow> string \<Rightarrow> column_header list \<Rightarrow> grid \<Rightarrow> bool" where
  "shows_alerts cols failures passes commit user hdrs g \<longleftrightarrow>
     (let p = (if failures > 0 \<and> passes = 0 then 1 else passes) in
      \<forall>r \<in> set (grid_rows g).
        alertRow (map ic_column cols) r failures p commit user hdrs = Inr (row_alert r) \<and>
        (0 \<le> passes \<longrightarrow>
          (row_alert r \<noteq> None \<longleftrightarrow> 0 < failures \<and>
             outage (nat failures) (nat p) (relevant (map (\<lambda>c. c_result (cell_of c (row_name r))) cols)))))"

lemma alertRow_cong:
  assumes "row_results r' = row_results r" "row_cell_ids r' = row_cell_ids r" "row_messages r' = row_messages r"
    and "\<And>j. (if j < length (row_user_property r') \<and> row_user_property r' ! j \<noteq> [] then [(user, row_user_property r' ! j)] else []) =
      (if j < length (row_user_property r) \<and> row_user_property r ! j \<noteq> [] then [(user, row_user_property r ! j)] else [])"
  shows "alertRow cols r' k p commit user hdrs = alertRow cols r k p commit user hdrs"
  unfolding alertRow_def Let_def assms ..

lemma alertRow_tidy:
  "alertRow cols (tidy_row nl r) k p commit user hdrs = alertRow cols r k p commit user hdrs"
  by (rule alertRow_cong) (auto simp: tidy_row_def list_ex_iff)

lemma alertRow_alert:
  "alertRow cols (r\<lparr>row_alert := a\<rparr>) k p commit user hdrs = alertRow cols r k p commit user hdrs"
  by (rule alertRow_cong) simp_all

lemma ConstructGrid_rows:
  assumes "ConstructGrid nl cols issues failures passes commit user threshold hdrs = Inr g" "r \<in> set (grid_rows g)"
    and "\<forall>c \<in> set cols. cells_ok c"
  defines "p \<equiv> if failures > 0 \<and> passes = 0 then 1 else passes"
  shows "\<exists>r0. packed r0 \<and> length (row_statuses r0) = length cols \<and> row_statuses r = row_statuses r0 \<and>
    alertRow (grid_columns g) r0 failures p commit user hdrs = Inr (row_alert r) \<and>
    alertRow (grid_columns g) r failures p commit user hdrs = Inr (row_alert r)"
proof -
  let ?cols = "map (with_stats threshold) cols"
  have "\<forall>c \<in> set ?cols. cells_ok c" using assms(3) by simp
  from go_fold_AppendColumn [OF holds_empty this] obtain g0 where
    g0: "go_fold AppendColumn empty_grid ?cols = Inr g0" "holds ?cols g0" by auto
  let ?ri = "map (with_issues nl issues) (grid_rows (dropEmptyRows g0))"
  from assms(1) obtain rows where
    rows: "alertRows (grid_columns (dropEmptyRows g0)) ?ri failures p commit user hdrs = Inr rows"
    and g: "g = (dropEmptyRows g0)\<lparr>grid_rows := map (tidy_row nl) (slice_stable (\<lambda>a b. nl (row_name a) (row_name b)) rows)\<rparr>"
    by (auto simp: ConstructGrid_def g0(1) p_def Let_def go_simps)
  from assms(2) obtain r1 where r1: "r1 \<in> set rows" "r = tidy_row nl r1" by (auto simp: g)
  from r1(1) obtain j where j: "j < length rows" "rows ! j = r1" by (auto simp: in_set_conv_nth)
  note run = rows [unfolded alertRows_def]
  have len: "length rows = length ?ri" by (rule go_map_length [OF run])
  from j go_map_nth [OF run, of j] len obtain a where
    a: "alertRow (grid_columns (dropEmptyRows g0)) (?ri ! j) failures p commit user hdrs = Inr a"
      "r1 = (?ri ! j)\<lparr>row_alert := a\<rparr>"
    by (auto simp: go_simps)
  let ?r0 = "?ri ! j"
  have "?r0 \<in> set ?ri" using j len by (metis nth_mem)
  then obtain rg where rg: "rg \<in> set (grid_rows g0)" "?r0 = with_issues nl issues rg"
    by (auto simp: dropEmptyRows_def)
  with g0(2) have "row_holds ?cols (length ?cols) rg" by (simp add: holds_def)
  then have pk: "packed ?r0" "length (row_statuses ?r0) = length cols"
    unfolding rg(2) by (simp_all add: row_holds_def with_issues_def row_statuses_def)
  have "row_statuses r = row_statuses ?r0" by (simp add: r1(2) a(2) tidy_row_def row_statuses_def)
  moreover have "row_alert r = a" by (simp add: r1(2) a(2) tidy_row_def)
  moreover have "grid_columns g = grid_columns (dropEmptyRows g0)" by (simp add: g)
  ultimately show ?thesis using pk a(1) r1(2) a(2)
    by (intro exI [of _ ?r0]) (simp add: alertRow_tidy alertRow_alert)
qed

lemma ConstructGrid_alerts:
  assumes run: "ConstructGrid nl cols issues failures passes commit user threshold hdrs = Inr g"
    and cols: "\<forall>c \<in> set cols. cells_ok c" "0 \<le> failures" and shown: "shows_cells (map (with_stats threshold) cols) g"
  shows "shows_alerts (map (with_stats threshold) cols) failures passes commit user hdrs g"
  unfolding shows_alerts_def Let_def
proof (intro ballI conjI impI)
  let ?p = "if failures > 0 \<and> passes = 0 then 1 else passes" and ?cols = "map (with_stats threshold) cols"
  fix r
  assume r: "r \<in> set (grid_rows g)"
  from ConstructGrid_rows [OF run r cols(1)] obtain r0 where
    r0: "packed r0" "length (row_statuses r0) = length cols" "row_statuses r = row_statuses r0"
      "alertRow (grid_columns g) r0 failures ?p commit user hdrs = Inr (row_alert r)"
      "alertRow (grid_columns g) r failures ?p commit user hdrs = Inr (row_alert r)" by blast
  have gc: "grid_columns g = map ic_column ?cols" using shown by (simp add: shows_cells_def)
  with r0(5) show "alertRow (map ic_column ?cols) r failures ?p commit user hdrs = Inr (row_alert r)" by simp
  assume passes: "0 \<le> passes"
  have st: "row_statuses r0 = map (\<lambda>c. c_result (cell_of c (row_name r))) ?cols"
  proof (rule nth_equalityI)
    fix i assume "i < length (row_statuses r0)"
    then have i: "i < length ?cols" using r0(2) by simp
    with shown r have "same_cell (cell_at r i) (stored (row_name r) (row_id r) (cell_of (?cols ! i) (row_name r)))"
      unfolding shows_cells_def by blast
    from same_cell_result [OF this] i show "row_statuses r0 ! i = map (\<lambda>c. c_result (cell_of c (row_name r))) ?cols ! i"
      by (simp add: cell_at_result stored_result r0(3))
  qed (simp add: r0(2))
  show "(row_alert r \<noteq> None) = (0 < failures \<and>
      outage (nat failures) (nat ?p) (relevant (map (\<lambda>c. c_result (cell_of c (row_name r))) ?cols)))"
  proof (cases "failures = 0")
    case True
    with r0(4) show ?thesis by (simp add: alertRow_def)
  next
    case False
    with cols(2) passes have k: "0 < nat failures" "0 < nat ?p" "int (nat failures) = failures" "int (nat ?p) = ?p" by auto
    have "length (grid_columns g) \<le> length (row_statuses r0)" by (simp add: gc r0(2))
    from alertRow_iff_outage [OF r0(1) k(1,2) this, of commit user hdrs, unfolded k(3,4)] r0(4)
    have "row_alert r \<noteq> None \<longleftrightarrow>
      outage (nat failures) (nat ?p) (relevant (take (length (grid_columns g)) (row_statuses r0)))" by simp
    with False cols(2) show ?thesis by (simp add: gc st del: map_map)
  qed
qed

end
