(* ===== verification/Update_Group.thy ===== *)
theory Update_Group
  imports Columns
begin

text \<open>
  One update of a test group: listing builds since the newest known one (\<open>ListBuilds\<close>,
  \<open>hintStarted\<close>), reading them into columns (\<open>readColumns\<close> of \<open>pkg/updater/read.go\<close>), and
  \<open>InflateDropAppend\<close> with \<open>shrinkGridInline\<close> of \<open>pkg/updater/updater.go\<close>, which rewrites the
  stored grid.  Protobuf encoding with compression is the argument \<open>marshal\<close>.
\<close>

section \<open>Builds\<close>

record build =
  b_path :: string
  b_base_name :: string

record object_attrs =
  oa_name :: string
  oa_prefix :: string
  oa_metadata :: "(string, string) gomap"

definition readLink :: "object_attrs \<Rightarrow> string" where
  "readLink objAttrs =
     (case map_of (oa_metadata objAttrs) ''x-goog-meta-link'' of
        Some link \<Rightarrow> link
      | None \<Rightarrow> (case map_of (oa_metadata objAttrs) ''link'' of Some link \<Rightarrow> link | None \<Rightarrow> []))"

text \<open>\<open>path.Base\<close>: the last element, without trailing slashes.\<close>

definition path_base :: "string \<Rightarrow> string" where
  "path_base p =
     (if p = [] then ''.''
      else let q = rev (dropWhile (\<lambda>c. c = CHR ''/'') (rev p)) in
        if q = [] then ''/'' else rev (takeWhile (\<lambda>c. c \<noteq> CHR ''/'') (rev q)))"

text \<open>
  The order of \<open>Sort\<close>.  \<open>natural_order\<close> is what \<open>sortorder.NaturalLess\<close> documents: numbers are
  compared by value, other text bytewise, and leading zeros break ties.
\<close>

definition natural_order :: "natural_less \<Rightarrow> bool" where
  "natural_order nl \<longleftrightarrow>
     (\<forall>a. \<not> nl a a) \<and> (\<forall>a b c. nl a b \<longrightarrow> nl b c \<longrightarrow> nl a c) \<and> (\<forall>a b. a \<noteq> b \<longrightarrow> nl a b \<or> nl b a)"

definition Sort :: "natural_less \<Rightarrow> build list \<Rightarrow> build list" where
  "Sort nl builds =
     slice_stable (\<lambda>a b. \<not> nl (b_base_name a) (b_base_name b) \<and> b_base_name a \<noteq> b_base_name b) builds"

lemma natural_order_greater:
  "natural_order nl \<Longrightarrow> (\<not> nl a b \<and> a \<noteq> b) \<longleftrightarrow> nl b a"
  by (auto simp: natural_order_def)

lemma natural_order_asym: "natural_order nl \<Longrightarrow> nl a b \<Longrightarrow> \<not> nl b a"
  unfolding natural_order_def by blast

lemma natural_order_neg_trans:
  assumes "natural_order nl" "\<not> nl a b" "\<not> nl b c"
  shows "\<not> nl a c"
proof
  assume ac: "nl a c"
  show False
  proof (cases "b = c")
    case False
    then have "nl c b" using assms(1,3) unfolding natural_order_def by blast
    then have "nl a b" using assms(1) ac unfolding natural_order_def by blast
    with assms(2) show False by blast
  qed (use ac assms(2) in simp)
qed

lemma Sort_weak_order:
  "natural_order nl \<Longrightarrow>
   weak_order (\<lambda>a b. \<not> nl (b_base_name a) (b_base_name b) \<and> b_base_name a \<noteq> b_base_name b)"
  unfolding natural_order_greater
  by unfold_locales (auto dest: natural_order_asym natural_order_neg_trans)

lemma Sort_sorted:
  assumes "natural_order nl"
  shows "sorted_wrt (\<lambda>a b. \<not> nl (b_base_name a) (b_base_name b)) (Sort nl builds)"
proof -
  have "weak_order (\<lambda>a b :: build. nl (b_base_name b) (b_base_name a))"
    using Sort_weak_order [OF assms] by (simp add: natural_order_greater [OF assms])
  from weak_order.sorted_slice_stable [OF this, of builds] show ?thesis
    by (simp add: Sort_def natural_order_greater [OF assms])
qed

lemma set_Sort [simp]: "set (Sort nl builds) = set builds"
  by (simp add: Sort_def)

text \<open>
  The loop of \<open>ListBuilds\<close> over the listed objects; \<open>resolve_link\<close> and \<open>new_path\<close> are URL parsing.
\<close>

fun builds_of ::
    "(string \<Rightarrow> string go) \<Rightarrow> (string \<Rightarrow> string go) \<Rightarrow> string \<Rightarrow> object_attrs list \<Rightarrow> build list go" where
  "builds_of resolve_link new_path bucket [] = Inr []"
| "builds_of resolve_link new_path bucket (o' # os) =
     (if readLink o' \<noteq> [] then
        go_bind (resolve_link (trim_space (readLink o'))) (\<lambda>p.
        go_bind (builds_of resolve_link new_path bucket os) (\<lambda>bs.
        Inr (\<lparr>b_path = p, b_base_name = path_base (oa_name o')\<rparr> # bs)))
      else if oa_prefix o' = [] then builds_of resolve_link new_path bucket os
      else
        go_bind (new_path (''gs://'' @ bucket @ ''/'' @ oa_prefix o')) (\<lambda>p.
        go_bind (builds_of resolve_link new_path bucket os) (\<lambda>bs.
        Inr (\<lparr>b_path = p, b_base_name = path_base (oa_prefix o')\<rparr> # bs))))"

definition newer_than :: "natural_less \<Rightarrow> string \<Rightarrow> build list \<Rightarrow> build list" where
  "newer_than nl offsetBaseName bs =
     (if offsetBaseName \<noteq> []
      then takeWhile (\<lambda>b. \<not> (nl (b_base_name b) offsetBaseName \<or> b_base_name b = offsetBaseName)) bs
      else bs)"

definition ListBuilds ::
    "natural_less \<Rightarrow> (string \<Rightarrow> string go) \<Rightarrow> (string \<Rightarrow> string go) \<Rightarrow> string \<Rightarrow> string \<Rightarrow>
     object_attrs list \<Rightarrow> build list go" where
  "ListBuilds nl resolve_link new_path bucket offsetBaseName objs =
     go_bind (builds_of resolve_link new_path bucket objs)
       (\<lambda>all. Inr (newer_than nl offsetBaseName (Sort nl all)))"

text \<open>\<open>listBuilds\<close> of the updater over the paths of a group.\<close>

definition listBuilds :: "natural_less \<Rightarrow> (string \<Rightarrow> build list go) \<Rightarrow> string list \<Rightarrow> build list go" where
  "listBuilds nl list_path paths =
     go_bind (go_map list_path paths) (\<lambda>bss.
       Inr (if length paths > 1 then Sort nl (concat bss) else concat bss))"

lemma takeWhile_sorted_filter:
  "sorted_wrt R xs \<Longrightarrow> (\<And>x y. x \<in> set xs \<Longrightarrow> y \<in> set xs \<Longrightarrow> R x y \<Longrightarrow> P y \<Longrightarrow> P x) \<Longrightarrow>
   takeWhile P xs = filter P xs"
proof (induction xs)
  case (Cons a xs)
  have "takeWhile P xs = filter P xs"
    using Cons.prems by (intro Cons.IH) auto
  moreover have "filter P xs = []" if "\<not> P a"
    using Cons.prems(1) Cons.prems(2) [of a] that by (auto simp: filter_empty_conv)
  ultimately show ?case by simp
qed simp

text \<open>Exactly the builds after the offset, newest first.\<close>

lemma newer_than_spec:
  assumes "natural_order nl" "offset \<noteq> []"
  shows "newer_than nl offset (Sort nl builds) = filter (\<lambda>b. nl offset (b_base_name b)) (Sort nl builds)"
proof -
  let ?P = "\<lambda>b. \<not> (nl (b_base_name b) offset \<or> b_base_name b = offset)"
  have P: "?P = (\<lambda>b. nl offset (b_base_name b))"
    using assms(1) unfolding natural_order_def by blast
  have "takeWhile ?P (Sort nl builds) = filter ?P (Sort nl builds)"
    using assms(1) by (intro takeWhile_sorted_filter [OF Sort_sorted [OF assms(1)]])
      (unfold natural_order_def, metis)
  then show ?thesis using assms(2) unfolding newer_than_def P by simp
qed

text \<open>The largest hint of the known columns, from which listing goes on.\<close>

fun hint_loop :: "natural_less \<Rightarrow> string \<Rightarrow> inflated_column list \<Rightarrow> string" where
  "hint_loop nl hint [] = hint"
| "hint_loop nl hint (c # cs) =
     hint_loop nl (if nl hint (col_hint (ic_column c)) then col_hint (ic_column c) else hint) cs"

definition hintStarted :: "natural_less \<Rightarrow> inflated_column list \<Rightarrow> string" where
  "hintStarted nl cols =
     (case cols of [] \<Rightarrow> [] | c # cs \<Rightarrow> hint_loop nl (col_hint (ic_column c)) cs)"

lemma hint_loop_max:
  assumes "natural_order nl"
  shows "hint_loop nl h cs \<in> insert h (col_hint ` ic_column ` set cs) \<and>
    (\<forall>x \<in> insert h (col_hint ` ic_column ` set cs). \<not> nl (hint_loop nl h cs) x)"
proof (induction cs arbitrary: h)
  case Nil
  then show ?case using assms by (simp add: natural_order_def)
next
  case (Cons c cs)
  let ?n = "col_hint (ic_column c)"
  let ?h = "if nl h ?n then ?n else h" and ?hints = "col_hint ` ic_column ` set cs"
  let ?m = "hint_loop nl ?h cs"
  from Cons.IH [of ?h] have mem: "?m \<in> insert ?h ?hints" and max: "\<And>x. x \<in> insert ?h ?hints \<Longrightarrow> \<not> nl ?m x"
    by blast+
  have mh: "\<not> nl ?m ?h" by (rule max) simp
  have "\<not> nl ?h h" "\<not> nl ?h ?n"
    using natural_order_asym [OF assms] natural_order_asym [OF assms, of h h]
      natural_order_asym [OF assms, of ?n ?n] by auto
  then have "\<not> nl ?m h" "\<not> nl ?m ?n"
    using natural_order_neg_trans [OF assms mh] by blast+
  moreover have "?m \<in> insert h (insert ?n ?hints)" using mem by (auto split: if_splits)
  moreover have "\<not> nl ?m x" if "x \<in> ?hints" for x using max that by blast
  ultimately show ?case by simp
qed

section \<open>Reading builds\<close>

datatype read_failure = AncientBuild string | NoStart string | OtherFailure string

definition failed_column :: "test_status \<Rightarrow> string \<Rightarrow> float64 \<Rightarrow> string list \<Rightarrow> string \<Rightarrow> inflated_column" where
  "failed_column status i when extra msg =
     \<lparr>ic_column = empty_column\<lparr>col_build := i, col_hint := i, col_started := when, col_extra := extra\<rparr>,
      ic_cells = [(overallRow, zero_cell\<lparr>c_message := msg, c_result := status\<rparr>)]\<rparr>"

definition ancientColumn :: "string \<Rightarrow> float64 \<Rightarrow> string list \<Rightarrow> string \<Rightarrow> inflated_column" where
  "ancientColumn = failed_column UNKNOWN"

definition noStartColumn :: "string \<Rightarrow> float64 \<Rightarrow> string list \<Rightarrow> string \<Rightarrow> inflated_column" where
  "noStartColumn = failed_column RUNNING"

definition erroredColumn :: "string \<Rightarrow> float64 \<Rightarrow> string list \<Rightarrow> string \<Rightarrow> inflated_column" where
  "erroredColumn = failed_column TOOL_FAIL"

record read_state =
  rd_failures :: nat
  rd_extra :: "string list"
  rd_started :: float64

text \<open>
  One response of \<open>readColumns\<close>: the path of the build, and the outcome of reading it.  \<open>convert\<close>
  is \<^const>\<open>convertResult\<close> with the options of the group.
\<close>

definition read_column ::
    "(string \<Rightarrow> gcs_result \<Rightarrow> inflated_column go) \<Rightarrow> string list \<Rightarrow> read_state \<Rightarrow>
     string \<times> (read_failure + gcs_result) \<Rightarrow> (inflated_column \<times> read_state) go" where
  "read_column convert heads st resp =
     (let i = path_base (fst resp) in
      case snd resp of
        Inl err \<Rightarrow>
          (let failures = Suc (rd_failures st);
               extra = (if rd_extra st = [] then replicate (length heads) [] else rd_extra st);
               when = rd_started st + of_nat failures / 100;
               col = (case err of
                   AncientBuild msg \<Rightarrow> ancientColumn i when extra msg
                 | NoStart msg \<Rightarrow> noStartColumn i when extra msg
                 | OtherFailure msg \<Rightarrow>
                     erroredColumn i when extra (''Failed to download '' @ fst resp @ '': '' @ msg))
           in Inr (col, st\<lparr>rd_failures := failures, rd_extra := extra\<rparr>))
      | Inr result \<Rightarrow>
          go_bind (convert i result) (\<lambda>col.
            Inr (col, st\<lparr>rd_failures := 0, rd_extra := col_extra (ic_column col),
                        rd_started := col_started (ic_column col)\<rparr>)))"

fun read_columns_loop ::
    "(string \<Rightarrow> gcs_result \<Rightarrow> inflated_column go) \<Rightarrow> string list \<Rightarrow> read_state \<Rightarrow>
     (string \<times> (read_failure + gcs_result)) list \<Rightarrow> inflated_column list go" where
  "read_columns_loop convert heads st [] = Inr []"
| "read_columns_loop convert heads st (r # rs) =
     go_bind (read_column convert heads st r) (\<lambda>(col, st').
     go_bind (read_columns_loop convert heads st' rs) (\<lambda>cols. Inr (col # cols)))"

text \<open>The builds are newest first and are read oldest first; \<open>read\<close> is \<^const>\<open>readResult\<close>.\<close>

definition readColumns ::
    "regex \<Rightarrow> (string \<Rightarrow> float64 option) \<Rightarrow> (float64 \<Rightarrow> string) \<Rightarrow> float64 \<Rightarrow> test_group \<Rightarrow> build list \<Rightarrow>
     (build \<Rightarrow> read_failure + gcs_result) \<Rightarrow> bool \<Rightarrow> inflated_column list go" where
  "readColumns rx parse_float format_float now grp builds read enableIgnoreSkip =
     (let nameCfg = makeNameConfig grp;
          heads = map hdr_configuration_value (tg_column_header grp);
          opts = makeOptions grp;
          opts = (if enableIgnoreSkip then opts else opts\<lparr>go_ignore_skip := False\<rparr>)
      in read_columns_loop
           (\<lambda>i result. convertResult rx parse_float format_float now nameCfg i heads result opts) heads
           \<lparr>rd_failures = 0, rd_extra = [], rd_started = 0\<rparr>
           (map (\<lambda>b. (b_path b, read b)) (rev builds)))"

lemma convertResult_column:
  assumes "convertResult rx pf ff now nc i headers r opt = Inr col"
  shows "col_hint (ic_column col) = i \<and> length (col_extra (ic_column col)) = length headers \<and>
    col_started (ic_column col) = of_int (sd_timestamp (gr_started r) * 1000)"
  using assms by (auto simp: convertResult_def go_simps Let_def empty_column_def)

lemma read_columns_loop_hints:
  assumes "\<And>i r col. convert i r = Inr col \<Longrightarrow>
      col_hint (ic_column col) = i \<and> length (col_extra (ic_column col)) = length heads"
    and "rd_extra st = [] \<or> length (rd_extra st) = length heads"
    and "read_columns_loop convert heads st rs = Inr cols"
  shows "map (\<lambda>c. col_hint (ic_column c)) cols = map (\<lambda>r. path_base (fst r)) rs \<and>
    (\<forall>c \<in> set cols. length (col_extra (ic_column c)) = length heads)"
  using assms(2,3)
proof (induction rs arbitrary: st cols)
  case (Cons r rs)
  then obtain col st' cols' where
    col: "read_column convert heads st r = Inr (col, st')"
    "read_columns_loop convert heads st' rs = Inr cols'" "cols = col # cols'"
    by (auto simp: go_simps)
  note defs = ancientColumn_def noStartColumn_def erroredColumn_def failed_column_def empty_column_def
  have "col_hint (ic_column col) = path_base (fst r) \<and> length (col_extra (ic_column col)) = length heads \<and>
      rd_extra st' = col_extra (ic_column col)"
  proof (cases "snd r")
    case (Inl err)
    with col(1) Cons.prems(1) show ?thesis
      by (cases err) (auto simp: read_column_def Let_def defs)
  next
    case (Inr result)
    with col(1) assms(1) show ?thesis
      by (auto simp: read_column_def Let_def go_simps)
  qed
  with Cons.IH [of st' cols'] col show ?case by auto
qed simp

text \<open>Every build gives one column, oldest first, with a value for every configured header.\<close>

lemma readColumns_hints:
  assumes "readColumns rx pf ff now grp builds read skip = Inr cols"
  shows "map (\<lambda>c. col_hint (ic_column c)) cols = map (\<lambda>b. path_base (b_path b)) (rev builds) \<and>
    (\<forall>c \<in> set cols. length (col_extra (ic_column c)) = length (tg_column_header grp))"
proof -
  let ?heads = "map hdr_configuration_value (tg_column_header grp)"
  from assms obtain opts where loop: "read_columns_loop
      (\<lambda>i result. convertResult rx pf ff now (makeNameConfig grp) i ?heads result opts) ?heads
      \<lparr>rd_failures = 0, rd_extra = [], rd_started = 0\<rparr> (map (\<lambda>b. (b_path b, read b)) (rev builds)) = Inr cols"
    by (auto simp: readColumns_def Let_def)
  from read_columns_loop_hints [OF _ _ loop] convertResult_column show ?thesis
    by (fastforce simp: comp_def)
qed

section \<open>shrinkGridInline\<close>

text \<open>
  \<open>mkgrid\<close> is \<^const>\<open>constructGridFromGroupConfig\<close> of the group; \<open>expired k\<close> tells whether the
  context has ended when the loop starts its iteration with \<open>k\<close> columns.  The loop changes the
  columns it is given in place: the cells of the last column it keeps are marked as truncated.
\<close>

function shrink_loop ::
    "(inflated_column list \<Rightarrow> grid go) \<Rightarrow> (grid \<Rightarrow> string go) \<Rightarrow> (nat \<Rightarrow> bool) \<Rightarrow> nat \<Rightarrow> nat \<Rightarrow> nat \<Rightarrow>
     inflated_column list \<Rightarrow> grid \<times> string \<Rightarrow> ((grid \<times> string) option \<times> inflated_column list) go" where
  "shrink_loop mkgrid marshal expired orig byteCeiling i cols gb =
     (if i = 0 then Inr (None, cols)
      else if expired i then Inr (Some gb, cols)
      else let cols = truncateLastColumn (take i cols) (int orig) (int byteCeiling) ''byte'' @ drop i cols in
        go_bind (mkgrid (take i cols)) (\<lambda>g.
        go_bind (marshal g) (\<lambda>buf.
          if length buf < byteCeiling div 2 then Inr (Some (g, buf), cols)
          else shrink_loop mkgrid marshal expired orig byteCeiling (i div 2) cols (g, buf))))"
  by pat_completeness auto
termination
  by (relation "measure (\<lambda>(mkgrid, marshal, expired, orig, byteCeiling, i, cols, gb). i)") auto

declare shrink_loop.simps [simp del]

definition shrinkGridInline ::
    "natural_less \<Rightarrow> (grid \<Rightarrow> string go) \<Rightarrow> (nat \<Rightarrow> bool) \<Rightarrow> test_group \<Rightarrow> inflated_column list \<Rightarrow>
     (string, string list) gomap \<Rightarrow> nat \<Rightarrow> (grid \<times> string) go" where
  "shrinkGridInline nl marshal expired tg cols issues byteCeiling =
     (let mkgrid = (\<lambda>cs. constructGridFromGroupConfig nl tg cs issues) in
      go_bind (mkgrid cols) (\<lambda>g.
      go_bind (marshal g) (\<lambda>buf.
        if byteCeiling = 0 \<or> length buf < byteCeiling then Inr (g, buf)
        else go_bind (shrink_loop mkgrid marshal expired (length buf) byteCeiling
                        (length cols div 2) cols (g, buf)) (\<lambda>(res, cols).
          case res of
            Some gb \<Rightarrow> Inr gb
          | None \<Rightarrow>
              (case cols of
                 [] \<Rightarrow> Inl (Panic ''index out of range'')
               | c # _ \<Rightarrow>
                 go_bind (constructGridFromGroupConfig nl tg (deletedColumn c) []) (\<lambda>g.
                 go_bind (marshal g) (\<lambda>buf. Inr (g, buf))))))))"

lemma shrink_loop_stop:
  "shrink_loop mkgrid marshal expired orig m 0 cols gb = Inr (None, cols)"
  "expired i \<Longrightarrow> i \<noteq> 0 \<Longrightarrow> shrink_loop mkgrid marshal expired orig m i cols gb = Inr (Some gb, cols)"
  by (simp_all add: shrink_loop.simps)

lemma shrink_loop_step:
  "\<not> expired i \<Longrightarrow> i \<noteq> 0 \<Longrightarrow>
   shrink_loop mkgrid marshal expired orig m i cols gb =
     (let cols = truncateLastColumn (take i cols) (int orig) (int m) ''byte'' @ drop i cols in
      go_bind (mkgrid (take i cols)) (\<lambda>g.
      go_bind (marshal g) (\<lambda>buf.
        if length buf < m div 2 then Inr (Some (g, buf), cols)
        else shrink_loop mkgrid marshal expired orig m (i div 2) cols (g, buf))))"
  by (subst shrink_loop.simps) simp

text \<open>
  The numbers of columns that are tried, and a trial: the first \<open>k\<close> columns, with the cells of the last of
  them replaced by a note.
\<close>

fun halves :: "nat \<Rightarrow> nat list" where
  "halves n = (if n = 0 then [] else n # halves (n div 2))"

declare halves.simps [simp del]

definition trial :: "(inflated_column list \<Rightarrow> grid go) \<Rightarrow> (grid \<Rightarrow> string go) \<Rightarrow> nat \<Rightarrow> nat \<Rightarrow> inflated_column list \<Rightarrow>
    nat \<Rightarrow> (grid \<times> string) go" where
  "trial mkgrid marshal orig byteCeiling cols k =
     go_bind (mkgrid (truncateLastColumn (take k cols) (int orig) (int byteCeiling) ''byte'')) (\<lambda>g.
     go_bind (marshal g) (\<lambda>buf. Inr (g, buf)))"

definition too_large :: "(grid \<times> string) go \<Rightarrow> nat \<Rightarrow> bool" where
  "too_large t m \<longleftrightarrow> (\<exists>g buf. t = Inr (g, buf) \<and> m \<le> length buf)"

lemma truncated_prefix:
  assumes "0 < i" "i \<le> length cols"
  shows "take (i div 2) (truncateLastColumn (take i cols) a b e @ drop i cols) = take (i div 2) cols"
proof -
  have "take j (truncateLastColumn cs a b e) = take j cs" if "j < length cs" for j cs
    using that by (cases cs rule: rev_cases) (simp_all add: truncateLastColumn_def butlast_append)
  from this [of "i div 2" "take i cols"] show ?thesis using assms by (simp add: min_def)
qed

text \<open>The loop stops at the first trial that is small enough, or none is.\<close>

lemma shrink_loop_trials:
  assumes "shrink_loop mkgrid marshal expired orig m i cols gb = Inr (res, cols')" "\<forall>k. \<not> expired k"
    "take i cols = take i cols0" "i \<le> length cols"
  shows "case res of
      None \<Rightarrow> \<forall>k \<in> set (halves i). too_large (trial mkgrid marshal orig m cols0 k) (m div 2)
    | Some gb' \<Rightarrow> \<exists>ks k rest. halves i = ks @ k # rest \<and>
        (\<forall>j \<in> set ks. too_large (trial mkgrid marshal orig m cols0 j) (m div 2)) \<and>
        trial mkgrid marshal orig m cols0 k = Inr gb' \<and> length (snd gb') < m div 2"
  using assms
proof (induction mkgrid marshal expired orig m i cols gb rule: shrink_loop.induct)
  case (1 mkgrid marshal expired orig m i cols gb)
  let ?cols = "truncateLastColumn (take i cols) (int orig) (int m) ''byte'' @ drop i cols"
  show ?case
  proof (cases "i = 0")
    case True
    with "1.prems"(1) show ?thesis by (auto simp: shrink_loop_stop halves.simps)
  next
    case i: False
    have e: "\<not> expired i" using "1.prems"(2) by blast
    have kept: "take i ?cols = truncateLastColumn (take i cols0) (int orig) (int m) ''byte''"
      unfolding "1.prems"(3) [symmetric] using "1.prems"(4) by (simp add: min_def)
    from "1.prems"(1) [unfolded shrink_loop_step [of expired, OF e i]] obtain g1 b1 where
      g1: "mkgrid (take i ?cols) = Inr g1" "marshal g1 = Inr b1"
      "(if length b1 < m div 2 then Inr (Some (g1, b1), ?cols)
        else shrink_loop mkgrid marshal expired orig m (i div 2) ?cols (g1, b1)) = Inr (res, cols')"
      by (auto simp: Let_def go_simps)
    have t: "trial mkgrid marshal orig m cols0 i = Inr (g1, b1)"
      using g1(1) [unfolded kept] g1(2) by (simp add: trial_def go_simps)
    have h: "halves i = i # halves (i div 2)" using i by (subst halves.simps) simp
    show ?thesis
    proof (cases "length b1 < m div 2")
      case True
      with g1(3) t show ?thesis by (auto simp: h intro!: exI [of _ "[]"])
    next
      case nf: False
      have "take (i div 2) cols = take (i div 2) cols0"
        using arg_cong [OF "1.prems"(3), of "take (i div 2)"] by (simp add: min_def)
      then have pre: "take (i div 2) ?cols = take (i div 2) cols0" using truncated_prefix [of i cols] i "1.prems"(4) by simp
      have big: "too_large (trial mkgrid marshal orig m cols0 i) (m div 2)" using t nf by (auto simp: too_large_def)
      have IH: "case res of
          None \<Rightarrow> \<forall>k \<in> set (halves (i div 2)). too_large (trial mkgrid marshal orig m cols0 k) (m div 2)
        | Some gb' \<Rightarrow> \<exists>ks k rest. halves (i div 2) = ks @ k # rest \<and>
            (\<forall>j \<in> set ks. too_large (trial mkgrid marshal orig m cols0 j) (m div 2)) \<and>
            trial mkgrid marshal orig m cols0 k = Inr gb' \<and> length (snd gb') < m div 2"
        using g1(3) nf "1.prems"(4) div_le_dividend [of i 2] by (intro "1.IH" [OF i e refl nf _ "1.prems"(2) pre]) (simp, auto simp: min_def)
      show ?thesis
      proof (cases res)
        case None
        with IH big show ?thesis by (simp add: h)
      next
        case (Some gb')
        with IH obtain ks k rest where "halves (i div 2) = ks @ k # rest"
            "\<forall>j \<in> set ks. too_large (trial mkgrid marshal orig m cols0 j) (m div 2)"
            "trial mkgrid marshal orig m cols0 k = Inr gb'" "length (snd gb') < m div 2" by auto
        with big Some show ?thesis by (auto simp: h intro!: exI [of _ "i # ks"])
      qed
    qed
  qed
qed

lemma shrink_loop_hd:
  "shrink_loop mkgrid marshal expired orig m i cols gb = Inr (res, cols') \<Longrightarrow>
   map ic_column cols' = map ic_column cols"
proof (induction mkgrid marshal expired orig m i cols gb rule: shrink_loop.induct)
  case (1 mkgrid marshal expired orig m i cols gb)
  let ?cols = "truncateLastColumn (take i cols) (int orig) (int m) ''byte'' @ drop i cols"
  have same: "map ic_column ?cols = map ic_column cols"
  proof -
    have "map ic_column (truncateLastColumn cs a b e) = map ic_column cs" for cs a b e
      by (cases cs rule: rev_cases) (simp_all add: truncateLastColumn_def)
    then show ?thesis by (metis append_take_drop_id map_append)
  qed
  show ?case
  proof (cases "i = 0 \<or> expired i")
    case True
    with "1.prems" show ?thesis
      by (cases "i = 0") (simp_all add: shrink_loop_stop)
  next
    case False
    then have i: "i \<noteq> 0" and e: "\<not> expired i" by simp_all
    from "1.prems" [unfolded shrink_loop_step [of expired, OF e i]] obtain g1 b1 where
      g1: "mkgrid (take i ?cols) = Inr g1" "marshal g1 = Inr b1"
      "(if length b1 < m div 2 then Inr (Some (g1, b1), ?cols)
        else shrink_loop mkgrid marshal expired orig m (i div 2) ?cols (g1, b1)) = Inr (res, cols')"
      by (auto simp: Let_def go_simps)
    show ?thesis
    proof (cases "length b1 < m div 2")
      case True
      with g1(3) same show ?thesis by simp
    next
      case nf: False
      have "map ic_column cols' = map ic_column ?cols"
        using nf g1(3) by (intro "1.IH" [OF i e refl nf]) simp
      with same show ?thesis by simp
    qed
  qed
qed

text \<open>
  The grid that is returned: of all columns when they fit; otherwise the first trial below half of the
  ceiling, each keeping half as many columns as the one before; and when not even the trial with one
  column is, the one column that says so.
\<close>

lemma shrinkGridInline_trials:
  fixes nl tg issues
  defines "mkgrid \<equiv> \<lambda>cs. constructGridFromGroupConfig nl tg cs issues"
  assumes "shrinkGridInline nl marshal expired tg cols issues m = Inr (g, buf)"
    "\<forall>k. \<not> expired k" "0 < m"
  shows "\<exists>whole. mkgrid cols = Inr whole \<and> (\<exists>bytes. marshal whole = Inr bytes \<and>
    (if length bytes < m then (g, buf) = (whole, bytes)
     else let shrunk = trial mkgrid marshal (length bytes) m cols; sizes = halves (length cols div 2) in
       (\<exists>ks k rest. sizes = ks @ k # rest \<and> (\<forall>j \<in> set ks. too_large (shrunk j) (m div 2)) \<and>
          shrunk k = Inr (g, buf) \<and> length buf < m div 2) \<or>
       (\<forall>j \<in> set sizes. too_large (shrunk j) (m div 2)) \<and> cols \<noteq> [] \<and>
          constructGridFromGroupConfig nl tg (deletedColumn (hd cols)) [] = Inr g \<and> marshal g = Inr buf))"
proof -
  from assms(2) obtain g0 b0 where
    g0: "mkgrid cols = Inr g0" "marshal g0 = Inr b0"
    by (auto simp: shrinkGridInline_def go_simps mkgrid_def)
  show ?thesis
  proof (cases "length b0 < m")
    case True
    with assms g0 show ?thesis by (simp add: shrinkGridInline_def mkgrid_def)
  next
    case False
    with assms(2,4) g0 obtain res cols' where
      loop: "shrink_loop mkgrid marshal expired (length b0) m (length cols div 2) cols (g0, b0) =
        Inr (res, cols')"
      "(case res of Some gb \<Rightarrow> Inr gb
        | None \<Rightarrow> (case cols' of [] \<Rightarrow> Inl (Panic ''index out of range'')
            | c # _ \<Rightarrow> go_bind (constructGridFromGroupConfig nl tg (deletedColumn c) []) (\<lambda>g.
                go_bind (marshal g) (\<lambda>buf. Inr (g, buf))))) = Inr (g, buf)"
      by (auto simp: shrinkGridInline_def Let_def go_simps mkgrid_def)
    note trials = shrink_loop_trials [OF loop(1) assms(3) refl div_le_dividend]
    show ?thesis
    proof (cases res)
      case (Some gb)
      with loop(2) have "res = Some (g, buf)" by simp
      with trials show ?thesis using False g0 by (simp add: Let_def)
    next
      case None
      with loop(2) obtain c cs where c: "cols' = c # cs"
        "constructGridFromGroupConfig nl tg (deletedColumn c) [] = Inr g" "marshal g = Inr buf"
        by (auto simp: go_simps split: list.splits)
      moreover from c(1) shrink_loop_hd [OF loop(1)] have "cols \<noteq> []" "ic_column c = ic_column (hd cols)"
        by (cases cols; simp)+
      moreover from this(2) have "deletedColumn c = deletedColumn (hd cols)" by (simp add: deletedColumn_def)
      ultimately show ?thesis using trials None False g0 by (simp add: Let_def)
    qed
  qed
qed

section \<open>InflateDropAppend\<close>

definition byteCeiling :: nat where
  "byteCeiling = 2000000"

text \<open>The Unix seconds of the zero \<open>time.Time\<close>.\<close>

definition zero_unix :: int where
  "zero_unix = - 62135596800"

text \<open>
  The columns kept of the stored grid.  Times are Unix seconds; \<open>stop\<close> is the oldest start to keep
  and \<open>reprocess\<close> the number of seconds for which columns are read again.
\<close>

definition old_columns ::
    "(nat \<Rightarrow> bool) \<Rightarrow> int \<Rightarrow> int \<Rightarrow> int \<Rightarrow> test_group \<Rightarrow> grid option \<Rightarrow>
     (inflated_column list \<times> (string, string list) gomap) go" where
  "old_columns cancelled now stop reprocess tg old =
     (case old of
        None \<Rightarrow> Inr ([], [])
      | Some g \<Rightarrow>
        go_bind (InflateGrid cancelled g stop (now - reprocess)) (\<lambda>(cols, issues).
          let when = now - 7 * 24 * 3600;
              (cols, oldest) = (case reprocessColumn g tg when of
                 Some col \<Rightarrow> (cols @ [col], when)
               | None \<Rightarrow> (cols, zero_unix))
          in Inr (truncateRunning (SortStarted cols) oldest, issues)))"

text \<open>
  The branches that the select statements over the reader take, in order: a column, the end of the
  reader (with its error, if any), the end of the grace period, the end of the context.  When the
  list ends the loop goes on waiting.
\<close>

datatype reader_event = NewColumn inflated_column | ReaderDone "string option" | GraceOver | CtxDone

definition blank_empty :: "inflated_column \<Rightarrow> inflated_column" where
  "blank_empty col =
     (if ic_cells col = []
      then col\<lparr>ic_column := (ic_column col)\<lparr>col_build := [], col_name := []\<rparr>\<rparr> else col)"

fun read_more :: "inflated_column list \<Rightarrow> reader_event list \<Rightarrow> (inflated_column list \<times> bool) go option" where
  "read_more cols [] = None"
| "read_more cols (GraceOver # evs) = Some (Inr (cols, True))"
| "read_more cols (CtxDone # evs) = Some (Inl (Failed ''context done''))"
| "read_more cols (NewColumn col # evs) = read_more (cols @ [blank_empty col]) evs"
| "read_more cols (ReaderDone None # evs) = Some (Inr (cols, False))"
| "read_more cols (ReaderDone (Some e) # evs) = Some (Inl (Failed (''read columns: '' @ e)))"

text \<open>The first column is waited for without a grace period: its select has no such branch.\<close>

fun read_first :: "reader_event list \<Rightarrow> (inflated_column list \<times> bool) go option" where
  "read_first [] = None"
| "read_first (GraceOver # evs) = read_first evs"
| "read_first (CtxDone # evs) = Some (Inl (Failed ''first column: context done''))"
| "read_first (NewColumn col # evs) = read_more [blank_empty col] evs"
| "read_first (ReaderDone None # evs) = Some (Inr ([], False))"
| "read_first (ReaderDone (Some e) # evs) = Some (Inl (Failed (''read first column: '' @ e)))"

definition finish_update ::
    "natural_less \<Rightarrow> (grid \<Rightarrow> string go) \<Rightarrow> (nat \<Rightarrow> bool) \<Rightarrow> test_group \<Rightarrow>
     (string, string list) gomap \<Rightarrow> inflated_column list \<Rightarrow> (grid \<times> string) go" where
  "finish_update nl marshal expired tg issues cols =
     go_bind (shrinkGridInline nl marshal expired tg (truncateGrid (SortStarted cols) byteCeiling)
                issues byteCeiling)
       (\<lambda>(g, buf). Inr (g\<lparr>grid_config := Some tg\<rparr>, buf))"

text \<open>
  The update: the grid in memory, the bytes that are uploaded, and whether columns are left to
  read.  None stands for an update that waits for ever.
\<close>

definition InflateDropAppend ::
    "natural_less \<Rightarrow> (int \<Rightarrow> string \<Rightarrow> string) \<Rightarrow> (char \<times> string) list \<Rightarrow> (grid \<Rightarrow> string go) \<Rightarrow>
     (nat \<Rightarrow> bool) \<Rightarrow> (nat \<Rightarrow> bool) \<Rightarrow> int \<Rightarrow> int \<Rightarrow> test_group \<Rightarrow> grid option \<Rightarrow> nat option \<Rightarrow>
     reader_event list \<Rightarrow> (grid \<times> string \<times> bool) go option" where
  "InflateDropAppend nl format_time rs marshal cancelled expired now reprocess tg old bytes evs =
     (let dur = days (if tg_days_of_results tg > 0 then of_int (tg_days_of_results tg) else 7);
          stop = now - dur div 1000000000 in
      case old_columns cancelled now stop reprocess tg old of
        Inl e \<Rightarrow> Some (Inl e)
      | Inr (oldCols, issues) \<Rightarrow>
        (if (case bytes of Some n \<Rightarrow> byteCeiling \<le> n | None \<Rightarrow> False)
         then Some (go_bind (finish_update nl marshal expired tg issues oldCols)
                      (\<lambda>(g, buf). Inr (g, buf, True)))
         else case read_first evs of
             None \<Rightarrow> None
           | Some (Inl e) \<Rightarrow> Some (Inl e)
           | Some (Inr (cols, unread)) \<Rightarrow>
               Some (go_bind
                 (finish_update nl marshal expired tg issues
                   (groupColumns nl tg (overrideBuild format_time rs tg cols @ oldCols)))
                 (\<lambda>(g, buf). Inr (g, buf, unread)))))"

lemma AppendColumn_config: "AppendColumn g c = Inr g' \<Longrightarrow> grid_config g' = grid_config g"
  by (auto simp: AppendColumn_def Let_def go_simps)

lemma go_fold_config: "go_fold AppendColumn g cols = Inr g' \<Longrightarrow> grid_config g' = grid_config g"
  by (induction cols arbitrary: g) (auto simp: go_simps dest: AppendColumn_config)

lemma constructGrid_config: "constructGridFromGroupConfig nl tg cols issues = Inr g \<Longrightarrow> grid_config g = None"
  by (auto simp: constructGridFromGroupConfig_def ConstructGrid_def Let_def go_simps empty_grid_def
      dropEmptyRows_def dest!: go_fold_config)

lemma shrink_loop_config:
  "shrink_loop mkgrid marshal expired orig m i cols gb = Inr (Some (g, buf), cols') \<Longrightarrow>
   (\<And>cs g. mkgrid cs = Inr g \<Longrightarrow> P g) \<Longrightarrow> P (fst gb) \<and> marshal (fst gb) = Inr (snd gb) \<Longrightarrow>
   P g \<and> marshal g = Inr buf"
proof (induction mkgrid marshal expired orig m i cols gb rule: shrink_loop.induct)
  case (1 mkgrid marshal expired orig m i cols gb)
  let ?cols = "truncateLastColumn (take i cols) (int orig) (int m) ''byte'' @ drop i cols"
  have i: "i \<noteq> 0" using "1.prems"(1) by (cases "i = 0") (simp_all add: shrink_loop_stop)
  show ?case
  proof (cases "expired i")
    case True
    with "1.prems"(1,3) i show ?thesis by (auto simp: shrink_loop_stop)
  next
    case e: False
    from "1.prems"(1) [unfolded shrink_loop_step [of expired, OF e i]] obtain g1 b1 where
      g1: "mkgrid (take i ?cols) = Inr g1" "marshal g1 = Inr b1"
      "(if length b1 < m div 2 then Inr (Some (g1, b1), ?cols)
        else shrink_loop mkgrid marshal expired orig m (i div 2) ?cols (g1, b1)) =
       Inr (Some (g, buf), cols')"
      by (auto simp: Let_def go_simps)
    have P1: "P g1" using "1.prems"(2) g1(1) by blast
    show ?thesis
    proof (cases "length b1 < m div 2")
      case True
      with g1 P1 show ?thesis by simp
    next
      case False
      with g1(3) have "shrink_loop mkgrid marshal expired orig m (i div 2) ?cols (g1, b1) =
          Inr (Some (g, buf), cols')" by simp
      from "1.IH" [OF i e refl False this "1.prems"(2)] P1 g1(2) show ?thesis by simp
    qed
  qed
qed

lemma shrinkGridInline_config:
  assumes "shrinkGridInline nl marshal expired tg cols issues m = Inr (g, buf)"
  shows "grid_config g = None \<and> marshal g = Inr buf"
proof -
  let ?mkgrid = "\<lambda>cs. constructGridFromGroupConfig nl tg cs issues"
  from assms obtain g0 b0 where
    g0: "?mkgrid cols = Inr g0" "marshal g0 = Inr b0"
    by (auto simp: shrinkGridInline_def go_simps)
  have c0: "grid_config g0 = None" using g0(1) by (rule constructGrid_config)
  show ?thesis
  proof (cases "m = 0 \<or> length b0 < m")
    case True
    with assms g0 c0 show ?thesis by (auto simp: shrinkGridInline_def)
  next
    case False
    with assms g0 obtain res cols' where
      loop: "shrink_loop ?mkgrid marshal expired (length b0) m (length cols div 2) cols (g0, b0) =
        Inr (res, cols')"
      "(case res of Some gb \<Rightarrow> Inr gb
        | None \<Rightarrow> (case cols' of [] \<Rightarrow> Inl (Panic ''index out of range'')
            | c # _ \<Rightarrow> go_bind (constructGridFromGroupConfig nl tg (deletedColumn c) []) (\<lambda>g.
                go_bind (marshal g) (\<lambda>buf. Inr (g, buf))))) = Inr (g, buf)"
      by (auto simp: shrinkGridInline_def Let_def go_simps)
    show ?thesis
    proof (cases res)
      case (Some gb)
      with loop(2) have "res = Some (g, buf)" by simp
      from shrink_loop_config [OF loop(1) [unfolded this], where P = "\<lambda>g. grid_config g = None"]
      show ?thesis using c0 g0(2) constructGrid_config by simp
    next
      case None
      with loop(2) show ?thesis
        by (auto simp: go_simps split: list.splits dest: constructGrid_config)
    qed
  qed
qed

text \<open>
  The bytes that are uploaded encode a grid without its configuration, although the grid in memory
  gets it afterwards: the next update finds no configuration to compare with the current one.
\<close>

lemma finish_update_config:
  assumes "finish_update nl marshal expired tg issues cols = Inr (g, buf)"
  shows "grid_config g = Some tg \<and>
    (\<exists>stored. marshal stored = Inr buf \<and> stored = g\<lparr>grid_config := None\<rparr>)"
proof -
  from assms obtain g0 where
    "shrinkGridInline nl marshal expired tg (truncateGrid (SortStarted cols) byteCeiling) issues byteCeiling
      = Inr (g0, buf)" "g = g0\<lparr>grid_config := Some tg\<rparr>"
    by (auto simp: finish_update_def go_simps)
  with shrinkGridInline_config [OF this(1)] show ?thesis by (cases g0) simp
qed

text \<open>The update succeeds when the grid of the columns is small enough.\<close>

lemma finish_update_small:
  assumes "\<forall>c \<in> set cols. cells_ok c" "0 \<le> tg_num_failures_to_alert tg"
    "\<And>g. \<exists>buf. marshal g = Inr buf \<and> length buf < byteCeiling"
  shows "\<exists>g buf. finish_update nl marshal expired tg issues cols = Inr (g, buf)"
proof -
  obtain n where n: "truncateGrid (SortStarted cols) byteCeiling = take n (SortStarted cols)"
    using truncateGrid_spec [of "SortStarted cols" byteCeiling] by blast
  have "\<forall>c \<in> set (take n (SortStarted cols)). cells_ok c"
    using assms(1) by (auto dest: in_set_takeD simp: SortStarted_def)
  from ConstructGrid_shows [OF this assms(2)] obtain g where
    g: "constructGridFromGroupConfig nl tg (take n (SortStarted cols)) issues = Inr g"
    unfolding constructGridFromGroupConfig_def by blast
  obtain buf where "marshal g = Inr buf" "length buf < byteCeiling" using assms(3) by blast
  with g show ?thesis by (simp add: finish_update_def shrinkGridInline_def n)
qed

lemma InflateDropAppend_config:
  assumes "InflateDropAppend nl ft rs marshal cancelled expired now reprocess tg old bytes evs =
    Some (Inr (g, buf, unread))"
  shows "\<exists>stored. marshal stored = Inr buf \<and> stored = g\<lparr>grid_config := None\<rparr> \<and>
    (\<forall>tg' when. reprocessColumn stored tg' when = None)"
proof -
  from assms obtain issues cols where
    "finish_update nl marshal expired tg issues cols = Inr (g, buf)"
    by (auto simp: InflateDropAppend_def Let_def go_simps split: sum.splits prod.splits if_splits option.splits)
  from finish_update_config [OF this] show ?thesis
    by (auto simp: reprocessColumn_def)
qed

end
