(* ===== verification/Heap.thy ===== *)
theory Heap
  imports Go_Prelude
begin

text \<open>
  \<open>container/heap\<close> of the Go library, as \<open>util/queue\<close> uses it: a binary heap in a slice, with the
  key of an element given by \<open>w\<close>.  \<open>up\<close> and \<open>down\<close> are the two loops of the package; the contract
  is the interface \<open>min_queue\<close>.
\<close>

definition swap :: "'a list \<Rightarrow> nat \<Rightarrow> nat \<Rightarrow> 'a list" where
  "swap h i j = h[i := h ! j, j := h ! i]"

definition parent :: "nat \<Rightarrow> nat" where
  "parent k = (k - 1) div 2"

function up :: "('a \<Rightarrow> int) \<Rightarrow> 'a list \<Rightarrow> nat \<Rightarrow> 'a list" where
  "up w h j =
     (let i = parent j in
      if i = j \<or> \<not> w (h ! j) < w (h ! i) then h else up w (swap h i j) i)"
  by pat_completeness auto
termination
  by (relation "measure (\<lambda>(w, h, j). j)") (auto simp: parent_def)

text \<open>The result of \<open>down\<close> also tells where the element ended: it has moved when that is not \<open>i\<close>.\<close>

function down :: "('a \<Rightarrow> int) \<Rightarrow> 'a list \<Rightarrow> nat \<Rightarrow> nat \<Rightarrow> 'a list \<times> nat" where
  "down w h i n =
     (if n \<le> 2 * i + 1 then (h, i)
      else let j = (if 2 * i + 2 < n \<and> w (h ! (2 * i + 2)) < w (h ! (2 * i + 1)) then 2 * i + 2
                    else 2 * i + 1) in
        if \<not> w (h ! j) < w (h ! i) then (h, i) else down w (swap h i j) j n)"
  by pat_completeness auto
termination
  by (relation "measure (\<lambda>(w, h, i, n). n - i)") auto

declare up.simps [simp del] down.simps [simp del]

definition heap_Push :: "('a \<Rightarrow> int) \<Rightarrow> 'a \<Rightarrow> 'a list \<Rightarrow> 'a list" where
  "heap_Push w x h = up w (h @ [x]) (length h)"

definition heap_Fix :: "('a \<Rightarrow> int) \<Rightarrow> 'a list \<Rightarrow> nat \<Rightarrow> 'a list" where
  "heap_Fix w h i = (case down w h i (length h) of (h', i') \<Rightarrow> if i < i' then h' else up w h' i)"

definition heap_Pop :: "('a \<Rightarrow> int) \<Rightarrow> 'a list \<Rightarrow> 'a \<times> 'a list" where
  "heap_Pop w h =
     (let n = length h - 1; h' = fst (down w (swap h 0 n) 0 n) in (last h', butlast h'))"

definition heap_Remove :: "('a \<Rightarrow> int) \<Rightarrow> 'a list \<Rightarrow> nat \<Rightarrow> 'a \<times> 'a list" where
  "heap_Remove w h i =
     (let n = length h - 1;
          h' = (if n = i then h
                else case down w (swap h i n) i n of (h', i') \<Rightarrow> if i < i' then h' else up w h' i)
      in (last h', butlast h'))"

fun heap_init_loop :: "('a \<Rightarrow> int) \<Rightarrow> 'a list \<Rightarrow> nat \<Rightarrow> 'a list" where
  "heap_init_loop w h 0 = h"
| "heap_init_loop w h (Suc i) = heap_init_loop w (fst (down w h i (length h))) i"

definition heap_Init :: "('a \<Rightarrow> int) \<Rightarrow> 'a list \<Rightarrow> 'a list" where
  "heap_Init w h = heap_init_loop w h (length h div 2)"

section \<open>Permutations\<close>

lemma length_swap [simp]: "length (swap h i j) = length h"
  by (simp add: swap_def)

lemma mset_swap_list [simp]:
  "i < length h \<Longrightarrow> j < length h \<Longrightarrow> mset (swap h i j) = mset h"
  unfolding swap_def by (rule mset_swap)

lemma nth_swap:
  "i < length h \<Longrightarrow> j < length h \<Longrightarrow>
   swap h i j ! k = (if k = j then h ! i else if k = i then h ! j else h ! k)"
  by (auto simp: swap_def nth_list_update)

lemma parent_less: "0 < k \<Longrightarrow> parent k < k"
  by (auto simp: parent_def)

lemma parent_eq: "0 < k \<Longrightarrow> parent k = i \<longleftrightarrow> k = 2 * i + 1 \<or> k = 2 * i + 2"
  by (auto simp: parent_def)

lemma up_perm: "j < length h \<Longrightarrow> mset (up w h j) = mset h \<and> length (up w h j) = length h"
proof (induction w h j rule: up.induct)
  case (1 w h j)
  have "parent j < length h" using "1.prems" parent_less [of j] by (cases "j = 0") (auto simp: parent_def)
  with "1.IH" [OF refl] "1.prems" show ?case
    by (subst (1 2) up.simps) (auto simp: Let_def)
qed

lemma down_perm:
  "i < n \<Longrightarrow> n \<le> length h \<Longrightarrow>
   mset (fst (down w h i n)) = mset h \<and> length (fst (down w h i n)) = length h \<and>
   (\<forall>k \<ge> n. fst (down w h i n) ! k = h ! k) \<and> i \<le> snd (down w h i n)"
proof (induction w h i n rule: down.induct)
  case (1 w h i n)
  let ?j = "if 2 * i + 2 < n \<and> w (h ! (2 * i + 2)) < w (h ! (2 * i + 1)) then 2 * i + 2 else 2 * i + 1"
  show ?case
  proof (cases "n \<le> 2 * i + 1 \<or> \<not> w (h ! ?j) < w (h ! i)")
    case True
    then have "down w h i n = (h, i)" by (subst down.simps) (auto simp: Let_def)
    then show ?thesis by simp
  next
    case False
    then have step: "down w h i n = down w (swap h i ?j) ?j n" by (subst down.simps) (simp add: Let_def)
    have j: "?j < n" "i < ?j" using False by auto
    have bounds: "i < length h" "?j < length h" using j(1) "1.prems" by linarith+
    have "\<not> n \<le> 2 * i + 1" "w (h ! ?j) < w (h ! i)" using False by blast+
    from "1.IH" [OF this(1) refl] this(2) j(1) "1.prems"(2)
    have IH: "mset (fst (down w (swap h i ?j) ?j n)) = mset (swap h i ?j) \<and>
      length (fst (down w (swap h i ?j) ?j n)) = length (swap h i ?j) \<and>
      (\<forall>k \<ge> n. fst (down w (swap h i ?j) ?j n) ! k = swap h i ?j ! k) \<and>
      ?j \<le> snd (down w (swap h i ?j) ?j n)"
      by simp
    have "swap h i ?j ! k = h ! k" if "n \<le> k" for k
      using that j "1.prems"(1) nth_swap [OF bounds, of k] by simp
    with IH step j(2) bounds show ?thesis by simp
  qed
qed

section \<open>The heap order\<close>

definition ordered :: "('a \<Rightarrow> int) \<Rightarrow> 'a list \<Rightarrow> nat \<Rightarrow> bool" where
  "ordered w h k \<longleftrightarrow> w (h ! parent k) \<le> w (h ! k)"

text \<open>The first \<open>n\<close> elements are a heap.\<close>

definition heap :: "('a \<Rightarrow> int) \<Rightarrow> 'a list \<Rightarrow> nat \<Rightarrow> bool" where
  "heap w h n \<longleftrightarrow> (\<forall>k. 0 < k \<longrightarrow> k < n \<longrightarrow> ordered w h k)"

lemma heap_root: "heap w h n \<Longrightarrow> k < n \<Longrightarrow> w (h ! 0) \<le> w (h ! k)"
proof (induction k rule: less_induct)
  case (less k)
  show ?case
  proof (cases "k = 0")
    case False
    then have "parent k < k" "ordered w h k" using parent_less less.prems by (auto simp: heap_def)
    with less.IH [of "parent k"] less.prems show ?thesis by (simp add: ordered_def)
  qed simp
qed

text \<open>
  What \<open>up\<close> repairs: only the element at \<open>j\<close> may be out of order, and its children are in order
  with its parent.
\<close>

definition up_pre :: "('a \<Rightarrow> int) \<Rightarrow> 'a list \<Rightarrow> nat \<Rightarrow> nat \<Rightarrow> bool" where
  "up_pre w h j n \<longleftrightarrow>
     (\<forall>k. 0 < k \<longrightarrow> k < n \<longrightarrow> k \<noteq> j \<longrightarrow> ordered w h k) \<and>
     (\<forall>k. 0 < k \<longrightarrow> k < n \<longrightarrow> parent k = j \<longrightarrow> 0 < j \<longrightarrow> w (h ! parent j) \<le> w (h ! k))"

lemma up_pre_swap:
  assumes "up_pre w h j n" "j < n" "n \<le> length h" "parent j \<noteq> j" "w (h ! j) < w (h ! parent j)"
  shows "up_pre w (swap h (parent j) j) (parent j) n"
proof -
  let ?i = "parent j" and ?h = "swap h (parent j) j"
  have j: "0 < j" "?i < j" using assms(4) parent_less [of j] by (cases "j = 0"; simp add: parent_def)+
  have bounds: "?i < length h" "j < length h" using j assms(2,3) by linarith+
  note nth = nth_swap [OF bounds]
  have pre: "\<And>k. 0 < k \<Longrightarrow> k < n \<Longrightarrow> k \<noteq> j \<Longrightarrow> w (h ! parent k) \<le> w (h ! k)"
    "\<And>k. 0 < k \<Longrightarrow> k < n \<Longrightarrow> parent k = j \<Longrightarrow> w (h ! ?i) \<le> w (h ! k)"
    using assms(1) j(1) by (auto simp: up_pre_def ordered_def)
  have "ordered w ?h k" if k: "0 < k" "k < n" "k \<noteq> ?i" for k
  proof -
    consider "k = j" | "k \<noteq> j" "parent k = j" | "k \<noteq> j" "parent k = ?i" |
        "k \<noteq> j" "parent k \<noteq> j" "parent k \<noteq> ?i"
      by blast
    then show ?thesis
    proof cases
      case 1
      then show ?thesis using assms(5) j(2) by (simp add: ordered_def nth)
    next
      case 2
      then show ?thesis using pre(2) [OF k(1,2)] k(3) by (simp add: ordered_def nth)
    next
      case 3
      then show ?thesis using pre(1) [OF k(1,2)] k(3) assms(5) j(2) by (simp add: ordered_def nth)
    next
      case 4
      then show ?thesis using pre(1) [OF k(1,2)] k(3) by (simp add: ordered_def nth)
    qed
  qed
  moreover have "w (?h ! parent ?i) \<le> w (?h ! k)" if k: "0 < k" "k < n" "parent k = ?i" "0 < ?i" for k
  proof -
    have pi: "parent ?i < ?i" using parent_less [OF k(4)] .
    have i: "w (h ! parent ?i) \<le> w (h ! ?i)" using pre(1) [OF k(4)] j(2) assms(2) by simp
    have "?i \<noteq> k" using parent_less [OF k(1)] k(3) by simp
    then show ?thesis
      using i pre(1) [OF k(1,2)] k(3) pi j(2) by (cases "k = j") (simp_all add: nth)
  qed
  ultimately show ?thesis unfolding up_pre_def by blast
qed

lemma up_heap:
  "up_pre w h j n \<Longrightarrow> j < n \<Longrightarrow> n \<le> length h \<Longrightarrow>
   heap w (up w h j) n \<and> (\<forall>k > j. up w h j ! k = h ! k)"
proof (induction w h j rule: up.induct)
  case (1 w h j)
  show ?case
  proof (cases "parent j = j \<or> \<not> w (h ! j) < w (h ! parent j)")
    case True
    then have "up w h j = h" by (subst up.simps) (auto simp: Let_def)
    moreover have "ordered w h k" if "0 < k" "k < n" for k
      using that True "1.prems"(1) parent_less [of j]
      by (cases "k = j") (auto simp: up_pre_def ordered_def)
    then have "heap w h n" by (simp add: heap_def)
    ultimately show ?thesis by simp
  next
    case False
    then have step: "up w h j = up w (swap h (parent j) j) (parent j)"
      by (subst up.simps) (simp add: Let_def)
    have j: "parent j < j" using False parent_less [of j] by (cases "j = 0") (simp_all add: parent_def)
    have pre: "up_pre w (swap h (parent j) j) (parent j) n"
      using up_pre_swap "1.prems" False by blast
    have "parent j < n" "n \<le> length (swap h (parent j) j)" using j "1.prems" by simp_all
    note IH = "1.IH" [OF refl False pre this]
    have "swap h (parent j) j ! k = h ! k" if "j < k" for k
      using that j "1.prems" nth_swap [of "parent j" h j k] by simp
    with IH j show ?thesis unfolding step by (metis less_trans)
  qed
qed

text \<open>
  What \<open>down\<close> repairs, among the elements whose parent is not before \<open>b\<close>.  When it has moved the
  element everything is in order; when it has not, only the element itself may be too small.
\<close>

definition down_pre :: "('a \<Rightarrow> int) \<Rightarrow> 'a list \<Rightarrow> nat \<Rightarrow> nat \<Rightarrow> nat \<Rightarrow> bool" where
  "down_pre w h i b n \<longleftrightarrow>
     (\<forall>k. 0 < k \<longrightarrow> k < n \<longrightarrow> b \<le> parent k \<longrightarrow> parent k \<noteq> i \<longrightarrow> k \<noteq> i \<longrightarrow> ordered w h k) \<and>
     (\<forall>k. 0 < k \<longrightarrow> k < n \<longrightarrow> parent k = i \<longrightarrow> 0 < i \<longrightarrow> b \<le> parent i \<longrightarrow> w (h ! parent i) \<le> w (h ! k))"

lemma down_pre_swap:
  assumes pre: "down_pre w h i b n" and j: "j < n" "n \<le> length h" "0 < j" "parent j = i" "b \<le> i"
    and least: "\<And>k. 0 < k \<Longrightarrow> k < n \<Longrightarrow> parent k = i \<Longrightarrow> w (h ! j) \<le> w (h ! k)"
  shows "down_pre w (swap h i j) j b n"
proof -
  have ij: "i < j" using parent_less [OF j(3)] j(4) by simp
  have bounds: "i < length h" "j < length h" using ij j by linarith+
  note nth = nth_swap [OF bounds]
  have ord: "\<And>k. 0 < k \<Longrightarrow> k < n \<Longrightarrow> b \<le> parent k \<Longrightarrow> parent k \<noteq> i \<Longrightarrow> k \<noteq> i \<Longrightarrow> w (h ! parent k) \<le> w (h ! k)"
    using pre by (simp add: down_pre_def ordered_def)
  have "ordered w (swap h i j) k"
    if k: "0 < k" "k < n" "b \<le> parent k" "parent k \<noteq> j" "k \<noteq> j" for k
  proof -
    consider "k = i" | "k \<noteq> i" "parent k = i" | "k \<noteq> i" "parent k \<noteq> i" by blast
    then show ?thesis
    proof cases
      case 1
      with k(1) have i: "0 < i" "parent i < i" using parent_less by simp_all
      with k(3) 1 pre j(1,3,4) have "w (h ! parent i) \<le> w (h ! j)" by (simp add: down_pre_def)
      with i ij 1 show ?thesis by (simp add: ordered_def nth)
    next
      case 2
      then show ?thesis using least [OF k(1,2)] k(5) ij by (simp add: ordered_def nth)
    next
      case 3
      then show ?thesis using ord [OF k(1,2,3)] k(4,5) by (simp add: ordered_def nth)
    qed
  qed
  moreover have "w (swap h i j ! parent j) \<le> w (swap h i j ! k)"
    if k: "0 < k" "k < n" "parent k = j" for k
  proof -
    have "j < k" using parent_less [OF k(1)] k(3) by simp
    with ord [OF k(1,2)] k(3) ij j(4,5) show ?thesis by (simp add: nth)
  qed
  ultimately show ?thesis unfolding down_pre_def by blast
qed

lemma down_ordered:
  "down_pre w h i b n \<Longrightarrow> i < n \<Longrightarrow> n \<le> length h \<Longrightarrow> b \<le> i \<Longrightarrow>
   (\<forall>k. 0 < k \<longrightarrow> k < n \<longrightarrow> b \<le> parent k \<longrightarrow> k \<noteq> i \<or> i < snd (down w h i n) \<longrightarrow>
      ordered w (fst (down w h i n)) k) \<and>
   (snd (down w h i n) = i \<longrightarrow> fst (down w h i n) = h)"
proof (induction w h i n rule: down.induct)
  case (1 w h i n)
  let ?j = "if 2 * i + 2 < n \<and> w (h ! (2 * i + 2)) < w (h ! (2 * i + 1)) then 2 * i + 2 else 2 * i + 1"
  have children: "k = 2 * i + 1 \<or> k = 2 * i + 2" if "0 < k" "parent k = i" for k
    using that parent_eq by blast
  show ?case
  proof (cases "n \<le> 2 * i + 1 \<or> \<not> w (h ! ?j) < w (h ! i)")
    case True
    then have stop: "down w h i n = (h, i)" by (subst down.simps) (auto simp: Let_def)
    have "ordered w h k" if k: "0 < k" "k < n" "b \<le> parent k" "k \<noteq> i" for k
    proof (cases "parent k = i")
      case p: True
      from children [OF k(1) p] k(2) True have "w (h ! i) \<le> w (h ! k)" by (auto split: if_splits)
      with p show ?thesis by (simp add: ordered_def)
    next
      case False
      with k "1.prems"(1) show ?thesis by (simp add: down_pre_def)
    qed
    with stop show ?thesis by simp
  next
    case False
    then have step: "down w h i n = down w (swap h i ?j) ?j n" by (subst down.simps) (simp add: Let_def)
    have nb: "\<not> n \<le> 2 * i + 1" and less: "w (h ! ?j) < w (h ! i)" using False by blast+
    have j: "?j < n" "i < ?j" "0 < ?j" "parent ?j = i" using nb by (auto simp: parent_def)
    have least: "w (h ! ?j) \<le> w (h ! k)" if "0 < k" "k < n" "parent k = i" for k
      using children [OF that(1,3)] that(2) by auto
    have pre: "down_pre w (swap h i ?j) ?j b n"
      by (rule down_pre_swap [OF "1.prems"(1) j(1) "1.prems"(3) j(3,4) "1.prems"(4) least])
    have "b \<le> ?j" using j(2) "1.prems"(4) by linarith
    have nn: "\<not> \<not> w (h ! ?j) < w (h ! i)" using less by blast
    have len: "n \<le> length (swap h i ?j)" using "1.prems"(3) by simp
    from "1.IH" [OF nb refl nn pre j(1) len \<open>b \<le> ?j\<close>]
    have IH: "\<And>k. 0 < k \<Longrightarrow> k < n \<Longrightarrow> b \<le> parent k \<Longrightarrow> k \<noteq> ?j \<or> ?j < snd (down w h i n) \<Longrightarrow>
        ordered w (fst (down w h i n)) k"
      "snd (down w h i n) = ?j \<Longrightarrow> fst (down w h i n) = swap h i ?j"
      unfolding step by blast+
    have ge: "?j \<le> snd (down w h i n)"
      using down_perm [of ?j n "swap h i ?j" w] j(1) "1.prems"(3) unfolding step by simp
    have bounds: "i < length h" "?j < length h" using j "1.prems"(3) by linarith+
    have "ordered w (fst (down w h i n)) ?j" if "\<not> ?j < snd (down w h i n)"
    proof -
      have "fst (down w h i n) = swap h i ?j" using that ge IH(2) by linarith
      then show ?thesis using j(2,4) less nth_swap [OF bounds] by (simp add: ordered_def)
    qed
    with IH(1) have "ordered w (fst (down w h i n)) k" if "0 < k" "k < n" "b \<le> parent k" for k
      using that by (cases "k = ?j") blast+
    moreover have "snd (down w h i n) \<noteq> i" using ge j(2) by linarith
    ultimately show ?thesis by blast
  qed
qed

section \<open>The operations\<close>

lemma heap_Push_spec:
  assumes "heap w h (length h)"
  shows "heap w (heap_Push w x h) (length h + 1) \<and> mset (heap_Push w x h) = add_mset x (mset h) \<and>
    length (heap_Push w x h) = length h + 1"
proof -
  have "ordered w (h @ [x]) k" if "0 < k" "k < length h" for k
    using that assms parent_less [of k] by (simp add: heap_def ordered_def nth_append)
  moreover have "parent k \<noteq> length h" if "0 < k" "k < length (h @ [x])" for k
    using that parent_less [of k] by simp
  ultimately have "up_pre w (h @ [x]) (length h) (length (h @ [x]))"
    by (simp add: up_pre_def)
  from up_heap [OF this] up_perm [of "length h" "h @ [x]" w] show ?thesis
    by (simp add: heap_Push_def)
qed

text \<open>
  The common part of \<open>Fix\<close> and \<open>Remove\<close>: repair the first \<open>n\<close> elements after the one at \<open>i\<close> has
  been replaced.
\<close>

definition repair :: "('a \<Rightarrow> int) \<Rightarrow> 'a list \<Rightarrow> nat \<Rightarrow> nat \<Rightarrow> 'a list" where
  "repair w h i n = (case down w h i n of (h', i') \<Rightarrow> if i < i' then h' else up w h' i)"

lemma repair_heap:
  assumes "down_pre w h i 0 n" "i < n" "n \<le> length h"
  shows "heap w (repair w h i n) n \<and> mset (repair w h i n) = mset h \<and>
    length (repair w h i n) = length h \<and> (\<forall>k \<ge> n. repair w h i n ! k = h ! k)"
proof -
  obtain h' i' where down: "down w h i n = (h', i')" by fastforce
  have ord: "\<forall>k. 0 < k \<longrightarrow> k < n \<longrightarrow> k \<noteq> i \<or> i < i' \<longrightarrow> ordered w h' k" "i' = i \<longrightarrow> h' = h"
    using down_ordered [OF assms(1) assms(2,3)] down by simp_all
  have perm: "mset h' = mset h" "length h' = length h" "\<forall>k \<ge> n. h' ! k = h ! k" "i \<le> i'"
    using down_perm [OF assms(2,3), of w] down by simp_all
  show ?thesis
  proof (cases "i < i'")
    case True
    with ord(1) perm down show ?thesis by (simp add: repair_def heap_def)
  next
    case False
    then have same: "h' = h" using perm(4) ord(2) by simp
    have "up_pre w h i n"
      using ord(1) assms(1) unfolding same up_pre_def down_pre_def by blast
    from up_heap [OF this assms(2,3)] up_perm [of i h w] assms(2,3)
    show ?thesis using down False same by (simp add: repair_def)
  qed
qed

lemma heap_Fix_spec:
  assumes "i < length h" "\<And>k. 0 < k \<Longrightarrow> k < length h \<Longrightarrow> parent k \<noteq> i \<Longrightarrow> k \<noteq> i \<Longrightarrow> ordered w h k"
    and "\<And>k. 0 < k \<Longrightarrow> k < length h \<Longrightarrow> parent k = i \<Longrightarrow> 0 < i \<Longrightarrow> w (h ! parent i) \<le> w (h ! k)"
  shows "heap w (heap_Fix w h i) (length h) \<and> mset (heap_Fix w h i) = mset h \<and>
    length (heap_Fix w h i) = length h"
proof -
  have "down_pre w h i 0 (length h)" using assms(2,3) by (simp add: down_pre_def)
  from repair_heap [OF this assms(1)] show ?thesis by (simp add: heap_Fix_def repair_def)
qed

text \<open>Removing the element at \<open>i\<close>: the last one takes its place and is repaired.\<close>

lemma down_pre_replaced:
  assumes "heap w h (Suc n)" "i < n" "n < length h"
  shows "down_pre w (swap h i n) i 0 n"
proof -
  note nth = nth_swap [of i h n]
  have ord: "\<And>k. 0 < k \<Longrightarrow> k < Suc n \<Longrightarrow> w (h ! parent k) \<le> w (h ! k)"
    using assms(1) by (simp add: heap_def ordered_def)
  have "ordered w (swap h i n) k" if "0 < k" "k < n" "parent k \<noteq> i" "k \<noteq> i" for k
    using that ord [of k] parent_less [of k] assms(2,3) by (simp add: ordered_def nth)
  moreover have "w (swap h i n ! parent i) \<le> w (swap h i n ! k)"
    if k: "0 < k" "k < n" "parent k = i" "0 < i" for k
  proof -
    have "parent i < i" "i < k" using parent_less [of i] parent_less [of k] k by simp_all
    with ord [of k] ord [of i] k assms(2,3) show ?thesis by (simp add: nth)
  qed
  ultimately show ?thesis by (simp add: down_pre_def)
qed

lemma butlast_repair:
  assumes "heap w h' n" "mset h' = mset h" "length h' = Suc n"
  shows "heap w (butlast h') n" "mset h = add_mset (last h') (mset (butlast h'))"
    "length (butlast h') = n"
proof -
  have "butlast h' ! k = h' ! k" if "k < n" for k using that assms(3) by (simp add: nth_butlast)
  moreover have "parent k < n" if "0 < k" "k < n" for k using that parent_less [of k] by simp
  ultimately show "heap w (butlast h') n" using assms(1) by (simp add: heap_def ordered_def)
  have "h' = butlast h' @ [last h']" using assms(3) by (cases h') simp_all
  then show "mset h = add_mset (last h') (mset (butlast h'))"
    using assms(2) by (metis add_mset_add_single mset.simps mset_append)
  show "length (butlast h') = n" using assms(3) by simp
qed

lemma heap_Remove_spec:
  assumes "heap w h (length h)" "i < length h"
  shows "fst (heap_Remove w h i) = h ! i \<and>
    heap w (snd (heap_Remove w h i)) (length (snd (heap_Remove w h i))) \<and>
    mset h = add_mset (h ! i) (mset (snd (heap_Remove w h i)))"
proof -
  define n where "n = length h - 1"
  define h' where "h' = (if n = i then h else repair w (swap h i n) i n)"
  have n: "length h = Suc n" using assms(2) n_def by simp
  have rem: "heap_Remove w h i = (last h', butlast h')"
    by (simp add: heap_Remove_def Let_def n_def h'_def repair_def)
  have h': "heap w h' n \<and> mset h' = mset h \<and> length h' = Suc n \<and> h' ! n = h ! i"
  proof (cases "n = i")
    case True
    with assms(1) n show ?thesis by (simp add: h'_def heap_def)
  next
    case False
    then have i: "i < n" using assms(2) n by simp
    with down_pre_replaced [of w h n i] assms(1) n
    have "down_pre w (swap h i n) i 0 n" by simp
    from repair_heap [OF this i] n i nth_swap [of i h n n] False show ?thesis
      by (simp add: h'_def)
  qed
  then have "last h' = h ! i" by (metis Zero_not_Suc diff_Suc_1 last_conv_nth list.size(3))
  with butlast_repair [of w h' n h] h' show ?thesis by (simp add: rem)
qed

lemma heap_Pop_Remove: "h \<noteq> [] \<Longrightarrow> heap_Pop w h = heap_Remove w h 0"
proof -
  assume "h \<noteq> []"
  then have "h \<noteq> [] \<and> up w x 0 = x" for x by (subst up.simps) (simp add: parent_def)
  then show ?thesis
    by (cases "length h - 1 = 0")
       (auto simp: heap_Pop_def heap_Remove_def Let_def down.simps [of w _ 0 0] swap_def split: prod.split)
qed

lemma heap_init_loop_spec:
  assumes "i \<le> length h" "\<forall>k. 0 < k \<longrightarrow> k < length h \<longrightarrow> i \<le> parent k \<longrightarrow> ordered w h k"
  shows "heap w (heap_init_loop w h i) (length h) \<and> mset (heap_init_loop w h i) = mset h \<and>
    length (heap_init_loop w h i) = length h"
  using assms
proof (induction i arbitrary: h)
  case 0
  then show ?case by (simp add: heap_def)
next
  case (Suc i)
  let ?h = "fst (down w h i (length h))"
  have i: "i < length h" using Suc.prems(1) by simp
  have "down_pre w h i i (length h)"
    using Suc.prems(2) parent_less [of i] by (auto simp: down_pre_def)
  from down_ordered [OF this i] have
    "\<And>k. 0 < k \<Longrightarrow> k < length h \<Longrightarrow> i \<le> parent k \<Longrightarrow> k \<noteq> i \<Longrightarrow> ordered w ?h k"
    by simp
  moreover have "i \<le> parent k \<Longrightarrow> 0 < k \<Longrightarrow> k \<noteq> i" for k using parent_less [of k] by auto
  moreover have "mset ?h = mset h" "length ?h = length h" using down_perm [OF i, of h w] by simp_all
  ultimately show ?case using Suc.IH [of ?h] i by simp
qed

lemma heap_Init_spec:
  "heap w (heap_Init w h) (length h) \<and> mset (heap_Init w h) = mset h \<and>
   length (heap_Init w h) = length h"
proof -
  have "\<not> length h div 2 \<le> parent k" if "0 < k" "k < length h" for k
    using that by (auto simp: parent_def)
  then show ?thesis unfolding heap_Init_def by (intro heap_init_loop_spec) auto
qed

section \<open>The contract of a priority queue\<close>

fun pops :: "('q \<Rightarrow> 'a \<times> 'q) \<Rightarrow> nat \<Rightarrow> 'q \<Rightarrow> 'a list" where
  "pops pop 0 q = []"
| "pops pop (Suc n) q = fst (pop q) # pops pop n (snd (pop q))"

locale min_queue =
  fixes ok :: "'q \<Rightarrow> bool"
    and elems :: "'q \<Rightarrow> 'a multiset"
    and key :: "'a \<Rightarrow> int"
    and push :: "'a \<Rightarrow> 'q \<Rightarrow> 'q"
    and pop :: "'q \<Rightarrow> 'a \<times> 'q"
  assumes ok_push: "ok q \<Longrightarrow> ok (push x q)"
    and elems_push: "ok q \<Longrightarrow> elems (push x q) = add_mset x (elems q)"
    and ok_pop: "ok q \<Longrightarrow> elems q \<noteq> {#} \<Longrightarrow> ok (snd (pop q))"
    and elems_pop: "ok q \<Longrightarrow> elems q \<noteq> {#} \<Longrightarrow> elems q = add_mset (fst (pop q)) (elems (snd (pop q)))"
    and pop_least: "ok q \<Longrightarrow> y \<in># elems q \<Longrightarrow> key (fst (pop q)) \<le> key y"
begin

lemma ok_pushes: "ok q \<Longrightarrow> ok (fold push xs q) \<and> elems (fold push xs q) = mset xs + elems q"
  by (induction xs arbitrary: q) (simp_all add: ok_push elems_push)

text \<open>Popping everything gives the elements in the order of their keys.\<close>

lemma pops_sorted:
  "ok q \<Longrightarrow> n = size (elems q) \<Longrightarrow>
   mset (pops pop n q) = elems q \<and> sorted_wrt (\<lambda>a b. key a \<le> key b) (pops pop n q)"
proof (induction n arbitrary: q)
  case (Suc n)
  then have ne: "elems q \<noteq> {#}" by auto
  note e = elems_pop [OF Suc.prems(1) ne]
  have "n = size (elems (snd (pop q)))" using Suc.prems(2) e by simp
  note IH = Suc.IH [OF ok_pop [OF Suc.prems(1) ne] this]
  have "key (fst (pop q)) \<le> key y" if "y \<in> set (pops pop n (snd (pop q)))" for y
  proof -
    from that IH have "y \<in># elems (snd (pop q))" by (metis set_mset_mset)
    with e have "y \<in># elems q" by simp
    then show ?thesis by (rule pop_least [OF Suc.prems(1)])
  qed
  with IH e show ?case by simp
qed simp

end

interpretation heap_queue: min_queue "\<lambda>h. heap w h (length h)" mset w "heap_Push w" "heap_Pop w" for w
proof
  fix h :: "'a list" and x
  assume ok: "heap w h (length h)"
  show "heap w (heap_Push w x h) (length (heap_Push w x h))"
    "mset (heap_Push w x h) = add_mset x (mset h)"
    using heap_Push_spec [OF ok] by simp_all
  show "mset h \<noteq> {#} \<Longrightarrow> heap w (snd (heap_Pop w h)) (length (snd (heap_Pop w h)))"
    "mset h \<noteq> {#} \<Longrightarrow> mset h = add_mset (fst (heap_Pop w h)) (mset (snd (heap_Pop w h)))"
    using heap_Remove_spec [OF ok, of 0] by (simp_all add: heap_Pop_Remove)
  show "w (fst (heap_Pop w h)) \<le> w y" if "y \<in># mset h" for y
  proof -
    from that obtain k where k: "k < length h" "y = h ! k" by (auto simp: in_set_conv_nth)
    then have "h \<noteq> []" by auto
    with heap_Remove_spec [OF ok, of 0] have "fst (heap_Pop w h) = h ! 0"
      by (simp add: heap_Pop_Remove)
    with heap_root [OF ok k(1)] k(2) show ?thesis by simp
  qed
qed

section \<open>The package over its interface\<close>

text \<open>
  The functions of the package as they are written, over the \<open>Less\<close> and \<open>Swap\<close> of the client's
  type.  When these act on a list of elements as the client's view \<open>elems\<close> says, so do the
  functions: the client keeps its own bookkeeping (here, the index of every item) in the state.
\<close>

function up_loop ::
    "('s \<Rightarrow> nat \<Rightarrow> nat \<Rightarrow> bool) \<Rightarrow> ('s \<Rightarrow> nat \<Rightarrow> nat \<Rightarrow> 's) \<Rightarrow> 's \<Rightarrow> nat \<Rightarrow> 's" where
  "up_loop Less Swap s j =
     (let i = parent j in
      if i = j \<or> \<not> Less s j i then s else up_loop Less Swap (Swap s i j) i)"
  by pat_completeness auto
termination
  by (relation "measure (\<lambda>(Less, Swap, s, j). j)") (auto simp: parent_def)

function down_loop ::
    "('s \<Rightarrow> nat \<Rightarrow> nat \<Rightarrow> bool) \<Rightarrow> ('s \<Rightarrow> nat \<Rightarrow> nat \<Rightarrow> 's) \<Rightarrow> 's \<Rightarrow> nat \<Rightarrow> nat \<Rightarrow> 's \<times> nat" where
  "down_loop Less Swap s i n =
     (if n \<le> 2 * i + 1 then (s, i)
      else let j = (if 2 * i + 2 < n \<and> Less s (2 * i + 2) (2 * i + 1) then 2 * i + 2 else 2 * i + 1) in
        if \<not> Less s j i then (s, i) else down_loop Less Swap (Swap s i j) j n)"
  by pat_completeness auto
termination
  by (relation "measure (\<lambda>(Less, Swap, s, i, n). n - i)") auto

declare up_loop.simps [simp del] down_loop.simps [simp del]

definition repair_loop ::
    "('s \<Rightarrow> nat \<Rightarrow> nat \<Rightarrow> bool) \<Rightarrow> ('s \<Rightarrow> nat \<Rightarrow> nat \<Rightarrow> 's) \<Rightarrow> 's \<Rightarrow> nat \<Rightarrow> nat \<Rightarrow> 's" where
  "repair_loop Less Swap s i n =
     (case down_loop Less Swap s i n of (s', i') \<Rightarrow> if i < i' then s' else up_loop Less Swap s' i)"

fun init_loop ::
    "('s \<Rightarrow> nat \<Rightarrow> nat \<Rightarrow> bool) \<Rightarrow> ('s \<Rightarrow> nat \<Rightarrow> nat \<Rightarrow> 's) \<Rightarrow> 's \<Rightarrow> nat \<Rightarrow> nat \<Rightarrow> 's" where
  "init_loop Less Swap s n 0 = s"
| "init_loop Less Swap s n (Suc i) = init_loop Less Swap (fst (down_loop Less Swap s i n)) n i"

locale heap_interface =
  fixes Less :: "'s \<Rightarrow> nat \<Rightarrow> nat \<Rightarrow> bool"
    and Swap :: "'s \<Rightarrow> nat \<Rightarrow> nat \<Rightarrow> 's"
    and elems :: "'s \<Rightarrow> 'a list"
    and w :: "'a \<Rightarrow> int"
    and good :: "'s \<Rightarrow> bool"
  assumes good_Swap:
      "good s \<Longrightarrow> i < length (elems s) \<Longrightarrow> j < length (elems s) \<Longrightarrow> good (Swap s i j)"
    and elems_Swap:
      "good s \<Longrightarrow> i < length (elems s) \<Longrightarrow> j < length (elems s) \<Longrightarrow> elems (Swap s i j) = swap (elems s) i j"
    and Less_iff:
      "good s \<Longrightarrow> i < length (elems s) \<Longrightarrow> j < length (elems s) \<Longrightarrow>
       Less s i j \<longleftrightarrow> w (elems s ! i) < w (elems s ! j)"
begin

lemma up_loop_sim:
  "good s \<Longrightarrow> j < length (elems s) \<Longrightarrow>
   good (up_loop Less Swap s j) \<and> elems (up_loop Less Swap s j) = up w (elems s) j"
proof (induction j arbitrary: s rule: less_induct)
  case (less j)
  have i: "parent j < length (elems s)"
    using less.prems(2) parent_less [of j] by (cases "j = 0") (simp_all add: parent_def)
  note swapped = elems_Swap [OF less.prems(1) i less.prems(2)] good_Swap [OF less.prems(1) i less.prems(2)]
  show ?case
  proof (cases "parent j = j \<or> \<not> Less s j (parent j)")
    case True
    then show ?thesis using less.prems Less_iff [OF less.prems i]
      by (auto simp: up_loop.simps [of _ _ s j] up.simps [of w "elems s" j] Let_def)
  next
    case False
    then have "parent j < j" using parent_less [of j] by (cases "j = 0") (simp_all add: parent_def)
    with less.IH [OF this swapped(2)] i swapped have
      "good (up_loop Less Swap (Swap s (parent j) j) (parent j)) \<and>
       elems (up_loop Less Swap (Swap s (parent j) j) (parent j)) =
         up w (swap (elems s) (parent j) j) (parent j)"
      by simp
    with False Less_iff [OF less.prems i] show ?thesis
      by (simp add: up_loop.simps [of _ _ s j] up.simps [of w "elems s" j] Let_def)
  qed
qed

lemma down_loop_sim:
  "good s \<Longrightarrow> i < n \<Longrightarrow> n \<le> length (elems s) \<Longrightarrow>
   good (fst (down_loop Less Swap s i n)) \<and>
   elems (fst (down_loop Less Swap s i n)) = fst (down w (elems s) i n) \<and>
   snd (down_loop Less Swap s i n) = snd (down w (elems s) i n)"
proof (induction "n - i" arbitrary: s i rule: less_induct)
  case (less i)
  let ?j = "if 2 * i + 2 < n \<and> w (elems s ! (2 * i + 2)) < w (elems s ! (2 * i + 1))
    then 2 * i + 2 else 2 * i + 1"
  show ?case
  proof (cases "n \<le> 2 * i + 1")
    case True
    then show ?thesis using less.prems
      by (simp add: down_loop.simps [of _ _ s i n] down.simps [of w "elems s" i n])
  next
    case False
    have bounds: "i < length (elems s)" "?j < length (elems s)" "?j < n" "i < ?j"
      using False less.prems by auto
    have j: "(if 2 * i + 2 < n \<and> Less s (2 * i + 2) (2 * i + 1) then 2 * i + 2 else 2 * i + 1) = ?j"
      using False less.prems Less_iff [OF less.prems(1), of "2 * i + 2" "2 * i + 1"] by auto
    have L: "Less s ?j i \<longleftrightarrow> w (elems s ! ?j) < w (elems s ! i)"
      using Less_iff [OF less.prems(1) bounds(2,1)] .
    note swapped = elems_Swap [OF less.prems(1) bounds(1,2)] good_Swap [OF less.prems(1) bounds(1,2)]
    have "n - ?j < n - i" using bounds by linarith
    note IH = less.hyps [OF this swapped(2) bounds(3)]
    have loop: "down_loop Less Swap s i n =
        (if \<not> Less s ?j i then (s, i) else down_loop Less Swap (Swap s i ?j) ?j n)"
      using False by (subst down_loop.simps) (simp only: Let_def j if_False)
    have list: "down w (elems s) i n =
        (if \<not> Less s ?j i then (elems s, i) else down w (swap (elems s) i ?j) ?j n)"
      using False by (subst down.simps) (simp only: Let_def L if_False)
    have "n \<le> length (elems (Swap s i ?j))" using swapped(1) less.prems(3) by simp
    from IH [OF this] have step: "good (fst (down_loop Less Swap (Swap s i ?j) ?j n))"
      "elems (fst (down_loop Less Swap (Swap s i ?j) ?j n)) = fst (down w (swap (elems s) i ?j) ?j n)"
      "snd (down_loop Less Swap (Swap s i ?j) ?j n) = snd (down w (swap (elems s) i ?j) ?j n)"
      unfolding swapped(1) by blast+
    show ?thesis
    proof (cases "Less s ?j i")
      case True
      then have "down_loop Less Swap s i n = down_loop Less Swap (Swap s i ?j) ?j n"
        "down w (elems s) i n = down w (swap (elems s) i ?j) ?j n"
        unfolding loop list by presburger+
      with step show ?thesis by presburger
    next
      case False
      then have "down_loop Less Swap s i n = (s, i)" "down w (elems s) i n = (elems s, i)"
        unfolding loop list by presburger+
      with less.prems(1) show ?thesis by simp
    qed
  qed
qed

lemma repair_loop_sim:
  assumes "good s" "i < n" "n \<le> length (elems s)"
  shows "good (repair_loop Less Swap s i n) \<and> elems (repair_loop Less Swap s i n) = repair w (elems s) i n"
proof -
  obtain s' i' where d: "down_loop Less Swap s i n = (s', i')" by fastforce
  with down_loop_sim [OF assms] have s': "good s'" "elems s' = fst (down w (elems s) i n)"
      "i' = snd (down w (elems s) i n)"
    by simp_all
  have "i < length (elems s')"
    using down_perm [OF assms(2,3), of w] s'(2) assms(2,3) by simp
  from up_loop_sim [OF s'(1) this] s' d show ?thesis
    by (simp add: repair_loop_def repair_def split_beta)
qed

lemma init_loop_sim:
  "good s \<Longrightarrow> n = length (elems s) \<Longrightarrow> i \<le> n \<Longrightarrow>
   good (init_loop Less Swap s n i) \<and> elems (init_loop Less Swap s n i) = heap_init_loop w (elems s) i"
proof (induction i arbitrary: s)
  case (Suc i)
  have i: "i < n" "n \<le> length (elems s)" using Suc.prems by simp_all
  let ?s = "fst (down_loop Less Swap s i n)"
  have s: "good ?s" "elems ?s = fst (down w (elems s) i n)" using down_loop_sim [OF Suc.prems(1) i] by simp_all
  have "n = length (elems ?s)" using down_perm [OF i, of w] s(2) Suc.prems(2) by simp
  with Suc.IH [OF s(1)] i(1) s(2) Suc.prems(2) show ?case by simp
qed simp

end

end
