(* ===== verification/Work_Queue.thy ===== *)
theory Work_Queue
  imports Heap
begin

text \<open>
  The queue of \<open>util/queue/queue.go\<close>, which every worker pool of TestGrid takes its names from.  A
  queue is a binary heap of items, ordered by the time each is due, and a map from names to the
  same items; an item knows its index in the heap, and \<open>-1\<close> when it is not in it.  An item of the
  heap is here the name under which the map has it.  Times are nanoseconds.

  The locks make every operation atomic, so that a run is a sequence of operations; waiting and
  waking up (\<open>rouse\<close>, \<open>sleep\<close>) and logging are not modelled.
\<close>

record item =
  it_when :: int
  it_index :: int

record work_queue =
  wq_queue :: "string list"
  wq_items :: "(string, item) gomap"

definition empty_queue :: work_queue where
  "empty_queue = \<lparr>wq_queue = [], wq_items = []\<rparr>"

definition when_of :: "work_queue \<Rightarrow> string \<Rightarrow> int" where
  "when_of q name = (case map_of (wq_items q) name of Some it \<Rightarrow> it_when it | None \<Rightarrow> 0)"

definition index_of :: "work_queue \<Rightarrow> string \<Rightarrow> int" where
  "index_of q name = (case map_of (wq_items q) name of Some it \<Rightarrow> it_index it | None \<Rightarrow> - 1)"

definition set_index :: "string \<Rightarrow> int \<Rightarrow> work_queue \<Rightarrow> work_queue" where
  "set_index name i q = q\<lparr>wq_items := AList.map_entry name (\<lambda>it. it\<lparr>it_index := i\<rparr>) (wq_items q)\<rparr>"

definition set_when :: "string \<Rightarrow> int \<Rightarrow> work_queue \<Rightarrow> work_queue" where
  "set_when name t q = q\<lparr>wq_items := AList.map_entry name (\<lambda>it. it\<lparr>it_when := t\<rparr>) (wq_items q)\<rparr>"

section \<open>The heap interface of \<open>priorityQueue\<close>\<close>

definition pq_Less :: "work_queue \<Rightarrow> nat \<Rightarrow> nat \<Rightarrow> bool" where
  "pq_Less q i j \<longleftrightarrow> when_of q (wq_queue q ! i) < when_of q (wq_queue q ! j)"

definition pq_Swap :: "work_queue \<Rightarrow> nat \<Rightarrow> nat \<Rightarrow> work_queue" where
  "pq_Swap q i j =
     (let q = q\<lparr>wq_queue := swap (wq_queue q) i j\<rparr>;
          q = set_index (wq_queue q ! i) (int i) q
      in set_index (wq_queue q ! j) (int j) q)"

definition pq_Push :: "string \<Rightarrow> work_queue \<Rightarrow> work_queue" where
  "pq_Push name q = (set_index name (int (length (wq_queue q))) q)\<lparr>wq_queue := wq_queue q @ [name]\<rparr>"

definition pq_Pop :: "work_queue \<Rightarrow> string \<times> work_queue" where
  "pq_Pop q =
     (let name = last (wq_queue q)
      in (name, (set_index name (- 1) q)\<lparr>wq_queue := butlast (wq_queue q)\<rparr>))"

definition peek :: "work_queue \<Rightarrow> string option" where
  "peek q = head (wq_queue q)"

text \<open>\<open>heap.Push\<close>, \<open>heap.Pop\<close>, \<open>heap.Remove\<close>, \<open>heap.Fix\<close> and \<open>heap.Init\<close> on the queue.\<close>

definition queue_Push :: "string \<Rightarrow> work_queue \<Rightarrow> work_queue" where
  "queue_Push name q = (let q' = pq_Push name q in up_loop pq_Less pq_Swap q' (length (wq_queue q') - 1))"

definition queue_Pop :: "work_queue \<Rightarrow> string \<times> work_queue" where
  "queue_Pop q =
     (let n = length (wq_queue q) - 1
      in pq_Pop (fst (down_loop pq_Less pq_Swap (pq_Swap q 0 n) 0 n)))"

text \<open>An index outside of the heap makes \<open>Swap\<close>, or \<open>Pop\<close> on an empty heap, panic.\<close>

definition take_item :: "work_queue \<Rightarrow> nat \<Rightarrow> string \<times> work_queue" where
  "take_item q i =
     (let n = length (wq_queue q) - 1
      in pq_Pop (if n = i then q else repair_loop pq_Less pq_Swap (pq_Swap q i n) i n))"

definition queue_Remove :: "int \<Rightarrow> work_queue \<Rightarrow> work_queue go" where
  "queue_Remove i q =
     (if i < 0 \<or> int (length (wq_queue q)) \<le> i then Inl (Panic ''index out of range'')
      else Inr (snd (take_item q (nat i))))"

text \<open>\<open>down\<close> and \<open>up\<close> from \<open>-1\<close>, the index of an item that is not in the heap, stop at once.\<close>

definition queue_Fix :: "int \<Rightarrow> work_queue \<Rightarrow> work_queue" where
  "queue_Fix i q = (if i < 0 then q else repair_loop pq_Less pq_Swap q (nat i) (length (wq_queue q)))"

definition queue_Heapify :: "work_queue \<Rightarrow> work_queue" where
  "queue_Heapify q =
     init_loop pq_Less pq_Swap q (length (wq_queue q)) (length (wq_queue q) div 2)"

section \<open>The operations\<close>

definition add_name :: "int \<Rightarrow> string \<Rightarrow> work_queue \<Rightarrow> work_queue" where
  "add_name when name q =
     (if map_of (wq_items q) name \<noteq> None then q
      else queue_Push name (q\<lparr>wq_items :=
             AList.update name \<lparr>it_when = when, it_index = int (length (wq_queue q))\<rparr> (wq_items q)\<rparr>))"

definition remove_name :: "string list \<Rightarrow> work_queue \<Rightarrow> string \<Rightarrow> work_queue go" where
  "remove_name names q name =
     (if name \<in> set names then Inr q
      else go_bind (queue_Remove (index_of q name) q)
             (\<lambda>q'. Inr (q'\<lparr>wq_items := AList.delete name (wq_items q')\<rparr>)))"

definition Init :: "string list \<Rightarrow> int \<Rightarrow> work_queue \<Rightarrow> work_queue go" where
  "Init names when q =
     (let q' = fold (add_name when) names q
      in go_fold (remove_name names) q' (map fst (wq_items q')))"

text \<open>Whether a new time is taken: an earlier one always, a later one only on request.\<close>

definition takes :: "bool \<Rightarrow> int \<Rightarrow> int \<Rightarrow> bool" where
  "takes later when old \<longleftrightarrow> when < old \<or> (later \<and> when \<noteq> old)"

text \<open>The loop of \<open>FixAll\<close> over the given map: the names that are missing, and the new times.\<close>

fun fix_all_loop ::
    "bool \<Rightarrow> (string, int) gomap \<Rightarrow> string list \<Rightarrow> work_queue \<Rightarrow> string list \<times> work_queue" where
  "fix_all_loop later [] missing q = (missing, q)"
| "fix_all_loop later ((name, when) # whens) missing q =
     (if map_of (wq_items q) name = None then fix_all_loop later whens (missing @ [name]) q
      else if takes later when (when_of q name)
      then fix_all_loop later whens missing (set_when name when q)
      else fix_all_loop later whens missing q)"

definition FixAll :: "(string, int) gomap \<Rightarrow> bool \<Rightarrow> work_queue \<Rightarrow> string list option \<times> work_queue" where
  "FixAll whens later q =
     (let (missing, q') = fix_all_loop later whens [] q
      in (if missing \<noteq> [] then Some missing else None, queue_Heapify q'))"

definition Fix :: "string \<Rightarrow> int \<Rightarrow> bool \<Rightarrow> work_queue \<Rightarrow> string option \<times> work_queue" where
  "Fix name when later q =
     (if map_of (wq_items q) name = None then (Some ''not found'', q)
      else if takes later when (when_of q name)
      then (None, queue_Fix (index_of q name) (set_when name when q))
      else (None, q))"

definition Current :: "work_queue \<Rightarrow> (string, int) gomap" where
  "Current q = fold (\<lambda>name m. AList.update name (when_of q name) m) (wq_queue q) []"

definition Status :: "work_queue \<Rightarrow> nat \<times> (string \<times> int) option" where
  "Status q = (length (wq_queue q), map_option (\<lambda>name. (name, when_of q name)) (peek q))"

text \<open>
  The two functions that \<open>Send\<close> takes the next name from: with a frequency of zero the item leaves
  the heap for good, otherwise it is due again after the frequency.
\<close>

definition send_next :: "int \<Rightarrow> int \<Rightarrow> work_queue \<Rightarrow> (string \<times> int) option \<times> work_queue" where
  "send_next frequency now q =
     (if frequency = 0 then
        if wq_queue q = [] then (None, q)
        else (case queue_Pop q of (name, q') \<Rightarrow> (Some (name, when_of q' name), q'))
      else
        case peek q of
          None \<Rightarrow> (None, q)
        | Some name \<Rightarrow>
            (let when = when_of q name; q' = set_when name (now + frequency) q
             in (Some (name, when), queue_Fix (index_of q' name) q')))"

section \<open>The items and the heap\<close>

text \<open>
  Every name in the heap has an item that knows its place; the items outside of the heap say so.
\<close>

definition indexed :: "work_queue \<Rightarrow> bool" where
  "indexed q \<longleftrightarrow>
     distinct (map fst (wq_items q)) \<and> distinct (wq_queue q) \<and> set (wq_queue q) \<subseteq> fst ` set (wq_items q) \<and>
     (\<forall>k < length (wq_queue q). index_of q (wq_queue q ! k) = int k) \<and>
     (\<forall>name. name \<notin> set (wq_queue q) \<longrightarrow> index_of q name = - 1)"

lemma set_index_simps [simp]:
  "wq_queue (set_index n i q) = wq_queue q" "map fst (wq_items (set_index n i q)) = map fst (wq_items q)"
  "fst ` set (wq_items (set_index n i q)) = fst ` set (wq_items q)"
  "when_of (set_index n i q) = when_of q"
  "index_of (set_index n i q) m = (if m = n \<and> n \<in> fst ` set (wq_items q) then i else index_of q m)"
proof -
  show k: "map fst (wq_items (set_index n i q)) = map fst (wq_items q)" by (simp add: set_index_def)
  then show "fst ` set (wq_items (set_index n i q)) = fst ` set (wq_items q)" by (metis image_set)
  show "when_of (set_index n i q) = when_of q"
    by (rule ext) (auto simp: set_index_def when_of_def map_of_map_entry' split: option.splits)
  show "index_of (set_index n i q) m = (if m = n \<and> n \<in> fst ` set (wq_items q) then i else index_of q m)"
    by (auto simp: set_index_def index_of_def map_of_map_entry' keys_map_of split: option.split)
qed (simp add: set_index_def)

lemma set_when_simps [simp]:
  "wq_queue (set_when n t q) = wq_queue q" "map fst (wq_items (set_when n t q)) = map fst (wq_items q)"
  "fst ` set (wq_items (set_when n t q)) = fst ` set (wq_items q)"
  "index_of (set_when n t q) = index_of q"
  "when_of (set_when n t q) m = (if m = n \<and> n \<in> fst ` set (wq_items q) then t else when_of q m)"
proof -
  show k: "map fst (wq_items (set_when n t q)) = map fst (wq_items q)" by (simp add: set_when_def)
  then show "fst ` set (wq_items (set_when n t q)) = fst ` set (wq_items q)" by (metis image_set)
  show "index_of (set_when n t q) = index_of q"
    by (rule ext) (auto simp: set_when_def index_of_def map_of_map_entry' split: option.splits)
  show "when_of (set_when n t q) m = (if m = n \<and> n \<in> fst ` set (wq_items q) then t else when_of q m)"
    by (auto simp: set_when_def when_of_def map_of_map_entry' keys_map_of split: option.split)
qed (simp add: set_when_def)

definition names :: "work_queue \<Rightarrow> string set" where
  "names q = fst ` set (wq_items q)"

lemma names_simps [simp]:
  "names (set_index n i q) = names q" "names (set_when n t q) = names q"
  "names (q\<lparr>wq_queue := ns\<rparr>) = names q"
  by (simp_all add: names_def)

lemma queue_update_simps [simp]:
  "when_of (q\<lparr>wq_queue := ns\<rparr>) = when_of q" "index_of (q\<lparr>wq_queue := ns\<rparr>) = index_of q"
  by (rule ext, simp add: when_of_def index_of_def)+

lemma pq_Swap_simps:
  assumes "indexed q" "i < length (wq_queue q)" "j < length (wq_queue q)"
  shows "wq_queue (pq_Swap q i j) = swap (wq_queue q) i j" "when_of (pq_Swap q i j) = when_of q"
    "map fst (wq_items (pq_Swap q i j)) = map fst (wq_items q)" "indexed (pq_Swap q i j)"
proof -
  let ?h = "swap (wq_queue q) i j"
  show h: "wq_queue (pq_Swap q i j) = ?h" and w: "when_of (pq_Swap q i j) = when_of q"
    and k: "map fst (wq_items (pq_Swap q i j)) = map fst (wq_items q)"
    by (simp_all add: pq_Swap_def Let_def)
  have keys: "set (wq_queue q) \<subseteq> fst ` set (wq_items q)" using assms(1) by (simp add: indexed_def)
  have set: "set ?h = set (wq_queue q)" "distinct ?h" using assms mset_swap_list
    by (metis set_mset_mset, metis assms(1) indexed_def mset_eq_imp_distinct_iff)
  have nth: "?h ! i = wq_queue q ! j" "?h ! j = wq_queue q ! i"
    using nth_swap [OF assms(2,3)] by simp_all
  have ix: "index_of (pq_Swap q i j) n =
      (if n = wq_queue q ! i then int j else if n = wq_queue q ! j then int i else index_of q n)" for n
    using keys assms(2,3) nth by (simp add: pq_Swap_def Let_def subset_iff)
  have "index_of (pq_Swap q i j) (?h ! l) = int l" if l: "l < length (wq_queue q)" for l
  proof -
    have d: "distinct (wq_queue q)" and o: "index_of q (wq_queue q ! l) = int l"
      using assms(1) l by (simp_all add: indexed_def)
    show ?thesis
      using nth_swap [OF assms(2,3), of l] d o l assms(2,3)
      by (auto simp: ix nth_eq_iff_index_eq)
  qed
  moreover have "index_of (pq_Swap q i j) n = - 1" if "n \<notin> set (wq_queue q)" for n
  proof -
    have "n \<noteq> wq_queue q ! i" "n \<noteq> wq_queue q ! j" using that assms(2,3) by auto
    with that assms(1) show ?thesis by (simp add: ix indexed_def)
  qed
  moreover have "fst ` set (wq_items (pq_Swap q i j)) = fst ` set (wq_items q)" using k by (metis image_set)
  ultimately show "indexed (pq_Swap q i j)"
    using assms(1) h k set keys by (simp add: indexed_def)
qed

text \<open>
  So \<open>priorityQueue\<close> implements the interface of the heap package, the times of the items being
  the keys.
\<close>

interpretation pq: heap_interface pq_Less pq_Swap wq_queue w
  "\<lambda>q. indexed q \<and> when_of q = w \<and> map fst (wq_items q) = ks" for w ks
  by unfold_locales (auto simp: pq_Swap_simps pq_Less_def)

text \<open>The invariant of the queue: the earliest item is on top.\<close>

definition queue_ok :: "work_queue \<Rightarrow> bool" where
  "queue_ok q \<longleftrightarrow> indexed q \<and> heap (when_of q) (wq_queue q) (length (wq_queue q))"

lemma heap_cong:
  "\<forall>x \<in> set h. w x = w' x \<Longrightarrow> n \<le> length h \<Longrightarrow> heap w h n = heap w' h n"
proof -
  assume w: "\<forall>x \<in> set h. w x = w' x" and n: "n \<le> length h"
  have "ordered w h k = ordered w' h k" if "0 < k" "k < n" for k
    using that w n parent_less [of k] by (simp add: ordered_def)
  then show ?thesis by (auto simp: heap_def)
qed

lemma index_member:
  "indexed q \<Longrightarrow> name \<in> set (wq_queue q) \<Longrightarrow>
   \<exists>i < length (wq_queue q). wq_queue q ! i = name \<and> index_of q name = int i"
  by (auto simp: indexed_def in_set_conv_nth)

lemma indexed_set_when: "indexed (set_when n t q) = indexed q"
  by (simp add: indexed_def)

lemma pq_Pop_spec:
  assumes "indexed q" "wq_queue q \<noteq> []"
  shows "indexed (snd (pq_Pop q))" "wq_queue (snd (pq_Pop q)) = butlast (wq_queue q)"
    "when_of (snd (pq_Pop q)) = when_of q" "fst (pq_Pop q) = last (wq_queue q)"
    "map fst (wq_items (snd (pq_Pop q))) = map fst (wq_items q)"
proof -
  let ?x = "last (wq_queue q)" and ?b = "butlast (wq_queue q)"
  have q: "wq_queue q = ?b @ [?x]" using assms(2) by simp
  have d: "?x \<notin> set ?b" "distinct ?b"
    using assms(1) q unfolding indexed_def by (metis distinct_append not_distinct_conv_prefix, metis distinct_butlast)
  have x: "?x \<in> fst ` set (wq_items q)" using assms by (auto simp: indexed_def subset_iff)
  have b: "set ?b \<subseteq> fst ` set (wq_items q)" using assms(1) by (auto simp: indexed_def dest: in_set_butlastD)
  have "index_of q (?b ! k) = int k" if "k < length ?b" for k
    using assms(1) that by (simp add: indexed_def nth_butlast)
  moreover have "?b ! k \<noteq> ?x" if "k < length ?b" for k using d(1) that by (metis nth_mem)
  moreover have "index_of q n = - 1" if "n \<notin> set ?b" "n \<noteq> ?x" for n
  proof -
    have "n \<notin> set (wq_queue q)" using that q by (metis in_set_conv_decomp set_append Un_iff empty_iff empty_set set_ConsD)
    with assms(1) show ?thesis by (simp add: indexed_def)
  qed
  ultimately show "indexed (snd (pq_Pop q))"
    using assms(1) d(2) x b by (simp add: pq_Pop_def indexed_def Let_def)
qed (simp_all add: pq_Pop_def Let_def)

text \<open>Taking the item at index \<open>i\<close> out of the heap.\<close>

lemma take_item_spec:
  assumes "queue_ok q" "i < length (wq_queue q)"
  shows "queue_ok (snd (take_item q i))"
    "mset (wq_queue q) = add_mset (wq_queue q ! i) (mset (wq_queue (snd (take_item q i))))"
    "when_of (snd (take_item q i)) = when_of q"
    "map fst (wq_items (snd (take_item q i))) = map fst (wq_items q)"
    "fst (take_item q i) = wq_queue q ! i"
proof -
  define n where "n = length (wq_queue q) - 1"
  let ?w = "when_of q" and ?ks = "map fst (wq_items q)" and ?h = "wq_queue q"
  let ?p = "if n = i then q else repair_loop pq_Less pq_Swap (pq_Swap q i n) i n"
  let ?h' = "if n = i then ?h else repair ?w (swap ?h i n) i n"
  have ok: "indexed q" "heap ?w ?h (length ?h)" using assms(1) by (simp_all add: queue_ok_def)
  have n: "n < length ?h" "length ?h = Suc n" using assms(2) by (simp_all add: n_def)
  have p: "indexed ?p \<and> when_of ?p = ?w \<and> map fst (wq_items ?p) = ?ks \<and> wq_queue ?p = ?h'"
  proof (cases "n = i")
    case False
    then have "i < n" using assms(2) n by simp
    from pq.repair_loop_sim [where w = ?w and ks = ?ks and s = "pq_Swap q i n", OF _ this]
      pq_Swap_simps [OF ok(1) assms(2) n(1)] n False show ?thesis
      by simp
  qed (use ok in simp)
  have rem: "heap_Remove ?w ?h i = (last ?h', butlast ?h')"
    by (simp add: heap_Remove_def Let_def n_def repair_def)
  note spec = heap_Remove_spec [OF ok(2) assms(2), unfolded rem]
  have ne: "wq_queue ?p \<noteq> []"
  proof (cases "n = i")
    case False
    then have "i < n" using assms(2) n by simp
    with repair_heap [OF down_pre_replaced [of ?w ?h n i]] ok(2) n have "length ?h' = length ?h"
      using False by simp
    with p n show ?thesis by auto
  qed (use n in auto)
  note pop = pq_Pop_spec [OF conjunct1 [OF p] ne]
  have take: "take_item q i = pq_Pop ?p" by (simp only: take_item_def Let_def n_def)
  show "queue_ok (snd (take_item q i))"
    "mset ?h = add_mset (?h ! i) (mset (wq_queue (snd (take_item q i))))"
    "when_of (snd (take_item q i)) = when_of q" "map fst (wq_items (snd (take_item q i))) = ?ks"
    "fst (take_item q i) = ?h ! i"
    unfolding take using pop p spec by (simp_all add: queue_ok_def)
qed

section \<open>What the operations do\<close>

lemma keys_names: "fst ` set (wq_items q) = names q"
  by (simp add: names_def)

lemma names_eq: "map fst (wq_items q') = map fst (wq_items q) \<Longrightarrow> names q' = names q"
  unfolding names_def by (metis image_set)

lemma when_of_absent: "name \<notin> names q \<Longrightarrow> when_of q name = 0"
  by (simp add: names_def when_of_def map_of_eq_None_iff [THEN iffD2])

lemma map_of_items: "map_of (wq_items q) name = None \<longleftrightarrow> name \<notin> names q"
  by (simp add: names_def map_of_eq_None_iff)

lemma queue_names: "indexed q \<Longrightarrow> set (wq_queue q) \<subseteq> names q"
  by (simp add: indexed_def names_def)

lemma add_name_spec:
  assumes "queue_ok q"
  shows "queue_ok (add_name t name q) \<and> names (add_name t name q) = insert name (names q) \<and>
    (name \<in> names q \<longrightarrow> add_name t name q = q) \<and>
    (name \<notin> names q \<longrightarrow> when_of (add_name t name q) = (when_of q)(name := t) \<and>
       mset (wq_queue (add_name t name q)) = add_mset name (mset (wq_queue q)))"
proof (cases "name \<in> names q")
  case True
  with assms show ?thesis by (auto simp: add_name_def map_of_items)
next
  case False
  let ?h = "wq_queue q" and ?w = "(when_of q)(name := t)"
  define q1 where
    "q1 = q\<lparr>wq_items := AList.update name \<lparr>it_when = t, it_index = int (length ?h)\<rparr> (wq_items q)\<rparr>"
  define q2 where "q2 = pq_Push name q1"
  let ?ks = "map fst (wq_items q2)"
  have ok: "indexed q" "heap (when_of q) ?h (length ?h)" using assms by (simp_all add: queue_ok_def)
  have absent: "name \<notin> set ?h" using queue_names [OF ok(1)] False by blast
  have q1: "names q1 = insert name (names q)" "when_of q1 = ?w"
    "index_of q1 = (index_of q)(name := int (length ?h))" "wq_queue q1 = ?h" "distinct (map fst (wq_items q1))"
    using ok(1) by (auto simp: q1_def names_def when_of_def index_of_def fun_eq_iff update_conv' keys_update
        indexed_def distinct_update split: option.split)
  have q2: "wq_queue q2 = ?h @ [name]" "when_of q2 = ?w" "names q2 = insert name (names q)"
    using q1 by (simp_all add: q2_def pq_Push_def)
  have "index_of q2 n = (if n = name then int (length ?h) else index_of q n)" for n
    using q1 by (simp add: q2_def pq_Push_def keys_names)
  then have "indexed q2"
    using ok(1) q2 q1(5) absent False
    by (auto simp: indexed_def keys_names nth_append) (auto simp: q2_def pq_Push_def)
  with q2(2) have good: "indexed q2 \<and> when_of q2 = ?w \<and> map fst (wq_items q2) = ?ks" by simp
  have "heap ?w ?h (length ?h)" using ok(2) absent by (subst heap_cong [of ?h _ "when_of q"]) auto
  from heap_Push_spec [OF this, of name] have push: "heap ?w (up ?w (wq_queue q2) (length ?h)) (length ?h + 1)"
      "mset (up ?w (wq_queue q2) (length ?h)) = add_mset name (mset ?h)"
      "length (up ?w (wq_queue q2) (length ?h)) = length ?h + 1"
    by (simp_all add: heap_Push_def q2(1))
  have add: "add_name t name q = up_loop pq_Less pq_Swap q2 (length ?h)"
    using False q2(1) by (simp add: add_name_def map_of_items queue_Push_def q1_def [symmetric] q2_def [symmetric])
  from pq.up_loop_sim [OF good, of "length ?h"] q2(1) have
    "indexed (add_name t name q)" "when_of (add_name t name q) = ?w"
    "map fst (wq_items (add_name t name q)) = ?ks" "wq_queue (add_name t name q) = up ?w (wq_queue q2) (length ?h)"
    by (simp_all add: add)
  with push names_eq [OF this(3)] q2(3) False show ?thesis by (simp add: queue_ok_def)
qed

lemma queue_Remove_spec:
  assumes "queue_ok q" "name \<in> set (wq_queue q)"
  shows "\<exists>q'. queue_Remove (index_of q name) q = Inr q' \<and> queue_ok q' \<and>
    mset (wq_queue q) = add_mset name (mset (wq_queue q')) \<and> when_of q' = when_of q \<and> names q' = names q"
proof -
  from index_member [OF _ assms(2)] assms(1) obtain i where
    i: "i < length (wq_queue q)" "wq_queue q ! i = name" "index_of q name = int i"
    by (auto simp: queue_ok_def)
  note out = take_item_spec [OF assms(1) i(1)]
  from names_eq [OF out(4)] out(1-3) i show ?thesis by (simp add: queue_Remove_def)
qed

text \<open>Removing an item that has left the heap panics.\<close>

lemma queue_Remove_popped:
  "indexed q \<Longrightarrow> name \<notin> set (wq_queue q) \<Longrightarrow>
   queue_Remove (index_of q name) q = Inl (Panic ''index out of range'')"
  by (simp add: queue_Remove_def indexed_def)

lemma map_entry_same:
  "distinct (map fst m) \<Longrightarrow> map_of m k = None \<or> f (the (map_of m k)) = the (map_of m k) \<Longrightarrow>
   AList.map_entry k f m = m"
  by (induction m) (auto simp: map_of_eq_None_iff split: if_splits)

lemma pq_Swap_0:
  assumes "indexed q" "wq_queue q \<noteq> []"
  shows "pq_Swap q 0 0 = q"
proof -
  let ?n = "wq_queue q ! 0"
  have "index_of q ?n = int 0" using assms unfolding indexed_def by blast
  then have "map_of (wq_items q) ?n = None \<or>
      (the (map_of (wq_items q) ?n))\<lparr>it_index := 0\<rparr> = the (map_of (wq_items q) ?n)"
    by (cases "map_of (wq_items q) ?n") (simp_all add: index_of_def)
  then have "AList.map_entry ?n (\<lambda>it. it\<lparr>it_index := 0\<rparr>) (wq_items q) = wq_items q"
    using assms(1) by (intro map_entry_same) (simp_all add: indexed_def)
  then have "set_index ?n 0 q = q" by (simp add: set_index_def)
  moreover have "swap (wq_queue q) 0 0 = wq_queue q" by (simp add: swap_def)
  ultimately show ?thesis by (simp add: pq_Swap_def)
qed

lemma queue_Pop_take:
  assumes "indexed q" "wq_queue q \<noteq> []"
  shows "queue_Pop q = take_item q 0"
proof -
  define n where "n = length (wq_queue q) - 1"
  have up0: "up_loop pq_Less pq_Swap s 0 = s" for s by (subst up_loop.simps) (simp add: parent_def)
  have pop: "queue_Pop q = pq_Pop (fst (down_loop pq_Less pq_Swap (pq_Swap q 0 n) 0 n))"
    and take: "take_item q 0 = pq_Pop (if n = 0 then q else repair_loop pq_Less pq_Swap (pq_Swap q 0 n) 0 n)"
    by (simp_all only: queue_Pop_def take_item_def Let_def n_def)
  show ?thesis
  proof (cases "n = 0")
    case True
    have "down_loop pq_Less pq_Swap q 0 0 = (q, 0)" by (subst down_loop.simps) simp
    then show ?thesis unfolding pop take using True pq_Swap_0 [OF assms] by simp
  next
    case False
    then show ?thesis unfolding pop take by (simp add: repair_loop_def up0 split_beta)
  qed
qed

lemma queue_Pop_spec:
  assumes "queue_ok q" "wq_queue q \<noteq> []"
  shows "fst (queue_Pop q) = hd (wq_queue q) \<and> queue_ok (snd (queue_Pop q)) \<and>
    mset (wq_queue q) = add_mset (hd (wq_queue q)) (mset (wq_queue (snd (queue_Pop q)))) \<and>
    when_of (snd (queue_Pop q)) = when_of q \<and> names (snd (queue_Pop q)) = names q"
proof -
  have "0 < length (wq_queue q)" "indexed q" using assms by (simp_all add: queue_ok_def)
  note spec = take_item_spec [OF assms(1) this(1)]
  have "wq_queue q ! 0 = hd (wq_queue q)" using assms(2) by (simp add: hd_conv_nth)
  with spec names_eq [OF spec(4)] show ?thesis
    unfolding queue_Pop_take [OF \<open>indexed q\<close> assms(2)] by simp
qed

lemma queue_Fix_spec:
  assumes "queue_ok q" "name \<in> set (wq_queue q)"
    and q'_def: "q' = queue_Fix (index_of q name) (set_when name t q)"
  shows "queue_ok q' \<and> mset (wq_queue q') = mset (wq_queue q) \<and> when_of q' = (when_of q)(name := t) \<and>
    names q' = names q"
proof -
  let ?h = "wq_queue q" and ?w = "(when_of q)(name := t)" and ?s = "set_when name t q"
  have ix: "indexed q" and hp: "heap (when_of q) ?h (length ?h)" using assms(1) by (simp_all add: queue_ok_def)
  from index_member [OF ix assms(2)] obtain i where
    i: "i < length ?h" "?h ! i = name" "index_of q name = int i" by blast
  have d: "distinct ?h" using ix by (simp add: indexed_def)
  have other: "?h ! k \<noteq> name" if "k < length ?h" "k \<noteq> i" for k
    using d i(1,2) that by (metis nth_eq_iff_index_eq)
  have "name \<in> names q" using assms(2) queue_names [OF ix] by blast
  then have w: "when_of ?s = ?w" by (simp add: fun_eq_iff keys_names)
  have le: "parent k < length ?h" "when_of q (?h ! parent k) \<le> when_of q (?h ! k)" if "0 < k" "k < length ?h" for k
    using hp that parent_less [of k] by (simp_all add: heap_def ordered_def)
  have c1: "ordered ?w ?h k" if "0 < k" "k < length ?h" "parent k \<noteq> i" "k \<noteq> i" for k
    using le [OF that(1,2)] other [of k] other [of "parent k"] that by (simp add: ordered_def)
  have c2: "?w (?h ! parent i) \<le> ?w (?h ! k)" if "0 < k" "k < length ?h" "parent k = i" "0 < i" for k
    using le [OF that(1,2)] le [OF that(4) i(1)] other [of k] other [of "parent i"] that
      parent_less [of k] parent_less [of i] by simp
  have pre: "down_pre ?w ?h i 0 (length ?h)" using c1 c2 by (simp add: down_pre_def)
  have q': "q' = repair_loop pq_Less pq_Swap ?s i (length ?h)"
    using i(3) by (simp add: q'_def queue_Fix_def)
  have good: "indexed ?s \<and> when_of ?s = ?w \<and> map fst (wq_items ?s) = map fst (wq_items q)"
    using ix w by (simp add: indexed_set_when)
  have "i < length (wq_queue ?s)" "length ?h \<le> length (wq_queue ?s)" using i(1) by simp_all
  from pq.repair_loop_sim [OF good _ this(2), of i] i(1)
  have r: "indexed q'" "when_of q' = ?w" "map fst (wq_items q') = map fst (wq_items q)"
      "wq_queue q' = repair ?w ?h i (length ?h)"
    unfolding q' by simp_all
  from repair_heap [OF pre i(1)] have
    "heap ?w (wq_queue q') (length (wq_queue q'))" "mset (wq_queue q') = mset ?h"
    unfolding r(4) by simp_all
  with r(1,2) names_eq [OF r(3)] show ?thesis by (simp only: queue_ok_def simp_thms)
qed

lemma queue_Heapify_spec:
  assumes "indexed q"
  shows "queue_ok (queue_Heapify q) \<and> mset (wq_queue (queue_Heapify q)) = mset (wq_queue q) \<and>
    when_of (queue_Heapify q) = when_of q \<and> names (queue_Heapify q) = names q"
proof -
  let ?h = "wq_queue q"
  have good: "indexed q \<and> when_of q = when_of q \<and> map fst (wq_items q) = map fst (wq_items q)"
    using assms by simp
  from pq.init_loop_sim [OF good refl, of "length ?h div 2"]
  have r: "indexed (queue_Heapify q)" "when_of (queue_Heapify q) = when_of q"
      "map fst (wq_items (queue_Heapify q)) = map fst (wq_items q)"
      "wq_queue (queue_Heapify q) = heap_Init (when_of q) ?h"
    unfolding queue_Heapify_def heap_Init_def by simp_all
  from heap_Init_spec [of "when_of q" ?h] have
    "heap (when_of q) (wq_queue (queue_Heapify q)) (length (wq_queue (queue_Heapify q)))"
    "mset (wq_queue (queue_Heapify q)) = mset ?h"
    unfolding r(4) by simp_all
  with r(1,2) names_eq [OF r(3)] show ?thesis by (simp only: queue_ok_def simp_thms)
qed

text \<open>The queue holds every name it knows: nothing has been taken out for good.\<close>

definition all_queued :: "work_queue \<Rightarrow> bool" where
  "all_queued q \<longleftrightarrow> set (wq_queue q) = names q"

lemma add_names_spec:
  "queue_ok q \<Longrightarrow> queue_ok (fold (add_name t) ns q) \<and> names (fold (add_name t) ns q) = names q \<union> set ns \<and>
   set (wq_queue (fold (add_name t) ns q)) = set (wq_queue q) \<union> (set ns - names q) \<and>
   (\<forall>n. when_of (fold (add_name t) ns q) n = (if n \<in> set ns - names q then t else when_of q n))"
proof (induction ns arbitrary: q)
  case (Cons a ns)
  note add = add_name_spec [OF Cons.prems, of t a]
  from Cons.IH [of "add_name t a q"] add show ?case
  proof (cases "a \<in> names q")
    case True
    with Cons.IH [OF Cons.prems] add show ?thesis by auto
  next
    case False
    then have "set (wq_queue (add_name t a q)) = insert a (set (wq_queue q))"
      using add by (metis set_mset_add_mset_insert set_mset_mset)
    with Cons.IH [of "add_name t a q"] add False show ?thesis by auto
  qed
qed simp

lemma delete_item:
  assumes "queue_ok q" "name \<notin> set (wq_queue q)"
  defines "q' \<equiv> q\<lparr>wq_items := AList.delete name (wq_items q)\<rparr>"
  shows "queue_ok q' \<and> wq_queue q' = wq_queue q \<and> names q' = names q - {name} \<and>
    (\<forall>n. n \<noteq> name \<longrightarrow> when_of q' n = when_of q n)"
proof -
  have q: "indexed q" "heap (when_of q) (wq_queue q) (length (wq_queue q))"
    using assms(1) by (simp_all add: queue_ok_def)
  have n: "names q' = names q - {name}"
    by (simp add: q'_def names_def dom_map_of_conv_image_fst [symmetric] delete_conv')
  have w: "when_of q' n = when_of q n" if "n \<noteq> name" for n
    using that by (simp add: q'_def when_of_def delete_conv')
  have ix: "index_of q' n = (if n = name then - 1 else index_of q n)" for n
    by (simp add: q'_def index_of_def delete_conv')
  have h: "wq_queue q' = wq_queue q" by (simp add: q'_def)
  have "wq_queue q ! k \<noteq> name" if "k < length (wq_queue q)" for k using assms(2) that by auto
  then have "indexed q'"
    using q(1) queue_names [OF q(1)] assms(2) n
    by (auto simp: indexed_def ix h keys_names distinct_delete) (auto simp: q'_def distinct_delete)
  moreover have same: "\<forall>x \<in> set (wq_queue q). when_of q' x = when_of q x" using w assms(2) by metis
  have "heap (when_of q') (wq_queue q) (length (wq_queue q))"
    using q(2) heap_cong [OF same, of "length (wq_queue q)"] by simp
  ultimately show ?thesis using n w h by (simp add: queue_ok_def)
qed

lemma remove_names_spec:
  "queue_ok q \<Longrightarrow> all_queued q \<Longrightarrow> set ks \<subseteq> names q \<Longrightarrow> distinct ks \<Longrightarrow>
   \<exists>q'. go_fold (remove_name ns) q ks = Inr q' \<and> queue_ok q' \<and> all_queued q' \<and>
     names q' = names q - (set ks - set ns) \<and> (\<forall>n \<in> names q'. when_of q' n = when_of q n)"
proof (induction ks arbitrary: q)
  case (Cons k ks)
  show ?case
  proof (cases "k \<in> set ns")
    case True
    then have "go_fold (remove_name ns) q (k # ks) = go_fold (remove_name ns) q ks"
      "set (k # ks) - set ns = set ks - set ns"
      by (auto simp: remove_name_def)
    with Cons show ?thesis by simp
  next
    case False
    have "k \<in> set (wq_queue q)" using Cons.prems(2,3) by (simp add: all_queued_def)
    from queue_Remove_spec [OF Cons.prems(1) this] obtain q1 where
      q1: "queue_Remove (index_of q k) q = Inr q1" "queue_ok q1"
        "mset (wq_queue q) = add_mset k (mset (wq_queue q1))" "when_of q1 = when_of q" "names q1 = names q"
      by blast
    have "distinct (wq_queue q)" using Cons.prems(1) by (simp add: queue_ok_def indexed_def)
    then have "distinct (k # wq_queue q1)" using q1(3) by (metis mset.simps(2) mset_eq_imp_distinct_iff)
    then have k: "k \<notin> set (wq_queue q1)" by simp
    have s: "set (wq_queue q1) = names q - {k}"
      using k q1(3) Cons.prems(2) unfolding all_queued_def
      by (metis Diff_insert_absorb set_mset_add_mset_insert set_mset_mset)
    let ?q = "q1\<lparr>wq_items := AList.delete k (wq_items q1)\<rparr>"
    note del = delete_item [OF q1(2) k]
    have "remove_name ns q k = Inr ?q" using False q1(1) by (simp add: remove_name_def)
    moreover have "\<exists>q'. go_fold (remove_name ns) ?q ks = Inr q' \<and> queue_ok q' \<and> all_queued q' \<and>
        names q' = names ?q - (set ks - set ns) \<and> (\<forall>n \<in> names q'. when_of q' n = when_of ?q n)"
      using del s q1(5) Cons.prems(3,4) by (intro Cons.IH) (auto simp: all_queued_def)
    moreover have "names q - (set (k # ks) - set ns) = names ?q - (set ks - set ns)"
      using False del q1(5) by auto
    ultimately show ?thesis using del q1(4) by auto
  qed
qed simp

lemma Init_spec:
  assumes "queue_ok q" "all_queued q"
  shows "\<exists>q'. Init ns t q = Inr q' \<and> queue_ok q' \<and> all_queued q' \<and> names q' = set ns \<and>
    (\<forall>n \<in> set ns. when_of q' n = (if n \<in> names q then when_of q n else t))"
proof -
  let ?q = "fold (add_name t) ns q"
  note add = add_names_spec [OF assms(1), of t ns]
  have "all_queued ?q" using add assms(2) by (auto simp: all_queued_def)
  moreover have "set (map fst (wq_items ?q)) \<subseteq> names ?q" by (simp add: names_def)
  moreover have "distinct (map fst (wq_items ?q))" using add by (simp add: queue_ok_def indexed_def)
  ultimately obtain q' where q': "go_fold (remove_name ns) ?q (map fst (wq_items ?q)) = Inr q'"
      "queue_ok q'" "all_queued q'" "names q' = names ?q - (names ?q - set ns)"
      "\<forall>n \<in> names q'. when_of q' n = when_of ?q n"
    using remove_names_spec [of ?q "map fst (wq_items ?q)" ns] add by (auto simp: keys_names)
  have "names q' = set ns" using q'(4) add by blast
  with q' add show ?thesis by (auto simp: Init_def)
qed

lemma remove_name_queued:
  assumes "queue_ok q" "remove_name ns q k = Inr q'"
  shows "queue_ok q' \<and> set (wq_queue q') \<subseteq> set (wq_queue q) \<and> (k \<in> set ns \<or> k \<in> set (wq_queue q))"
proof (cases "k \<in> set ns")
  case True
  with assms show ?thesis by (simp add: remove_name_def)
next
  case False
  have k: "k \<in> set (wq_queue q)"
  proof (rule ccontr)
    assume "k \<notin> set (wq_queue q)"
    with queue_Remove_popped [of q k] assms False show False
      by (simp add: remove_name_def queue_ok_def)
  qed
  from queue_Remove_spec [OF assms(1) k] obtain q1 where
    q1: "queue_Remove (index_of q k) q = Inr q1" "queue_ok q1"
      "mset (wq_queue q) = add_mset k (mset (wq_queue q1))" by blast
  have "distinct (wq_queue q)" using assms(1) by (simp add: queue_ok_def indexed_def)
  then have "distinct (k # wq_queue q1)" using q1(3) by (metis mset.simps(2) mset_eq_imp_distinct_iff)
  moreover have "set (wq_queue q) = insert k (set (wq_queue q1))"
    using q1(3) by (metis set_mset_add_mset_insert set_mset_mset)
  ultimately show ?thesis
    using delete_item [OF q1(2), of k] assms(2) False q1(1) k by (auto simp: remove_name_def)
qed

text \<open>
  A name that was taken out for good stays in the map: a later \<open>Init\<close> with it does not queue it
  again, and one without it panics.
\<close>

lemma remove_names_popped:
  "queue_ok q \<Longrightarrow> name \<notin> set ns \<Longrightarrow> name \<notin> set (wq_queue q) \<Longrightarrow> name \<in> set ks \<Longrightarrow>
   \<exists>e. go_fold (remove_name ns) q ks = Inl e"
proof (induction ks arbitrary: q)
  case (Cons k ks)
  show ?case
  proof (cases "remove_name ns q k")
    case (Inr q2)
    note step = remove_name_queued [OF Cons.prems(1) Inr]
    have "name \<noteq> k" using step Cons.prems(2,3) by blast
    with Cons.IH [of q2] step Cons.prems Inr show ?thesis by auto
  qed simp
qed simp

lemma Init_popped:
  assumes "queue_ok q" "name \<in> names q" "name \<notin> set (wq_queue q)"
  shows "name \<notin> set ns \<Longrightarrow> \<exists>e. Init ns t q = Inl e"
    and "set ns = names q \<Longrightarrow> Init ns t q = Inr q"
proof -
  let ?q = "fold (add_name t) ns q"
  note add = add_names_spec [OF assms(1), of t ns]
  have "name \<in> set (map fst (wq_items ?q))" using add assms(2) by (simp add: keys_names)
  moreover have "name \<notin> set (wq_queue ?q)" using add assms(2,3) by blast
  ultimately show "\<exists>e. Init ns t q = Inl e" if "name \<notin> set ns"
    using remove_names_popped [of ?q name ns "map fst (wq_items ?q)"] add that by (simp add: Init_def Let_def)
  have "set xs \<subseteq> names q \<Longrightarrow> fold (add_name t) xs q = q" for xs
    by (induction xs) (use add_name_spec [OF assms(1)] in auto)
  moreover have "set ks \<subseteq> set ns \<Longrightarrow> go_fold (remove_name ns) q ks = Inr q" for ks
    by (induction ks) (auto simp: remove_name_def)
  ultimately show "Init ns t q = Inr q" if "set ns = names q" using that by (simp add: Init_def keys_names)
qed

text \<open>The times after \<open>FixAll\<close> and \<open>Fix\<close>: the earlier of the two, or the new one on request.\<close>

definition fixed_time :: "bool \<Rightarrow> int \<Rightarrow> int \<Rightarrow> int" where
  "fixed_time later t old = (if later then t else min t old)"

lemma takes_fixed_time: "(if takes later t old then t else old) = fixed_time later t old"
  by (auto simp: takes_def fixed_time_def)

lemma fix_all_loop_spec:
  "indexed q \<Longrightarrow> distinct (map fst whens) \<Longrightarrow>
   \<exists>q'. fix_all_loop later whens missing q =
       (missing @ filter (\<lambda>n. n \<notin> names q) (map fst whens), q') \<and>
     indexed q' \<and> wq_queue q' = wq_queue q \<and> names q' = names q \<and>
     (\<forall>n. when_of q' n = (case map_of whens n of
        Some t \<Rightarrow> if n \<in> names q then fixed_time later t (when_of q n) else when_of q n
      | None \<Rightarrow> when_of q n))"
proof (induction whens arbitrary: missing q)
  case (Cons nt whens)
  obtain name t where nt: "nt = (name, t)" by (cases nt)
  have new: "name \<notin> fst ` set whens" "distinct (map fst whens)" using Cons.prems(2) nt by simp_all
  then have none: "map_of whens name = None" by (simp add: map_of_eq_None_iff)
  let ?q = "if name \<in> names q \<and> takes later t (when_of q name) then set_when name t q else q"
  let ?m = "if name \<in> names q then missing else missing @ [name]"
  have step: "fix_all_loop later (nt # whens) missing q = fix_all_loop later whens ?m ?q"
    by (simp add: nt map_of_items)
  have "indexed ?q" using Cons.prems(1) by (simp add: indexed_set_when)
  from Cons.IH [OF this new(2), of ?m] obtain q' where
    q': "fix_all_loop later whens ?m ?q = (?m @ filter (\<lambda>n. n \<notin> names ?q) (map fst whens), q')"
      "indexed q'" "wq_queue q' = wq_queue ?q" "names q' = names ?q"
      "\<forall>n. when_of q' n = (case map_of whens n of
        Some t \<Rightarrow> if n \<in> names ?q then fixed_time later t (when_of ?q n) else when_of ?q n
      | None \<Rightarrow> when_of ?q n)"
    by blast
  have same: "names ?q = names q" "wq_queue ?q = wq_queue q" by simp_all
  have w: "when_of ?q n = (if n = name \<and> name \<in> names q then fixed_time later t (when_of q n) else when_of q n)" for n
    by (auto simp: keys_names takes_fixed_time [symmetric])
  show ?case
    unfolding step q'(1) using q'(2-5) none unfolding same w nt
    by (intro exI [of _ q']) (auto split: option.splits)
qed simp

lemma FixAll_spec:
  assumes "indexed q" "distinct (map fst whens)"
  defines "missing \<equiv> filter (\<lambda>n. n \<notin> names q) (map fst whens)"
  shows "\<exists>q'. FixAll whens later q = (if missing = [] then None else Some missing, q') \<and>
    queue_ok q' \<and> mset (wq_queue q') = mset (wq_queue q) \<and> names q' = names q \<and>
    (\<forall>n. when_of q' n = (case map_of whens n of
        Some t \<Rightarrow> if n \<in> names q then fixed_time later t (when_of q n) else when_of q n
      | None \<Rightarrow> when_of q n))"
proof -
  from fix_all_loop_spec [OF assms(1,2), of later "[]"] obtain q1 where
    q1: "fix_all_loop later whens [] q = (missing, q1)" "indexed q1" "wq_queue q1 = wq_queue q"
      "names q1 = names q"
      "\<forall>n. when_of q1 n = (case map_of whens n of
        Some t \<Rightarrow> if n \<in> names q then fixed_time later t (when_of q n) else when_of q n
      | None \<Rightarrow> when_of q n)"
    by (auto simp: missing_def)
  with queue_Heapify_spec [OF q1(2)] show ?thesis
    by (intro exI [of _ "queue_Heapify q1"]) (simp add: FixAll_def)
qed

lemma Fix_spec:
  assumes "queue_ok q" "name \<in> set (wq_queue q)"
  shows "\<exists>q'. Fix name t later q = (None, q') \<and> queue_ok q' \<and> mset (wq_queue q') = mset (wq_queue q) \<and>
    names q' = names q \<and> when_of q' = (when_of q)(name := fixed_time later t (when_of q name))"
proof -
  have "name \<in> names q" using assms queue_names by (auto simp: queue_ok_def)
  then show ?thesis
    using queue_Fix_spec [OF assms refl, of t] assms(1) takes_fixed_time [of later t "when_of q name"]
    by (cases "takes later t (when_of q name)") (auto simp: Fix_def map_of_items fun_eq_iff)
qed

lemma earliest:
  assumes "queue_ok q" "n \<in> set (wq_queue q)"
  shows "when_of q (hd (wq_queue q)) \<le> when_of q n"
proof -
  from assms(2) obtain k where k: "k < length (wq_queue q)" "n = wq_queue q ! k"
    by (auto simp: in_set_conv_nth)
  then have "wq_queue q \<noteq> []" by auto
  with heap_root [of "when_of q" "wq_queue q" "length (wq_queue q)" k] assms(1) k show ?thesis
    by (simp add: queue_ok_def hd_conv_nth)
qed

lemma send_next_reschedules:
  assumes "queue_ok q" "frequency \<noteq> 0" "wq_queue q \<noteq> []"
  shows "\<exists>q'. send_next frequency now q = (Some (hd (wq_queue q), when_of q (hd (wq_queue q))), q') \<and>
    queue_ok q' \<and> mset (wq_queue q') = mset (wq_queue q) \<and> names q' = names q \<and>
    when_of q' = (when_of q)(hd (wq_queue q) := now + frequency)"
proof -
  have "hd (wq_queue q) \<in> set (wq_queue q)" using assms(3) by simp
  note spec = queue_Fix_spec [OF assms(1) this refl, of "now + frequency"]
  have "peek q = Some (hd (wq_queue q))" using assms(3) by (cases "wq_queue q") (simp_all add: peek_def)
  then have "send_next frequency now q = (Some (hd (wq_queue q), when_of q (hd (wq_queue q))),
      queue_Fix (index_of q (hd (wq_queue q))) (set_when (hd (wq_queue q)) (now + frequency) q))"
    using assms(2) by (simp add: send_next_def Let_def)
  with spec show ?thesis by blast
qed

lemma send_next_pops:
  assumes "queue_ok q" "wq_queue q \<noteq> []"
  shows "\<exists>q'. send_next 0 now q = (Some (hd (wq_queue q), when_of q (hd (wq_queue q))), q') \<and>
    queue_ok q' \<and> mset (wq_queue q) = add_mset (hd (wq_queue q)) (mset (wq_queue q')) \<and>
    names q' = names q \<and> when_of q' = when_of q"
proof -
  note spec = queue_Pop_spec [OF assms]
  obtain name q' where pop: "queue_Pop q = (name, q')" by fastforce
  then have "send_next 0 now q = (Some (name, when_of q' name), q')"
    using assms(2) by (simp add: send_next_def)
  moreover have "name = hd (wq_queue q)" "when_of q' = when_of q" using spec pop by simp_all
  ultimately show ?thesis using spec pop by simp
qed

section \<open>Runs\<close>

text \<open>
  The operations under the lock, in any order.  The frequency of the sender is fixed; \<open>Fixed\<close> keeps
  the error that \<open>FixAll\<close> or \<open>Fix\<close> returns.
\<close>

inductive queue_step :: "int \<Rightarrow> work_queue \<Rightarrow> work_queue \<Rightarrow> bool" for frequency where
  step_Init: "Init ns t q = Inr q' \<Longrightarrow> queue_step frequency q q'"
| step_FixAll: "distinct (map fst whens) \<Longrightarrow> FixAll whens later q = (err, q') \<Longrightarrow> queue_step frequency q q'"
| step_Fix: "Fix name t later q = (err, q') \<Longrightarrow> queue_step frequency q q'"
| step_Send: "send_next frequency now q = (sent, q') \<Longrightarrow> queue_step frequency q q'"

inductive queue_reach :: "int \<Rightarrow> work_queue \<Rightarrow> bool" for frequency where
  reach_empty: "queue_reach frequency empty_queue"
| reach_step: "queue_reach frequency q \<Longrightarrow> queue_step frequency q q' \<Longrightarrow> queue_reach frequency q'"

lemma queue_step_ok:
  assumes "queue_step frequency q q'" "frequency \<noteq> 0" "queue_ok q" "all_queued q"
  shows "queue_ok q' \<and> all_queued q'"
  using assms(1)
proof cases
  case (step_Init ns t)
  with Init_spec [OF assms(3,4), of ns t] show ?thesis by auto
next
  case (step_FixAll whens later err)
  have "indexed q" using assms(3) by (simp add: queue_ok_def)
  from FixAll_spec [OF this step_FixAll(1), of later] step_FixAll(2) assms(4) show ?thesis
    by (auto simp: all_queued_def dest!: mset_eq_setD)
next
  case (step_Fix name t later err)
  show ?thesis
  proof (cases "name \<in> names q")
    case True
    with assms(4) have "name \<in> set (wq_queue q)" by (simp add: all_queued_def)
    from Fix_spec [OF assms(3) this, of t later] step_Fix assms(4) show ?thesis
      by (auto simp: all_queued_def dest!: mset_eq_setD)
  next
    case False
    with step_Fix assms(3,4) show ?thesis by (auto simp: Fix_def map_of_items)
  qed
next
  case (step_Send now sent)
  show ?thesis
  proof (cases "wq_queue q = []")
    case True
    with step_Send assms show ?thesis by (simp add: send_next_def peek_def)
  next
    case False
    from send_next_reschedules [OF assms(3,2) this, of now] step_Send assms(4) show ?thesis
      by (auto simp: all_queued_def dest!: mset_eq_setD)
  qed
qed

lemma queue_reach_ok:
  assumes "queue_reach frequency q" "frequency \<noteq> 0"
  shows "queue_ok q \<and> all_queued q"
  using assms
proof (induction rule: queue_reach.induct)
  case reach_empty
  show ?case
    by (simp add: queue_ok_def indexed_def heap_def empty_queue_def index_of_def all_queued_def names_def)
next
  case (reach_step q q')
  then show ?case using queue_step_ok by blast
qed

text \<open>
  Successive calls of the sender.  A name waits for at most as many of them as there are names that
  are due no later, provided a name that was sent is only due again after it.
\<close>

fun sends :: "int \<Rightarrow> int list \<Rightarrow> work_queue \<Rightarrow> string list" where
  "sends frequency [] q = []"
| "sends frequency (now # nows) q =
     (case send_next frequency now q of
        (None, q') \<Rightarrow> sends frequency nows q'
      | (Some (name, when), q') \<Rightarrow> name # sends frequency nows q')"

definition ahead :: "work_queue \<Rightarrow> string \<Rightarrow> string set" where
  "ahead q n = {m \<in> set (wq_queue q). m \<noteq> n \<and> when_of q m \<le> when_of q n}"

lemma sends_fair:
  assumes "queue_ok q" "n \<in> set (wq_queue q)" "frequency \<noteq> 0"
    "\<forall>now \<in> set nows. when_of q n < now + frequency" "card (ahead q n) < length nows"
  shows "n \<in> set (sends frequency nows q)"
  using assms
proof (induction nows arbitrary: q)
  case (Cons now nows)
  let ?m = "hd (wq_queue q)"
  have ne: "wq_queue q \<noteq> []" using Cons.prems(2) by auto
  from send_next_reschedules [OF Cons.prems(1,3) ne, of now] obtain q' where
    q': "send_next frequency now q = (Some (?m, when_of q ?m), q')" "queue_ok q'"
      "mset (wq_queue q') = mset (wq_queue q)" "when_of q' = (when_of q)(?m := now + frequency)"
    by blast
  show ?case
  proof (cases "?m = n")
    case True
    with q' show ?thesis by simp
  next
    case False
    have s: "set (wq_queue q') = set (wq_queue q)" using q'(3) by (rule mset_eq_setD)
    have m: "?m \<in> ahead q n" using earliest [OF Cons.prems(1,2)] ne False by (simp add: ahead_def)
    have "ahead q' n \<subseteq> ahead q n - {?m}"
      using Cons.prems(4) False by (auto simp: ahead_def s q'(4) split: if_splits)
    moreover have fin: "finite (ahead q n)" by (simp add: ahead_def)
    ultimately have "card (ahead q' n) \<le> card (ahead q n - {?m})" by (intro card_mono) auto
    also have "\<dots> < card (ahead q n)" using m fin by (intro psubset_card_mono) auto
    finally have "card (ahead q' n) < length nows" using Cons.prems(5) by simp
    moreover have "\<forall>now \<in> set nows. when_of q' n < now + frequency" using Cons.prems(4) False by (simp add: q'(4))
    ultimately have "n \<in> set (sends frequency nows q')"
      using Cons.IH [of q'] q'(2) Cons.prems(2,3) s by simp
    with q'(1) show ?thesis by simp
  qed
qed simp

end
