(* ===== verification/Config_Validate.thy ===== *)
theory Config_Validate
  imports Cells
begin

text \<open>
  Validation of configurations: \<open>config/config.go\<close>, with the query translation of
  \<open>pkg/updater/resultstore/query\<close> that it calls.  The combined error of the code is the list of
  its parts; an empty list is no error.  Whether a regular expression compiles and which capture
  groups it has are parameters (\<open>rx\<close>, \<open>subexps\<close>).
\<close>

section \<open>Errors\<close>

datatype source_error =
  WithPrefix | WithKubernetesClient | NoProject | BadQuery string | NoGcsPrefix | PubsubHalfSet string string

datatype field_error =
    NameSyntax | NameShort | NameLong | NamePrefix
  | NilMessage | NeedSource | DaysNotPositive | ColumnsNotPositive
  | ResultStoreError source_error | GcsError source_error
  | BadMatchRegex | BadEmails "string list" string
  | NoMetadataRegex | BadMessageRegex | BadNameRegex | NoSummary | NoPropertyName | ShortTextLength
  | FallbackMismatch | EmptyHeader nat | AmbiguousHeader nat
  | NoNameElements | NoNameFormat | ElementCount nat nat | FormatMismatch string
  | NoTestGroupName | SummaryTab | BadTabularRegex | UnnamedGroups | NoGroups | BadFlakiness
  | NoTabs | Unreferenced | InTwoGroups

datatype config_error =
    MissingConfig
  | MissingField string
  | DuplicateName string string
  | MissingEntity string string
  | Invalid string string "field_error list"

section \<open>Names\<close>

definition is_digit :: "char \<Rightarrow> bool" where
  "is_digit c \<longleftrightarrow> CHR ''0'' \<le> c \<and> c \<le> CHR ''9''"

definition is_lower :: "char \<Rightarrow> bool" where
  "is_lower c \<longleftrightarrow> CHR ''a'' \<le> c \<and> c \<le> CHR ''z''"

definition is_upper :: "char \<Rightarrow> bool" where
  "is_upper c \<longleftrightarrow> CHR ''A'' \<le> c \<and> c \<le> CHR ''Z''"

definition is_alnum :: "char \<Rightarrow> bool" where
  "is_alnum c \<longleftrightarrow> is_digit c \<or> is_lower c \<or> is_upper c"

definition to_lower :: "char \<Rightarrow> char" where
  "to_lower c = (if is_upper c then char_of (of_char c + 32 :: nat) else c)"

definition Normalize :: "string \<Rightarrow> string" where
  "Normalize s = map to_lower (filter is_alnum s)"

text \<open>\<open>nameRegex\<close>: the last alternative of the class is an en dash, three bytes in UTF-8.\<close>

fun name_chars :: "string \<Rightarrow> bool" where
  "name_chars [] = True"
| "name_chars (c # s) =
     (if is_alnum c \<or> c \<in> set ''_.~<>()|[],@/ -'' \<or> c = CHR 0x22 then name_chars s
      else (case s of
          d # e # s' \<Rightarrow> c = CHR 0xE2 \<and> d = CHR 0x80 \<and> e = CHR 0x93 \<and> name_chars s'
        | _ \<Rightarrow> False))"

definition minNameLength :: nat where
  "minNameLength = 3"

definition maxNameLength :: nat where
  "maxNameLength = 2048"

definition validateName :: "string \<Rightarrow> field_error option" where
  "validateName s =
     (if s = [] \<or> \<not> name_chars s then Some NameSyntax
      else let name = Normalize s in
        if length name < minNameLength then Some NameShort
        else if length name > maxNameLength then Some NameLong
        else if \<exists>p \<in> {''dashboard'', ''alerter'', ''summary'', ''bugs''}. has_prefix name p
        then Some NamePrefix
        else None)"

fun unique_loop :: "string set \<Rightarrow> string list \<Rightarrow> string \<Rightarrow> config_error list" where
  "unique_loop seen [] entity = []"
| "unique_loop seen (item # items) entity =
     (let s = Normalize item in
      if s \<in> seen then DuplicateName s entity # unique_loop seen items entity
      else unique_loop (insert s seen) items entity)"

definition validateUnique :: "string list \<Rightarrow> string \<Rightarrow> config_error list" where
  "validateUnique items entity = unique_loop {} items entity"

definition name_errors :: "string \<Rightarrow> string list \<Rightarrow> config_error list" where
  "name_errors entity ns =
     List.map_filter (\<lambda>n. map_option (\<lambda>e. Invalid n entity [e]) (validateName n)) ns"

definition validateAllUnique :: "configuration option \<Rightarrow> config_error list" where
  "validateAllUnique c =
     (case c of
        None \<Rightarrow> [MissingConfig]
      | Some c \<Rightarrow>
        (let tgNames = map tg_name (cfg_test_groups c);
             dashNames = map dash_name (cfg_dashboards c);
             dgNames = map dg_name (cfg_dashboard_groups c)
         in name_errors ''TestGroup'' tgNames @ validateUnique tgNames ''TestGroup'' @
            concat (map (\<lambda>d. name_errors ''Dashboard'' [dash_name d] @
                             name_errors ''DashboardTab'' (map tab_name (dash_tabs d)) @
                             validateUnique (map tab_name (dash_tabs d)) ''DashboardTab'')
                      (cfg_dashboards c)) @
            validateUnique dashNames ''Dashboard'' @
            name_errors ''DashboardGroup'' dgNames @ validateUnique dgNames ''DashboardGroup'' @
            validateUnique (dashNames @ dgNames) ''Dashboard/DashboardGroup''))"

section \<open>References\<close>

definition tab_groups :: "configuration \<Rightarrow> string list" where
  "tab_groups c = concat (map (\<lambda>d. map tab_test_group_name (dash_tabs d)) (cfg_dashboards c))"

fun membership_loop :: "string list \<Rightarrow> string list \<Rightarrow> string list \<Rightarrow> config_error list" where
  "membership_loop dashNames placed [] = []"
| "membership_loop dashNames placed (name # ns) =
     (if name \<notin> set dashNames then MissingEntity name ''Dashboard'' # membership_loop dashNames placed ns
      else if name \<in> set placed
      then Invalid name ''Dashboard'' [InTwoGroups] # membership_loop dashNames placed ns
      else membership_loop dashNames (name # placed) ns)"

text \<open>The names of the test groups are visited as the keys of a map, once each.\<close>

definition validateReferencesExist :: "configuration option \<Rightarrow> config_error list" where
  "validateReferencesExist c =
     (case c of
        None \<Rightarrow> [MissingConfig]
      | Some c \<Rightarrow>
        (let tgNames = map tg_name (cfg_test_groups c); used = tab_groups c in
         map (\<lambda>n. MissingEntity n ''TestGroup'') (filter (\<lambda>n. n \<notin> set tgNames) used) @
         map (\<lambda>n. Invalid n ''TestGroup'' [Unreferenced]) (filter (\<lambda>n. n \<notin> set used) (remdups tgNames)) @
         membership_loop (map dash_name (cfg_dashboards c)) []
           (concat (map dg_dashboard_names (cfg_dashboard_groups c)))))"

section \<open>Test groups\<close>

definition email_ok :: "string \<Rightarrow> bool" where
  "email_ok address \<longleftrightarrow>
     (case str_split address ''@'' of [a, b] \<Rightarrow> a \<noteq> [] \<and> b \<noteq> [] | _ \<Rightarrow> False)"

definition validateEmails :: "string \<Rightarrow> field_error list" where
  "validateEmails addresses =
     (let invalid = filter (\<lambda>a. \<not> email_ok a) (str_split addresses '','')
      in if invalid \<noteq> [] then [BadEmails invalid addresses] else [])"

definition quote :: char where
  "quote = CHR 0x22"

definition trim_quotes :: "string \<Rightarrow> string" where
  "trim_quotes s =
     (let t = dropWhile (\<lambda>c. c = quote) s in rev (dropWhile (\<lambda>c. c = quote) (rev t)))"

fun split_colon :: "string \<Rightarrow> (string \<times> string) option" where
  "split_colon [] = None"
| "split_colon (c # s) =
     (if c = CHR '':'' then Some ([], s) else map_option (\<lambda>(k, v). (c # k, v)) (split_colon s))"

definition translateAtom :: "string \<Rightarrow> string go" where
  "translateAtom simpleAtom =
     (if simpleAtom = [] then Inr []
      else case split_colon simpleAtom of
          None \<Rightarrow> Inl (Failed (''unrecognized atom '' @ simpleAtom))
        | Some (k, v) \<Rightarrow>
            (let key = trim_space k; val = trim_quotes (trim_space v) in
             if key = ''target'' then Inr (''id.target_id='' @ quote # val @ [quote])
             else Inl (Failed (''unrecognized atom key '' @ key))))"

definition query_matches :: "string \<Rightarrow> bool" where
  "query_matches s \<longleftrightarrow>
     has_prefix s (''target:'' @ [quote]) \<and> 9 \<le> length s \<and> last s = quote \<and>
     CHR 0x0A \<notin> set s"

definition TranslateQuery :: "string \<Rightarrow> string go" where
  "TranslateQuery simpleQuery =
     (if simpleQuery = [] then Inr []
      else if \<not> query_matches simpleQuery then Inl (Failed (''invalid query '' @ simpleQuery))
      else case translateAtom simpleQuery of
          Inl e \<Rightarrow> Inl (Failed (''invalid query '' @ simpleQuery))
        | Inr q \<Rightarrow> Inr q)"

definition validateResultStoreSource :: "test_group \<Rightarrow> source_error option" where
  "validateResultStoreSource tg =
     (case get_resultstore_config tg of
        None \<Rightarrow> None
      | Some rs \<Rightarrow>
          if tg_gcs_prefix tg \<noteq> [] then Some WithPrefix
          else if tg_use_kubernetes_client tg then Some WithKubernetesClient
          else if rsc_project rs = [] then Some NoProject
          else (case TranslateQuery (rsc_query rs) of Inl _ \<Rightarrow> Some (BadQuery (rsc_query rs)) | Inr _ \<Rightarrow> None))"

definition validateGCSSource :: "test_group \<Rightarrow> source_error option" where
  "validateGCSSource tg =
     (case get_gcs_config tg of
        None \<Rightarrow> None
      | Some rs \<Rightarrow>
          if tg_gcs_prefix tg \<noteq> [] then Some WithPrefix
          else if tg_use_kubernetes_client tg then Some WithKubernetesClient
          else if gcsc_prefix rs = [] then Some NoGcsPrefix
          else
            (let proj = gcsc_pubsub_project rs; sub = gcsc_pubsub_subscription rs in
             if (proj = [] \<and> sub \<noteq> []) \<or> (proj \<noteq> [] \<and> sub = []) then Some (PubsubHalfSet proj sub)
             else None))"

text \<open>\<open>utf8.RuneCountInString\<close>: an invalid byte counts as one.\<close>

function rune_count :: "string \<Rightarrow> nat" where
  "rune_count s = (if s = [] then 0 else Suc (rune_count (drop (max 1 (utf8_width s)) s)))"
  by pat_completeness auto
termination
  by (relation "measure length") auto

declare rune_count.simps [simp del]

definition metadata_option_errors :: "regex \<Rightarrow> test_metadata_options \<Rightarrow> field_error list" where
  "metadata_option_errors rx opt =
     (if tmo_message_regex opt = [] \<and> tmo_test_name_regex opt = [] then [NoMetadataRegex] else []) @
     (if rx (tmo_message_regex opt) = None then [BadMessageRegex] else []) @
     (if rx (tmo_test_name_regex opt) = None then [BadNameRegex] else [])"

definition annotation_errors :: "test_annotation \<Rightarrow> field_error list" where
  "annotation_errors a =
     (if ann_property_name a = [] then [NoPropertyName] else []) @
     (if ann_short_text a = [] \<or> rune_count (ann_short_text a) > 5 then [ShortTextLength] else [])"

definition header_errors :: "nat \<Rightarrow> column_header \<Rightarrow> field_error list" where
  "header_errors idx h =
     (let cv = hdr_configuration_value h; p = hdr_property h; l = hdr_label h in
      if cv = [] \<and> p = [] \<and> l = [] then [EmptyHeader idx]
      else if cv \<noteq> [] \<and> (p \<noteq> [] \<or> l \<noteq> []) \<or> p \<noteq> [] \<and> (cv \<noteq> [] \<or> l \<noteq> []) then [AmbiguousHeader idx]
      else [])"

text \<open>The errors of the name configuration; the last one replaces all errors of the group.\<close>

definition name_config_errors :: "test_name_config option \<Rightarrow> field_error list" where
  "name_config_errors c =
     (case c of
        None \<Rightarrow> []
      | Some c \<Rightarrow>
          (if tnc_elements c = [] then [NoNameElements] else []) @
          (if tnc_format c = [] then [NoNameFormat]
           else let got = length (tnc_elements c); want = count_list (tnc_format c) (CHR ''%'')
                in if got \<noteq> want then [ElementCount got want] else []))"

definition format_mismatch :: "test_name_config option \<Rightarrow> field_error option" where
  "format_mismatch c =
     (case c of
        None \<Rightarrow> None
      | Some c \<Rightarrow>
          if tnc_format c = [] then None
          else let s = sprintf (tnc_format c) (replicate (length (tnc_elements c)) [])
            in if str_contains s ''%!'' then Some (FormatMismatch s) else None)"

definition group_errors :: "regex \<Rightarrow> test_group \<Rightarrow> field_error list" where
  "group_errors rx tg =
     (if tg_gcs_prefix tg = [] \<and> tg_result_source tg = None then [NeedSource] else []) @
     (if tg_days_of_results tg \<le> 0 then [DaysNotPositive] else []) @
     (if tg_num_columns_recent tg \<le> 0 then [ColumnsNotPositive] else []) @
     (case validateResultStoreSource tg of Some e \<Rightarrow> [ResultStoreError e] | None \<Rightarrow> []) @
     (case validateGCSSource tg of Some e \<Rightarrow> [GcsError e] | None \<Rightarrow> []) @
     (if rx (tg_test_method_match_regex tg) = None then [BadMatchRegex] else []) @
     (if tg_alert_mail_to_addresses tg \<noteq> [] then validateEmails (tg_alert_mail_to_addresses tg) else []) @
     concat (map (metadata_option_errors rx) (tg_test_metadata_options tg)) @
     concat (map (\<lambda>n. if ntf_summary n = [] then [NoSummary] else []) (tg_notifications tg)) @
     concat (map annotation_errors (tg_test_annotations tg)) @
     (if (tg_fallback_grouping tg = FALLBACK_GROUPING_CONFIGURATION_VALUE) \<noteq>
         (tg_fallback_grouping_configuration_value tg \<noteq> []) then [FallbackMismatch] else []) @
     concat (map (\<lambda>(i, h). header_errors i h) (zip [0..<length (tg_column_header tg)] (tg_column_header tg))) @
     name_config_errors (tg_test_name_config tg)"

definition validateTestGroup :: "regex \<Rightarrow> test_group option \<Rightarrow> field_error list" where
  "validateTestGroup rx tg =
     (case tg of
        None \<Rightarrow> [NilMessage]
      | Some tg \<Rightarrow>
          (case format_mismatch (tg_test_name_config tg) of
             Some e \<Rightarrow> [e]
           | None \<Rightarrow> group_errors rx tg))"

section \<open>Dashboard tabs\<close>

text \<open>\<open>subexps\<close> gives the names of the capture groups, empty for those without one.\<close>

definition tabular_errors :: "(string \<Rightarrow> string list option) \<Rightarrow> string \<Rightarrow> field_error list" where
  "tabular_errors subexps pat =
     (if pat = [] then []
      else case subexps pat of
          None \<Rightarrow> [BadTabularRegex]
        | Some groups \<Rightarrow>
            (let named = filter (\<lambda>n. n \<noteq> []) groups in
             (if length groups \<noteq> length named then [UnnamedGroups] else []) @
             (if named = [] then [NoGroups] else [])))"

definition validateDashboardTab ::
    "(string \<Rightarrow> string list option) \<Rightarrow> dashboard_tab option \<Rightarrow> field_error list" where
  "validateDashboardTab subexps dt =
     (case dt of
        None \<Rightarrow> [NilMessage]
      | Some dt \<Rightarrow>
          (if tab_test_group_name dt = [] then [NoTestGroupName] else []) @
          (if tab_name dt = ''Summary'' then [SummaryTab] else []) @
          tabular_errors subexps (tab_tabular_names_regex dt) @
          (let mails = ao_alert_mail_to_addresses (get_alert_options dt) in
           if mails \<noteq> [] then validateEmails mails else []) @
          (let f = so_max_acceptable_flakiness (get_status_options dt) in
           if f < 0 \<or> f > 100 then [BadFlakiness] else []))"

section \<open>Configurations\<close>

definition group_report :: "regex \<Rightarrow> test_group \<Rightarrow> config_error list" where
  "group_report rx tg =
     (let es = validateTestGroup rx (Some tg) in
      if es \<noteq> [] then [Invalid (tg_name tg) ''TestGroup'' es] else [])"

definition tab_report :: "(string \<Rightarrow> string list option) \<Rightarrow> dashboard_tab \<Rightarrow> config_error list" where
  "tab_report subexps dt =
     (let es = validateDashboardTab subexps (Some dt) in
      if es \<noteq> [] then [Invalid (tab_name dt) ''DashboardTab'' es] else [])"

definition validateEntityConfigs ::
    "regex \<Rightarrow> (string \<Rightarrow> string list option) \<Rightarrow> configuration option \<Rightarrow> config_error list" where
  "validateEntityConfigs rx subexps c =
     (case c of
        None \<Rightarrow> [MissingConfig]
      | Some c \<Rightarrow>
          concat (map (group_report rx) (cfg_test_groups c)) @
          concat (map (\<lambda>d. concat (map (tab_report subexps) (dash_tabs d))) (cfg_dashboards c)))"

definition Validate ::
    "regex \<Rightarrow> (string \<Rightarrow> string list option) \<Rightarrow> configuration option \<Rightarrow> config_error list" where
  "Validate rx subexps c =
     (case c of
        None \<Rightarrow> [MissingConfig]
      | Some c \<Rightarrow>
          if cfg_test_groups c = [] then [MissingField ''TestGroups'']
          else if cfg_dashboards c = [] then [MissingField ''Dashboards'']
          else
            concat (map (\<lambda>d. if dash_tabs d = [] then [Invalid (dash_name d) ''Dashboard'' [NoTabs]] else [])
              (cfg_dashboards c)) @
            validateAllUnique (Some c) @ validateReferencesExist (Some c) @
            validateEntityConfigs rx subexps (Some c))"

definition FindTestGroup :: "string \<Rightarrow> configuration option \<Rightarrow> test_group option" where
  "FindTestGroup name cfg =
     (case cfg of None \<Rightarrow> None | Some c \<Rightarrow> find (\<lambda>tg. tg_name tg = name) (cfg_test_groups c))"

definition FindDashboard :: "string \<Rightarrow> configuration option \<Rightarrow> dashboard option" where
  "FindDashboard name cfg =
     (case cfg of None \<Rightarrow> None | Some c \<Rightarrow> find (\<lambda>d. dash_name d = name) (cfg_dashboards c))"

section \<open>The configurations that pass\<close>

lemma unique_loop_Nil:
  "unique_loop seen ns e = [] \<longleftrightarrow> distinct (map Normalize ns) \<and> Normalize ` set ns \<inter> seen = {}"
  by (induction ns arbitrary: seen) (auto simp: Let_def)

lemma validateUnique_Nil: "validateUnique ns e = [] \<longleftrightarrow> distinct (map Normalize ns)"
  by (simp add: validateUnique_def unique_loop_Nil)

lemma name_errors_Nil: "name_errors e ns = [] \<longleftrightarrow> (\<forall>n \<in> set ns. validateName n = None)"
  by (auto simp: name_errors_def map_filter_def filter_empty_conv)

lemma membership_loop_Nil:
  "membership_loop dashNames placed ns = [] \<longleftrightarrow>
   set ns \<subseteq> set dashNames \<and> distinct ns \<and> set ns \<inter> set placed = {}"
  by (induction ns arbitrary: placed) auto

text \<open>
  The references of a configuration: the tabs and the test groups are matched up both ways, and no
  dashboard is in two groups or twice in one.
\<close>

definition references_ok :: "configuration \<Rightarrow> bool" where
  "references_ok c \<longleftrightarrow>
     set (tab_groups c) = tg_name ` set (cfg_test_groups c) \<and>
     (let members = concat (map dg_dashboard_names (cfg_dashboard_groups c))
      in distinct members \<and> set members \<subseteq> dash_name ` set (cfg_dashboards c))"

lemma validateReferencesExist_Nil: "validateReferencesExist (Some c) = [] \<longleftrightarrow> references_ok c"
  by (auto simp: validateReferencesExist_def references_ok_def Let_def membership_loop_Nil filter_empty_conv)

text \<open>Names are well formed and stay apart when punctuation and case are dropped.\<close>

definition names_ok :: "configuration \<Rightarrow> bool" where
  "names_ok c \<longleftrightarrow>
     (\<forall>n \<in> tg_name ` set (cfg_test_groups c) \<union> dash_name ` set (cfg_dashboards c) \<union>
            dg_name ` set (cfg_dashboard_groups c). validateName n = None) \<and>
     distinct (map (\<lambda>tg. Normalize (tg_name tg)) (cfg_test_groups c)) \<and>
     distinct (map (\<lambda>d. Normalize (dash_name d)) (cfg_dashboards c) @
               map (\<lambda>g. Normalize (dg_name g)) (cfg_dashboard_groups c)) \<and>
     (\<forall>d \<in> set (cfg_dashboards c).
        (\<forall>t \<in> set (dash_tabs d). validateName (tab_name t) = None) \<and>
        distinct (map (\<lambda>t. Normalize (tab_name t)) (dash_tabs d)))"

lemma validateAllUnique_Nil: "validateAllUnique (Some c) = [] \<longleftrightarrow> names_ok c"
  unfolding validateAllUnique_def names_ok_def
  by (auto simp: Let_def name_errors_Nil validateUnique_Nil comp_def)

definition entities_ok :: "regex \<Rightarrow> (string \<Rightarrow> string list option) \<Rightarrow> configuration \<Rightarrow> bool" where
  "entities_ok rx subexps c \<longleftrightarrow>
     (\<forall>tg \<in> set (cfg_test_groups c). validateTestGroup rx (Some tg) = []) \<and>
     (\<forall>d \<in> set (cfg_dashboards c). dash_tabs d \<noteq> [] \<and>
        (\<forall>t \<in> set (dash_tabs d). validateDashboardTab subexps (Some t) = []))"

lemma report_Nil:
  "group_report rx tg = [] \<longleftrightarrow> validateTestGroup rx (Some tg) = []"
  "tab_report subexps t = [] \<longleftrightarrow> validateDashboardTab subexps (Some t) = []"
  by (simp_all add: group_report_def tab_report_def Let_def)

lemma Validate_iff:
  "Validate rx subexps (Some c) = [] \<longleftrightarrow>
   cfg_test_groups c \<noteq> [] \<and> cfg_dashboards c \<noteq> [] \<and> names_ok c \<and> references_ok c \<and> entities_ok rx subexps c"
proof -
  have tabs: "concat (map (\<lambda>d. if dash_tabs d = [] then [Invalid (dash_name d) ''Dashboard'' [NoTabs]] else [])
      (cfg_dashboards c)) = [] \<longleftrightarrow> (\<forall>d \<in> set (cfg_dashboards c). dash_tabs d \<noteq> [])"
    by auto
  have entities: "validateEntityConfigs rx subexps (Some c) = [] \<longleftrightarrow>
      (\<forall>tg \<in> set (cfg_test_groups c). validateTestGroup rx (Some tg) = []) \<and>
      (\<forall>d \<in> set (cfg_dashboards c). \<forall>t \<in> set (dash_tabs d). validateDashboardTab subexps (Some t) = [])"
    by (simp add: validateEntityConfigs_def report_Nil)
  show ?thesis
  proof (cases "cfg_test_groups c = [] \<or> cfg_dashboards c = []")
    case True
    then show ?thesis by (auto simp: Validate_def)
  next
    case False
    then have "Validate rx subexps (Some c) = [] \<longleftrightarrow>
        (\<forall>d \<in> set (cfg_dashboards c). dash_tabs d \<noteq> []) \<and> names_ok c \<and> references_ok c \<and>
        validateEntityConfigs rx subexps (Some c) = []"
      by (simp only: Validate_def option.case if_False de_Morgan_disj append_is_Nil_conv tabs
          validateAllUnique_Nil validateReferencesExist_Nil)
    with False entities show ?thesis unfolding entities_ok_def by blast
  qed
qed

text \<open>\<open>FindTestGroup\<close> on a valid configuration: the group of that name, and only that one.\<close>

lemma FindTestGroup_valid:
  assumes "names_ok c" "tg \<in> set (cfg_test_groups c)"
  shows "FindTestGroup (tg_name tg) (Some c) = Some tg"
proof -
  have d: "distinct (map (\<lambda>tg. Normalize (tg_name tg)) (cfg_test_groups c))"
    using assms(1) by (simp add: names_ok_def)
  have "find (\<lambda>g. tg_name g = tg_name tg) gs = Some tg"
    if "distinct (map (\<lambda>tg. Normalize (tg_name tg)) gs)" "tg \<in> set gs" for gs
    using that by (induction gs) (auto simp: image_iff)
  from this [OF d assms(2)] show ?thesis by (simp add: FindTestGroup_def)
qed

end
