(* ===== verification/Config_Converge.thy ===== *)
theory Config_Converge
  imports Config_Validate
begin

text \<open>
  Merging configurations: \<open>config/converge.go\<close>.  The shards are merged in the order of their keys;
  a name that an earlier shard has taken is replaced in the later one, wherever it is used.
\<close>

section \<open>Free names\<close>

definition candidate :: "string \<Rightarrow> string \<Rightarrow> nat \<Rightarrow> string" where
  "candidate prefix key attempt =
     (if attempt = 1 then prefix @ ''-'' @ key else prefix @ ''-'' @ nat_str attempt @ ''-'' @ key)"

lemma candidate_inj: "1 \<le> a \<Longrightarrow> 1 \<le> b \<Longrightarrow> candidate p k a = candidate p k b \<longleftrightarrow> a = b"
  by (auto simp: candidate_def dest: arg_cong [of _ _ length])

text \<open>
  The loop over the attempts ends because only finitely many names are taken and no two attempts
  try the same one.
\<close>

definition taken_ahead :: "string \<Rightarrow> string \<Rightarrow> string list \<Rightarrow> nat \<Rightarrow> string set" where
  "taken_ahead prefix key taken attempt =
     {c \<in> set taken. \<exists>a \<ge> max 1 attempt. c = candidate prefix key a}"

lemma taken_ahead_less:
  assumes "1 \<le> a" "candidate p k a \<in> set taken"
  shows "card (taken_ahead p k taken (Suc a)) < card (taken_ahead p k taken a)"
proof (rule psubset_card_mono)
  show "finite (taken_ahead p k taken a)" by (simp add: taken_ahead_def)
  have "candidate p k a \<in> taken_ahead p k taken a" using assms by (auto simp: taken_ahead_def)
  moreover have "candidate p k a \<notin> taken_ahead p k taken (Suc a)"
    using assms candidate_inj by (auto simp: taken_ahead_def)
  moreover have "taken_ahead p k taken (Suc a) \<subseteq> taken_ahead p k taken a"
  proof
    fix c
    assume "c \<in> taken_ahead p k taken (Suc a)"
    then obtain b where b: "c \<in> set taken" "max 1 (Suc a) \<le> b" "c = candidate p k b"
      unfolding taken_ahead_def by blast
    then have "max 1 a \<le> b" by simp
    with b show "c \<in> taken_ahead p k taken a" unfolding taken_ahead_def by blast
  qed
  ultimately show "taken_ahead p k taken (Suc a) \<subset> taken_ahead p k taken a" by blast
qed

function free_name :: "string \<Rightarrow> string \<Rightarrow> string list \<Rightarrow> nat \<Rightarrow> string" where
  "free_name prefix key taken attempt =
     (if 1 \<le> attempt \<and> candidate prefix key attempt \<in> set taken
      then free_name prefix key taken (Suc attempt) else candidate prefix key attempt)"
  by pat_completeness auto
termination
  by (relation "measure (\<lambda>(p, k, taken, a). card (taken_ahead p k taken a))")
     (auto intro: taken_ahead_less)

declare free_name.simps [simp del]

lemma free_name_free:
  "1 \<le> a \<Longrightarrow> free_name p k taken a \<notin> set taken \<and> (\<exists>b \<ge> a. free_name p k taken a = candidate p k b)"
proof (induction p k taken a rule: free_name.induct)
  case (1 p k taken a)
  show ?case
  proof (cases "candidate p k a \<in> set taken")
    case True
    then have "free_name p k taken a = free_name p k taken (Suc a)"
      using "1.prems" by (subst free_name.simps) simp
    moreover have "free_name p k taken (Suc a) \<notin> set taken \<and> (\<exists>b \<ge> Suc a. free_name p k taken (Suc a) = candidate p k b)"
      using "1.IH" "1.prems" True by simp
    ultimately show ?thesis using Suc_leD by metis
  next
    case False
    then have "free_name p k taken a = candidate p k a" by (subst free_name.simps) simp
    with False show ?thesis by auto
  qed
qed

text \<open>Both sets are visited as the keys of maps: the lists may be in any order.\<close>

definition negotiateConversions ::
    "string \<Rightarrow> string list \<Rightarrow> string list \<Rightarrow> (string, string) gomap" where
  "negotiateConversions prefix original new =
     (if original = [] \<or> new = [] then []
      else map (\<lambda>key. (key, free_name prefix key (original @ new) 1)) (filter (\<lambda>k. k \<in> set original) new))"

section \<open>Renaming\<close>

definition RenameTestGroup :: "string \<Rightarrow> string \<Rightarrow> configuration \<Rightarrow> configuration" where
  "RenameTestGroup original new cfg =
     cfg\<lparr>cfg_test_groups :=
           map (\<lambda>tg. if tg_name tg = original then tg\<lparr>tg_name := new\<rparr> else tg) (cfg_test_groups cfg),
         cfg_dashboards :=
           map (\<lambda>d. d\<lparr>dash_tabs :=
                   map (\<lambda>t. if tab_test_group_name t = original then t\<lparr>tab_test_group_name := new\<rparr> else t)
                     (dash_tabs d)\<rparr>) (cfg_dashboards cfg)\<rparr>"

definition RenameDashboard :: "string \<Rightarrow> string \<Rightarrow> configuration \<Rightarrow> configuration" where
  "RenameDashboard original new cfg =
     cfg\<lparr>cfg_dashboards :=
           map (\<lambda>d. if dash_name d = original then d\<lparr>dash_name := new\<rparr> else d) (cfg_dashboards cfg),
         cfg_dashboard_groups :=
           map (\<lambda>g. g\<lparr>dg_dashboard_names :=
                   map (\<lambda>n. if n = original then new else n) (dg_dashboard_names g)\<rparr>)
             (cfg_dashboard_groups cfg)\<rparr>"

definition RenameDashboardGroup :: "string \<Rightarrow> string \<Rightarrow> configuration \<Rightarrow> configuration" where
  "RenameDashboardGroup original new cfg =
     cfg\<lparr>cfg_dashboard_groups :=
           map (\<lambda>g. if dg_name g = original then g\<lparr>dg_name := new\<rparr> else g) (cfg_dashboard_groups cfg)\<rparr>"

definition RenameDashboardOrGroup :: "string \<Rightarrow> string \<Rightarrow> configuration \<Rightarrow> configuration" where
  "RenameDashboardOrGroup original new cfg =
     RenameDashboard original new (RenameDashboardGroup original new cfg)"

section \<open>Converge\<close>

record converge_state =
  cv_result :: configuration
  cv_dashboards :: "string list"
  cv_test_groups :: "string list"

definition dashboard_and_group_names :: "configuration \<Rightarrow> string list" where
  "dashboard_and_group_names cfg = map dash_name (cfg_dashboards cfg) @ map dg_name (cfg_dashboard_groups cfg)"

definition test_group_names :: "configuration \<Rightarrow> string list" where
  "test_group_names cfg = map tg_name (cfg_test_groups cfg)"

text \<open>\<open>proto.Merge\<close> appends the repeated fields.\<close>

definition proto_merge :: "configuration \<Rightarrow> configuration \<Rightarrow> configuration" where
  "proto_merge dst src =
     \<lparr>cfg_test_groups = cfg_test_groups dst @ cfg_test_groups src,
      cfg_dashboards = cfg_dashboards dst @ cfg_dashboards src,
      cfg_dashboard_groups = cfg_dashboard_groups dst @ cfg_dashboard_groups src\<rparr>"

definition rename_shard :: "string \<Rightarrow> converge_state \<Rightarrow> configuration \<Rightarrow> configuration" where
  "rename_shard key st cfg =
     (let dashboardRenames = negotiateConversions key (cv_dashboards st) (remdups (dashboard_and_group_names cfg));
          testGroupRenames = negotiateConversions key (cv_test_groups st) (remdups (test_group_names cfg));
          cfg = fold (\<lambda>(a, b). RenameDashboardOrGroup a b) dashboardRenames cfg
      in fold (\<lambda>(a, b). RenameTestGroup a b) testGroupRenames cfg)"

definition converge_shard :: "converge_state \<Rightarrow> string \<times> configuration \<Rightarrow> converge_state" where
  "converge_shard st shard =
     (case shard of (key, cfg) \<Rightarrow>
       (let cfg = rename_shard key st cfg in
        \<lparr>cv_result = proto_merge (cv_result st) cfg,
         cv_dashboards = cv_dashboards st @ dashboard_and_group_names cfg,
         cv_test_groups = cv_test_groups st @ test_group_names cfg\<rparr>))"

definition empty_configuration :: configuration where
  "empty_configuration = \<lparr>cfg_test_groups = [], cfg_dashboards = [], cfg_dashboard_groups = []\<rparr>"

definition Converge :: "(string, configuration) gomap \<Rightarrow> configuration go" where
  "Converge shards =
     (if shards = [] then Inl (Failed ''no configurations to converge'')
      else Inr (cv_result (foldl converge_shard
             \<lparr>cv_result = empty_configuration, cv_dashboards = [], cv_test_groups = []\<rparr>
             (sort_key fst shards))))"

section \<open>All renames at once\<close>

text \<open>
  The renames of a shard are applied one after the other, in the order of a map.  None of the new
  names is renamed again, so that they amount to one simultaneous renaming.
\<close>

definition rename_groups :: "(string \<Rightarrow> string) \<Rightarrow> configuration \<Rightarrow> configuration" where
  "rename_groups f cfg =
     cfg\<lparr>cfg_test_groups := map (\<lambda>tg. tg\<lparr>tg_name := f (tg_name tg)\<rparr>) (cfg_test_groups cfg),
         cfg_dashboards :=
           map (\<lambda>d. d\<lparr>dash_tabs :=
                  map (\<lambda>t. t\<lparr>tab_test_group_name := f (tab_test_group_name t)\<rparr>) (dash_tabs d)\<rparr>)
             (cfg_dashboards cfg)\<rparr>"

definition rename_dashboards :: "(string \<Rightarrow> string) \<Rightarrow> configuration \<Rightarrow> configuration" where
  "rename_dashboards f cfg =
     cfg\<lparr>cfg_dashboards := map (\<lambda>d. d\<lparr>dash_name := f (dash_name d)\<rparr>) (cfg_dashboards cfg),
         cfg_dashboard_groups :=
           map (\<lambda>g. g\<lparr>dg_name := f (dg_name g), dg_dashboard_names := map f (dg_dashboard_names g)\<rparr>)
             (cfg_dashboard_groups cfg)\<rparr>"

definition lookup_name :: "(string, string) gomap \<Rightarrow> string \<Rightarrow> string" where
  "lookup_name conv n = (case map_of conv n of Some m \<Rightarrow> m | None \<Rightarrow> n)"

lemma RenameTestGroup_at: "RenameTestGroup a b cfg = rename_groups (\<lambda>n. if n = a then b else n) cfg"
  by (simp add: RenameTestGroup_def rename_groups_def)

lemma RenameDashboardOrGroup_at:
  "RenameDashboardOrGroup a b cfg = rename_dashboards (\<lambda>n. if n = a then b else n) cfg"
  by (simp add: RenameDashboardOrGroup_def RenameDashboard_def RenameDashboardGroup_def rename_dashboards_def
      comp_def if_distrib [of dg_name] cong: if_cong)

lemma rename_comp:
  "rename_groups g (rename_groups f cfg) = rename_groups (g \<circ> f) cfg"
  "rename_dashboards g (rename_dashboards f cfg) = rename_dashboards (g \<circ> f) cfg"
  by (simp_all add: rename_groups_def rename_dashboards_def comp_def)

lemma rename_id: "rename_groups (\<lambda>n. n) cfg = cfg" "rename_dashboards (\<lambda>n. n) cfg = cfg"
  by (simp_all add: rename_groups_def rename_dashboards_def)

lemma lookup_name_Cons:
  "b \<notin> fst ` set conv \<Longrightarrow> lookup_name conv \<circ> (\<lambda>n. if n = a then b else n) = lookup_name ((a, b) # conv)"
  by (auto simp: lookup_name_def fun_eq_iff keys_map_of)

lemma fold_renames:
  assumes "\<forall>(a, b) \<in> set conv. b \<notin> fst ` set conv"
  shows "fold (\<lambda>(a, b). RenameTestGroup a b) conv cfg = rename_groups (lookup_name conv) cfg"
    and "fold (\<lambda>(a, b). RenameDashboardOrGroup a b) conv cfg = rename_dashboards (lookup_name conv) cfg"
proof -
  have "fold (\<lambda>(a, b). RenameTestGroup a b) conv cfg = rename_groups (lookup_name conv) cfg \<and>
      fold (\<lambda>(a, b). RenameDashboardOrGroup a b) conv cfg = rename_dashboards (lookup_name conv) cfg"
    using assms
  proof (induction conv arbitrary: cfg)
    case Nil
    then show ?case by (simp add: lookup_name_def rename_id)
  next
    case (Cons ab conv)
    obtain a b where ab: "ab = (a, b)" by (cases ab)
    have "\<forall>(a, b) \<in> set conv. b \<notin> fst ` set conv" "b \<notin> fst ` set conv" using Cons.prems ab by auto
    with Cons.IH [of "RenameTestGroup a b cfg"] Cons.IH [of "RenameDashboardOrGroup a b cfg"] show ?case
      by (simp add: ab RenameTestGroup_at RenameDashboardOrGroup_at rename_comp lookup_name_Cons)
  qed
  then show "fold (\<lambda>(a, b). RenameTestGroup a b) conv cfg = rename_groups (lookup_name conv) cfg"
    "fold (\<lambda>(a, b). RenameDashboardOrGroup a b) conv cfg = rename_dashboards (lookup_name conv) cfg"
    by blast+
qed

lemma negotiated:
  assumes "(a, b) \<in> set (negotiateConversions p original new)"
  shows "b \<notin> set original" "b \<notin> set new" "a \<in> set original" "a \<in> set new"
  using assms free_name_free [of 1 p a "original @ new"]
  by (auto simp: negotiateConversions_def split: if_splits)

lemma negotiated_all: "\<forall>(a, b) \<in> set (negotiateConversions p original new). b \<notin> fst ` set (negotiateConversions p original new)"
  using negotiated by fastforce

text \<open>The new name of a shard's name: itself, or the free name when it is taken.\<close>

definition new_name :: "string \<Rightarrow> string list \<Rightarrow> string list \<Rightarrow> string \<Rightarrow> string" where
  "new_name p original new n =
     (if n \<in> set original \<and> n \<in> set new then free_name p n (original @ new) 1 else n)"

lemma lookup_negotiated: "lookup_name (negotiateConversions p original new) n = new_name p original new n"
proof (cases "n \<in> set original \<and> n \<in> set new")
  case True
  then have "map_of (map (\<lambda>k. (k, free_name p k (original @ new) 1)) (filter (\<lambda>k. k \<in> set original) new)) n =
      Some (free_name p n (original @ new) 1)"
    by (simp add: map_of_map_restrict)
  with True show ?thesis by (auto simp: lookup_name_def new_name_def negotiateConversions_def)
next
  case False
  then have "map_of (negotiateConversions p original new) n = None"
    by (auto simp: negotiateConversions_def map_of_eq_None_iff)
  with False show ?thesis by (auto simp: lookup_name_def new_name_def)
qed

lemma new_name_fresh: "n \<in> set new \<Longrightarrow> new_name p original new n \<notin> set original"
  using free_name_free [of 1 p n "original @ new"] by (simp add: new_name_def)

lemma rename_shard_eq:
  "rename_shard key st cfg =
   rename_groups (new_name key (cv_test_groups st) (remdups (test_group_names cfg)))
     (rename_dashboards (new_name key (cv_dashboards st) (remdups (dashboard_and_group_names cfg))) cfg)"
  unfolding rename_shard_def Let_def fold_renames [OF negotiated_all]
  by (simp add: lookup_negotiated [abs_def])

section \<open>What survives\<close>

definition group_members :: "configuration \<Rightarrow> string list" where
  "group_members c = concat (map dg_dashboard_names (cfg_dashboard_groups c))"

text \<open>Every tab shows a test group, every test group is shown, every group has existing dashboards.\<close>

definition refs_resolved :: "configuration \<Rightarrow> bool" where
  "refs_resolved c \<longleftrightarrow>
     set (tab_groups c) = set (test_group_names c) \<and>
     set (group_members c) \<subseteq> dash_name ` set (cfg_dashboards c)"

lemma references_ok_resolved: "references_ok c \<Longrightarrow> refs_resolved c"
  by (auto simp: references_ok_def refs_resolved_def group_members_def test_group_names_def Let_def)

lemma rename_names [simp]:
  "test_group_names (rename_groups f c) = map f (test_group_names c)"
  "tab_groups (rename_groups f c) = map f (tab_groups c)"
  "dashboard_and_group_names (rename_groups f c) = dashboard_and_group_names c"
  "group_members (rename_groups f c) = group_members c"
  "map dash_name (cfg_dashboards (rename_groups f c)) = map dash_name (cfg_dashboards c)"
  "test_group_names (rename_dashboards f c) = test_group_names c"
  "tab_groups (rename_dashboards f c) = tab_groups c"
  "dashboard_and_group_names (rename_dashboards f c) = map f (dashboard_and_group_names c)"
  "group_members (rename_dashboards f c) = map f (group_members c)"
  "map dash_name (cfg_dashboards (rename_dashboards f c)) = map f (map dash_name (cfg_dashboards c))"
  by (simp_all add: rename_groups_def rename_dashboards_def test_group_names_def tab_groups_def
      dashboard_and_group_names_def group_members_def comp_def map_concat)

lemma refs_resolved_renamed:
  assumes "refs_resolved c"
  shows "refs_resolved (rename_groups f (rename_dashboards g c))"
proof -
  have "dash_name ` set (cfg_dashboards (rename_groups f (rename_dashboards g c))) =
      g ` dash_name ` set (cfg_dashboards c)"
    by (simp add: rename_groups_def rename_dashboards_def image_image)
  with assms show ?thesis by (auto simp: refs_resolved_def)
qed

lemma merge_names [simp]:
  "test_group_names (proto_merge a b) = test_group_names a @ test_group_names b"
  "tab_groups (proto_merge a b) = tab_groups a @ tab_groups b"
  "group_members (proto_merge a b) = group_members a @ group_members b"
  "cfg_dashboards (proto_merge a b) = cfg_dashboards a @ cfg_dashboards b"
  "set (dashboard_and_group_names (proto_merge a b)) =
     set (dashboard_and_group_names a) \<union> set (dashboard_and_group_names b)"
  "distinct (dashboard_and_group_names (proto_merge a b)) =
     distinct (dashboard_and_group_names a @ dashboard_and_group_names b)"
  by (auto simp: proto_merge_def test_group_names_def tab_groups_def group_members_def dashboard_and_group_names_def)

lemma refs_resolved_merge: "refs_resolved a \<Longrightarrow> refs_resolved b \<Longrightarrow> refs_resolved (proto_merge a b)"
  by (auto simp: refs_resolved_def)

text \<open>The sets the loop keeps are the names of the result so far.\<close>

definition converge_ok :: "converge_state \<Rightarrow> bool" where
  "converge_ok st \<longleftrightarrow>
     refs_resolved (cv_result st) \<and>
     set (cv_dashboards st) = set (dashboard_and_group_names (cv_result st)) \<and>
     set (cv_test_groups st) = set (test_group_names (cv_result st))"

lemma converge_shard_ok:
  "converge_ok st \<Longrightarrow> refs_resolved (snd shard) \<Longrightarrow> converge_ok (converge_shard st shard)"
  by (cases shard)
     (simp add: converge_ok_def converge_shard_def Let_def rename_shard_eq refs_resolved_merge refs_resolved_renamed)

lemma foldl_converge_ok:
  "converge_ok st \<Longrightarrow> \<forall>s \<in> set shards. refs_resolved (snd s) \<Longrightarrow> converge_ok (foldl converge_shard st shards)"
  by (induction shards arbitrary: st) (simp_all add: converge_shard_ok)

definition converge_start :: converge_state where
  "converge_start = \<lparr>cv_result = empty_configuration, cv_dashboards = [], cv_test_groups = []\<rparr>"

lemma converge_start_simps [simp]:
  "converge_ok converge_start" "cv_result converge_start = empty_configuration"
  "cv_dashboards converge_start = []" "cv_test_groups converge_start = []"
  by (simp_all add: converge_start_def converge_ok_def empty_configuration_def refs_resolved_def tab_groups_def
      test_group_names_def dashboard_and_group_names_def group_members_def)

lemma Converge_start:
  "shards \<noteq> [] \<Longrightarrow> Converge shards = Inr (cv_result (foldl converge_shard converge_start (sort_key fst shards)))"
  by (simp add: Converge_def converge_start_def)

lemma Converge_refs:
  assumes "Converge shards = Inr r" "\<forall>s \<in> set shards. refs_resolved (snd s)"
  shows "refs_resolved r"
proof -
  have "shards \<noteq> []" using assms(1) by (auto simp: Converge_def)
  moreover have "converge_ok (foldl converge_shard converge_start (sort_key fst shards))"
    using assms(2) by (intro foldl_converge_ok) simp_all
  ultimately show ?thesis using assms(1) by (simp add: Converge_start converge_ok_def)
qed

text \<open>
  Names stay apart as long as no two names of a shard are given the same new name, which the
  negotiation of one name at a time does not rule out.
\<close>

definition names_apart :: "configuration \<Rightarrow> bool" where
  "names_apart c \<longleftrightarrow> distinct (test_group_names c) \<and> distinct (dashboard_and_group_names c)"

fun clash_free :: "converge_state \<Rightarrow> (string \<times> configuration) list \<Rightarrow> bool" where
  "clash_free st [] \<longleftrightarrow> True"
| "clash_free st ((key, cfg) # shards) \<longleftrightarrow>
     distinct (map snd (negotiateConversions key (cv_dashboards st) (remdups (dashboard_and_group_names cfg)))) \<and>
     distinct (map snd (negotiateConversions key (cv_test_groups st) (remdups (test_group_names cfg)))) \<and>
     clash_free (converge_shard st (key, cfg)) shards"

lemma new_name_inj:
  assumes "distinct (map snd (negotiateConversions p original new))" "distinct new"
  shows "inj_on (new_name p original new) (set new)"
proof (rule inj_onI)
  fix m n
  assume mn: "m \<in> set new" "n \<in> set new" "new_name p original new m = new_name p original new n"
  have fresh: "free_name p k (original @ new) 1 \<notin> set (original @ new)" for k
    using free_name_free [of 1 p k "original @ new"] by simp
  consider "m \<in> set original" "n \<in> set original" | "m \<notin> set original" "n \<notin> set original" |
      "m \<in> set original \<longleftrightarrow> n \<notin> set original" by blast
  then show "m = n"
  proof cases
    case 1
    have "distinct (map (\<lambda>k. free_name p k (original @ new) 1) (filter (\<lambda>k. k \<in> set original) new))"
      using assms(1) 1 mn(1) by (auto simp: negotiateConversions_def comp_def split: if_splits)
    with 1 mn show ?thesis by (auto simp: new_name_def distinct_map inj_on_def)
  next
    case 2
    with mn show ?thesis by (simp add: new_name_def)
  next
    case 3
    with mn fresh [of m] fresh [of n] show ?thesis by (auto simp: new_name_def)
  qed
qed

lemma names_apart_merge:
  assumes "names_apart a" "names_apart b" "set (test_group_names a) \<inter> set (test_group_names b) = {}"
    "set (dashboard_and_group_names a) \<inter> set (dashboard_and_group_names b) = {}"
  shows "names_apart (proto_merge a b)"
  using assms by (simp add: names_apart_def)

lemma converge_shard_apart:
  assumes "converge_ok st" "names_apart (cv_result st)" "names_apart cfg" "clash_free st [(key, cfg)]"
  shows "names_apart (cv_result (converge_shard st (key, cfg)))"
proof -
  let ?f = "new_name key (cv_test_groups st) (remdups (test_group_names cfg))"
  let ?g = "new_name key (cv_dashboards st) (remdups (dashboard_and_group_names cfg))"
  have inj: "inj_on ?f (set (test_group_names cfg))" "inj_on ?g (set (dashboard_and_group_names cfg))"
    using new_name_inj [of key "cv_test_groups st" "remdups (test_group_names cfg)"]
      new_name_inj [of key "cv_dashboards st" "remdups (dashboard_and_group_names cfg)"] assms(4)
    by simp_all
  have "names_apart (rename_groups ?f (rename_dashboards ?g cfg))"
    using inj assms(3) by (simp add: names_apart_def distinct_map)
  moreover have "?f ` set (test_group_names cfg) \<inter> set (test_group_names (cv_result st)) = {}"
      "?g ` set (dashboard_and_group_names cfg) \<inter> set (dashboard_and_group_names (cv_result st)) = {}"
    using assms(1) new_name_fresh [of _ "remdups (test_group_names cfg)" key "cv_test_groups st"]
      new_name_fresh [of _ "remdups (dashboard_and_group_names cfg)" key "cv_dashboards st"]
    by (auto simp: converge_ok_def)
  ultimately show ?thesis
    using assms(2) by (simp add: converge_shard_def Let_def rename_shard_eq names_apart_merge Int_commute)
qed

lemma foldl_converge_apart:
  "converge_ok st \<Longrightarrow> names_apart (cv_result st) \<Longrightarrow>
   \<forall>s \<in> set shards. refs_resolved (snd s) \<and> names_apart (snd s) \<Longrightarrow> clash_free st shards \<Longrightarrow>
   names_apart (cv_result (foldl converge_shard st shards))"
proof (induction shards arbitrary: st)
  case (Cons s shards)
  obtain key cfg where s: "s = (key, cfg)" by (cases s)
  have "converge_ok (converge_shard st s)" using Cons.prems by (simp add: converge_shard_ok)
  moreover have "names_apart (cv_result (converge_shard st s))"
    using converge_shard_apart [of st cfg key] Cons.prems s by simp
  ultimately show ?case using Cons.IH [of "converge_shard st s"] Cons.prems s by simp
qed simp

lemma Converge_apart:
  assumes "Converge shards = Inr r" "\<forall>s \<in> set shards. refs_resolved (snd s) \<and> names_apart (snd s)"
    "clash_free converge_start (sort_key fst shards)"
  shows "names_apart r"
proof -
  have "shards \<noteq> []" using assms(1) by (auto simp: Converge_def)
  moreover have "names_apart empty_configuration"
    by (simp add: names_apart_def empty_configuration_def test_group_names_def dashboard_and_group_names_def)
  ultimately show ?thesis
    using assms foldl_converge_apart [of converge_start "sort_key fst shards"] by (auto simp: Converge_start)
qed

text \<open>Two names of one shard can be given the same new name.\<close>

lemma negotiate_clash:
  "negotiateConversions ''p'' [''a'', ''2-a'', ''p-a''] [''a'', ''2-a''] = [(''a'', ''p-2-a''), (''2-a'', ''p-2-a'')]"
  by code_simp

text \<open>
  Names are compared as they are written, while the validation compares them without punctuation
  and case: two valid configurations can give one that is not.
\<close>

definition mini_config :: "string \<Rightarrow> string \<Rightarrow> configuration" where
  "mini_config g d =
     \<lparr>cfg_test_groups = [empty_test_group\<lparr>tg_name := g, tg_gcs_prefix := ''bucket'',
        tg_days_of_results := 1, tg_num_columns_recent := 1\<rparr>],
      cfg_dashboards = [empty_dashboard\<lparr>dash_name := d, dash_tabs :=
        [empty_dashboard_tab\<lparr>tab_name := ''tests'', tab_test_group_name := g\<rparr>]\<rparr>],
      cfg_dashboard_groups = []\<rparr>"

lemma mini_config_valid:
  assumes "validateName g = None" "validateName d = None" "rx [] \<noteq> None"
  shows "Validate rx subexps (Some (mini_config g d)) = []"
proof -
  have "validateName ''tests'' = None" by code_simp
  moreover have "g \<noteq> []" using assms(1) by (auto simp: validateName_def)
  moreover have "validateTestGroup rx (Some (empty_test_group\<lparr>tg_name := g, tg_gcs_prefix := ''bucket'',
      tg_days_of_results := 1, tg_num_columns_recent := 1\<rparr>)) = []"
    using assms(3)
    by (simp add: validateTestGroup_def format_mismatch_def group_errors_def empty_test_group_def
        validateResultStoreSource_def validateGCSSource_def get_resultstore_config_def get_gcs_config_def
        name_config_errors_def)
  ultimately show ?thesis using assms
    by (simp add: Validate_iff mini_config_def names_ok_def references_ok_def entities_ok_def tab_groups_def
        validateDashboardTab_def empty_dashboard_tab_def tabular_errors_def get_alert_options_def
        get_status_options_def zero_alert_options_def zero_status_options_def Let_def)
qed

lemma Converge_not_valid:
  assumes "rx [] \<noteq> None"
  shows "\<exists>a b r. Validate rx subexps (Some a) = [] \<and> Validate rx subexps (Some b) = [] \<and>
    Converge [(''a'', a), (''b'', b)] = Inr r \<and> Validate rx subexps (Some r) \<noteq> []"
proof -
  let ?a = "mini_config ''unit-tests'' ''first-board''" and ?b = "mini_config ''unittests'' ''other-board''"
  have names: "validateName ''unit-tests'' = None" "validateName ''first-board'' = None"
      "validateName ''unittests'' = None" "validateName ''other-board'' = None"
    by code_simp+
  obtain r where r: "Converge [(''a'', ?a), (''b'', ?b)] = Inr r" by (simp add: Converge_def)
  moreover have "map tg_name (cfg_test_groups r) = [''unit-tests'', ''unittests'']"
  proof -
    have "map (map tg_name \<circ> cfg_test_groups) (case Converge [(''a'', ?a), (''b'', ?b)] of Inr r \<Rightarrow> [r] | Inl _ \<Rightarrow> []) =
        [[''unit-tests'', ''unittests'']]"
      by code_simp
    then show ?thesis by (simp add: r)
  qed
  then have "\<not> names_ok r"
  proof -
    assume names: "map tg_name (cfg_test_groups r) = [''unit-tests'', ''unittests'']"
    have "map Normalize [''unit-tests'', ''unittests''] = [''unittests'', ''unittests'']" by code_simp
    then have "map (\<lambda>tg. Normalize (tg_name tg)) (cfg_test_groups r) = [''unittests'', ''unittests'']"
      using arg_cong [OF names, of "map Normalize"] by (simp add: comp_def)
    then show ?thesis by (simp add: names_ok_def)
  qed
  ultimately show ?thesis
    using mini_config_valid [of "''unit-tests''" "''first-board''" rx subexps]
      mini_config_valid [of "''unittests''" "''other-board''" rx subexps] names assms Validate_iff
    by metis
qed

text \<open>The first shard keeps its names; one under the empty key comes first.\<close>

lemma rename_shard_start: "rename_shard key converge_start cfg = cfg"
  by (simp add: rename_shard_eq new_name_def [abs_def] rename_id)

lemma foldl_converge_prefix:
  "\<exists>gs ds dgs. cv_result (foldl converge_shard st shards) =
     \<lparr>cfg_test_groups = cfg_test_groups (cv_result st) @ gs,
      cfg_dashboards = cfg_dashboards (cv_result st) @ ds,
      cfg_dashboard_groups = cfg_dashboard_groups (cv_result st) @ dgs\<rparr>"
proof (induction shards arbitrary: st)
  case Nil
  show ?case by (intro exI [of _ "[]"]) simp
next
  case (Cons s shards)
  obtain key cfg where s: "s = (key, cfg)" by (cases s)
  from Cons.IH [of "converge_shard st s"] show ?case
    by (force simp: s converge_shard_def Let_def proto_merge_def)
qed

lemma Converge_first:
  assumes "Converge shards = Inr r" "sort_key fst shards = (key, cfg) # rest"
  shows "\<exists>gs ds dgs. r = \<lparr>cfg_test_groups = cfg_test_groups cfg @ gs, cfg_dashboards = cfg_dashboards cfg @ ds,
    cfg_dashboard_groups = cfg_dashboard_groups cfg @ dgs\<rparr>"
proof -
  have "shards \<noteq> []" using assms(1) by (auto simp: Converge_def)
  moreover have "cv_result (converge_shard converge_start (key, cfg)) = cfg"
    by (simp add: converge_shard_def Let_def rename_shard_start proto_merge_def empty_configuration_def)
  ultimately show ?thesis
    using assms foldl_converge_prefix [of "converge_shard converge_start (key, cfg)" rest]
    by (simp add: Converge_start)
qed

end
