(* ===== verification/Config_Queue.thy ===== *)
theory Config_Queue
  imports Work_Queue Config_Proto
begin

text \<open>
  The queues of dashboards and of test groups over the work queue: \<open>config/queue.go\<close>.
\<close>

section \<open>Dashboards\<close>

record dashboard_queue =
  dq_queue :: work_queue
  dq_dashboards :: "(string, dashboard) gomap"
  dq_groups :: "(string, string list) gomap"

text \<open>A set of names is the list of its elements.\<close>

definition add_shown :: "string \<Rightarrow> string \<Rightarrow> (string, string list) gomap \<Rightarrow> (string, string list) gomap" where
  "add_shown name g groups =
     (let ns = (case map_of groups g of None \<Rightarrow> [] | Some ns \<Rightarrow> ns) in AList.update g (List.insert name ns) groups)"

definition index_dashboard ::
    "dashboard \<Rightarrow> (string, string list) gomap \<Rightarrow> (string, string list) gomap" where
  "index_dashboard d groups = fold (add_shown (dash_name d)) (map tab_test_group_name (dash_tabs d)) groups"

definition DashboardQueue_Init :: "dashboard list \<Rightarrow> int \<Rightarrow> dashboard_queue \<Rightarrow> dashboard_queue go" where
  "DashboardQueue_Init dashboards when q =
     (case Init (map dash_name dashboards) when (dq_queue q) of
        Inl e \<Rightarrow> Inl e
      | Inr q' \<Rightarrow> Inr \<lparr>dq_queue = q', dq_dashboards = [], dq_groups = fold index_dashboard dashboards []\<rparr>)"

definition fixed_dashboards ::
    "(string, string list) gomap \<Rightarrow> int \<Rightarrow> string list \<Rightarrow> (string, int) gomap" where
  "fixed_dashboards shown when groups =
     fold (\<lambda>g m. case map_of shown g of None \<Rightarrow> m | Some ns \<Rightarrow> fold (\<lambda>n. AList.update n when) ns m) groups []"

definition FixTestGroups ::
    "int \<Rightarrow> bool \<Rightarrow> string list \<Rightarrow> dashboard_queue \<Rightarrow> string list option \<times> dashboard_queue" where
  "FixTestGroups when later groups q =
     (case FixAll (fixed_dashboards (dq_groups q) when groups) later (dq_queue q) of
        (err, q') \<Rightarrow> (err, q\<lparr>dq_queue := q'\<rparr>))"

section \<open>Test groups\<close>

record test_group_queue =
  tq_queue :: work_queue
  tq_groups :: "(string, test_group) gomap"

definition TestGroupQueue_Init :: "test_group list \<Rightarrow> int \<Rightarrow> test_group_queue \<Rightarrow> test_group_queue go" where
  "TestGroupQueue_Init testGroups when q =
     (case Init (map tg_name testGroups) when (tq_queue q) of
        Inl e \<Rightarrow> Inl e
      | Inr q' \<Rightarrow>
          Inr \<lparr>tq_queue = q', tq_groups = fold (\<lambda>tg. AList.update (tg_name tg) tg) testGroups []\<rparr>)"

definition TestGroupQueue_Status :: "test_group_queue \<Rightarrow> nat \<times> test_group option \<times> int" where
  "TestGroupQueue_Status q =
     (case Status (tq_queue q) of
        (n, None) \<Rightarrow> (n, None, 0)
      | (n, Some (who, when)) \<Rightarrow> (n, map_of (tq_groups q) who, when))"

text \<open>
  \<open>Send\<close> runs the send of the work queue and passes on the test group of every name that comes out,
  skipping the names it does not know.
\<close>

definition forward :: "(string, test_group) gomap \<Rightarrow> string list \<Rightarrow> test_group list" where
  "forward groups whos = List.map_filter (map_of groups) whos"

definition TestGroupQueue_Send :: "int \<Rightarrow> int list \<Rightarrow> test_group_queue \<Rightarrow> test_group list" where
  "TestGroupQueue_Send frequency nows q = forward (tq_groups q) (sends frequency nows (tq_queue q))"

section \<open>Which dashboards a test group fixes\<close>

definition shown_in :: "(string, string list) gomap \<Rightarrow> string \<Rightarrow> string set" where
  "shown_in shown g = (case map_of shown g of None \<Rightarrow> {} | Some ns \<Rightarrow> set ns)"

definition showing :: "dashboard list \<Rightarrow> string \<Rightarrow> string set" where
  "showing ds g = {dash_name d | d. d \<in> set ds \<and> g \<in> tab_test_group_name ` set (dash_tabs d)}"

lemma shown_in_add: "shown_in (add_shown name g m) h = (if h = g then insert name (shown_in m g) else shown_in m h)"
  by (auto simp: shown_in_def add_shown_def Let_def update_conv split: option.split)

lemma shown_in_adds:
  "shown_in (fold (add_shown name) gs m) h = shown_in m h \<union> (if h \<in> set gs then {name} else {})"
  by (induction gs arbitrary: m) (auto simp: shown_in_add)

lemma shown_in_indexed: "shown_in (fold index_dashboard ds m) h = shown_in m h \<union> showing ds h"
  by (induction ds arbitrary: m) (auto simp: index_dashboard_def shown_in_adds showing_def image_iff)

lemma fold_update_all:
  "distinct (map fst m) \<Longrightarrow>
   distinct (map fst (fold (\<lambda>n. AList.update n t) ns m)) \<and>
   map_of (fold (\<lambda>n. AList.update n t) ns m) k = (if k \<in> set ns then Some t else map_of m k)"
  by (induction ns arbitrary: m) (simp_all add: distinct_update update_conv)

lemma fixed_dashboards_spec:
  "distinct (map fst (fixed_dashboards shown t gs)) \<and>
   map_of (fixed_dashboards shown t gs) k = (if \<exists>g \<in> set gs. k \<in> shown_in shown g then Some t else None)"
proof -
  define step where
    "step g m = (case map_of shown g of None \<Rightarrow> m | Some ns \<Rightarrow> fold (\<lambda>n. AList.update n t) ns m)"
    for g and m :: "(string, int) gomap"
  have step: "distinct (map fst m) \<Longrightarrow> distinct (map fst (step g m)) \<and>
      map_of (step g m) k = (if k \<in> shown_in shown g then Some t else map_of m k)" for g m
    using fold_update_all [of m t "the (map_of shown g)" k]
    by (auto simp: step_def shown_in_def split: option.split)
  have "distinct (map fst m) \<Longrightarrow> distinct (map fst (fold step gs m)) \<and>
      map_of (fold step gs m) k = (if \<exists>g \<in> set gs. k \<in> shown_in shown g then Some t else map_of m k)" for m
  proof (induction gs arbitrary: m)
    case (Cons g gs)
    from step [OF Cons.prems, of g] Cons.IH [of "step g m"] show ?case by auto
  qed simp
  from this [of "[]"] show ?thesis by (simp add: fixed_dashboards_def step_def [abs_def])
qed

text \<open>
  What \<open>Init\<close> sets up and \<open>FixTestGroups\<close> keeps: the dashboards of the index are in the queue.
\<close>

definition dashboard_queue_ok :: "dashboard list \<Rightarrow> dashboard_queue \<Rightarrow> bool" where
  "dashboard_queue_ok ds q \<longleftrightarrow>
     queue_ok (dq_queue q) \<and> all_queued (dq_queue q) \<and> names (dq_queue q) = dash_name ` set ds \<and>
     (\<forall>g. shown_in (dq_groups q) g = showing ds g)"

lemma DashboardQueue_Init_ok:
  assumes "queue_ok (dq_queue q)" "all_queued (dq_queue q)"
  shows "\<exists>q'. DashboardQueue_Init ds t q = Inr q' \<and> dashboard_queue_ok ds q'"
proof -
  from Init_spec [OF assms, of "map dash_name ds" t] obtain w where
    "Init (map dash_name ds) t (dq_queue q) = Inr w" "queue_ok w" "all_queued w" "names w = dash_name ` set ds"
    by auto
  then show ?thesis
    by (simp add: DashboardQueue_Init_def dashboard_queue_ok_def shown_in_indexed) (simp add: shown_in_def)
qed

lemma FixTestGroups_spec:
  assumes ok: "dashboard_queue_ok ds q"
  shows "\<exists>q'. FixTestGroups t later gs q = (None, q') \<and> dashboard_queue_ok ds q' \<and>
    (\<forall>n. when_of (dq_queue q') n =
       (if \<exists>g \<in> set gs. n \<in> showing ds g then fixed_time later t (when_of (dq_queue q) n)
        else when_of (dq_queue q) n))"
proof -
  let ?w = "fixed_dashboards (dq_groups q) t gs"
  have shown: "\<And>g. shown_in (dq_groups q) g = showing ds g" and "indexed (dq_queue q)"
    and names: "names (dq_queue q) = dash_name ` set ds"
    using ok by (simp_all add: dashboard_queue_ok_def queue_ok_def)
  have d: "distinct (map fst ?w)"
    and look: "\<And>k. map_of ?w k = (if \<exists>g \<in> set gs. k \<in> showing ds g then Some t else None)"
    using fixed_dashboards_spec [of "dq_groups q" t gs] by (simp_all add: shown)
  have known: "showing ds g \<subseteq> names (dq_queue q)" for g by (auto simp: showing_def names)
  have "fst ` set ?w \<subseteq> names (dq_queue q)"
  proof
    fix n
    assume "n \<in> fst ` set ?w"
    then have "map_of ?w n \<noteq> None" by (simp add: map_of_eq_None_iff)
    then show "n \<in> names (dq_queue q)" using known by (auto simp: look split: if_splits)
  qed
  then have none: "filter (\<lambda>n. n \<notin> names (dq_queue q)) (map fst ?w) = []"
    by (auto simp: filter_empty_conv)
  from FixAll_spec [OF \<open>indexed (dq_queue q)\<close> d, of later] none obtain w where
    w: "FixAll ?w later (dq_queue q) = (None, w)" "queue_ok w" "mset (wq_queue w) = mset (wq_queue (dq_queue q))"
      "names w = names (dq_queue q)"
      "\<And>n. when_of w n = (case map_of ?w n of
          Some t \<Rightarrow> if n \<in> names (dq_queue q) then fixed_time later t (when_of (dq_queue q) n) else when_of (dq_queue q) n
        | None \<Rightarrow> when_of (dq_queue q) n)"
    by auto
  have "all_queued w" using ok w(4) mset_eq_setD [OF w(3)] by (simp add: dashboard_queue_ok_def all_queued_def)
  then have "dashboard_queue_ok ds (q\<lparr>dq_queue := w\<rparr>)"
    using ok w(2,4) by (simp add: dashboard_queue_ok_def)
  moreover have "when_of w n = (if \<exists>g \<in> set gs. n \<in> showing ds g
      then fixed_time later t (when_of (dq_queue q) n) else when_of (dq_queue q) n)" for n
    using known by (auto simp: w(5) look)
  ultimately show ?thesis using w(1) by (simp add: FixTestGroups_def)
qed

section \<open>Every name that is sent has its test group\<close>

definition test_group_queue_ok :: "test_group_queue \<Rightarrow> bool" where
  "test_group_queue_ok q \<longleftrightarrow>
     queue_ok (tq_queue q) \<and> all_queued (tq_queue q) \<and>
     (\<forall>n \<in> names (tq_queue q). \<exists>tg. map_of (tq_groups q) n = Some tg \<and> tg_name tg = n)"

lemma last_named:
  "n \<in> tg_name ` set tgs \<or> (\<exists>tg. map_of m n = Some tg \<and> tg_name tg = n) \<Longrightarrow>
   \<exists>tg. map_of (fold (\<lambda>tg. AList.update (tg_name tg) tg) tgs m) n = Some tg \<and> tg_name tg = n"
proof (induction tgs arbitrary: m)
  case (Cons tg tgs)
  have "n \<in> tg_name ` set tgs \<or> (\<exists>u. map_of (AList.update (tg_name tg) tg m) n = Some u \<and> tg_name u = n)"
    using Cons.prems by (auto simp: update_conv)
  from Cons.IH [OF this] show ?case by simp
qed simp

lemma TestGroupQueue_Init_ok:
  assumes "queue_ok (tq_queue q)" "all_queued (tq_queue q)"
  shows "\<exists>q'. TestGroupQueue_Init tgs t q = Inr q' \<and> test_group_queue_ok q' \<and>
    names (tq_queue q') = tg_name ` set tgs"
proof -
  from Init_spec [OF assms, of "map tg_name tgs" t] obtain w where
    "Init (map tg_name tgs) t (tq_queue q) = Inr w" "queue_ok w" "all_queued w" "names w = tg_name ` set tgs"
    by auto
  then show ?thesis using last_named [of _ tgs "[]"]
    by (simp add: TestGroupQueue_Init_def test_group_queue_ok_def)
qed

lemma TestGroupQueue_Status_ok:
  assumes "test_group_queue_ok q"
  shows "case TestGroupQueue_Status q of
      (n, None, when) \<Rightarrow> n = 0 \<and> wq_queue (tq_queue q) = []
    | (n, Some tg, when) \<Rightarrow> n = length (wq_queue (tq_queue q)) \<and> tg_name tg = hd (wq_queue (tq_queue q)) \<and>
        (\<forall>m \<in> names (tq_queue q). when \<le> when_of (tq_queue q) m)"
proof (cases "wq_queue (tq_queue q)")
  case Nil
  then show ?thesis by (simp add: TestGroupQueue_Status_def Status_def peek_def)
next
  case (Cons n ns)
  then have "n \<in> names (tq_queue q)"
    using assms by (metis all_queued_def list.set_intros(1) test_group_queue_ok_def)
  then obtain tg where "map_of (tq_groups q) n = Some tg" "tg_name tg = n"
    using assms by (auto simp: test_group_queue_ok_def)
  moreover have "when_of (tq_queue q) n \<le> when_of (tq_queue q) m" if "m \<in> names (tq_queue q)" for m
  proof -
    have "queue_ok (tq_queue q)" "m \<in> set (wq_queue (tq_queue q))"
      using assms that by (simp_all add: test_group_queue_ok_def all_queued_def)
    from earliest [OF this] show ?thesis by (simp add: Cons)
  qed
  ultimately show ?thesis using Cons by (simp add: TestGroupQueue_Status_def Status_def peek_def)
qed

end
