(* ===== verification/Flakiness.thy ===== *)
theory Flakiness
  imports Compress
begin

text \<open>
  Healthiness of the tests of a tab: \<open>pkg/summarizer/flakiness.go\<close>, \<open>common/common.go\<close> and
  \<open>analyzers\<close>.  The grid is read row by row through its iterators; the flip analyser turns the
  statuses of a test into a percentage.
\<close>

section \<open>The flip analyser\<close>

datatype status_category = StatusPass | StatusFail | StatusFlaky

definition ignoreFailuresInARow :: nat where
  "ignoreFailuresInARow = 3"

function consecutiveFailures :: "status_category list \<Rightarrow> nat \<Rightarrow> nat" where
  "consecutiveFailures statuses i =
     (if i < length statuses \<and> statuses ! i = StatusFail then Suc (consecutiveFailures statuses (Suc i)) else 0)"
  by pat_completeness auto
termination
  by (relation "measure (\<lambda>(ss, i). length ss - i)") auto

declare consecutiveFailures.simps [simp del]

text \<open>The loop; its result is the number of flips and of statuses considered.\<close>

function flip_loop :: "status_category list \<Rightarrow> nat \<Rightarrow> nat \<Rightarrow> nat \<Rightarrow> bool \<Rightarrow> nat \<times> nat" where
  "flip_loop statuses i flips considered lastPassing =
     (if i < length statuses then
        (let cf = consecutiveFailures statuses i;
             i = (if cf \<ge> ignoreFailuresInARow then i + cf else i)
         in if i \<ge> length statuses then (flips, considered)
            else case statuses ! i of
                StatusPass \<Rightarrow> flip_loop statuses (Suc i) flips (Suc considered) True
              | StatusFlaky \<Rightarrow> flip_loop statuses (Suc i) (Suc flips) (Suc considered) True
              | StatusFail \<Rightarrow>
                  flip_loop statuses (Suc i) (if lastPassing then Suc flips else flips) (Suc considered) False)
      else (flips, considered))"
  by pat_completeness auto
termination
  by (relation "measure (\<lambda>(ss, i, _). length ss - i)") auto

declare flip_loop.simps [simp del]

definition calculateFlipFlakiness :: "status_category list \<Rightarrow> float64" where
  "calculateFlipFlakiness statuses =
     (case flip_loop statuses 0 0 0 True of
        (flips, considered) \<Rightarrow> if considered = 0 then 0 else 100 * of_nat flips / of_nat considered)"

section \<open>The base analyser\<close>

record grid_metrics =
  gm_name :: string
  gm_passed :: int
  gm_failed :: int
  gm_flaky_count :: int
  gm_average_flakiness :: float64
  gm_failed_infra_count :: int
  gm_infra_failures :: "(string, int) gomap"

definition NewGridMetrics :: "string \<Rightarrow> grid_metrics" where
  "NewGridMetrics name =
     \<lparr>gm_name = name, gm_passed = 0, gm_failed = 0, gm_flaky_count = 0, gm_average_flakiness = 0,
      gm_failed_infra_count = 0, gm_infra_failures = []\<rparr>"

datatype trend = TREND_UNKNOWN | TREND_NO_CHANGE | TREND_UP | TREND_DOWN

record test_info =
  ti_display_name :: string
  ti_total_non_infra_runs :: int
  ti_passed_non_infra_runs :: int
  ti_failed_non_infra_runs :: int
  ti_failed_infra_runs :: int
  ti_total_runs_with_infra :: int
  ti_flakiness :: float64
  ti_previous_flakiness :: "float64 list"
  ti_change_from_last_interval :: trend
  ti_infra_failures :: "(string, int) gomap"

record healthiness_info =
  hi_start :: int
  hi_end :: int
  hi_tests :: "test_info list"
  hi_average_flakiness :: float64
  hi_previous_flakiness :: "float64 list"

definition calculateNaiveFlakiness :: "grid_metrics \<Rightarrow> int \<Rightarrow> test_info option" where
  "calculateNaiveFlakiness test minRuns =
     (let totalCount = gm_passed test + gm_failed test in
      if totalCount \<le> 0 \<or> totalCount < minRuns then None
      else Some
        \<lparr>ti_display_name = [], ti_total_non_infra_runs = totalCount, ti_passed_non_infra_runs = gm_passed test,
         ti_failed_non_infra_runs = gm_failed test, ti_failed_infra_runs = gm_failed_infra_count test,
         ti_total_runs_with_infra = totalCount + gm_failed_infra_count test,
         ti_flakiness = 100 * of_int (gm_failed test) / of_int totalCount, ti_previous_flakiness = [],
         ti_change_from_last_interval = TREND_UNKNOWN, ti_infra_failures = gm_infra_failures test\<rparr>)"

definition average :: "float64 list \<Rightarrow> float64" where
  "average xs = (if xs = [] then 0 else sum_list xs / of_nat (length xs))"

definition createHealthiness :: "int \<Rightarrow> int \<Rightarrow> test_info list \<Rightarrow> healthiness_info" where
  "createHealthiness startDate endDate testInfoList =
     \<lparr>hi_start = startDate, hi_end = endDate, hi_tests = testInfoList,
      hi_average_flakiness = average (map ti_flakiness testInfoList), hi_previous_flakiness = []\<rparr>"

definition base_GetFlakiness :: "grid_metrics list \<Rightarrow> int \<Rightarrow> int \<Rightarrow> int \<Rightarrow> healthiness_info" where
  "base_GetFlakiness gridMetrics minRuns startDate endDate =
     createHealthiness startDate endDate
       (List.map_filter
         (\<lambda>test. map_option (\<lambda>ti. ti\<lparr>ti_display_name := gm_name test\<rparr>) (calculateNaiveFlakiness test minRuns))
         gridMetrics)"

definition GetFlakiness ::
    "(string, status_category list) gomap \<Rightarrow> grid_metrics list \<Rightarrow> int \<Rightarrow> int \<Rightarrow> int \<Rightarrow> healthiness_info" where
  "GetFlakiness relevantStatus gridMetrics minRuns startDate endDate =
     (let healthiness = base_GetFlakiness gridMetrics minRuns startDate endDate;
          tests = map (\<lambda>test. test\<lparr>ti_flakiness :=
              calculateFlipFlakiness (case map_of relevantStatus (ti_display_name test) of
                Some statuses \<Rightarrow> statuses | None \<Rightarrow> [])\<rparr>) (hi_tests healthiness)
      in healthiness\<lparr>hi_tests := tests, hi_average_flakiness := average (map ti_flakiness tests)\<rparr>)"

section \<open>Reading the grid\<close>

definition is_word :: "char \<Rightarrow> bool" where
  "is_word c \<longleftrightarrow> CHR ''0'' \<le> c \<and> c \<le> CHR ''9'' \<or> CHR ''A'' \<le> c \<and> c \<le> CHR ''Z'' \<or> c = CHR ''_'' \<or>
     CHR ''a'' \<le> c \<and> c \<le> CHR ''z''"

definition isInfraFailure :: "string \<Rightarrow> bool" where
  "isInfraFailure message \<longleftrightarrow> message \<noteq> [] \<and> list_all is_word message"

definition isValidTestName :: "string \<Rightarrow> bool" where
  "isValidTestName name \<longleftrightarrow> \<not> str_contains name ''@TESTGRID@''"

definition isWithinTimeFrame :: "column \<Rightarrow> int \<Rightarrow> int \<Rightarrow> bool" where
  "isWithinTimeFrame c startTime endTime \<longleftrightarrow> of_int startTime \<le> col_started c \<and> col_started c \<le> of_int endTime"

definition getValueOfFlakyMetric :: "grid_metrics \<Rightarrow> grid_metrics" where
  "getValueOfFlakyMetric gm =
     (let n = gm_flaky_count gm + 1
      in gm\<lparr>gm_flaky_count := n,
            gm_average_flakiness := gm_average_flakiness gm + (50 - gm_average_flakiness gm) / of_int n\<rparr>)"

fun failing_loop :: "nat \<Rightarrow> (string, iter_state) gomap \<Rightarrow> bool list" where
  "failing_loop 0 its = []"
| "failing_loop (Suc n) its =
     (case next_all its of (vals, its') \<Rightarrow>
        (\<not> list_ex (\<lambda>(r, ok). ok \<and> Coalesce r True \<in> {PASS, FLAKY}) vals) # failing_loop n its')"

definition failingColumns :: "nat \<Rightarrow> row list \<Rightarrow> bool list" where
  "failingColumns numColumns rows =
     (if length rows \<le> 1 then replicate numColumns False else failing_loop numColumns (result_map rows))"

definition count_infra :: "string \<Rightarrow> grid_metrics \<Rightarrow> grid_metrics" where
  "count_infra message gm =
     gm\<lparr>gm_failed_infra_count := gm_failed_infra_count gm + 1,
        gm_infra_failures := AList.update message
          ((case map_of (gm_infra_failures gm) message of Some n \<Rightarrow> n | None \<Rightarrow> 0) + 1) (gm_infra_failures gm)\<rparr>"

text \<open>The loop over the results of one row, with the columns that are left and their failing flags.\<close>

fun scan_row :: "string list \<Rightarrow> int \<Rightarrow> int \<Rightarrow> (column \<times> bool) list \<Rightarrow> iter_state \<Rightarrow> nat \<Rightarrow>
    grid_metrics \<Rightarrow> status_category list \<Rightarrow> (grid_metrics \<times> status_category list) go" where
  "scan_row messages startTime endTime [] f rowToMessageIndex gm statuses = Inr (gm, statuses)"
| "scan_row messages startTime endTime ((c, failing) # cols) f rowToMessageIndex gm statuses =
     (case iter_next f of ((r, ok), f') \<Rightarrow>
        if \<not> ok then Inr (gm, statuses)
        else
          (let rowResult = Coalesce r False; scan = scan_row messages startTime endTime cols f' in
           if \<not> isWithinTimeFrame c startTime endTime
           then scan (if rowResult = NO_RESULT then rowToMessageIndex else Suc rowToMessageIndex) gm statuses
           else if rowResult = NO_RESULT then scan rowToMessageIndex gm statuses
           else if rowResult = FAIL then
             go_bind (slice_at messages rowToMessageIndex) (\<lambda>message.
               if isInfraFailure message then scan (Suc rowToMessageIndex) (count_infra message gm) statuses
               else scan (Suc rowToMessageIndex) (gm\<lparr>gm_failed := gm_failed gm + 1\<rparr>)
                      (if failing then statuses else statuses @ [StatusFail]))
           else if rowResult = PASS then
             scan (Suc rowToMessageIndex) (gm\<lparr>gm_passed := gm_passed gm + 1\<rparr>) (statuses @ [StatusPass])
           else if rowResult = FLAKY then
             scan (Suc rowToMessageIndex) (getValueOfFlakyMetric gm) (statuses @ [StatusFlaky])
           else scan (Suc rowToMessageIndex) gm statuses))"

definition grid_rows_by_name :: "row list \<Rightarrow> (string, row) gomap" where
  "grid_rows_by_name rows = fold (\<lambda>r. AList.update (row_name r) r) rows []"

definition parse_test ::
    "grid \<Rightarrow> int \<Rightarrow> int \<Rightarrow> string \<times> iter_state \<Rightarrow> (string \<times> grid_metrics \<times> status_category list) go" where
  "parse_test g startTime endTime test =
     (case test of (key, f) \<Rightarrow>
        if \<not> isValidTestName key then Inr (key, NewGridMetrics key, [])
        else
          (let messages = (case map_of (grid_rows_by_name (grid_rows g)) key of
                 Some r \<Rightarrow> row_messages r | None \<Rightarrow> []);
               failing = failingColumns (length (grid_columns g)) (grid_rows g)
           in go_bind (scan_row messages startTime endTime (zip (grid_columns g) failing) f 0 (NewGridMetrics key) [])
                (\<lambda>(gm, statuses). Inr (key, gm, statuses))))"

definition parseGrid ::
    "grid \<Rightarrow> int \<Rightarrow> int \<Rightarrow> (grid_metrics list \<times> (string, status_category list) gomap) go" where
  "parseGrid g startTime endTime =
     go_bind (go_map (parse_test g (startTime * 1000) (endTime * 1000)) (result_map (grid_rows g)))
       (\<lambda>parsed. Inr
         (filter (\<lambda>m. gm_failed m > 0 \<or> gm_passed m > 0 \<or> gm_flaky_count m > 0) (map (\<lambda>(_, gm, _). gm) parsed),
          map (\<lambda>(key, _, statuses). (key, statuses)) parsed))"

definition minRuns :: int where
  "minRuns = 0"

definition CalculateHealthiness :: "grid \<Rightarrow> int \<Rightarrow> int \<Rightarrow> healthiness_info go" where
  "CalculateHealthiness g startTime endTime =
     go_bind (parseGrid g startTime endTime)
       (\<lambda>(gridMetrics, relevantFilteredStatus).
          Inr (GetFlakiness relevantFilteredStatus gridMetrics minRuns startTime endTime))"

section \<open>Trends\<close>

definition getTrend :: "float64 \<Rightarrow> float64 \<Rightarrow> trend" where
  "getTrend currentFlakiness previousFlakiness =
     (if currentFlakiness < previousFlakiness then TREND_DOWN
      else if currentFlakiness > previousFlakiness then TREND_UP else TREND_NO_CHANGE)"

definition CalculateTrend :: "healthiness_info \<Rightarrow> healthiness_info \<Rightarrow> healthiness_info" where
  "CalculateTrend currentHealthiness previousHealthiness =
     (let previousFlakiness =
            fold (\<lambda>t. AList.update (ti_display_name t) (ti_flakiness t)) (hi_tests previousHealthiness) []
      in currentHealthiness\<lparr>hi_tests :=
           map (\<lambda>t. case map_of previousFlakiness (ti_display_name t) of
                 Some v \<Rightarrow> t\<lparr>ti_change_from_last_interval := getTrend (ti_flakiness t) v, ti_previous_flakiness := [v]\<rparr>
               | None \<Rightarrow> t) (hi_tests currentHealthiness)\<rparr>)"

definition goBackDays :: "int \<Rightarrow> int \<Rightarrow> int" where
  "goBackDays days currentTime = currentTime - days * 86400"

definition getHealthinessForInterval :: "grid \<Rightarrow> int \<Rightarrow> int \<Rightarrow> healthiness_info go" where
  "getHealthinessForInterval g currentTime interval =
     (let now = goBackDays 0 currentTime; oneInterval = goBackDays interval currentTime;
          twoIntervals = goBackDays (2 * interval) currentTime
      in go_bind (CalculateHealthiness g oneInterval now) (\<lambda>healthiness.
         go_bind (CalculateHealthiness g twoIntervals oneInterval) (\<lambda>past.
           Inr ((CalculateTrend healthiness past)\<lparr>hi_previous_flakiness := [hi_average_flakiness past]\<rparr>))))"

section \<open>Flips\<close>

text \<open>
  The reference: maximal runs of three failures or more are dropped, then every flaky status and
  every failure that does not follow a failure is a flip.
\<close>

function drop_long_runs :: "status_category list \<Rightarrow> status_category list" where
  "drop_long_runs [] = []"
| "drop_long_runs (s # ss) =
     (if s = StatusFail then
        let run = takeWhile (\<lambda>t. t = StatusFail) (s # ss); rest = dropWhile (\<lambda>t. t = StatusFail) ss
        in (if length run \<ge> 3 then [] else run) @ drop_long_runs rest
      else s # drop_long_runs ss)"
  by pat_completeness auto
termination
  by (relation "measure length") (auto simp: le_imp_less_Suc length_dropWhile_le)

fun flips :: "bool \<Rightarrow> status_category list \<Rightarrow> nat" where
  "flips lastPassing [] = 0"
| "flips lastPassing (StatusPass # ss) = flips True ss"
| "flips lastPassing (StatusFlaky # ss) = Suc (flips True ss)"
| "flips lastPassing (StatusFail # ss) = (if lastPassing then 1 else 0) + flips False ss"

lemma flips_le: "flips b ss \<le> length ss"
  by (induction b ss rule: flips.induct) auto

lemma consecutiveFailures_run:
  "consecutiveFailures ss i = length (takeWhile (\<lambda>t. t = StatusFail) (drop i ss))"
proof (induction ss i rule: consecutiveFailures.induct)
  case (1 ss i)
  show ?case
  proof (cases "i < length ss")
    case True
    then have "drop i ss = ss ! i # drop (Suc i) ss" by (simp add: Cons_nth_drop_Suc)
    with True "1.IH" show ?thesis by (simp add: consecutiveFailures.simps [of ss i])
  next
    case False
    then show ?thesis by (simp add: consecutiveFailures.simps [of ss i])
  qed
qed

lemma drop_long_runs_short:
  "length (takeWhile (\<lambda>t. t = StatusFail) ss) < 2 \<Longrightarrow>
   drop_long_runs (StatusFail # ss) = StatusFail # drop_long_runs ss"
  by (cases ss) (auto simp: Let_def)

lemma drop_long_runs_long:
  "3 \<le> length (takeWhile (\<lambda>t. t = StatusFail) ss) \<Longrightarrow>
   drop_long_runs ss = drop_long_runs (dropWhile (\<lambda>t. t = StatusFail) ss)"
  by (cases ss) (auto simp: Let_def split: if_splits)

lemma flip_loop_runs:
  "flip_loop ss i f c b =
   (f + flips b (drop_long_runs (drop i ss)), c + length (drop_long_runs (drop i ss)))"
proof (induction "length ss - i" arbitrary: i f c b rule: less_induct)
  case less
  let ?F = "\<lambda>t. t = StatusFail"
  show ?case
  proof (cases "i < length ss")
    case False
    then show ?thesis by (simp add: flip_loop.simps [of ss i])
  next
    case True
    define cf where "cf = consecutiveFailures ss i"
    define j where "j = (if 3 \<le> cf then i + cf else i)"
    have cf: "cf = length (takeWhile ?F (drop i ss))" by (simp add: cf_def consecutiveFailures_run)
    have j: "drop j ss = (if 3 \<le> cf then dropWhile ?F (drop i ss) else drop i ss)"
      by (simp add: j_def cf dropWhile_eq_drop add.commute)
    then have same: "drop_long_runs (drop j ss) = drop_long_runs (drop i ss)"
      using drop_long_runs_long [of "drop i ss"] cf by auto
    have ij: "i \<le> j" by (simp add: j_def)
    have step: "flip_loop ss i f c b = (if j \<ge> length ss then (f, c) else case ss ! j of
          StatusPass \<Rightarrow> flip_loop ss (Suc j) f (Suc c) True
        | StatusFlaky \<Rightarrow> flip_loop ss (Suc j) (Suc f) (Suc c) True
        | StatusFail \<Rightarrow> flip_loop ss (Suc j) (if b then Suc f else f) (Suc c) False)"
      by (simp only: flip_loop.simps [of ss i] Let_def ignoreFailuresInARow_def cf_def [symmetric]
          j_def [symmetric] if_P [OF True])
    show ?thesis
    proof (cases "j \<ge> length ss")
      case True
      then have "drop_long_runs (drop i ss) = []" using same [symmetric] by simp
      with True show ?thesis unfolding step by simp
    next
      case False
      then have d: "drop j ss = ss ! j # drop (Suc j) ss" by (simp add: Cons_nth_drop_Suc)
      have IH: "flip_loop ss (Suc j) f' c' b' = (f' + flips b' (drop_long_runs (drop (Suc j) ss)),
          c' + length (drop_long_runs (drop (Suc j) ss)))" for f' c' b'
        using less [of "Suc j"] False ij by simp
      have "drop_long_runs (drop j ss) = ss ! j # drop_long_runs (drop (Suc j) ss)"
      proof (cases "ss ! j = StatusFail")
        case True
        have "cf < 3"
        proof (rule ccontr)
          assume "\<not> cf < 3"
          then have "dropWhile ?F (drop i ss) = StatusFail # drop (Suc j) ss" using j d True by simp
          then show False unfolding dropWhile_eq_Cons_conv by simp
        qed
        then have "length (takeWhile ?F (ss ! j # drop (Suc j) ss)) < 3"
          using j cf d by simp
        with True d show ?thesis using drop_long_runs_short [of "drop (Suc j) ss"] by simp
      next
        case False
        with d show ?thesis by simp
      qed
      then have "drop_long_runs (drop i ss) = ss ! j # drop_long_runs (drop (Suc j) ss)" by (simp only: same)
      with False IH show ?thesis unfolding step by (cases "ss ! j") auto
    qed
  qed
qed

lemma calculateFlipFlakiness_eq:
  "calculateFlipFlakiness ss =
   (let t = drop_long_runs ss in if t = [] then 0 else 100 * of_nat (flips True t) / of_nat (length t))"
  by (simp add: calculateFlipFlakiness_def flip_loop_runs Let_def)

lemma calculateFlipFlakiness_bounds: "0 \<le> calculateFlipFlakiness ss \<and> calculateFlipFlakiness ss \<le> 100"
proof -
  let ?t = "drop_long_runs ss"
  have "(of_nat (flips True ?t) :: rat) \<le> of_nat (length ?t)" using flips_le by (simp only: of_nat_le_iff)
  then show ?thesis by (auto simp: calculateFlipFlakiness_eq Let_def divide_le_eq)
qed

section \<open>What the rows say\<close>

text \<open>
  The cells of a row in the time window: status, message and whether the whole column fails.  The
  messages are stored without gaps, one for every cell that has a result.
\<close>

definition window_cells :: "string list \<Rightarrow> int \<Rightarrow> int \<Rightarrow> (column \<times> bool) list \<Rightarrow> test_status list \<Rightarrow> nat \<Rightarrow>
    (test_status \<times> string \<times> bool) list" where
  "window_cells messages startTime endTime cols ss skipped =
     map (\<lambda>i. (ss ! i, messages ! (skipped + filled (take i ss)), snd (cols ! i)))
       (filter (\<lambda>i. isWithinTimeFrame (fst (cols ! i)) startTime endTime \<and> ss ! i \<noteq> NO_RESULT)
          [0..<min (length cols) (length ss)])"

lemma window_cells_Nil [simp]:
  "window_cells ms st en [] ss n = []" "window_cells ms st en cols [] n = []"
  by (simp_all add: window_cells_def)

lemma window_cells_Cons [simp]:
  "window_cells ms st en (cf # cols) (s # ss) n =
   (if isWithinTimeFrame (fst cf) st en \<and> s \<noteq> NO_RESULT then [(s, ms ! n, snd cf)] else []) @
   window_cells ms st en cols ss (if s = NO_RESULT then n else Suc n)"
proof -
  have "[0..<Suc m] = 0 # map Suc [0..<m]" for m by (simp add: map_Suc_upt upt_conv_Cons del: upt_Suc)
  then show ?thesis by (auto simp: window_cells_def filter_map comp_def)
qed

definition failed_by :: "(string \<Rightarrow> bool) \<Rightarrow> test_status \<times> string \<times> bool \<Rightarrow> bool" where
  "failed_by P w \<longleftrightarrow> (case w of (s, m, _) \<Rightarrow> Failing s \<and> P m)"

definition category_of :: "test_status \<times> string \<times> bool \<Rightarrow> status_category option" where
  "category_of w =
     (case w of (s, m, failing) \<Rightarrow>
        if Passing s then Some StatusPass else if s = FLAKY then Some StatusFlaky
        else if Failing s \<and> \<not> isInfraFailure m \<and> \<not> failing then Some StatusFail else None)"

definition count_cell :: "test_status \<times> string \<times> bool \<Rightarrow> grid_metrics \<Rightarrow> grid_metrics" where
  "count_cell w gm =
     (case w of (s, m, _) \<Rightarrow>
        if Passing s then gm\<lparr>gm_passed := gm_passed gm + 1\<rparr>
        else if s = FLAKY then getValueOfFlakyMetric gm
        else if Failing s then
          (if isInfraFailure m then count_infra m gm else gm\<lparr>gm_failed := gm_failed gm + 1\<rparr>)
        else gm)"

lemma map_filter_Cons_append:
  "xs @ List.map_filter f (y # ys) = (xs @ (case f y of None \<Rightarrow> [] | Some z \<Rightarrow> [z])) @ List.map_filter f ys"
  by (simp add: List.map_filter_simps split: option.split)

lemma iter_next_cases:
  obtains (item) r f' where "iter_next f = ((r, True), f')" "iter_todo f = r # iter_todo f'"
    | (stop) r f' where "iter_next f = ((r, False), f')" "iter_todo f = []"
proof (cases "iter_todo f")
  case Nil
  then have "iter_next f = ((NO_RESULT, False), snd (iter_next f))"
    using iter_next_value [of f] by (simp add: prod_eq_iff)
  from stop [OF this Nil] show ?thesis .
next
  case (Cons r ss)
  then have "iter_next f = ((r, True), snd (iter_next f))" "iter_todo f = r # iter_todo (snd (iter_next f))"
    using iter_next_value [of f] iter_next_todo [of f] by (simp_all add: prod_eq_iff)
  then show ?thesis by (rule item)
qed

lemma scan_row_cell:
  assumes "iter_next f = ((r, True), f')" "isWithinTimeFrame c st en" "r \<noteq> NO_RESULT" "idx < length messages"
  shows "scan_row messages st en ((c, failing) # cols) f idx gm statuses =
    (let w = (r, messages ! idx, failing)
     in scan_row messages st en cols f' (Suc idx) (count_cell w gm)
          (statuses @ (case category_of w of None \<Rightarrow> [] | Some z \<Rightarrow> [z])))"
proof -
  have idx: "slice_at messages idx = Inr (messages ! idx)" using assms(4) by simp
  consider "Passing r" | "r = FLAKY" | "Failing r" | "\<not> Passing r" "r \<noteq> FLAKY" "\<not> Failing r" by blast
  then show ?thesis
  proof cases
    case 1
    then have "Coalesce r False = PASS" by (simp only: Coalesce_eq_iffs)
    with 1 assms(1,2) show ?thesis
      by (simp only: scan_row.simps count_cell_def category_of_def) simp
  next
    case 2
    with assms(1,2) show ?thesis by (simp add: count_cell_def category_of_def)
  next
    case 3
    then have c: "Coalesce r False = FAIL" by (simp only: Coalesce_eq_iffs)
    have "\<not> Passing r" "r \<noteq> FLAKY" using 3 by auto
    with 3 c assms(1,2) idx show ?thesis
      by (simp only: scan_row.simps count_cell_def category_of_def) (simp add: Let_def)
  next
    case 4
    then have "Coalesce r False = UNKNOWN" using assms(3) by (simp add: Coalesce_def)
    with 4 assms(1,2) show ?thesis
      by (simp only: scan_row.simps count_cell_def category_of_def) simp
  qed
qed

lemma scan_row_spec:
  assumes "idx + filled (iter_todo f) \<le> length messages"
    and ws_def: "ws = window_cells messages st en cols (iter_todo f) idx"
  shows "scan_row messages st en cols f idx gm statuses =
    Inr (fold count_cell ws gm, statuses @ List.map_filter category_of ws)"
  using assms
proof (induction cols arbitrary: f idx gm statuses ws)
  case Nil
  then show ?case by (simp add: List.map_filter_simps)
next
  case (Cons cf cols)
  obtain c failing where cf: "cf = (c, failing)" by (cases cf)
  show ?case
  proof (cases f rule: iter_next_cases)
    case (stop r f')
    with Cons.prems show ?thesis by (simp add: cf List.map_filter_simps)
  next
    case (item r f')
    let ?next = "if r = NO_RESULT then idx else Suc idx"
    let ?W = "window_cells messages st en cols (iter_todo f') ?next"
    let ?w = "(r, messages ! idx, failing)"
    have "?next + filled (iter_todo f') \<le> length messages"
      using Cons.prems(1) by (simp add: item(2) split: if_splits)
    note IH = Cons.IH [OF this refl]
    show ?thesis
    proof (cases "isWithinTimeFrame c st en \<and> r \<noteq> NO_RESULT")
      case False
      then have "scan_row messages st en (cf # cols) f idx gm statuses =
          scan_row messages st en cols f' ?next gm statuses"
        by (auto simp: cf item(1) Let_def Coalesce_eq_iffs(1))
      moreover have "ws = ?W" using False Cons.prems(2) by (auto simp: cf item(2))
      ultimately show ?thesis by (simp only: IH)
    next
      case True
      have "idx < length messages" using Cons.prems(1) item(2) True by simp
      with item(1) True have "scan_row messages st en (cf # cols) f idx gm statuses =
            scan_row messages st en cols f' ?next (count_cell ?w gm)
              (statuses @ (case category_of ?w of None \<Rightarrow> [] | Some z \<Rightarrow> [z]))"
        unfolding cf by (subst scan_row_cell) (simp_all add: Let_def)
      moreover have "ws = ?w # ?W" using True Cons.prems(2) by (simp add: cf item(2))
      ultimately show ?thesis by (simp only: IH map_filter_Cons_append fold.simps comp_apply)
    qed
  qed
qed

text \<open>What the counters of a test are: the cells of each kind.\<close>

lemma counted_cells:
  "gm_name (fold count_cell ws gm) = gm_name gm \<and>
   gm_passed (fold count_cell ws gm) = gm_passed gm + int (length (filter (\<lambda>w. Passing (fst w)) ws)) \<and>
   gm_failed (fold count_cell ws gm) =
     gm_failed gm + int (length (filter (failed_by (\<lambda>m. \<not> isInfraFailure m)) ws)) \<and>
   gm_failed_infra_count (fold count_cell ws gm) =
     gm_failed_infra_count gm + int (length (filter (failed_by isInfraFailure) ws)) \<and>
   gm_flaky_count (fold count_cell ws gm) = gm_flaky_count gm + int (length (filter (\<lambda>w. fst w = FLAKY) ws))"
proof (induction ws arbitrary: gm)
  case (Cons w ws)
  obtain s m fl where w: "w = (s, m, fl)" by (metis prod_cases3)
  have "gm_name (count_cell w gm) = gm_name gm \<and>
      gm_passed (count_cell w gm) = gm_passed gm + (if Passing s then 1 else 0) \<and>
      gm_failed (count_cell w gm) = gm_failed gm + (if failed_by (\<lambda>m. \<not> isInfraFailure m) w then 1 else 0) \<and>
      gm_failed_infra_count (count_cell w gm) = gm_failed_infra_count gm + (if failed_by isInfraFailure w then 1 else 0) \<and>
      gm_flaky_count (count_cell w gm) = gm_flaky_count gm + (if s = FLAKY then 1 else 0)"
    by (auto simp: w count_cell_def failed_by_def count_infra_def getValueOfFlakyMetric_def Let_def)
  with Cons.IH [of "count_cell w gm"] show ?case by (simp add: w)
qed simp

section \<open>The whole grid\<close>

definition messages_ok :: "grid \<Rightarrow> bool" where
  "messages_ok g \<longleftrightarrow> (\<forall>r \<in> set (grid_rows g). filled (row_statuses r) \<le> length (row_messages r))"

lemma packed_messages_ok: "\<forall>r \<in> set (grid_rows g). packed r \<Longrightarrow> messages_ok g"
  by (auto simp: messages_ok_def packed_def Let_def)

definition test_cells :: "grid \<Rightarrow> int \<Rightarrow> int \<Rightarrow> row \<Rightarrow> (test_status \<times> string \<times> bool) list" where
  "test_cells g startTime endTime r =
     (if isValidTestName (row_name r)
      then window_cells (row_messages r) (startTime * 1000) (endTime * 1000)
             (zip (grid_columns g) (failingColumns (length (grid_columns g)) (grid_rows g))) (row_statuses r) 0
      else [])"

lemma parse_test_spec:
  assumes "messages_ok g" "r \<in> set (grid_rows g)" "map_of (grid_rows_by_name (grid_rows g)) (row_name r) = Some r"
  shows "parse_test g (st * 1000) (en * 1000) (row_name r, Iter (row_results r)) =
    Inr (row_name r, fold count_cell (test_cells g st en r) (NewGridMetrics (row_name r)),
      List.map_filter category_of (test_cells g st en r))"
proof -
  have "0 + filled (iter_todo (Iter (row_results r))) \<le> length (row_messages r)"
    using assms(1,2) by (simp add: messages_ok_def row_statuses_def)
  from scan_row_spec [OF this refl] assms(3) show ?thesis
    by (simp add: parse_test_def test_cells_def row_statuses_def Let_def List.map_filter_simps)
qed

text \<open>A map filled by a loop over a slice whose keys are distinct.\<close>

lemma map_of_fold_update:
  "distinct (map key xs) \<Longrightarrow>
   map_of (fold (\<lambda>x. AList.update (key x) (val x)) xs m) k =
   (case find (\<lambda>x. key x = k) xs of Some x \<Rightarrow> Some (val x) | None \<Rightarrow> map_of m k)"
proof (induction xs arbitrary: m)
  case (Cons u xs)
  have "find (\<lambda>x. key x = key u) xs = None"
    using Cons.prems by (metis (mono_tags, lifting) distinct.simps(2) find_None_iff image_eqI list.set_map list.simps(9))
  with Cons show ?case by (auto simp: update_conv split: option.split)
qed simp

lemma rows_by_name_in:
  assumes "distinct (map row_name rows)" "r \<in> set rows"
  shows "map_of (grid_rows_by_name rows) (row_name r) = Some r"
proof -
  have "find (\<lambda>u. row_name u = row_name r) rows = Some r"
    using assms by (induction rows) auto
  with map_of_fold_update [OF assms(1), of "\<lambda>r. r" "[]" "row_name r"] show ?thesis
    by (simp add: grid_rows_by_name_def)
qed

lemma parseGrid_spec:
  assumes "messages_ok g" "distinct (map row_name (grid_rows g))"
  shows "parseGrid g st en = Inr
    (filter (\<lambda>m. gm_failed m > 0 \<or> gm_passed m > 0 \<or> gm_flaky_count m > 0)
       (map (\<lambda>r. fold count_cell (test_cells g st en r) (NewGridMetrics (row_name r))) (grid_rows g)),
     map (\<lambda>r. (row_name r, List.map_filter category_of (test_cells g st en r))) (grid_rows g))"
proof -
  let ?p = "\<lambda>r. (row_name r, fold count_cell (test_cells g st en r) (NewGridMetrics (row_name r)),
      List.map_filter category_of (test_cells g st en r))"
  have "go_map (parse_test g (st * 1000) (en * 1000)) (map (\<lambda>r. (row_name r, Iter (row_results r))) rows) =
      Inr (map ?p rows)" if "set rows \<subseteq> set (grid_rows g)" for rows
    using that by (induction rows)
      (auto simp: parse_test_spec [OF assms(1)] rows_by_name_in [OF assms(2)])
  then show ?thesis
    by (simp add: parseGrid_def result_map_distinct [OF assms(2)] comp_def)
qed

section \<open>The report\<close>

lemma average_bounds: "\<forall>x \<in> set xs. 0 \<le> x \<and> x \<le> 100 \<Longrightarrow> 0 \<le> average xs \<and> average xs \<le> 100"
proof -
  assume xs: "\<forall>x \<in> set xs. 0 \<le> x \<and> x \<le> 100"
  then have "0 \<le> sum_list xs \<and> sum_list xs \<le> 100 * of_nat (length xs)"
    by (induction xs) (auto simp: algebra_simps intro: add_mono)
  then show ?thesis by (simp add: average_def divide_le_eq)
qed

lemma calculateNaiveFlakiness_Some:
  "calculateNaiveFlakiness gm n = Some ti \<Longrightarrow>
   ti_total_non_infra_runs ti = gm_passed gm + gm_failed gm \<and> 0 < ti_total_non_infra_runs ti \<and>
   ti_passed_non_infra_runs ti = gm_passed gm \<and> ti_failed_non_infra_runs ti = gm_failed gm \<and>
   ti_failed_infra_runs ti = gm_failed_infra_count gm"
  by (auto simp: calculateNaiveFlakiness_def Let_def split: if_splits)

lemma GetFlakiness_bounds:
  "(\<forall>t \<in> set (hi_tests (GetFlakiness rel gms n st en)).
      0 \<le> ti_flakiness t \<and> ti_flakiness t \<le> 100 \<and> 0 < ti_total_non_infra_runs t \<and>
      ti_total_non_infra_runs t = ti_passed_non_infra_runs t + ti_failed_non_infra_runs t \<and>
      (\<exists>gm \<in> set gms. ti_display_name t = gm_name gm \<and> ti_passed_non_infra_runs t = gm_passed gm \<and>
         ti_failed_non_infra_runs t = gm_failed gm \<and> ti_failed_infra_runs t = gm_failed_infra_count gm)) \<and>
   0 \<le> hi_average_flakiness (GetFlakiness rel gms n st en) \<and>
   hi_average_flakiness (GetFlakiness rel gms n st en) \<le> 100"
proof -
  let ?h = "GetFlakiness rel gms n st en"
  have tests: "0 \<le> ti_flakiness t \<and> ti_flakiness t \<le> 100 \<and> 0 < ti_total_non_infra_runs t \<and>
      ti_total_non_infra_runs t = ti_passed_non_infra_runs t + ti_failed_non_infra_runs t \<and>
      (\<exists>gm \<in> set gms. ti_display_name t = gm_name gm \<and> ti_passed_non_infra_runs t = gm_passed gm \<and>
         ti_failed_non_infra_runs t = gm_failed gm \<and> ti_failed_infra_runs t = gm_failed_infra_count gm)"
    if "t \<in> set (hi_tests ?h)" for t
  proof -
    from that obtain gm ti where gm: "gm \<in> set gms" "calculateNaiveFlakiness gm n = Some ti"
        "\<exists>x. 0 \<le> x \<and> x \<le> 100 \<and> t = ti\<lparr>ti_display_name := gm_name gm, ti_flakiness := x\<rparr>"
      using calculateFlipFlakiness_bounds
      by (fastforce simp: GetFlakiness_def base_GetFlakiness_def createHealthiness_def Let_def
          List.map_filter_def)
    then show ?thesis using calculateNaiveFlakiness_Some [OF gm(2)] by auto
  qed
  have "hi_average_flakiness ?h = average (map ti_flakiness (hi_tests ?h))"
    by (simp add: GetFlakiness_def Let_def)
  moreover have "0 \<le> average (map ti_flakiness (hi_tests ?h)) \<and> average (map ti_flakiness (hi_tests ?h)) \<le> 100"
    using average_bounds [of "map ti_flakiness (hi_tests ?h)"] tests by simp
  ultimately show ?thesis by (metis tests)
qed

text \<open>
  A test that only flakes has a flip count, but no passes and no failures: the base analyser drops it.
\<close>

lemma flaky_tests_dropped:
  assumes "messages_ok g" "distinct (map row_name (grid_rows g))"
    "\<forall>r \<in> set (grid_rows g). set (row_statuses r) \<subseteq> {NO_RESULT, FLAKY}"
  shows "\<exists>h. CalculateHealthiness g st en = Inr h \<and> hi_tests h = []"
proof -
  have none: "calculateNaiveFlakiness (fold count_cell (test_cells g st en r) (NewGridMetrics (row_name r))) minRuns = None"
    if "r \<in> set (grid_rows g)" for r
  proof -
    have "fst ` set (test_cells g st en r) \<subseteq> set (row_statuses r)"
      by (auto simp: test_cells_def window_cells_def)
    then have "\<forall>w \<in> set (test_cells g st en r). fst w \<in> {NO_RESULT, FLAKY}" using assms(3) that by blast
    then have "filter (\<lambda>w. Passing (fst w)) (test_cells g st en r) = []"
        "filter (failed_by (\<lambda>m. \<not> isInfraFailure m)) (test_cells g st en r) = []"
      by (auto simp: filter_empty_conv failed_by_def)
    with counted_cells [of "test_cells g st en r" "NewGridMetrics (row_name r)"] show ?thesis
      by (simp add: calculateNaiveFlakiness_def NewGridMetrics_def)
  qed
  then show ?thesis
    by (auto simp: CalculateHealthiness_def parseGrid_spec [OF assms(1,2)] GetFlakiness_def base_GetFlakiness_def
        createHealthiness_def Let_def List.map_filter_def filter_empty_conv)
qed

lemma CalculateTrend_spec:
  assumes "distinct (map ti_display_name (hi_tests p))"
  shows "hi_tests (CalculateTrend c p) =
    map (\<lambda>t. case find (\<lambda>u. ti_display_name u = ti_display_name t) (hi_tests p) of
        Some u \<Rightarrow> t\<lparr>ti_change_from_last_interval := getTrend (ti_flakiness t) (ti_flakiness u),
                    ti_previous_flakiness := [ti_flakiness u]\<rparr>
      | None \<Rightarrow> t) (hi_tests c)"
  using map_of_fold_update [OF assms, of ti_flakiness "[]"]
  by (auto simp: CalculateTrend_def Let_def split: option.split)

end
