(* ===== verification/Tab_Status.thy ===== *)
theory Tab_Status
  imports Flakiness
begin

text \<open>
  What the summarizer reads off the recent columns of a tab: the statistics, the broken state, the
  overall status and the latest green build, \<open>pkg/summarizer/summary.go\<close>.
\<close>

section \<open>Statistics\<close>

record feature_flags =
  allow_fuzzy_flakiness :: bool
  allow_ignored_columns :: bool
  allow_min_number_of_runs :: bool

record grid_stats =
  gs_passing_cols :: int
  gs_completed_cols :: int
  gs_ignored_cols :: int
  gs_passing_cells :: int
  gs_filled_cells :: int

definition coalesceResult :: "test_status \<Rightarrow> bool \<Rightarrow> test_status" where
  "coalesceResult rowResult ignoreRunning = Coalesce rowResult ignoreRunning"

text \<open>The counters of one column: passes, failures, ignores, others.\<close>

record column_count =
  cc_passes :: int
  cc_failures :: int
  cc_ignores :: int
  cc_other :: int

definition count_result ::
    "feature_flags \<Rightarrow> status_options \<Rightarrow> test_status \<Rightarrow> column_count \<times> grid_stats \<Rightarrow> column_count \<times> grid_stats" where
  "count_result features opts r st =
     (case st of (cc, gs) \<Rightarrow>
       (let cc = (if allow_ignored_columns features \<and> Ignored r (so_ignored_test_statuses opts)
                  then cc\<lparr>cc_ignores := cc_ignores cc + 1\<rparr> else cc);
            status = coalesceResult r True
        in if Passing status
           then (cc\<lparr>cc_passes := cc_passes cc + 1\<rparr>,
                 gs\<lparr>gs_passing_cells := gs_passing_cells gs + 1, gs_filled_cells := gs_filled_cells gs + 1\<rparr>)
           else if Failing status
           then (cc\<lparr>cc_failures := cc_failures cc + 1\<rparr>, gs\<lparr>gs_filled_cells := gs_filled_cells gs + 1\<rparr>)
           else if status \<noteq> NO_RESULT
           then (cc\<lparr>cc_other := cc_other cc + 1\<rparr>, gs\<lparr>gs_filled_cells := gs_filled_cells gs + 1\<rparr>)
           else (cc, gs)))"

definition no_count :: column_count where
  "no_count = \<lparr>cc_passes = 0, cc_failures = 0, cc_ignores = 0, cc_other = 0\<rparr>"

definition count_column :: "column_count \<Rightarrow> grid_stats \<Rightarrow> grid_stats" where
  "count_column cc gs =
     (let gs = (if cc_passes cc + cc_failures cc + cc_other cc > 0
                then gs\<lparr>gs_completed_cols := gs_completed_cols gs + 1\<rparr> else gs)
      in if cc_ignores cc > 0 then gs\<lparr>gs_ignored_cols := gs_ignored_cols gs + 1\<rparr>
         else if cc_failures cc = 0 \<and> cc_passes cc > 0 then gs\<lparr>gs_passing_cols := gs_passing_cols gs + 1\<rparr>
         else gs)"

definition column_broken :: "float64 \<Rightarrow> column_count \<Rightarrow> bool" where
  "column_broken brokenThreshold cc \<longleftrightarrow>
     cc_passes cc + cc_failures cc > 0 \<and> brokenThreshold > 0 \<and>
     of_int (cc_failures cc) / of_int (cc_passes cc + cc_failures cc + cc_other cc) > brokenThreshold"

text \<open>The loop stops at \<open>recent\<close>; every iterator is called once per column.\<close>

fun metrics_loop :: "nat \<Rightarrow> float64 \<Rightarrow> feature_flags \<Rightarrow> status_options \<Rightarrow> (string, iter_state) gomap \<Rightarrow>
    grid_stats \<Rightarrow> bool \<Rightarrow> grid_stats \<times> bool" where
  "metrics_loop 0 brokenThreshold features opts results gs brokenState = (gs, brokenState)"
| "metrics_loop (Suc n) brokenThreshold features opts results gs brokenState =
     (case next_all results of (vals, results') \<Rightarrow>
       (case fold (\<lambda>(r, _). count_result features opts r) vals (no_count, gs) of (cc, gs') \<Rightarrow>
          metrics_loop n brokenThreshold features opts results' (count_column cc gs')
            (brokenState \<or> column_broken brokenThreshold cc)))"

definition zero_stats :: grid_stats where
  "zero_stats =
     \<lparr>gs_passing_cols = 0, gs_completed_cols = 0, gs_ignored_cols = 0, gs_passing_cells = 0, gs_filled_cells = 0\<rparr>"

definition gridMetrics ::
    "nat \<Rightarrow> row list \<Rightarrow> int \<Rightarrow> float64 \<Rightarrow> feature_flags \<Rightarrow> status_options \<Rightarrow> grid_stats \<times> bool" where
  "gridMetrics cols rows recent brokenThreshold features opts =
     metrics_loop (min cols (nat recent)) brokenThreshold features opts (result_map rows) zero_stats False"

section \<open>Overall status\<close>

datatype tab_status =
    TAB_NOT_SET | TAB_UNKNOWN | TAB_PASS | TAB_FAIL | TAB_FLAKY | TAB_STALE | TAB_BROKEN | TAB_PENDING
  | TAB_ACCEPTABLE

text \<open>The quotient is NaN or infinite when no column is valid.\<close>

definition isAcceptable :: "grid_stats \<Rightarrow> status_options \<Rightarrow> feature_flags \<Rightarrow> bool" where
  "isAcceptable colCells opts features \<longleftrightarrow>
     allow_fuzzy_flakiness features \<and> so_max_acceptable_flakiness opts > 0 \<and>
     (let valid = gs_completed_cols colCells - gs_ignored_cols colCells
      in if valid = 0 then gs_passing_cols colCells > 0
         else 100 * of_int (gs_passing_cols colCells) / of_int valid \<ge> 100 - so_max_acceptable_flakiness opts)"

text \<open>What the calls for one column say: running, ignored, a result other than a pass, a pass.\<close>

definition skipped_result :: "feature_flags \<Rightarrow> status_options \<Rightarrow> test_status \<Rightarrow> bool" where
  "skipped_result features opts r \<longleftrightarrow>
     r = RUNNING \<or> allow_ignored_columns features \<and> Ignored r (so_ignored_test_statuses opts)"

definition result_class :: "feature_flags \<Rightarrow> status_options \<Rightarrow> test_status \<Rightarrow> test_status" where
  "result_class features opts r =
     (if skipped_result features opts r then NO_RESULT else coalesceResult r True)"

lemma todo_next_all:
  "sum_list (map (\<lambda>(k, it). length (iter_todo it)) (snd (next_all m))) =
   (\<Sum>(k, it) \<leftarrow> m. length (iter_todo it) - 1)"
  by (simp add: next_all_def iter_next_todo comp_def case_prod_unfold)

lemma next_all_decreases:
  assumes "\<exists>v \<in> set (fst (next_all m)). snd v"
  shows "sum_list (map (\<lambda>(k, it). length (iter_todo it)) (snd (next_all m))) <
    sum_list (map (\<lambda>(k, it). length (iter_todo it)) m)"
  unfolding todo_next_all
  using assms
proof (induction m)
  case (Cons e m)
  have le: "(\<Sum>(k, it) \<leftarrow> m. length (iter_todo it) - 1) \<le> (\<Sum>(k, it) \<leftarrow> m. length (iter_todo it))"
    by (rule sum_list_mono) auto
  show ?case
  proof (cases "snd (fst (iter_next (snd e)))")
    case True
    then have "iter_todo (snd e) \<noteq> []" using iter_next_value [of "snd e"] by auto
    with le show ?thesis by (cases e; cases "iter_todo (snd e)") auto
  next
    case False
    then have "\<exists>v \<in> set (fst (next_all m)). snd v" using Cons.prems by (cases e) (auto simp: next_all_def)
    with Cons.IH show ?thesis by (cases e) auto
  qed
qed (simp add: next_all_def)

lemma next_all_shorter:
  assumes "(vals, m') = next_all m" "map fst (filter snd vals) \<noteq> []"
  shows "sum_list (map (\<lambda>(k, it). length (iter_todo it)) m') < sum_list (map (\<lambda>(k, it). length (iter_todo it)) m)"
  using next_all_decreases [of m] assms by (cases "next_all m") (auto simp: filter_empty_conv)

function status_loop :: "feature_flags \<Rightarrow> status_options \<Rightarrow> grid_stats \<Rightarrow> (string, iter_state) gomap \<Rightarrow> int \<Rightarrow>
    bool \<Rightarrow> bool \<Rightarrow> tab_status" where
  "status_loop features opts colCells results recent passing flaky =
     (if recent \<le> 0 then (if passing then TAB_PASS else TAB_UNKNOWN)
      else
        (let (vals, results') = next_all results;
             got = map fst (filter snd vals);
             moreCols = got \<noteq> [];
             running = RUNNING \<in> set got;
             ignored = list_ex (\<lambda>r. r \<noteq> RUNNING \<and> skipped_result features opts r) got;
             seen = filter (\<lambda>r. r \<noteq> NO_RESULT) (map (result_class features opts) got);
             flaky = (flaky \<or> list_ex (\<lambda>r. r \<noteq> PASS) seen);
             foundCol = (PASS \<in> set seen)
         in if running then status_loop features opts colCells results' recent passing flaky
            else if ignored then status_loop features opts colCells results' (recent - 1) passing False
            else if flaky then (if isAcceptable colCells opts features then TAB_ACCEPTABLE else TAB_FLAKY)
            else
              (let passing' = (passing \<or> foundCol); recent' = (if foundCol then recent - 1 else recent)
               in if moreCols then status_loop features opts colCells results' recent' passing' flaky
                  else if passing' then TAB_PASS else TAB_UNKNOWN)))"
  by pat_completeness auto
termination
  by (relation "measure (\<lambda>(_, _, _, m, _). sum_list (map (\<lambda>(k, it). length (iter_todo it)) m))")
     (simp, (simp only: in_measure split_conv, erule next_all_shorter, force simp: list_ex_iff)+)

declare status_loop.simps [simp del]

text \<open>The alerts only matter by their number.\<close>

definition overallStatus :: "grid \<Rightarrow> int \<Rightarrow> string \<Rightarrow> bool \<Rightarrow> 'a list \<Rightarrow> feature_flags \<Rightarrow> grid_stats \<Rightarrow>
    status_options \<Rightarrow> tab_status" where
  "overallStatus g recent stale brokenState alerts features colCells opts =
     (if brokenState then TAB_BROKEN
      else if stale \<noteq> [] then TAB_STALE
      else if alerts \<noteq> [] then TAB_FAIL
      else if allow_min_number_of_runs features \<and>
              so_min_acceptable_runs opts > gs_completed_cols colCells - gs_ignored_cols colCells
      then TAB_PENDING
      else status_loop features opts colCells (result_map (grid_rows g)) recent False False)"

section \<open>The latest green column\<close>

definition noGreens :: string where
  "noGreens = ''no recent greens''"

fun green_loop :: "bool \<Rightarrow> column list \<Rightarrow> (string, iter_state) gomap \<Rightarrow> string" where
  "green_loop useFirstExtra [] results = noGreens"
| "green_loop useFirstExtra (col # cols) results =
     (case next_all results of (vals, results') \<Rightarrow>
        (let rs = map (\<lambda>(r, _). coalesceResult r False) vals;
             passes = PASS \<in> set rs; failures = list_ex (\<lambda>r. r \<in> {FLAKY, FAIL, UNKNOWN}) rs
         in if failures \<or> \<not> passes then green_loop useFirstExtra cols results'
            else case col_extra col of x # xs \<Rightarrow> if useFirstExtra then x else col_build col | [] \<Rightarrow> col_build col))"

definition latestGreen :: "grid \<Rightarrow> bool \<Rightarrow> string" where
  "latestGreen g useFirstExtra = green_loop useFirstExtra (grid_columns g) (result_map (grid_rows g))"

section \<open>The columns of the rows\<close>

text \<open>
  The iterators walk the rows side by side: one call on each gives a column.  The specifications
  below speak of the transposed rows.
\<close>

definition rows_left :: "(string, iter_state) gomap \<Rightarrow> test_status list list" where
  "rows_left m = map (\<lambda>(k, it). iter_todo it) m"

lemma rows_left_result_map:
  "distinct (map row_name rows) \<Longrightarrow> rows_left (result_map rows) = map row_statuses rows"
  by (simp add: rows_left_def result_map_distinct row_statuses_def comp_def)

lemma rows_left_next: "next_all m = (vals, m') \<Longrightarrow> rows_left m' = map tl (rows_left m)"
  by (auto simp: next_all_def rows_left_def iter_next_todo)

lemma got_next:
  "next_all m = (vals, m') \<Longrightarrow> map fst (filter snd vals) = map hd (filter (\<lambda>ss. ss \<noteq> []) (rows_left m))"
proof -
  have "map fst (filter snd (map (\<lambda>(k, it). fst (iter_next it)) m)) = map hd (filter (\<lambda>ss. ss \<noteq> []) (rows_left m))"
    by (induction m) (auto simp: rows_left_def iter_next_value split: list.splits)
  then show "next_all m = (vals, m') \<Longrightarrow> ?thesis" by (auto simp: next_all_def)
qed

lemma vals_next:
  "next_all m = (vals, m') \<Longrightarrow> map fst vals = map (\<lambda>ss. case ss of [] \<Rightarrow> NO_RESULT | s # _ \<Rightarrow> s) (rows_left m)"
  by (auto simp: next_all_def rows_left_def iter_next_value split: list.split)

lemma length_transpose_le: "length (transpose xss) \<le> n \<longleftrightarrow> (\<forall>xs \<in> set xss. length xs \<le> n)"
  unfolding length_transpose by (induction xss) auto

lemma transpose_Nil: "transpose xss = [] \<longleftrightarrow> (\<forall>xs \<in> set xss. xs = [])"
  using length_transpose_le [of xss 0] by simp

lemma transpose_step:
  assumes "filter (\<lambda>xs. xs \<noteq> []) xss \<noteq> []"
  shows "transpose xss = map hd (filter (\<lambda>xs. xs \<noteq> []) xss) # transpose (map tl xss)"
proof (rule nth_equalityI)
  have "length (transpose xss) \<le> Suc n \<longleftrightarrow> length (transpose (map tl xss)) \<le> n" for n
    unfolding length_transpose_le by auto
  moreover have "length (transpose xss) \<noteq> 0" using assms by (simp add: transpose_Nil filter_empty_conv)
  ultimately show len: "length (transpose xss) = length (map hd (filter (\<lambda>xs. xs \<noteq> []) xss) # transpose (map tl xss))"
    by (metis Suc_le_mono diff_Suc_1 le_antisym le_refl length_Cons not0_implies_Suc)
  fix i
  assume i: "i < length (transpose xss)"
  show "transpose xss ! i = (map hd (filter (\<lambda>xs. xs \<noteq> []) xss) # transpose (map tl xss)) ! i"
  proof (cases i)
    case 0
    with i show ?thesis by (auto simp: nth_transpose hd_conv_nth)
  next
    case (Suc j)
    then have "j < length (transpose (map tl xss))" using i len by simp
    with i Suc show ?thesis
      by (auto simp: nth_transpose filter_map comp_def nth_tl intro!: map_cong filter_cong)
  qed
qed

section \<open>The status of a sequence of columns\<close>

definition column_bad :: "feature_flags \<Rightarrow> status_options \<Rightarrow> test_status list \<Rightarrow> bool" where
  "column_bad features opts col \<longleftrightarrow> (\<exists>r \<in> set col. result_class features opts r \<notin> {NO_RESULT, PASS})"

definition column_green :: "feature_flags \<Rightarrow> status_options \<Rightarrow> test_status list \<Rightarrow> bool" where
  "column_green features opts col \<longleftrightarrow> (\<exists>r \<in> set col. result_class features opts r = PASS)"

definition column_ignored :: "feature_flags \<Rightarrow> status_options \<Rightarrow> test_status list \<Rightarrow> bool" where
  "column_ignored features opts col \<longleftrightarrow>
     allow_ignored_columns features \<and> (\<exists>r \<in> set col. r \<noteq> RUNNING \<and> Ignored r (so_ignored_test_statuses opts))"

definition bad_status :: "feature_flags \<Rightarrow> status_options \<Rightarrow> grid_stats \<Rightarrow> tab_status" where
  "bad_status features opts colCells = (if isAcceptable colCells opts features then TAB_ACCEPTABLE else TAB_FLAKY)"

fun status_scan :: "feature_flags \<Rightarrow> status_options \<Rightarrow> grid_stats \<Rightarrow> test_status list list \<Rightarrow> int \<Rightarrow>
    bool \<Rightarrow> bool \<Rightarrow> tab_status" where
  "status_scan features opts colCells [] recent passing flaky =
     (if recent > 0 \<and> flaky then bad_status features opts colCells else if passing then TAB_PASS else TAB_UNKNOWN)"
| "status_scan features opts colCells (col # cols) recent passing flaky =
     (let flaky = (flaky \<or> column_bad features opts col); green = column_green features opts col in
      if recent \<le> 0 then (if passing then TAB_PASS else TAB_UNKNOWN)
      else if RUNNING \<in> set col then status_scan features opts colCells cols recent passing flaky
      else if column_ignored features opts col then status_scan features opts colCells cols (recent - 1) passing False
      else if flaky then bad_status features opts colCells
      else status_scan features opts colCells cols (if green then recent - 1 else recent) (passing \<or> green) flaky)"

lemma status_loop_scan:
  "status_loop features opts colCells m recent passing flaky =
   status_scan features opts colCells (transpose (rows_left m)) recent passing flaky"
proof (induction "sum_list (map (\<lambda>(k, it). length (iter_todo it)) m)" arbitrary: m recent passing flaky
    rule: less_induct)
  case less
  show ?case
  proof (cases "recent \<le> 0")
    case True
    then show ?thesis by (cases "transpose (rows_left m)") (simp_all add: status_loop.simps [of _ _ _ m])
  next
    case False
    obtain vals m' where nx: "next_all m = (vals, m')" by fastforce
    define got where "got = map fst (filter snd vals)"
    have got: "got = map hd (filter (\<lambda>ss. ss \<noteq> []) (rows_left m))" using got_next [OF nx] by (simp add: got_def)
    have ign: "list_ex (\<lambda>r. r \<noteq> RUNNING \<and> skipped_result features opts r) got = column_ignored features opts got"
      by (auto simp: list_ex_iff column_ignored_def skipped_result_def)
    have bad: "list_ex (\<lambda>r. r \<noteq> PASS) (filter (\<lambda>r. r \<noteq> NO_RESULT) (map (result_class features opts) got)) =
        column_bad features opts got"
      by (auto simp: list_ex_iff column_bad_def)
    have green: "PASS \<in> set (filter (\<lambda>r. r \<noteq> NO_RESULT) (map (result_class features opts) got)) =
        column_green features opts got"
      by (simp add: column_green_def image_iff eq_commute [of PASS])
    have step: "status_loop features opts colCells m recent passing flaky =
      (if RUNNING \<in> set got then status_loop features opts colCells m' recent passing (flaky \<or> column_bad features opts got)
       else if column_ignored features opts got then status_loop features opts colCells m' (recent - 1) passing False
       else if flaky \<or> column_bad features opts got then bad_status features opts colCells
       else if got \<noteq> [] then status_loop features opts colCells m'
         (if column_green features opts got then recent - 1 else recent) (passing \<or> column_green features opts got) False
       else if passing \<or> column_green features opts got then TAB_PASS else TAB_UNKNOWN)"
      unfolding status_loop.simps [of features opts colCells m] nx Let_def split_conv got_def [symmetric]
        ign bad green bad_status_def if_not_P [OF False] by simp
    show ?thesis
    proof (cases "got = []")
      case True
      then have "transpose (rows_left m) = []" using got by (simp add: transpose_Nil filter_empty_conv)
      moreover have "\<not> column_bad features opts []" "\<not> column_green features opts []" "\<not> column_ignored features opts []"
        by (simp_all add: column_bad_def column_green_def column_ignored_def)
      ultimately show ?thesis using False True by (simp add: step)
    next
      case ne: False
      then have t: "transpose (rows_left m) = got # transpose (rows_left m')"
        using transpose_step [of "rows_left m"] got rows_left_next [OF nx] by (simp add: filter_empty_conv)
      have "status_loop features opts colCells m' n p f = status_scan features opts colCells (transpose (rows_left m')) n p f"
        for n p f
        using less [of m' n p f] next_all_shorter [OF nx [symmetric]] ne by (simp add: got_def)
      with False ne show ?thesis unfolding step t by (simp add: Let_def)
    qed
  qed
qed

definition tab_columns :: "grid \<Rightarrow> test_status list list" where
  "tab_columns g = transpose (map row_statuses (grid_rows g))"

lemma overallStatus_scan:
  "distinct (map row_name (grid_rows g)) \<Longrightarrow>
   overallStatus g recent [] False [] features colCells opts =
   (if allow_min_number_of_runs features \<and>
       so_min_acceptable_runs opts > gs_completed_cols colCells - gs_ignored_cols colCells
    then TAB_PENDING else status_scan features opts colCells (tab_columns g) recent False False)"
  by (simp add: overallStatus_def status_loop_scan rows_left_result_map tab_columns_def)

text \<open>
  With no running and no ignored results, the recent columns are the first ones that are not blank:
  one result other than a pass in them makes the tab flaky.
\<close>

lemma status_scan_settled:
  assumes "\<forall>col \<in> set cols. RUNNING \<notin> set col \<and> \<not> column_ignored features opts col"
  shows "status_scan features opts colCells cols recent passing False =
    (let inspected = take (nat recent)
           (filter (\<lambda>col. column_bad features opts col \<or> column_green features opts col) cols)
     in if \<exists>col \<in> set inspected. column_bad features opts col then bad_status features opts colCells
        else if passing \<or> inspected \<noteq> [] then TAB_PASS else TAB_UNKNOWN)"
  using assms
proof (induction cols arbitrary: recent passing)
  case (Cons col cols)
  have settled: "RUNNING \<notin> set col" "\<not> column_ignored features opts col" using Cons.prems by simp_all
  show ?case
  proof (cases "recent \<le> 0")
    case False
    then obtain k where "recent = int k + 1" by (metis add.commute not_le zless_iff_Suc_zadd of_nat_Suc add_0)
    then have n: "nat recent = Suc k" "nat (recent - 1) = k" by simp_all
    have step: "status_scan features opts colCells (col # cols) recent passing False =
        (if column_bad features opts col then bad_status features opts colCells
         else status_scan features opts colCells cols (if column_green features opts col then recent - 1 else recent)
           (passing \<or> column_green features opts col) False)"
      using False settled by (simp add: Let_def)
    have IH: "status_scan features opts colCells cols (if column_green features opts col then recent - 1 else recent)
           (passing \<or> column_green features opts col) False =
        (let inspected = take (nat (if column_green features opts col then recent - 1 else recent))
               (filter (\<lambda>col. column_bad features opts col \<or> column_green features opts col) cols)
         in if \<exists>col \<in> set inspected. column_bad features opts col then bad_status features opts colCells
            else if (passing \<or> column_green features opts col) \<or> inspected \<noteq> [] then TAB_PASS else TAB_UNKNOWN)"
      using Cons.prems by (intro Cons.IH) simp
    show ?thesis
    proof (cases "column_bad features opts col")
      case True
      then show ?thesis unfolding step by (simp only: n Let_def) simp
    next
      case ok: False
      show ?thesis
      proof (cases "column_green features opts col")
        case True
        define rest where
          "rest = take k (filter (\<lambda>col. column_bad features opts col \<or> column_green features opts col) cols)"
        have "take (nat recent) (filter (\<lambda>col. column_bad features opts col \<or> column_green features opts col) (col # cols)) = col # rest"
          using True by (simp add: n(1) rest_def)
        with IH ok True show ?thesis unfolding step by (simp only: Let_def n(2) if_True rest_def [symmetric]) simp
      next
        case False
        with IH ok show ?thesis unfolding step by (simp only: Let_def filter.simps simp_thms if_False)
      qed
    qed
  qed (simp add: Let_def)
qed simp

text \<open>A passing tab has a finished green column among its recent ones.\<close>

lemma status_scan_PASS:
  assumes "status_scan features opts colCells cols recent passing flaky = TAB_PASS"
  shows "passing \<or> (\<exists>col \<in> set cols. RUNNING \<notin> set col \<and> \<not> column_ignored features opts col \<and>
    \<not> column_bad features opts col \<and> column_green features opts col)"
  using assms
proof (induction cols arbitrary: recent passing flaky)
  case (Cons col cols)
  show ?case
  proof (rule ccontr)
    assume no: "\<not> ?thesis"
    have "recent > 0" using Cons.prems no by (auto simp: Let_def split: if_splits)
    moreover have "\<not> (\<exists>col \<in> set cols. RUNNING \<notin> set col \<and> \<not> column_ignored features opts col \<and>
        \<not> column_bad features opts col \<and> column_green features opts col)" "\<not> passing" using no by auto
    ultimately have none: "status_scan features opts colCells cols n False f \<noteq> TAB_PASS" for n f
      using Cons.IH [of n False f] by blast
    with Cons.prems no \<open>recent > 0\<close> show False
      by (auto simp: Let_def bad_status_def split: if_splits)
  qed
qed (auto simp: bad_status_def split: if_splits)

text \<open>
  A failure in a column that still runs is kept in the flag and charged to the next column: the tab
  is flaky although every finished column is green.
\<close>

lemma running_failure_flaky:
  "status_scan features opts zero_stats [[RUNNING, FAIL], [PASS, PASS]] 1 False False =
   bad_status features opts zero_stats"
proof -
  have "result_class features opts FAIL = FAIL" "\<not> column_ignored features opts [PASS, PASS]"
    by (auto simp: result_class_def skipped_result_def column_ignored_def coalesceResult_def Ignored_def list_ex_iff
        elim: ignores.elims)
  then show ?thesis by (simp add: column_bad_def)
qed

section \<open>What the statistics count\<close>

text \<open>A row that has run out has no result in the column.\<close>

definition result_at :: "nat \<Rightarrow> test_status list \<Rightarrow> test_status" where
  "result_at i ss = (if i < length ss then ss ! i else NO_RESULT)"

definition column_counts :: "feature_flags \<Rightarrow> status_options \<Rightarrow> test_status list \<Rightarrow> column_count" where
  "column_counts features opts col =
     \<lparr>cc_passes = int (length (filter Passing col)), cc_failures = int (length (filter Failing col)),
      cc_ignores = int (length (filter (\<lambda>r. allow_ignored_columns features \<and> Ignored r (so_ignored_test_statuses opts)) col)),
      cc_other = int (length (filter (\<lambda>r. Coalesce r True \<in> {FLAKY, UNKNOWN}) col))\<rparr>"

lemma column_counts_Nil [simp]: "column_counts features opts [] = no_count"
  by (simp add: column_counts_def no_count_def)

lemma column_counts_Cons:
  "cc_passes (column_counts features opts (r # col)) = (if Passing r then 1 else 0) + cc_passes (column_counts features opts col)"
  "cc_failures (column_counts features opts (r # col)) = (if Failing r then 1 else 0) + cc_failures (column_counts features opts col)"
  "cc_ignores (column_counts features opts (r # col)) =
     (if allow_ignored_columns features \<and> Ignored r (so_ignored_test_statuses opts) then 1 else 0) +
     cc_ignores (column_counts features opts col)"
  "cc_other (column_counts features opts (r # col)) =
     (if Coalesce r True \<in> {FLAKY, UNKNOWN} then 1 else 0) + cc_other (column_counts features opts col)"
  by (simp_all add: column_counts_def del: Passing_iff Failing_iff)

lemma count_result_one:
  "count_result features opts r (cc, gs) =
    (cc\<lparr>cc_passes := (if Passing r then 1 else 0) + cc_passes cc, cc_failures := (if Failing r then 1 else 0) + cc_failures cc,
        cc_ignores := (if allow_ignored_columns features \<and> Ignored r (so_ignored_test_statuses opts) then 1 else 0) + cc_ignores cc,
        cc_other := (if Coalesce r True \<in> {FLAKY, UNKNOWN} then 1 else 0) + cc_other cc\<rparr>,
     gs\<lparr>gs_passing_cells := (if Passing r then 1 else 0) + gs_passing_cells gs,
        gs_filled_cells := (if Passing r then 1 else 0) + (if Failing r then 1 else 0) +
          (if Coalesce r True \<in> {FLAKY, UNKNOWN} then 1 else 0) + gs_filled_cells gs\<rparr>)"
  by (cases r) (simp_all add: count_result_def coalesceResult_def Coalesce_def Let_def)

lemma count_results:
  "fold (count_result features opts) col (cc, gs) =
   (\<lparr>cc_passes = cc_passes cc + cc_passes (column_counts features opts col),
     cc_failures = cc_failures cc + cc_failures (column_counts features opts col),
     cc_ignores = cc_ignores cc + cc_ignores (column_counts features opts col),
     cc_other = cc_other cc + cc_other (column_counts features opts col)\<rparr>,
    gs\<lparr>gs_passing_cells := gs_passing_cells gs + cc_passes (column_counts features opts col),
       gs_filled_cells := gs_filled_cells gs + cc_passes (column_counts features opts col) +
         cc_failures (column_counts features opts col) + cc_other (column_counts features opts col)\<rparr>)"
proof (induction col arbitrary: cc gs)
  case Nil
  show ?case by (simp add: no_count_def)
next
  case (Cons r col)
  show ?case
    by (simp only: fold.simps comp_apply count_result_one Cons.IH column_counts_Cons)
       (simp add: add_ac del: Passing_iff Failing_iff)
qed

text \<open>An ignored result counts as another result, so an ignored column is a completed one.\<close>

lemma column_counts_ok:
  "0 \<le> cc_passes (column_counts features opts col)" "0 \<le> cc_failures (column_counts features opts col)"
  "0 \<le> cc_ignores (column_counts features opts col)" "0 \<le> cc_other (column_counts features opts col)"
  "cc_ignores (column_counts features opts col) \<le> cc_other (column_counts features opts col)"
proof -
  show "cc_ignores (column_counts features opts col) \<le> cc_other (column_counts features opts col)"
    by (induction col) (auto simp: column_counts_Cons no_count_def dest: Ignored_Coalesce)
qed (simp_all add: column_counts_def)

definition add_column :: "feature_flags \<Rightarrow> status_options \<Rightarrow> test_status list \<Rightarrow> grid_stats \<Rightarrow> grid_stats" where
  "add_column features opts col gs =
     (let cc = column_counts features opts col in
      \<lparr>gs_passing_cols = gs_passing_cols gs + (if cc_ignores cc = 0 \<and> cc_failures cc = 0 \<and> cc_passes cc > 0 then 1 else 0),
       gs_completed_cols = gs_completed_cols gs + (if cc_passes cc + cc_failures cc + cc_other cc > 0 then 1 else 0),
       gs_ignored_cols = gs_ignored_cols gs + (if cc_ignores cc > 0 then 1 else 0),
       gs_passing_cells = gs_passing_cells gs + cc_passes cc,
       gs_filled_cells = gs_filled_cells gs + cc_passes cc + cc_failures cc + cc_other cc\<rparr>)"

lemma add_column_step:
  "fold (count_result features opts) col (no_count, gs) = (cc, gs') \<Longrightarrow>
   cc = column_counts features opts col \<and> count_column cc gs' = add_column features opts col gs"
proof -
  assume "fold (count_result features opts) col (no_count, gs) = (cc, gs')"
  then have cc: "cc = column_counts features opts col"
    and gs': "gs' = gs\<lparr>gs_passing_cells := gs_passing_cells gs + cc_passes cc,
       gs_filled_cells := gs_filled_cells gs + cc_passes cc + cc_failures cc + cc_other cc\<rparr>"
    by (auto simp: count_results no_count_def)
  have "0 \<le> cc_ignores cc" by (simp add: cc column_counts_ok)
  then show ?thesis by (cases gs) (auto simp: gs' cc [symmetric] count_column_def add_column_def Let_def)
qed

lemma next_result_at:
  "next_all m = (vals, m') \<Longrightarrow> map fst vals = map (result_at 0) (rows_left m)"
  "next_all m = (vals, m') \<Longrightarrow> map (result_at i) (rows_left m') = map (result_at (Suc i)) (rows_left m)"
proof -
  assume nx: "next_all m = (vals, m')"
  show "map fst vals = map (result_at 0) (rows_left m)"
    using vals_next [OF nx] by (auto simp: result_at_def split: list.split)
  have "result_at i (tl ss) = result_at (Suc i) ss" for ss by (cases ss) (auto simp: result_at_def)
  then show "map (result_at i) (rows_left m') = map (result_at (Suc i)) (rows_left m)"
    unfolding rows_left_next [OF nx] by simp
qed

lemma metrics_loop_spec:
  assumes "cols = map (\<lambda>i. map (result_at i) (rows_left m)) [0..<n]"
  shows "metrics_loop n threshold features opts m gs broken =
    (fold (add_column features opts) cols gs,
     broken \<or> (\<exists>col \<in> set cols. column_broken threshold (column_counts features opts col)))"
  using assms
proof (induction n arbitrary: m gs broken cols)
  case (Suc n)
  obtain vals m' where nx: "next_all m = (vals, m')" by fastforce
  let ?col = "map (result_at 0) (rows_left m)"
  let ?cols = "map (\<lambda>i. map (result_at i) (rows_left m')) [0..<n]"
  have cols: "cols = ?col # ?cols"
    unfolding Suc.prems by (simp add: upt_conv_Cons map_Suc_upt [symmetric] comp_def next_result_at(2) [OF nx] del: upt_Suc)
  obtain cc gs' where fld: "fold (count_result features opts) ?col (no_count, gs) = (cc, gs')" by fastforce
  have "fold (\<lambda>(r, _). count_result features opts r) vals (no_count, gs) =
      fold (count_result features opts) (map fst vals) (no_count, gs)"
    by (simp add: fold_map comp_def case_prod_unfold)
  then have "metrics_loop (Suc n) threshold features opts m gs broken =
      metrics_loop n threshold features opts m' (count_column cc gs') (broken \<or> column_broken threshold cc)"
    by (simp add: nx next_result_at(1) [OF nx] fld)
  moreover have "count_column cc gs' = add_column features opts ?col gs" "cc = column_counts features opts ?col"
    using add_column_step [OF fld] by (rule conjunct2, rule conjunct1)
  ultimately have "metrics_loop (Suc n) threshold features opts m gs broken =
      metrics_loop n threshold features opts m' (add_column features opts ?col gs)
        (broken \<or> column_broken threshold (column_counts features opts ?col))"
    by (simp only:)
  also note Suc.IH [OF refl]
  finally show ?case by (simp only: cols fold.simps comp_apply list.set bex_simps) blast
qed simp

definition metric_columns :: "nat \<Rightarrow> row list \<Rightarrow> int \<Rightarrow> test_status list list" where
  "metric_columns cols rows recent =
     map (\<lambda>i. map (\<lambda>r. result_at i (row_statuses r)) rows) [0..<min cols (nat recent)]"

lemma gridMetrics_spec:
  assumes "distinct (map row_name rows)"
  shows "gridMetrics cols rows recent threshold features opts =
    (fold (add_column features opts) (metric_columns cols rows recent) zero_stats,
     \<exists>col \<in> set (metric_columns cols rows recent). column_broken threshold (column_counts features opts col))"
  unfolding gridMetrics_def
  by (subst metrics_loop_spec [OF refl])
     (simp add: rows_left_result_map [OF assms] metric_columns_def comp_def)

text \<open>What the numbers of the statistics bound each other by.\<close>

definition stats_ok :: "int \<Rightarrow> grid_stats \<Rightarrow> bool" where
  "stats_ok n gs \<longleftrightarrow>
     0 \<le> gs_passing_cols gs \<and> 0 \<le> gs_ignored_cols gs \<and>
     gs_passing_cols gs + gs_ignored_cols gs \<le> gs_completed_cols gs \<and> gs_completed_cols gs \<le> n \<and>
     0 \<le> gs_passing_cells gs \<and> gs_passing_cells gs \<le> gs_filled_cells gs \<and>
     gs_completed_cols gs \<le> gs_filled_cells gs \<and> (gs_filled_cells gs > 0 \<longrightarrow> gs_completed_cols gs > 0)"

lemma stats_ok_add:
  assumes "stats_ok n gs"
  shows "stats_ok (n + 1) (add_column features opts col gs)"
proof -
  define cc where "cc = column_counts features opts col"
  note ok = column_counts_ok [of features opts col, folded cc_def]
  show ?thesis using assms ok by (auto simp: stats_ok_def add_column_def Let_def cc_def [symmetric])
qed

lemma stats_ok_fold: "stats_ok n gs \<Longrightarrow> stats_ok (n + int (length cols)) (fold (add_column features opts) cols gs)"
proof (induction cols arbitrary: n gs)
  case (Cons col cols)
  from Cons.IH [OF stats_ok_add [OF Cons.prems]] show ?case by (simp add: add_ac)
qed simp

lemma gridMetrics_ok:
  assumes "distinct (map row_name rows)"
  shows "stats_ok (int (min cols (nat recent))) (fst (gridMetrics cols rows recent threshold features opts))"
proof -
  have "stats_ok 0 zero_stats" by (simp add: stats_ok_def zero_stats_def)
  from stats_ok_fold [OF this, of "metric_columns cols rows recent"] show ?thesis
    by (simp add: gridMetrics_spec [OF assms] metric_columns_def)
qed

text \<open>An acceptable tab has valid columns: the division is one by a positive number.\<close>

lemma acceptable_valid:
  assumes "stats_ok n gs" "isAcceptable gs opts features"
  shows "gs_ignored_cols gs < gs_completed_cols gs \<and>
    100 * of_int (gs_passing_cols gs) / of_int (gs_completed_cols gs - gs_ignored_cols gs) \<ge>
    100 - so_max_acceptable_flakiness opts"
  using assms by (auto simp: stats_ok_def isAcceptable_def Let_def split: if_splits)

text \<open>The latest green column is the first one where every row that has a result passed.\<close>

definition all_green :: "test_status list \<Rightarrow> bool" where
  "all_green col \<longleftrightarrow>
     (\<forall>r \<in> set col. Coalesce r False \<in> {PASS, NO_RESULT}) \<and> (\<exists>r \<in> set col. Coalesce r False = PASS)"

definition green_header :: "bool \<Rightarrow> column \<Rightarrow> string" where
  "green_header useFirstExtra col =
     (case col_extra col of x # xs \<Rightarrow> if useFirstExtra then x else col_build col | [] \<Rightarrow> col_build col)"

lemma green_results:
  assumes "next_all m = (vals, m')"
  shows "(let rs = map (\<lambda>(r, _). coalesceResult r False) vals
     in list_ex (\<lambda>r. r \<in> {FLAKY, FAIL, UNKNOWN}) rs \<or> PASS \<notin> set rs) =
    (\<not> all_green (map (result_at 0) (rows_left m)))"
proof -
  have "map (\<lambda>(r, _). coalesceResult r False) vals = map (\<lambda>r. Coalesce r False) (map (result_at 0) (rows_left m))"
    unfolding next_result_at(1) [OF assms, symmetric] by (simp add: coalesceResult_def case_prod_unfold)
  moreover have "(r \<in> {FLAKY, FAIL, UNKNOWN}) = (r \<notin> {PASS, NO_RESULT})" if "r \<in> range (\<lambda>r. Coalesce r False)" for r
    using that Coalesce_range by fastforce
  ultimately show ?thesis
    by (auto simp: Let_def all_green_def list_ex_iff image_iff)
qed

lemma green_loop_spec:
  "green_loop useFirstExtra cols m =
   (case find (\<lambda>i. all_green (map (result_at i) (rows_left m))) [0..<length cols] of
      None \<Rightarrow> noGreens | Some i \<Rightarrow> green_header useFirstExtra (cols ! i))"
proof (induction cols arbitrary: m)
  case (Cons col cols)
  obtain vals m' where nx: "next_all m = (vals, m')" by fastforce
  have step: "green_loop useFirstExtra (col # cols) m =
      (if \<not> all_green (map (result_at 0) (rows_left m)) then green_loop useFirstExtra cols m'
       else green_header useFirstExtra col)"
    unfolding green_results [OF nx, symmetric] by (simp add: nx Let_def green_header_def)
  have "find P (map Suc is) = map_option Suc (find (\<lambda>i. P (Suc i)) is)" for P "is" by (induction "is") auto
  then have "find P [0..<length (col # cols)] =
      (if P 0 then Some 0 else map_option Suc (find (\<lambda>i. P (Suc i)) [0..<length cols]))" for P
    by (simp add: upt_conv_Cons map_Suc_upt [symmetric] del: upt_Suc)
  then show ?case unfolding step Cons.IH next_result_at(2) [OF nx] by (auto split: option.split)
qed simp

lemma latestGreen_spec:
  assumes "distinct (map row_name (grid_rows g))"
  shows "latestGreen g useFirstExtra =
    (case find (\<lambda>i. all_green (map (\<lambda>r. result_at i (row_statuses r)) (grid_rows g))) [0..<length (grid_columns g)] of
       None \<Rightarrow> noGreens | Some i \<Rightarrow> green_header useFirstExtra (grid_columns g ! i))"
  by (simp add: latestGreen_def green_loop_spec rows_left_result_map [OF assms] comp_def)

end
