(* ===== verification/Summarize.thy ===== *)
theory Summarize
  imports Tab_Status
begin

text \<open>
  Summaries of tabs and dashboards: \<open>updateTab\<close> and \<open>updateDashboard\<close> of
  \<open>pkg/summarizer/summary.go\<close>.  Instants are nanoseconds since the epoch, \<open>None\<close> for the zero time.
  How an instant is printed depends on the time zone and is the parameter \<open>showTime\<close>.
\<close>

section \<open>Texts\<close>

text \<open>\<open>url.PathEscape\<close>.\<close>

definition escape_char :: "char \<Rightarrow> string" where
  "escape_char c =
     (if is_word c \<or> c \<in> set ''-.~$&+=:@'' then [c]
      else let b = of_char c :: nat in [CHR ''%'', hex_digit (b div 16), hex_digit (b mod 16)])"

definition PathEscape :: "string \<Rightarrow> string" where
  "PathEscape s = concat (map escape_char s)"

text \<open>
  \<open>%.1f\<close> of a quotient; a division by zero prints as NaN or an infinity.  Ties go to the even digit.
\<close>

definition round_even :: "rat \<Rightarrow> int" where
  "round_even x =
     (let f = \<lfloor>x\<rfloor>; d = x - of_int f
      in if d < 1 / 2 then f else if d > 1 / 2 then f + 1 else if even f then f else f + 1)"

definition fmt_tenths :: "rat \<Rightarrow> string" where
  "fmt_tenths x =
     (let n = round_even (10 * \<bar>x\<bar>)
      in (if x < 0 then ''-'' else []) @ itoa (n div 10) @ ''.'' @ itoa (n mod 10))"

definition fmt_percent :: "int \<Rightarrow> int \<Rightarrow> string" where
  "fmt_percent a b =
     (if b = 0 then (if a = 0 then ''NaN'' else if a > 0 then ''+Inf'' else ''-Inf'')
      else fmt_tenths (100 * of_int a / of_int b))"

text \<open>\<open>%s\<close> of a duration that is a multiple of 15 minutes.\<close>

definition second :: int where
  "second = 1000000000"

definition fmt_duration :: "int \<Rightarrow> string" where
  "fmt_duration d =
     (let minutes = \<bar>d\<bar> div (60 * second); h = minutes div 60; m = minutes mod 60
      in if minutes = 0 then ''0s''
         else (if d < 0 then ''-'' else []) @ (if h > 0 then itoa h @ ''h'' else []) @ itoa m @ ''m0s'')"

section \<open>Rows and columns of a tab\<close>

fun firstFilled :: "int list \<Rightarrow> int" where
  "firstFilled [] = 0"
| "firstFilled (v # vs) = (if v \<noteq> 0 then v else firstFilled vs)"

definition recentColumns :: "dashboard_tab \<Rightarrow> test_group \<Rightarrow> int" where
  "recentColumns tab tg = firstFilled [tab_num_columns_recent tab, tg_num_columns_recent tg, 5]"

fun recentRows :: "row list \<Rightarrow> int \<Rightarrow> row list go" where
  "recentRows [] recent = Inr []"
| "recentRows (r # rs) recent =
     (if row_results r = [] then recentRows rs recent
      else go_bind (slice_at (row_results r) 0) (\<lambda>status.
           go_bind (if status_of status = NO_RESULT
                    then go_bind (slice_at (row_results r) 1) (\<lambda>n. Inr (n \<ge> recent)) else Inr False) (\<lambda>skip.
           go_bind (recentRows rs recent) (\<lambda>rows. Inr (if skip then rows else r # rows)))))"

definition filterMethods :: "row list \<Rightarrow> row list" where
  "filterMethods rows = filter (\<lambda>r. isValidTestName (row_id r) \<and> isValidTestName (row_name r)) rows"

definition latestRun :: "column list \<Rightarrow> int option \<times> int" where
  "latestRun columns =
     (case columns of
        [] \<Rightarrow> (None, 0)
      | c # _ \<Rightarrow>
          (let start = trunc (col_started c) in
           if start > 0
           then (let s = go_div start 1000; mills = go_mod start 1000 in (Some (s * second + mills * 1000000), s))
           else (None, 0)))"

definition noRuns :: string where
  "noRuns = ''no completed results''"

definition staleHours :: "dashboard_tab \<Rightarrow> int" where
  "staleHours tab =
     (case tab_alert_options tab of None \<Rightarrow> 0 | Some opts \<Rightarrow> ao_alert_stale_results_hours opts * 3600 * second)"

definition truncate_duration :: "int \<Rightarrow> int" where
  "truncate_duration d = d - go_mod d (15 * 60 * second)"

definition staleAlert ::
    "(int \<Rightarrow> string) \<Rightarrow> int \<Rightarrow> int option \<Rightarrow> int option \<Rightarrow> int \<Rightarrow> nat \<Rightarrow> string" where
  "staleAlert showTime now md lastRan stale rows =
     (case md of
        None \<Rightarrow> ''no stored results''
      | Some md \<Rightarrow>
          if stale = 0 then []
          else (case lastRan of
              None \<Rightarrow> noRuns
            | Some lastRan \<Rightarrow>
                if rows = 0 then noRuns
                else if now - md > stale
                then ''data has not changed since '' @ showTime md @ '' ('' @
                     fmt_duration (truncate_duration (now - md)) @ '' old)''
                else if now - lastRan > stale
                then ''latest column from '' @ showTime lastRan @ '' ('' @
                     fmt_duration (truncate_duration (now - lastRan)) @ '' old)''
                else []))"

section \<open>Alerts\<close>

text \<open>The build link fields, which the updater never sets, are left out of the messages.\<close>

record failing_test =
  ft_display_name :: string
  ft_test_name :: string
  ft_fail_build_id :: string
  ft_latest_fail_build_id :: string
  ft_fail_count :: int
  ft_failure_message :: string
  ft_pass_build_id :: string
  ft_linked_bugs :: "string list"
  ft_fail_test_link :: string
  ft_latest_fail_test_link :: string
  ft_properties :: "(string, string) gomap"
  ft_custom_column_headers :: "(string, string) gomap"
  ft_hotlist_ids :: "string list"
  ft_email_addresses :: "string list"
  ft_pass_timestamp :: float64
  ft_fail_timestamp :: float64

definition buildFailLink :: "string \<Rightarrow> string \<Rightarrow> string" where
  "buildFailLink testID target = PathEscape testID @ '' '' @ PathEscape target"

definition failing_summary :: "row \<Rightarrow> alert_info \<Rightarrow> failing_test" where
  "failing_summary r alert =
     \<lparr>ft_display_name = row_name r, ft_test_name = row_id r, ft_fail_build_id = al_fail_build_id alert,
      ft_latest_fail_build_id = al_latest_fail_build_id alert, ft_fail_count = al_fail_count alert,
      ft_failure_message = al_failure_message alert, ft_pass_build_id = al_pass_build_id alert,
      ft_linked_bugs = row_issues r, ft_fail_test_link = buildFailLink (al_fail_test_id alert) (row_id r),
      ft_latest_fail_test_link = buildFailLink (al_latest_fail_test_id alert) (row_id r),
      ft_properties = al_properties alert, ft_custom_column_headers = al_custom_column_headers alert,
      ft_hotlist_ids = al_hotlist_ids alert, ft_email_addresses = al_email_addresses alert,
      ft_pass_timestamp = (case al_pass_time alert of None \<Rightarrow> 0 | Some t \<Rightarrow> of_int (ts_seconds t)),
      ft_fail_timestamp = (case al_fail_time alert of None \<Rightarrow> 0 | Some t \<Rightarrow> of_int (ts_seconds t))\<rparr>"

definition failingTestSummaries :: "row list \<Rightarrow> failing_test list" where
  "failingTestSummaries rows = List.map_filter (\<lambda>r. map_option (failing_summary r) (row_alert r)) rows"

definition allLinkedIssues :: "row list \<Rightarrow> string list" where
  "allLinkedIssues rows = remdups (concat (map row_issues rows))"

section \<open>Status message\<close>

definition fmtStatus :: "grid_stats \<Rightarrow> tab_status \<Rightarrow> status_options \<Rightarrow> string" where
  "fmtStatus colCells tabStatus opts =
     ''Tab stats: '' @ itoa (gs_passing_cols colCells) @ '' of '' @ itoa (gs_completed_cols colCells) @ '' ('' @
     fmt_percent (gs_passing_cols colCells) (gs_completed_cols colCells) @ ''%) recent columns passed ('' @
     itoa (gs_passing_cells colCells) @ '' of '' @ itoa (gs_filled_cells colCells) @ '' or '' @
     fmt_percent (gs_passing_cells colCells) (gs_filled_cells colCells) @ ''% cells)'' @
     (if gs_ignored_cols colCells > 0 then ''. '' @ itoa (gs_ignored_cols colCells) @ '' columns ignored'' else []) @
     (if tabStatus = TAB_PENDING then CHR 0x0A # ''Status info: Not enough runs''
      else if tabStatus = TAB_ACCEPTABLE
      then CHR 0x0A # ''Status info: Recent flakiness ('' @
        (let valid = gs_completed_cols colCells - gs_ignored_cols colCells
         in fmt_percent (valid - gs_passing_cols colCells) valid) @
        ''%) over valid columns is within configured acceptable level of '' @
        fmt_tenths (so_max_acceptable_flakiness opts) @ ''%.''
      else [])"

definition statusMessage :: "grid_stats \<Rightarrow> tab_status \<Rightarrow> status_options \<Rightarrow> string" where
  "statusMessage colCells tabStatus opts =
     (if gs_filled_cells colCells = 0 then noRuns else fmtStatus colCells tabStatus opts)"

section \<open>Tabs\<close>

record tab_metrics =
  tm_passing_columns :: int
  tm_completed_columns :: int
  tm_ignored_columns :: int

definition tabMetrics :: "grid_stats \<Rightarrow> tab_metrics" where
  "tabMetrics colCells =
     \<lparr>tm_passing_columns = gs_passing_cols colCells, tm_completed_columns = gs_completed_cols colCells,
      tm_ignored_columns = gs_ignored_cols colCells\<rparr>"

record tab_summary =
  dts_dashboard_name :: string
  dts_dashboard_tab_name :: string
  dts_alert :: string
  dts_failing_test_summaries :: "failing_test list"
  dts_last_update_timestamp :: float64
  dts_status :: string
  dts_overall_status :: tab_status
  dts_latest_green :: string
  dts_last_run_timestamp :: float64
  dts_bug_url :: string
  dts_healthiness :: "healthiness_info option"
  dts_linked_issues :: "string list"
  dts_summary_metrics :: "tab_metrics option"

definition tabStatus :: "string \<Rightarrow> string \<Rightarrow> string \<Rightarrow> tab_summary" where
  "tabStatus dashName tabName msg =
     \<lparr>dts_dashboard_name = dashName, dts_dashboard_tab_name = tabName, dts_alert = msg,
      dts_failing_test_summaries = [], dts_last_update_timestamp = 0, dts_status = msg,
      dts_overall_status = TAB_UNKNOWN, dts_latest_green = [], dts_last_run_timestamp = 0, dts_bug_url = [],
      dts_healthiness = None, dts_linked_issues = [], dts_summary_metrics = None\<rparr>"

definition shouldRunHealthiness :: "dashboard_tab \<Rightarrow> bool" where
  "shouldRunHealthiness tab = (case tab_health_options tab of None \<Rightarrow> False | Some h \<Rightarrow> ho_enable h)"

definition DefaultInterval :: int where
  "DefaultInterval = 7"

definition tab_healthiness :: "dashboard_tab \<Rightarrow> grid \<Rightarrow> int \<Rightarrow> healthiness_info option go" where
  "tab_healthiness tab g now =
     (if shouldRunHealthiness tab
      then let days = (case tab_health_options tab of Some h \<Rightarrow> ho_days_of_analysis h | None \<Rightarrow> 0);
               interval = (if days \<le> 0 then DefaultInterval else days)
           in go_bind (getHealthinessForInterval g (now div second) interval) (\<lambda>h. Inr (Some h))
      else Inr None)"

definition unix_seconds :: "int option \<Rightarrow> int" where
  "unix_seconds t = (case t of None \<Rightarrow> - 62135596800 | Some ns \<Rightarrow> ns div second)"

text \<open>The rest of \<open>updateTab\<close>, on the rows that are left.\<close>

definition summarize_rows :: "(int \<Rightarrow> string) \<Rightarrow> int \<Rightarrow> feature_flags \<Rightarrow> dashboard_tab \<Rightarrow> test_group \<Rightarrow>
    grid \<Rightarrow> int option \<Rightarrow> healthiness_info option \<Rightarrow> tab_summary" where
  "summarize_rows showTime now features tab tg g md healthiness =
     (let recent = recentColumns tab tg;
          (latest, latestSeconds) = latestRun (grid_columns g);
          alert = staleAlert showTime now md latest (staleHours tab) (length (grid_rows g));
          failures = failingTestSummaries (grid_rows g);
          opts = get_status_options tab;
          (colsCells, brokenState) =
            gridMetrics (length (grid_columns g)) (grid_rows g) recent (tab_broken_column_threshold tab) features opts;
          status = overallStatus g recent alert brokenState failures features colsCells opts
      in \<lparr>dts_dashboard_name = [], dts_dashboard_tab_name = tab_name tab, dts_alert = alert,
          dts_failing_test_summaries = failures, dts_last_update_timestamp = of_int (unix_seconds md),
          dts_status = statusMessage colsCells status opts, dts_overall_status = status,
          dts_latest_green = latestGreen g (tg_use_kubernetes_client tg),
          dts_last_run_timestamp = of_int latestSeconds,
          dts_bug_url = (case tab_open_bug_template tab of None \<Rightarrow> [] | Some t \<Rightarrow> lt_url t),
          dts_healthiness = healthiness, dts_linked_issues = allLinkedIssues (grid_rows g),
          dts_summary_metrics = Some (tabMetrics colsCells)\<rparr>)"

text \<open>\<open>read\<close> is what \<open>readGrid\<close> returns; \<open>now\<close> stands for every call of \<open>time.Now\<close>.\<close>

definition updateTab :: "(int \<Rightarrow> string) \<Rightarrow> int \<Rightarrow> feature_flags \<Rightarrow> (grid \<times> int option) go \<Rightarrow>
    dashboard_tab \<Rightarrow> test_group \<Rightarrow> tab_summary go" where
  "updateTab showTime now features read tab tg =
     (case read of
        Inl (Failed msg) \<Rightarrow> Inl (Failed (''load '' @ tab_test_group_name tab @ '': '' @ msg))
      | Inl (Panic msg) \<Rightarrow> Inl (Panic msg)
      | Inr (g, md) \<Rightarrow>
          go_bind (tab_healthiness tab g now) (\<lambda>healthiness.
          go_bind (recentRows (grid_rows g) (recentColumns tab tg)) (\<lambda>rows.
            Inr (summarize_rows showTime now features tab tg (g\<lparr>grid_rows := filterMethods rows\<rparr>) md healthiness))))"

section \<open>Dashboards\<close>

record group_info =
  gi_group :: test_group
  gi_tabs :: "dashboard_tab list"

record dashboard_run =
  dr_summaries :: "(string, tab_summary) gomap"
  dr_infos :: "(string, group_info) gomap"
  dr_paths :: "string list"

text \<open>\<open>findGroup\<close>: the path of the grid state and the test group, if there is one.\<close>

definition collect_tab ::
    "string \<Rightarrow> (dashboard_tab \<Rightarrow> (string \<times> test_group) option go) \<Rightarrow> dashboard_run \<Rightarrow> dashboard_tab \<Rightarrow> dashboard_run" where
  "collect_tab dashName findGroup st tab =
     (case findGroup tab of
        Inl e \<Rightarrow> st\<lparr>dr_summaries := AList.update (tab_name tab)
            (tabStatus dashName (tab_name tab)
              (''Error reading group info: '' @ (case e of Failed m \<Rightarrow> m | Panic m \<Rightarrow> m))) (dr_summaries st)\<rparr>
      | Inr None \<Rightarrow> st\<lparr>dr_summaries := AList.update (tab_name tab)
            (tabStatus dashName (tab_name tab)
              (''Test group does not exist: '' @ go_quote (tab_test_group_name tab))) (dr_summaries st)\<rparr>
      | Inr (Some (p, tg)) \<Rightarrow>
          (case map_of (dr_infos st) p of
             None \<Rightarrow> st\<lparr>dr_paths := dr_paths st @ [p],
                        dr_infos := AList.update p \<lparr>gi_group = tg, gi_tabs = [tab]\<rparr> (dr_infos st)\<rparr>
           | Some info \<Rightarrow> st\<lparr>dr_infos := AList.update p (info\<lparr>gi_tabs := gi_tabs info @ [tab]\<rparr>) (dr_infos st)\<rparr>))"

text \<open>How far each summary is behind; \<open>stat\<close> gives the last change of a grid state in seconds.\<close>

definition delay_tab :: "string \<Rightarrow> int option \<Rightarrow> string \<Rightarrow> (string, tab_summary) gomap \<times> (string, float64) gomap \<Rightarrow>
    dashboard_tab \<Rightarrow> (string, tab_summary) gomap \<times> (string, float64) gomap" where
  "delay_tab dashName attrs p st tab =
     (case st of (tabSummaries, delays) \<Rightarrow>
       (case attrs of
          None \<Rightarrow> (AList.update (tab_name tab) (tabStatus dashName (tab_name tab) noRuns) tabSummaries, AList.update p (- 1) delays)
        | Some updated \<Rightarrow>
            (case map_of tabSummaries (tab_name tab) of
               None \<Rightarrow>
                 (AList.update (tab_name tab) (tabStatus dashName (tab_name tab) ''Newly created tab'') tabSummaries,
                  AList.update p 86400 delays)
             | Some s \<Rightarrow> (tabSummaries, AList.update p (of_int updated - dts_last_update_timestamp s) delays))))"

definition path_tabs :: "dashboard_run \<Rightarrow> string \<Rightarrow> dashboard_tab list" where
  "path_tabs st p = (case map_of (dr_infos st) p of None \<Rightarrow> [] | Some info \<Rightarrow> gi_tabs info)"

definition delay_path :: "string \<Rightarrow> (string \<Rightarrow> int option) \<Rightarrow> dashboard_run \<Rightarrow>
    (string, tab_summary) gomap \<times> (string, float64) gomap \<Rightarrow> string \<Rightarrow> (string, tab_summary) gomap \<times> (string, float64) gomap" where
  "delay_path dashName stat run st p = foldl (delay_tab dashName (stat p) p) st (path_tabs run p)"

definition delay_of :: "(string, float64) gomap \<Rightarrow> string \<Rightarrow> float64" where
  "delay_of delays p = (case map_of delays p of Some d \<Rightarrow> d | None \<Rightarrow> 0)"

text \<open>The tabs to update, the most delayed first; those that are up to date are left alone.\<close>

definition requests :: "dashboard_run \<Rightarrow> (string, float64) gomap \<Rightarrow> (dashboard_tab \<times> test_group) list" where
  "requests run delays =
     concat (map (\<lambda>p. case map_of (dr_infos run) p of
           None \<Rightarrow> []
         | Some info \<Rightarrow> if delay_of delays p = 0 then [] else map (\<lambda>tab. (tab, gi_group info)) (gi_tabs info))
       (slice_stable (\<lambda>p q. delay_of delays p > delay_of delays q) (dr_paths run)))"

definition apply_result :: "string \<Rightarrow> (dashboard_tab \<Rightarrow> test_group \<Rightarrow> tab_summary go) \<Rightarrow>
    (string, tab_summary) gomap \<Rightarrow> dashboard_tab \<times> test_group \<Rightarrow> (string, tab_summary) gomap go" where
  "apply_result dashName update tabSummaries req =
     (case req of (tab, tg) \<Rightarrow>
       (case update tab tg of
          Inl (Panic m) \<Rightarrow> Inl (Panic m)
        | Inl (Failed m) \<Rightarrow> Inr (AList.update (tab_name tab)
            (tabStatus dashName (tab_name tab) (''Error attempting to summarize tab: '' @ m)) tabSummaries)
        | Inr s \<Rightarrow> Inr (AList.update (tab_name tab) (s\<lparr>dts_dashboard_name := dashName\<rparr>) tabSummaries)))"

text \<open>
  \<open>grace\<close> is the number of requests sent before the grace period ends, \<open>None\<close> when it does not end;
  \<open>previous\<close> are the tab summaries read from the store.  The result is the tab summaries (nil for a
  tab without one) and whether there is more to do.
\<close>

definition updateDashboard :: "dashboard \<Rightarrow> tab_summary list \<Rightarrow> (dashboard_tab \<Rightarrow> (string \<times> test_group) option go) \<Rightarrow>
    (string \<Rightarrow> int option) \<Rightarrow> (dashboard_tab \<Rightarrow> test_group \<Rightarrow> tab_summary go) \<Rightarrow> nat option \<Rightarrow>
    (tab_summary option list \<times> bool) go" where
  "updateDashboard dash previous findGroup stat update grace =
     (let tabSummaries = fold (\<lambda>s. AList.update (dts_dashboard_tab_name s) s) previous [];
          run = foldl (collect_tab (dash_name dash) findGroup)
                  \<lparr>dr_summaries = tabSummaries, dr_infos = [], dr_paths = []\<rparr> (dash_tabs dash);
          (tabSummaries, delays) = foldl (delay_path (dash_name dash) stat run) (dr_summaries run, []) (dr_paths run);
          reqs = requests run delays;
          sent = (case grace of None \<Rightarrow> reqs | Some n \<Rightarrow> take n reqs)
      in go_bind (go_fold (apply_result (dash_name dash) update) tabSummaries sent) (\<lambda>tabSummaries.
           Inr (map (\<lambda>tab. map_of tabSummaries (tab_name tab)) (dash_tabs dash), grace \<noteq> None)))"

definition filterDashboards :: "(string, dashboard) gomap \<Rightarrow> string list \<Rightarrow> (string, dashboard) gomap" where
  "filterDashboards dashboards allowed =
     (if allowed = [] then dashboards else filter (\<lambda>(key, d). dash_name d \<in> set allowed) dashboards)"

section \<open>Reading a tab never fails on a well-formed grid\<close>

definition recent_row :: "int \<Rightarrow> row \<Rightarrow> bool" where
  "recent_row recent r \<longleftrightarrow>
     (case row_results r of s # n # _ \<Rightarrow> \<not> (status_of s = NO_RESULT \<and> n \<ge> recent) | _ \<Rightarrow> False)"

lemma counts_ok_cases:
  assumes "counts_ok rs"
  obtains "rs = []" | s n rs' where "rs = s # n # rs'" "0 \<le> n" "counts_ok rs'"
  using assms by (cases rs rule: counts_ok.cases) auto

lemma recentRows_filter:
  "\<forall>r \<in> set rows. counts_ok (row_results r) \<Longrightarrow> recentRows rows recent = Inr (filter (recent_row recent) rows)"
proof (induction rows)
  case (Cons r rows)
  from Cons.prems have "counts_ok (row_results r)" by simp
  then show ?case
  proof (cases rule: counts_ok_cases)
    case 1
    with Cons show ?thesis by (simp add: recent_row_def)
  next
    case (2 s n rs)
    with Cons show ?thesis by (auto simp: recent_row_def slice_at_def)
  qed
qed simp

text \<open>A row that is dropped has no result in the recent columns.\<close>

lemma dropped_row:
  assumes "counts_ok (row_results r)" "\<not> recent_row recent r"
  shows "set (take (nat recent) (row_statuses r)) \<subseteq> {NO_RESULT}"
  using assms(1)
proof (cases rule: counts_ok_cases)
  case 1
  then show ?thesis by (simp add: row_statuses_def)
next
  case (2 s n rs)
  with assms(2) have "status_of s = NO_RESULT" "nat recent \<le> nat n" by (auto simp: recent_row_def)
  with 2 show ?thesis by (auto simp: row_statuses_def dest: in_set_takeD)
qed

lemma healthiness_total:
  assumes "messages_ok g" "distinct (map row_name (grid_rows g))"
  shows "\<exists>h. tab_healthiness tab g now = Inr h"
  by (simp add: tab_healthiness_def getHealthinessForInterval_def CalculateHealthiness_def
      parseGrid_spec [OF assms] Let_def)

definition rows_ok :: "grid \<Rightarrow> bool" where
  "rows_ok g \<longleftrightarrow> distinct (map row_name (grid_rows g)) \<and> messages_ok g \<and>
     (\<forall>r \<in> set (grid_rows g). counts_ok (row_results r))"

lemma updateTab_ok:
  assumes "rows_ok g"
  shows "\<exists>h. updateTab showTime now features (Inr (g, md)) tab tg =
    Inr (summarize_rows showTime now features tab tg
      (g\<lparr>grid_rows := filterMethods (filter (recent_row (recentColumns tab tg)) (grid_rows g))\<rparr>) md h)"
proof -
  have "\<forall>r \<in> set (grid_rows g). counts_ok (row_results r)"
    using assms by (simp add: rows_ok_def)
  moreover obtain h where "tab_healthiness tab g now = Inr h"
    using healthiness_total [of g tab now] assms by (auto simp: rows_ok_def)
  ultimately show ?thesis by (intro exI [of _ h]) (simp add: updateTab_def recentRows_filter)
qed

text \<open>The parts of a summary agree with each other.\<close>

definition summary_ok :: "dashboard_tab \<Rightarrow> tab_summary \<Rightarrow> bool" where
  "summary_ok tab s \<longleftrightarrow>
     dts_dashboard_tab_name s = tab_name tab \<and>
     (dts_overall_status s = TAB_STALE \<longrightarrow> dts_alert s \<noteq> []) \<and>
     (dts_overall_status s = TAB_FAIL \<longrightarrow> dts_failing_test_summaries s \<noteq> []) \<and>
     (dts_overall_status s \<in> {TAB_PASS, TAB_FLAKY, TAB_ACCEPTABLE, TAB_UNKNOWN, TAB_PENDING} \<longrightarrow>
        dts_alert s = [] \<and> dts_failing_test_summaries s = []) \<and>
     (\<exists>m. dts_summary_metrics s = Some m \<and> 0 \<le> tm_passing_columns m \<and> 0 \<le> tm_ignored_columns m \<and>
        tm_passing_columns m + tm_ignored_columns m \<le> tm_completed_columns m)"

lemma status_scan_range:
  "status_scan features opts colCells cols recent passing flaky \<in> {TAB_PASS, TAB_UNKNOWN, TAB_FLAKY, TAB_ACCEPTABLE}"
  by (induction features opts colCells cols recent passing flaky rule: status_scan.induct)
     (simp_all add: Let_def bad_status_def)

lemma overallStatus_range:
  "overallStatus g recent stale broken alerts features colCells opts \<in>
   (if broken then {TAB_BROKEN} else if stale \<noteq> [] then {TAB_STALE} else if alerts \<noteq> [] then {TAB_FAIL}
    else {TAB_PENDING, TAB_PASS, TAB_UNKNOWN, TAB_FLAKY, TAB_ACCEPTABLE})"
  using status_scan_range [of features opts colCells] by (auto simp: overallStatus_def status_loop_scan)

lemma summarize_rows_ok:
  assumes "distinct (map row_name (grid_rows g))"
  shows "summary_ok tab (summarize_rows showTime now features tab tg g md h)"
proof -
  obtain latest secs where l: "latestRun (grid_columns g) = (latest, secs)" by fastforce
  obtain gs broken where m: "gridMetrics (length (grid_columns g)) (grid_rows g) (recentColumns tab tg)
      (tab_broken_column_threshold tab) features (get_status_options tab) = (gs, broken)" by fastforce
  from gridMetrics_ok [OF assms, of _ "recentColumns tab tg" "tab_broken_column_threshold tab" features "get_status_options tab"]
  have "stats_ok (int (min (length (grid_columns g)) (nat (recentColumns tab tg)))) gs" using m by (metis fst_conv)
  then have metrics: "0 \<le> gs_passing_cols gs" "0 \<le> gs_ignored_cols gs"
      "gs_passing_cols gs + gs_ignored_cols gs \<le> gs_completed_cols gs"
    by (simp_all add: stats_ok_def)
  define alert where "alert = staleAlert showTime now md latest (staleHours tab) (length (grid_rows g))"
  define status where "status = overallStatus g (recentColumns tab tg) alert broken (failingTestSummaries (grid_rows g))
      features gs (get_status_options tab)"
  let ?s = "summarize_rows showTime now features tab tg g md h"
  have fields: "dts_dashboard_tab_name ?s = tab_name tab" "dts_overall_status ?s = status" "dts_alert ?s = alert"
      "dts_failing_test_summaries ?s = failingTestSummaries (grid_rows g)"
      "dts_summary_metrics ?s = Some (tabMetrics gs)"
    by (simp_all add: summarize_rows_def l m Let_def alert_def status_def)
  have "status \<in> (if broken then {TAB_BROKEN} else if alert \<noteq> [] then {TAB_STALE}
      else if failingTestSummaries (grid_rows g) \<noteq> [] then {TAB_FAIL}
      else {TAB_PENDING, TAB_PASS, TAB_UNKNOWN, TAB_FLAKY, TAB_ACCEPTABLE})"
    unfolding status_def by (rule overallStatus_range)
  then show ?thesis unfolding summary_ok_def fields using metrics
    by (cases broken; cases "alert = []"; cases "failingTestSummaries (grid_rows g) = []")
       (auto simp: tabMetrics_def)
qed

lemma updateTab_summary_ok:
  assumes "rows_ok g"
  shows "\<exists>s. updateTab showTime now features (Inr (g, md)) tab tg = Inr s \<and> summary_ok tab s"
proof -
  have "distinct (map row_name (filterMethods (filter (recent_row n) (grid_rows g))))" for n
    using assms by (auto simp: rows_ok_def filterMethods_def distinct_map inj_on_def)
  then have "distinct (map row_name (grid_rows
      (g\<lparr>grid_rows := filterMethods (filter (recent_row (recentColumns tab tg)) (grid_rows g))\<rparr>)))" by simp
  from updateTab_ok [OF assms, of showTime now features md tab tg] summarize_rows_ok [OF this, of tab showTime now features tg md]
  show ?thesis by auto
qed

lemma staleAlert_Nil:
  "staleAlert showTime now md lastRan stale rows = [] \<longleftrightarrow>
   (\<exists>changed. md = Some changed \<and>
      (stale = 0 \<or> (\<exists>ran'. lastRan = Some ran' \<and> rows \<noteq> 0 \<and> now - changed \<le> stale \<and> now - ran' \<le> stale)))"
  by (auto simp: staleAlert_def noRuns_def split: option.splits)

section \<open>Every tab of a dashboard has a summary\<close>

definition named :: "(string, tab_summary) gomap \<Rightarrow> bool" where
  "named tabSummaries \<longleftrightarrow> (\<forall>n s. map_of tabSummaries n = Some s \<longrightarrow> dts_dashboard_tab_name s = n)"

lemma named_update: "named m \<Longrightarrow> dts_dashboard_tab_name s = n \<Longrightarrow> named (AList.update n s m)"
  by (auto simp: named_def update_conv)

lemma tabStatus_name [simp]: "dts_dashboard_tab_name (tabStatus d n msg) = n"
  by (simp add: tabStatus_def)

definition covers :: "(string, tab_summary) gomap \<Rightarrow> string set \<Rightarrow> bool" where
  "covers tabSummaries ns \<longleftrightarrow> named tabSummaries \<and> ns \<subseteq> dom (map_of tabSummaries)"

lemma covers_update:
  "covers m ns \<Longrightarrow> dts_dashboard_tab_name s = n \<Longrightarrow> covers (AList.update n s m) (insert n ns)"
  by (auto simp: covers_def named_update update_conv')

lemma covers_mono: "covers m ns \<Longrightarrow> ms \<subseteq> ns \<Longrightarrow> covers m ms"
  by (auto simp: covers_def)

lemma named_previous: "named (fold (\<lambda>s. AList.update (dts_dashboard_tab_name s) s) previous [])"
proof -
  have *: "named m \<Longrightarrow> named (fold (\<lambda>s. AList.update (dts_dashboard_tab_name s) s) previous m)" for m
    by (induction previous arbitrary: m) (simp_all add: named_update)
  show ?thesis by (rule *) (simp add: named_def)
qed

text \<open>The tabs that have a grid state, with its path and their test group.\<close>

definition waiting_names :: "dashboard_run \<Rightarrow> string set" where
  "waiting_names run = tab_name ` (\<Union>p \<in> set (dr_paths run). set (path_tabs run p))"

definition run_ok :: "dashboard_run \<Rightarrow> string set \<Rightarrow> bool" where
  "run_ok run ns \<longleftrightarrow>
     named (dr_summaries run) \<and> ns \<subseteq> dom (map_of (dr_summaries run)) \<union> waiting_names run \<and>
     set (dr_paths run) = dom (map_of (dr_infos run))"

lemma collect_tab_ok:
  assumes "run_ok run ns"
  shows "run_ok (collect_tab d findGroup run tab) (insert (tab_name tab) ns)"
proof -
  let ?missing = "\<lambda>msg. run\<lparr>dr_summaries := AList.update (tab_name tab) (tabStatus d (tab_name tab) msg) (dr_summaries run)\<rparr>"
  have missing: "run_ok (?missing msg) (insert (tab_name tab) ns)" for msg
    using assms by (auto simp: run_ok_def waiting_names_def path_tabs_def update_conv' intro: named_update)
  show ?thesis
  proof (cases "findGroup tab")
    case (Inl e)
    then show ?thesis using missing by (simp add: collect_tab_def)
  next
    case (Inr found)
    show ?thesis
    proof (cases found)
      case None
      with Inr show ?thesis using missing by (simp add: collect_tab_def)
    next
      case (Some pt)
      obtain p tg where pt: "pt = (p, tg)" by (cases pt)
      have "\<exists>info infos' paths'. collect_tab d findGroup run tab = run\<lparr>dr_paths := paths', dr_infos := infos'\<rparr> \<and>
          map_of infos' = (map_of (dr_infos run))(p \<mapsto> info) \<and> tab \<in> set (gi_tabs info) \<and>
          set (path_tabs run p) \<subseteq> set (gi_tabs info) \<and> set paths' = insert p (set (dr_paths run))"
      proof (cases "map_of (dr_infos run) p")
        case None
        then show ?thesis
          by (intro exI [of _ "\<lparr>gi_group = tg, gi_tabs = [tab]\<rparr>"] exI [of _ "dr_paths run @ [p]"]
              exI [of _ "AList.update p \<lparr>gi_group = tg, gi_tabs = [tab]\<rparr> (dr_infos run)"])
             (simp add: collect_tab_def Inr Some pt update_conv' path_tabs_def)
      next
        case (Some info)
        then have "p \<in> set (dr_paths run)" using assms by (auto simp: run_ok_def)
        with Some show ?thesis
          by (intro exI [of _ "info\<lparr>gi_tabs := gi_tabs info @ [tab]\<rparr>"] exI [of _ "dr_paths run"]
              exI [of _ "AList.update p (info\<lparr>gi_tabs := gi_tabs info @ [tab]\<rparr>) (dr_infos run)"])
             (auto simp: collect_tab_def Inr \<open>found = Some pt\<close> pt update_conv' path_tabs_def)
      qed
      then obtain info infos' paths' where c: "collect_tab d findGroup run tab = run\<lparr>dr_paths := paths', dr_infos := infos'\<rparr>"
          "map_of infos' = (map_of (dr_infos run))(p \<mapsto> info)" "tab \<in> set (gi_tabs info)"
          "set (path_tabs run p) \<subseteq> set (gi_tabs info)" "set paths' = insert p (set (dr_paths run))"
        by blast
      let ?run = "collect_tab d findGroup run tab"
      have tabs: "path_tabs ?run q = (if q = p then gi_tabs info else path_tabs run q)" for q
        by (simp add: path_tabs_def c(1,2))
      then have "set (path_tabs run q) \<subseteq> set (path_tabs ?run q)" for q using c(4) by auto
      moreover have paths: "dr_paths ?run = paths'" by (simp add: c(1))
      ultimately have "waiting_names run \<subseteq> waiting_names ?run"
        unfolding waiting_names_def using c(5) by (intro image_mono UN_mono) auto
      moreover have "tab_name tab \<in> waiting_names ?run"
        unfolding waiting_names_def paths using c(3,5) tabs [of p] by auto
      ultimately show ?thesis
        using assms c(2,5) by (auto simp: run_ok_def c(1))
    qed
  qed
qed

lemma foldl_collect_ok:
  "run_ok run ns \<Longrightarrow> run_ok (foldl (collect_tab d findGroup) run tabs) (ns \<union> tab_name ` set tabs)"
proof (induction tabs arbitrary: run ns)
  case (Cons tab tabs)
  from Cons.IH [OF collect_tab_ok [OF Cons.prems]] show ?case by simp
qed simp

lemma delay_tab_ok:
  "covers (fst st) ns \<Longrightarrow> covers (fst (delay_tab d attrs p st tab)) (insert (tab_name tab) ns)"
proof (cases st)
  case (Pair m delays)
  assume "covers (fst st) ns"
  then have m: "covers m ns" by (simp add: Pair)
  have new: "covers (AList.update (tab_name tab) (tabStatus d (tab_name tab) msg) m) (insert (tab_name tab) ns)" for msg
    by (rule covers_update [OF m]) simp
  show ?thesis
  proof (cases "attrs = None \<or> map_of m (tab_name tab) = None")
    case True
    then show ?thesis using new by (cases attrs) (auto simp: Pair delay_tab_def)
  next
    case False
    with m have "covers m (insert (tab_name tab) ns)" by (auto simp: covers_def)
    with False show ?thesis by (auto simp: Pair delay_tab_def)
  qed
qed

lemma delay_path_ok:
  "covers (fst st) ns \<Longrightarrow> covers (fst (delay_path d stat run st p)) (ns \<union> tab_name ` set (path_tabs run p))"
proof -
  have "covers (fst st) ns \<Longrightarrow> covers (fst (foldl (delay_tab d attrs p) st tabs)) (ns \<union> tab_name ` set tabs)" for attrs tabs
  proof (induction tabs arbitrary: st ns)
    case (Cons tab tabs)
    from Cons.IH [OF delay_tab_ok [OF Cons.prems]] show ?case by simp
  qed simp
  then show "covers (fst st) ns \<Longrightarrow> ?thesis" by (simp add: delay_path_def)
qed

lemma foldl_delay_ok:
  "covers (fst st) ns \<Longrightarrow>
   covers (fst (foldl (delay_path d stat run) st ps)) (ns \<union> tab_name ` (\<Union>p \<in> set ps. set (path_tabs run p)))"
proof (induction ps arbitrary: st ns)
  case (Cons p ps)
  from Cons.IH [OF delay_path_ok [OF Cons.prems]] show ?case by (simp add: image_Un Un_assoc)
qed simp

lemma apply_results_ok:
  assumes "covers tabSummaries ns" "\<And>tab tg s. update tab tg = Inr s \<Longrightarrow> dts_dashboard_tab_name s = tab_name tab"
    "go_fold (apply_result d update) tabSummaries reqs = Inr tabSummaries'"
  shows "covers tabSummaries' ns"
  using assms(1,3)
proof (induction reqs arbitrary: tabSummaries)
  case (Cons req reqs)
  then obtain m where m: "apply_result d update tabSummaries req = Inr m"
      "go_fold (apply_result d update) m reqs = Inr tabSummaries'"
    by (auto simp: go_simps)
  obtain tab tg where req: "req = (tab, tg)" by (cases req)
  have "\<exists>s. m = AList.update (tab_name tab) s tabSummaries \<and> dts_dashboard_tab_name s = tab_name tab"
    using m(1) assms(2) [of tab tg]
    by (auto simp: apply_result_def req split: sum.splits go_error.splits)
  then have "covers m ns" using covers_update [OF Cons.prems(1)] covers_mono by blast
  from Cons.IH [OF this m(2)] show ?case .
qed simp

lemma updateDashboard_all:
  assumes "updateDashboard dash previous findGroup stat update grace = Inr (summaries, todo)"
    "\<And>tab tg s. update tab tg = Inr s \<Longrightarrow> dts_dashboard_tab_name s = tab_name tab"
  shows "map (map_option dts_dashboard_tab_name) summaries = map (\<lambda>t. Some (tab_name t)) (dash_tabs dash)"
proof -
  let ?d = "dash_name dash"
  define start where "start = \<lparr>dr_summaries = fold (\<lambda>s. AList.update (dts_dashboard_tab_name s) s) previous [],
      dr_infos = [], dr_paths = []\<rparr>"
  define run where "run = foldl (collect_tab ?d findGroup) start (dash_tabs dash)"
  have "run_ok start {}" by (simp add: run_ok_def start_def named_previous)
  from foldl_collect_ok [OF this] have run: "run_ok run (tab_name ` set (dash_tabs dash))" by (simp add: run_def)
  obtain m delays where delays: "foldl (delay_path ?d stat run) (dr_summaries run, []) (dr_paths run) = (m, delays)"
    by fastforce
  have "covers (dr_summaries run) (dom (map_of (dr_summaries run)))" using run by (simp add: covers_def run_ok_def)
  then have "covers m (dom (map_of (dr_summaries run)) \<union> waiting_names run)"
    using foldl_delay_ok [of "(dr_summaries run, [])" _ ?d stat run "dr_paths run"]
    by (simp add: delays waiting_names_def)
  then have "covers m (tab_name ` set (dash_tabs dash))" using run by (auto simp: run_ok_def intro: covers_mono)
  moreover obtain sent m' where m': "go_fold (apply_result ?d update) m sent = Inr m'"
      "summaries = map (\<lambda>tab. map_of m' (tab_name tab)) (dash_tabs dash)"
    using assms(1)
    by (auto simp: updateDashboard_def Let_def start_def [symmetric] run_def [symmetric] delays go_simps)
  ultimately have "covers m (tab_name ` set (dash_tabs dash))" by blast
  then have c: "covers m' (tab_name ` set (dash_tabs dash))"
    by (rule apply_results_ok [where update = update]) (rule assms(2), assumption, rule m'(1))
  have "map_option dts_dashboard_tab_name (map_of m' n) = Some n" if "n \<in> tab_name ` set (dash_tabs dash)" for n
  proof -
    from c that obtain s where "map_of m' n = Some s" by (auto simp: covers_def)
    with c show ?thesis by (simp add: covers_def named_def)
  qed
  then show ?thesis by (simp add: m'(2))
qed

section \<open>What is refreshed\<close>

definition found :: "(dashboard_tab \<Rightarrow> (string \<times> test_group) option go) \<Rightarrow> dashboard_tab \<Rightarrow>
    (string \<times> test_group \<times> dashboard_tab) option" where
  "found findGroup tab = (case findGroup tab of Inr (Some (p, tg)) \<Rightarrow> Some (p, tg, tab) | _ \<Rightarrow> None)"

definition states :: "(dashboard_tab \<Rightarrow> (string \<times> test_group) option go) \<Rightarrow> dashboard_tab list \<Rightarrow>
    (string \<times> test_group \<times> dashboard_tab) list" where
  "states findGroup tabs = List.map_filter (found findGroup) tabs"

lemma states_simps [simp]:
  "states findGroup [] = []"
  "states findGroup (tab # tabs) =
     (case found findGroup tab of None \<Rightarrow> states findGroup tabs | Some x \<Rightarrow> x # states findGroup tabs)"
  by (simp add: states_def List.map_filter_simps)
     (cases "found findGroup tab"; simp add: states_def List.map_filter_simps)

lemma states_append [simp]: "states findGroup (xs @ ys) = states findGroup xs @ states findGroup ys"
  by (induction xs) (simp_all split: option.split)

text \<open>The tabs whose state is at a path, with their groups, in the order of the dashboard.\<close>

definition at_path :: "string \<Rightarrow> (string \<times> test_group \<times> dashboard_tab) list \<Rightarrow> (test_group \<times> dashboard_tab) list" where
  "at_path p S = map snd (filter (\<lambda>x. fst x = p) S)"

definition info_at :: "string \<Rightarrow> (string \<times> test_group \<times> dashboard_tab) list \<Rightarrow> group_info option" where
  "info_at p S = (case at_path p S of [] \<Rightarrow> None | x # xs \<Rightarrow> Some \<lparr>gi_group = fst x, gi_tabs = map snd (x # xs)\<rparr>)"

lemma at_path_snoc: "at_path p (S @ [(q, tg, tab)]) = at_path p S @ (if q = p then [(tg, tab)] else [])"
  by (simp add: at_path_def)

lemma at_path_in: "(tg, tab) \<in> set (at_path p S) \<longleftrightarrow> (p, tg, tab) \<in> set S"
  by (force simp: at_path_def)

lemma at_path_none: "at_path p S = [] \<longleftrightarrow> p \<notin> fst ` set S"
  by (force simp: at_path_def filter_empty_conv)

lemma foldl_collect_states:
  assumes "dr_infos st = []" "dr_paths st = []"
    and run_def: "run = foldl (collect_tab d findGroup) st tabs"
  shows "set (dr_paths run) = fst ` set (states findGroup tabs) \<and> distinct (dr_paths run) \<and>
    (\<forall>p. map_of (dr_infos run) p = info_at p (states findGroup tabs)) \<and>
    (\<forall>n. (\<forall>tab \<in> set tabs. tab_name tab = n \<longrightarrow> found findGroup tab \<noteq> None) \<longrightarrow>
       map_of (dr_summaries run) n = map_of (dr_summaries st) n)"
  unfolding run_def
proof (induction tabs rule: rev_induct)
  case (snoc tab tabs)
  let ?run = "foldl (collect_tab d findGroup) st tabs"
  show ?case
  proof (cases "found findGroup tab")
    case None
    then obtain msg where c: "collect_tab d findGroup ?run tab =
        ?run\<lparr>dr_summaries := AList.update (tab_name tab) (tabStatus d (tab_name tab) msg) (dr_summaries ?run)\<rparr>"
      by (auto simp: found_def collect_tab_def split: sum.splits option.splits)
    with snoc None show ?thesis by (auto simp: update_conv)
  next
    case (Some x)
    obtain p tg where x: "x = (p, tg, tab)" "findGroup tab = Inr (Some (p, tg))"
      using Some by (auto simp: found_def split: sum.splits option.splits)
    note IH = snoc.IH
    have i: "map_of (dr_infos ?run) p = info_at p (states findGroup tabs)" using IH by blast
    show ?thesis
    proof (cases "at_path p (states findGroup tabs)")
      case Nil
      with i have "map_of (dr_infos ?run) p = None" by (simp add: info_at_def)
      then have c: "collect_tab d findGroup ?run tab =
          ?run\<lparr>dr_paths := dr_paths ?run @ [p], dr_infos := AList.update p \<lparr>gi_group = tg, gi_tabs = [tab]\<rparr> (dr_infos ?run)\<rparr>"
        by (simp add: collect_tab_def x(2))
      have "p \<notin> set (dr_paths ?run)" using IH Nil by (simp add: at_path_none)
      with IH Some x(1) Nil show ?thesis
        by (auto simp: c update_conv info_at_def at_path_snoc)
    next
      case (Cons y ys)
      with i have "map_of (dr_infos ?run) p = Some \<lparr>gi_group = fst y, gi_tabs = map snd (y # ys)\<rparr>" by (simp add: info_at_def)
      then have c: "collect_tab d findGroup ?run tab =
          ?run\<lparr>dr_infos := AList.update p \<lparr>gi_group = fst y, gi_tabs = map snd (y # ys) @ [tab]\<rparr> (dr_infos ?run)\<rparr>"
        by (simp add: collect_tab_def x(2))
      have "p \<in> fst ` set (states findGroup tabs)" using Cons at_path_none [of p "states findGroup tabs"] by auto
      with IH Some x(1) Cons show ?thesis
        by (auto simp: c update_conv info_at_def at_path_snoc)
    qed
  qed
qed (simp add: assms info_at_def at_path_def)

text \<open>The delay of a tab against the summary it has before.\<close>

definition tab_delay :: "(string \<Rightarrow> int option) \<Rightarrow> string \<Rightarrow> tab_summary option \<Rightarrow> float64" where
  "tab_delay stat p old =
     (case stat p of None \<Rightarrow> - 1
      | Some updated \<Rightarrow> (case old of None \<Rightarrow> 86400 | Some s \<Rightarrow> of_int updated - dts_last_update_timestamp s))"

text \<open>The summary of a tab while it waits for an update.\<close>

definition waiting_summary :: "string \<Rightarrow> int option \<Rightarrow> string \<Rightarrow> tab_summary option \<Rightarrow> tab_summary" where
  "waiting_summary dashName attrs n old =
     (case attrs of None \<Rightarrow> tabStatus dashName n noRuns
      | Some updated \<Rightarrow> (case old of None \<Rightarrow> tabStatus dashName n ''Newly created tab'' | Some s \<Rightarrow> s))"

lemma delay_tab_values:
  "map_of (snd (delay_tab d (stat p) p st tab)) q =
     (if q = p then Some (tab_delay stat p (map_of (fst st) (tab_name tab))) else map_of (snd st) q)"
  "map_of (fst (delay_tab d (stat p) p st tab)) n =
     (if n = tab_name tab then Some (waiting_summary d (stat p) n (map_of (fst st) n)) else map_of (fst st) n)"
  by (cases st; auto simp: delay_tab_def tab_delay_def waiting_summary_def update_conv split: option.split)+

lemma delay_path_values:
  assumes "distinct (map tab_name ts)"
  shows "map_of (fst (foldl (delay_tab d (stat p) p) st ts)) n =
      (if n \<in> tab_name ` set ts then Some (waiting_summary d (stat p) n (map_of (fst st) n)) else map_of (fst st) n) \<and>
    map_of (snd (foldl (delay_tab d (stat p) p) st ts)) q =
      (if q = p \<and> ts \<noteq> [] then Some (tab_delay stat p (map_of (fst st) (tab_name (last ts)))) else map_of (snd st) q)"
  using assms
proof (induction ts arbitrary: n rule: rev_induct)
  case (snoc t ts)
  then show ?case by (auto simp: delay_tab_values)
qed simp

text \<open>
  All paths, when no two tabs have the same name: the delay of a path is that of the last of its tabs.
\<close>

lemma foldl_delay_value:
  assumes "distinct ps" "\<forall>q \<in> set ps. distinct (map tab_name (path_tabs run q))"
    and "\<forall>q \<in> set ps. q \<noteq> p \<longrightarrow> tab_name ` set (path_tabs run q) \<inter> tab_name ` set (path_tabs run p) = {}"
    and tab: "tab \<in> set (path_tabs run p)"
  shows "map_of (fst (foldl (delay_path d stat run) st ps)) (tab_name tab) =
      (if p \<in> set ps then Some (waiting_summary d (stat p) (tab_name tab) (map_of (fst st) (tab_name tab)))
       else map_of (fst st) (tab_name tab)) \<and>
    map_of (snd (foldl (delay_path d stat run) st ps)) p =
      (if p \<in> set ps then Some (tab_delay stat p (map_of (fst st) (tab_name (last (path_tabs run p)))))
       else map_of (snd st) p)"
  using assms(1-3) tab
proof (induction ps arbitrary: tab rule: rev_induct)
  case (snoc q ps)
  let ?st = "foldl (delay_path d stat run) st ps"
  note IH = snoc.IH
  have one: "map_of (fst ?st) (tab_name t) =
      (if p \<in> set ps then Some (waiting_summary d (stat p) (tab_name t) (map_of (fst st) (tab_name t)))
       else map_of (fst st) (tab_name t)) \<and>
    map_of (snd ?st) p =
      (if p \<in> set ps then Some (tab_delay stat p (map_of (fst st) (tab_name (last (path_tabs run p)))))
       else map_of (snd st) p)" if "t \<in> set (path_tabs run p)" for t
    using that snoc.prems by (intro IH) simp_all
  have dq: "distinct (map tab_name (path_tabs run q))" using snoc.prems(2) by simp
  note step = delay_path_values [OF dq, of d stat q ?st, folded delay_path_def]
  show ?case
  proof (cases "q = p")
    case True
    have ne: "path_tabs run p \<noteq> []" using snoc.prems(4) by auto
    have "p \<notin> set ps" using snoc.prems(1) True by simp
    then have "map_of (fst ?st) (tab_name t) = map_of (fst st) (tab_name t)" if "t \<in> set (path_tabs run p)" for t
      using one [OF that] by simp
    with step snoc.prems(4) ne show ?thesis by (simp add: True)
  next
    case False
    then have "tab_name tab \<notin> tab_name ` set (path_tabs run q)" using snoc.prems(3,4) by auto
    with step one [OF snoc.prems(4)] False show ?thesis by simp
  qed
qed simp

lemma set_requests:
  "(tab, tg) \<in> set (requests run delays) \<longleftrightarrow>
   (\<exists>p \<in> set (dr_paths run). \<exists>info. map_of (dr_infos run) p = Some info \<and> delay_of delays p \<noteq> 0 \<and>
      tab \<in> set (gi_tabs info) \<and> tg = gi_group info)"
proof -
  have one: "(tab, tg) \<in> set (case i of None \<Rightarrow> []
        | Some info \<Rightarrow> if delay_of delays p = 0 then [] else map (\<lambda>tab. (tab, gi_group info)) (gi_tabs info)) \<longleftrightarrow>
      (\<exists>info. i = Some info \<and> delay_of delays p \<noteq> 0 \<and> tab \<in> set (gi_tabs info) \<and> tg = gi_group info)" for i p
    by (cases i) auto
  show ?thesis
    unfolding requests_def set_concat set_map set_slice_stable UN_iff image_image one by blast
qed

text \<open>What the summary of a tab becomes when it is updated.\<close>

definition outcome :: "string \<Rightarrow> (dashboard_tab \<Rightarrow> test_group \<Rightarrow> tab_summary go) \<Rightarrow> dashboard_tab \<Rightarrow> test_group \<Rightarrow> tab_summary" where
  "outcome dashName update tab tg =
     (case update tab tg of
        Inr s \<Rightarrow> s\<lparr>dts_dashboard_name := dashName\<rparr>
      | Inl e \<Rightarrow> tabStatus dashName (tab_name tab)
          (''Error attempting to summarize tab: '' @ (case e of Failed m \<Rightarrow> m | Panic m \<Rightarrow> m)))"

lemma apply_result_outcome:
  "apply_result d update m (tab, tg) = Inr m' \<Longrightarrow> m' = AList.update (tab_name tab) (outcome d update tab tg) m"
  by (auto simp: apply_result_def outcome_def split: sum.splits go_error.splits)

lemma apply_results_value:
  assumes "go_fold (apply_result d update) m reqs = Inr m'"
    "\<forall>(t, g) \<in> set reqs. tab_name t = tab_name tab \<longrightarrow> t = tab \<and> g = tg"
  shows "map_of m' (tab_name tab) =
    (if (tab, tg) \<in> set reqs then Some (outcome d update tab tg) else map_of m (tab_name tab))"
  using assms
proof (induction reqs arbitrary: m)
  case (Cons req reqs)
  obtain t g where req: "req = (t, g)" by (cases req)
  from Cons.prems(1) obtain m1 where m1: "apply_result d update m (t, g) = Inr m1"
      "go_fold (apply_result d update) m1 reqs = Inr m'"
    by (auto simp: go_simps req)
  have IH: "map_of m' (tab_name tab) =
      (if (tab, tg) \<in> set reqs then Some (outcome d update tab tg) else map_of m1 (tab_name tab))"
    using Cons.prems(2) by (intro Cons.IH [OF m1(2)]) simp
  have m1': "m1 = AList.update (tab_name t) (outcome d update t g) m" by (rule apply_result_outcome [OF m1(1)])
  show ?case
  proof (cases "tab_name t = tab_name tab")
    case True
    then have "t = tab" "g = tg" using Cons.prems(2) by (simp_all add: req)
    then show ?thesis by (simp add: IH m1' req update_conv)
  next
    case False
    then have "(tab, tg) \<noteq> req" by (auto simp: req)
    with False show ?thesis by (simp add: IH m1' req update_conv)
  qed
qed simp

definition previous_summary :: "tab_summary list \<Rightarrow> string \<Rightarrow> tab_summary option" where
  "previous_summary previous n = map_of (fold (\<lambda>s. AList.update (dts_dashboard_tab_name s) s) previous []) n"

lemma states_in:
  "(q, g, t) \<in> set (states findGroup tabs) \<longleftrightarrow> t \<in> set tabs \<and> findGroup t = Inr (Some (q, g))"
  by (auto simp: states_def List.map_filter_def found_def split: sum.splits option.splits intro!: image_eqI)

lemma states_names:
  "distinct (map tab_name tabs) \<Longrightarrow> distinct (map (\<lambda>x. tab_name (snd (snd x))) (states findGroup tabs))"
proof -
  have "distinct (map tab_name tabs) \<Longrightarrow> distinct (map (\<lambda>x. tab_name (snd (snd x))) (states findGroup tabs)) \<and>
      (\<lambda>x. tab_name (snd (snd x))) ` set (states findGroup tabs) \<subseteq> tab_name ` set tabs"
  proof (induction tabs)
    case (Cons t ts)
    then show ?case by (auto simp: found_def split: sum.splits option.splits)
  qed simp
  then show "distinct (map tab_name tabs) \<Longrightarrow> distinct (map (\<lambda>x. tab_name (snd (snd x))) (states findGroup tabs))"
    by blast
qed

lemma at_path_names:
  assumes "distinct (map (\<lambda>x. tab_name (snd (snd x))) S)"
  shows "distinct (map tab_name (map snd (at_path p S)))"
proof -
  have "map tab_name (map snd (at_path p S)) = map (\<lambda>x. tab_name (snd (snd x))) (filter (\<lambda>x. fst x = p) S)"
    by (simp add: at_path_def)
  with distinct_map_filter [OF assms] show ?thesis by simp
qed

text \<open>
  Tabs that share a state: the group of the first of them summarizes all, and the delay of the last decides
  for all whether they are updated.
\<close>

lemma updateDashboard_shared:
  assumes run: "updateDashboard dash previous findGroup stat update None = Inr (summaries, todo)"
    and tabs: "distinct (map tab_name (dash_tabs dash))"
    and i: "i < length (dash_tabs dash)" "dash_tabs dash ! i = tab" "findGroup tab = Inr (Some (p, tg))"
  defines "sharing \<equiv> at_path p (states findGroup (dash_tabs dash))"
  shows "\<not> todo \<and> summaries ! i = Some
    (if tab_delay stat p (previous_summary previous (tab_name (snd (last sharing)))) = 0
     then waiting_summary (dash_name dash) (stat p) (tab_name tab) (previous_summary previous (tab_name tab))
     else outcome (dash_name dash) update tab (fst (hd sharing)))"
proof -
  let ?d = "dash_name dash" and ?S = "states findGroup (dash_tabs dash)" and ?old = "previous_summary previous"
  define start where "start = \<lparr>dr_summaries = fold (\<lambda>s. AList.update (dts_dashboard_tab_name s) s) previous [],
      dr_infos = [], dr_paths = []\<rparr>"
  define st where "st = foldl (collect_tab ?d findGroup) start (dash_tabs dash)"
  obtain m delays where delays: "foldl (delay_path ?d stat st) (dr_summaries st, []) (dr_paths st) = (m, delays)"
    by fastforce
  have only: "t = t'" if "t \<in> set (dash_tabs dash)" "t' \<in> set (dash_tabs dash)" "tab_name t = tab_name t'" for t t'
    using tabs that by (auto simp: distinct_map inj_on_def)
  have mine: "(p, tg, tab) \<in> set ?S" using i by (auto simp: states_in)
  then have share: "(tg, tab) \<in> set sharing" by (simp add: sharing_def at_path_in)
  have "dr_infos start = []" "dr_paths start = []" by (simp_all add: start_def)
  note col = foldl_collect_states [OF this st_def]
  have infos: "map_of (dr_infos st) q = info_at q ?S" for q using col by blast
  have old: "map_of (dr_summaries st) (tab_name t) = ?old (tab_name t)" if t: "(q, g, t) \<in> set ?S" for q g t
  proof -
    have "\<forall>t' \<in> set (dash_tabs dash). tab_name t' = tab_name t \<longrightarrow> found findGroup t' \<noteq> None"
    proof (intro ballI impI)
      fix t' assume "t' \<in> set (dash_tabs dash)" "tab_name t' = tab_name t"
      moreover from t have "t \<in> set (dash_tabs dash)" "found findGroup t \<noteq> None" by (auto simp: states_in found_def)
      ultimately show "found findGroup t' \<noteq> None" using only by metis
    qed
    with col show ?thesis by (simp add: start_def previous_summary_def)
  qed
  have pt: "path_tabs st q = map snd (at_path q ?S)" for q
    by (simp add: path_tabs_def infos info_at_def split: list.split)
  have in_pt: "t \<in> set (path_tabs st q) \<longleftrightarrow> (\<exists>g. (q, g, t) \<in> set ?S)" for q t
    unfolding pt set_map at_path_in [symmetric] by force
  have D: "distinct (dr_paths st)" "\<forall>q \<in> set (dr_paths st). distinct (map tab_name (path_tabs st q))"
    using col at_path_names [OF states_names [OF tabs]] by (simp_all add: pt)
  have apart: "\<forall>q \<in> set (dr_paths st). q \<noteq> p \<longrightarrow> tab_name ` set (path_tabs st q) \<inter> tab_name ` set (path_tabs st p) = {}"
  proof safe
    fix q t t' assume "q \<noteq> p" "t \<in> set (path_tabs st q)" "t' \<in> set (path_tabs st p)" "tab_name t = tab_name t'"
    then have "t = t'" by (intro only) (auto simp: in_pt states_in)
    with \<open>q \<noteq> p\<close> \<open>t \<in> set (path_tabs st q)\<close> \<open>t' \<in> set (path_tabs st p)\<close> show "tab_name t \<in> {}"
      by (auto simp: in_pt states_in)
  qed
  have "tab \<in> set (path_tabs st p)" using mine by (auto simp: in_pt)
  note val = foldl_delay_value [OF D apart this, where d = ?d and stat = stat and st = "(dr_summaries st, [])", unfolded delays]
  have pin: "p \<in> set (dr_paths st)" using col mine by force
  have "sharing \<noteq> []" using share by auto
  then have "(fst (last sharing), snd (last sharing)) \<in> set sharing" by simp
  then have lastS: "(p, fst (last sharing), snd (last sharing)) \<in> set ?S" by (simp only: sharing_def at_path_in)
  have last: "last (path_tabs st p) = snd (last sharing)"
    using \<open>sharing \<noteq> []\<close> last_map [of sharing snd] by (simp add: pt sharing_def)
  have d: "map_of delays p = Some (tab_delay stat p (?old (tab_name (snd (last sharing)))))"
      "map_of m (tab_name tab) = Some (waiting_summary ?d (stat p) (tab_name tab) (?old (tab_name tab)))"
    using val pin old [OF lastS] old [OF mine] by (simp_all add: last)
  obtain m' where m': "go_fold (apply_result ?d update) m (requests st delays) = Inr m'"
      "summaries = map (\<lambda>tab. map_of m' (tab_name tab)) (dash_tabs dash)" "\<not> todo"
    using run by (auto simp: updateDashboard_def Let_def start_def [symmetric] st_def [symmetric] delays go_simps)
  have req: "(t, g) \<in> set (requests st delays) \<longleftrightarrow>
      (\<exists>q g'. (q, g', t) \<in> set ?S \<and> g = fst (hd (at_path q ?S)) \<and> delay_of delays q \<noteq> 0)" for t g
  proof -
    have "(\<exists>info. map_of (dr_infos st) q = Some info \<and> delay_of delays q \<noteq> 0 \<and> t \<in> set (gi_tabs info) \<and> g = gi_group info) \<longleftrightarrow>
      t \<in> set (path_tabs st q) \<and> g = fst (hd (at_path q ?S)) \<and> delay_of delays q \<noteq> 0" for q
      by (cases "at_path q ?S") (auto simp: infos info_at_def path_tabs_def)
    moreover have "(q, g', t) \<in> set ?S \<Longrightarrow> q \<in> set (dr_paths st)" for q g' using col by force
    ultimately show ?thesis unfolding set_requests by (auto simp: in_pt)
  qed
  have "\<forall>(t, g) \<in> set (requests st delays). tab_name t = tab_name tab \<longrightarrow> t = tab \<and> g = fst (hd sharing)"
  proof safe
    fix t g assume t: "(t, g) \<in> set (requests st delays)" "tab_name t = tab_name tab"
    then obtain q g' where q: "(q, g', t) \<in> set ?S" "g = fst (hd (at_path q ?S))" by (auto simp: req)
    with t(2) mine show "t = tab" by (intro only) (auto simp: states_in)
    with q mine show "g = fst (hd sharing)" by (auto simp: states_in sharing_def)
  qed
  from apply_results_value [OF m'(1) this] have v: "summaries ! i =
      (if (tab, fst (hd sharing)) \<in> set (requests st delays) then Some (outcome ?d update tab (fst (hd sharing)))
       else map_of m (tab_name tab))"
    using i by (simp add: m'(2))
  have "(tab, fst (hd sharing)) \<in> set (requests st delays) \<longleftrightarrow>
      tab_delay stat p (?old (tab_name (snd (last sharing)))) \<noteq> 0"
    using mine d(1) by (auto simp: req states_in sharing_def delay_of_def)
  with v d(2) m'(3) show ?thesis by simp
qed

text \<open>A tab with a state of its own.\<close>

lemma updateDashboard_fresh:
  assumes run: "updateDashboard dash previous findGroup stat update None = Inr (summaries, todo)"
    and tabs: "distinct (map tab_name (dash_tabs dash))" "distinct (map fst (states findGroup (dash_tabs dash)))"
    and i: "i < length (dash_tabs dash)" "dash_tabs dash ! i = tab" "findGroup tab = Inr (Some (p, tg))"
  shows "\<not> todo \<and> summaries ! i =
    Some (case (stat p, previous_summary previous (tab_name tab)) of
        (Some updated, Some s) \<Rightarrow>
          if dts_last_update_timestamp s = of_int updated then s else outcome (dash_name dash) update tab tg
      | _ \<Rightarrow> outcome (dash_name dash) update tab tg)"
proof -
  let ?S = "states findGroup (dash_tabs dash)"
  have "(p, tg, tab) \<in> set ?S" using i by (auto simp: states_in)
  then obtain ys zs where S: "?S = ys @ (p, tg, tab) # zs" by (meson split_list)
  with tabs(2) have "p \<notin> fst ` set ys" "p \<notin> fst ` set zs" by auto
  then have "at_path p ys = []" "at_path p zs = []" by (simp_all only: at_path_none not_False_eq_True)
  then have "at_path p ?S = [(tg, tab)]" unfolding S by (simp add: at_path_def)
  with updateDashboard_shared [OF run tabs(1) i] show ?thesis
    by (auto simp: tab_delay_def waiting_summary_def split: option.splits)
qed

end
