(* ===== verification/Tabulate.thy ===== *)
theory Tabulate
  imports Update_Group
begin

text \<open>
  The tabulator: \<open>pkg/tabulator/filter.go\<close> and the transformation of a grid in \<open>tabstate.go\<close>.
  Regular expressions (\<open>rx\<close>) and the natural order of names (\<open>nl\<close>) are parameters; the parsing of a
  query string is that of \<open>net/url\<close>.
\<close>

section \<open>Query strings\<close>

definition hex_value :: "char \<Rightarrow> nat option" where
  "hex_value c =
     (if CHR ''0'' \<le> c \<and> c \<le> CHR ''9'' then Some (of_char c - 48)
      else if CHR ''a'' \<le> c \<and> c \<le> CHR ''f'' then Some (of_char c - 87)
      else if CHR ''A'' \<le> c \<and> c \<le> CHR ''F'' then Some (of_char c - 55)
      else None)"

fun QueryUnescape :: "string \<Rightarrow> string option" where
  "QueryUnescape [] = Some []"
| "QueryUnescape (c # s) =
     (if c = CHR ''%'' then
        (case s of
           a # b # s' \<Rightarrow>
             (case (hex_value a, hex_value b) of
                (Some x, Some y) \<Rightarrow> map_option ((#) (char_of (16 * x + y))) (QueryUnescape s')
              | _ \<Rightarrow> None)
         | _ \<Rightarrow> None)
      else map_option ((#) (if c = CHR ''+'' then CHR '' '' else c)) (QueryUnescape s))"

fun cut_at :: "char \<Rightarrow> string \<Rightarrow> string \<times> string" where
  "cut_at c [] = ([], [])"
| "cut_at c (d # s) = (if d = c then ([], s) else (case cut_at c s of (a, b) \<Rightarrow> (d # a, b)))"

definition parse_pair :: "string \<Rightarrow> (string \<times> string) option" where
  "parse_pair part =
     (if CHR '';'' \<in> set part then None
      else case cut_at (CHR ''='') part of (k, v) \<Rightarrow>
        (case (QueryUnescape k, QueryUnescape v) of (Some k, Some v) \<Rightarrow> Some (k, v) | _ \<Rightarrow> None))"

text \<open>\<open>url.ParseQuery\<close>: the pairs in order; one bad part makes the whole query an error.\<close>

definition ParseQuery :: "string \<Rightarrow> (string \<times> string) list go" where
  "ParseQuery query =
     go_map (\<lambda>part. case parse_pair part of None \<Rightarrow> Inl (Failed ''parse'') | Some kv \<Rightarrow> Inr kv)
       (filter (\<lambda>part. part \<noteq> []) (str_split query ''&''))"

section \<open>Filtering rows\<close>

definition includeFilter :: string where
  "includeFilter = ''include-filter-by-regex''"

definition excludeFilter :: string where
  "excludeFilter = ''exclude-filter-by-regex''"

definition includeRows :: "regex \<Rightarrow> row list \<Rightarrow> string \<Rightarrow> row list go" where
  "includeRows rx rows incl =
     (case rx incl of
        None \<Rightarrow> Inl (Failed ''bad include-filter-by-regex'')
      | Some m \<Rightarrow> Inr (filter (\<lambda>r. m (row_name r)) rows))"

definition excludeRows :: "regex \<Rightarrow> row list \<Rightarrow> string \<Rightarrow> row list go" where
  "excludeRows rx rows excl =
     (case rx excl of
        None \<Rightarrow> Inl (Failed ''bad exclude-filter-by-regex'')
      | Some m \<Rightarrow> Inr (filter (\<lambda>r. \<not> m (row_name r)) rows))"

definition query_values :: "(string \<times> string) list \<Rightarrow> string \<Rightarrow> string list" where
  "query_values vals key = map snd (filter (\<lambda>kv. fst kv = key) vals)"

definition filterGrid :: "regex \<Rightarrow> string \<Rightarrow> row list \<Rightarrow> row list go" where
  "filterGrid rx baseOptions rows =
     go_bind (ParseQuery baseOptions) (\<lambda>vals.
     go_bind (go_fold (includeRows rx) rows (query_values vals includeFilter)) (\<lambda>rows.
     go_fold (excludeRows rx) rows (query_values vals excludeFilter)))"

section \<open>Columns\<close>

definition has_result :: "inflated_column \<Rightarrow> bool" where
  "has_result col \<longleftrightarrow> list_ex (\<lambda>(n, c). c_result c \<noteq> NO_RESULT) (ic_cells col)"

definition dropEmptyColumns :: "inflated_column list \<Rightarrow> inflated_column list" where
  "dropEmptyColumns grid =
     (let result = filter has_result grid
      in if result = [] \<and> grid \<noteq> [] then take 1 grid else result)"

definition started :: "inflated_column \<Rightarrow> float64" where
  "started col = col_started (ic_column col)"

text \<open>
  The binary search for the first existing column that is not newer than the seam.  The Go loop runs
  while the bounds differ; the lower one never passes the upper one.
\<close>

function seam_search :: "inflated_column list \<Rightarrow> float64 \<Rightarrow> nat \<Rightarrow> nat \<Rightarrow> nat" where
  "seam_search existing seam mn mx =
     (if mn < mx then
        (let check = (mn + mx) div 2
         in if started (existing ! check) \<le> seam then seam_search existing seam mn check
            else seam_search existing seam (Suc check) mx)
      else mx)"
  by pat_completeness auto
termination
  by (relation "measure (\<lambda>(_, _, mn, mx). mx - mn)") auto

declare seam_search.simps [simp del]

definition mergeGrids :: "inflated_column list \<Rightarrow> inflated_column list \<Rightarrow> inflated_column list" where
  "mergeGrids existing addition =
     (if addition = [] then existing
      else
        (let mx = seam_search existing (started (last addition)) 0 (length existing)
         in if mx = length existing then addition else butlast addition @ drop mx existing))"

section \<open>The tab state\<close>

definition tabulate :: "natural_less \<Rightarrow> regex \<Rightarrow> (nat \<Rightarrow> bool) \<Rightarrow> int \<Rightarrow> grid option \<Rightarrow> dashboard_tab option \<Rightarrow>
    test_group option \<Rightarrow> bool \<Rightarrow> bool \<Rightarrow> grid option \<Rightarrow> grid go" where
  "tabulate nl rx cancelled now g tabCfg groupCfg calculateStats useTabAlertSettings existingGrid =
     (case (g, tabCfg, groupCfg) of
        (None, _, _) \<Rightarrow> Inl (Failed ''no grid'')
      | (Some g, Some tab, Some tg) \<Rightarrow>
          go_bind (filterGrid rx (tab_base_options tab) (grid_rows g)) (\<lambda>filterRows.
          go_bind (InflateGrid cancelled (g\<lparr>grid_rows := filterRows\<rparr>) zero_unix now) (\<lambda>(inflatedGrid, issues).
            let inflatedGrid = dropEmptyColumns inflatedGrid;
                usesK8sClient = (tg_use_kubernetes_client tg \<or> get_gcs_config tg \<noteq> None);
                brokenThreshold = (if calculateStats then tab_broken_column_threshold tab else 0);
                alert = (if useTabAlertSettings then ao_num_failures_to_alert (get_alert_options tab)
                         else tg_num_failures_to_alert tg);
                unalert = (if useTabAlertSettings then ao_num_passes_to_disable_alert (get_alert_options tab)
                           else tg_num_passes_to_disable_alert tg)
            in go_bind (case existingGrid of
                 None \<Rightarrow> Inr inflatedGrid
               | Some ex \<Rightarrow> go_bind (InflateGrid cancelled ex zero_unix now) (\<lambda>(existing, _).
                     Inr (mergeGrids existing inflatedGrid))) (\<lambda>cols.
               ConstructGrid nl cols issues alert unalert usesK8sClient (tg_user_property tg) brokenThreshold
                 (tg_column_header tg))))
      | (Some _, _, _) \<Rightarrow> Inl (Failed ''no config''))"

section \<open>Which tabs a test group feeds\<close>

record write_task =
  wt_dashboard :: dashboard
  wt_tab :: dashboard_tab
  wt_group :: "test_group option"

definition mapTasks :: "(string, test_group) gomap \<Rightarrow> (string, dashboard) gomap \<Rightarrow> (string, write_task list) gomap" where
  "mapTasks groups dashboards =
     fold (\<lambda>(_, dashboard) groupToTabs.
         fold (\<lambda>tab. append_value (tab_test_group_name tab)
                  \<lparr>wt_dashboard = dashboard, wt_tab = tab, wt_group = map_of groups (tab_test_group_name tab)\<rparr>)
           (dash_tabs dashboard) groupToTabs)
       dashboards []"

section \<open>What the filters keep\<close>

lemma includeRows_all:
  "(\<forall>i \<in> set is. rx i \<noteq> None) \<Longrightarrow>
   go_fold (includeRows rx) rows is = Inr (filter (\<lambda>r. \<forall>i \<in> set is. the (rx i) (row_name r)) rows)"
  by (induction "is" arbitrary: rows) (auto simp: includeRows_def conj_commute intro!: filter_cong)

lemma excludeRows_all:
  "(\<forall>i \<in> set is. rx i \<noteq> None) \<Longrightarrow>
   go_fold (excludeRows rx) rows is = Inr (filter (\<lambda>r. \<forall>i \<in> set is. \<not> the (rx i) (row_name r)) rows)"
  by (induction "is" arbitrary: rows) (auto simp: excludeRows_def conj_commute intro!: filter_cong)

lemma filter_rows_bad:
  "(\<exists>i \<in> set is. rx i = None) \<Longrightarrow> \<exists>m. go_fold (includeRows rx) rows is = Inl (Failed m)"
  "(\<exists>i \<in> set is. rx i = None) \<Longrightarrow> \<exists>m. go_fold (excludeRows rx) rows is = Inl (Failed m)"
  by (induction "is" arbitrary: rows) (auto simp: includeRows_def excludeRows_def split: option.split)

definition shown_row :: "regex \<Rightarrow> (string \<times> string) list \<Rightarrow> row \<Rightarrow> bool" where
  "shown_row rx vals r \<longleftrightarrow>
     (\<forall>i \<in> set (query_values vals includeFilter). the (rx i) (row_name r)) \<and>
     (\<forall>i \<in> set (query_values vals excludeFilter). \<not> the (rx i) (row_name r))"

lemma filterGrid_spec:
  "filterGrid rx baseOptions rows = Inr rows' \<longleftrightarrow>
   (\<exists>vals. ParseQuery baseOptions = Inr vals \<and>
      (\<forall>i \<in> set (query_values vals includeFilter @ query_values vals excludeFilter). rx i \<noteq> None) \<and>
      rows' = filter (shown_row rx vals) rows)"
proof (cases "ParseQuery baseOptions")
  case (Inl e)
  then show ?thesis by (simp add: filterGrid_def)
next
  case (Inr vals)
  let ?is = "query_values vals includeFilter" and ?es = "query_values vals excludeFilter"
  consider "\<exists>i \<in> set ?is. rx i = None" | "\<forall>i \<in> set ?is. rx i \<noteq> None" "\<exists>i \<in> set ?es. rx i = None"
    | "\<forall>i \<in> set ?is. rx i \<noteq> None" "\<forall>i \<in> set ?es. rx i \<noteq> None" by metis
  then show ?thesis
  proof cases
    case 1
    then have "\<not> (\<forall>i \<in> set (?is @ ?es). rx i \<noteq> None)" by auto
    moreover have "\<exists>m. filterGrid rx baseOptions rows = Inl (Failed m)"
      using filter_rows_bad(1) [OF 1, of rows] by (auto simp: filterGrid_def Inr)
    ultimately show ?thesis using Inr by (metis Inl_Inr_False sum.inject(2))
  next
    case 2
    then have "\<not> (\<forall>i \<in> set (?is @ ?es). rx i \<noteq> None)" by auto
    moreover have "\<exists>m. filterGrid rx baseOptions rows = Inl (Failed m)"
      using filter_rows_bad(2) [OF 2(2)] by (simp add: filterGrid_def Inr includeRows_all [OF 2(1)])
    ultimately show ?thesis using Inr by (metis Inl_Inr_False sum.inject(2))
  next
    case 3
    then have "filterGrid rx baseOptions rows = Inr (filter (shown_row rx vals) rows)"
      by (simp add: filterGrid_def Inr includeRows_all excludeRows_all shown_row_def [abs_def] conj_commute)
    with 3 Inr show ?thesis by auto
  qed
qed

section \<open>Merging with the stored columns\<close>

abbreviation newest_first :: "inflated_column list \<Rightarrow> bool" where
  "newest_first cols \<equiv> sorted_wrt (\<lambda>a b. started b \<le> started a) cols"

lemma seam_search_spec:
  assumes "newest_first existing" "mn \<le> mx" "mx \<le> length existing"
    "\<forall>k < mn. seam < started (existing ! k)" "\<forall>k < length existing. mx \<le> k \<longrightarrow> started (existing ! k) \<le> seam"
  shows "drop (seam_search existing seam mn mx) existing = filter (\<lambda>c. started c \<le> seam) existing \<and>
    seam_search existing seam mn mx \<le> length existing"
  using assms
proof (induction existing seam mn mx rule: seam_search.induct)
  case (1 existing seam mn mx)
  show ?case
  proof (cases "mn < mx")
    case False
    then have eq: "mn = mx" using "1.prems" by simp
    have "filter (\<lambda>c. started c \<le> seam) existing =
        filter (\<lambda>c. started c \<le> seam) (take mx existing) @ filter (\<lambda>c. started c \<le> seam) (drop mx existing)"
      by (metis append_take_drop_id filter_append)
    moreover have "filter (\<lambda>c. started c \<le> seam) (take mx existing) = []"
      using "1.prems"(4) eq by (auto simp: filter_empty_conv in_set_conv_nth not_le)
    moreover have "filter (\<lambda>c. started c \<le> seam) (drop mx existing) = drop mx existing"
      using "1.prems"(5) by (auto simp: filter_id_conv in_set_conv_nth)
    ultimately show ?thesis using "1.prems"(3) by (simp add: seam_search.simps [of existing seam mx mx] eq)
  next
    case True
    define check where "check = (mn + mx) div 2"
    have check: "mn \<le> check" "check < mx" using True by (auto simp: check_def)
    have mono: "started (existing ! k) \<le> started (existing ! j)" if "j \<le> k" "k < length existing" for j k
      using "1.prems"(1) that by (cases "j = k") (auto simp: sorted_wrt_iff_nth_less)
    show ?thesis
    proof (cases "started (existing ! check) \<le> seam")
      case le: True
      have "\<forall>k < length existing. check \<le> k \<longrightarrow> started (existing ! k) \<le> seam"
        using mono le order_trans by blast
      with "1.IH"(1) [OF True check_def le] "1.prems" check have
        "drop (seam_search existing seam mn check) existing = filter (\<lambda>c. started c \<le> seam) existing \<and>
         seam_search existing seam mn check \<le> length existing" by simp
      moreover have "seam_search existing seam mn mx = seam_search existing seam mn check"
        using True le by (simp add: seam_search.simps [of existing seam mn mx] check_def Let_def)
      ultimately show ?thesis by simp
    next
      case gt: False
      have "\<forall>k < Suc check. seam < started (existing ! k)"
      proof (intro allI impI)
        fix k
        assume "k < Suc check"
        then have "started (existing ! check) \<le> started (existing ! k)" using mono check "1.prems"(3) by simp
        with gt show "seam < started (existing ! k)" by simp
      qed
      with "1.IH"(2) [OF True check_def gt] "1.prems" check have
        "drop (seam_search existing seam (Suc check) mx) existing = filter (\<lambda>c. started c \<le> seam) existing \<and>
         seam_search existing seam (Suc check) mx \<le> length existing" by simp
      moreover have "seam_search existing seam mn mx = seam_search existing seam (Suc check) mx"
        using True gt by (simp add: seam_search.simps [of existing seam mn mx] check_def Let_def)
      ultimately show ?thesis by simp
    qed
  qed
qed

lemma mergeGrids_spec:
  assumes "newest_first existing" "addition \<noteq> []"
  shows "mergeGrids existing addition =
    (let older = filter (\<lambda>c. started c \<le> started (last addition)) existing
     in if older = [] then addition else butlast addition @ older)"
proof -
  let ?m = "seam_search existing (started (last addition)) 0 (length existing)"
  have "drop ?m existing = filter (\<lambda>c. started c \<le> started (last addition)) existing" "?m \<le> length existing"
    using seam_search_spec [OF assms(1), of 0 "length existing" "started (last addition)"] by simp_all
  moreover from this have "?m = length existing \<longleftrightarrow> filter (\<lambda>c. started c \<le> started (last addition)) existing = []"
    by (metis drop_eq_Nil le_antisym le_refl)
  ultimately show ?thesis using assms(2) by (simp add: mergeGrids_def Let_def)
qed

lemma mergeGrids_sorted:
  assumes "newest_first existing" "newest_first addition"
  shows "newest_first (mergeGrids existing addition)"
proof (cases "addition = []")
  case True
  with assms show ?thesis by (simp add: mergeGrids_def)
next
  case False
  then have a: "butlast addition @ [last addition] = addition" by simp
  then have "newest_first (butlast addition @ [last addition])" using assms(2) by (simp only:)
  then have "newest_first (butlast addition)" "\<forall>c \<in> set (butlast addition). started (last addition) \<le> started c"
    by (auto simp: sorted_wrt_append)
  moreover have "newest_first (filter (\<lambda>c. started c \<le> started (last addition)) existing)"
    using assms(1) by (rule sorted_wrt_filter)
  ultimately show ?thesis using assms(2) order_trans
    by (fastforce simp: mergeGrids_spec [OF assms(1) False] Let_def sorted_wrt_append)
qed

section \<open>The grid of a tab\<close>

lemma metrics_at_keys: "fst ` set (metrics_at ms i) \<subseteq> m_name ` set ms"
  by (auto simp: metrics_at_def List.map_filter_def)

lemma distinct_metrics_at: "distinct (map m_name ms) \<Longrightarrow> distinct (map fst (metrics_at ms i))"
proof (induction ms)
  case (Cons m ms)
  then show ?case
    using metrics_at_keys [of ms i]
    by (cases "metric_at m i") (auto simp: metrics_at_def List.map_filter_simps)
qed (simp add: metrics_at_def List.map_filter_simps)

lemma inflated_cells_ok:
  assumes "grid_ok g" "i < length (grid_columns g)"
  shows "cells_ok (inflated_at g i)"
proof -
  have "canonical (c_result (cell_at r i)) \<and> distinct (map fst (c_metrics (cell_at r i)))"
    if "r \<in> set (grid_rows g)" for r
  proof -
    from that assms have "inflatable r" "i < length (row_statuses r)" by (auto simp: grid_ok_def)
    then have "canonical (row_statuses r ! i)" "distinct (map m_name (row_metrics r))"
      using canonical_rle_expand [of "row_statuses r ! i" "row_results r"]
      by (auto simp: row_statuses_def inflatable_def)
    then show ?thesis
      by (simp add: cell_at_result) (simp add: cell_at_def Let_def zero_cell_def distinct_metrics_at)
  qed
  with assms show ?thesis
    by (auto simp: cells_ok_def inflated_at_def column_cells_def comp_def grid_ok_def)
qed

lemma grid_ok_filter: "grid_ok g \<Longrightarrow> grid_ok (g\<lparr>grid_rows := filter P (grid_rows g)\<rparr>)"
  by (auto simp: grid_ok_def distinct_map inj_on_def)

lemma kept_columns_less: "k \<in> set (kept_columns earliest latest b i cs) \<Longrightarrow> k < i + length cs"
  by (induction cs arbitrary: i b) (force simp: Let_def split: if_splits)+

lemma set_dropEmptyColumns: "set (dropEmptyColumns cols) \<subseteq> set cols"
  by (auto simp: dropEmptyColumns_def Let_def dest: in_set_takeD)

definition tab_alerts :: "bool \<Rightarrow> dashboard_tab \<Rightarrow> test_group \<Rightarrow> int" where
  "tab_alerts useTabAlertSettings tab tg =
     (if useTabAlertSettings then ao_num_failures_to_alert (get_alert_options tab) else tg_num_failures_to_alert tg)"

definition tab_threshold :: "bool \<Rightarrow> dashboard_tab \<Rightarrow> float64" where
  "tab_threshold calculateStats tab = (if calculateStats then tab_broken_column_threshold tab else 0)"

definition tab_unalerts :: "bool \<Rightarrow> dashboard_tab \<Rightarrow> test_group \<Rightarrow> int" where
  "tab_unalerts useTab tab tg =
     (if useTab then ao_num_passes_to_disable_alert (get_alert_options tab) else tg_num_passes_to_disable_alert tg)"

lemma tabulate_alerts:
  assumes g: "grid_ok g" and run: "\<forall>j. \<not> cancelled j"
    and rows: "filterGrid rx (tab_base_options tab) (grid_rows g) = Inr rows" and alerts: "0 \<le> tab_alerts useTab tab tg"
    and cols_def: "cols = dropEmptyColumns (map (inflated_at (g\<lparr>grid_rows := rows\<rparr>))
        (kept_columns zero_unix now False 0 (grid_columns g)))"
  shows "\<exists>g'. tabulate nl rx cancelled now (Some g) (Some tab) (Some tg) calculateStats useTab None = Inr g' \<and>
    shows_cells (map (with_stats (tab_threshold calculateStats tab)) cols) g' \<and>
    shows_alerts (map (with_stats (tab_threshold calculateStats tab)) cols) (tab_alerts useTab tab tg) (tab_unalerts useTab tab tg)
      (tg_use_kubernetes_client tg \<or> get_gcs_config tg \<noteq> None) (tg_user_property tg) (tg_column_header tg) g'"
proof -
  let ?g = "g\<lparr>grid_rows := rows\<rparr>"
  have ok: "grid_ok ?g" using g rows grid_ok_filter [of g] by (auto simp: filterGrid_spec)
  have cells: "\<forall>c \<in> set cols. cells_ok c"
  proof
    fix c
    assume "c \<in> set cols"
    then have "c \<in> set (map (inflated_at ?g) (kept_columns zero_unix now False 0 (grid_columns g)))"
      using set_dropEmptyColumns unfolding cols_def by blast
    then obtain i where "c = inflated_at ?g i" "i < length (grid_columns ?g)"
      by (auto dest: kept_columns_less)
    with inflated_cells_ok [OF ok] show "cells_ok c" by simp
  qed
  from InflateGrid_kept [OF ok run, of zero_unix now] obtain issues where
    inf: "InflateGrid cancelled ?g zero_unix now =
      Inr (map (inflated_at ?g) (kept_columns zero_unix now False 0 (grid_columns g)), issues)" by auto
  let ?con = "ConstructGrid nl cols issues (tab_alerts useTab tab tg) (tab_unalerts useTab tab tg)
      (tg_use_kubernetes_client tg \<or> get_gcs_config tg \<noteq> None) (tg_user_property tg) (tab_threshold calculateStats tab) (tg_column_header tg)"
  have "tabulate nl rx cancelled now (Some g) (Some tab) (Some tg) calculateStats useTab None = ?con"
    by (simp add: tabulate_def rows Let_def cols_def inf tab_alerts_def tab_unalerts_def tab_threshold_def)
  moreover from ConstructGrid_shows [OF cells alerts] obtain g' where "?con = Inr g'"
      "shows_cells (map (with_stats (tab_threshold calculateStats tab)) cols) g'" by blast
  ultimately show ?thesis using ConstructGrid_alerts [OF _ cells alerts] by metis
qed

lemma tabulate_shows:
  assumes g: "grid_ok g" and run: "\<forall>j. \<not> cancelled j"
    and rows: "filterGrid rx (tab_base_options tab) (grid_rows g) = Inr rows" and alerts: "0 \<le> tab_alerts useTab tab tg"
    and cols_def: "cols = dropEmptyColumns (map (inflated_at (g\<lparr>grid_rows := rows\<rparr>))
        (kept_columns zero_unix now False 0 (grid_columns g)))"
  shows "\<exists>g'. tabulate nl rx cancelled now (Some g) (Some tab) (Some tg) calculateStats useTab None = Inr g' \<and>
    shows_cells (map (with_stats (tab_threshold calculateStats tab)) cols) g'"
  using tabulate_alerts [OF assms] by blast

text \<open>The rows of the tab: those the filters let through that have a result.\<close>

lemma has_result_inflated: "has_result (inflated_at g i) \<longleftrightarrow> (\<exists>r \<in> set (grid_rows g). row_statuses r ! i \<noteq> NO_RESULT)"
  by (auto simp: has_result_def inflated_at_def column_cells_def list_ex_iff cell_at_result)

lemma shown_names_dropEmpty: "shown_names (dropEmptyColumns cols) = shown_names cols"
proof -
  have "has_result c" if "c_result (cell_of c n) \<noteq> NO_RESULT" for c n
    using that cell_of_absent [of n c]
    by (force simp: cell_of_def has_result_def list_ex_iff split: option.splits dest!: map_of_SomeD)
  then show ?thesis
    by (auto simp: shown_names_def dropEmptyColumns_def Let_def filter_empty_conv dest: in_set_takeD)
qed

text \<open>Every tab that shows a group is a task of it, exactly once.\<close>

lemma map_get_append_value: "map_get g (append_value k v m) = (if g = k then map_get g m @ [v] else map_get g m)"
  by (auto simp: map_get_def map_of_append_value Let_def split: option.split)

lemma mapTasks_spec:
  "map_get g (mapTasks groups dashboards) =
   concat (map (\<lambda>(_, d). map (\<lambda>t. \<lparr>wt_dashboard = d, wt_tab = t, wt_group = map_of groups g\<rparr>)
       (filter (\<lambda>t. tab_test_group_name t = g) (dash_tabs d))) dashboards)"
proof -
  have tabs: "map_get g (fold (\<lambda>t. append_value (tab_test_group_name t) (f t)) ts m) =
      map_get g m @ map f (filter (\<lambda>t. tab_test_group_name t = g) ts)" for f ts and m :: "(string, write_task list) gomap"
    by (induction ts arbitrary: m) (auto simp: map_get_append_value)
  have "map_get g (fold (\<lambda>(_, dashboard) groupToTabs.
         fold (\<lambda>tab. append_value (tab_test_group_name tab)
                  \<lparr>wt_dashboard = dashboard, wt_tab = tab, wt_group = map_of groups (tab_test_group_name tab)\<rparr>)
           (dash_tabs dashboard) groupToTabs) ds m) =
      map_get g m @ concat (map (\<lambda>(_, d). map (\<lambda>t. \<lparr>wt_dashboard = d, wt_tab = t, wt_group = map_of groups g\<rparr>)
       (filter (\<lambda>t. tab_test_group_name t = g) (dash_tabs d))) ds)" for ds m
  proof (induction ds arbitrary: m)
    case (Cons kd ds)
    then show ?case by (cases kd) (auto simp: tabs)
  qed simp
  from this [of dashboards "[]"] show ?thesis by (simp add: mapTasks_def map_get_def)
qed

end
