(* ===== verification/Worker_Pool.thy ===== *)
theory Worker_Pool
  imports Main
begin

text \<open>
  Pools of workers that must not work on the same name at the same time: the updater and the
  summarizer both keep a set of active names under a lock for it.  The theory states what such a
  set promises (every active name is held by one worker, and no other name by any) and how
  claiming, keeping and giving up a name preserve it, for any states a worker goes through.
\<close>

definition exclusive :: "('n \<Rightarrow> 'w \<Rightarrow> bool) \<Rightarrow> ('n \<Rightarrow> bool) \<Rightarrow> 'w list \<Rightarrow> bool" where
  "exclusive holds active ws \<longleftrightarrow> (\<forall>n. length (filter (holds n) ws) = (if active n then 1 else 0))"

lemma filter_length_update:
  assumes "i < length ws"
  shows "length (filter P (ws[i := w])) + (if P (ws ! i) then 1 else 0) =
    length (filter P ws) + (if P w then 1 else 0)"
proof -
  have "ws = take i ws @ [ws ! i] @ drop (Suc i) ws" using assms by (simp add: Cons_nth_drop_Suc)
  then have "length (filter P ws) = length (filter P (take i ws @ [ws ! i] @ drop (Suc i) ws))" by simp
  moreover have "ws[i := w] = take i ws @ [w] @ drop (Suc i) ws" using assms by (simp add: upd_conv_take_nth_drop)
  ultimately show ?thesis by simp
qed

lemma exclusive_update:
  assumes "exclusive holds act ws" "i < length ws"
    "\<And>n. (if holds n w then 1 else 0 :: nat) + (if act n then 1 else 0) =
       (if holds n (ws ! i) then 1 else 0) + (if act' n then 1 else 0)"
  shows "exclusive holds act' (ws[i := w])"
  unfolding exclusive_def
proof
  fix n
  have "length (filter (holds n) ws) = (if act n then 1 else 0)" using assms(1) by (simp add: exclusive_def)
  with filter_length_update [OF assms(2), of "holds n" w] assms(3) [of n]
  show "length (filter (holds n) (ws[i := w])) = (if act' n then 1 else 0)" by linarith
qed

text \<open>The states of a worker: one name is held at a time.\<close>

locale worker_states =
  fixes holds :: "'n \<Rightarrow> 'w \<Rightarrow> bool"
  assumes holds_one: "holds m w \<Longrightarrow> holds n w \<Longrightarrow> m = n"
begin

lemma holds_iff: "holds m w \<Longrightarrow> holds n w \<longleftrightarrow> n = m"
  by (blast dest: holds_one)

lemma start: "\<forall>w \<in> set ws. \<forall>n. \<not> holds n w \<Longrightarrow> exclusive holds (\<lambda>n. False) ws"
  by (simp add: exclusive_def filter_empty_conv)

text \<open>A step that changes what the worker does, but not what it holds.\<close>

lemma keep:
  assumes "exclusive holds act ws" "i < length ws" "\<And>n. holds n w = holds n (ws ! i)"
  shows "exclusive holds act (ws[i := w])"
  by (rule exclusive_update [OF assms(1,2)]) (simp add: assms(3))

lemma claim:
  assumes "exclusive holds act ws" "i < length ws" "\<And>n. \<not> holds n (ws ! i)" "holds m w" "\<not> act m"
  shows "exclusive holds (act(m := True)) (ws[i := w])"
  by (rule exclusive_update [OF assms(1,2)]) (simp add: assms(3,5) holds_iff [OF assms(4)])

lemma held_active:
  assumes "exclusive holds act ws" "i < length ws" "holds m (ws ! i)"
  shows "act m"
proof (rule ccontr)
  assume "\<not> act m"
  with assms(1) have "length (filter (holds m) ws) = 0" by (simp add: exclusive_def)
  moreover have "ws ! i \<in> set ws" using assms(2) by simp
  ultimately show False using assms(3) by (auto simp: filter_empty_conv)
qed

lemma release:
  assumes "exclusive holds act ws" "i < length ws" "holds m (ws ! i)" "\<And>n. \<not> holds n w"
  shows "exclusive holds (act(m := False)) (ws[i := w])"
  by (rule exclusive_update [OF assms(1,2)])
    (simp add: assms(4) held_active [OF assms(1-3)] holds_iff [OF assms(3)])

lemma active_held: "exclusive holds act ws \<Longrightarrow> act m \<Longrightarrow> \<exists>w \<in> set ws. holds m w"
  by (rule ccontr) (auto simp: exclusive_def filter_empty_conv dest!: spec [of _ m])

text \<open>Two workers never hold the same name.\<close>

lemma apart:
  assumes "exclusive holds act ws" "i < j" "j < length ws" "holds m (ws ! i)"
  shows "\<not> holds m (ws ! j)"
proof
  assume j: "holds m (ws ! j)"
  have "ws ! i \<in> set (take j ws)" using assms(2,3) by (auto simp: in_set_conv_nth intro!: exI [of _ i])
  with assms(4) have "filter (holds m) (take j ws) \<noteq> []" by (auto simp: filter_empty_conv)
  then have "1 \<le> length (filter (holds m) (take j ws))" by (simp add: Suc_leI)
  moreover have "ws = take j ws @ [ws ! j] @ drop (Suc j) ws" using assms(3) by (simp add: Cons_nth_drop_Suc)
  then have "length (filter (holds m) ws) = length (filter (holds m) (take j ws @ [ws ! j] @ drop (Suc j) ws))"
    by simp
  ultimately have "2 \<le> length (filter (holds m) ws)" using j by (simp del: length_greater_0_conv)
  moreover have "length (filter (holds m) ws) \<le> 1" using assms(1) by (simp add: exclusive_def)
  ultimately show False by simp
qed

end

end
