(* ===== verification/Update_Loop.thy ===== *)
theory Update_Loop
  imports Config_Queue Cells Worker_Pool
begin

text \<open>
  The update loop of the updater (\<open>Update\<close> of \<open>pkg/updater/updater.go\<close>) and what moves its queue:
  the initial times taken from the stored grids (\<open>lastUpdated\<close>), the notifications of storage
  (\<open>pkg/updater/pubsub.go\<close>) and the workers, which put a group back after an error or when there is
  more to process.  Times are nanoseconds.

  Parsing \<open>gs://\<close> URLs is the parameter \<open>url_parse\<close> (it returns host and path, or the error of
  parsing or of \<open>SetURL\<close>); what storage answers, the clock and the random delays are parameters.
\<close>

section \<open>The groups of a configuration\<close>

text \<open>The map of the groups is visited in an arbitrary order, here that of the list.\<close>

definition testGroups :: "(string, test_group) gomap \<Rightarrow> string list \<Rightarrow> test_group list go" where
  "testGroups groups groupNames =
     (if groupNames = [] then Inr (map snd groups)
      else go_map (\<lambda>name. case map_of groups name of
             None \<Rightarrow> Inl (Failed (''group '' @ name @ '' not found'')) | Some tg \<Rightarrow> Inr tg) groupNames)"

text \<open>
  A new configuration while the loop runs: an error of \<open>testGroups\<close> is logged, and the queue is set
  up with the groups it returned, none.
\<close>

definition config_update ::
    "string list \<Rightarrow> int \<Rightarrow> (string, test_group) gomap \<Rightarrow> test_group_queue \<Rightarrow> test_group_queue go" where
  "config_update groupNames when groups q =
     TestGroupQueue_Init (case testGroups groups groupNames of Inl e \<Rightarrow> [] | Inr tgs \<Rightarrow> tgs) when q"

section \<open>Times from the stored grids\<close>

record stat_attrs =
  at_generation :: int
  at_updated :: int

text \<open>One answer of \<open>gcs.Stat\<close>: the attributes, or whether the error is that there is no object.\<close>

record stat_result =
  sr_attrs :: "stat_attrs option"
  sr_not_exist :: bool

definition StatExisting :: "stat_result list \<Rightarrow> stat_attrs option list" where
  "StatExisting = map (\<lambda>s. case sr_attrs s of Some a \<Rightarrow> Some a
     | None \<Rightarrow> if sr_not_exist s then Some \<lparr>at_generation = 0, at_updated = 0\<rparr> else None)"

text \<open>
  The loop of \<open>fixOnce\<close>: the new time of every group, and the groups whose empty state is created
  (\<open>lockGroup\<close> with generation zero).  \<open>now i\<close> is the clock at attribute \<open>i\<close>.
\<close>

fun stored_times ::
    "int \<Rightarrow> (nat \<Rightarrow> int) \<Rightarrow> nat \<Rightarrow> stat_attrs option list \<Rightarrow> test_group list \<Rightarrow>
     (string, int) gomap \<Rightarrow> string list \<Rightarrow> (string, int) gomap \<times> string list" where
  "stored_times freq now i (attr # attrs) (tg # tgs) updates created =
     (case attr of
        None \<Rightarrow> stored_times freq now (i + 1) attrs tgs updates created
      | Some a \<Rightarrow>
          if 0 < at_generation a then
            stored_times freq now (i + 1) attrs tgs (AList.update (tg_name tg) (at_updated a + freq) updates) created
          else if at_generation a = 0 then
            stored_times freq now (i + 1) attrs tgs (AList.update (tg_name tg) (now i) updates) (created @ [tg_name tg])
          else stored_times freq now (i + 1) attrs tgs updates created)"
| "stored_times freq now i attrs tgs updates created = (updates, created)"

text \<open>\<open>stats\<close> is the answer of storage for each group, an error when the paths are no good.\<close>

definition fixOnce ::
    "int \<Rightarrow> (nat \<Rightarrow> int) \<Rightarrow> int \<Rightarrow> stat_result list go \<Rightarrow> test_group list \<Rightarrow> test_group_queue \<Rightarrow>
     (string list \<times> test_group_queue) go" where
  "fixOnce freq now now_init stats groups q =
     go_bind stats (\<lambda>ss.
       case stored_times freq now 0 (StatExisting ss) groups [] [] of
         (updates, created) \<Rightarrow>
           go_bind (TestGroupQueue_Init groups (now_init + freq) q)
             (\<lambda>q'. Inr (created, q'\<lparr>tq_queue := snd (FixAll updates False (tq_queue q'))\<rparr>)))"

section \<open>Notifications\<close>

text \<open>A \<open>gcs.Path\<close>, the host and the path of its URL.\<close>

record gcs_path =
  gp_bucket :: string
  gp_url_path :: string

definition path_object :: "gcs_path \<Rightarrow> string" where
  "path_object p = (if gp_url_path p = [] then [] else tl (gp_url_path p))"

definition with_slash :: "gcs_path \<Rightarrow> gcs_path" where
  "with_slash p =
     (if gp_url_path p \<noteq> [] \<and> last (gp_url_path p) \<noteq> CHR ''/''
      then p\<lparr>gp_url_path := gp_url_path p @ ''/''\<rparr> else p)"

definition groupPaths :: "(string \<Rightarrow> gcs_path go) \<Rightarrow> test_group \<Rightarrow> gcs_path list go" where
  "groupPaths url_parse tg =
     go_map (\<lambda>prefix. go_bind (url_parse (''gs://'' @ prefix)) (\<lambda>p. Inr (with_slash p)))
       (filter (\<lambda>p. p \<noteq> []) (map trim_space (str_split (gcsPrefix tg) '','')))"

record subscription =
  sub_proj :: string
  sub_sub :: string

definition manualGroupSubscription ::
    "(string, subscription) gomap \<Rightarrow> test_group \<Rightarrow> subscription option" where
  "manualGroupSubscription manualSubs tg =
     map_option snd (List.find (\<lambda>(prefix, sub). has_prefix (gcsPrefix tg) prefix) manualSubs)"

definition AddManualSubscription ::
    "string \<Rightarrow> string \<Rightarrow> string \<Rightarrow> (string, subscription) gomap \<Rightarrow> (string, subscription) gomap" where
  "AddManualSubscription projID subID prefix manualSubs =
     AList.update prefix \<lparr>sub_proj = projID, sub_sub = subID\<rparr> manualSubs"

definition groupSubscription ::
    "(string, subscription) gomap \<Rightarrow> test_group \<Rightarrow> subscription option" where
  "groupSubscription manualSubs tg =
     (case get_gcs_config tg of
        None \<Rightarrow> manualGroupSubscription manualSubs tg
      | Some cfg \<Rightarrow>
          if gcsc_pubsub_project cfg = [] \<or> gcsc_pubsub_subscription cfg = [] then None
          else Some \<lparr>sub_proj = gcsc_pubsub_project cfg, sub_sub = gcsc_pubsub_subscription cfg\<rparr>)"

definition add_group_path ::
    "string \<Rightarrow> gcs_path \<Rightarrow> (gcs_path, string list) gomap \<Rightarrow> (gcs_path, string list) gomap" where
  "add_group_path name gp paths =
     AList.update gp ((case map_of paths gp of None \<Rightarrow> [] | Some ns \<Rightarrow> ns) @ [name]) paths"

text \<open>The set of the subscriptions is the list of its elements, in the order they come.\<close>

definition subscribe_group ::
    "(string \<Rightarrow> gcs_path go) \<Rightarrow> (string, subscription) gomap \<Rightarrow>
     (gcs_path, string list) gomap \<times> subscription list \<Rightarrow> test_group \<Rightarrow>
     ((gcs_path, string list) gomap \<times> subscription list) go" where
  "subscribe_group url_parse manualSubs st tg =
     (case st of (paths, subs) \<Rightarrow>
        case groupSubscription manualSubs tg of
          None \<Rightarrow> Inr (paths, subs)
        | Some sub \<Rightarrow>
            go_bind (groupPaths url_parse tg) (\<lambda>gps.
              Inr (fold (add_group_path (tg_name tg)) gps paths, if sub \<in> set subs then subs else subs @ [sub])))"

definition gcsSubscribedPaths ::
    "(string \<Rightarrow> gcs_path go) \<Rightarrow> (string, subscription) gomap \<Rightarrow> test_group list \<Rightarrow>
     ((gcs_path, string list) gomap \<times> subscription list) go" where
  "gcsSubscribedPaths url_parse manualSubs tgs = go_fold (subscribe_group url_parse manualSubs) ([], []) tgs"

record gcs_notice =
  gn_path :: gcs_path
  gn_time :: int

text \<open>\<open>path.Base\<close> of the standard library: the last element, without trailing slashes.\<close>

definition path_Base :: "string \<Rightarrow> string" where
  "path_Base p =
     (if p = [] then ''.''
      else let r = dropWhile (\<lambda>c. c = CHR ''/'') (rev p)
           in if r = [] then ''/'' else rev (takeWhile (\<lambda>c. c \<noteq> CHR ''/'') r))"

definition time_Second :: int where
  "time_Second = 1000000000"

definition namedDurations :: "(string, int) gomap" where
  "namedDurations =
     [(''podinfo.json'', 30 * time_Second), (''finished.json'', 5 * 60 * time_Second),
      (''metadata.json'', 5 * 60 * time_Second), (''started.json'', 30 * time_Second)]"

definition notice_delay :: "string \<Rightarrow> int option" where
  "notice_delay obj =
     (let base = path_Base obj in
      case map_of namedDurations base of
        Some d \<Rightarrow> Some d
      | None \<Rightarrow>
          if has_prefix base ''junit'' \<and> has_suffix base ''.xml'' then Some (5 * 60 * time_Second)
          else if has_suffix base ''.txt'' \<and> str_contains obj ''directory/'' then Some (5 * 60 * time_Second)
          else None)"

definition notice_groups :: "(gcs_path, string list) gomap \<Rightarrow> gcs_path \<Rightarrow> string list" where
  "notice_groups paths np =
     concat (map snd (filter (\<lambda>(p, groups).
       gp_bucket p = gp_bucket np \<and> has_prefix (path_object np) (path_object p)) paths))"

definition processNotification ::
    "(gcs_path, string list) gomap \<Rightarrow> gcs_notice \<Rightarrow> string list \<times> int" where
  "processNotification paths n =
     (case notice_delay (path_object (gn_path n)) of
        None \<Rightarrow> ([], 0)
      | Some dur \<Rightarrow>
          let out = notice_groups paths (gn_path n)
          in if out = [] then ([], 0) else (sort out, dur))"

definition same_times :: "int \<Rightarrow> string list \<Rightarrow> (string, int) gomap" where
  "same_times when groups = fold (\<lambda>g. AList.update g when) groups []"

text \<open>
  One turn of \<open>processGCSNotifications\<close>; \<open>now\<close> is the clock.  A name that is not in the queue ends
  the loop with an error.
\<close>

definition notice_step ::
    "(gcs_path, string list) gomap \<Rightarrow> work_queue \<Rightarrow> gcs_notice \<times> int \<Rightarrow> (string list \<times> work_queue) go" where
  "notice_step paths q nt =
     (case nt of (notice, now) \<Rightarrow>
      case processNotification paths notice of (groups, delay) \<Rightarrow>
        if groups = [] then Inr ([], q)
        else
          let when = gn_time notice + delay; when = (if when < now then now else when) in
          case groups of
            [name] \<Rightarrow>
              (case Fix name when False q of
                 (None, q') \<Rightarrow> Inr (groups, q') | (Some e, q') \<Rightarrow> Inl (Failed (''fix '' @ name @ '': '' @ e)))
          | _ \<Rightarrow>
              (case FixAll (same_times when groups) False q of
                 (None, q') \<Rightarrow> Inr (groups, q') | (Some e, q') \<Rightarrow> Inl (Failed ''fix all: not found'')))"

definition processGCSNotifications ::
    "(gcs_path, string list) gomap \<Rightarrow> (gcs_notice \<times> int) list \<Rightarrow> work_queue \<Rightarrow> work_queue go" where
  "processGCSNotifications paths notices q =
     go_fold (\<lambda>q nt. go_bind (notice_step paths q nt) (\<lambda>(groups, q'). Inr q')) q notices"


section \<open>The workers\<close>

text \<open>
  Every worker runs \<open>updateTestGroup\<close> for one group after the other.  Its atomic parts are those
  between the locks: looking whether the group is active, claiming it, and giving it up again.  In
  between it runs the \<open>GroupUpdater\<close>, whose result decides what happens to the queue.
\<close>

datatype worker = Idle | Claiming string | Updating string | Releasing string

record pool =
  pl_queue :: work_queue
  pl_groups :: "(string, test_group) gomap"
  pl_active :: "(string, bool) gomap"
  pl_workers :: "worker list"

definition is_active :: "(string, bool) gomap \<Rightarrow> string \<Rightarrow> bool" where
  "is_active active name = (map_of active name = Some True)"

text \<open>A group comes out of the channel: it is dropped when active, or when its path is no good.\<close>

definition receive_group :: "bool \<Rightarrow> string \<Rightarrow> pool \<Rightarrow> worker" where
  "receive_group path_ok name p =
     (if is_active (pl_active p) name then Idle else if \<not> path_ok then Idle else Claiming name)"

definition claim_group :: "nat \<Rightarrow> string \<Rightarrow> pool \<Rightarrow> pool" where
  "claim_group i name p =
     (if is_active (pl_active p) name then p\<lparr>pl_workers := (pl_workers p)[i := Idle]\<rparr>
      else p\<lparr>pl_active := AList.update name True (pl_active p), pl_workers := (pl_workers p)[i := Updating name]\<rparr>)"

text \<open>
  \<open>rand.Int63n\<close> of a quarter of the frequency, here \<open>random\<close>, panics when that is zero.
\<close>

definition retry_delay :: "int \<Rightarrow> int \<Rightarrow> int go" where
  "retry_delay freq random =
     (if freq div 4 \<le> 0 then Inl (Panic ''invalid argument to Int63n'') else Inr (freq div 4 + random))"

datatype update_result = UpdateError | Unprocessed bool

definition finish_group ::
    "int \<Rightarrow> int \<Rightarrow> int \<Rightarrow> update_result \<Rightarrow> nat \<Rightarrow> string \<Rightarrow> pool \<Rightarrow> pool go" where
  "finish_group freq random now result i name p =
     go_bind
       (case result of
          UpdateError \<Rightarrow>
            if 0 < freq then
              go_bind (retry_delay freq random) (\<lambda>delay. Inr (snd (Fix name (now + delay) True (pl_queue p))))
            else Inr (pl_queue p)
        | Unprocessed True \<Rightarrow> Inr (snd (Fix name now False (pl_queue p)))
        | Unprocessed False \<Rightarrow> Inr (pl_queue p))
       (\<lambda>q. Inr (p\<lparr>pl_queue := q, pl_workers := (pl_workers p)[i := Releasing name]\<rparr>))"

definition release_group :: "nat \<Rightarrow> string \<Rightarrow> pool \<Rightarrow> pool" where
  "release_group i name p =
     p\<lparr>pl_active := AList.update name False (pl_active p), pl_workers := (pl_workers p)[i := Idle]\<rparr>"

text \<open>
  The steps of the loop: a worker's next part, or an operation on the queue from elsewhere (a fixer
  or a new configuration).
\<close>

inductive pool_step :: "int \<Rightarrow> pool \<Rightarrow> pool \<Rightarrow> bool" for freq where
  pool_receive: "i < length (pl_workers p) \<Longrightarrow> pl_workers p ! i = Idle \<Longrightarrow>
    send_next freq now (pl_queue p) = (Some (name, at_time), q') \<Longrightarrow> map_of (pl_groups p) name = Some tg \<Longrightarrow>
    pool_step freq p (p\<lparr>pl_queue := q', pl_workers := (pl_workers p)[i := receive_group path_ok (tg_name tg) p]\<rparr>)"
| pool_skip: "send_next freq now (pl_queue p) = (Some (name, at_time), q') \<Longrightarrow> map_of (pl_groups p) name = None \<Longrightarrow>
    pool_step freq p (p\<lparr>pl_queue := q'\<rparr>)"
| pool_claim: "i < length (pl_workers p) \<Longrightarrow> pl_workers p ! i = Claiming name \<Longrightarrow>
    pool_step freq p (claim_group i name p)"
| pool_finish: "i < length (pl_workers p) \<Longrightarrow> pl_workers p ! i = Updating name \<Longrightarrow>
    finish_group freq random now result i name p = Inr p' \<Longrightarrow> pool_step freq p p'"
| pool_release: "i < length (pl_workers p) \<Longrightarrow> pl_workers p ! i = Releasing name \<Longrightarrow>
    pool_step freq p (release_group i name p)"
| pool_fixer: "Fix name t later (pl_queue p) = (err, q') \<Longrightarrow> pool_step freq p (p\<lparr>pl_queue := q'\<rparr>)"
| pool_fixers: "distinct (map fst whens) \<Longrightarrow> FixAll whens later (pl_queue p) = (err, q') \<Longrightarrow>
    pool_step freq p (p\<lparr>pl_queue := q'\<rparr>)"
| pool_config: "TestGroupQueue_Init tgs t \<lparr>tq_queue = pl_queue p, tq_groups = pl_groups p\<rparr> = Inr tq \<Longrightarrow>
    pool_step freq p (p\<lparr>pl_queue := tq_queue tq, pl_groups := tq_groups tq\<rparr>)"

definition start_pool :: "nat \<Rightarrow> pool" where
  "start_pool n = \<lparr>pl_queue = empty_queue, pl_groups = [], pl_active = [], pl_workers = replicate n Idle\<rparr>"

inductive pool_reach :: "int \<Rightarrow> nat \<Rightarrow> pool \<Rightarrow> bool" for freq n where
  pool_start: "pool_reach freq n (start_pool n)"
| pool_next: "pool_reach freq n p \<Longrightarrow> pool_step freq p p' \<Longrightarrow> pool_reach freq n p'"

section \<open>No group is updated twice at a time\<close>

definition working_on :: "string \<Rightarrow> worker \<Rightarrow> bool" where
  "working_on name w \<longleftrightarrow> w = Updating name \<or> w = Releasing name"

definition pool_ok :: "pool \<Rightarrow> bool" where
  "pool_ok p \<longleftrightarrow> queue_ok (pl_queue p) \<and> all_queued (pl_queue p) \<and>
     exclusive working_on (is_active (pl_active p)) (pl_workers p)"

interpretation updaters: worker_states working_on
  by unfold_locales (auto simp: working_on_def)

lemma working_on_simps [simp]:
  "\<not> working_on n Idle" "\<not> working_on n (Claiming m)" "working_on n (Updating m) \<longleftrightarrow> n = m" "working_on n (Releasing m) \<longleftrightarrow> n = m"
  by (auto simp: working_on_def)

lemma is_active_update [simp]: "is_active (AList.update m b active) = (is_active active)(m := b)"
  by (simp add: is_active_def update_conv fun_eq_iff)

text \<open>What the pool does to the queue are steps of the queue.\<close>

lemma queue_keeps:
  assumes "queue_step freq q q'" "freq \<noteq> 0" "queue_ok q \<and> all_queued q"
  shows "queue_ok q' \<and> all_queued q'"
  using queue_step_ok [OF assms(1,2)] assms(3) by blast

lemma finish_group_queue:
  assumes "finish_group freq random now result i name p = Inr p'"
  shows "(pl_queue p' = pl_queue p \<or> queue_step freq (pl_queue p) (pl_queue p')) \<and>
    pl_active p' = pl_active p \<and> pl_workers p' = (pl_workers p)[i := Releasing name]"
proof -
  have fix_step: "queue_step freq q (snd (Fix n t later q))" for n t later q
    by (rule step_Fix [of n t later q "fst (Fix n t later q)"]) simp
  from assms have "pl_queue p' = pl_queue p \<or> (\<exists>t later. pl_queue p' = snd (Fix name t later (pl_queue p)))"
    and p': "pl_active p' = pl_active p \<and> pl_workers p' = (pl_workers p)[i := Releasing name]"
    by (cases result; auto simp: finish_group_def go_bind_eq_Inr split: bool.splits if_splits)+
  then have "pl_queue p' = pl_queue p \<or> queue_step freq (pl_queue p) (pl_queue p')"
    using fix_step by metis
  with p' show ?thesis by simp
qed

lemma pool_step_ok:
  assumes "pool_step freq p p'" "freq \<noteq> 0" "pool_ok p"
  shows "pool_ok p'"
proof -
  let ?ws = "pl_workers p"
  have ws: "exclusive working_on (is_active (pl_active p)) ?ws" and q: "queue_ok (pl_queue p) \<and> all_queued (pl_queue p)"
    using assms(3) by (simp_all add: pool_ok_def)
  note keep = queue_keeps [OF _ assms(2) q]
  show ?thesis using assms(1)
  proof cases
    case (pool_receive i now name at_time q' tg path_ok)
    have "exclusive working_on (is_active (pl_active p)) (?ws[i := receive_group path_ok (tg_name tg) p])"
      by (rule updaters.keep [OF ws pool_receive(2)]) (simp add: pool_receive(3) receive_group_def)
    with keep [OF step_Send [OF pool_receive(4)]] pool_receive(1) show ?thesis by (simp add: pool_ok_def)
  next
    case (pool_skip now name at_time q')
    with keep [OF step_Send [OF pool_skip(2)]] ws show ?thesis by (simp add: pool_ok_def)
  next
    case (pool_claim i name)
    have none: "\<not> working_on n (?ws ! i)" for n using pool_claim(3) by simp
    from updaters.keep [OF ws pool_claim(2), of Idle] updaters.claim [OF ws pool_claim(2), of name "Updating name"]
      none q pool_claim(1) show ?thesis
      by (simp add: pool_ok_def claim_group_def)
  next
    case (pool_finish i name random now result)
    note fin = finish_group_queue [OF pool_finish(3)]
    have "exclusive working_on (is_active (pl_active p)) (?ws[i := Releasing name])"
      by (rule updaters.keep [OF ws pool_finish(1)]) (simp add: pool_finish(2))
    moreover have "queue_ok (pl_queue p') \<and> all_queued (pl_queue p')" using fin keep q by metis
    ultimately show ?thesis using fin by (simp add: pool_ok_def)
  next
    case (pool_release i name)
    have "exclusive working_on ((is_active (pl_active p))(name := False)) (?ws[i := Idle])"
      by (rule updaters.release [OF ws pool_release(2)]) (simp_all add: pool_release(3))
    with q pool_release(1) show ?thesis by (simp add: pool_ok_def release_group_def)
  next
    case (pool_fixer name t later err q')
    with keep [OF step_Fix [OF pool_fixer(2)]] ws show ?thesis by (simp add: pool_ok_def)
  next
    case (pool_fixers whens later err q')
    with keep [OF step_FixAll [OF pool_fixers(2,3)]] ws show ?thesis by (simp add: pool_ok_def)
  next
    case (pool_config tgs t tq)
    from pool_config(2) have "Init (map tg_name tgs) t (pl_queue p) = Inr (tq_queue tq)"
      by (auto simp: TestGroupQueue_Init_def split: sum.splits)
    from keep [OF step_Init [OF this]] ws pool_config(1) show ?thesis by (simp add: pool_ok_def)
  qed
qed

lemma pool_reach_ok:
  assumes "pool_reach freq n p" "freq \<noteq> 0"
  shows "pool_ok p"
  using assms
proof (induction rule: pool_reach.induct)
  case pool_start
  have "queue_ok empty_queue \<and> all_queued empty_queue"
    using queue_reach_ok [OF reach_empty assms(2)] .
  moreover have "exclusive working_on (\<lambda>name. False) (replicate n Idle)" by (rule updaters.start) simp
  moreover have "is_active [] = (\<lambda>name. False)" by (simp add: is_active_def fun_eq_iff)
  ultimately show ?case by (simp add: pool_ok_def start_pool_def)
next
  case (pool_next p p')
  then show ?case using pool_step_ok by blast
qed

text \<open>
  A failed group is due again after a quarter to a half of the frequency, a group with more to
  process at once.
\<close>

lemma finish_group_retry:
  assumes "finish_group freq random now result i name p = Inr p'" "queue_ok (pl_queue p)"
    "name \<in> set (wq_queue (pl_queue p))" "0 < freq" "0 \<le> random" "random < freq div 4"
  shows "when_of (pl_queue p') name =
    (case result of UpdateError \<Rightarrow> now + freq div 4 + random
     | Unprocessed True \<Rightarrow> min now (when_of (pl_queue p) name)
     | Unprocessed False \<Rightarrow> when_of (pl_queue p) name)"
proof -
  have fix_time: "when_of (snd (Fix name t later (pl_queue p))) name = fixed_time later t (when_of (pl_queue p) name)"
    for t later
    using Fix_spec [OF assms(2,3), of t later] by auto
  from assms(1,4-6) show ?thesis
    by (cases result) (auto simp: finish_group_def retry_delay_def fix_time fixed_time_def split: bool.splits if_splits)
qed

section \<open>What a notification does\<close>

lemma mset_concat_perm: "mset xs = mset ys \<Longrightarrow> mset (concat xs) = mset (concat ys)"
  by (metis mset_concat mset_map sum_mset_sum_list)

lemma notice_groups_perm:
  assumes "mset paths = mset paths'"
  shows "mset (notice_groups paths np) = mset (notice_groups paths' np)"
  unfolding notice_groups_def
  by (rule mset_concat_perm) (simp add: assms)

text \<open>The order in which the map of the paths is visited does not matter.\<close>

lemma processNotification_perm:
  assumes "mset paths = mset paths'"
  shows "processNotification paths n = processNotification paths' n"
proof -
  note perm = notice_groups_perm [OF assms, of "gn_path n"]
  then have "sort (notice_groups paths (gn_path n)) = sort (notice_groups paths' (gn_path n))"
    by (metis sorted_list_of_multiset_mset)
  moreover have "(notice_groups paths (gn_path n) = []) = (notice_groups paths' (gn_path n) = [])"
    using perm by (metis mset_zero_iff)
  ultimately show ?thesis by (simp add: processNotification_def Let_def split: option.split)
qed

lemma processNotification_groups:
  "set (fst (processNotification paths n)) =
     (if notice_delay (path_object (gn_path n)) = None then {}
      else \<Union> {set groups | p groups. (p, groups) \<in> set paths \<and> gp_bucket p = gp_bucket (gn_path n) \<and>
         has_prefix (path_object (gn_path n)) (path_object p)})"
proof -
  have "set (notice_groups paths (gn_path n)) =
      \<Union> {set groups | p groups. (p, groups) \<in> set paths \<and> gp_bucket p = gp_bucket (gn_path n) \<and>
         has_prefix (path_object (gn_path n)) (path_object p)}"
    by (auto simp: notice_groups_def) fastforce
  moreover have "set (fst (processNotification paths n)) =
      (if notice_delay (path_object (gn_path n)) = None then {} else set (notice_groups paths (gn_path n)))"
    by (auto simp: processNotification_def Let_def split: option.splits if_splits)
  ultimately show ?thesis by simp
qed

definition notice_time :: "gcs_notice \<Rightarrow> int \<Rightarrow> int" where
  "notice_time n now = max now (gn_time n + the (notice_delay (path_object (gn_path n))))"

lemma fold_update_keys:
  "distinct (map fst m) \<Longrightarrow> distinct (map fst (fold (\<lambda>g. AList.update g t) gs m)) \<and>
   map_of (fold (\<lambda>g. AList.update g t) gs m) k = (if k \<in> set gs then Some t else map_of m k) \<and>
   fst ` set (fold (\<lambda>g. AList.update g t) gs m) = fst ` set m \<union> set gs"
  by (induction gs arbitrary: m) (auto simp: distinct_update update_conv keys_update)

lemma FixAll_same_time:
  assumes "queue_ok q" "all_queued q"
  shows "\<exists>err q'. FixAll (same_times t gs) False q = (err, q') \<and>
    (err = None \<longleftrightarrow> set gs \<subseteq> names q) \<and> queue_ok q' \<and> all_queued q' \<and> names q' = names q \<and>
    (\<forall>n \<in> names q. when_of q' n = (if n \<in> set gs then min t (when_of q n) else when_of q n))"
proof -
  define whens where "whens = same_times t gs"
  have d: "distinct (map fst whens)" and k: "fst ` set whens = set gs"
    and m: "map_of whens n = (if n \<in> set gs then Some t else None)" for n
    using fold_update_keys [of "[]" t gs] by (simp_all add: whens_def same_times_def)
  have "indexed q" using assms(1) by (simp add: queue_ok_def)
  from FixAll_spec [OF this d, of False] obtain q' where
    q': "FixAll whens False q = (if filter (\<lambda>n. n \<notin> names q) (map fst whens) = [] then None
        else Some (filter (\<lambda>n. n \<notin> names q) (map fst whens)), q')"
      "queue_ok q'" "mset (wq_queue q') = mset (wq_queue q)" "names q' = names q"
      "\<forall>n. when_of q' n = (case map_of whens n of
        Some t \<Rightarrow> if n \<in> names q then fixed_time False t (when_of q n) else when_of q n
      | None \<Rightarrow> when_of q n)"
    by blast
  have "all_queued q'" using assms(2) mset_eq_setD [OF q'(3)] q'(4) by (simp add: all_queued_def)
  moreover have "(filter (\<lambda>n. n \<notin> names q) (map fst whens) = []) = (set gs \<subseteq> names q)"
    using k by (auto simp: filter_empty_conv)
  moreover have "when_of q' n = (if n \<in> set gs then min t (when_of q n) else when_of q n)" if "n \<in> names q" for n
    using q'(5) that by (simp add: m fixed_time_def)
  ultimately show ?thesis unfolding whens_def [symmetric] using q' by simp
qed

lemma Fix_same_time:
  assumes "queue_ok q" "all_queued q"
  shows "\<exists>err q'. Fix g t False q = (err, q') \<and> (err = None \<longleftrightarrow> g \<in> names q) \<and> queue_ok q' \<and> all_queued q' \<and>
    names q' = names q \<and> (\<forall>n \<in> names q. when_of q' n = (if n = g then min t (when_of q n) else when_of q n))"
proof (cases "g \<in> names q")
  case True
  with assms(2) have "g \<in> set (wq_queue q)" by (simp add: all_queued_def)
  from Fix_spec [OF assms(1) this, of t False] obtain q' where
    q': "Fix g t False q = (None, q')" "queue_ok q'" "mset (wq_queue q') = mset (wq_queue q)" "names q' = names q"
      "when_of q' = (when_of q)(g := fixed_time False t (when_of q g))" by blast
  have "all_queued q'" using assms(2) mset_eq_setD [OF q'(3)] q'(4) by (simp add: all_queued_def)
  with q' True show ?thesis by (simp add: fixed_time_def)
next
  case False
  with assms show ?thesis by (auto simp: Fix_def map_of_items)
qed

text \<open>
  A notification moves the groups it is about forward, to the time it allows and never to the past,
  and touches nothing else; it fails exactly when one of them is not in the queue.
\<close>

lemma notice_step_spec:
  assumes "queue_ok q" "all_queued q" and groups: "groups = fst (processNotification paths n)"
  shows "if set groups \<subseteq> names q then
      (\<exists>q'. notice_step paths q (n, now) = Inr (groups, q') \<and> queue_ok q' \<and> all_queued q' \<and> names q' = names q \<and>
        (\<forall>m \<in> names q. when_of q' m =
           (if m \<in> set groups then min (notice_time n now) (when_of q m) else when_of q m)))
    else (\<exists>e. notice_step paths q (n, now) = Inl e)"
proof (cases "groups = []")
  case True
  then show ?thesis using assms by (auto simp: notice_step_def split: prod.split)
next
  case False
  obtain gs d where p: "processNotification paths n = (gs, d)" by fastforce
  with False groups have gs: "gs = groups" "gs \<noteq> []" by simp_all
  with p have d: "notice_delay (path_object (gn_path n)) = Some d"
    by (auto simp: processNotification_def Let_def split: option.splits if_splits)
  let ?t = "notice_time n now"
  have t: "(if gn_time n + d < now then now else gn_time n + d) = ?t" by (simp add: notice_time_def d max_def)
  show ?thesis
  proof (cases "\<exists>g. gs = [g]")
    case True
    then obtain g where g: "gs = [g]" by blast
    from Fix_same_time [OF assms(1,2), of g ?t] obtain err q' where
      f: "Fix g ?t False q = (err, q')" "(err = None) = (g \<in> names q)" "queue_ok q'" "all_queued q'"
        "names q' = names q" "\<forall>n \<in> names q. when_of q' n = (if n = g then min ?t (when_of q n) else when_of q n)"
      by blast
    have "notice_step paths q (n, now) = (case err of None \<Rightarrow> Inr ([g], q')
        | Some e \<Rightarrow> Inl (Failed (''fix '' @ g @ '': '' @ e)))"
      using t f(1) by (simp add: notice_step_def p g Let_def)
    with f g gs show ?thesis by (cases err) auto
  next
    case multi: False
    from FixAll_same_time [OF assms(1,2), of ?t gs] obtain err q' where
      f: "FixAll (same_times ?t gs) False q = (err, q')" "(err = None) = (set gs \<subseteq> names q)"
        "queue_ok q'" "all_queued q'" "names q' = names q"
        "\<forall>n \<in> names q. when_of q' n = (if n \<in> set gs then min ?t (when_of q n) else when_of q n)"
      by blast
    obtain g g' gs' where "gs = g # g' # gs'" using multi gs(2) by (metis neq_Nil_conv)
    then have "notice_step paths q (n, now) = (case err of None \<Rightarrow> Inr (g # g' # gs', q')
        | Some e \<Rightarrow> Inl (Failed ''fix all: not found''))"
      using f(1) by (simp add: notice_step_def p Let_def t)
    with f gs \<open>gs = g # g' # gs'\<close> show ?thesis by (cases err) auto
  qed
qed

lemma processGCSNotifications_spec:
  "queue_ok q \<Longrightarrow> all_queued q \<Longrightarrow> processGCSNotifications paths notices q = Inr q' \<Longrightarrow>
   queue_ok q' \<and> all_queued q' \<and> names q' = names q \<and> (\<forall>n \<in> names q. when_of q' n \<le> when_of q n) \<and>
   (\<forall>(notice, now) \<in> set notices. \<forall>g \<in> set (fst (processNotification paths notice)).
      g \<in> names q \<and> when_of q' g \<le> notice_time notice now)"
proof (induction notices arbitrary: q)
  case Nil
  then show ?case by (simp add: processGCSNotifications_def)
next
  case (Cons nt notices)
  obtain n now where nt: "nt = (n, now)" by fastforce
  let ?gs = "fst (processNotification paths n)"
  note one = notice_step_spec [OF Cons.prems(1,2) refl, of paths n now]
  have sub: "set ?gs \<subseteq> names q"
  proof (rule ccontr)
    assume "\<not> set ?gs \<subseteq> names q"
    with one obtain e where "notice_step paths q (n, now) = Inl e" by auto
    with Cons.prems(3) nt show False by (simp add: processGCSNotifications_def)
  qed
  with one obtain q1 where q1: "notice_step paths q (n, now) = Inr (?gs, q1)" "queue_ok q1" "all_queued q1"
      "names q1 = names q"
      "\<forall>m \<in> names q. when_of q1 m = (if m \<in> set ?gs then min (notice_time n now) (when_of q m) else when_of q m)"
    by auto
  have "processGCSNotifications paths notices q1 = Inr q'"
    using Cons.prems(3) nt q1(1) by (simp add: processGCSNotifications_def)
  note rest = Cons.IH [OF q1(2,3) this]
  have le: "when_of q1 m \<le> when_of q m" "m \<in> set ?gs \<Longrightarrow> when_of q1 m \<le> notice_time n now" if "m \<in> names q" for m
    using q1(5) that by simp_all
  have "when_of q' m \<le> when_of q m" if "m \<in> names q" for m
  proof -
    have "when_of q' m \<le> when_of q1 m" using rest q1(4) that by simp
    with le(1) [OF that] show ?thesis by simp
  qed
  moreover have "g \<in> names q \<and> when_of q' g \<le> notice_time n now" if "g \<in> set ?gs" for g
  proof -
    have g: "g \<in> names q" using sub that by blast
    then have "when_of q' g \<le> when_of q1 g" using rest q1(4) by simp
    with le(2) [OF g that] g show ?thesis by simp
  qed
  ultimately show ?case using rest q1(4) by (auto simp: nt)
qed


section \<open>Which groups a notification finds\<close>

definition groups_at :: "(gcs_path, string list) gomap \<Rightarrow> gcs_path \<Rightarrow> string list" where
  "groups_at paths p = (case map_of paths p of None \<Rightarrow> [] | Some ns \<Rightarrow> ns)"

lemma groups_at_Nil [simp]: "groups_at [] p = []"
  by (simp add: groups_at_def)

lemma groups_at_add: "groups_at (add_group_path name gp paths) p =
    groups_at paths p @ (if p = gp then [name] else [])"
  by (simp add: groups_at_def add_group_path_def update_conv split: option.split)

lemma groups_at_adds:
  "set (groups_at (fold (add_group_path name) gps paths) p) =
     set (groups_at paths p) \<union> (if p \<in> set gps then {name} else {})"
  by (induction gps arbitrary: paths) (auto simp: groups_at_add)

lemma distinct_adds:
  "distinct (map fst paths) \<Longrightarrow> distinct (map fst (fold (add_group_path name) gps paths))"
  by (induction gps arbitrary: paths) (simp_all add: add_group_path_def distinct_update)

text \<open>The groups that subscribe to a path.\<close>

definition subscribes ::
    "(string \<Rightarrow> gcs_path go) \<Rightarrow> (string, subscription) gomap \<Rightarrow> test_group \<Rightarrow> gcs_path \<Rightarrow> bool" where
  "subscribes url_parse manualSubs tg p \<longleftrightarrow>
     groupSubscription manualSubs tg \<noteq> None \<and> (\<exists>gps. groupPaths url_parse tg = Inr gps \<and> p \<in> set gps)"

lemma subscribe_group_spec:
  assumes "subscribe_group url_parse ms (paths, subs) tg = Inr (paths', subs')"
  shows "(distinct (map fst paths) \<longrightarrow> distinct (map fst paths')) \<and>
    (distinct subs \<longrightarrow> distinct subs') \<and>
    set (groups_at paths' p) = set (groups_at paths p) \<union> (if subscribes url_parse ms tg p then {tg_name tg} else {}) \<and>
    set subs' = set subs \<union> set_option (groupSubscription ms tg)"
proof (cases "groupSubscription ms tg")
  case None
  with assms show ?thesis by (simp add: subscribe_group_def subscribes_def)
next
  case (Some sub)
  with assms obtain gps where gps: "groupPaths url_parse tg = Inr gps"
      "paths' = fold (add_group_path (tg_name tg)) gps paths"
      "subs' = (if sub \<in> set subs then subs else subs @ [sub])"
    by (auto simp: subscribe_group_def go_bind_eq_Inr)
  then have "subscribes url_parse ms tg p = (p \<in> set gps)" using Some by (simp add: subscribes_def)
  with gps Some show ?thesis by (auto simp: groups_at_adds distinct_adds)
qed

lemma gcsSubscribedPaths_fold:
  "go_fold (subscribe_group url_parse ms) (paths, subs) tgs = Inr (paths', subs') \<Longrightarrow>
   distinct (map fst paths) \<Longrightarrow> distinct subs \<Longrightarrow>
   distinct (map fst paths') \<and> distinct subs' \<and>
   set (groups_at paths' p) = set (groups_at paths p) \<union>
     {tg_name tg | tg. tg \<in> set tgs \<and> subscribes url_parse ms tg p} \<and>
   set subs' = set subs \<union> (\<Union>tg \<in> set tgs. set_option (groupSubscription ms tg))"
proof (induction tgs arbitrary: paths subs)
  case (Cons tg tgs)
  from Cons.prems(1) obtain paths1 subs1 where
    1: "subscribe_group url_parse ms (paths, subs) tg = Inr (paths1, subs1)"
    and 2: "go_fold (subscribe_group url_parse ms) (paths1, subs1) tgs = Inr (paths', subs')"
    by (auto simp: go_bind_eq_Inr)
  note s = subscribe_group_spec [OF 1, of p]
  from Cons.IH [OF 2] s Cons.prems(2,3) show ?case by auto
qed auto

lemma gcsSubscribedPaths_spec:
  assumes "gcsSubscribedPaths url_parse ms tgs = Inr (paths, subs)"
  shows "distinct (map fst paths)"
    "set (groups_at paths p) = {tg_name tg | tg. tg \<in> set tgs \<and> subscribes url_parse ms tg p}"
    "set subs = (\<Union>tg \<in> set tgs. set_option (groupSubscription ms tg))" "distinct subs"
  using gcsSubscribedPaths_fold [OF assms [unfolded gcsSubscribedPaths_def], of p] by simp_all

text \<open>
  A notification finds exactly the groups that subscribe to a path above the object, when the name of
  the object is one of those that matter.
\<close>

lemma notified_groups:
  assumes "gcsSubscribedPaths url_parse ms tgs = Inr (paths, subs)"
  shows "set (fst (processNotification paths n)) =
    (if notice_delay (path_object (gn_path n)) = None then {}
     else {tg_name tg | tg p. tg \<in> set tgs \<and> subscribes url_parse ms tg p \<and>
        gp_bucket p = gp_bucket (gn_path n) \<and> has_prefix (path_object (gn_path n)) (path_object p)})"
proof -
  note spec = gcsSubscribedPaths_spec [OF assms]
  have "(\<exists>gs. (p, gs) \<in> set paths \<and> g \<in> set gs) \<longleftrightarrow> g \<in> set (groups_at paths p)" for p g
    unfolding map_of_eq_Some_iff [OF spec(1), symmetric] groups_at_def by (cases "map_of paths p") auto
  then have key: "(\<exists>gs. (p, gs) \<in> set paths \<and> g \<in> set gs) \<longleftrightarrow>
      (\<exists>tg. g = tg_name tg \<and> tg \<in> set tgs \<and> subscribes url_parse ms tg p)" for p g
    by (simp add: spec(2))
  let ?B = "\<lambda>p. gp_bucket p = gp_bucket (gn_path n) \<and> has_prefix (path_object (gn_path n)) (path_object p)"
  have "\<Union> {set groups | p groups. (p, groups) \<in> set paths \<and> ?B p} =
      {g. \<exists>p. (\<exists>gs. (p, gs) \<in> set paths \<and> g \<in> set gs) \<and> ?B p}"
    by (rule set_eqI) (simp only: Union_iff mem_Collect_eq, blast)
  also have "\<dots> = {tg_name tg | tg p. tg \<in> set tgs \<and> subscribes url_parse ms tg p \<and> ?B p}"
    unfolding key by (rule set_eqI) (simp only: mem_Collect_eq, blast)
  finally show ?thesis unfolding processNotification_groups by simp
qed

section \<open>Times from the stored grids\<close>

definition stored_time :: "int \<Rightarrow> int \<Rightarrow> stat_attrs option \<Rightarrow> int option" where
  "stored_time freq now attr =
     (case attr of None \<Rightarrow> None
      | Some a \<Rightarrow> if 0 < at_generation a then Some (at_updated a + freq)
          else if at_generation a = 0 then Some now else None)"

lemma stored_times_spec:
  "length attrs = length tgs \<Longrightarrow> distinct (map tg_name tgs) \<Longrightarrow>
   tg_name ` set tgs \<inter> fst ` set updates = {} \<Longrightarrow> distinct (map fst updates) \<Longrightarrow>
   \<exists>u. stored_times freq now i attrs tgs updates created =
       (u, created @ map (\<lambda>(a, tg). tg_name tg)
              (filter (\<lambda>(a, tg). map_option at_generation a = Some 0) (zip attrs tgs))) \<and>
     distinct (map fst u) \<and>
     (\<forall>k < length tgs. map_of u (tg_name (tgs ! k)) = stored_time freq (now (i + k)) (attrs ! k)) \<and>
     (\<forall>n. n \<notin> tg_name ` set tgs \<longrightarrow> map_of u n = map_of updates n)"
proof (induction tgs arbitrary: attrs updates created i)
  case (Cons tg tgs)
  then obtain a as where attrs: "attrs = a # as" "length as = length tgs" by (cases attrs) auto
  define t where "t = stored_time freq (now i) a"
  define u1 where "u1 = (case t of None \<Rightarrow> updates | Some t \<Rightarrow> AList.update (tg_name tg) t updates)"
  define c1 where "c1 = (if map_option at_generation a = Some 0 then created @ [tg_name tg] else created)"
  have step: "stored_times freq now i attrs (tg # tgs) updates created = stored_times freq now (i + 1) as tgs u1 c1"
    by (auto simp: attrs t_def u1_def c1_def stored_time_def split: option.split)
  have u1: "distinct (map fst u1)" "fst ` set u1 \<subseteq> insert (tg_name tg) (fst ` set updates)"
      "map_of u1 n = (if n = tg_name tg then t else map_of updates n)" for n
    using Cons.prems(3,4) keys_map_of [of n updates]
    by (auto simp: u1_def distinct_update keys_update update_conv split: option.split)
  have new: "tg_name tg \<notin> tg_name ` set tgs" "distinct (map tg_name tgs)" using Cons.prems(2) by simp_all
  have "tg_name ` set tgs \<inter> insert (tg_name tg) (fst ` set updates) = {}" using new(1) Cons.prems(3) by simp
  with u1(2) have "tg_name ` set tgs \<inter> fst ` set u1 = {}" by (metis Int_mono order_refl subset_empty)
  from Cons.IH [OF attrs(2) new(2) this u1(1), of "i + 1" c1] obtain u where
    u: "stored_times freq now (i + 1) as tgs u1 c1 = (u, c1 @ map (\<lambda>(a, tg). tg_name tg)
          (filter (\<lambda>(a, tg). map_option at_generation a = Some 0) (zip as tgs)))"
      "distinct (map fst u)"
      "\<forall>k < length tgs. map_of u (tg_name (tgs ! k)) = stored_time freq (now (i + 1 + k)) (as ! k)"
      "\<forall>n. n \<notin> tg_name ` set tgs \<longrightarrow> map_of u n = map_of u1 n"
    by blast
  have "map_of u (tg_name ((tg # tgs) ! k)) = stored_time freq (now (i + k)) (attrs ! k)" if "k < length (tg # tgs)" for k
    using that u(3,4) new(1) by (cases k) (simp_all add: attrs u1(3) t_def)
  moreover have "map_of u n = map_of updates n" if "n \<notin> tg_name ` set (tg # tgs)" for n
    using that u(4) by (simp add: u1(3))
  moreover have "stored_times freq now i attrs (tg # tgs) updates created = (u, created @ map (\<lambda>(a, tg). tg_name tg)
      (filter (\<lambda>(a, tg). map_option at_generation a = Some 0) (zip attrs (tg # tgs))))"
    unfolding step u(1) by (simp add: attrs c1_def)
  ultimately show ?case using u(2) by (intro exI [of _ u] conjI) blast+
qed simp

text \<open>
  After \<open>fixOnce\<close> the queue has the groups, each due at the time its stored grid asks for unless it
  was due earlier: one frequency after the last update, or now when there is no grid.
\<close>

lemma fixOnce_spec:
  assumes "queue_ok (tq_queue q)" "all_queued (tq_queue q)" "distinct (map tg_name tgs)" "length ss = length tgs"
  shows "\<exists>created q'. fixOnce freq now now_init (Inr ss) tgs q = Inr (created, q') \<and>
    queue_ok (tq_queue q') \<and> all_queued (tq_queue q') \<and> names (tq_queue q') = tg_name ` set tgs \<and>
    (\<forall>k < length tgs. let n = tg_name (tgs ! k);
        due = (if n \<in> names (tq_queue q) then when_of (tq_queue q) n else now_init + freq) in
      when_of (tq_queue q') n = (case stored_time freq (now k) (StatExisting ss ! k) of
        None \<Rightarrow> due | Some t \<Rightarrow> min t due)) \<and>
    set created = {tg_name (tgs ! k) | k. k < length tgs \<and> map_option at_generation (StatExisting ss ! k) = Some 0}"
proof -
  let ?as = "StatExisting ss" and ?q = "tq_queue q"
  have len: "length ?as = length tgs" using assms(4) by (simp add: StatExisting_def)
  from stored_times_spec [OF len assms(3), of "[]" freq now 0 "[]"] obtain u created where
    u: "stored_times freq now 0 ?as tgs [] [] = (u, created)" "distinct (map fst u)"
      "\<forall>k < length tgs. map_of u (tg_name (tgs ! k)) = stored_time freq (now k) (?as ! k)"
    and created: "created = map (\<lambda>(a, tg). tg_name tg)
          (filter (\<lambda>(a, tg). map_option at_generation a = Some 0) (zip ?as tgs))"
    by auto
  from Init_spec [OF assms(1,2), of "map tg_name tgs" "now_init + freq"] obtain q1 where
    q1: "Init (map tg_name tgs) (now_init + freq) ?q = Inr q1" "queue_ok q1" "all_queued q1"
      "names q1 = tg_name ` set tgs"
      "\<forall>n \<in> tg_name ` set tgs. when_of q1 n = (if n \<in> names ?q then when_of ?q n else now_init + freq)"
    by auto
  have "indexed q1" using q1(2) by (simp add: queue_ok_def)
  from FixAll_spec [OF this u(2), of False] obtain err q2 where
    q2: "FixAll u False q1 = (err, q2)" "queue_ok q2" "mset (wq_queue q2) = mset (wq_queue q1)" "names q2 = names q1"
      "\<forall>n. when_of q2 n = (case map_of u n of
        Some t \<Rightarrow> if n \<in> names q1 then fixed_time False t (when_of q1 n) else when_of q1 n
      | None \<Rightarrow> when_of q1 n)"
    by blast
  have "all_queued q2" using q1(3) mset_eq_setD [OF q2(3)] q2(4) by (simp add: all_queued_def)
  moreover have "fixOnce freq now now_init (Inr ss) tgs q =
      Inr (created, \<lparr>tq_queue = q2, tq_groups = fold (\<lambda>tg. AList.update (tg_name tg) tg) tgs []\<rparr>)"
    by (simp add: fixOnce_def u(1) TestGroupQueue_Init_def q1(1) q2(1))
  moreover have "let n = tg_name (tgs ! k); due = (if n \<in> names ?q then when_of ?q n else now_init + freq) in
      when_of q2 n = (case stored_time freq (now k) (?as ! k) of None \<Rightarrow> due | Some t \<Rightarrow> min t due)"
    if "k < length tgs" for k
    using that u(3) q1(4,5) q2(5) by (simp add: fixed_time_def Let_def split: option.split)
  moreover have "set created = {tg_name (tgs ! k) | k. k < length tgs \<and> map_option at_generation (?as ! k) = Some 0}"
    using len by (auto simp: created in_set_zip image_iff) force+
  ultimately show ?thesis using q1(4) q2(2,4) by (intro exI conjI) (assumption, auto)
qed

section \<open>A new configuration\<close>

lemma testGroups_missing:
  assumes "name \<in> set ns" "map_of groups name = None"
  shows "\<exists>e. testGroups groups ns = Inl e"
  using assms(1)
proof (cases "testGroups groups ns")
  case (Inr tgs)
  from assms(1) obtain i where i: "i < length ns" "ns ! i = name" by (auto simp: in_set_conv_nth)
  have "ns \<noteq> []" using assms(1) by auto
  with Inr have "go_map (\<lambda>name. case map_of groups name of
      None \<Rightarrow> Inl (Failed (''group '' @ name @ '' not found'')) | Some tg \<Rightarrow> Inr tg) ns = Inr tgs"
    by (simp add: testGroups_def)
  from go_map_nth [OF this i(1)] i(2) assms(2) show ?thesis by simp
qed auto

text \<open>
  When a new configuration lacks one of the groups the updater was asked for, the queue loses all of
  its groups, those that are still there included.
\<close>

lemma config_update_missing:
  assumes "queue_ok (tq_queue q)" "all_queued (tq_queue q)" "name \<in> set ns" "map_of groups name = None"
  shows "\<exists>q'. config_update ns t groups q = Inr q' \<and> names (tq_queue q') = {} \<and> tq_groups q' = []"
proof -
  from testGroups_missing [OF assms(3,4)] obtain e where "testGroups groups ns = Inl e" by blast
  moreover from Init_spec [OF assms(1,2), of "[]" t] obtain q1 where
    "Init [] t (tq_queue q) = Inr q1" "names q1 = {}" by auto
  ultimately show ?thesis by (simp add: config_update_def TestGroupQueue_Init_def)
qed

end
