(* ===== verification/Summary_Loop.thy ===== *)
theory Summary_Loop
  imports Update_Loop Summarize
begin

text \<open>
  The update loops of the summarizer (\<open>Update\<close> of \<open>pkg/summarizer/summary.go\<close>,
  \<open>pkg/summarizer/pubsub.go\<close>) and of the tabulator (\<open>Update\<close> of \<open>pkg/tabulator/tabstate.go\<close>,
  \<open>pkg/tabulator/pubsub.go\<close>): setting the queue up for a configuration, notifications, and the
  workers.  A dashboard that comes out of the queue while it is being summarized waits, and is put
  back when its worker is done.
\<close>

section \<open>A configuration of the summarizer\<close>

record dash_stat =
  ds_updated :: "int option"
  ds_not_exist :: bool

text \<open>
  \<open>fixSnapshot\<close>: \<open>path_ok\<close> says whether \<open>SummaryPath\<close> returns a path for the dashboard (the code
  logs its error and dereferences the path all the same); \<open>stat\<close> is what storage answers for it.
  The result has the dashboards whose first summary is created.
\<close>

definition snapshot_time :: "int \<Rightarrow> int \<Rightarrow> dash_stat \<Rightarrow> int" where
  "snapshot_time freq now st = (case ds_updated st of Some u \<Rightarrow> u + freq | None \<Rightarrow> now)"

definition fixSnapshot ::
    "(string \<Rightarrow> bool) \<Rightarrow> (string \<Rightarrow> dash_stat) \<Rightarrow> int \<Rightarrow> int \<Rightarrow> string list \<Rightarrow> (string, dashboard) gomap \<Rightarrow>
     dashboard_queue \<Rightarrow> (string list \<times> dashboard_queue) go" where
  "fixSnapshot path_ok stat freq now allowed dashboards q =
     (let ds = map snd (filterDashboards dashboards allowed) in
      if \<exists>d \<in> set ds. \<not> path_ok (dash_name d) then Inl (Panic ''nil pointer dereference'')
      else
        let whens = fold (\<lambda>d. AList.update (dash_name d) (snapshot_time freq now (stat (dash_name d)))) ds [];
            created = map dash_name (filter (\<lambda>d. ds_updated (stat (dash_name d)) = None \<and>
                        ds_not_exist (stat (dash_name d))) ds)
        in go_bind (DashboardQueue_Init ds (now + freq) q)
             (\<lambda>q'. Inr (created, q'\<lparr>dq_queue := snd (FixAll whens False (dq_queue q'))\<rparr>)))"

section \<open>Notifications\<close>

text \<open>\<open>path.Split\<close> of the standard library: the path up to its last slash, and the rest.\<close>

definition path_Split :: "string \<Rightarrow> string \<times> string" where
  "path_Split p =
     (let base = rev (takeWhile (\<lambda>c. c \<noteq> CHR ''/'') (rev p))
      in (take (length p - length base) p, base))"

definition summary_notice :: "gcs_path \<Rightarrow> bool \<Rightarrow> gcs_notice \<Rightarrow> string option" where
  "summary_notice gridPrefix wantDashboard n =
     (if gp_bucket gridPrefix \<noteq> gp_bucket (gn_path n) then None
      else case path_Split (path_object (gn_path n)) of (dir, base) \<Rightarrow>
        case (if wantDashboard \<and> 0 < length dir then path_Split (butlast dir) else (dir, base)) of (dir, base) \<Rightarrow>
          if dir \<noteq> path_object gridPrefix then None else Some base)"

definition summary_notice_step ::
    "gcs_path \<Rightarrow> bool \<Rightarrow> gcs_notice \<Rightarrow> dashboard_queue \<Rightarrow> dashboard_queue go" where
  "summary_notice_step gridPrefix findDashboard n q =
     (case summary_notice gridPrefix findDashboard n of
        None \<Rightarrow> Inr q
      | Some g \<Rightarrow>
          (case FixTestGroups (gn_time n + 5 * time_Second) False [g] q of
             (None, q') \<Rightarrow> Inr q' | (Some e, q') \<Rightarrow> Inl (Failed ''not found'')))"

definition summary_notices ::
    "gcs_path \<Rightarrow> bool \<Rightarrow> gcs_notice list \<Rightarrow> dashboard_queue \<Rightarrow> dashboard_queue go" where
  "summary_notices gridPrefix findDashboard ns q =
     go_fold (\<lambda>q n. summary_notice_step gridPrefix findDashboard n q) q ns"

definition tabulator_notice :: "gcs_path \<Rightarrow> gcs_notice \<Rightarrow> string option" where
  "tabulator_notice gridPrefix n =
     (if gp_bucket gridPrefix \<noteq> gp_bucket (gn_path n) then None
      else case path_Split (path_object (gn_path n)) of (dir, base) \<Rightarrow>
        if dir \<noteq> path_object gridPrefix then None else Some base)"

definition tabulator_notice_step :: "gcs_path \<Rightarrow> gcs_notice \<Rightarrow> work_queue \<Rightarrow> work_queue go" where
  "tabulator_notice_step gridPrefix n q =
     (case tabulator_notice gridPrefix n of
        None \<Rightarrow> Inr q
      | Some g \<Rightarrow>
          (case Fix g (gn_time n + 5 * time_Second) False q of
             (None, q') \<Rightarrow> Inr q' | (Some e, q') \<Rightarrow> Inl (Failed e)))"

section \<open>The queue of the tabulator\<close>

text \<open>The groups of a configuration: those that are asked for and exist, or all of them.\<close>

definition tabulator_groups :: "string list \<Rightarrow> (string, test_group) gomap \<Rightarrow> test_group list" where
  "tabulator_groups allowed groups =
     (if allowed \<noteq> [] then List.map_filter (map_of groups) allowed else map snd groups)"

definition tabulator_snapshot ::
    "string list \<Rightarrow> int \<Rightarrow> (string, test_group) gomap \<Rightarrow> test_group_queue \<Rightarrow> test_group_queue go" where
  "tabulator_snapshot allowed now groups q = TestGroupQueue_Init (tabulator_groups allowed groups) now q"

text \<open>A reader that fails puts its group back after a tenth of the frequency.\<close>

definition tabulator_retry :: "int \<Rightarrow> int \<Rightarrow> string \<Rightarrow> work_queue \<Rightarrow> work_queue" where
  "tabulator_retry freq now name q = snd (Fix name (now + freq div 10) False q)"

section \<open>The workers of the summarizer\<close>

datatype summary_worker = Free | Summarizing string | Ending string | Restarting string

datatype summary_result = SummaryError | SummaryMore bool

record summary_pool =
  sp_queue :: work_queue
  sp_active :: "string set"
  sp_waiting :: "string set"
  sp_workers :: "summary_worker list"

text \<open>A name comes out of the channel: \<open>Add\<close> says whether the set of active names did not have it.\<close>

definition take_dashboard :: "nat \<Rightarrow> string \<Rightarrow> summary_pool \<Rightarrow> summary_pool" where
  "take_dashboard i name p =
     (if name \<in> sp_active p then p\<lparr>sp_waiting := insert name (sp_waiting p)\<rparr>
      else p\<lparr>sp_active := insert name (sp_active p), sp_workers := (sp_workers p)[i := Summarizing name]\<rparr>)"

definition summarized :: "int \<Rightarrow> int \<Rightarrow> summary_result \<Rightarrow> nat \<Rightarrow> string \<Rightarrow> summary_pool \<Rightarrow> summary_pool" where
  "summarized freq now result i name p =
     (let q = (case result of
            SummaryError \<Rightarrow> snd (Fix name (now + freq div 2) False (sp_queue p))
          | SummaryMore more_work \<Rightarrow> if more_work then snd (Fix name now False (sp_queue p)) else sp_queue p)
      in p\<lparr>sp_queue := q, sp_workers := (sp_workers p)[i := Ending name]\<rparr>)"

definition leave_dashboard :: "nat \<Rightarrow> string \<Rightarrow> summary_pool \<Rightarrow> summary_pool" where
  "leave_dashboard i name p =
     p\<lparr>sp_active := sp_active p - {name}, sp_waiting := sp_waiting p - {name},
       sp_workers := (sp_workers p)[i := (if name \<in> sp_waiting p then Restarting name else Free)]\<rparr>"

definition restart_dashboard :: "int \<Rightarrow> nat \<Rightarrow> string \<Rightarrow> summary_pool \<Rightarrow> summary_pool" where
  "restart_dashboard now i name p =
     p\<lparr>sp_queue := snd (Fix name now False (sp_queue p)), sp_workers := (sp_workers p)[i := Free]\<rparr>"

datatype summary_event = Taken string | Requeued string int | Internal

inductive summary_step :: "int \<Rightarrow> summary_event \<Rightarrow> summary_pool \<Rightarrow> summary_pool \<Rightarrow> bool" for freq where
  sum_take: "i < length (sp_workers p) \<Longrightarrow> sp_workers p ! i = Free \<Longrightarrow>
    send_next freq now (sp_queue p) = (Some (name, at_time), q') \<Longrightarrow>
    summary_step freq (Taken name) p (take_dashboard i name (p\<lparr>sp_queue := q'\<rparr>))"
| sum_done: "i < length (sp_workers p) \<Longrightarrow> sp_workers p ! i = Summarizing name \<Longrightarrow>
    summary_step freq Internal p (summarized freq now result i name p)"
| sum_leave: "i < length (sp_workers p) \<Longrightarrow> sp_workers p ! i = Ending name \<Longrightarrow>
    summary_step freq Internal p (leave_dashboard i name p)"
| sum_restart: "i < length (sp_workers p) \<Longrightarrow> sp_workers p ! i = Restarting name \<Longrightarrow>
    summary_step freq (Requeued name now) p (restart_dashboard now i name p)"
| sum_queue: "queue_step freq (sp_queue p) q' \<Longrightarrow> summary_step freq Internal p (p\<lparr>sp_queue := q'\<rparr>)"

definition start_summary_pool :: "nat \<Rightarrow> summary_pool" where
  "start_summary_pool n =
     \<lparr>sp_queue = empty_queue, sp_active = {}, sp_waiting = {}, sp_workers = replicate n Free\<rparr>"

inductive summary_reach :: "int \<Rightarrow> nat \<Rightarrow> summary_pool \<Rightarrow> bool" for freq n where
  summary_start: "summary_reach freq n (start_summary_pool n)"
| summary_next: "summary_reach freq n p \<Longrightarrow> summary_step freq ev p p' \<Longrightarrow> summary_reach freq n p'"

section \<open>One summary at a time, and no request is lost\<close>

definition summarizes :: "string \<Rightarrow> summary_worker \<Rightarrow> bool" where
  "summarizes name w \<longleftrightarrow> w = Summarizing name \<or> w = Ending name"

interpretation summarizers: worker_states summarizes
  by unfold_locales (auto simp: summarizes_def)

lemma summarizes_simps [simp]:
  "\<not> summarizes n Free" "\<not> summarizes n (Restarting m)"
  "summarizes n (Summarizing m) \<longleftrightarrow> n = m" "summarizes n (Ending m) \<longleftrightarrow> n = m"
  by (auto simp: summarizes_def)

definition summary_pool_ok :: "summary_pool \<Rightarrow> bool" where
  "summary_pool_ok p \<longleftrightarrow> queue_ok (sp_queue p) \<and> all_queued (sp_queue p) \<and>
     exclusive summarizes (\<lambda>n. n \<in> sp_active p) (sp_workers p) \<and> sp_waiting p \<subseteq> sp_active p"

lemma fix_queue_step: "queue_step freq q (snd (Fix n t later q))"
  by (rule step_Fix [of n t later q "fst (Fix n t later q)"]) simp

lemma member_upd:
  "(\<lambda>n. n \<in> insert m S) = (\<lambda>n. n \<in> S)(m := True)" "(\<lambda>n. n \<in> S - {m}) = (\<lambda>n. n \<in> S)(m := False)"
  by (auto simp: fun_eq_iff)

lemma summary_step_ok:
  assumes "summary_step freq ev p p'" "freq \<noteq> 0" "summary_pool_ok p"
  shows "summary_pool_ok p'"
proof -
  let ?ws = "sp_workers p" and ?act = "\<lambda>n. n \<in> sp_active p"
  have ws: "exclusive summarizes ?act ?ws" and q: "queue_ok (sp_queue p) \<and> all_queued (sp_queue p)"
    and sub: "sp_waiting p \<subseteq> sp_active p"
    using assms(3) by (simp_all add: summary_pool_ok_def)
  note keep = queue_keeps [OF _ assms(2) q]
  show ?thesis using assms(1)
  proof cases
    case (sum_take i now name at_time q')
    note q' = keep [OF step_Send [OF sum_take(5)]]
    have none: "\<not> summarizes n (?ws ! i)" for n using sum_take(4) by simp
    show ?thesis
    proof (cases "name \<in> sp_active p")
      case True
      with sum_take(2) q' ws sub show ?thesis by (simp add: take_dashboard_def summary_pool_ok_def)
    next
      case False
      have "exclusive summarizes (?act(name := True)) (?ws[i := Summarizing name])"
        by (rule summarizers.claim [OF ws sum_take(3) none]) (simp_all add: False)
      with sum_take(2) q' sub False show ?thesis
        by (auto simp: take_dashboard_def summary_pool_ok_def member_upd simp del: insert_iff)
    qed
  next
    case (sum_done i name now result)
    have w: "exclusive summarizes ?act (?ws[i := Ending name])"
      by (rule summarizers.keep [OF ws sum_done(3)]) (simp add: sum_done(4))
    have "queue_ok (sp_queue p') \<and> all_queued (sp_queue p')"
      using keep [OF fix_queue_step] q sum_done(2) by (simp add: summarized_def Let_def split: summary_result.split)
    with w sub sum_done(2) show ?thesis by (simp add: summarized_def summary_pool_ok_def Let_def)
  next
    case (sum_leave i name)
    have "exclusive summarizes (?act(name := False)) (?ws[i := (if name \<in> sp_waiting p then Restarting name else Free)])"
      by (rule summarizers.release [OF ws sum_leave(3)]) (simp_all add: sum_leave(4))
    moreover have "?act(name := False) = (\<lambda>n. n \<in> sp_active p \<and> n \<noteq> name)" by (auto simp: fun_eq_iff)
    ultimately have "exclusive summarizes (\<lambda>n. n \<in> sp_active p \<and> n \<noteq> name)
        (?ws[i := (if name \<in> sp_waiting p then Restarting name else Free)])" by simp
    with q sub sum_leave(2) show ?thesis by (auto simp: summary_pool_ok_def leave_dashboard_def)
  next
    case (sum_restart i name now)
    have "exclusive summarizes ?act (?ws[i := Free])"
      by (rule summarizers.keep [OF ws sum_restart(3)]) (simp add: sum_restart(4))
    with keep [OF fix_queue_step] sub sum_restart(2) show ?thesis
      by (simp add: restart_dashboard_def summary_pool_ok_def)
  next
    case (sum_queue q')
    with keep ws sub show ?thesis by (simp add: summary_pool_ok_def)
  qed
qed

lemma summary_reach_ok:
  assumes "summary_reach freq n p" "freq \<noteq> 0"
  shows "summary_pool_ok p"
  using assms
proof (induction rule: summary_reach.induct)
  case summary_start
  have "queue_ok empty_queue \<and> all_queued empty_queue"
    using queue_reach_ok [OF reach_empty assms(2)] .
  moreover have "exclusive summarizes (\<lambda>n. False) (replicate n Free)" by (rule summarizers.start) simp
  ultimately show ?case by (simp add: summary_pool_ok_def start_summary_pool_def)
next
  case (summary_next p ev p')
  then show ?case using summary_step_ok by blast
qed

text \<open>
  A name that came out of the queue while its summary was being made: it waits, or a worker is about
  to put it back.
\<close>

definition pending :: "summary_pool \<Rightarrow> string \<Rightarrow> bool" where
  "pending p name \<longleftrightarrow> name \<in> sp_waiting p \<or> Restarting name \<in> set (sp_workers p)"

lemma taken_pending:
  assumes "summary_step freq (Taken name) p p'" "name \<in> sp_active p"
  shows "pending p' name"
  using assms by cases (simp add: take_dashboard_def pending_def)

lemma set_update_other: "w \<in> set ws \<Longrightarrow> ws ! i \<noteq> w \<Longrightarrow> w \<in> set (ws[i := w'])"
  by (metis in_set_conv_nth length_list_update nth_list_update_neq)

lemma restarting_kept:
  assumes "summary_step freq ev p p'" "Restarting name \<in> set (sp_workers p)" "\<not> (\<exists>now. ev = Requeued name now)"
  shows "Restarting name \<in> set (sp_workers p')"
  using assms
  by cases (auto simp: take_dashboard_def summarized_def leave_dashboard_def restart_dashboard_def Let_def
      intro: set_update_other)

lemma waiting_kept:
  assumes "summary_step freq ev p p'" "name \<in> sp_waiting p"
  shows "pending p' name"
  using assms
  by cases (auto simp: pending_def take_dashboard_def summarized_def leave_dashboard_def restart_dashboard_def
      Let_def set_update_memI)

text \<open>It stays so until it is put back, and then it is due at once.\<close>

lemma pending_until_requeued:
  assumes "summary_step freq ev p p'" "pending p name" "summary_pool_ok p" "name \<in> names (sp_queue p)"
  shows "pending p' name \<or> (\<exists>now. ev = Requeued name now \<and> when_of (sp_queue p') name \<le> now)"
proof (cases "name \<in> sp_waiting p")
  case True
  with waiting_kept [OF assms(1)] show ?thesis by blast
next
  case False
  then have r: "Restarting name \<in> set (sp_workers p)" using assms(2) by (simp add: pending_def)
  show ?thesis
  proof (cases "\<exists>now. ev = Requeued name now")
    case True
    then obtain now where ev: "ev = Requeued name now" by blast
    have q: "queue_ok (sp_queue p)" "all_queued (sp_queue p)" using assms(3) by (simp_all add: summary_pool_ok_def)
    from Fix_same_time [OF q, of name now] assms(4) have "when_of (snd (Fix name now False (sp_queue p))) name \<le> now"
      by auto
    moreover from assms(1) ev have "sp_queue p' = snd (Fix name now False (sp_queue p))"
      by cases (simp_all add: restart_dashboard_def)
    ultimately show ?thesis using ev by simp
  next
    case other: False
    from restarting_kept [OF assms(1) r other] show ?thesis by (simp add: pending_def)
  qed
qed

section \<open>What a configuration and a notification do to the queue\<close>

lemma fold_update_map:
  "distinct (map f ds) \<Longrightarrow> distinct (map fst m) \<Longrightarrow> f ` set ds \<inter> fst ` set m = {} \<Longrightarrow>
   distinct (map fst (fold (\<lambda>d. AList.update (f d) (g d)) ds m)) \<and>
   (\<forall>d \<in> set ds. map_of (fold (\<lambda>d. AList.update (f d) (g d)) ds m) (f d) = Some (g d)) \<and>
   (\<forall>k. k \<notin> f ` set ds \<longrightarrow> map_of (fold (\<lambda>d. AList.update (f d) (g d)) ds m) k = map_of m k)"
proof (induction ds arbitrary: m)
  case (Cons d ds)
  let ?m = "AList.update (f d) (g d) m"
  have "f ` set ds \<inter> fst ` set ?m = {}" using Cons.prems(1,3) by (auto simp: keys_update)
  from Cons.IH [OF _ distinct_update [OF Cons.prems(2)] this] Cons.prems(1) show ?case
    by (auto simp: update_conv)
qed simp

lemma fixSnapshot_spec:
  assumes "queue_ok (dq_queue q)" "all_queued (dq_queue q)"
    and ds: "ds = map snd (filterDashboards dashboards allowed)" "distinct (map dash_name ds)"
    and paths: "\<forall>d \<in> set ds. path_ok (dash_name d)"
  shows "\<exists>created q'. fixSnapshot path_ok stat freq now allowed dashboards q = Inr (created, q') \<and>
    dashboard_queue_ok ds q' \<and>
    (\<forall>d \<in> set ds. let n = dash_name d;
        due = (if n \<in> names (dq_queue q) then when_of (dq_queue q) n else now + freq) in
      when_of (dq_queue q') n = min (snapshot_time freq now (stat n)) due)"
proof -
  let ?due = "\<lambda>n. if n \<in> names (dq_queue q) then when_of (dq_queue q) n else now + freq"
  let ?time = "\<lambda>d. snapshot_time freq now (stat (dash_name d))"
  define whens where "whens = fold (\<lambda>d. AList.update (dash_name d) (?time d)) ds []"
  have w: "distinct (map fst whens)" "\<forall>d \<in> set ds. map_of whens (dash_name d) = Some (?time d)"
    using fold_update_map [of dash_name ds "[]" ?time] ds(2) by (simp_all add: whens_def)
  from Init_spec [OF assms(1,2), of "map dash_name ds" "now + freq"] obtain q1 where
    q1: "Init (map dash_name ds) (now + freq) (dq_queue q) = Inr q1" "queue_ok q1" "all_queued q1"
      "names q1 = dash_name ` set ds" "\<forall>n \<in> dash_name ` set ds. when_of q1 n = ?due n"
    by auto
  have "indexed q1" using q1(2) by (simp add: queue_ok_def)
  from FixAll_spec [OF this w(1), of False] obtain err q2 where
    q2: "FixAll whens False q1 = (err, q2)" "queue_ok q2" "mset (wq_queue q2) = mset (wq_queue q1)" "names q2 = names q1"
      "\<forall>n. when_of q2 n = (case map_of whens n of
        Some t \<Rightarrow> if n \<in> names q1 then fixed_time False t (when_of q1 n) else when_of q1 n
      | None \<Rightarrow> when_of q1 n)"
    by blast
  let ?q' = "\<lparr>dq_queue = q2, dq_dashboards = [], dq_groups = fold index_dashboard ds []\<rparr>"
  have "all_queued q2" using q1(3) mset_eq_setD [OF q2(3)] q2(4) by (simp add: all_queued_def)
  then have ok: "dashboard_queue_ok ds ?q'"
    using q1(4) q2(2,4) shown_in_indexed [of ds "[]"] by (simp add: dashboard_queue_ok_def shown_in_def)
  have times: "let n = dash_name d in when_of q2 n = min (snapshot_time freq now (stat n)) (?due n)" if "d \<in> set ds" for d
    using that w(2) q1(4,5) q2(5) by (simp add: fixed_time_def Let_def)
  have "\<exists>created. fixSnapshot path_ok stat freq now allowed dashboards q = Inr (created, ?q')"
    using paths by (simp add: fixSnapshot_def ds(1) [symmetric] whens_def [symmetric] DashboardQueue_Init_def q1(1) q2(1))
  then show ?thesis using ok times by (auto simp: Let_def)
qed

text \<open>The error of \<open>SummaryPath\<close> is logged, and then its nil result dereferenced.\<close>

lemma fixSnapshot_bad_path:
  assumes "d \<in> snd ` set (filterDashboards dashboards allowed)" "\<not> path_ok (dash_name d)"
  shows "fixSnapshot path_ok stat freq now allowed dashboards q = Inl (Panic ''nil pointer dereference'')"
  using assms by (auto simp: fixSnapshot_def Let_def)

lemma path_Split_append:
  assumes "CHR ''/'' \<notin> set base"
  shows "path_Split (dir @ ''/'' @ base) = (dir @ ''/'', base)"
proof -
  have "takeWhile (\<lambda>c. c \<noteq> CHR ''/'') (rev base @ CHR ''/'' # rev dir) = rev base"
    using assms by (subst takeWhile_append2) auto
  then show ?thesis by (simp add: path_Split_def Let_def)
qed

text \<open>
  With the prefix of the tab states, the object of a notification is that of a tab, and the name that
  is found is the one of its dashboard.
\<close>

lemma summary_notice_tab:
  assumes "gp_bucket gridPrefix = gp_bucket (gn_path n)"
    "path_object gridPrefix = dir @ ''/''" "path_object (gn_path n) = dir @ ''/'' @ dash @ ''/'' @ tab"
    "CHR ''/'' \<notin> set dash" "CHR ''/'' \<notin> set tab"
  shows "summary_notice gridPrefix True n = Some dash"
proof -
  have "path_Split (path_object (gn_path n)) = (dir @ ''/'' @ dash @ ''/'', tab)"
    using path_Split_append [OF assms(5), of "dir @ ''/'' @ dash"] by (simp add: assms(3))
  then show ?thesis
    using assms(1,2) path_Split_append [OF assms(4), of dir] by (simp add: summary_notice_def butlast_append)
qed

text \<open>
  The name is then looked up among the test groups.  So the notification moves nothing, unless a test
  group happens to have the name of the dashboard.
\<close>

lemma summary_notice_lost:
  assumes "dashboard_queue_ok ds q" "summary_notice gridPrefix True n = Some dash"
    "\<forall>d \<in> set ds. \<forall>t \<in> set (dash_tabs d). tab_test_group_name t \<noteq> dash"
  shows "\<exists>q'. summary_notice_step gridPrefix True n q = Inr q' \<and> dashboard_queue_ok ds q' \<and>
    (\<forall>m. when_of (dq_queue q') m = when_of (dq_queue q) m)"
proof -
  have none: "showing ds dash = {}" using assms(3) by (auto simp: showing_def)
  let ?t = "gn_time n + 5 * time_Second"
  from FixTestGroups_spec [OF assms(1), of ?t False "[dash]"] obtain q' where
    "FixTestGroups ?t False [dash] q = (None, q')" "dashboard_queue_ok ds q'"
    "\<forall>m. when_of (dq_queue q') m = when_of (dq_queue q) m"
    using none by auto
  then show ?thesis using assms(2) by (simp add: summary_notice_step_def)
qed

text \<open>A notification about a test group brings its dashboards forward.\<close>

lemma summary_notice_group:
  assumes "dashboard_queue_ok ds q" "summary_notice gridPrefix findDashboard n = Some g"
  shows "\<exists>q'. summary_notice_step gridPrefix findDashboard n q = Inr q' \<and> dashboard_queue_ok ds q' \<and>
    (\<forall>m \<in> showing ds g. when_of (dq_queue q') m = min (gn_time n + 5 * time_Second) (when_of (dq_queue q) m))"
proof -
  let ?t = "gn_time n + 5 * time_Second"
  from FixTestGroups_spec [OF assms(1), of ?t False "[g]"] obtain q' where
    "FixTestGroups ?t False [g] q = (None, q')" "dashboard_queue_ok ds q'"
    "\<forall>m \<in> showing ds g. when_of (dq_queue q') m = min ?t (when_of (dq_queue q) m)"
    by (auto simp: fixed_time_def)
  then show ?thesis using assms(2) by (simp add: summary_notice_step_def)
qed

end
