(* ===== verification/Pipeline.thy ===== *)
theory Pipeline
  imports Tabulate Summarize
begin

text \<open>
  The programs one after the other: the updater writes the grid of a test group, the tabulator
  filters it into the grid of a tab, and the summarizer reads that.  Each relies on what the one
  before it promises: a grid whose rows have different names, whole run-length pairs and a message
  for every result (\<open>rows_ok\<close>), and that shows the cells of the columns it was made of.
\<close>

lemma shows_cells_rows_ok: "shows_cells cols g \<Longrightarrow> rows_ok g"
  by (simp add: shows_cells_def rows_ok_def messages_ok_def inflatable_def)

lemma shows_cells_status:
  assumes "shows_cells cols g" "r \<in> set (grid_rows g)" "i < length cols"
  shows "result_at i (row_statuses r) = c_result (cell_of (cols ! i) (row_name r))"
proof -
  have "same_cell (cell_at r i) (stored (row_name r) (row_id r) (cell_of (cols ! i) (row_name r)))"
    and "length (row_statuses r) = length cols"
    using assms unfolding shows_cells_def by blast+
  from same_cell_result [OF this(1)] this(2) assms(3) show ?thesis
    by (simp add: cell_at_result stored_result result_at_def)
qed

text \<open>A column all of whose cells pass, with at least one that does.\<close>

definition green_cells :: "inflated_column \<Rightarrow> bool" where
  "green_cells col \<longleftrightarrow>
     (\<forall>(n, c) \<in> set (ic_cells col). Coalesce (c_result c) False \<in> {PASS, NO_RESULT}) \<and>
     (\<exists>(n, c) \<in> set (ic_cells col). Coalesce (c_result c) False = PASS)"

lemma Coalesce_NO_RESULT: "Coalesce NO_RESULT False = NO_RESULT"
  by code_simp

lemma green_cells_cell_of:
  assumes "cells_ok col"
  shows "green_cells col \<longleftrightarrow> (\<forall>n. Coalesce (c_result (cell_of col n)) False \<in> {PASS, NO_RESULT}) \<and>
    (\<exists>n. Coalesce (c_result (cell_of col n)) False = PASS)"
proof -
  have member: "(\<exists>n. P (cell_of col n)) \<longleftrightarrow> (\<exists>(n, c) \<in> set (ic_cells col). P c)" if "\<not> P emptyCell" for P
  proof
    assume "\<exists>n. P (cell_of col n)"
    then obtain n where n: "P (cell_of col n)" by blast
    with that have "n \<in> fst ` set (ic_cells col)" using cell_of_absent [of n col] by metis
    then obtain c where "(n, c) \<in> set (ic_cells col)" by auto
    with n cell_of_member [OF assms this] show "\<exists>(n, c) \<in> set (ic_cells col). P c" by auto
  next
    assume "\<exists>(n, c) \<in> set (ic_cells col). P c"
    then show "\<exists>n. P (cell_of col n)" using cell_of_member [OF assms] by fastforce
  qed
  have "(\<forall>n. Coalesce (c_result (cell_of col n)) False \<in> {PASS, NO_RESULT}) \<longleftrightarrow>
      \<not> (\<exists>n. Coalesce (c_result (cell_of col n)) False \<notin> {PASS, NO_RESULT})" by blast
  also have "\<dots> \<longleftrightarrow> \<not> (\<exists>(n, c) \<in> set (ic_cells col). Coalesce (c_result c) False \<notin> {PASS, NO_RESULT})"
    by (subst member) (simp_all add: Coalesce_NO_RESULT)
  finally have all: "(\<forall>n. Coalesce (c_result (cell_of col n)) False \<in> {PASS, NO_RESULT}) \<longleftrightarrow>
      (\<forall>(n, c) \<in> set (ic_cells col). Coalesce (c_result c) False \<in> {PASS, NO_RESULT})" by auto
  have ex: "(\<exists>n. Coalesce (c_result (cell_of col n)) False = PASS) \<longleftrightarrow>
      (\<exists>(n, c) \<in> set (ic_cells col). Coalesce (c_result c) False = PASS)"
    by (subst member) (simp_all add: Coalesce_NO_RESULT)
  show ?thesis unfolding all ex green_cells_def ..
qed

lemma shows_cells_green:
  assumes "shows_cells cols g" "i < length cols" "cells_ok (cols ! i)"
  shows "all_green (map (\<lambda>r. result_at i (row_statuses r)) (grid_rows g)) = green_cells (cols ! i)"
proof -
  let ?r = "\<lambda>n. Coalesce (c_result (cell_of (cols ! i) n)) False"
  have names: "row_name ` set (grid_rows g) = shown_names cols" using assms(1) by (simp add: shows_cells_def)
  have hidden: "?r n = NO_RESULT" if "n \<notin> shown_names cols" for n
  proof -
    have "c_result (cell_of (cols ! i) n) = NO_RESULT"
      using that nth_mem [OF assms(2)] by (auto simp: shown_names_def)
    then show ?thesis by (simp add: Coalesce_NO_RESULT)
  qed
  have "all_green (map (\<lambda>r. result_at i (row_statuses r)) (grid_rows g)) \<longleftrightarrow>
      (\<forall>n \<in> shown_names cols. ?r n \<in> {PASS, NO_RESULT}) \<and> (\<exists>n \<in> shown_names cols. ?r n = PASS)"
    unfolding all_green_def names [symmetric] by (simp add: shows_cells_status [OF assms(1) _ assms(2)])
  also have "\<dots> \<longleftrightarrow> (\<forall>n. ?r n \<in> {PASS, NO_RESULT}) \<and> (\<exists>n. ?r n = PASS)"
  proof -
    have "(\<forall>n \<in> shown_names cols. ?r n \<in> {PASS, NO_RESULT}) \<longleftrightarrow> (\<forall>n. ?r n \<in> {PASS, NO_RESULT})"
      using hidden by (metis insertCI)
    moreover have "(\<exists>n \<in> shown_names cols. ?r n = PASS) \<longleftrightarrow> (\<exists>n. ?r n = PASS)"
      using hidden by (metis test_status.distinct(1))
    ultimately show ?thesis by simp
  qed
  also have "\<dots> \<longleftrightarrow> green_cells (cols ! i)" by (rule green_cells_cell_of [OF assms(3), symmetric])
  finally show ?thesis .
qed

text \<open>
  The latest green column the summarizer finds in a grid that shows some columns is the first of them
  all of whose cells pass.
\<close>

lemma latestGreen_shows:
  assumes "shows_cells cols g" "\<forall>c \<in> set cols. cells_ok c"
  shows "latestGreen g useFirstExtra =
    (case find (\<lambda>i. green_cells (cols ! i)) [0..<length cols] of
       None \<Rightarrow> noGreens | Some i \<Rightarrow> green_header useFirstExtra (ic_column (cols ! i)))"
proof -
  have cols: "grid_columns g = map ic_column cols" and names: "distinct (map row_name (grid_rows g))"
    using assms(1) by (simp_all add: shows_cells_def)
  have "find (\<lambda>i. all_green (map (\<lambda>r. result_at i (row_statuses r)) (grid_rows g))) [0..<length cols] =
      find (\<lambda>i. green_cells (cols ! i)) [0..<length cols]"
    by (rule find_cong [OF refl]) (use assms shows_cells_green [OF assms(1)] in simp)
  moreover have "\<forall>i. find (\<lambda>i. green_cells (cols ! i)) [0..<length cols] = Some i \<longrightarrow> i < length cols"
    by (auto simp: find_Some_iff)
  ultimately show ?thesis unfolding latestGreen_spec [OF names] by (auto simp: cols split: option.split)
qed

text \<open>The summarizer never fails on a grid the updater or the tabulator has built.\<close>

lemma shown_summarized:
  assumes "shows_cells cols g"
  shows "\<exists>s. updateTab showTime now features (Inr (g, md)) tab tg = Inr s \<and> summary_ok tab s"
  by (rule updateTab_summary_ok [OF shows_cells_rows_ok [OF assms]])

lemma tabulated_summarized:
  assumes "grid_ok g" "\<forall>j. \<not> cancelled j"
    "filterGrid rx (tab_base_options tab) (grid_rows g) = Inr rows" "0 \<le> tab_alerts useTab tab tg"
  shows "\<exists>g' s. tabulate nl rx cancelled now (Some g) (Some tab) (Some tg) calculateStats useTab None = Inr g' \<and>
    updateTab showTime now' features (Inr (g', md)) tab tg = Inr s \<and> summary_ok tab s"
proof -
  from tabulate_shows [OF assms refl, of nl now calculateStats] obtain g' where
    g': "tabulate nl rx cancelled now (Some g) (Some tab) (Some tg) calculateStats useTab None = Inr g'"
      "rows_ok g'"
    using shows_cells_rows_ok by blast
  from updateTab_summary_ok [OF g'(2)] g'(1) show ?thesis by blast
qed

end
