(* ===== verification/Result_Store.thy ===== *)
theory Result_Store
  imports Columns
begin

text \<open>
  The ResultStore column reader, \<open>pkg/updater/resultstore/resultstore.go\<close>, first part: the messages
  of the ResultStore API it reads, the nested test suites, their properties and durations, the
  filters over test results, and the message and icon of a cell.

  Test suites nest; \<open>getTestResults\<close> flattens them and stands an empty suite for itself.
  \<open>appendProperties\<close> calls itself on what \<open>getTestResults\<close> gives, so on an empty suite it calls
  itself for ever: its first argument is the number of stack frames that are left, and running out
  of them is the fatal error of the Go runtime.
\<close>

section \<open>Messages\<close>

record duration =
  du_seconds :: int
  du_nanos :: int

record timing =
  tm_start :: "timestamp option"
  tm_duration :: "duration option"

definition get_start :: "timing option \<Rightarrow> timestamp option" where
  "get_start t = Option.bind t tm_start"

definition get_duration :: "timing option \<Rightarrow> duration option" where
  "get_duration t = Option.bind t tm_duration"

definition get_seconds :: "timestamp option \<Rightarrow> int" where
  "get_seconds t = (case t of None \<Rightarrow> 0 | Some ts \<Rightarrow> ts_seconds ts)"

definition get_nanos :: "timestamp option \<Rightarrow> int" where
  "get_nanos t = (case t of None \<Rightarrow> 0 | Some ts \<Rightarrow> ts_nanos ts)"

text \<open>Times and durations of package \<open>time\<close> are in nanoseconds, times since the Unix epoch.\<close>

definition AsTime :: "timestamp option \<Rightarrow> int" where
  "AsTime t = get_seconds t * 1000000000 + get_nanos t"

definition AsDuration :: "duration option \<Rightarrow> int" where
  "AsDuration d = (case d of None \<Rightarrow> 0 | Some x \<Rightarrow> du_seconds x * 1000000000 + du_nanos x)"

definition Minutes :: "int \<Rightarrow> float64" where
  "Minutes d = of_int d / 60000000000"

text \<open>\<open>RS_OTHER\<close> is a number that is none of the enum's: the enums of the protocol are open.\<close>

datatype rs_status =
    RS_STATUS_UNSPECIFIED | RS_BUILDING | RS_BUILT | RS_FAILED_TO_BUILD | RS_TESTING | RS_PASSED
  | RS_FAILED | RS_TIMED_OUT | RS_CANCELLED | RS_TOOL_FAILED | RS_INCOMPLETE | RS_FLAKY
  | RS_UNKNOWN | RS_SKIPPED | RS_OTHER int

datatype case_result =
    CR_UNSPECIFIED | CR_COMPLETED | CR_INTERRUPTED | CR_CANCELLED | CR_FILTERED | CR_SKIPPED
  | CR_SUPPRESSED | CR_OTHER int

record test_case =
  tc_name :: string
  tc_class_name :: string
  tc_result :: case_result
  tc_failures :: nat
  tc_errors :: nat
  tc_properties :: "(string \<times> string) list"
  tc_timing :: "timing option"

text \<open>\<open>Test\<close> is a oneof: unset, a case or a suite.\<close>

datatype rs_test = NoTest | CaseTest test_case | SuiteTest test_suite
and test_suite =
  TestSuite (suite_name: string) (suite_own: "(string \<times> string) list") (suite_timing: "timing option")
    (suite_tests: "rs_test list")

record rs_target =
  ta_id :: string
  ta_timing :: "timing option"
  ta_tags :: "string list"

record configured_target =
  ct_id :: string
  ct_invocation :: string
  ct_status :: rs_status

record action =
  ac_id :: string
  ac_suite :: "test_suite option"

record rs_invocation =
  in_id :: string
  in_timing :: "timing option"
  in_properties :: "(string \<times> string) list"
  in_labels :: "string list"

record fetch_result =
  fr_invocation :: "rs_invocation option"
  fr_actions :: "action list"
  fr_configured_targets :: "configured_target list"
  fr_targets :: "rs_target list"

text \<open>\<open>singleActionResult\<close>, \<open>multiActionResult\<close> and \<open>invocation\<close>.\<close>

record single_result =
  sar_target :: "rs_target option"
  sar_configured :: "configured_target option"
  sar_action :: "action option"

record multi_result =
  mar_target :: "rs_target option"
  mar_configured :: "configured_target option"
  mar_actions :: "action list"

record invocation =
  iv_proto :: "rs_invocation option"
  iv_targets :: "(string, single_result list) gomap"

definition get_case :: "rs_test \<Rightarrow> test_case option" where
  "get_case t = (case t of CaseTest c \<Rightarrow> Some c | _ \<Rightarrow> None)"

definition get_suite :: "rs_test \<Rightarrow> test_suite option" where
  "get_suite t = (case t of SuiteTest s \<Rightarrow> Some s | _ \<Rightarrow> None)"

definition sar_suite :: "single_result \<Rightarrow> test_suite option" where
  "sar_suite sar = Option.bind (sar_action sar) ac_suite"

definition sar_status :: "single_result \<Rightarrow> rs_status" where
  "sar_status sar =
     (case sar_configured sar of None \<Rightarrow> RS_STATUS_UNSPECIFIED | Some ct \<Rightarrow> ct_status ct)"

definition get_id :: "rs_invocation option \<Rightarrow> string" where
  "get_id p = (case p of None \<Rightarrow> [] | Some i \<Rightarrow> in_id i)"

definition get_properties :: "rs_invocation option \<Rightarrow> (string \<times> string) list" where
  "get_properties p = (case p of None \<Rightarrow> [] | Some i \<Rightarrow> in_properties i)"

definition get_labels :: "rs_invocation option \<Rightarrow> string list" where
  "get_labels p = (case p of None \<Rightarrow> [] | Some i \<Rightarrow> in_labels i)"

definition start_time :: "rs_invocation option \<Rightarrow> timestamp option" where
  "start_time p = get_start (Option.bind p in_timing)"

section \<open>Statuses\<close>

definition convertStatus :: "(rs_status, test_status) gomap" where
  "convertStatus =
     [(RS_STATUS_UNSPECIFIED, NO_RESULT), (RS_BUILDING, RUNNING), (RS_BUILT, BUILD_PASSED),
      (RS_FAILED_TO_BUILD, BUILD_FAIL), (RS_TESTING, RUNNING), (RS_PASSED, PASS),
      (RS_FAILED, FAIL), (RS_TIMED_OUT, TIMED_OUT), (RS_CANCELLED, CANCEL),
      (RS_TOOL_FAILED, TOOL_FAIL), (RS_INCOMPLETE, UNKNOWN), (RS_FLAKY, FLAKY),
      (RS_UNKNOWN, UNKNOWN), (RS_SKIPPED, PASS_WITH_SKIPS)]"

text \<open>Reading a missing key of the map gives the zero value.\<close>

definition TargetStatus_of :: "single_result \<Rightarrow> test_status" where
  "TargetStatus_of sar =
     (case map_of convertStatus (sar_status sar) of Some s \<Rightarrow> s | None \<Rightarrow> NO_RESULT)"

definition includeStatus :: "test_group \<Rightarrow> single_result \<Rightarrow> bool" where
  "includeStatus tg sar =
     (let status = TargetStatus_of sar in
      if status = NO_RESULT then False
      else if status = BUILD_PASSED \<and> tg_ignore_built tg then False
      else if status = RUNNING \<and> tg_ignore_pending tg then False
      else if status = PASS_WITH_SKIPS \<and> tg_ignore_skip tg then False
      else True)"

text \<open>A status outside the table is dropped, so a status that is included is in the table.\<close>

lemma includeStatus_known:
  "includeStatus tg sar \<Longrightarrow> map_of convertStatus (sar_status sar) = Some (TargetStatus_of sar)"
  by (auto simp: includeStatus_def TargetStatus_of_def Let_def split: option.splits)

definition mapStatusToCellResult :: "test_case option \<Rightarrow> test_status go" where
  "mapStatusToCellResult testCase =
     (case testCase of
        None \<Rightarrow> nil_call
      | Some c \<Rightarrow> Inr
          (if has_prefix (tc_name c) ''DISABLED_'' then PASS_WITH_SKIPS
           else if tc_result c = CR_SKIPPED then PASS_WITH_SKIPS
           else if tc_result c = CR_SUPPRESSED then PASS_WITH_SKIPS
           else if tc_result c = CR_CANCELLED then CANCEL
           else if tc_result c = CR_INTERRUPTED then CANCEL
           else if 0 < tc_failures c \<or> 0 < tc_errors c then FAIL
           else PASS))"

section \<open>Nested suites\<close>

text \<open>\<open>testResult.properties\<close>: a suite's own properties, then those below it.\<close>

primrec suite_properties :: "test_suite \<Rightarrow> (string \<times> string) list"
  and test_properties :: "rs_test \<Rightarrow> (string \<times> string) list" where
  "suite_properties (TestSuite n own tm tests) = own @ concat (map test_properties tests)"
| "test_properties NoTest = []"
| "test_properties (CaseTest c) = tc_properties c"
| "test_properties (SuiteTest s) = suite_properties s"

definition properties :: "test_suite option \<Rightarrow> test_case option \<Rightarrow> (string \<times> string) list" where
  "properties s c =
     (case s of None \<Rightarrow> [] | Some s \<Rightarrow> suite_own s) @
     (case c of None \<Rightarrow> [] | Some c \<Rightarrow> tc_properties c) @
     (case s of None \<Rightarrow> [] | Some s \<Rightarrow> concat (map test_properties (suite_tests s)))"

lemma properties_test: "test_properties t = properties (get_suite t) (get_case t)"
proof (cases t)
  case (SuiteTest s)
  then show ?thesis by (cases s) (simp add: properties_def get_suite_def get_case_def)
qed (simp_all add: properties_def get_suite_def get_case_def)

primrec testResultProperties_suite ::
    "test_suite \<Rightarrow> (string, string list) gomap \<Rightarrow> (string, string list) gomap"
  and testResultProperties_test ::
    "rs_test \<Rightarrow> (string, string list) gomap \<Rightarrow> (string, string list) gomap" where
  "testResultProperties_suite (TestSuite n own tm tests) m =
     fold (\<lambda>g m. g m) (map testResultProperties_test tests)
       (fold (\<lambda>(k, v). append_value k v) own m)"
| "testResultProperties_test NoTest m = m"
| "testResultProperties_test (CaseTest c) m = fold (\<lambda>(k, v). append_value k v) (tc_properties c) m"
| "testResultProperties_test (SuiteTest s) m = testResultProperties_suite s m"

definition testResultProperties ::
    "(string, string list) gomap \<Rightarrow> test_suite option \<Rightarrow> (string, string list) gomap" where
  "testResultProperties m s = (case s of None \<Rightarrow> m | Some s \<Rightarrow> testResultProperties_suite s m)"

primrec testResultDuration_suite :: "test_suite \<Rightarrow> int"
  and testResultDuration_test :: "rs_test \<Rightarrow> int" where
  "testResultDuration_suite (TestSuite n own tm tests) =
     (let dur = AsDuration (get_duration tm) in
      if dur > 0 then dur else sum_list (map testResultDuration_test tests))"
| "testResultDuration_test NoTest = 0"
| "testResultDuration_test (CaseTest c) = AsDuration (get_duration (tc_timing c))"
| "testResultDuration_test (SuiteTest s) = testResultDuration_suite s"

definition testResultDuration :: "test_suite option \<Rightarrow> int" where
  "testResultDuration s = (case s of None \<Rightarrow> 0 | Some s \<Rightarrow> testResultDuration_suite s)"

primrec getTestResults_suite :: "test_suite \<Rightarrow> rs_test list"
  and getTestResults_test :: "rs_test \<Rightarrow> rs_test list" where
  "getTestResults_suite (TestSuite n own tm tests) =
     (if tests = [] then [SuiteTest (TestSuite n own tm tests)]
      else concat (map getTestResults_test tests))"
| "getTestResults_test NoTest = []"
| "getTestResults_test (CaseTest c) = [CaseTest c]"
| "getTestResults_test (SuiteTest s) = getTestResults_suite s"

definition getTestResults :: "test_suite option \<Rightarrow> rs_test list" where
  "getTestResults s = (case s of None \<Rightarrow> [] | Some s \<Rightarrow> getTestResults_suite s)"

text \<open>No suite without tests, at any depth.\<close>

primrec filled_suite :: "test_suite \<Rightarrow> bool" and filled_test :: "rs_test \<Rightarrow> bool" where
  "filled_suite (TestSuite n own tm tests) \<longleftrightarrow> tests \<noteq> [] \<and> list_all id (map filled_test tests)"
| "filled_test NoTest \<longleftrightarrow> True"
| "filled_test (CaseTest c) \<longleftrightarrow> True"
| "filled_test (SuiteTest s) \<longleftrightarrow> filled_suite s"

definition all_filled :: "test_suite option \<Rightarrow> bool" where
  "all_filled s = (case s of None \<Rightarrow> True | Some s \<Rightarrow> filled_suite s)"

definition is_case :: "rs_test \<Rightarrow> bool" where
  "is_case t \<longleftrightarrow> get_case t \<noteq> None"

definition is_bare :: "rs_test \<Rightarrow> bool" where
  "is_bare t \<longleftrightarrow> (\<exists>n own tm. t = SuiteTest (TestSuite n own tm []))"

text \<open>
  The results are the cases and the empty suites, in the order of the nest; there is no empty suite
  among them exactly when no suite of the nest is empty.
\<close>

lemma is_case_simps [simp]: "is_case (CaseTest c)" "\<not> is_case (SuiteTest s)" "\<not> is_case NoTest"
  by (simp_all add: is_case_def get_case_def)

lemma is_case_iff: "is_case t \<longleftrightarrow> (\<exists>c. t = CaseTest c)"
  by (cases t) auto

lemma is_bare_simps [simp]: "\<not> is_bare (CaseTest c)" "\<not> is_bare NoTest"
  "is_bare (SuiteTest (TestSuite n own tm ts)) \<longleftrightarrow> ts = []"
  by (auto simp: is_bare_def)

lemma results_leaves:
  "list_all (\<lambda>r. is_case r \<or> is_bare r) (getTestResults_suite s)"
  "list_all (\<lambda>r. is_case r \<or> is_bare r) (getTestResults_test t)"
  by (induction s and t) (auto simp: list_all_iff)

lemma results_filled:
  "list_all is_case (getTestResults_suite s) \<longleftrightarrow> filled_suite s"
  "list_all is_case (getTestResults_test t) \<longleftrightarrow> filled_test t"
  by (induction s and t) (auto simp: list_all_iff)

lemma getTestResults_filled: "list_all is_case (getTestResults s) \<longleftrightarrow> all_filled s"
  by (auto simp: getTestResults_def all_filled_def results_filled split: option.splits)

lemma getTestResults_leaves: "r \<in> set (getTestResults s) \<Longrightarrow> is_case r \<or> is_bare r"
  using results_leaves(1) by (auto simp: getTestResults_def list_all_iff split: option.splits)

text \<open>The recursion into the map collects what \<open>properties\<close> lists.\<close>

lemma testResultProperties_fold:
  "testResultProperties_suite s m = fold (\<lambda>(k, v). append_value k v) (suite_properties s) m"
  "testResultProperties_test t m = fold (\<lambda>(k, v). append_value k v) (test_properties t) m"
proof (induction s and t arbitrary: m and m)
  case (TestSuite n own tm tests)
  have "fold (\<lambda>g m. g m) (map testResultProperties_test tests) m =
      fold (\<lambda>(k, v). append_value k v) (concat (map test_properties tests)) m" for m
    using TestSuite by (induction tests arbitrary: m) auto
  then show ?case by simp
qed auto

section \<open>Filtering results\<close>

definition stack_overflow :: go_error where
  "stack_overflow = Panic ''stack overflow''"

definition add_matching ::
    "(string \<Rightarrow> bool) option \<Rightarrow> (string \<times> string) list \<Rightarrow> (string, string list) gomap \<Rightarrow>
     (string, string list) gomap" where
  "add_matching match ps m =
     fold (\<lambda>(k, v) m. case match of
         Some f \<Rightarrow> if \<not> f k then m else append_value k v m
       | None \<Rightarrow> append_value k v m) ps m"

text \<open>The first argument is the number of stack frames left.\<close>

primrec appendProperties ::
    "nat \<Rightarrow> (string, string list) gomap \<Rightarrow> rs_test \<Rightarrow> (string \<Rightarrow> bool) option \<Rightarrow>
     (string, string list) gomap go" where
  "appendProperties 0 m result match = Inl stack_overflow"
| "appendProperties (Suc frames) m result match =
     go_fold (\<lambda>m r. appendProperties frames m r match)
       (add_matching match (case get_case result of Some c \<Rightarrow> tc_properties c | None \<Rightarrow> []) m)
       (getTestResults (get_suite result))"

definition reduce_values :: "string list \<Rightarrow> string go" where
  "reduce_values values =
     go_bind (slice_at values 0) (\<lambda>v0.
       Inr (if 1 < length values \<and> list_ex (\<lambda>v. v \<noteq> v0) values then ''*'' else v0))"

definition fillProperties ::
    "nat \<Rightarrow> (string, string) gomap \<Rightarrow> rs_test \<Rightarrow> (string \<Rightarrow> bool) option \<Rightarrow>
     (string, string) gomap go" where
  "fillProperties frames found result match =
     go_bind (appendProperties frames [] result match) (\<lambda>multi.
       go_fold (\<lambda>m (key, values). go_bind (reduce_values values) (\<lambda>v. Inr (AList.update key v m)))
         found multi)"

definition filterProperties ::
    "nat \<Rightarrow> rs_test list \<Rightarrow> (string \<times> string) list \<Rightarrow> rs_test list go" where
  "filterProperties frames results props =
     (if props = [] then Inr results
      else let match = (\<lambda>k. k \<in> fst ` set props) in
        go_fold (\<lambda>out r.
            go_bind (fillProperties frames [] r (Some match)) (\<lambda>found.
              Inr (if list_ex (\<lambda>(k, v). lookup_or_empty found k \<noteq> v) props then out else out @ [r])))
          [] results)"

text \<open>\<open>r.GetTestCase().CaseName\<close> dereferences the case, which a suite does not have.\<close>

definition case_name :: "rs_test \<Rightarrow> string go" where
  "case_name r = (case get_case r of Some c \<Rightarrow> Inr (tc_name c) | None \<Rightarrow> nil_call)"

definition matchResults ::
    "rs_test list \<Rightarrow> (string \<Rightarrow> bool) option \<Rightarrow> (string \<Rightarrow> bool) option \<Rightarrow> rs_test list go" where
  "matchResults results match unmatch =
     (if match = None \<and> unmatch = None then Inr results
      else go_fold (\<lambda>out r.
          go_bind (case match of None \<Rightarrow> Inr True | Some f \<Rightarrow> go_bind (case_name r) (\<lambda>n. Inr (f n)))
            (\<lambda>yes. if \<not> yes then Inr out else
          go_bind (case unmatch of None \<Rightarrow> Inr False | Some f \<Rightarrow> go_bind (case_name r) (\<lambda>n. Inr (f n)))
            (\<lambda>no. Inr (if no then out else out @ [r]))))
        [] results)"

definition filterResults ::
    "nat \<Rightarrow> rs_test list \<Rightarrow> (string \<times> string) list \<Rightarrow> (string \<Rightarrow> bool) option \<Rightarrow>
     (string \<Rightarrow> bool) option \<Rightarrow> (rs_test list \<times> bool) go" where
  "filterResults frames results props match unmatch =
     go_bind (filterProperties frames results props) (\<lambda>results.
       go_bind (matchResults results match unmatch) (\<lambda>results.
         Inr (results, props \<noteq> [] \<or> match \<noteq> None \<or> unmatch \<noteq> None)))"

text \<open>A bare suite is its own only result, so the recursion on it never ends.\<close>

lemma appendProperties_bare:
  assumes "is_bare r"
  shows "appendProperties frames m r match = Inl stack_overflow"
proof -
  from assms obtain n own tm where r: "r = SuiteTest (TestSuite n own tm [])" by (auto simp: is_bare_def)
  show ?thesis
    by (induction frames arbitrary: m)
       (simp_all add: r getTestResults_def get_suite_def get_case_def add_matching_def)
qed

lemma appendProperties_case:
  "appendProperties (Suc frames) m (CaseTest c) match = Inr (add_matching match (tc_properties c) m)"
  by (simp add: getTestResults_def get_suite_def get_case_def)

lemma add_matching_append: "add_matching f (ps @ qs) m = add_matching f qs (add_matching f ps m)"
  by (simp add: add_matching_def)

text \<open>The properties of the cases below a test.\<close>

definition case_properties :: "rs_test \<Rightarrow> (string \<times> string) list" where
  "case_properties t =
     concat (map (\<lambda>r. case get_case r of Some c \<Rightarrow> tc_properties c | None \<Rightarrow> []) (getTestResults_test t))"

lemma go_fold_cases:
  assumes "list_all is_case rs"
  shows "go_fold (\<lambda>m r. appendProperties (Suc frames) m r match) m rs =
    Inr (add_matching match
      (concat (map (\<lambda>r. case get_case r of Some c \<Rightarrow> tc_properties c | None \<Rightarrow> []) rs)) m)"
  using assms
proof (induction rs arbitrary: m)
  case (Cons r rs)
  then obtain c where "r = CaseTest c" by (auto simp: is_case_iff)
  with Cons show ?case
    by (simp add: appendProperties_case add_matching_append get_case_def del: appendProperties.simps)
qed (simp add: add_matching_def)

lemma go_fold_overflow:
  assumes "\<forall>r \<in> set rs. is_case r \<or> is_bare r" "\<not> list_all is_case rs"
  shows "go_fold (\<lambda>m r. appendProperties frames m r match) m rs = Inl stack_overflow"
  using assms
proof (induction rs arbitrary: m)
  case (Cons r rs)
  show ?case
  proof (cases "is_case r")
    case True
    then obtain c where "r = CaseTest c" by (auto simp: is_case_iff)
    with Cons True show ?thesis by (cases frames) (simp_all add: appendProperties_case del: appendProperties.simps(2))
  qed (use Cons in \<open>simp add: appendProperties_bare\<close>)
qed simp

text \<open>
  Two frames are enough for a test without an empty suite, and no stack is large enough for one
  with an empty suite.
\<close>

lemma appendProperties_filled:
  assumes "filled_test t"
  shows "appendProperties (Suc (Suc frames)) m t match = Inr (add_matching match (case_properties t) m)"
proof (cases t)
  case (SuiteTest s)
  with assms show ?thesis
    using go_fold_cases [of "getTestResults_suite s" frames match m]
    by (simp add: results_filled get_suite_def get_case_def getTestResults_def add_matching_def
        case_properties_def appendProperties.simps(2) [of "Suc frames"] del: appendProperties.simps)
next
  case (CaseTest c)
  then show ?thesis
    by (simp add: appendProperties_case case_properties_def get_case_def del: appendProperties.simps)
qed (simp_all add: case_properties_def get_case_def get_suite_def getTestResults_def add_matching_def)

lemma appendProperties_overflow:
  assumes "\<not> filled_test t"
  shows "appendProperties frames m t match = Inl stack_overflow"
proof (cases frames)
  case (Suc k)
  from assms obtain s where t: "t = SuiteTest s" "\<not> filled_suite s" by (cases t) auto
  have "go_fold (\<lambda>m r. appendProperties k m r match) m (getTestResults_suite s) = Inl stack_overflow" for m
    using results_leaves(1) [of s] t(2) by (intro go_fold_overflow) (auto simp: list_all_iff results_filled [symmetric])
  then show ?thesis by (simp add: Suc t(1) getTestResults_def get_suite_def)
qed simp

lemma map_of_add_matching:
  "map_of (add_matching match ps m) k =
   (let vs = (if (case match of Some f \<Rightarrow> f k | None \<Rightarrow> True)
              then map snd (filter (\<lambda>kv. fst kv = k) ps) else []) in
    if vs = [] then map_of m k
    else Some ((case map_of m k of Some us \<Rightarrow> us | None \<Rightarrow> []) @ vs))"
proof (induction ps arbitrary: m)
  case (Cons kv ps)
  obtain k' v where "kv = (k', v)" by fastforce
  with Cons show ?case
    by (cases match) (auto simp: add_matching_def map_of_append_value Let_def split: option.splits)
qed (simp add: add_matching_def Let_def)

lemma distinct_append_value:
  "distinct (map fst m) \<Longrightarrow> distinct (map fst (append_value k v m))"
  by (simp add: append_value_def distinct_update)

lemma distinct_add_matching:
  "distinct (map fst m) \<Longrightarrow> distinct (map fst (add_matching match ps m))"
proof (induction ps arbitrary: m)
  case (Cons kv ps)
  obtain k v where "kv = (k, v)" by fastforce
  with Cons show ?case
    by (cases match) (simp_all add: add_matching_def distinct_append_value)
qed (simp add: add_matching_def)

text \<open>What \<open>fillProperties\<close> finds for a key: its one value, or a star.\<close>

definition the_value :: "string list \<Rightarrow> string" where
  "the_value vs = (case vs of [] \<Rightarrow> [] | v # _ \<Rightarrow> if list_ex (\<lambda>w. w \<noteq> v) vs then ''*'' else v)"

definition values_of :: "string \<Rightarrow> (string \<times> string) list \<Rightarrow> string list" where
  "values_of k ps = map snd (filter (\<lambda>kv. fst kv = k) ps)"

lemma reduce_values_Inr: "vs \<noteq> [] \<Longrightarrow> reduce_values vs = Inr (the_value vs)"
  by (cases vs; cases "tl vs") (auto simp: reduce_values_def the_value_def slice_at_def)

lemma fill_loop:
  "(\<forall>(k, vs) \<in> set multi. vs \<noteq> []) \<Longrightarrow> distinct (map fst multi) \<Longrightarrow>
   \<exists>m'. go_fold (\<lambda>m (key, values). go_bind (reduce_values values) (\<lambda>v. Inr (AList.update key v m)))
          m multi = Inr m' \<and>
     (\<forall>k. map_of m' k = (case map_of multi k of Some vs \<Rightarrow> Some (the_value vs) | None \<Rightarrow> map_of m k))"
proof (induction multi arbitrary: m)
  case (Cons kv multi)
  obtain k vs where kv: "kv = (k, vs)" by fastforce
  from Cons.IH [of "AList.update k (the_value vs) m"] Cons.prems kv obtain m' where
    m': "go_fold (\<lambda>m (key, values). go_bind (reduce_values values) (\<lambda>v. Inr (AList.update key v m)))
        (AList.update k (the_value vs) m) multi = Inr m'"
    "\<forall>x. map_of m' x = (case map_of multi x of Some us \<Rightarrow> Some (the_value us)
        | None \<Rightarrow> map_of (AList.update k (the_value vs) m) x)"
    by auto
  moreover have "map_of multi k = None"
    using Cons.prems(2) kv by (simp add: map_of_eq_None_iff)
  ultimately show ?case
    using Cons.prems(1) kv
    by (intro exI [of _ m']) (auto simp: reduce_values_Inr update_conv' split: option.splits)
qed simp

lemma fillProperties_filled:
  assumes "filled_test t"
  shows "\<exists>found. fillProperties (Suc (Suc frames)) [] t (Some f) = Inr found \<and>
    (\<forall>k. f k \<longrightarrow> lookup_or_empty found k = the_value (values_of k (case_properties t)))"
proof -
  let ?multi = "add_matching (Some f) (case_properties t) []"
  have look: "map_of ?multi k =
      (if f k \<and> values_of k (case_properties t) \<noteq> [] then Some (values_of k (case_properties t)) else None)" for k
    using map_of_add_matching [of "Some f" "case_properties t" "[]" k]
    by (auto simp: Let_def values_of_def)
  have d: "distinct (map fst ?multi)" by (simp add: distinct_add_matching)
  have "\<forall>(k, vs) \<in> set ?multi. vs \<noteq> []"
    using map_of_is_SomeI [OF d] look by (fastforce split: if_splits)
  from fill_loop [OF this d, of "[]"] obtain found where
    "go_fold (\<lambda>m (key, values). go_bind (reduce_values values) (\<lambda>v. Inr (AList.update key v m)))
      [] ?multi = Inr found"
    "\<forall>k. map_of found k = (case map_of ?multi k of Some vs \<Rightarrow> Some (the_value vs) | None \<Rightarrow> map_of [] k)"
    by blast
  then show ?thesis
    using assms look
    by (auto simp: fillProperties_def appendProperties_filled lookup_or_empty_def the_value_def
        simp del: appendProperties.simps)
qed

lemma some_differs:
  "\<forall>k. k \<in> fst ` set ps \<longrightarrow> g k = h k \<Longrightarrow>
   list_ex (\<lambda>(k, v). g k \<noteq> v) ps = (\<not> list_all (\<lambda>(k, v). h k = v) ps)"
  by (induction ps) auto

lemma go_fold_filter:
  "(\<And>out x. x \<in> set xs \<Longrightarrow> f out x = Inr (if P x then out @ [x] else out)) \<Longrightarrow>
   go_fold f out xs = Inr (out @ filter P xs)"
  by (induction xs arbitrary: out) simp_all

text \<open>The filter over properties, as a filter of the standard library.\<close>

definition has_properties :: "(string \<times> string) list \<Rightarrow> rs_test \<Rightarrow> bool" where
  "has_properties props r \<longleftrightarrow>
     list_all (\<lambda>(k, v). the_value (values_of k (case_properties r)) = v) props"

lemma filterProperties_filled:
  assumes "list_all is_case rs"
  shows "filterProperties (Suc (Suc frames)) rs props = Inr (filter (has_properties props) rs)"
proof (cases "props = []")
  case True
  then show ?thesis by (simp add: filterProperties_def has_properties_def)
next
  case False
  have "go_bind (fillProperties (Suc (Suc frames)) [] r (Some (\<lambda>k. k \<in> fst ` set props))) (\<lambda>found.
        Inr (if list_ex (\<lambda>(k, v). lookup_or_empty found k \<noteq> v) props then out else out @ [r])) =
      Inr (if has_properties props r then out @ [r] else out)"
    if "r \<in> set rs" for out r
  proof -
    from that assms have "filled_test r" by (auto simp: list_all_iff is_case_iff)
    from fillProperties_filled [OF this, of frames "\<lambda>k. k \<in> fst ` set props"] obtain found where
      f: "fillProperties (Suc (Suc frames)) [] r (Some (\<lambda>k. k \<in> fst ` set props)) = Inr found"
      "\<forall>k. k \<in> fst ` set props \<longrightarrow> lookup_or_empty found k = the_value (values_of k (case_properties r))"
      by blast
    from f(2) have "list_ex (\<lambda>(k, v). lookup_or_empty found k \<noteq> v) props = (\<not> has_properties props r)"
      unfolding has_properties_def by (rule some_differs)
    with f(1) show ?thesis by simp
  qed
  from go_fold_filter [of rs, OF this, of "[]"] show ?thesis
    unfolding filterProperties_def Let_def if_not_P [OF False] append_Nil .
qed

definition name_matches ::
    "(string \<Rightarrow> bool) option \<Rightarrow> (string \<Rightarrow> bool) option \<Rightarrow> rs_test \<Rightarrow> bool" where
  "name_matches match unmatch r =
     (case get_case r of
        None \<Rightarrow> True
      | Some c \<Rightarrow> (case match of None \<Rightarrow> True | Some f \<Rightarrow> f (tc_name c)) \<and>
                (case unmatch of None \<Rightarrow> True | Some f \<Rightarrow> \<not> f (tc_name c)))"

lemma matchResults_cases:
  assumes "list_all is_case rs"
  shows "matchResults rs match unmatch = Inr (filter (name_matches match unmatch) rs)"
proof (cases "match = None \<and> unmatch = None")
  case True
  have "filter (name_matches None None) rs = rs"
    by (rule filter_True) (simp add: name_matches_def split: option.splits)
  with True show ?thesis by (simp add: matchResults_def)
next
  case False
  have "go_bind (case match of None \<Rightarrow> Inr True | Some f \<Rightarrow> go_bind (case_name r) (\<lambda>n. Inr (f n)))
        (\<lambda>yes. if \<not> yes then Inr out else
      go_bind (case unmatch of None \<Rightarrow> Inr False | Some f \<Rightarrow> go_bind (case_name r) (\<lambda>n. Inr (f n)))
        (\<lambda>no. Inr (if no then out else out @ [r]))) =
      Inr (if name_matches match unmatch r then out @ [r] else out)"
    if "r \<in> set rs" for out r
  proof -
    from that assms obtain c where "r = CaseTest c" by (auto simp: list_all_iff is_case_iff)
    then show ?thesis
      by (cases match; cases unmatch) (simp_all add: case_name_def get_case_def name_matches_def)
  qed
  note go_fold_filter [of rs, OF this, of "[]"]
  then show ?thesis using False by (simp only: matchResults_def if_False append_Nil)
qed

lemma filterResults_cases:
  assumes "list_all is_case rs"
  shows "filterResults (Suc (Suc frames)) rs props match unmatch =
    Inr (filter (name_matches match unmatch) (filter (has_properties props) rs),
         props \<noteq> [] \<or> match \<noteq> None \<or> unmatch \<noteq> None)"
proof -
  have "list_all is_case (filter (has_properties props) rs)"
    using assms by (auto simp: list_all_iff)
  from matchResults_cases [OF this] show ?thesis
    by (simp add: filterResults_def filterProperties_filled [OF assms])
qed

end
