(* ===== verification/Result_Columns.thy ===== *)
theory Result_Columns
  imports Result_Store Update_Group Config_Validate
begin

text \<open>
  The ResultStore column reader, second part: from the raw results of an invocation to results per
  target, the grouping of invocations and the column of a group (\<open>processGroup\<close>).

  What the code takes from the standard library is bundled in a record: the regular expressions and
  their error texts, number parsing and printing, the formats of a time, the code table of
  \<open>FormatStrftime\<close>, the size of the stack, and the orders that the \<open>range\<close> loops over maps take.
\<close>

record libs =
  lb_regexp :: regex
  lb_regexp_error :: "string \<Rightarrow> string"
  lb_parse_float :: "string \<Rightarrow> float64 option"
  lb_show_float :: "float64 \<Rightarrow> string"
  lb_format_time :: "int \<Rightarrow> string \<Rightarrow> string"
  lb_strftime :: "(char \<times> string) list"
  lb_marshal_time :: "int \<Rightarrow> string option"
  lb_unmarshal_time :: "string \<Rightarrow> int option"
  lb_frames :: nat
  lb_range_targets :: "(string, single_result list) gomap \<Rightarrow> (string, single_result list) gomap"
  lb_range_cells :: "(string, cell list) gomap \<Rightarrow> (string, cell list) gomap"
  lb_range_groups :: "(string, invocation list) gomap \<Rightarrow> (string, invocation list) gomap"

text \<open>A range loop visits every entry once.\<close>

definition libs_ok :: "libs \<Rightarrow> bool" where
  "libs_ok lb \<longleftrightarrow>
     (\<forall>m. mset (lb_range_targets lb m) = mset m) \<and>
     (\<forall>m. mset (lb_range_cells lb m) = mset m) \<and>
     (\<forall>m. mset (lb_range_groups lb m) = mset m) \<and> 2 \<le> lb_frames lb"

section \<open>Raw results\<close>

definition empty_multi :: multi_result where
  "empty_multi = \<lparr>mar_target = None, mar_configured = None, mar_actions = []\<rparr>"

definition upd_multi ::
    "string \<Rightarrow> (multi_result \<Rightarrow> multi_result) \<Rightarrow> (string, multi_result) gomap \<Rightarrow>
     (string, multi_result) gomap" where
  "upd_multi k f m =
     AList.update k (f (case map_of m k of Some r \<Rightarrow> r | None \<Rightarrow> empty_multi)) m"

definition collateRawResults :: "fetch_result \<Rightarrow> (string, multi_result) gomap" where
  "collateRawResults result =
     fold (\<lambda>a. upd_multi (ac_id a) (\<lambda>r. r\<lparr>mar_actions := mar_actions r @ [a]\<rparr>)) (fr_actions result)
      (fold (\<lambda>c. upd_multi (ct_id c) (\<lambda>r. r\<lparr>mar_configured := Some c\<rparr>)) (fr_configured_targets result)
       (fold (\<lambda>t. upd_multi (ta_id t) (\<lambda>r. r\<lparr>mar_target := Some t\<rparr>)) (fr_targets result) []))"

definition single_results :: "multi_result \<Rightarrow> single_result list" where
  "single_results mr =
     (if mar_actions mr = []
      then [\<lparr>sar_target = mar_target mr, sar_configured = mar_configured mr, sar_action = None\<rparr>]
      else map (\<lambda>a. \<lparr>sar_target = mar_target mr, sar_configured = mar_configured mr, sar_action = Some a\<rparr>)
             (mar_actions mr))"

definition isolateActions ::
    "(string, multi_result) gomap \<Rightarrow> (string, single_result list) gomap" where
  "isolateActions multi =
     List.map_filter (\<lambda>(trID, mr).
       if mar_target mr = None \<or> mar_configured mr = None then None
       else Some (trID, single_results mr)) multi"

definition processRawResult :: "fetch_result \<Rightarrow> invocation" where
  "processRawResult result =
     \<lparr>iv_proto = fr_invocation result, iv_targets = isolateActions (collateRawResults result)\<rparr>"

definition processRawResults :: "fetch_result list \<Rightarrow> invocation list" where
  "processRawResults results = map processRawResult results"

section \<open>Builds and groups\<close>

definition identifyBuild :: "libs \<Rightarrow> test_group \<Rightarrow> invocation \<Rightarrow> string go" where
  "identifyBuild lb tg iv =
     (if tg_build_override_configuration_value tg \<noteq> [] then
        Inr (case map_of (get_properties (iv_proto iv)) (tg_build_override_configuration_value tg) of
               Some v \<Rightarrow> v | None \<Rightarrow> [])
      else if tg_build_override_strftime tg \<noteq> [] then
        (case start_time (iv_proto iv) of
           None \<Rightarrow> nil_call
         | Some t \<Rightarrow> Inr (lb_format_time lb (AsTime (Some t))
             (FormatStrftime (lb_strftime lb) (tg_build_override_strftime tg))))
      else Inr [])"

definition extractGroupID :: "libs \<Rightarrow> test_group \<Rightarrow> invocation option \<Rightarrow> string go" where
  "extractGroupID lb tg iv =
     (case iv of
        None \<Rightarrow> Inr []
      | Some iv \<Rightarrow>
          if tg_primary_grouping tg = PRIMARY_GROUPING_BUILD then identifyBuild lb tg iv
          else Inr (get_id (iv_proto iv)))"

record invocation_group =
  ig_id :: string
  ig_invocations :: "invocation list"

definition inv_seconds :: "invocation \<Rightarrow> int" where
  "inv_seconds iv = get_seconds (start_time (iv_proto iv))"

text \<open>\<open>Invocations[0]\<close>: a group is made when its first invocation is met, so it has one.\<close>

definition group_seconds :: "invocation_group \<Rightarrow> int" where
  "group_seconds g = (case ig_invocations g of [] \<Rightarrow> 0 | iv # _ \<Rightarrow> inv_seconds iv)"

definition groupInvocations ::
    "libs \<Rightarrow> test_group \<Rightarrow> invocation list \<Rightarrow> invocation_group list go" where
  "groupInvocations lb tg invocations =
     go_bind (go_fold (\<lambda>m iv. go_bind (extractGroupID lb tg (Some iv)) (\<lambda>k.
                Inr (append_value k iv m))) [] invocations)
       (\<lambda>grouped. Inr (slice_stable (\<lambda>a b. group_seconds a > group_seconds b)
          (map (\<lambda>(k, invs). \<lparr>ig_id = k, ig_invocations = invs\<rparr>) (lb_range_groups lb grouped))))"

section \<open>Headers\<close>

definition sar_extractHeaders :: "single_result option \<Rightarrow> column_header \<Rightarrow> string list" where
  "sar_extractHeaders sar conf =
     (case sar of
        None \<Rightarrow> []
      | Some sar \<Rightarrow>
          if hdr_property conf \<noteq> [] then
            map snd (filter (\<lambda>kv. fst kv = hdr_property conf) (properties (sar_suite sar) None))
          else [])"

definition inv_extractHeaders :: "invocation option \<Rightarrow> column_header \<Rightarrow> string list" where
  "inv_extractHeaders iv conf =
     (case iv of
        None \<Rightarrow> []
      | Some iv \<Rightarrow>
          if hdr_configuration_value conf \<noteq> [] then
            map snd (filter (\<lambda>kv. fst kv = hdr_configuration_value conf) (get_properties (iv_proto iv)))
          else if hdr_label conf \<noteq> [] then
            map (drop (length (hdr_label conf)))
              (filter (\<lambda>l. has_prefix l (hdr_label conf)) (get_labels (iv_proto iv)))
          else [])"

definition compile_header :: "column_header \<Rightarrow> string list \<Rightarrow> string" where
  "compile_header conf headerList =
     (case headerList of
        [] \<Rightarrow> []
      | [v] \<Rightarrow> v
      | _ \<Rightarrow> if hdr_list_all_values conf then str_join (sort headerList) ''||'' else ''*'')"

definition compileHeaders :: "column_header list \<Rightarrow> string list list \<Rightarrow> string list" where
  "compileHeaders columnHeader headers =
     (if columnHeader = [] then [] else map2 compile_header columnHeader headers)"

text \<open>\<open>headers[i] = append(headers[i], \<dots>)\<close> for every configured header.\<close>

definition add_headers :: "(column_header \<Rightarrow> string list) \<Rightarrow> column_header list \<Rightarrow> string list list \<Rightarrow> string list list" where
  "add_headers extract confs headers = map2 (\<lambda>conf hs. hs @ extract conf) confs headers"

text \<open>The compiled headers do not depend on the order in which the values were met.\<close>

lemma compile_header_order:
  assumes "mset vs = mset ws"
  shows "compile_header conf vs = compile_header conf ws"
proof -
  have len: "length vs = length ws" using assms by (metis size_mset)
  show ?thesis
  proof (cases "length vs \<le> 1")
    case True
    then have "vs = ws" using assms len by (cases vs; cases ws) auto
    then show ?thesis by simp
  next
    case False
    then obtain a b vs' where v: "vs = a # b # vs'" by (cases vs; cases "tl vs") auto
    from False len obtain c d ws' where w: "ws = c # d # ws'" by (cases ws; cases "tl ws") auto
    have "sort vs = sort ws" using assms by (metis mset_sort properties_for_sort sorted_sort)
    then show ?thesis by (simp add: compile_header_def v w)
  qed
qed

section \<open>Method limits and regular expressions\<close>

definition testMethodLimit :: "test_group option \<Rightarrow> int" where
  "testMethodLimit tg =
     (case tg of
        None \<Rightarrow> 0
      | Some tg \<Rightarrow>
          if tg_enable_test_methods tg then
            (if tg_max_test_methods_per_test tg = 0 then 20 else tg_max_test_methods_per_test tg)
          else 0)"

definition compile_regexp :: "libs \<Rightarrow> string \<Rightarrow> (string \<Rightarrow> bool) option \<times> string option" where
  "compile_regexp lb m =
     (if m = [] then (None, None)
      else case lb_regexp lb m of Some f \<Rightarrow> (Some f, None) | None \<Rightarrow> (None, Some (lb_regexp_error lb m)))"

definition testMethodRegex ::
    "libs \<Rightarrow> test_group option \<Rightarrow>
     (string \<Rightarrow> bool) option \<times> (string \<Rightarrow> bool) option \<times> string option \<times> string option" where
  "testMethodRegex lb tg =
     (case tg of
        None \<Rightarrow> (None, None, None, None)
      | Some tg \<Rightarrow>
          let (m, mErr) = compile_regexp lb (tg_test_method_match_regex tg);
              (um, umErr) = compile_regexp lb (tg_test_method_unmatch_regex tg)
          in (m, um, mErr, umErr))"

section \<open>Metrics, messages and icons\<close>

definition TestMethodsElapsedKey :: string where
  "TestMethodsElapsedKey = ''test-methods-duration-minutes''"

definition calculateMetrics :: "libs \<Rightarrow> single_result \<Rightarrow> (string, float64) gomap" where
  "calculateMetrics lb sar =
     (let numerics = Means (lb_parse_float lb) (testResultProperties [] (sar_suite sar));
          targetElapsed = AsDuration (get_duration (Option.bind (sar_target sar) ta_timing));
          numerics = (if targetElapsed > 0
                      then AList.update ElapsedKey (Minutes targetElapsed) numerics else numerics);
          dur = testResultDuration (sar_suite sar)
      in if dur > 0 then AList.update TestMethodsElapsedKey (Minutes dur) numerics else numerics)"

fun annotated ::
    "(string, string) gomap \<Rightarrow> (string, string list) gomap \<Rightarrow> test_annotation list \<Rightarrow>
     (string \<times> string) option" where
  "annotated check props [] = None"
| "annotated check props (a # as) =
     (case map_of check (ann_property_name a) of
        None \<Rightarrow> annotated check props as
      | Some icon \<Rightarrow>
        (case map_of props (ann_property_name a) of
           Some (v # _) \<Rightarrow> Some (v, icon)
         | _ \<Rightarrow> annotated check props as))"

fun tagged :: "(string, string) gomap \<Rightarrow> string list \<Rightarrow> string \<times> string" where
  "tagged tagMap [] = ([], [])"
| "tagged tagMap (tag # tags) =
     (case map_of tagMap tag of Some icon \<Rightarrow> (tag, icon) | None \<Rightarrow> tagged tagMap tags)"

definition cellMessageIcon ::
    "test_annotation list \<Rightarrow> (string, string list) gomap \<Rightarrow> string list \<Rightarrow> (string \<times> string) go" where
  "cellMessageIcon annotations props tags =
     go_bind (go_fold (\<lambda>check (k, v). go_bind (slice_at v 0) (\<lambda>v0. Inr (AList.update k v0 check))) [] props)
       (\<lambda>check.
          let short = (\<lambda>a. AList.update (ann_property_name a) (ann_short_text a));
              check = fold short annotations check;
              tagMap = fold short annotations []
          in Inr (case annotated check props annotations of
                Some mi \<Rightarrow> mi | None \<Rightarrow> tagged tagMap tags))"

definition numericIcon ::
    "libs \<Rightarrow> string \<Rightarrow> (string, string list) gomap \<Rightarrow> string \<Rightarrow> string" where
  "numericIcon lb current props key =
     (if key = [] then current
      else case map_of props key of
          None \<Rightarrow> current
        | Some vals \<Rightarrow>
            lb_show_float lb
              (case map_of (Means (lb_parse_float lb) [(key, vals)]) key of Some m \<Rightarrow> m | None \<Rightarrow> 0))"

section \<open>The results of a target\<close>

definition methodName :: "test_group \<Rightarrow> string \<Rightarrow> rs_test \<Rightarrow> string" where
  "methodName tg targetID r =
     (let name = (case get_case r of
          Some c \<Rightarrow> tc_name c
        | None \<Rightarrow> (case get_suite r of Some s \<Rightarrow> suite_name s | None \<Rightarrow> []));
          cls = (case get_case r of Some c \<Rightarrow> tc_class_name c | None \<Rightarrow> []);
          name = (if tg_use_full_method_names tg then last (str_split cls ''.'') @ ''.'' @ name else name)
      in targetID @ ''@TESTGRID@'' @ name)"

definition method_cell ::
    "libs \<Rightarrow> test_group \<Rightarrow> single_result \<Rightarrow> cell \<Rightarrow> string \<Rightarrow> rs_test \<Rightarrow> cell go" where
  "method_cell lb tg sar c targetID r =
     go_bind (go_fold (\<lambda>m t. appendProperties (lb_frames lb) m t None) []
                (case sar_suite sar of Some s \<Rightarrow> suite_tests s | None \<Rightarrow> [])) (\<lambda>props.
     go_bind (mapStatusToCellResult (get_case r)) (\<lambda>res.
     go_bind (cellMessageIcon (tg_test_annotations tg) props
                (case sar_target sar of Some t \<Rightarrow> ta_tags t | None \<Rightarrow> [])) (\<lambda>(msg, icon).
       Inr (zero_cell\<lparr>c_id := targetID, c_cell_id := c_cell_id c, c_result := res, c_message := msg,
              c_icon := numericIcon lb icon props (tg_short_text_metric tg)\<rparr>))))"

definition processTestResults ::
    "libs \<Rightarrow> test_group \<Rightarrow> (string, cell list) gomap \<Rightarrow> rs_test list \<Rightarrow> single_result \<Rightarrow> cell \<Rightarrow>
     string \<Rightarrow> int \<Rightarrow> (string, cell list) gomap go" where
  "processTestResults lb tg groupedCells testResults sar c targetID limit =
     go_fold (\<lambda>grouped r.
        go_bind (method_cell lb tg sar c targetID r) (\<lambda>trCell.
          Inr (if c_result trCell = PASS_WITH_SKIPS \<and> tg_ignore_skip tg then grouped
               else if int (length testResults) \<le> limit
               then append_value (methodName tg targetID r) trCell grouped
               else grouped)))
      groupedCells testResults"

section \<open>The column of a group\<close>

text \<open>The nanoseconds are divided by 1000, as they are in the code: they are not milliseconds.\<close>

definition timestampMilliseconds :: "timestamp option \<Rightarrow> float64" where
  "timestampMilliseconds t = of_int (get_seconds t) * 1000 + of_int (get_nanos t) / 1000"

record group_state =
  gs_build :: string
  gs_started :: float64
  gs_hint :: int
  gs_headers :: "string list list"
  gs_grouped :: "(string, cell list) gomap"
  gs_cells :: "(string, cell) gomap"

definition target_cell :: "test_group \<Rightarrow> invocation \<Rightarrow> string \<Rightarrow> single_result \<Rightarrow> cell" where
  "target_cell tg iv targetID sar =
     (let status = (case map_of convertStatus (sar_status sar) of Some s \<Rightarrow> s | None \<Rightarrow> UNKNOWN) in
      zero_cell\<lparr>c_cell_id := get_id (iv_proto iv), c_id := targetID,
        c_result := (case CustomTargetStatus (tg_rules tg) (TargetStatus_of sar) of
          Some r \<Rightarrow> r | None \<Rightarrow> status)\<rparr>)"

text \<open>
  One result of a target.  The metrics and the properties are computed last, on the local copy of
  a cell that is in the map already: nothing reads them.
\<close>

definition process_sar ::
    "libs \<Rightarrow> test_group \<Rightarrow> invocation \<Rightarrow> string \<Rightarrow> group_state \<Rightarrow> single_result \<Rightarrow> group_state go" where
  "process_sar lb tg iv targetID st sar =
     (if \<not> includeStatus tg sar then Inr st
      else
        let (match, unmatch, _, _) = testMethodRegex lb (Some tg);
            c = target_cell tg iv targetID sar;
            grouped = append_value targetID c (gs_grouped st) in
        go_bind (filterResults (lb_frames lb) (getTestResults (sar_suite sar))
                   (tg_test_method_properties tg) match unmatch) (\<lambda>(results, filtered).
        go_bind (processTestResults lb tg grouped results sar c targetID (testMethodLimit (Some tg)))
          (\<lambda>grouped.
        let st = st\<lparr>gs_grouped := grouped\<rparr> in
        if filtered \<and> results = [] then Inr st
        else
          let st = st\<lparr>gs_headers :=
                add_headers (sar_extractHeaders (Some sar)) (tg_column_header tg) (gs_headers st)\<rparr>;
              c = c\<lparr>c_metrics := calculateMetrics lb sar\<rparr> in
          go_bind (go_fold (\<lambda>m t. appendProperties (lb_frames lb) m t None) []
                     (case sar_suite sar of Some s \<Rightarrow> suite_tests s | None \<Rightarrow> []))
            (\<lambda>_. Inr st))))"

definition error_cell :: "string \<Rightarrow> string option \<Rightarrow> (string, cell list) gomap \<Rightarrow> (string, cell list) gomap" where
  "error_cell name err m =
     (case err of
        None \<Rightarrow> m
      | Some e \<Rightarrow> append_value name (zero_cell\<lparr>c_result := TOOL_FAIL, c_message := e\<rparr>) m)"

definition split_all :: "(string, cell list) gomap \<Rightarrow> (string, cell) gomap \<Rightarrow> (string, cell) gomap" where
  "split_all grouped out =
     fold (\<lambda>(name, cells) out. fold (\<lambda>(n, c). AList.update n c) (SplitCells name cells) out) grouped out"

definition process_invocation ::
    "libs \<Rightarrow> test_group \<Rightarrow> string \<Rightarrow> group_state \<Rightarrow> invocation \<Rightarrow> group_state go" where
  "process_invocation lb tg gid st iv =
     (let (_, _, matchErr, unmatchErr) = testMethodRegex lb (Some tg);
          started = start_time (iv_proto iv);
          ms = timestampMilliseconds started in
      go_bind (identifyBuild lb tg iv) (\<lambda>build.
      go_bind (go_fold (\<lambda>st (targetID, sars). go_fold (process_sar lb tg iv targetID) st sars)
          (st\<lparr>gs_build := (if build \<noteq> [] then build else gid),
              gs_started := (if gs_started st = 0 \<or> ms < gs_started st then ms else gs_started st),
              gs_hint := (if AsTime started > gs_hint st then AsTime started else gs_hint st),
              gs_headers :=
                add_headers (inv_extractHeaders (Some iv)) (tg_column_header tg) (gs_headers st),
              gs_grouped :=
                error_cell ''test_method_unmatch_regex'' unmatchErr
                  (error_cell ''test_method_match_regex'' matchErr (gs_grouped st))\<rparr>)
          (lb_range_targets lb (iv_targets iv)))
        (\<lambda>st. Inr (st\<lparr>gs_cells := split_all (lb_range_cells lb (gs_grouped st)) (gs_cells st)\<rparr>))))"

definition group_init :: "test_group \<Rightarrow> group_state" where
  "group_init tg =
     \<lparr>gs_build = [], gs_started = 0, gs_hint = 0,
      gs_headers = replicate (length (tg_column_header tg)) [], gs_grouped = [], gs_cells = []\<rparr>"

definition group_column :: "libs \<Rightarrow> test_group \<Rightarrow> string \<Rightarrow> group_state \<Rightarrow> inflated_column" where
  "group_column lb tg gid st =
     \<lparr>ic_column = empty_column\<lparr>col_name := gid, col_build := gs_build st, col_started := gs_started st,
        col_hint := (case lb_marshal_time lb (gs_hint st) of Some h \<Rightarrow> h | None \<Rightarrow> []),
        col_extra := compileHeaders (tg_column_header tg) (gs_headers st)\<rparr>,
      ic_cells = gs_cells st\<rparr>"

definition processGroup ::
    "libs \<Rightarrow> test_group \<Rightarrow> invocation_group option \<Rightarrow> inflated_column option go" where
  "processGroup lb tg grp =
     (case grp of
        None \<Rightarrow> Inr None
      | Some g \<Rightarrow>
          if ig_invocations g = [] then Inr None
          else go_bind (go_fold (process_invocation lb tg (ig_id g)) (group_init tg) (ig_invocations g))
            (\<lambda>st. Inr (Some (group_column lb tg (ig_id g) st))))"

text \<open>The columns of the fetched invocations, in the order in which they are sent.\<close>

definition sort_invocations :: "invocation list \<Rightarrow> invocation list" where
  "sort_invocations = slice_stable (\<lambda>a b. inv_seconds a > inv_seconds b)"

definition read_columns :: "libs \<Rightarrow> test_group \<Rightarrow> fetch_result list \<Rightarrow> inflated_column list go" where
  "read_columns lb tg results =
     go_bind (groupInvocations lb tg (sort_invocations (processRawResults results))) (\<lambda>groups.
       go_map (\<lambda>g. go_bind (processGroup lb tg (Some g))
                (\<lambda>col. case col of None \<Rightarrow> nil_call | Some col \<Rightarrow> Inr col)) groups)"

section \<open>What the raw results amount to\<close>

definition last_with :: "('a \<Rightarrow> string) \<Rightarrow> string \<Rightarrow> 'a list \<Rightarrow> 'a option" where
  "last_with key k xs = (case rev (filter (\<lambda>x. key x = k) xs) of [] \<Rightarrow> None | x # _ \<Rightarrow> Some x)"

lemma map_of_upd_fold:
  "map_of (fold (\<lambda>x. upd_multi (key x) (g x)) xs m) k =
   (let ys = filter (\<lambda>x. key x = k) xs in
    if ys = [] then map_of m k
    else Some (fold g ys (case map_of m k of Some r \<Rightarrow> r | None \<Rightarrow> empty_multi)))"
  by (induction xs arbitrary: m) (auto simp: upd_multi_def update_conv' Let_def)

lemma distinct_upd_fold:
  "distinct (map fst m) \<Longrightarrow> distinct (map fst (fold (\<lambda>x. upd_multi (key x) (g x)) xs m))"
  by (induction xs arbitrary: m) (auto simp: upd_multi_def distinct_update)

lemma distinct_collate: "distinct (map fst (collateRawResults res))"
  by (simp add: collateRawResults_def distinct_upd_fold)

lemma fold_set_target: "fold (\<lambda>t r. r\<lparr>mar_target := Some t\<rparr>) ts r =
    (if ts = [] then r else r\<lparr>mar_target := Some (last ts)\<rparr>)"
  by (induction ts arbitrary: r) auto

lemma fold_set_configured: "fold (\<lambda>c r. r\<lparr>mar_configured := Some c\<rparr>) ts r =
    (if ts = [] then r else r\<lparr>mar_configured := Some (last ts)\<rparr>)"
  by (induction ts arbitrary: r) auto

lemma fold_add_action: "fold (\<lambda>a r. r\<lparr>mar_actions := mar_actions r @ [a]\<rparr>) as r =
    r\<lparr>mar_actions := mar_actions r @ as\<rparr>"
  by (induction as arbitrary: r) auto

lemma last_with_filter:
  "last_with key k xs = (let ys = filter (\<lambda>x. key x = k) xs in if ys = [] then None else Some (last ys))"
  by (cases "filter (\<lambda>x. key x = k) xs" rule: rev_cases) (simp_all add: last_with_def Let_def)

text \<open>
  The entry of a target id: the last target and the last configured target with that id, and all
  the actions with that id.
\<close>

definition collated :: "fetch_result \<Rightarrow> string \<Rightarrow> multi_result" where
  "collated res k =
     \<lparr>mar_target = last_with ta_id k (fr_targets res),
      mar_configured = last_with ct_id k (fr_configured_targets res),
      mar_actions = filter (\<lambda>a. ac_id a = k) (fr_actions res)\<rparr>"

lemma map_of_collate:
  "map_of (collateRawResults res) k = (if collated res k = empty_multi then None else Some (collated res k))"
  by (auto simp: collateRawResults_def map_of_upd_fold fold_set_target fold_set_configured
      fold_add_action collated_def last_with_filter empty_multi_def Let_def)

lemma map_of_map_filter_some:
  "distinct (map fst m) \<Longrightarrow>
   map_of (List.map_filter (\<lambda>(k, v). map_option (Pair k) (f v)) m) k = Option.bind (map_of m k) f"
  by (induction m) (auto simp: List.map_filter_simps keys_map_of split: option.splits bind_splits
      simp flip: map_of_eq_None_iff dest: map_of_SomeD)

lemma isolateActions_alt:
  "isolateActions multi =
   List.map_filter (\<lambda>(k, mr). map_option (Pair k)
     (if mar_target mr = None \<or> mar_configured mr = None then None else Some (single_results mr))) multi"
  unfolding isolateActions_def by (rule arg_cong [of _ _ "\<lambda>f. List.map_filter f multi"]) (auto simp: fun_eq_iff)

lemma distinct_map_filter_keys:
  "distinct (map fst m) \<Longrightarrow>
   distinct (map fst (List.map_filter (\<lambda>(k, v). map_option (Pair k) (f v)) m))"
proof -
  have sub: "fst ` set (List.map_filter (\<lambda>(k, v). map_option (Pair k) (f v)) m) \<subseteq> fst ` set m" for m
    by (induction m) (auto simp: List.map_filter_simps split: option.splits)
  show "distinct (map fst m) \<Longrightarrow> ?thesis"
  proof (induction m)
    case (Cons kv m)
    then show ?case using sub [of m]
      by (cases kv) (auto simp: List.map_filter_simps image_iff split: option.splits)
  qed (simp add: List.map_filter_simps)
qed

lemma raw_distinct: "distinct (map fst (iv_targets (processRawResult res)))"
  by (simp add: processRawResult_def isolateActions_alt distinct_map_filter_keys distinct_collate)

lemma raw_targets:
  "map_of (iv_targets (processRawResult res)) k =
   (case (last_with ta_id k (fr_targets res), last_with ct_id k (fr_configured_targets res)) of
      (Some t, Some c) \<Rightarrow> Some (single_results (collated res k))
    | _ \<Rightarrow> None)"
  by (auto simp: processRawResult_def isolateActions_alt map_of_map_filter_some [OF distinct_collate]
      map_of_collate empty_multi_def collated_def split: option.splits)

section \<open>What grouping amounts to\<close>

lemma fold_group_inv:
  assumes "go_fold (\<lambda>m iv. go_bind (key iv) (\<lambda>k. Inr (append_value k iv m))) m ivs = Inr m'"
  shows "(\<forall>iv \<in> set ivs. \<exists>k. key iv = Inr k) \<and>
    (\<forall>k. map_of m' k = (let ys = filter (\<lambda>iv. key iv = Inr k) ivs in
       if ys = [] then map_of m k else Some ((case map_of m k of Some us \<Rightarrow> us | None \<Rightarrow> []) @ ys)))"
  using assms
proof (induction ivs arbitrary: m)
  case (Cons iv ivs)
  then obtain k where k: "key iv = Inr k"
    "go_fold (\<lambda>m iv. go_bind (key iv) (\<lambda>k. Inr (append_value k iv m))) (append_value k iv m) ivs = Inr m'"
    by (auto simp: go_simps)
  from Cons.IH [OF k(2)] k(1) show ?case
    by (auto simp: map_of_append_value Let_def)
qed simp

lemma distinct_fold_group:
  "go_fold (\<lambda>m iv. go_bind (key iv) (\<lambda>k. Inr (append_value k iv m))) m ivs = Inr m' \<Longrightarrow>
   distinct (map fst m) \<Longrightarrow> distinct (map fst m')"
  by (induction ivs arbitrary: m) (auto simp: go_simps distinct_append_value)

interpretation group_order: weak_order "\<lambda>a b. group_seconds a > group_seconds b"
  by (rule weak_order_key_greater)

interpretation invocation_order: weak_order "\<lambda>a b. inv_seconds a > inv_seconds b"
  by (rule weak_order_key_greater)

text \<open>
  Every group has its own id and holds exactly the invocations with that id, in their order; every
  invocation is in the group of its id; the groups are in the order of their first invocations.
\<close>

lemma groupInvocations_spec:
  assumes run: "groupInvocations lb tg ivs = Inr gs" and lb: "libs_ok lb"
  shows "(\<forall>iv \<in> set ivs. \<exists>k. extractGroupID lb tg (Some iv) = Inr k)"
    and "distinct (map ig_id gs)"
    and "\<forall>g \<in> set gs. ig_invocations g = filter (\<lambda>iv. extractGroupID lb tg (Some iv) = Inr (ig_id g)) ivs
           \<and> ig_invocations g \<noteq> []"
    and "\<forall>iv \<in> set ivs. \<exists>g \<in> set gs. iv \<in> set (ig_invocations g)"
    and "sorted_wrt (\<lambda>a b. group_seconds a \<ge> group_seconds b) gs"
proof -
  let ?key = "\<lambda>iv. extractGroupID lb tg (Some iv)"
  let ?mk = "\<lambda>(k, invs). \<lparr>ig_id = k, ig_invocations = invs\<rparr>"
  from run obtain m where m: "go_fold (\<lambda>m iv. go_bind (?key iv) (\<lambda>k. Inr (append_value k iv m))) [] ivs = Inr m"
    and gs: "gs = slice_stable (\<lambda>a b. group_seconds a > group_seconds b) (map ?mk (lb_range_groups lb m))"
    by (auto simp: groupInvocations_def go_simps)
  note inv = fold_group_inv [OF m]
  from inv show "\<forall>iv \<in> set ivs. \<exists>k. ?key iv = Inr k" by blast
  have look: "map_of m k = (if filter (\<lambda>iv. ?key iv = Inr k) ivs = [] then None
      else Some (filter (\<lambda>iv. ?key iv = Inr k) ivs))" for k using inv by (simp add: Let_def)
  have d: "distinct (map fst m)" using distinct_fold_group [OF m] by simp
  have ms: "mset gs = mset (map ?mk m)"
    using lb by (simp add: gs libs_ok_def)
  then have "mset (map ig_id gs) = mset (map ig_id (map ?mk m))" by (metis mset_map)
  also have "map ig_id (map ?mk m) = map fst m" by auto
  finally show "distinct (map ig_id gs)" using d mset_eq_imp_distinct_iff by blast
  have sets: "set gs = ?mk ` set m" using ms by (metis list.set_map set_mset_mset)
  have mem: "(k, xs) \<in> set m \<longleftrightarrow> xs \<noteq> [] \<and> xs = filter (\<lambda>iv. ?key iv = Inr k) ivs" for k xs
    using look [of k] d by (metis map_of_eq_Some_iff option.discI option.inject)
  show "\<forall>g \<in> set gs. ig_invocations g = filter (\<lambda>iv. ?key iv = Inr (ig_id g)) ivs \<and> ig_invocations g \<noteq> []"
    unfolding sets by (auto simp: mem)
  show "\<forall>iv \<in> set ivs. \<exists>g \<in> set gs. iv \<in> set (ig_invocations g)"
  proof
    fix iv assume iv: "iv \<in> set ivs"
    with inv obtain k where "?key iv = Inr k" by blast
    with iv have "(k, filter (\<lambda>iv. ?key iv = Inr k) ivs) \<in> set m"
      "iv \<in> set (filter (\<lambda>iv. ?key iv = Inr k) ivs)"
      unfolding mem by (auto simp: filter_empty_conv)
    then show "\<exists>g \<in> set gs. iv \<in> set (ig_invocations g)"
      unfolding sets by force
  qed
  show "sorted_wrt (\<lambda>a b. group_seconds a \<ge> group_seconds b) gs"
    using group_order.sorted_slice_stable by (simp add: gs not_less)
qed

section \<open>When a group has a column\<close>

text \<open>A loop returns when every turn does, if whether a turn returns depends on its element only.\<close>

lemma go_fold_returns:
  "(\<And>acc x. x \<in> set xs \<Longrightarrow> (\<exists>y. f acc x = Inr y) \<longleftrightarrow> P x) \<Longrightarrow>
   (\<exists>y. go_fold f acc xs = Inr y) \<longleftrightarrow> (\<forall>x \<in> set xs. P x)"
proof (induction xs arbitrary: acc)
  case (Cons x xs)
  have x: "(\<exists>y. f acc x = Inr y) \<longleftrightarrow> P x" using Cons.prems [of x acc] by simp
  have xs: "(\<exists>y. go_fold f acc' xs = Inr y) \<longleftrightarrow> (\<forall>x \<in> set xs. P x)" for acc'
    using Cons.prems by (intro Cons.IH) simp
  have "(\<exists>y. go_fold f acc (x # xs) = Inr y) \<longleftrightarrow> (\<exists>a. f acc x = Inr a \<and> (\<exists>y. go_fold f a xs = Inr y))"
    by (auto simp: go_simps)
  with x xs show ?case by auto
qed simp

lemma bind_returns: "(\<exists>y. go_bind m f = Inr y) \<longleftrightarrow> (\<exists>a. m = Inr a \<and> (\<exists>y. f a = Inr y))"
  by (auto simp: go_simps)

text \<open>The properties of the cases of a suite, which every method cell reads.\<close>

definition suite_props :: "test_suite option \<Rightarrow> (string, string list) gomap" where
  "suite_props s =
     add_matching None
       (case s of None \<Rightarrow> [] | Some s \<Rightarrow> concat (map case_properties (suite_tests s))) []"

lemma append_tests_filled:
  "list_all filled_test ts \<Longrightarrow>
   go_fold (\<lambda>m t. appendProperties (Suc (Suc frames)) m t None) m ts =
   Inr (add_matching None (concat (map case_properties ts)) m)"
proof (induction ts arbitrary: m)
  case (Cons t ts)
  then show ?case
    using appendProperties_filled [of t frames m None]
    by (simp add: add_matching_append del: appendProperties.simps)
qed (simp add: add_matching_def)

lemma append_tests_overflow:
  assumes "\<not> list_all filled_test ts"
  shows "\<nexists>m'. go_fold (\<lambda>m t. appendProperties frames m t None) m ts = Inr m'"
  using assms
proof (induction ts arbitrary: m)
  case (Cons t ts)
  show ?case
  proof (cases "filled_test t")
    case True
    with Cons show ?thesis by (auto simp: go_simps)
  next
    case False
    then show ?thesis using appendProperties_overflow [of t frames m None] by simp
  qed
qed simp

lemma frames_Suc: "libs_ok lb \<Longrightarrow> \<exists>n. lb_frames lb = Suc (Suc n)"
  unfolding libs_ok_def by (metis One_nat_def Suc_1 Suc_le_D add_2_eq_Suc le_add_diff_inverse)

lemma filled_tests: "all_filled (Some s) \<Longrightarrow> list_all filled_test (suite_tests s)"
  by (cases s) (auto simp: all_filled_def list_all_iff)

lemma suite_append_filled:
  assumes "libs_ok lb" "all_filled s"
  shows "go_fold (\<lambda>m t. appendProperties (lb_frames lb) m t None) []
      (case s of Some s \<Rightarrow> suite_tests s | None \<Rightarrow> []) = Inr (suite_props s)"
proof -
  from frames_Suc [OF assms(1)] obtain n where n: "lb_frames lb = Suc (Suc n)" by blast
  show ?thesis
  proof (cases s)
    case (Some u)
    with assms(2) have "list_all filled_test (suite_tests u)" by (simp add: filled_tests)
    from append_tests_filled [OF this, of n "[]"] show ?thesis
      unfolding n Some suite_props_def option.case .
  qed (simp add: suite_props_def add_matching_def)
qed

lemma suite_props_values: "\<forall>(k, vs) \<in> set (suite_props s). vs \<noteq> []"
proof clarify
  fix k assume "(k, []) \<in> set (suite_props s)"
  moreover have "distinct (map fst (suite_props s))"
    by (simp add: suite_props_def distinct_add_matching)
  ultimately have "map_of (suite_props s) k = Some []" by simp
  then show False
    by (auto simp: suite_props_def map_of_add_matching Let_def split: if_splits)
qed

lemma cellMessageIcon_returns:
  assumes "\<forall>(k, vs) \<in> set props. vs \<noteq> []"
  shows "\<exists>y. cellMessageIcon as props tags = Inr y"
proof -
  have "\<exists>y. go_fold (\<lambda>check (k, v). go_bind (slice_at v 0) (\<lambda>v0. Inr (AList.update k v0 check))) [] props = Inr y"
    using assms by (subst go_fold_returns [where P = "\<lambda>(k, vs). vs \<noteq> []"])
      (auto simp: go_simps split: prod.splits)
  then show ?thesis by (auto simp: cellMessageIcon_def Let_def)
qed

lemma method_cell_returns:
  assumes "libs_ok lb" "all_filled (sar_suite sar)" "is_case r"
  shows "\<exists>y. method_cell lb tg sar c k r = Inr y"
proof -
  from assms(3) obtain tc where r: "r = CaseTest tc" by (auto simp: is_case_iff)
  have "\<exists>y. mapStatusToCellResult (get_case r) = Inr y"
    by (simp add: r get_case_def mapStatusToCellResult_def)
  moreover have "\<exists>y. cellMessageIcon (tg_test_annotations tg) (suite_props (sar_suite sar))
      (case sar_target sar of Some t \<Rightarrow> ta_tags t | None \<Rightarrow> []) = Inr y"
    by (rule cellMessageIcon_returns [OF suite_props_values])
  ultimately show ?thesis
    by (auto simp: method_cell_def suite_append_filled [OF assms(1,2)])
qed

lemma method_cell_stuck:
  assumes "\<not> filled_suite s" "sar_suite sar = Some s" "is_bare r \<or> suite_tests s \<noteq> []"
  shows "\<nexists>y. method_cell lb tg sar c k r = Inr y"
proof (cases "suite_tests s = []")
  case True
  with assms(3) have "get_case r = None" by (auto simp: is_bare_def get_case_def)
  then show ?thesis
    by (auto simp: method_cell_def go_simps mapStatusToCellResult_def nil_call_def)
next
  case False
  with assms(1) have "\<not> list_all filled_test (suite_tests s)"
    by (cases s) (auto simp: list_all_iff)
  from append_tests_overflow [OF this] show ?thesis
    by (auto simp: method_cell_def go_simps assms(2))
qed

lemma go_fold_stuck:
  assumes "x \<in> set xs" "\<And>acc. \<nexists>y. f acc x = Inr y"
  shows "\<nexists>y. go_fold f acc xs = Inr y"
  using assms(1)
proof (induction xs arbitrary: acc)
  case (Cons z xs)
  show ?case
  proof (cases "z = x")
    case True
    with assms(2) show ?thesis by (auto simp: go_simps)
  next
    case False
    with Cons show ?thesis by (auto simp: go_simps)
  qed
qed simp

lemma fillProperties_bare: "is_bare r \<Longrightarrow> fillProperties frames found r match = Inl stack_overflow"
  by (simp add: fillProperties_def appendProperties_bare)

text \<open>A filter of any kind does not survive an empty suite among the results.\<close>

lemma filterResults_stuck:
  assumes "r \<in> set rs" "is_bare r" "props \<noteq> [] \<or> match \<noteq> None \<or> unmatch \<noteq> None"
  shows "\<nexists>y. filterResults frames rs props match unmatch = Inr y"
proof (cases "props = []")
  case True
  have none: "case_name r = nil_call" using assms(2) by (auto simp: is_bare_def case_name_def get_case_def)
  have "\<nexists>y. matchResults rs match unmatch = Inr y"
  proof -
    from assms(3) True have some: "\<not> (match = None \<and> unmatch = None)" by simp
    show ?thesis
      unfolding matchResults_def if_not_P [OF some]
      by (rule go_fold_stuck [OF assms(1)]) (use some in \<open>auto simp: none nil_call_def split: option.splits\<close>)
  qed
  with True show ?thesis by (auto simp: filterResults_def filterProperties_def go_simps)
next
  case False
  have "\<nexists>y. filterProperties frames rs props = Inr y"
    unfolding filterProperties_def Let_def if_not_P [OF False]
    by (rule go_fold_stuck [OF assms(1)]) (simp add: fillProperties_bare assms(2))
  then show ?thesis by (auto simp: filterResults_def go_simps)
qed

lemma filterResults_none: "filterResults frames rs [] None None = Inr (rs, False)"
  by (simp add: filterResults_def filterProperties_def matchResults_def)

lemma processTestResults_returns:
  assumes "libs_ok lb" "all_filled (sar_suite sar)" "list_all is_case rs"
  shows "\<exists>y. processTestResults lb tg grouped rs sar c k limit = Inr y"
  unfolding processTestResults_def
  using assms method_cell_returns [OF assms(1,2)]
  by (subst go_fold_returns [where P = "\<lambda>_. True"]) (auto simp: bind_returns list_all_iff)

lemma processTestResults_stuck:
  assumes "\<not> filled_suite s" "sar_suite sar = Some s"
  shows "\<nexists>y. processTestResults lb tg grouped (getTestResults (sar_suite sar)) sar c k limit = Inr y"
proof -
  have "\<not> list_all is_case (getTestResults (sar_suite sar))"
    using assms by (simp add: getTestResults_filled all_filled_def)
  then obtain r where r: "r \<in> set (getTestResults (sar_suite sar))" "is_bare r"
    using getTestResults_leaves by (fastforce simp: list_all_iff)
  have "\<nexists>y. method_cell lb tg sar c k r = Inr y"
    using assms r by (intro method_cell_stuck) auto
  then show ?thesis
    unfolding processTestResults_def by (intro go_fold_stuck [OF r(1)]) (auto simp: go_simps)
qed

text \<open>
  A result that is included returns exactly when no suite of its test action is empty, however
  large the stack.
\<close>

lemma process_sar_returns:
  assumes lb: "libs_ok lb"
  shows "(\<exists>y. process_sar lb tg iv k st sar = Inr y) \<longleftrightarrow>
    (includeStatus tg sar \<longrightarrow> all_filled (sar_suite sar))"
proof (cases "includeStatus tg sar")
  case inc: True
  obtain match unmatch e1 e2 where rx: "testMethodRegex lb (Some tg) = (match, unmatch, e1, e2)"
    by (metis prod.collapse)
  note unf = process_sar_def inc rx Let_def
  from frames_Suc [OF lb] obtain n where n: "lb_frames lb = Suc (Suc n)" by blast
  show ?thesis
  proof (cases "all_filled (sar_suite sar)")
    case True
    then have cases: "list_all is_case (getTestResults (sar_suite sar))"
      by (simp add: getTestResults_filled)
    let ?rs = "filter (name_matches match unmatch)
      (filter (has_properties (tg_test_method_properties tg)) (getTestResults (sar_suite sar)))"
    have "list_all is_case ?rs" using cases by (auto simp: list_all_iff)
    from processTestResults_returns [OF lb True this] obtain grouped where
      "processTestResults lb tg (append_value k (target_cell tg iv k sar) (gs_grouped st)) ?rs sar
        (target_cell tg iv k sar) k (testMethodLimit (Some tg)) = Inr grouped" by blast
    with True show ?thesis
      using filterResults_cases [OF cases, of n] suite_append_filled [OF lb True]
      by (simp add: unf n)
  next
    case False
    then obtain s where s: "sar_suite sar = Some s" "\<not> filled_suite s" by (auto simp: all_filled_def split: option.splits)
    let ?rs = "getTestResults (sar_suite sar)"
    have "\<nexists>y. process_sar lb tg iv k st sar = Inr y"
    proof (cases "tg_test_method_properties tg \<noteq> [] \<or> match \<noteq> None \<or> unmatch \<noteq> None")
      case True
      from False have "\<not> list_all is_case ?rs" by (simp add: getTestResults_filled)
      then obtain r where r: "r \<in> set ?rs" "is_bare r"
        using getTestResults_leaves by (fastforce simp: list_all_iff)
      from filterResults_stuck [OF r True] show ?thesis by (auto simp: unf go_simps)
    next
      case none: False
      then show ?thesis
        using processTestResults_stuck [OF s(2,1)] by (auto simp: unf filterResults_none go_simps)
    qed
    with inc False show ?thesis by blast
  qed
qed (simp add: process_sar_def)

text \<open>What a group needs to have a column.\<close>

definition group_ok :: "test_group \<Rightarrow> invocation_group \<Rightarrow> bool" where
  "group_ok tg g \<longleftrightarrow>
     (\<forall>iv \<in> set (ig_invocations g).
        (tg_build_override_configuration_value tg = [] \<and> tg_build_override_strftime tg \<noteq> [] \<longrightarrow>
           start_time (iv_proto iv) \<noteq> None) \<and>
        (\<forall>(k, sars) \<in> set (iv_targets iv). \<forall>sar \<in> set sars.
           includeStatus tg sar \<longrightarrow> all_filled (sar_suite sar)))"

lemma identifyBuild_returns:
  "(\<exists>y. identifyBuild lb tg iv = Inr y) \<longleftrightarrow>
   (tg_build_override_configuration_value tg = [] \<and> tg_build_override_strftime tg \<noteq> [] \<longrightarrow>
      start_time (iv_proto iv) \<noteq> None)"
  by (auto simp: identifyBuild_def nil_call_def split: option.splits)

lemma process_invocation_returns:
  assumes lb: "libs_ok lb"
  shows "(\<exists>y. process_invocation lb tg gid st iv = Inr y) \<longleftrightarrow>
    (tg_build_override_configuration_value tg = [] \<and> tg_build_override_strftime tg \<noteq> [] \<longrightarrow>
       start_time (iv_proto iv) \<noteq> None) \<and>
    (\<forall>(k, sars) \<in> set (iv_targets iv). \<forall>sar \<in> set sars. includeStatus tg sar \<longrightarrow> all_filled (sar_suite sar))"
proof -
  have sets: "set (lb_range_targets lb m) = set m" for m
    using lb by (metis libs_ok_def set_mset_mset)
  have sars: "(\<exists>y. go_fold (process_sar lb tg iv k) st sars = Inr y) \<longleftrightarrow>
      (\<forall>sar \<in> set sars. includeStatus tg sar \<longrightarrow> all_filled (sar_suite sar))" for k st sars
    by (rule go_fold_returns) (rule process_sar_returns [OF lb])
  have targets: "(\<exists>y. go_fold (\<lambda>st (targetID, sars). go_fold (process_sar lb tg iv targetID) st sars) st
        (lb_range_targets lb (iv_targets iv)) = Inr y) \<longleftrightarrow>
      (\<forall>(k, sars) \<in> set (iv_targets iv). \<forall>sar \<in> set sars. includeStatus tg sar \<longrightarrow> all_filled (sar_suite sar))" for st
    by (subst go_fold_returns [where P = "\<lambda>(k, sars). \<forall>sar \<in> set sars. includeStatus tg sar \<longrightarrow> all_filled (sar_suite sar)"])
      (simp_all add: sets sars split_beta)
  show ?thesis
    unfolding process_invocation_def Let_def
    by (cases "testMethodRegex lb (Some tg)")
      (simp add: bind_returns targets identifyBuild_returns)
qed

lemma processGroup_returns:
  assumes lb: "libs_ok lb" and ne: "ig_invocations g \<noteq> []"
  shows "(\<exists>col. processGroup lb tg (Some g) = Inr (Some col)) \<longleftrightarrow> group_ok tg g"
proof -
  have "(\<exists>y. go_fold (process_invocation lb tg (ig_id g)) (group_init tg) (ig_invocations g) = Inr y) \<longleftrightarrow>
      group_ok tg g"
    unfolding group_ok_def by (rule go_fold_returns) (rule process_invocation_returns [OF lb])
  then show ?thesis by (auto simp: processGroup_def ne go_simps)
qed

end
