(* ===== verification/Result_Cells.thy ===== *)
theory Result_Cells
  imports Result_Columns
begin

text \<open>
  What \<open>processGroup\<close> of \<open>pkg/updater/resultstore/resultstore.go\<close> gives: the entries that its loops
  add to the groups of cells, the cells of a column in terms of them (each name of a group of cells
  with its duplicates), what is never in a cell, and the times of a column.
\<close>

section \<open>What a column holds\<close>

text \<open>A part of the state that every turn of a loop changes by its element only.\<close>

lemma go_fold_part:
  "go_fold f a xs = Inr b \<Longrightarrow>
   (\<And>a x b. x \<in> set xs \<Longrightarrow> f a x = Inr b \<Longrightarrow> part b = g x (part a)) \<Longrightarrow>
   part b = fold g xs (part a)"
proof (induction xs arbitrary: a)
  case (Cons x xs)
  then obtain a' where a': "f a x = Inr a'" "go_fold f a' xs = Inr b" by (auto simp: go_simps)
  have "part b = fold g xs (part a')" using Cons.prems(2) by (intro Cons.IH [OF a'(2)]) simp
  with Cons.prems(2) [OF _ a'(1)] show ?case by simp
qed simp

abbreviation add_entries :: "(string \<times> cell) list \<Rightarrow> (string, cell list) gomap \<Rightarrow> (string, cell list) gomap" where
  "add_entries es \<equiv> fold (\<lambda>(k, v). append_value k v) es"

definition method_entries ::
    "libs \<Rightarrow> test_group \<Rightarrow> single_result \<Rightarrow> cell \<Rightarrow> string \<Rightarrow> rs_test list \<Rightarrow> (string \<times> cell) list" where
  "method_entries lb tg sar c k rs =
     (if int (length rs) \<le> testMethodLimit (Some tg) then
        concat (map (\<lambda>r. case method_cell lb tg sar c k r of
            Inl _ \<Rightarrow> []
          | Inr tr \<Rightarrow> if c_result tr = PASS_WITH_SKIPS \<and> tg_ignore_skip tg then []
                     else [(methodName tg k r, tr)]) rs)
      else [])"

definition kept_results :: "libs \<Rightarrow> test_group \<Rightarrow> single_result \<Rightarrow> rs_test list" where
  "kept_results lb tg sar =
     (let (match, unmatch, _, _) = testMethodRegex lb (Some tg) in
      filter (name_matches match unmatch)
        (filter (has_properties (tg_test_method_properties tg)) (getTestResults (sar_suite sar))))"

definition sar_entries ::
    "libs \<Rightarrow> test_group \<Rightarrow> invocation \<Rightarrow> string \<Rightarrow> single_result \<Rightarrow> (string \<times> cell) list" where
  "sar_entries lb tg iv k sar =
     (if includeStatus tg sar
      then (k, target_cell tg iv k sar) #
        method_entries lb tg sar (target_cell tg iv k sar) k (kept_results lb tg sar)
      else [])"

definition error_entries :: "libs \<Rightarrow> test_group \<Rightarrow> (string \<times> cell) list" where
  "error_entries lb tg =
     (let (_, _, e1, e2) = testMethodRegex lb (Some tg);
          entry = (\<lambda>name e. case e of None \<Rightarrow> []
            | Some m \<Rightarrow> [(name, zero_cell\<lparr>c_result := TOOL_FAIL, c_message := m\<rparr>)])
      in entry ''test_method_match_regex'' e1 @ entry ''test_method_unmatch_regex'' e2)"

definition target_entries ::
    "libs \<Rightarrow> test_group \<Rightarrow> invocation \<Rightarrow> (string, single_result list) gomap \<Rightarrow> (string \<times> cell) list" where
  "target_entries lb tg iv m = concat (map (\<lambda>(k, sars). concat (map (sar_entries lb tg iv k) sars)) m)"

definition invocation_entries :: "libs \<Rightarrow> test_group \<Rightarrow> invocation \<Rightarrow> (string \<times> cell) list" where
  "invocation_entries lb tg iv =
     error_entries lb tg @ target_entries lb tg iv (lb_range_targets lb (iv_targets iv))"

definition group_entries :: "libs \<Rightarrow> test_group \<Rightarrow> invocation list \<Rightarrow> (string \<times> cell) list" where
  "group_entries lb tg ivs = concat (map (invocation_entries lb tg) ivs)"

lemma fold_add_entries: "fold (\<lambda>x. add_entries (f x)) xs m = add_entries (concat (map f xs)) m"
  by (induction xs arbitrary: m) simp_all

lemma processTestResults_entries:
  assumes "processTestResults lb tg grouped rs sar c k (testMethodLimit (Some tg)) = Inr grouped'"
  shows "grouped' = add_entries (method_entries lb tg sar c k rs) grouped"
proof -
  let ?e = "\<lambda>r. case method_cell lb tg sar c k r of
            Inl _ \<Rightarrow> []
          | Inr tr \<Rightarrow> if c_result tr = PASS_WITH_SKIPS \<and> tg_ignore_skip tg then []
                     else if int (length rs) \<le> testMethodLimit (Some tg)
                     then [(methodName tg k r, tr)] else []"
  have "grouped' = fold (\<lambda>r. add_entries (?e r)) rs grouped"
    by (rule go_fold_part [OF assms [unfolded processTestResults_def], of "\<lambda>x. x"])
      (auto simp: go_simps split: if_splits)
  also have "\<dots> = add_entries (concat (map ?e rs)) grouped" by (rule fold_add_entries)
  also have "concat (map ?e rs) = method_entries lb tg sar c k rs"
  proof (cases "int (length rs) \<le> testMethodLimit (Some tg)")
    case False
    have "concat (map ?e rs') = []" for rs'
      by (induction rs') (auto simp: False split: sum.splits)
    with False show ?thesis by (simp add: method_entries_def)
  next
    case True
    show ?thesis unfolding method_entries_def eqTrueI [OF True] if_True ..
  qed
  finally show ?thesis .
qed

lemma process_sar_grouped:
  assumes lb: "libs_ok lb" and run: "process_sar lb tg iv k st sar = Inr st'"
  shows "gs_grouped st' = add_entries (sar_entries lb tg iv k sar) (gs_grouped st)"
proof (cases "includeStatus tg sar")
  case True
  obtain match unmatch e1 e2 where rx: "testMethodRegex lb (Some tg) = (match, unmatch, e1, e2)"
    by (metis prod.collapse)
  from frames_Suc [OF lb] obtain n where n: "lb_frames lb = Suc (Suc n)" by blast
  have "all_filled (sar_suite sar)" using process_sar_returns [OF lb] run True by blast
  then have cases: "list_all is_case (getTestResults (sar_suite sar))" by (simp add: getTestResults_filled)
  have kept: "kept_results lb tg sar = filter (name_matches match unmatch)
      (filter (has_properties (tg_test_method_properties tg)) (getTestResults (sar_suite sar)))"
    by (simp add: kept_results_def rx)
  from run obtain grouped where
    g: "processTestResults lb tg (append_value k (target_cell tg iv k sar) (gs_grouped st))
        (kept_results lb tg sar) sar (target_cell tg iv k sar) k (testMethodLimit (Some tg)) = Inr grouped"
    and "gs_grouped st' = grouped"
    using filterResults_cases [OF cases, of n "tg_test_method_properties tg" match unmatch]
    by (auto simp: process_sar_def True rx Let_def n kept go_simps split: if_splits)
  with processTestResults_entries [OF g] show ?thesis by (simp add: sar_entries_def True)
qed (use run in \<open>simp add: process_sar_def sar_entries_def\<close>)

lemma process_sar_rest:
  assumes "process_sar lb tg iv k st sar = Inr st'"
  shows "gs_build st' = gs_build st" "gs_started st' = gs_started st" "gs_hint st' = gs_hint st"
    "gs_cells st' = gs_cells st"
  using assms by (auto simp: process_sar_def Let_def go_simps split: if_splits prod.splits)

abbreviation run_targets ::
    "libs \<Rightarrow> test_group \<Rightarrow> invocation \<Rightarrow> group_state \<Rightarrow> (string, single_result list) gomap \<Rightarrow> group_state go" where
  "run_targets lb tg iv st m \<equiv>
     go_fold (\<lambda>st (targetID, sars). go_fold (process_sar lb tg iv targetID) st sars) st m"

lemma fold_const: "fold (\<lambda>x a. a) xs b = b"
  by (induction xs) auto

lemma run_targets_rest:
  assumes "run_targets lb tg iv st m = Inr st'"
  shows "gs_build st' = gs_build st" "gs_started st' = gs_started st" "gs_hint st' = gs_hint st"
    "gs_cells st' = gs_cells st"
proof -
  have one: "part b = part a" if "\<And>k sar a b. process_sar lb tg iv k a sar = Inr b \<Longrightarrow> part b = part a"
    "go_fold (process_sar lb tg iv k) a sars = Inr b" for part :: "group_state \<Rightarrow> 'x" and a b k sars
    using go_fold_part [OF that(2), of part "\<lambda>x a. a"] that(1) by (simp add: fold_const)
  have all: "part st' = part st" if "\<And>k sar a b. process_sar lb tg iv k a sar = Inr b \<Longrightarrow> part b = part a"
    for part :: "group_state \<Rightarrow> 'x"
    using go_fold_part [OF assms, of part "\<lambda>x a. a"] one [of part, OF that] by (auto simp: fold_const)
  show "gs_build st' = gs_build st" by (rule all) (rule process_sar_rest)
  show "gs_started st' = gs_started st" by (rule all) (rule process_sar_rest)
  show "gs_hint st' = gs_hint st" by (rule all) (rule process_sar_rest)
  show "gs_cells st' = gs_cells st" by (rule all) (rule process_sar_rest)
qed

lemma run_targets_grouped:
  assumes lb: "libs_ok lb" and run: "run_targets lb tg iv st m = Inr st'"
  shows "gs_grouped st' = add_entries (target_entries lb tg iv m) (gs_grouped st)"
proof -
  have one: "gs_grouped b = add_entries (concat (map (sar_entries lb tg iv k) sars)) (gs_grouped a)"
    if "go_fold (process_sar lb tg iv k) a sars = Inr b" for a b k sars
    using go_fold_part [OF that, of gs_grouped "\<lambda>sar. add_entries (sar_entries lb tg iv k sar)"]
      process_sar_grouped [OF lb] by (simp add: fold_add_entries)
  have "gs_grouped st' = fold (\<lambda>ks. add_entries (case ks of (k, sars) \<Rightarrow> concat (map (sar_entries lb tg iv k) sars)))
      m (gs_grouped st)"
    using one by (intro go_fold_part [OF run]) (auto split: prod.splits)
  then show ?thesis by (simp only: fold_add_entries target_entries_def)
qed

text \<open>
  The rows of a column: two names of groups of cells are apart when no duplicate of one has the
  name of a duplicate of the other.
\<close>

definition apart :: "string \<Rightarrow> string set \<Rightarrow> bool" where
  "apart k ks \<longleftrightarrow> (\<forall>k' \<in> ks. k' \<noteq> k \<longrightarrow> (\<forall>i j. split_name k i \<noteq> split_name k' j))"

definition shown_cell :: "cell list \<Rightarrow> nat \<Rightarrow> cell option" where
  "shown_cell cs i =
     (if i < min (length cs) (Suc maxDuplicates)
      then Some (if i = maxDuplicates then overflowCell else cs ! i) else None)"

lemma map_of_SplitCells: "map_of (SplitCells k cs) (split_name k i) = shown_cell cs i"
proof (cases "i < min (length cs) (Suc maxDuplicates)")
  case True
  then have "(split_name k i, if i = maxDuplicates then overflowCell else cs ! i) \<in> set (SplitCells k cs)"
    by (auto simp: SplitCells_spec)
  with True show ?thesis by (simp add: shown_cell_def SplitCells_distinct)
next
  case False
  have "split_name k i \<notin> fst ` set (SplitCells k cs)"
  proof
    assume "split_name k i \<in> fst ` set (SplitCells k cs)"
    then obtain j where "j < min (length cs) (Suc maxDuplicates)" "split_name k i = split_name k j"
      by (auto simp: SplitCells_spec)
    with split_name_inj [of k i j] False show False by simp
  qed
  with False show ?thesis by (auto simp: shown_cell_def map_of_eq_None_iff)
qed

lemma map_of_update_all:
  "distinct (map fst kvs) \<Longrightarrow>
   map_of (fold (\<lambda>(n, c). AList.update n c) kvs out) x =
   (case map_of kvs x of Some c \<Rightarrow> Some c | None \<Rightarrow> map_of out x)"
proof (induction kvs arbitrary: out)
  case (Cons kv kvs)
  then show ?case
    by (cases kv) (auto simp: update_conv' map_of_eq_None_iff split: option.splits dest: map_of_SomeD
        intro: rev_image_eqI)
qed simp

lemma map_of_split_all:
  assumes "distinct (map fst m)" "apart k (fst ` set m)"
  shows "map_of (split_all m out) (split_name k i) =
    (case shown_cell (case map_of m k of Some cs \<Rightarrow> cs | None \<Rightarrow> []) i of
       Some c \<Rightarrow> Some c | None \<Rightarrow> map_of out (split_name k i))"
  using assms
proof (induction m arbitrary: out)
  case (Cons kcs m)
  obtain k' cs where kcs: "kcs = (k', cs)" by fastforce
  let ?out = "fold (\<lambda>(n, c). AList.update n c) (SplitCells k' cs) out"
  have apart: "apart k (fst ` set m)" using Cons.prems(2) by (simp add: apart_def)
  have IH: "map_of (split_all m ?out) (split_name k i) =
      (case shown_cell (case map_of m k of Some cs \<Rightarrow> cs | None \<Rightarrow> []) i of
       Some c \<Rightarrow> Some c | None \<Rightarrow> map_of ?out (split_name k i))"
    using Cons.prems(1) by (intro Cons.IH apart) simp
  have out: "map_of ?out x = (case map_of (SplitCells k' cs) x of Some c \<Rightarrow> Some c | None \<Rightarrow> map_of out x)" for x
    by (rule map_of_update_all) (rule SplitCells_distinct)
  have split: "split_all (kcs # m) out = split_all m ?out" by (simp add: split_all_def kcs)
  show ?case
  proof (cases "k' = k")
    case True
    then have "map_of m k = None" using Cons.prems(1) kcs by (simp add: map_of_eq_None_iff)
    then have "map_of (split_all m ?out) (split_name k i) = map_of ?out (split_name k i)"
      by (simp add: IH shown_cell_def)
    with True show ?thesis
      by (simp add: kcs split [unfolded kcs True] out [unfolded True] map_of_SplitCells)
  next
    case False
    have "split_name k i \<notin> fst ` set (SplitCells k' cs)"
      using Cons.prems(2) kcs False by (auto simp: apart_def SplitCells_spec)
    then have "map_of (SplitCells k' cs) (split_name k i) = None" by (simp add: map_of_eq_None_iff)
    then have "map_of ?out (split_name k i) = map_of out (split_name k i)" by (simp add: out)
    note IH [unfolded this]
    with False show ?thesis by (simp add: kcs split [unfolded kcs])
  qed
qed (simp add: split_all_def shown_cell_def)

lemma map_of_add_entries:
  "map_of (add_entries es m) k =
   (let vs = map snd (filter (\<lambda>kv. fst kv = k) es) in
    if vs = [] then map_of m k else Some ((case map_of m k of Some us \<Rightarrow> us | None \<Rightarrow> []) @ vs))"
  by (rule map_of_fold_append_value)

lemma distinct_add_entries: "distinct (map fst m) \<Longrightarrow> distinct (map fst (add_entries es m))"
  by (induction es arbitrary: m) (auto simp: distinct_append_value split: prod.splits)

lemma keys_add_entries: "fst ` set (add_entries es m) = fst ` set es \<union> fst ` set m"
  by (induction es arbitrary: m) (auto simp: append_value_def keys_update split: prod.splits)

definition entry_cells :: "string \<Rightarrow> (string \<times> cell) list \<Rightarrow> cell list" where
  "entry_cells k es = map snd (filter (\<lambda>kv. fst kv = k) es)"

lemma add_entries_value:
  "(case map_of (add_entries es []) k of Some cs \<Rightarrow> cs | None \<Rightarrow> []) = entry_cells k es"
  by (simp add: map_of_add_entries entry_cells_def Let_def)

lemma entry_cells_simps [simp]:
  "entry_cells k [] = []"
  "entry_cells k (kv # es) = (if fst kv = k then snd kv # entry_cells k es else entry_cells k es)"
  by (simp_all add: entry_cells_def)

lemma entry_cells_append: "entry_cells k (es @ fs) = entry_cells k es @ entry_cells k fs"
  by (simp add: entry_cells_def)

lemma shown_cell_grows: "shown_cell cs i = Some c \<Longrightarrow> shown_cell (cs @ ds) i = Some c"
  by (auto simp: shown_cell_def nth_append split: if_splits)

lemma error_cells_entries:
  "testMethodRegex lb (Some tg) = (match, unmatch, e1, e2) \<Longrightarrow>
   error_cell ''test_method_unmatch_regex'' e2 (error_cell ''test_method_match_regex'' e1 m) =
   add_entries (error_entries lb tg) m"
  by (simp add: error_entries_def error_cell_def split: option.splits)

lemma process_invocation_parts:
  assumes lb: "libs_ok lb" and run: "process_invocation lb tg gid st iv = Inr st'"
  shows "gs_grouped st' = add_entries (invocation_entries lb tg iv) (gs_grouped st)"
    and "gs_cells st' = split_all (lb_range_cells lb (gs_grouped st')) (gs_cells st)"
    and "gs_started st' = (let ms = timestampMilliseconds (start_time (iv_proto iv)) in
           if gs_started st = 0 \<or> ms < gs_started st then ms else gs_started st)"
    and "gs_hint st' = (let t = AsTime (start_time (iv_proto iv)) in
           if t > gs_hint st then t else gs_hint st)"
proof -
  obtain match unmatch e1 e2 where rx: "testMethodRegex lb (Some tg) = (match, unmatch, e1, e2)"
    by (metis prod.collapse)
  from run obtain build s0 s1 where
    s0: "s0 = st\<lparr>gs_build := (if build \<noteq> [] then build else gid),
              gs_started := (let ms = timestampMilliseconds (start_time (iv_proto iv)) in
                 if gs_started st = 0 \<or> ms < gs_started st then ms else gs_started st),
              gs_hint := (let t = AsTime (start_time (iv_proto iv)) in
                 if t > gs_hint st then t else gs_hint st),
              gs_headers :=
                add_headers (inv_extractHeaders (Some iv)) (tg_column_header tg) (gs_headers st),
              gs_grouped := add_entries (error_entries lb tg) (gs_grouped st)\<rparr>"
    and s1: "run_targets lb tg iv s0 (lb_range_targets lb (iv_targets iv)) = Inr s1"
    and st': "st' = s1\<lparr>gs_cells := split_all (lb_range_cells lb (gs_grouped s1)) (gs_cells s1)\<rparr>"
    unfolding process_invocation_def Let_def rx prod.case error_cells_entries [OF rx] go_bind_eq_Inr
    by blast
  note rest = run_targets_rest [OF s1]
  show "gs_grouped st' = add_entries (invocation_entries lb tg iv) (gs_grouped st)"
    using run_targets_grouped [OF lb s1] by (simp add: st' s0 invocation_entries_def)
  show "gs_cells st' = split_all (lb_range_cells lb (gs_grouped st')) (gs_cells st)"
    using rest by (simp add: st' s0)
  show "gs_started st' = (let ms = timestampMilliseconds (start_time (iv_proto iv)) in
           if gs_started st = 0 \<or> ms < gs_started st then ms else gs_started st)"
    using rest by (simp add: st' s0)
  show "gs_hint st' = (let t = AsTime (start_time (iv_proto iv)) in
           if t > gs_hint st then t else gs_hint st)"
    using rest by (simp add: st' s0)
qed

text \<open>
  The cells of the column: for a name apart from the others, the cells of its group, in the order
  in which they were met, each under its own name.
\<close>

lemma run_group_cells:
  assumes lb: "libs_ok lb"
    and "go_fold (process_invocation lb tg gid) st ivs = Inr st'"
    and "apart k (fst ` set (group_entries lb tg ivs) \<union> fst ` set (gs_grouped st))"
    and "distinct (map fst (gs_grouped st))"
    and "\<forall>i. map_of (gs_cells st) (split_name k i) =
      shown_cell (case map_of (gs_grouped st) k of Some cs \<Rightarrow> cs | None \<Rightarrow> []) i"
  shows "gs_grouped st' = add_entries (group_entries lb tg ivs) (gs_grouped st) \<and>
    (\<forall>i. map_of (gs_cells st') (split_name k i) =
       shown_cell (case map_of (gs_grouped st') k of Some cs \<Rightarrow> cs | None \<Rightarrow> []) i)"
  using assms(2-)
proof (induction ivs arbitrary: st)
  case (Cons iv ivs)
  from Cons.prems(1) obtain st1 where
    st1: "process_invocation lb tg gid st iv = Inr st1"
    and rest: "go_fold (process_invocation lb tg gid) st1 ivs = Inr st'" by (auto simp: go_simps)
  note parts = process_invocation_parts [OF lb st1]
  let ?es = "invocation_entries lb tg iv"
  have keys: "fst ` set (gs_grouped st1) = fst ` set ?es \<union> fst ` set (gs_grouped st)"
    by (simp add: parts(1) keys_add_entries)
  have apart1: "apart k (fst ` set (group_entries lb tg ivs) \<union> fst ` set (gs_grouped st1))"
    using Cons.prems(2) by (auto simp: apart_def keys group_entries_def)
  have d1: "distinct (map fst (gs_grouped st1))"
    by (simp add: parts(1) distinct_add_entries Cons.prems(3))
  have ms: "mset (lb_range_cells lb (gs_grouped st1)) = mset (gs_grouped st1)"
    using lb by (simp add: libs_ok_def)
  then have sets: "set (lb_range_cells lb (gs_grouped st1)) = set (gs_grouped st1)"
    by (metis set_mset_mset)
  from ms have "mset (map fst (lb_range_cells lb (gs_grouped st1))) = mset (map fst (gs_grouped st1))"
    by (metis mset_map)
  with d1 have d2: "distinct (map fst (lb_range_cells lb (gs_grouped st1)))"
    using mset_eq_imp_distinct_iff by blast
  have look: "map_of (lb_range_cells lb (gs_grouped st1)) = map_of (gs_grouped st1)"
    using d1 d2 sets by (intro map_of_eqI) auto
  have apart2: "apart k (fst ` set (lb_range_cells lb (gs_grouped st1)))"
    using apart1 by (auto simp: apart_def sets)
  let ?old = "case map_of (gs_grouped st) k of Some cs \<Rightarrow> cs | None \<Rightarrow> []"
  let ?new = "case map_of (gs_grouped st1) k of Some cs \<Rightarrow> cs | None \<Rightarrow> []"
  have grows: "?new = ?old @ entry_cells k ?es"
    by (simp add: parts(1) map_of_add_entries entry_cells_def Let_def split: option.splits)
  have "map_of (gs_cells st1) (split_name k i) = shown_cell ?new i" for i
  proof -
    have "map_of (gs_cells st1) (split_name k i) =
        (case shown_cell ?new i of Some c \<Rightarrow> Some c | None \<Rightarrow> shown_cell ?old i)"
      unfolding parts(2) map_of_split_all [OF d2 apart2] look
      unfolding Cons.prems(4) [rule_format] ..
    also have "\<dots> = shown_cell ?new i"
    proof (cases "shown_cell ?new i")
      case None
      have "shown_cell ?old i = None"
      proof (rule ccontr)
        assume "shown_cell ?old i \<noteq> None"
        then obtain c where "shown_cell ?old i = Some c" by blast
        from shown_cell_grows [OF this] None show False unfolding grows by simp
      qed
      with None show ?thesis by simp
    qed simp
    finally show ?thesis .
  qed
  then have "\<forall>i. map_of (gs_cells st1) (split_name k i) = shown_cell ?new i" by blast
  from Cons.IH [OF rest apart1 d1 this] show ?case
    by (simp add: parts(1) group_entries_def)
qed (simp add: group_entries_def)

lemma processGroup_state:
  assumes "processGroup lb tg (Some g) = Inr (Some col)"
  obtains st where "go_fold (process_invocation lb tg (ig_id g)) (group_init tg) (ig_invocations g) = Inr st"
    "col = group_column lb tg (ig_id g) st"
  using assms by (auto simp: processGroup_def go_simps split: if_splits)

lemma processGroup_cells:
  assumes "libs_ok lb" "processGroup lb tg (Some g) = Inr (Some col)"
    "apart k (fst ` set (group_entries lb tg (ig_invocations g)))"
  shows "map_of (ic_cells col) (split_name k i) =
    shown_cell (entry_cells k (group_entries lb tg (ig_invocations g))) i"
proof -
  from processGroup_state [OF assms(2)] obtain st where
    st: "go_fold (process_invocation lb tg (ig_id g)) (group_init tg) (ig_invocations g) = Inr st"
    and col: "col = group_column lb tg (ig_id g) st" .
  from run_group_cells [OF assms(1) st, of k] assms(3) show ?thesis
    by (simp add: col group_column_def group_init_def shown_cell_def add_entries_value)
qed

subsection \<open>The cells of a target\<close>

definition results_for :: "invocation \<Rightarrow> string \<Rightarrow> single_result list" where
  "results_for iv k = (case map_of (iv_targets iv) k of Some sars \<Rightarrow> sars | None \<Rightarrow> [])"

definition target_cells :: "test_group \<Rightarrow> string \<Rightarrow> invocation \<Rightarrow> cell list" where
  "target_cells tg k iv = map (target_cell tg iv k) (filter (includeStatus tg) (results_for iv k))"

text \<open>Names that are neither those of methods nor those under which errors are reported.\<close>

definition plain_name :: "string \<Rightarrow> bool" where
  "plain_name k \<longleftrightarrow> \<not> str_contains k ''@TESTGRID@'' \<and>
     k \<noteq> ''test_method_match_regex'' \<and> k \<noteq> ''test_method_unmatch_regex''"

lemma entry_cells_other: "k \<notin> fst ` set es \<Longrightarrow> entry_cells k es = []"
  by (force simp: entry_cells_def filter_empty_conv)

lemma methodName_other: "plain_name k \<Longrightarrow> k \<noteq> methodName tg t r"
proof
  assume plain: "plain_name k" and k: "k = methodName tg t r"
  obtain n where "methodName tg t r = t @ ''@TESTGRID@'' @ n"
    unfolding methodName_def Let_def by blast
  with k plain show False unfolding plain_name_def str_contains_iff by blast
qed

lemma method_entries_names:
  "kv \<in> set (method_entries lb tg sar c k rs) \<Longrightarrow> \<exists>r. fst kv = methodName tg k r"
  by (auto simp: method_entries_def split: if_splits sum.splits)

lemma entry_cells_sar:
  assumes "plain_name k"
  shows "entry_cells k (sar_entries lb tg iv t sar) =
    (if t = k \<and> includeStatus tg sar then [target_cell tg iv k sar] else [])"
proof -
  have "k \<notin> fst ` set (method_entries lb tg sar c t rs)" for c rs
    using method_entries_names methodName_other [OF assms] by fastforce
  then have "entry_cells k (method_entries lb tg sar c t rs) = []" for c rs
    by (rule entry_cells_other)
  then show ?thesis
    by (cases "t = k") (simp_all add: sar_entries_def)
qed

lemma entry_cells_sars:
  assumes "plain_name k"
  shows "entry_cells k (concat (map (sar_entries lb tg iv t) sars)) =
    (if t = k then map (target_cell tg iv k) (filter (includeStatus tg) sars) else [])"
  by (induction sars) (simp_all add: entry_cells_append entry_cells_sar [OF assms])

lemma entry_cells_targets:
  assumes "plain_name k" "distinct (map fst m)"
  shows "entry_cells k (target_entries lb tg iv m) =
    (case map_of m k of Some sars \<Rightarrow> map (target_cell tg iv k) (filter (includeStatus tg) sars) | None \<Rightarrow> [])"
  using assms(2)
proof (induction m)
  case (Cons ts m)
  obtain t sars where ts: "ts = (t, sars)" by fastforce
  have cons: "entry_cells k (target_entries lb tg iv (ts # m)) =
      entry_cells k (concat (map (sar_entries lb tg iv t) sars)) @ entry_cells k (target_entries lb tg iv m)"
    by (simp add: target_entries_def ts entry_cells_append)
  have "t = k \<Longrightarrow> map_of m k = None"
    using Cons.prems by (simp add: ts map_of_eq_None_iff)
  with Cons show ?case unfolding cons entry_cells_sars [OF assms(1)] by (auto simp: ts)
qed (simp add: target_entries_def entry_cells_def)

lemma entry_cells_invocation:
  assumes lb: "libs_ok lb" and plain: "plain_name k" and d: "distinct (map fst (iv_targets iv))"
  shows "entry_cells k (invocation_entries lb tg iv) = target_cells tg k iv"
proof -
  let ?m = "lb_range_targets lb (iv_targets iv)"
  have ms: "mset ?m = mset (iv_targets iv)" using lb by (simp add: libs_ok_def)
  then have "mset (map fst ?m) = mset (map fst (iv_targets iv))" by (metis mset_map)
  with d have d': "distinct (map fst ?m)" using mset_eq_imp_distinct_iff by blast
  have look: "map_of ?m = map_of (iv_targets iv)"
    using d d' ms by (intro map_of_eqI) (auto dest: mset_eq_setD)
  have "k \<notin> fst ` set (error_entries lb tg)"
    using plain by (auto simp: error_entries_def plain_name_def split: prod.splits option.splits)
  then have "entry_cells k (error_entries lb tg) = []" by (rule entry_cells_other)
  then show ?thesis
    by (simp add: invocation_entries_def entry_cells_append entry_cells_targets [OF plain d'] look
        target_cells_def results_for_def split: option.splits)
qed

lemma entry_cells_group:
  assumes "libs_ok lb" "plain_name k" "\<forall>iv \<in> set ivs. distinct (map fst (iv_targets iv))"
  shows "entry_cells k (group_entries lb tg ivs) = concat (map (target_cells tg k) ivs)"
  using assms(3)
  by (induction ivs) (simp_all add: group_entries_def entry_cells_append
      entry_cells_invocation [OF assms(1,2)])

subsection \<open>Nothing else is in a cell\<close>

text \<open>Cells without metrics, properties, user property or issues.\<close>

definition bare_cell :: "cell \<Rightarrow> bool" where
  "bare_cell c \<longleftrightarrow> c_metrics c = [] \<and> c_properties c = [] \<and> c_user_property c = [] \<and> c_issues c = []"

lemma bare_zero [simp]: "bare_cell zero_cell"
  by (simp add: bare_cell_def zero_cell_def)

lemma bare_update [simp]:
  "bare_cell (c\<lparr>c_result := r\<rparr>) = bare_cell c" "bare_cell (c\<lparr>c_id := s\<rparr>) = bare_cell c"
  "bare_cell (c\<lparr>c_cell_id := s\<rparr>) = bare_cell c" "bare_cell (c\<lparr>c_message := s\<rparr>) = bare_cell c"
  "bare_cell (c\<lparr>c_icon := s\<rparr>) = bare_cell c"
  by (simp_all add: bare_cell_def)

lemma bare_overflow [simp]: "bare_cell overflowCell"
  by (simp add: overflowCell_def)

lemma bare_target [simp]: "bare_cell (target_cell tg iv k sar)"
  by (simp add: target_cell_def Let_def)

lemma bare_method: "method_cell lb tg sar c k r = Inr tr \<Longrightarrow> bare_cell tr"
  by (auto simp: method_cell_def go_simps split: prod.splits)

lemma bare_entries: "(k, c) \<in> set (group_entries lb tg ivs) \<Longrightarrow> bare_cell c"
  by (auto simp: group_entries_def invocation_entries_def target_entries_def sar_entries_def
      method_entries_def error_entries_def dest!: bare_method [OF sym]
      split: if_splits sum.splits option.splits prod.splits)

lemma split_all_values:
  "(n, c) \<in> set (split_all m out) \<Longrightarrow>
   c = overflowCell \<or> (\<exists>k cs. (k, cs) \<in> set m \<and> c \<in> set cs) \<or> (n, c) \<in> set out"
proof (induction m arbitrary: out)
  case (Cons kcs m)
  obtain k cs where kcs: "kcs = (k, cs)" by fastforce
  let ?out = "fold (\<lambda>(n, c). AList.update n c) (SplitCells k cs) out"
  have upd: "(n, c) \<in> set (fold (\<lambda>(n, c). AList.update n c) kvs o') \<Longrightarrow> (n, c) \<in> set kvs \<or> (n, c) \<in> set o'"
    for kvs and o' :: "(string, cell) gomap"
  proof (induction kvs arbitrary: o')
    case (Cons kv kvs)
    obtain a b where kv: "kv = (a, b)" by fastforce
    have "(n, c) \<in> set (AList.update a b m) \<Longrightarrow> (n, c) = (a, b) \<or> (n, c) \<in> set m" for m :: "(string, cell) gomap"
      by (induction m) (auto split: if_splits)
    with Cons.IH [of "AList.update a b o'"] Cons.prems show ?case by (auto simp: kv)
  qed simp
  have "split_all (kcs # m) out = split_all m ?out" by (simp add: split_all_def kcs)
  with Cons.IH [of ?out] Cons.prems upd [of "SplitCells k cs" out] show ?case
    by (auto simp: kcs SplitCells_spec split: if_splits) (metis nth_mem)+
qed (simp add: split_all_def)

lemma run_group_bare:
  assumes lb: "libs_ok lb"
    and "go_fold (process_invocation lb tg gid) st ivs = Inr st'"
    and "\<forall>(k, cs) \<in> set (gs_grouped st). \<forall>c \<in> set cs. bare_cell c"
    and "\<forall>(n, c) \<in> set (gs_cells st). bare_cell c"
  shows "\<forall>(n, c) \<in> set (gs_cells st'). bare_cell c"
  using assms(2-)
proof (induction ivs arbitrary: st)
  case (Cons iv ivs)
  from Cons.prems(1) obtain st1 where
    st1: "process_invocation lb tg gid st iv = Inr st1"
    and rest: "go_fold (process_invocation lb tg gid) st1 ivs = Inr st'" by (auto simp: go_simps)
  note parts = process_invocation_parts [OF lb st1]
  have added: "\<forall>(k, cs) \<in> set (add_entries es m). \<forall>c \<in> set cs. bare_cell c"
    if "\<forall>(k, c) \<in> set es. bare_cell c" "\<forall>(k, cs) \<in> set m. \<forall>c \<in> set cs. bare_cell c" for es m
    using that
  proof (induction es arbitrary: m)
    case (Cons kv es)
    obtain k v where kv: "kv = (k, v)" by fastforce
    have "\<forall>(x, cs) \<in> set (append_value k v m). \<forall>c \<in> set cs. bare_cell c"
    proof clarify
      fix x cs c assume x: "(x, cs) \<in> set (append_value k v m)" "c \<in> set cs"
      have upd: "(x, cs) \<in> set (AList.update k w m) \<Longrightarrow> (x, cs) = (k, w) \<or> (x, cs) \<in> set m" for w
        by (induction m) (auto split: if_splits)
      from upd [OF x(1) [unfolded append_value_def]] x(2) Cons.prems show "bare_cell c"
        by (cases "map_of m k") (fastforce simp: kv dest: map_of_SomeD)+
    qed
    with Cons show ?case by (simp add: kv)
  qed simp
  have "\<forall>(k, c) \<in> set (invocation_entries lb tg iv). bare_cell c"
    using bare_entries [of _ _ lb tg "[iv]"] by (auto simp: group_entries_def)
  from added [OF this Cons.prems(2)] have g1: "\<forall>(k, cs) \<in> set (gs_grouped st1). \<forall>c \<in> set cs. bare_cell c"
    by (simp add: parts(1))
  have "mset (lb_range_cells lb (gs_grouped st1)) = mset (gs_grouped st1)"
    using lb by (simp add: libs_ok_def)
  then have sets: "set (lb_range_cells lb (gs_grouped st1)) = set (gs_grouped st1)"
    by (metis set_mset_mset)
  have "\<forall>(n, c) \<in> set (gs_cells st1). bare_cell c"
  proof clarify
    fix n c assume "(n, c) \<in> set (gs_cells st1)"
    from split_all_values [OF this [unfolded parts(2)]] g1 Cons.prems(3) show "bare_cell c"
      unfolding sets by auto
  qed
  from Cons.IH [OF rest g1 this] show ?case .
qed simp

lemma processGroup_bare:
  assumes "libs_ok lb" "processGroup lb tg (Some g) = Inr (Some col)" "(n, c) \<in> set (ic_cells col)"
  shows "bare_cell c"
proof -
  from processGroup_state [OF assms(2)] obtain st where
    st: "go_fold (process_invocation lb tg (ig_id g)) (group_init tg) (ig_invocations g) = Inr st"
    and col: "col = group_column lb tg (ig_id g) st" .
  from run_group_bare [OF assms(1) st] assms(3) show ?thesis
    by (auto simp: group_init_def col group_column_def)
qed

subsection \<open>Times\<close>

definition inv_start :: "invocation \<Rightarrow> int" where
  "inv_start iv = AsTime (start_time (iv_proto iv))"

definition inv_millis :: "invocation \<Rightarrow> float64" where
  "inv_millis iv = timestampMilliseconds (start_time (iv_proto iv))"

definition newest_start :: "invocation list \<Rightarrow> int" where
  "newest_start ivs = fold max (map inv_start ivs) 0"

lemma fold_max_props:
  "(a :: int) \<le> fold max xs a \<and> (\<forall>x \<in> set xs. x \<le> fold max xs a) \<and> fold max xs a \<in> insert a (set xs)"
proof (induction xs arbitrary: a)
  case (Cons x xs)
  from Cons [of "max x a"] show ?case by (auto simp: max_def split: if_splits)
qed simp

lemma run_group_hint:
  assumes lb: "libs_ok lb" and "go_fold (process_invocation lb tg gid) st ivs = Inr st'"
  shows "gs_hint st' = fold max (map inv_start ivs) (gs_hint st)"
proof -
  have "gs_hint st' = fold (\<lambda>iv. max (inv_start iv)) ivs (gs_hint st)"
    using process_invocation_parts(4) [OF lb]
    by (intro go_fold_part [OF assms(2)]) (auto simp: inv_start_def max_def Let_def)
  then show ?thesis by (simp add: fold_map comp_def)
qed

lemma run_group_started:
  assumes lb: "libs_ok lb" and "go_fold (process_invocation lb tg gid) st ivs = Inr st'"
    and "\<forall>iv \<in> set ivs. 0 < inv_millis iv" "ivs \<noteq> [] \<or> gs_started st > 0" "0 \<le> gs_started st"
  shows "gs_started st' \<in> (if gs_started st = 0 then {} else {gs_started st}) \<union> inv_millis ` set ivs \<and>
    (\<forall>iv \<in> set ivs. gs_started st' \<le> inv_millis iv) \<and> (0 < gs_started st \<longrightarrow> gs_started st' \<le> gs_started st)"
  using assms(2-)
proof (induction ivs arbitrary: st)
  case (Cons iv ivs)
  from Cons.prems(1) obtain st1 where
    st1: "process_invocation lb tg gid st iv = Inr st1"
    and rest: "go_fold (process_invocation lb tg gid) st1 ivs = Inr st'" by (auto simp: go_simps)
  have s1: "gs_started st1 = (if gs_started st = 0 \<or> inv_millis iv < gs_started st then inv_millis iv else gs_started st)"
    using process_invocation_parts(3) [OF lb st1] by (simp add: inv_millis_def Let_def)
  have pos: "0 < gs_started st1" using Cons.prems by (auto simp: s1)
  then have "gs_started st' \<in> {gs_started st1} \<union> inv_millis ` set ivs"
    "\<forall>iv \<in> set ivs. gs_started st' \<le> inv_millis iv" "gs_started st' \<le> gs_started st1"
    using Cons.IH [OF rest] Cons.prems by auto
  then show ?case using Cons.prems by (auto simp: s1 split: if_splits)
qed auto

text \<open>A column starts with its earliest invocation, and its hint is the start of the latest.\<close>

lemma processGroup_times:
  assumes lb: "libs_ok lb" and run: "processGroup lb tg (Some g) = Inr (Some col)"
  shows "col_name (ic_column col) = ig_id g"
    and "col_hint (ic_column col) =
      (case lb_marshal_time lb (newest_start (ig_invocations g)) of Some h \<Rightarrow> h | None \<Rightarrow> [])"
    and "\<forall>iv \<in> set (ig_invocations g). 0 < inv_millis iv \<Longrightarrow>
      col_started (ic_column col) \<in> inv_millis ` set (ig_invocations g) \<and>
      (\<forall>iv \<in> set (ig_invocations g). col_started (ic_column col) \<le> inv_millis iv)"
proof -
  from processGroup_state [OF run] obtain st where
    st: "go_fold (process_invocation lb tg (ig_id g)) (group_init tg) (ig_invocations g) = Inr st"
    and col: "col = group_column lb tg (ig_id g) st" .
  have ne: "ig_invocations g \<noteq> []" using run by (auto simp: processGroup_def)
  show "col_name (ic_column col) = ig_id g" by (simp add: col group_column_def)
  show "col_hint (ic_column col) =
      (case lb_marshal_time lb (newest_start (ig_invocations g)) of Some h \<Rightarrow> h | None \<Rightarrow> [])"
    using run_group_hint [OF lb st] by (simp add: col group_column_def newest_start_def group_init_def)
  show "col_started (ic_column col) \<in> inv_millis ` set (ig_invocations g) \<and>
      (\<forall>iv \<in> set (ig_invocations g). col_started (ic_column col) \<le> inv_millis iv)"
    if "\<forall>iv \<in> set (ig_invocations g). 0 < inv_millis iv"
    using run_group_started [OF lb st that] ne
    by (simp add: col group_column_def group_init_def)
qed

end
