(* ===== verification/Result_Search.thy ===== *)
theory Result_Search
  imports Result_Cells
begin

text \<open>
  The ResultStore column reader, third part: the time at which the search for invocations stops,
  the queries, the client's loops over pages (\<open>pkg/updater/resultstore/client.go\<close>) and the reader.

  The service is a parameter: three functions from the arguments of a call to its answer.
\<close>

section \<open>Where the search stops\<close>

definition second_ns :: int where
  "second_ns = 1000000000"

text \<open>The zero \<open>time.Time\<close>, and \<open>Truncate(time.Second)\<close>.\<close>

definition zero_time :: int where
  "zero_time = zero_unix * second_ns"

definition truncate_second :: "int \<Rightarrow> int" where
  "truncate_second t = t - t mod second_ns"

definition mostRecent :: "int list \<Rightarrow> int" where
  "mostRecent ts = foldl (\<lambda>newest t. if t > newest then t else newest) zero_time ts"

definition column_stop :: "libs \<Rightarrow> int \<Rightarrow> inflated_column \<Rightarrow> int" where
  "column_stop lb stop col =
     (let startedMillis = col_started (ic_column col) in
      if startedMillis = 0 then stop
      else mostRecent
        [trunc (startedMillis / 1000) * second_ns,
         (case lb_unmarshal_time lb (col_hint (ic_column col)) of Some t \<Rightarrow> t | None \<Rightarrow> zero_time), stop])"

definition stopFromColumns :: "libs \<Rightarrow> inflated_column list \<Rightarrow> int" where
  "stopFromColumns lb cols = truncate_second (foldl (column_stop lb) zero_time cols)"

text \<open>
  \<open>stop.Add\<close> returns the earlier time, and the code drops what it returns.  A day of \<open>AddDate\<close> is
  86400 seconds, as it is in UTC; in a zone with daylight saving it can be an hour longer or shorter.
\<close>

definition updateStop ::
    "libs \<Rightarrow> test_group \<Rightarrow> int \<Rightarrow> inflated_column list \<Rightarrow> int \<Rightarrow> int \<Rightarrow> int" where
  "updateStop lb tg now oldCols defaultStop reprocess =
     (let hint = stopFromColumns lb oldCols;
          days = (if tg_days_of_results tg = 0 then 1 else tg_days_of_results tg);
          oldest = now - 2 * days * 86400 * second_ns;
          stop = mostRecent [hint, defaultStop, oldest];
          reprocessTime = now - reprocess;
          stop = (if stop > reprocessTime then reprocessTime else stop);
          stop = (if tg_primary_grouping tg = PRIMARY_GROUPING_BUILD
                  then snd (stop - 30 * 60 * second_ns, stop) else stop)
      in truncate_second stop)"

section \<open>The search\<close>

definition queryAfter :: "libs \<Rightarrow> string \<Rightarrow> int \<Rightarrow> string" where
  "queryAfter lb query when =
     (if query = [] then []
      else query @ '' timing.start_time>='' @ quote #
        lb_format_time lb when ''2006-01-02T15:04:05Z07:00'' @ [quote])"

definition prowLabel :: string where
  "prowLabel = ''invocation_attributes.labels:'' @ quote # ''prow'' @ [quote]"

definition prowTargetLabel :: string where
  "prowTargetLabel = ''invocation.invocation_attributes.labels:'' @ quote # ''prow'' @ [quote]"

definition queryProw :: "libs \<Rightarrow> string \<Rightarrow> int \<Rightarrow> string go" where
  "queryProw lb baseQuery stop =
     (if baseQuery = [] then Inr (queryAfter lb prowLabel stop)
      else go_bind (TranslateQuery baseQuery) (\<lambda>query.
        Inr (queryAfter lb (query @ '' '' @ prowTargetLabel) stop)))"

text \<open>
  The service: its three calls with the query, the project or the name, and the token of the page;
  the two searches answer with a page and the token of the next one.
\<close>

record export_response =
  ex_invocation :: "rs_invocation option"
  ex_actions :: "action list"
  ex_configured_targets :: "configured_target list"
  ex_targets :: "rs_target list"
  ex_next :: string

record download_client =
  dc_search_invocations :: "string \<Rightarrow> string \<Rightarrow> string \<Rightarrow> (rs_invocation list \<times> string) go"
  dc_search_targets :: "string \<Rightarrow> string \<Rightarrow> string \<Rightarrow> (configured_target list \<times> string) go"
  dc_export :: "string \<Rightarrow> string \<Rightarrow> export_response go"

definition invocationSearch ::
    "download_client \<Rightarrow> string \<Rightarrow> string \<Rightarrow> string \<Rightarrow> (string list \<times> string) go" where
  "invocationSearch client query project token =
     go_bind (dc_search_invocations client query project token)
       (\<lambda>(invs, nxt). Inr (map in_id invs, nxt))"

definition targetSearch ::
    "download_client \<Rightarrow> string \<Rightarrow> string \<Rightarrow> string \<Rightarrow> (string list \<times> string) go" where
  "targetSearch client query project token =
     go_bind (dc_search_targets client query project token)
       (\<lambda>(cts, nxt). Inr (map ct_invocation cts, nxt))"

text \<open>The loop over the pages ends when a page has no next token; None stands for a loop that does not.\<close>

partial_function (option) search_loop ::
    "(string \<Rightarrow> (string list \<times> string) go) \<Rightarrow> string list \<Rightarrow> string \<Rightarrow> string list go option" where
  "search_loop page ids token =
     (case page token of
        Inl e \<Rightarrow> Some (Inl e)
      | Inr (more_ids, nxt) \<Rightarrow>
          if nxt = [] then Some (Inr (ids @ more_ids)) else search_loop page (ids @ more_ids) nxt)"

definition Search :: "download_client \<Rightarrow> string \<Rightarrow> string \<Rightarrow> string list go option" where
  "Search client query project =
     search_loop
       (if str_contains query ''id.target_id='' then targetSearch client query project
        else invocationSearch client query project) [] []"

definition add_page :: "fetch_result \<Rightarrow> export_response \<Rightarrow> fetch_result" where
  "add_page r resp =
     \<lparr>fr_invocation = (if fr_invocation r = None then ex_invocation resp else fr_invocation r),
      fr_actions = fr_actions r @ ex_actions resp,
      fr_configured_targets = fr_configured_targets r @ ex_configured_targets resp,
      fr_targets = fr_targets r @ ex_targets resp\<rparr>"

partial_function (option) fetch_loop ::
    "(string \<Rightarrow> export_response go) \<Rightarrow> fetch_result \<Rightarrow> string \<Rightarrow> fetch_result go option" where
  "fetch_loop page r token =
     (case page token of
        Inl e \<Rightarrow> Some (Inl e)
      | Inr resp \<Rightarrow>
          if ex_next resp = [] then Some (Inr (add_page r resp))
          else fetch_loop page (add_page r resp) (ex_next resp))"

definition empty_fetch :: fetch_result where
  "empty_fetch =
     \<lparr>fr_invocation = None, fr_actions = [], fr_configured_targets = [], fr_targets = []\<rparr>"

definition FetchInvocation :: "download_client \<Rightarrow> string \<Rightarrow> fetch_result go option" where
  "FetchInvocation client invocationID =
     fetch_loop (dc_export client (''invocations/'' @ invocationID)) empty_fetch []"

definition search ::
    "libs \<Rightarrow> download_client option \<Rightarrow> resultstore_config option \<Rightarrow> int \<Rightarrow> string list go option" where
  "search lb client rsConfig stop =
     (case client of
        None \<Rightarrow> Some (Inl (Failed ''no ResultStore client provided''))
      | Some client \<Rightarrow>
        (case queryProw lb (case rsConfig of Some c \<Rightarrow> rsc_query c | None \<Rightarrow> []) stop of
           Inl e \<Rightarrow> Some (Inl (Failed ''queryProw() failed to create query''))
         | Inr query \<Rightarrow> Search client query (case rsConfig of Some c \<Rightarrow> rsc_project c | None \<Rightarrow> [])))"

text \<open>An invocation that cannot be fetched is left out.\<close>

fun fetch_all :: "download_client \<Rightarrow> string list \<Rightarrow> fetch_result list option" where
  "fetch_all client [] = Some []"
| "fetch_all client (i # ids) =
     (case FetchInvocation client i of
        None \<Rightarrow> None
      | Some (Inl e) \<Rightarrow> fetch_all client ids
      | Some (Inr r) \<Rightarrow> map_option ((#) r) (fetch_all client ids))"

definition ColumnReader ::
    "libs \<Rightarrow> download_client \<Rightarrow> int \<Rightarrow> test_group \<Rightarrow> inflated_column list \<Rightarrow> int \<Rightarrow> int \<Rightarrow>
     inflated_column list go option" where
  "ColumnReader lb client reprocess tg oldCols defaultStop now =
     (case search lb (Some client) (get_resultstore_config tg)
             (updateStop lb tg now oldCols defaultStop reprocess) of
        None \<Rightarrow> None
      | Some (Inl e) \<Rightarrow> Some (Inl (Failed ''error searching invocations''))
      | Some (Inr ids) \<Rightarrow> map_option (read_columns lb tg) (fetch_all client ids))"

definition shouldUpdate :: "test_group \<Rightarrow> download_client option \<Rightarrow> bool" where
  "shouldUpdate tg client \<longleftrightarrow> get_resultstore_config tg \<noteq> None \<and> client \<noteq> None"

section \<open>Pages\<close>

text \<open>The pages from a token on, up to the one without a next token.\<close>

inductive page_chain :: "(string \<Rightarrow> ('a \<times> string) go) \<Rightarrow> string \<Rightarrow> 'a list \<Rightarrow> bool" for page where
  last_page: "page t = Inr (x, []) \<Longrightarrow> page_chain page t [x]"
| next_page: "page t = Inr (x, n) \<Longrightarrow> n \<noteq> [] \<Longrightarrow> page_chain page n xs \<Longrightarrow> page_chain page t (x # xs)"

inductive_cases page_chainE: "page_chain page t xs"

lemma search_loop_chain:
  "page_chain page t xss \<Longrightarrow> search_loop page ids t = Some (Inr (ids @ concat xss))"
  by (induction arbitrary: ids rule: page_chain.induct) (simp_all add: search_loop.simps)

lemma search_loop_only:
  assumes "search_loop page ids t = Some (Inr r)"
  shows "\<exists>xss. page_chain page t xss \<and> r = ids @ concat xss"
proof -
  have "\<forall>r. y = Inr r \<longrightarrow> (\<exists>xss. page_chain page t xss \<and> r = ids @ concat xss)"
    if "search_loop page ids t = Some y" for page ids t y
    using that
  proof (rule search_loop.raw_induct
      [where P = "\<lambda>page ids t y. \<forall>r. y = Inr r \<longrightarrow> (\<exists>xss. page_chain page t xss \<and> r = ids @ concat xss)", rotated])
    fix loop and page :: "string \<Rightarrow> (string list \<times> string) go" and ids t y
    assume IH: "\<And>page ids t y. loop page ids t = Some y \<Longrightarrow>
        \<forall>r. y = Inr r \<longrightarrow> (\<exists>xss. page_chain page t xss \<and> r = ids @ concat xss)"
      and body: "(case page t of Inl e \<Rightarrow> Some (Inl e)
        | Inr (x, n) \<Rightarrow> if n = [] then Some (Inr (ids @ x)) else loop page (ids @ x) n) = Some y"
    show "\<forall>r. y = Inr r \<longrightarrow> (\<exists>xss. page_chain page t xss \<and> r = ids @ concat xss)"
    proof (intro allI impI)
      fix r assume y: "y = Inr r"
      with body obtain x n where p: "page t = Inr (x, n)" by (cases "page t") auto
      show "\<exists>xss. page_chain page t xss \<and> r = ids @ concat xss"
      proof (cases "n = []")
        case True
        with body p y have "r = ids @ concat [x]" by simp
        moreover have "page_chain page t [x]" using p True by (simp add: last_page)
        ultimately show ?thesis by blast
      next
        case False
        with body p have "loop page (ids @ x) n = Some y" by simp
        from IH [OF this] y obtain xss where "page_chain page n xss" "r = (ids @ x) @ concat xss" by blast
        then have "page_chain page t (x # xss)" "r = ids @ concat (x # xss)"
          using next_page [of page, OF p False] by auto
        then show ?thesis by blast
      qed
    qed
  qed
  with assms show ?thesis by blast
qed

text \<open>The search gives the ids of all the pages, and gives none when the pages do not end.\<close>

lemma search_loop_iff:
  "search_loop page [] t = Some (Inr r) \<longleftrightarrow> (\<exists>xss. page_chain page t xss \<and> r = concat xss)"
  using search_loop_chain [of page t _ "[]"] search_loop_only [of page "[]" t] by auto

definition response_page :: "(string \<Rightarrow> export_response go) \<Rightarrow> string \<Rightarrow> (export_response \<times> string) go" where
  "response_page page t = go_bind (page t) (\<lambda>resp. Inr (resp, ex_next resp))"

lemma fetch_loop_chain:
  "page_chain (response_page page) t resps \<Longrightarrow> fetch_loop page r t = Some (Inr (fold (\<lambda>x r. add_page r x) resps r))"
  by (induction arbitrary: r rule: page_chain.induct)
     (auto simp: response_page_def go_simps fetch_loop.simps)

lemma fetch_loop_only:
  assumes "fetch_loop page r t = Some (Inr res)"
  shows "\<exists>resps. page_chain (response_page page) t resps \<and> res = fold (\<lambda>x r. add_page r x) resps r"
proof -
  let ?P = "\<lambda>page r t y. \<forall>res. y = Inr res \<longrightarrow>
    (\<exists>resps. page_chain (response_page page) t resps \<and> res = fold (\<lambda>x r. add_page r x) resps r)"
  have "?P page r t y" if "fetch_loop page r t = Some y" for page r t y
    using that
  proof (rule fetch_loop.raw_induct [where P = ?P, rotated])
    fix loop and page :: "string \<Rightarrow> export_response go" and r t y
    assume IH: "\<And>page r t y. loop page r t = Some y \<Longrightarrow> ?P page r t y"
      and body: "(case page t of Inl e \<Rightarrow> Some (Inl e)
        | Inr resp \<Rightarrow> if ex_next resp = [] then Some (Inr (add_page r resp))
            else loop page (add_page r resp) (ex_next resp)) = Some y"
    show "?P page r t y"
    proof (intro allI impI)
      fix res assume y: "y = Inr res"
      with body obtain resp where p: "page t = Inr resp" by (cases "page t") auto
      then have rp: "response_page page t = Inr (resp, ex_next resp)" by (simp add: response_page_def)
      show "\<exists>resps. page_chain (response_page page) t resps \<and> res = fold (\<lambda>x r. add_page r x) resps r"
      proof (cases "ex_next resp = []")
        case True
        with body p y have "res = fold (\<lambda>x r. add_page r x) [resp] r" by simp
        moreover have "page_chain (response_page page) t [resp]" using rp True by (simp add: last_page)
        ultimately show ?thesis by blast
      next
        case False
        with body p have "loop page (add_page r resp) (ex_next resp) = Some y" by simp
        from IH [OF this] y obtain resps where
          "page_chain (response_page page) (ex_next resp) resps"
          "res = fold (\<lambda>x r. add_page r x) resps (add_page r resp)" by blast
        then have "page_chain (response_page page) t (resp # resps)"
          "res = fold (\<lambda>x r. add_page r x) (resp # resps) r"
          using next_page [of "response_page page", OF rp False] by auto
        then show ?thesis by blast
      qed
    qed
  qed
  with assms show ?thesis by blast
qed

lemma fold_add_page:
  "fold (\<lambda>x r. add_page r x) resps r =
   \<lparr>fr_invocation = (case fr_invocation r of Some i \<Rightarrow> Some i
       | None \<Rightarrow> (case List.map_filter ex_invocation resps of [] \<Rightarrow> None | i # _ \<Rightarrow> Some i)),
    fr_actions = fr_actions r @ concat (map ex_actions resps),
    fr_configured_targets = fr_configured_targets r @ concat (map ex_configured_targets resps),
    fr_targets = fr_targets r @ concat (map ex_targets resps)\<rparr>"
proof (induction resps arbitrary: r)
  case Nil
  then show ?case by (cases r) (simp add: List.map_filter_simps split: option.splits)
next
  case (Cons x resps)
  show ?case
    by (simp add: Cons.IH) (auto simp: add_page_def List.map_filter_simps split: option.splits)
qed

section \<open>The stop\<close>

lemma mostRecent_fold: "mostRecent ts = fold max ts zero_time"
proof -
  have "foldl (\<lambda>newest t. if t > newest then t else newest) a ts = fold max ts a" for a
    by (induction ts arbitrary: a) (simp_all add: max_def)
  then show ?thesis by (simp add: mostRecent_def)
qed

lemma second_pos: "0 < second_ns"
  by (simp add: second_ns_def)

lemma truncate_second_alt: "truncate_second t = t div second_ns * second_ns"
  by (simp add: truncate_second_def minus_mod_eq_div_mult)

lemma truncate_second_le: "truncate_second t \<le> t" and truncate_second_gt: "t < truncate_second t + second_ns"
  using second_pos by (simp_all add: truncate_second_def)

lemma truncate_second_mono: "a \<le> b \<Longrightarrow> truncate_second a \<le> truncate_second b"
  using second_pos by (simp add: truncate_second_alt zdiv_mono1)

lemma truncate_second_whole [simp]: "truncate_second (k * second_ns) = k * second_ns"
  using second_pos by (simp add: truncate_second_alt)

text \<open>What one column asks for: its start in whole seconds and its hint.\<close>

definition column_time :: "libs \<Rightarrow> inflated_column \<Rightarrow> int" where
  "column_time lb col =
     max (trunc (col_started (ic_column col) / 1000) * second_ns)
       (case lb_unmarshal_time lb (col_hint (ic_column col)) of Some t \<Rightarrow> t | None \<Rightarrow> zero_time)"

lemma column_stop_max:
  "zero_time \<le> stop \<Longrightarrow> column_stop lb stop col =
    (if col_started (ic_column col) = 0 then stop else max (column_time lb col) stop)"
  by (auto simp: column_stop_def Let_def mostRecent_fold column_time_def max_def)

lemma stopFromColumns_fold:
  "stopFromColumns lb cols =
     truncate_second (fold max (map (column_time lb)
       (filter (\<lambda>c. col_started (ic_column c) \<noteq> 0) cols)) zero_time)"
proof -
  have "zero_time \<le> a \<Longrightarrow> foldl (column_stop lb) a cols =
      fold max (map (column_time lb) (filter (\<lambda>c. col_started (ic_column c) \<noteq> 0) cols)) a" for a
    by (induction cols arbitrary: a) (auto simp: column_stop_max)
  then show ?thesis by (simp add: stopFromColumns_def)
qed

text \<open>The stop in one formula.  The primary grouping does not occur in it.\<close>

definition oldest_days :: "test_group \<Rightarrow> int \<Rightarrow> int" where
  "oldest_days tg now =
     now - 2 * (if tg_days_of_results tg = 0 then 1 else tg_days_of_results tg) * 86400 * second_ns"

lemma updateStop_formula:
  "updateStop lb tg now oldCols defaultStop reprocess =
   truncate_second (min (now - reprocess)
     (fold max [stopFromColumns lb oldCols, defaultStop, oldest_days tg now] zero_time))"
  by (simp add: updateStop_def Let_def mostRecent_fold oldest_days_def min_def)

lemma updateStop_grouping:
  "updateStop lb (tg\<lparr>tg_primary_grouping := p\<rparr>) now oldCols defaultStop reprocess =
   updateStop lb tg now oldCols defaultStop reprocess"
  by (simp add: updateStop_formula oldest_days_def)

lemma updateStop_bounds:
  "updateStop lb tg now oldCols defaultStop reprocess \<le> now - reprocess"
  "min (now - reprocess) (oldest_days tg now) - second_ns < updateStop lb tg now oldCols defaultStop reprocess"
proof -
  let ?m = "fold max [stopFromColumns lb oldCols, defaultStop, oldest_days tg now] zero_time"
  show "updateStop lb tg now oldCols defaultStop reprocess \<le> now - reprocess"
    using truncate_second_le [of "min (now - reprocess) ?m"] by (simp add: updateStop_formula)
  have "oldest_days tg now \<le> ?m" by simp
  then have "min (now - reprocess) (oldest_days tg now) \<le> min (now - reprocess) ?m" by (simp add: min_def)
  with truncate_second_gt [of "min (now - reprocess) ?m"]
  show "min (now - reprocess) (oldest_days tg now) - second_ns < updateStop lb tg now oldCols defaultStop reprocess"
    unfolding updateStop_formula by linarith
qed

lemma stopFromColumns_ge:
  assumes "col \<in> set cols" "col_started (ic_column col) \<noteq> 0"
  shows "truncate_second (column_time lb col) \<le> stopFromColumns lb cols"
  unfolding stopFromColumns_fold
  using fold_max_props [of zero_time "map (column_time lb) (filter (\<lambda>c. col_started (ic_column c) \<noteq> 0) cols)"] assms
  by (intro truncate_second_mono) auto

text \<open>
  The start of a column is read as if its nanoseconds were microseconds, so that the next search
  can stop up to 999 seconds after it.
\<close>

lemma inv_millis_seconds:
  assumes "start_time (iv_proto iv) = Some t" "0 \<le> ts_seconds t" "0 \<le> ts_nanos t"
  shows "trunc (inv_millis iv / 1000) = ts_seconds t + ts_nanos t div 1000000"
proof -
  have "inv_millis iv / 1000 = of_int (ts_seconds t) + of_int (ts_nanos t) / of_int 1000000"
    using assms(1)
    by (simp add: inv_millis_def timestampMilliseconds_def get_seconds_def get_nanos_def field_simps)
  moreover have "\<lfloor>of_int (ts_seconds t) + of_int (ts_nanos t) / (of_int 1000000 :: rat)\<rfloor> =
      ts_seconds t + ts_nanos t div 1000000"
    using floor_divide_of_int_eq [of "ts_nanos t" 1000000, where 'a = rat] by (simp add: floor_add2 [symmetric])
  moreover have "0 \<le> of_int (ts_seconds t) + of_int (ts_nanos t) / (of_int 1000000 :: rat)"
    using assms(2,3) by simp
  ultimately show ?thesis unfolding trunc_def by presburger
qed

text \<open>Reading its own columns again, the reader asks for what starts after them.\<close>

lemma updateStop_late:
  assumes lb: "libs_ok lb" and run: "processGroup lb tg (Some g) = Inr (Some col)"
    and g: "ig_invocations g = [iv]" and t: "start_time (iv_proto iv) = Some t"
    and pos: "0 < ts_seconds t" "0 \<le> ts_nanos t" and old: "col \<in> set oldCols"
  shows "min now ((ts_seconds t + ts_nanos t div 1000000) * second_ns) - second_ns
    < updateStop lb tg' now oldCols defaultStop 0"
    and "(ts_seconds t + ts_nanos t div 1000000) * second_ns \<le> now \<Longrightarrow>
      (ts_seconds t + ts_nanos t div 1000000) * second_ns \<le> updateStop lb tg' now oldCols defaultStop 0"
proof -
  let ?s = "(ts_seconds t + ts_nanos t div 1000000) * second_ns"
  have ms: "0 < inv_millis iv"
    using t pos by (simp add: inv_millis_def timestampMilliseconds_def get_seconds_def get_nanos_def add_pos_nonneg)
  then have started: "col_started (ic_column col) = inv_millis iv"
    using processGroup_times(3) [OF lb run] by (simp add: g)
  then have "?s \<le> column_time lb col"
    using inv_millis_seconds [OF t] pos by (simp add: column_time_def)
  then have "truncate_second ?s \<le> truncate_second (column_time lb col)" by (rule truncate_second_mono)
  also have "\<dots> \<le> stopFromColumns lb oldCols" using stopFromColumns_ge [OF old] ms started by simp
  finally have s: "?s \<le> stopFromColumns lb oldCols" by simp
  let ?m = "fold max [stopFromColumns lb oldCols, defaultStop, oldest_days tg' now] zero_time"
  have "stopFromColumns lb oldCols \<le> ?m" by simp
  with s have m: "?s \<le> ?m" by linarith
  then show "min now ?s - second_ns < updateStop lb tg' now oldCols defaultStop 0"
    using truncate_second_gt [of "min (now - 0) ?m"] unfolding updateStop_formula by linarith
  assume "?s \<le> now"
  with m have "truncate_second ?s \<le> truncate_second (min (now - 0) ?m)" by (intro truncate_second_mono) linarith
  then show "?s \<le> updateStop lb tg' now oldCols defaultStop 0"
    unfolding updateStop_formula by simp
qed

section \<open>The columns that are read\<close>

definition invocation_ok :: "test_group \<Rightarrow> invocation \<Rightarrow> bool" where
  "invocation_ok tg iv \<longleftrightarrow>
     (tg_build_override_configuration_value tg = [] \<and> tg_build_override_strftime tg \<noteq> [] \<longrightarrow>
        start_time (iv_proto iv) \<noteq> None) \<and>
     (\<forall>(k, sars) \<in> set (iv_targets iv). \<forall>sar \<in> set sars. includeStatus tg sar \<longrightarrow> all_filled (sar_suite sar))"

lemma group_ok_iff: "group_ok tg g \<longleftrightarrow> (\<forall>iv \<in> set (ig_invocations g). invocation_ok tg iv)"
  by (simp add: group_ok_def invocation_ok_def)

lemma sort_invocations_set [simp]: "set (sort_invocations ivs) = set ivs"
  by (metis mset_slice_stable set_mset_mset sort_invocations_def)

lemma invocation_ok_id: "invocation_ok tg iv \<Longrightarrow> \<exists>k. extractGroupID lb tg (Some iv) = Inr k"
  using identifyBuild_returns [of lb tg iv] by (auto simp: extractGroupID_def invocation_ok_def)

lemma groupInvocations_returns:
  "(\<exists>gs. groupInvocations lb tg ivs = Inr gs) \<longleftrightarrow> (\<forall>iv \<in> set ivs. \<exists>k. extractGroupID lb tg (Some iv) = Inr k)"
proof -
  have "(\<exists>m. go_fold (\<lambda>m iv. go_bind (extractGroupID lb tg (Some iv)) (\<lambda>k. Inr (append_value k iv m))) [] ivs = Inr m)
      \<longleftrightarrow> (\<forall>iv \<in> set ivs. \<exists>k. extractGroupID lb tg (Some iv) = Inr k)"
    by (rule go_fold_returns) (simp add: bind_returns)
  then show ?thesis by (simp add: groupInvocations_def bind_returns)
qed

lemma column_of_group:
  assumes "libs_ok lb" "ig_invocations g \<noteq> []"
  shows "(\<exists>col. go_bind (processGroup lb tg (Some g)) (\<lambda>c. case c of None \<Rightarrow> nil_call | Some col \<Rightarrow> Inr col) = Inr col)
    \<longleftrightarrow> group_ok tg g"
proof -
  have "go_bind (processGroup lb tg (Some g)) (\<lambda>c. case c of None \<Rightarrow> nil_call | Some col \<Rightarrow> Inr col) = Inr col
      \<longleftrightarrow> processGroup lb tg (Some g) = Inr (Some col)" for col
    by (cases "processGroup lb tg (Some g)") (auto simp: nil_call_def split: option.splits)
  then show ?thesis by (simp only: processGroup_returns [OF assms])
qed

lemma go_map_returns: "(\<exists>ys. go_map f xs = Inr ys) \<longleftrightarrow> (\<forall>x \<in> set xs. \<exists>y. f x = Inr y)"
  by (induction xs) (auto simp: bind_returns go_simps)

text \<open>
  The reader returns columns exactly when every fetched invocation is in order: what one
  invocation holds can stop the columns of all the others.
\<close>

lemma read_columns_returns:
  assumes lb: "libs_ok lb"
  shows "(\<exists>cols. read_columns lb tg results = Inr cols) \<longleftrightarrow>
    (\<forall>iv \<in> set (processRawResults results). invocation_ok tg iv)"
proof -
  let ?ivs = "sort_invocations (processRawResults results)"
  let ?col = "\<lambda>g. go_bind (processGroup lb tg (Some g)) (\<lambda>c. case c of None \<Rightarrow> nil_call | Some col \<Rightarrow> Inr col)"
  show ?thesis
  proof (cases "\<exists>gs. groupInvocations lb tg ?ivs = Inr gs")
    case True
    then obtain gs where gs: "groupInvocations lb tg ?ivs = Inr gs" by blast
    note spec = groupInvocations_spec [OF gs lb]
    have "(\<exists>cols. read_columns lb tg results = Inr cols) \<longleftrightarrow> (\<forall>g \<in> set gs. \<exists>col. ?col g = Inr col)"
      by (simp add: read_columns_def gs go_map_returns)
    also have "\<dots> \<longleftrightarrow> (\<forall>g \<in> set gs. \<forall>iv \<in> set (ig_invocations g). invocation_ok tg iv)"
    proof (intro ball_cong refl)
      fix g assume "g \<in> set gs"
      with spec(3) have "ig_invocations g \<noteq> []" by blast
      from column_of_group [OF lb this, of tg]
      show "(\<exists>col. ?col g = Inr col) = (\<forall>iv \<in> set (ig_invocations g). invocation_ok tg iv)"
        unfolding group_ok_iff .
    qed
    also have "\<dots> \<longleftrightarrow> (\<forall>iv \<in> set ?ivs. invocation_ok tg iv)"
    proof
      assume all: "\<forall>g \<in> set gs. \<forall>iv \<in> set (ig_invocations g). invocation_ok tg iv"
      with spec(4) show "\<forall>iv \<in> set ?ivs. invocation_ok tg iv" by blast
    next
      assume all: "\<forall>iv \<in> set ?ivs. invocation_ok tg iv"
      show "\<forall>g \<in> set gs. \<forall>iv \<in> set (ig_invocations g). invocation_ok tg iv"
      proof (intro ballI)
        fix g iv assume "g \<in> set gs" "iv \<in> set (ig_invocations g)"
        with spec(3) have "iv \<in> set ?ivs" by (metis filter_is_subset in_mono)
        with all show "invocation_ok tg iv" by blast
      qed
    qed
    finally show ?thesis by simp
  next
    case False
    then have "\<nexists>cols. read_columns lb tg results = Inr cols" by (auto simp: read_columns_def go_simps)
    moreover from False have "\<not> (\<forall>iv \<in> set ?ivs. \<exists>k. extractGroupID lb tg (Some iv) = Inr k)"
      by (simp add: groupInvocations_returns)
    then have "\<not> (\<forall>iv \<in> set (processRawResults results). invocation_ok tg iv)"
      using invocation_ok_id by fastforce
    ultimately show ?thesis by blast
  qed
qed

text \<open>One column per group, in the order of the groups.\<close>

lemma read_columns_groups:
  assumes "read_columns lb tg results = Inr cols"
  obtains gs where "groupInvocations lb tg (sort_invocations (processRawResults results)) = Inr gs"
    "length cols = length gs"
    "\<And>i. i < length gs \<Longrightarrow> processGroup lb tg (Some (gs ! i)) = Inr (Some (cols ! i))"
proof -
  from assms obtain gs where gs: "groupInvocations lb tg (sort_invocations (processRawResults results)) = Inr gs"
    and m: "go_map (\<lambda>g. go_bind (processGroup lb tg (Some g))
      (\<lambda>col. case col of None \<Rightarrow> nil_call | Some col \<Rightarrow> Inr col)) gs = Inr cols"
    by (auto simp: read_columns_def go_simps)
  have "processGroup lb tg (Some (gs ! i)) = Inr (Some (cols ! i))" if "i < length gs" for i
    using go_map_nth [OF m that] by (auto simp: go_simps nil_call_def split: option.splits)
  with gs go_map_length [OF m] that show ?thesis by blast
qed

lemma read_columns_names:
  assumes lb: "libs_ok lb" and run: "read_columns lb tg results = Inr cols"
  shows "distinct (map (\<lambda>c. col_name (ic_column c)) cols)"
    and "\<forall>iv \<in> set (processRawResults results). \<exists>c \<in> set cols.
      extractGroupID lb tg (Some iv) = Inr (col_name (ic_column c))"
proof -
  from read_columns_groups [OF run] obtain gs where
    gs: "groupInvocations lb tg (sort_invocations (processRawResults results)) = Inr gs"
    and len: "length cols = length gs"
    and nth: "\<And>i. i < length gs \<Longrightarrow> processGroup lb tg (Some (gs ! i)) = Inr (Some (cols ! i))"
    by blast
  note spec = groupInvocations_spec [OF gs lb]
  have name: "col_name (ic_column (cols ! i)) = ig_id (gs ! i)" if "i < length gs" for i
    by (rule processGroup_times(1) [OF lb nth [OF that]])
  then have "map (\<lambda>c. col_name (ic_column c)) cols = map ig_id gs"
    using len by (intro nth_equalityI) auto
  with spec(2) show "distinct (map (\<lambda>c. col_name (ic_column c)) cols)" by simp
  show "\<forall>iv \<in> set (processRawResults results). \<exists>c \<in> set cols.
      extractGroupID lb tg (Some iv) = Inr (col_name (ic_column c))"
  proof
    fix iv assume "iv \<in> set (processRawResults results)"
    then obtain g where g: "g \<in> set gs" "iv \<in> set (ig_invocations g)" using spec(4) by auto
    then have "extractGroupID lb tg (Some iv) = Inr (ig_id g)" using spec(3) by auto
    moreover obtain i where "i < length gs" "gs ! i = g" using g(1) by (metis in_set_conv_nth)
    ultimately show "\<exists>c \<in> set cols. extractGroupID lb tg (Some iv) = Inr (col_name (ic_column c))"
      using name len by (metis nth_mem)
  qed
qed

text \<open>The cells of the targets, column by column.\<close>

definition invocations_named :: "libs \<Rightarrow> test_group \<Rightarrow> fetch_result list \<Rightarrow> string \<Rightarrow> invocation list" where
  "invocations_named lb tg results name =
     filter (\<lambda>iv. extractGroupID lb tg (Some iv) = Inr name) (sort_invocations (processRawResults results))"

lemma read_columns_column:
  assumes lb: "libs_ok lb" and run: "read_columns lb tg results = Inr cols" and col: "col \<in> set cols"
  shows "processGroup lb tg (Some \<lparr>ig_id = col_name (ic_column col),
      ig_invocations = invocations_named lb tg results (col_name (ic_column col))\<rparr>) = Inr (Some col)"
proof -
  from read_columns_groups [OF run] obtain gs where
    gs: "groupInvocations lb tg (sort_invocations (processRawResults results)) = Inr gs"
    and len: "length cols = length gs"
    and nth: "\<And>i. i < length gs \<Longrightarrow> processGroup lb tg (Some (gs ! i)) = Inr (Some (cols ! i))"
    by blast
  from col len obtain i where i: "i < length gs" "cols ! i = col" by (metis in_set_conv_nth)
  have g: "ig_id (gs ! i) = col_name (ic_column col)"
    using processGroup_times(1) [OF lb nth [OF i(1)]] i(2) by simp
  moreover have "ig_invocations (gs ! i) = invocations_named lb tg results (ig_id (gs ! i))"
    using groupInvocations_spec(3) [OF gs lb] i(1) by (simp add: invocations_named_def)
  ultimately have "gs ! i = \<lparr>ig_id = col_name (ic_column col),
      ig_invocations = invocations_named lb tg results (col_name (ic_column col))\<rparr>" by simp
  with nth [OF i(1)] i(2) show ?thesis by simp
qed

lemma processRawResults_distinct:
  "iv \<in> set (processRawResults results) \<Longrightarrow> distinct (map fst (iv_targets iv))"
  by (auto simp: processRawResults_def raw_distinct)

lemma read_columns_cells:
  assumes lb: "libs_ok lb" and run: "read_columns lb tg results = Inr cols" and col: "col \<in> set cols"
    and plain: "plain_name k"
    and apart: "apart k (fst ` set (group_entries lb tg
      (invocations_named lb tg results (col_name (ic_column col)))))"
  shows "map_of (ic_cells col) (split_name k i) =
    shown_cell (concat (map (target_cells tg k)
      (invocations_named lb tg results (col_name (ic_column col))))) i"
proof -
  have "\<forall>iv \<in> set (invocations_named lb tg results (col_name (ic_column col))).
      distinct (map fst (iv_targets iv))"
    using processRawResults_distinct by (auto simp: invocations_named_def)
  from entry_cells_group [OF lb plain this] processGroup_cells [OF lb read_columns_column [OF lb run col], of k i]
    apart show ?thesis by simp
qed

lemma read_columns_bare:
  assumes "libs_ok lb" "read_columns lb tg results = Inr cols" "col \<in> set cols" "(n, c) \<in> set (ic_cells col)"
  shows "c_metrics c = [] \<and> c_properties c = []"
  using processGroup_bare [OF assms(1) read_columns_column [OF assms(1-3)] assms(4)]
  by (simp add: bare_cell_def)

text \<open>
  The search, the fetches and the columns together: the pages end, every fetch ends, and what
  could not be fetched is left out.
\<close>

lemma fetch_all_spec:
  assumes "\<forall>i \<in> set ids. FetchInvocation client i = Some (f i)"
  shows "fetch_all client ids = Some (List.map_filter (\<lambda>i. case f i of Inl _ \<Rightarrow> None | Inr r \<Rightarrow> Some r) ids)"
  using assms by (induction ids) (auto simp: List.map_filter_simps split: sum.splits)

definition search_page ::
    "download_client \<Rightarrow> string \<Rightarrow> string \<Rightarrow> string \<Rightarrow> (string list \<times> string) go" where
  "search_page client query project =
     (if str_contains query ''id.target_id='' then targetSearch client query project
      else invocationSearch client query project)"

lemma ColumnReader_spec:
  assumes conf: "get_resultstore_config tg = Some rs"
    and query: "queryProw lb (rsc_query rs) (updateStop lb tg now oldCols defaultStop reprocess) = Inr q"
    and pages: "page_chain (search_page client q (rsc_project rs)) [] idss"
    and fetch: "\<forall>i \<in> set (concat idss). FetchInvocation client i = Some (f i)"
  shows "ColumnReader lb client reprocess tg oldCols defaultStop now =
    Some (read_columns lb tg
      (List.map_filter (\<lambda>i. case f i of Inl _ \<Rightarrow> None | Inr r \<Rightarrow> Some r) (concat idss)))"
proof -
  have "Search client q (rsc_project rs) = Some (Inr (concat idss))"
    using search_loop_chain [OF pages, of "[]"] by (simp add: Search_def search_page_def)
  then show ?thesis
    using fetch_all_spec [OF fetch] by (simp add: ColumnReader_def search_def conf query)
qed

lemma FetchInvocation_spec:
  "FetchInvocation client i = Some (Inr r) \<longleftrightarrow>
   (\<exists>resps. page_chain (response_page (dc_export client (''invocations/'' @ i))) [] resps \<and>
      r = \<lparr>fr_invocation = (case List.map_filter ex_invocation resps of [] \<Rightarrow> None | p # _ \<Rightarrow> Some p),
           fr_actions = concat (map ex_actions resps),
           fr_configured_targets = concat (map ex_configured_targets resps),
           fr_targets = concat (map ex_targets resps)\<rparr>)"
  using fetch_loop_chain [of "dc_export client (''invocations/'' @ i)" "[]" _ empty_fetch]
    fetch_loop_only [of "dc_export client (''invocations/'' @ i)" empty_fetch "[]"]
  by (auto simp: FetchInvocation_def fold_add_page empty_fetch_def)

end
