(* ===== verification/Config_Source.thy ===== *)
theory Config_Source
  imports Config_Validate Summarize
begin

text \<open>
  Where the configuration, the grids and the summaries are: paths in storage (\<open>util/gcs/gcs.go\<close>,
  \<open>SummaryPath\<close>, \<open>TabStatePath\<close>), the cached read of the configuration (\<open>config/cache.go\<close>) and the
  observed one (\<open>config/snapshot/config_snapshot.go\<close>).

  Parsing, resolving and printing a URL are those of \<open>net/url\<close>; opening an object and decoding its
  bytes are arguments.
\<close>

section \<open>Paths\<close>

text \<open>\<open>path.Clean\<close> works on the elements between slashes; the elements kept are in reverse order.\<close>

fun clean_parts :: "bool \<Rightarrow> string list \<Rightarrow> string list \<Rightarrow> string list" where
  "clean_parts rooted out [] = rev out"
| "clean_parts rooted out (p # ps) =
     (if p = [] \<or> p = ''.'' then clean_parts rooted out ps
      else if p = ''..'' then
        (case out of
           [] \<Rightarrow> clean_parts rooted (if rooted then [] else [''..'']) ps
         | q # qs \<Rightarrow> if q = ''..'' then clean_parts rooted (''..'' # out) ps else clean_parts rooted qs ps)
      else clean_parts rooted (p # out) ps)"

definition path_Clean :: "string \<Rightarrow> string" where
  "path_Clean s =
     (let rooted = has_prefix s ''/'';
          body = str_join (clean_parts rooted [] (str_split s ''/'')) ''/'' in
      if rooted then ''/'' @ body else if body = [] then ''.'' else body)"

definition path_Join :: "string list \<Rightarrow> string" where
  "path_Join elems =
     (case dropWhile (\<lambda>e. e = []) elems of [] \<Rightarrow> [] | es \<Rightarrow> path_Clean (str_join es ''/''))"

text \<open>The elements of a joined path.\<close>

lemma str_split_acc_plain:
  "CHR ''/'' \<notin> set u \<Longrightarrow>
   str_split_acc ''/'' acc (u @ s) = str_split_acc ''/'' (rev u @ acc) s"
  by (induction u arbitrary: acc) (auto simp: has_prefix_def)

lemma str_split_acc_slash:
  "str_split_acc ''/'' acc (CHR ''/'' # s) = rev acc # str_split_acc ''/'' [] s"
  by (simp add: has_prefix_def)

lemma str_split_plain: "CHR ''/'' \<notin> set u \<Longrightarrow> str_split u ''/'' = [u]"
  using str_split_acc_plain [of u "[]" "[]"] by (simp add: str_split_def)

lemma str_split_snoc:
  assumes "CHR ''/'' \<notin> set b"
  shows "str_split (a @ CHR ''/'' # b) ''/'' = str_split a ''/'' @ [b]"
proof -
  have "str_split_acc ''/'' acc (a @ CHR ''/'' # b) = str_split_acc ''/'' acc a @ [b]" for acc
  proof (induction a arbitrary: acc)
    case Nil
    show ?case
      using str_split_acc_plain [OF assms, of "[]" "[]"] by (simp only: append_Nil str_split_acc_slash) simp
  next
    case (Cons c a)
    show ?case
    proof (cases "c = CHR ''/''")
      case True
      then show ?thesis by (simp only: append_Cons str_split_acc_slash Cons)
    next
      case False
      with Cons [of "c # acc"] show ?thesis by (simp add: has_prefix_def)
    qed
  qed
  then show ?thesis by (simp add: str_split_def)
qed

lemma clean_parts_append:
  "clean_parts rooted out (ps @ qs) = clean_parts rooted (rev (clean_parts rooted out ps)) qs"
proof (induction rooted out ps rule: clean_parts.induct)
  case (2 rooted out p ps)
  show ?case
  proof (cases "p = [] \<or> p = ''.''")
    case True
    then show ?thesis using 2(1) by auto
  next
    case plain: False
    show ?thesis
    proof (cases "p = ''..''")
      case False
      with plain 2(5) show ?thesis by simp
    next
      case True
      show ?thesis
      proof (cases out)
        case Nil
        with plain True 2(2) show ?thesis by simp
      next
        case (Cons q qs)
        with plain True 2(3,4) show ?thesis by (cases "q = ''..''") simp_all
      qed
    qed
  qed
qed simp

text \<open>An element that \<open>Clean\<close> keeps as it is.\<close>

definition plain_part :: "string \<Rightarrow> bool" where
  "plain_part p \<longleftrightarrow> p \<noteq> [] \<and> p \<noteq> ''.'' \<and> p \<noteq> ''..'' \<and> CHR ''/'' \<notin> set p"

lemma clean_parts_plain: "plain_part p \<Longrightarrow> clean_parts rooted out [p] = rev out @ [p]"
  by (simp add: plain_part_def)

lemma clean_parts_plain2:
  "plain_part p \<Longrightarrow> plain_part q \<Longrightarrow> clean_parts rooted out [p, q] = rev out @ [p, q]"
  by (simp add: plain_part_def)

text \<open>What comes before two plain elements in a joined path does not depend on them.\<close>

definition joined_prefix :: "string \<Rightarrow> string" where
  "joined_prefix prefix =
     (if prefix = [] then []
      else (if has_prefix prefix ''/'' then ''/'' else []) @
        concat (map (\<lambda>p. p @ ''/'') (clean_parts (has_prefix prefix ''/'') [] (str_split prefix ''/''))))"

lemma str_join_two: "str_join (ps @ [p, q]) ''/'' = concat (map (\<lambda>p. p @ ''/'') ps) @ p @ CHR ''/'' # q"
proof (induction ps)
  case (Cons x ps)
  then show ?case by (cases ps) simp_all
qed simp

lemma path_Join_plain:
  assumes "plain_part p" "plain_part q"
  shows "path_Join [prefix, p, q] = joined_prefix prefix @ p @ CHR ''/'' # q"
proof (cases "prefix = []")
  case True
  have s: "str_split (p @ CHR ''/'' # q) ''/'' = [p, q]"
    using assms str_split_snoc [of q p] str_split_plain [of p] by (simp add: plain_part_def)
  have "\<not> has_prefix (p @ CHR ''/'' # q) ''/''"
    using assms by (cases p) (auto simp: plain_part_def has_prefix_def)
  moreover have "p \<noteq> []" using assms(1) by (simp add: plain_part_def)
  ultimately show ?thesis using True clean_parts_plain2 [OF assms, of False "[]"]
    by (simp add: path_Join_def path_Clean_def Let_def s joined_prefix_def)
next
  case False
  let ?s = "prefix @ CHR ''/'' # p @ CHR ''/'' # q"
  have s: "str_split ?s ''/'' = str_split prefix ''/'' @ [p, q]"
    using assms str_split_snoc [of q "prefix @ CHR ''/'' # p"] str_split_snoc [of p prefix] by (simp add: plain_part_def)
  have r: "has_prefix ?s ''/'' = has_prefix prefix ''/''" using False by (cases prefix) (simp_all add: has_prefix_def)
  have "clean_parts (has_prefix prefix ''/'') [] (str_split ?s ''/'') =
      clean_parts (has_prefix prefix ''/'') [] (str_split prefix ''/'') @ [p, q]"
    using clean_parts_append [of _ "[]" "str_split prefix ''/''" "[p, q]"] clean_parts_plain2 [OF assms]
    by (simp add: s)
  then have body: "str_join (clean_parts (has_prefix prefix ''/'') [] (str_split ?s ''/'')) ''/'' =
      concat (map (\<lambda>p. p @ ''/'') (clean_parts (has_prefix prefix ''/'') [] (str_split prefix ''/''))) @ p @ CHR ''/'' # q"
    by (simp only: str_join_two)
  have "path_Join [prefix, p, q] = path_Clean ?s" using False by (simp add: path_Join_def)
  then show ?thesis unfolding path_Clean_def Let_def r body using False by (simp add: joined_prefix_def)
qed

lemma joined_cut:
  assumes "CHR ''/'' \<notin> set p" "CHR ''/'' \<notin> set p'" "p @ CHR ''/'' # q = p' @ CHR ''/'' # q'"
  shows "p = p' \<and> q = q'"
proof -
  have "takeWhile (\<lambda>c. c \<noteq> CHR ''/'') (p @ CHR ''/'' # q) = p" if "CHR ''/'' \<notin> set p" for p q
    using that by (subst takeWhile_append2) auto
  with assms have "p = p'" by metis
  with assms(3) show ?thesis by simp
qed

record url =
  u_scheme :: string
  u_opaque :: string
  u_user :: "string option"
  u_host :: string
  u_path :: string
  u_raw_query :: string
  u_fragment :: string

record url_lib =
  ul_parse :: "string \<Rightarrow> url go"
  ul_resolve :: "url \<Rightarrow> url \<Rightarrow> url"
  ul_string :: "url \<Rightarrow> string"

definition wrap_error :: "string \<Rightarrow> 'a go \<Rightarrow> 'a go" where
  "wrap_error msg r = (case r of Inl (Failed m) \<Rightarrow> Inl (Failed (msg @ m)) | _ \<Rightarrow> r)"

definition SetURL :: "url_lib \<Rightarrow> url \<Rightarrow> url go" where
  "SetURL ul u =
     (if u_scheme u \<noteq> ''gs'' \<and> u_scheme u \<noteq> [] \<and> u_scheme u \<noteq> ''file''
      then Inl (Failed (''must use a gs://, file://, or local filesystem url: '' @ ul_string ul u))
      else if str_contains (u_host u) '':''
      then Inl (Failed (''gs://bucket may not contain a port: '' @ ul_string ul u))
      else if u_opaque u \<noteq> [] then Inl (Failed (''url must start with gs://: '' @ ul_string ul u))
      else if u_user u \<noteq> None
      then Inl (Failed (''gs://bucket may not contain an user@ prefix: '' @ ul_string ul u))
      else if u_raw_query u \<noteq> []
      then Inl (Failed (''gs:// url may not contain a ?query suffix: '' @ ul_string ul u))
      else if u_fragment u \<noteq> []
      then Inl (Failed (''gs:// url may not contain a #fragment suffix: '' @ ul_string ul u))
      else Inr u)"

definition NewPath :: "url_lib \<Rightarrow> string \<Rightarrow> url go" where
  "NewPath ul v = go_bind (wrap_error (''invalid gs:// url '' @ v @ '': '') (ul_parse ul v)) (SetURL ul)"

definition ResolveReference :: "url_lib \<Rightarrow> url \<Rightarrow> url \<Rightarrow> url go" where
  "ResolveReference ul g ref = SetURL ul (ul_resolve ul g ref)"

definition Bucket :: "url \<Rightarrow> string" where
  "Bucket g = u_host g"

definition Object :: "url \<Rightarrow> string" where
  "Object g = (if u_path g = [] then u_path g else tl (u_path g))"

text \<open>
  \<open>SummaryPath\<close> lowers the name first and then keeps the letters and digits (\<open>ToLower\<close> is modelled
  on ASCII text).
\<close>

definition summary_name :: "string \<Rightarrow> string" where
  "summary_name dashboard =
     ''summary-'' @ filter (\<lambda>c. is_lower c \<or> is_digit c) (map to_lower dashboard)"

definition SummaryPath :: "url_lib \<Rightarrow> url \<Rightarrow> string \<Rightarrow> string \<Rightarrow> url go" where
  "SummaryPath ul g prefix dashboard =
     (let fullName = path_Join [prefix, summary_name dashboard] in
      go_bind (wrap_error ''parse url: '' (ul_parse ul fullName)) (\<lambda>u.
      go_bind (wrap_error ''resolve reference: '' (ResolveReference ul g u)) (\<lambda>np.
      if Bucket np \<noteq> Bucket g
      then Inl (Failed (''dashboard '' @ fullName @ '' should not change bucket'')) else Inr np)))"

definition TabStatePath :: "url_lib \<Rightarrow> url \<Rightarrow> string \<Rightarrow> string \<Rightarrow> string \<Rightarrow> url go" where
  "TabStatePath ul configPath tabPrefix dashboardName tabName =
     (let name = path_Join [tabPrefix, dashboardName, tabName] in
      go_bind (wrap_error (''invalid url '' @ name @ '': '') (ul_parse ul name)) (\<lambda>u.
      go_bind (wrap_error ''resolve reference: '' (ResolveReference ul configPath u)) (\<lambda>np.
      if Bucket np \<noteq> Bucket configPath
      then Inl (Failed (''tabState '' @ name @ '' should not change bucket'')) else Inr np)))"

text \<open>What a path may be: every function that makes one checks it.\<close>

definition path_valid :: "url \<Rightarrow> bool" where
  "path_valid u \<longleftrightarrow> u_scheme u \<in> {''gs'', [], ''file''} \<and> \<not> str_contains (u_host u) '':'' \<and>
     u_opaque u = [] \<and> u_user u = None \<and> u_raw_query u = [] \<and> u_fragment u = []"

lemma SetURL_iff: "SetURL ul u = Inr p \<longleftrightarrow> p = u \<and> path_valid u"
  by (auto simp: SetURL_def path_valid_def)

lemma wrap_error_eq_Inr [go_simps]: "wrap_error msg r = Inr x \<longleftrightarrow> r = Inr x"
  by (auto simp: wrap_error_def split: sum.splits go_error.splits)

lemma NewPath_valid: "NewPath ul v = Inr p \<Longrightarrow> path_valid p"
  by (auto simp: NewPath_def go_simps SetURL_iff)

lemma SummaryPath_valid:
  "SummaryPath ul g prefix d = Inr p \<Longrightarrow> path_valid p \<and> Bucket p = Bucket g"
  by (auto simp: SummaryPath_def Let_def go_simps ResolveReference_def SetURL_iff split: if_splits)

lemma TabStatePath_valid:
  "TabStatePath ul g prefix d t = Inr p \<Longrightarrow> path_valid p \<and> Bucket p = Bucket g"
  by (auto simp: TabStatePath_def Let_def go_simps ResolveReference_def SetURL_iff split: if_splits)

text \<open>
  The two orders of lowering and keeping agree: dashboards whose names have the same letters and
  digits have the same summary.
\<close>

lemma lower_kept: "is_lower (to_lower c) \<or> is_digit (to_lower c) \<longleftrightarrow> is_alnum c"
proof (cases "is_upper c")
  case True
  then have u: "65 \<le> (of_char c :: nat)" "(of_char c :: nat) \<le> 90"
    by (auto simp: is_upper_def less_eq_char_def)
  then have "(of_char (char_of (of_char c + 32 :: nat)) :: nat) = of_char c + 32"
    by (simp add: of_char_of)
  with True u show ?thesis
    by (auto simp: to_lower_def is_lower_def is_alnum_def less_eq_char_def)
qed (auto simp: to_lower_def is_alnum_def)

lemma summary_name_Normalize: "summary_name d = ''summary-'' @ Normalize d"
  unfolding summary_name_def Normalize_def by (induction d) (simp_all add: lower_kept)

lemma SummaryPath_Normalize:
  "Normalize d = Normalize d' \<Longrightarrow> SummaryPath ul g prefix d = SummaryPath ul g prefix d'"
  by (simp add: SummaryPath_def summary_name_Normalize)

section \<open>The cached read\<close>

text \<open>
  One call of \<open>ReadGCS\<close>: the path, the clock when the cache is asked and when the entry is stored, the
  bytes and attributes that \<open>Open\<close> gives.  Times are in nanoseconds.
\<close>

type_synonym attrs = "int option"

record config_call =
  rc_path :: string
  rc_now :: int
  rc_later :: int
  rc_open :: "(string \<times> attrs) go"

record config_entry =
  ce_proto :: configuration
  ce_attrs :: attrs
  ce_last_fetch :: int

type_synonym config_cache = "(string, config_entry) gomap"

definition cacheRefreshInterval :: int where
  "cacheRefreshInterval = 300 * second"

definition InitCache :: config_cache where
  "InitCache = []"

text \<open>What a call reads from storage.\<close>

definition read_config :: "(string \<Rightarrow> configuration go) \<Rightarrow> config_call \<Rightarrow> (configuration \<times> attrs) go" where
  "read_config Unmarshal c =
     go_bind (wrap_error ''failed to open config: '' (rc_open c)) (\<lambda>(bytes, attrs).
     go_bind (wrap_error ''failed to unmarshal config: '' (Unmarshal bytes)) (\<lambda>p. Inr (p, attrs)))"

definition ReadGCS ::
    "(string \<Rightarrow> configuration go) \<Rightarrow> config_cache \<Rightarrow> config_call \<Rightarrow>
     (configuration \<times> attrs) go \<times> config_cache" where
  "ReadGCS Unmarshal m c =
     (let fresh = (case map_of m (rc_path c) of
            Some e \<Rightarrow> if rc_now c - ce_last_fetch e < cacheRefreshInterval then Some e else None
          | None \<Rightarrow> None) in
      case fresh of
        Some e \<Rightarrow> (Inr (ce_proto e, ce_attrs e), m)
      | None \<Rightarrow>
          (case read_config Unmarshal c of
             Inl err \<Rightarrow> (Inl err, m)
           | Inr (p, attrs) \<Rightarrow>
               (Inr (p, attrs), AList.update (rc_path c)
                  \<lparr>ce_proto = p, ce_attrs = attrs, ce_last_fetch = rc_later c\<rparr> m)))"

text \<open>The calls of a process, one after the other (the lock is held for the whole call).\<close>

fun ReadGCS_all ::
    "(string \<Rightarrow> configuration go) \<Rightarrow> config_cache \<Rightarrow> config_call list \<Rightarrow>
     (configuration \<times> attrs) go list \<times> config_cache" where
  "ReadGCS_all Unmarshal m [] = ([], m)"
| "ReadGCS_all Unmarshal m (c # cs) =
     (case ReadGCS Unmarshal m c of (r, m') \<Rightarrow>
       (case ReadGCS_all Unmarshal m' cs of (rs, m'') \<Rightarrow> (r # rs, m'')))"

text \<open>Where an entry comes from: a call of the path whose read gave it.\<close>

definition entries_read ::
    "(string \<Rightarrow> configuration go) \<Rightarrow> config_call list \<Rightarrow> config_cache \<Rightarrow> bool" where
  "entries_read Unmarshal past m \<longleftrightarrow>
     (\<forall>p e. map_of m p = Some e \<longrightarrow>
        (\<exists>c \<in> set past. rc_path c = p \<and> read_config Unmarshal c = Inr (ce_proto e, ce_attrs e) \<and>
           rc_later c = ce_last_fetch e))"

definition answered :: "(string \<Rightarrow> configuration go) \<Rightarrow> config_call list \<Rightarrow> config_call \<Rightarrow>
    (configuration \<times> attrs) go \<Rightarrow> bool" where
  "answered Unmarshal past c r \<longleftrightarrow>
     r = read_config Unmarshal c \<or>
     (\<exists>c' \<in> set past. rc_path c' = rc_path c \<and> read_config Unmarshal c' = r \<and>
        rc_now c - rc_later c' < cacheRefreshInterval)"

lemma ReadGCS_answers:
  assumes "entries_read Unmarshal past m" "ReadGCS Unmarshal m c = (r, m')"
  shows "answered Unmarshal past c r \<and> entries_read Unmarshal (c # past) m'"
proof -
  have keep: "entries_read Unmarshal (c # past) m"
    using assms(1) unfolding entries_read_def by (meson list.set_intros(2))
  have add: "entries_read Unmarshal (c # past) (AList.update (rc_path c)
      \<lparr>ce_proto = p, ce_attrs = a, ce_last_fetch = rc_later c\<rparr> m)"
    if "read_config Unmarshal c = Inr (p, a)" for p a
    using keep that unfolding entries_read_def by (auto simp: update_conv')
  have miss: "answered Unmarshal past c r \<and> entries_read Unmarshal (c # past) m'"
    if "(case read_config Unmarshal c of Inl err \<Rightarrow> (Inl err, m)
         | Inr (p, attrs) \<Rightarrow> (Inr (p, attrs), AList.update (rc_path c)
             \<lparr>ce_proto = p, ce_attrs = attrs, ce_last_fetch = rc_later c\<rparr> m)) = (r, m')"
  proof (cases "read_config Unmarshal c")
    case (Inl e)
    with that keep show ?thesis by (simp add: answered_def)
  next
    case (Inr pa)
    obtain p a where pa: "pa = (p, a)" by fastforce
    from that show ?thesis using add Inr by (auto simp: answered_def pa)
  qed
  show ?thesis
  proof (cases "map_of m (rc_path c)")
    case None
    with assms(2) miss show ?thesis by (simp add: ReadGCS_def Let_def)
  next
    case (Some e)
    show ?thesis
    proof (cases "rc_now c - ce_last_fetch e < cacheRefreshInterval")
      case True
      from assms(1) Some obtain c' where c': "c' \<in> set past" "rc_path c' = rc_path c"
        "read_config Unmarshal c' = Inr (ce_proto e, ce_attrs e)" "rc_later c' = ce_last_fetch e"
        unfolding entries_read_def by blast
      have "r = Inr (ce_proto e, ce_attrs e)" "m' = m"
        using assms(2) Some True by (simp_all add: ReadGCS_def Let_def)
      with c' True keep show ?thesis unfolding answered_def by auto
    next
      case False
      with assms(2) miss Some show ?thesis by (simp add: ReadGCS_def Let_def)
    qed
  qed
qed

lemma ReadGCS_all_answers:
  "entries_read Unmarshal past m \<Longrightarrow> i < length cs \<Longrightarrow>
   answered Unmarshal (rev (take i cs) @ past) (cs ! i) (fst (ReadGCS_all Unmarshal m cs) ! i)"
proof (induction cs arbitrary: m past i)
  case (Cons c cs)
  obtain r m' where one: "ReadGCS Unmarshal m c = (r, m')" by fastforce
  obtain rs m'' where rest: "ReadGCS_all Unmarshal m' cs = (rs, m'')" by fastforce
  note step = ReadGCS_answers [OF Cons.prems(1) one]
  show ?case
  proof (cases i)
    case 0
    with step show ?thesis by (simp add: one rest)
  next
    case (Suc j)
    with Cons.IH [OF conjunct2 [OF step], of j] Cons.prems(2) show ?thesis by (simp add: one rest)
  qed
qed simp

text \<open>
  From an empty cache, every answer is that of its own read, or of a read of the same path by an
  earlier call that ended less than five minutes before.
\<close>

lemma ReadGCS_fresh:
  assumes "i < length cs"
  shows "\<exists>j \<le> i. rc_path (cs ! j) = rc_path (cs ! i) \<and>
    fst (ReadGCS_all Unmarshal InitCache cs) ! i = read_config Unmarshal (cs ! j) \<and>
    (j = i \<or> rc_now (cs ! i) - rc_later (cs ! j) < cacheRefreshInterval)"
proof -
  have "entries_read Unmarshal [] InitCache" by (simp add: entries_read_def InitCache_def)
  from ReadGCS_all_answers [OF this assms] have
    "answered Unmarshal (rev (take i cs)) (cs ! i) (fst (ReadGCS_all Unmarshal InitCache cs) ! i)" by simp
  then consider "fst (ReadGCS_all Unmarshal InitCache cs) ! i = read_config Unmarshal (cs ! i)"
    | c where "c \<in> set (take i cs)" "rc_path c = rc_path (cs ! i)"
        "read_config Unmarshal c = fst (ReadGCS_all Unmarshal InitCache cs) ! i"
        "rc_now (cs ! i) - rc_later c < cacheRefreshInterval"
    unfolding answered_def by auto
  then show ?thesis
  proof cases
    case (2 c)
    then obtain j where "j < i" "c = cs ! j" by (auto simp: in_set_conv_nth)
    with 2 show ?thesis by (intro exI [of _ j]) simp
  qed blast
qed

section \<open>The observed configuration\<close>

text \<open>The configuration with its entities in maps by name; \<open>sn_generation\<close> is of its attributes.\<close>

record config_snapshot =
  sn_dashboard_groups :: "(string, dashboard_group) gomap"
  sn_dashboards :: "(string, dashboard) gomap"
  sn_groups :: "(string, test_group) gomap"
  sn_generation :: int

definition by_name :: "('a \<Rightarrow> string) \<Rightarrow> 'a list \<Rightarrow> (string, 'a) gomap" where
  "by_name nm xs = fold (\<lambda>x. AList.update (nm x) x) xs []"

definition mapped_config :: "configuration \<Rightarrow> attrs \<Rightarrow> config_snapshot" where
  "mapped_config cfg attrs =
     \<lparr>sn_dashboard_groups = by_name dg_name (cfg_dashboard_groups cfg),
      sn_dashboards = by_name dash_name (cfg_dashboards cfg),
      sn_groups = by_name tg_name (cfg_test_groups cfg),
      sn_generation = (case attrs of Some g \<Rightarrow> g | None \<Rightarrow> 0)\<rparr>"

text \<open>
  An attempt opens the object and decodes it; \<open>fetchConfig\<close> makes at most three (the back-off is of a
  third-party package).
\<close>

definition fetchConfigOnce ::
    "(string \<Rightarrow> configuration go) \<Rightarrow> (string \<times> attrs) go \<Rightarrow> (configuration \<times> attrs) go" where
  "fetchConfigOnce Unmarshal opened =
     go_bind (wrap_error ''open: '' opened) (\<lambda>(bytes, attrs).
     go_bind (wrap_error ''unmarshal: '' (Unmarshal bytes)) (\<lambda>cfg. Inr (cfg, attrs)))"

definition fetchConfig ::
    "(string \<Rightarrow> configuration go) \<Rightarrow> (nat \<Rightarrow> (string \<times> attrs) go) \<Rightarrow> (configuration \<times> attrs) go" where
  "fetchConfig Unmarshal attempt =
     (case fetchConfigOnce Unmarshal (attempt 0) of
        Inr x \<Rightarrow> Inr x
      | Inl _ \<Rightarrow>
          (case fetchConfigOnce Unmarshal (attempt 1) of
             Inr x \<Rightarrow> Inr x
           | Inl _ \<Rightarrow> fetchConfigOnce Unmarshal (attempt 2)))"

definition updateHash ::
    "(string \<Rightarrow> configuration go) \<Rightarrow> (nat \<Rightarrow> (string \<times> attrs) go) \<Rightarrow> config_snapshot go" where
  "updateHash Unmarshal attempt =
     go_bind (fetchConfig Unmarshal attempt) (\<lambda>(cfg, attrs). Inr (mapped_config cfg attrs))"

text \<open>
  \<open>Observe\<close>: the snapshots sent on the channel, for the ticks received before the context ends.
  \<open>open g t k\<close> is attempt \<open>k\<close> at time \<open>t\<close> to open the object on the condition that its generation
  is not \<open>g\<close>; the first read has no condition, which is generation 0.
\<close>

type_synonym conditional_open = "int \<Rightarrow> nat \<Rightarrow> nat \<Rightarrow> (string \<times> attrs) go"

fun observe_ticks ::
    "(string \<Rightarrow> configuration go) \<Rightarrow> conditional_open \<Rightarrow> int \<Rightarrow> nat list \<Rightarrow> config_snapshot list" where
  "observe_ticks Unmarshal op g [] = []"
| "observe_ticks Unmarshal op g (t # ts) =
     (case updateHash Unmarshal (op g t) of
        Inl _ \<Rightarrow> observe_ticks Unmarshal op g ts
      | Inr snap \<Rightarrow> snap # observe_ticks Unmarshal op (sn_generation snap) ts)"

definition Observe ::
    "(string \<Rightarrow> configuration go) \<Rightarrow> conditional_open \<Rightarrow> string \<Rightarrow> nat \<Rightarrow> nat list \<Rightarrow>
     config_snapshot list go" where
  "Observe Unmarshal op path start ticks =
     go_bind (wrap_error (''can't read '' @ go_quote path @ '': '') (updateHash Unmarshal (op 0 start))) (\<lambda>snap.
       Inr (snap # observe_ticks Unmarshal op (sn_generation snap) ticks))"

text \<open>
  What the storage client promises: an object at every time, its positive generation, the bytes of
  the present one when its generation is not the excluded one, and a failure otherwise.
\<close>

definition conditional_store :: "conditional_open \<Rightarrow> (nat \<Rightarrow> string \<times> int) \<Rightarrow> bool" where
  "conditional_store op obj \<longleftrightarrow>
     (\<forall>g t k b a. op g t k = Inr (b, a) \<longrightarrow> b = fst (obj t) \<and> a = Some (snd (obj t)) \<and> snd (obj t) \<noteq> g) \<and>
     (\<forall>t t'. snd (obj t) = snd (obj t') \<longrightarrow> obj t = obj t')"

lemma updateHash_reads:
  assumes "conditional_store op obj" "updateHash Unmarshal (op g t) = Inr snap"
  shows "(\<exists>cfg. Unmarshal (fst (obj t)) = Inr cfg \<and> snap = mapped_config cfg (Some (snd (obj t)))) \<and>
    sn_generation snap = snd (obj t) \<and> snd (obj t) \<noteq> g"
proof -
  from assms(2) obtain cfg a where f: "fetchConfig Unmarshal (op g t) = Inr (cfg, a)" "snap = mapped_config cfg a"
    by (auto simp: updateHash_def go_simps)
  then have "\<exists>k. fetchConfigOnce Unmarshal (op g t k) = Inr (cfg, a)"
    by (auto simp: fetchConfig_def split: sum.splits)
  then obtain k b where k: "op g t k = Inr (b, a)" "Unmarshal b = Inr cfg"
    by (auto simp: fetchConfigOnce_def go_simps)
  with assms(1) have "b = fst (obj t)" "a = Some (snd (obj t))" "snd (obj t) \<noteq> g"
    unfolding conditional_store_def by blast+
  with f k show ?thesis by (simp add: mapped_config_def)
qed

text \<open>A read answers when one of its three attempts does and the bytes are a configuration.\<close>

definition read_answers ::
    "(string \<Rightarrow> configuration go) \<Rightarrow> conditional_open \<Rightarrow> (nat \<Rightarrow> string \<times> int) \<Rightarrow> nat \<Rightarrow> bool" where
  "read_answers Unmarshal op obj t \<longleftrightarrow>
     (\<exists>cfg. Unmarshal (fst (obj t)) = Inr cfg) \<and>
     (\<forall>g. g \<noteq> snd (obj t) \<longrightarrow> (\<exists>k < 3. \<exists>x. op g t k = Inr x))"

lemma updateHash_answers:
  assumes "conditional_store op obj" "read_answers Unmarshal op obj t" "g \<noteq> snd (obj t)"
  shows "\<exists>snap. updateHash Unmarshal (op g t) = Inr snap"
proof -
  from assms(2,3) obtain cfg k x where "Unmarshal (fst (obj t)) = Inr cfg" "k < 3" "op g t k = Inr x"
    unfolding read_answers_def by blast
  moreover from this assms(1) have "fst x = fst (obj t)"
    unfolding conditional_store_def by (metis prod.collapse)
  ultimately have "fetchConfigOnce Unmarshal (op g t k) = Inr (cfg, snd x)"
    by (cases x) (simp add: fetchConfigOnce_def wrap_error_def)
  moreover have "k = 0 \<or> k = 1 \<or> k = 2" using \<open>k < 3\<close> by auto
  ultimately have "\<exists>y. fetchConfig Unmarshal (op g t) = Inr y"
    by (auto simp: fetchConfig_def split: sum.split)
  then show ?thesis by (auto simp: updateHash_def)
qed

text \<open>
  The snapshots after the first: each one reads the object of a tick, later ticks for later
  snapshots, and has another generation than the one before; and where the last tick's read answers,
  the last snapshot has the object of that tick.
\<close>

definition shows_object ::
    "(string \<Rightarrow> configuration go) \<Rightarrow> (nat \<Rightarrow> string \<times> int) \<Rightarrow> nat \<Rightarrow> config_snapshot \<Rightarrow> bool" where
  "shows_object Unmarshal obj t snap \<longleftrightarrow>
     (\<exists>cfg. Unmarshal (fst (obj t)) = Inr cfg \<and> snap = mapped_config cfg (Some (snd (obj t))))"

lemma shows_object_generation: "shows_object Unmarshal obj t snap \<Longrightarrow> sn_generation snap = snd (obj t)"
  by (auto simp: shows_object_def mapped_config_def)

lemma observe_ticks_changes:
  assumes st: "conditional_store op obj"
  shows "successively (\<lambda>a b. sn_generation a \<noteq> sn_generation b)
    (snap0 # observe_ticks Unmarshal op (sn_generation snap0) ts)"
proof (induction ts arbitrary: snap0)
  case (Cons t ts)
  show ?case
  proof (cases "updateHash Unmarshal (op (sn_generation snap0) t)")
    case (Inl e)
    with Cons.IH [of snap0] show ?thesis by simp
  next
    case (Inr snap)
    with updateHash_reads [OF st Inr] Cons.IH [of snap] show ?thesis by simp
  qed
qed simp

lemma observe_ticks_shows:
  assumes st: "conditional_store op obj"
  shows "\<forall>snap \<in> set (observe_ticks Unmarshal op g ts). \<exists>t \<in> set ts. shows_object Unmarshal obj t snap"
proof (induction ts arbitrary: g)
  case (Cons t ts)
  show ?case
  proof (cases "updateHash Unmarshal (op g t)")
    case (Inl e)
    with Cons.IH [of g] show ?thesis by simp
  next
    case (Inr snap)
    have "shows_object Unmarshal obj t snap"
      using updateHash_reads [OF st Inr] by (simp add: shows_object_def)
    with Inr Cons.IH [of "sn_generation snap"] show ?thesis by simp
  qed
qed simp

lemma observe_ticks_last:
  assumes st: "conditional_store op obj"
  shows "shows_object Unmarshal obj t0 snap0 \<Longrightarrow> ts \<noteq> [] \<Longrightarrow> read_answers Unmarshal op obj (last ts) \<Longrightarrow>
    shows_object Unmarshal obj (last ts) (last (snap0 # observe_ticks Unmarshal op (sn_generation snap0) ts))"
proof (induction ts arbitrary: t0 snap0)
  case (Cons t ts)
  obtain t1 snap1 where one: "shows_object Unmarshal obj t1 snap1"
    "last (snap0 # observe_ticks Unmarshal op (sn_generation snap0) (t # ts)) =
     last (snap1 # observe_ticks Unmarshal op (sn_generation snap1) ts)"
    "read_answers Unmarshal op obj t \<Longrightarrow> obj t1 = obj t"
  proof (cases "updateHash Unmarshal (op (sn_generation snap0) t)")
    case (Inl e)
    have "obj t0 = obj t" if "read_answers Unmarshal op obj t"
    proof -
      have "sn_generation snap0 = snd (obj t)"
        using updateHash_answers [OF st that] Inl by (metis sum.distinct(1))
      then show ?thesis
        using st shows_object_generation [OF Cons.prems(1)] unfolding conditional_store_def by metis
    qed
    with Cons.prems(1) Inl show ?thesis by (intro that [of t0 snap0]) simp_all
  next
    case (Inr snap)
    have "shows_object Unmarshal obj t snap"
      using updateHash_reads [OF st Inr] by (simp add: shows_object_def)
    with Inr show ?thesis by (intro that [of t snap]) simp_all
  qed
  show ?case
  proof (cases "ts = []")
    case True
    with one Cons.prems(3) show ?thesis by (simp add: shows_object_def)
  next
    case False
    with Cons.IH [OF one(1)] Cons.prems(3) show ?thesis unfolding one(2) by simp
  qed
qed simp

lemma Observe_follows:
  assumes st: "conditional_store op obj" and run: "Observe Unmarshal op path start ticks = Inr snaps"
  shows "snaps \<noteq> [] \<and> successively (\<lambda>a b. sn_generation a \<noteq> sn_generation b) snaps \<and>
    (\<forall>snap \<in> set snaps. \<exists>t \<in> insert start (set ticks). shows_object Unmarshal obj t snap) \<and>
    (ticks \<noteq> [] \<and> read_answers Unmarshal op obj (last ticks) \<longrightarrow>
       shows_object Unmarshal obj (last ticks) (last snaps))"
proof -
  from run obtain snap0 where s: "updateHash Unmarshal (op 0 start) = Inr snap0"
    "snaps = snap0 # observe_ticks Unmarshal op (sn_generation snap0) ticks"
    by (auto simp: Observe_def go_simps)
  have first: "shows_object Unmarshal obj start snap0"
    using updateHash_reads [OF st s(1)] by (simp add: shows_object_def)
  have "\<exists>t \<in> insert start (set ticks). shows_object Unmarshal obj t snap" if "snap \<in> set snaps" for snap
    using that first observe_ticks_shows [OF st, of Unmarshal "sn_generation snap0" ticks] unfolding s(2)
    by (metis insert_iff list.set(2))
  then show ?thesis
    using observe_ticks_changes [OF st] observe_ticks_last [OF st first] unfolding s(2) by blast
qed

end
