(* ===== verification/Api_Config.thy ===== *)
theory Api_Config
  imports Config_Source
begin

text \<open>
  The API server, \<open>pkg/api/v1\<close>, first part: the cache of normalised names (\<open>config_cache.go\<close>), the
  handlers over the configuration (\<open>config.go\<close>), and what the HTTP handlers answer (\<open>json.go\<close>).

  The server's settings and the storage it reads are a record: URLs, the conditional open and the
  decoder of the configuration, opening an object (None when it does not exist, else its bytes or the
  error of reading them), decompression, and the decoders of a grid and a summary.  \<open>srv_map_order\<close>
  is the order in which the range loops visit the maps of a snapshot.
\<close>

section \<open>The cache of normalised names\<close>

record cached_config =
  cc_config :: "config_snapshot option"
  cc_dashboard_group :: "(string, string) gomap"
  cc_dashboard :: "(string, string) gomap"
  cc_dashboard_tab :: "(string, (string, string) gomap) gomap"
  cc_test_group :: "(string, string) gomap"

definition normal_names :: "string list \<Rightarrow> (string, string) gomap" where
  "normal_names ns = fold (\<lambda>n. AList.update (Normalize n) n) ns []"

definition generateNormalCache :: "cached_config \<Rightarrow> cached_config" where
  "generateNormalCache c =
     (case cc_config c of
        None \<Rightarrow> c
      | Some s \<Rightarrow>
          \<lparr>cc_config = Some s,
           cc_dashboard_group = normal_names (map fst (sn_dashboard_groups s)),
           cc_dashboard = normal_names (map fst (sn_dashboards s)),
           cc_dashboard_tab =
             fold (\<lambda>(name, d). AList.update (Normalize name) (normal_names (map tab_name (dash_tabs d))))
               (sn_dashboards s) [],
           cc_test_group = normal_names (map fst (sn_groups s))\<rparr>)"

definition new_cache :: "config_snapshot \<Rightarrow> cached_config" where
  "new_cache s = generateNormalCache
     \<lparr>cc_config = Some s, cc_dashboard_group = [], cc_dashboard = [], cc_dashboard_tab = [],
      cc_test_group = []\<rparr>"

record dashboard_summary =
  ds_tab_summaries :: "tab_summary list"

record server =
  srv_default_bucket :: string
  srv_tab_prefix :: string
  srv_summary_prefix :: string
  srv_allow_origin :: string
  srv_cache :: "cached_config option"
  srv_urls :: url_lib
  srv_open_config :: "url \<Rightarrow> conditional_open"
  srv_unmarshal :: "string \<Rightarrow> configuration go"
  srv_map_order :: "config_snapshot \<Rightarrow> config_snapshot"
  srv_open :: "url \<Rightarrow> string go option go"
  srv_zlib :: "string go \<Rightarrow> string go go"
  srv_grid :: "string \<Rightarrow> grid go"
  srv_summary :: "string \<Rightarrow> dashboard_summary go"

definition errScopeNotProvided :: go_error where
  "errScopeNotProvided = Failed ''scope is not provided''"

definition configFileName :: string where
  "configFileName = ''config''"

definition configPath :: "server \<Rightarrow> string \<Rightarrow> (url \<times> bool) go" where
  "configPath s scope =
     (if scope \<noteq> []
      then go_bind (NewPath (srv_urls s) (scope @ ''/'' @ configFileName)) (\<lambda>p. Inr (p, False))
      else if srv_default_bucket s \<noteq> []
      then go_bind (NewPath (srv_urls s) (srv_default_bucket s @ ''/'' @ configFileName)) (\<lambda>p. Inr (p, True))
      else Inl errScopeNotProvided)"

text \<open>The first snapshot that \<open>Observe\<close> sends, as a configuration with its normalised names.\<close>

definition observed_cache :: "server \<Rightarrow> url \<Rightarrow> cached_config go" where
  "observed_cache s path =
     (case Observe (srv_unmarshal s) (srv_open_config s path) (ul_string (srv_urls s) path) 0 [] of
        Inl (Panic m) \<Rightarrow> Inl (Panic m)
      | Inl (Failed _) \<Rightarrow> Inl (Failed (''Could not read config at '' @ go_quote (ul_string (srv_urls s) path)))
      | Inr snaps \<Rightarrow> Inr (new_cache (srv_map_order s (hd snaps))))"

text \<open>
  The configuration of a scope, and the server afterwards: the default configuration is kept.  The
  goroutine that follows its changes is not part of the call.
\<close>

definition getConfig :: "server \<Rightarrow> string \<Rightarrow> cached_config go \<times> server" where
  "getConfig s scope =
     (case configPath s scope of
        Inl _ \<Rightarrow> (Inl errScopeNotProvided, s)
      | Inr (path, isDefault) \<Rightarrow>
          if isDefault then
            (let kept = (case srv_cache s of
                   Some c \<Rightarrow> if cc_config c \<noteq> None then Some c else None
                 | None \<Rightarrow> None) in
             case kept of
               Some c \<Rightarrow> (Inr c, s)
             | None \<Rightarrow>
                 (case observed_cache s path of
                    Inl e \<Rightarrow> (Inl e, s)
                  | Inr c \<Rightarrow> (Inr c, s\<lparr>srv_cache := Some c\<rparr>)))
          else (observed_cache s path, s))"

text \<open>Every handler begins with \<open>getConfig\<close>; reading a nil configuration panics.\<close>

definition with_config :: "server \<Rightarrow> string \<Rightarrow> (cached_config \<Rightarrow> config_snapshot \<Rightarrow> 'a go) \<Rightarrow> 'a go" where
  "with_config s scope f =
     go_bind (fst (getConfig s scope)) (\<lambda>c. case cc_config c of None \<Rightarrow> nil_call | Some snap \<Rightarrow> f c snap)"

section \<open>Listing\<close>

definition queryParams :: "string \<Rightarrow> string" where
  "queryParams scope = (if scope \<noteq> [] then ''?scope='' @ scope else [])"

record resource =
  res_name :: string
  res_link :: string

record dashboard_resource =
  dr_name :: string
  dr_link :: string
  dr_group :: string

definition ListDashboardGroups :: "server \<Rightarrow> string \<Rightarrow> resource list go" where
  "ListDashboardGroups s scope = with_config s scope (\<lambda>c snap.
     Inr (slice_stable (\<lambda>a b. res_name a < res_name b)
       (map (\<lambda>(name, _). \<lparr>res_name = name,
            res_link = ''/dashboard-groups/'' @ Normalize name @ queryParams scope\<rparr>)
          (sn_dashboard_groups snap))))"

definition GetDashboardGroup :: "server \<Rightarrow> string \<Rightarrow> string \<Rightarrow> resource list go" where
  "GetDashboardGroup s scope dashboardGroup = with_config s scope (\<lambda>c snap.
     (case map_of (sn_dashboard_groups snap)
             (lookup_or_empty (cc_dashboard_group c) (Normalize dashboardGroup)) of
        None \<Rightarrow> Inl (Failed (''Dashboard group '' @ go_quote dashboardGroup @ '' not found''))
      | Some g \<Rightarrow> Inr (slice_stable (\<lambda>a b. res_name a < res_name b)
          (map (\<lambda>dash. \<lparr>res_name = dash,
               res_link = ''/dashboards/'' @ Normalize dash @ queryParams scope\<rparr>)
             (dg_dashboard_names g)))))"

definition dashboards_to_groups :: "config_snapshot \<Rightarrow> (string, string) gomap" where
  "dashboards_to_groups snap =
     fold (\<lambda>(_, g). fold (\<lambda>d. AList.update d (dg_name g)) (dg_dashboard_names g))
       (sn_dashboard_groups snap) []"

definition ListDashboards :: "server \<Rightarrow> string \<Rightarrow> dashboard_resource list go" where
  "ListDashboards s scope = with_config s scope (\<lambda>c snap.
     Inr (slice_stable (\<lambda>a b. dr_name a < dr_name b)
       (map (\<lambda>(name, _). \<lparr>dr_name = name,
            dr_link = ''/dashboards/'' @ Normalize name @ queryParams scope,
            dr_group = lookup_or_empty (dashboards_to_groups snap) name\<rparr>)
          (sn_dashboards snap))))"

record dashboard_response =
  dresp_default_tab :: string
  dresp_highlight_today :: bool
  dresp_suppress_failing_tabs :: bool
  dresp_notifications :: "notification list"

text \<open>The dashboard a name stands for: an unknown name is read as the empty name.\<close>

definition named_dashboard :: "cached_config \<Rightarrow> config_snapshot \<Rightarrow> string \<Rightarrow> dashboard option" where
  "named_dashboard c snap name =
     map_of (sn_dashboards snap) (lookup_or_empty (cc_dashboard c) (Normalize name))"

definition GetDashboard :: "server \<Rightarrow> string \<Rightarrow> string \<Rightarrow> dashboard_response go" where
  "GetDashboard s scope dashboard = with_config s scope (\<lambda>c snap.
     (case named_dashboard c snap dashboard of
        None \<Rightarrow> Inl (Failed (''Dashboard '' @ go_quote dashboard @ '' not found''))
      | Some d \<Rightarrow> Inr \<lparr>dresp_default_tab = dash_default_tab d,
          dresp_highlight_today = dash_highlight_today d,
          dresp_suppress_failing_tabs = dash_downplay_failing_tabs d,
          dresp_notifications = dash_notifications d\<rparr>))"

definition ListDashboardTabs :: "server \<Rightarrow> string \<Rightarrow> string \<Rightarrow> resource list go" where
  "ListDashboardTabs s scope dashboard = with_config s scope (\<lambda>c snap.
     (case named_dashboard c snap dashboard of
        None \<Rightarrow> Inl (Failed (''Dashboard '' @ go_quote dashboard @ '' not found''))
      | Some d \<Rightarrow> Inr (slice_stable (\<lambda>a b. res_name a < res_name b)
          (map (\<lambda>t. \<lparr>res_name = tab_name t,
               res_link = ''/dashboards/'' @ Normalize (dash_name d) @ ''/tabs/'' @
                 Normalize (tab_name t) @ queryParams scope\<rparr>) (dash_tabs d)))))"

section \<open>A tab\<close>

record api_link_template =
  alt_text :: string
  alt_url :: string
  alt_options :: "link_option list"

definition apiLinkOptionsTemplates :: "link_option list \<Rightarrow> link_option list" where
  "apiLinkOptionsTemplates options = map (\<lambda>opt. \<lparr>lo_key = lo_key opt, lo_value = lo_value opt\<rparr>) options"

definition api_template :: "string \<Rightarrow> link_template \<Rightarrow> api_link_template" where
  "api_template text t =
     \<lparr>alt_text = text, alt_url = lt_url t, alt_options = apiLinkOptionsTemplates (lt_options t)\<rparr>"

definition apiResultSource :: "result_source option \<Rightarrow> string \<Rightarrow> result_source" where
  "apiResultSource src gcs_prefix =
     (case src of
        Some (GcsSource g) \<Rightarrow> GcsSource
          \<lparr>gcsc_prefix = gcsc_prefix g, gcsc_pubsub_project = gcsc_pubsub_project g,
           gcsc_pubsub_subscription = gcsc_pubsub_subscription g\<rparr>
      | Some (ResultstoreSource r) \<Rightarrow> ResultstoreSource
          \<lparr>rsc_project = rsc_project r, rsc_query = rsc_query r\<rparr>
      | _ \<Rightarrow> GcsSource
          \<lparr>gcsc_prefix = gcs_prefix, gcsc_pubsub_project = [], gcsc_pubsub_subscription = []\<rparr>)"

definition tabMenuTemplates :: "dashboard_tab \<Rightarrow> api_link_template list" where
  "tabMenuTemplates tab =
     (case tab_results_url_template tab of
        None \<Rightarrow> [] | Some t \<Rightarrow> [api_template (tab_results_text tab) t]) @
     (if tab_about_dashboard_url tab \<noteq> []
      then [\<lparr>alt_text = ''About this tab'', alt_url = tab_about_dashboard_url tab, alt_options = []\<rparr>]
      else [])"

definition cellMenuTemplates :: "dashboard_tab \<Rightarrow> api_link_template list" where
  "cellMenuTemplates tab =
     (case tab_open_test_template tab of None \<Rightarrow> [] | Some t \<Rightarrow> [api_template ''Open Test'' t]) @
     (case tab_file_bug_template tab of None \<Rightarrow> [] | Some t \<Rightarrow> [api_template ''File a Bug'' t]) @
     (case tab_attach_bug_template tab of None \<Rightarrow> [] | Some t \<Rightarrow> [api_template ''Attach to Bug'' t])"

definition columnDiffMenuTemplates :: "dashboard_tab \<Rightarrow> api_link_template list" where
  "columnDiffMenuTemplates tab =
     (case tab_code_search_url_template tab of
        None \<Rightarrow> [] | Some t \<Rightarrow> [api_template ''Search for Changes'' t]) @
     map (\<lambda>t. api_template (lt_name t) t) (tab_column_diff_link_templates tab)"

record tab_response =
  tresp_name :: string
  tresp_test_group_name :: string
  tresp_description :: string
  tresp_result_source :: result_source
  tresp_tab_menu :: "api_link_template list"
  tresp_cell_menu :: "api_link_template list"
  tresp_column_diff :: "api_link_template list"
  tresp_num_columns_recent :: int
  tresp_alert_stale_results_hours :: int
  tresp_num_failures_to_alert :: int
  tresp_num_passes_to_disable_alert :: int
  tresp_base_options :: string
  tresp_display_local_time :: bool
  tresp_tabular_names_regex :: string

definition tab_answer :: "dashboard_tab \<Rightarrow> test_group \<Rightarrow> tab_response" where
  "tab_answer tab tg =
     \<lparr>tresp_name = tab_name tab, tresp_test_group_name = tab_test_group_name tab,
      tresp_description = tab_description tab,
      tresp_result_source = apiResultSource (tg_result_source tg) (tg_gcs_prefix tg),
      tresp_tab_menu = tabMenuTemplates tab, tresp_cell_menu = cellMenuTemplates tab,
      tresp_column_diff = columnDiffMenuTemplates tab,
      tresp_num_columns_recent = tab_num_columns_recent tab,
      tresp_alert_stale_results_hours = ao_alert_stale_results_hours (get_alert_options tab),
      tresp_num_failures_to_alert = ao_num_failures_to_alert (get_alert_options tab),
      tresp_num_passes_to_disable_alert = ao_num_passes_to_disable_alert (get_alert_options tab),
      tresp_base_options = tab_base_options tab, tresp_display_local_time = tab_display_local_time tab,
      tresp_tabular_names_regex = tab_tabular_names_regex tab\<rparr>"

definition GetDashboardTab :: "server \<Rightarrow> string \<Rightarrow> string \<Rightarrow> string \<Rightarrow> tab_response go" where
  "GetDashboardTab s scope dashboard tabReq = with_config s scope (\<lambda>c snap.
     let tabName = lookup_or_empty
           (case map_of (cc_dashboard_tab c) (Normalize dashboard) of Some m \<Rightarrow> m | None \<Rightarrow> [])
           (Normalize tabReq);
         tabs = (case named_dashboard c snap dashboard of Some d \<Rightarrow> dash_tabs d | None \<Rightarrow> []) in
     (case find (\<lambda>t. tab_name t = tabName) tabs of
        None \<Rightarrow> Inl (Failed (''dashboard tab '' @ go_quote dashboard @ ''/'' @ go_quote tabReq @ '' not found''))
      | Some tab \<Rightarrow>
        (case map_of (sn_groups snap)
                (lookup_or_empty (cc_test_group c) (Normalize (tab_test_group_name tab))) of
           None \<Rightarrow> Inl (Failed (''test group '' @ go_quote (tab_test_group_name tab) @ '' backing dashboard tab '' @
             go_quote dashboard @ ''/'' @ go_quote tabReq @ '' not found''))
         | Some tg \<Rightarrow> Inr (tab_answer tab tg))))"

section \<open>HTTP\<close>

record http_reply =
  hr_status :: int
  hr_headers :: "(string \<times> string) list"
  hr_body :: string

definition http_error :: "string \<Rightarrow> int \<Rightarrow> http_reply" where
  "http_error msg code =
     \<lparr>hr_status = code,
      hr_headers = [(''Content-Type'', ''text/plain; charset=utf-8''), (''X-Content-Type-Options'', ''nosniff'')],
      hr_body = msg @ [CHR 0x0A]\<rparr>"

definition writeJSON :: "server \<Rightarrow> ('m \<Rightarrow> string go) \<Rightarrow> 'm \<Rightarrow> http_reply" where
  "writeJSON s marshal msg =
     (case marshal msg of
        Inl e \<Rightarrow> http_error (case e of Failed m \<Rightarrow> m | Panic m \<Rightarrow> m) 500
      | Inr body \<Rightarrow>
          \<lparr>hr_status = 200,
           hr_headers = (''Content-Type'', ''application/json'') #
             (if srv_allow_origin s \<noteq> []
              then (''Access-Control-Allow-Origin'', srv_allow_origin s) #
                (if srv_allow_origin s \<noteq> ''*'' then [(''Vary'', ''Origin'')] else [])
              else []),
           hr_body = body\<rparr>)"

text \<open>What a handler answers: nothing when it panics (the connection is closed).\<close>

definition serve :: "server \<Rightarrow> ('m \<Rightarrow> string go) \<Rightarrow> 'm go \<Rightarrow> http_reply option" where
  "serve s marshal result =
     (case result of
        Inl (Failed m) \<Rightarrow> Some (http_error m 404)
      | Inl (Panic m) \<Rightarrow> None
      | Inr msg \<Rightarrow> Some (writeJSON s marshal msg))"

definition ListDashboardGroupHTTP ::
    "server \<Rightarrow> (resource list \<Rightarrow> string go) \<Rightarrow> string \<Rightarrow> http_reply option" where
  "ListDashboardGroupHTTP s marshal scope = serve s marshal (ListDashboardGroups s scope)"

definition GetDashboardGroupHTTP ::
    "server \<Rightarrow> (resource list \<Rightarrow> string go) \<Rightarrow> string \<Rightarrow> string \<Rightarrow> http_reply option" where
  "GetDashboardGroupHTTP s marshal scope dg = serve s marshal (GetDashboardGroup s scope dg)"

definition ListDashboardsHTTP ::
    "server \<Rightarrow> (dashboard_resource list \<Rightarrow> string go) \<Rightarrow> string \<Rightarrow> http_reply option" where
  "ListDashboardsHTTP s marshal scope = serve s marshal (ListDashboards s scope)"

definition GetDashboardHTTP ::
    "server \<Rightarrow> (dashboard_response \<Rightarrow> string go) \<Rightarrow> string \<Rightarrow> string \<Rightarrow> http_reply option" where
  "GetDashboardHTTP s marshal scope dashboard = serve s marshal (GetDashboard s scope dashboard)"

definition ListDashboardTabsHTTP ::
    "server \<Rightarrow> (resource list \<Rightarrow> string go) \<Rightarrow> string \<Rightarrow> string \<Rightarrow> http_reply option" where
  "ListDashboardTabsHTTP s marshal scope dashboard = serve s marshal (ListDashboardTabs s scope dashboard)"

definition GetDashboardTabHTTP ::
    "server \<Rightarrow> (tab_response \<Rightarrow> string go) \<Rightarrow> string \<Rightarrow> string \<Rightarrow> string \<Rightarrow> http_reply option" where
  "GetDashboardTabHTTP s marshal scope dashboard tab =
     serve s marshal (GetDashboardTab s scope dashboard tab)"

section \<open>What the maps hold\<close>

lemma to_lower_alnum:
  assumes "is_alnum c" shows "is_alnum (to_lower c) \<and> to_lower (to_lower c) = to_lower c"
proof (cases "is_upper c")
  case True
  then have u: "65 \<le> (of_char c :: nat)" "(of_char c :: nat) \<le> 90"
    by (simp_all add: is_upper_def less_eq_char_def)
  let ?d = "char_of (of_char c + 32 :: nat)"
  have d: "of_char ?d = (of_char c + 32 :: nat)" using u by (simp add: of_char_of)
  have "is_lower ?d" "\<not> is_upper ?d"
    using u unfolding is_lower_def is_upper_def less_eq_char_def d by simp_all
  then show ?thesis using True by (simp add: to_lower_def is_alnum_def)
qed (use assms in \<open>simp add: to_lower_def\<close>)

lemma Normalize_idem: "Normalize (Normalize s) = Normalize s"
  by (induction s) (auto simp: Normalize_def to_lower_alnum)
lemma by_name_distinct:
  assumes "distinct (map nm xs)"
  shows "by_name nm xs = map (\<lambda>x. (nm x, x)) xs"
proof -
  have upd: "k \<notin> fst ` set m \<Longrightarrow> AList.update k v m = m @ [(k, v)]" for k :: string and v :: 'a and m
    by (induction m) auto
  have "distinct (map nm xs) \<Longrightarrow> (\<forall>x \<in> set xs. nm x \<notin> fst ` set m) \<Longrightarrow>
      fold (\<lambda>x. AList.update (nm x) x) xs m = m @ map (\<lambda>x. (nm x, x)) xs" for m
  proof (induction xs arbitrary: m)
    case (Cons x xs)
    have "\<forall>y \<in> set xs. nm y \<notin> fst ` set (m @ [(nm x, x)])"
      using Cons.prems by (auto simp: image_iff)
    with Cons show ?case by (simp add: upd)
  qed simp
  from this [OF assms, of "[]"] show ?thesis by (simp add: by_name_def)
qed

lemma map_of_normal_names:
  assumes "distinct (map Normalize ns)"
  shows "map_of (normal_names ns) k = find (\<lambda>n. Normalize n = k) ns"
proof -
  have "distinct (map Normalize ns) \<Longrightarrow>
      map_of (fold (\<lambda>n. AList.update (Normalize n) n) ns m) k =
      (case find (\<lambda>n. Normalize n = k) ns of Some n \<Rightarrow> Some n | None \<Rightarrow> map_of m k)" for m
  proof (induction ns arbitrary: m)
    case (Cons n ns)
    have "Normalize n = k \<Longrightarrow> find (\<lambda>n. Normalize n = k) ns = None"
      using Cons.prems by (auto simp: find_None_iff image_iff)
    with Cons show ?case by (auto simp: update_conv' split: option.splits)
  qed simp
  from this [OF assms, of "[]"] show ?thesis by (simp add: normal_names_def split: option.splits)
qed

lemma find_unique:
  assumes "distinct (map f xs)" "x \<in> set xs" "f x = k"
  shows "find (\<lambda>y. f y = k) xs = Some x"
  using assms by (induction xs) (auto simp: image_iff)

lemma normal_names_known:
  "distinct (map Normalize ns) \<Longrightarrow> n \<in> set ns \<Longrightarrow> Normalize k = Normalize n \<Longrightarrow>
   lookup_or_empty (normal_names ns) (Normalize k) = n"
  by (simp add: lookup_or_empty_def map_of_normal_names find_unique)

lemma normal_names_unknown:
  "distinct (map Normalize ns) \<Longrightarrow> k \<notin> Normalize ` set ns \<Longrightarrow> lookup_or_empty (normal_names ns) k = []"
proof -
  assume d: "distinct (map Normalize ns)" and "k \<notin> Normalize ` set ns"
  then have "find (\<lambda>n. Normalize n = k) ns = None" by (auto simp: find_None_iff)
  then show ?thesis by (simp add: lookup_or_empty_def map_of_normal_names [OF d])
qed

text \<open>A snapshot of a configuration, whatever order the maps are visited in.\<close>

definition snapshot_of :: "configuration \<Rightarrow> config_snapshot \<Rightarrow> bool" where
  "snapshot_of cfg snap \<longleftrightarrow>
     mset (sn_dashboard_groups snap) = mset (sn_dashboard_groups (mapped_config cfg None)) \<and>
     mset (sn_dashboards snap) = mset (sn_dashboards (mapped_config cfg None)) \<and>
     mset (sn_groups snap) = mset (sn_groups (mapped_config cfg None))"

lemma normal_distinct: "distinct (map (\<lambda>x. Normalize (nm x)) xs) \<Longrightarrow> distinct (map nm xs)"
  by (induction xs) (auto simp: image_iff)

lemma snapshot_maps:
  assumes "names_ok cfg" "snapshot_of cfg snap"
  shows "mset (sn_dashboard_groups snap) = mset (map (\<lambda>g. (dg_name g, g)) (cfg_dashboard_groups cfg))"
    and "mset (sn_dashboards snap) = mset (map (\<lambda>d. (dash_name d, d)) (cfg_dashboards cfg))"
    and "mset (sn_groups snap) = mset (map (\<lambda>g. (tg_name g, g)) (cfg_test_groups cfg))"
proof -
  have d: "distinct (map dg_name (cfg_dashboard_groups cfg))" "distinct (map dash_name (cfg_dashboards cfg))"
    "distinct (map tg_name (cfg_test_groups cfg))"
    using assms(1) by (auto simp: names_ok_def intro: normal_distinct)
  show "mset (sn_dashboard_groups snap) = mset (map (\<lambda>g. (dg_name g, g)) (cfg_dashboard_groups cfg))"
    "mset (sn_dashboards snap) = mset (map (\<lambda>d. (dash_name d, d)) (cfg_dashboards cfg))"
    "mset (sn_groups snap) = mset (map (\<lambda>g. (tg_name g, g)) (cfg_test_groups cfg))"
    using assms(2) by (simp_all add: snapshot_of_def mapped_config_def by_name_distinct d)
qed

text \<open>One entity, found in a map that holds the list of all of them under their names.\<close>

lemma named_map:
  assumes m: "mset m = mset (map (\<lambda>x. (nm x, x)) xs)" and d: "distinct (map (\<lambda>x. Normalize (nm x)) xs)"
  shows "distinct (map (\<lambda>kv. Normalize (fst kv)) m)"
    and "map_of m k = Some x \<longleftrightarrow> x \<in> set xs \<and> nm x = k"
    and "\<forall>x \<in> set xs. nm x \<noteq> [] \<Longrightarrow>
      map_of m (lookup_or_empty (normal_names (map fst m)) (Normalize q)) = Some x \<longleftrightarrow>
      x \<in> set xs \<and> Normalize (nm x) = Normalize q"
proof -
  have "mset (map (\<lambda>kv. Normalize (fst kv)) m) = mset (map (\<lambda>kv. Normalize (fst kv)) (map (\<lambda>x. (nm x, x)) xs))"
    unfolding mset_map m ..
  then have nn: "mset (map (\<lambda>kv. Normalize (fst kv)) m) = mset (map (\<lambda>x. Normalize (nm x)) xs)"
    by (simp add: comp_def)
  then show dn: "distinct (map (\<lambda>kv. Normalize (fst kv)) m)"
    using d mset_eq_imp_distinct_iff by metis
  then have dk: "distinct (map fst m)" by (rule normal_distinct)
  have sets: "set m = (\<lambda>x. (nm x, x)) ` set xs" using m by (metis list.set_map set_mset_mset)
  show look: "map_of m k = Some x \<longleftrightarrow> x \<in> set xs \<and> nm x = k" for k x
    using dk by (auto simp: map_of_eq_Some_iff sets)
  assume ne: "\<forall>x \<in> set xs. nm x \<noteq> []"
  have dnn: "distinct (map Normalize (map fst m))" using dn by (simp add: comp_def)
  have keys: "set (map fst m) = nm ` set xs" by (force simp: sets)
  show "map_of m (lookup_or_empty (normal_names (map fst m)) (Normalize q)) = Some x \<longleftrightarrow>
      x \<in> set xs \<and> Normalize (nm x) = Normalize q"
  proof (cases "Normalize q \<in> Normalize ` nm ` set xs")
    case True
    then obtain y where y: "y \<in> set xs" "Normalize q = Normalize (nm y)" by auto
    then have "lookup_or_empty (normal_names (map fst m)) (Normalize q) = nm y"
      using keys by (intro normal_names_known [OF dnn]) auto
    moreover have "x \<in> set xs \<Longrightarrow> Normalize (nm x) = Normalize (nm y) \<Longrightarrow> x = y"
      using d y(1) by (auto simp: distinct_map inj_on_def)
    ultimately show ?thesis using y look [of "nm y" x] by auto
  next
    case False
    then have "lookup_or_empty (normal_names (map fst m)) (Normalize q) = []"
      using keys by (intro normal_names_unknown [OF dnn]) simp
    moreover have "x \<in> set xs \<Longrightarrow> nm x \<noteq> []" using ne by blast
    ultimately show ?thesis using look [of "[]" x] False by (metis imageI)
  qed
qed

section \<open>What the handlers answer\<close>

text \<open>A server that answers a scope with the cache of a snapshot of a valid configuration.\<close>

definition serves :: "server \<Rightarrow> string \<Rightarrow> configuration \<Rightarrow> config_snapshot \<Rightarrow> bool" where
  "serves s scope cfg snap \<longleftrightarrow>
     names_ok cfg \<and> references_ok cfg \<and> snapshot_of cfg snap \<and>
     fst (getConfig s scope) = Inr (new_cache snap)"

lemma new_cache_simps:
  "cc_config (new_cache snap) = Some snap"
  "cc_dashboard_group (new_cache snap) = normal_names (map fst (sn_dashboard_groups snap))"
  "cc_dashboard (new_cache snap) = normal_names (map fst (sn_dashboards snap))"
  "cc_test_group (new_cache snap) = normal_names (map fst (sn_groups snap))"
  "cc_dashboard_tab (new_cache snap) =
     fold (\<lambda>(name, d). AList.update (Normalize name) (normal_names (map tab_name (dash_tabs d))))
       (sn_dashboards snap) []"
  by (simp_all add: new_cache_def generateNormalCache_def)

lemma serves_config:
  "serves s scope cfg snap \<Longrightarrow> with_config s scope f = f (new_cache snap) snap"
  by (simp add: serves_def with_config_def new_cache_simps)

lemma validateName_nonempty: "validateName n = None \<Longrightarrow> n \<noteq> []"
  by (auto simp: validateName_def)

lemma names_ok_facts:
  assumes "names_ok cfg"
  shows "distinct (map (\<lambda>g. Normalize (dg_name g)) (cfg_dashboard_groups cfg))"
    "\<forall>g \<in> set (cfg_dashboard_groups cfg). dg_name g \<noteq> []"
    "distinct (map (\<lambda>d. Normalize (dash_name d)) (cfg_dashboards cfg))"
    "\<forall>d \<in> set (cfg_dashboards cfg). dash_name d \<noteq> []"
    "distinct (map (\<lambda>g. Normalize (tg_name g)) (cfg_test_groups cfg))"
    "\<forall>g \<in> set (cfg_test_groups cfg). tg_name g \<noteq> []"
    "d \<in> set (cfg_dashboards cfg) \<Longrightarrow> distinct (map (\<lambda>t. Normalize (tab_name t)) (dash_tabs d))"
    "d \<in> set (cfg_dashboards cfg) \<Longrightarrow> t \<in> set (dash_tabs d) \<Longrightarrow> tab_name t \<noteq> []"
  using assms validateName_nonempty unfolding names_ok_def by auto

lemma named_dashboard_iff:
  assumes "serves s scope cfg snap"
  shows "named_dashboard (new_cache snap) snap q = Some d \<longleftrightarrow>
    d \<in> set (cfg_dashboards cfg) \<and> Normalize (dash_name d) = Normalize q"
proof -
  from assms have n: "names_ok cfg" and snap: "snapshot_of cfg snap" by (simp_all add: serves_def)
  show ?thesis
    unfolding named_dashboard_def new_cache_simps
    using named_map(3) [OF snapshot_maps(2) [OF n snap] names_ok_facts(3) [OF n] names_ok_facts(4) [OF n]] .
qed

lemma GetDashboardGroup_iff:
  assumes "serves s scope cfg snap"
  shows "(\<exists>r. GetDashboardGroup s scope q = Inr r) \<longleftrightarrow>
    (\<exists>g \<in> set (cfg_dashboard_groups cfg). Normalize (dg_name g) = Normalize q)"
proof -
  from assms have n: "names_ok cfg" and snap: "snapshot_of cfg snap" by (simp_all add: serves_def)
  have "map_of (sn_dashboard_groups snap)
      (lookup_or_empty (cc_dashboard_group (new_cache snap)) (Normalize q)) = Some g \<longleftrightarrow>
      g \<in> set (cfg_dashboard_groups cfg) \<and> Normalize (dg_name g) = Normalize q" for g
    unfolding new_cache_simps
    using named_map(3) [OF snapshot_maps(1) [OF n snap] names_ok_facts(1) [OF n] names_ok_facts(2) [OF n]] .
  then show ?thesis
    by (auto simp: GetDashboardGroup_def serves_config [OF assms] split: option.splits)
qed

text \<open>The tabs of a dashboard under their normalised names.\<close>

lemma dashboard_tabs_map:
  assumes sv: "serves s scope cfg snap" and d: "d \<in> set (cfg_dashboards cfg)"
  shows "map_of (cc_dashboard_tab (new_cache snap)) (Normalize (dash_name d)) =
    Some (normal_names (map tab_name (dash_tabs d)))"
proof -
  from sv have n: "names_ok cfg" and snap: "snapshot_of cfg snap" by (simp_all add: serves_def)
  note m = snapshot_maps(2) [OF n snap]
  have dn: "distinct (map (\<lambda>kv. Normalize (fst kv)) (sn_dashboards snap))"
    by (rule named_map(1) [OF m names_ok_facts(3) [OF n]])
  have mem: "(dash_name d, d) \<in> set (sn_dashboards snap)"
    using m d by (metis (no_types, lifting) image_eqI list.set_map set_mset_mset)
  have upd: "distinct (map (\<lambda>kv. Normalize (fst kv)) kvs) \<Longrightarrow> (k, v) \<in> set kvs \<Longrightarrow>
      map_of (fold (\<lambda>(name, d). AList.update (Normalize name) (normal_names (map tab_name (dash_tabs d)))) kvs m)
        (Normalize k) = Some (normal_names (map tab_name (dash_tabs v)))"
    for kvs :: "(string \<times> dashboard) list" and k v m
  proof (induction kvs arbitrary: m)
    case (Cons kv kvs)
    obtain k' v' where kv: "kv = (k', v')" by fastforce
    have other: "x \<notin> Normalize ` fst ` set kvs \<Longrightarrow>
        map_of (fold (\<lambda>(name, d). AList.update (Normalize name) (normal_names (map tab_name (dash_tabs d)))) kvs m) x
        = map_of m x" for m x and kvs :: "(string \<times> dashboard) list"
      by (induction kvs arbitrary: m) (auto simp: update_conv')
    show ?case
    proof (cases "(k, v) = kv")
      case True
      then have "Normalize k \<notin> Normalize ` fst ` set kvs" using Cons.prems(1) kv by auto
      from other [OF this] show ?thesis using True kv by (auto simp: update_conv')
    next
      case False
      with Cons.prems(2) have "(k, v) \<in> set kvs" by auto
      from Cons.IH [OF _ this] Cons.prems(1) show ?thesis by (simp add: kv)
    qed
  qed simp
  show ?thesis unfolding new_cache_simps by (rule upd [OF dn mem])
qed

text \<open>The tab of a dashboard that a name stands for.\<close>

lemma tab_of_name:
  assumes sv: "serves s scope cfg snap" and d: "d \<in> set (cfg_dashboards cfg)"
  shows "find (\<lambda>t. tab_name t = lookup_or_empty (normal_names (map tab_name (dash_tabs d))) (Normalize tq))
      (dash_tabs d) = Some t \<longleftrightarrow> t \<in> set (dash_tabs d) \<and> Normalize (tab_name t) = Normalize tq"
proof -
  from sv have n: "names_ok cfg" by (simp add: serves_def)
  let ?tn = "lookup_or_empty (normal_names (map tab_name (dash_tabs d))) (Normalize tq)"
  have dt: "distinct (map Normalize (map tab_name (dash_tabs d)))"
    using names_ok_facts(7) [OF n d] by (simp add: comp_def)
  show ?thesis
  proof (cases "\<exists>u \<in> set (dash_tabs d). Normalize (tab_name u) = Normalize tq")
    case True
    then obtain u where u: "u \<in> set (dash_tabs d)" "Normalize (tab_name u) = Normalize tq" by blast
    then have "?tn = tab_name u" by (intro normal_names_known [OF dt]) auto
    moreover have "find (\<lambda>t. tab_name t = tab_name u) (dash_tabs d) = Some u"
      by (rule find_unique [OF normal_distinct [OF names_ok_facts(7) [OF n d]] u(1) refl])
    moreover have "t \<in> set (dash_tabs d) \<Longrightarrow> Normalize (tab_name t) = Normalize tq \<Longrightarrow> t = u"
      using names_ok_facts(7) [OF n d] u by (auto simp: distinct_map inj_on_def)
    ultimately show ?thesis using u by auto
  next
    case False
    then have "?tn = []" by (intro normal_names_unknown [OF dt]) auto
    moreover have "find (\<lambda>t. tab_name t = []) (dash_tabs d) = None"
      using names_ok_facts(8) [OF n d] by (auto simp: find_None_iff)
    ultimately show ?thesis using False by auto
  qed
qed

text \<open>
  A tab is found under every way to write the names of its dashboard and of itself that agrees in
  letters and digits, and under no others; it always comes with its test group.
\<close>

lemma GetDashboardTab_iff:
  assumes sv: "serves s scope cfg snap"
  shows "GetDashboardTab s scope dq tq = Inr r \<longleftrightarrow>
    (\<exists>d \<in> set (cfg_dashboards cfg). \<exists>t \<in> set (dash_tabs d). \<exists>tg \<in> set (cfg_test_groups cfg).
       Normalize (dash_name d) = Normalize dq \<and> Normalize (tab_name t) = Normalize tq \<and>
       tg_name tg = tab_test_group_name t \<and> r = tab_answer t tg)"
proof (cases "named_dashboard (new_cache snap) snap dq")
  case None
  then have "\<not> (\<exists>d \<in> set (cfg_dashboards cfg). Normalize (dash_name d) = Normalize dq)"
    using named_dashboard_iff [OF sv, of dq] by simp
  with None show ?thesis
    by (auto simp: GetDashboardTab_def serves_config [OF sv] Let_def)
next
  case (Some d)
  from sv have n: "names_ok cfg" and rf: "references_ok cfg" and snap: "snapshot_of cfg snap"
    by (simp_all add: serves_def)
  from Some have d: "d \<in> set (cfg_dashboards cfg)" "Normalize (dash_name d) = Normalize dq"
    using named_dashboard_iff [OF sv] by simp_all
  have only: "d' = d" if "d' \<in> set (cfg_dashboards cfg)" "Normalize (dash_name d') = Normalize dq" for d'
    using named_dashboard_iff [OF sv, of dq d'] that Some by simp
  let ?tn = "lookup_or_empty (normal_names (map tab_name (dash_tabs d))) (Normalize tq)"
  have tabs: "map_of (cc_dashboard_tab (new_cache snap)) (Normalize dq) =
      Some (normal_names (map tab_name (dash_tabs d)))"
    using dashboard_tabs_map [OF sv d(1)] d(2) by simp
  note found = tab_of_name [OF sv d(1), of tq]
  have group: "\<exists>tg \<in> set (cfg_test_groups cfg). tg_name tg = tab_test_group_name t \<and>
      map_of (sn_groups snap) (lookup_or_empty (cc_test_group (new_cache snap))
        (Normalize (tab_test_group_name t))) = Some tg \<and>
      (\<forall>tg' \<in> set (cfg_test_groups cfg). tg_name tg' = tab_test_group_name t \<longrightarrow> tg' = tg)"
    if t: "t \<in> set (dash_tabs d)" for t
  proof -
    have "tab_test_group_name t \<in> set (tab_groups cfg)" using t d(1) by (auto simp: tab_groups_def)
    then obtain tg where tg: "tg \<in> set (cfg_test_groups cfg)" "tg_name tg = tab_test_group_name t"
      using rf by (auto simp: references_ok_def)
    then have "map_of (sn_groups snap) (lookup_or_empty (cc_test_group (new_cache snap))
        (Normalize (tab_test_group_name t))) = Some tg"
      unfolding new_cache_simps
      using named_map(3) [OF snapshot_maps(3) [OF n snap] names_ok_facts(5) [OF n] names_ok_facts(6) [OF n]]
      by simp
    moreover have "tg' = tg" if "tg' \<in> set (cfg_test_groups cfg)" "tg_name tg' = tab_test_group_name t" for tg'
      using names_ok_facts(5) [OF n] tg that by (auto simp: distinct_map inj_on_def)
    ultimately show ?thesis using tg by blast
  qed
  have run: "GetDashboardTab s scope dq tq =
      (case find (\<lambda>t. tab_name t = ?tn) (dash_tabs d) of
        None \<Rightarrow> Inl (Failed (''dashboard tab '' @ go_quote dq @ ''/'' @ go_quote tq @ '' not found''))
      | Some tab \<Rightarrow>
        (case map_of (sn_groups snap)
                (lookup_or_empty (cc_test_group (new_cache snap)) (Normalize (tab_test_group_name tab))) of
           None \<Rightarrow> Inl (Failed (''test group '' @ go_quote (tab_test_group_name tab) @ '' backing dashboard tab '' @
             go_quote dq @ ''/'' @ go_quote tq @ '' not found''))
         | Some tg \<Rightarrow> Inr (tab_answer tab tg)))"
    by (simp add: GetDashboardTab_def serves_config [OF sv] Let_def tabs Some)
  show ?thesis
  proof (cases "find (\<lambda>t. tab_name t = ?tn) (dash_tabs d)")
    case None
    then have "\<not> (\<exists>t \<in> set (dash_tabs d). Normalize (tab_name t) = Normalize tq)" using found by simp
    with None show ?thesis unfolding run using only by auto
  next
    case (Some t)
    then have t: "t \<in> set (dash_tabs d)" "Normalize (tab_name t) = Normalize tq" using found by simp_all
    from group [OF t(1)] obtain tg where tg: "tg \<in> set (cfg_test_groups cfg)"
      "tg_name tg = tab_test_group_name t"
      "map_of (sn_groups snap) (lookup_or_empty (cc_test_group (new_cache snap))
        (Normalize (tab_test_group_name t))) = Some tg"
      "\<forall>tg' \<in> set (cfg_test_groups cfg). tg_name tg' = tab_test_group_name t \<longrightarrow> tg' = tg" by blast
    have uniq: "t' = t" if "t' \<in> set (dash_tabs d)" "Normalize (tab_name t') = Normalize tq" for t'
      using found [of t'] Some that by simp
    have "GetDashboardTab s scope dq tq = Inr (tab_answer t tg)" unfolding run Some by (simp add: tg(3))
    then show ?thesis using only uniq t tg d by (metis sum.inject(2))
  qed
qed

subsection \<open>Lists\<close>

lemma sorted_names:
  "sorted (map (f :: 'a \<Rightarrow> string) (slice_stable (\<lambda>a b. f a < f b) xs)) \<and>
   mset (map f (slice_stable (\<lambda>a b. f a < f b) xs)) = mset (map f xs)"
proof
  have "sorted_wrt (\<lambda>a b. \<not> f b < f a) (slice_stable (\<lambda>a b. f a < f b) xs)"
    by (rule weak_order.sorted_slice_stable [OF weak_order_key_less])
  then show "sorted (map f (slice_stable (\<lambda>a b. f a < f b) xs))"
    by (simp add: sorted_wrt_map not_less)
  show "mset (map f (slice_stable (\<lambda>a b. f a < f b) xs)) = mset (map f xs)"
    by simp
qed

lemma map_name_sorted:
  assumes "mset (map f xs) = mset ns"
  shows "map f (slice_stable (\<lambda>a b. f a < f b) xs) = sort (ns :: string list)"
  using sorted_names [of f xs] assms by (metis properties_for_sort)

lemma groups_lookup:
  assumes "\<forall>kg \<in> set gs. \<forall>kg' \<in> set gs.
      d \<in> set (dg_dashboard_names (snd kg)) \<and> d \<in> set (dg_dashboard_names (snd kg')) \<longrightarrow> snd kg = snd kg'"
  shows "map_of (fold (\<lambda>(_, g). fold (\<lambda>d. AList.update d (dg_name g)) (dg_dashboard_names g)) gs m) d =
    (case find (\<lambda>kg. d \<in> set (dg_dashboard_names (snd kg))) gs of
       Some kg \<Rightarrow> Some (dg_name (snd kg)) | None \<Rightarrow> map_of m d)"
  using assms
proof (induction gs arbitrary: m)
  case (Cons kg gs)
  obtain k g where kg: "kg = (k, g)" by fastforce
  let ?m = "fold (\<lambda>d. AList.update d (dg_name g)) (dg_dashboard_names g) m"
  have one: "map_of (fold (\<lambda>d. AList.update d v) ds m) d = (if d \<in> set ds then Some v else map_of m d)"
    for ds and v :: string and m
    by (induction ds arbitrary: m) (auto simp: update_conv')
  have IH: "map_of (fold (\<lambda>(_, g). fold (\<lambda>d. AList.update d (dg_name g)) (dg_dashboard_names g)) gs ?m) d =
      (case find (\<lambda>kg. d \<in> set (dg_dashboard_names (snd kg))) gs of
       Some kg \<Rightarrow> Some (dg_name (snd kg)) | None \<Rightarrow> map_of ?m d)"
    using Cons.prems by (intro Cons.IH) auto
  show ?case
  proof (cases "find (\<lambda>kg. d \<in> set (dg_dashboard_names (snd kg))) gs")
    case None
    with IH show ?thesis by (simp add: kg one)
  next
    case (Some kg')
    then have kg': "kg' \<in> set gs" "d \<in> set (dg_dashboard_names (snd kg'))"
      by (auto simp: find_Some_iff)
    have "d \<in> set (dg_dashboard_names g) \<Longrightarrow> g = snd kg'"
      using Cons.prems kg' by (force simp: kg)
    with IH Some show ?thesis by (auto simp: kg)
  qed
qed simp

text \<open>
  The list of dashboards: all of them in the order of their names, each with the one group that has
  it as a member, and with a link under which the server finds it.
\<close>

lemma ListDashboards_spec:
  assumes sv: "serves s scope cfg snap"
  shows "\<exists>rs. ListDashboards s scope = Inr rs \<and> map dr_name rs = sort (map dash_name (cfg_dashboards cfg)) \<and>
    (\<forall>r \<in> set rs. \<exists>d \<in> set (cfg_dashboards cfg).
       dr_name r = dash_name d \<and>
       dr_link r = ''/dashboards/'' @ Normalize (dash_name d) @ queryParams scope \<and>
       named_dashboard (new_cache snap) snap (Normalize (dash_name d)) = Some d \<and>
       (\<forall>g \<in> set (cfg_dashboard_groups cfg).
          dash_name d \<in> set (dg_dashboard_names g) \<longrightarrow> dr_group r = dg_name g) \<and>
       ((\<forall>g \<in> set (cfg_dashboard_groups cfg). dash_name d \<notin> set (dg_dashboard_names g)) \<longrightarrow> dr_group r = []))"
proof -
  from sv have n: "names_ok cfg" and rf: "references_ok cfg" and snap: "snapshot_of cfg snap"
    by (simp_all add: serves_def)
  let ?mk = "\<lambda>(name, _ :: dashboard). \<lparr>dr_name = name,
            dr_link = ''/dashboards/'' @ Normalize name @ queryParams scope,
            dr_group = lookup_or_empty (dashboards_to_groups snap) name\<rparr>"
  let ?rs = "slice_stable (\<lambda>a b. dr_name a < dr_name b) (map ?mk (sn_dashboards snap))"
  have run: "ListDashboards s scope = Inr ?rs" by (simp add: ListDashboards_def serves_config [OF sv])
  have "map dr_name (map ?mk (sn_dashboards snap)) = map fst (sn_dashboards snap)" by auto
  moreover have "mset (map fst (sn_dashboards snap)) = mset (map dash_name (cfg_dashboards cfg))"
    unfolding mset_map snapshot_maps(2) [OF n snap] by (simp add: image_mset.compositionality comp_def)
  ultimately have "mset (map dr_name (map ?mk (sn_dashboards snap))) = mset (map dash_name (cfg_dashboards cfg))"
    by (simp only:)
  from map_name_sorted [OF this] have sorted: "map dr_name ?rs = sort (map dash_name (cfg_dashboards cfg))" .
  have sg: "set (sn_dashboard_groups snap) = (\<lambda>g. (dg_name g, g)) ` set (cfg_dashboard_groups cfg)"
    using snapshot_maps(1) [OF n snap] by (metis list.set_map set_mset_mset)
  have sd: "set (sn_dashboards snap) = (\<lambda>d. (dash_name d, d)) ` set (cfg_dashboards cfg)"
    using snapshot_maps(2) [OF n snap] by (metis list.set_map set_mset_mset)
  have one: "g = g'" if "g \<in> set gs" "g' \<in> set gs" "x \<in> set (dg_dashboard_names g)" "x \<in> set (dg_dashboard_names g')"
    "distinct (concat (map dg_dashboard_names gs))" for gs g g' x
    using that by (induction gs) auto
  have dm: "distinct (concat (map dg_dashboard_names (cfg_dashboard_groups cfg)))"
    using rf by (simp add: references_ok_def Let_def)
  have look: "map_of (dashboards_to_groups snap) x =
      (case find (\<lambda>kg. x \<in> set (dg_dashboard_names (snd kg))) (sn_dashboard_groups snap) of
       Some kg \<Rightarrow> Some (dg_name (snd kg)) | None \<Rightarrow> None)" for x
  proof -
    have "\<forall>kg \<in> set (sn_dashboard_groups snap). \<forall>kg' \<in> set (sn_dashboard_groups snap).
        x \<in> set (dg_dashboard_names (snd kg)) \<and> x \<in> set (dg_dashboard_names (snd kg')) \<longrightarrow> snd kg = snd kg'"
      unfolding sg using one [OF _ _ _ _ dm] by (simp only: ball_simps snd_conv) blast
    from groups_lookup [OF this, of "[]"] show ?thesis
      unfolding dashboards_to_groups_def by (simp only: map_of.simps(1))
  qed
  have grp: "lookup_or_empty (dashboards_to_groups snap) x = dg_name g"
    if g: "g \<in> set (cfg_dashboard_groups cfg)" "x \<in> set (dg_dashboard_names g)" for x g
  proof -
    have "\<exists>kg. find (\<lambda>kg. x \<in> set (dg_dashboard_names (snd kg))) (sn_dashboard_groups snap) = Some kg"
      using g sg by (cases "find (\<lambda>kg. x \<in> set (dg_dashboard_names (snd kg))) (sn_dashboard_groups snap)")
        (auto simp: find_None_iff)
    then obtain kg where kg: "find (\<lambda>kg. x \<in> set (dg_dashboard_names (snd kg))) (sn_dashboard_groups snap) = Some kg"
      by blast
    then have "kg \<in> set (sn_dashboard_groups snap)" "x \<in> set (dg_dashboard_names (snd kg))"
      by (auto simp: find_Some_iff)
    with sg g one [OF _ _ _ _ dm] have "snd kg = g" by auto
    with look [of x] kg show ?thesis by (simp add: lookup_or_empty_def)
  qed
  have nogrp: "lookup_or_empty (dashboards_to_groups snap) x = []"
    if "\<forall>g \<in> set (cfg_dashboard_groups cfg). x \<notin> set (dg_dashboard_names g)" for x
  proof -
    have "find (\<lambda>kg. x \<in> set (dg_dashboard_names (snd kg))) (sn_dashboard_groups snap) = None"
      using that by (auto simp: find_None_iff sg)
    with look [of x] show ?thesis by (simp add: lookup_or_empty_def)
  qed
  have each: "\<exists>d \<in> set (cfg_dashboards cfg). r = ?mk (dash_name d, d)" if "r \<in> set ?rs" for r
    using that by (auto simp: sd)
  show ?thesis
  proof (intro exI conjI ballI)
    show "ListDashboards s scope = Inr ?rs" by (rule run)
    show "map dr_name ?rs = sort (map dash_name (cfg_dashboards cfg))" by (rule sorted)
    fix r assume "r \<in> set ?rs"
    from each [OF this] obtain d where d: "d \<in> set (cfg_dashboards cfg)" "r = ?mk (dash_name d, d)" by blast
    have "named_dashboard (new_cache snap) snap (Normalize (dash_name d)) = Some d"
      using d(1) by (simp add: named_dashboard_iff [OF sv] Normalize_idem)
    moreover have "dr_name r = dash_name d" "dr_link r = ''/dashboards/'' @ Normalize (dash_name d) @ queryParams scope"
      "dr_group r = lookup_or_empty (dashboards_to_groups snap) (dash_name d)"
      by (simp_all only: d(2) prod.case dashboard_resource.simps)
    ultimately show "\<exists>d \<in> set (cfg_dashboards cfg).
       dr_name r = dash_name d \<and>
       dr_link r = ''/dashboards/'' @ Normalize (dash_name d) @ queryParams scope \<and>
       named_dashboard (new_cache snap) snap (Normalize (dash_name d)) = Some d \<and>
       (\<forall>g \<in> set (cfg_dashboard_groups cfg).
          dash_name d \<in> set (dg_dashboard_names g) \<longrightarrow> dr_group r = dg_name g) \<and>
       ((\<forall>g \<in> set (cfg_dashboard_groups cfg). dash_name d \<notin> set (dg_dashboard_names g)) \<longrightarrow> dr_group r = [])"
      using d(1) grp nogrp by (intro bexI [of _ d] conjI ballI impI) (simp_all only:)
  qed
qed

lemma ListDashboardTabs_spec:
  assumes sv: "serves s scope cfg snap" and d: "d \<in> set (cfg_dashboards cfg)" "Normalize (dash_name d) = Normalize q"
  shows "\<exists>rs. ListDashboardTabs s scope q = Inr rs \<and> map res_name rs = sort (map tab_name (dash_tabs d)) \<and>
    (\<forall>r \<in> set rs. \<exists>t \<in> set (dash_tabs d). res_name r = tab_name t \<and>
       res_link r = ''/dashboards/'' @ Normalize (dash_name d) @ ''/tabs/'' @ Normalize (tab_name t) @
         queryParams scope \<and>
       (\<exists>tg. GetDashboardTab s scope (Normalize (dash_name d)) (Normalize (tab_name t)) = Inr (tab_answer t tg)))"
proof -
  have dash: "named_dashboard (new_cache snap) snap q = Some d"
    using d by (simp add: named_dashboard_iff [OF sv])
  let ?mk = "\<lambda>t. \<lparr>res_name = tab_name t,
               res_link = ''/dashboards/'' @ Normalize (dash_name d) @ ''/tabs/'' @
                 Normalize (tab_name t) @ queryParams scope\<rparr>"
  let ?rs = "slice_stable (\<lambda>a b. res_name a < res_name b) (map ?mk (dash_tabs d))"
  have run: "ListDashboardTabs s scope q = Inr ?rs"
    by (simp add: ListDashboardTabs_def serves_config [OF sv] dash)
  have "mset (map res_name (map ?mk (dash_tabs d))) = mset (map tab_name (dash_tabs d))" by (simp add: comp_def)
  from map_name_sorted [OF this] have sorted: "map res_name ?rs = sort (map tab_name (dash_tabs d))" .
  have tab: "\<exists>tg. GetDashboardTab s scope (Normalize (dash_name d)) (Normalize (tab_name t)) = Inr (tab_answer t tg)"
    if t: "t \<in> set (dash_tabs d)" for t
  proof -
    have "tab_test_group_name t \<in> set (tab_groups cfg)" using t d(1) by (auto simp: tab_groups_def)
    then obtain tg where "tg \<in> set (cfg_test_groups cfg)" "tg_name tg = tab_test_group_name t"
      using sv by (auto simp: serves_def references_ok_def)
    then have "GetDashboardTab s scope (Normalize (dash_name d)) (Normalize (tab_name t)) = Inr (tab_answer t tg)"
      unfolding GetDashboardTab_iff [OF sv] Normalize_idem using t d(1) by blast
    then show ?thesis ..
  qed
  show ?thesis
    using run sorted tab by (intro exI [of _ ?rs] conjI ballI) auto
qed

end
