(* ===== verification/Api_State.thy ===== *)
theory Api_State
  imports Api_Config Columns
begin

text \<open>
  The API server, second part: the columns and the rows of a tab (\<open>pkg/api/v1/state.go\<close>).
\<close>

section \<open>The tab and its grid\<close>

definition errEmptyConfig :: go_error where
  "errEmptyConfig = Failed ''empty config''"

text \<open>The dashboard's name, the tab's and its test group's; a missing dashboard is a nil pointer.\<close>

definition findDashboardTab :: "cached_config \<Rightarrow> string \<Rightarrow> string \<Rightarrow> (string \<times> string \<times> string) go" where
  "findDashboardTab c dashboardInput tabInput =
     (case cc_config c of
        None \<Rightarrow> Inl errEmptyConfig
      | Some snap \<Rightarrow>
        (let dashboardKey = Normalize dashboardInput; tabKey = Normalize tabInput in
         case map_of (cc_dashboard c) dashboardKey of
           None \<Rightarrow> Inl (Failed (''Dashboard {'' @ go_quote dashboardKey @ ''} not found''))
         | Some dashboardName \<Rightarrow>
           (case map_of (case map_of (cc_dashboard_tab c) dashboardKey of Some m \<Rightarrow> m | None \<Rightarrow> []) tabKey of
              None \<Rightarrow> Inl (Failed (''Tab {'' @ go_quote tabKey @ ''} not found''))
            | Some tabName \<Rightarrow>
              (case map_of (sn_dashboards snap) dashboardName of
                 None \<Rightarrow> nil_call
               | Some d \<Rightarrow>
                 (case find (\<lambda>t. tab_name t = tabName) (dash_tabs d) of
                    None \<Rightarrow> Inl (Failed ''Test group not found'')
                  | Some t \<Rightarrow> Inr (dashboardName, tabName, tab_test_group_name t))))))"

text \<open>A grid that does not exist is read as the empty grid.\<close>

definition DownloadGrid :: "server \<Rightarrow> url \<Rightarrow> grid option go" where
  "DownloadGrid s p =
     go_bind (wrap_error ''open: '' (srv_open s p)) (\<lambda>r.
       case r of
         None \<Rightarrow> Inr (Some empty_grid)
       | Some content \<Rightarrow>
           go_bind (wrap_error ''open zlib: '' (srv_zlib s content)) (\<lambda>inflated.
           go_bind (wrap_error ''decompress: '' inflated) (\<lambda>pbuf.
           go_bind (srv_grid s pbuf) (\<lambda>g. Inr (Some g)))))"

definition Grid :: "server \<Rightarrow> string \<Rightarrow> string \<Rightarrow> string \<Rightarrow> grid option go" where
  "Grid s scope dashboardName tabName =
     go_bind (configPath s scope) (\<lambda>(path, _).
     go_bind (wrap_error ''tab state path: ''
       (TabStatePath (srv_urls s) path (srv_tab_prefix s) dashboardName tabName)) (DownloadGrid s))"

text \<open>What the two handlers share: the grid of the tab a request names.\<close>

definition with_grid :: "server \<Rightarrow> string \<Rightarrow> string \<Rightarrow> string \<Rightarrow> (grid \<Rightarrow> 'a go) \<Rightarrow> 'a go" where
  "with_grid s scope dashboard tab f =
     go_bind (fst (getConfig s scope)) (\<lambda>c.
     go_bind (findDashboardTab c dashboard tab) (\<lambda>(dashboardName, tabName, _).
       case Grid s scope dashboardName tabName of
         Inl (Failed _) \<Rightarrow>
           Inl (Failed (''Dashboard {'' @ go_quote dashboard @ ''} or tab {'' @ go_quote tab @ ''} not found''))
       | Inl (Panic m) \<Rightarrow> Inl (Panic m)
       | Inr None \<Rightarrow> Inl (Failed ''grid not found'')
       | Inr (Some g) \<Rightarrow> f g))"

section \<open>Headers\<close>

record api_header =
  ah_name :: string
  ah_build :: string
  ah_started :: timestamp
  ah_extra :: "string list"
  ah_hotlist_ids :: string

text \<open>A time in milliseconds; \<open>math.Mod\<close> has the sign of its first argument.\<close>

definition millis_timestamp :: "float64 \<Rightarrow> timestamp" where
  "millis_timestamp millis =
     \<lparr>ts_seconds = trunc (millis / 1000),
      ts_nanos = trunc ((millis - 1000 * of_int (trunc (millis / 1000))) * 1000000)\<rparr>"

definition ListHeaders :: "server \<Rightarrow> string \<Rightarrow> string \<Rightarrow> string \<Rightarrow> api_header list go" where
  "ListHeaders s scope dashboard tab = with_grid s scope dashboard tab (\<lambda>g.
     Inr (map (\<lambda>c. \<lparr>ah_name = col_name c, ah_build = col_build c, ah_started = millis_timestamp (col_started c),
                   ah_extra = col_extra c, ah_hotlist_ids = col_hotlist_ids c\<rparr>) (grid_columns g)))"

section \<open>Rows\<close>

text \<open>Pairs of a value and a count, counted down to zero; a slice of odd length decodes to nothing.\<close>

fun decode_pairs :: "int list \<Rightarrow> int list" where
  "decode_pairs (r # n # rs) = replicate (nat n) r @ decode_pairs rs"
| "decode_pairs _ = []"

definition decodeRLE :: "int list \<Rightarrow> int list" where
  "decodeRLE encodedData = (if even (length encodedData) then decode_pairs encodedData else [])"

record api_cell =
  ac_result :: int
  ac_cell_id :: string
  ac_message :: string
  ac_icon :: string

record api_row =
  ar_name :: string
  ar_issues :: "string list"
  ar_alert :: "alert_info option"
  ar_cells :: "api_cell list"

text \<open>A slice that may be absent is read at \<open>filledIdx\<close> unless it is empty.\<close>

definition read_filled :: "string list \<Rightarrow> nat \<Rightarrow> string go" where
  "read_filled xs filledIdx = (if xs = [] then Inr [] else slice_at xs filledIdx)"

fun list_cells :: "row \<Rightarrow> nat \<Rightarrow> int list \<Rightarrow> api_cell list go" where
  "list_cells r filledIdx [] = Inr []"
| "list_cells r filledIdx (x # xs) =
     (if x \<noteq> 0 then
        go_bind (read_filled (row_cell_ids r) filledIdx) (\<lambda>cid.
        go_bind (read_filled (row_messages r) filledIdx) (\<lambda>msg.
        go_bind (read_filled (row_icons r) filledIdx) (\<lambda>icon.
        go_bind (list_cells r (Suc filledIdx) xs) (\<lambda>cells.
          Inr (\<lparr>ac_result = x, ac_cell_id = cid, ac_message = msg, ac_icon = icon\<rparr> # cells)))))
      else go_bind (list_cells r filledIdx xs) (\<lambda>cells.
        Inr (\<lparr>ac_result = x, ac_cell_id = [], ac_message = [], ac_icon = []\<rparr> # cells)))"

definition list_row :: "row \<Rightarrow> api_row go" where
  "list_row r = go_bind (list_cells r 0 (decodeRLE (row_results r))) (\<lambda>cells.
     Inr \<lparr>ar_name = row_name r, ar_issues = row_issues r, ar_alert = row_alert r, ar_cells = cells\<rparr>)"

definition ListRows :: "server \<Rightarrow> string \<Rightarrow> string \<Rightarrow> string \<Rightarrow> api_row list go" where
  "ListRows s scope dashboard tab = with_grid s scope dashboard tab (\<lambda>g. go_map list_row (grid_rows g))"

section \<open>HTTP\<close>

definition ListHeadersHTTP ::
    "server \<Rightarrow> (api_header list \<Rightarrow> string go) \<Rightarrow> string \<Rightarrow> string \<Rightarrow> string \<Rightarrow> http_reply option" where
  "ListHeadersHTTP s marshal scope dashboard tab = serve s marshal (ListHeaders s scope dashboard tab)"

definition ListRowsHTTP ::
    "server \<Rightarrow> (api_row list \<Rightarrow> string go) \<Rightarrow> string \<Rightarrow> string \<Rightarrow> string \<Rightarrow> http_reply option" where
  "ListRowsHTTP s marshal scope dashboard tab = serve s marshal (ListRows s scope dashboard tab)"

section \<open>Properties\<close>

lemma normal_names_iff:
  assumes "distinct (map Normalize ns)"
  shows "map_of (normal_names ns) (Normalize q) = Some n \<longleftrightarrow> n \<in> set ns \<and> Normalize n = Normalize q"
proof
  assume "map_of (normal_names ns) (Normalize q) = Some n"
  then show "n \<in> set ns \<and> Normalize n = Normalize q"
    by (auto simp: map_of_normal_names [OF assms] find_Some_iff)
next
  assume "n \<in> set ns \<and> Normalize n = Normalize q"
  then show "map_of (normal_names ns) (Normalize q) = Some n"
    unfolding map_of_normal_names [OF assms] by (intro find_unique [OF assms]) simp_all
qed

lemma findDashboardTab_iff:
  assumes sv: "serves s scope cfg snap"
  shows "findDashboardTab (new_cache snap) dq tq = Inr x \<longleftrightarrow>
    (\<exists>d \<in> set (cfg_dashboards cfg). \<exists>t \<in> set (dash_tabs d).
       Normalize (dash_name d) = Normalize dq \<and> Normalize (tab_name t) = Normalize tq \<and>
       x = (dash_name d, tab_name t, tab_test_group_name t))"
proof -
  from sv have n: "names_ok cfg" and snap: "snapshot_of cfg snap" by (simp_all add: serves_def)
  note m = snapshot_maps(2) [OF n snap] and nd = names_ok_facts(3) [OF n]
  have kd: "distinct (map Normalize (map fst (sn_dashboards snap)))"
    using named_map(1) [OF m nd] by (simp add: comp_def)
  have keys: "set (map fst (sn_dashboards snap)) = dash_name ` set (cfg_dashboards cfg)"
    using m by (metis (no_types, lifting) image_image image_cong fst_conv list.set_map set_mset_mset)
  have dk: "map_of (cc_dashboard (new_cache snap)) (Normalize dq) = Some k \<longleftrightarrow>
      (\<exists>d \<in> set (cfg_dashboards cfg). Normalize (dash_name d) = Normalize dq \<and> k = dash_name d)" for k
    unfolding new_cache_simps normal_names_iff [OF kd] keys by blast
  show ?thesis
  proof (cases "\<exists>d \<in> set (cfg_dashboards cfg). Normalize (dash_name d) = Normalize dq")
    case False
    then have "map_of (cc_dashboard (new_cache snap)) (Normalize dq) = None"
      using dk by (metis not_Some_eq)
    then have "findDashboardTab (new_cache snap) dq tq \<noteq> Inr x"
      by (simp add: findDashboardTab_def new_cache_simps(1) Let_def)
    with False show ?thesis by blast
  next
    case True
    then obtain d where d: "d \<in> set (cfg_dashboards cfg)" "Normalize (dash_name d) = Normalize dq" by blast
    have only: "d' = d" if "d' \<in> set (cfg_dashboards cfg)" "Normalize (dash_name d') = Normalize dq" for d'
      using nd d that by (auto simp: distinct_map inj_on_def)
    have name: "map_of (cc_dashboard (new_cache snap)) (Normalize dq) = Some (dash_name d)"
      using dk d by blast
    have dash: "map_of (sn_dashboards snap) (dash_name d) = Some d"
      using named_map(2) [OF m nd] d(1) by blast
    have tabs: "map_of (cc_dashboard_tab (new_cache snap)) (Normalize dq) =
        Some (normal_names (map tab_name (dash_tabs d)))"
      using dashboard_tabs_map [OF sv d(1)] d(2) by simp
    have dt: "distinct (map Normalize (map tab_name (dash_tabs d)))"
      using names_ok_facts(7) [OF n d(1)] by (simp add: comp_def)
    have "findDashboardTab (new_cache snap) dq tq = Inr x \<longleftrightarrow>
        (\<exists>t \<in> set (dash_tabs d). Normalize (tab_name t) = Normalize tq \<and>
           x = (dash_name d, tab_name t, tab_test_group_name t))"
    proof (cases "map_of (normal_names (map tab_name (dash_tabs d))) (Normalize tq)")
      case None
      then have "\<not> (\<exists>t \<in> set (dash_tabs d). Normalize (tab_name t) = Normalize tq)"
        using normal_names_iff [OF dt, of tq] by auto
      with None show ?thesis
        by (auto simp: findDashboardTab_def new_cache_simps(1) Let_def name tabs)
    next
      case (Some k)
      then obtain t where t: "t \<in> set (dash_tabs d)" "k = tab_name t" "Normalize (tab_name t) = Normalize tq"
        using normal_names_iff [OF dt, of tq] by auto
      have only_t: "t' = t" if "t' \<in> set (dash_tabs d)" "Normalize (tab_name t') = Normalize tq" for t'
        using names_ok_facts(7) [OF n d(1)] t that by (auto simp: distinct_map inj_on_def)
      have "find (\<lambda>u. tab_name u = tab_name t) (dash_tabs d) = Some t"
        by (rule find_unique [OF normal_distinct [OF names_ok_facts(7) [OF n d(1)]] t(1) refl])
      then have run: "findDashboardTab (new_cache snap) dq tq = Inr (dash_name d, tab_name t, tab_test_group_name t)"
        using Some t(2) by (simp add: findDashboardTab_def new_cache_simps(1) Let_def name tabs dash)
      show ?thesis unfolding run sum.inject(2) using only_t t(1,3) by blast
    qed
    then show ?thesis using d only by blast
  qed
qed

text \<open>Both handlers answer with the grid of the one tab that the names of the request stand for.\<close>

lemma with_grid_run:
  assumes sv: "serves s scope cfg snap"
    and d: "d \<in> set (cfg_dashboards cfg)" "Normalize (dash_name d) = Normalize dq"
    and t: "t \<in> set (dash_tabs d)" "Normalize (tab_name t) = Normalize tq"
    and g: "Grid s scope (dash_name d) (tab_name t) = Inr (Some g)"
  shows "with_grid s scope dq tq f = f g"
proof -
  have "findDashboardTab (new_cache snap) dq tq = Inr (dash_name d, tab_name t, tab_test_group_name t)"
    using findDashboardTab_iff [OF sv] d t by blast
  moreover have "fst (getConfig s scope) = Inr (new_cache snap)" using sv by (simp add: serves_def)
  ultimately show ?thesis by (simp add: with_grid_def g)
qed

lemma decodeRLE_codes: "counts_ok rs \<Longrightarrow> decodeRLE rs = map status_code (rle_expand rs)"
proof -
  have "decode_pairs rs = map status_code (rle_expand rs)"
    by (induction rs rule: rle_expand.induct) simp_all
  then show "counts_ok rs \<Longrightarrow> ?thesis" by (simp add: decodeRLE_def counts_ok_even)
qed

text \<open>The cell of the answer that stands for a cell of the grid.\<close>

definition api_cell_of :: "cell \<Rightarrow> api_cell" where
  "api_cell_of c =
     \<lparr>ac_result = status_code (c_result c), ac_cell_id = c_cell_id c, ac_message = c_message c, ac_icon = c_icon c\<rparr>"

lemma api_cell_of_same: "same_cell a b \<Longrightarrow> api_cell_of a = api_cell_of b"
  by (cases a; cases b) (simp add: same_cell_def api_cell_of_def)

lemma list_cells_spec:
  assumes "inflatable r" "hasCellID (row_name r) \<or> row_cell_ids r = []" "i \<le> length (row_statuses r)"
  shows "list_cells r (filled (take i (row_statuses r))) (map status_code (drop i (row_statuses r))) =
    Inr (map (\<lambda>j. api_cell_of (cell_at r j)) [i..<length (row_statuses r)])"
  using assms(3)
proof (induction "length (row_statuses r) - i" arbitrary: i)
  case 0
  then show ?case by simp
next
  case (Suc n)
  let ?ss = "row_statuses r" let ?k = "filled (take i ?ss)"
  have i: "i < length ?ss" using Suc.hyps(2) by simp
  have drop: "drop i ?ss = ?ss ! i # drop (Suc i) ?ss" using i by (simp add: Cons_nth_drop_Suc)
  have upt: "[i..<length ?ss] = i # [Suc i..<length ?ss]" using i by (simp add: upt_conv_Cons)
  have IH: "list_cells r (filled (take (Suc i) ?ss)) (map status_code (drop (Suc i) ?ss)) =
      Inr (map (\<lambda>j. api_cell_of (cell_at r j)) [Suc i..<length ?ss])"
    using Suc i by simp
  have "canonical (?ss ! i)" using i unfolding row_statuses_def by (intro canonical_rle_expand [OF nth_mem])
  then have zero: "status_code (?ss ! i) = 0 \<longleftrightarrow> ?ss ! i = NO_RESULT" by (rule canonical_code_0)
  show ?case
  proof (cases "?ss ! i = NO_RESULT")
    case True
    then have "filled (take (Suc i) ?ss) = ?k" using i by (simp add: filled_take_Suc)
    with IH True show ?thesis
      by (simp add: drop upt api_cell_of_def cell_at_def zero_cell_def)
  next
    case False
    have k: "?k < filled ?ss" using filled_take_less [OF i False] .
    have suc: "filled (take (Suc i) ?ss) = Suc ?k" using i False by (simp add: filled_take_Suc)
    have "read_filled (row_icons r) ?k = Inr (row_icons r ! ?k)"
      "read_filled (row_messages r) ?k = Inr (row_messages r ! ?k)"
      "read_filled (row_cell_ids r) ?k = Inr (if hasCellID (row_name r) then row_cell_ids r ! ?k else [])"
      using assms(1,2) k by (auto simp: read_filled_def inflatable_def)
    with IH False zero suc show ?thesis
      by (simp add: drop upt api_cell_of_def cell_at_def Let_def zero_cell_def)
  qed
qed

text \<open>
  The rows of a grid that shows the cells of columns: no read leaves its slice, and every row lists,
  column by column, what the grid stores of that column's cell of its name.
\<close>

lemma list_row_spec:
  assumes "shows_cells cols g" "r \<in> set (grid_rows g)"
  shows "list_row r = Inr
    \<lparr>ar_name = row_name r, ar_issues = row_issues r, ar_alert = row_alert r,
     ar_cells = map (\<lambda>col. api_cell_of (stored (row_name r) (row_id r) (cell_of col (row_name r)))) cols\<rparr>"
proof -
  from assms have r: "inflatable r" "counts_ok (row_results r)"
    "hasCellID (row_name r) \<or> row_cell_ids r = []" "length (row_statuses r) = length cols"
    and cells: "\<forall>i < length cols. same_cell (cell_at r i)
      (stored (row_name r) (row_id r) (cell_of (cols ! i) (row_name r)))"
    unfolding shows_cells_def by blast+
  have "list_cells r 0 (decodeRLE (row_results r)) =
      Inr (map (\<lambda>j. api_cell_of (cell_at r j)) [0..<length cols])"
    using list_cells_spec [OF r(1,3), of 0] r(4) by (simp add: decodeRLE_codes [OF r(2)] row_statuses_def)
  moreover have "map (\<lambda>j. api_cell_of (cell_at r j)) [0..<length cols] =
      map (\<lambda>col. api_cell_of (stored (row_name r) (row_id r) (cell_of col (row_name r)))) cols"
    using cells by (intro nth_equalityI) (simp_all add: api_cell_of_same)
  ultimately show ?thesis by (simp add: list_row_def)
qed

lemma ListRows_spec:
  assumes "serves s scope cfg snap"
    and "d \<in> set (cfg_dashboards cfg)" "Normalize (dash_name d) = Normalize dq"
    and "t \<in> set (dash_tabs d)" "Normalize (tab_name t) = Normalize tq"
    and "Grid s scope (dash_name d) (tab_name t) = Inr (Some g)" "shows_cells cols g"
  shows "ListRows s scope dq tq = Inr (map (\<lambda>r.
      \<lparr>ar_name = row_name r, ar_issues = row_issues r, ar_alert = row_alert r,
       ar_cells = map (\<lambda>col. api_cell_of (stored (row_name r) (row_id r) (cell_of col (row_name r)))) cols\<rparr>)
      (grid_rows g))"
  unfolding ListRows_def with_grid_run [OF assms(1-6)]
  by (rule go_map_Inr) (use list_row_spec [OF assms(7)] in blast)

lemma ListHeaders_spec:
  assumes "serves s scope cfg snap"
    and "d \<in> set (cfg_dashboards cfg)" "Normalize (dash_name d) = Normalize dq"
    and "t \<in> set (dash_tabs d)" "Normalize (tab_name t) = Normalize tq"
    and "Grid s scope (dash_name d) (tab_name t) = Inr (Some g)" "shows_cells cols g"
  shows "\<exists>hs. ListHeaders s scope dq tq = Inr hs \<and> length hs = length cols \<and>
    (\<forall>i < length cols. ah_name (hs ! i) = col_name (ic_column (cols ! i)) \<and>
       ah_build (hs ! i) = col_build (ic_column (cols ! i)))"
proof -
  have g: "grid_columns g = map ic_column cols" using assms(7) by (simp add: shows_cells_def)
  show ?thesis unfolding ListHeaders_def with_grid_run [OF assms(1-6)] by (simp add: g)
qed

text \<open>The time of a header is the column's, to the nanosecond when it is a whole number of them.\<close>

lemma millis_timestamp_exact:
  assumes "0 \<le> n"
  shows "ts_seconds (millis_timestamp (of_int n)) * 1000000000 + ts_nanos (millis_timestamp (of_int n)) = n * 1000000 \<and>
    0 \<le> ts_nanos (millis_timestamp (of_int n)) \<and> ts_nanos (millis_timestamp (of_int n)) < 1000000000"
proof -
  have "trunc (of_int n / 1000) = n div 1000"
    using assms floor_divide_of_int_eq [of n 1000, where ?'a = rat] by (simp add: trunc_def)
  moreover have "(of_int n - 1000 * of_int (n div 1000)) * (1000000 :: rat) = of_int ((n - 1000 * (n div 1000)) * 1000000)"
    by simp
  then have "trunc ((of_int n - 1000 * of_int (n div 1000)) * 1000000) = (n - 1000 * (n div 1000)) * 1000000"
    by (simp only: trunc_of_int)
  ultimately show ?thesis by (simp add: millis_timestamp_def) linarith
qed

end
