(* ===== verification/Api_Summary.thy ===== *)
theory Api_Summary
  imports Api_State
begin

text \<open>
  The API server, third part: the summaries of tabs and dashboards (\<open>pkg/api/v1/summary.go\<close>).
\<close>

section \<open>From storage to wire\<close>

text \<open>A status without an entry in the table is the empty string.\<close>

definition tabStatusStr :: "(tab_status, string) gomap" where
  "tabStatusStr =
     [(TAB_PASS, ''PASSING''), (TAB_FAIL, ''FAILING''), (TAB_FLAKY, ''FLAKY''), (TAB_STALE, ''STALE''),
      (TAB_BROKEN, ''BROKEN''), (TAB_PENDING, ''PENDING''), (TAB_ACCEPTABLE, ''ACCEPTABLE'')]"

definition generateTimestamp :: "float64 \<Rightarrow> timestamp" where
  "generateTimestamp ts =
     \<lparr>ts_seconds = trunc ts, ts_nanos = trunc ((ts - of_int (trunc ts)) * 1000000000)\<rparr>"

record failing_info =
  fi_display_name :: string
  fi_fail_count :: int
  fi_pass_timestamp :: timestamp
  fi_fail_timestamp :: timestamp

record failures_summary =
  fs_num_failing :: int
  fs_top_failing :: "failing_info list"

definition failing_info_of :: "failing_test \<Rightarrow> failing_info" where
  "failing_info_of t =
     \<lparr>fi_display_name = ft_display_name t, fi_fail_count = ft_fail_count t,
      fi_pass_timestamp = generateTimestamp (ft_pass_timestamp t),
      fi_fail_timestamp = generateTimestamp (ft_fail_timestamp t)\<rparr>"

definition numSummaryFailingTests :: nat where
  "numSummaryFailingTests = 5"

definition numSummaryFlakyTests :: nat where
  "numSummaryFlakyTests = 5"

definition extractFailuresSummary :: "failing_test list \<Rightarrow> failures_summary option" where
  "extractFailuresSummary failingTests =
     (if failingTests = [] then None
      else let topN = min numSummaryFailingTests (length failingTests);
               ordered = slice_stable (\<lambda>a b. ft_fail_count a > ft_fail_count b) failingTests in
        Some \<lparr>fs_num_failing = int (length failingTests),
              fs_top_failing = map failing_info_of (take topN ordered)\<rparr>)"

record flaky_info =
  fl_display_name :: string
  fl_flakiness :: float64
  fl_change :: trend

record healthiness_summary =
  hs_top_flaky :: "flaky_info list"
  hs_start :: int
  hs_end :: int
  hs_average_flakiness :: float64
  hs_previous_flakiness :: float64
  hs_num_flaky :: int

definition flaky_info_of :: "test_info \<Rightarrow> flaky_info" where
  "flaky_info_of t =
     \<lparr>fl_display_name = ti_display_name t, fl_flakiness = ti_flakiness t,
      fl_change = ti_change_from_last_interval t\<rparr>"

text \<open>The loop that counts the flaky tests stops at the first that is not flaky.\<close>

fun count_flaky :: "test_info list \<Rightarrow> nat" where
  "count_flaky [] = 0"
| "count_flaky (t # ts) = (if ti_flakiness t \<le> 0 then 0 else Suc (count_flaky ts))"

definition extractHealthinessSummary :: "healthiness_info option \<Rightarrow> healthiness_summary option" where
  "extractHealthinessSummary healthiness =
     (case healthiness of
        None \<Rightarrow> None
      | Some h \<Rightarrow>
        let prevFlakiness = (case hi_previous_flakiness h of [] \<Rightarrow> - 1 | p # _ \<Rightarrow> p);
            ordered = slice_stable (\<lambda>a b. ti_flakiness a > ti_flakiness b) (hi_tests h);
            numFlakyTests = count_flaky ordered;
            topN = min numSummaryFlakyTests numFlakyTests in
        Some \<lparr>hs_top_flaky = map flaky_info_of (take topN ordered), hs_start = hi_start h, hs_end = hi_end h,
              hs_average_flakiness = hi_average_flakiness h, hs_previous_flakiness = prevFlakiness,
              hs_num_flaky = int numFlakyTests\<rparr>)"

record api_tab_summary =
  ats_dashboard_name :: string
  ats_tab_name :: string
  ats_overall_status :: string
  ats_detailed_status :: string
  ats_last_run :: timestamp
  ats_last_update :: timestamp
  ats_latest_passing_build :: string
  ats_failures :: "failures_summary option"
  ats_healthiness :: "healthiness_summary option"

definition convertSummary :: "tab_summary \<Rightarrow> api_tab_summary" where
  "convertSummary tabSummary =
     \<lparr>ats_dashboard_name = dts_dashboard_name tabSummary, ats_tab_name = dts_dashboard_tab_name tabSummary,
      ats_overall_status = lookup_or_empty tabStatusStr (dts_overall_status tabSummary),
      ats_detailed_status = dts_status tabSummary,
      ats_last_run = generateTimestamp (dts_last_run_timestamp tabSummary),
      ats_last_update = generateTimestamp (dts_last_update_timestamp tabSummary),
      ats_latest_passing_build = dts_latest_green tabSummary,
      ats_failures = extractFailuresSummary (dts_failing_test_summaries tabSummary),
      ats_healthiness = extractHealthinessSummary (dts_healthiness tabSummary)\<rparr>"

text \<open>The counts are a map; the entries are in the order of first use.\<close>

record api_dashboard_summary =
  ads_name :: string
  ads_overall_status :: string
  ads_tab_status_count :: "(string, int) gomap"

definition count_of :: "(string, int) gomap \<Rightarrow> string \<Rightarrow> int" where
  "count_of m k = (case map_of m k of Some n \<Rightarrow> n | None \<Rightarrow> 0)"

definition dashboardSummary :: "dashboard_summary \<Rightarrow> string \<Rightarrow> api_dashboard_summary" where
  "dashboardSummary summary dashboardName =
     (let counts = fold (\<lambda>t m. let k = lookup_or_empty tabStatusStr (dts_overall_status t) in
            AList.update k (count_of m k + 1) m) (ds_tab_summaries summary) [];
          overallStatus =
            (if count_of counts ''BROKEN'' > 0 then ''BROKEN''
             else if count_of counts ''STALE'' > 0 then ''STALE''
             else if count_of counts ''FAILING'' > 0 then ''FAILING''
             else if count_of counts ''FLAKY'' > 0 then ''FLAKY''
             else if count_of counts ''PENDING'' > 0 then ''PENDING''
             else if count_of counts ''ACCEPTABLE'' > 0 then ''ACCEPTABLE''
             else if count_of counts ''PASSING'' > 0 then ''PASSING''
             else ''UNKNOWN'') in
      \<lparr>ads_name = dashboardName, ads_overall_status = overallStatus, ads_tab_status_count = counts\<rparr>)"

section \<open>Handlers\<close>

text \<open>None when the object does not exist.\<close>

definition ReadSummary :: "server \<Rightarrow> url \<Rightarrow> dashboard_summary option go" where
  "ReadSummary s p =
     go_bind (wrap_error ''open: '' (srv_open s p)) (\<lambda>r.
       case r of
         None \<Rightarrow> Inr None
       | Some content \<Rightarrow>
           go_bind (wrap_error ''read: '' content) (\<lambda>buf.
           go_bind (wrap_error ''unmarhsal: '' (srv_summary s buf)) (\<lambda>summ. Inr (Some summ))))"

text \<open>The error of \<open>configPath\<close> is dropped, and its nil path dereferenced.\<close>

definition fetchSummary :: "server \<Rightarrow> string \<Rightarrow> string \<Rightarrow> dashboard_summary option go" where
  "fetchSummary s scope dashboard =
     (case configPath s scope of
        Inl _ \<Rightarrow> nil_call
      | Inr (path, _) \<Rightarrow>
          go_bind (wrap_error ''failed to create the summary path: ''
            (SummaryPath (srv_urls s) path (srv_summary_prefix s) dashboard)) (\<lambda>summaryPath.
          wrap_error (''failed to download summary at '' @ ul_string (srv_urls s) summaryPath @ '': '')
            (ReadSummary s summaryPath)))"

definition config_for_summary :: "server \<Rightarrow> string \<Rightarrow> cached_config go" where
  "config_for_summary s scope =
     wrap_error (''failed to fetch config from {'' @ go_quote scope @ ''}: '') (fst (getConfig s scope))"

definition summary_for :: "server \<Rightarrow> string \<Rightarrow> string \<Rightarrow> dashboard_summary option go" where
  "summary_for s scope d =
     wrap_error (''failed to fetch summary for dashboard {'' @ go_quote d @ ''}: '') (fetchSummary s scope d)"

definition ListTabSummaries :: "server \<Rightarrow> string \<Rightarrow> string \<Rightarrow> api_tab_summary list go" where
  "ListTabSummaries s scope dashboard =
     go_bind (config_for_summary s scope) (\<lambda>c.
       let dashboardKey = Normalize dashboard in
       case map_of (cc_dashboard c) dashboardKey of
         None \<Rightarrow> Inl (Failed (''dashboard {'' @ go_quote dashboardKey @ ''} not found''))
       | Some _ \<Rightarrow>
           go_bind (summary_for s scope dashboardKey) (\<lambda>r. case r of
               None \<Rightarrow> Inl (Failed (''summary for dashboard {'' @ go_quote dashboardKey @ ''} not found.''))
             | Some summary \<Rightarrow> Inr (map convertSummary (ds_tab_summaries summary))))"

definition GetTabSummary :: "server \<Rightarrow> string \<Rightarrow> string \<Rightarrow> string \<Rightarrow> api_tab_summary go" where
  "GetTabSummary s scope reqDashboardName reqTabName =
     go_bind (config_for_summary s scope) (\<lambda>c.
     go_bind (wrap_error (''invalid request input {'' @ go_quote reqDashboardName @ '', '' @
         go_quote reqTabName @ ''}: '') (findDashboardTab c reqDashboardName reqTabName)) (\<lambda>(_, tabName, _).
     go_bind (summary_for s scope reqDashboardName) (\<lambda>r. case r of
         None \<Rightarrow> Inl (Failed (''summary for dashboard {'' @ go_quote reqDashboardName @ ''} not found.''))
       | Some summary \<Rightarrow>
           (case find (\<lambda>t. dts_dashboard_tab_name t = tabName) (ds_tab_summaries summary) of
              None \<Rightarrow> Inl (Failed (''failed to find summary for tab {'' @ go_quote tabName @ ''}.''))
            | Some t \<Rightarrow> Inr (convertSummary t)))))"

text \<open>The summaries of the dashboards that have one, in the order of the group.\<close>

fun list_dashboard_summaries :: "server \<Rightarrow> string \<Rightarrow> string list \<Rightarrow> api_dashboard_summary list go" where
  "list_dashboard_summaries s scope [] = Inr []"
| "list_dashboard_summaries s scope (d # ds) =
     go_bind (summary_for s scope d) (\<lambda>r.
     go_bind (list_dashboard_summaries s scope ds) (\<lambda>rest.
       case r of None \<Rightarrow> Inr rest | Some summary \<Rightarrow> Inr (dashboardSummary summary d # rest)))"

text \<open>The error names the group that was not found, which is the empty string.\<close>

definition ListDashboardSummaries :: "server \<Rightarrow> string \<Rightarrow> string \<Rightarrow> api_dashboard_summary list go" where
  "ListDashboardSummaries s scope dashboardGroup =
     go_bind (config_for_summary s scope) (\<lambda>c.
       case map_of (cc_dashboard_group c) (Normalize dashboardGroup) of
         None \<Rightarrow> Inl (Failed (''dashboard group {'' @ go_quote [] @ ''} not found''))
       | Some denormalizedName \<Rightarrow>
           (case cc_config c of
              None \<Rightarrow> nil_call
            | Some snap \<Rightarrow>
                (case map_of (sn_dashboard_groups snap) denormalizedName of
                   None \<Rightarrow> nil_call
                 | Some g \<Rightarrow> list_dashboard_summaries s scope (dg_dashboard_names g))))"

definition GetDashboardSummary :: "server \<Rightarrow> string \<Rightarrow> string \<Rightarrow> api_dashboard_summary go" where
  "GetDashboardSummary s scope dashboard =
     go_bind (config_for_summary s scope) (\<lambda>c.
       let dashboardKey = Normalize dashboard in
       case map_of (cc_dashboard c) dashboardKey of
         None \<Rightarrow> Inl (Failed (''dashboard {'' @ go_quote dashboardKey @ ''} not found''))
       | Some denormalizedName \<Rightarrow>
           go_bind (summary_for s scope dashboardKey) (\<lambda>r. case r of
               None \<Rightarrow> Inl (Failed (''summary for dashboard {'' @ go_quote dashboardKey @ ''} not found''))
             | Some summary \<Rightarrow> Inr (dashboardSummary summary denormalizedName)))"

section \<open>HTTP\<close>

definition ListTabSummariesHTTP ::
    "server \<Rightarrow> (api_tab_summary list \<Rightarrow> string go) \<Rightarrow> string \<Rightarrow> string \<Rightarrow> http_reply option" where
  "ListTabSummariesHTTP s marshal scope dashboard = serve s marshal (ListTabSummaries s scope dashboard)"

definition GetTabSummaryHTTP ::
    "server \<Rightarrow> (api_tab_summary \<Rightarrow> string go) \<Rightarrow> string \<Rightarrow> string \<Rightarrow> string \<Rightarrow> http_reply option" where
  "GetTabSummaryHTTP s marshal scope dashboard tab = serve s marshal (GetTabSummary s scope dashboard tab)"

definition ListDashboardSummariesHTTP ::
    "server \<Rightarrow> (api_dashboard_summary list \<Rightarrow> string go) \<Rightarrow> string \<Rightarrow> string \<Rightarrow> http_reply option" where
  "ListDashboardSummariesHTTP s marshal scope dg = serve s marshal (ListDashboardSummaries s scope dg)"

definition GetDashboardSummaryHTTP ::
    "server \<Rightarrow> (api_dashboard_summary \<Rightarrow> string go) \<Rightarrow> string \<Rightarrow> string \<Rightarrow> http_reply option" where
  "GetDashboardSummaryHTTP s marshal scope dashboard = serve s marshal (GetDashboardSummary s scope dashboard)"

section \<open>The most failing and the most flaky tests\<close>

lemma sorted_wrt_take_drop:
  assumes "sorted_wrt R xs" "x \<in> set (take n xs)" "y \<in> set (drop n xs)"
  shows "R x y"
  using assms(1) assms(2,3) by (metis append_take_drop_id sorted_wrt_append)

text \<open>
  The largest by a key: a prefix of the ones sorted by it.  No element left out is larger than one
  taken, and nothing is taken that was not there.
\<close>

lemma top_by_key:
  fixes key :: "'a \<Rightarrow> 'b :: linorder"
  defines "ordered xs \<equiv> slice_stable (\<lambda>a b. key a > key b) xs"
  shows "sorted_wrt (\<lambda>a b. key a \<ge> key b) (take n (ordered xs))"
    and "mset xs = mset (take n (ordered xs)) + mset (drop n (ordered xs))"
    and "x \<in> set (take n (ordered xs)) \<Longrightarrow> y \<in> set (drop n (ordered xs)) \<Longrightarrow> key y \<le> key x"
proof -
  have "sorted_wrt (\<lambda>a b. \<not> key b > key a) (ordered xs)"
    unfolding ordered_def by (rule weak_order.sorted_slice_stable [OF weak_order_key_greater])
  then have s: "sorted_wrt (\<lambda>a b. key a \<ge> key b) (ordered xs)" by (simp add: not_less)
  then show "sorted_wrt (\<lambda>a b. key a \<ge> key b) (take n (ordered xs))" by (rule sorted_wrt_take)
  have "mset (ordered xs) = mset xs" unfolding ordered_def by simp
  then show "mset xs = mset (take n (ordered xs)) + mset (drop n (ordered xs))"
    by (metis append_take_drop_id mset_append)
  show "x \<in> set (take n (ordered xs)) \<Longrightarrow> y \<in> set (drop n (ordered xs)) \<Longrightarrow> key y \<le> key x"
    using sorted_wrt_take_drop [OF s] .
qed

lemma extractFailuresSummary_spec:
  assumes "tests \<noteq> []"
  shows "\<exists>fs listed left. extractFailuresSummary tests = Some fs \<and> fs_num_failing fs = int (length tests) \<and>
    fs_top_failing fs = map failing_info_of listed \<and> length listed = min 5 (length tests) \<and>
    mset tests = mset listed + mset left \<and> sorted_wrt (\<lambda>a b. ft_fail_count a \<ge> ft_fail_count b) listed \<and>
    (\<forall>x \<in> set listed. \<forall>y \<in> set left. ft_fail_count y \<le> ft_fail_count x)"
proof -
  let ?o = "slice_stable (\<lambda>a b. ft_fail_count a > ft_fail_count b) tests" and ?n = "min 5 (length tests)"
  have "extractFailuresSummary tests = Some \<lparr>fs_num_failing = int (length tests),
      fs_top_failing = map failing_info_of (take ?n ?o)\<rparr>"
    using assms by (simp add: extractFailuresSummary_def Let_def numSummaryFailingTests_def)
  moreover have "length (take ?n ?o) = ?n" by simp
  ultimately show ?thesis
    using top_by_key [where key = ft_fail_count and n = ?n and xs = tests]
    by (intro exI [of _ "take ?n ?o"] exI [of _ "drop ?n ?o"] exI conjI ballI) (assumption | simp)+
qed

text \<open>The loop counts every flaky test, since they come first.\<close>

lemma count_flaky_sorted:
  "sorted_wrt (\<lambda>a b. ti_flakiness a \<ge> ti_flakiness b) ts \<Longrightarrow>
   count_flaky ts = length (filter (\<lambda>t. 0 < ti_flakiness t) ts)"
proof (induction ts)
  case (Cons t ts)
  show ?case
  proof (cases "ti_flakiness t \<le> 0")
    case True
    then have "\<forall>u \<in> set (t # ts). \<not> 0 < ti_flakiness u" using Cons.prems by auto
    then have "filter (\<lambda>t. 0 < ti_flakiness t) (t # ts) = []" unfolding filter_empty_conv .
    then show ?thesis using True by (simp only: count_flaky.simps if_True list.size)
  qed (use Cons in simp)
qed simp

lemma count_flaky_take: "t \<in> set (take (count_flaky ts) ts) \<Longrightarrow> 0 < ti_flakiness t"
  by (induction ts) (auto split: if_splits)

lemma extractHealthinessSummary_spec:
  "\<exists>hs listed left. extractHealthinessSummary (Some h) = Some hs \<and>
    hs_num_flaky hs = int (length (filter (\<lambda>t. 0 < ti_flakiness t) (hi_tests h))) \<and>
    hs_top_flaky hs = map flaky_info_of listed \<and>
    length listed = min 5 (length (filter (\<lambda>t. 0 < ti_flakiness t) (hi_tests h))) \<and>
    mset (hi_tests h) = mset listed + mset left \<and>
    sorted_wrt (\<lambda>a b. ti_flakiness a \<ge> ti_flakiness b) listed \<and>
    (\<forall>x \<in> set listed. 0 < ti_flakiness x \<and> (\<forall>y \<in> set left. ti_flakiness y \<le> ti_flakiness x))"
proof -
  let ?o = "slice_stable (\<lambda>a b. ti_flakiness a > ti_flakiness b) (hi_tests h)"
  let ?k = "length (filter (\<lambda>t. 0 < ti_flakiness t) (hi_tests h))"
  note top = top_by_key [where key = ti_flakiness and xs = "hi_tests h"]
  have "sorted_wrt (\<lambda>a b. ti_flakiness a \<ge> ti_flakiness b) ?o"
    using top(1) [of "length ?o"] by simp
  then have "count_flaky ?o = length (filter (\<lambda>t. 0 < ti_flakiness t) ?o)" by (rule count_flaky_sorted)
  also have "\<dots> = ?k"
    by (metis mset_filter mset_slice_stable size_mset)
  finally have k: "count_flaky ?o = ?k" .
  define listed where "listed = take (min 5 ?k) ?o"
  have pos: "0 < ti_flakiness x" if "x \<in> set listed" for x
  proof -
    have "set listed \<subseteq> set (take (count_flaky ?o) ?o)"
      unfolding listed_def k by (rule set_take_subset_set_take) simp
    with that count_flaky_take show ?thesis by blast
  qed
  have len: "length listed = min 5 ?k"
    using length_filter_le [of "\<lambda>t. 0 < ti_flakiness t" "hi_tests h"]
    unfolding listed_def length_take length_slice_stable by linarith
  have run: "\<exists>hs. extractHealthinessSummary (Some h) = Some hs \<and> hs_num_flaky hs = int ?k \<and>
      hs_top_flaky hs = map flaky_info_of listed"
    by (simp add: extractHealthinessSummary_def Let_def k listed_def numSummaryFlakyTests_def)
  note t = top [where n = "min 5 ?k", folded listed_def]
  from run obtain hs where hs: "extractHealthinessSummary (Some h) = Some hs" "hs_num_flaky hs = int ?k"
    "hs_top_flaky hs = map flaky_info_of listed" by blast
  show ?thesis
    using hs len t(1,2) t(3) pos
    by (intro exI [of _ hs] exI [of _ listed] exI [of _ "drop (min 5 ?k) ?o"]) blast
qed

section \<open>The status of a dashboard\<close>

definition status_counts :: "tab_summary list \<Rightarrow> (string, int) gomap" where
  "status_counts ts =
     fold (\<lambda>t m. let k = lookup_or_empty tabStatusStr (dts_overall_status t) in
       AList.update k (count_of m k + 1) m) ts []"

lemma status_counts_spec:
  "count_of (status_counts ts) k =
   int (length (filter (\<lambda>t. lookup_or_empty tabStatusStr (dts_overall_status t) = k) ts))"
proof -
  have "count_of (fold (\<lambda>t m. let k = lookup_or_empty tabStatusStr (dts_overall_status t) in
       AList.update k (count_of m k + 1) m) ts m) k =
     count_of m k + int (length (filter (\<lambda>t. lookup_or_empty tabStatusStr (dts_overall_status t) = k) ts))" for m
  proof (induction ts arbitrary: m)
    case (Cons t ts)
    have upd: "count_of (AList.update j v m) k = (if k = j then v else count_of m k)" for j v
      by (simp add: count_of_def update_conv')
    show ?case unfolding fold.simps comp_apply Cons.IH unfolding Let_def upd by simp
  qed simp
  from this [of "[]"] show ?thesis by (simp add: status_counts_def count_of_def)
qed

text \<open>The statuses from the worst on.\<close>

definition status_severity :: "tab_status list" where
  "status_severity = [TAB_BROKEN, TAB_STALE, TAB_FAIL, TAB_FLAKY, TAB_PENDING, TAB_ACCEPTABLE, TAB_PASS]"

lemma status_str_eq:
  "u \<in> set status_severity \<Longrightarrow>
   lookup_or_empty tabStatusStr v = lookup_or_empty tabStatusStr u \<longleftrightarrow> v = u"
  by (cases v) (auto simp: status_severity_def lookup_or_empty_def tabStatusStr_def)

lemma dashboardSummary_spec:
  fixes summary name
  defines "r \<equiv> dashboardSummary summary name"
  shows "ads_name r = name"
    and "count_of (ads_tab_status_count r) k =
      int (length (filter (\<lambda>t. lookup_or_empty tabStatusStr (dts_overall_status t) = k) (ds_tab_summaries summary)))"
    and "ads_overall_status r =
      (case find (\<lambda>u. \<exists>t \<in> set (ds_tab_summaries summary). dts_overall_status t = u) status_severity of
         Some u \<Rightarrow> lookup_or_empty tabStatusStr u | None \<Rightarrow> ''UNKNOWN'')"
proof -
  let ?ts = "ds_tab_summaries summary"
  have c: "ads_tab_status_count r = status_counts ?ts"
    by (simp add: r_def dashboardSummary_def Let_def status_counts_def)
  show "ads_name r = name" by (simp add: r_def dashboardSummary_def Let_def)
  show "count_of (ads_tab_status_count r) k =
      int (length (filter (\<lambda>t. lookup_or_empty tabStatusStr (dts_overall_status t) = k) ?ts))"
    unfolding c by (rule status_counts_spec)
  have some: "0 < count_of (status_counts ?ts) (lookup_or_empty tabStatusStr u) \<longleftrightarrow>
      (\<exists>t \<in> set ?ts. dts_overall_status t = u)" if "u \<in> set status_severity" for u
    unfolding status_counts_spec using status_str_eq [OF that]
    by (auto simp: filter_empty_conv)
  have strs: "''BROKEN'' = lookup_or_empty tabStatusStr TAB_BROKEN"
    "''STALE'' = lookup_or_empty tabStatusStr TAB_STALE" "''FAILING'' = lookup_or_empty tabStatusStr TAB_FAIL"
    "''FLAKY'' = lookup_or_empty tabStatusStr TAB_FLAKY" "''PENDING'' = lookup_or_empty tabStatusStr TAB_PENDING"
    "''ACCEPTABLE'' = lookup_or_empty tabStatusStr TAB_ACCEPTABLE"
    "''PASSING'' = lookup_or_empty tabStatusStr TAB_PASS"
    by (simp_all add: lookup_or_empty_def tabStatusStr_def)
  have "ads_overall_status r =
     (if 0 < count_of (status_counts ?ts) ''BROKEN'' then ''BROKEN''
      else if 0 < count_of (status_counts ?ts) ''STALE'' then ''STALE''
      else if 0 < count_of (status_counts ?ts) ''FAILING'' then ''FAILING''
      else if 0 < count_of (status_counts ?ts) ''FLAKY'' then ''FLAKY''
      else if 0 < count_of (status_counts ?ts) ''PENDING'' then ''PENDING''
      else if 0 < count_of (status_counts ?ts) ''ACCEPTABLE'' then ''ACCEPTABLE''
      else if 0 < count_of (status_counts ?ts) ''PASSING'' then ''PASSING''
      else ''UNKNOWN'')"
    by (simp add: r_def dashboardSummary_def Let_def status_counts_def)
  also have "\<dots> = (case find (\<lambda>u. 0 < count_of (status_counts ?ts) (lookup_or_empty tabStatusStr u)) status_severity of
         Some u \<Rightarrow> lookup_or_empty tabStatusStr u | None \<Rightarrow> ''UNKNOWN'')"
    unfolding status_severity_def find.simps strs by simp
  also have "find (\<lambda>u. 0 < count_of (status_counts ?ts) (lookup_or_empty tabStatusStr u)) status_severity =
      find (\<lambda>u. \<exists>t \<in> set ?ts. dts_overall_status t = u) status_severity"
    by (rule find_cong [OF refl some])
  finally show "ads_overall_status r =
      (case find (\<lambda>u. \<exists>t \<in> set ?ts. dts_overall_status t = u) status_severity of
         Some u \<Rightarrow> lookup_or_empty tabStatusStr u | None \<Rightarrow> ''UNKNOWN'')" .
qed

section \<open>What is served\<close>

text \<open>The summary of a dashboard that storage holds where the summarizer writes it.\<close>

definition stored_summary :: "server \<Rightarrow> string \<Rightarrow> string \<Rightarrow> dashboard_summary \<Rightarrow> bool" where
  "stored_summary s scope name summ \<longleftrightarrow>
     (\<exists>cp b p. configPath s scope = Inr (cp, b) \<and>
        SummaryPath (srv_urls s) cp (srv_summary_prefix s) name = Inr p \<and> ReadSummary s p = Inr (Some summ))"

lemma summary_for_stored:
  assumes "stored_summary s scope name summ" "Normalize q = Normalize name"
  shows "summary_for s scope q = Inr (Some summ)"
proof -
  from assms(1) obtain cp b p where "configPath s scope = Inr (cp, b)"
    "SummaryPath (srv_urls s) cp (srv_summary_prefix s) name = Inr p" "ReadSummary s p = Inr (Some summ)"
    unfolding stored_summary_def by blast
  moreover from this SummaryPath_Normalize [OF assms(2)] have
    "SummaryPath (srv_urls s) cp (srv_summary_prefix s) q = Inr p" by metis
  ultimately show ?thesis by (simp add: summary_for_def fetchSummary_def wrap_error_def)
qed

lemma config_for_summary_serves:
  "serves s scope cfg snap \<Longrightarrow> config_for_summary s scope = Inr (new_cache snap)"
  by (simp add: serves_def config_for_summary_def wrap_error_def)

lemma GetTabSummary_spec:
  assumes sv: "serves s scope cfg snap"
    and d: "d \<in> set (cfg_dashboards cfg)" "Normalize (dash_name d) = Normalize dq"
    and t: "t \<in> set (dash_tabs d)" "Normalize (tab_name t) = Normalize tq"
    and st: "stored_summary s scope (dash_name d) summ"
    and x: "find (\<lambda>x. dts_dashboard_tab_name x = tab_name t) (ds_tab_summaries summ) = Some x"
  shows "GetTabSummary s scope dq tq = Inr (convertSummary x)"
proof -
  have "findDashboardTab (new_cache snap) dq tq = Inr (dash_name d, tab_name t, tab_test_group_name t)"
    using findDashboardTab_iff [OF sv] d t by blast
  with summary_for_stored [OF st d(2) [symmetric]] x show ?thesis
    by (simp add: GetTabSummary_def config_for_summary_serves [OF sv] wrap_error_def)
qed

text \<open>
  What the summarizer leaves in storage for a dashboard has a summary of every tab that the server
  finds, whatever way the request writes the names.
\<close>

lemma summarized_tab_served:
  assumes sv: "serves s scope cfg snap"
    and d: "d \<in> set (cfg_dashboards cfg)" "Normalize (dash_name d) = Normalize dq"
    and t: "t \<in> set (dash_tabs d)" "Normalize (tab_name t) = Normalize tq"
    and up: "updateDashboard d previous findGroup stat update grace = Inr (summaries, todo)"
      "\<And>tab tg s. update tab tg = Inr s \<Longrightarrow> dts_dashboard_tab_name s = tab_name tab"
    and st: "stored_summary s scope (dash_name d) \<lparr>ds_tab_summaries = map the summaries\<rparr>"
  shows "\<exists>x. Some x \<in> set summaries \<and> dts_dashboard_tab_name x = tab_name t \<and>
    GetTabSummary s scope dq tq = Inr (convertSummary x)"
proof -
  have names: "map (map_option dts_dashboard_tab_name) summaries = map (\<lambda>t. Some (tab_name t)) (dash_tabs d)"
    by (rule updateDashboard_all [OF up(1)]) (rule up(2))
  have "None \<notin> set summaries"
  proof
    assume "None \<in> set summaries"
    then have "None \<in> set (map (map_option dts_dashboard_tab_name) summaries)" by force
    then show False unfolding names by auto
  qed
  then have some: "Some (the y) = y" if "y \<in> set summaries" for y
    using that by (metis option.collapse)
  have "Some (tab_name t) \<in> set (map (map_option dts_dashboard_tab_name) summaries)"
    unfolding names using t(1) by simp
  then obtain y where y: "y \<in> set summaries" "map_option dts_dashboard_tab_name y = Some (tab_name t)"
    by (metis (no_types, lifting) image_iff list.set_map)
  have "the y \<in> set (map the summaries)" unfolding list.set_map by (rule imageI [OF y(1)])
  moreover have "dts_dashboard_tab_name (the y) = tab_name t" using y(2) by (cases y) simp_all
  ultimately have "find (\<lambda>x. dts_dashboard_tab_name x = tab_name t) (map the summaries) \<noteq> None"
    unfolding find_None_iff by blast
  then obtain x where x: "find (\<lambda>x. dts_dashboard_tab_name x = tab_name t) (map the summaries) = Some x" by blast
  then have "x \<in> set (map the summaries)" and n: "dts_dashboard_tab_name x = tab_name t"
    unfolding find_Some_iff by (metis nth_mem)+
  then obtain z where z: "z \<in> set summaries" "x = the z" unfolding list.set_map by blast
  have "GetTabSummary s scope dq tq = Inr (convertSummary x)"
    by (rule GetTabSummary_spec [OF sv d t st]) (simp add: x)
  with z n some show ?thesis by metis
qed

lemma GetDashboardSummary_spec:
  assumes sv: "serves s scope cfg snap"
    and d: "d \<in> set (cfg_dashboards cfg)" "Normalize (dash_name d) = Normalize dq"
    and st: "stored_summary s scope (dash_name d) summ"
  shows "GetDashboardSummary s scope dq = Inr (dashboardSummary summ (dash_name d))"
proof -
  from sv have n: "names_ok cfg" and snap: "snapshot_of cfg snap" by (simp_all add: serves_def)
  note m = snapshot_maps(2) [OF n snap] and nd = names_ok_facts(3) [OF n]
  have kd: "distinct (map Normalize (map fst (sn_dashboards snap)))"
    using named_map(1) [OF m nd] by (simp add: comp_def)
  have "dash_name d \<in> set (map fst (sn_dashboards snap))"
    using m d(1) by (metis (no_types, lifting) fst_conv image_eqI list.set_map set_mset_mset)
  then have "map_of (cc_dashboard (new_cache snap)) (Normalize dq) = Some (dash_name d)"
    unfolding new_cache_simps using normal_names_iff [OF kd] d(2) by blast
  moreover have "Normalize (Normalize dq) = Normalize (dash_name d)" using d(2) by (simp add: Normalize_idem)
  ultimately show ?thesis
    using summary_for_stored [OF st]
    by (simp add: GetDashboardSummary_def config_for_summary_serves [OF sv])
qed

end
