(* ===== verification/Api_Routes.thy ===== *)
theory Api_Routes
  imports Api_Summary
begin

text \<open>
  The API server, last part: which handler answers a path (\<open>pkg/api/v1/server.go\<close>), and whether the
  links that the handlers give have one.
\<close>

section \<open>Routes\<close>

text \<open>The handlers a request may reach, with the parameters of its URL.\<close>

datatype api_request =
    ListDashboardGroups_request
  | GetDashboardGroup_request string
  | ListDashboards_request
  | ListDashboardTabs_request string
  | GetDashboard_request string
  | ListHeaders_request string string
  | ListRows_request string string
  | ListTabSummaries_request string
  | GetTabSummary_request string string
  | ListDashboardSummaries_request string
  | GetDashboardSummary_request string

text \<open>
  A path as its segments after the leading slash.  In the router (\<open>chi\<close>) a parameter stands for one
  segment that is not empty, and a literal segment is preferred to a parameter.
\<close>

definition Route :: "string list \<Rightarrow> api_request option" where
  "Route segments =
     (if [] \<in> set segments then None
      else case segments of
        [a] \<Rightarrow>
          if a = ''dashboard-groups'' then Some ListDashboardGroups_request
          else if a = ''dashboards'' then Some ListDashboards_request
          else None
      | [a, x] \<Rightarrow>
          if a = ''dashboard-groups'' then Some (GetDashboardGroup_request x)
          else if a = ''dashboards'' then Some (GetDashboard_request x)
          else None
      | [a, x, b] \<Rightarrow>
          if a = ''dashboards'' \<and> b = ''tabs'' then Some (ListDashboardTabs_request x)
          else if a = ''dashboards'' \<and> b = ''tab-summaries'' then Some (ListTabSummaries_request x)
          else if a = ''dashboard-groups'' \<and> b = ''dashboard-summaries''
          then Some (ListDashboardSummaries_request x)
          else if a = ''dashboards'' \<and> b = ''summary'' then Some (GetDashboardSummary_request x)
          else None
      | [a, x, b, y] \<Rightarrow>
          if a = ''dashboards'' \<and> b = ''tab-summaries'' then Some (GetTabSummary_request x y) else None
      | [a, x, b, y, c] \<Rightarrow>
          if a = ''dashboards'' \<and> b = ''tabs'' \<and> c = ''headers'' then Some (ListHeaders_request x y)
          else if a = ''dashboards'' \<and> b = ''tabs'' \<and> c = ''rows'' then Some (ListRows_request x y)
          else None
      | _ \<Rightarrow> None)"

section \<open>Links\<close>

text \<open>The segments of the path of a link, up to the query.\<close>

definition link_segments :: "string \<Rightarrow> string list" where
  "link_segments link = str_split (tl (takeWhile (\<lambda>c. c \<noteq> CHR ''?'') link)) ''/''"

lemma alnum_plain: "c \<in> set (Normalize s) \<Longrightarrow> c \<noteq> CHR ''?'' \<and> c \<noteq> CHR ''/''"
proof -
  assume "c \<in> set (Normalize s)"
  then have "is_lower c \<or> is_digit c"
    using lower_kept by (auto simp: Normalize_def)
  moreover have "\<not> is_lower (CHR ''?'') \<and> \<not> is_digit (CHR ''?'') \<and> \<not> is_lower (CHR ''/'') \<and> \<not> is_digit (CHR ''/'')"
    by (simp add: is_lower_def is_digit_def less_eq_char_def)
  ultimately show ?thesis by metis
qed

lemma takeWhile_query:
  assumes "CHR ''?'' \<notin> set u"
  shows "takeWhile (\<lambda>c. c \<noteq> CHR ''?'') (u @ queryParams scope) = u"
proof (cases "scope = []")
  case True
  then show ?thesis using assms by (auto simp: queryParams_def takeWhile_eq_all_conv)
next
  case False
  have "takeWhile (\<lambda>c. c \<noteq> CHR ''?'') (u @ queryParams scope) =
      u @ takeWhile (\<lambda>c. c \<noteq> CHR ''?'') (queryParams scope)"
    using assms by (intro takeWhile_append2) auto
  with False show ?thesis by (simp add: queryParams_def)
qed

lemma link_segments_two:
  assumes "CHR ''/'' \<notin> set a" "CHR ''?'' \<notin> set a"
  shows "link_segments (CHR ''/'' # a @ CHR ''/'' # Normalize n @ queryParams scope) = [a, Normalize n]"
proof -
  have n: "CHR ''/'' \<notin> set (Normalize n)" "CHR ''?'' \<notin> set (Normalize n)"
    using alnum_plain by blast+
  have "takeWhile (\<lambda>c. c \<noteq> CHR ''?'') ((CHR ''/'' # a @ CHR ''/'' # Normalize n) @ queryParams scope) =
      CHR ''/'' # a @ CHR ''/'' # Normalize n"
    by (rule takeWhile_query) (use assms n in simp)
  then show ?thesis
    using str_split_acc_plain [OF assms(1), of "[]" "CHR ''/'' # Normalize n"]
      str_split_acc_plain [OF n(1), of "[]" "[]"]
    by (simp add: link_segments_def str_split_def str_split_acc_slash del: str_split_acc.simps(2))
qed

lemma link_segments_four:
  "link_segments (''/dashboards/'' @ Normalize d @ ''/tabs/'' @ Normalize t @ queryParams scope) =
    [''dashboards'', Normalize d, ''tabs'', Normalize t]"
proof -
  have n: "CHR ''/'' \<notin> set (Normalize x)" "CHR ''?'' \<notin> set (Normalize x)" for x
    using alnum_plain by blast+
  have "takeWhile (\<lambda>c. c \<noteq> CHR ''?'')
      ((''/dashboards/'' @ Normalize d @ ''/tabs/'' @ Normalize t) @ queryParams scope) =
      ''/dashboards/'' @ Normalize d @ ''/tabs/'' @ Normalize t"
    by (rule takeWhile_query) (use n in simp)
  moreover have "str_split (''dashboards/'' @ Normalize d @ ''/tabs/'' @ Normalize t) ''/'' =
      [''dashboards'', Normalize d, ''tabs'', Normalize t]"
    using str_split_acc_plain [of "''dashboards''" "[]" "CHR ''/'' # Normalize d @ ''/tabs/'' @ Normalize t"]
      str_split_acc_plain [OF n(1) [of d], of "[]" "''/tabs/'' @ Normalize t"]
      str_split_acc_plain [of "''tabs''" "[]" "CHR ''/'' # Normalize t"]
      str_split_acc_plain [OF n(1) [of t], of "[]" "[]"]
    by (simp add: str_split_def str_split_acc_slash del: str_split_acc.simps(2))
  ultimately show ?thesis by (simp add: link_segments_def)
qed

text \<open>
  A link to a dashboard leads to the handler of that dashboard, when its name has a letter or a
  digit; a link to a tab leads to none.
\<close>

lemma dashboard_link_routed:
  assumes sv: "serves s scope cfg snap" and run: "ListDashboards s scope = Inr rs" and r: "r \<in> set rs"
  shows "\<exists>d \<in> set (cfg_dashboards cfg). dr_name r = dash_name d \<and>
    (Normalize (dash_name d) \<noteq> [] \<longrightarrow>
       (\<exists>q. Route (link_segments (dr_link r)) = Some (GetDashboard_request q) \<and>
          GetDashboard s scope q = Inr
            \<lparr>dresp_default_tab = dash_default_tab d, dresp_highlight_today = dash_highlight_today d,
             dresp_suppress_failing_tabs = dash_downplay_failing_tabs d,
             dresp_notifications = dash_notifications d\<rparr>))"
proof -
  from ListDashboards_spec [OF sv] obtain rs' where rs': "ListDashboards s scope = Inr rs'"
    "\<forall>r \<in> set rs'. \<exists>d \<in> set (cfg_dashboards cfg). dr_name r = dash_name d \<and>
       dr_link r = ''/dashboards/'' @ Normalize (dash_name d) @ queryParams scope \<and>
       named_dashboard (new_cache snap) snap (Normalize (dash_name d)) = Some d"
    by blast
  from rs'(1) run have "rs' = rs" by simp
  with rs'(2) r obtain d where d: "d \<in> set (cfg_dashboards cfg)"
    "dr_name r = dash_name d" "dr_link r = ''/dashboards/'' @ Normalize (dash_name d) @ queryParams scope"
    "named_dashboard (new_cache snap) snap (Normalize (dash_name d)) = Some d"
    by blast
  have "link_segments (dr_link r) = [''dashboards'', Normalize (dash_name d)]"
    using link_segments_two [of "''dashboards''" "dash_name d" scope] by (simp add: d(3))
  then have "Normalize (dash_name d) \<noteq> [] \<Longrightarrow>
      Route (link_segments (dr_link r)) = Some (GetDashboard_request (Normalize (dash_name d)))"
    by (simp add: Route_def)
  moreover have "GetDashboard s scope (Normalize (dash_name d)) = Inr
      \<lparr>dresp_default_tab = dash_default_tab d, dresp_highlight_today = dash_highlight_today d,
       dresp_suppress_failing_tabs = dash_downplay_failing_tabs d,
       dresp_notifications = dash_notifications d\<rparr>"
    by (simp add: GetDashboard_def serves_config [OF sv] d(4))
  ultimately show ?thesis using d(1,2) by blast
qed

lemma tab_link_unrouted:
  assumes sv: "serves s scope cfg snap" and d: "d \<in> set (cfg_dashboards cfg)" "Normalize (dash_name d) = Normalize q"
    and run: "ListDashboardTabs s scope q = Inr rs" and r: "r \<in> set rs"
  shows "Route (link_segments (res_link r)) = None"
proof -
  from ListDashboardTabs_spec [OF sv d] obtain rs' where rs': "ListDashboardTabs s scope q = Inr rs'"
    "\<forall>r \<in> set rs'. \<exists>t \<in> set (dash_tabs d). res_link r = ''/dashboards/'' @ Normalize (dash_name d) @
       ''/tabs/'' @ Normalize (tab_name t) @ queryParams scope"
    by blast
  have "r \<in> set rs'" using rs'(1) run r by simp
  from bspec [OF rs'(2) this] obtain t where t: "t \<in> set (dash_tabs d)"
    "res_link r = ''/dashboards/'' @ Normalize (dash_name d) @ ''/tabs/'' @ Normalize (tab_name t) @ queryParams scope"
    by blast
  from t(2) have "link_segments (res_link r) = [''dashboards'', Normalize (dash_name d), ''tabs'', Normalize (tab_name t)]"
    using link_segments_four by simp
  then show ?thesis by (simp add: Route_def)
qed

end
