(* ===== verification/Rs_Upload.thy ===== *)
theory Rs_Upload
  imports Summarize
begin

text \<open>
  The ResultStore resources of \<open>resultstore/resultstore.go\<close>: invocations, targets, test actions, suites
  and cases as Go values, their messages, and the conversions in both directions.

  A message field that is a nil pointer is None; \<open>pb_\<close> names the records of messages.
\<close>

section \<open>Times and durations\<close>

text \<open>
  A \<open>time.Time\<close> is its nanoseconds since 1970, the zero time the start of year 1; a \<open>time.Duration\<close> is
  a 64-bit count of nanoseconds.  \<open>UnixNano\<close> keeps 64 bits, \<open>Unix\<close> rounds towards the past.
\<close>

definition wrap_bits :: "nat \<Rightarrow> int \<Rightarrow> int" where
  "wrap_bits w n = (n + 2 ^ (w - 1)) mod 2 ^ w - 2 ^ (w - 1)"

definition zero_instant :: int where
  "zero_instant = - 62135596800 * second"

definition dur :: "int \<Rightarrow> int \<times> int" where
  "dur d = (go_div d second, wrap_bits 32 (go_mod d second))"

definition stamp_message :: "int \<Rightarrow> timestamp option" where
  "stamp_message when =
     (if when = zero_instant then None
      else Some \<lparr>ts_seconds = when div second, ts_nanos = wrap_bits 32 (go_mod (wrap_bits 64 when) second)\<rparr>)"

definition protoTimeToGoTime :: "timestamp \<Rightarrow> int" where
  "protoTimeToGoTime t = ts_seconds t * second + ts_nanos t"

definition protoDurationToGoDuration :: "int \<times> int \<Rightarrow> int" where
  "protoDurationToGoDuration d = wrap_bits 64 (wrap_bits 64 (fst d * second) + snd d)"

record pb_timing =
  pt_start_time :: "timestamp option"
  pt_duration :: "(int \<times> int) option"

definition fromTiming :: "pb_timing option \<Rightarrow> int \<times> int" where
  "fromTiming t =
     (case t of
        None \<Rightarrow> (zero_instant, 0)
      | Some t \<Rightarrow>
          ((case pt_start_time t of None \<Rightarrow> zero_instant | Some s \<Rightarrow> protoTimeToGoTime s),
           (case pt_duration t of None \<Rightarrow> 0 | Some d \<Rightarrow> protoDurationToGoDuration d)))"

definition timing_message :: "int \<Rightarrow> int \<Rightarrow> pb_timing option" where
  "timing_message when d =
     (let never = (when = zero_instant) in
      if never \<and> d = 0 then None
      else Some \<lparr>pt_start_time = (if never then None else stamp_message when),
                 pt_duration = (if d > 0 then Some (dur d) else None)\<rparr>)"

text \<open>Times since 1970 and durations, as far as 64 bits of nanoseconds go.\<close>

definition time_ok :: "int \<Rightarrow> bool" where
  "time_ok t \<longleftrightarrow> t = zero_instant \<or> 0 \<le> t \<and> t < 2 ^ 63"

definition duration_ok :: "int \<Rightarrow> bool" where
  "duration_ok d \<longleftrightarrow> - (2 ^ 63) \<le> d \<and> d < 2 ^ 63"

lemma wrap_bits_small: "- (2 ^ (w - 1)) \<le> n \<Longrightarrow> n < 2 ^ (w - 1) \<Longrightarrow> 0 < w \<Longrightarrow> wrap_bits w n = n"
proof -
  assume n: "- (2 ^ (w - 1)) \<le> n" "n < 2 ^ (w - 1)" and w: "0 < w"
  have "(2 :: int) ^ w = 2 ^ (w - 1) + 2 ^ (w - 1)"
    using w by (cases w) simp_all
  then have "(n + 2 ^ (w - 1)) mod 2 ^ w = n + 2 ^ (w - 1)" using n by (intro mod_pos_pos_trivial) simp_all
  then show ?thesis by (simp add: wrap_bits_def)
qed

lemma second_positive [simp]: "0 < second" "second < 2147483648"
  by (simp_all add: second_def)

lemma go_mod_nonneg: "0 \<le> a \<Longrightarrow> go_mod a second = a mod second"
  by (simp add: go_mod_def minus_mult_div_eq_mod)

lemma nanos_small: "0 \<le> a \<Longrightarrow> wrap_bits 32 (a mod second) = a mod second"
  using pos_mod_sign [of second a] pos_mod_bound [of second a]
  unfolding second_def by (intro wrap_bits_small) simp_all

lemma duration_round_trip:
  assumes "0 < d" "d < 2 ^ 63"
  shows "protoDurationToGoDuration (dur d) = d"
proof -
  have m: "0 \<le> d mod second" "d div second * second + d mod second = d"
    by (simp_all add: second_def)
  have "d div second * second \<le> d" using m by linarith
  moreover have "0 \<le> d div second" using assms(1) by (simp add: pos_imp_zdiv_nonneg_iff)
  ultimately have "0 \<le> d div second * second" "d div second * second \<le> d"
    unfolding second_def by linarith+
  then have "wrap_bits 64 (d div second * second) = d div second * second"
    using assms by (intro wrap_bits_small) simp_all
  moreover have "wrap_bits 64 d = d" using assms by (intro wrap_bits_small) simp_all
  ultimately show ?thesis
    using assms(1) m(2) by (simp add: protoDurationToGoDuration_def dur_def go_mod_nonneg nanos_small)
qed

lemma time_round_trip:
  assumes "0 \<le> t" "t < 2 ^ 63"
  shows "\<exists>s. stamp_message t = Some s \<and> protoTimeToGoTime s = t"
proof -
  have "wrap_bits 64 t = t" using assms by (intro wrap_bits_small) simp_all
  moreover have "t \<noteq> zero_instant" using assms(1) by (simp add: zero_instant_def second_def)
  ultimately show ?thesis
    using assms(1) by (simp add: stamp_message_def protoTimeToGoTime_def go_mod_nonneg nanos_small)
qed

text \<open>Before 1970 a fraction of a second is counted twice: the time comes back one second early.\<close>

lemma time_before_1970:
  assumes "- (2 ^ 63) \<le> t" "t < 0" "t mod second \<noteq> 0" "t \<noteq> zero_instant"
  shows "\<exists>s. stamp_message t = Some s \<and> protoTimeToGoTime s = t - second"
proof -
  have w: "wrap_bits 64 t = t" using assms(1,2) by (intro wrap_bits_small) simp_all
  have "go_div t second = t div second + 1"
    using assms(2,3) zdiv_zminus1_eq_if [of second t] by (simp add: go_div_def second_def)
  then have g: "go_mod t second = t mod second - second"
    by (simp add: go_mod_def algebra_simps minus_mult_div_eq_mod [symmetric])
  have "wrap_bits 32 (t mod second - second) = t mod second - second"
    using pos_mod_sign [of second t] pos_mod_bound [of second t]
    unfolding second_def by (intro wrap_bits_small) simp_all
  then show ?thesis
    using assms(4) by (simp add: stamp_message_def protoTimeToGoTime_def w g)
qed

lemma timing_round_trip:
  assumes "time_ok t" "duration_ok d"
  shows "fromTiming (timing_message t d) = (t, max d 0)"
proof -
  have "protoDurationToGoDuration (dur d) = d" if "0 < d"
    using duration_round_trip [OF that] assms(2) by (simp add: duration_ok_def)
  moreover have "\<exists>s. stamp_message t = Some s \<and> protoTimeToGoTime s = t" if "t \<noteq> zero_instant"
    using time_round_trip that assms(1) by (simp add: time_ok_def)
  ultimately show ?thesis
    by (auto simp: fromTiming_def timing_message_def Let_def max_def)
qed

section \<open>Failures, errors, properties, files, statuses\<close>

record failure =
  f_message :: string
  f_type :: string
  f_stack :: string
  f_expected :: "string list"
  f_actual :: "string list"

record pb_failure =
  pbf_failure_message :: string
  pbf_exception_type :: string
  pbf_stack_trace :: string
  pbf_expected :: "string list"
  pbf_actual :: "string list"

definition fromFailures :: "pb_failure list \<Rightarrow> failure list" where
  "fromFailures tfs = map (\<lambda>tf.
     \<lparr>f_message = pbf_failure_message tf, f_type = pbf_exception_type tf, f_stack = pbf_stack_trace tf,
      f_expected = pbf_expected tf, f_actual = pbf_actual tf\<rparr>) tfs"

definition Failure_To :: "failure \<Rightarrow> pb_failure" where
  "Failure_To f =
     \<lparr>pbf_failure_message = f_message f, pbf_exception_type = f_type f, pbf_stack_trace = f_stack f,
      pbf_expected = f_expected f, pbf_actual = f_actual f\<rparr>"

definition failures_message :: "failure list \<Rightarrow> pb_failure list" where
  "failures_message fs = map Failure_To fs"

record test_error =
  e_message :: string
  e_type :: string
  e_stack :: string

record pb_error =
  pbe_error_message :: string
  pbe_exception_type :: string
  pbe_stack_trace :: string

definition Error_To :: "test_error \<Rightarrow> pb_error" where
  "Error_To e =
     \<lparr>pbe_error_message = e_message e, pbe_exception_type = e_type e, pbe_stack_trace = e_stack e\<rparr>"

definition fromErrors :: "pb_error list \<Rightarrow> test_error list" where
  "fromErrors tes = map (\<lambda>te.
     \<lparr>e_message = pbe_error_message te, e_type = pbe_exception_type te, e_stack = pbe_stack_trace te\<rparr>) tes"

definition errors_message :: "test_error list \<Rightarrow> pb_error list" where
  "errors_message es = map Error_To es"

text \<open>A property is a key and a value, in a message as in Go.  An odd number of arguments panics.\<close>

type_synonym rs_property = "string \<times> string"

fun pair_up :: "string list \<Rightarrow> rs_property list" where
  "pair_up (k # v # r) = (k, v) # pair_up r"
| "pair_up _ = []"

definition Properties :: "string list \<Rightarrow> rs_property list go" where
  "Properties pairs =
     (if length pairs mod 2 = 1 then Inl (Panic ''unbalanced properties'') else Inr (pair_up pairs))"

record rs_file =
  fl_id :: string
  fl_content_type :: string
  fl_length :: int
  fl_url :: string

record pb_file =
  pb_uid :: string
  pb_uri :: string
  pb_length :: "int option"
  pb_content_type :: string

definition wrap64 :: "int \<Rightarrow> int option" where
  "wrap64 v = (if v = 0 then None else Some v)"

definition unwrap64 :: "int option \<Rightarrow> int" where
  "unwrap64 w = (case w of None \<Rightarrow> 0 | Some v \<Rightarrow> v)"

definition File_To :: "rs_file \<Rightarrow> pb_file" where
  "File_To f =
     \<lparr>pb_uid = fl_id f, pb_uri = fl_url f, pb_length = wrap64 (fl_length f), pb_content_type = fl_content_type f\<rparr>"

definition Files :: "rs_file list \<Rightarrow> pb_file list" where
  "Files fs = map File_To fs"

definition fromFiles :: "pb_file list \<Rightarrow> rs_file list" where
  "fromFiles fs = map (\<lambda>f.
     \<lparr>fl_id = pb_uid f, fl_content_type = pb_content_type f, fl_length = unwrap64 (pb_length f),
      fl_url = pb_uri f\<rparr>) fs"

type_synonym pb_status_attributes = "int \<times> string"

definition status_message :: "int \<Rightarrow> string \<Rightarrow> pb_status_attributes option" where
  "status_message s d = Some (s, d)"

definition fromStatus :: "pb_status_attributes option \<Rightarrow> int \<times> string" where
  "fromStatus sa = (case sa of None \<Rightarrow> (0, []) | Some x \<Rightarrow> x)"

text \<open>A list of warnings has the same elements in both forms.\<close>

lemma failures_round_trip [simp]: "fromFailures (failures_message fs) = fs"
  by (induction fs) (simp_all add: fromFailures_def failures_message_def Failure_To_def)

lemma errors_round_trip [simp]: "fromErrors (errors_message es) = es"
  by (induction es) (simp_all add: fromErrors_def errors_message_def Error_To_def)

lemma files_round_trip [simp]: "fromFiles (Files fs) = fs"
  by (induction fs) (simp_all add: fromFiles_def Files_def File_To_def wrap64_def unwrap64_def)

lemma status_round_trip [simp]: "fromStatus (status_message s d) = (s, d)"
  by (simp add: fromStatus_def status_message_def)

section \<open>Cases and suites\<close>

record rs_case =
  cs_name :: string
  cs_class :: string
  cs_result :: int
  cs_duration :: int
  cs_errors :: "test_error list"
  cs_failures :: "failure list"
  cs_files :: "rs_file list"
  cs_properties :: "rs_property list"
  cs_start :: int

record pb_case =
  pbc_case_name :: string
  pbc_class_name :: string
  pbc_result :: int
  pbc_timing :: "pb_timing option"
  pbc_properties :: "rs_property list"
  pbc_errors :: "pb_error list"
  pbc_failures :: "pb_failure list"
  pbc_files :: "pb_file list"

definition fromCase :: "pb_case \<Rightarrow> rs_case" where
  "fromCase tc =
     \<lparr>cs_name = pbc_case_name tc, cs_class = pbc_class_name tc, cs_result = pbc_result tc,
      cs_duration = snd (fromTiming (pbc_timing tc)), cs_errors = fromErrors (pbc_errors tc),
      cs_failures = fromFailures (pbc_failures tc), cs_files = [], cs_properties = pbc_properties tc,
      cs_start = fst (fromTiming (pbc_timing tc))\<rparr>"

definition Case_To :: "rs_case \<Rightarrow> pb_case" where
  "Case_To c =
     \<lparr>pbc_case_name = cs_name c, pbc_class_name = cs_class c, pbc_result = cs_result c,
      pbc_timing = timing_message (cs_start c) (cs_duration c), pbc_properties = cs_properties c,
      pbc_errors = errors_message (cs_errors c), pbc_failures = failures_message (cs_failures c),
      pbc_files = []\<rparr>"

text \<open>A suite and its child suites; in a message the children and the cases are one list of tests.\<close>

record suite_fields =
  sf_name :: string
  sf_cases :: "rs_case list"
  sf_duration :: int
  sf_errors :: "test_error list"
  sf_failures :: "failure list"
  sf_files :: "rs_file list"
  sf_properties :: "rs_property list"
  sf_result :: int
  sf_start :: int

datatype rs_suite = Rs_suite suite_fields "rs_suite list"

definition no_suite :: rs_suite where
  "no_suite = Rs_suite \<lparr>sf_name = [], sf_cases = [], sf_duration = 0, sf_errors = [], sf_failures = [],
     sf_files = [], sf_properties = [], sf_result = 0, sf_start = zero_instant\<rparr> []"

record pb_suite_fields =
  pbs_suite_name :: string
  pbs_timing :: "pb_timing option"
  pbs_errors :: "pb_error list"
  pbs_failures :: "pb_failure list"
  pbs_properties :: "rs_property list"
  pbs_files :: "pb_file list"

datatype pb_suite = Pb_suite pb_suite_fields "pb_test list"
  and pb_test = Suite_test pb_suite | Case_test pb_case | No_test

fun Suite_To :: "rs_suite \<Rightarrow> pb_suite" where
  "Suite_To (Rs_suite s suites) = Pb_suite
     \<lparr>pbs_suite_name = sf_name s, pbs_timing = timing_message (sf_start s) (sf_duration s),
      pbs_errors = errors_message (sf_errors s), pbs_failures = failures_message (sf_failures s),
      pbs_properties = sf_properties s, pbs_files = Files (sf_files s)\<rparr>
     (map (\<lambda>c. Suite_test (Suite_To c)) suites @ map (\<lambda>c. Case_test (Case_To c)) (sf_cases s))"

definition test_cases :: "pb_test list \<Rightarrow> rs_case list" where
  "test_cases tests =
     List.map_filter (\<lambda>t. case t of Case_test c \<Rightarrow> Some (fromCase c) | _ \<Rightarrow> None) tests"

fun fromSuite :: "pb_suite \<Rightarrow> rs_suite" and test_suites :: "pb_test list \<Rightarrow> rs_suite list" where
  "fromSuite (Pb_suite ts tests) = Rs_suite
     \<lparr>sf_name = pbs_suite_name ts, sf_cases = test_cases tests,
      sf_duration = snd (fromTiming (pbs_timing ts)), sf_errors = fromErrors (pbs_errors ts),
      sf_failures = fromFailures (pbs_failures ts), sf_files = fromFiles (pbs_files ts),
      sf_properties = pbs_properties ts, sf_result = 0, sf_start = fst (fromTiming (pbs_timing ts))\<rparr>
     (test_suites tests)"
| "test_suites [] = []"
| "test_suites (Suite_test s # tests) = fromSuite s # test_suites tests"
| "test_suites (Case_test c # tests) = test_suites tests"
| "test_suites (No_test # tests) = test_suites tests"

text \<open>What the messages keep: not the files of a case, the result of a suite, a negative duration.\<close>

definition kept_case :: "rs_case \<Rightarrow> rs_case" where
  "kept_case c = c\<lparr>cs_files := [], cs_duration := max (cs_duration c) 0\<rparr>"

fun kept_suite :: "rs_suite \<Rightarrow> rs_suite" where
  "kept_suite (Rs_suite s suites) = Rs_suite
     (s\<lparr>sf_cases := map kept_case (sf_cases s), sf_duration := max (sf_duration s) 0, sf_result := 0\<rparr>)
     (map kept_suite suites)"

definition case_times_ok :: "rs_case \<Rightarrow> bool" where
  "case_times_ok c \<longleftrightarrow> time_ok (cs_start c) \<and> duration_ok (cs_duration c)"

fun suite_times_ok :: "rs_suite \<Rightarrow> bool" where
  "suite_times_ok (Rs_suite s suites) \<longleftrightarrow>
     time_ok (sf_start s) \<and> duration_ok (sf_duration s) \<and> list_all case_times_ok (sf_cases s) \<and>
     list_all suite_times_ok suites"

lemma case_round_trip: "case_times_ok c \<Longrightarrow> fromCase (Case_To c) = kept_case c"
  by (cases c) (simp add: fromCase_def Case_To_def kept_case_def case_times_ok_def timing_round_trip)

lemma test_cases_of:
  "test_cases (map (\<lambda>c. Suite_test (f c)) suites @ map (\<lambda>c. Case_test (Case_To c)) cs) =
   map (\<lambda>c. fromCase (Case_To c)) cs"
proof -
  have "test_cases (map (\<lambda>c. Case_test (Case_To c)) cs) = map (\<lambda>c. fromCase (Case_To c)) cs"
    by (induction cs) (simp_all add: test_cases_def List.map_filter_simps)
  then show ?thesis by (induction suites) (simp_all add: test_cases_def List.map_filter_simps)
qed

lemma test_suites_of:
  "test_suites (map (\<lambda>c. Suite_test (f c)) suites @ map (\<lambda>c. Case_test (Case_To c)) cs) =
   map (\<lambda>c. fromSuite (f c)) suites"
proof -
  have "test_suites (map (\<lambda>c. Case_test (Case_To c)) cs) = []" by (induction cs) simp_all
  then show ?thesis by (induction suites) simp_all
qed

lemma suite_round_trip: "suite_times_ok s \<Longrightarrow> fromSuite (Suite_To s) = kept_suite s"
proof (induction s rule: suite_times_ok.induct)
  case (1 s suites)
  have t: "fromTiming (timing_message (sf_start s) (sf_duration s)) = (sf_start s, max (sf_duration s) 0)"
    using "1.prems" by (simp add: timing_round_trip)
  have c: "map (\<lambda>c. fromCase (Case_To c)) (sf_cases s) = map kept_case (sf_cases s)"
    using "1.prems" by (auto simp: list_all_iff case_round_trip)
  have r: "map (\<lambda>c. fromSuite (Suite_To c)) suites = map kept_suite suites"
    using "1.prems" "1.IH" by (auto simp: list_all_iff)
  show ?case
    by (cases s) (use t c r in \<open>simp add: test_cases_of test_suites_of\<close>)
qed

section \<open>Actions, tests, targets and invocations\<close>

record rs_action =
  ac_description :: string
  ac_status :: int
  ac_start :: int
  ac_duration :: int
  ac_node :: string
  ac_exit_code :: int

datatype pb_action_type = No_action_type | Test_action "string list" "pb_suite option"

record pb_action =
  pba_status_attributes :: "pb_status_attributes option"
  pba_timing :: "pb_timing option"
  pba_action_attributes :: "(string \<times> int) option"
  pba_action_type :: pb_action_type
  pba_files :: "pb_file list"
  pba_properties :: "rs_property list"

definition actionAttributes :: "string \<Rightarrow> int \<Rightarrow> (string \<times> int) option" where
  "actionAttributes node exit = (if node = [] \<and> exit = 0 then None else Some (node, wrap_bits 32 exit))"

definition fromActionAttributes :: "(string \<times> int) option \<Rightarrow> string \<times> int" where
  "fromActionAttributes aa = (case aa of None \<Rightarrow> ([], 0) | Some x \<Rightarrow> x)"

definition Action_to :: "rs_action \<Rightarrow> pb_action" where
  "Action_to act =
     \<lparr>pba_status_attributes = status_message (ac_status act) (ac_description act),
      pba_timing = timing_message (ac_start act) (ac_duration act),
      pba_action_attributes = actionAttributes (ac_node act) (ac_exit_code act),
      pba_action_type = No_action_type, pba_files = [], pba_properties = []\<rparr>"

definition fromAction :: "pb_action \<Rightarrow> rs_action" where
  "fromAction a =
     \<lparr>ac_description = snd (fromStatus (pba_status_attributes a)),
      ac_status = fst (fromStatus (pba_status_attributes a)), ac_start = fst (fromTiming (pba_timing a)),
      ac_duration = snd (fromTiming (pba_timing a)),
      ac_node = fst (fromActionAttributes (pba_action_attributes a)),
      ac_exit_code = snd (fromActionAttributes (pba_action_attributes a))\<rparr>"

record rs_test_action =
  ta_action :: rs_action
  ta_suite :: rs_suite
  ta_warnings :: "string list"

fun suite_of :: "rs_suite \<Rightarrow> suite_fields" where
  "suite_of (Rs_suite s suites) = s"

definition Test_To :: "rs_test_action \<Rightarrow> pb_action" where
  "Test_To t =
     (Action_to (ta_action t))
       \<lparr>pba_action_type := Test_action (ta_warnings t) (Some (Suite_To (ta_suite t))),
        pba_files := Files (sf_files (suite_of (ta_suite t))),
        pba_properties := sf_properties (suite_of (ta_suite t))\<rparr>"

text \<open>A test action without a suite: its nil pointer is dereferenced.\<close>

definition fromTestAction :: "pb_action_type \<Rightarrow> (rs_suite \<times> string list) go" where
  "fromTestAction ta =
     (case ta of
        No_action_type \<Rightarrow> Inr (no_suite, [])
      | Test_action ws None \<Rightarrow> Inl (Panic ''invalid memory address or nil pointer dereference'')
      | Test_action ws (Some s) \<Rightarrow> Inr (fromSuite s, ws))"

definition fromTest :: "pb_action \<Rightarrow> rs_test_action go" where
  "fromTest a = go_bind (fromTestAction (pba_action_type a)) (\<lambda>(s, ws).
     Inr \<lparr>ta_action = fromAction a, ta_suite = s, ta_warnings = ws\<rparr>)"

record up_target =
  tgt_name :: string
  tgt_start :: int
  tgt_duration :: int
  tgt_status :: int
  tgt_description :: string
  tgt_tags :: "string list"
  tgt_properties :: "rs_property list"

record pb_target =
  pbt_name :: string
  pbt_timing :: "pb_timing option"
  pbt_status_attributes :: "pb_status_attributes option"
  pbt_visible :: bool
  pbt_target_attributes :: "string list option"
  pbt_properties :: "rs_property list"

definition fromTarget :: "pb_target \<Rightarrow> up_target" where
  "fromTarget t =
     \<lparr>tgt_name = pbt_name t, tgt_start = fst (fromTiming (pbt_timing t)),
      tgt_duration = snd (fromTiming (pbt_timing t)), tgt_status = fst (fromStatus (pbt_status_attributes t)),
      tgt_description = snd (fromStatus (pbt_status_attributes t)),
      tgt_tags = (case pbt_target_attributes t of None \<Rightarrow> [] | Some tags \<Rightarrow> tags),
      tgt_properties = pbt_properties t\<rparr>"

definition Target_To :: "up_target \<Rightarrow> pb_target" where
  "Target_To t =
     \<lparr>pbt_name = [], pbt_timing = timing_message (tgt_start t) (tgt_duration t),
      pbt_status_attributes = status_message (tgt_status t) (tgt_description t), pbt_visible = True,
      pbt_target_attributes = (if tgt_tags t \<noteq> [] then Some (tgt_tags t) else None),
      pbt_properties = tgt_properties t\<rparr>"

record up_invocation =
  iv_name :: string
  iv_project :: string
  iv_details :: string
  iv_duration :: int
  iv_start :: int
  iv_files :: "rs_file list"
  iv_properties :: "rs_property list"
  iv_status :: int
  iv_description :: string

record pb_invocation =
  pbi_name :: string
  pbi_timing :: "pb_timing option"
  pbi_status_attributes :: "pb_status_attributes option"
  pbi_files :: "pb_file list"
  pbi_properties :: "rs_property list"
  pbi_invocation_attributes :: "(string \<times> string) option"

text \<open>The description of the attributes is overwritten by that of the status.\<close>

definition fromInvocation :: "pb_invocation \<Rightarrow> up_invocation" where
  "fromInvocation rsi =
     \<lparr>iv_name = pbi_name rsi,
      iv_project = (case pbi_invocation_attributes rsi of None \<Rightarrow> [] | Some ia \<Rightarrow> fst ia), iv_details = [],
      iv_duration = snd (fromTiming (pbi_timing rsi)), iv_start = fst (fromTiming (pbi_timing rsi)),
      iv_files = fromFiles (pbi_files rsi), iv_properties = pbi_properties rsi,
      iv_status = fst (fromStatus (pbi_status_attributes rsi)),
      iv_description = snd (fromStatus (pbi_status_attributes rsi))\<rparr>"

definition Invocation_To :: "up_invocation \<Rightarrow> pb_invocation" where
  "Invocation_To i =
     \<lparr>pbi_name = iv_name i, pbi_timing = timing_message (iv_start i) (iv_duration i),
      pbi_status_attributes = status_message (iv_status i) (iv_description i), pbi_files = Files (iv_files i),
      pbi_properties = iv_properties i,
      pbi_invocation_attributes =
        (if iv_project i \<noteq> [] \<or> iv_details i \<noteq> [] then Some (iv_project i, iv_details i) else None)\<rparr>"

definition action_ok :: "rs_action \<Rightarrow> bool" where
  "action_ok a \<longleftrightarrow> time_ok (ac_start a) \<and> duration_ok (ac_duration a) \<and>
     - (2 ^ 31) \<le> ac_exit_code a \<and> ac_exit_code a < 2 ^ 31"

lemma action_fields_round_trip:
  assumes "action_ok a" "pba_status_attributes m = pba_status_attributes (Action_to a)"
    "pba_timing m = pba_timing (Action_to a)" "pba_action_attributes m = pba_action_attributes (Action_to a)"
  shows "fromAction m = a\<lparr>ac_duration := max (ac_duration a) 0\<rparr>"
proof -
  have "wrap_bits 32 (ac_exit_code a) = ac_exit_code a"
    using assms(1) by (intro wrap_bits_small) (simp_all add: action_ok_def)
  then have "fromActionAttributes (actionAttributes (ac_node a) (ac_exit_code a)) = (ac_node a, ac_exit_code a)"
    by (simp add: fromActionAttributes_def actionAttributes_def)
  then show ?thesis
    using assms by (cases a) (simp add: fromAction_def Action_to_def timing_round_trip action_ok_def)
qed

lemma test_round_trip:
  assumes "action_ok (ta_action t)" "suite_times_ok (ta_suite t)"
  shows "fromTest (Test_To t) = Inr
    (t\<lparr>ta_action := (ta_action t)\<lparr>ac_duration := max (ac_duration (ta_action t)) 0\<rparr>,
       ta_suite := kept_suite (ta_suite t)\<rparr>)"
proof -
  have "fromAction (Test_To t) = (ta_action t)\<lparr>ac_duration := max (ac_duration (ta_action t)) 0\<rparr>"
    by (rule action_fields_round_trip [OF assms(1)]) (simp_all add: Test_To_def)
  then show ?thesis
    using suite_round_trip [OF assms(2)]
    by (cases t) (simp add: fromTest_def fromTestAction_def Test_To_def)
qed

lemma target_round_trip:
  assumes "time_ok (tgt_start t)" "duration_ok (tgt_duration t)"
  shows "fromTarget (Target_To t) = t\<lparr>tgt_name := [], tgt_duration := max (tgt_duration t) 0\<rparr>"
  by (cases t) (use assms in \<open>simp add: fromTarget_def Target_To_def timing_round_trip\<close>)

text \<open>The details of an invocation are sent, and not read back.\<close>

lemma invocation_round_trip:
  assumes "time_ok (iv_start i)" "duration_ok (iv_duration i)"
  shows "fromInvocation (Invocation_To i) = i\<lparr>iv_details := [], iv_duration := max (iv_duration i) 0\<rparr>"
  by (cases i) (use assms in \<open>simp add: fromInvocation_def Invocation_To_def timing_round_trip\<close>)

end
