(* ===== verification/Config_Merge.thy ===== *)
theory Config_Merge
  imports Config_Converge Config_Source
begin

text \<open>
  The configuration merger, \<open>pkg/merger/merger.go\<close>: reading the list of sources, and one merge.

  The YAML decoder, the reads, the encoder and the upload are arguments.  Every source is read by a
  goroutine of its own; \<open>order\<close> is the order in which they finish, any permutation of the sources.
\<close>

section \<open>The list of sources\<close>

record merge_source =
  src_name :: string
  src_location :: string
  src_path :: "url option"
  src_contact :: string

record merge_list =
  ml_target :: string
  ml_path :: "url option"
  ml_sources :: "merge_source list"

fun check_sources :: "url_lib \<Rightarrow> string set \<Rightarrow> merge_source list \<Rightarrow> merge_source list go" where
  "check_sources ul names [] = Inr []"
| "check_sources ul names (s # ss) =
     (if src_name s \<in> names then Inl (Failed (''duplicated name '' @ src_name s))
      else go_bind (NewPath ul (src_location s)) (\<lambda>path.
           go_bind (check_sources ul (insert (src_name s) names) ss) (\<lambda>rest.
             Inr (s\<lparr>src_path := Some path\<rparr> # rest))))"

definition ParseAndCheck :: "(string \<Rightarrow> merge_list go) \<Rightarrow> url_lib \<Rightarrow> string \<Rightarrow> merge_list go" where
  "ParseAndCheck yaml ul data =
     go_bind (yaml data) (\<lambda>lst.
     go_bind (NewPath ul (ml_target lst)) (\<lambda>path.
     if ml_sources lst = [] then Inl (Failed ''no shards to converge'')
     else go_bind (check_sources ul {} (ml_sources lst)) (\<lambda>ss.
       Inr (lst\<lparr>ml_path := Some path, ml_sources := ss\<rparr>))))"

text \<open>What a list that was accepted is like.\<close>

definition merge_list_ok :: "merge_list \<Rightarrow> bool" where
  "merge_list_ok lst \<longleftrightarrow>
     (\<exists>p. ml_path lst = Some p \<and> path_valid p) \<and> ml_sources lst \<noteq> [] \<and>
     distinct (map src_name (ml_sources lst)) \<and>
     (\<forall>s \<in> set (ml_sources lst). \<exists>p. src_path s = Some p \<and> path_valid p)"

lemma check_sources_ok:
  "check_sources ul names ss = Inr ss' \<Longrightarrow>
   map src_name ss' = map src_name ss \<and> distinct (map src_name ss) \<and> src_name ` set ss \<inter> names = {} \<and>
   (\<forall>s \<in> set ss'. \<exists>p. src_path s = Some p \<and> path_valid p)"
proof (induction ss arbitrary: names ss')
  case (Cons s ss)
  then obtain path rest where r: "src_name s \<notin> names" "NewPath ul (src_location s) = Inr path"
    "check_sources ul (insert (src_name s) names) ss = Inr rest" "ss' = s\<lparr>src_path := Some path\<rparr> # rest"
    by (auto simp: go_simps split: if_splits)
  from Cons.IH [OF r(3)] r NewPath_valid [OF r(2)] show ?case by auto
qed simp

lemma ParseAndCheck_ok:
  assumes "ParseAndCheck yaml ul data = Inr lst"
  shows "merge_list_ok lst"
proof -
  from assms obtain raw path ss where r: "NewPath ul (ml_target raw) = Inr path" "ml_sources raw \<noteq> []"
    "check_sources ul {} (ml_sources raw) = Inr ss" "lst = raw\<lparr>ml_path := Some path, ml_sources := ss\<rparr>"
    by (auto simp: ParseAndCheck_def go_simps split: if_splits)
  note ss = check_sources_ok [OF r(3)]
  then have "ss \<noteq> []" using r(2) by auto
  with ss r NewPath_valid [OF r(1)] show ?thesis by (auto simp: merge_list_ok_def)
qed

section \<open>One merge\<close>

type_synonym source_reader = "merge_source \<Rightarrow> (configuration \<times> attrs) go"

definition fatal_error :: "url_lib \<Rightarrow> merge_source \<Rightarrow> go_error \<Rightarrow> go_error" where
  "fatal_error ul s e =
     (case e of
        Failed m \<Rightarrow> Failed (''can't read config '' @ go_quote (src_name s) @ '' at '' @
          (case src_path s of Some p \<Rightarrow> ul_string ul p | None \<Rightarrow> []) @ '': '' @ m)
      | Panic m \<Rightarrow> Panic m)"

text \<open>The end of one goroutine: the shards so far and the last fatal error.\<close>

definition finish_source ::
    "url_lib \<Rightarrow> source_reader \<Rightarrow> (configuration \<Rightarrow> bool) \<Rightarrow> bool \<Rightarrow>
     (string, configuration) gomap \<times> go_error option \<Rightarrow> merge_source \<Rightarrow>
     (string, configuration) gomap \<times> go_error option" where
  "finish_source ul rd valid skipValidate st s =
     (case rd s of
        Inl e \<Rightarrow> (fst st, Some (fatal_error ul s e))
      | Inr (cfg, attrs) \<Rightarrow>
          if \<not> skipValidate \<and> \<not> valid cfg then st
          else (AList.update (src_name s) cfg (fst st), snd st))"

text \<open>
  The answer, and the uploads it made.  The configurations of the sources are values: \<open>ReadGCS\<close> keeps
  what it has read for five minutes and hands out the same message again, in which \<open>Converge\<close> renames in
  place; so two sources with the same location, or a merge soon after another one, see names already
  renamed, which is outside this model.
\<close>

definition MergeAndUpdate ::
    "url_lib \<Rightarrow> source_reader \<Rightarrow> (configuration \<Rightarrow> bool) \<Rightarrow> (configuration \<Rightarrow> string go) \<Rightarrow>
     (url \<Rightarrow> string \<Rightarrow> unit go) \<Rightarrow> merge_list \<Rightarrow> merge_source list \<Rightarrow> bool \<Rightarrow> bool \<Rightarrow>
     configuration go \<times> (url \<times> string) list" where
  "MergeAndUpdate ul rd valid marshal upload lst order skipValidate confirm =
     (case find (\<lambda>s. src_path s = None) (ml_sources lst) of
        Some s \<Rightarrow> (Inl (Failed (''path at '' @ go_quote (src_name s) @ '' is nil'')), [])
      | None \<Rightarrow>
          (case foldl (finish_source ul rd valid skipValidate) ([], None) order of
             (shards, Some fatal) \<Rightarrow> (Inl fatal, [])
           | (shards, None) \<Rightarrow>
               if shards = [] then (Inl (Failed ''no configs to merge''), [])
               else (case wrap_error ''can't merge configurations: '' (Converge shards) of
                  Inl e \<Rightarrow> (Inl e, [])
                | Inr result \<Rightarrow>
                    if \<not> confirm then (Inr result, [])
                    else (case wrap_error ''can't marshal merged proto: '' (marshal result) of
                       Inl e \<Rightarrow> (Inl e, [])
                     | Inr buf \<Rightarrow>
                         (case ml_path lst of
                            None \<Rightarrow> (nil_call, [])
                          | Some p \<Rightarrow>
                              (case wrap_error (''can't upload merged proto to '' @ ul_string ul p @ '': '') (upload p buf) of
                                 Inl e \<Rightarrow> (Inl e, [(p, buf)])
                               | Inr _ \<Rightarrow> (Inr result, [(p, buf)])))))))"

section \<open>What is merged\<close>

text \<open>The shards that are merged: the sources that were read and are valid, under their names.\<close>

definition shard_of ::
    "source_reader \<Rightarrow> (configuration \<Rightarrow> bool) \<Rightarrow> bool \<Rightarrow> merge_source \<Rightarrow> (string \<times> configuration) option" where
  "shard_of rd valid skipValidate s =
     (case rd s of
        Inl _ \<Rightarrow> None
      | Inr (cfg, _) \<Rightarrow> if skipValidate \<or> valid cfg then Some (src_name s, cfg) else None)"

definition merged_shards ::
    "source_reader \<Rightarrow> (configuration \<Rightarrow> bool) \<Rightarrow> bool \<Rightarrow> merge_source list \<Rightarrow> (string, configuration) gomap" where
  "merged_shards rd valid skipValidate ss = List.map_filter (shard_of rd valid skipValidate) ss"

lemma merged_shards_simps [simp]:
  "merged_shards rd valid sk [] = []"
  "merged_shards rd valid sk (s # ss) =
     (case shard_of rd valid sk s of
        Some x \<Rightarrow> x # merged_shards rd valid sk ss | None \<Rightarrow> merged_shards rd valid sk ss)"
  by (simp_all add: merged_shards_def List.map_filter_simps split: option.split)

lemma shard_of_name: "shard_of rd valid sk s = Some x \<Longrightarrow> fst x = src_name s"
  by (auto simp: shard_of_def split: sum.splits if_splits)

lemma merged_shards_keys: "fst ` set (merged_shards rd valid sk ss) \<subseteq> src_name ` set ss"
  by (induction ss) (auto split: option.splits dest: shard_of_name)

lemma merged_shards_distinct:
  "distinct (map src_name ss) \<Longrightarrow> distinct (map fst (merged_shards rd valid sk ss))"
proof (induction ss)
  case (Cons s ss)
  have "src_name s \<notin> fst ` set (merged_shards rd valid sk ss)"
    using Cons.prems merged_shards_keys [of rd valid sk ss] by auto
  with Cons shard_of_name [of rd valid sk s] show ?case
    by (cases "shard_of rd valid sk s") simp_all
qed simp

lemma merged_shards_perm: "mset ss = mset ss' \<Longrightarrow>
  mset (merged_shards rd valid sk ss) = mset (merged_shards rd valid sk ss')"
proof -
  have f: "mset (List.map_filter f xs) = image_mset (the \<circ> f) (filter_mset (\<lambda>x. f x \<noteq> None) (mset xs))"
    for f :: "'a \<Rightarrow> 'b option" and xs
    by (simp add: List.map_filter_def)
  show "mset ss = mset ss' \<Longrightarrow> ?thesis" unfolding merged_shards_def f by simp
qed

lemma merged_shards_valid:
  "(k, cfg) \<in> set (merged_shards rd valid sk ss) \<Longrightarrow> sk \<or> valid cfg"
  by (induction ss) (auto simp: shard_of_def split: sum.splits if_splits)

lemma finish_source_simps:
  "rd s = Inl e \<Longrightarrow> finish_source ul rd valid sk st s = (fst st, Some (fatal_error ul s e))"
  "rd s = Inr x \<Longrightarrow> finish_source ul rd valid sk st s =
     (case shard_of rd valid sk s of
        None \<Rightarrow> st | Some (k, cfg) \<Rightarrow> (AList.update k cfg (fst st), snd st))"
  by (cases x; simp add: finish_source_def shard_of_def)+

lemma finish_source_all:
  assumes "\<forall>s \<in> set ss. \<exists>x. rd s = Inr x" "distinct (map src_name ss)"
    "src_name ` set ss \<inter> fst ` set m = {}"
  shows "foldl (finish_source ul rd valid sk) (m, None) ss = (m @ merged_shards rd valid sk ss, None)"
  using assms
proof (induction ss arbitrary: m)
  case (Cons s ss)
  from Cons.prems(1) obtain x where r: "rd s = Inr x" by auto
  show ?case
  proof (cases "shard_of rd valid sk s")
    case None
    have "foldl (finish_source ul rd valid sk) (m, None) ss = (m @ merged_shards rd valid sk ss, None)"
      by (rule Cons.IH) (use Cons.prems in auto)
    with None show ?thesis by (simp add: finish_source_simps(2) [where rd = rd, OF r])
  next
    case (Some kc)
    obtain k cfg where kc: "kc = (k, cfg)" by fastforce
    have k: "k = src_name s" using shard_of_name [OF Some] by (simp add: kc)
    have "k \<notin> fst ` set m" using Cons.prems(3) k by auto
    then have upd: "AList.update k cfg m = m @ [(k, cfg)]" by (induction m) auto
    have "foldl (finish_source ul rd valid sk) (m @ [(k, cfg)], None) ss =
        ((m @ [(k, cfg)]) @ merged_shards rd valid sk ss, None)"
      by (rule Cons.IH) (use Cons.prems k in auto)
    with Some show ?thesis by (simp add: finish_source_simps(2) [where rd = rd, OF r] kc upd)
  qed
qed simp

lemma finish_source_fatal:
  assumes "\<exists>s \<in> set ss. \<exists>e. rd s = Inl e"
  shows "\<exists>m s e. foldl (finish_source ul rd valid sk) st ss = (m, Some (fatal_error ul s e)) \<and> s \<in> set ss \<and> rd s = Inl e"
  using assms
proof (induction ss rule: rev_induct)
  case (snoc s ss)
  show ?case
  proof (cases "rd s")
    case (Inl e)
    have "foldl (finish_source ul rd valid sk) st (ss @ [s]) =
        (fst (foldl (finish_source ul rd valid sk) st ss), Some (fatal_error ul s e))"
      by (simp add: finish_source_simps(1) [where rd = rd, OF Inl])
    with Inl show ?thesis by auto
  next
    case (Inr x)
    with snoc.prems have "\<exists>s \<in> set ss. \<exists>e. rd s = Inl e" by auto
    from snoc.IH [OF this] obtain m s' e where f: "foldl (finish_source ul rd valid sk) st ss =
        (m, Some (fatal_error ul s' e))" "s' \<in> set ss" "rd s' = Inl e"
      by blast
    have "\<exists>m. foldl (finish_source ul rd valid sk) st (ss @ [s]) = (m, Some (fatal_error ul s' e))"
      by (simp add: finish_source_simps(2) [where rd = rd, OF Inr] f(1) split: option.split prod.split)
    with f(2,3) show ?thesis by auto
  qed
qed simp

text \<open>Converging does not depend on the order of the shards.\<close>

lemma Converge_perm:
  assumes "mset xs = mset ys" "distinct (map fst ys)"
  shows "Converge xs = Converge ys"
proof -
  have "distinct (map fst xs)"
    using assms by (metis mset_eq_imp_distinct_iff mset_map)
  then have "inj_on fst (set xs)" by (simp add: distinct_map)
  then have "sort_key fst xs = sort_key fst ys"
    using assms(1) by (intro sort_key_inj_key_eq) simp_all
  moreover have "xs = [] \<longleftrightarrow> ys = []" using assms(1) by (metis mset_zero_iff)
  ultimately show ?thesis by (simp add: Converge_def)
qed

lemma merge_list_paths: "merge_list_ok lst \<Longrightarrow> find (\<lambda>s. src_path s = None) (ml_sources lst) = None"
  by (fastforce simp: merge_list_ok_def find_None_iff)

text \<open>
  A merge, in whatever order the reads end.  When a read fails it answers with the error of one of
  those and uploads nothing.
\<close>

lemma MergeAndUpdate_fatal:
  assumes "merge_list_ok lst" "mset order = mset (ml_sources lst)"
    "\<exists>s \<in> set (ml_sources lst). \<exists>e. rd s = Inl e"
  shows "\<exists>s \<in> set (ml_sources lst). \<exists>e. rd s = Inl e \<and>
    MergeAndUpdate ul rd valid marshal upload lst order skipValidate confirm = (Inl (fatal_error ul s e), [])"
proof -
  have sets: "set order = set (ml_sources lst)" using assms(2) by (rule mset_eq_setD)
  with assms(3) have "\<exists>s \<in> set order. \<exists>e. rd s = Inl e" by simp
  from finish_source_fatal [OF this] obtain m s e where
    "foldl (finish_source ul rd valid skipValidate) ([], None) order = (m, Some (fatal_error ul s e))"
    "s \<in> set order" "rd s = Inl e" by blast
  with sets show ?thesis
    by (auto simp: MergeAndUpdate_def merge_list_paths [OF assms(1)])
qed

text \<open>
  When all of them succeed, what it answers is the convergence of the valid sources, under their
  names, and with \<open>confirm\<close> this is what it uploads, once, to the target.
\<close>

lemma MergeAndUpdate_reads:
  fixes valid :: "configuration \<Rightarrow> bool" and skipValidate confirm :: bool and ul :: url_lib
    and marshal :: "configuration \<Rightarrow> string go" and upload :: "url \<Rightarrow> string \<Rightarrow> unit go"
  assumes ok: "merge_list_ok lst" and order: "mset order = mset (ml_sources lst)"
    and rd: "\<forall>s \<in> set (ml_sources lst). \<exists>x. rd s = Inr x"
  defines "shards \<equiv> merged_shards rd valid skipValidate (ml_sources lst)"
    and "m \<equiv> MergeAndUpdate ul rd valid marshal upload lst order skipValidate confirm"
  shows "(shards = [] \<longrightarrow> m = (Inl (Failed ''no configs to merge''), [])) \<and>
    (shards \<noteq> [] \<longrightarrow> (\<exists>r. Converge shards = Inr r \<and>
       (\<not> confirm \<longrightarrow> m = (Inr r, [])) \<and>
       (\<forall>buf p. confirm \<and> marshal r = Inr buf \<and> ml_path lst = Some p \<longrightarrow>
          snd m = [(p, buf)] \<and> (upload p buf = Inr () \<longrightarrow> fst m = Inr r))))"
proof -
  let ?o = "merged_shards rd valid skipValidate order"
  have dn: "distinct (map src_name (ml_sources lst))" using ok by (simp add: merge_list_ok_def)
  have do: "distinct (map src_name order)"
    using dn order by (metis mset_eq_imp_distinct_iff mset_map)
  have "\<forall>s \<in> set order. \<exists>x. rd s = Inr x" using rd order by (metis mset_eq_setD)
  from finish_source_all [OF this do, of "[]"] have
    fin: "foldl (finish_source ul rd valid skipValidate) ([], None) order = (?o, None)" by simp
  have perm: "mset ?o = mset shards" unfolding shards_def by (rule merged_shards_perm [OF order])
  have conv: "Converge ?o = Converge shards"
    by (rule Converge_perm [OF perm]) (simp add: shards_def merged_shards_distinct [OF dn])
  have empty: "?o = [] \<longleftrightarrow> shards = []" using perm by (metis mset_zero_iff)
  note m = m_def [unfolded MergeAndUpdate_def merge_list_paths [OF ok] fin, simplified]
  show ?thesis
  proof (cases "shards = []")
    case True
    with empty show ?thesis by (simp add: m)
  next
    case False
    then obtain r where "Converge shards = Inr r" by (simp add: Converge_def)
    with False empty conv show ?thesis
      by (auto simp: m wrap_error_def split: sum.split go_error.split)
  qed
qed

end
