(* ===== verification/Storage.thy ===== *)
theory Storage
  imports Config_Source Update_Loop Update_Group Tabulate
begin

text \<open>
  Storage: the client that picks Google Cloud Storage or the local file system for a path
  (\<open>util/gcs/client.go\<close>, \<open>local_gcs.go\<close>, \<open>real_gcs.go\<close>), \<open>Stat\<close> and \<open>Touch\<close> (\<open>util/gcs/sort.go\<close>), and the
  locks that create the first state of a group or dashboard (\<open>pkg/updater/updater.go\<close>,
  \<open>pkg/summarizer/summary.go\<close>).

  The local disk is the map of its regular files, by name, with contents and modification time;
  directories are made on demand, and the name of one counts as absent (\<open>os.Stat\<close> would find it).  Cloud storage is the parameter \<open>'s gcs_lib\<close>, whose operations are
  those of the handles of its library, with the conditions they carry.
\<close>

datatype storage_error = ErrObjectNotExist | PreconditionFailed | OtherError string

type_synonym 'a answer = "storage_error + 'a"

record conditions =
  cn_generation_match :: int
  cn_generation_not_match :: int
  cn_does_not_exist :: bool

definition no_conditions :: conditions where
  "no_conditions = \<lparr>cn_generation_match = 0, cn_generation_not_match = 0, cn_does_not_exist = False\<rparr>"

record obj_attrs =
  ob_bucket :: string
  ob_name :: string
  ob_size :: int
  ob_updated :: int
  ob_generation :: int

definition IsPreconditionFailed :: "storage_error \<Rightarrow> bool" where
  "IsPreconditionFailed e \<longleftrightarrow> e = PreconditionFailed"

section \<open>Local files\<close>

text \<open>The matches of \<open>file:/+\<close> become one slash.\<close>

function strip_file :: "string \<Rightarrow> string" where
  "strip_file s =
     (case s of [] \<Rightarrow> []
      | c # t \<Rightarrow>
          if has_prefix s ''file:/'' then CHR ''/'' # strip_file (dropWhile (\<lambda>c. c = CHR ''/'') (drop 5 s))
          else c # strip_file t)"
  by pat_completeness auto
termination
  by (relation "measure length")
    (auto simp: has_prefix_def intro: le_less_trans [OF length_dropWhile_le])

declare strip_file.simps [simp del]

text \<open>\<open>url.PathUnescape\<close>.\<close>

fun path_unescape :: "string \<Rightarrow> string option" where
  "path_unescape [] = Some []"
| "path_unescape (c # s) =
     (if c = CHR ''%'' then
        (case s of
           a # b # t \<Rightarrow>
             (case (hex_value a, hex_value b) of
                (Some x, Some y) \<Rightarrow> map_option (\<lambda>u. char_of (16 * x + y) # u) (path_unescape t)
              | _ \<Rightarrow> None)
         | _ \<Rightarrow> None)
      else map_option (\<lambda>u. c # u) (path_unescape s))"

definition cleanFilepath :: "url_lib \<Rightarrow> url \<Rightarrow> string" where
  "cleanFilepath ul path =
     (case path_unescape (strip_file (ul_string ul path)) of None \<Rightarrow> [] | Some p \<Rightarrow> p)"

text \<open>\<open>dk_refused\<close>: the names the system will not write, such as those of directories.\<close>

record disk =
  dk_files :: "(string, string \<times> int) gomap"
  dk_refused :: "string \<Rightarrow> bool"
  dk_now :: int

definition objectAttrs :: "url \<Rightarrow> string \<times> int \<Rightarrow> obj_attrs" where
  "objectAttrs path info =
     \<lparr>ob_bucket = Bucket path, ob_name = Object path, ob_size = int (length (fst info)),
      ob_updated = snd info, ob_generation = 0\<rparr>"

definition local_Stat :: "url_lib \<Rightarrow> disk \<Rightarrow> url \<Rightarrow> obj_attrs answer" where
  "local_Stat ul d path =
     (case map_of (dk_files d) (cleanFilepath ul path) of
        None \<Rightarrow> Inl ErrObjectNotExist | Some f \<Rightarrow> Inr (objectAttrs path f))"

definition local_Open :: "url_lib \<Rightarrow> disk \<Rightarrow> url \<Rightarrow> string answer" where
  "local_Open ul d path =
     (case map_of (dk_files d) (cleanFilepath ul path) of
        None \<Rightarrow> Inl ErrObjectNotExist | Some f \<Rightarrow> Inr (fst f))"

definition local_Upload :: "url_lib \<Rightarrow> disk \<Rightarrow> url \<Rightarrow> string \<Rightarrow> obj_attrs answer \<times> disk" where
  "local_Upload ul d path buf =
     (let name = cleanFilepath ul path in
      if dk_refused d name then (Inl (OtherError (''open '' @ name)), d)
      else let d' = d\<lparr>dk_files := AList.update name (buf, dk_now d) (dk_files d)\<rparr>
        in (local_Stat ul d' path, d'))"

definition local_Copy :: "url_lib \<Rightarrow> disk \<Rightarrow> url \<Rightarrow> url \<Rightarrow> obj_attrs answer \<times> disk" where
  "local_Copy ul d from to =
     (case local_Open ul d from of Inl e \<Rightarrow> (Inl e, d) | Inr buf \<Rightarrow> local_Upload ul d to buf)"

text \<open>
  Listing a directory: the names of its entries in order, as objects without a prefix or metadata.
  The start offset and the delimiter are ignored.
\<close>

definition dir_entries :: "disk \<Rightarrow> string \<Rightarrow> string list" where
  "dir_entries d p =
     sort (remdups (map (\<lambda>f. takeWhile (\<lambda>c. c \<noteq> CHR ''/'') (drop (length p) f))
       (filter (\<lambda>f. has_prefix f p) (map fst (dk_files d)))))"

definition file_Dir :: "string \<Rightarrow> string" where
  "file_Dir p = path_Clean (rev (dropWhile (\<lambda>c. c \<noteq> CHR ''/'') (rev p)))"

definition local_Objects :: "url_lib \<Rightarrow> disk \<Rightarrow> url \<Rightarrow> object_attrs list go" where
  "local_Objects ul d path =
     (let p = cleanFilepath ul path; p = (if has_suffix p ''/'' then p else p @ ''/'') in
      go_map (\<lambda>name. go_bind (NewPath ul (path_Join [file_Dir p, name])) (\<lambda>q.
          Inr \<lparr>oa_name = Object q, oa_prefix = [], oa_metadata = []\<rparr>)) (dir_entries d p))"

section \<open>The two clients as one\<close>

record 's gcs_lib =
  gl_attrs :: "'s \<Rightarrow> conditions option \<Rightarrow> string \<Rightarrow> string \<Rightarrow> obj_attrs answer"
  gl_read :: "'s \<Rightarrow> conditions option \<Rightarrow> string \<Rightarrow> string \<Rightarrow> (string \<times> obj_attrs) answer"
  gl_write :: "'s \<Rightarrow> conditions option \<Rightarrow> string \<Rightarrow> string \<Rightarrow> string \<Rightarrow> obj_attrs answer \<times> 's"
  gl_copy :: "'s \<Rightarrow> conditions option \<Rightarrow> string \<times> string \<Rightarrow> conditions option \<Rightarrow> string \<times> string \<Rightarrow>
    obj_attrs answer \<times> 's"

text \<open>A client is the conditions that \<open>If\<close> gave it for reads and for writes.\<close>

record client =
  cl_read :: "conditions option"
  cl_write :: "conditions option"

definition NewClient :: client where
  "NewClient = \<lparr>cl_read = None, cl_write = None\<rparr>"

definition client_If :: "client \<Rightarrow> conditions option \<Rightarrow> conditions option \<Rightarrow> client" where
  "client_If c rd wr = \<lparr>cl_read = rd, cl_write = wr\<rparr>"

text \<open>What the clients act on.\<close>

record 's world =
  wd_disk :: disk
  wd_cloud :: 's

definition checkPreconditions :: "obj_attrs \<Rightarrow> conditions \<Rightarrow> storage_error option" where
  "checkPreconditions a cond =
     (if cn_generation_match cond > 0 \<and> cn_generation_match cond \<noteq> ob_generation a then Some PreconditionFailed
      else if cn_generation_not_match cond > 0 \<and> cn_generation_not_match cond = ob_generation a
      then Some PreconditionFailed else None)"

definition real_Open :: "'s gcs_lib \<Rightarrow> client \<Rightarrow> 's \<Rightarrow> url \<Rightarrow> string answer" where
  "real_Open gl c s path =
     (case gl_read gl s (cl_read c) (Bucket path) (Object path) of
        Inl e \<Rightarrow> Inl e
      | Inr (buf, a) \<Rightarrow>
          (case Option.bind (cl_read c) (checkPreconditions a) of Some e \<Rightarrow> Inl e | None \<Rightarrow> Inr buf))"

definition is_cloud :: "url \<Rightarrow> bool" where
  "is_cloud path \<longleftrightarrow> u_scheme path = ''gs''"

definition client_Stat :: "url_lib \<Rightarrow> 's gcs_lib \<Rightarrow> client \<Rightarrow> 's world \<Rightarrow> url \<Rightarrow> obj_attrs answer" where
  "client_Stat ul gl c w path =
     (if is_cloud path then gl_attrs gl (wd_cloud w) (cl_read c) (Bucket path) (Object path)
      else local_Stat ul (wd_disk w) path)"

definition client_Open :: "url_lib \<Rightarrow> 's gcs_lib \<Rightarrow> client \<Rightarrow> 's world \<Rightarrow> url \<Rightarrow> string answer" where
  "client_Open ul gl c w path =
     (if is_cloud path then real_Open gl c (wd_cloud w) path else local_Open ul (wd_disk w) path)"

definition on_cloud :: "'s world \<Rightarrow> 'a \<times> 's \<Rightarrow> 'a \<times> 's world" where
  "on_cloud w r = (fst r, w\<lparr>wd_cloud := snd r\<rparr>)"

definition on_disk :: "'s world \<Rightarrow> 'a \<times> disk \<Rightarrow> 'a \<times> 's world" where
  "on_disk w r = (fst r, w\<lparr>wd_disk := snd r\<rparr>)"

definition client_Upload ::
    "url_lib \<Rightarrow> 's gcs_lib \<Rightarrow> client \<Rightarrow> 's world \<Rightarrow> url \<Rightarrow> string \<Rightarrow> obj_attrs answer \<times> 's world" where
  "client_Upload ul gl c w path buf =
     (if is_cloud path
      then on_cloud w (gl_write gl (wd_cloud w) (cl_write c) (Bucket path) (Object path) buf)
      else on_disk w (local_Upload ul (wd_disk w) path buf))"

text \<open>The source of a copy decides which client makes it.\<close>

definition client_Copy ::
    "url_lib \<Rightarrow> 's gcs_lib \<Rightarrow> client \<Rightarrow> 's world \<Rightarrow> url \<Rightarrow> url \<Rightarrow> obj_attrs answer \<times> 's world" where
  "client_Copy ul gl c w from to =
     (if is_cloud from
      then on_cloud w (gl_copy gl (wd_cloud w) (cl_read c) (Bucket from, Object from)
             (cl_write c) (Bucket to, Object to))
      else on_disk w (local_Copy ul (wd_disk w) from to))"

section \<open>Attributes and locks\<close>

text \<open>The workers of \<open>Stat\<close> fill in one answer per path.\<close>

definition Stat :: "url_lib \<Rightarrow> 's gcs_lib \<Rightarrow> 's world \<Rightarrow> url list \<Rightarrow> obj_attrs answer list" where
  "Stat ul gl w paths = map (client_Stat ul gl NewClient w) paths"

definition stat_of :: "obj_attrs answer \<Rightarrow> stat_result" where
  "stat_of a =
     (case a of
        Inl e \<Rightarrow> \<lparr>sr_attrs = None, sr_not_exist = (e = ErrObjectNotExist)\<rparr>
      | Inr a \<Rightarrow> \<lparr>sr_attrs = Some \<lparr>at_generation = ob_generation a, at_updated = ob_updated a\<rparr>, sr_not_exist = False\<rparr>)"

definition Touch ::
    "url_lib \<Rightarrow> 's gcs_lib \<Rightarrow> 's world \<Rightarrow> url \<Rightarrow> int \<Rightarrow> string \<Rightarrow> obj_attrs answer \<times> 's world" where
  "Touch ul gl w path generation genZero =
     (if generation \<noteq> 0 then
        let cond = no_conditions\<lparr>cn_generation_match := generation\<rparr> in
        client_Copy ul gl (client_If NewClient (Some cond) (Some cond)) w path path
      else
        let cond = no_conditions\<lparr>cn_does_not_exist := True\<rparr> in
        client_Upload ul gl (client_If NewClient (Some cond) (Some cond)) w path genZero)"

text \<open>\<open>marshal\<close> is \<open>MarshalGrid\<close>.\<close>

definition lockGroup ::
    "url_lib \<Rightarrow> 's gcs_lib \<Rightarrow> (grid \<Rightarrow> string go) \<Rightarrow> 's world \<Rightarrow> url \<Rightarrow> int \<Rightarrow> obj_attrs answer \<times> 's world" where
  "lockGroup ul gl marshal w path generation =
     (case (if generation = 0 then marshal empty_grid else Inr []) of
        Inl _ \<Rightarrow> (Inl (OtherError ''marshal''), w)
      | Inr buf \<Rightarrow> Touch ul gl w path generation buf)"

text \<open>A dashboard's first summary; \<open>marshalled\<close> is the encoding of the empty one.\<close>

definition lockDashboard ::
    "url_lib \<Rightarrow> 's gcs_lib \<Rightarrow> string go \<Rightarrow> 's world \<Rightarrow> url \<Rightarrow> int \<Rightarrow> obj_attrs answer \<times> 's world" where
  "lockDashboard ul gl marshalled w path generation =
     (case (if generation = 0 then marshalled else Inr []) of
        Inl _ \<Rightarrow> (Inl (OtherError ''marshal''), w)
      | Inr buf \<Rightarrow> Touch ul gl w path generation buf)"

section \<open>The first states of the groups\<close>

definition TestGroupPath :: "url_lib \<Rightarrow> url \<Rightarrow> string \<Rightarrow> string \<Rightarrow> url go" where
  "TestGroupPath ul g gridPrefix groupName =
     (let name = path_Join [gridPrefix, groupName] in
      go_bind (wrap_error (''invalid url '' @ name @ '': '') (ul_parse ul name)) (\<lambda>u.
      go_bind (wrap_error ''resolve reference: '' (ResolveReference ul g u)) (\<lambda>np.
      if Bucket np \<noteq> Bucket g
      then Inl (Failed (''testGroup '' @ name @ '' should not change bucket'')) else Inr np)))"

definition gridPaths :: "url_lib \<Rightarrow> url \<Rightarrow> string \<Rightarrow> test_group list \<Rightarrow> url list go" where
  "gridPaths ul configPath gridPrefix groups =
     go_map (\<lambda>tg. wrap_error (tg_name tg @ '' bad group path: '')
       (TestGroupPath ul configPath gridPrefix (tg_name tg))) groups"

text \<open>
  What \<open>fixOnce\<close> writes: a first state for every path whose attributes have generation zero.  The
  goroutines that write act on one path each; their errors are logged.
\<close>

definition first_states ::
    "url_lib \<Rightarrow> 's gcs_lib \<Rightarrow> (grid \<Rightarrow> string go) \<Rightarrow> 's world \<Rightarrow> url list \<Rightarrow> 's world" where
  "first_states ul gl marshal w paths =
     foldl (\<lambda>w p. snd (lockGroup ul gl marshal w p 0)) w
       (map snd (filter (\<lambda>(a, p). map_option at_generation a = Some 0)
         (zip (StatExisting (map stat_of (Stat ul gl w paths))) paths)))"

text \<open>The whole of \<open>fixOnce\<close>, with the storage it reads and writes.\<close>

definition fixOnce_stored ::
    "url_lib \<Rightarrow> 's gcs_lib \<Rightarrow> (grid \<Rightarrow> string go) \<Rightarrow> url \<Rightarrow> string \<Rightarrow> int \<Rightarrow> (nat \<Rightarrow> int) \<Rightarrow> int \<Rightarrow>
     test_group list \<Rightarrow> test_group_queue \<Rightarrow> 's world \<Rightarrow> (string list \<times> test_group_queue) go \<times> 's world" where
  "fixOnce_stored ul gl marshal configPath gridPrefix freq now now_init groups q w =
     (case gridPaths ul configPath gridPrefix groups of
        Inl e \<Rightarrow> (Inl e, w)
      | Inr paths \<Rightarrow>
          (fixOnce freq now now_init (Inr (map stat_of (Stat ul gl w paths))) groups q,
           first_states ul gl marshal w paths))"

section \<open>What a client promises\<close>

text \<open>
  An upload that succeeds is what a later read of the same place gives, and nothing else changes.
\<close>

locale storage_client =
  fixes open_at :: "'w \<Rightarrow> url \<Rightarrow> string answer"
    and upload_to :: "'w \<Rightarrow> url \<Rightarrow> string \<Rightarrow> obj_attrs answer \<times> 'w"
    and place :: "url \<Rightarrow> 'k"
  assumes open_uploaded: "upload_to w p buf = (Inr a, w') \<Longrightarrow> place q = place p \<Longrightarrow> open_at w' q = Inr buf"
    and open_other: "place q \<noteq> place p \<Longrightarrow> open_at (snd (upload_to w p buf)) q = open_at w q"
    and open_failed: "upload_to w p buf = (Inl e, w') \<Longrightarrow> open_at w' q = open_at w q"
begin

lemma open_upload:
  "open_at (snd (upload_to w p buf)) q =
     (if place q = place p \<and> (\<exists>a. fst (upload_to w p buf) = Inr a) then Inr buf else open_at w q)"
proof (cases "upload_to w p buf")
  case (Pair r w')
  then show ?thesis
    using open_uploaded [of w p buf _ w' q] open_other [of q p w buf] open_failed [of w p buf _ w' q]
    by (cases r) auto
qed

lemma open_unless_uploaded:
  assumes "\<forall>(p, buf) \<in> set ups. place q \<noteq> place p"
  shows "open_at (foldl (\<lambda>w (p, buf). snd (upload_to w p buf)) w ups) q = open_at w q"
  using assms
proof (induction ups arbitrary: w)
  case (Cons u ups)
  obtain p buf where u: "u = (p, buf)" by (cases u)
  have "open_at (snd (upload_to w p buf)) q = open_at w q" using Cons.prems open_other by (simp add: u)
  moreover have "\<forall>(p, buf) \<in> set ups. place q \<noteq> place p" using Cons.prems by simp
  ultimately show ?case using Cons.IH [of "snd (upload_to w p buf)"] by (simp add: u)
qed simp

lemma open_same_uploads:
  assumes "\<forall>(p, buf) \<in> set ups. place q = place p \<longrightarrow> buf = content"
    and "open_at w q = Inr content"
  shows "open_at (foldl (\<lambda>w (p, buf). snd (upload_to w p buf)) w ups) q = Inr content"
  using assms
proof (induction ups arbitrary: w)
  case (Cons u ups)
  obtain p buf where u: "u = (p, buf)" by (cases u)
  have "open_at (snd (upload_to w p buf)) q = Inr content" using Cons.prems by (simp add: u open_upload)
  then show ?case using Cons.IH [of "snd (upload_to w p buf)"] Cons.prems(1) by (simp add: u)
qed simp

end

interpretation local: storage_client "local_Open ul" "local_Upload ul" "cleanFilepath ul" for ul
  by unfold_locales
    (auto simp: local_Upload_def local_Open_def local_Stat_def Let_def update_conv split: if_splits option.splits)

section \<open>What cloud storage promises\<close>

definition cond_holds :: "conditions option \<Rightarrow> (string \<times> int) option \<Rightarrow> bool" where
  "cond_holds c ob =
     (case c of None \<Rightarrow> True
      | Some c \<Rightarrow>
          (cn_generation_match c \<noteq> 0 \<longrightarrow> map_option snd ob = Some (cn_generation_match c)) \<and>
          (cn_generation_not_match c \<noteq> 0 \<longrightarrow> map_option snd ob \<noteq> Some (cn_generation_not_match c)) \<and>
          (cn_does_not_exist c \<longrightarrow> ob = None))"

definition generation_of :: "(string \<times> int) option \<Rightarrow> int" where
  "generation_of ob = (case ob of None \<Rightarrow> 0 | Some (buf, g) \<Rightarrow> g)"

text \<open>
  \<open>obj\<close> is what a state of the service holds: contents and generation by bucket and name.  \<open>used\<close> are
  the generations the service has given to a name so far.  A write that succeeds met its conditions and
  gave the object a generation that was never used for its name (nothing says that it is greater than the
  ones before); a write that fails leaves every object as it was.
\<close>

definition gcs_reads :: "'s gcs_lib \<Rightarrow> ('s \<Rightarrow> string \<times> string \<Rightarrow> (string \<times> int) option) \<Rightarrow> bool" where
  "gcs_reads gl obj \<longleftrightarrow>
     (\<forall>s b n. case obj s (b, n) of
        None \<Rightarrow> gl_read gl s None b n = Inl ErrObjectNotExist \<and> gl_attrs gl s None b n = Inl ErrObjectNotExist
      | Some (buf, g) \<Rightarrow> 0 < g \<and> (\<exists>a. gl_read gl s None b n = Inr (buf, a) \<and> ob_generation a = g) \<and>
          (\<exists>a. gl_attrs gl s None b n = Inr a \<and> ob_generation a = g))"

definition written :: "(string \<times> string \<Rightarrow> (string \<times> int) option) \<Rightarrow> string \<times> string \<Rightarrow> string \<Rightarrow> obj_attrs \<Rightarrow>
    (string \<times> string \<Rightarrow> (string \<times> int) option) \<Rightarrow> bool" where
  "written ob k buf a ob' \<longleftrightarrow> ob' = ob(k := Some (buf, ob_generation a))"

definition uses_known :: "('s \<Rightarrow> string \<times> string \<Rightarrow> (string \<times> int) option) \<Rightarrow> ('s \<Rightarrow> string \<times> string \<Rightarrow> int set) \<Rightarrow> bool" where
  "uses_known obj used \<longleftrightarrow> (\<forall>s k. 0 \<in> used s k \<and> generation_of (obj s k) \<in> used s k)"

definition gcs_uses ::
    "'s gcs_lib \<Rightarrow> ('s \<Rightarrow> string \<times> string \<Rightarrow> (string \<times> int) option) \<Rightarrow> ('s \<Rightarrow> string \<times> string \<Rightarrow> int set) \<Rightarrow> bool" where
  "gcs_uses gl obj used \<longleftrightarrow> uses_known obj used \<and>
     (\<forall>s c b n buf. case gl_write gl s c b n buf of (r, s') \<Rightarrow>
        (\<forall>k. used s k \<subseteq> used s' k) \<and>
        (case r of
           Inl e \<Rightarrow> obj s' = obj s
         | Inr a \<Rightarrow> cond_holds c (obj s (b, n)) \<and> written (obj s) (b, n) buf a (obj s') \<and>
             ob_generation a \<notin> used s (b, n))) \<and>
     (\<forall>s rc from wc to. case gl_copy gl s rc from wc to of (r, s') \<Rightarrow>
        (\<forall>k. used s k \<subseteq> used s' k) \<and>
        (case r of
           Inl e \<Rightarrow> obj s' = obj s
         | Inr a \<Rightarrow> cond_holds rc (obj s from) \<and> cond_holds wc (obj s to) \<and>
             (\<exists>buf g. obj s from = Some (buf, g) \<and> written (obj s) to buf a (obj s')) \<and>
             ob_generation a \<notin> used s to))"

definition gcs_writes :: "'s gcs_lib \<Rightarrow> ('s \<Rightarrow> string \<times> string \<Rightarrow> (string \<times> int) option) \<Rightarrow> bool" where
  "gcs_writes gl obj \<longleftrightarrow> (\<exists>used. gcs_uses gl obj used)"

definition gcs_contract :: "'s gcs_lib \<Rightarrow> ('s \<Rightarrow> string \<times> string \<Rightarrow> (string \<times> int) option) \<Rightarrow> bool" where
  "gcs_contract gl obj \<longleftrightarrow> gcs_reads gl obj \<and> gcs_writes gl obj"

lemma gl_write_uses:
  assumes "gcs_uses gl obj used" "gl_write gl s c b n buf = (r, s')"
  shows "used s k \<subseteq> used s' k"
    and "(\<exists>e. r = Inl e \<and> obj s' = obj s) \<or>
      (\<exists>a. r = Inr a \<and> cond_holds c (obj s (b, n)) \<and> written (obj s) (b, n) buf a (obj s') \<and>
         ob_generation a \<notin> used s (b, n))"
proof -
  note x = assms(1) [unfolded gcs_uses_def, THEN conjunct2, THEN conjunct1, THEN spec [of _ s], THEN spec [of _ c],
      THEN spec [of _ b], THEN spec [of _ n], THEN spec [of _ buf], unfolded assms(2) prod.case]
  from x [THEN conjunct1] show "used s k \<subseteq> used s' k" by blast
  note y = x [THEN conjunct2]
  show "(\<exists>e. r = Inl e \<and> obj s' = obj s) \<or>
      (\<exists>a. r = Inr a \<and> cond_holds c (obj s (b, n)) \<and> written (obj s) (b, n) buf a (obj s') \<and>
         ob_generation a \<notin> used s (b, n))"
  proof (cases r)
    case (Inl e)
    with y show ?thesis by simp
  next
    case (Inr a)
    from y [unfolded Inr sum.case] Inr show ?thesis by blast
  qed
qed

lemma gl_copy_uses:
  assumes "gcs_uses gl obj used" "gl_copy gl s rc from wc to = (r, s')"
  shows "used s k \<subseteq> used s' k"
    and "(\<exists>e. r = Inl e \<and> obj s' = obj s) \<or>
      (\<exists>a buf g. r = Inr a \<and> cond_holds rc (obj s from) \<and> cond_holds wc (obj s to) \<and> obj s from = Some (buf, g) \<and>
         written (obj s) to buf a (obj s') \<and> ob_generation a \<notin> used s to)"
proof -
  note x = assms(1) [unfolded gcs_uses_def, THEN conjunct2, THEN conjunct2, THEN spec [of _ s], THEN spec [of _ rc],
      THEN spec [of _ "from"], THEN spec [of _ wc], THEN spec [of _ to], unfolded assms(2) prod.case]
  from x [THEN conjunct1] show "used s k \<subseteq> used s' k" by blast
  note y = x [THEN conjunct2]
  show "(\<exists>e. r = Inl e \<and> obj s' = obj s) \<or>
      (\<exists>a buf g. r = Inr a \<and> cond_holds rc (obj s from) \<and> cond_holds wc (obj s to) \<and> obj s from = Some (buf, g) \<and>
         written (obj s) to buf a (obj s') \<and> ob_generation a \<notin> used s to)"
  proof (cases r)
    case (Inl e)
    with y show ?thesis by simp
  next
    case (Inr a)
    from y [unfolded Inr sum.case] Inr show ?thesis by blast
  qed
qed

lemma gl_write_cases:
  assumes "gcs_writes gl obj" "gl_write gl s c b n buf = (r, s')"
  shows "(\<exists>e. r = Inl e \<and> obj s' = obj s) \<or>
    (\<exists>a. r = Inr a \<and> cond_holds c (obj s (b, n)) \<and> written (obj s) (b, n) buf a (obj s'))"
proof -
  from assms(1) obtain used where "gcs_uses gl obj used" unfolding gcs_writes_def by blast
  from gl_write_uses(2) [OF this assms(2)] show ?thesis by blast
qed

lemma gl_copy_cases:
  assumes "gcs_writes gl obj" "gl_copy gl s rc from wc to = (r, s')"
  shows "(\<exists>e. r = Inl e \<and> obj s' = obj s) \<or>
    (\<exists>a buf g. r = Inr a \<and> cond_holds rc (obj s from) \<and> cond_holds wc (obj s to) \<and> obj s from = Some (buf, g) \<and>
       written (obj s) to buf a (obj s'))"
proof -
  from assms(1) obtain used where "gcs_uses gl obj used" unfolding gcs_writes_def by blast
  from gl_copy_uses(2) [OF this assms(2)] show ?thesis by blast
qed

text \<open>An object that changes gets a generation that its name never had.\<close>

definition renewed :: "('s \<Rightarrow> string \<times> string \<Rightarrow> (string \<times> int) option) \<Rightarrow> ('s \<Rightarrow> string \<times> string \<Rightarrow> int set) \<Rightarrow>
    string \<times> string \<Rightarrow> 's \<Rightarrow> 's \<Rightarrow> bool" where
  "renewed obj used k s s' \<longleftrightarrow> used s k \<subseteq> used s' k \<and>
     (obj s' k = obj s k \<or> generation_of (obj s' k) \<notin> used s k)"

lemma renewed_refl: "renewed obj used k s s"
  by (simp add: renewed_def)

lemma renewed_trans: "renewed obj used k s s1 \<Longrightarrow> renewed obj used k s1 s2 \<Longrightarrow> renewed obj used k s s2"
  by (auto simp: renewed_def)

lemma renewed_write:
  "gcs_uses gl obj used \<Longrightarrow> gl_write gl s c b n buf = (r, s') \<Longrightarrow> renewed obj used k s s'"
  using gl_write_uses [of gl obj used s c b n buf r s'] by (auto simp: renewed_def written_def generation_of_def simp del: split_paired_All split: if_splits)

lemma renewed_copy:
  "gcs_uses gl obj used \<Longrightarrow> gl_copy gl s rc from wc to = (r, s') \<Longrightarrow> renewed obj used k s s'"
  using gl_copy_uses [of gl obj used s rc "from" wc to r s'] by (auto simp: renewed_def written_def generation_of_def simp del: split_paired_All split: if_splits)

lemma renewed_same:
  "uses_known obj used \<Longrightarrow> renewed obj used k s s' \<Longrightarrow> generation_of (obj s' k) = generation_of (obj s k) \<Longrightarrow>
   obj s' k = obj s k"
  by (auto simp: renewed_def uses_known_def simp del: split_paired_All)

lemma gl_read_same:
  assumes "gcs_reads gl obj" "obj s (b, n) = obj s' (b', n')"
  shows "map_sum id fst (gl_read gl s None b n) = map_sum id fst (gl_read gl s' None b' n')"
proof -
  have r: "case obj s (b, n) of None \<Rightarrow> gl_read gl s None b n = Inl ErrObjectNotExist
    | Some (buf, g) \<Rightarrow> \<exists>a. gl_read gl s None b n = Inr (buf, a)" for s b n
    using assms(1) [unfolded gcs_reads_def, THEN spec [of _ s], THEN spec [of _ b], THEN spec [of _ n]]
    by (auto split: option.splits)
  from r [of s b n] r [of s' b' n'] assms(2) show ?thesis
    by (auto split: option.splits)
qed

text \<open>Where a path leads: a bucket and a name, or the name of a file.\<close>

definition client_place :: "url_lib \<Rightarrow> url \<Rightarrow> (string \<times> string) option \<times> string" where
  "client_place ul p =
     (if is_cloud p then (Some (Bucket p, Object p), []) else (None, cleanFilepath ul p))"

lemma real_Open_plain: "real_Open gl NewClient s p = map_sum id fst (gl_read gl s None (Bucket p) (Object p))"
  by (auto simp: real_Open_def NewClient_def split: sum.split)

lemma client_storage:
  assumes "gcs_contract gl obj"
  shows "storage_client (client_Open ul gl NewClient) (client_Upload ul gl cl) (client_place ul)"
proof
  have rd: "gcs_reads gl obj" and wr: "gcs_writes gl obj" using assms by (simp_all add: gcs_contract_def)
  have eq: "real_Open gl NewClient s' q = real_Open gl NewClient s q" if "obj s' (Bucket q, Object q) = obj s (Bucket q, Object q)"
    for s s' q
    using gl_read_same [OF rd that] by (simp add: real_Open_plain)
  {
    fix w p buf a q and w' :: "'a world"
    assume u: "client_Upload ul gl cl w p buf = (Inr a, w')" "client_place ul q = client_place ul p"
    show "client_Open ul gl NewClient w' q = Inr buf"
    proof (cases "is_cloud p")
      case True
      with u(2) have q: "is_cloud q" "Bucket q = Bucket p" "Object q = Object p"
        by (simp_all add: client_place_def split: if_splits)
      obtain r s' where s': "gl_write gl (wd_cloud w) (cl_write cl) (Bucket p) (Object p) buf = (r, s')" by fastforce
      with True u(1) have r: "r = Inr a" "wd_cloud w' = s'"
        by (auto simp: client_Upload_def on_cloud_def)
      from gl_write_cases [OF wr s'] r(1) have "obj s' (Bucket p, Object p) = Some (buf, ob_generation a)"
        by (auto simp: written_def)
      then have "\<exists>a. gl_read gl s' None (Bucket p) (Object p) = Inr (buf, a)"
        using rd [unfolded gcs_reads_def, rule_format, of s' "Bucket p" "Object p"] by auto
      then show ?thesis using q r(2) by (auto simp: client_Open_def real_Open_plain)
    next
      case False
      obtain r d' where d': "local_Upload ul (wd_disk w) p buf = (r, d')" by fastforce
      with False u have "r = Inr a" "w' = w\<lparr>wd_disk := d'\<rparr>" "\<not> is_cloud q" "cleanFilepath ul q = cleanFilepath ul p"
        by (auto simp: client_place_def client_Upload_def on_disk_def split: if_splits)
      with d' local.open_uploaded [of ul "wd_disk w" p buf a d' q] show ?thesis
        by (simp add: client_Open_def)
    qed
  next
    fix q p buf and w :: "'a world"
    assume n: "client_place ul q \<noteq> client_place ul p"
    show "client_Open ul gl NewClient (snd (client_Upload ul gl cl w p buf)) q = client_Open ul gl NewClient w q"
    proof (cases "is_cloud p")
      case True
      obtain r s' where s': "gl_write gl (wd_cloud w) (cl_write cl) (Bucket p) (Object p) buf = (r, s')" by fastforce
      have "obj s' (Bucket q, Object q) = obj (wd_cloud w) (Bucket q, Object q)" if "is_cloud q"
        using gl_write_cases [OF wr s'] n True that by (auto simp: written_def client_place_def)
      then have "is_cloud q \<Longrightarrow> real_Open gl NewClient s' q = real_Open gl NewClient (wd_cloud w) q" by (rule eq)
      moreover have "snd (client_Upload ul gl cl w p buf) = w\<lparr>wd_cloud := s'\<rparr>"
        using True s' by (simp add: client_Upload_def on_cloud_def)
      ultimately show ?thesis by (simp add: client_Open_def)
    next
      case False
      then have "\<not> is_cloud q \<Longrightarrow> cleanFilepath ul q \<noteq> cleanFilepath ul p" using n by (simp add: client_place_def)
      with False local.open_other [of ul q p "wd_disk w" buf] show ?thesis
        by (simp add: client_Upload_def client_Open_def on_disk_def)
    qed
  next
    fix w p buf e q and w' :: "'a world"
    assume u: "client_Upload ul gl cl w p buf = (Inl e, w')"
    show "client_Open ul gl NewClient w' q = client_Open ul gl NewClient w q"
    proof (cases "is_cloud p")
      case True
      obtain r s' where s': "gl_write gl (wd_cloud w) (cl_write cl) (Bucket p) (Object p) buf = (r, s')" by fastforce
      with True u have r: "r = Inl e" "w' = w\<lparr>wd_cloud := s'\<rparr>"
        by (auto simp: client_Upload_def on_cloud_def)
      from gl_write_cases [OF wr s'] r(1) have "obj s' = obj (wd_cloud w)" by auto
      then have "real_Open gl NewClient s' q = real_Open gl NewClient (wd_cloud w) q" by (intro eq) simp
      then show ?thesis by (simp add: client_Open_def r(2))
    next
      case False
      obtain r d' where d': "local_Upload ul (wd_disk w) p buf = (r, d')" by fastforce
      with False u have "r = Inl e" "w' = w\<lparr>wd_disk := d'\<rparr>"
        by (auto simp: client_Upload_def on_disk_def)
      with d' local.open_failed [of ul "wd_disk w" p buf e d' q] show ?thesis
        by (simp add: client_Open_def)
    qed
  }
qed

section \<open>Locks\<close>

text \<open>What updaters do to storage: attempts to lock an object at a generation, and writes.\<close>

datatype storage_step = Attempt url int string | Write url string

definition storage_step_run ::
    "url_lib \<Rightarrow> 's gcs_lib \<Rightarrow> 's world \<Rightarrow> storage_step \<Rightarrow> obj_attrs answer \<times> 's world" where
  "storage_step_run ul gl w st =
     (case st of Attempt p g buf \<Rightarrow> Touch ul gl w p g buf | Write p buf \<Rightarrow> client_Upload ul gl NewClient w p buf)"

fun storage_steps ::
    "url_lib \<Rightarrow> 's gcs_lib \<Rightarrow> 's world \<Rightarrow> storage_step list \<Rightarrow> obj_attrs answer list \<times> 's world" where
  "storage_steps ul gl w [] = ([], w)"
| "storage_steps ul gl w (st # sts) =
     (case storage_step_run ul gl w st of
        (r, w') \<Rightarrow> (case storage_steps ul gl w' sts of (rs, w'') \<Rightarrow> (r # rs, w'')))"

definition won :: "string \<times> string \<Rightarrow> int \<Rightarrow> storage_step \<times> obj_attrs answer \<Rightarrow> bool" where
  "won k g x \<longleftrightarrow>
     (case x of (Attempt p g' buf, Inr a) \<Rightarrow> is_cloud p \<and> (Bucket p, Object p) = k \<and> g' = g | _ \<Rightarrow> False)"

lemma upload_renewed:
  assumes "gcs_uses gl obj used" "client_Upload ul gl c w p buf = (r, w')"
  shows "renewed obj used k (wd_cloud w) (wd_cloud w')"
proof (cases "is_cloud p")
  case True
  obtain r1 s' where s: "gl_write gl (wd_cloud w) (cl_write c) (Bucket p) (Object p) buf = (r1, s')" by fastforce
  with True assms(2) have w': "wd_cloud w' = s'" by (auto simp: client_Upload_def on_cloud_def)
  from renewed_write [OF assms(1) s] show ?thesis unfolding w' .
next
  case False
  with assms(2) show ?thesis by (auto simp: client_Upload_def on_disk_def renewed_refl)
qed

lemma touch_renewed:
  assumes "gcs_uses gl obj used" "Touch ul gl w p g buf = (r, w')"
  shows "renewed obj used k (wd_cloud w) (wd_cloud w')"
proof (cases "g = 0")
  case True
  with assms upload_renewed show ?thesis by (simp add: Touch_def Let_def) blast
next
  case False
  let ?c = "Some (no_conditions\<lparr>cn_generation_match := g\<rparr>)"
  obtain r1 s' where s: "gl_copy gl (wd_cloud w) ?c (Bucket p, Object p) ?c (Bucket p, Object p) = (r1, s')" by fastforce
  show ?thesis
    using assms(2) False s renewed_copy [OF assms(1) s, of k]
    by (auto simp: Touch_def Let_def client_Copy_def on_disk_def on_cloud_def client_If_def renewed_refl split: if_splits)
qed

text \<open>An attempt that wins finds the object at its generation and gives it one that was never used.\<close>

lemma attempt_generation:
  assumes us: "gcs_uses gl obj used" and t: "Touch ul gl w p g buf = (Inr a, w')" and p: "is_cloud p"
  defines "k \<equiv> (Bucket p, Object p)"
  shows "map_option snd (obj (wd_cloud w) k) = (if g = 0 then None else Some g) \<and>
    generation_of (obj (wd_cloud w') k) \<notin> used (wd_cloud w) k"
proof (cases "g = 0")
  case True
  let ?c = "Some (no_conditions\<lparr>cn_does_not_exist := True\<rparr>)"
  obtain r1 s' where s: "gl_write gl (wd_cloud w) ?c (Bucket p) (Object p) buf = (r1, s')" by fastforce
  with t True p have "wd_cloud w' = s'" "r1 = Inr a"
    by (auto simp: Touch_def Let_def client_Upload_def on_cloud_def client_If_def)
  with gl_write_uses(2) [OF us s] True show ?thesis
    by (auto simp: k_def written_def cond_holds_def no_conditions_def generation_of_def)
next
  case False
  let ?c = "Some (no_conditions\<lparr>cn_generation_match := g\<rparr>)"
  obtain r1 s' where s: "gl_copy gl (wd_cloud w) ?c k ?c k = (r1, s')" by fastforce
  with t False p have "wd_cloud w' = s'" "r1 = Inr a"
    by (auto simp: k_def Touch_def Let_def client_Copy_def on_cloud_def client_If_def)
  with gl_copy_uses(2) [OF us s] False show ?thesis
    by (auto simp: written_def cond_holds_def no_conditions_def generation_of_def)
qed

lemma step_renewed:
  "gcs_uses gl obj used \<Longrightarrow> storage_step_run ul gl w st = (r, w') \<Longrightarrow> renewed obj used k (wd_cloud w) (wd_cloud w')"
  by (auto simp: storage_step_run_def touch_renewed upload_renewed split: storage_step.splits)

lemma step_won:
  assumes "gcs_uses gl obj used" "storage_step_run ul gl w st = (r, w')" "won k g (st, r)"
  shows "map_option snd (obj (wd_cloud w) k) = (if g = 0 then None else Some g)"
    and "generation_of (obj (wd_cloud w') k) \<notin> used (wd_cloud w) k"
proof -
  from assms(3) obtain p buf a where "st = Attempt p g buf" "r = Inr a" "is_cloud p" "k = (Bucket p, Object p)"
    by (auto simp: won_def split: storage_step.splits sum.splits)
  with attempt_generation [OF assms(1), of ul w p g buf a w'] assms(2)
  show "map_option snd (obj (wd_cloud w) k) = (if g = 0 then None else Some g)"
    "generation_of (obj (wd_cloud w') k) \<notin> used (wd_cloud w) k" by (simp_all add: storage_step_run_def)
qed

lemma storage_steps_found:
  assumes us: "gcs_uses gl obj used" and "storage_steps ul gl w sts = (rs, w')"
  shows "length rs = length sts \<and>
    (\<forall>i < length sts. won k g (sts ! i, rs ! i) \<longrightarrow>
       map_option snd (obj (wd_cloud (snd (storage_steps ul gl w (take i sts)))) k) = (if g = 0 then None else Some g))"
  using assms(2)
proof (induction sts arbitrary: w rs)
  case (Cons st sts)
  obtain r w1 where st: "storage_step_run ul gl w st = (r, w1)" by fastforce
  obtain rs1 where rest: "storage_steps ul gl w1 sts = (rs1, w')" and rs: "rs = r # rs1"
    using st Cons.prems by (auto split: prod.splits)
  have next1: "snd (storage_steps ul gl w (st # xs)) = snd (storage_steps ul gl w1 xs)" for xs
    by (simp add: st split: prod.split)
  show ?case
    using Cons.IH [OF rest] step_won(1) [OF us st, of k g]
    by (auto simp: rs nth_Cons next1 simp del: storage_steps.simps(2) split: nat.split)
qed simp

lemma storage_steps_won:
  assumes us: "gcs_uses gl obj used" and "storage_steps ul gl w sts = (rs, w')"
  shows "(g \<in> used (wd_cloud w) k \<and> generation_of (obj (wd_cloud w) k) \<noteq> g \<longrightarrow> filter (won k g) (zip sts rs) = []) \<and>
    length (filter (won k g) (zip sts rs)) \<le> 1"
  using assms(2)
proof (induction sts arbitrary: w rs)
  case (Cons st sts)
  obtain r w1 where st: "storage_step_run ul gl w st = (r, w1)" by fastforce
  obtain rs1 where rest: "storage_steps ul gl w1 sts = (rs1, w')" and rs: "rs = r # rs1"
    using st Cons.prems by (auto split: prod.splits)
  have known: "uses_known obj used" using us by (simp add: gcs_uses_def)
  note IH = Cons.IH [OF rest]
  note new = step_renewed [OF us st, of k]
  show ?case
  proof (cases "won k g (st, r)")
    case True
    note win = step_won [OF us st True]
    have g: "generation_of (obj (wd_cloud w) k) = g"
      using win(1) by (auto simp: generation_of_def split: if_splits option.splits)
    then have "g \<in> used (wd_cloud w) k" using known by (auto simp: uses_known_def simp del: split_paired_All)
    then have "g \<in> used (wd_cloud w1) k" "generation_of (obj (wd_cloud w1) k) \<noteq> g"
      using new win(2) by (auto simp: renewed_def)
    with IH g show ?thesis by (simp add: rs)
  next
    case False
    have "g \<in> used (wd_cloud w) k \<and> generation_of (obj (wd_cloud w) k) \<noteq> g \<longrightarrow>
      g \<in> used (wd_cloud w1) k \<and> generation_of (obj (wd_cloud w1) k) \<noteq> g"
      using new by (auto simp: renewed_def)
    with IH False show ?thesis by (simp add: rs)
  qed
qed simp

section \<open>First states\<close>

lemma lock_first:
  "marshal empty_grid = Inr buf \<Longrightarrow>
   lockGroup ul gl marshal w p 0 =
     client_Upload ul gl (client_If NewClient (Some (no_conditions\<lparr>cn_does_not_exist := True\<rparr>))
       (Some (no_conditions\<lparr>cn_does_not_exist := True\<rparr>))) w p buf"
  by (simp add: lockGroup_def Touch_def Let_def)

text \<open>
  On the local disk a lock is an upload: the client drops the conditions, and the attributes of every
  file have generation zero.
\<close>

lemma lock_first_local:
  assumes "marshal empty_grid = Inr buf" "\<not> is_cloud p"
  shows "wd_disk (snd (lockGroup ul gl marshal w p 0)) = snd (local_Upload ul (wd_disk w) p buf)"
  using assms by (simp add: lock_first client_Upload_def on_disk_def)

lemma lock_first_cloud:
  assumes "marshal empty_grid = Inr buf" "is_cloud p"
  shows "wd_disk (snd (lockGroup ul gl marshal w p 0)) = wd_disk w"
  using assms by (simp add: lock_first client_Upload_def on_cloud_def)

lemma locks_local:
  assumes "marshal empty_grid = Inr buf"
  shows "wd_disk (foldl (\<lambda>w p. snd (lockGroup ul gl marshal w p 0)) w ps) =
    foldl (\<lambda>d (p, buf). snd (local_Upload ul d p buf)) (wd_disk w)
      (map (\<lambda>p. (p, buf)) (filter (\<lambda>p. \<not> is_cloud p) ps))"
proof (induction ps arbitrary: w)
  case (Cons p ps)
  then show ?case
    using lock_first_local [where marshal = marshal and gl = gl and ul = ul, OF assms]
      lock_first_cloud [where marshal = marshal and gl = gl and ul = ul, OF assms] by simp
qed simp

lemma refused_upload: "dk_refused (snd (local_Upload ul d p buf)) = dk_refused d"
  by (simp add: local_Upload_def Let_def)

lemma uploads_same_content:
  assumes "q \<in> set ps" "\<not> dk_refused d (cleanFilepath ul q)"
  shows "local_Open ul (foldl (\<lambda>d (p, buf). snd (local_Upload ul d p buf)) d (map (\<lambda>p. (p, buf)) ps)) q = Inr buf"
  using assms
proof (induction ps arbitrary: d)
  case (Cons p ps)
  let ?d = "snd (local_Upload ul d p buf)"
  show ?case
  proof (cases "q \<in> set ps")
    case True
    with Cons.IH [of ?d] Cons.prems(2) show ?thesis by (simp add: refused_upload)
  next
    case False
    then have q: "q = p" using Cons.prems(1) by simp
    have "local_Open ul ?d q = Inr buf"
      using Cons.prems(2) by (simp add: q local_Upload_def local_Open_def Let_def update_conv)
    then have "local_Open ul (foldl (\<lambda>d (p, buf). snd (local_Upload ul d p buf)) ?d (map (\<lambda>p. (p, buf)) ps)) q = Inr buf"
      by (intro local.open_same_uploads) auto
    then show ?thesis by simp
  qed
qed simp

lemma zero_generation:
  assumes "p \<in> set paths" "client_Stat ul gl NewClient w p = Inr a" "ob_generation a = 0"
  shows "p \<in> set (map snd (filter (\<lambda>(a, p). map_option at_generation a = Some 0)
    (zip (StatExisting (map stat_of (Stat ul gl w paths))) paths)))"
proof -
  have z: "zip (StatExisting (map stat_of (Stat ul gl w paths))) paths =
    map (\<lambda>p. (hd (StatExisting [stat_of (client_Stat ul gl NewClient w p)]), p)) paths"
    by (induction paths) (simp_all add: Stat_def StatExisting_def)
  have "map_option at_generation (hd (StatExisting [stat_of (client_Stat ul gl NewClient w p)])) = Some 0"
    using assms(2,3) by (simp add: StatExisting_def stat_of_def)
  with assms(1) show ?thesis unfolding z by force
qed

text \<open>The grid of every group on the local disk is replaced by the empty grid.\<close>

lemma first_states_local:
  assumes m: "marshal empty_grid = Inr buf" and p: "p \<in> set paths" "\<not> is_cloud p"
    and present: "local_Open ul (wd_disk w) p = Inr old" "\<not> dk_refused (wd_disk w) (cleanFilepath ul p)"
  shows "client_Open ul gl NewClient (first_states ul gl marshal w paths) p = Inr buf"
proof -
  let ?ps = "map snd (filter (\<lambda>(a, p). map_option at_generation a = Some 0)
    (zip (StatExisting (map stat_of (Stat ul gl w paths))) paths))"
  from present(1) obtain a where "client_Stat ul gl NewClient w p = Inr a" "ob_generation a = 0"
    using p(2) by (auto simp: client_Stat_def local_Open_def local_Stat_def objectAttrs_def split: option.splits)
  from zero_generation [OF p(1) this] p(2) have "p \<in> set (filter (\<lambda>p. \<not> is_cloud p) ?ps)" by (simp only: set_filter mem_Collect_eq not_False_eq_True simp_thms)
  from uploads_same_content [OF this present(2), of buf] p(2) show ?thesis
    unfolding first_states_def client_Open_def locks_local [where marshal = marshal, OF m] by simp
qed

text \<open>In cloud storage an object that is there keeps its contents.\<close>

lemma lock_first_kept:
  assumes wr: "gcs_writes gl obj" and "obj (wd_cloud w) k \<noteq> None"
  shows "obj (wd_cloud (snd (lockGroup ul gl marshal w p 0))) k = obj (wd_cloud w) k"
proof (cases "marshal empty_grid")
  case (Inr buf)
  show ?thesis
  proof (cases "is_cloud p")
    case True
    let ?c = "Some (no_conditions\<lparr>cn_does_not_exist := True\<rparr>)"
    obtain r s' where s: "gl_write gl (wd_cloud w) ?c (Bucket p) (Object p) buf = (r, s')" by fastforce
    have "obj s' k = obj (wd_cloud w) k"
      using gl_write_cases [OF wr s] assms(2)
      by (auto simp: written_def cond_holds_def fun_upd_def no_conditions_def split: if_splits)
    then show ?thesis using True s Inr by (simp add: lock_first client_Upload_def on_cloud_def client_If_def)
  qed (use Inr in \<open>simp add: lock_first client_Upload_def on_disk_def\<close>)
qed (simp add: lockGroup_def)

lemma first_states_kept:
  assumes "gcs_writes gl obj" "obj (wd_cloud w) k \<noteq> None"
  shows "obj (wd_cloud (first_states ul gl marshal w paths)) k = obj (wd_cloud w) k"
proof -
  have "obj (wd_cloud (foldl (\<lambda>w p. snd (lockGroup ul gl marshal w p 0)) w ps)) k = obj (wd_cloud w) k"
    if "obj (wd_cloud w) k \<noteq> None" for ps w
    using that
  proof (induction ps arbitrary: w)
    case (Cons p ps)
    then show ?case using lock_first_kept [OF assms(1), of w k ul marshal p] by simp
  qed simp
  then show ?thesis unfolding first_states_def using assms(2) by blast
qed

section \<open>Builds on the local disk\<close>

text \<open>A listed file has no prefix and no link, so it is never taken for a build.\<close>

lemma local_builds_none:
  assumes "local_Objects ul d path = Inr objs"
  shows "ListBuilds nl resolve_link new_path bucket offset objs = Inr []"
proof -
  have "oa_prefix x = [] \<and> oa_metadata x = []" if "x \<in> set objs" for x
  proof -
    from that obtain i where "i < length objs" "objs ! i = x" by (auto simp: in_set_conv_nth)
    moreover from assms obtain names p where run: "go_map (\<lambda>name. go_bind (NewPath ul (path_Join [p, name])) (\<lambda>q.
        Inr \<lparr>oa_name = Object q, oa_prefix = [], oa_metadata = []\<rparr>)) names = Inr objs"
      by (auto simp: local_Objects_def Let_def)
    ultimately obtain q where "\<lparr>oa_name = Object q, oa_prefix = [], oa_metadata = []\<rparr> = x"
      using go_map_nth [OF run, of i] go_map_length [OF run] by (auto simp: go_simps)
    then show ?thesis by (metis object_attrs.select_convs(2,3))
  qed
  then have "builds_of resolve_link new_path bucket objs = Inr []"
    by (induction objs) (simp_all add: readLink_def)
  then show ?thesis by (simp add: ListBuilds_def newer_than_def Sort_def)
qed

end
