(* ===== verification/Tab_Store.thy ===== *)
theory Tab_Store
  imports Storage Api_Routes Pipeline Config_Converge
begin

text \<open>
  The programs over one storage: the tabulator writes the state of a tab (\<open>createTabState\<close> of
  \<open>pkg/tabulator/tabstate.go\<close>), the summarizer writes the summary of a dashboard (\<open>updateName\<close> of
  \<open>pkg/summarizer/summary.go\<close>), and the server reads both.  A state that is shown must not have been
  overwritten: when the places of two tabs differ.

  Protocol buffers and compression are the arguments \<open>marshal\<close>, \<open>compress\<close> and the readers of the server.
\<close>

definition MarshalGrid :: "(grid \<Rightarrow> string go) \<Rightarrow> (string \<Rightarrow> string go) \<Rightarrow> grid \<Rightarrow> string go" where
  "MarshalGrid marshal compress g =
     go_bind (wrap_error ''marshal: '' (marshal g)) (\<lambda>buf. wrap_error ''compress: '' (compress buf))"

text \<open>A server whose reads come from a client.\<close>

definition opened :: "storage_error \<Rightarrow> go_error" where
  "opened e = Failed (case e of ErrObjectNotExist \<Rightarrow> ''storage: object doesn't exist''
     | PreconditionFailed \<Rightarrow> ''precondition failed'' | OtherError m \<Rightarrow> m)"

definition server_on :: "'s gcs_lib \<Rightarrow> 's world \<Rightarrow> server \<Rightarrow> server" where
  "server_on gl w s = s\<lparr>srv_open := \<lambda>p.
     (case client_Open (srv_urls s) gl NewClient w p of
        Inl ErrObjectNotExist \<Rightarrow> Inr None
      | Inl e \<Rightarrow> Inl (opened e)
      | Inr buf \<Rightarrow> Inr (Some (Inr buf)))\<rparr>"

section \<open>The tabulator\<close>

text \<open>
  \<open>createTabState\<close>; the server's record holds the decoders.  A grid that cannot be downloaded to be
  extended is an error.
\<close>

definition createTabState ::
    "server \<Rightarrow> 's gcs_lib \<Rightarrow> (grid \<Rightarrow> string go) \<Rightarrow> natural_less \<Rightarrow> regex \<Rightarrow> (nat \<Rightarrow> bool) \<Rightarrow> int \<Rightarrow>
     write_task \<Rightarrow> grid \<Rightarrow> url \<Rightarrow> string \<Rightarrow> bool \<Rightarrow> bool \<Rightarrow> bool \<Rightarrow> bool \<Rightarrow> 's world \<Rightarrow> unit go \<times> 's world" where
  "createTabState s gl marshal nl rx cancelled now task data cfgPath tabsPathPrefix confirm
       calculateStats useTabAlerts extendState w =
     (case TabStatePath (srv_urls s) cfgPath tabsPathPrefix (dash_name (wt_dashboard task)) (tab_name (wt_tab task)) of
        Inl e \<Rightarrow> (Inl e, w)
      | Inr location \<Rightarrow>
          (case go_bind (if extendState then wrap_error ''downloadGrid: '' (DownloadGrid (server_on gl w s) location)
                         else Inr None) (\<lambda>existingGrid.
                wrap_error ''tabulate: '' (tabulate nl rx cancelled now (Some data) (Some (wt_tab task)) (wt_group task)
                  calculateStats useTabAlerts existingGrid)) of
             Inl e \<Rightarrow> (Inl e, w)
           | Inr grid \<Rightarrow>
               if \<not> confirm then (Inr (), w)
               else (case wrap_error ''marshalGrid: '' (marshal grid) of
                  Inl e \<Rightarrow> (Inl e, w)
                | Inr buf \<Rightarrow>
                    (case client_Upload (srv_urls s) gl NewClient w location buf of
                       (Inl e, w') \<Rightarrow> (Inl (opened e), w')
                     | (Inr a, w') \<Rightarrow> (Inr (), w')))))"

text \<open>The workers of \<open>Update\<close> that write: a list of tasks with their grids, in the order they run.\<close>

fun write_tabs ::
    "(write_task \<Rightarrow> grid \<Rightarrow> 's world \<Rightarrow> unit go \<times> 's world) \<Rightarrow> (write_task \<times> grid) list \<Rightarrow> 's world \<Rightarrow>
     unit go list \<times> 's world" where
  "write_tabs create [] w = ([], w)"
| "write_tabs create ((task, data) # tasks) w =
     (case create task data w of (r, w') \<Rightarrow>
        (case write_tabs create tasks w' of (rs, w'') \<Rightarrow> (r # rs, w'')))"

section \<open>The summarizer\<close>

text \<open>
  Reading a grid for the summary of its tab; unlike \<open>DownloadGrid\<close> it fails where there is no object.
  \<open>modified\<close> is the time in the attributes of what was opened.
\<close>

definition readGrid ::
    "server \<Rightarrow> 's gcs_lib \<Rightarrow> (url \<Rightarrow> int option) \<Rightarrow> 's world \<Rightarrow> url \<Rightarrow> (grid \<times> int option) go" where
  "readGrid s gl modified w p =
     (case client_Open (srv_urls s) gl NewClient w p of
        Inl e \<Rightarrow> wrap_error ''open: client.Open(): '' (Inl (opened e))
      | Inr content \<Rightarrow>
          go_bind (wrap_error ''decompress: '' (srv_zlib s (Inr content))) (\<lambda>inflated.
          go_bind (wrap_error ''read: '' inflated) (\<lambda>buf.
          go_bind (wrap_error ''parse: '' (srv_grid s buf)) (\<lambda>g. Inr (g, modified p)))))"

definition writeSummary ::
    "url_lib \<Rightarrow> 's gcs_lib \<Rightarrow> (dashboard_summary \<Rightarrow> string go) \<Rightarrow> 's world \<Rightarrow> url \<Rightarrow> dashboard_summary \<Rightarrow>
     nat go \<times> 's world" where
  "writeSummary ul gl marshal w path summ =
     (case wrap_error ''marshal: '' (marshal summ) of
        Inl e \<Rightarrow> (Inl e, w)
      | Inr buf \<Rightarrow>
          (case client_Upload ul gl NewClient w path buf of
             (Inl e, w') \<Rightarrow> (Inl (opened e), w')
           | (Inr a, w') \<Rightarrow> (Inr (length buf), w')))"

text \<open>The path and the group of a tab; a tab whose group is missing has none.\<close>

definition findGroup ::
    "url_lib \<Rightarrow> (string, test_group) gomap \<Rightarrow> url \<Rightarrow> string \<Rightarrow> string \<Rightarrow> dashboard_tab \<Rightarrow>
     (url \<times> test_group) option go" where
  "findGroup ul groups cfgPath tabPrefix dash tab =
     (case map_of groups (tab_test_group_name tab) of
        None \<Rightarrow> Inr None
      | Some tg \<Rightarrow> go_bind (TabStatePath ul cfgPath tabPrefix dash (tab_name tab)) (\<lambda>p. Inr (Some (p, tg))))"

text \<open>
  \<open>updateName\<close>: the new summary of a dashboard, and whether there is more to do.  \<open>seconds\<close> turns a time of
  the attributes to seconds since the epoch.
\<close>

definition stat_seconds :: "server \<Rightarrow> 's gcs_lib \<Rightarrow> (int \<Rightarrow> int) \<Rightarrow> 's world \<Rightarrow> url list \<Rightarrow> string \<Rightarrow> int option" where
  "stat_seconds s gl seconds w paths name =
     (case find (\<lambda>p. ul_string (srv_urls s) p = name) paths of
        None \<Rightarrow> None
      | Some p \<Rightarrow> map_option (\<lambda>a. seconds (at_updated a))
          (hd (StatExisting [stat_of (client_Stat (srv_urls s) gl NewClient w p)])))"

definition tab_paths ::
    "url_lib \<Rightarrow> (string, test_group) gomap \<Rightarrow> url \<Rightarrow> string \<Rightarrow> dashboard \<Rightarrow> url list" where
  "tab_paths ul groups cfgPath tabPrefix dash =
     List.map_filter (\<lambda>tab. case findGroup ul groups cfgPath tabPrefix (dash_name dash) tab of
        Inr (Some (p, tg)) \<Rightarrow> Some p | _ \<Rightarrow> None) (dash_tabs dash)"

definition updated_summary ::
    "server \<Rightarrow> 's gcs_lib \<Rightarrow> (int \<Rightarrow> string) \<Rightarrow> (int \<Rightarrow> int) \<Rightarrow> (url \<Rightarrow> int option) \<Rightarrow> int \<Rightarrow> feature_flags \<Rightarrow>
     (string, test_group) gomap \<Rightarrow> url \<Rightarrow> string \<Rightarrow> nat option \<Rightarrow> dashboard \<Rightarrow> tab_summary list \<Rightarrow> 's world \<Rightarrow>
     (tab_summary option list \<times> bool) go" where
  "updated_summary s gl showTime seconds modified now features groups cfgPath tabPrefix grace dash previous w =
     updateDashboard dash previous
       (\<lambda>tab. go_bind (findGroup (srv_urls s) groups cfgPath tabPrefix (dash_name dash) tab)
          (\<lambda>x. Inr (map_option (\<lambda>(p, tg). (ul_string (srv_urls s) p, tg)) x)))
       (stat_seconds s gl seconds w (tab_paths (srv_urls s) groups cfgPath tabPrefix dash))
       (\<lambda>tab tg. updateTab showTime now features
          (go_bind (TabStatePath (srv_urls s) cfgPath tabPrefix (dash_name dash) (tab_name tab))
             (readGrid s gl modified w)) tab tg)
       grace"

definition updateName ::
    "server \<Rightarrow> 's gcs_lib \<Rightarrow> (dashboard_summary \<Rightarrow> string go) \<Rightarrow> (int \<Rightarrow> string) \<Rightarrow> (int \<Rightarrow> int) \<Rightarrow> (url \<Rightarrow> int option) \<Rightarrow>
     int \<Rightarrow> feature_flags \<Rightarrow> (string, dashboard) gomap \<Rightarrow> (string, test_group) gomap \<Rightarrow> url \<Rightarrow> string \<Rightarrow> string \<Rightarrow>
     bool \<Rightarrow> nat option \<Rightarrow> string \<Rightarrow> 's world \<Rightarrow> bool go \<times> 's world" where
  "updateName s gl marshal showTime seconds modified now features dashboards groups cfgPath tabPrefix
       summaryPrefix confirm grace dashName w =
     (case map_of dashboards dashName of
        None \<Rightarrow> (Inl (Failed ''dashboard not found''), w)
      | Some dash \<Rightarrow>
          (case go_bind (wrap_error ''summary path: '' (SummaryPath (srv_urls s) cfgPath summaryPrefix dashName))
                  (\<lambda>summaryPath. go_bind (wrap_error ''read: '' (ReadSummary (server_on gl w s) summaryPath)) (\<lambda>summ.
                   go_bind (updated_summary s gl showTime seconds modified now features groups cfgPath tabPrefix
                     grace dash (case summ of None \<Rightarrow> [] | Some x \<Rightarrow> ds_tab_summaries x) w) (\<lambda>r.
                   Inr (summaryPath, r)))) of
             Inl e \<Rightarrow> (Inl e, w)
           | Inr (summaryPath, summaries, todo) \<Rightarrow>
               if \<not> confirm then (Inr todo, w)
               else
                 (case writeSummary (srv_urls s) gl marshal w summaryPath \<lparr>ds_tab_summaries = map the summaries\<rparr> of
                    (Inl e, w') \<Rightarrow> (wrap_error ''write: '' (Inl e), w')
                  | (Inr n, w') \<Rightarrow> (Inr todo, w'))))"

section \<open>Different tabs, different places\<close>

text \<open>
  What \<open>net/url\<close> and the client do with names: below one prefix, names made of different plain elements
  of the characters that names may have are different places.
\<close>

definition resolves_apart :: "url_lib \<Rightarrow> url \<Rightarrow> string \<Rightarrow> bool" where
  "resolves_apart ul g prefix \<longleftrightarrow>
     (\<forall>n n' u u'. name_chars n \<and> name_chars n' \<and>
        list_all plain_part (str_split n ''/'') \<and> list_all plain_part (str_split n' ''/'') \<and>
        ul_parse ul (joined_prefix prefix @ n) = Inr u \<and> ul_parse ul (joined_prefix prefix @ n') = Inr u' \<and>
        client_place ul (ul_resolve ul g u) = client_place ul (ul_resolve ul g u') \<longrightarrow> n = n')"

lemma name_chars_append: "name_chars a \<Longrightarrow> name_chars b \<Longrightarrow> name_chars (a @ b)"
  by (induction a rule: name_chars.induct) (auto split: if_splits list.splits)

lemma valid_plain:
  assumes "validateName n = None" "CHR ''/'' \<notin> set n"
  shows "plain_part n \<and> name_chars n"
proof -
  from assms(1) have n: "n \<noteq> []" "name_chars n" "minNameLength \<le> length (Normalize n)"
    by (auto simp: validateName_def Let_def split: if_splits)
  have "Normalize ''.'' = []" "Normalize ''..'' = []" by code_simp+
  then have "n \<noteq> ''.''" "n \<noteq> ''..''" using n(3) by (auto simp: minNameLength_def)
  with n assms(2) show ?thesis by (simp add: plain_part_def)
qed

lemma TabStatePath_places:
  assumes apart: "resolves_apart ul g prefix"
    and names: "plain_part d \<and> name_chars d" "plain_part t \<and> name_chars t"
      "plain_part d' \<and> name_chars d'" "plain_part t' \<and> name_chars t'"
    and paths: "TabStatePath ul g prefix d t = Inr p" "TabStatePath ul g prefix d' t' = Inr p'"
    and same: "client_place ul p = client_place ul p'"
  shows "d = d' \<and> t = t'"
proof -
  let ?n = "d @ CHR ''/'' # t" and ?n' = "d' @ CHR ''/'' # t'"
  have s: "str_split ?n ''/'' = [d, t]" "str_split ?n' ''/'' = [d', t']"
    using names str_split_snoc str_split_plain by (simp_all add: plain_part_def)
  have c: "name_chars ?n" "name_chars ?n'"
    using names name_chars_append [of _ "CHR ''/'' # _"] by simp_all
  from paths obtain u u' where
    "ul_parse ul (joined_prefix prefix @ ?n) = Inr u" "ul_parse ul (joined_prefix prefix @ ?n') = Inr u'"
    "ul_resolve ul g u = p" "ul_resolve ul g u' = p'"
    using names by (auto simp: TabStatePath_def Let_def go_simps ResolveReference_def SetURL_iff path_Join_plain split: if_splits)
  moreover have "list_all plain_part (str_split ?n ''/'') \<and> list_all plain_part (str_split ?n' ''/'')"
    using names by (simp add: s)
  ultimately have "?n = ?n'" using apart c same unfolding resolves_apart_def by blast
  with joined_cut [of d d' t t'] names show ?thesis by (simp add: plain_part_def)
qed

section \<open>What was written is what is read\<close>

text \<open>The decoders give back the grid that was encoded.\<close>

definition decodes :: "server \<Rightarrow> (grid \<Rightarrow> string go) \<Rightarrow> bool" where
  "decodes s marshal \<longleftrightarrow>
     (\<forall>g buf. marshal g = Inr buf \<longrightarrow>
        (\<exists>b. srv_zlib s (Inr buf) = Inr (Inr b) \<and> srv_grid s b = Inr g))"

lemma server_on_simps [simp]:
  "srv_urls (server_on gl w s) = srv_urls s"
  "srv_zlib (server_on gl w s) = srv_zlib s"
  "srv_grid (server_on gl w s) = srv_grid s"
  "srv_summary (server_on gl w s) = srv_summary s"
  "srv_tab_prefix (server_on gl w s) = srv_tab_prefix s"
  "srv_summary_prefix (server_on gl w s) = srv_summary_prefix s"
  "configPath (server_on gl w s) scope = configPath s scope"
  by (simp_all add: server_on_def configPath_def)

lemma DownloadGrid_written:
  assumes "decodes s marshal" "marshal g = Inr buf" "client_Open (srv_urls s) gl NewClient w p = Inr buf"
  shows "DownloadGrid (server_on gl w s) p = Inr (Some g)"
proof -
  from assms(1,2) obtain b where "srv_zlib s (Inr buf) = Inr (Inr b)" "srv_grid s b = Inr g"
    unfolding decodes_def by blast
  then show ?thesis
    by (simp add: DownloadGrid_def server_on_def assms(3) wrap_error_def)
qed

lemma createTabState_wrote:
  assumes "createTabState s gl marshal nl rx cancelled now task data cfgPath prefix True stats useTab False w = (Inr (), w')"
  shows "\<exists>p g buf a. TabStatePath (srv_urls s) cfgPath prefix (dash_name (wt_dashboard task)) (tab_name (wt_tab task)) = Inr p \<and>
    tabulate nl rx cancelled now (Some data) (Some (wt_tab task)) (wt_group task) stats useTab None = Inr g \<and>
    marshal g = Inr buf \<and> client_Upload (srv_urls s) gl NewClient w p buf = (Inr a, w')"
  using assms
  by (auto simp: createTabState_def go_simps wrap_error_def split: sum.splits prod.splits go_error.splits)

lemma createTabState_other:
  assumes st: "gcs_contract gl obj"
    and "\<And>p. TabStatePath (srv_urls s) cfgPath prefix (dash_name (wt_dashboard task)) (tab_name (wt_tab task)) = Inr p \<Longrightarrow>
      client_place (srv_urls s) q \<noteq> client_place (srv_urls s) p"
  shows "client_Open (srv_urls s) gl NewClient
      (snd (createTabState s gl marshal nl rx cancelled now task data cfgPath prefix confirm stats useTab ext w)) q =
    client_Open (srv_urls s) gl NewClient w q"
proof -
  let ?r = "createTabState s gl marshal nl rx cancelled now task data cfgPath prefix confirm stats useTab ext w"
  have "snd ?r = w \<or> (\<exists>p buf. TabStatePath (srv_urls s) cfgPath prefix (dash_name (wt_dashboard task)) (tab_name (wt_tab task)) = Inr p \<and>
      snd ?r = snd (client_Upload (srv_urls s) gl NewClient w p buf))"
  proof (cases "TabStatePath (srv_urls s) cfgPath prefix (dash_name (wt_dashboard task)) (tab_name (wt_tab task))")
    case (Inr p)
    define t where "t = go_bind (if ext then wrap_error ''downloadGrid: '' (DownloadGrid (server_on gl w s) p) else Inr None)
      (\<lambda>existingGrid. wrap_error ''tabulate: '' (tabulate nl rx cancelled now (Some data) (Some (wt_tab task))
         (wt_group task) stats useTab existingGrid))"
    have r: "?r = (case t of Inl e \<Rightarrow> (Inl e, w)
      | Inr grid \<Rightarrow>
          if \<not> confirm then (Inr (), w)
          else (case wrap_error ''marshalGrid: '' (marshal grid) of
             Inl e \<Rightarrow> (Inl e, w)
           | Inr buf \<Rightarrow>
               (case client_Upload (srv_urls s) gl NewClient w p buf of
                  (Inl e, w') \<Rightarrow> (Inl (opened e), w') | (Inr a, w') \<Rightarrow> (Inr (), w'))))"
      by (simp add: createTabState_def Inr t_def)
    have up: "snd (case client_Upload (srv_urls s) gl NewClient w p buf of
        (Inl e, w') \<Rightarrow> (Inl (opened e), w') | (Inr a, w') \<Rightarrow> (Inr (), w')) =
      snd (client_Upload (srv_urls s) gl NewClient w p buf)" for buf
      by (simp split: prod.split sum.split)
    show ?thesis unfolding r using Inr
      by (auto simp: up split: sum.split)
  qed (simp add: createTabState_def)
  then show ?thesis
    using storage_client.open_other [OF client_storage [OF st]] assms(2) by auto
qed

text \<open>
  The workers write the tabs one after the other.  A tab that was written keeps its state to the end,
  when no other tab of the run has its place.
\<close>

definition task_names :: "write_task \<Rightarrow> string \<times> string" where
  "task_names task = (dash_name (wt_dashboard task), tab_name (wt_tab task))"

definition task_ok :: "write_task \<Rightarrow> bool" where
  "task_ok task \<longleftrightarrow>
     (plain_part (dash_name (wt_dashboard task)) \<and> name_chars (dash_name (wt_dashboard task))) \<and>
     plain_part (tab_name (wt_tab task)) \<and> name_chars (tab_name (wt_tab task))"

lemma task_places:
  assumes "resolves_apart ul cp prefix" "task_ok a" "task_ok b" "task_names a \<noteq> task_names b"
    and "TabStatePath ul cp prefix (dash_name (wt_dashboard a)) (tab_name (wt_tab a)) = Inr p"
    and "TabStatePath ul cp prefix (dash_name (wt_dashboard b)) (tab_name (wt_tab b)) = Inr q"
  shows "client_place ul p \<noteq> client_place ul q"
  using TabStatePath_places [OF assms(1) _ _ _ _ assms(5,6)] assms(2-4) by (auto simp: task_ok_def task_names_def)

text \<open>What the run of the workers leaves in the place of a task that succeeded.\<close>

lemma write_tabs_kept:
  fixes s gl marshal nl rx cancelled now cfgPath prefix stats useTab
  defines "create \<equiv> \<lambda>task data. createTabState s gl marshal nl rx cancelled now task data cfgPath prefix True stats useTab False"
  assumes st: "gcs_contract gl obj" and apart: "resolves_apart (srv_urls s) cfgPath prefix"
    and ok: "list_all task_ok (map fst tasks)" "task_ok task" "task_names task \<notin> task_names ` fst ` set tasks"
    and p: "TabStatePath (srv_urls s) cfgPath prefix (dash_name (wt_dashboard task)) (tab_name (wt_tab task)) = Inr p"
  shows "client_Open (srv_urls s) gl NewClient (snd (write_tabs create tasks w)) p = client_Open (srv_urls s) gl NewClient w p"
  using ok(1,3)
proof (induction tasks arbitrary: w)
  case (Cons x tasks)
  obtain other data where x: "x = (other, data)" by (cases x)
  have o: "task_ok other" "task_names task \<noteq> task_names other" using Cons.prems by (auto simp: x)
  have "client_Open (srv_urls s) gl NewClient (snd (create other data w)) p = client_Open (srv_urls s) gl NewClient w p"
    unfolding create_def by (rule createTabState_other [OF st]) (rule task_places [OF apart ok(2) o(1) o(2) p])
  moreover have "snd (write_tabs create (x # tasks) w) = snd (write_tabs create tasks (snd (create other data w)))"
    by (simp add: x split: prod.split)
  ultimately show ?case using Cons.IH [of "snd (create other data w)"] Cons.prems by simp
qed simp

lemma write_tabs_stored:
  fixes s gl marshal nl rx cancelled now cfgPath prefix stats useTab
  defines "create \<equiv> \<lambda>task data. createTabState s gl marshal nl rx cancelled now task data cfgPath prefix True stats useTab False"
  assumes st: "gcs_contract gl obj" and apart: "resolves_apart (srv_urls s) cfgPath prefix" and dec: "decodes s marshal"
    and ok: "list_all task_ok (map fst tasks)" "distinct (map (\<lambda>x. task_names (fst x)) tasks)"
    and k: "k < length tasks" "tasks ! k = (task, data)" "fst (write_tabs create tasks w) ! k = Inr ()"
  shows "\<exists>p g. TabStatePath (srv_urls s) cfgPath prefix (dash_name (wt_dashboard task)) (tab_name (wt_tab task)) = Inr p \<and>
    tabulate nl rx cancelled now (Some data) (Some (wt_tab task)) (wt_group task) stats useTab None = Inr g \<and>
    DownloadGrid (server_on gl (snd (write_tabs create tasks w)) s) p = Inr (Some g)"
  using ok k
proof (induction tasks arbitrary: w k)
  case (Cons x tasks)
  obtain other d where x: "x = (other, d)" by (cases x)
  obtain r w1 where c: "create other d w = (r, w1)" by fastforce
  obtain rs w2 where rest: "write_tabs create tasks w1 = (rs, w2)" by fastforce
  have run: "write_tabs create (x # tasks) w = (r # rs, w2)" by (simp add: x c rest)
  show ?case
  proof (cases k)
    case 0
    with Cons.prems(4) have t: "other = task" "d = data" by (simp_all add: x)
    from Cons.prems(5) [unfolded run] 0 have "r = Inr ()" by simp
    note t = t this
    from createTabState_wrote [OF c [unfolded create_def t]] obtain p g buf a where
      p: "TabStatePath (srv_urls s) cfgPath prefix (dash_name (wt_dashboard task)) (tab_name (wt_tab task)) = Inr p"
        "tabulate nl rx cancelled now (Some data) (Some (wt_tab task)) (wt_group task) stats useTab None = Inr g"
        "marshal g = Inr buf" "client_Upload (srv_urls s) gl NewClient w p buf = (Inr a, w1)" by blast
    have "client_Open (srv_urls s) gl NewClient w1 p = Inr buf"
      by (rule storage_client.open_uploaded [OF client_storage [OF st] p(4) refl])
    moreover have "client_Open (srv_urls s) gl NewClient w2 p = client_Open (srv_urls s) gl NewClient w1 p"
      using write_tabs_kept [OF st apart _ _ _ p(1), where tasks = tasks and w = w1 and nl = nl and rx = rx and cancelled = cancelled
        and now = now and marshal = marshal and stats = stats and useTab = useTab] Cons.prems(1,2)
      by (simp add: x t rest [unfolded create_def] image_image)
    ultimately have "DownloadGrid (server_on gl w2 s) p = Inr (Some g)"
      using DownloadGrid_written [OF dec p(3)] by simp
    then show ?thesis using p(1,2) by (auto simp: run)
  next
    case (Suc j)
    have j: "j < length tasks" "tasks ! j = (task, data)" "fst (write_tabs create tasks w1) ! j = Inr ()"
      using Cons.prems(3,4) Cons.prems(5) [unfolded run] Suc rest by simp_all
    from Cons.IH [OF _ _ j] Cons.prems(1,2) show ?thesis unfolding run rest by simp
  qed
qed simp

text \<open>The rows of a tab, from the grid of its group to the answer of the server.\<close>

lemma tab_rows_served:
  fixes s gl marshal nl rx cancelled now cfgPath stats useTab tasks w
  defines "create \<equiv> \<lambda>task data. createTabState s gl marshal nl rx cancelled now task data cfgPath (srv_tab_prefix s) True stats useTab False"
  defines "after \<equiv> server_on gl (snd (write_tabs create tasks w)) s"
  assumes st: "gcs_contract gl obj" and apart: "resolves_apart (srv_urls s) cfgPath (srv_tab_prefix s)" and dec: "decodes s marshal"
    and ok: "list_all task_ok (map fst tasks)" "distinct (map (\<lambda>x. task_names (fst x)) tasks)"
    and k: "k < length tasks" "tasks ! k = (\<lparr>wt_dashboard = d, wt_tab = t, wt_group = Some tg\<rparr>, g)"
      "fst (write_tabs create tasks w) ! k = Inr ()"
    and sv: "serves after scope cfg snap" "configPath s scope = Inr (cfgPath, b)"
      "d \<in> set (cfg_dashboards cfg)" "Normalize (dash_name d) = Normalize dq"
      "t \<in> set (dash_tabs d)" "Normalize (tab_name t) = Normalize tq"
    and g: "grid_ok g" "\<forall>j. \<not> cancelled j" "filterGrid rx (tab_base_options t) (grid_rows g) = Inr rows"
      "0 \<le> tab_alerts useTab t tg"
    and cols_def: "cols = dropEmptyColumns (map (inflated_at (g\<lparr>grid_rows := rows\<rparr>))
        (kept_columns zero_unix now False 0 (grid_columns g)))"
  shows "\<exists>rs. ListRows after scope dq tq = Inr rs \<and> ar_name ` set rs = shown_names cols \<and>
    (\<forall>r \<in> set rs. \<exists>i. ar_cells r =
       map (\<lambda>col. api_cell_of (stored (ar_name r) i (cell_of col (ar_name r)))) cols)"
proof -
  let ?task = "\<lparr>wt_dashboard = d, wt_tab = t, wt_group = Some tg\<rparr>"
  from write_tabs_stored [OF st apart dec ok k(1,2) k(3) [unfolded create_def]] obtain p g' where
    p: "TabStatePath (srv_urls s) cfgPath (srv_tab_prefix s) (dash_name d) (tab_name t) = Inr p"
      "tabulate nl rx cancelled now (Some g) (Some t) (Some tg) stats useTab None = Inr g'"
      "DownloadGrid after p = Inr (Some g')"
    by (auto simp: create_def after_def)
  from tabulate_shows [OF g cols_def, of nl stats] p(2) have
    sh: "shows_cells (map (with_stats (tab_threshold stats t)) cols) g'" by simp
  have "Grid after scope (dash_name d) (tab_name t) = Inr (Some g')"
    using p(1,3) sv(2) by (simp add: Grid_def after_def wrap_error_def)
  note rows = ListRows_spec [OF sv(1,3-6) this sh]
  have "row_name ` set (grid_rows g') = shown_names cols"
    using sh by (simp add: shows_cells_def shown_names_def)
  with rows show ?thesis by (force simp: comp_def image_image)
qed

section \<open>Summaries\<close>

lemma summarize_rows_name: "dts_dashboard_tab_name (summarize_rows showTime now features tab tg g md h) = tab_name tab"
  by (simp add: summarize_rows_def Let_def split: prod.split)

lemma updateTab_name: "updateTab showTime now features read tab tg = Inr s \<Longrightarrow> dts_dashboard_tab_name s = tab_name tab"
  using summarize_rows_name by (auto simp: updateTab_def go_simps split: sum.splits go_error.splits)

lemma updateName_stored:
  assumes st: "gcs_contract gl obj"
    and dec: "\<And>x buf. marshal x = Inr buf \<Longrightarrow> srv_summary s buf = Inr x"
    and run: "updateName s gl marshal showTime seconds modified now features dashboards groups cfgPath tabPrefix
      (srv_summary_prefix s) True grace dashName w = (Inr todo, w')"
    and cp: "configPath s scope = Inr (cfgPath, b)"
  shows "\<exists>dash sp summ previous summaries. map_of dashboards dashName = Some dash \<and>
    SummaryPath (srv_urls s) cfgPath (srv_summary_prefix s) dashName = Inr sp \<and>
    ReadSummary (server_on gl w s) sp = Inr summ \<and>
    previous = (case summ of None \<Rightarrow> [] | Some x \<Rightarrow> ds_tab_summaries x) \<and>
    updated_summary s gl showTime seconds modified now features groups cfgPath tabPrefix grace dash previous w =
      Inr (summaries, todo) \<and>
    stored_summary (server_on gl w' s) scope dashName \<lparr>ds_tab_summaries = map the summaries\<rparr>"
proof -
  from run obtain dash where d: "map_of dashboards dashName = Some dash"
    by (auto simp: updateName_def split: option.splits)
  define r where "r = go_bind (wrap_error ''summary path: '' (SummaryPath (srv_urls s) cfgPath (srv_summary_prefix s) dashName))
    (\<lambda>summaryPath. go_bind (wrap_error ''read: '' (ReadSummary (server_on gl w s) summaryPath)) (\<lambda>summ.
     go_bind (updated_summary s gl showTime seconds modified now features groups cfgPath tabPrefix
       grace dash (case summ of None \<Rightarrow> [] | Some x \<Rightarrow> ds_tab_summaries x) w) (\<lambda>r. Inr (summaryPath, r))))"
  have run': "(case r of
        Inl e \<Rightarrow> (Inl e, w)
      | Inr (summaryPath, summaries, todo) \<Rightarrow>
          if \<not> True then (Inr todo, w)
          else (case writeSummary (srv_urls s) gl marshal w summaryPath \<lparr>ds_tab_summaries = map the summaries\<rparr> of
             (Inl e, w') \<Rightarrow> (wrap_error ''write: '' (Inl e), w')
           | (Inr n, w') \<Rightarrow> (Inr todo, w'))) = (Inr todo, w')"
    using run unfolding updateName_def d r_def option.case .
  have "\<exists>p summaries n. r = Inr (p, summaries, todo) \<and>
      writeSummary (srv_urls s) gl marshal w p \<lparr>ds_tab_summaries = map the summaries\<rparr> = (Inr n, w')"
  proof (cases r)
    case (Inr x)
    obtain p summaries todo' where x: "x = (p, summaries, todo')" by (cases x)
    obtain ans w'' where wr: "writeSummary (srv_urls s) gl marshal w p \<lparr>ds_tab_summaries = map the summaries\<rparr> = (ans, w'')"
      by fastforce
    show ?thesis
    proof (cases ans)
      case (Inl e)
      with run' show ?thesis by (cases e) (simp_all add: Inr x wr wrap_error_def)
    next
      case (Inr n)
      with run' \<open>r = Inr x\<close> show ?thesis by (auto simp: x wr)
    qed
  qed (use run' in simp)
  then obtain p summaries n where p: "r = Inr (p, summaries, todo)"
      "writeSummary (srv_urls s) gl marshal w p \<lparr>ds_tab_summaries = map the summaries\<rparr> = (Inr n, w')" by blast
  from p(1) obtain summ :: "dashboard_summary option" where path: "SummaryPath (srv_urls s) cfgPath (srv_summary_prefix s) dashName = Inr p"
    and old: "ReadSummary (server_on gl w s) p = Inr summ"
    and up: "updated_summary s gl showTime seconds modified now features groups cfgPath tabPrefix
       grace dash (case summ of None \<Rightarrow> [] | Some x \<Rightarrow> ds_tab_summaries x) w = Inr (summaries, todo)"
    unfolding r_def go_bind_eq_Inr wrap_error_eq_Inr sum.inject prod.inject by blast
  from p(2) obtain buf a where buf: "marshal \<lparr>ds_tab_summaries = map the summaries\<rparr> = Inr buf"
    and written: "client_Upload (srv_urls s) gl NewClient w p buf = (Inr a, w')"
    by (auto simp: writeSummary_def wrap_error_def split: sum.splits prod.splits go_error.splits)
  have "client_Open (srv_urls s) gl NewClient w' p = Inr buf"
    by (rule storage_client.open_uploaded [OF client_storage [OF st] written refl])
  then have "ReadSummary (server_on gl w' s) p = Inr (Some \<lparr>ds_tab_summaries = map the summaries\<rparr>)"
    using dec [OF buf] by (simp add: ReadSummary_def server_on_def wrap_error_def)
  then have "stored_summary (server_on gl w' s) scope dashName \<lparr>ds_tab_summaries = map the summaries\<rparr>"
    using cp path by (auto simp: stored_summary_def)
  with d path old up show ?thesis by blast
qed

text \<open>After the summarizer is done with a dashboard, the server has a summary for each of its tabs.\<close>

lemma updateName_served:
  assumes st: "gcs_contract gl obj"
    and dec: "\<And>x buf. marshal x = Inr buf \<Longrightarrow> srv_summary s buf = Inr x"
    and run: "updateName s gl marshal showTime seconds modified now features dashboards groups cfgPath tabPrefix
      (srv_summary_prefix s) True grace (dash_name d) w = (Inr todo, w')"
    and cp: "configPath s scope = Inr (cfgPath, b)"
    and d: "map_of dashboards (dash_name d) = Some d"
    and sv: "serves (server_on gl w' s) scope cfg snap" "d \<in> set (cfg_dashboards cfg)" "Normalize (dash_name d) = Normalize dq"
      "t \<in> set (dash_tabs d)" "Normalize (tab_name t) = Normalize tq"
  shows "\<exists>x. dts_dashboard_tab_name x = tab_name t \<and> GetTabSummary (server_on gl w' s) scope dq tq = Inr (convertSummary x)"
proof -
  from updateName_stored [OF st dec run cp] d obtain previous summaries where
    up: "updated_summary s gl showTime seconds modified now features groups cfgPath tabPrefix grace d previous w = Inr (summaries, todo)"
    and stored: "stored_summary (server_on gl w' s) scope (dash_name d) \<lparr>ds_tab_summaries = map the summaries\<rparr>"
    by auto
  from summarized_tab_served [OF sv up [unfolded updated_summary_def] _ stored] show ?thesis
    using updateTab_name by blast
qed

section \<open>Tabs that share a place\<close>

text \<open>
  Names may have slashes.  Two dashboards with a tab each, whose states are one object whatever the
  prefix: the tab written last is shown for both.
\<close>

definition slashed_config :: configuration where
  "slashed_config =
     \<lparr>cfg_test_groups = cfg_test_groups (mini_config ''unit-tests'' ''team''),
      cfg_dashboards =
        [empty_dashboard\<lparr>dash_name := ''team'', dash_tabs :=
           [empty_dashboard_tab\<lparr>tab_name := ''unit/tests'', tab_test_group_name := ''unit-tests''\<rparr>]\<rparr>,
         empty_dashboard\<lparr>dash_name := ''team/unit'', dash_tabs :=
           [empty_dashboard_tab\<lparr>tab_name := ''tests'', tab_test_group_name := ''unit-tests''\<rparr>]\<rparr>],
      cfg_dashboard_groups = []\<rparr>"

lemma slashed_config_valid:
  assumes "rx [] \<noteq> None"
  shows "Validate rx subexps (Some slashed_config) = []"
proof -
  have v: "validateName ''unit-tests'' = None" "validateName ''team'' = None" "validateName ''team/unit'' = None"
    "validateName ''tests'' = None" "validateName ''unit/tests'' = None" "Normalize ''team'' \<noteq> Normalize ''team/unit''"
    by code_simp+
  have mini: "Validate rx subexps (Some (mini_config ''unit-tests'' ''team'')) = []"
    using v(1,2) assms by (rule mini_config_valid)
  show ?thesis using mini v unfolding Validate_iff slashed_config_def
    by (simp add: mini_config_def names_ok_def references_ok_def entities_ok_def tab_groups_def
        validateDashboardTab_def empty_dashboard_tab_def tabular_errors_def get_alert_options_def
        get_status_options_def zero_alert_options_def zero_status_options_def Let_def)
qed

lemma slashed_places: "TabStatePath ul g prefix ''team'' ''unit/tests'' = TabStatePath ul g prefix ''team/unit'' ''tests''"
  by (simp add: TabStatePath_def path_Join_def)

end
