(* ===== verification/Tab_Pass.thy ===== *)
theory Tab_Pass
  imports Tab_Store
begin

text \<open>
  One pass of the tabulator over a test group (\<open>Update\<close> of \<open>pkg/tabulator/tabstate.go\<close>): a reader downloads
  the grid of the group and asks for one task per tab that shows it, the writers store the tabs.
\<close>

section \<open>The readers and the writers\<close>

text \<open>
  The closure \<open>read\<close> of \<open>Update\<close>, in a context that does not end.  Every task gets a clone of the grid;
  \<open>DownloadGrid\<close> returns no grid only with an error.
\<close>

definition read_group ::
    "server \<Rightarrow> 's gcs_lib \<Rightarrow> (string, write_task list) gomap \<Rightarrow> url \<Rightarrow> string \<Rightarrow> 's world \<Rightarrow> test_group option \<Rightarrow>
     (write_task \<times> grid) list go" where
  "read_group s gl tasksPerGroup cfgPath gridPrefix w grp =
     (case grp of
        None \<Rightarrow> Inl (Failed ''nil group to read'')
      | Some tg \<Rightarrow>
          go_bind (wrap_error (''can't make tg path '' @ go_quote (tg_name tg) @ '': '')
              (TestGroupPath (srv_urls s) cfgPath gridPrefix (tg_name tg))) (\<lambda>fromPath.
          go_bind (wrap_error ''downloadGrid: '' (DownloadGrid (server_on gl w s) fromPath)) (\<lambda>g.
          Inr (List.map_filter (\<lambda>task. map_option (Pair task) g) (map_get (tg_name tg) tasksPerGroup)))))"

definition tabulate_group ::
    "(write_task \<Rightarrow> grid \<Rightarrow> 's world \<Rightarrow> unit go \<times> 's world) \<Rightarrow> ('s world \<Rightarrow> (write_task \<times> grid) list go) \<Rightarrow> 's world \<Rightarrow>
     (unit go list) go \<times> 's world" where
  "tabulate_group create read w =
     (case read w of
        Inl e \<Rightarrow> (Inl e, w)
      | Inr tasks \<Rightarrow> (case write_tabs create tasks w of (rs, w') \<Rightarrow> (Inr rs, w')))"

section \<open>The tasks of a group\<close>

lemma mapTasks_distinct:
  assumes "distinct (map fst ds)" "\<forall>x \<in> set ds. fst x = dash_name (snd x) \<and> distinct (map tab_name (dash_tabs (snd x)))"
  shows "distinct (map task_names (map_get g (mapTasks groups ds)))"
  using assms unfolding mapTasks_spec
proof (induction ds)
  case (Cons x ds)
  obtain n d where x: "x = (n, d)" by (cases x)
  have "distinct (map task_names (map (\<lambda>t. \<lparr>wt_dashboard = d, wt_tab = t, wt_group = map_of groups g\<rparr>)
      (filter (\<lambda>t. tab_test_group_name t = g) (dash_tabs d))))"
    using Cons.prems(2) by (auto simp: x task_names_def comp_def distinct_map inj_on_def)
  moreover have "\<forall>y \<in> set ds. dash_name (snd y) \<noteq> dash_name d" using Cons.prems by (force simp: x)
  ultimately show ?case using Cons by (simp add: x) (fastforce simp: task_names_def)
qed simp

lemma snapshot_tasks:
  assumes n: "names_ok cfg" and snap: "snapshot_of cfg snap"
  shows "distinct (map task_names (map_get g (mapTasks (sn_groups snap) (sn_dashboards snap))))"
    "task \<in> set (map_get g (mapTasks (sn_groups snap) (sn_dashboards snap))) \<longleftrightarrow>
      wt_dashboard task \<in> set (cfg_dashboards cfg) \<and> wt_tab task \<in> set (dash_tabs (wt_dashboard task)) \<and>
      tab_test_group_name (wt_tab task) = g \<and> wt_group task = map_of (sn_groups snap) g"
proof -
  note m = snapshot_maps(2) [OF n snap]
  then have sets: "set (sn_dashboards snap) = (\<lambda>d. (dash_name d, d)) ` set (cfg_dashboards cfg)"
    by (metis list.set_map set_mset_mset)
  have "distinct (map fst (sn_dashboards snap))"
    by (rule normal_distinct) (rule named_map(1) [OF m names_ok_facts(3) [OF n]])
  then show "distinct (map task_names (map_get g (mapTasks (sn_groups snap) (sn_dashboards snap))))"
    using names_ok_facts(7) [OF n] by (intro mapTasks_distinct) (auto simp: sets intro: normal_distinct)
  show "task \<in> set (map_get g (mapTasks (sn_groups snap) (sn_dashboards snap))) \<longleftrightarrow>
      wt_dashboard task \<in> set (cfg_dashboards cfg) \<and> wt_tab task \<in> set (dash_tabs (wt_dashboard task)) \<and>
      tab_test_group_name (wt_tab task) = g \<and> wt_group task = map_of (sn_groups snap) g"
    by (cases task) (auto simp: mapTasks_spec sets image_iff)
qed

section \<open>A pass, served\<close>

lemma getConfig_on: "fst (getConfig (server_on gl w s) scope) = fst (getConfig s scope)"
proof -
  have "observed_cache (server_on gl w s) p = observed_cache s p" for p
    by (simp add: observed_cache_def server_on_def cong: sum.case_cong go_error.case_cong)
  moreover have "srv_cache (server_on gl w s) = srv_cache s" by (simp add: server_on_def)
  ultimately show ?thesis by (simp add: getConfig_def Let_def split: sum.split prod.split option.split)
qed

lemma serves_on: "serves (server_on gl w s) scope cfg snap \<longleftrightarrow> serves s scope cfg snap"
  by (simp add: serves_def getConfig_on)

lemma write_tabs_length: "length (fst (write_tabs create tasks w)) = length tasks"
proof (induction tasks arbitrary: w)
  case (Cons x tasks)
  obtain task data where "x = (task, data)" by (cases x)
  then show ?case using Cons [of "snd (create task data w)"] by (simp add: split_def)
qed simp

text \<open>
  After a pass over a group that met no error, the server shows for every tab of the group the columns
  of the group's grid, with the rows that the options of the tab keep and without the columns that
  have then no result.
\<close>

lemma pass_served:
  fixes s gl marshal nl rx cancelled now cfgPath stats useTab w
  defines "create \<equiv> \<lambda>task data. createTabState s gl marshal nl rx cancelled now task data cfgPath (srv_tab_prefix s) True stats useTab False"
  assumes st: "gcs_contract gl obj" and apart: "resolves_apart (srv_urls s) cfgPath (srv_tab_prefix s)" and dec: "decodes s marshal"
    and sv: "serves s scope cfg snap" "configPath s scope = Inr (cfgPath, b)"
    and plain: "\<forall>d \<in> set (cfg_dashboards cfg). \<forall>t \<in> set (dash_tabs d).
      plain_part (dash_name d) \<and> name_chars (dash_name d) \<and> plain_part (tab_name t) \<and> name_chars (tab_name t)"
    and run: "tabulate_group create (\<lambda>w. read_group s gl (mapTasks (sn_groups snap) (sn_dashboards snap)) cfgPath gridPrefix w (Some tg)) w = (Inr rs, w')"
      "\<forall>r \<in> set rs. r = Inr ()"
    and gp: "TestGroupPath (srv_urls s) cfgPath gridPrefix (tg_name tg) = Inr gp" "DownloadGrid (server_on gl w s) gp = Inr (Some g)"
    and d: "d \<in> set (cfg_dashboards cfg)" "Normalize (dash_name d) = Normalize dq"
      "t \<in> set (dash_tabs d)" "Normalize (tab_name t) = Normalize tq"
    and tg: "tab_test_group_name t = tg_name tg" "tg \<in> set (cfg_test_groups cfg)"
    and g: "grid_ok g" "\<forall>j. \<not> cancelled j" "filterGrid rx (tab_base_options t) (grid_rows g) = Inr rows"
      "0 \<le> tab_alerts useTab t tg"
    and cols_def: "cols = dropEmptyColumns (map (inflated_at (g\<lparr>grid_rows := rows\<rparr>))
        (kept_columns zero_unix now False 0 (grid_columns g)))"
  shows "\<exists>rs. ListRows (server_on gl w' s) scope dq tq = Inr rs \<and> ar_name ` set rs = shown_names cols \<and>
    (\<forall>r \<in> set rs. \<exists>i. ar_cells r =
       map (\<lambda>col. api_cell_of (stored (ar_name r) i (cell_of col (ar_name r)))) cols)"
proof -
  from sv(1) have n: "names_ok cfg" and snap: "snapshot_of cfg snap" by (simp_all add: serves_def)
  let ?tasks = "map (\<lambda>task. (task, g)) (map_get (tg_name tg) (mapTasks (sn_groups snap) (sn_dashboards snap)))"
  have read: "read_group s gl (mapTasks (sn_groups snap) (sn_dashboards snap)) cfgPath gridPrefix w (Some tg) = Inr ?tasks"
    by (simp add: read_group_def gp wrap_error_def map_filter_simps map_filter_def comp_def)
  have w: "w' = snd (write_tabs create ?tasks w)" "rs = fst (write_tabs create ?tasks w)"
    using run(1) by (auto simp: tabulate_group_def read split: prod.splits)
  have "map_of (sn_groups snap) (tg_name tg) = Some tg"
    using named_map(2) [OF snapshot_maps(3) [OF n snap] names_ok_facts(5) [OF n], of "tg_name tg" tg] tg(2) by simp
  note tasks = snapshot_tasks [OF n snap, where g = "tg_name tg", unfolded this]
  let ?task = "\<lparr>wt_dashboard = d, wt_tab = t, wt_group = Some tg\<rparr>"
  have "?task \<in> set (map_get (tg_name tg) (mapTasks (sn_groups snap) (sn_dashboards snap)))"
    using d(1,3) tg(1) by (simp add: tasks(2))
  then obtain k where k: "k < length ?tasks" "?tasks ! k = (?task, g)" by (auto simp: in_set_conv_nth)
  have "rs ! k \<in> set rs" using k(1) by (simp add: w(2) write_tabs_length)
  then have r: "fst (write_tabs create ?tasks w) ! k = Inr ()" using run(2) w(2) by blast
  have "list_all task_ok (map fst ?tasks)"
    using plain by (auto simp: list_all_iff tasks(2) task_ok_def)
  from tab_rows_served [OF st apart dec this _ k r [unfolded create_def] _ sv(2) d g cols_def] tasks(1) sv(1)
  show ?thesis by (simp add: comp_def w(1) create_def serves_on)
qed

lemma find_distinct: "distinct (map f xs) \<Longrightarrow> k < length xs \<Longrightarrow> find (\<lambda>y. f y = f (xs ! k)) xs = Some (xs ! k)"
proof (induction xs arbitrary: k)
  case (Cons x xs)
  show ?case
  proof (cases k)
    case (Suc j)
    then have "f x \<noteq> f (xs ! j)" using Cons.prems by (metis distinct.simps(2) image_eqI length_Cons list.set_map list.simps(9) nth_mem Suc_less_SucD)
    then show ?thesis using Cons Suc by simp
  qed simp
qed simp

section \<open>A dashboard, summarized and served\<close>

text \<open>
  After the summarizer is done with a dashboard in time, the server shows for each of its tabs the
  summary of the grid that is stored for the tab; only where the state of the tab is as old as the
  summary that was there, it is still that one.
\<close>

lemma dashboard_pass_served:
  assumes st: "gcs_contract gl obj"
    and dec: "\<And>x buf. marshal x = Inr buf \<Longrightarrow> srv_summary s buf = Inr x"
    and run: "updateName s gl marshal showTime seconds modified now features dashboards groups cfgPath tabPrefix
      (srv_summary_prefix s) True None (dash_name d) w = (Inr todo, w')"
    and cp: "configPath s scope = Inr (cfgPath, b)"
    and d: "map_of dashboards (dash_name d) = Some d"
    and sv: "serves s scope cfg snap" "d \<in> set (cfg_dashboards cfg)" "Normalize (dash_name d) = Normalize dq"
      "t \<in> set (dash_tabs d)" "Normalize (tab_name t) = Normalize tq"
    and fg: "findGroup (srv_urls s) groups cfgPath tabPrefix (dash_name d) t = Inr (Some (p, tg))"
    and apart: "distinct (map fst (states (\<lambda>tab. go_bind (findGroup (srv_urls s) groups cfgPath tabPrefix (dash_name d) tab)
          (\<lambda>x. Inr (map_option (\<lambda>(p, tg). (ul_string (srv_urls s) p, tg)) x))) (dash_tabs d)))"
    and old: "SummaryPath (srv_urls s) cfgPath (srv_summary_prefix s) (dash_name d) = Inr sp"
      "ReadSummary (server_on gl w s) sp = Inr summ"
  defines "previous \<equiv> previous_summary (case summ of None \<Rightarrow> [] | Some x \<Rightarrow> ds_tab_summaries x) (tab_name t)"
    and "fresh \<equiv> outcome (dash_name d) (\<lambda>tab tg. updateTab showTime now features (readGrid s gl modified w p) tab tg) t tg"
    and "stored_at \<equiv> stat_seconds s gl seconds w (tab_paths (srv_urls s) groups cfgPath tabPrefix d) (ul_string (srv_urls s) p)"
  shows "\<not> todo \<and> GetTabSummary (server_on gl w' s) scope dq tq = Inr (convertSummary
    (case (stored_at, previous) of
       (Some updated, Some x) \<Rightarrow> if dts_last_update_timestamp x = of_int updated then x else fresh
     | _ \<Rightarrow> fresh))"
proof -
  let ?ul = "srv_urls s"
  from updateName_stored [OF st dec run cp] d old obtain summaries where
    up: "updated_summary s gl showTime seconds modified now features groups cfgPath tabPrefix None d
      (case summ of None \<Rightarrow> [] | Some x \<Rightarrow> ds_tab_summaries x) w = Inr (summaries, todo)"
    and stored: "stored_summary (server_on gl w' s) scope (dash_name d) \<lparr>ds_tab_summaries = map the summaries\<rparr>"
    by auto
  from sv(1) have n: "names_ok cfg" by (simp add: serves_def)
  have dt: "distinct (map tab_name (dash_tabs d))" by (rule normal_distinct) (rule names_ok_facts(7) [OF n sv(2)])
  obtain k where k: "k < length (dash_tabs d)" "dash_tabs d ! k = t" using sv(4) by (auto simp: in_set_conv_nth)
  have path: "TabStatePath ?ul cfgPath tabPrefix (dash_name d) (tab_name t) = Inr p"
    using fg by (auto simp: findGroup_def go_simps split: option.splits)
  let ?update = "\<lambda>tab tg. updateTab showTime now features
    (go_bind (TabStatePath ?ul cfgPath tabPrefix (dash_name d) (tab_name tab)) (readGrid s gl modified w)) tab tg"
  have out: "outcome (dash_name d) ?update t tg = fresh" by (simp add: fresh_def outcome_def path)
  note one = updateDashboard_fresh [OF up [unfolded updated_summary_def] dt apart k, of "ul_string ?ul p" tg]
  let ?x = "case (stored_at, previous) of
       (Some updated, Some x) \<Rightarrow> if dts_last_update_timestamp x = of_int updated then x else fresh
     | _ \<Rightarrow> fresh"
  have x: "\<not> todo" "summaries ! k = Some ?x"
    using one unfolding out stored_at_def previous_def by (simp_all add: fg)
  have names: "map (map_option dts_dashboard_tab_name) summaries = map (\<lambda>t. Some (tab_name t)) (dash_tabs d)"
    by (rule updateDashboard_all [OF up [unfolded updated_summary_def]]) (rule updateTab_name)
  have len: "length summaries = length (dash_tabs d)" using names by (metis length_map)
  have nm: "map (\<lambda>y. dts_dashboard_tab_name (the y)) summaries = map tab_name (dash_tabs d)"
  proof (rule nth_equalityI)
    fix i assume "i < length (map (\<lambda>y. dts_dashboard_tab_name (the y)) summaries)"
    then have i: "i < length summaries" by simp
    then have "map_option dts_dashboard_tab_name (summaries ! i) = Some (tab_name (dash_tabs d ! i))"
      using arg_cong [OF names, of "\<lambda>xs. xs ! i"] len by simp
    then show "map (\<lambda>y. dts_dashboard_tab_name (the y)) summaries ! i = map tab_name (dash_tabs d) ! i"
      using i len by (cases "summaries ! i") auto
  qed (simp add: len)
  have "find (\<lambda>y. dts_dashboard_tab_name y = tab_name t) (map the summaries) = Some ?x"
  proof -
    have ds: "distinct (map dts_dashboard_tab_name (map the summaries))" using nm dt by (simp add: comp_def)
    have at: "k < length (map the summaries)" "map the summaries ! k = ?x" using k(1) len x(2) by simp_all
    have nk: "dts_dashboard_tab_name (map the summaries ! k) = tab_name t"
      using arg_cong [OF nm, of "\<lambda>xs. xs ! k"] k len by simp
    from find_distinct [OF ds at(1)] show ?thesis unfolding nk unfolding at(2) .
  qed
  then have "GetTabSummary (server_on gl w' s) scope dq tq = Inr (convertSummary ?x)"
    by (intro GetTabSummary_spec [OF sv(1) [folded serves_on [of gl w' s]] sv(2-5) stored]) simp
  with x(1) show ?thesis by blast
qed

end
