(* ===== verification/Grid_Update.thy ===== *)
theory Grid_Update
  imports Tab_Pass Result_Search
begin

text \<open>
  An update of a group, with its storage (\<open>InflateDropAppend\<close> and \<open>GCS\<close> of \<open>pkg/updater/updater.go\<close>,
  \<open>DownloadGrid\<close> of \<open>util/gcs/gcs.go\<close>): the grid is downloaded, and uploaded on the condition that it is
  still the one that was read.
\<close>

section \<open>Columns stay well formed\<close>

definition cell_ok :: "cell \<Rightarrow> bool" where
  "cell_ok c \<longleftrightarrow> canonical (c_result c) \<and> distinct (map fst (c_metrics c))"

lemma cells_ok_iff: "cells_ok col \<longleftrightarrow> distinct (map fst (ic_cells col)) \<and> snd ` set (ic_cells col) \<subseteq> Collect cell_ok"
  by (auto simp: cells_ok_def cell_ok_def)

lemma overflow_ok: "cell_ok overflowCell"
  by (simp add: cell_ok_def overflowCell_def zero_cell_def)

lemma SplitCells_ok: "set cs \<subseteq> Collect cell_ok \<Longrightarrow> snd ` set (SplitCells n cs) \<subseteq> Collect cell_ok"
  by (auto simp: SplitCells_spec overflow_ok subset_iff)

lemma fold_update_distinct:
  "distinct (map fst m) \<Longrightarrow> distinct (map fst (fold (\<lambda>(n, c). AList.update n c) ncs m))"
  by (induction ncs arbitrary: m) (auto simp: distinct_update)

lemma update_values: "snd ` set (AList.update k v m) \<subseteq> insert v (snd ` set m)"
  by (induction m) auto

lemma fold_update_values:
  "snd ` set (fold (\<lambda>(n, c). AList.update n c) ncs m) \<subseteq> snd ` set ncs \<union> snd ` set m"
proof (induction ncs arbitrary: m)
  case (Cons x ncs)
  obtain n c where x: "x = (n, c)" by (cases x)
  show ?case using Cons [of "AList.update n c m"] update_values [of n c m] by (auto simp: x)
qed simp

definition lists_ok :: "(string, cell list) gomap \<Rightarrow> bool" where
  "lists_ok m \<longleftrightarrow> distinct (map fst m) \<and> (\<forall>cs \<in> snd ` set m. cs \<noteq> [] \<and> set cs \<subseteq> Collect cell_ok)"

lemma append_value_ok:
  assumes "lists_ok m" "cell_ok c"
  shows "lists_ok (append_value k c m)"
proof -
  let ?old = "case map_of m k of Some vs \<Rightarrow> vs | None \<Rightarrow> []"
  have "set ?old \<subseteq> Collect cell_ok" using assms(1)
    by (auto simp: lists_ok_def split: option.split dest!: map_of_SomeD) force
  with assms have "\<forall>cs \<in> insert (?old @ [c]) (snd ` set m). cs \<noteq> [] \<and> set cs \<subseteq> Collect cell_ok"
    by (simp add: lists_ok_def)
  with update_values [of k "?old @ [c]" m] assms(1) show ?thesis
    unfolding lists_ok_def append_value_def by (meson distinct_update subsetD)
qed

lemma gather_cells_ok:
  assumes "\<forall>c \<in> set grp. cells_ok c"
  shows "lists_ok (gather_cells grp)"
proof -
  have inner: "snd ` set kvs \<subseteq> Collect cell_ok \<Longrightarrow> lists_ok m \<Longrightarrow> lists_ok (fold (\<lambda>(k, c). append_value k c) kvs m)" for kvs m
    by (induction kvs arbitrary: m) (auto simp: append_value_ok)
  have "lists_ok m \<Longrightarrow> lists_ok (fold (\<lambda>c m. fold (\<lambda>(k, c). append_value k c) (ic_cells c) m) grp m)" for m
    using assms by (induction grp arbitrary: m) (auto simp: cells_ok_iff inner)
  moreover have "lists_ok []" by (simp add: lists_ok_def)
  ultimately show ?thesis by (simp add: gather_cells_def)
qed

lemma split_all_ok:
  assumes "lists_ok m"
  shows "distinct (map fst (fold (\<lambda>(name, cs) out. fold (\<lambda>(n, c). AList.update n c) (SplitCells name cs) out) m [])) \<and>
    snd ` set (fold (\<lambda>(name, cs) out. fold (\<lambda>(n, c). AList.update n c) (SplitCells name cs) out) m []) \<subseteq> Collect cell_ok"
proof -
  have "distinct (map fst out) \<and> snd ` set out \<subseteq> Collect cell_ok \<Longrightarrow>
      \<forall>cs \<in> snd ` set m. cs \<noteq> [] \<and> set cs \<subseteq> Collect cell_ok \<Longrightarrow>
      distinct (map fst (fold (\<lambda>(name, cs) out. fold (\<lambda>(n, c). AList.update n c) (SplitCells name cs) out) m out)) \<and>
      snd ` set (fold (\<lambda>(name, cs) out. fold (\<lambda>(n, c). AList.update n c) (SplitCells name cs) out) m out) \<subseteq> Collect cell_ok" for out
  proof (induction m arbitrary: out)
    case (Cons x m)
    obtain name cs where x: "x = (name, cs)" by (cases x)
    let ?out = "fold (\<lambda>(n, c). AList.update n c) (SplitCells name cs) out"
    have "snd ` set (SplitCells name cs) \<union> snd ` set out \<subseteq> Collect cell_ok"
      using SplitCells_ok [of cs name] Cons.prems by (simp add: x)
    with fold_update_values [of "SplitCells name cs" out] have "snd ` set ?out \<subseteq> Collect cell_ok" by (rule subset_trans)
    then show ?case using Cons.IH [of ?out] Cons.prems by (simp add: x fold_update_distinct)
  qed simp
  with assms show ?thesis by (simp add: lists_ok_def)
qed

lemma merge_group_ok:
  assumes "\<forall>c \<in> set grp. cells_ok c"
  shows "cells_ok (merge_group nl tg grp)"
proof (cases "\<exists>c. grp = [c]")
  case True
  with assms show ?thesis by (auto simp: merge_group_def)
next
  case False
  note g = gather_cells_ok [OF assms]
  have "distinct (map fst (map (\<lambda>(k, cs). (k, hd cs)) (gather_cells grp)))"
    using g by (simp add: lists_ok_def comp_def split_beta)
  moreover have "snd ` set (map (\<lambda>(k, cs). (k, hd cs)) m) \<subseteq> Collect cell_ok"
    if "\<forall>cs \<in> snd ` set m. cs \<noteq> [] \<and> set cs \<subseteq> Collect cell_ok" for m :: "(string, cell list) gomap"
    using that by (induction m) (auto dest!: hd_in_set)
  then have "snd ` set (map (\<lambda>(k, cs). (k, hd cs)) (gather_cells grp)) \<subseteq> Collect cell_ok"
    using g unfolding lists_ok_def by blast
  moreover have "ic_cells (merge_group nl tg grp) =
      (if tg_ignore_old_results tg then map (\<lambda>(k, cs). (k, hd cs)) (gather_cells grp)
       else fold (\<lambda>(name, cs) out. fold (\<lambda>(n, c). AList.update n c) (SplitCells name cs) out) (gather_cells grp) [])"
    using False by (cases grp; cases "tl grp") (simp_all add: merge_group_def Let_def)
  ultimately show ?thesis using split_all_ok [OF g] unfolding cells_ok_iff by presburger
qed

lemma groupColumns_ok: "\<forall>c \<in> set cols. cells_ok c \<Longrightarrow> \<forall>c \<in> set (groupColumns nl tg cols). cells_ok c"
  by (auto simp: groupColumns_groups intro: merge_group_ok)

lemma overrideBuild_ok: "\<forall>c \<in> set cols. cells_ok c \<Longrightarrow> \<forall>c \<in> set (overrideBuild ft rs tg cols). cells_ok c"
  by (auto simp: overrideBuild_def Let_def cells_ok_iff)

lemma truncateLastColumn_ok:
  assumes "\<forall>c \<in> set cols. cells_ok c"
  shows "\<forall>c \<in> set (truncateLastColumn cols orig mx entity). cells_ok c"
proof (cases cols rule: rev_cases)
  case (snoc cs c)
  have "cell_ok (truncate_last_cell orig mx entity x)" if "cell_ok x" for x
    using that by (simp add: truncate_last_cell_def cell_ok_def)
  moreover have "cells_ok c" using assms snoc by simp
  ultimately have "cells_ok (c\<lparr>ic_cells := map (\<lambda>(n, c). (n, truncate_last_cell orig mx entity c))
      (filter (\<lambda>(n, c). n \<noteq> truncatedRowName) (ic_cells c))\<rparr>)"
    by (auto simp: cells_ok_iff comp_def split_beta distinct_map_filter)
  with assms snoc show ?thesis by (simp add: truncateLastColumn_def)
qed (simp add: truncateLastColumn_def)

lemma deletedColumn_ok: "\<forall>c \<in> set (deletedColumn c'). cells_ok c"
  by (simp add: deletedColumn_def cells_ok_def zero_cell_def)

lemma blank_empty_ok: "cells_ok c \<Longrightarrow> cells_ok (blank_empty c)"
  by (simp add: blank_empty_def cells_ok_iff)

section \<open>What is built and stored\<close>

lemma shrink_loop_built:
  assumes "shrink_loop mkgrid marshal expired orig m i cols gb = Inr (res, cols')"
    and "\<And>cs g. \<forall>c \<in> set cs. cells_ok c \<Longrightarrow> mkgrid cs = Inr g \<Longrightarrow> P g"
    and "\<forall>c \<in> set cols. cells_ok c" "P (fst gb)"
  shows "(\<forall>gb'. res = Some gb' \<longrightarrow> P (fst gb')) \<and> (\<forall>c \<in> set cols'. cells_ok c)"
  using assms
proof (induction mkgrid marshal expired orig m i cols gb rule: shrink_loop.induct)
  case (1 mkgrid marshal expired orig m i cols gb)
  let ?cols = "truncateLastColumn (take i cols) (int orig) (int m) ''byte'' @ drop i cols"
  have ok: "\<forall>c \<in> set ?cols. cells_ok c"
    using truncateLastColumn_ok [of "take i cols" "int orig" "int m" "''byte''"] "1.prems"(3) by (auto dest: in_set_takeD in_set_dropD)
  show ?case
  proof (cases "i = 0 \<or> expired i")
    case True
    with "1.prems" show ?thesis by (cases "i = 0") (auto simp: shrink_loop_stop)
  next
    case False
    then have i: "i \<noteq> 0" and e: "\<not> expired i" by simp_all
    from "1.prems"(1) [unfolded shrink_loop_step [of expired, OF e i]] obtain g1 b1 where
      g1: "mkgrid (take i ?cols) = Inr g1" "marshal g1 = Inr b1"
      "(if length b1 < m div 2 then Inr (Some (g1, b1), ?cols)
        else shrink_loop mkgrid marshal expired orig m (i div 2) ?cols (g1, b1)) = Inr (res, cols')"
      by (auto simp: Let_def go_simps)
    have "\<forall>c \<in> set (take i ?cols). cells_ok c" using ok by (blast dest: in_set_takeD)
    from "1.prems"(2) [OF this g1(1)] have P1: "P g1" .
    show ?thesis
    proof (cases "length b1 < m div 2")
      case True
      with g1(3) ok P1 show ?thesis by auto
    next
      case nf: False
      with g1(3) have "shrink_loop mkgrid marshal expired orig m (i div 2) ?cols (g1, b1) = Inr (res, cols')" by simp
      from "1.IH" [OF i e refl nf this "1.prems"(2) ok] P1 show ?thesis by simp
    qed
  qed
qed

text \<open>A grid whose columns were compressed from well-formed ones.\<close>

definition well_built :: "grid \<Rightarrow> bool" where
  "well_built g \<longleftrightarrow> (\<exists>cols. (\<forall>c \<in> set cols. cells_ok c) \<and> shows_cells cols g)"

lemma well_built_ok: "well_built g \<Longrightarrow> grid_ok g"
  by (auto simp: well_built_def intro: shows_cells_grid_ok)

lemma constructed_well:
  assumes "\<forall>c \<in> set cols. cells_ok c" "0 \<le> tg_num_failures_to_alert tg" "constructGridFromGroupConfig nl tg cols issues = Inr g"
  shows "well_built g"
proof -
  from ConstructGrid_shows [OF assms(1,2)] assms(3) have "shows_cells (map (with_stats 0) cols) g"
    unfolding constructGridFromGroupConfig_def by (metis sum.inject(2))
  with assms(1) show ?thesis unfolding well_built_def by (intro exI [of _ "map (with_stats 0) cols"]) simp
qed

lemma shrunk_well:
  assumes ok: "\<forall>c \<in> set cols. cells_ok c" and tg: "0 \<le> tg_num_failures_to_alert tg"
    and run: "shrinkGridInline nl marshal expired tg cols issues m = Inr (g, buf)"
  shows "well_built g"
proof -
  let ?mkgrid = "\<lambda>cs. constructGridFromGroupConfig nl tg cs issues"
  from run obtain g0 b0 where g0: "?mkgrid cols = Inr g0" "marshal g0 = Inr b0"
    by (auto simp: shrinkGridInline_def go_simps)
  note w0 = constructed_well [OF ok tg g0(1)]
  show ?thesis
  proof (cases "m = 0 \<or> length b0 < m")
    case True
    with run g0 w0 show ?thesis by (auto simp: shrinkGridInline_def)
  next
    case False
    with run g0 obtain res cols' where
      loop: "shrink_loop ?mkgrid marshal expired (length b0) m (length cols div 2) cols (g0, b0) = Inr (res, cols')"
      "(case res of Some gb \<Rightarrow> Inr gb
        | None \<Rightarrow> (case cols' of [] \<Rightarrow> Inl (Panic ''index out of range'')
            | c # _ \<Rightarrow> go_bind (constructGridFromGroupConfig nl tg (deletedColumn c) []) (\<lambda>g.
                go_bind (marshal g) (\<lambda>buf. Inr (g, buf))))) = Inr (g, buf)"
      by (auto simp: shrinkGridInline_def Let_def go_simps)
    have built: "(\<forall>gb. res = Some gb \<longrightarrow> well_built (fst gb)) \<and> (\<forall>c \<in> set cols'. cells_ok c)"
      by (rule shrink_loop_built [OF loop(1) _ ok]) (use constructed_well tg w0 in \<open>blast, simp\<close>)
    show ?thesis
    proof (cases res)
      case (Some gb)
      with loop(2) built show ?thesis by auto
    next
      case None
      with loop(2) show ?thesis
        by (auto simp: go_simps split: list.splits intro: constructed_well [OF deletedColumn_ok tg])
    qed
  qed
qed

lemma finish_update_well:
  assumes "\<forall>c \<in> set cols. cells_ok c" "0 \<le> tg_num_failures_to_alert tg"
    and "finish_update nl marshal expired tg issues cols = Inr (g, buf)"
  shows "\<exists>stored. marshal stored = Inr buf \<and> well_built stored \<and> g = stored\<lparr>grid_config := Some tg\<rparr> \<and> grid_config stored = None"
proof -
  from assms(3) obtain g0 where g0: "shrinkGridInline nl marshal expired tg (truncateGrid (SortStarted cols) byteCeiling) issues byteCeiling
      = Inr (g0, buf)" "g = g0\<lparr>grid_config := Some tg\<rparr>"
    by (auto simp: finish_update_def go_simps)
  have "\<forall>c \<in> set (truncateGrid (SortStarted cols) byteCeiling). cells_ok c"
    using truncateGrid_spec [of "SortStarted cols" byteCeiling] assms(1) by (auto simp: SortStarted_def dest!: in_set_takeD)
  from shrunk_well [OF this assms(2) g0(1)] shrinkGridInline_config [OF g0(1)] g0(2) show ?thesis by blast
qed

lemma old_columns_ok:
  assumes "old_columns cancelled now stop reprocess tg old = Inr (cols, issues)" "\<forall>j. \<not> cancelled j"
    and "\<And>g. old = Some g \<Longrightarrow> grid_ok g"
  shows "\<forall>c \<in> set cols. cells_ok c"
proof (cases old)
  case (Some g)
  let ?kept = "map (inflated_at g) (kept_columns stop (now - reprocess) False 0 (grid_columns g))"
  have inflated: "\<forall>c \<in> set ?kept. cells_ok c"
    using assms(3) [OF Some] by (auto dest!: kept_columns_less intro: inflated_cells_ok)
  moreover have "cells_ok c" if "reprocessColumn g tg when = Some c" for c "when"
    using that by (auto simp: reprocessColumn_def cells_ok_def zero_cell_def split: if_splits)
  moreover have "c \<in> set cs" if "c \<in> set (truncateRunning (SortStarted cs) t)" for c cs t
  proof -
    from that have "c \<in> set (SortStarted cs)" by (auto simp: truncateRunning_spec split: if_splits dest: set_takeWhileD)
    then show ?thesis by (simp add: SortStarted_def)
  qed
  ultimately show ?thesis
    using assms(1) by (auto simp: old_columns_def Some InflateGrid_kept [OF assms(3) [OF Some] assms(2)]
      Let_def split: option.splits prod.splits) fastforce+
qed (use assms(1) in \<open>simp add: old_columns_def\<close>)

lemma read_more_ok:
  "read_more cols evs = Some (Inr (cols', unread)) \<Longrightarrow> \<forall>c \<in> set cols. cells_ok c \<Longrightarrow>
   \<forall>c. NewColumn c \<in> set evs \<longrightarrow> cells_ok c \<Longrightarrow> \<forall>c \<in> set cols'. cells_ok c"
  by (induction cols evs rule: read_more.induct) (auto simp: blank_empty_ok)

lemma read_first_ok:
  "read_first evs = Some (Inr (cols, unread)) \<Longrightarrow> \<forall>c. NewColumn c \<in> set evs \<longrightarrow> cells_ok c \<Longrightarrow>
   \<forall>c \<in> set cols. cells_ok c"
  by (induction evs rule: read_first.induct) (auto simp: blank_empty_ok dest!: read_more_ok)

text \<open>An update makes a well-formed grid of a well-formed one and the columns of its reader.\<close>

lemma InflateDropAppend_well:
  assumes run: "InflateDropAppend nl ft rs marshal cancelled expired now reprocess tg old bytes evs = Some (Inr (g, buf, unread))"
    and ok: "\<forall>j. \<not> cancelled j" "0 \<le> tg_num_failures_to_alert tg" "\<And>g. old = Some g \<Longrightarrow> grid_ok g"
      "\<forall>c. NewColumn c \<in> set evs \<longrightarrow> cells_ok c"
  shows "\<exists>stored. marshal stored = Inr buf \<and> well_built stored \<and> g = stored\<lparr>grid_config := Some tg\<rparr> \<and> grid_config stored = None"
proof -
  from run obtain stop oldCols issues cols where
    o: "old_columns cancelled now stop reprocess tg old = Inr (oldCols, issues)"
    and c: "cols = oldCols \<or> (\<exists>cs u. read_first evs = Some (Inr (cs, u)) \<and> cols = groupColumns nl tg (overrideBuild ft rs tg cs @ oldCols))"
    and f: "finish_update nl marshal expired tg issues cols = Inr (g, buf)"
    by (auto simp: InflateDropAppend_def Let_def go_simps split: sum.splits prod.splits if_splits option.splits)
  note old_ok = old_columns_ok [OF o ok(1,3)]
  have "\<forall>c \<in> set cols. cells_ok c"
    using c
  proof
    assume "\<exists>cs u. read_first evs = Some (Inr (cs, u)) \<and> cols = groupColumns nl tg (overrideBuild ft rs tg cs @ oldCols)"
    then obtain cs u where cs: "read_first evs = Some (Inr (cs, u))" "cols = groupColumns nl tg (overrideBuild ft rs tg cs @ oldCols)"
      by blast
    have "\<forall>c \<in> set (overrideBuild ft rs tg cs). cells_ok c" by (rule overrideBuild_ok) (rule read_first_ok [OF cs(1) ok(4)])
    with old_ok have "\<forall>c \<in> set (overrideBuild ft rs tg cs @ oldCols). cells_ok c" by auto
    then show ?thesis unfolding cs(2) by (rule groupColumns_ok)
  qed (use old_ok in simp)
  from finish_update_well [OF this ok(2) f] show ?thesis .
qed

section \<open>An update and its storage\<close>

text \<open>
  \<open>DownloadGrid\<close> with what it returns beside an error: the attributes (size and generation), and what could
  be decoded of a grid that could not be decoded as a whole (\<open>partial\<close>).  The caller logs the error and goes on.
\<close>

definition opened_attrs :: "'s gcs_lib \<Rightarrow> 's world \<Rightarrow> url \<Rightarrow> (int \<times> int) option" where
  "opened_attrs gl w p =
     (if is_cloud p then
        (case gl_read gl (wd_cloud w) None (Bucket p) (Object p) of
           Inr (_, a) \<Rightarrow> Some (ob_size a, ob_generation a) | Inl _ \<Rightarrow> None)
      else Some (0, 0))"

definition old_grid ::
    "server \<Rightarrow> 's gcs_lib \<Rightarrow> (string \<Rightarrow> grid) \<Rightarrow> 's world \<Rightarrow> url \<Rightarrow> grid option \<times> (int \<times> int) option" where
  "old_grid s gl partial w p =
     (case client_Open (srv_urls s) gl NewClient w p of
        Inl e \<Rightarrow> (if e = ErrObjectNotExist then Some empty_grid else None, None)
      | Inr content \<Rightarrow>
          (case go_bind (srv_zlib s (Inr content)) id of
             Inl _ \<Rightarrow> (None, None)
           | Inr pbuf \<Rightarrow>
               (Some (case srv_grid s pbuf of Inr g \<Rightarrow> g | Inl _ \<Rightarrow> partial pbuf), opened_attrs gl w p)))"

definition update_condition :: "(int \<times> int) option \<Rightarrow> conditions" where
  "update_condition attrs =
     (case attrs of
        None \<Rightarrow> no_conditions\<lparr>cn_does_not_exist := True\<rparr>
      | Some (_, generation) \<Rightarrow> no_conditions\<lparr>cn_generation_match := generation\<rparr>)"

text \<open>A grid that is too large is compressed and written without a condition.\<close>

definition update_client :: "(int \<times> int) option \<Rightarrow> client" where
  "update_client attrs =
     (if case attrs of Some (sz, _) \<Rightarrow> int byteCeiling \<le> sz | None \<Rightarrow> False then NewClient
      else client_If NewClient (Some (update_condition attrs)) (Some (update_condition attrs)))"

text \<open>
  The whole update: \<open>w0\<close> is the storage when the grid is downloaded, and \<open>w1\<close> the storage when the new one is
  uploaded; others may have written in between.
\<close>

definition update_grid ::
    "server \<Rightarrow> 's gcs_lib \<Rightarrow> (grid \<Rightarrow> string go) \<Rightarrow> (string \<Rightarrow> grid) \<Rightarrow> natural_less \<Rightarrow> (int \<Rightarrow> string \<Rightarrow> string) \<Rightarrow>
     (char \<times> string) list \<Rightarrow> (nat \<Rightarrow> bool) \<Rightarrow> (nat \<Rightarrow> bool) \<Rightarrow> int \<Rightarrow> int \<Rightarrow> bool \<Rightarrow> test_group \<Rightarrow> url \<Rightarrow>
     reader_event list \<Rightarrow> 's world \<Rightarrow> 's world \<Rightarrow> (bool go \<times> 's world) option" where
  "update_grid s gl marshal partial nl ft rs cancelled expired now reprocess write tg p evs w0 w1 =
     (case old_grid s gl partial w0 p of
        (old, attrs) \<Rightarrow>
          (case InflateDropAppend nl ft rs marshal cancelled expired now reprocess tg old
              (map_option (\<lambda>(sz, _). nat sz) attrs) evs of
             None \<Rightarrow> None
           | Some (Inl e) \<Rightarrow> Some (Inl e, w1)
           | Some (Inr (g, buf, unread)) \<Rightarrow>
               if \<not> write then Some (Inr unread, w1)
               else
                 (case client_Upload (srv_urls s) gl (update_client attrs) w1 p buf of
                    (Inl e, w') \<Rightarrow> Some (wrap_error ''upload: '' (Inl (opened e)), w')
                  | (Inr a, w') \<Rightarrow> Some (Inr unread, w'))))"

text \<open>The updaters of the two sources; a group whose results are elsewhere is left alone.\<close>

definition GCS_update ::
    "server \<Rightarrow> 's gcs_lib \<Rightarrow> (grid \<Rightarrow> string go) \<Rightarrow> (string \<Rightarrow> grid) \<Rightarrow> natural_less \<Rightarrow> (int \<Rightarrow> string \<Rightarrow> string) \<Rightarrow>
     (char \<times> string) list \<Rightarrow> (nat \<Rightarrow> bool) \<Rightarrow> (nat \<Rightarrow> bool) \<Rightarrow> int \<Rightarrow> bool \<Rightarrow> test_group \<Rightarrow> url \<Rightarrow>
     reader_event list \<Rightarrow> 's world \<Rightarrow> 's world \<Rightarrow> (bool go \<times> 's world) option" where
  "GCS_update s gl marshal partial nl ft rs cancelled expired now write tg p evs w0 w1 =
     (if \<not> tg_use_kubernetes_client tg \<and> get_gcs_config tg = None then Some (Inr False, w1)
      else update_grid s gl marshal partial nl ft rs cancelled expired now (20 * 60) write tg p evs w0 w1)"

definition RS_update ::
    "download_client option \<Rightarrow> server \<Rightarrow> 's gcs_lib \<Rightarrow> (grid \<Rightarrow> string go) \<Rightarrow> (string \<Rightarrow> grid) \<Rightarrow> natural_less \<Rightarrow>
     (int \<Rightarrow> string \<Rightarrow> string) \<Rightarrow> (char \<times> string) list \<Rightarrow> (nat \<Rightarrow> bool) \<Rightarrow> (nat \<Rightarrow> bool) \<Rightarrow> int \<Rightarrow> bool \<Rightarrow>
     test_group \<Rightarrow> url \<Rightarrow> reader_event list \<Rightarrow> 's world \<Rightarrow> 's world \<Rightarrow> (bool go \<times> 's world) option" where
  "RS_update dc s gl marshal partial nl ft rs cancelled expired now write tg p evs w0 w1 =
     (if \<not> shouldUpdate tg dc then Some (Inr False, w1)
      else update_grid s gl marshal partial nl ft rs cancelled expired now (20 * 60) write tg p evs w0 w1)"

text \<open>Which of them updates a group (\<open>cmd/updater/main.go\<close>).\<close>

datatype update_source = gcsSource | resultStoreSource | unknownSource

definition update_source_of :: "test_group \<Rightarrow> update_source" where
  "update_source_of tg =
     (if tg_use_kubernetes_client tg \<or> get_gcs_config tg \<noteq> None then gcsSource
      else if get_resultstore_config tg \<noteq> None then resultStoreSource
      else unknownSource)"

definition updateGroup ::
    "(test_group \<Rightarrow> url \<Rightarrow> 's world \<Rightarrow> 's world \<Rightarrow> (bool go \<times> 's world) option) \<Rightarrow>
     (test_group \<Rightarrow> url \<Rightarrow> 's world \<Rightarrow> 's world \<Rightarrow> (bool go \<times> 's world) option) \<Rightarrow>
     test_group \<Rightarrow> url \<Rightarrow> 's world \<Rightarrow> 's world \<Rightarrow> (bool go \<times> 's world) option" where
  "updateGroup updateGCS updateResultStore tg p w0 w1 =
     (case update_source_of tg of
        gcsSource \<Rightarrow> updateGCS tg p w0 w1
      | resultStoreSource \<Rightarrow> updateResultStore tg p w0 w1
      | unknownSource \<Rightarrow> Some (Inl (Failed ''invalid result source (must be one of GCS, ResultStore)''), w1))"

text \<open>
  A group is updated when its results are in one of the two sources, and for ResultStore a client is at hand;
  the guards of the updaters agree with the choice between them.
\<close>

lemma updateGroup_spec:
  assumes gcs: "\<And>tg p w0 w1. updateGCS tg p w0 w1 =
      GCS_update s gl marshal partial nl ft rs cancelled expired now write tg p (gcs_events tg) w0 w1"
    and rst: "\<And>tg p w0 w1. updateResultStore tg p w0 w1 =
      RS_update dc s gl marshal partial nl ft rs cancelled expired now write tg p (rst_events tg) w0 w1"
  shows "updateGroup updateGCS updateResultStore tg p w0 w1 =
    (if tg_use_kubernetes_client tg \<or> get_gcs_config tg \<noteq> None
     then update_grid s gl marshal partial nl ft rs cancelled expired now (20 * 60) write tg p (gcs_events tg) w0 w1
     else if get_resultstore_config tg = None
     then Some (Inl (Failed ''invalid result source (must be one of GCS, ResultStore)''), w1)
     else if dc = None then Some (Inr False, w1)
     else update_grid s gl marshal partial nl ft rs cancelled expired now (20 * 60) write tg p (rst_events tg) w0 w1)"
  by (simp add: updateGroup_def update_source_of_def gcs rst GCS_update_def RS_update_def shouldUpdate_def)

section \<open>What others may have done\<close>

inductive gcs_run :: "'s gcs_lib \<Rightarrow> 's \<Rightarrow> 's \<Rightarrow> bool" for gl where
  run_none: "gcs_run gl s s"
| run_write: "gcs_run gl s s1 \<Longrightarrow> gl_write gl s1 c b n buf = (r, s2) \<Longrightarrow> gcs_run gl s s2"
| run_copy: "gcs_run gl s s1 \<Longrightarrow> gl_copy gl s1 rc from wc to = (r, s2) \<Longrightarrow> gcs_run gl s s2"

lemma run_renewed:
  assumes "gcs_uses gl obj used" "gcs_run gl s s'"
  shows "renewed obj used k s s'"
  using assms(2)
proof (induction rule: gcs_run.induct)
  case (run_write s s1 c b n buf r s2)
  from renewed_trans [OF run_write.IH renewed_write [OF assms(1) run_write.hyps(2)]] show ?case .
next
  case (run_copy s s1 rc "from" wc to r s2)
  from renewed_trans [OF run_copy.IH renewed_copy [OF assms(1) run_copy.hyps(2)]] show ?case .
qed (rule renewed_refl)

text \<open>An object that has the same generation as before is the same, and one that is there stays there.\<close>

lemma run_generation:
  assumes "gcs_writes gl obj" "gcs_run gl s s'" "generation_of (obj s' k) = generation_of (obj s k)"
  shows "obj s' k = obj s k"
proof -
  from assms(1) obtain used where us: "gcs_uses gl obj used" unfolding gcs_writes_def by blast
  then have "uses_known obj used" by (simp add: gcs_uses_def)
  from renewed_same [OF this run_renewed [OF us assms(2)] assms(3)] show ?thesis .
qed

lemma run_present:
  assumes "gcs_writes gl obj" "gcs_run gl s s'" "obj s k \<noteq> None"
  shows "obj s' k \<noteq> None"
proof -
  from assms(1) obtain used where us: "gcs_uses gl obj used" unfolding gcs_writes_def by blast
  then have "0 \<in> used s k" by (cases k) (simp add: gcs_uses_def uses_known_def)
  with run_renewed [OF us assms(2), of k] assms(3) show ?thesis
    by (auto simp: renewed_def generation_of_def simp del: split_paired_All split: option.splits)
qed

section \<open>No update is lost\<close>

lemma uploaded_if:
  assumes wr: "gcs_writes gl obj" and p: "is_cloud p"
    and up: "client_Upload ul gl cl w p buf = (r, w')"
  shows "(\<exists>e. r = Inl e \<and> obj (wd_cloud w') = obj (wd_cloud w)) \<or>
    (\<exists>a. r = Inr a \<and> cond_holds (cl_write cl) (obj (wd_cloud w) (Bucket p, Object p)) \<and>
       written (obj (wd_cloud w)) (Bucket p, Object p) buf a (obj (wd_cloud w')))"
proof -
  obtain r1 s' where s': "gl_write gl (wd_cloud w) (cl_write cl) (Bucket p) (Object p) buf = (r1, s')" by fastforce
  with up p have "r = r1" "wd_cloud w' = s'" by (auto simp: client_Upload_def on_cloud_def)
  with gl_write_cases [OF wr s'] show ?thesis by auto
qed

text \<open>An upload that succeeds gives the object a generation that it never had before.\<close>

lemma uploaded_new:
  assumes wr: "gcs_writes gl obj" and p: "is_cloud p" and up: "client_Upload ul gl cl w1 p buf = (Inr a, w2)"
    and run: "gcs_run gl (wd_cloud w) (wd_cloud w1)"
  defines "k \<equiv> (Bucket p, Object p)"
  shows "generation_of (obj (wd_cloud w2) k) \<noteq> generation_of (obj (wd_cloud w) k)"
proof -
  from wr obtain used where us: "gcs_uses gl obj used" unfolding gcs_writes_def by blast
  then have "generation_of (obj (wd_cloud w) k) \<in> used (wd_cloud w) k" by (simp add: k_def gcs_uses_def uses_known_def)
  with run_renewed [OF us run, of k] have old: "generation_of (obj (wd_cloud w) k) \<in> used (wd_cloud w1) k"
    by (auto simp: renewed_def)
  obtain r1 s' where s': "gl_write gl (wd_cloud w1) (cl_write cl) (Bucket p) (Object p) buf = (r1, s')" by fastforce
  with up p have "r1 = Inr a" "wd_cloud w2 = s'" by (auto simp: client_Upload_def on_cloud_def)
  with gl_write_uses(2) [OF us s'] old show ?thesis by (auto simp: k_def written_def generation_of_def)
qed

text \<open>What was read of an object that is there.\<close>

lemma old_grid_cloud:
  fixes w :: "'s world"
  assumes rd: "gcs_reads gl obj" and p: "is_cloud p"
  defines "ob \<equiv> obj (wd_cloud w) (Bucket p, Object p)"
  shows "old_grid s gl partial w p =
    (case ob of None \<Rightarrow> (Some empty_grid, None)
     | Some (content, generation) \<Rightarrow>
         (case go_bind (srv_zlib s (Inr content)) id of Inl _ \<Rightarrow> (None, None)
          | Inr pbuf \<Rightarrow> (Some (case srv_grid s pbuf of Inr g \<Rightarrow> g | Inl _ \<Rightarrow> partial pbuf),
              Some (fst (the (opened_attrs gl w p)), generation))))"
proof -
  have "case ob of
        None \<Rightarrow> gl_read gl (wd_cloud w) None (Bucket p) (Object p) = Inl ErrObjectNotExist
      | Some (buf, g) \<Rightarrow> \<exists>a. gl_read gl (wd_cloud w) None (Bucket p) (Object p) = Inr (buf, a) \<and> ob_generation a = g"
    using rd [unfolded gcs_reads_def, THEN spec [of _ "wd_cloud w"], THEN spec [of _ "Bucket p"], THEN spec [of _ "Object p"]]
    by (auto simp: ob_def split: option.splits)
  then show ?thesis using p
    by (auto simp: old_grid_def client_Open_def real_Open_plain opened_attrs_def split: option.splits sum.splits)
qed

lemma update_grid_uploads:
  assumes "update_grid s gl marshal partial nl ft rs cancelled expired now reprocess True tg p evs w0 w1 = Some (Inr unread, w2)"
  shows "\<exists>old attrs g buf a. old_grid s gl partial w0 p = (old, attrs) \<and>
    InflateDropAppend nl ft rs marshal cancelled expired now reprocess tg old (map_option (\<lambda>(sz, _). nat sz) attrs) evs =
      Some (Inr (g, buf, unread)) \<and>
    client_Upload (srv_urls s) gl (update_client attrs) w1 p buf = (Inr a, w2)"
  using assms
  by (auto simp: update_grid_def wrap_error_def split: prod.splits option.splits sum.splits go_error.splits)

text \<open>
  An update that is stored replaces the grid it has read: whatever others do to the storage in between, the
  object has not changed, or the upload fails.  A grid that could not be read is not replaced.
\<close>

lemma update_not_lost:
  assumes st: "gcs_contract gl obj" and p: "is_cloud p" and others: "gcs_run gl (wd_cloud w0) (wd_cloud w1)"
    and run: "update_grid s gl marshal partial nl ft rs cancelled expired now reprocess True tg p evs w0 w1 = Some (Inr unread, w2)"
    and small: "\<And>sz generation. opened_attrs gl w0 p = Some (sz, generation) \<Longrightarrow> sz < int byteCeiling"
  defines "k \<equiv> (Bucket p, Object p)"
  shows "obj (wd_cloud w1) k = obj (wd_cloud w0) k \<and> (\<forall>w. gcs_run gl (wd_cloud w) (wd_cloud w1) \<longrightarrow>
      generation_of (obj (wd_cloud w2) k) \<noteq> generation_of (obj (wd_cloud w) k)) \<and>
    (\<forall>k'. k' \<noteq> k \<longrightarrow> obj (wd_cloud w2) k' = obj (wd_cloud w1) k') \<and>
    (\<forall>content generation. obj (wd_cloud w0) k = Some (content, generation) \<longrightarrow> (\<exists>pbuf. go_bind (srv_zlib s (Inr content)) id = Inr pbuf))"
proof -
  from st have rd: "gcs_reads gl obj" and wr: "gcs_writes gl obj" by (simp_all add: gcs_contract_def)
  from update_grid_uploads [OF run] obtain old attrs g buf a where
    old: "old_grid s gl partial w0 p = (old, attrs)"
    and up: "client_Upload (srv_urls s) gl (update_client attrs) w1 p buf = (Inr a, w2)" by blast
  note og = old_grid_cloud [OF rd p, of s partial w0, unfolded old, folded k_def]
  from uploaded_if [OF wr p up] have
    c: "cond_holds (cl_write (update_client attrs)) (obj (wd_cloud w1) k)"
    and w: "written (obj (wd_cloud w1)) k buf a (obj (wd_cloud w2))" by (auto simp: k_def)
  note gen = run_generation [OF wr others, of k]
  have pos: "0 < generation" if "obj (wd_cloud w0) k = Some (content, generation)" for content generation
    using rd [unfolded gcs_reads_def, THEN spec [of _ "wd_cloud w0"], THEN spec [of _ "Bucket p"], THEN spec [of _ "Object p"]] that
    by (simp add: k_def)
  have cond: "update_client attrs = client_If NewClient (Some (update_condition attrs)) (Some (update_condition attrs))"
  proof -
    have "sz < int byteCeiling" if "attrs = Some (sz, generation)" for sz generation
    proof -
      from old that have "opened_attrs gl w0 p = Some (sz, generation)"
        by (auto simp: old_grid_def split: sum.splits)
      with small show ?thesis by auto
    qed
    then show ?thesis by (auto simp: update_client_def split: option.split)
  qed
  have same: "obj (wd_cloud w1) k = obj (wd_cloud w0) k \<and>
    (\<forall>content generation. obj (wd_cloud w0) k = Some (content, generation) \<longrightarrow> (\<exists>pbuf. go_bind (srv_zlib s (Inr content)) id = Inr pbuf))"
  proof (cases attrs)
    case None
    then have "obj (wd_cloud w1) k = None" using c unfolding cond by (simp add: client_If_def cond_holds_def update_condition_def)
    then have "obj (wd_cloud w0) k = None" using run_present [OF wr others, of k] by blast
    with \<open>obj (wd_cloud w1) k = None\<close> show ?thesis by simp
  next
    case (Some x)
    then obtain content generation pbuf where o0: "obj (wd_cloud w0) k = Some (content, generation)" "snd x = generation"
        "go_bind (srv_zlib s (Inr content)) id = Inr pbuf"
      using og by (auto split: option.splits sum.splits)
    obtain sz where x: "x = (sz, generation)" using o0(2) by (cases x) auto
    have "generation \<noteq> 0" using pos [OF o0(1)] by simp
    then have "generation_of (obj (wd_cloud w1) k) = generation"
      using c unfolding cond by (auto simp: client_If_def cond_holds_def update_condition_def Some x no_conditions_def generation_of_def)
    with gen o0(1) have "obj (wd_cloud w1) k = obj (wd_cloud w0) k" by (simp add: generation_of_def)
    with o0 show ?thesis by simp
  qed
  moreover have "\<forall>k'. k' \<noteq> k \<longrightarrow> obj (wd_cloud w2) k' = obj (wd_cloud w1) k'" using w by (simp add: written_def)
  moreover have "generation_of (obj (wd_cloud w2) k) \<noteq> generation_of (obj (wd_cloud w) k)"
    if "gcs_run gl (wd_cloud w) (wd_cloud w1)" for w
    unfolding k_def by (rule uploaded_new [OF wr p up that])
  ultimately show ?thesis by blast
qed

text \<open>A write whose conditions do not hold is refused as a failed precondition.\<close>

definition gcs_refuses :: "'s gcs_lib \<Rightarrow> ('s \<Rightarrow> string \<times> string \<Rightarrow> (string \<times> int) option) \<Rightarrow> bool" where
  "gcs_refuses gl obj \<longleftrightarrow>
     (\<forall>s c b n buf. \<not> cond_holds c (obj s (b, n)) \<longrightarrow> fst (gl_write gl s c b n buf) = Inl PreconditionFailed)"

text \<open>
  A stored grid that cannot be decompressed stays for ever: the update takes it for an absent one, and its
  upload is refused because there is an object.
\<close>

lemma unreadable_stuck:
  assumes st: "gcs_contract gl obj" "gcs_refuses gl obj" and p: "is_cloud p"
    and others: "gcs_run gl (wd_cloud w0) (wd_cloud w1)"
    and there: "obj (wd_cloud w0) (Bucket p, Object p) = Some (content, generation)"
    and bad: "go_bind (srv_zlib s (Inr content)) id = Inl e"
    and run: "update_grid s gl marshal partial nl ft rs cancelled expired now reprocess True tg p evs w0 w1 = Some (r, w2)"
  shows "obj (wd_cloud w2) = obj (wd_cloud w1) \<and>
    r = (case the (InflateDropAppend nl ft rs marshal cancelled expired now reprocess tg None None evs) of
           Inl e' \<Rightarrow> Inl e'
         | Inr result \<Rightarrow> wrap_error ''upload: '' (Inl (opened PreconditionFailed)))"
proof -
  from st have rd: "gcs_reads gl obj" and wr: "gcs_writes gl obj" by (simp_all add: gcs_contract_def)
  let ?k = "(Bucket p, Object p)"
  have old: "old_grid s gl partial w0 p = (None, None)" by (simp add: old_grid_cloud [OF rd p] there bad)
  from run_present [OF wr others, of ?k] there have "obj (wd_cloud w1) ?k \<noteq> None" by simp
  then have refused: "\<not> cond_holds (cl_write (update_client None)) (obj (wd_cloud w1) ?k)"
    by (simp add: update_client_def client_If_def update_condition_def cond_holds_def)
  show ?thesis
  proof (cases "InflateDropAppend nl ft rs marshal cancelled expired now reprocess tg None None evs")
    case (Some x)
    show ?thesis
    proof (cases x)
      case (Inr y)
      obtain g buf unread where y: "y = (g, buf, unread)" by (cases y)
      obtain r1 w' where up: "client_Upload (srv_urls s) gl (update_client None) w1 p buf = (r1, w')" by fastforce
      have "r1 = Inl PreconditionFailed"
        using up p st(2) [unfolded gcs_refuses_def, rule_format, OF refused, of buf]
        by (auto simp: client_Upload_def on_cloud_def)
      moreover from uploaded_if [OF wr p up] refused have "obj (wd_cloud w') = obj (wd_cloud w1)" by auto
      ultimately show ?thesis using run by (auto simp: update_grid_def old Some Inr y up)
    qed (use run Some in \<open>auto simp: update_grid_def old\<close>)
  qed (use run in \<open>simp add: update_grid_def old\<close>)
qed

section \<open>Stored grids stay well formed\<close>

definition stored_ok :: "server \<Rightarrow> 's gcs_lib \<Rightarrow> 's world \<Rightarrow> url \<Rightarrow> bool" where
  "stored_ok s gl w p \<longleftrightarrow> (\<exists>g. DownloadGrid (server_on gl w s) p = Inr (Some g) \<and> grid_ok g)"

lemma server_on_open:
  "srv_open (server_on gl w s) p =
     (case client_Open (srv_urls s) gl NewClient w p of
        Inl e \<Rightarrow> if e = ErrObjectNotExist then Inr None else Inl (opened e)
      | Inr buf \<Rightarrow> Inr (Some (Inr buf)))"
  by (simp add: server_on_def split: sum.split storage_error.split)

lemma DownloadGrid_open:
  "client_Open (srv_urls s) gl NewClient w' q = client_Open (srv_urls s) gl NewClient w q \<Longrightarrow>
   DownloadGrid (server_on gl w' s) q = DownloadGrid (server_on gl w s) q"
  unfolding DownloadGrid_def server_on_open server_on_simps by simp

lemma old_grid_stored:
  assumes "DownloadGrid (server_on gl w s) p = Inr (Some g)"
  shows "fst (old_grid s gl partial w p) = Some g"
proof (cases "client_Open (srv_urls s) gl NewClient w p")
  case (Inl e)
  with assms show ?thesis
    by (auto simp: old_grid_def DownloadGrid_def server_on_open wrap_error_def split: if_splits go_error.splits)
next
  case (Inr content)
  with assms show ?thesis
    by (cases "srv_zlib s (Inr content)"; cases "projr (srv_zlib s (Inr content))")
       (auto simp: old_grid_def DownloadGrid_def server_on_open wrap_error_def go_simps split: go_error.splits)
qed

definition step_ok :: "test_group \<Rightarrow> (nat \<Rightarrow> bool) \<Rightarrow> reader_event list \<Rightarrow> bool" where
  "step_ok tg cancelled evs \<longleftrightarrow>
     0 \<le> tg_num_failures_to_alert tg \<and> (\<forall>j. \<not> cancelled j) \<and> (\<forall>c. NewColumn c \<in> set evs \<longrightarrow> cells_ok c)"

text \<open>What an update does: nothing, or one upload of a well-formed grid.\<close>

lemma update_grid_effect:
  assumes run: "update_grid s gl marshal partial nl ft rs cancelled expired now reprocess write tg p evs w0 w1 = Some (r, w2)"
    and ok: "step_ok tg cancelled evs" "stored_ok s gl w0 p"
  shows "w2 = w1 \<or> (\<exists>cl stored buf. marshal stored = Inr buf \<and> well_built stored \<and> grid_config stored = None \<and>
    w2 = snd (client_Upload (srv_urls s) gl cl w1 p buf) \<and>
    ((\<exists>unread. r = Inr unread) \<longleftrightarrow> (\<exists>a. fst (client_Upload (srv_urls s) gl cl w1 p buf) = Inr a)))"
proof -
  obtain old attrs where old: "old_grid s gl partial w0 p = (old, attrs)" by fastforce
  have g: "grid_ok g" if "old = Some g" for g
    using ok(2) old_grid_stored [of gl w0 s p _ partial] that old by (auto simp: stored_ok_def)
  show ?thesis
  proof (cases "InflateDropAppend nl ft rs marshal cancelled expired now reprocess tg old (map_option (\<lambda>(sz, _). nat sz) attrs) evs")
    case (Some x)
    show ?thesis
    proof (cases x)
      case (Inr y)
      obtain grd buf unread where y: "y = (grd, buf, unread)" by (cases y)
      have "\<exists>stored. marshal stored = Inr buf \<and> well_built stored \<and> grd = stored\<lparr>grid_config := Some tg\<rparr> \<and> grid_config stored = None"
        using InflateDropAppend_well [OF Some [unfolded Inr y]] ok(1) g by (simp add: step_ok_def)
      then obtain stored where stored: "marshal stored = Inr buf" "well_built stored" "grid_config stored = None" by blast
      show ?thesis
      proof (cases "write")
        case True
        obtain r1 w' where up: "client_Upload (srv_urls s) gl (update_client attrs) w1 p buf = (r1, w')" by fastforce
        have "w2 = w' \<and> ((\<exists>unread. r = Inr unread) \<longleftrightarrow> (\<exists>a. r1 = Inr a))"
          using run by (cases r1) (auto simp: update_grid_def old Some Inr y True up wrap_error_def split: go_error.splits)
        with stored up show ?thesis by (metis fst_conv snd_conv)
      qed (use run in \<open>simp add: update_grid_def old Some Inr y\<close>)
    qed (use run in \<open>simp add: update_grid_def old Some\<close>)
  qed (use run in \<open>simp add: update_grid_def old\<close>)
qed

lemma update_keeps_ok:
  assumes st: "gcs_contract gl obj" and dec: "decodes s marshal"
    and run: "update_grid s gl marshal partial nl ft rs cancelled expired now reprocess write tg p evs w0 w1 = Some (r, w2)"
    and ok: "step_ok tg cancelled evs" "stored_ok s gl w0 p" "stored_ok s gl w1 q"
  shows "stored_ok s gl w2 q"
  using update_grid_effect [OF run ok(1,2)]
proof (elim disjE exE conjE)
  fix cl stored buf
  assume up: "marshal stored = Inr buf" "well_built stored" "w2 = snd (client_Upload (srv_urls s) gl cl w1 p buf)"
  note opened = storage_client.open_upload [OF client_storage [OF st, of "srv_urls s" cl], of w1 p buf q]
  show ?thesis
  proof (cases "client_place (srv_urls s) q = client_place (srv_urls s) p \<and> (\<exists>a. fst (client_Upload (srv_urls s) gl cl w1 p buf) = Inr a)")
    case True
    with opened have "client_Open (srv_urls s) gl NewClient w2 q = Inr buf" by (simp add: up(3))
    from DownloadGrid_written [OF dec up(1) this] well_built_ok [OF up(2)] show ?thesis by (auto simp: stored_ok_def)
  next
    case False
    with opened have "client_Open (srv_urls s) gl NewClient w2 q = client_Open (srv_urls s) gl NewClient w1 q" by (simp add: up(3))
    from DownloadGrid_open [OF this] ok(3) show ?thesis by (simp add: stored_ok_def)
  qed
qed (use ok(3) in simp)

text \<open>
  The storage as any number of updaters change it: an update may read any of the earlier states, the newest
  comes first.
\<close>

inductive grid_history ::
    "server \<Rightarrow> 's gcs_lib \<Rightarrow> (grid \<Rightarrow> string go) \<Rightarrow> (string \<Rightarrow> grid) \<Rightarrow> url set \<Rightarrow> 's world list \<Rightarrow> bool"
  for s gl marshal partial paths where
  history_start: "grid_history s gl marshal partial paths [w]"
| history_update: "grid_history s gl marshal partial paths (w1 # ws) \<Longrightarrow> w0 \<in> set (w1 # ws) \<Longrightarrow> p \<in> paths \<Longrightarrow>
    step_ok tg cancelled evs \<Longrightarrow>
    update_grid s gl marshal partial nl ft rs cancelled expired now reprocess write tg p evs w0 w1 = Some (r, w2) \<Longrightarrow>
    grid_history s gl marshal partial paths (w2 # w1 # ws)"

lemma history_ok:
  assumes "grid_history s gl marshal partial paths ws" "gcs_contract gl obj" "decodes s marshal"
    and "\<forall>p \<in> paths. stored_ok s gl (last ws) p"
  shows "\<forall>w \<in> set ws. \<forall>p \<in> paths. stored_ok s gl w p"
  using assms
proof (induction rule: grid_history.induct)
  case (history_update w1 ws w0 p tg cancelled evs nl ft rs expired now reprocess "write" r w2)
  then have IH: "\<forall>w \<in> set (w1 # ws). \<forall>p \<in> paths. stored_ok s gl w p" by simp
  have "stored_ok s gl w2 q" if "q \<in> paths" for q
    by (rule update_keeps_ok [OF history_update.prems(1,2) history_update.hyps(5,4)])
       (use IH history_update.hyps(2,3) that in \<open>blast, simp\<close>)
  with IH show ?case by simp
qed simp

lemma update_runs:
  assumes "update_grid s gl marshal partial nl ft rs cancelled expired now reprocess write tg p evs w0 w1 = Some (r, w2)"
  shows "gcs_run gl (wd_cloud w1) (wd_cloud w2)"
proof -
  have "w2 = w1 \<or> (\<exists>cl buf. w2 = snd (client_Upload (srv_urls s) gl cl w1 p buf))"
    using assms by (auto simp: update_grid_def split: prod.splits option.splits sum.splits if_splits) (metis snd_conv)+
  moreover have "gcs_run gl (wd_cloud w1) (wd_cloud (snd (client_Upload (srv_urls s) gl cl w1 p buf)))" for cl buf
    using run_write [OF run_none, of gl "wd_cloud w1" "cl_write cl" "Bucket p" "Object p" buf]
    by (cases "gl_write gl (wd_cloud w1) (cl_write cl) (Bucket p) (Object p) buf")
       (auto simp: client_Upload_def on_cloud_def on_disk_def intro: run_none)
  ultimately show ?thesis by (auto intro: run_none)
qed

lemma run_trans: "gcs_run gl s1 s2 \<Longrightarrow> gcs_run gl s0 s1 \<Longrightarrow> gcs_run gl s0 s2"
  by (induction rule: gcs_run.induct) (auto intro: gcs_run.intros)

lemma history_runs:
  "grid_history s gl marshal partial paths ws \<Longrightarrow> w0 \<in> set ws \<Longrightarrow> gcs_run gl (wd_cloud w0) (wd_cloud (hd ws))"
proof (induction rule: grid_history.induct)
  case (history_update w1 ws w0' p tg cancelled evs nl ft rs expired now reprocess "write" r w2)
  then show ?case using run_trans [OF update_runs [OF history_update.hyps(5)]] by (auto intro: run_none)
qed (auto intro: run_none)

section \<open>From the update to the server\<close>

lemma update_stored:
  assumes st: "gcs_contract gl obj" and dec: "decodes s marshal"
    and run: "update_grid s gl marshal partial nl ft rs cancelled expired now reprocess True tg p evs w0 w1 = Some (Inr unread, w2)"
    and ok: "step_ok tg cancelled evs" "stored_ok s gl w0 p"
  shows "\<exists>stored. DownloadGrid (server_on gl w2 s) p = Inr (Some stored) \<and> well_built stored \<and> grid_config stored = None"
proof -
  obtain old attrs g buf a where old: "old_grid s gl partial w0 p = (old, attrs)"
    and ida: "InflateDropAppend nl ft rs marshal cancelled expired now reprocess tg old (map_option (\<lambda>(sz, _). nat sz) attrs) evs =
      Some (Inr (g, buf, unread))"
    and up: "client_Upload (srv_urls s) gl (update_client attrs) w1 p buf = (Inr a, w2)"
    using update_grid_uploads [OF run] by blast
  have "grid_ok g" if "old = Some g" for g
    using ok(2) old_grid_stored [of gl w0 s p _ partial] that old by (auto simp: stored_ok_def)
  with InflateDropAppend_well [OF ida] ok(1) obtain stored where
    stored: "marshal stored = Inr buf" "well_built stored" "grid_config stored = None" by (auto simp: step_ok_def)
  have "client_Open (srv_urls s) gl NewClient w2 p = Inr buf"
    by (rule storage_client.open_uploaded [OF client_storage [OF st] up refl])
  from DownloadGrid_written [OF dec stored(1) this] stored show ?thesis by blast
qed

text \<open>
  The whole way: what an update has stored of a group, a later pass of the tabulator cuts down for every
  tab of the group, and the server shows.
\<close>

lemma update_pass_served:
  fixes s gl marshal nl rx cancelled' now' cfgPath stats useTab w2
  defines "create \<equiv> \<lambda>task data. createTabState s gl marshal nl rx cancelled' now' task data cfgPath (srv_tab_prefix s) True stats useTab False"
  assumes st: "gcs_contract gl obj" and apart: "resolves_apart (srv_urls s) cfgPath (srv_tab_prefix s)" and dec: "decodes s marshal"
    and sv: "serves s scope cfg snap" "configPath s scope = Inr (cfgPath, b)"
    and plain: "\<forall>d \<in> set (cfg_dashboards cfg). \<forall>t \<in> set (dash_tabs d).
      plain_part (dash_name d) \<and> name_chars (dash_name d) \<and> plain_part (tab_name t) \<and> name_chars (tab_name t)"
    and up: "update_grid s gl marshal partial nl' ft rs cancelled expired now reprocess True tg p evs w0 w1 = Some (Inr unread, w2)"
      "step_ok tg cancelled evs" "stored_ok s gl w0 p"
    and p: "TestGroupPath (srv_urls s) cfgPath gridPrefix (tg_name tg) = Inr p"
    and pass: "tabulate_group create (\<lambda>w. read_group s gl (mapTasks (sn_groups snap) (sn_dashboards snap)) cfgPath gridPrefix w (Some tg)) w2 = (Inr rs', w3)"
      "\<forall>r \<in> set rs'. r = Inr ()"
    and d: "d \<in> set (cfg_dashboards cfg)" "Normalize (dash_name d) = Normalize dq"
      "t \<in> set (dash_tabs d)" "Normalize (tab_name t) = Normalize tq"
    and tg: "tab_test_group_name t = tg_name tg" "tg \<in> set (cfg_test_groups cfg)"
    and tab: "\<forall>j. \<not> cancelled' j" "\<And>rows. \<exists>rows'. filterGrid rx (tab_base_options t) rows = Inr rows'" "0 \<le> tab_alerts useTab t tg"
  shows "\<exists>g rows. well_built g \<and> DownloadGrid (server_on gl w2 s) p = Inr (Some g) \<and>
    filterGrid rx (tab_base_options t) (grid_rows g) = Inr rows \<and>
    (let cols = dropEmptyColumns (map (inflated_at (g\<lparr>grid_rows := rows\<rparr>))
        (kept_columns zero_unix now' False 0 (grid_columns g))) in
     \<exists>rs. ListRows (server_on gl w3 s) scope dq tq = Inr rs \<and> ar_name ` set rs = shown_names cols \<and>
       (\<forall>r \<in> set rs. \<exists>i. ar_cells r =
          map (\<lambda>col. api_cell_of (stored (ar_name r) i (cell_of col (ar_name r)))) cols))"
proof -
  from update_stored [OF st dec up] obtain g where g: "DownloadGrid (server_on gl w2 s) p = Inr (Some g)" "well_built g" by blast
  from tab(2) obtain rows where rows: "filterGrid rx (tab_base_options t) (grid_rows g) = Inr rows" by blast
  from pass_served [OF st apart dec sv plain pass [unfolded create_def] p g(1) d tg well_built_ok [OF g(2)] tab(1) rows tab(3) refl]
  have "let cols = dropEmptyColumns (map (inflated_at (g\<lparr>grid_rows := rows\<rparr>))
        (kept_columns zero_unix now' False 0 (grid_columns g))) in
     \<exists>rs. ListRows (server_on gl w3 s) scope dq tq = Inr rs \<and> ar_name ` set rs = shown_names cols \<and>
       (\<forall>r \<in> set rs. \<exists>i. ar_cells r =
          map (\<lambda>col. api_cell_of (stored (ar_name r) i (cell_of col (ar_name r)))) cols)"
    unfolding Let_def .
  with g rows show ?thesis by blast
qed

end
