(* ===== verification/Queue_Persist.thy ===== *)
theory Queue_Persist
  imports Storage Config_Queue
begin

text \<open>
  Keeping the times of a queue in storage (\<open>util/queue/persist.go\<close>, which the \<open>persist.go\<close> of the updater,
  the summarizer and the tabulator wrap): the first ticks try to load, and once a load has succeeded
  every later tick saves.  The encoding to JSON is the arguments \<open>encode\<close> and \<open>decode\<close>.
\<close>

record json_times =
  jt_encode :: "(string, int) gomap \<Rightarrow> string go"
  jt_decode :: "string \<Rightarrow> (string, int) gomap go"

section \<open>Loading and saving\<close>

text \<open>\<open>tryLoad\<close>: the names that are no longer in the queue are deleted from what was read.\<close>

definition known_times :: "work_queue \<Rightarrow> (string, int) gomap \<Rightarrow> (string, int) gomap" where
  "known_times q whens = (let current = Current q in filter (\<lambda>(name, _). map_of current name \<noteq> None) whens)"

definition tryLoad ::
    "url_lib \<Rightarrow> 's gcs_lib \<Rightarrow> json_times \<Rightarrow> url \<Rightarrow> 's world \<Rightarrow> work_queue \<Rightarrow> string option \<times> work_queue" where
  "tryLoad ul gl js path w q =
     (case client_Open ul gl NewClient w path of
        Inl e \<Rightarrow> if e = ErrObjectNotExist then (None, q) else (Some ''open'', q)
      | Inr buf \<Rightarrow>
          (case jt_decode js buf of
             Inl e \<Rightarrow> (Some ''decode'', q)
           | Inr whens \<Rightarrow>
               (case FixAll (known_times q whens) False q of
                  (missing, q') \<Rightarrow> (map_option (\<lambda>_. ''fix all'') missing, q'))))"

definition trySave ::
    "url_lib \<Rightarrow> 's gcs_lib \<Rightarrow> json_times \<Rightarrow> url \<Rightarrow> 's world \<Rightarrow> work_queue \<Rightarrow> string option \<times> 's world" where
  "trySave ul gl js path w q =
     (case jt_encode js (Current q) of
        Inl e \<Rightarrow> (Some ''marshal'', w)
      | Inr buf \<Rightarrow>
          (case client_Upload ul gl NewClient w path buf of
             (Inl e, w') \<Rightarrow> (Some ''upload'', w')
           | (Inr a, w') \<Rightarrow> (None, w')))"

text \<open>
  One tick of \<open>FixPersistent\<close>: the error that is logged, \<open>shouldSave\<close> and the storage afterwards, and the
  queue.  \<open>shouldSave\<close> belongs to the closure, which may be called again for another context.
\<close>

definition persist_tick ::
    "url_lib \<Rightarrow> 's gcs_lib \<Rightarrow> json_times \<Rightarrow> url \<Rightarrow> work_queue \<Rightarrow> bool \<times> 's world \<Rightarrow>
     string option \<times> work_queue \<times> bool \<times> 's world" where
  "persist_tick ul gl js path q st =
     (case st of (shouldSave, w) \<Rightarrow>
        if shouldSave then (case trySave ul gl js path w q of (err, w') \<Rightarrow> (err, q, True, w'))
        else (case tryLoad ul gl js path w q of (err, q') \<Rightarrow> (err, q', err = None, w)))"

text \<open>
  The ticks of a run, each with the queue as it finds it: between two ticks the workers and the other
  fixers change the queue in any way.
\<close>

fun persist_ticks ::
    "url_lib \<Rightarrow> 's gcs_lib \<Rightarrow> json_times \<Rightarrow> url \<Rightarrow> work_queue list \<Rightarrow> bool \<times> 's world \<Rightarrow> bool \<times> 's world" where
  "persist_ticks ul gl js path [] st = st"
| "persist_ticks ul gl js path (q # qs) st = persist_ticks ul gl js path qs (snd (snd (persist_tick ul gl js path q st)))"

section \<open>The times of a queue\<close>

lemma times_fold_update:
  "map_of (fold (\<lambda>name m. AList.update name (f name) m) ns m) = (\<lambda>n. if n \<in> set ns then Some (f n) else map_of m n)"
  by (induction ns arbitrary: m) (auto simp: update_conv fun_eq_iff)

lemma map_of_Current: "map_of (Current q) = (\<lambda>n. if n \<in> set (wq_queue q) then Some (when_of q n) else None)"
  by (simp add: Current_def times_fold_update fun_eq_iff)

lemma distinct_Current: "distinct (map fst (Current q))"
proof -
  have "distinct (map fst m) \<Longrightarrow> distinct (map fst (fold (\<lambda>name m. AList.update name (f name) m) ns m))"
    for ns m and f :: "string \<Rightarrow> int"
    by (induction ns arbitrary: m) (auto simp: distinct_update)
  then show ?thesis by (simp add: Current_def)
qed

lemma map_of_known: "map_of (known_times q whens) = (\<lambda>n. if n \<in> set (wq_queue q) then map_of whens n else None)"
proof -
  have "map_of (filter (\<lambda>(n, _). P n) whens) = (\<lambda>n. if P n then map_of whens n else None)" for P
    by (induction whens) (auto simp: fun_eq_iff)
  then show ?thesis by (simp add: known_times_def Let_def map_of_Current fun_eq_iff)
qed

lemma known_times_distinct: "distinct (map fst whens) \<Longrightarrow> distinct (map fst (known_times q whens))"
  by (simp add: known_times_def Let_def distinct_map_filter split_def)

lemma known_times_names: "fst ` set (known_times q whens) \<subseteq> set (wq_queue q)"
  by (auto simp: known_times_def Let_def map_of_Current split: if_splits)

text \<open>What loading times does to a queue.\<close>

lemma FixAll_known:
  assumes "queue_ok q" "distinct (map fst whens)"
  shows "\<exists>q'. FixAll (known_times q whens) False q = (None, q') \<and> queue_ok q' \<and> mset (wq_queue q') = mset (wq_queue q) \<and>
    names q' = names q \<and>
    (\<forall>n \<in> set (wq_queue q). when_of q' n = (case map_of whens n of Some t \<Rightarrow> min t (when_of q n) | None \<Rightarrow> when_of q n))"
proof -
  have ix: "indexed q" using assms(1) by (simp add: queue_ok_def)
  note q = queue_names [OF ix]
  then have m: "filter (\<lambda>n. n \<notin> names q) (map fst (known_times q whens)) = []"
    using known_times_names [of q whens] by (auto simp: filter_empty_conv)
  from FixAll_spec [OF ix known_times_distinct [OF assms(2)], of q False, unfolded m] obtain q' where
    q': "FixAll (known_times q whens) False q = (None, q')" "queue_ok q'" "mset (wq_queue q') = mset (wq_queue q)"
      "names q' = names q"
      "\<forall>n. when_of q' n = (case map_of (known_times q whens) n of
        Some t \<Rightarrow> if n \<in> names q then fixed_time False t (when_of q n) else when_of q n | None \<Rightarrow> when_of q n)"
    by auto
  have "when_of q' n = (case map_of whens n of Some t \<Rightarrow> min t (when_of q n) | None \<Rightarrow> when_of q n)"
    if "n \<in> set (wq_queue q)" for n
    using q'(5) that q by (auto simp: map_of_known fixed_time_def split: option.split)
  with q'(1-4) show ?thesis by blast
qed

section \<open>Saving, then loading\<close>

text \<open>The documented behaviour of the JSON package on maps of times.\<close>

definition json_ok :: "json_times \<Rightarrow> bool" where
  "json_ok js \<longleftrightarrow>
     (\<forall>m buf. jt_encode js m = Inr buf \<longrightarrow>
        (\<exists>m'. jt_decode js buf = Inr m' \<and> map_of m' = map_of m \<and> distinct (map fst m')))"

lemma saved_then_loaded:
  assumes st: "gcs_contract gl obj" and js: "json_ok js"
    and save: "persist_tick ul gl js p q (True, w) = (None, q0, sv, w1)"
    and kept: "client_Open ul gl NewClient w2 p = client_Open ul gl NewClient w1 p"
    and q2: "queue_ok q2"
  shows "\<exists>q3. persist_tick ul gl js p q2 (False, w2) = (None, q3, True, w2) \<and> queue_ok q3 \<and>
    mset (wq_queue q3) = mset (wq_queue q2) \<and> names q3 = names q2 \<and>
    (\<forall>n \<in> set (wq_queue q2). when_of q3 n =
       (if n \<in> set (wq_queue q) then min (when_of q n) (when_of q2 n) else when_of q2 n))"
proof -
  from save obtain buf a where buf: "jt_encode js (Current q) = Inr buf"
      "client_Upload ul gl NewClient w p buf = (Inr a, w1)"
    by (auto simp: persist_tick_def trySave_def split: sum.splits prod.splits)
  from js [unfolded json_ok_def, rule_format, OF buf(1)] obtain m where
    m: "jt_decode js buf = Inr m" "map_of m = map_of (Current q)" "distinct (map fst m)" by blast
  have "client_Open ul gl NewClient w2 p = Inr buf"
    unfolding kept by (rule storage_client.open_uploaded [OF client_storage [OF st] buf(2) refl])
  with FixAll_known [OF q2 m(3)] show ?thesis
    by (fastforce simp: persist_tick_def tryLoad_def m(1,2) map_of_Current split: option.splits)
qed

text \<open>
  A state that cannot be read is never replaced: the ticks go on trying to load it.  A state that is
  absent counts as loaded.
\<close>

lemma unreadable_kept:
  assumes "\<And>q. \<exists>e. fst (tryLoad ul gl js p w q) = Some e"
  shows "persist_ticks ul gl js p qs (False, w) = (False, w)"
proof (induction qs)
  case (Cons q qs)
  from assms [of q] have "snd (snd (persist_tick ul gl js p q (False, w))) = (False, w)"
    by (auto simp: persist_tick_def split: prod.splits)
  with Cons show ?case by simp
qed simp

lemma unreadable_tries:
  assumes "client_Open ul gl NewClient w p = Inr buf" "jt_decode js buf = Inl e"
  shows "persist_ticks ul gl js p qs (False, w) = (False, w)"
  by (rule unreadable_kept) (simp add: tryLoad_def assms)

lemma ticks_saving: "fst (persist_ticks ul gl js p qs (True, w))"
proof (induction qs arbitrary: w)
  case (Cons q qs)
  then show ?case by (simp add: persist_tick_def split: prod.splits)
qed simp

text \<open>
  Nothing is saved before a load has succeeded, whatever the queue looks like at the ticks, and the
  ticks after it save: the storage is that of the last of them.
\<close>

lemma ticks_after_load:
  assumes "fst (tryLoad ul gl js p w q) = None"
  shows "persist_ticks ul gl js p (q # qs) (False, w) = (True, foldl (\<lambda>w q. snd (trySave ul gl js p w q)) w qs)"
proof -
  have "persist_ticks ul gl js p qs (True, w) = (True, foldl (\<lambda>w q. snd (trySave ul gl js p w q)) w qs)" for w
    by (induction qs arbitrary: w) (simp_all add: persist_tick_def split: prod.splits)
  with assms show ?thesis by (simp add: persist_tick_def case_prod_beta)
qed

lemma ticks_save_last:
  assumes st: "gcs_contract gl obj" and js: "json_ok js"
    and load: "fst (tryLoad ul gl js p w q0) = None"
    and last: "fst (trySave ul gl js p (snd (persist_ticks ul gl js p (q0 # qs) (False, w))) q) = None"
    and q2: "queue_ok q2"
  defines "w' \<equiv> snd (persist_ticks ul gl js p (q0 # qs @ [q]) (False, w))"
  shows "\<exists>q3. persist_tick ul gl js p q2 (False, w') = (None, q3, True, w') \<and> queue_ok q3 \<and>
    mset (wq_queue q3) = mset (wq_queue q2) \<and> names q3 = names q2 \<and>
    (\<forall>n \<in> set (wq_queue q2). when_of q3 n =
       (if n \<in> set (wq_queue q) then min (when_of q n) (when_of q2 n) else when_of q2 n))"
proof -
  let ?w1 = "snd (persist_ticks ul gl js p (q0 # qs) (False, w))"
  have "w' = snd (trySave ul gl js p ?w1 q)"
    unfolding w'_def ticks_after_load [OF load] by simp
  with last have "persist_tick ul gl js p q (True, ?w1) = (None, q, True, w')"
    by (simp add: persist_tick_def case_prod_beta del: persist_ticks.simps)
  from saved_then_loaded [OF st js this refl q2] show ?thesis .
qed

end
