(* ===== verification/Yaml_Config.thy ===== *)
theory Yaml_Config
  imports Storage
begin

text \<open>
  The configuration of the configurator, as YAML files (\<open>config/yamlcfg/yaml2proto.go\<close>): the files below the
  given paths, each with the defaults of its directory or else the overall ones, become one configuration.

  The file system is what \<open>filepath.Walk\<close> sees of it; YAML is the argument \<open>yaml\<close>.
\<close>

record default_configuration =
  dc_test_group :: "test_group option"
  dc_dashboard_tab :: "dashboard_tab option"

definition no_defaults :: default_configuration where
  "no_defaults = \<lparr>dc_test_group = None, dc_dashboard_tab = None\<rparr>"

record yaml_lib =
  yl_config :: "bool \<Rightarrow> string \<Rightarrow> configuration go"
  yl_defaults :: "string \<Rightarrow> default_configuration go"
  yl_marshal :: "configuration \<Rightarrow> string go"

definition empty_configuration :: configuration where
  "empty_configuration = \<lparr>cfg_test_groups = [], cfg_dashboards = [], cfg_dashboard_groups = []\<rparr>"

section \<open>Files\<close>

text \<open>The entries of a directory in the order of their names, as they are walked.\<close>

datatype fs_node = FileNode | DirNode "(string \<times> fs_node) list"

record file_system =
  fs_stat :: "string \<Rightarrow> fs_node option"
  fs_read :: "string \<Rightarrow> string go"

fun walk_files :: "string \<Rightarrow> fs_node \<Rightarrow> string list" where
  "walk_files p FileNode = [p]"
| "walk_files p (DirNode entries) = concat (map (\<lambda>(name, x). walk_files (path_Join [p, name]) x) entries)"

definition file_Ext :: "string \<Rightarrow> string" where
  "file_Ext p =
     (let r = takeWhile (\<lambda>c. c \<noteq> CHR ''/'') (rev p) in
      if CHR ''.'' \<in> set r then CHR ''.'' # rev (takeWhile (\<lambda>c. c \<noteq> CHR ''.'') r) else [])"

definition is_yaml :: "string \<Rightarrow> bool" where
  "is_yaml p \<longleftrightarrow> file_Ext p = ''.yaml'' \<or> file_Ext p = ''.yml''"

fun SeekYAMLFiles :: "file_system \<Rightarrow> ('a \<Rightarrow> string \<Rightarrow> 'a go) \<Rightarrow> string list \<Rightarrow> 'a \<Rightarrow> 'a go" where
  "SeekYAMLFiles fs callFunc [] acc = Inr acc"
| "SeekYAMLFiles fs callFunc (path # paths) acc =
     (case fs_stat fs path of
        None \<Rightarrow> Inl (Failed (''Failed status call on '' @ path))
      | Some node \<Rightarrow>
          go_bind (wrap_error (''Failed to walk through '' @ path @ '': '')
            (go_fold callFunc acc (filter is_yaml (walk_files path node)))) (SeekYAMLFiles fs callFunc paths))"

section \<open>Defaults\<close>

definition is_default :: "string \<Rightarrow> bool" where
  "is_default p \<longleftrightarrow> path_Base p = ''default.yaml'' \<or> path_Base p = ''default.yml''"

definition getDefaults :: "string list \<Rightarrow> string list go" where
  "getDefaults allPaths =
     go_bind (go_fold (\<lambda>(defaults, dirsFound) path.
        if is_default path then
          if file_Dir path \<in> set dirsFound
          then Inl (Failed (''two default files found in dir '' @ go_quote (file_Dir path)))
          else Inr (defaults @ [path], file_Dir path # dirsFound)
        else Inr (defaults, dirsFound)) ([], []) allPaths) (\<lambda>(defaults, _). Inr defaults)"

definition LoadDefaults :: "yaml_lib \<Rightarrow> string \<Rightarrow> default_configuration go" where
  "LoadDefaults yaml b =
     go_bind (yl_defaults yaml b) (\<lambda>d.
       if dc_test_group d = None then Inl (Failed ''field missing or unset: DefaultTestGroup'')
       else if dc_dashboard_tab d = None then Inl (Failed ''field missing or unset: DefaultDashboardTab'')
       else Inr d)"

definition read_default :: "file_system \<Rightarrow> yaml_lib \<Rightarrow> string \<Rightarrow> default_configuration go" where
  "read_default fs yaml path =
     go_bind (wrap_error (''failed to read default at '' @ path @ '': '') (fs_read fs path)) (\<lambda>b.
       wrap_error (''failed to deserialize default at '' @ path @ '': '') (LoadDefaults yaml b))"

definition seekDefaults :: "file_system \<Rightarrow> yaml_lib \<Rightarrow> string list \<Rightarrow> (string, default_configuration) gomap go" where
  "seekDefaults fs yaml paths =
     go_bind (wrap_error ''unable to walk paths, '' (SeekYAMLFiles fs (\<lambda>ps p. Inr (ps @ [p])) paths [])) (\<lambda>allPaths.
     go_bind (wrap_error ''unable to get defaults, '' (getDefaults allPaths))
       (go_fold (\<lambda>defaultFiles path. go_bind (read_default fs yaml path) (\<lambda>d.
          Inr (AList.update (file_Dir path) d defaultFiles))) []))"

definition pathDefault ::
    "string \<Rightarrow> (string, default_configuration) gomap \<Rightarrow> default_configuration \<Rightarrow> default_configuration" where
  "pathDefault path defaultFiles defaults =
     (case map_of defaultFiles (file_Dir path) of Some localDefaults \<Rightarrow> localDefaults | None \<Rightarrow> defaults)"

section \<open>Filling in what is unset\<close>

text \<open>One statement of a reconciliation; reading a field of a nil default panics.\<close>

definition fill :: "'d option \<Rightarrow> 'd \<Rightarrow> ('d \<Rightarrow> bool) \<times> ('d \<Rightarrow> 'd \<Rightarrow> 'd) \<Rightarrow> 'd go" where
  "fill dflt cur field =
     (case field of (unset, set_to) \<Rightarrow>
        if unset cur then
          (case dflt of None \<Rightarrow> Inl (Panic ''nil pointer dereference'') | Some d \<Rightarrow> Inr (set_to d cur))
        else Inr cur)"

definition group_fields :: "((test_group \<Rightarrow> bool) \<times> (test_group \<Rightarrow> test_group \<Rightarrow> test_group)) list" where
  "group_fields =
     [(\<lambda>g. tg_days_of_results g = 0, \<lambda>d g. g\<lparr>tg_days_of_results := tg_days_of_results d\<rparr>),
      (\<lambda>g. tg_tests_name_policy g = TESTS_NAME_UNSPECIFIED,
       \<lambda>d g. g\<lparr>tg_tests_name_policy := tg_tests_name_policy d\<rparr>),
      (\<lambda>g. tg_ignore_pending g = False, \<lambda>d g. g\<lparr>tg_ignore_pending := tg_ignore_pending d\<rparr>),
      (\<lambda>g. tg_ignore_skip g = False, \<lambda>d g. g\<lparr>tg_ignore_skip := tg_ignore_skip d\<rparr>),
      (\<lambda>g. tg_column_header g = [], \<lambda>d g. g\<lparr>tg_column_header := tg_column_header d\<rparr>),
      (\<lambda>g. tg_num_columns_recent g = 0, \<lambda>d g. g\<lparr>tg_num_columns_recent := tg_num_columns_recent d\<rparr>),
      (\<lambda>g. tg_alert_stale_results_hours g = 0,
       \<lambda>d g. g\<lparr>tg_alert_stale_results_hours := tg_alert_stale_results_hours d\<rparr>),
      (\<lambda>g. tg_num_failures_to_alert g = 0, \<lambda>d g. g\<lparr>tg_num_failures_to_alert := tg_num_failures_to_alert d\<rparr>),
      (\<lambda>g. tg_code_search_path g = [], \<lambda>d g. g\<lparr>tg_code_search_path := tg_code_search_path d\<rparr>),
      (\<lambda>g. tg_num_passes_to_disable_alert g = 0,
       \<lambda>d g. g\<lparr>tg_num_passes_to_disable_alert := tg_num_passes_to_disable_alert d\<rparr>)]"

definition ReconcileTestGroup :: "test_group \<Rightarrow> test_group option \<Rightarrow> test_group go" where
  "ReconcileTestGroup cur dflt =
     go_bind (go_fold (fill dflt) cur group_fields)
       (\<lambda>g. Inr (g\<lparr>tg_is_external := True, tg_use_kubernetes_client := True\<rparr>))"

definition tab_fields :: "((dashboard_tab \<Rightarrow> bool) \<times> (dashboard_tab \<Rightarrow> dashboard_tab \<Rightarrow> dashboard_tab)) list" where
  "tab_fields =
     [(\<lambda>t. tab_bug_component t = 0, \<lambda>d t. t\<lparr>tab_bug_component := tab_bug_component d\<rparr>),
      (\<lambda>t. tab_code_search_path t = [], \<lambda>d t. t\<lparr>tab_code_search_path := tab_code_search_path d\<rparr>),
      (\<lambda>t. tab_num_columns_recent t = 0, \<lambda>d t. t\<lparr>tab_num_columns_recent := tab_num_columns_recent d\<rparr>),
      (\<lambda>t. tab_open_test_template t = None, \<lambda>d t. t\<lparr>tab_open_test_template := tab_open_test_template d\<rparr>),
      (\<lambda>t. tab_file_bug_template t = None, \<lambda>d t. t\<lparr>tab_file_bug_template := tab_file_bug_template d\<rparr>),
      (\<lambda>t. tab_attach_bug_template t = None, \<lambda>d t. t\<lparr>tab_attach_bug_template := tab_attach_bug_template d\<rparr>),
      (\<lambda>t. tab_results_text t = [], \<lambda>d t. t\<lparr>tab_results_text := tab_results_text d\<rparr>),
      (\<lambda>t. tab_results_url_template t = None, \<lambda>d t. t\<lparr>tab_results_url_template := tab_results_url_template d\<rparr>),
      (\<lambda>t. tab_code_search_url_template t = None,
       \<lambda>d t. t\<lparr>tab_code_search_url_template := tab_code_search_url_template d\<rparr>),
      (\<lambda>t. tab_alert_options t = None, \<lambda>d t. t\<lparr>tab_alert_options := tab_alert_options d\<rparr>),
      (\<lambda>t. tab_open_bug_template t = None, \<lambda>d t. t\<lparr>tab_open_bug_template := tab_open_bug_template d\<rparr>)]"

definition ReconcileDashboardTab :: "dashboard_tab \<Rightarrow> dashboard_tab option \<Rightarrow> dashboard_tab go" where
  "ReconcileDashboardTab cur dflt = go_fold (fill dflt) cur tab_fields"

section \<open>Reading a configuration\<close>

definition reconcile_dashboard :: "default_configuration \<Rightarrow> dashboard \<Rightarrow> dashboard go" where
  "reconcile_dashboard d x =
     go_bind (go_map (\<lambda>t. ReconcileDashboardTab t (dc_dashboard_tab d)) (dash_tabs x))
       (\<lambda>tabs. Inr (x\<lparr>dash_tabs := tabs\<rparr>))"

definition Update ::
    "yaml_lib \<Rightarrow> configuration option \<Rightarrow> string \<Rightarrow> default_configuration option \<Rightarrow> bool \<Rightarrow> configuration go" where
  "Update yaml cfg yamlData reconcile strict =
     go_bind (yl_config yaml strict yamlData) (\<lambda>newConfig.
     let c = (case cfg of Some c \<Rightarrow> c | None \<Rightarrow> empty_configuration) in
     go_bind (case reconcile of None \<Rightarrow> Inr (cfg_test_groups newConfig)
       | Some d \<Rightarrow> go_map (\<lambda>g. ReconcileTestGroup g (dc_test_group d)) (cfg_test_groups newConfig)) (\<lambda>groups.
     go_bind (case reconcile of None \<Rightarrow> Inr (cfg_dashboards newConfig)
       | Some d \<Rightarrow> go_map (reconcile_dashboard d) (cfg_dashboards newConfig)) (\<lambda>dashboards.
     Inr \<lparr>cfg_test_groups = cfg_test_groups c @ groups, cfg_dashboards = cfg_dashboards c @ dashboards,
          cfg_dashboard_groups = cfg_dashboard_groups c @ cfg_dashboard_groups newConfig\<rparr>)))"

definition read_file ::
    "file_system \<Rightarrow> yaml_lib \<Rightarrow> (string, default_configuration) gomap \<Rightarrow> default_configuration \<Rightarrow> bool \<Rightarrow>
     configuration option \<Rightarrow> string \<Rightarrow> configuration option go" where
  "read_file fs yaml defaultFiles defaults strict result path =
     (if is_default path then Inr result
      else
        go_bind (wrap_error (''failed to read '' @ path @ '': '') (fs_read fs path)) (\<lambda>b.
        go_bind (wrap_error (''failed to merge '' @ path @ '' into config: '')
          (Update yaml result b (Some (pathDefault path defaultFiles defaults)) strict)) (\<lambda>c. Inr (Some c))))"

definition ReadConfig ::
    "file_system \<Rightarrow> yaml_lib \<Rightarrow> string list \<Rightarrow> string \<Rightarrow> bool \<Rightarrow> configuration option go" where
  "ReadConfig fs yaml paths defaultpath strict =
     go_bind (if defaultpath \<noteq> [] then read_default fs yaml defaultpath else Inr no_defaults) (\<lambda>defaults.
     go_bind (seekDefaults fs yaml paths) (\<lambda>defaultFiles.
     wrap_error ''SeekYAMLFiles, gathering config: ''
       (SeekYAMLFiles fs (read_file fs yaml defaultFiles defaults strict) paths None)))"

definition MarshalYAML ::
    "regex \<Rightarrow> (string \<Rightarrow> string list option) \<Rightarrow> yaml_lib \<Rightarrow> configuration option \<Rightarrow> string go" where
  "MarshalYAML rx subexps yaml c =
     (case c of
        None \<Rightarrow> Inl (Failed ''got an empty config.Configuration'')
      | Some cfg \<Rightarrow>
          if Validate rx subexps c \<noteq> [] then Inl (Failed ''invalid configuration'')
          else wrap_error ''could not write config to yaml: '' (yl_marshal yaml cfg))"

section \<open>What the reconciliation does\<close>

definition nil_panic :: "'a go" where
  "nil_panic = Inl (Panic ''nil pointer dereference'')"

lemma fill_Some: "go_fold (fill (Some d)) x fs = Inr (foldl (\<lambda>x (unset, set_to). if unset x then set_to d x else x) x fs)"
  by (induction fs arbitrary: x) (auto simp: fill_def)

lemma fill_None:
  "go_fold (fill None) x fs = (if \<exists>(unset, _) \<in> set fs. unset x then nil_panic else Inr x)"
  by (induction fs) (auto simp: fill_def nil_panic_def)

definition reconciled_group :: "test_group \<Rightarrow> test_group \<Rightarrow> test_group" where
  "reconciled_group d g = g\<lparr>
     tg_days_of_results := if tg_days_of_results g = 0 then tg_days_of_results d else tg_days_of_results g,
     tg_tests_name_policy := if tg_tests_name_policy g = TESTS_NAME_UNSPECIFIED then tg_tests_name_policy d
       else tg_tests_name_policy g,
     tg_ignore_pending := if tg_ignore_pending g = False then tg_ignore_pending d else tg_ignore_pending g,
     tg_ignore_skip := if tg_ignore_skip g = False then tg_ignore_skip d else tg_ignore_skip g,
     tg_column_header := if tg_column_header g = [] then tg_column_header d else tg_column_header g,
     tg_num_columns_recent := if tg_num_columns_recent g = 0 then tg_num_columns_recent d else tg_num_columns_recent g,
     tg_alert_stale_results_hours := if tg_alert_stale_results_hours g = 0 then tg_alert_stale_results_hours d
       else tg_alert_stale_results_hours g,
     tg_num_failures_to_alert := if tg_num_failures_to_alert g = 0 then tg_num_failures_to_alert d
       else tg_num_failures_to_alert g,
     tg_code_search_path := if tg_code_search_path g = [] then tg_code_search_path d else tg_code_search_path g,
     tg_num_passes_to_disable_alert := if tg_num_passes_to_disable_alert g = 0 then tg_num_passes_to_disable_alert d
       else tg_num_passes_to_disable_alert g,
     tg_is_external := True, tg_use_kubernetes_client := True\<rparr>"

definition reconciled_tab :: "dashboard_tab \<Rightarrow> dashboard_tab \<Rightarrow> dashboard_tab" where
  "reconciled_tab d t = t\<lparr>
     tab_bug_component := if tab_bug_component t = 0 then tab_bug_component d else tab_bug_component t,
     tab_code_search_path := if tab_code_search_path t = [] then tab_code_search_path d else tab_code_search_path t,
     tab_num_columns_recent := if tab_num_columns_recent t = 0 then tab_num_columns_recent d else tab_num_columns_recent t,
     tab_open_test_template := if tab_open_test_template t = None then tab_open_test_template d else tab_open_test_template t,
     tab_file_bug_template := if tab_file_bug_template t = None then tab_file_bug_template d else tab_file_bug_template t,
     tab_attach_bug_template := if tab_attach_bug_template t = None then tab_attach_bug_template d
       else tab_attach_bug_template t,
     tab_results_text := if tab_results_text t = [] then tab_results_text d else tab_results_text t,
     tab_results_url_template := if tab_results_url_template t = None then tab_results_url_template d
       else tab_results_url_template t,
     tab_code_search_url_template := if tab_code_search_url_template t = None then tab_code_search_url_template d
       else tab_code_search_url_template t,
     tab_alert_options := if tab_alert_options t = None then tab_alert_options d else tab_alert_options t,
     tab_open_bug_template := if tab_open_bug_template t = None then tab_open_bug_template d
       else tab_open_bug_template t\<rparr>"

lemma update_group_if:
  "(if b then x\<lparr>tg_days_of_results := v1\<rparr> else x) = x\<lparr>tg_days_of_results := if b then v1 else tg_days_of_results x\<rparr>"
  "(if b then x\<lparr>tg_tests_name_policy := v2\<rparr> else x) = x\<lparr>tg_tests_name_policy := if b then v2 else tg_tests_name_policy x\<rparr>"
  "(if b then x\<lparr>tg_ignore_pending := v3\<rparr> else x) = x\<lparr>tg_ignore_pending := if b then v3 else tg_ignore_pending x\<rparr>"
  "(if b then x\<lparr>tg_ignore_skip := v4\<rparr> else x) = x\<lparr>tg_ignore_skip := if b then v4 else tg_ignore_skip x\<rparr>"
  "(if b then x\<lparr>tg_column_header := v5\<rparr> else x) = x\<lparr>tg_column_header := if b then v5 else tg_column_header x\<rparr>"
  "(if b then x\<lparr>tg_num_columns_recent := v6\<rparr> else x) = x\<lparr>tg_num_columns_recent := if b then v6 else tg_num_columns_recent x\<rparr>"
  "(if b then x\<lparr>tg_alert_stale_results_hours := v7\<rparr> else x) = x\<lparr>tg_alert_stale_results_hours := if b then v7 else tg_alert_stale_results_hours x\<rparr>"
  "(if b then x\<lparr>tg_num_failures_to_alert := v8\<rparr> else x) = x\<lparr>tg_num_failures_to_alert := if b then v8 else tg_num_failures_to_alert x\<rparr>"
  "(if b then x\<lparr>tg_code_search_path := v9\<rparr> else x) = x\<lparr>tg_code_search_path := if b then v9 else tg_code_search_path x\<rparr>"
  "(if b then x\<lparr>tg_num_passes_to_disable_alert := v10\<rparr> else x) = x\<lparr>tg_num_passes_to_disable_alert := if b then v10 else tg_num_passes_to_disable_alert x\<rparr>"
  by simp_all

lemma update_tab_if:
  "(if b then x\<lparr>tab_bug_component := v11\<rparr> else x) = x\<lparr>tab_bug_component := if b then v11 else tab_bug_component x\<rparr>"
  "(if b then x\<lparr>tab_code_search_path := v12\<rparr> else x) = x\<lparr>tab_code_search_path := if b then v12 else tab_code_search_path x\<rparr>"
  "(if b then x\<lparr>tab_num_columns_recent := v13\<rparr> else x) = x\<lparr>tab_num_columns_recent := if b then v13 else tab_num_columns_recent x\<rparr>"
  "(if b then x\<lparr>tab_open_test_template := v14\<rparr> else x) = x\<lparr>tab_open_test_template := if b then v14 else tab_open_test_template x\<rparr>"
  "(if b then x\<lparr>tab_file_bug_template := v15\<rparr> else x) = x\<lparr>tab_file_bug_template := if b then v15 else tab_file_bug_template x\<rparr>"
  "(if b then x\<lparr>tab_attach_bug_template := v16\<rparr> else x) = x\<lparr>tab_attach_bug_template := if b then v16 else tab_attach_bug_template x\<rparr>"
  "(if b then x\<lparr>tab_results_text := v17\<rparr> else x) = x\<lparr>tab_results_text := if b then v17 else tab_results_text x\<rparr>"
  "(if b then x\<lparr>tab_results_url_template := v18\<rparr> else x) = x\<lparr>tab_results_url_template := if b then v18 else tab_results_url_template x\<rparr>"
  "(if b then x\<lparr>tab_code_search_url_template := v19\<rparr> else x) = x\<lparr>tab_code_search_url_template := if b then v19 else tab_code_search_url_template x\<rparr>"
  "(if b then x\<lparr>tab_alert_options := v20\<rparr> else x) = x\<lparr>tab_alert_options := if b then v20 else tab_alert_options x\<rparr>"
  "(if b then x\<lparr>tab_open_bug_template := v21\<rparr> else x) = x\<lparr>tab_open_bug_template := if b then v21 else tab_open_bug_template x\<rparr>"
  by simp_all

lemma ReconcileTestGroup_Some: "ReconcileTestGroup g (Some d) = Inr (reconciled_group d g)"
  unfolding ReconcileTestGroup_def fill_Some group_fields_def
  by (simp add: update_group_if reconciled_group_def split del: if_split cong: if_cong)

lemma ReconcileDashboardTab_Some: "ReconcileDashboardTab t (Some d) = Inr (reconciled_tab d t)"
  unfolding ReconcileDashboardTab_def fill_Some tab_fields_def
  by (simp add: update_tab_if reconciled_tab_def split del: if_split cong: if_cong)

lemma reconciled_group_twice: "reconciled_group d (reconciled_group d g) = reconciled_group d g"
  by (rule test_group.equality) (simp_all add: reconciled_group_def)

lemma reconciled_tab_twice: "reconciled_tab d (reconciled_tab d t) = reconciled_tab d t"
  by (rule dashboard_tab.equality) (simp_all add: reconciled_tab_def)

text \<open>With no default to read from, an entity must be complete.\<close>

definition complete_group :: "test_group \<Rightarrow> bool" where
  "complete_group g \<longleftrightarrow>
     tg_days_of_results g \<noteq> 0 \<and> tg_tests_name_policy g \<noteq> TESTS_NAME_UNSPECIFIED \<and> tg_ignore_pending g \<and>
     tg_ignore_skip g \<and> tg_column_header g \<noteq> [] \<and> tg_num_columns_recent g \<noteq> 0 \<and>
     tg_alert_stale_results_hours g \<noteq> 0 \<and> tg_num_failures_to_alert g \<noteq> 0 \<and> tg_code_search_path g \<noteq> [] \<and>
     tg_num_passes_to_disable_alert g \<noteq> 0"

definition complete_tab :: "dashboard_tab \<Rightarrow> bool" where
  "complete_tab t \<longleftrightarrow>
     tab_bug_component t \<noteq> 0 \<and> tab_code_search_path t \<noteq> [] \<and> tab_num_columns_recent t \<noteq> 0 \<and>
     tab_open_test_template t \<noteq> None \<and> tab_file_bug_template t \<noteq> None \<and> tab_attach_bug_template t \<noteq> None \<and>
     tab_results_text t \<noteq> [] \<and> tab_results_url_template t \<noteq> None \<and> tab_code_search_url_template t \<noteq> None \<and>
     tab_alert_options t \<noteq> None \<and> tab_open_bug_template t \<noteq> None"

lemma ReconcileTestGroup_None:
  "ReconcileTestGroup g None =
     (if complete_group g then Inr (g\<lparr>tg_is_external := True, tg_use_kubernetes_client := True\<rparr>) else nil_panic)"
  unfolding ReconcileTestGroup_def fill_None by (auto simp: group_fields_def complete_group_def nil_panic_def)

lemma ReconcileDashboardTab_None:
  "ReconcileDashboardTab t None = (if complete_tab t then Inr t else nil_panic)"
  unfolding ReconcileDashboardTab_def fill_None by (auto simp: tab_fields_def complete_tab_def nil_panic_def)

text \<open>What one file adds, with complete defaults and with none.\<close>

definition reconciled_dashboard :: "dashboard_tab \<Rightarrow> dashboard \<Rightarrow> dashboard" where
  "reconciled_dashboard d x = x\<lparr>dash_tabs := map (reconciled_tab d) (dash_tabs x)\<rparr>"

definition joined :: "configuration \<Rightarrow> configuration \<Rightarrow> configuration" where
  "joined a b =
     \<lparr>cfg_test_groups = cfg_test_groups a @ cfg_test_groups b, cfg_dashboards = cfg_dashboards a @ cfg_dashboards b,
      cfg_dashboard_groups = cfg_dashboard_groups a @ cfg_dashboard_groups b\<rparr>"

definition reconciled :: "test_group \<Rightarrow> dashboard_tab \<Rightarrow> configuration \<Rightarrow> configuration" where
  "reconciled g t c =
     \<lparr>cfg_test_groups = map (reconciled_group g) (cfg_test_groups c),
      cfg_dashboards = map (reconciled_dashboard t) (cfg_dashboards c),
      cfg_dashboard_groups = cfg_dashboard_groups c\<rparr>"

lemma reconciled_twice: "reconciled g t (reconciled g t c) = reconciled g t c"
  by (simp add: reconciled_def reconciled_dashboard_def reconciled_group_twice reconciled_tab_twice)

lemma joined_simps [simp]:
  "joined empty_configuration c = c" "joined c empty_configuration = c" "joined (joined a b) c = joined a (joined b c)"
  by (simp_all add: joined_def empty_configuration_def)

lemma reconciled_joined: "reconciled g t (joined a b) = joined (reconciled g t a) (reconciled g t b)"
  by (simp add: reconciled_def joined_def)

definition or_empty :: "configuration option \<Rightarrow> configuration" where
  "or_empty c = (case c of Some c \<Rightarrow> c | None \<Rightarrow> empty_configuration)"

lemma Update_defaults:
  assumes "yl_config yaml strict b = Inr c" "dc_test_group d = Some g" "dc_dashboard_tab d = Some t"
  shows "Update yaml cfg b (Some d) strict = Inr (joined (or_empty cfg) (reconciled g t c))"
proof -
  have "reconcile_dashboard d x = Inr (reconciled_dashboard t x)" for x
    using go_map_Inr [of "dash_tabs x" _ "reconciled_tab t"]
    by (simp add: reconcile_dashboard_def reconciled_dashboard_def assms(3) ReconcileDashboardTab_Some)
  then show ?thesis
    using go_map_Inr [of "cfg_test_groups c" "\<lambda>g'. ReconcileTestGroup g' (Some g)" "reconciled_group g"]
      go_map_Inr [of "cfg_dashboards c" "reconcile_dashboard d" "reconciled_dashboard t"]
    by (simp add: Update_def assms ReconcileTestGroup_Some joined_def reconciled_def or_empty_def split: option.split)
qed

lemma Update_plain: "yl_config yaml strict b = Inr c \<Longrightarrow> Update yaml cfg b None strict = Inr (joined (or_empty cfg) c)"
  by (simp add: Update_def joined_def or_empty_def split: option.split)

definition complete_config :: "configuration \<Rightarrow> bool" where
  "complete_config c \<longleftrightarrow> (\<forall>g \<in> set (cfg_test_groups c). complete_group g) \<and>
     (\<forall>x \<in> set (cfg_dashboards c). \<forall>t \<in> set (dash_tabs x). complete_tab t)"

lemma go_map_panics:
  "\<forall>x \<in> set xs. f x = (if P x then Inr (g x) else nil_panic) \<Longrightarrow>
   go_map f xs = (if \<forall>x \<in> set xs. P x then Inr (map g xs) else nil_panic)"
  by (induction xs) (auto simp: nil_panic_def)

lemma Update_no_defaults:
  assumes "yl_config yaml strict b = Inr c"
  shows "Update yaml cfg b (Some no_defaults) strict =
    (if complete_config c
     then Inr (joined (or_empty cfg) (c\<lparr>cfg_test_groups :=
       map (\<lambda>g. g\<lparr>tg_is_external := True, tg_use_kubernetes_client := True\<rparr>) (cfg_test_groups c)\<rparr>))
     else nil_panic)"
proof -
  have d: "reconcile_dashboard no_defaults x = (if \<forall>t \<in> set (dash_tabs x). complete_tab t then Inr x else nil_panic)" for x
    using go_map_panics [of "dash_tabs x" "\<lambda>t. ReconcileDashboardTab t None" complete_tab "\<lambda>t. t"]
    by (simp add: reconcile_dashboard_def no_defaults_def ReconcileDashboardTab_None nil_panic_def)
  show ?thesis
    using go_map_panics [of "cfg_test_groups c" "\<lambda>g. ReconcileTestGroup g None" complete_group
        "\<lambda>g. g\<lparr>tg_is_external := True, tg_use_kubernetes_client := True\<rparr>"]
      go_map_panics [of "cfg_dashboards c" "reconcile_dashboard no_defaults" "\<lambda>x. \<forall>t \<in> set (dash_tabs x). complete_tab t" "\<lambda>x. x"] d
    by (auto simp: Update_def assms ReconcileTestGroup_None no_defaults_def joined_def or_empty_def complete_config_def nil_panic_def
        split: option.split)
qed

section \<open>Walking\<close>

text \<open>The YAML files below the paths, in the order of the walk.\<close>

definition yaml_files :: "file_system \<Rightarrow> string list \<Rightarrow> string list" where
  "yaml_files fs paths =
     concat (map (\<lambda>p. case fs_stat fs p of Some node \<Rightarrow> filter is_yaml (walk_files p node) | None \<Rightarrow> []) paths)"

lemma SeekYAMLFiles_spec:
  assumes "\<forall>p \<in> set paths. fs_stat fs p \<noteq> None"
  shows "SeekYAMLFiles fs f paths a = Inr r \<longleftrightarrow> go_fold f a (yaml_files fs paths) = Inr r"
    "SeekYAMLFiles fs f paths a = Inl (Panic m) \<longleftrightarrow> go_fold f a (yaml_files fs paths) = Inl (Panic m)"
proof -
  have "(SeekYAMLFiles fs f paths a = Inr r \<longleftrightarrow> go_fold f a (yaml_files fs paths) = Inr r) \<and>
    (SeekYAMLFiles fs f paths a = Inl (Panic m) \<longleftrightarrow> go_fold f a (yaml_files fs paths) = Inl (Panic m))"
    using assms
  proof (induction paths arbitrary: a)
    case (Cons p paths)
    then obtain node where n: "fs_stat fs p = Some node" by auto
    let ?here = "go_fold f a (filter is_yaml (walk_files p node))"
    have files: "yaml_files fs (p # paths) = filter is_yaml (walk_files p node) @ yaml_files fs paths"
      by (simp add: yaml_files_def n)
    show ?case
    proof (cases ?here)
      case (Inl e)
      then show ?thesis by (cases e) (simp_all add: n files go_fold_append wrap_error_def)
    next
      case (Inr b)
      then show ?thesis using Cons.IH [of b] Cons.prems by (simp add: n files go_fold_append wrap_error_def)
    qed
  qed (simp add: yaml_files_def)
  then show "SeekYAMLFiles fs f paths a = Inr r \<longleftrightarrow> go_fold f a (yaml_files fs paths) = Inr r"
    "SeekYAMLFiles fs f paths a = Inl (Panic m) \<longleftrightarrow> go_fold f a (yaml_files fs paths) = Inl (Panic m)"
    by blast+
qed

lemma getDefaults_spec:
  "getDefaults ps = Inr ds \<longleftrightarrow> distinct (map file_Dir (filter is_default ps)) \<and> ds = filter is_default ps"
proof -
  let ?f = "\<lambda>(defaults, dirsFound) path. if is_default path then
      if file_Dir path \<in> set dirsFound
      then Inl (Failed (''two default files found in dir '' @ go_quote (file_Dir path)))
      else Inr (defaults @ [path], file_Dir path # dirsFound)
    else Inr (defaults, dirsFound)"
  have "(\<exists>found'. go_fold ?f (ds0, found) ps = Inr (ds, found')) \<longleftrightarrow>
      distinct (map file_Dir (filter is_default ps)) \<and> file_Dir ` set (filter is_default ps) \<inter> set found = {} \<and>
      ds = ds0 @ filter is_default ps" for ds0 found
    by (induction ps arbitrary: ds0 found) auto
  from this [of "[]" "[]"] show ?thesis by (auto simp: getDefaults_def go_simps)
qed

section \<open>The configuration of a tree of files\<close>

text \<open>The default files of the tree, by the directory they are in.\<close>

definition dir_defaults :: "(string \<Rightarrow> default_configuration) \<Rightarrow> string list \<Rightarrow> string \<Rightarrow> default_configuration option" where
  "dir_defaults dflt files dir = map_option dflt (find (\<lambda>p. file_Dir p = dir) (filter is_default files))"

lemma seekDefaults_spec:
  assumes st: "\<forall>p \<in> set paths. fs_stat fs p \<noteq> None"
    and d: "distinct (map file_Dir (filter is_default (yaml_files fs paths)))"
    and r: "\<forall>p \<in> set (yaml_files fs paths). is_default p \<longrightarrow> read_default fs yaml p = Inr (dflt p)"
  shows "\<exists>m. seekDefaults fs yaml paths = Inr m \<and> map_of m = dir_defaults dflt (yaml_files fs paths)"
proof -
  let ?ds = "filter is_default (yaml_files fs paths)"
  have "go_fold (\<lambda>ps p. Inr (ps @ [p])) a xs = Inr (a @ xs)" for a xs :: "string list"
    by (induction xs arbitrary: a) simp_all
  then have all: "SeekYAMLFiles fs (\<lambda>ps p. Inr (ps @ [p])) paths [] = Inr (yaml_files fs paths)"
    using SeekYAMLFiles_spec(1) [OF st] by fastforce
  have "go_fold (\<lambda>m path. go_bind (read_default fs yaml path) (\<lambda>d. Inr (AList.update (file_Dir path) d m))) m ps =
      Inr (fold (\<lambda>p. AList.update (file_Dir p) (dflt p)) ps m)" if "set ps \<subseteq> set ?ds" for m ps
    using that r by (induction ps arbitrary: m) auto
  then have seek: "seekDefaults fs yaml paths = Inr (fold (\<lambda>p. AList.update (file_Dir p) (dflt p)) ?ds [])"
    using d getDefaults_spec [of "yaml_files fs paths" ?ds] by (simp add: seekDefaults_def all wrap_error_def)
  have "map_of (fold (\<lambda>p. AList.update (file_Dir p) (dflt p)) ps m) dir =
      (case find (\<lambda>p. file_Dir p = dir) ps of Some p \<Rightarrow> Some (dflt p) | None \<Rightarrow> map_of m dir)"
    if "distinct (map file_Dir ps)" for ps m dir
    using that
  proof (induction ps arbitrary: m)
    case (Cons p ps)
    have "find (\<lambda>q. file_Dir q = file_Dir p) ps = None" using Cons.prems by (simp add: find_None_iff) (metis image_eqI)
    then show ?case using Cons by (auto simp: update_conv split: option.split)
  qed simp
  from this [OF d, of "[]"] seek show ?thesis
    by (auto simp: dir_defaults_def fun_eq_iff split: option.split)
qed

text \<open>The configuration that the files together describe, each with the defaults next to it or the overall ones.\<close>

definition file_defaults ::
    "(string \<Rightarrow> default_configuration) \<Rightarrow> default_configuration \<Rightarrow> string list \<Rightarrow> string \<Rightarrow> default_configuration" where
  "file_defaults dflt overall files p =
     (case dir_defaults dflt files (file_Dir p) of Some d \<Rightarrow> d | None \<Rightarrow> overall)"

definition with_defaults :: "default_configuration \<Rightarrow> configuration \<Rightarrow> configuration" where
  "with_defaults d = reconciled (the (dc_test_group d)) (the (dc_dashboard_tab d))"

definition complete_defaults :: "default_configuration \<Rightarrow> bool" where
  "complete_defaults d \<longleftrightarrow> dc_test_group d \<noteq> None \<and> dc_dashboard_tab d \<noteq> None"

lemma dir_defaults_from: "dir_defaults dflt files dir = Some d \<Longrightarrow> \<exists>p \<in> set files. is_default p \<and> d = dflt p"
proof -
  assume "dir_defaults dflt files dir = Some d"
  then obtain p where p: "find (\<lambda>p. file_Dir p = dir) (filter is_default files) = Some p" "d = dflt p"
    by (auto simp: dir_defaults_def)
  have "p \<in> set (filter is_default files)" using p(1) by (metis find_Some_iff nth_mem)
  with p(2) show ?thesis by auto
qed

lemma LoadDefaults_complete: "LoadDefaults yaml b = Inr d \<Longrightarrow> complete_defaults d"
  by (auto simp: LoadDefaults_def complete_defaults_def go_simps split: if_splits)

lemma wrap_error_Inr [simp]: "wrap_error m r = Inr x \<longleftrightarrow> r = Inr x"
  by (simp add: wrap_error_def split: sum.split go_error.split)

lemma wrap_error_Panic [simp]: "wrap_error m r = Inl (Panic x) \<longleftrightarrow> r = Inl (Panic x)"
  by (simp add: wrap_error_def split: sum.split go_error.split)

lemma read_default_complete: "read_default fs yaml p = Inr d \<Longrightarrow> complete_defaults d"
  by (auto simp: read_default_def go_simps dest: LoadDefaults_complete)

fun joined_all :: "configuration list \<Rightarrow> configuration" where
  "joined_all [] = empty_configuration"
| "joined_all (c # cs) = joined c (joined_all cs)"

lemma ReadConfig_spec:
  assumes st: "\<forall>p \<in> set paths. fs_stat fs p \<noteq> None"
    and o: "defaultpath \<noteq> []" "read_default fs yaml defaultpath = Inr overall"
    and d: "distinct (map file_Dir (filter is_default (yaml_files fs paths)))"
      "\<forall>p \<in> set (yaml_files fs paths). is_default p \<longrightarrow> read_default fs yaml p = Inr (dflt p)"
    and r: "\<forall>p \<in> set (yaml_files fs paths). \<not> is_default p \<longrightarrow>
      (\<exists>b. fs_read fs p = Inr b \<and> yl_config yaml strict b = Inr (content p))"
  defines "files \<equiv> filter (\<lambda>p. \<not> is_default p) (yaml_files fs paths)"
  shows "ReadConfig fs yaml paths defaultpath strict =
    Inr (if files = [] then None
         else Some (joined_all (map (\<lambda>p. with_defaults (file_defaults dflt overall (yaml_files fs paths) p) (content p)) files)))"
proof -
  let ?all = "yaml_files fs paths"
  let ?fd = "file_defaults dflt overall ?all"
  from seekDefaults_spec [OF st d] obtain m where
    m: "seekDefaults fs yaml paths = Inr m" "map_of m = dir_defaults dflt ?all" by blast
  have pd: "pathDefault p m overall = ?fd p" for p by (simp add: pathDefault_def file_defaults_def m(2))
  have complete: "complete_defaults (?fd p)" for p
    using read_default_complete [OF o(2)] d(2) read_default_complete dir_defaults_from [of dflt ?all]
    by (auto simp: file_defaults_def split: option.split) blast
  let ?c = "\<lambda>p. with_defaults (?fd p) (content p)"
  let ?read = "read_file fs yaml m overall strict"
  have one: "?read c p = Inr (Some (joined (or_empty c) (?c p)))" if "p \<in> set ?all" "\<not> is_default p" for c p
  proof -
    from r that obtain b where b: "fs_read fs p = Inr b" "yl_config yaml strict b = Inr (content p)" by blast
    from complete [of p] obtain g t where "dc_test_group (?fd p) = Some g" "dc_dashboard_tab (?fd p) = Some t"
      by (auto simp: complete_defaults_def)
    with Update_defaults [OF b(2) this, of c] that(2) b(1) show ?thesis
      by (simp add: read_file_def pd with_defaults_def wrap_error_def)
  qed
  have "go_fold ?read c ps = Inr (if filter (\<lambda>p. \<not> is_default p) ps = [] then c
      else Some (joined (or_empty c) (joined_all (map ?c (filter (\<lambda>p. \<not> is_default p) ps)))))"
    if "set ps \<subseteq> set ?all" for c ps
    using that
  proof (induction ps arbitrary: c)
    case (Cons p ps)
    show ?case
    proof (cases "is_default p")
      case True
      then show ?thesis using Cons by (simp add: read_file_def)
    next
      case False
      then show ?thesis using Cons one [of p c] by (auto simp: or_empty_def filter_empty_conv)
    qed
  qed simp
  from SeekYAMLFiles_spec(1) [OF st, THEN iffD2, OF this [of ?all None, OF subset_refl]] show ?thesis
    by (simp add: ReadConfig_def o m(1) files_def or_empty_def)
qed

text \<open>
  A configuration that was read this way, written and read again with the same overall defaults, is the
  same: everything that could be filled in has been.  This needs that the YAML package reads back what it
  wrote for this configuration (\<open>yaml_restores\<close>).  It does not do so for every one: it goes by way of JSON
  and the Go types of \<open>pb/config\<close>, whose oneof fields (the result source of a test group, the property of a
  test annotation) are interfaces, which are written but cannot be read; and strings have to be UTF-8.
\<close>

definition yaml_restores :: "yaml_lib \<Rightarrow> bool \<Rightarrow> configuration \<Rightarrow> bool" where
  "yaml_restores yaml strict c \<longleftrightarrow> (\<forall>b. yl_marshal yaml c = Inr b \<longrightarrow> yl_config yaml strict b = Inr c)"

lemma with_defaults_joined:
  "(\<And>c. c \<in> set cs \<Longrightarrow> with_defaults d c = c) \<Longrightarrow> with_defaults d (joined_all cs) = joined_all cs"
proof (induction cs)
  case Nil
  then show ?case by (simp add: with_defaults_def reconciled_def empty_configuration_def)
next
  case (Cons c cs)
  then show ?case using reconciled_joined by (simp add: with_defaults_def)
qed

lemma written_then_read:
  assumes st: "\<forall>p \<in> set paths. fs_stat fs p \<noteq> None"
    and o: "defaultpath \<noteq> []" "read_default fs yaml defaultpath = Inr overall"
    and d: "\<forall>p \<in> set (yaml_files fs paths). \<not> is_default p"
    and r: "\<forall>p \<in> set (yaml_files fs paths). \<exists>b. fs_read fs p = Inr b \<and> yl_config yaml strict b = Inr (content p)"
    and c: "ReadConfig fs yaml paths defaultpath strict = Inr (Some c)"
    and w: "MarshalYAML rx subexps yaml (Some c) = Inr b" "yaml_restores yaml strict c"
    and p: "fs_stat fs' p = Some FileNode" "is_yaml p" "\<not> is_default p" "fs_read fs' p = Inr b"
      "read_default fs' yaml defaultpath = Inr overall"
  shows "ReadConfig fs' yaml [p] defaultpath strict = Inr (Some c)"
proof -
  let ?files = "yaml_files fs paths"
  have f: "filter is_default ?files = []" "filter (\<lambda>p. \<not> is_default p) ?files = ?files"
    using d by (simp_all add: filter_empty_conv)
  then have fd: "file_defaults dflt overall ?files q = overall" for q and dflt :: "string \<Rightarrow> default_configuration"
    by (simp add: file_defaults_def dir_defaults_def)
  have "distinct (map file_Dir (filter is_default ?files))" using f(1) by simp
  from ReadConfig_spec [OF st o this, where dflt = "\<lambda>_. overall" and strict = strict and content = content] d r
  have "ReadConfig fs yaml paths defaultpath strict =
      Inr (if ?files = [] then None else Some (joined_all (map (\<lambda>p. with_defaults overall (content p)) ?files)))"
    by (simp add: f(2) fd)
  with c have cs: "c = joined_all (map (\<lambda>p. with_defaults overall (content p)) ?files)"
    by (simp split: if_splits)
  have "with_defaults overall (joined_all (map (\<lambda>p. with_defaults overall (content p)) ps)) =
      joined_all (map (\<lambda>p. with_defaults overall (content p)) ps)" for ps
    by (rule with_defaults_joined) (auto simp: with_defaults_def reconciled_twice)
  then have same: "with_defaults overall c = c" unfolding cs .
  have b: "yl_config yaml strict b = Inr c"
    using w by (auto simp: MarshalYAML_def yaml_restores_def split: if_splits)
  have "yaml_files fs' [p] = [p]" using p by (simp add: yaml_files_def)
  with ReadConfig_spec [OF _ o(1) p(5), of "[p]" "\<lambda>_. overall" strict "\<lambda>_. c"] p b same show ?thesis
    by (simp add: file_defaults_def dir_defaults_def)
qed

text \<open>
  Without an overall default and without default files, one entity that leaves a field unset crashes
  the program.
\<close>

lemma ReadConfig_no_defaults:
  assumes st: "\<forall>p \<in> set paths. fs_stat fs p \<noteq> None"
    and d: "\<forall>p \<in> set (yaml_files fs paths). \<not> is_default p"
    and r: "\<forall>p \<in> set (yaml_files fs paths). \<exists>b. fs_read fs p = Inr b \<and> yl_config yaml strict b = Inr (content p)"
  shows "(\<exists>c. ReadConfig fs yaml paths [] strict = Inr c) \<longleftrightarrow>
      (\<forall>p \<in> set (yaml_files fs paths). complete_config (content p))"
    and "(\<exists>m. ReadConfig fs yaml paths [] strict = Inl (Panic m)) \<longleftrightarrow>
      (\<exists>p \<in> set (yaml_files fs paths). \<not> complete_config (content p))"
proof -
  let ?all = "yaml_files fs paths"
  let ?read = "read_file fs yaml [] no_defaults strict"
  have "distinct (map file_Dir (filter is_default ?all))" using d by (simp add: filter_empty_conv)
  from seekDefaults_spec [OF st this, of yaml "\<lambda>_. no_defaults"] d obtain m where
    m: "seekDefaults fs yaml paths = Inr m" "map_of m = dir_defaults (\<lambda>_. no_defaults) ?all" by blast
  have "filter is_default ?all = []" using d by (simp add: filter_empty_conv)
  then have "map_of m = Map.empty" by (simp add: m(2) dir_defaults_def fun_eq_iff)
  then have mm: "m = []" by simp
  have one: "?read c p = (if complete_config (content p)
      then Inr (Some (joined (or_empty c) ((content p)\<lparr>cfg_test_groups :=
        map (\<lambda>g. g\<lparr>tg_is_external := True, tg_use_kubernetes_client := True\<rparr>) (cfg_test_groups (content p))\<rparr>)))
      else nil_panic)" if "p \<in> set ?all" for c p
  proof -
    from r that obtain b where "fs_read fs p = Inr b" "yl_config yaml strict b = Inr (content p)" by blast
    with d that Update_no_defaults [OF this(2), of c] show ?thesis
      by (simp add: read_file_def pathDefault_def wrap_error_def nil_panic_def)
  qed
  have "((\<exists>c'. go_fold ?read c ps = Inr c') \<longleftrightarrow> (\<forall>p \<in> set ps. complete_config (content p))) \<and>
      ((\<exists>m. go_fold ?read c ps = Inl (Panic m)) \<longleftrightarrow> (\<exists>p \<in> set ps. \<not> complete_config (content p)))"
    if "set ps \<subseteq> set ?all" for c ps
    using that
  proof (induction ps arbitrary: c)
    case (Cons p ps)
    then show ?case using one [of p c] by (simp add: nil_panic_def)
  qed simp
  from this [of ?all None] SeekYAMLFiles_spec [OF st, of ?read None]
  show "(\<exists>c. ReadConfig fs yaml paths [] strict = Inr c) \<longleftrightarrow> (\<forall>p \<in> set ?all. complete_config (content p))"
    and "(\<exists>m. ReadConfig fs yaml paths [] strict = Inl (Panic m)) \<longleftrightarrow> (\<exists>p \<in> set ?all. \<not> complete_config (content p))"
    by (simp_all add: ReadConfig_def m(1) mm)
qed

end
