(* ===== verification/State_Compare.thy ===== *)
theory State_Compare
  imports Tab_Pass
begin

text \<open>
  The comparison of two directories of grids (\<open>cmd/state_comparer/main.go\<close>).  The difference of two maps
  is printed by \<open>go-cmp\<close>, which is the argument \<open>diff\<close>: its lines begin with a sign where the maps differ,
  and it is empty when they are equal.
\<close>

section \<open>Rows and columns\<close>

text \<open>
  \<open>ReplaceAllString\<close> with nothing, for an expression of the form \<open>before digits after\<close>.
\<close>

function strip_marks :: "string \<Rightarrow> string \<Rightarrow> string \<Rightarrow> string" where
  "strip_marks before after s =
     (case s of [] \<Rightarrow> []
      | c # t \<Rightarrow>
          if has_prefix s before \<and> before \<noteq> [] then
            let r = drop (length before) s; ds = takeWhile is_digit r; rest = dropWhile is_digit r in
            if ds \<noteq> [] \<and> has_prefix rest after then strip_marks before after (drop (length after) rest)
            else c # strip_marks before after t
          else c # strip_marks before after t)"
  by pat_completeness auto
termination
proof (relation "measure (\<lambda>(_, _, s). length s)")
  fix before after s :: string and c t r ds rest
  assume "s = c # t" "has_prefix s before \<and> before \<noteq> []" "r = drop (length before) s"
    "rest = dropWhile is_digit r"
  then have "length rest \<le> length s - length before" "0 < length before" "0 < length s"
    using length_dropWhile_le [of is_digit r] by auto
  then have "length rest - length after < length s" by linarith
  then show "((before, after, drop (length after) rest), before, after, s) \<in> measure (\<lambda>(_, _, s). length s)"
    by simp
qed auto

declare strip_marks.simps [simp del]

definition equated_name :: "string \<Rightarrow> string" where
  "equated_name name = strip_marks '' ['' '']'' (strip_marks '' <TESTGRID:'' ''>'' name)"

definition increment :: "(string, nat) gomap \<Rightarrow> string \<Rightarrow> (string, nat) gomap" where
  "increment m k = AList.update k (case map_of m k of Some n \<Rightarrow> n + 1 | None \<Rightarrow> 1) m"

definition stale_row :: "int \<Rightarrow> row \<Rightarrow> bool" where
  "stale_row numColumnsRecent row \<longleftrightarrow>
     numColumnsRecent \<noteq> 0 \<and> length (row_results row) \<ge> 2 \<and>
     row_results row ! 0 = 0 \<and> row_results row ! 1 \<ge> numColumnsRecent"

definition compared_row :: "int \<Rightarrow> row \<Rightarrow> bool" where
  "compared_row numColumnsRecent row \<longleftrightarrow>
     \<not> stale_row numColumnsRecent row \<and> \<not> str_contains (row_name row) ''@TESTGRID@''"

definition column_key :: "column \<Rightarrow> string" where
  "column_key c = col_build c @ ''|'' @ str_join (col_extra c) ''|''"

definition rowsAndColumns ::
    "grid \<Rightarrow> int \<Rightarrow> (string, nat) gomap \<times> (string, nat) gomap \<times> (string, nat) gomap" where
  "rowsAndColumns g numColumnsRecent =
     (let compared = filter (compared_row numColumnsRecent) (grid_rows g) in
      (foldl increment [] (map (\<lambda>r. equated_name (row_name r)) compared),
       foldl increment [] (map column_key (grid_columns g)),
       foldl increment [] (concat (map row_issues compared))))"

section \<open>Differences\<close>

text \<open>The argument, for maps to counts and for sets of keys.\<close>

record map_diff =
  md_counts :: "(string, nat) gomap \<Rightarrow> (string, nat) gomap \<Rightarrow> string"
  md_keys :: "(string, bool) gomap \<Rightarrow> (string, bool) gomap \<Rightarrow> string"

definition numDiff :: "string \<Rightarrow> nat" where
  "numDiff diff =
     (let lines = str_split diff [CHR 0x0A];
          plus = length (filter (\<lambda>l. has_prefix l ''+'') lines);
          minus = length (filter (\<lambda>l. has_prefix l ''-'') lines)
      in if plus > minus then plus else minus)"

record diff_reasons =
  dr_first_duplicates :: bool
  dr_second_duplicates :: bool
  dr_other :: bool

definition no_reasons :: diff_reasons where
  "no_reasons = \<lparr>dr_first_duplicates = False, dr_second_duplicates = False, dr_other = False\<rparr>"

text \<open>A difference counts when its ratio is above the one that is accepted.\<close>

definition above :: "float64 \<Rightarrow> string \<Rightarrow> nat \<Rightarrow> bool" where
  "above diffRatioOK diff whole \<longleftrightarrow> diff \<noteq> [] \<and> of_nat (numDiff diff) / of_nat whole > diffRatioOK"

definition compareKeys :: "map_diff \<Rightarrow> (string, nat) gomap \<Rightarrow> (string, nat) gomap \<Rightarrow> float64 \<Rightarrow> bool" where
  "compareKeys md firsts seconds diffRatioOK =
     above diffRatioOK (md_keys md (map (\<lambda>(k, _). (k, True)) firsts) (map (\<lambda>(k, _). (k, True)) seconds))
       (if length seconds > length firsts then length seconds else length firsts)"

definition reportDiff ::
    "map_diff \<Rightarrow> (string, nat) gomap \<Rightarrow> (string, nat) gomap \<Rightarrow> float64 \<Rightarrow> bool \<times> diff_reasons" where
  "reportDiff md firsts seconds diffRatioOK =
     (if above diffRatioOK (md_counts md firsts seconds)
           (if length firsts > length seconds then length firsts else length seconds) then
        (True,
         if compareKeys md firsts seconds diffRatioOK then no_reasons\<lparr>dr_other := True\<rparr>
         else if sum_list (map snd firsts) > sum_list (map snd seconds) then no_reasons\<lparr>dr_first_duplicates := True\<rparr>
         else no_reasons\<lparr>dr_second_duplicates := True\<rparr>)
      else (False, no_reasons))"

definition compare_grids :: "map_diff \<Rightarrow> grid \<Rightarrow> grid \<Rightarrow> float64 \<Rightarrow> int \<Rightarrow> bool \<times> diff_reasons \<times> diff_reasons" where
  "compare_grids md firsts seconds diffRatioOK numColumnsRecent =
     (let (firstRows, firstColumns, _) = rowsAndColumns firsts numColumnsRecent;
          (secondRows, secondColumns, _) = rowsAndColumns seconds numColumnsRecent in
      if firstRows = [] \<and> secondRows = [] \<or> firstColumns = [] \<and> secondColumns = []
      then (False, no_reasons, no_reasons)
      else if firstColumns = [] \<and> length secondColumns = 1 then (False, no_reasons, no_reasons)
      else
        let (rowsDiffed, rowReasons) = reportDiff md firstRows secondRows diffRatioOK;
            (colsDiffed, colReasons) = reportDiff md firstColumns secondColumns diffRatioOK
        in (rowsDiffed \<or> colsDiffed, rowReasons, colReasons))"

section \<open>The command\<close>

record compare_options =
  co_first :: url
  co_second :: url
  co_diff_ratio_ok :: float64
  co_debug :: bool
  co_trace :: bool
  co_test_group_url :: string

text \<open>An address that cannot be parsed with the slash is left as it is.\<close>

definition slashed :: "url_lib \<Rightarrow> url \<Rightarrow> url" where
  "slashed ul p =
     (if has_suffix (ul_string ul p) ''/'' then p
      else case NewPath ul (ul_string ul p @ ''/'') of Inr q \<Rightarrow> q | Inl _ \<Rightarrow> p)"

definition validate_options :: "url_lib \<Rightarrow> compare_options \<Rightarrow> compare_options go" where
  "validate_options ul co =
     (if ul_string ul (co_first co) = [] then Inl (Failed ''unset: --first'')
      else if ul_string ul (co_second co) = [] then Inl (Failed ''unset: --second'')
      else if co_diff_ratio_ok co < 0 \<or> co_diff_ratio_ok co > 1
      then Inl (Failed ''--diff-ratio-ok must be a ratio between 0.0 and 1.0'')
      else if co_debug co \<and> co_trace co then Inl (Failed ''set only one of --debug or --trace log levels'')
      else Inr (co\<lparr>co_first := slashed ul (co_first co), co_second := slashed ul (co_second co),
        co_test_group_url := (if co_test_group_url co \<noteq> [] \<and> \<not> has_suffix (co_test_group_url co) ''/''
          then co_test_group_url co @ ''/'' else co_test_group_url co)\<rparr>))"

text \<open>The names of the files of a directory, from the objects that are listed.\<close>

definition in_dir :: "string \<Rightarrow> string \<Rightarrow> string" where
  "in_dir dir name = (if has_suffix dir ''/'' then dir else dir @ ''/'') @ name"

definition filenames :: "url_lib \<Rightarrow> url \<Rightarrow> object_attrs list go \<Rightarrow> string list go" where
  "filenames ul dir stats =
     go_bind stats (\<lambda>ss. Inr (map (\<lambda>stat. in_dir (ul_string ul dir) (path_Base (oa_name stat))) ss))"

record compare_report =
  rp_total :: nat
  rp_not_found :: nat
  rp_errors :: "string list"
  rp_diffed :: "string list"
  rp_row_first :: "string list"
  rp_col_first :: "string list"
  rp_row_second :: "string list"
  rp_col_second :: "string list"
  rp_other :: "string list"

definition empty_report :: compare_report where
  "empty_report =
     \<lparr>rp_total = 0, rp_not_found = 0, rp_errors = [], rp_diffed = [], rp_row_first = [], rp_col_first = [],
      rp_row_second = [], rp_col_second = [], rp_other = []\<rparr>"

definition report_pair :: "string \<Rightarrow> bool \<times> diff_reasons \<times> diff_reasons \<Rightarrow> compare_report \<Rightarrow> compare_report" where
  "report_pair msg result rp =
     (case result of (diffed, rowReasons, colReasons) \<Rightarrow>
        let rp = (if \<not> diffed then rp
          else (if dr_second_duplicates rowReasons then rp\<lparr>rp_row_second := List.insert msg (rp_row_second rp)\<rparr>
            else if dr_second_duplicates colReasons then rp\<lparr>rp_col_second := List.insert msg (rp_col_second rp)\<rparr>
            else if dr_first_duplicates rowReasons then rp\<lparr>rp_row_first := List.insert msg (rp_row_first rp)\<rparr>
            else if dr_first_duplicates colReasons then rp\<lparr>rp_col_first := List.insert msg (rp_col_first rp)\<rparr>
            else rp\<lparr>rp_other := List.insert msg (rp_other rp)\<rparr>)\<lparr>rp_diffed := rp_diffed rp @ [msg]\<rparr>)
        in rp\<lparr>rp_total := rp_total rp + 1\<rparr>)"

definition compare_file ::
    "server \<Rightarrow> map_diff \<Rightarrow> compare_options \<Rightarrow> configuration option \<Rightarrow> compare_report \<Rightarrow> string \<Rightarrow> compare_report" where
  "compare_file s md co cfg rp firstP =
     (let tgName = path_Base firstP;
          secondP = in_dir (ul_string (srv_urls s) (co_second co)) tgName;
          failed = (\<lambda>msg. rp\<lparr>rp_errors := rp_errors rp @ [msg]\<rparr>) in
      case NewPath (srv_urls s) firstP of
        Inl _ \<Rightarrow> failed (''gcs.NewPath('' @ go_quote firstP @ '')'')
      | Inr firstPath \<Rightarrow>
          (case FindTestGroup tgName cfg of
             None \<Rightarrow> rp\<lparr>rp_not_found := rp_not_found rp + 1\<rparr>
           | Some tg \<Rightarrow>
               (case DownloadGrid s firstPath of
                  Inl _ \<Rightarrow> failed (''gcs.DownloadGrid('' @ go_quote firstP @ '')'')
                | Inr firstGrid \<Rightarrow>
                    (case NewPath (srv_urls s) secondP of
                       Inl _ \<Rightarrow> failed (''gcs.NewPath('' @ go_quote secondP @ '')'')
                     | Inr secondPath \<Rightarrow>
                         (case DownloadGrid s secondPath of
                            Inl _ \<Rightarrow> failed (''gcs.DownloadGrid('' @ go_quote secondP @ '')'')
                          | Inr secondGrid \<Rightarrow>
                              let or_nil = (\<lambda>g. case g of Some g \<Rightarrow> g | None \<Rightarrow> empty_grid);
                                  msg = (if co_test_group_url co \<noteq> [] then co_test_group_url co @ last (str_split firstP ''/'')
                                    else go_quote firstP @ '' vs. '' @ go_quote secondP) in
                              report_pair msg (compare_grids md (or_nil firstGrid) (or_nil secondGrid)
                                (co_diff_ratio_ok co) (tg_num_columns_recent tg)) rp)))))"

definition compare_files ::
    "server \<Rightarrow> map_diff \<Rightarrow> compare_options \<Rightarrow> configuration option \<Rightarrow> string list \<Rightarrow> compare_report" where
  "compare_files s md co cfg firstFiles = foldl (compare_file s md co cfg) empty_report firstFiles"

section \<open>Names of split cells\<close>

lemma has_prefix_space:
  "CHR '' '' \<notin> set p \<Longrightarrow> has_prefix (u @ CHR '' '' # v) p \<longleftrightarrow> has_prefix u p"
proof (induction u arbitrary: p)
  case Nil
  then show ?case by (cases p) (auto simp: has_prefix_def)
next
  case (Cons a u)
  then show ?case by (cases p) (auto simp: has_prefix_def)
qed

lemma has_prefix_length: "has_prefix s p \<Longrightarrow> length p \<le> length s"
  unfolding has_prefix_def by (metis length_take min.absorb_iff2 min.commute)

text \<open>A mark begins with its only space, so that a string can be cut at spaces.\<close>

lemma strip_marks_space:
  assumes "CHR '' '' \<notin> set b" "CHR '' '' \<notin> set after" "after \<noteq> []"
  defines "st \<equiv> strip_marks (CHR '' '' # b) after"
  shows "st (u @ CHR '' '' # v) = st u @ st (CHR '' '' # v)"
proof (induction u rule: length_induct)
  case (1 u)
  note IH = this
  let ?M = "CHR '' '' # v"
  have nd: "\<not> is_digit (CHR '' '')" by (simp add: is_digit_def less_eq_char_def)
  show ?case
  proof (cases u)
    case Nil
    then show ?thesis by (simp add: st_def strip_marks.simps [of _ _ "[]"])
  next
    case (Cons c t)
    let ?r = "drop (length b) t"
    let ?rest = "dropWhile is_digit ?r"
    have pre: "has_prefix ((c # t) @ ?M) (CHR '' '' # b) \<longleftrightarrow> has_prefix (c # t) (CHR '' '' # b)"
      using has_prefix_space [OF assms(1), of t v] by (auto simp: has_prefix_def)
    have IHt: "st (t @ ?M) = st t @ st ?M" using IH Cons by simp
    show ?thesis
    proof (cases "has_prefix (c # t) (CHR '' '' # b)")
      case False
      then show ?thesis
        using pre IHt unfolding st_def Cons by (subst (1 2) strip_marks.simps) simp
    next
      case True
      then have l: "length b \<le> length t" using has_prefix_length by fastforce
      have dw: "dropWhile is_digit (?r @ ?M) = ?rest @ ?M" "takeWhile is_digit (?r @ ?M) = takeWhile is_digit ?r"
        using nd by (simp_all add: dropWhile_append3 takeWhile_tail)
      have p: "has_prefix (?rest @ ?M) after \<longleftrightarrow> has_prefix ?rest after" by (rule has_prefix_space [OF assms(2)])
      have "length (drop (length after) ?rest) < length u"
        using length_dropWhile_le [of is_digit ?r] by (simp add: Cons)
      then have IHr: "st (drop (length after) ?rest @ ?M) = st (drop (length after) ?rest) @ st ?M" using IH by blast
      have dr: "drop (length after) (?rest @ ?M) = drop (length after) ?rest @ ?M" if "has_prefix ?rest after"
        using has_prefix_length [OF that] by simp
      show ?thesis
        using pre True l dw p IHr IHt dr unfolding st_def Cons
        by (subst (1 2) strip_marks.simps) (auto simp: Let_def)
    qed
  qed
qed

lemma strip_marks_none: "c \<in> set before \<Longrightarrow> c \<notin> set s \<Longrightarrow> strip_marks before after s = s"
proof (induction s)
  case (Cons a s)
  have "\<not> has_prefix (a # s) before"
    using Cons.prems unfolding has_prefix_def by (metis in_set_takeD)
  then show ?case using Cons by (simp add: strip_marks.simps [of _ _ "a # s"])
qed (simp add: strip_marks.simps)

lemma nat_str_is_digit: "c \<in> set (nat_str n) \<Longrightarrow> is_digit c"
proof -
  assume "c \<in> set (nat_str n)"
  then obtain d where d: "d < 10" "c = digit d" using nat_str_digits by fastforce
  then have "d \<in> {0,1,2,3,4,5,6,7,8,9}" by auto
  then show ?thesis unfolding d(2) by (auto simp: digit_def is_digit_def less_eq_char_def)
qed

lemma strip_one_mark: "strip_marks '' ['' '']'' ('' ['' @ nat_str i @ '']'') = []"
proof -
  have d: "\<forall>c \<in> set (nat_str i). is_digit c" "nat_str i \<noteq> []" "\<not> is_digit (CHR '']'')"
    using nat_str_is_digit by (blast, simp add: nat_str.simps [of i], simp add: is_digit_def less_eq_char_def)
  then have "takeWhile is_digit (nat_str i @ '']'') = nat_str i" "dropWhile is_digit (nat_str i @ '']'') = '']''"
    by (simp_all add: takeWhile_append2 dropWhile_append2)
  then show ?thesis using d(2)
    by (subst strip_marks.simps) (simp add: has_prefix_def strip_marks.simps [of _ _ "[]"])
qed

text \<open>The rows that the updater makes of the results of one test are equated.\<close>

lemma equated_split:
  assumes "i \<noteq> maxDuplicates"
  shows "equated_name (split_name name i) = equated_name name"
proof (cases "i = 0")
  case False
  let ?m = "'' ['' @ nat_str i @ '']''"
  have lt: "CHR ''<'' \<notin> set ?m"
    using nat_str_is_digit [of "CHR ''<''" i] by (auto simp: is_digit_def less_eq_char_def)
  have "strip_marks '' <TESTGRID:'' ''>'' (name @ ?m) = strip_marks '' <TESTGRID:'' ''>'' name @ ?m"
    using strip_marks_space [of "''<TESTGRID:''" "''>''" name "''['' @ nat_str i @ '']''"]
      strip_marks_none [of "CHR ''<''" "'' <TESTGRID:''" ?m "''>''"] lt by simp
  then show ?thesis
    using False assms strip_one_mark [of i]
      strip_marks_space [of "''[''" "'']''" "strip_marks '' <TESTGRID:'' ''>'' name" "''['' @ nat_str i @ '']''"]
    by (simp add: split_name_def equated_name_def)
qed (simp add: split_name_def)

section \<open>What is compared\<close>

lemma map_of_increments:
  "map_of (foldl increment m ks) k =
     (if k \<in> set ks \<or> map_of m k \<noteq> None then Some (count_list ks k + (case map_of m k of Some n \<Rightarrow> n | None \<Rightarrow> 0)) else None)"
proof (induction ks arbitrary: m)
  case (Cons x ks)
  then show ?case by (auto simp: increment_def update_conv split: option.split)
qed (simp split: option.split)

lemma increments_distinct: "distinct (map fst m) \<Longrightarrow> distinct (map fst (foldl increment m ks))"
  by (induction ks arbitrary: m) (simp_all add: increment_def distinct_update)

lemma increments_keys: "fst ` set (foldl increment [] ks) = set ks"
  using map_of_increments [of "[]" ks] by (auto simp: domIff dom_map_of_conv_image_fst [symmetric] split: if_splits)

lemma increments_mset:
  "mset ks = mset ls \<Longrightarrow> map_of (foldl increment [] ks) = map_of (foldl increment [] ls)"
proof (rule ext)
  fix k
  assume m: "mset ks = mset ls"
  then have "count_list ks k = count_list ls k" by (metis count_mset)
  then show "map_of (foldl increment [] ks) k = map_of (foldl increment [] ls) k"
    by (simp add: map_of_increments mset_eq_setD [OF m])
qed

text \<open>The printer of differences says nothing about equal maps.\<close>

definition prints_differences :: "map_diff \<Rightarrow> bool" where
  "prints_differences md \<longleftrightarrow>
     (\<forall>a b. map_of a = map_of b \<longrightarrow> md_counts md a b = []) \<and> (\<forall>a b. map_of a = map_of b \<longrightarrow> md_keys md a b = [])"

definition row_names :: "int \<Rightarrow> grid \<Rightarrow> string list" where
  "row_names recent g = map (\<lambda>r. equated_name (row_name r)) (filter (compared_row recent) (grid_rows g))"

lemma rowsAndColumns_maps:
  "rowsAndColumns g n = (foldl increment [] (row_names n g), foldl increment [] (map column_key (grid_columns g)),
     foldl increment [] (concat (map row_issues (filter (compared_row n) (grid_rows g)))))"
  by (simp add: rowsAndColumns_def row_names_def Let_def comp_def)

lemma compare_same:
  assumes "prints_differences md" "mset (row_names n g) = mset (row_names n h)"
    "mset (map column_key (grid_columns g)) = mset (map column_key (grid_columns h))"
  shows "compare_grids md g h r n = (False, no_reasons, no_reasons)"
  using assms(1) increments_mset [OF assms(2)] increments_mset [OF assms(3)]
  by (simp add: compare_grids_def rowsAndColumns_maps reportDiff_def above_def prints_differences_def)

lemma sum_increments: "sum_list (map snd (foldl increment m ks)) = sum_list (map snd m) + length ks"
proof -
  have old: "sum_list (map snd (AList.update k (Suc v) m)) = Suc (sum_list (map snd m))"
    if "map_of m k = Some v" for m k and v :: nat
    using that by (induction m) (auto split: if_splits)
  have new: "sum_list (map snd (AList.update k v m)) = sum_list (map snd m) + v" if "map_of m k = None" for m k and v :: nat
    using that by (induction m) (auto split: if_splits)
  have "sum_list (map snd (increment m k)) = sum_list (map snd m) + 1" for m k
    by (cases "map_of m k") (simp_all add: increment_def old new)
  then show ?thesis by (induction ks arbitrary: m) simp_all
qed

lemma compareKeys_same:
  assumes "prints_differences md" "set ks = set ls" "0 \<le> r"
  shows "\<not> compareKeys md (foldl increment [] ks) (foldl increment [] ls) r"
proof -
  have "map_of (map (\<lambda>(k, _). (k, True)) m) = (\<lambda>k. if k \<in> fst ` set m then Some True else None)" for m :: "(string, nat) gomap"
    by (induction m) (auto simp: fun_eq_iff)
  then have "map_of (map (\<lambda>(k, _). (k, True)) (foldl increment [] ks)) =
      map_of (map (\<lambda>(k, _). (k, True)) (foldl increment [] ls))"
    by (simp add: increments_keys assms(2))
  then show ?thesis using assms(1) by (simp add: compareKeys_def above_def prints_differences_def)
qed

text \<open>
  Grids with the same names of rows, where one has some of them more often: a difference of the rows is
  put down to duplicates, of the grid that has more rows.
\<close>

lemma reportDiff_duplicates:
  assumes "prints_differences md" "set ks = set ls" "0 \<le> r"
  shows "reportDiff md (foldl increment [] ks) (foldl increment [] ls) r = (False, no_reasons) \<or>
    reportDiff md (foldl increment [] ks) (foldl increment [] ls) r =
      (True, if length ks > length ls then no_reasons\<lparr>dr_first_duplicates := True\<rparr>
        else no_reasons\<lparr>dr_second_duplicates := True\<rparr>)"
  using compareKeys_same [OF assms] by (simp add: reportDiff_def sum_increments)

lemma compare_duplicates:
  assumes "prints_differences md" "set (row_names n g) = set (row_names n h)" "0 \<le> r"
  shows "\<not> dr_other (fst (snd (compare_grids md g h r n)))"
    "dr_first_duplicates (fst (snd (compare_grids md g h r n))) \<Longrightarrow> length (row_names n h) < length (row_names n g)"
  using reportDiff_duplicates [OF assms]
  by (auto simp: compare_grids_def rowsAndColumns_maps no_reasons_def Let_def split: prod.splits if_splits)

text \<open>In particular the rows of split cells count as the one row of their test.\<close>

lemma row_names_split:
  assumes "\<forall>r \<in> set (grid_rows g). \<exists>name i. i \<noteq> maxDuplicates \<and> row_name r = split_name name i \<and> name \<in> tests"
  shows "set (row_names n g) \<subseteq> equated_name ` tests"
  using assms equated_split by (fastforce simp: row_names_def)

section \<open>Every file is accounted for\<close>

definition reported :: "compare_report \<Rightarrow> string set" where
  "reported rp = set (rp_row_first rp) \<union> set (rp_col_first rp) \<union> set (rp_row_second rp) \<union> set (rp_col_second rp) \<union>
     set (rp_other rp)"

lemma compare_file_counts:
  fixes s md co cfg f rp
  defines "rp' \<equiv> compare_file s md co cfg rp f"
  shows "rp_total rp' + rp_not_found rp' + length (rp_errors rp') = Suc (rp_total rp + rp_not_found rp + length (rp_errors rp))"
    "length (rp_diffed rp') + rp_total rp \<le> length (rp_diffed rp) + rp_total rp'"
    "reported rp = set (rp_diffed rp) \<Longrightarrow> reported rp' = set (rp_diffed rp')"
  unfolding rp'_def compare_file_def
  by (auto simp: Let_def report_pair_def reported_def split: sum.split option.split prod.split)

lemma compare_files_counts:
  fixes s md co cfg fs
  defines "rp \<equiv> compare_files s md co cfg fs"
  shows "rp_total rp + rp_not_found rp + length (rp_errors rp) = length fs \<and> length (rp_diffed rp) \<le> rp_total rp \<and>
    reported rp = set (rp_diffed rp)"
proof -
  have "rp_total (foldl (compare_file s md co cfg) r fs) + rp_not_found (foldl (compare_file s md co cfg) r fs) +
      length (rp_errors (foldl (compare_file s md co cfg) r fs)) = rp_total r + rp_not_found r + length (rp_errors r) + length fs \<and>
    (length (rp_diffed r) \<le> rp_total r \<longrightarrow>
      length (rp_diffed (foldl (compare_file s md co cfg) r fs)) \<le> rp_total (foldl (compare_file s md co cfg) r fs)) \<and>
    (reported r = set (rp_diffed r) \<longrightarrow>
      reported (foldl (compare_file s md co cfg) r fs) = set (rp_diffed (foldl (compare_file s md co cfg) r fs)))" for r
  proof (induction fs arbitrary: r)
    case (Cons f fs)
    from Cons [of "compare_file s md co cfg r f"] compare_file_counts [where s = s and md = md and co = co and cfg = cfg and rp = r and f = f]
    show ?case by simp
  qed simp
  from this [of empty_report] show ?thesis by (simp add: rp_def compare_files_def empty_report_def reported_def)
qed

end
