(* ===== verification/Metrics.thy ===== *)
theory Metrics
  imports Config_Source
begin

text \<open>
  The metrics of the programs: the reporters of a cycle (\<open>util/metrics/metrics.go\<close>), the metrics that are
  logged (\<open>util/metrics/logmetrics/log.go\<close>) and those that Prometheus collects
  (\<open>util/metrics/prometheus/prometheus.go\<close>).  A vector of Prometheus is a parameter; the printing of means
  and rates is left out.
\<close>

section \<open>Cycles\<close>

text \<open>A nil metric of a component is \<open>False\<close>.\<close>

record cyclic =
  cy_fields :: "string list"
  cy_errors :: bool
  cy_skips :: bool
  cy_successes :: bool
  cy_cycle_seconds :: bool

datatype cycle_event = Errors "string list" | Skips "string list" | Successes "string list" | Seconds int "string list"

record cycle_reporter =
  cr_metric :: cyclic
  cr_when :: int

definition Start :: "cyclic option \<Rightarrow> int \<Rightarrow> cycle_reporter option" where
  "Start p now = map_option (\<lambda>p. \<lparr>cr_metric = p, cr_when = now\<rparr>) p"

definition cycle_done :: "int \<Rightarrow> cycle_reporter option \<Rightarrow> cycle_event list" where
  "cycle_done now pr =
     (case pr of None \<Rightarrow> []
      | Some pr \<Rightarrow> if cy_cycle_seconds (cr_metric pr) then [Seconds (now - cr_when pr) (cy_fields (cr_metric pr))] else [])"

definition Success :: "int \<Rightarrow> cycle_reporter option \<Rightarrow> cycle_event list" where
  "Success now pr = cycle_done now pr @
     (case pr of None \<Rightarrow> []
      | Some pr \<Rightarrow> if cy_successes (cr_metric pr) then [Successes (cy_fields (cr_metric pr))] else [])"

definition Fail :: "int \<Rightarrow> cycle_reporter option \<Rightarrow> cycle_event list" where
  "Fail now pr = cycle_done now pr @
     (case pr of None \<Rightarrow> []
      | Some pr \<Rightarrow> if cy_errors (cr_metric pr) then [Errors (cy_fields (cr_metric pr))] else [])"

definition Skip :: "int \<Rightarrow> cycle_reporter option \<Rightarrow> cycle_event list" where
  "Skip now pr = cycle_done now pr @
     (case pr of None \<Rightarrow> []
      | Some pr \<Rightarrow> if cy_skips (cr_metric pr) then [Skips (cy_fields (cr_metric pr))] else [])"

section \<open>Logged metrics\<close>

text \<open>One map per field, from the values of the field; a fatal log entry ends the program.\<close>

record log_int64 =
  li_name :: string
  li_fields :: "string list"
  li_current :: "(string, int list) gomap list"

definition new_int64 :: "string \<Rightarrow> string list \<Rightarrow> log_int64" where
  "new_int64 name vs = \<lparr>li_name = name, li_fields = vs, li_current = map (\<lambda>_. []) vs\<rparr>"

definition append_at :: "string \<Rightarrow> int \<Rightarrow> (string, int list) gomap \<Rightarrow> (string, int list) gomap" where
  "append_at v n m = AList.update v ((case map_of m v of Some ns \<Rightarrow> ns | None \<Rightarrow> []) @ [n]) m"

definition int64_Set :: "int \<Rightarrow> string list \<Rightarrow> log_int64 \<Rightarrow> log_int64 go" where
  "int64_Set n vs m =
     (if length vs \<noteq> length (li_fields m) then Inl (Panic ''Wrong number of fields'')
      else Inr (m\<lparr>li_current := map2 (\<lambda>v cur. append_at v n cur) vs (li_current m)\<rparr>))"

text \<open>What is reported: the measurements of every value of a field, which are then forgotten.\<close>

definition int64_Values :: "log_int64 \<Rightarrow> (string, (string, int list) gomap) gomap \<times> log_int64" where
  "int64_Values m =
     (fold (\<lambda>(field, cur) trend'. if cur = [] then trend' else AList.update field cur trend')
        (zip (li_fields m) (li_current m)) [],
      m\<lparr>li_current := map (\<lambda>_. []) (li_current m)\<rparr>)"

record log_counter =
  lc_name :: string
  lc_fields :: "string list"
  lc_current :: "(string, int) gomap list"
  lc_previous :: "(string, int) gomap list"
  lc_last :: int

definition new_counter :: "int \<Rightarrow> string \<Rightarrow> string list \<Rightarrow> log_counter" where
  "new_counter now name vs =
     \<lparr>lc_name = name, lc_fields = vs, lc_current = map (\<lambda>_. []) vs, lc_previous = map (\<lambda>_. []) vs,
      lc_last = now\<rparr>"

definition or_zero :: "(string, int) gomap \<Rightarrow> string \<Rightarrow> int" where
  "or_zero m v = (case map_of m v of Some n \<Rightarrow> n | None \<Rightarrow> 0)"

definition counter_Add :: "int \<Rightarrow> string list \<Rightarrow> log_counter \<Rightarrow> log_counter go" where
  "counter_Add n vs m =
     (if length vs \<noteq> length (lc_fields m) then Inl (Panic ''Wrong number of fields'')
      else if n < 0 then Inl (Panic ''Negative value are invalid'')
      else Inr (m\<lparr>lc_current := map2 (\<lambda>v cur. AList.update v (or_zero cur v + n) cur) vs (lc_current m)\<rparr>))"

record gauge =
  ga_total :: int
  ga_delta :: int
  ga_dur :: int

definition counter_Values :: "int \<Rightarrow> log_counter \<Rightarrow> (string, (string, gauge) gomap) gomap \<times> log_counter" where
  "counter_Values now m =
     (fold (\<lambda>(field, cur, prev). AList.update field
          (map (\<lambda>(v, n). (v, \<lparr>ga_total = n, ga_delta = n - or_zero prev v, ga_dur = now - lc_last m\<rparr>)) cur))
        (zip (lc_fields m) (zip (lc_current m) (lc_previous m))) [],
      m\<lparr>lc_last := now, lc_previous := map2 (\<lambda>cur prev. fold (\<lambda>(v, n). AList.update v n) cur prev)
        (lc_current m) (lc_previous m)\<rparr>)"

text \<open>
  The metrics that one turn of \<open>Report\<close> logs: one for every name, in the order of the names, and the last
  one that has it.  \<open>ReportNow\<close> logs all of them.
\<close>

definition report_turn :: "(string \<times> 'm) list \<Rightarrow> (string \<times> 'm) list" where
  "report_turn metrics =
     (let metricMap = fold (\<lambda>(i, name, _). AList.update name i) (zip [0..<length metrics] metrics) [] in
      map (\<lambda>name. metrics ! (case map_of metricMap name of Some i \<Rightarrow> i | None \<Rightarrow> 0)) (sort (remdups (map fst metrics))))"

section \<open>Metrics of Prometheus\<close>

text \<open>A vector of metrics by the values of their labels: setting one, and reading one.\<close>

record 'v prom_vec =
  pv_set :: "'v \<Rightarrow> string list \<Rightarrow> int \<Rightarrow> 'v go"
  pv_value :: "'v \<Rightarrow> string list \<Rightarrow> int go"

record 'v prom_metric =
  pm_vec :: 'v
  pm_fields :: "string list"

definition prom_Set :: "'v prom_vec \<Rightarrow> int \<Rightarrow> string list \<Rightarrow> 'v prom_metric \<Rightarrow> 'v prom_metric go" where
  "prom_Set pv n vs m =
     go_bind (pv_set pv (pm_vec m) vs n)
       (\<lambda>v. Inr \<lparr>pm_vec = v, pm_fields = List.insert (str_join vs ''|'') (pm_fields m)\<rparr>)"

definition prom_Values :: "'v prom_vec \<Rightarrow> 'v prom_metric \<Rightarrow> (string, int) gomap go" where
  "prom_Values pv m =
     go_map (\<lambda>fieldStr. go_bind (pv_value pv (pm_vec m) (str_split fieldStr ''|'')) (\<lambda>x. Inr (fieldStr, x))) (pm_fields m)"

section \<open>Nothing is lost in the log\<close>

datatype int64_op = SetOp int "string list" | ValuesOp

fun int64_run :: "int64_op list \<Rightarrow> log_int64 \<Rightarrow> ((string, (string, int list) gomap) gomap list \<times> log_int64) go" where
  "int64_run [] m = Inr ([], m)"
| "int64_run (SetOp n vs # ops) m = go_bind (int64_Set n vs m) (int64_run ops)"
| "int64_run (ValuesOp # ops) m =
     (case int64_Values m of (report, m') \<Rightarrow> go_bind (int64_run ops m') (\<lambda>(reports, m''). Inr (report # reports, m'')))"

definition measured :: "(string, int list) gomap \<Rightarrow> string \<Rightarrow> int list" where
  "measured m v = (case map_of m v of Some ns \<Rightarrow> ns | None \<Rightarrow> [])"

definition in_report :: "(string, (string, int list) gomap) gomap \<Rightarrow> string \<Rightarrow> string \<Rightarrow> int list" where
  "in_report report field v = (case map_of report field of Some m \<Rightarrow> measured m v | None \<Rightarrow> [])"

definition set_values :: "int64_op list \<Rightarrow> nat \<Rightarrow> string \<Rightarrow> int list" where
  "set_values ops i v =
     List.map_filter (\<lambda>op. case op of SetOp n vs \<Rightarrow> if vs ! i = v then Some n else None | ValuesOp \<Rightarrow> None) ops"

lemma set_values_simps [simp]:
  "set_values [] i v = []" "set_values (ValuesOp # ops) i v = set_values ops i v"
  "set_values (SetOp n vs # ops) i v = (if vs ! i = v then [n] else []) @ set_values ops i v"
  by (simp_all add: set_values_def map_filter_simps)

lemma measured_append: "measured (append_at w n m) v = measured m v @ (if v = w then [n] else [])"
  by (simp add: measured_def append_at_def update_conv split: option.split)

lemma map_of_int64_report:
  assumes "distinct fs" "length cs = length fs" "i < length fs"
  shows "map_of (fold (\<lambda>(field, cur) t. if cur = [] then t else AList.update field cur t) (zip fs cs) m) (fs ! i) =
    (if cs ! i = [] then map_of m (fs ! i) else Some (cs ! i))"
  using assms
proof (induction fs arbitrary: cs m i)
  case (Cons f fs)
  then obtain c cs' where cs: "cs = c # cs'" by (cases cs) auto
  have keep: "map_of (fold (\<lambda>(field, cur) t. if cur = [] then t else AList.update field cur t) (zip fs cs') m) f = map_of m f" for m
    using Cons.prems(1)
  proof (induction fs arbitrary: cs' m)
    case (Cons g fs)
    then show ?case by (cases cs') (auto simp: update_conv)
  qed simp
  show ?case
  proof (cases i)
    case 0
    then show ?thesis using keep by (simp add: cs update_conv)
  next
    case (Suc j)
    then have "fs ! j \<noteq> f" using Cons.prems by auto
    with Suc show ?thesis using Cons.IH [of cs' j] Cons.prems by (simp add: cs update_conv)
  qed
qed simp

lemma int64_Values_reports:
  assumes "distinct (li_fields m)" "length (li_current m) = length (li_fields m)" "i < length (li_fields m)"
  shows "in_report (fst (int64_Values m)) (li_fields m ! i) v = measured (li_current m ! i) v"
  using map_of_int64_report [OF assms, of "[]"]
  by (simp add: int64_Values_def in_report_def measured_def)

lemma int64_measurements:
  assumes "int64_run ops m = Inr (reports, m')"
    and "distinct (li_fields m)" "length (li_current m) = length (li_fields m)" "i < length (li_fields m)"
  shows "measured (li_current m ! i) v @ set_values ops i v =
    concat (map (\<lambda>r. in_report r (li_fields m ! i) v) reports) @ measured (li_current m' ! i) v"
  using assms
proof (induction ops arbitrary: m reports)
  case (Cons op ops)
  show ?case
  proof (cases op)
    case (SetOp n vs)
    with Cons.prems obtain m1 where m1: "int64_Set n vs m = Inr m1" "int64_run ops m1 = Inr (reports, m')"
      by (auto simp: go_simps)
    then have f: "li_fields m1 = li_fields m" "length vs = length (li_fields m)"
      "li_current m1 = map2 (\<lambda>v cur. append_at v n cur) vs (li_current m)"
      by (auto simp: int64_Set_def split: if_splits)
    have "measured (li_current m1 ! i) v = measured (li_current m ! i) v @ (if v = vs ! i then [n] else [])"
      using f Cons.prems(3,4) by (simp add: measured_append)
    then show ?thesis using Cons.IH [OF m1(2)] Cons.prems(2-4) f by (auto simp: SetOp)
  next
    case ValuesOp
    let ?m1 = "snd (int64_Values m)"
    from ValuesOp Cons.prems(1) obtain rs where
      rs: "int64_run ops ?m1 = Inr (rs, m')" "reports = fst (int64_Values m) # rs"
      by (auto simp: go_simps split: prod.splits)
    have "li_fields ?m1 = li_fields m" "length (li_current ?m1) = length (li_current m)" "measured (li_current ?m1 ! i) v = []"
      using Cons.prems(3,4) by (simp_all add: int64_Values_def measured_def)
    then show ?thesis
      using Cons.IH [OF rs(1)] Cons.prems(2-4) int64_Values_reports [OF Cons.prems(2-4), of v] by (simp add: ValuesOp rs(2))
  qed
qed simp

text \<open>Of metrics with the same name a turn of \<open>Report\<close> logs only the last.\<close>

lemma report_index:
  "name \<in> fst ` set ms \<Longrightarrow>
   \<exists>i < length ms. map_of (fold (\<lambda>(i, name, _). AList.update name i) (zip [0..<length ms] ms) []) name = Some i \<and>
     ms ! i = last (filter (\<lambda>x. fst x = name) ms)"
proof (induction ms rule: rev_induct)
  case (snoc x ms)
  have z: "zip [0..<length (ms @ [x])] (ms @ [x]) = zip [0..<length ms] ms @ [(length ms, x)]" by simp
  show ?case
  proof (cases "fst x = name")
    case True
    then show ?thesis unfolding z by (intro exI [of _ "length ms"]) (auto simp: update_conv split: prod.split)
  next
    case False
    then have "name \<in> fst ` set ms" using snoc.prems by auto
    from snoc.IH [OF this] obtain i where i: "i < length ms"
      "map_of (fold (\<lambda>(i, name, _). AList.update name i) (zip [0..<length ms] ms) []) name = Some i"
      "ms ! i = last (filter (\<lambda>x. fst x = name) ms)" by blast
    then show ?thesis unfolding z using False
      by (intro exI [of _ i]) (auto simp: update_conv nth_append split: prod.split)
  qed
qed simp

lemma report_turn_last:
  "report_turn ms = map (\<lambda>name. last (filter (\<lambda>x. fst x = name) ms)) (sort (remdups (map fst ms)))"
proof -
  have "ms ! (case map_of (fold (\<lambda>(i, name, _). AList.update name i) (zip [0..<length ms] ms) []) name of
      Some i \<Rightarrow> i | None \<Rightarrow> 0) = last (filter (\<lambda>x. fst x = name) ms)" if "name \<in> fst ` set ms" for name
    using report_index [OF that] by auto
  then show ?thesis by (simp add: report_turn_def Let_def)
qed

section \<open>Labels with a bar\<close>

lemma split_bar_length: "length (str_split s ''|'') = Suc (count_list s (CHR ''|''))"
proof -
  have "length (str_split_acc ''|'' acc s) = Suc (count_list s (CHR ''|''))" for acc
    by (induction s arbitrary: acc) (auto simp: has_prefix_def)
  then show ?thesis by (simp add: str_split_def)
qed

lemma join_bar_count:
  "ls \<noteq> [] \<Longrightarrow> Suc (count_list (str_join ls ''|'') (CHR ''|'')) = length ls + sum_list (map (\<lambda>l. count_list l (CHR ''|'')) ls)"
  by (induction ls "''|''" rule: str_join.induct) simp_all

lemma split_joined_bar:
  assumes "ls \<noteq> []" "\<forall>l \<in> set ls. CHR ''|'' \<notin> set l"
  shows "str_split (str_join ls ''|'') ''|'' = ls"
proof -
  have plain: "CHR ''|'' \<notin> set u \<Longrightarrow> str_split_acc ''|'' acc (u @ s) = str_split_acc ''|'' (rev u @ acc) s" for u acc s
    by (induction u arbitrary: acc) (auto simp: has_prefix_def)
  show ?thesis
    using assms
  proof (induction ls "''|''" rule: str_join.induct)
    case (2 l)
    then show ?case using plain [of l "[]" "[]"] by (simp add: str_split_def)
  next
    case (3 l l' ls)
    then show ?case using plain [of l "[]" "''|'' @ str_join (l' # ls) ''|''"] by (simp add: str_split_def has_prefix_def)
  qed simp
qed

text \<open>
  What the library documents of a vector with \<open>n\<close> labels: another number of values panics, a value is
  read as it was last set.
\<close>

definition vector_of :: "'v prom_vec \<Rightarrow> nat \<Rightarrow> bool" where
  "vector_of pv n \<longleftrightarrow>
     (\<forall>v ls x. if length ls = n then \<exists>v'. pv_set pv v ls x = Inr v' \<and> pv_value pv v' ls = Inr x
               else \<exists>m. pv_set pv v ls x = Inl (Panic m)) \<and>
     (\<forall>v ls. if length ls = n then \<exists>x. pv_value pv v ls = Inr x else \<exists>m. pv_value pv v ls = Inl (Panic m))"

lemma go_map_iff: "(\<exists>ys. go_map f xs = Inr ys) \<longleftrightarrow> (\<forall>x \<in> set xs. \<exists>y. f x = Inr y)"
  by (induction xs) (auto simp: go_simps)

text \<open>A bar in the value of a label makes the metric impossible to report, and panics.\<close>

lemma prom_Values_bar:
  assumes "vector_of pv n" "0 < n" "prom_Set pv x ls m = Inr m'"
  shows "(\<exists>l \<in> set ls. CHR ''|'' \<in> set l) \<Longrightarrow> \<not> (\<exists>vs. prom_Values pv m' = Inr vs)"
    "\<forall>l \<in> set ls. CHR ''|'' \<notin> set l \<Longrightarrow> prom_Values pv m = Inr vs \<Longrightarrow>
      (\<exists>vs'. prom_Values pv m' = Inr vs' \<and> (str_join ls ''|'', x) \<in> set vs')"
proof -
  note set = assms(1) [unfolded vector_of_def, THEN conjunct1, THEN spec [of _ "pm_vec m"], THEN spec [of _ ls], THEN spec [of _ x]]
  have get: "if length l = n then \<exists>x. pv_value pv v l = Inr x else \<exists>m. pv_value pv v l = Inl (Panic m)" for l v
    by (rule assms(1) [unfolded vector_of_def, THEN conjunct2, THEN spec [of _ v], THEN spec [of _ l]])
  from assms(3) obtain v where v: "pv_set pv (pm_vec m) ls x = Inr v" "pm_vec m' = v"
    "pm_fields m' = List.insert (str_join ls ''|'') (pm_fields m)"
    by (auto simp: prom_Set_def go_simps)
  have n: "length ls = n" using set v(1) by (auto split: if_splits)
  then have x: "pv_value pv v ls = Inr x" using set v(1) by auto
  have ls: "ls \<noteq> []" using n assms(2) by auto
  show "\<not> (\<exists>vs. prom_Values pv m' = Inr vs)" if bar: "\<exists>l \<in> set ls. CHR ''|'' \<in> set l"
  proof -
    from bar have "sum_list (map (\<lambda>l. count_list l (CHR ''|'')) ls) \<noteq> 0"
      by (auto simp: count_list_0_iff)
    then have "length (str_split (str_join ls ''|'') ''|'') \<noteq> n"
      using join_bar_count [OF ls] n by (simp add: split_bar_length)
    then have "\<not> (\<exists>y. pv_value pv v (str_split (str_join ls ''|'') ''|'') = Inr y)"
      using get [where v = v and l = "str_split (str_join ls ''|'') ''|''"] by auto
    then show ?thesis unfolding prom_Values_def go_map_iff v(2,3) by (auto simp: go_simps)
  qed
  show "\<exists>vs'. prom_Values pv m' = Inr vs' \<and> (str_join ls ''|'', x) \<in> set vs'"
    if plain: "\<forall>l \<in> set ls. CHR ''|'' \<notin> set l" and vs: "prom_Values pv m = Inr vs"
  proof -
    have sp: "str_split (str_join ls ''|'') ''|'' = ls" by (rule split_joined_bar [OF ls plain])
    have "\<exists>y. pv_value pv v (str_split f ''|'') = Inr y" if "f \<in> set (pm_fields m)" for f
    proof -
      have "\<exists>y. pv_value pv (pm_vec m) (str_split f ''|'') = Inr y"
        using go_map_iff [THEN iffD1, OF exI, OF vs [unfolded prom_Values_def]] that by (auto simp: go_simps)
      then have "length (str_split f ''|'') = n" using get [where v = "pm_vec m" and l = "str_split f ''|''"] by (auto split: if_splits)
      then show ?thesis using get [where v = v and l = "str_split f ''|''"] by auto
    qed
    then have "\<exists>y. pv_value pv (pm_vec m') (str_split f ''|'') = Inr y" if "f \<in> set (pm_fields m')" for f
      using that x sp by (cases "f = str_join ls ''|''") (auto simp: v(2,3))
    then have "\<forall>f \<in> set (pm_fields m').
        \<exists>y. go_bind (pv_value pv (pm_vec m') (str_split f ''|'')) (\<lambda>x. Inr (f, x)) = Inr y" by fastforce
    from go_map_total [OF this] obtain vs' where vs': "prom_Values pv m' = Inr vs'"
      unfolding prom_Values_def by blast
    obtain i where i: "i < length (pm_fields m')" "pm_fields m' ! i = str_join ls ''|''"
      unfolding v(3) by (metis in_set_conv_nth insertI1 set_insert)
    from go_map_nth [OF vs' [unfolded prom_Values_def] i(1)] have "vs' ! i = (str_join ls ''|'', x)"
      by (simp add: i(2) v(2) sp x)
    moreover have "i < length vs'" using go_map_length [OF vs' [unfolded prom_Values_def]] i(1) by simp
    ultimately show ?thesis using vs' by (metis nth_mem)
  qed
qed

end
