(* ===== verification/Pubsub.thy ===== *)
theory Pubsub
  imports Storage
begin

text \<open>
  Messages about objects in storage (\<open>pkg/pubsub/pubsub.go\<close>) become notifications, which the updater
  reads: the receiver of a subscription answers every message.  Parsing a time is an argument.
\<close>

record message =
  ms_id :: string
  ms_attributes :: "(string, string) gomap"

definition attribute :: "message \<Rightarrow> string \<Rightarrow> string" where
  "attribute msg key = (case map_of (ms_attributes msg) key of Some v \<Rightarrow> v | None \<Rightarrow> [])"

record notice =
  no_path :: url
  no_event :: string
  no_time :: int
  no_generation :: int

datatype reply = Ack | Nack

text \<open>\<open>strconv.ParseInt\<close> for base 10 and 64 bits.\<close>

definition ParseInt64 :: "string \<Rightarrow> int go" where
  "ParseInt64 s =
     (let neg = (case s of c # _ \<Rightarrow> c = CHR ''-'' | [] \<Rightarrow> False);
          ds = (case s of c # t \<Rightarrow> if c = CHR ''-'' \<or> c = CHR ''+'' then t else s | [] \<Rightarrow> s);
          n = (if neg then - int (digits_val ds) else int (digits_val ds)) in
      if ds = [] \<or> \<not> list_all is_digit ds then Inl (Failed (''strconv.ParseInt: invalid syntax: '' @ s))
      else if n < - (2 ^ 63) \<or> 2 ^ 63 \<le> n then Inl (Failed (''strconv.ParseInt: value out of range: '' @ s))
      else Inr n)"

definition notice_of :: "url_lib \<Rightarrow> (string \<Rightarrow> int go) \<Rightarrow> message \<Rightarrow> notice go" where
  "notice_of ul parseTime msg =
     go_bind (NewPath ul (''gs://'' @ attribute msg ''bucketId'' @ ''/'' @ attribute msg ''objectId'')) (\<lambda>path.
     go_bind (parseTime (attribute msg ''eventTime'')) (\<lambda>when.
     go_bind (ParseInt64 (attribute msg ''objectGeneration'')) (\<lambda>gen.
     Inr \<lparr>no_path = path, no_event = attribute msg ''eventType'', no_time = when, no_generation = gen\<rparr>)))"

text \<open>
  What \<open>sendToReceivers\<close> does with a message; \<open>taken\<close> says whether a receiver takes the notification
  before the context ends.
\<close>

definition receive_message ::
    "url_lib \<Rightarrow> (string \<Rightarrow> int go) \<Rightarrow> message \<times> bool \<Rightarrow> reply \<times> notice option" where
  "receive_message ul parseTime mt =
     (case mt of (msg, taken) \<Rightarrow>
        case notice_of ul parseTime msg of
          Inl _ \<Rightarrow> (Ack, None)
        | Inr n \<Rightarrow> if taken then (Ack, Some n) else (Nack, None))"

definition sendToReceivers ::
    "url_lib \<Rightarrow> (string \<Rightarrow> int go) \<Rightarrow> (message \<times> bool) list \<Rightarrow> reply list \<times> notice list" where
  "sendToReceivers ul parseTime msgs =
     (let rs = map (receive_message ul parseTime) msgs in (map fst rs, List.map_filter snd rs))"

text \<open>What the updater reads of a notification.\<close>

definition updater_notice :: "notice \<Rightarrow> gcs_notice" where
  "updater_notice n =
     \<lparr>gn_path = \<lparr>gp_bucket = u_host (no_path n), gp_url_path = u_path (no_path n)\<rparr>, gn_time = no_time n\<rparr>"

section \<open>Every message is answered\<close>

lemma digit_is_digit: "d < 10 \<Longrightarrow> is_digit (digit d)"
proof -
  assume "d < 10"
  then have "d \<in> {0,1,2,3,4,5,6,7,8,9}" by auto
  then show ?thesis by (auto simp: digit_def is_digit_def less_eq_char_def)
qed

lemma nat_str_digit: "list_all is_digit (nat_str n) \<and> nat_str n \<noteq> []"
proof (induction n rule: nat_str.induct)
  case (1 n)
  then show ?case by (cases "n < 10") (simp_all add: nat_str.simps [of n] digit_is_digit)
qed

lemma ParseInt64_itoa: "- (2 ^ 63) \<le> n \<Longrightarrow> n < 2 ^ 63 \<Longrightarrow> ParseInt64 (itoa n) = Inr n"
proof -
  assume n: "- (2 ^ 63) \<le> n" "n < 2 ^ 63"
  obtain c t where ct: "nat_str (nat n) = c # t" "is_digit c"
    using nat_str_digit [of "nat n"] by (cases "nat_str (nat n)") auto
  then have "c \<noteq> CHR ''-''" "c \<noteq> CHR ''+''" by (auto simp: is_digit_def less_eq_char_def)
  moreover have "digits_val (c # t) = nat n" using digits_val_nat_str [of "nat n"] by (simp add: ct(1))
  ultimately show ?thesis
    using n nat_str_digit [of "nat n"] nat_str_digit [of "nat (- n)"] digits_val_nat_str [of "nat (- n)"]
    by (cases "n < 0") (simp_all add: ParseInt64_def itoa_def ct(1) Let_def nat_less_iff nat_le_iff le_nat_iff)
qed

text \<open>
  A message is sent back only when it was understood and nobody took the notification in time; one
  that is not understood is acknowledged, and never comes again.
\<close>

lemma receive_message_spec:
  "fst (receive_message ul pt (msg, taken)) = Nack \<longleftrightarrow> (\<exists>n. notice_of ul pt msg = Inr n) \<and> \<not> taken"
  "snd (receive_message ul pt (msg, taken)) = Some n \<longleftrightarrow> notice_of ul pt msg = Inr n \<and> taken"
  by (auto simp: receive_message_def split: sum.split)

lemma sendToReceivers_spec:
  "length (fst (sendToReceivers ul pt msgs)) = length msgs"
  "n \<in> set (snd (sendToReceivers ul pt msgs)) \<longleftrightarrow> (\<exists>msg. (msg, True) \<in> set msgs \<and> notice_of ul pt msg = Inr n)"
proof -
  show "length (fst (sendToReceivers ul pt msgs)) = length msgs" by (simp add: sendToReceivers_def Let_def)
  have "n \<in> set (snd (sendToReceivers ul pt msgs)) \<longleftrightarrow> (\<exists>mt \<in> set msgs. snd (receive_message ul pt mt) = Some n)"
    by (induction msgs) (auto simp: sendToReceivers_def Let_def map_filter_simps split: option.split)
  also have "\<dots> \<longleftrightarrow> (\<exists>msg. (msg, True) \<in> set msgs \<and> notice_of ul pt msg = Inr n)"
    by (auto simp: Bex_def receive_message_spec(2))
  finally show "n \<in> set (snd (sendToReceivers ul pt msgs)) \<longleftrightarrow>
      (\<exists>msg. (msg, True) \<in> set msgs \<and> notice_of ul pt msg = Inr n)" .
qed

text \<open>
  From the message to the queue: a group that subscribes to a path above the object of a message that was
  taken is due in time.
\<close>

lemma messages_due:
  assumes sub: "gcsSubscribedPaths url_parse ms tgs = Inr (paths, subs)" and q: "queue_ok q" "all_queued q"
    and run: "processGCSNotifications paths (map (\<lambda>n. (updater_notice n, clock n)) (snd (sendToReceivers ul pt msgs))) q = Inr q'"
    and msg: "(msg, True) \<in> set msgs" "notice_of ul pt msg = Inr n"
      "notice_delay (path_object (gn_path (updater_notice n))) = Some delay"
    and tg: "tg \<in> set tgs" "subscribes url_parse ms tg p" "gp_bucket p = u_host (no_path n)"
      "has_prefix (path_object (gn_path (updater_notice n))) (path_object p)"
  shows "when_of q' (tg_name tg) \<le> max (clock n) (no_time n + delay) \<and> names q' = names q"
proof -
  have "(updater_notice n, clock n) \<in> set (map (\<lambda>n. (updater_notice n, clock n)) (snd (sendToReceivers ul pt msgs)))"
    using sendToReceivers_spec(2) [of n ul pt msgs] msg(1,2) by auto
  moreover have "tg_name tg \<in> set (fst (processNotification paths (updater_notice n)))"
    unfolding notified_groups [OF sub] using msg(3) tg by (auto simp: updater_notice_def)
  ultimately have "when_of q' (tg_name tg) \<le> notice_time (updater_notice n) (clock n)" "names q' = names q"
    using processGCSNotifications_spec [OF q run] by (fastforce, blast)
  then show ?thesis by (simp add: notice_time_def msg(3)) (simp add: updater_notice_def)
qed

end
