(* ===== verification/Build_Files.thy ===== *)
theory Build_Files
  imports Storage
begin

text \<open>
  The files of one build (\<open>util/gcs/read.go\<close>, \<open>readResult\<close> and \<open>readSuites\<close> of \<open>pkg/updater/read.go\<close>):
  its metadata as JSON, and the JUnit suites among its artifacts, read through a storage client.  JSON
  and XML are arguments; names of objects have no line breaks.
\<close>

section \<open>Builds\<close>

definition build_object :: "url \<Rightarrow> string" where
  "build_object path = (let o' = Object path in if has_suffix o' ''/'' then butlast o' else o')"

definition Build_id :: "url \<Rightarrow> string" where
  "Build_id path = path_Base (build_object path)"

text \<open>\<open>path.Dir\<close>, of the standard library.\<close>

definition Build_job :: "url \<Rightarrow> string" where
  "Build_job path = path_Base (file_Dir (build_object path))"

section \<open>Metadata\<close>

text \<open>An empty file is the end of the input (\<open>io.EOF\<close>) to the decoder.\<close>

datatype 'a decoded = Decoded 'a | DecodeEof | DecodeFailed string

datatype 'a json_answer = JsonRead 'a | JsonAbsent | JsonEof | JsonFailed string

definition readJSON ::
    "url_lib \<Rightarrow> 's gcs_lib \<Rightarrow> 's world \<Rightarrow> (string \<Rightarrow> 'a decoded) \<Rightarrow> url \<Rightarrow> 'a json_answer" where
  "readJSON ul gl w decode p =
     (case client_Open ul gl NewClient w p of
        Inl ErrObjectNotExist \<Rightarrow> JsonAbsent
      | Inl _ \<Rightarrow> JsonFailed ''open''
      | Inr buf \<Rightarrow>
          (case decode buf of Decoded x \<Rightarrow> JsonRead x | DecodeEof \<Rightarrow> JsonEof | DecodeFailed m \<Rightarrow> JsonFailed (''decode: '' @ m)))"

definition relative_url :: "string \<Rightarrow> url" where
  "relative_url name =
     \<lparr>u_scheme = [], u_opaque = [], u_user = None, u_host = [], u_path = name, u_raw_query = [], u_fragment = []\<rparr>"

text \<open>The three readers share their steps; \<open>absent\<close> is what they return where there is no object.\<close>

definition read_metadata ::
    "url_lib \<Rightarrow> 's gcs_lib \<Rightarrow> 's world \<Rightarrow> url \<Rightarrow> string \<Rightarrow> (string \<Rightarrow> 'a decoded) \<Rightarrow> 'a \<Rightarrow> 'a download" where
  "read_metadata ul gl w path name decode absent =
     (case ResolveReference ul path (relative_url name) of
        Inl e \<Rightarrow> DownloadError ''resolve''
      | Inr p \<Rightarrow>
          (case readJSON ul gl w decode p of
             JsonRead x \<Rightarrow> Got x
           | JsonAbsent \<Rightarrow> Got absent
           | JsonEof \<Rightarrow> Eof
           | JsonFailed m \<Rightarrow> DownloadError (''read: '' @ m)))"

record build_decoders =
  bd_pod :: "string \<Rightarrow> pod decoded"
  bd_started :: "string \<Rightarrow> started decoded"
  bd_finished :: "string \<Rightarrow> finished decoded"
  bd_suites :: "string \<Rightarrow> suite list go"

definition map_decoded :: "('a \<Rightarrow> 'b) \<Rightarrow> 'a decoded \<Rightarrow> 'b decoded" where
  "map_decoded f d = (case d of Decoded x \<Rightarrow> Decoded (f x) | DecodeEof \<Rightarrow> DecodeEof | DecodeFailed m \<Rightarrow> DecodeFailed m)"

definition PodInfo :: "url_lib \<Rightarrow> 's gcs_lib \<Rightarrow> build_decoders \<Rightarrow> 's world \<Rightarrow> url \<Rightarrow> pod option download" where
  "PodInfo ul gl bd w path = read_metadata ul gl w path ''podinfo.json'' (\<lambda>b. map_decoded Some (bd_pod bd b)) None"

definition Started :: "url_lib \<Rightarrow> 's gcs_lib \<Rightarrow> build_decoders \<Rightarrow> 's world \<Rightarrow> url \<Rightarrow> started download" where
  "Started ul gl bd w path = read_metadata ul gl w path ''started.json'' (bd_started bd) empty_started"

definition Finished :: "url_lib \<Rightarrow> 's gcs_lib \<Rightarrow> build_decoders \<Rightarrow> 's world \<Rightarrow> url \<Rightarrow> finished download" where
  "Finished ul gl bd w path = read_metadata ul gl w path ''finished.json'' (bd_finished bd) empty_finished"

section \<open>Suites\<close>

text \<open>
  The part of a name between \<open>junit\<close> and \<open>.xml\<close>: context, time stamp and thread, each after an underscore.
  The expression prefers to take the first part for the context, whatever it is.
\<close>

definition is_digits :: "string \<Rightarrow> bool" where
  "is_digits s \<longleftrightarrow> s \<noteq> [] \<and> list_all is_digit s"

definition is_timestamp :: "string \<Rightarrow> bool" where
  "is_timestamp s \<longleftrightarrow>
     (let d = takeWhile (\<lambda>c. c \<noteq> CHR ''-'') s; r = dropWhile (\<lambda>c. c \<noteq> CHR ''-'') s in
      is_digits d \<and> r \<noteq> [] \<and> is_digits (tl r))"

definition suffix_parts :: "string \<Rightarrow> (string \<times> string \<times> string) option" where
  "suffix_parts x =
     (if x = [] then Some ([], [], [])
      else case str_split x ''_'' of
        [e, c] \<Rightarrow> if e = [] \<and> c \<noteq> [] then Some (c, [], []) else None
      | [e, c, t] \<Rightarrow>
          if e = [] \<and> c \<noteq> [] then
            if is_timestamp t then Some (c, t, []) else if is_digits t then Some (c, [], t) else None
          else None
      | [e, c, t, h] \<Rightarrow>
          if e = [] \<and> c \<noteq> [] \<and> is_timestamp t \<and> is_digits h then Some (c, t, h) else None
      | _ \<Rightarrow> None)"

definition suites_metadata :: "string \<Rightarrow> string \<Rightarrow> string \<Rightarrow> (string, string) gomap" where
  "suites_metadata c ti th = [(''Context'', c), (''Timestamp'', ti), (''Thread'', th)]"

definition parse_base :: "string \<Rightarrow> (string, string) gomap option" where
  "parse_base base =
     (if has_prefix base ''junit'' \<and> has_suffix base ''.xml'' \<and> 9 \<le> length base then
        let x = drop 5 (take (length base - 4) base) in
        (case suffix_parts x of
           Some (c, ti, th) \<Rightarrow> Some (suites_metadata (if c = [] \<and> ti = [] \<and> th = [] then x else c) ti th)
         | None \<Rightarrow> Some (suites_metadata x [] []))
      else if length base = 8 \<and> has_prefix base ''test'' \<and> has_suffix base ''xml''
      then Some (suites_metadata [] [] []) else None)"

text \<open>
  The base begins after a slash that is not the first character, the last one that allows a match.  The
  dot of the expression does not match a newline, which the name of an object cannot contain.
\<close>

fun last_base :: "nat \<Rightarrow> string \<Rightarrow> (string, string) gomap option" where
  "last_base i [] = None"
| "last_base i (c # s) =
     (case last_base (Suc i) s of
        Some m \<Rightarrow> Some m
      | None \<Rightarrow> if 0 < i \<and> c = CHR ''/'' then parse_base s else None)"

definition parseSuitesMeta :: "string \<Rightarrow> (string, string) gomap option" where
  "parseSuitesMeta name = last_base 0 name"

text \<open>
  \<open>Truncate\<close> of the suites: every string is shortened, and the result is kept in a local variable; the
  suites stay as they are.
\<close>

definition result_Truncate :: "nat \<Rightarrow> junit_result \<Rightarrow> junit_result" where
  "result_Truncate mx r =
     (let oc = (\<lambda>x. case x of Some x \<Rightarrow> Some (oc_value x) | None \<Rightarrow> Some []);
          shortened = map (map_option (\<lambda>s. junit_truncate s mx))
            [oc (jr_errored r), oc (jr_failure r), oc (jr_skipped r), jr_error r, jr_output r]
      in r)"

fun suite_Truncate :: "nat \<Rightarrow> suite \<Rightarrow> suite" where
  "suite_Truncate mx (Suite n ss rs) = Suite n (map (suite_Truncate mx) ss) (map (result_Truncate mx) rs)"

definition max_suite_size :: nat where
  "max_suite_size = 100000000"

text \<open>\<open>sized\<close>: whether the attributes of what was opened carry the size, as those of cloud storage do.\<close>

definition readSuites ::
    "url_lib \<Rightarrow> 's gcs_lib \<Rightarrow> build_decoders \<Rightarrow> 's world \<Rightarrow> url \<Rightarrow> string + suite list" where
  "readSuites ul gl bd w p =
     (case client_Open ul gl NewClient w p of
        Inl _ \<Rightarrow> Inl ''open''
      | Inr buf \<Rightarrow>
          if is_cloud p \<and> length buf > max_suite_size
          then Inl (''too large: '' @ nat_str (length buf) @ '' bytes > 100000000 bytes max'')
          else (case bd_suites bd buf of Inl _ \<Rightarrow> Inl ''parse'' | Inr ss \<Rightarrow> Inr ss))"

definition one_suites ::
    "url_lib \<Rightarrow> 's gcs_lib \<Rightarrow> build_decoders \<Rightarrow> 's world \<Rightarrow> url \<Rightarrow> nat \<Rightarrow> string \<Rightarrow> suites_meta option go" where
  "one_suites ul gl bd w path mx art =
     (case parseSuitesMeta art of
        None \<Rightarrow> Inr None
      | Some meta \<Rightarrow>
          (let art = (case art of c # _ \<Rightarrow> if c \<noteq> CHR ''/'' then CHR ''/'' # art else art | [] \<Rightarrow> []) in
           go_bind (wrap_error (''resolve '' @ go_quote art @ '': '') (ResolveReference ul path (relative_url art))) (\<lambda>p.
           Inr (Some
             (case readSuites ul gl bd w p of
                Inl e \<Rightarrow> \<lparr>sm_suites = None, sm_metadata = meta, sm_path = ul_string ul p, sm_err = Some e\<rparr>
              | Inr ss \<Rightarrow> \<lparr>sm_suites = Some (map (suite_Truncate mx) ss), sm_metadata = meta, sm_path = ul_string ul p,
                  sm_err = None\<rparr>)))))"

definition Suites ::
    "url_lib \<Rightarrow> 's gcs_lib \<Rightarrow> build_decoders \<Rightarrow> 's world \<Rightarrow> url \<Rightarrow> string list \<Rightarrow> nat \<Rightarrow> suites_meta list go" where
  "Suites ul gl bd w path artifacts mx =
     go_bind (go_map (one_suites ul gl bd w path mx) artifacts) (\<lambda>ss. Inr (List.map_filter (\<lambda>x. x) ss))"

section \<open>The whole build\<close>

text \<open>
  \<open>listed\<close> is what listing the objects of the build gives: their names, or an error.  Where it fails the
  suites that were read until then are dropped.
\<close>

definition build_suites ::
    "url_lib \<Rightarrow> 's gcs_lib \<Rightarrow> build_decoders \<Rightarrow> 's world \<Rightarrow> url \<Rightarrow> string list go \<Rightarrow> read_event" where
  "build_suites ul gl bd w path listed =
     (case go_bind (wrap_error ''list: '' listed) (\<lambda>artifacts.
         wrap_error ''download: '' (Suites ul gl bd w path artifacts 1000)) of
        Inl (Failed e) \<Rightarrow> SuitesRead [] (Some e)
      | Inl (Panic e) \<Rightarrow> SuitesRead [] (Some e)
      | Inr ss \<Rightarrow> SuitesRead ss None)"

definition read_build ::
    "url_lib \<Rightarrow> 's gcs_lib \<Rightarrow> build_decoders \<Rightarrow> 's world \<Rightarrow> url \<Rightarrow> string list go \<Rightarrow> int \<Rightarrow> gcs_result go" where
  "read_build ul gl bd w path listed stop =
     readResult (Build_job path) (Build_id path) (ul_string ul path) stop
       [PodInfoRead (PodInfo ul gl bd w path), StartedRead (Started ul gl bd w path),
        FinishedRead (Finished ul gl bd w path), build_suites ul gl bd w path listed]"

section \<open>Names of suites\<close>

lemma last_base_plain: "CHR ''/'' \<notin> set b \<Longrightarrow> last_base i b = None"
  by (induction b arbitrary: i) auto

lemma last_base_at:
  assumes "CHR ''/'' \<notin> set b" "parse_base b = Some m" "0 < i \<or> u \<noteq> []"
  shows "last_base i (u @ CHR ''/'' # b) = Some m"
  using assms(3)
proof (induction u arbitrary: i)
  case Nil
  then show ?case using assms(1,2) by (simp add: last_base_plain)
next
  case (Cons c u)
  have "last_base (Suc i) (u @ CHR ''/'' # b) = Some m" by (rule Cons.IH) simp
  then show ?case by simp
qed

lemma str_split_under:
  assumes "CHR ''_'' \<notin> set u"
  shows "str_split (u @ CHR ''_'' # s) ''_'' = u # str_split s ''_''" "str_split u ''_'' = [u]"
proof -
  have plain: "str_split_acc ''_'' acc (u @ s) = str_split_acc ''_'' (rev u @ acc) s" for acc s
    using assms by (induction u arbitrary: acc) (auto simp: has_prefix_def)
  show "str_split (u @ CHR ''_'' # s) ''_'' = u # str_split s ''_''"
    by (simp add: str_split_def plain has_prefix_def)
  show "str_split u ''_'' = [u]" using plain [of "[]" "[]"] by (simp add: str_split_def)
qed

lemma digits_plain:
  assumes "is_digits s" shows "CHR ''_'' \<notin> set s" "CHR ''-'' \<notin> set s" "CHR ''/'' \<notin> set s"
  using assms by (auto simp: is_digits_def list_all_iff is_digit_def less_eq_char_def)

lemma timestamp_plain:
  assumes "is_timestamp s" shows "CHR ''_'' \<notin> set s" "CHR ''/'' \<notin> set s" "s \<noteq> []"
proof -
  let ?d = "takeWhile (\<lambda>c. c \<noteq> CHR ''-'') s" and ?r = "dropWhile (\<lambda>c. c \<noteq> CHR ''-'') s"
  have r: "is_digits ?d" "?r \<noteq> []" "is_digits (tl ?r)" using assms by (simp_all add: is_timestamp_def Let_def)
  then have "?r = CHR ''-'' # tl ?r" using hd_dropWhile [OF r(2)] by (metis (mono_tags) list.collapse)
  then have s: "s = ?d @ CHR ''-'' # tl ?r" by (metis takeWhile_dropWhile_id)
  have "CHR ''_'' \<notin> set (?d @ CHR ''-'' # tl ?r)" "CHR ''/'' \<notin> set (?d @ CHR ''-'' # tl ?r)"
    using digits_plain [OF r(1)] digits_plain [OF r(3)] by simp_all
  then show "CHR ''_'' \<notin> set s" "CHR ''/'' \<notin> set s" unfolding s [symmetric] .
  show "s \<noteq> []" using s by auto
qed

text \<open>The name that prow gives a file of suites is read back.\<close>

lemma parseSuitesMeta_name:
  assumes "dir \<noteq> []" "c \<noteq> []" "CHR ''_'' \<notin> set c" "CHR ''/'' \<notin> set c" "is_timestamp t" "is_digits h"
  shows "parseSuitesMeta (dir @ ''/junit_'' @ c @ ''_'' @ t @ ''_'' @ h @ ''.xml'') = Some (suites_metadata c t h)"
proof -
  let ?x = "''_'' @ c @ ''_'' @ t @ ''_'' @ h"
  let ?b = "''junit'' @ ?x @ ''.xml''"
  have h: "CHR ''_'' \<notin> set h" "CHR ''/'' \<notin> set h" using digits_plain [OF assms(6)] by simp_all
  note t = timestamp_plain [OF assms(5)]
  have "str_split ?x ''_'' = [[], c, t, h]"
    using str_split_under(1) [of "[]"] str_split_under(1) [OF assms(3)] str_split_under(1) [OF t(1)] str_split_under(2) [OF h(1)]
    by simp
  then have "suffix_parts ?x = Some (c, t, h)" using assms(2,5,6) by (simp add: suffix_parts_def)
  moreover have "drop 5 (take (length ?b - 4) ?b) = ?x" by simp
  moreover have "has_prefix ?b ''junit''" "has_suffix ?b ''.xml''" by (simp_all add: has_prefix_def has_suffix_def)
  moreover have "9 \<le> length ?b" by simp
  ultimately have "parse_base ?b = Some (suites_metadata c t h)"
    using assms(2) unfolding parse_base_def Let_def by (simp only: simp_thms if_True option.case prod.case if_False list.distinct)
  moreover have "CHR ''/'' \<notin> set ?b" using h(2) t(2) assms(4) by simp
  ultimately show ?thesis
    using last_base_at [of ?b "suites_metadata c t h" 0 dir] assms(1) by (simp add: parseSuitesMeta_def)
qed

text \<open>Truncating the suites changes nothing.\<close>

lemma suite_Truncate_same: "suite_Truncate mx s = s"
  by (induction s) (simp add: result_Truncate_def Let_def map_idI)

section \<open>What is read of a build\<close>

text \<open>Every file of suites has one entry, with its suites or its problem; the other artifacts have none.\<close>

lemma Suites_spec:
  assumes "\<forall>a \<in> set artifacts. parseSuitesMeta a \<noteq> None \<longrightarrow> (\<exists>p. ResolveReference ul path
      (relative_url (case a of c # _ \<Rightarrow> if c \<noteq> CHR ''/'' then CHR ''/'' # a else a | [] \<Rightarrow> [])) = Inr p)"
  shows "\<exists>ss. Suites ul gl bd w path artifacts mx = Inr ss \<and>
    map sm_metadata ss = List.map_filter parseSuitesMeta artifacts \<and>
    (\<forall>s \<in> set ss. (sm_suites s = None) \<noteq> (sm_err s = None))"
  using assms
proof (induction artifacts)
  case Nil
  then show ?case by (simp add: Suites_def map_filter_simps)
next
  case (Cons a artifacts)
  then obtain ss where ss: "Suites ul gl bd w path artifacts mx = Inr ss"
      "map sm_metadata ss = List.map_filter parseSuitesMeta artifacts"
      "\<forall>s \<in> set ss. (sm_suites s = None) \<noteq> (sm_err s = None)" by auto
  from ss(1) obtain os where os: "go_map (one_suites ul gl bd w path mx) artifacts = Inr os" "ss = List.map_filter (\<lambda>x. x) os"
    by (auto simp: Suites_def go_simps)
  show ?case
  proof (cases "parseSuitesMeta a")
    case None
    then show ?thesis using ss os by (simp add: Suites_def one_suites_def map_filter_simps)
  next
    case (Some m)
    with Cons.prems obtain p where p: "ResolveReference ul path
      (relative_url (case a of c # _ \<Rightarrow> if c \<noteq> CHR ''/'' then CHR ''/'' # a else a | [] \<Rightarrow> [])) = Inr p" by auto
    then show ?thesis using ss os Some
      by (simp add: Suites_def one_suites_def map_filter_simps Let_def wrap_error_def split: sum.split)
  qed
qed

text \<open>
  A build without \<open>started.json\<close> has a zero start time, so that it is an error wherever old builds
  are left out.
\<close>

lemma read_build_unstarted:
  assumes "0 < stop" "ResolveReference ul path (relative_url ''started.json'') = Inr p"
    "client_Open ul gl NewClient w p = Inl ErrObjectNotExist"
    "\<forall>e. PodInfo ul gl bd w path \<noteq> DownloadError e"
  shows "read_build ul gl bd w path listed stop = Inl (Failed ''Start timestamp for this job is 0.'')"
proof -
  have "Started ul gl bd w path = Got empty_started"
    by (simp add: Started_def read_metadata_def readJSON_def assms(2,3))
  moreover have "read_error stop (PodInfoRead (PodInfo ul gl bd w path)) = None"
    using assms(4) by (cases "PodInfo ul gl bd w path") auto
  ultimately show ?thesis using assms(1) by (simp add: read_build_def readResult_def empty_started_def)
qed

lemma read_build_spec:
  assumes pod: "PodInfo ul gl bd w path = Got pod_read" and st: "Started ul gl bd w path = Got s" "stop \<le> sd_timestamp s"
    and fin: "Finished ul gl bd w path = Got f" and ls: "listed = Inr artifacts"
    and su: "Suites ul gl bd w path artifacts 1000 = Inr ss"
  shows "read_build ul gl bd w path listed stop =
    Inr \<lparr>gr_pod_info = pod_read, gr_started = s, gr_finished = f, gr_suites = filter (\<lambda>s. sm_err s = None) ss,
         gr_job = Build_job path, gr_build = Build_id path,
         gr_malformed = sort (suite_problems (ul_string ul path) ss)\<rparr>"
proof -
  have "build_suites ul gl bd w path listed = SuitesRead ss None"
    by (simp add: build_suites_def ls su wrap_error_def)
  with st show ?thesis
    by (cases pod_read) (simp_all add: read_build_def readResult_def pod fin add_malformed_def)
qed

end
