(* ===== verification/Links.thy ===== *)
theory Links
  imports Summarize Config_Validate "HOL-Library.Char_ord" "HOL-Library.List_Lexorder"
begin

text \<open>
  Link templates (\<open>util/links.go\<close>) and the links of failing tests (\<open>testResultLink\<close> of
  \<open>pkg/summarizer/summary.go\<close>).  The regular expressions are the scanners \<open>find_all\<close> and \<open>replace_func\<close>;
  parsing and printing a URL are arguments.
\<close>

section \<open>Tokens\<close>

definition not_angle :: "char \<Rightarrow> bool" where
  "not_angle c \<longleftrightarrow> c \<noteq> CHR ''<'' \<and> c \<noteq> CHR ''>''"

abbreviation plain :: "string \<Rightarrow> bool" where
  "plain s \<equiv> \<forall>c \<in> set s. not_angle c"

text \<open>
  A match of \<open>pre body >\<close> at the start of a string, with its body and what follows it; the body is the
  longest run of characters without an angle bracket, as it is for the regular expressions.
\<close>

definition token_at :: "string \<Rightarrow> string \<Rightarrow> (string \<times> string) option" where
  "token_at pre s =
     (if has_prefix s pre then
        (let rest = drop (length pre) s; body = takeWhile not_angle rest in
           (case drop (length body) rest of
              [] \<Rightarrow> None
            | c # after \<Rightarrow> if c = CHR ''>'' then Some (body, after) else None))
      else None)"

lemma token_at_length: "token_at pre s = Some (b, r) \<Longrightarrow> length r < length s"
  by (auto simp: token_at_def Let_def split: if_splits list.splits dest!: arg_cong [where f = length])

text \<open>\<open>FindAllString\<close> and \<open>ReplaceAllStringFunc\<close>: from left to right, without overlap.\<close>

function find_all :: "string \<Rightarrow> string \<Rightarrow> string list" where
  "find_all pre [] = []"
| "find_all pre (c # s) =
     (case token_at pre (c # s) of
        Some (body, after) \<Rightarrow> (pre @ body @ ''>'') # find_all pre after
      | None \<Rightarrow> find_all pre s)"
  by pat_completeness auto
termination
  by (relation "measure (\<lambda>(pre, s). length s)") (auto dest: token_at_length)

function replace_func :: "string \<Rightarrow> (string \<Rightarrow> string) \<Rightarrow> string \<Rightarrow> string" where
  "replace_func pre f [] = []"
| "replace_func pre f (c # s) =
     (case token_at pre (c # s) of
        Some (body, after) \<Rightarrow> f (pre @ body @ ''>'') @ replace_func pre f after
      | None \<Rightarrow> c # replace_func pre f s)"
  by pat_completeness auto
termination
  by (relation "measure (\<lambda>(pre, f, s). length s)") (auto dest: token_at_length)

definition encode_mark :: string where
  "encode_mark = ''<encode:''"

text \<open>The tokens of a template, each once; the order in which the code lists them is that of a map.\<close>

definition Tokens :: "link_template \<Rightarrow> string list" where
  "Tokens t = remdups (find_all ''<'' (lt_url t) @
     concat (map (\<lambda>opt. find_all ''<'' (lo_key opt) @ find_all ''<'' (lo_value opt)) (lt_options t)))"

section \<open>Expansion\<close>

definition encode_token :: "(string \<Rightarrow> string) \<Rightarrow> string \<Rightarrow> string" where
  "encode_token escape token =
     (case token_at encode_mark token of
        None \<Rightarrow> []
      | Some (body, _) \<Rightarrow> escape body)"

text \<open>
  The parameters are visited in the order of the list; no token is empty.  The code ranges over a map, whose
  order is arbitrary and may differ from one range to the next: \<open>ord j\<close> below is the order of the \<open>j\<close>-th.
\<close>

definition expandTemplateString :: "string \<Rightarrow> (string, string) gomap \<Rightarrow> bool \<Rightarrow> bool \<Rightarrow> string" where
  "expandTemplateString template parameters isQuery isEscaped =
     (let template = fold (\<lambda>(token, value) t. replace_all t token value) parameters template in
        if \<not> isEscaped then template
        else replace_func encode_mark (encode_token (if isQuery then id else PathEscape)) template)"

text \<open>\<open>url.Values\<close>: \<open>Add\<close> in order, and \<open>Encode\<close> sorted by the keys.\<close>

definition query_char :: "char \<Rightarrow> string" where
  "query_char c =
     (if c = CHR '' '' then ''+''
      else if is_word c \<or> c \<in> set ''-.~'' then [c]
      else let b = of_char c :: nat in [CHR ''%'', hex_digit (b div 16), hex_digit (b mod 16)])"

definition QueryEscape :: "string \<Rightarrow> string" where
  "QueryEscape s = concat (map query_char s)"

definition encode_values :: "(string \<times> string) list \<Rightarrow> string" where
  "encode_values kvs = str_join (map (\<lambda>(k, v). QueryEscape k @ ''='' @ QueryEscape v) (sort_key fst kvs)) ''&''"

type_synonym range_orders = "nat \<Rightarrow> (string, string) gomap \<Rightarrow> (string, string) gomap"

definition range_ok :: "range_orders \<Rightarrow> bool" where
  "range_ok ord \<longleftrightarrow> (\<forall>j m. mset (ord j m) = mset m)"

definition expand_option :: "range_orders \<Rightarrow> (string, string) gomap \<Rightarrow> nat \<Rightarrow> link_option \<Rightarrow> string \<times> string" where
  "expand_option ord parameters j opt =
     (expandTemplateString (lo_key opt) (ord (2 * j + 1) parameters) True True,
      expandTemplateString (lo_value opt) (ord (2 * j + 2) parameters) True True)"

text \<open>\<open>parse\<close> is \<open>url.Parse\<close>, and \<open>show_url u q\<close> the text of \<open>u\<close> with the query \<open>q\<close>.\<close>

definition ExpandTemplate ::
    "range_orders \<Rightarrow> (string \<Rightarrow> 'u go) \<Rightarrow> ('u \<Rightarrow> string \<Rightarrow> string) \<Rightarrow> link_template \<Rightarrow> (string, string) gomap \<Rightarrow> string go" where
  "ExpandTemplate ord parse show_url template parameters =
     go_bind (parse (expandTemplateString (lt_url template) (ord 0 parameters) False True)) (\<lambda>baseURL.
       Inr (show_url baseURL (encode_values
         (map (\<lambda>(j, opt). expand_option ord parameters j opt) (enumerate 0 (lt_options template))))))"

section \<open>The link of a failing test\<close>

definition column_token :: "nat \<Rightarrow> string" where
  "column_token i = ''<custom-'' @ itoa (int i) @ ''>''"

definition column_headers :: "column_header list \<Rightarrow> (string, string) gomap" where
  "column_headers headers =
     fold (\<lambda>(i, h). AList.update (column_token i)
         (if hdr_label h \<noteq> [] then hdr_label h
          else if hdr_property h \<noteq> [] then hdr_property h
          else hdr_configuration_value h))
       (enumerate 0 headers) []"

text \<open>A token that \<open>CustomColumnRe\<close> finds as a whole.\<close>

definition is_custom_token :: "string \<Rightarrow> bool" where
  "is_custom_token token \<longleftrightarrow>
     (case token_at ''<custom-'' token of
        Some (d, after) \<Rightarrow> d \<noteq> [] \<and> after = [] \<and> (\<forall>c \<in> set d. is_digit c)
      | None \<Rightarrow> False)"

definition token_value ::
    "(string, string) gomap \<Rightarrow> string \<Rightarrow> string \<Rightarrow> string \<Rightarrow> string \<Rightarrow> (string, string) gomap \<Rightarrow>
     (string, string) gomap \<Rightarrow> string \<Rightarrow> string option" where
  "token_value properties testID target buildID prefix header_names custom_headers token =
     (if token = ''<gcs-prefix>'' then Some prefix
      else if token = ''<test-name>'' then Some target
      else if token = ''<workflow-id>'' then map_of properties ''workflow-id''
      else if token = ''<workflow-name>'' then map_of properties ''workflow-name''
      else if token = ''<test-id>'' then Some testID
      else if token = ''<build-id>'' then Some buildID
      else if is_custom_token token then
        map_of custom_headers (case map_of header_names token of Some h \<Rightarrow> h | None \<Rightarrow> [])
      else map_of properties (filter not_angle token))"

definition link_parameters :: "(string \<Rightarrow> string option) \<Rightarrow> string list \<Rightarrow> (string, string) gomap" where
  "link_parameters val tokens =
     fold (\<lambda>token m. case val token of Some v \<Rightarrow> AList.update token v m | None \<Rightarrow> m) tokens []"

text \<open>A template that cannot be expanded has the empty link.\<close>

definition testResultLink ::
    "range_orders \<Rightarrow> (string \<Rightarrow> 'u go) \<Rightarrow> ('u \<Rightarrow> string \<Rightarrow> string) \<Rightarrow> link_template \<Rightarrow> (string, string) gomap \<Rightarrow> string \<Rightarrow> string \<Rightarrow>
     string \<Rightarrow> string \<Rightarrow> (string, string) gomap \<Rightarrow> (string, string) gomap \<Rightarrow> string" where
  "testResultLink ord parse show_url template properties testID target buildID prefix header_names custom_headers =
     (case ExpandTemplate ord parse show_url template
         (link_parameters (token_value properties testID target buildID prefix header_names custom_headers)
            (Tokens template)) of
        Inl _ \<Rightarrow> []
      | Inr link \<Rightarrow> link)"

text \<open>The links of an alert, to the first and to the latest failure; they are compared and logged.\<close>

definition alert_links ::
    "range_orders \<Rightarrow> range_orders \<Rightarrow> (string \<Rightarrow> 'u go) \<Rightarrow> ('u \<Rightarrow> string \<Rightarrow> string) \<Rightarrow> link_template \<Rightarrow> string \<Rightarrow>
     column_header list \<Rightarrow> row \<Rightarrow> alert_info \<Rightarrow> string \<times> string" where
  "alert_links ord ord' parse show_url template prefix headers r alert =
     (testResultLink ord parse show_url template (al_properties alert) (al_fail_test_id alert) (row_id r)
        (al_fail_build_id alert) prefix (column_headers headers) (al_custom_column_headers alert),
      testResultLink ord' parse show_url template (al_properties alert) (al_latest_fail_test_id alert) (row_id r)
        (al_latest_fail_build_id alert) prefix (column_headers headers) (al_custom_column_headers alert))"

definition link_problem :: "string \<times> string \<Rightarrow> string option" where
  "link_problem links =
     (case links of (failLink, latestFailLink) \<Rightarrow>
        if failLink = [] \<or> latestFailLink = [] then Some ''Failed to create failure link.''
        else if \<not> has_prefix failLink ''http'' \<or> \<not> has_prefix latestFailLink ''http''
        then Some ''Failure link does not include scheme.''
        else None)"

section \<open>What a template stands for\<close>

text \<open>
  The templates the documentation describes: text, tokens, and encodings of text and tokens.
\<close>

datatype simple_item = Text string | Token string
datatype template_item = Simple simple_item | Encode "simple_item list"

fun simple_text :: "simple_item \<Rightarrow> string" where
  "simple_text (Text s) = s"
| "simple_text (Token b) = ''<'' @ b @ ''>''"

fun item_text :: "template_item \<Rightarrow> string" where
  "item_text (Simple i) = simple_text i"
| "item_text (Encode is) = encode_mark @ concat (map simple_text is) @ ''>''"

abbreviation template_text :: "template_item list \<Rightarrow> string" where
  "template_text items \<equiv> concat (map item_text items)"

definition token_name :: "string \<Rightarrow> bool" where
  "token_name b \<longleftrightarrow> plain b \<and> \<not> has_prefix b ''encode:''"

fun simple_ok :: "simple_item \<Rightarrow> bool" where
  "simple_ok (Text s) \<longleftrightarrow> plain s"
| "simple_ok (Token b) \<longleftrightarrow> token_name b"

fun item_ok :: "template_item \<Rightarrow> bool" where
  "item_ok (Simple i) \<longleftrightarrow> simple_ok i"
| "item_ok (Encode is) \<longleftrightarrow> (\<forall>i \<in> set is. simple_ok i)"

fun fill :: "(string \<Rightarrow> string option) \<Rightarrow> simple_item \<Rightarrow> simple_item" where
  "fill val (Text s) = Text s"
| "fill val (Token b) = (case val (''<'' @ b @ ''>'') of Some v \<Rightarrow> Text v | None \<Rightarrow> Token b)"

fun fill_item :: "(string \<Rightarrow> string option) \<Rightarrow> template_item \<Rightarrow> template_item" where
  "fill_item val (Simple i) = Simple (fill val i)"
| "fill_item val (Encode is) = Encode (map (fill val) is)"

fun is_text :: "simple_item \<Rightarrow> bool" where
  "is_text (Text s) \<longleftrightarrow> True"
| "is_text (Token b) \<longleftrightarrow> False"

text \<open>An encoding with a token that has no value stays as it is.\<close>

fun item_result :: "(string \<Rightarrow> string) \<Rightarrow> template_item \<Rightarrow> string" where
  "item_result escape (Simple i) = simple_text i"
| "item_result escape (Encode is) =
     (if \<forall>i \<in> set is. is_text i then escape (concat (map simple_text is)) else item_text (Encode is))"

definition expanded :: "(string \<Rightarrow> string option) \<Rightarrow> (string \<Rightarrow> string) \<Rightarrow> template_item list \<Rightarrow> string" where
  "expanded val escape items = concat (map (item_result escape \<circ> fill_item val) items)"

section \<open>Expansion of the documented templates\<close>

lemma takeWhile_plain: "plain b \<Longrightarrow> takeWhile not_angle (b @ CHR ''>'' # r) = b \<and> takeWhile not_angle (b @ CHR ''<'' # r) = b"
  by (induction b) (auto simp: not_angle_def)

lemma token_at_hit: "plain b \<Longrightarrow> token_at pre (pre @ b @ CHR ''>'' # r) = Some (b, r)"
  using takeWhile_plain [of b r] by (simp add: token_at_def Let_def)

lemma token_at_miss: "plain b \<Longrightarrow> token_at pre (pre @ b @ CHR ''<'' # r) = None"
  using takeWhile_plain [of b r] by (simp add: token_at_def Let_def)

lemma token_at_head: "c \<noteq> CHR ''<'' \<Longrightarrow> token_at (CHR ''<'' # p) (c # s) = None"
  by (simp add: token_at_def has_prefix_def)

text \<open>A token and text up to a bracket: one is a prefix of the other only when they are the same.\<close>

lemma plain_prefix:
  assumes "plain a" "plain b" "a @ CHR ''>'' # r = b @ CHR ''>'' # t"
  shows "a = b"
  using assms takeWhile_plain by metis

lemma replace_plain:
  assumes "plain s"
  shows "replace_all (s @ rest) (CHR ''<'' # tok) v = s @ replace_all rest (CHR ''<'' # tok) v"
  using assms by (induction s) (auto simp: has_prefix_def not_angle_def)

lemma replace_token:
  assumes "plain b" "plain a"
  shows "replace_all ((''<'' @ b @ ''>'') @ rest) (''<'' @ a @ ''>'') v =
    (if a = b then v else ''<'' @ b @ ''>'') @ replace_all rest (''<'' @ a @ ''>'') v"
proof (cases "a = b")
  case False
  then have "\<not> has_prefix (b @ CHR ''>'' # rest) (a @ ''>'')"
    using plain_prefix [OF assms(1,2), of rest] by (auto simp: has_prefix_iff)
  then have "\<not> has_prefix ((''<'' @ b @ ''>'') @ rest) (''<'' @ a @ ''>'')" by (simp add: has_prefix_def)
  moreover have "replace_all ((b @ ''>'') @ rest) (''<'' @ a @ ''>'') v = (b @ ''>'') @ replace_all rest (''<'' @ a @ ''>'') v"
    using replace_plain [OF assms(1), of "CHR ''>'' # rest" "a @ ''>''" v] by (simp add: has_prefix_def)
  ultimately show ?thesis using False by simp
qed (simp add: has_prefix_def)

lemma encode_mark_text: "encode_mark = ''<'' @ ''encode:'' \<and> plain ''encode:''"
  by (simp add: encode_mark_def not_angle_def)

lemma replace_mark:
  assumes "token_name a"
  shows "replace_all (encode_mark @ rest) (''<'' @ a @ ''>'') v = encode_mark @ replace_all rest (''<'' @ a @ ''>'') v"
proof -
  have "\<not> has_prefix (''encode:'' @ rest) (a @ ''>'')"
  proof
    assume "has_prefix (''encode:'' @ rest) (a @ ''>'')"
    then obtain r where r: "''encode:'' @ rest = a @ CHR ''>'' # r" by (auto simp: has_prefix_iff)
    show False
    proof (cases "length a < 7")
      case True
      then have "CHR ''>'' = (''encode:'' @ rest) ! length a" "length a < length ''encode:''" unfolding r by simp_all
      then have "CHR ''>'' \<in> set ''encode:''" by (metis nth_append nth_mem)
      then show False by simp
    next
      case False
      have "take 7 (a @ CHR ''>'' # r) = ''encode:''" by (simp flip: r)
      with False have "has_prefix a ''encode:''" by (simp add: has_prefix_def eval_nat_numeral)
      with assms show False by (simp add: token_name_def)
    qed
  qed
  then have "\<not> has_prefix (encode_mark @ rest) (''<'' @ a @ ''>'')" by (simp add: has_prefix_def encode_mark_text)
  moreover have "replace_all (''encode:'' @ rest) (''<'' @ a @ ''>'') v = ''encode:'' @ replace_all rest (''<'' @ a @ ''>'') v"
    using replace_plain [of "''encode:''" rest "a @ ''>''" v] encode_mark_text by simp
  ultimately show ?thesis by (simp add: encode_mark_text)
qed

lemma replace_simple:
  assumes "simple_ok i" "token_name a"
  shows "replace_all (simple_text i @ rest) (''<'' @ a @ ''>'') v =
    simple_text (if i = Token a then Text v else i) @ replace_all rest (''<'' @ a @ ''>'') v"
  using assms
proof (cases i)
  case (Text s)
  with assms replace_plain [of s rest "a @ ''>''" v] show ?thesis by simp
next
  case (Token b)
  with assms replace_token [of b a rest v] show ?thesis by (auto simp: token_name_def)
qed

abbreviation put :: "string \<Rightarrow> string \<Rightarrow> simple_item \<Rightarrow> simple_item" where
  "put a v i \<equiv> (if i = Token a then Text v else i)"

fun put_item :: "string \<Rightarrow> string \<Rightarrow> template_item \<Rightarrow> template_item" where
  "put_item a v (Simple i) = Simple (put a v i)"
| "put_item a v (Encode is) = Encode (map (put a v) is)"

lemma replace_simples:
  assumes "\<forall>i \<in> set is. simple_ok i" "token_name a"
  shows "replace_all (concat (map simple_text is) @ rest) (''<'' @ a @ ''>'') v =
    concat (map simple_text (map (put a v) is)) @ replace_all rest (''<'' @ a @ ''>'') v"
  using assms(1)
proof (induction "is")
  case (Cons i "is")
  have "replace_all (simple_text i @ concat (map simple_text is) @ rest) (''<'' @ a @ ''>'') v =
      simple_text (put a v i) @ replace_all (concat (map simple_text is) @ rest) (''<'' @ a @ ''>'') v"
    by (rule replace_simple) (use Cons.prems assms(2) in simp_all)
  with Cons show ?case by (simp del: append.simps)
qed simp

lemma replace_item:
  assumes "item_ok i" "token_name a"
  shows "replace_all (item_text i @ rest) (''<'' @ a @ ''>'') v =
    item_text (put_item a v i) @ replace_all rest (''<'' @ a @ ''>'') v"
proof (cases i)
  case (Simple i')
  with assms replace_simple [of i' a rest v] show ?thesis by (simp del: append.simps)
next
  case (Encode "is")
  have "replace_all (encode_mark @ concat (map simple_text is) @ ''>'' @ rest) (''<'' @ a @ ''>'') v =
      encode_mark @ concat (map simple_text (map (put a v) is)) @ replace_all (''>'' @ rest) (''<'' @ a @ ''>'') v"
    using assms Encode by (simp only: replace_mark replace_simples item_ok.simps)
  moreover have "replace_all (''>'' @ rest) (''<'' @ a @ ''>'') v = ''>'' @ replace_all rest (''<'' @ a @ ''>'') v"
    by (simp add: has_prefix_def)
  ultimately show ?thesis by (simp only: Encode item_text.simps put_item.simps append_assoc)
qed

lemma replace_template:
  assumes "\<forall>i \<in> set items. item_ok i" "token_name a"
  shows "replace_all (template_text items) (''<'' @ a @ ''>'') v = template_text (map (put_item a v) items)"
  using assms(1)
proof (induction items)
  case (Cons i items)
  have "replace_all (item_text i @ template_text items) (''<'' @ a @ ''>'') v =
      item_text (put_item a v i) @ replace_all (template_text items) (''<'' @ a @ ''>'') v"
    by (rule replace_item) (use Cons.prems assms(2) in simp_all)
  with Cons show ?case by (simp del: append.simps)
qed simp

lemma put_ok: "plain v \<Longrightarrow> item_ok i \<Longrightarrow> item_ok (put_item a v i)"
  by (cases i) auto

text \<open>The parameters: proper tokens, with values that contain no angle bracket.\<close>

definition parameters_ok :: "(string, string) gomap \<Rightarrow> bool" where
  "parameters_ok ps \<longleftrightarrow> (\<forall>(k, v) \<in> set ps. plain v \<and> (\<exists>a. token_name a \<and> k = ''<'' @ a @ ''>''))"

lemma fill_put: "fill (map_of ((''<'' @ a @ ''>'', v) # ps)) i = fill (map_of ps) (put a v i)"
  by (cases i) auto

lemma fill_item_put: "fill_item (map_of ((''<'' @ a @ ''>'', v) # ps)) i = fill_item (map_of ps) (put_item a v i)"
  proof (cases i)
  case (Encode "is")
  have "map (fill (map_of ((''<'' @ a @ ''>'', v) # ps))) is = map (\<lambda>x. fill (map_of ps) (put a v x)) is"
    by (rule map_cong [OF refl]) (rule fill_put)
  then show ?thesis by (simp only: Encode fill_item.simps put_item.simps map_map comp_def)
qed (simp only: fill_item.simps put_item.simps fill_put)

lemma fill_none: "fill (map_of []) i = i"
  by (cases i) auto

lemma fill_item_none: "fill_item (map_of []) i = i"
  by (cases i) (simp_all add: fill_none map_idI del: map_of.simps)

lemma fill_template:
  assumes "\<forall>i \<in> set items. item_ok i" "parameters_ok ps"
  shows "fold (\<lambda>(token, value) t. replace_all t token value) ps (template_text items) =
    template_text (map (fill_item (map_of ps)) items)"
  using assms
proof (induction ps arbitrary: items)
  case (Cons p ps)
  then obtain a v where p: "p = (''<'' @ a @ ''>'', v)" "token_name a" "plain v"
    by (cases p) (auto simp: parameters_ok_def)
  have "\<forall>i \<in> set (map (put_item a v) items). item_ok i" using Cons.prems(1) p(3) by (auto intro: put_ok)
  from Cons.IH [OF this] Cons.prems(2) replace_template [OF Cons.prems(1) p(2), of v]
  show ?case by (simp add: p(1) parameters_ok_def fill_item_put comp_def del: map_of.simps append.simps)
qed (simp add: fill_item_none comp_def del: map_of.simps)

lemma func_plain:
  assumes "plain s"
  shows "replace_func (CHR ''<'' # p) f (s @ rest) = s @ replace_func (CHR ''<'' # p) f rest"
  using assms by (induction s) (auto simp: token_at_head not_angle_def)

lemma func_bracket: "replace_func encode_mark f (CHR ''>'' # rest) = CHR ''>'' # replace_func encode_mark f rest"
  by (simp add: encode_mark_def token_at_head)

lemma no_mark_bracket: "token_at encode_mark (CHR ''>'' # rest) = None"
  by (simp add: encode_mark_def token_at_head)

lemma func_text: "plain s \<Longrightarrow> replace_func encode_mark f (s @ rest) = s @ replace_func encode_mark f rest"
  unfolding encode_mark_def by (rule func_plain)

lemma no_encode_mark:
  assumes "token_name b"
  shows "token_at encode_mark (CHR ''<'' # b @ CHR ''>'' # rest) = None"
proof -
  have "\<not> has_prefix (CHR ''<'' # b @ CHR ''>'' # rest) encode_mark"
  proof
    assume "has_prefix (CHR ''<'' # b @ CHR ''>'' # rest) encode_mark"
    then obtain r where r: "b @ CHR ''>'' # rest = ''encode:'' @ r" by (auto simp: has_prefix_iff encode_mark_text)
    show False
    proof (cases "length b < 7")
      case True
      then have "CHR ''>'' = (''encode:'' @ r) ! length b" "length b < length ''encode:''" unfolding r [symmetric] by simp_all
      then have "CHR ''>'' \<in> set ''encode:''" by (metis nth_append nth_mem)
      then show False by simp
    next
      case False
      have "take 7 (b @ CHR ''>'' # rest) = ''encode:''" by (simp add: r)
      with False have "has_prefix b ''encode:''" by (simp add: has_prefix_def eval_nat_numeral)
      with assms show False by (simp add: token_name_def)
    qed
  qed
  then show ?thesis by (simp add: token_at_def)
qed

lemma func_simple:
  assumes "simple_ok i"
  shows "replace_func encode_mark f (simple_text i @ rest) = simple_text i @ replace_func encode_mark f rest"
proof (cases i)
  case (Token b)
  with assms have "plain b" "token_name b" by (simp_all add: token_name_def)
  with func_text [of b f "CHR ''>'' # rest"] show ?thesis by (simp add: Token no_encode_mark no_mark_bracket)
qed (use assms func_text in simp)

lemma func_simples:
  "\<forall>i \<in> set is. simple_ok i \<Longrightarrow>
   replace_func encode_mark f (concat (map simple_text is) @ rest) = concat (map simple_text is) @ replace_func encode_mark f rest"
  by (induction "is") (simp_all add: func_simple)

lemma texts_plain: "\<forall>i \<in> set is. simple_ok i \<and> is_text i \<Longrightarrow> plain (concat (map simple_text is))"
  by (induction "is") (auto elim: is_text.elims)

text \<open>Before the first token in an encoding, its text; then the bracket that keeps it from matching.\<close>

lemma texts_then_token:
  "\<exists>i \<in> set is. \<not> is_text i \<Longrightarrow> \<forall>i \<in> set is. simple_ok i \<Longrightarrow>
   \<exists>s r. plain s \<and> concat (map simple_text is) = s @ CHR ''<'' # r"
proof (induction "is")
  case (Cons i "is")
  show ?case
  proof (cases i)
    case (Text s)
    with Cons obtain s' r where "plain s'" "concat (map simple_text is) = s' @ CHR ''<'' # r" by auto
    with Text Cons.prems show ?thesis by (intro exI [of _ "s @ s'"] exI [of _ r]) auto
  next
    case (Token b)
    then show ?thesis by (intro exI [of _ "[]"] exI) simp
  qed
qed simp

lemma func_item:
  assumes "item_ok i"
  shows "replace_func encode_mark (encode_token escape) (item_text i @ rest) =
    item_result escape i @ replace_func encode_mark (encode_token escape) rest"
proof (cases i)
  case (Encode "is")
  let ?b = "concat (map simple_text is)"
  obtain c p where mark: "encode_mark = c # p" by (simp add: encode_mark_def)
  show ?thesis
  proof (cases "\<forall>i \<in> set is. is_text i")
    case True
    with assms Encode texts_plain [of "is"] have "plain ?b" by simp
    then have "token_at encode_mark (encode_mark @ ?b @ CHR ''>'' # rest) = Some (?b, rest)"
      "token_at encode_mark (encode_mark @ ?b @ CHR ''>'' # []) = Some (?b, [])" by (simp_all add: token_at_hit)
    then show ?thesis using True by (simp add: Encode encode_token_def mark)
  next
    case False
    with texts_then_token [of "is"] assms Encode obtain s r where s: "plain s" "?b = s @ CHR ''<'' # r" by auto
    then have "token_at encode_mark (encode_mark @ ?b @ CHR ''>'' # rest) = None" by (simp add: token_at_miss)
    then have "replace_func encode_mark f (encode_mark @ ?b @ CHR ''>'' # rest) =
        CHR ''<'' # replace_func encode_mark f (''encode:'' @ ?b @ CHR ''>'' # rest)" for f
      by (simp add: encode_mark_text del: token_at_def)
    moreover have "replace_func encode_mark f (''encode:'' @ ?b @ CHR ''>'' # rest) =
        ''encode:'' @ ?b @ CHR ''>'' # replace_func encode_mark f rest" for f
      using func_text [OF conjunct2 [OF encode_mark_text], of f "?b @ CHR ''>'' # rest"]
        func_simples [of "is" f "CHR ''>'' # rest"] assms Encode unfolding func_bracket by simp
    ultimately have "replace_func encode_mark f (encode_mark @ ?b @ CHR ''>'' # rest) =
        encode_mark @ ?b @ CHR ''>'' # replace_func encode_mark f rest" for f
      by (simp add: encode_mark_text del: replace_func.simps)
    then show ?thesis using False by (auto simp: Encode simp del: replace_func.simps)
  qed
qed (use assms func_simple in simp)

lemma func_template:
  "\<forall>i \<in> set items. item_ok i \<Longrightarrow>
   replace_func encode_mark (encode_token escape) (template_text items) = concat (map (item_result escape) items)"
  using func_item [where rest = "[]"]
  by (induction items) (simp_all add: func_item)

lemma fill_ok:
  assumes "item_ok i" "\<And>k v. val k = Some v \<Longrightarrow> plain v"
  shows "item_ok (fill_item val i)"
proof -
  have "simple_ok (fill val j)" if "simple_ok j" for j
    using that assms(2) by (cases j) (auto split: option.split)
  with assms(1) show ?thesis by (cases i) auto
qed

text \<open>The expansion of a documented template: every token by its value, every encoding of known text escaped.\<close>

lemma expandTemplateString_items:
  assumes "\<forall>i \<in> set items. item_ok i" "parameters_ok ps"
  shows "expandTemplateString (template_text items) ps isQuery isEscaped =
    (if isEscaped then expanded (map_of ps) (if isQuery then id else PathEscape) items
     else template_text (map (fill_item (map_of ps)) items))"
proof -
  have "\<forall>i \<in> set (map (fill_item (map_of ps)) items). item_ok i"
    using assms by (auto simp: parameters_ok_def dest!: map_of_SomeD intro!: fill_ok)
  then show ?thesis
    using func_template [of "map (fill_item (map_of ps)) items"]
    by (simp add: expandTemplateString_def fill_template [OF assms] expanded_def Let_def)
qed

text \<open>A value with angle brackets is not escaped where the template asks for it.\<close>

lemma angle_value_not_encoded:
  assumes "plain a" "token_name b" "plain c"
  shows "expandTemplateString ''<encode:<test-name>>'' [(''<test-name>'', a @ ''<'' @ b @ ''>'' @ c)] False True =
    ''<encode:'' @ a @ ''<'' @ b @ ''>'' @ c @ ''>''"
proof -
  have "replace_all ''<encode:<test-name>>'' ''<test-name>'' v = ''<encode:'' @ v @ ''>''" for v
    by (simp add: has_prefix_def)
  moreover have "replace_func encode_mark f (template_text [Encode [Text a, Token b, Text c]]) =
      template_text [Encode [Text a, Token b, Text c]]" if "f = encode_token PathEscape" for f
    unfolding that by (subst func_template) (use assms in auto)
  ultimately show ?thesis by (simp add: expandTemplateString_def encode_mark_def)
qed

section \<open>The tokens of a template\<close>

fun simple_tokens :: "simple_item \<Rightarrow> string list" where
  "simple_tokens (Text s) = []"
| "simple_tokens (Token b) = [''<'' @ b @ ''>'']"

text \<open>An encoding of text alone is found as a token itself.\<close>

fun item_tokens :: "template_item \<Rightarrow> string list" where
  "item_tokens (Simple i) = simple_tokens i"
| "item_tokens (Encode is) =
     (if \<forall>i \<in> set is. is_text i then [item_text (Encode is)] else concat (map simple_tokens is))"

lemma find_plain: "plain s \<Longrightarrow> find_all ''<'' (s @ rest) = find_all ''<'' rest"
  by (induction s) (auto simp: token_at_head not_angle_def)

lemma find_bracket: "find_all ''<'' (CHR ''>'' # rest) = find_all ''<'' rest"
  by (simp add: token_at_head)

lemma find_token: "plain b \<Longrightarrow> find_all ''<'' (CHR ''<'' # b @ CHR ''>'' # rest) = (''<'' @ b @ ''>'') # find_all ''<'' rest"
  using token_at_hit [of b "''<''" rest] by simp

lemma find_open: "plain b \<Longrightarrow> find_all ''<'' (CHR ''<'' # b @ CHR ''<'' # rest) = find_all ''<'' (CHR ''<'' # rest)"
  using token_at_miss [of b "''<''" rest] find_plain [of b "CHR ''<'' # rest"] by simp

lemma find_simple: "simple_ok i \<Longrightarrow> find_all ''<'' (simple_text i @ rest) = simple_tokens i @ find_all ''<'' rest"
  by (cases i) (simp_all add: find_plain find_token token_name_def del: find_all.simps)

lemma find_simples:
  "\<forall>i \<in> set is. simple_ok i \<Longrightarrow>
   find_all ''<'' (concat (map simple_text is) @ rest) = concat (map simple_tokens is) @ find_all ''<'' rest"
  by (induction "is") (simp_all add: find_simple)

lemma find_item:
  assumes "item_ok i"
  shows "find_all ''<'' (item_text i @ rest) = item_tokens i @ find_all ''<'' rest"
proof (cases i)
  case (Encode "is")
  let ?b = "concat (map simple_text is)"
  show ?thesis
  proof (cases "\<forall>i \<in> set is. is_text i")
    case True
    with assms Encode texts_plain [of "is"] have "plain ?b" by simp
    then have "plain (''encode:'' @ ?b)" using encode_mark_text by auto
    from find_token [OF this, of rest] show ?thesis using True by (simp add: Encode encode_mark_text del: find_all.simps)
  next
    case False
    with texts_then_token [of "is"] assms Encode obtain s r where s: "plain s" "?b = s @ CHR ''<'' # r" by auto
    then have "plain (''encode:'' @ s)" using encode_mark_text by auto
    from find_open [OF this, of "r @ CHR ''>'' # rest"]
    have "find_all ''<'' (encode_mark @ ?b @ CHR ''>'' # rest) = find_all ''<'' (CHR ''<'' # r @ CHR ''>'' # rest)"
      by (simp add: encode_mark_text s(2) del: find_all.simps)
    also have "\<dots> = find_all ''<'' (?b @ CHR ''>'' # rest)"
      using find_plain [OF s(1), of "CHR ''<'' # r @ CHR ''>'' # rest"] by (simp add: s(2) del: find_all.simps)
    also have "\<dots> = concat (map simple_tokens is) @ find_all ''<'' rest"
      using assms Encode by (simp add: find_simples find_bracket del: find_all.simps)
    finally show ?thesis using False by (auto simp: Encode simp del: find_all.simps)
  qed
qed (use assms find_simple in \<open>simp del: find_all.simps\<close>)

lemma find_template:
  "\<forall>i \<in> set items. item_ok i \<Longrightarrow> find_all ''<'' (template_text items) = concat (map item_tokens items)"
  by (induction items) (simp_all add: find_item)

lemma link_parameters_map:
  "map_of (link_parameters val tokens) k = (if k \<in> set tokens then val k else None)"
proof -
  have "map_of (fold (\<lambda>token m. case val token of Some v \<Rightarrow> AList.update token v m | None \<Rightarrow> m) tokens m) k =
      (if k \<in> set tokens \<and> val k \<noteq> None then val k else map_of m k)" for m
    by (induction tokens arbitrary: m) (auto simp: update_conv' split: option.splits)
  then show ?thesis by (simp add: link_parameters_def)
qed

lemma link_parameters_keys: "distinct (map fst (link_parameters val tokens))"
proof -
  have "distinct (map fst m) \<Longrightarrow>
      distinct (map fst (fold (\<lambda>token m. case val token of Some v \<Rightarrow> AList.update token v m | None \<Rightarrow> m) tokens m))" for m
    by (induction tokens arbitrary: m) (auto simp: distinct_update split: option.splits)
  then show ?thesis by (simp add: link_parameters_def)
qed

lemma link_parameters_set: "(k, v) \<in> set (link_parameters val tokens) \<Longrightarrow> k \<in> set tokens \<and> val k = Some v"
  using map_of_is_SomeI [OF link_parameters_keys] link_parameters_map [of val tokens k] by (fastforce split: if_splits)

text \<open>A map is the same in every order.\<close>

lemma map_of_range:
  assumes "range_ok ord" "distinct (map fst m)"
  shows "map_of (ord j m) = map_of m" and "set (ord j m) = set m"
proof -
  have "mset (ord j m) = mset m" using assms(1) by (simp add: range_ok_def)
  then show s: "set (ord j m) = set m" by (rule mset_eq_setD)
  have "distinct (map fst (ord j m))"
    using assms(2) mset_eq_imp_distinct_iff [of "map fst (ord j m)" "map fst m"] \<open>mset (ord j m) = mset m\<close> by simp
  with assms(2) s show "map_of (ord j m) = map_of m" by (intro map_of_inject_set [THEN iffD2]) simp_all
qed

text \<open>
  A template given by its items: the address, and for every option its key and its value.  No value for a token
  has an angle bracket, and only proper tokens have one.
\<close>

definition template_of :: "string \<Rightarrow> template_item list \<Rightarrow> (template_item list \<times> template_item list) list \<Rightarrow> link_template" where
  "template_of name items options =
     \<lparr>lt_url = template_text items,
      lt_options = map (\<lambda>(k, v). \<lparr>lo_key = template_text k, lo_value = template_text v\<rparr>) options,
      lt_name = name\<rparr>"

definition template_ok :: "template_item list \<Rightarrow> (template_item list \<times> template_item list) list \<Rightarrow> bool" where
  "template_ok items options \<longleftrightarrow>
     (\<forall>i \<in> set items. item_ok i) \<and> (\<forall>(k, v) \<in> set options. (\<forall>i \<in> set k. item_ok i) \<and> (\<forall>i \<in> set v. item_ok i))"

definition values_ok :: "(string \<Rightarrow> string option) \<Rightarrow> bool" where
  "values_ok val \<longleftrightarrow> (\<forall>k v. val k = Some v \<longrightarrow> plain v) \<and> (\<forall>b. plain b \<and> has_prefix b ''encode:'' \<longrightarrow> val (''<'' @ b @ ''>'') = None)"

lemma Tokens_of:
  assumes "template_ok items options"
  shows "set (Tokens (template_of name items options)) =
    set (concat (map item_tokens items)) \<union> (\<Union>(k, v) \<in> set options. set (concat (map item_tokens k)) \<union> set (concat (map item_tokens v)))"
  using assms
  by (force simp: Tokens_def template_of_def template_ok_def find_template split_beta simp del: find_all.simps)

lemma item_tokens_named:
  assumes "item_ok i" "k \<in> set (item_tokens i)" "values_ok val" "val k = Some v"
  shows "\<exists>a. token_name a \<and> k = ''<'' @ a @ ''>''"
proof -
  have simple: "\<exists>a. token_name a \<and> k = ''<'' @ a @ ''>''" if "simple_ok j" "k \<in> set (simple_tokens j)" for j
    using that by (cases j) auto
  show ?thesis
  proof (cases i)
    case (Encode "is")
    show ?thesis
    proof (cases "\<forall>j \<in> set is. is_text j")
      case True
      with assms Encode texts_plain [of "is"] have p: "plain (''encode:'' @ concat (map simple_text is))"
        using encode_mark_text by auto
      moreover have "k = ''<'' @ (''encode:'' @ concat (map simple_text is)) @ ''>''"
        using assms(2) Encode True by (simp add: encode_mark_text)
      ultimately have "val k = None" using assms(3) has_prefix_append [of "''encode:''" "concat (map simple_text is)"]
        unfolding values_ok_def by presburger
      with assms(4) show ?thesis by simp
    next
      case False
      with assms(2) Encode obtain j where "j \<in> set is" "k \<in> set (simple_tokens j)" by auto
      with assms(1) Encode simple show ?thesis by auto
    qed
  qed (use assms(1,2) simple in simp)
qed

lemma fill_cong: "set (simple_tokens j) \<subseteq> {k. val k = val' k} \<Longrightarrow> fill val j = fill val' j"
  by (cases j) auto

lemma fill_item_cong:
  assumes "set (item_tokens i) \<subseteq> {k. val k = val' k}"
  shows "fill_item val i = fill_item val' i"
proof (cases i)
  case (Encode "is")
  show ?thesis
  proof (cases "\<forall>j \<in> set is. is_text j")
    case True
    then have "fill val j = fill val' j" if "j \<in> set is" for j
      using that by (cases j) auto
    then show ?thesis by (simp add: Encode)
  next
    case False
    with assms Encode have "set (simple_tokens j) \<subseteq> {k. val k = val' k}" if "j \<in> set is" for j using that by auto
    then show ?thesis by (simp add: Encode fill_cong)
  qed
qed (use assms fill_cong in simp)

lemma expanded_cong:
  assumes "\<forall>i \<in> set items. set (item_tokens i) \<subseteq> {k. val k = val' k}"
  shows "expanded val escape items = expanded val' escape items"
proof -
  have "map (item_result escape \<circ> fill_item val) items = map (item_result escape \<circ> fill_item val') items"
    using assms fill_item_cong [of _ val val'] by (intro map_cong [OF refl]) (metis comp_apply)
  then show ?thesis by (simp only: expanded_def)
qed

text \<open>
  The link of a documented template: its tokens replaced by their values, what it asks to encode escaped, and
  its options as the query.
\<close>

lemma ExpandTemplate_items:
  assumes ok: "template_ok items options" "values_ok val" and ord: "range_ok ord"
  shows "ExpandTemplate ord parse show_url (template_of name items options)
      (link_parameters val (Tokens (template_of name items options))) =
    go_bind (parse (expanded val PathEscape items)) (\<lambda>u.
      Inr (show_url u (encode_values (map (\<lambda>(k, v). (expanded val id k, expanded val id v)) options))))"
proof -
  let ?tokens = "Tokens (template_of name items options)"
  let ?ps = "link_parameters val ?tokens"
  note same = map_of_range [OF ord link_parameters_keys [of val ?tokens]]
  have each: "\<exists>is. i \<in> set is \<and> k \<in> set (item_tokens i)" if "k \<in> set (item_tokens i)" for i k
    using that by (intro exI [of _ "[i]"]) simp
  have params: "parameters_ok (ord j ?ps)" for j
    unfolding parameters_ok_def same(2)
  proof (clarify, intro conjI)
    fix k v assume "(k, v) \<in> set ?ps"
    then have kv: "k \<in> set ?tokens" "val k = Some v" by (auto dest: link_parameters_set)
    then show "plain v" using ok(2) by (auto simp: values_ok_def)
    from kv(1) ok(1) obtain i where "item_ok i" "k \<in> set (item_tokens i)"
      by (fastforce simp: Tokens_of [OF ok(1)] template_ok_def)
    from item_tokens_named [OF this ok(2) kv(2)] show "\<exists>a. token_name a \<and> k = ''<'' @ a @ ''>''" .
  qed
  have val: "expanded (map_of (ord j ?ps)) escape is = expanded val escape is"
    if "set (concat (map item_tokens is)) \<subseteq> set ?tokens" for escape "is" j
    unfolding same(1) by (rule expanded_cong) (use that in \<open>auto simp: link_parameters_map\<close>)
  have url: "expandTemplateString (template_text items) (ord j ?ps) False True = expanded val PathEscape items" for j
    using ok(1) by (simp add: expandTemplateString_items params template_ok_def val Tokens_of)
  have opt: "expandTemplateString (template_text is) (ord j ?ps) True True = expanded val id is"
    if "(k, v) \<in> set options" "is = k \<or> is = v" for k v "is" j
  proof -
    have "set (concat (map item_tokens is)) \<subseteq> set ?tokens" using that unfolding Tokens_of [OF ok(1)] by blast
    moreover have "\<forall>i \<in> set is. item_ok i" using that ok(1) by (auto simp: template_ok_def)
    ultimately show ?thesis by (simp add: expandTemplateString_items params val)
  qed
  have opts: "map (\<lambda>(j, opt). expand_option ord ?ps j opt) (enumerate 0 (lt_options (template_of name items options))) =
      map (\<lambda>(k, v). (expanded val id k, expanded val id v)) options"
  proof (rule nth_equalityI)
    fix j assume "j < length (map (\<lambda>(j, opt). expand_option ord ?ps j opt) (enumerate 0 (lt_options (template_of name items options))))"
    then have j: "j < length options" by (simp add: template_of_def)
    obtain k v where kv: "options ! j = (k, v)" by fastforce
    with j have "(k, v) \<in> set options" by (metis nth_mem)
    with opt kv j show "map (\<lambda>(j, opt). expand_option ord ?ps j opt) (enumerate 0 (lt_options (template_of name items options))) ! j =
        map (\<lambda>(k, v). (expanded val id k, expanded val id v)) options ! j"
      by (simp add: template_of_def expand_option_def nth_enumerate_eq)
  qed (simp add: template_of_def)
  have "lt_url (template_of name items options) = template_text items" by (simp add: template_of_def)
  then show ?thesis unfolding ExpandTemplate_def opts using url by simp
qed

text \<open>The values that an alert gives to the tokens.\<close>

lemma token_value_range:
  "token_value properties testID target buildID prefix header_names custom_headers k = Some v \<Longrightarrow>
   v = prefix \<or> v = target \<or> v = testID \<or> v = buildID \<or>
   (\<exists>p. map_of properties p = Some v) \<or> (\<exists>h. map_of custom_headers h = Some v)"
  unfolding token_value_def by (simp split: if_split_asm) blast+

lemma token_value_ok:
  assumes "plain testID" "plain target" "plain buildID" "plain prefix"
    and "\<forall>(k, v) \<in> set properties. plain v \<and> \<not> has_prefix k ''encode:''"
    and "\<forall>(k, v) \<in> set custom_headers. plain v"
  shows "values_ok (token_value properties testID target buildID prefix header_names custom_headers)"
proof -
  have texts: "plain v" if "map_of properties k = Some v \<or> map_of custom_headers k = Some v" for k v
    using that assms(5,6) by (auto dest!: map_of_SomeD)
  have "token_value properties testID target buildID prefix header_names custom_headers (''<'' @ b @ ''>'') = None"
    if b: "plain b" "has_prefix b ''encode:''" for b
  proof -
    obtain r where r: "b = ''encode:'' @ r" using b(2) by (auto simp: has_prefix_iff)
    have "filter not_angle b = b" using b(1) by (simp add: filter_id_conv)
    then have f: "filter not_angle (''<'' @ b @ ''>'') = b" by (simp add: not_angle_def)
    have "map_of properties b = None" using assms(5) b(2) by (auto simp: map_of_eq_None_iff)
    moreover have "\<not> is_custom_token (''<'' @ b @ ''>'')"
      by (simp add: is_custom_token_def token_at_def has_prefix_def r)
    ultimately show ?thesis unfolding token_value_def f by (simp add: r)
  qed
  moreover have "plain v"
    if "token_value properties testID target buildID prefix header_names custom_headers k = Some v" for k v
    using token_value_range [OF that] assms(1-4) texts by metis
  ultimately show ?thesis unfolding values_ok_def by blast
qed

lemma testResultLink_items:
  assumes "template_ok items options"
    and "plain testID" "plain target" "plain buildID" "plain prefix"
    and "\<forall>(k, v) \<in> set properties. plain v \<and> \<not> has_prefix k ''encode:''"
    and "\<forall>(k, v) \<in> set custom_headers. plain v"
    and val: "val = token_value properties testID target buildID prefix header_names custom_headers"
    and ord: "range_ok ord"
  shows "testResultLink ord parse show_url (template_of name items options) properties testID target buildID prefix
      header_names custom_headers =
    (case parse (expanded val PathEscape items) of
       Inl _ \<Rightarrow> []
     | Inr u \<Rightarrow> show_url u (encode_values (map (\<lambda>(k, v). (expanded val id k, expanded val id v)) options)))"
  using ExpandTemplate_items [OF assms(1) token_value_ok [OF assms(2-7)] ord, of parse show_url name header_names]
  by (simp add: testResultLink_def val split: sum.split)

end
