(* ===== verification/Rs_Client.thy ===== *)
theory Rs_Client
  imports Rs_Upload
begin

text \<open>
  The client of ResultStore (\<open>resultstore/client.go\<close>): the requests that its methods make, with their
  authorization and their field masks, and what they return.  The server is a parameter, with a state of its
  own; connections and credentials are left out.
\<close>

section \<open>Requests\<close>

record rs_client =
  rc_token :: string
  rc_invocation_id :: string

definition new_rs_client :: rs_client where
  "new_rs_client = \<lparr>rc_token = [], rc_invocation_id = []\<rparr>"

definition WithSecret :: "string \<Rightarrow> rs_client \<Rightarrow> rs_client" where
  "WithSecret authorizationToken c = c\<lparr>rc_token := authorizationToken\<rparr>"

definition WithInvocationID :: "string \<Rightarrow> rs_client \<Rightarrow> rs_client" where
  "WithInvocationID invocationID c = c\<lparr>rc_invocation_id := invocationID\<rparr>"

text \<open>
  The messages to the server, without their token.  The target of an update has the identifiers of its
  invocation and its own, and a name.
\<close>

datatype rs_request =
    CreateTarget string string pb_target
  | UpdateTarget "string \<times> string" pb_target "string list"
  | CreateConfiguration string string
  | CreateConfiguredTarget string string "pb_status_attributes option"
  | CreateAction string string pb_action
  | CreateInvocation string pb_invocation
  | UpdateInvocation pb_invocation "string list"
  | FinalizeInvocation string

text \<open>
  The server takes a token and a request, and answers with the name of the resource.  A request to read has the
  header of its field mask.
\<close>

type_synonym 's rs_upload = "'s \<Rightarrow> string \<Rightarrow> rs_request \<Rightarrow> string go \<times> 's"

record 's rs_download =
  rd_targets :: "'s \<Rightarrow> string \<Rightarrow> string \<Rightarrow> pb_target list go"
  rd_actions :: "'s \<Rightarrow> string \<Rightarrow> string \<Rightarrow> pb_action list go"
  rd_invocation :: "'s \<Rightarrow> string \<Rightarrow> string \<Rightarrow> pb_invocation go"
  rd_search :: "'s \<Rightarrow> string \<Rightarrow> string \<Rightarrow> string \<Rightarrow> pb_invocation list go"

definition fieldMask :: "string list \<Rightarrow> string" where
  "fieldMask fs = str_join fs '',''"

definition listMask :: "string list \<Rightarrow> string" where
  "listMask fs = fieldMask (fs @ [''next_page_token''])"

definition unit_answer :: "string go \<times> 's \<Rightarrow> unit go \<times> 's" where
  "unit_answer r = (case r of (Inl e, s) \<Rightarrow> (Inl e, s) | (Inr n, s) \<Rightarrow> (Inr (), s))"

section \<open>Targets and configurations\<close>

definition Targets_Create :: "'s rs_upload \<Rightarrow> rs_client \<Rightarrow> string \<Rightarrow> string \<Rightarrow> up_target \<Rightarrow> 's \<Rightarrow> string go \<times> 's" where
  "Targets_Create up c parent_inv rid target s = up s (rc_token c) (CreateTarget parent_inv rid (Target_To target))"

definition Targets_Update ::
    "'s rs_upload \<Rightarrow> rs_client \<Rightarrow> string \<Rightarrow> string \<Rightarrow> up_target \<Rightarrow> string list \<Rightarrow> 's \<Rightarrow> unit go \<times> 's" where
  "Targets_Update up c name rid target fs s =
     unit_answer (up s (rc_token c)
       (UpdateTarget (rc_invocation_id c, rid) ((Target_To target)\<lparr>pbt_name := name\<rparr>) fs))"

definition Targets_List :: "'s rs_download \<Rightarrow> string \<Rightarrow> string list \<Rightarrow> 's \<Rightarrow> up_target list go" where
  "Targets_List down parent_inv fs s = go_bind (rd_targets down s (listMask fs) parent_inv) (\<lambda>ts. Inr (map fromTarget ts))"

definition Configurations_Create :: "'s rs_upload \<Rightarrow> rs_client \<Rightarrow> string \<Rightarrow> string \<Rightarrow> 's \<Rightarrow> string go \<times> 's" where
  "Configurations_Create up c parent_inv rid s = up s (rc_token c) (CreateConfiguration parent_inv rid)"

definition ConfiguredTargets_Create ::
    "'s rs_upload \<Rightarrow> rs_client \<Rightarrow> string \<Rightarrow> string \<Rightarrow> rs_action \<Rightarrow> 's \<Rightarrow> string go \<times> 's" where
  "ConfiguredTargets_Create up c target config act s =
     up s (rc_token c) (CreateConfiguredTarget target config (status_message (ac_status act) (ac_description act)))"

section \<open>Tests\<close>

definition Actions_Create ::
    "'s rs_upload \<Rightarrow> rs_client \<Rightarrow> string \<Rightarrow> string \<Rightarrow> rs_test_action \<Rightarrow> 's \<Rightarrow> string go \<times> 's" where
  "Actions_Create up c configured rid test s = up s (rc_token c) (CreateAction configured rid (Test_To test))"

definition TestFields :: "string list" where
  "TestFields = [''actions.name'', ''actions.test_action'', ''actions.description'', ''actions.timing'']"

definition Actions_List :: "'s rs_download \<Rightarrow> string \<Rightarrow> string list \<Rightarrow> 's \<Rightarrow> rs_test_action list go" where
  "Actions_List down configured fs s =
     go_bind (rd_actions down s (listMask (if fs = [] then TestFields else fs)) configured) (go_map fromTest)"

section \<open>Invocations\<close>

definition Invocations_Create :: "'s rs_upload \<Rightarrow> rs_client \<Rightarrow> up_invocation \<Rightarrow> 's \<Rightarrow> string go \<times> 's" where
  "Invocations_Create up c new_inv s = up s (rc_token c) (CreateInvocation (rc_invocation_id c) (Invocation_To new_inv))"

definition Invocations_Update :: "'s rs_upload \<Rightarrow> rs_client \<Rightarrow> up_invocation \<Rightarrow> string list \<Rightarrow> 's \<Rightarrow> unit go \<times> 's" where
  "Invocations_Update up c new_inv fs s = unit_answer (up s (rc_token c) (UpdateInvocation (Invocation_To new_inv) fs))"

definition Invocations_Finish :: "'s rs_upload \<Rightarrow> rs_client \<Rightarrow> string \<Rightarrow> 's \<Rightarrow> unit go \<times> 's" where
  "Invocations_Finish up c name s = unit_answer (up s (rc_token c) (FinalizeInvocation name))"

definition Invocations_Get :: "'s rs_download \<Rightarrow> string \<Rightarrow> string list \<Rightarrow> 's \<Rightarrow> up_invocation go" where
  "Invocations_Get down name fs s = go_bind (rd_invocation down s (fieldMask fs) name) (\<lambda>i. Inr (fromInvocation i))"

definition convertToInvocations :: "pb_invocation list \<Rightarrow> up_invocation list" where
  "convertToInvocations results = map fromInvocation results"

definition Invocations_Search ::
    "'s rs_download \<Rightarrow> string \<Rightarrow> string \<Rightarrow> string list \<Rightarrow> 's \<Rightarrow> up_invocation list go" where
  "Invocations_Search down projectID query fs s =
     go_bind (rd_search down s (fieldMask fs) projectID query) (\<lambda>r. Inr (convertToInvocations r))"

section \<open>What is uploaded is listed\<close>

text \<open>
  The documented behaviour of the server for the actions of a configured target: they are listed in the order
  they were created, each with the fields that the mask names; \<open>kept_actions\<close> says which there are.
\<close>

definition in_mask :: "string \<Rightarrow> string \<Rightarrow> bool" where
  "in_mask header f \<longleftrightarrow> f \<in> set (str_split header '','') "

definition masked_action :: "string \<Rightarrow> pb_action \<Rightarrow> pb_action" where
  "masked_action h a =
     \<lparr>pba_status_attributes = (if in_mask h ''actions.status_attributes'' then pba_status_attributes a else None),
      pba_timing = (if in_mask h ''actions.timing'' then pba_timing a else None),
      pba_action_attributes = (if in_mask h ''actions.action_attributes'' then pba_action_attributes a else None),
      pba_action_type = (if in_mask h ''actions.test_action'' then pba_action_type a else No_action_type),
      pba_files = (if in_mask h ''actions.files'' then pba_files a else []),
      pba_properties = (if in_mask h ''actions.properties'' then pba_properties a else [])\<rparr>"

definition keeps_actions :: "'s rs_upload \<Rightarrow> 's rs_download \<Rightarrow> ('s \<Rightarrow> string \<Rightarrow> pb_action list) \<Rightarrow> bool" where
  "keeps_actions up down kept_actions \<longleftrightarrow>
     (\<forall>s h p. rd_actions down s h p = Inr (map (masked_action h) (kept_actions s p))) \<and>
     (\<forall>s token p rid a n s'. up s token (CreateAction p rid a) = (Inr n, s') \<longrightarrow>
        kept_actions s' = (kept_actions s)(p := kept_actions s p @ [a]))"

text \<open>Uploading tests one after the other, as long as it succeeds.\<close>

fun create_tests ::
    "'s rs_upload \<Rightarrow> rs_client \<Rightarrow> string \<Rightarrow> (string \<times> rs_test_action) list \<Rightarrow> 's \<Rightarrow> unit go \<times> 's" where
  "create_tests up c p [] s = (Inr (), s)"
| "create_tests up c p ((rid, t) # ts) s =
     (case Actions_Create up c p rid t s of
        (Inl e, s') \<Rightarrow> (Inl e, s')
      | (Inr n, s') \<Rightarrow> create_tests up c p ts s')"

lemma create_tests_stored:
  assumes "keeps_actions up down kept_actions" "create_tests up c p ts s = (Inr (), s')"
  shows "kept_actions s' p = kept_actions s p @ map (Test_To \<circ> snd) ts"
  using assms(2)
proof (induction ts arbitrary: s)
  case (Cons t ts)
  obtain rid test where t: "t = (rid, test)" by (cases t)
  with Cons.prems obtain n s1 where c: "Actions_Create up c p rid test s = (Inr n, s1)" "create_tests up c p ts s1 = (Inr (), s')"
    by (auto split: prod.splits sum.splits)
  then have "kept_actions s1 = (kept_actions s)(p := kept_actions s p @ [Test_To test])"
    using assms(1) unfolding keeps_actions_def Actions_Create_def by blast
  with Cons.IH [OF c(2)] show ?case by (simp add: t)
qed simp

lemma go_map_append: "go_map f (xs @ ys) = go_bind (go_map f xs) (\<lambda>us. go_bind (go_map f ys) (\<lambda>vs. Inr (us @ vs)))"
  by (induction xs) (simp_all add: go_bind_def split: sum.split)

definition status_mask :: "string \<Rightarrow> bool" where
  "status_mask h \<longleftrightarrow> in_mask h ''actions.status_attributes'' \<and> in_mask h ''actions.timing'' \<and>
     in_mask h ''actions.action_attributes'' \<and> in_mask h ''actions.test_action''"

lemma masked_test:
  assumes "status_mask h"
  shows "fromTest (masked_action h (Test_To t)) = fromTest (Test_To t)"
  using assms by (simp add: status_mask_def fromTest_def masked_action_def fromAction_def)

text \<open>
  With all the fields that a test is read from, the uploaded tests are listed after those that were there.
\<close>

lemma tests_listed:
  assumes "keeps_actions up down kept_actions" "create_tests up c p ts s = (Inr (), s')"
    and "fs \<noteq> []" "status_mask (listMask fs)" "Actions_List down p fs s = Inr old"
    and "\<forall>(rid, t) \<in> set ts. action_ok (ta_action t) \<and> suite_times_ok (ta_suite t)"
  shows "Actions_List down p fs s' = Inr (old @ map (\<lambda>(rid, t).
    t\<lparr>ta_action := (ta_action t)\<lparr>ac_duration := max (ac_duration (ta_action t)) 0\<rparr>, ta_suite := kept_suite (ta_suite t)\<rparr>) ts)"
proof -
  let ?h = "listMask fs"
  let ?kept = "\<lambda>t. t\<lparr>ta_action := (ta_action t)\<lparr>ac_duration := max (ac_duration (ta_action t)) 0\<rparr>, ta_suite := kept_suite (ta_suite t)\<rparr>"
  have list: "Actions_List down p fs s = go_map fromTest (map (masked_action ?h) (kept_actions s p))" for s
    using assms(1,3) by (simp add: Actions_List_def keeps_actions_def go_simps)
  have "go_map fromTest (map (masked_action ?h) (map (Test_To \<circ> snd) ts)) = Inr (map (\<lambda>(rid, t). ?kept t) ts)"
    using assms(6)
  proof (induction ts)
    case (Cons x ts)
    obtain rid t where x: "x = (rid, t)" by (cases x)
    with Cons.prems have "fromTest (masked_action ?h (Test_To t)) = Inr (?kept t)"
      by (subst masked_test [OF assms(4)], intro test_round_trip) auto
    with Cons show ?case by (simp add: x go_simps)
  qed simp
  with assms(5) show ?thesis
    unfolding list create_tests_stored [OF assms(1,2)] map_append go_map_append by (simp add: go_simps)
qed

text \<open>
  The default fields name neither the status nor the attributes of an action: a test is listed without its
  status, its description, its node and its exit code.
\<close>

lemma default_fields_lose_status:
  assumes "keeps_actions up down kept_actions" "Actions_List down p [] s = Inr ts" "t \<in> set ts"
  shows "ac_status (ta_action t) = 0 \<and> ac_description (ta_action t) = [] \<and> ac_node (ta_action t) = [] \<and>
    ac_exit_code (ta_action t) = 0"
proof -
  let ?h = "listMask TestFields"
  have mask: "\<not> in_mask ?h ''actions.status_attributes'' \<and> \<not> in_mask ?h ''actions.action_attributes''" by code_simp
  have each: "go_map fromTest (map (masked_action ?h) as) = Inr us \<Longrightarrow> t \<in> set us \<Longrightarrow>
      \<exists>a. fromTest (masked_action ?h a) = Inr t" for as us
    by (induction "as" arbitrary: us) (auto simp: go_simps)
  have "go_map fromTest (map (masked_action ?h) (kept_actions s p)) = Inr ts"
    using assms(1,2) by (simp add: Actions_List_def keeps_actions_def go_simps)
  from each [OF this assms(3)] obtain a where "fromTest (masked_action ?h a) = Inr t" by blast
  with mask show ?thesis
    by (auto simp: fromTest_def fromAction_def masked_action_def fromStatus_def fromActionAttributes_def go_simps
        split: sum.splits)
qed

end
