(* ===== verification/Commands.thy ===== *)
theory Commands
  imports Update_Loop Config_Source
begin

text \<open>
  The commands: the checks of their flags (\<open>cmd/updater\<close>, \<open>cmd/summarizer\<close>, \<open>cmd/tabulator\<close>) with the values they
  put in, the subscriptions given by flags, and the counts of the fields of a configuration
  (\<open>config/fields.go\<close>, \<open>config/print/main.go\<close>).  Parsing of the flags themselves, and the wiring, are left out.
\<close>

section \<open>Flags with several values\<close>

text \<open>\<open>util/strings.go\<close>: a flag that may be repeated is the list of its values.\<close>

definition Strings_Set :: "string \<Rightarrow> string list \<Rightarrow> string list" where
  "Strings_Set v vals = vals @ [v]"

definition Strings_String :: "string list \<Rightarrow> string" where
  "Strings_String vals = str_join vals '',''"

text \<open>\<open>strings.SplitN\<close> into two parts: at the first separator, if there is one.\<close>

fun split_first :: "char \<Rightarrow> string \<Rightarrow> (string \<times> string) option" where
  "split_first sep [] = None"
| "split_first sep (c # s) =
     (if c = sep then Some ([], s)
      else map_option (\<lambda>(a, b). (c # a, b)) (split_first sep s))"

lemma split_first_iff:
  "split_first sep s = Some (a, b) \<longleftrightarrow> s = a @ sep # b \<and> sep \<notin> set a"
proof (induction s arbitrary: a)
  case (Cons c s)
  show ?case by (cases "c = sep"; cases a) (auto simp: Cons)
qed simp

lemma split_first_none: "split_first sep s = None \<longleftrightarrow> sep \<notin> set s"
  by (induction s) auto

section \<open>Subscriptions\<close>

text \<open>
  A subscription of the updater is \<open>prefix=project/subscription\<close>; the ones before a malformed one have been
  added when the error is returned.
\<close>

definition subscription_format :: "string \<Rightarrow> string" where
  "subscription_format sub = ''--subscribe format is prefix=proj/sub, got '' @ go_quote sub"

fun subscribeGCS ::
    "string list \<Rightarrow> (string, subscription) gomap \<Rightarrow> unit go \<times> (string, subscription) gomap" where
  "subscribeGCS [] manualSubs = (Inr (), manualSubs)"
| "subscribeGCS (sub # subs) manualSubs =
     (case split_first (CHR ''='') sub of
        None \<Rightarrow> (Inl (Failed (subscription_format sub)), manualSubs)
      | Some (prefix, sub') \<Rightarrow>
          (case split_first (CHR ''/'') sub' of
             None \<Rightarrow> (Inl (Failed (subscription_format sub)), manualSubs)
           | Some (proj, s) \<Rightarrow> subscribeGCS subs (AddManualSubscription proj s prefix manualSubs)))"

definition well_formed_subscription :: "string \<Rightarrow> bool" where
  "well_formed_subscription sub \<longleftrightarrow>
     (\<exists>prefix proj s. sub = prefix @ ''='' @ proj @ ''/'' @ s \<and> CHR ''='' \<notin> set prefix \<and> CHR ''/'' \<notin> set proj)"

lemma subscribeGCS_accepts:
  "(\<exists>ms'. subscribeGCS subs ms = (Inr (), ms')) \<longleftrightarrow> (\<forall>sub \<in> set subs. well_formed_subscription sub)"
proof (induction subs ms rule: subscribeGCS.induct)
  case (2 sub subs ms)
  have "well_formed_subscription sub \<longleftrightarrow>
      (\<exists>prefix sub' proj s. split_first (CHR ''='') sub = Some (prefix, sub') \<and> split_first (CHR ''/'') sub' = Some (proj, s))"
    unfolding well_formed_subscription_def split_first_iff by auto
  with 2 show ?case by (auto split: option.split prod.splits)
qed simp

text \<open>The last subscription of a prefix is the one that counts.\<close>

lemma subscribeGCS_last:
  assumes "subscribeGCS (subs @ [prefix @ ''='' @ proj @ ''/'' @ s]) ms = (Inr (), ms')"
    and "CHR ''='' \<notin> set prefix" "CHR ''/'' \<notin> set proj"
  shows "map_of ms' prefix = Some \<lparr>sub_proj = proj, sub_sub = s\<rparr>"
proof -
  have parts: "split_first (CHR ''='') (prefix @ CHR ''='' # proj @ CHR ''/'' # s) = Some (prefix, proj @ CHR ''/'' # s)"
    "split_first (CHR ''/'') (proj @ CHR ''/'' # s) = Some (proj, s)" using assms(2,3) by (simp_all add: split_first_iff)
  have "subscribeGCS (subs @ [x]) ms = (case subscribeGCS subs ms of (Inl e, m) \<Rightarrow> (Inl e, m) | (Inr _, m) \<Rightarrow> subscribeGCS [x] m)" for x
    by (induction subs ms rule: subscribeGCS.induct) (auto split: option.splits)
  with assms(1) obtain m where "ms' = AddManualSubscription proj s prefix m"
    by (auto simp: parts split: prod.splits sum.splits)
  then show ?thesis by (simp add: AddManualSubscription_def update_conv')
qed

text \<open>The subscription of the summarizer and of the tabulator; without one there is no fixer.\<close>

definition gcsFixer_parts :: "string \<Rightarrow> (string \<times> string) option go" where
  "gcsFixer_parts projectSub =
     (if projectSub = [] then Inr None
      else case split_first (CHR ''/'') projectSub of
        None \<Rightarrow> Inl (Failed ''malformed project/subscription'')
      | Some parts \<Rightarrow> Inr (Some parts))"

section \<open>Validation of the flags\<close>

record updater_options =
  uo_config :: url
  uo_confirm :: bool
  uo_group_concurrency :: int
  uo_build_concurrency :: int
  uo_grid_prefix :: string
  uo_subscriptions :: "string list"

definition updater_validate ::
    "url_lib \<Rightarrow> int \<Rightarrow> updater_options \<Rightarrow> (string, subscription) gomap \<Rightarrow>
     unit go \<times> updater_options \<times> (string, subscription) gomap" where
  "updater_validate ul numCPU o' ms =
     (if ul_string ul (uo_config o') = [] then (Inl (Failed ''empty --config''), o', ms)
      else if Bucket (uo_config o') = ''k8s-testgrid'' \<and> uo_grid_prefix o' = [] \<and> uo_confirm o' then
        (Inl (Failed (''--config='' @ ul_string ul (uo_config o') @ '': cannot write grid state to gs://k8s-testgrid'')), o', ms)
      else
        let o' = (if uo_group_concurrency o' = 0 then o'\<lparr>uo_group_concurrency := numCPU\<rparr> else o');
            o' = (if uo_build_concurrency o' = 0 then o'\<lparr>uo_build_concurrency := uo_group_concurrency o' * 4\<rparr> else o')
        in (case subscribeGCS (uo_subscriptions o') ms of (r, ms') \<Rightarrow> (r, o', ms')))"

record summarizer_options =
  so_config :: url
  so_concurrency :: int

definition summarizer_validate :: "url_lib \<Rightarrow> int \<Rightarrow> summarizer_options \<Rightarrow> summarizer_options go" where
  "summarizer_validate ul numCPU o' =
     (if ul_string ul (so_config o') = [] then Inl (Failed ''empty --config'')
      else if so_concurrency o' = 0 then Inr (o'\<lparr>so_concurrency := 4 * numCPU\<rparr>)
      else Inr o')"

record tabulator_options =
  to_config :: url
  to_read_concurrency :: int
  to_write_concurrency :: int

definition tabulator_validate :: "url_lib \<Rightarrow> int \<Rightarrow> tabulator_options \<Rightarrow> tabulator_options go" where
  "tabulator_validate ul numCPU o' =
     (if ul_string ul (to_config o') = [] then Inl (Failed ''empty --config'')
      else
        let o' = (if to_write_concurrency o' < 1 then o'\<lparr>to_write_concurrency := 4 * numCPU\<rparr> else o') in
        Inr (if to_read_concurrency o' < 1
             then o'\<lparr>to_read_concurrency := go_div (to_write_concurrency o') 2 + 1\<rparr> else o'))"

text \<open>
  What the programs require of their concurrency when they start: the tabulator and the summarizer return an
  error, the updater adds it to a wait group, which panics when it is negative.
\<close>

definition tabulator_concurrency :: "int \<Rightarrow> int \<Rightarrow> unit go" where
  "tabulator_concurrency reading writing =
     (if reading < 1 \<or> writing < 1
      then Inl (Failed (''concurrency must be positive, got read '' @ itoa reading @ '' and write '' @ itoa writing))
      else Inr ())"

definition summarizer_concurrency :: "int \<Rightarrow> unit go" where
  "summarizer_concurrency n =
     (if n < 1 then Inl (Failed (''concurrency must be positive, got: '' @ itoa n)) else Inr ())"

definition updater_workers :: "int \<Rightarrow> nat go" where
  "updater_workers n = (if n < 0 then Inl (Panic ''sync: negative WaitGroup counter'') else Inr (nat n))"

text \<open>The options that the tabulator accepts always start it; those of the other two may not.\<close>

lemma tabulator_starts:
  assumes "tabulator_validate ul numCPU opts = Inr opts'" "0 < numCPU"
  shows "tabulator_concurrency (to_read_concurrency opts') (to_write_concurrency opts') = Inr ()"
  using assms by (auto simp: tabulator_validate_def tabulator_concurrency_def Let_def split: if_splits)

lemma summarizer_starts:
  assumes "summarizer_validate ul numCPU opts = Inr opts'" "0 < numCPU"
  shows "summarizer_concurrency (so_concurrency opts') = Inr () \<longleftrightarrow> 0 \<le> so_concurrency opts"
  using assms by (auto simp: summarizer_validate_def summarizer_concurrency_def split: if_splits)

lemma updater_starts:
  assumes "updater_validate ul numCPU opts ms = (Inr (), opts', ms')" "0 < numCPU"
  shows "(\<exists>n. updater_workers (uo_group_concurrency opts') = Inr n) \<longleftrightarrow> 0 \<le> uo_group_concurrency opts"
  using assms by (auto simp: updater_validate_def updater_workers_def Let_def split: if_splits prod.splits)

text \<open>Negative numbers of groups give negative numbers of builds.\<close>

lemma updater_builds:
  assumes "updater_validate ul numCPU opts ms = (Inr (), opts', ms')" "0 < numCPU" "uo_build_concurrency opts = 0"
  shows "0 < uo_build_concurrency opts' \<longleftrightarrow> 0 \<le> uo_group_concurrency opts"
  using assms by (auto simp: updater_validate_def Let_def split: if_splits prod.splits)

section \<open>The fields of a configuration\<close>

text \<open>
  A message as its populated fields, by name: a field is a message, a list of messages, or else of a primitive
  type.  The order is that of \<open>Range\<close>, which is not specified; the configuration has no field of map type.
\<close>

datatype proto_field = Primitive_field | Message_field "(string \<times> proto_field) list" | Messages_field "(string \<times> proto_field) list list"

definition field_path :: "string \<Rightarrow> string \<Rightarrow> string" where
  "field_path pp name = (if pp \<noteq> [] then pp @ ''.'' @ name else name)"

definition add_field :: "string \<Rightarrow> (string, int) gomap \<Rightarrow> (string, int) gomap" where
  "add_field p counts = AList.update p ((case map_of counts p of Some n \<Rightarrow> n | None \<Rightarrow> 0) + 1) counts"

fun countRecursive :: "string \<Rightarrow> string \<Rightarrow> proto_field \<Rightarrow> (string, int) gomap \<Rightarrow> (string, int) gomap"
  and count_message :: "string \<Rightarrow> (string \<times> proto_field) list \<Rightarrow> (string, int) gomap \<Rightarrow> (string, int) gomap"
  and count_messages :: "string \<Rightarrow> (string \<times> proto_field) list list \<Rightarrow> (string, int) gomap \<Rightarrow> (string, int) gomap" where
  "countRecursive pp name Primitive_field counts = add_field (field_path pp name) counts"
| "countRecursive pp name (Message_field fs) counts = count_message (field_path pp name) fs counts"
| "countRecursive pp name (Messages_field ms) counts = count_messages (field_path pp name) ms counts"
| "count_message pp [] counts = counts"
| "count_message pp ((n, f) # fs) counts = count_message pp fs (countRecursive pp n f counts)"
| "count_messages pp [] counts = counts"
| "count_messages pp (m # ms) counts = count_messages pp ms (count_message pp m counts)"

definition Fields :: "(string \<times> proto_field) list \<Rightarrow> (string, int) gomap" where
  "Fields cfg = count_message [] cfg []"

text \<open>The paths of the primitive fields.\<close>

fun field_paths :: "string \<Rightarrow> string \<Rightarrow> proto_field \<Rightarrow> string list"
  and message_paths :: "string \<Rightarrow> (string \<times> proto_field) list \<Rightarrow> string list"
  and messages_paths :: "string \<Rightarrow> (string \<times> proto_field) list list \<Rightarrow> string list" where
  "field_paths pp name Primitive_field = [field_path pp name]"
| "field_paths pp name (Message_field fs) = message_paths (field_path pp name) fs"
| "field_paths pp name (Messages_field ms) = messages_paths (field_path pp name) ms"
| "message_paths pp [] = []"
| "message_paths pp ((n, f) # fs) = field_paths pp n f @ message_paths pp fs"
| "messages_paths pp [] = []"
| "messages_paths pp (m # ms) = message_paths pp m @ messages_paths pp ms"

lemma countRecursive_paths:
  "countRecursive pp name f counts = fold add_field (field_paths pp name f) counts"
  "count_message pp fs counts = fold add_field (message_paths pp fs) counts"
  "count_messages pp ms counts = fold add_field (messages_paths pp ms) counts"
  by (induction pp name f counts and pp fs counts and pp ms counts
      rule: countRecursive_count_message_count_messages.induct) simp_all

text \<open>The order of the fields of a message does not matter.\<close>

lemma message_paths_order: "mset fs = mset fs' \<Longrightarrow> mset (message_paths pp fs) = mset (message_paths pp fs')"
proof -
  have "mset (message_paths pp fs) = sum_mset (image_mset (\<lambda>(n, f). mset (field_paths pp n f)) (mset fs))" for fs
    by (induction fs) auto
  then show "mset fs = mset fs' \<Longrightarrow> mset (message_paths pp fs) = mset (message_paths pp fs')" by simp
qed

lemma add_field_count:
  "map_of (fold add_field ps counts) p =
    (if p \<in> set ps then Some ((case map_of counts p of Some n \<Rightarrow> n | None \<Rightarrow> 0) + int (count_list ps p)) else map_of counts p)"
proof (induction ps arbitrary: counts)
  case (Cons q ps)
  then show ?case by (cases "q = p") (auto simp: add_field_def update_conv' count_notin)
qed simp

text \<open>Every path with the number of primitive fields there, in whatever order the fields are visited.\<close>

lemma Fields_counts:
  "map_of (Fields cfg) p =
    (if p \<in> set (message_paths [] cfg) then Some (int (count_list (message_paths [] cfg) p)) else None)"
  by (simp add: Fields_def countRecursive_paths add_field_count)

text \<open>The keys of JSON objects, counted for the groups and for the tabs of all dashboards.\<close>

definition key_counts :: "string list list \<Rightarrow> (string, int) gomap" where
  "key_counts objects = fold (\<lambda>ks counts. fold add_field ks counts) objects []"

lemma key_counts_spec:
  "map_of (key_counts objects) k =
    (if k \<in> set (concat objects) then Some (int (count_list (concat objects) k)) else None)"
proof -
  have "fold (\<lambda>ks counts. fold add_field ks counts) objects c = fold add_field (concat objects) c" for c
    by (induction objects arbitrary: c) simp_all
  then have "key_counts objects = fold add_field (concat objects) []" by (simp add: key_counts_def)
  then show ?thesis by (simp add: add_field_count)
qed

end
