(* ===== verification/Spec2Isabelle.thy ===== *)
theory Spec2Isabelle
  imports "HOL-Library.Char_ord" "HOL-Library.List_Lexorder"
    Update_Group Heap Work_Queue Config_Validate Config_Converge Config_Queue Flakiness Tab_Status Summarize
    Tabulate Worker_Pool Update_Loop Summary_Loop Pipeline Result_Search Api_Routes Rs_Upload Config_Merge
    Grid_Update Queue_Persist Yaml_Config State_Compare Metrics Pubsub Build_Files
    Links Rs_Client Commands
begin

text \<open>
  TestGrid turns the results of test runs into grids (a row per test, a column per build) and the
  grids into dashboards.  Three programs do the work, each with a queue of names and a pool of
  workers: the \<^emph>\<open>updater\<close> reads the results of a test group and extends its grid, the
  \<^emph>\<open>tabulator\<close> filters the grid of a group into the grid of every tab that shows it, and the
  \<^emph>\<open>summarizer\<close> reads the grids of the tabs of a dashboard and writes its summary.  A fourth, the
  \<^emph>\<open>API server\<close>, answers requests from what the three have stored.  They share the configuration,
  which a fifth, the \<^emph>\<open>merger\<close>, merges from shards and validates, and which all the others observe.
  The theories model the Go code under \<open>src/\<close>; each names the files it translates.

  \<^bold>\<open>Theories.\<close>
  \<^item> \<open>Go_Prelude\<close>: the part of Go the code uses (errors and panics as \<open>Inl\<close>, slices, maps as
    association lists, strings and UTF-8, stable sorting, cursors); \<open>Config_Proto\<close> and \<open>State_Proto\<close>:
    the protocol buffers of the configuration and of the grid; \<open>Test_Status\<close>: the order of test
    results and the run-length iterator (\<open>internal/result/results.go\<close>).
  \<^item> \<open>Inflate\<close> (\<open>pkg/updater/inflate.go\<close>): the decoders of a row as cursors, and \<open>InflateGrid\<close>;
    \<open>Compress\<close>: \<open>appendCell\<close>, \<open>AppendColumn\<close>, \<open>dropEmptyRows\<close>; \<open>Alerts\<close>: \<open>alertRow\<close> and column
    statistics; \<open>Columns\<close>: grouping, truncating, \<open>ConstructGrid\<close> (all \<open>pkg/updater/updater.go\<close>).
  \<^item> \<open>Junit_Metadata\<close> (\<open>metadata/\<close>), \<open>Custom_Eval\<close> (\<open>eval.go\<close>), \<open>Cells\<close> (\<open>gcs.go\<close>, \<open>read.go\<close>): from
    the artifacts of a build to the cells of its column; \<open>Update_Group\<close>: listing builds, reading
    columns, \<open>InflateDropAppend\<close>.
  \<^item> \<open>Heap\<close>: Go's \<open>container/heap\<close> over a locale for its interface; \<open>Work_Queue\<close>
    (\<open>util/queue/queue.go\<close>): the queue as an instance of it; \<open>Config_Queue\<close> (\<open>config/queue.go\<close>).
  \<^item> \<open>Worker_Pool\<close>: what a set of active names promises, as a locale; \<open>Update_Loop\<close>
    (\<open>pkg/updater/updater.go\<close>, \<open>pubsub.go\<close>) and \<open>Summary_Loop\<close> (\<open>pkg/summarizer\<close>,
    \<open>pkg/tabulator\<close>): initial times, notifications, and the workers as step relations.
  \<^item> \<open>Config_Validate\<close> (\<open>config/config.go\<close>, \<open>resultstore/query/query.go\<close>), \<open>Config_Converge\<close>
    (\<open>config/converge.go\<close>).
  \<^item> \<open>Result_Store\<close>, \<open>Result_Columns\<close>, \<open>Result_Search\<close> (\<open>pkg/updater/resultstore\<close>): the updater's other
    source of columns, from the pages of a search for invocations over targets, suites and cases to
    cells and columns; \<open>Result_Cells\<close>: what the cells of such a column are.  \<open>Rs_Upload\<close>
    (\<open>resultstore/resultstore.go\<close>): the library that writes and reads back invocations; \<open>Rs_Client\<close>
    (\<open>resultstore/client.go\<close>): its requests.
  \<^item> \<open>Config_Source\<close> (\<open>util/gcs/gcs.go\<close>, \<open>config/cache.go\<close>, \<open>config/snapshot/config_snapshot.go\<close>): paths in
    storage, the cache of configurations, the observer of a configuration; \<open>Config_Merge\<close>
    (\<open>pkg/merger/merger.go\<close>): one run of the merger.
  \<^item> \<open>Api_Config\<close>, \<open>Api_State\<close>, \<open>Api_Summary\<close>, \<open>Api_Routes\<close> (\<open>pkg/api/v1\<close>): the handlers for dashboards and
    tabs, for headers and rows, for summaries, and the routes that lead to them.
  \<^item> \<open>Tabulate\<close> (\<open>pkg/tabulator\<close>); \<open>Tab_Status\<close>, \<open>Flakiness\<close>, \<open>Summarize\<close> (\<open>pkg/summarizer\<close>);
    \<open>Pipeline\<close>: the three programs one after the other.
  \<^item> \<open>Storage\<close> (\<open>util/gcs/client.go\<close>, \<open>real_gcs.go\<close>, \<open>local_gcs.go\<close>, \<open>sort.go\<close>): the clients for the cloud and
    for local files, with conditions and locks; \<open>Tab_Store\<close> and \<open>Tab_Pass\<close>: tab states and summaries in
    storage, a pass of the tabulator over a group; \<open>Grid_Update\<close>: an update of a group from its download to
    its conditional upload, and histories of such updates; \<open>Build_Files\<close> (\<open>util/gcs/read.go\<close>): the files of a build.
  \<^item> \<open>Queue_Persist\<close> (\<open>util/queue/persist.go\<close>): the times of a queue in storage; \<open>Yaml_Config\<close>
    (\<open>config/yamlcfg\<close>): configurations in YAML files with defaults; \<open>Pubsub\<close> (\<open>pkg/pubsub\<close>): from a message
    to the group that becomes due; \<open>Metrics\<close> (\<open>util/metrics\<close>); \<open>State_Compare\<close> (\<open>cmd/state_comparer\<close>);
    \<open>Links\<close> (\<open>util/links.go\<close>): link templates; \<open>Commands\<close> (\<open>cmd\<close>, \<open>config/fields.go\<close>): validation of flags, fields.

  \<^bold>\<open>How the code is modelled.\<close>  A structure is a record, an enumeration a datatype, a nil pointer
  \<open>None\<close>, a map an association list whose order is the order of one \<open>range\<close> loop; statements about
  maps hold for every order.  A function that can fail or panic returns \<open>'a go\<close>.  Closures with
  state (the decoders) are functions on an explicit cursor.  Critical sections are atomic steps: an
  operation of the queue is one function, a run of a program is a sequence of steps, and a worker
  pool is an inductive relation whose steps are the parts of a worker between its locks.  Counts,
  lengths and times are unbounded integers (the values stay far from the width of the machine
  types), floating-point numbers exact rationals.

  \<^bold>\<open>Lemmas.\<close>  For each layer there is an abstract reading and a lemma that the code respects it: a
  row stands for the list of its cells (\<open>packed\<close>, \<open>row_holds\<close>, \<open>append_cell\<close>), a grid for a table of
  columns (\<open>shows_cells\<close>) with its alerts (\<open>shows_alerts\<close>), a heap for its multiset with a sorted root (\<open>queue_ok\<close>), an alert for an
  outage in the list of results, a pool for who holds which name (\<open>exclusive\<close>), a tab status for a
  scan of its columns, a paged search for the list of its pages (\<open>page_chain\<close>), a column of the
  ResultStore reader for the results of its targets (\<open>target_cells\<close>, \<open>shown_cell\<close>), a server for the
  configuration it was started on (\<open>serves\<close>), a store for the object it has at each time
  (\<open>conditional_store\<close>), an object in the cloud for its content and generation (\<open>gcs_contract\<close>), a stored
  grid for columns that were compressed into it (\<open>well_built\<close>, \<open>stored_ok\<close>), a run of updaters for the
  list of the storages they leave (\<open>grid_history\<close>).  The properties below (\<open>C1\<close> to \<open>C40\<close>) state what the programs promise over
  these readings: round trips and refinements of the encodings, invariants of all reachable states
  of the queue and of both worker pools, fairness, equivalences with reference definitions, bounds,
  and the places where the code fails (errors and panics); \<open>Further facts\<close> has more of them.

  \<^bold>\<open>Termination.\<close>  Every loop over data at hand is a total function: structural recursion on slices, or a measure
  (\<open>free_name\<close>: the taken names that are still ahead; \<open>seam_search\<close>: the width of the interval;
  the loops of the heap: the distance to the leaves or the root; \<open>shrink_loop\<close>: the columns of the
  next trial; \<open>status_loop\<close>: the results left in
  the decoders).  The loops over the pages of a server's answer, which may go on for ever, are
  partial functions into \<open>option\<close>, and they return a list exactly when the pages come to an end
  (\<open>page_chain\<close>).  The code that recurses without end on an empty test suite counts the frames of its
  stack and overflows (\<open>lb_frames\<close>), whatever their number.  No other definition takes fuel.  The loops
  of the programs that never end are step relations.

  \<^bold>\<open>Parameters.\<close>  Regular expressions, the natural order of names, the formatting of times, the
  encoding of a grid to bytes, compression, JSON and YAML, what JUnit files decode to, parsing URLs, the generated names and parsers of the ResultStore
  protocol, and the answers of storage and of the ResultStore server are arguments of the
  definitions (\<open>libs\<close>, \<open>url_lib\<close>, \<open>download_client\<close>, \<open>server\<close>, \<open>conditional_open\<close>, \<open>json_times\<close>, \<open>yaml_lib\<close>,
  \<open>file_system\<close>, \<open>map_diff\<close>, \<open>prom_vec\<close>, \<open>build_decoders\<close>), with no assumption but those in a property's
  premises.  Google Cloud Storage is \<open>gcs_lib\<close>; a property that relies on it assumes its documented
  contract \<open>gcs_contract\<close>: a read returns the current content and generation, a write succeeds only when its
  conditions hold and gives the object a generation its name never had (generations need not grow), and one
  that reports an error changes nothing; the one property about the error of a refused write assumes that
  it is a failed precondition (\<open>gcs_refuses\<close>).  The round trip of a configuration through YAML assumes that
  the package reads back what it wrote for that configuration (\<open>yaml_restores\<close>), which it does not for all.

  \<^bold>\<open>Not modelled.\<close>  Connections and credentials, and the fake clients of the tests; the decoding of
  protocol buffers, YAML, XML and JSON; goroutines and cancellation beyond the interleavings of the worker pools and
  of updates; logging; the transport of
  notifications; the parsing of flags and the wiring of the commands.
\<close>

section \<open>Sample values\<close>

text \<open>Concrete inputs at which the properties below are instantiated.\<close>

definition failed_cell :: cell where
  "failed_cell = zero_cell\<lparr>c_result := FAIL, c_icon := ''F'', c_message := ''broke'', c_metrics := [(''time'', 3 / 2)]\<rparr>"

definition one_column :: inflated_column where
  "one_column =
     \<lparr>ic_column = empty_column\<lparr>col_build := ''7'', col_started := 1000\<rparr>,
      ic_cells = [(''Overall'', zero_cell\<lparr>c_result := FAIL, c_message := ''broke''\<rparr>), (''test'', zero_cell)]\<rparr>"

definition empty_row :: row where
  "empty_row =
     \<lparr>row_name = ''test'', row_id = ''test'', row_results = [], row_cell_ids = [], row_messages = [],
      row_metric = [], row_metrics = [], row_icons = [], row_issues = [], row_alert = None,
      row_user_property = [], row_properties = []\<rparr>"

definition failed_row :: row where
  "failed_row = empty_row\<lparr>row_results := [12, 1], row_cell_ids := [[]], row_messages := [''broke''],
     row_icons := [''F''], row_user_property := [[]], row_properties := [[]]\<rparr>"

definition one_grid :: grid where
  "one_grid = \<lparr>grid_columns = [empty_column], grid_rows = [failed_row], grid_config = None\<rparr>"

lemma packed_empty_row: "packed empty_row"
  by (simp add: packed_def empty_row_def row_statuses_def filled_def)

lemma row_statuses_failed_row: "row_statuses failed_row = [FAIL]"
  by (simp add: failed_row_def empty_row_def row_statuses_def status_of_def)

lemma packed_failed_row: "packed failed_row"
  by (simp add: packed_def row_statuses_failed_row)
     (simp add: failed_row_def empty_row_def filled_def hasCellID_def has_prefix_def)

definition running_result :: gcs_result where
  "running_result =
     \<lparr>gr_pod_info = None, gr_started = empty_started, gr_finished = empty_finished, gr_suites = [],
      gr_job = ''job'', gr_build = ''7'', gr_malformed = []\<rparr>"

definition failed_result :: gcs_result where
  "failed_result = running_result\<lparr>gr_finished := empty_finished\<lparr>fd_timestamp := Some 9, fd_passed := Some False\<rparr>\<rparr>"

definition plain_names :: name_config where
  "plain_names = makeNameConfig empty_test_group"

definition plain_options :: group_options where
  "plain_options = makeOptions empty_test_group"

definition toy_marshal :: "grid \<Rightarrow> string go" where
  "toy_marshal g = Inr (map (\<lambda>r. CHR ''r'') (grid_rows g))"

definition passed_result :: junit_result where
  "passed_result =
     \<lparr>jr_name = ''test'', jr_time = 1, jr_class_name = [], jr_output = None, jr_error = None,
      jr_errored = None, jr_failure = None, jr_skipped = None, jr_properties = None\<rparr>"

definition name_rule :: eval_rule where
  "name_rule =
     \<lparr>rule_comparisons = [\<lparr>rc_comparison = Some \<lparr>cmp_op = OP_EQ, cmp_value = StringValue ''test''\<rparr>,
        rc_info = TestResultField ''name''\<rparr>], rule_computed_status = FLAKY\<rparr>"

definition idle_pod :: pod where
  "idle_pod =
     \<lparr>pod_phase = ''Running'', pod_conditions = [\<lparr>pc_type = ''PodScheduled'', pc_status = ''True'', pc_message = []\<rparr>],
      pod_init_containers = [],
      pod_containers = [\<lparr>ct_name = ''sidecar'',
        ct_state = \<lparr>cs_waiting = None, cs_running = False, cs_terminated = Some (0, [])\<rparr>\<rparr>]\<rparr>"

lemma small_update_runs:
  "\<exists>x. InflateDropAppend (<) (\<lambda>_ s. s) [] (\<lambda>_. Inr ''bytes'') (\<lambda>_. False) (\<lambda>_. False) 9999999 0
      empty_test_group None None [NewColumn one_column, ReaderDone None] = Some (Inr x)"
proof -
  have "groupColumns (<) empty_test_group (overrideBuild (\<lambda>_ s. s) [] empty_test_group [one_column]) = [one_column]"
    by (simp add: groupColumns_distinct overrideBuild_def empty_test_group_def)
  moreover have "blank_empty one_column = one_column" by (simp add: blank_empty_def one_column_def)
  moreover have "\<exists>g buf. finish_update (<) (\<lambda>_. Inr ''bytes'') (\<lambda>_. False) empty_test_group [] [one_column] = Inr (g, buf)"
    by (rule finish_update_small)
       (simp_all add: one_column_def cells_ok_def zero_cell_def empty_test_group_def byteCeiling_def)
  ultimately show ?thesis by (auto simp: InflateDropAppend_def Let_def old_columns_def)
qed

definition listed :: "string \<Rightarrow> object_attrs" where
  "listed prefix = \<lparr>oa_name = [], oa_prefix = prefix, oa_metadata = []\<rparr>"

definition listed_build :: "string \<Rightarrow> build" where
  "listed_build name = \<lparr>b_path = ''gs://b/'' @ name @ ''/'', b_base_name = name\<rparr>"

definition plain_tab :: dashboard_tab where
  "plain_tab = empty_dashboard_tab\<lparr>tab_name := ''tab''\<rparr>"

definition no_features :: feature_flags where
  "no_features = \<lparr>allow_fuzzy_flakiness = False, allow_ignored_columns = False, allow_min_number_of_runs = False\<rparr>"

lemma plain_tab_filter [simp]: "filterGrid rx (tab_base_options plain_tab) rows = Inr rows"
  by (simp add: filterGrid_def plain_tab_def empty_dashboard_tab_def ParseQuery_def str_split_def query_values_def)

lemma plain_tab_alerts [simp]: "tab_alerts useTab plain_tab empty_test_group = 0"
  by (simp add: tab_alerts_def plain_tab_def empty_dashboard_tab_def get_alert_options_def zero_alert_options_def
      empty_test_group_def)

lemma one_grid_rows [simp]: "grid_rows one_grid = [failed_row]"
  by (simp add: one_grid_def)

lemma one_grid_ok: "grid_ok one_grid"
  using packed_inflatable [OF packed_failed_row]
  by (simp add: grid_ok_def one_grid_def row_statuses_failed_row)

lemma one_grid_rows_ok: "rows_ok one_grid"
  using packed_failed_row by (simp add: rows_ok_def one_grid_def messages_ok_def packed_def Let_def)

lemma one_column_cells_ok: "cells_ok one_column"
  by (simp add: one_column_def cells_ok_def zero_cell_def)

lemma one_column_red: "\<not> green_cells one_column"
  by code_simp

definition item_at :: "int \<Rightarrow> int \<Rightarrow> item" where
  "item_at t i = \<lparr>it_when = t, it_index = i\<rparr>"

definition one_name :: "int \<Rightarrow> work_queue" where
  "one_name t = \<lparr>wq_queue = [''g''], wq_items = [(''g'', item_at t 0)]\<rparr>"

definition two_names :: "int \<Rightarrow> work_queue" where
  "two_names t = \<lparr>wq_queue = [''a'', ''b''], wq_items = [(''a'', item_at t 0), (''b'', item_at t 1)]\<rparr>"

lemma two_names_Init: "Init [''a'', ''b''] 9 empty_queue = Inr (two_names 9)"
  by code_simp

lemma two_names_reach: "queue_reach 1 (two_names 9)"
  by (rule reach_step [OF reach_empty step_Init [OF two_names_Init]])

lemma two_names_ok: "queue_ok (two_names 9)" "wq_queue (two_names 9) \<noteq> []"
  using queue_reach_ok [OF two_names_reach] by (simp_all add: two_names_def)

lemma two_names_facts:
  "wq_queue (two_names t) = [''a'', ''b'']" "names (two_names t) = {''a'', ''b''}"
  "when_of (two_names t) ''a'' = t" "when_of (two_names t) ''b'' = t"
  "{m. (m = ''a'' \<or> m = ''b'') \<and> m \<noteq> ''b'' \<and> when_of (two_names t) m \<le> t} = {''a''}"
  by (auto simp: two_names_def names_def when_of_def item_at_def)

lemma one_name_reach: "queue_reach 1 (one_name t)"
proof -
  have "Init [''g''] t empty_queue = Inr (one_name t)"
    by (simp add: Init_def add_name_def empty_queue_def queue_Push_def pq_Push_def up_loop.simps parent_def
        set_index_def one_name_def item_at_def remove_name_def)
  from reach_step [OF reach_empty step_Init [OF this]] show ?thesis .
qed

lemma one_name_ok: "queue_ok (one_name t)" and one_name_queued: "all_queued (one_name t)"
  using queue_reach_ok [OF one_name_reach] by simp_all

lemma one_name_send: "send_next 1 t (one_name t) = (Some (''g'', t), one_name (t + 1))"
proof -
  have up: "up_loop pq_Less pq_Swap s 0 = s" for s by (subst up_loop.simps) (simp add: parent_def)
  have down: "down_loop pq_Less pq_Swap s 0 (Suc 0) = (s, 0)" for s by (subst down_loop.simps) simp
  show ?thesis
    by (simp add: send_next_def one_name_def peek_def when_of_def index_of_def set_when_def item_at_def Let_def
        queue_Fix_def repair_loop_def up down)
qed

definition subscribed_group :: test_group where
  "subscribed_group = empty_test_group\<lparr>tg_name := ''g'',
     tg_result_source := Some (GcsSource \<lparr>gcsc_prefix = ''b/g'', gcsc_pubsub_project = ''p'', gcsc_pubsub_subscription = ''s''\<rparr>)\<rparr>"

definition toy_url :: "string \<Rightarrow> gcs_path go" where
  "toy_url s = Inr \<lparr>gp_bucket = ''b'', gp_url_path = drop 6 s\<rparr>"

definition junit_notice :: gcs_notice where
  "junit_notice = \<lparr>gn_path = \<lparr>gp_bucket = ''b'', gp_url_path = ''/g/7/junit_1.xml''\<rparr>, gn_time = 2\<rparr>"

lemma subscribed_group_facts:
  "gcsSubscribedPaths toy_url [] [subscribed_group] =
     Inr ([(\<lparr>gp_bucket = ''b'', gp_url_path = ''/g/''\<rparr>, [''g''])], [\<lparr>sub_proj = ''p'', sub_sub = ''s''\<rparr>])"
  "processGCSNotifications [(\<lparr>gp_bucket = ''b'', gp_url_path = ''/g/''\<rparr>, [''g''])] [(junit_notice, 5)]
     (one_name 900000000000) = Inr (one_name 300000000002)"
  "notice_delay (path_object (gn_path junit_notice)) = Some 300000000000"
  "subscribes toy_url [] subscribed_group \<lparr>gp_bucket = ''b'', gp_url_path = ''/g/''\<rparr>"
  "gp_bucket (gn_path junit_notice) = ''b''"
  "has_prefix (path_object (gn_path junit_notice)) (path_object \<lparr>gp_bucket = ''b'', gp_url_path = ''/g/''\<rparr>)"
proof -
  show "gcsSubscribedPaths toy_url [] [subscribed_group] =
     Inr ([(\<lparr>gp_bucket = ''b'', gp_url_path = ''/g/''\<rparr>, [''g''])], [\<lparr>sub_proj = ''p'', sub_sub = ''s''\<rparr>])" by code_simp
  show "processGCSNotifications [(\<lparr>gp_bucket = ''b'', gp_url_path = ''/g/''\<rparr>, [''g''])] [(junit_notice, 5)]
     (one_name 900000000000) = Inr (one_name 300000000002)" by code_simp
  show "notice_delay (path_object (gn_path junit_notice)) = Some 300000000000" by code_simp
  have "groupPaths toy_url subscribed_group = Inr [\<lparr>gp_bucket = ''b'', gp_url_path = ''/g/''\<rparr>]"
    "groupSubscription [] subscribed_group \<noteq> None" by code_simp+
  then show "subscribes toy_url [] subscribed_group \<lparr>gp_bucket = ''b'', gp_url_path = ''/g/''\<rparr>"
    by (simp add: subscribes_def)
  show "gp_bucket (gn_path junit_notice) = ''b''"
    "has_prefix (path_object (gn_path junit_notice)) (path_object \<lparr>gp_bucket = ''b'', gp_url_path = ''/g/''\<rparr>)"
    by code_simp+
qed

text \<open>Two workers that were given the same group; the first is about to update it.\<close>

definition one_worker :: "worker \<Rightarrow> pool" where
  "one_worker w = \<lparr>pl_queue = one_name 2, pl_groups = [(''g'', subscribed_group)], pl_active = [(''g'', True)],
     pl_workers = [w, Claiming ''g'']\<rparr>"

lemma busy_pool_reach: "pool_reach 1 2 (one_worker (Updating ''g''))" "(1 :: int) \<noteq> 0"
proof -
  let ?p = "\<lambda>t ws. \<lparr>pl_queue = one_name t, pl_groups = [(''g'', subscribed_group)], pl_active = [], pl_workers = ws\<rparr>"
  have name: "tg_name subscribed_group = ''g''" by (simp add: subscribed_group_def)
  have "TestGroupQueue_Init [subscribed_group] 0 \<lparr>tq_queue = empty_queue, tq_groups = []\<rparr> =
      Inr \<lparr>tq_queue = one_name 0, tq_groups = [(''g'', subscribed_group)]\<rparr>" by code_simp
  then have "pool_step 1 (start_pool 2) (?p 0 [Idle, Idle])"
    using pool_config [of "[subscribed_group]" 0 "start_pool 2" _ 1] by (simp add: start_pool_def numeral_2_eq_2)
  note 1 = pool_next [OF pool_start this]
  have "pool_step 1 (?p 0 [Idle, Idle]) (?p 1 [Claiming ''g'', Idle])"
    using pool_receive [of 0 "?p 0 [Idle, Idle]" 1 0 "''g''" 0 "one_name 1" subscribed_group True] one_name_send [of 0]
    by (simp add: receive_group_def is_active_def name)
  note 2 = pool_next [OF 1 this]
  have "pool_step 1 (?p 1 [Claiming ''g'', Idle]) (?p 2 [Claiming ''g'', Claiming ''g''])"
    using pool_receive [of 1 "?p 1 [Claiming ''g'', Idle]" 1 1 "''g''" 1 "one_name 2" subscribed_group True] one_name_send [of 1]
    by (simp add: receive_group_def is_active_def name)
  note 3 = pool_next [OF 2 this]
  have "pool_step 1 (?p 2 [Claiming ''g'', Claiming ''g'']) (one_worker (Updating ''g''))"
    using pool_claim [of 0 "?p 2 [Claiming ''g'', Claiming ''g'']" "''g''" 1]
    by (simp add: claim_group_def is_active_def one_worker_def)
  from pool_next [OF 3 this] show "pool_reach 1 2 (one_worker (Updating ''g''))" .
qed simp

text \<open>A worker that is about to put a dashboard back, which came out of the queue a second time.\<close>

definition summary_busy :: "summary_worker \<Rightarrow> string set \<Rightarrow> summary_pool" where
  "summary_busy w act = \<lparr>sp_queue = one_name 2, sp_active = act, sp_waiting = {}, sp_workers = [w, Free]\<rparr>"

definition failed_update :: "dashboard_tab \<Rightarrow> test_group \<Rightarrow> tab_summary go" where
  "failed_update tab tg = Inl (Failed ''no state'')"

definition one_dashboard :: dashboard where
  "one_dashboard = empty_dashboard\<lparr>dash_name := ''d'', dash_tabs := [plain_tab]\<rparr>"

lemma one_tab_dashboard:
  "updateDashboard one_dashboard [] (\<lambda>_. Inr (Some (''p'', empty_test_group))) (\<lambda>_. None) failed_update None =
     Inr ([Some (outcome ''d'' failed_update plain_tab empty_test_group)], False)"
  by code_simp

text \<open>Two tabs that share a state; the second has a summary of it.\<close>

definition shared_dashboard :: dashboard where
  "shared_dashboard = empty_dashboard\<lparr>dash_name := ''d'', dash_tabs := [plain_tab, plain_tab\<lparr>tab_name := ''u''\<rparr>]\<rparr>"

definition kept_summary :: tab_summary where
  "kept_summary = (tabStatus ''d'' ''u'' [])\<lparr>dts_last_update_timestamp := 5\<rparr>"

lemma shared_dashboard_runs:
  "\<exists>s todo. updateDashboard shared_dashboard [kept_summary] (\<lambda>_. Inr (Some (''p'', empty_test_group))) (\<lambda>_. Some 5)
     failed_update None = Inr (s, todo)"
proof -
  have "case updateDashboard shared_dashboard [kept_summary] (\<lambda>_. Inr (Some (''p'', empty_test_group))) (\<lambda>_. Some 5)
     failed_update None of Inl e \<Rightarrow> False | Inr r \<Rightarrow> True"
    by code_simp
  then show ?thesis by (auto split: sum.splits)
qed

lemma summary_busy_reach: "summary_reach 1 2 (summary_busy (Restarting ''g'') {})" "(1 :: int) \<noteq> 0"
proof -
  let ?p = "\<lambda>t act wait ws. \<lparr>sp_queue = one_name t, sp_active = act, sp_waiting = wait, sp_workers = ws\<rparr>"
  have "Init [''g''] 0 empty_queue = Inr (one_name 0)" by code_simp
  then have "summary_step 1 Internal (start_summary_pool 2) (?p 0 {} {} [Free, Free])"
    using sum_queue [of 1 "start_summary_pool 2" "one_name 0"]
    by (simp add: start_summary_pool_def step_Init numeral_2_eq_2)
  note 1 = summary_next [OF summary_start this]
  have "summary_step 1 (Taken ''g'') (?p 0 {} {} [Free, Free]) (?p 1 {''g''} {} [Summarizing ''g'', Free])"
    using sum_take [of 0 "?p 0 {} {} [Free, Free]" 1 0 "''g''" 0 "one_name 1"] one_name_send [of 0]
    by (simp add: take_dashboard_def)
  note 2 = summary_next [OF 1 this]
  have "summary_step 1 (Taken ''g'') (?p 1 {''g''} {} [Summarizing ''g'', Free])
      (?p 2 {''g''} {''g''} [Summarizing ''g'', Free])"
    using sum_take [of 1 "?p 1 {''g''} {} [Summarizing ''g'', Free]" 1 1 "''g''" 1 "one_name 2"] one_name_send [of 1]
    by (simp add: take_dashboard_def)
  note 3 = summary_next [OF 2 this]
  have "summary_step 1 Internal (?p 2 {''g''} {''g''} [Summarizing ''g'', Free]) (?p 2 {''g''} {''g''} [Ending ''g'', Free])"
    using sum_done [of 0 "?p 2 {''g''} {''g''} [Summarizing ''g'', Free]" "''g''" 1 5 "SummaryMore False"]
    by (simp add: summarized_def)
  note 4 = summary_next [OF 3 this]
  have "summary_step 1 Internal (?p 2 {''g''} {''g''} [Ending ''g'', Free]) (summary_busy (Restarting ''g'') {})"
    using sum_leave [of 0 "?p 2 {''g''} {''g''} [Ending ''g'', Free]" "''g''" 1]
    by (simp add: leave_dashboard_def summary_busy_def)
  from summary_next [OF 4 this] show "summary_reach 1 2 (summary_busy (Restarting ''g'') {})" .
qed simp

text \<open>A ResultStore invocation with one target that passed, and a library for the reader.\<close>

definition plain_libs :: libs where
  "plain_libs =
     \<lparr>lb_regexp = \<lambda>_. None, lb_regexp_error = \<lambda>_. [], lb_parse_float = \<lambda>_. None, lb_show_float = \<lambda>_. [],
      lb_format_time = \<lambda>_ _. [], lb_strftime = [], lb_marshal_time = \<lambda>_. None, lb_unmarshal_time = \<lambda>_. None,
      lb_frames = 2, lb_range_targets = \<lambda>m. m, lb_range_cells = \<lambda>m. m, lb_range_groups = \<lambda>m. m\<rparr>"

lemma plain_libs_ok: "libs_ok plain_libs"
  by (simp add: libs_ok_def plain_libs_def)

definition raw_passed :: fetch_result where
  "raw_passed =
     \<lparr>fr_invocation = Some \<lparr>in_id = ''inv'', in_timing = Some \<lparr>tm_start = Some \<lparr>ts_seconds = 100, ts_nanos = 5000000\<rparr>,
          tm_duration = None\<rparr>, in_properties = [], in_labels = []\<rparr>,
      fr_actions = [], fr_configured_targets = [\<lparr>ct_id = ''t'', ct_invocation = ''inv'', ct_status = RS_PASSED\<rparr>],
      fr_targets = [\<lparr>ta_id = ''t'', ta_timing = None, ta_tags = []\<rparr>]\<rparr>"

definition raw_empty_suite :: fetch_result where
  "raw_empty_suite = raw_passed\<lparr>fr_actions := [\<lparr>ac_id = ''t'', ac_suite = Some (TestSuite ''s'' [] None [])\<rparr>]\<rparr>"

definition passed_columns :: "inflated_column list" where
  "passed_columns = (case read_columns plain_libs empty_test_group [raw_passed] of Inr cols \<Rightarrow> cols | Inl _ \<Rightarrow> [])"

lemma passed_columns_read: "read_columns plain_libs empty_test_group [raw_passed] = Inr passed_columns"
  "map (\<lambda>c. col_name (ic_column c)) passed_columns = [''inv'']"
  by code_simp+

text \<open>A server of one small configuration, one grid and one summary.\<close>

definition plain_urls :: url_lib where
  "plain_urls =
     \<lparr>ul_parse = \<lambda>v. Inr \<lparr>u_scheme = ''gs'', u_opaque = [], u_user = None, u_host = ''b'', u_path = v,
        u_raw_query = [], u_fragment = []\<rparr>,
      ul_resolve = \<lambda>base ref. ref\<lparr>u_host := u_host base\<rparr>, ul_string = u_path\<rparr>"

definition sample_config :: configuration where
  "sample_config = mini_config ''unit-tests'' ''first-board''"

definition sample_server :: "grid \<Rightarrow> dashboard_summary \<Rightarrow> server" where
  "sample_server g summ =
     \<lparr>srv_default_bucket = ''gs://b'', srv_tab_prefix = ''tabs'', srv_summary_prefix = ''summaries'',
      srv_allow_origin = [], srv_cache = None, srv_urls = plain_urls,
      srv_open_config = \<lambda>_ _ _ _. Inr (''config'', Some 1), srv_unmarshal = \<lambda>_. Inr sample_config,
      srv_map_order = \<lambda>s. s, srv_open = \<lambda>_. Inr (Some (Inr ''bytes'')), srv_zlib = \<lambda>c. Inr c,
      srv_grid = \<lambda>_. Inr g, srv_summary = \<lambda>_. Inr summ\<rparr>"

lemma sample_config_valid: "Validate (\<lambda>_. Some (\<lambda>_. True)) (\<lambda>_. Some []) (Some sample_config) = []"
proof -
  have "validateName ''unit-tests'' = None" "validateName ''first-board'' = None" by code_simp+
  then show ?thesis unfolding sample_config_def by (rule mini_config_valid) simp
qed

lemma sample_serves: "serves (sample_server g summ) [] sample_config (mapped_config sample_config (Some 1))"
proof -
  have "names_ok sample_config" "references_ok sample_config"
    using sample_config_valid by (simp_all add: Validate_iff)
  moreover have "fst (getConfig (sample_server g summ) []) = Inr (new_cache (mapped_config sample_config (Some 1)))"
    by (simp add: getConfig_def configPath_def sample_server_def NewPath_def plain_urls_def SetURL_def has_prefix_def wrap_error_def
        observed_cache_def Observe_def updateHash_def fetchConfig_def fetchConfigOnce_def)
  ultimately show ?thesis
    by (simp add: serves_def snapshot_of_def mapped_config_def)
qed

lemma sample_grid: "Grid (sample_server g summ) [] d t = Inr (Some g)"
  by (simp add: Grid_def configPath_def sample_server_def NewPath_def plain_urls_def SetURL_def has_prefix_def wrap_error_def
      TabStatePath_def ResolveReference_def Bucket_def Let_def DownloadGrid_def)

lemma sample_summary: "stored_summary (sample_server g summ) [] d summ"
  by (auto simp: stored_summary_def configPath_def sample_server_def NewPath_def plain_urls_def SetURL_def has_prefix_def wrap_error_def
      SummaryPath_def ResolveReference_def Bucket_def Let_def ReadSummary_def)

definition sample_board :: dashboard where
  "sample_board = hd (cfg_dashboards sample_config)"

lemma sample_board_facts:
  "sample_board \<in> set (cfg_dashboards sample_config)" "dash_name sample_board = ''first-board''"
  "hd (dash_tabs sample_board) \<in> set (dash_tabs sample_board)" "tab_name (hd (dash_tabs sample_board)) = ''tests''"
  by (simp_all add: sample_board_def sample_config_def mini_config_def empty_dashboard_def)

lemma sample_names: "Normalize ''first-board'' = Normalize ''First Board''" "Normalize ''tests'' = Normalize ''TESTS''"
  by code_simp+

definition sample_list :: merge_list where
  "sample_list =
     \<lparr>ml_target = ''t'', ml_path = Some \<lparr>u_scheme = ''gs'', u_opaque = [], u_user = None, u_host = ''b'', u_path = ''/t'',
        u_raw_query = [], u_fragment = []\<rparr>,
      ml_sources = [\<lparr>src_name = ''a'', src_location = ''a'', src_path = Some \<lparr>u_scheme = ''gs'', u_opaque = [],
        u_user = None, u_host = ''b'', u_path = ''/a'', u_raw_query = [], u_fragment = []\<rparr>, src_contact = []\<rparr>]\<rparr>"

lemma sample_list_ok: "merge_list_ok sample_list"
  by (simp add: merge_list_ok_def sample_list_def path_valid_def has_prefix_def)

definition one_invocation_client :: "fetch_result \<Rightarrow> download_client" where
  "one_invocation_client r =
     \<lparr>dc_search_invocations = \<lambda>_ _ _. Inr ([the (fr_invocation r)], []), dc_search_targets = \<lambda>_ _ _. Inr ([], []),
      dc_export = \<lambda>_ _. Inr \<lparr>ex_invocation = fr_invocation r, ex_actions = fr_actions r,
        ex_configured_targets = fr_configured_targets r, ex_targets = fr_targets r, ex_next = []\<rparr>\<rparr>"

definition searched_group :: test_group where
  "searched_group = empty_test_group\<lparr>tg_result_source := Some (ResultstoreSource \<lparr>rsc_project = ''p'', rsc_query = []\<rparr>)\<rparr>"

text \<open>An object whose generation grows by one at every tick, read at the first attempt.\<close>

definition growing_store :: conditional_open where
  "growing_store g t k = (if g = int t + 1 then Inl (Failed ''unchanged'') else Inr ([], Some (int t + 1)))"

definition config_call_at :: "int \<Rightarrow> config_call" where
  "config_call_at t = \<lparr>rc_path = ''p'', rc_now = t, rc_later = t, rc_open = Inr (''bytes'', None)\<rparr>"
text \<open>A cloud storage that keeps its promises: contents and number of writes, by bucket and name.\<close>

type_synonym toy_objects = "string \<times> string \<Rightarrow> (string \<times> nat) option"

definition toy_object :: "toy_objects \<Rightarrow> string \<times> string \<Rightarrow> (string \<times> int) option" where
  "toy_object s k = map_option (map_prod id (\<lambda>n. int (Suc n))) (s k)"

definition toy_attrs :: "string \<times> string \<Rightarrow> string \<times> int \<Rightarrow> obj_attrs" where
  "toy_attrs k ob = \<lparr>ob_bucket = fst k, ob_name = snd k, ob_size = int (length (fst ob)), ob_updated = 0, ob_generation = snd ob\<rparr>"

definition toy_put :: "toy_objects \<Rightarrow> string \<times> string \<Rightarrow> string \<Rightarrow> obj_attrs answer \<times> toy_objects" where
  "toy_put s k buf =
     (let n = (case s k of None \<Rightarrow> 0 | Some (_, n) \<Rightarrow> Suc n)
      in (Inr (toy_attrs k (buf, int (Suc n))), s(k := Some (buf, n))))"

definition toy_cloud :: "toy_objects gcs_lib" where
  "toy_cloud =
     \<lparr>gl_attrs = \<lambda>s c b n. case toy_object s (b, n) of None \<Rightarrow> Inl ErrObjectNotExist | Some x \<Rightarrow> Inr (toy_attrs (b, n) x),
      gl_read = \<lambda>s c b n. case toy_object s (b, n) of None \<Rightarrow> Inl ErrObjectNotExist
        | Some x \<Rightarrow> Inr (fst x, toy_attrs (b, n) x),
      gl_write = \<lambda>s c b n buf. if cond_holds c (toy_object s (b, n)) then toy_put s (b, n) buf else (Inl PreconditionFailed, s),
      gl_copy = \<lambda>s rc from wc to.
        if cond_holds rc (toy_object s from) \<and> cond_holds wc (toy_object s to)
        then (case s from of None \<Rightarrow> (Inl ErrObjectNotExist, s) | Some (buf, _) \<Rightarrow> toy_put s to buf)
        else (Inl PreconditionFailed, s)\<rparr>"

text \<open>Its generations count the writes.\<close>

definition toy_used :: "toy_objects \<Rightarrow> string \<times> string \<Rightarrow> int set" where
  "toy_used s k = {0..generation_of (toy_object s k)}"

lemma toy_put_written:
  "\<exists>a. fst (toy_put s k buf) = Inr a \<and> written (toy_object s) k buf a (toy_object (snd (toy_put s k buf))) \<and>
    ob_generation a \<notin> toy_used s k \<and> (\<forall>j. toy_used s j \<subseteq> toy_used (snd (toy_put s k buf)) j)"
  by (auto simp: toy_put_def Let_def written_def toy_object_def toy_attrs_def toy_used_def generation_of_def fun_eq_iff
      simp del: split_paired_All split: option.split)

lemma toy_known: "uses_known toy_object toy_used"
  by (auto simp: uses_known_def toy_used_def toy_object_def generation_of_def split: option.split)

lemma toy_contract: "gcs_contract toy_cloud toy_object"
proof -
  have "gcs_reads toy_cloud toy_object"
    by (auto simp: gcs_reads_def toy_cloud_def toy_object_def toy_attrs_def split: option.split)
  moreover have "gcs_uses toy_cloud toy_object toy_used" unfolding gcs_uses_def
  proof (intro conjI allI toy_known)
    fix s c b n buf
    show "case gl_write toy_cloud s c b n buf of (r, s') \<Rightarrow>
        (\<forall>k. toy_used s k \<subseteq> toy_used s' k) \<and>
        (case r of
           Inl e \<Rightarrow> toy_object s' = toy_object s
         | Inr a \<Rightarrow> cond_holds c (toy_object s (b, n)) \<and> written (toy_object s) (b, n) buf a (toy_object s') \<and>
             ob_generation a \<notin> toy_used s (b, n))"
      using toy_put_written [of s "(b, n)" buf]
      by (cases "toy_put s (b, n) buf") (auto simp: toy_cloud_def simp del: split_paired_All)
  next
    fix s rc wc and "from" to :: "string \<times> string"
    show "case gl_copy toy_cloud s rc from wc to of (r, s') \<Rightarrow>
        (\<forall>k. toy_used s k \<subseteq> toy_used s' k) \<and>
        (case r of
           Inl e \<Rightarrow> toy_object s' = toy_object s
         | Inr a \<Rightarrow> cond_holds rc (toy_object s from) \<and> cond_holds wc (toy_object s to) \<and>
             (\<exists>buf g. toy_object s from = Some (buf, g) \<and> written (toy_object s) to buf a (toy_object s')) \<and>
             ob_generation a \<notin> toy_used s to)"
    proof (cases "s from")
      case (Some x)
      then show ?thesis using toy_put_written [of s to "fst x"]
        by (cases x; cases "toy_put s to (fst x)") (auto simp: toy_cloud_def toy_object_def simp del: split_paired_All)
    qed (simp add: toy_cloud_def)
  qed
  ultimately show ?thesis by (auto simp: gcs_contract_def gcs_writes_def)
qed

lemma toy_refuses: "gcs_refuses toy_cloud toy_object"
  by (simp add: gcs_refuses_def toy_cloud_def)

definition toy_world :: "toy_objects world" where
  "toy_world = \<lparr>wd_disk = \<lparr>dk_files = [(''/grid'', ''old'', 5)], dk_refused = \<lambda>_. False, dk_now = 7\<rparr>, wd_cloud = Map.empty\<rparr>"

definition cloud_path :: "string \<Rightarrow> url" where
  "cloud_path name =
     \<lparr>u_scheme = ''gs'', u_opaque = [], u_user = None, u_host = ''b'', u_path = CHR ''/'' # name, u_raw_query = [], u_fragment = []\<rparr>"

definition local_path :: "string \<Rightarrow> url" where
  "local_path name = (cloud_path name)\<lparr>u_scheme := [], u_host := []\<rparr>"

text \<open>The times of the queue of one name, as JSON; files whose contents are their names, as YAML.\<close>

definition toy_json :: json_times where
  "toy_json =
     \<lparr>jt_encode = \<lambda>m. if m = [(''g'', 5)] then Inr ''five'' else Inl (Failed ''unknown''),
      jt_decode = \<lambda>b. if b = ''five'' then Inr [(''g'', 5)] else Inl (Failed ''unknown'')\<rparr>"

lemma toy_json_ok: "json_ok toy_json"
  by (simp add: json_ok_def toy_json_def)

definition toy_files :: file_system where
  "toy_files = \<lparr>fs_stat = \<lambda>_. Some FileNode, fs_read = \<lambda>p. Inr p\<rparr>"

definition toy_defaults :: default_configuration where
  "toy_defaults = \<lparr>dc_test_group = Some empty_test_group, dc_dashboard_tab = Some empty_dashboard_tab\<rparr>"

definition toy_yaml :: yaml_lib where
  "toy_yaml =
     \<lparr>yl_config = \<lambda>_ b. Inr (if b = ''written.yaml'' then with_defaults toy_defaults sample_config else sample_config),
      yl_defaults = \<lambda>_. Inr toy_defaults,
      yl_marshal = \<lambda>c. if c = with_defaults toy_defaults sample_config then Inr ''written.yaml'' else Inl (Failed ''unknown'')\<rparr>"

lemma toy_yaml_restores: "yaml_restores toy_yaml strict (with_defaults toy_defaults sample_config)"
  by (simp add: yaml_restores_def toy_yaml_def)

lemma toy_files_facts:
  "yaml_files toy_files [''c.yaml''] = [''c.yaml'']" "\<not> is_default ''c.yaml''" "is_yaml ''written.yaml''"
  "\<not> is_default ''written.yaml''" "read_default toy_files toy_yaml ''d.yaml'' = Inr toy_defaults"
  "read_default toy_files toy_yaml ''default.yaml'' = Inr toy_defaults"
proof -
  have "is_yaml ''c.yaml''" by code_simp
  then show "yaml_files toy_files [''c.yaml''] = [''c.yaml'']" by (simp add: yaml_files_def toy_files_def)
  show "\<not> is_default ''c.yaml''" "is_yaml ''written.yaml''" "\<not> is_default ''written.yaml''" by code_simp+
  show "read_default toy_files toy_yaml ''d.yaml'' = Inr toy_defaults"
    "read_default toy_files toy_yaml ''default.yaml'' = Inr toy_defaults"
    by (simp_all add: read_default_def toy_files_def toy_yaml_def wrap_error_def LoadDefaults_def toy_defaults_def)
qed

lemma sample_defaulted_valid: "Validate (\<lambda>_. Some (\<lambda>_. True)) (\<lambda>_. Some []) (Some (with_defaults toy_defaults sample_config)) = []"
proof -
  have v: "validateName ''unit-tests'' = None" "validateName ''first-board'' = None" "validateName ''tests'' = None"
    by code_simp+
  have "validateTestGroup (\<lambda>_. Some (\<lambda>_. True)) (Some (reconciled_group empty_test_group
      (empty_test_group\<lparr>tg_name := ''unit-tests'', tg_gcs_prefix := ''bucket'',
      tg_days_of_results := 1, tg_num_columns_recent := 1\<rparr>))) = []"
    by (simp add: validateTestGroup_def format_mismatch_def group_errors_def empty_test_group_def reconciled_group_def
        validateResultStoreSource_def validateGCSSource_def get_resultstore_config_def get_gcs_config_def
        name_config_errors_def)
  then show ?thesis using v
    by (simp add: Validate_iff sample_config_def mini_config_def names_ok_def references_ok_def entities_ok_def tab_groups_def
        with_defaults_def reconciled_def reconciled_dashboard_def toy_defaults_def)
      (simp add: reconciled_tab_def reconciled_group_def
        validateDashboardTab_def empty_dashboard_tab_def tabular_errors_def get_alert_options_def
        get_status_options_def zero_alert_options_def zero_status_options_def Let_def)
qed

text \<open>The message about the object of \<open>junit_notice\<close>.\<close>

definition junit_message :: message where
  "junit_message =
     \<lparr>ms_id = ''1'', ms_attributes = [(''bucketId'', ''b''), (''objectId'', ''g/7/junit_1.xml''),
        (''eventTime'', ''2''), (''eventType'', ''OBJECT_FINALIZE''), (''objectGeneration'', ''3'')]\<rparr>"

definition notice_urls :: url_lib where
  "notice_urls = plain_urls\<lparr>ul_parse := \<lambda>v. Inr (cloud_path (drop 7 v))\<rparr>"

definition junit_read :: notice where
  "junit_read = \<lparr>no_path = cloud_path ''g/7/junit_1.xml'', no_event = ''OBJECT_FINALIZE'', no_time = 2, no_generation = 3\<rparr>"

lemma junit_message_read:
  "notice_of notice_urls ParseInt64 junit_message = Inr junit_read" "updater_notice junit_read = junit_notice"
  by code_simp+

text \<open>A tabulator pass over the group of the small configuration.\<close>

definition pass_group :: test_group where
  "pass_group = hd (cfg_test_groups sample_config)"

definition pass_tab :: dashboard_tab where
  "pass_tab = hd (dash_tabs sample_board)"

definition pass_source :: grid where
  "pass_source = (case constructGridFromGroupConfig (<) pass_group [one_column] [] of Inr g \<Rightarrow> g | Inl _ \<Rightarrow> one_grid)"

definition pass_grid :: grid where
  "pass_grid = (case tabulate (<) (\<lambda>_. None) (\<lambda>_. False) 5 (Some pass_source) (Some pass_tab) (Some pass_group) False False None of
     Inr g \<Rightarrow> g | Inl _ \<Rightarrow> one_grid)"

definition pass_marshal :: "grid \<Rightarrow> string go" where
  "pass_marshal g = (if g = pass_source then Inr ''grid'' else if g = pass_grid then Inr ''tab'' else Inl (Failed ''unknown''))"

definition pass_server :: server where
  "pass_server = (sample_server one_grid \<lparr>ds_tab_summaries = []\<rparr>)
     \<lparr>srv_grid := \<lambda>b. if b = ''tab'' then Inr pass_grid else Inr pass_source\<rparr>"

definition pass_world :: "toy_objects world" where
  "pass_world = toy_world\<lparr>wd_cloud := [(''b'', ''grid/unit-tests'') \<mapsto> (''grid'', 0)]\<rparr>"

definition pass_config :: url where
  "pass_config = \<lparr>u_scheme = ''gs'', u_opaque = [], u_user = None, u_host = ''b'', u_path = ''gs://b/config'',
     u_raw_query = [], u_fragment = []\<rparr>"

lemma pass_tab_filter: "filterGrid rx (tab_base_options pass_tab) rows = Inr rows"
  "0 \<le> tab_alerts useTab pass_tab pass_group"
proof -
  have "tab_base_options pass_tab = []" "tab_alert_options pass_tab = None" "tg_num_failures_to_alert pass_group = 0"
    by code_simp+
  then show "filterGrid rx (tab_base_options pass_tab) rows = Inr rows" "0 \<le> tab_alerts useTab pass_tab pass_group"
    by (simp_all add: filterGrid_def ParseQuery_def query_values_def str_split_def tab_alerts_def zero_alert_options_def get_alert_options_def)
qed

lemma pass_group_alerts: "tg_num_failures_to_alert pass_group = 0" "tg_build_override_strftime pass_group = []"
  by code_simp+

lemma pass_source_made: "constructGridFromGroupConfig (<) pass_group [one_column] [] = Inr pass_source"
proof -
  have "\<exists>g. constructGridFromGroupConfig (<) pass_group [one_column] [] = Inr g"
    using ConstructGrid_shows [of "[one_column]"] one_column_cells_ok
    unfolding constructGridFromGroupConfig_def by (metis list.set(1,2) insertE empty_iff order.refl pass_group_alerts(1))
  then show ?thesis by (auto simp: pass_source_def)
qed

lemma pass_source_ok: "grid_ok pass_source"
  by (rule well_built_ok [OF constructed_well [OF _ _ pass_source_made]]) (simp_all add: one_column_cells_ok pass_group_alerts)

lemma pass_grid_made:
  "tabulate (<) (\<lambda>_. None) (\<lambda>_. False) 5 (Some pass_source) (Some pass_tab) (Some pass_group) False False None = Inr pass_grid"
proof -
  have "\<exists>g'. tabulate (<) (\<lambda>_. None) (\<lambda>_. False) 5 (Some pass_source) (Some pass_tab) (Some pass_group) False False None = Inr g'"
    using tabulate_shows [OF pass_source_ok _ pass_tab_filter refl, where nl = "(<)" and cancelled = "\<lambda>_. False"
        and now = 5 and rx = "\<lambda>_. None" and useTab = False and calculateStats = False] by blast
  then show ?thesis by (auto simp: pass_grid_def)
qed

lemma pass_decodes: "decodes pass_server pass_marshal"
  by (auto simp: decodes_def pass_marshal_def pass_server_def sample_server_def)

lemma plain_urls_apart: "resolves_apart plain_urls pass_config ''tabs''"
proof -
  have "joined_prefix ''tabs'' = ''tabs/''" by code_simp
  then show ?thesis
    by (auto simp: resolves_apart_def plain_urls_def client_place_def is_cloud_def Object_def Bucket_def)
qed

lemma pass_serves: "serves pass_server [] sample_config (mapped_config sample_config (Some 1))"
  "configPath pass_server [] = Inr (pass_config, True)"
proof -
  have "fst (getConfig pass_server []) = fst (getConfig (sample_server one_grid \<lparr>ds_tab_summaries = []\<rparr>) [])"
    by (simp add: getConfig_def configPath_def pass_server_def sample_server_def NewPath_def plain_urls_def SetURL_def has_prefix_def
        wrap_error_def observed_cache_def Observe_def updateHash_def fetchConfig_def fetchConfigOnce_def)
  then show "serves pass_server [] sample_config (mapped_config sample_config (Some 1))"
    using sample_serves by (simp add: serves_def)
  show "configPath pass_server [] = Inr (pass_config, True)" by (simp add: configPath_def pass_server_def sample_server_def
    NewPath_def plain_urls_def SetURL_def has_prefix_def wrap_error_def configFileName_def pass_config_def)
qed

lemma pass_facts:
  "map_get ''unit-tests'' (mapTasks (sn_groups (mapped_config sample_config (Some 1))) (sn_dashboards (mapped_config sample_config (Some 1)))) =
     [\<lparr>wt_dashboard = sample_board, wt_tab = pass_tab, wt_group = Some pass_group\<rparr>]"
  "TestGroupPath plain_urls pass_config ''/grid'' ''unit-tests'' = Inr (cloud_path ''grid/unit-tests'')"
  "TabStatePath plain_urls pass_config ''tabs'' ''first-board'' ''tests'' = Inr ((cloud_path [])\<lparr>u_path := ''tabs/first-board/tests''\<rparr>)"
  "tg_name pass_group = ''unit-tests''" "tab_test_group_name pass_tab = ''unit-tests''" "tab_name pass_tab = ''tests''"
  "dash_name sample_board = ''first-board''" "dash_tabs sample_board = [pass_tab]" "cfg_dashboards sample_config = [sample_board]"
  "cfg_test_groups sample_config = [pass_group]"
  by code_simp+

lemma pass_names:
  "plain_part ''first-board'' \<and> name_chars ''first-board'' \<and> plain_part ''tests'' \<and> name_chars ''tests''"
  by code_simp

lemma toy_upload: "u_scheme p = ''gs'' \<Longrightarrow> \<exists>a w'. client_Upload ul toy_cloud NewClient w p buf = (Inr a, w')"
  by (simp add: client_Upload_def is_cloud_def toy_cloud_def toy_put_def cond_holds_def NewClient_def on_cloud_def Let_def)

lemma pass_server_simps: "srv_urls pass_server = plain_urls" "srv_tab_prefix pass_server = ''tabs''"
  by (simp_all add: pass_server_def sample_server_def)

lemma pass_down: "DownloadGrid (server_on toy_cloud pass_world pass_server) (cloud_path ''grid/unit-tests'') = Inr (Some pass_source)"
  by (simp add: DownloadGrid_def server_on_def client_Open_def is_cloud_def cloud_path_def real_Open_def toy_cloud_def
      toy_object_def pass_world_def toy_world_def Bucket_def Object_def NewClient_def pass_server_def sample_server_def wrap_error_def)

definition pass_tasks :: "(string, write_task list) gomap" where
  "pass_tasks = mapTasks (sn_groups (mapped_config sample_config (Some 1))) (sn_dashboards (mapped_config sample_config (Some 1)))"

lemma pass_tabulated:
  "\<exists>w'. tabulate_group (\<lambda>task data. createTabState pass_server toy_cloud pass_marshal (<) (\<lambda>_. None) (\<lambda>_. False) 5
        task data pass_config ''tabs'' True False False False)
      (\<lambda>w. read_group pass_server toy_cloud pass_tasks pass_config ''/grid'' w (Some pass_group)) pass_world = (Inr [Inr ()], w')"
proof -
  note f = pass_facts
  have read: "read_group pass_server toy_cloud pass_tasks pass_config ''/grid'' pass_world (Some pass_group) =
      Inr [(\<lparr>wt_dashboard = sample_board, wt_tab = pass_tab, wt_group = Some pass_group\<rparr>, pass_source)]"
    unfolding read_group_def by (simp add: f(1,2,4) [folded pass_tasks_def] pass_server_simps pass_down wrap_error_def map_filter_simps)
  obtain buf where m: "pass_marshal pass_grid = Inr buf" by (cases "pass_grid = pass_source") (simp_all add: pass_marshal_def)
  let ?p = "(cloud_path [])\<lparr>u_path := ''tabs/first-board/tests''\<rparr>"
  obtain a w' where up: "client_Upload plain_urls toy_cloud NewClient pass_world ?p buf = (Inr a, w')"
    using toy_upload [of ?p plain_urls pass_world buf] by (auto simp: cloud_path_def)
  show ?thesis unfolding tabulate_group_def read
    by (simp add: createTabState_def pass_server_simps f(3,6,7) pass_grid_made wrap_error_def m up del: url.update_convs)
qed

lemma pass_plain: "\<forall>d \<in> set (cfg_dashboards sample_config). \<forall>t \<in> set (dash_tabs d).
    plain_part (dash_name d) \<and> name_chars (dash_name d) \<and> plain_part (tab_name t) \<and> name_chars (tab_name t)"
  using pass_names by (simp add: pass_facts del: name_chars.simps)

lemma pass_board:
  "sample_board \<in> set (cfg_dashboards sample_config)" "Normalize (dash_name sample_board) = Normalize ''First Board''"
  "pass_tab \<in> set (dash_tabs sample_board)" "Normalize (tab_name pass_tab) = Normalize ''TESTS''"
  "tab_test_group_name pass_tab = tg_name pass_group" "pass_group \<in> set (cfg_test_groups sample_config)"
  using sample_names by (simp_all add: pass_facts)

text \<open>The update that stores the grid of that pass.\<close>

lemma pass_update:
  "update_grid pass_server toy_cloud pass_marshal (\<lambda>_. empty_grid) (<) (\<lambda>_ s. s) [] (\<lambda>_. False) (\<lambda>_. False) 9999999 0 True
     pass_group (cloud_path ''grid/unit-tests'') [NewColumn one_column, ReaderDone None] toy_world toy_world = Some (Inr False, pass_world)"
proof -
  let ?p = "cloud_path ''grid/unit-tests''"
  have old: "old_grid pass_server toy_cloud (\<lambda>_. empty_grid) toy_world ?p = (Some empty_grid, None)"
    by (simp add: old_grid_def client_Open_def is_cloud_def cloud_path_def real_Open_def toy_cloud_def toy_object_def toy_world_def)
  have "groupColumns (<) pass_group (overrideBuild (\<lambda>_ s. s) [] pass_group [one_column]) = [one_column]"
    by (simp add: groupColumns_distinct overrideBuild_def pass_group_alerts)
  moreover have "blank_empty one_column = one_column" by (simp add: blank_empty_def one_column_def)
  moreover have "old_columns (\<lambda>_. False) 9999999 stop 0 pass_group (Some empty_grid) = Inr ([], [])" for stop
    by (simp add: old_columns_def InflateGrid_kept grid_ok_def empty_grid_def grid_issues_def reprocessColumn_def truncateRunning_spec
        SortStarted_def slice_stable_def)
  moreover have "finish_update (<) pass_marshal (\<lambda>_. False) pass_group [] [one_column] =
      Inr (pass_source\<lparr>grid_config := Some pass_group\<rparr>, ''grid'')"
  proof -
    have "truncateGrid (SortStarted [one_column]) byteCeiling = [one_column]"
      by (simp add: SortStarted_def slice_stable_def truncateGrid_def Let_def)
    then show ?thesis
      by (simp add: finish_update_def shrinkGridInline_def pass_source_made pass_marshal_def byteCeiling_def)
  qed
  ultimately have ida: "InflateDropAppend (<) (\<lambda>_ s. s) [] pass_marshal (\<lambda>_. False) (\<lambda>_. False) 9999999 0 pass_group (Some empty_grid) None
      [NewColumn one_column, ReaderDone None] = Some (Inr (pass_source\<lparr>grid_config := Some pass_group\<rparr>, ''grid'', False))"
    by (simp add: InflateDropAppend_def Let_def)
  have "\<exists>a. client_Upload plain_urls toy_cloud (update_client None) toy_world ?p ''grid'' = (Inr a, pass_world)"
    by (simp add: client_Upload_def is_cloud_def cloud_path_def toy_cloud_def toy_put_def on_cloud_def Let_def update_client_def
        client_If_def update_condition_def cond_holds_def no_conditions_def toy_object_def toy_world_def pass_world_def Bucket_def Object_def)
  then show ?thesis by (auto simp: update_grid_def old ida pass_server_simps)
qed

lemma pass_absent: "stored_ok pass_server toy_cloud toy_world (cloud_path ''grid/unit-tests'')"
  by (simp add: stored_ok_def DownloadGrid_def server_on_def client_Open_def is_cloud_def cloud_path_def real_Open_def toy_cloud_def
      toy_object_def toy_world_def wrap_error_def grid_ok_def empty_grid_def)

lemma pass_step: "step_ok pass_group (\<lambda>_. False) [NewColumn one_column, ReaderDone None]"
  by (simp add: step_ok_def pass_group_alerts one_column_cells_ok)

text \<open>The dashboard of that configuration, once its tab is stored.\<close>

definition board_update :: "dashboard_tab \<Rightarrow> test_group \<Rightarrow> tab_summary go" where
  "board_update tab tg = updateTab (\<lambda>_. []) 5 no_features (Inr (pass_grid, None)) tab tg"

definition board_summary :: dashboard_summary where
  "board_summary = \<lparr>ds_tab_summaries = [outcome ''first-board'' board_update pass_tab pass_group]\<rparr>"

definition board_marshal :: "dashboard_summary \<Rightarrow> string go" where
  "board_marshal x = (if x = board_summary then Inr ''summary'' else Inl (Failed ''unknown''))"

definition board_server :: server where
  "board_server = pass_server\<lparr>srv_summary := \<lambda>_. Inr board_summary\<rparr>"

definition board_world :: "toy_objects world" where
  "board_world = toy_world\<lparr>wd_cloud := [(''b'', ''abs/first-board/tests'') \<mapsto> (''tab'', 0)]\<rparr>"

lemma board_update_runs: "\<exists>x. board_update pass_tab pass_group = Inr x"
proof -
  from tabulate_shows [OF pass_source_ok _ pass_tab_filter refl, where nl = "(<)" and cancelled = "\<lambda>_. False"
        and now = 5 and rx = "\<lambda>_. None" and useTab = False and calculateStats = False] pass_grid_made
  obtain cols where "shows_cells cols pass_grid" by auto
  from shown_summarized [OF this] show ?thesis unfolding board_update_def by metis
qed

lemma board_updated:
  assumes "fg pass_tab = Inr (Some (p, pass_group))" "upd pass_tab pass_group = board_update pass_tab pass_group"
  shows "updateDashboard sample_board [] fg stat upd None =
    Inr ([Some (outcome ''first-board'' board_update pass_tab pass_group)], False)"
proof -
  obtain x where x: "board_update pass_tab pass_group = Inr x" using board_update_runs by blast
  show ?thesis
    by (simp add: updateDashboard_def pass_facts(6-8) collect_tab_def assms x Let_def delay_path_def delay_tab_def path_tabs_def
        requests_def delay_of_def apply_result_def outcome_def slice_stable_def update_conv split: option.splits)
qed

section \<open>Properties\<close>

text \<open>
  C1.  What ConstructGrid compresses into run-length-encoded rows and sparse metrics, InflateGrid
  reads back: one column per original column with its header, the names that have a result in some
  column, and at every name the cell the column was given (as a row stores it, its message cut to
  the stored length).
\<close>

theorem grid_round_trip:
  assumes "\<forall>c \<in> set cols. cells_ok c" "0 \<le> failures" "\<forall>j. \<not> cancelled j"
    and window: "\<forall>c \<in> set cols. earliest \<le> trunc (col_started (ic_column c) / 1000) \<and>
      trunc (col_started (ic_column c) / 1000) \<le> latest"
  shows "let shown = map (with_stats threshold) cols in \<exists>g out issues'.
    ConstructGrid nl cols issues failures passes commit user threshold hdrs = Inr g \<and>
    InflateGrid cancelled g earliest latest = Inr (out, issues') \<and>
    map ic_column out = map (\<lambda>c. with_hint (ic_column c)) shown \<and>
    (\<forall>i < length cols. fst ` set (ic_cells (out ! i)) = shown_names shown \<and>
       (\<forall>(n, c) \<in> set (ic_cells (out ! i)).
          same_cell c (stored n (row_ident n shown) (cell_of (shown ! i) n))))"
proof -
  define shown where "shown = map (with_stats threshold) cols"
  from ConstructGrid_shows [OF assms(1,2)] obtain g where
    g: "ConstructGrid nl cols issues failures passes commit user threshold hdrs = Inr g"
    "shows_cells shown g"
    unfolding shown_def by blast
  have cols: "grid_columns g = map ic_column shown" "length shown = length cols"
    using g(2) by (simp_all add: shows_cells_def shown_def)
  have "\<forall>c \<in> set (grid_columns g). earliest \<le> trunc (col_started c / 1000) \<and>
      trunc (col_started c / 1000) \<le> latest"
    using window by (simp add: cols shown_def with_stats_def)
  from kept_columns_all [OF this] InflateGrid_kept [OF shows_cells_grid_ok [OF g(2)] assms(3)]
  have inflated: "InflateGrid cancelled g earliest latest =
      Inr (map (inflated_at g) [0..<length cols], grid_issues (grid_rows g))"
    by (simp add: cols)
  have at: "ic_cells (inflated_at g i) = map (\<lambda>r. (row_name r, cell_at r i)) (grid_rows g)" for i
    by (simp add: inflated_at_def column_cells_def)
  have names: "row_name ` set (grid_rows g) = shown_names shown"
    and cells: "\<forall>r \<in> set (grid_rows g). row_id r = row_ident (row_name r) shown \<and>
      (\<forall>i < length cols. same_cell (cell_at r i)
        (stored (row_name r) (row_id r) (cell_of (shown ! i) (row_name r))))"
    using g(2) by (simp_all add: shows_cells_def cols) (metis)
  have "map ic_column (map (inflated_at g) [0..<length cols]) = map (\<lambda>c. with_hint (ic_column c)) shown"
    by (rule nth_equalityI) (simp_all add: inflated_at_def cols)
  moreover have "fst ` set (ic_cells (inflated_at g i)) = shown_names shown" for i
    by (simp add: at image_image names)
  moreover have "same_cell c (stored n (row_ident n shown) (cell_of (shown ! i) n))"
    if "i < length cols" "(n, c) \<in> set (ic_cells (inflated_at g i))" for i n c
    using that cells by (auto simp: at)
  ultimately show ?thesis
    unfolding Let_def shown_def [symmetric]
    using g(1) inflated by (intro exI conjI) (assumption, assumption, auto)
qed

lemma grid_round_trip_witness:
  "let shown = map (with_stats 0) [one_column] in \<exists>g out issues'.
    ConstructGrid (<) [one_column] [] 2 1 True ''user'' 0 [] = Inr g \<and>
    InflateGrid (\<lambda>_. False) g 0 2000 = Inr (out, issues') \<and>
    map ic_column out = map (\<lambda>c. with_hint (ic_column c)) shown \<and>
    (\<forall>i < length [one_column]. fst ` set (ic_cells (out ! i)) = shown_names shown \<and>
       (\<forall>(n, c) \<in> set (ic_cells (out ! i)).
          same_cell c (stored n (row_ident n shown) (cell_of (shown ! i) n))))"
  by (rule grid_round_trip) (simp_all add: one_column_def cells_ok_def empty_column_def zero_cell_def trunc_def)

text \<open>
  C2.  ConstructGrid never panics on columns with one cell per name, and the grid it returns is
  the abstract table of the columns: the same column headers, exactly one row per name with a
  result somewhere, and in every row the cell each column holds for it.
\<close>

theorem constructed_grid:
  assumes "\<forall>c \<in> set cols. cells_ok c" "0 \<le> failures"
  shows "\<exists>g. ConstructGrid nl cols issues failures passes commit user threshold hdrs = Inr g \<and>
    shows_cells (map (with_stats threshold) cols) g"
  using assms by (rule ConstructGrid_shows)

lemma constructed_grid_witness:
  "\<exists>g. ConstructGrid (<) [one_column, one_column] [] 2 1 True ''user'' 0 [] = Inr g \<and>
    shows_cells (map (with_stats 0) [one_column, one_column]) g"
  by (rule constructed_grid) (simp_all add: one_column_def cells_ok_def empty_column_def zero_cell_def)

text \<open>
  C3.  Updater, tabulator and server over one storage: an update of a group that was stored has
  stored a well-formed grid, compressed from well-formed columns, and after a later pass of the
  tabulator over the group the server shows it for every tab of the group: the rows that the
  options of the tab keep, and the columns that have a result in them.
\<close>

theorem updated_group_served:
  assumes "gcs_contract gl obj" "resolves_apart (srv_urls s) cfgPath (srv_tab_prefix s)" "decodes s marshal"
    and "serves s scope cfg snap" "configPath s scope = Inr (cfgPath, b)"
    and "\<forall>d \<in> set (cfg_dashboards cfg). \<forall>t \<in> set (dash_tabs d).
      plain_part (dash_name d) \<and> name_chars (dash_name d) \<and> plain_part (tab_name t) \<and> name_chars (tab_name t)"
    and "update_grid s gl marshal partial nl' ft rs cancelled expired now reprocess True tg p evs w0 w1 = Some (Inr unread, w2)"
    and "step_ok tg cancelled evs" "stored_ok s gl w0 p"
    and "TestGroupPath (srv_urls s) cfgPath gridPrefix (tg_name tg) = Inr p"
    and "tabulate_group (\<lambda>task data. createTabState s gl marshal nl rx cancelled' now' task data cfgPath (srv_tab_prefix s) True
        stats useTab False)
      (\<lambda>w. read_group s gl (mapTasks (sn_groups snap) (sn_dashboards snap)) cfgPath gridPrefix w (Some tg)) w2 = (Inr results, w3)"
    and "\<forall>r \<in> set results. r = Inr ()"
    and "d \<in> set (cfg_dashboards cfg)" "Normalize (dash_name d) = Normalize dq"
    and "t \<in> set (dash_tabs d)" "Normalize (tab_name t) = Normalize tq"
    and "tab_test_group_name t = tg_name tg" "tg \<in> set (cfg_test_groups cfg)"
    and "\<forall>j. \<not> cancelled' j" "\<And>rows. \<exists>rows'. filterGrid rx (tab_base_options t) rows = Inr rows'"
    and "0 \<le> tab_alerts useTab t tg"
  shows "\<exists>g rows. well_built g \<and> DownloadGrid (server_on gl w2 s) p = Inr (Some g) \<and>
    filterGrid rx (tab_base_options t) (grid_rows g) = Inr rows \<and>
    (let cols = dropEmptyColumns (map (inflated_at (g\<lparr>grid_rows := rows\<rparr>))
        (kept_columns zero_unix now' False 0 (grid_columns g))) in
     \<exists>rs. ListRows (server_on gl w3 s) scope dq tq = Inr rs \<and> ar_name ` set rs = shown_names cols \<and>
       (\<forall>r \<in> set rs. \<exists>i. ar_cells r =
          map (\<lambda>col. api_cell_of (stored (ar_name r) i (cell_of col (ar_name r)))) cols))"
  by (rule update_pass_served [OF assms(1-19) _ assms(21)]) (rule assms(20))

lemma updated_group_served_witness:
  "update_grid pass_server toy_cloud pass_marshal (\<lambda>_. empty_grid) (<) (\<lambda>_ s. s) [] (\<lambda>_. False) (\<lambda>_. False) 9999999 0 True
     pass_group (cloud_path ''grid/unit-tests'') [NewColumn one_column, ReaderDone None] toy_world toy_world = Some (Inr False, pass_world) \<and>
   (\<exists>w' rs g rows. tabulate_group (\<lambda>task data. createTabState pass_server toy_cloud pass_marshal (<) (\<lambda>_. None) (\<lambda>_. False) 5
        task data pass_config ''tabs'' True False False False)
      (\<lambda>w. read_group pass_server toy_cloud pass_tasks pass_config ''/grid'' w (Some pass_group)) pass_world = (Inr [Inr ()], w') \<and>
    DownloadGrid (server_on toy_cloud pass_world pass_server) (cloud_path ''grid/unit-tests'') = Inr (Some g) \<and>
    filterGrid (\<lambda>_. None) (tab_base_options pass_tab) (grid_rows g) = Inr rows \<and>
    ListRows (server_on toy_cloud w' pass_server) [] ''First Board'' ''TESTS'' = Inr rs \<and>
    ar_name ` set rs = shown_names (dropEmptyColumns (map (inflated_at (g\<lparr>grid_rows := rows\<rparr>))
      (kept_columns zero_unix 5 False 0 (grid_columns g)))))"
proof -
  note f = pass_facts and u = pass_server_simps
  obtain w' where w': "tabulate_group (\<lambda>task data. createTabState pass_server toy_cloud pass_marshal (<) (\<lambda>_. None) (\<lambda>_. False) 5
        task data pass_config ''tabs'' True False False False)
      (\<lambda>w. read_group pass_server toy_cloud pass_tasks pass_config ''/grid'' w (Some pass_group)) pass_world = (Inr [Inr ()], w')"
    using pass_tabulated by blast
  have gp: "TestGroupPath (srv_urls pass_server) pass_config ''/grid'' (tg_name pass_group) = Inr (cloud_path ''grid/unit-tests'')"
    by (simp add: u f)
  have apart: "resolves_apart (srv_urls pass_server) pass_config (srv_tab_prefix pass_server)" by (simp add: u plain_urls_apart)
  have filters: "\<exists>rows'. filterGrid rx (tab_base_options pass_tab) rows = Inr rows'" for rx rows
    by (simp add: pass_tab_filter)
  from updated_group_served [OF toy_contract apart pass_decodes pass_serves pass_plain pass_update pass_step pass_absent gp _ _ pass_board _
      filters pass_tab_filter(2), where ?w3.0 = w' and results = "[Inr ()]" and nl = "(<)" and cancelled' = "\<lambda>_. False" and now' = 5
        and stats = False and useTab = False and rx = "\<lambda>_. None"] w'
  have "\<exists>g rows. DownloadGrid (server_on toy_cloud pass_world pass_server) (cloud_path ''grid/unit-tests'') = Inr (Some g) \<and>
    filterGrid (\<lambda>_. None) (tab_base_options pass_tab) (grid_rows g) = Inr rows \<and>
    (\<exists>rs. ListRows (server_on toy_cloud w' pass_server) [] ''First Board'' ''TESTS'' = Inr rs \<and>
      ar_name ` set rs = shown_names (dropEmptyColumns (map (inflated_at (g\<lparr>grid_rows := rows\<rparr>))
        (kept_columns zero_unix 5 False 0 (grid_columns g)))))"
    unfolding Let_def u pass_tasks_def by auto
  with w' pass_update show ?thesis by blast
qed

text \<open>
  C4.  Stored grids: when the grids at the paths of the groups are well formed or absent to start
  with, they are so in every state of the storage that updates lead to, whichever of the earlier
  states an update has read and whether it succeeds, fails or is only tried.
\<close>

theorem grids_stay_well_formed:
  assumes "gcs_contract gl obj" "decodes s marshal" "grid_history s gl marshal partial paths ws"
    and "\<forall>p \<in> paths. stored_ok s gl (last ws) p"
  shows "\<forall>w \<in> set ws. \<forall>p \<in> paths. stored_ok s gl w p"
  by (rule history_ok [OF assms(3,1,2,4)])

lemma grids_stay_well_formed_witness:
  "stored_ok pass_server toy_cloud pass_world (cloud_path ''grid/unit-tests'')"
proof -
  let ?p = "cloud_path ''grid/unit-tests''"
  have h: "grid_history pass_server toy_cloud pass_marshal (\<lambda>_. empty_grid) {?p} [pass_world, toy_world]"
    by (rule history_update [OF history_start _ _ pass_step pass_update]) simp_all
  from grids_stay_well_formed [OF toy_contract pass_decodes h] pass_absent show ?thesis by simp
qed

text \<open>
  C5.  The tabulator turns a grid into the grid of a tab: it inflates the rows that pass the
  filters of the tab up to now, drops the columns without a result (keeping one if all are empty),
  and writes a grid that shows exactly the cells of these columns, with the statistics of the
  threshold of the tab if asked for. Each row has the alert that alertRow reports for it with the
  numbers of failures and passes that the tab (or, without tab settings, the group) asks for, and
  it has one exactly when so many failures in a row come before so many passes (none at all when
  no failures are asked for).
\<close>

theorem tabulated_grid:
  assumes "grid_ok g" "\<forall>j. \<not> cancelled j"
    "filterGrid rx (tab_base_options tab) (grid_rows g) = Inr rows" "0 \<le> tab_alerts useTab tab tg"
  shows "let cols = dropEmptyColumns (map (inflated_at (g\<lparr>grid_rows := rows\<rparr>))
        (kept_columns zero_unix now False 0 (grid_columns g))) in
    \<exists>g'. tabulate nl rx cancelled now (Some g) (Some tab) (Some tg) calculateStats useTab None = Inr g' \<and>
      shows_cells (map (with_stats (tab_threshold calculateStats tab)) cols) g' \<and>
      shows_alerts (map (with_stats (tab_threshold calculateStats tab)) cols) (tab_alerts useTab tab tg)
        (tab_unalerts useTab tab tg) (tg_use_kubernetes_client tg \<or> get_gcs_config tg \<noteq> None) (tg_user_property tg)
        (tg_column_header tg) g'"
  unfolding Let_def by (rule tabulate_alerts [OF assms refl])

lemma tabulated_grid_witness:
  "let cols = dropEmptyColumns (map (inflated_at (one_grid\<lparr>grid_rows := [failed_row]\<rparr>))
        (kept_columns zero_unix 5 False 0 (grid_columns one_grid))) in
    \<exists>g'. tabulate (<) (\<lambda>_. None) (\<lambda>_. False) 5 (Some one_grid) (Some plain_tab) (Some empty_test_group) False False None =
        Inr g' \<and> shows_cells (map (with_stats (tab_threshold False plain_tab)) cols) g'"
proof -
  have "0 \<le> tab_alerts False plain_tab empty_test_group" by (simp add: plain_tab_alerts)
  from tabulated_grid [OF one_grid_ok _ plain_tab_filter this, where cancelled = "\<lambda>_. False" and nl = "(<)" and now = 5
      and calculateStats = False]
  show ?thesis by (auto simp: Let_def)
qed

text \<open>
  C6.  Grids are well formed from one program to the next: whatever columns the updater is given,
  the grid it constructs is one the summarizer summarises without an error, and so is the grid the
  tabulator makes of it; the summary is consistent in both cases.
\<close>

theorem pipeline_summarized:
  assumes "\<forall>c \<in> set cols. cells_ok c" "0 \<le> failures" "\<forall>j. \<not> cancelled j"
    and filters: "\<forall>rows. \<exists>rows'. filterGrid rx (tab_base_options tab) rows = Inr rows'" "0 \<le> tab_alerts useTab tab tg"
  shows "\<exists>g s g' s'. ConstructGrid nl cols issues failures passes commit user threshold hdrs = Inr g \<and>
    updateTab showTime now features (Inr (g, md)) tab tg = Inr s \<and> summary_ok tab s \<and>
    tabulate nl rx cancelled now (Some g) (Some tab) (Some tg) calculateStats useTab None = Inr g' \<and>
    updateTab showTime now features (Inr (g', md)) tab tg = Inr s' \<and> summary_ok tab s'"
proof -
  from ConstructGrid_shows [OF assms(1,2)] obtain g where
    g: "ConstructGrid nl cols issues failures passes commit user threshold hdrs = Inr g"
      "shows_cells (map (with_stats threshold) cols) g" by blast
  from filters(1) obtain rows where "filterGrid rx (tab_base_options tab) (grid_rows g) = Inr rows" by blast
  then obtain g' s' where g': "tabulate nl rx cancelled now (Some g) (Some tab) (Some tg) calculateStats useTab None = Inr g'"
      "updateTab showTime now features (Inr (g', md)) tab tg = Inr s'" "summary_ok tab s'"
    using tabulated_summarized [OF shows_cells_grid_ok [OF g(2)] assms(3) _ filters(2)] by blast
  from shown_summarized [OF g(2), of showTime now features md tab tg] obtain s where
    "updateTab showTime now features (Inr (g, md)) tab tg = Inr s" "summary_ok tab s" by blast
  with g(1) g' show ?thesis by blast
qed

lemma pipeline_summarized_witness:
  "\<exists>g s g' s'. ConstructGrid (<) [one_column] [] 2 1 True ''user'' 0 [] = Inr g \<and>
    updateTab (\<lambda>t. []) 5 no_features (Inr (g, None)) plain_tab empty_test_group = Inr s \<and> summary_ok plain_tab s \<and>
    tabulate (<) (\<lambda>_. None) (\<lambda>_. False) 5 (Some g) (Some plain_tab) (Some empty_test_group) False False None = Inr g' \<and>
    updateTab (\<lambda>t. []) 5 no_features (Inr (g', None)) plain_tab empty_test_group = Inr s' \<and> summary_ok plain_tab s'"
  by (rule pipeline_summarized) (simp_all add: one_column_cells_ok plain_tab_filter plain_tab_alerts)

text \<open>
  C7.  The ResultStore reader comes to an end when the pages of the search and those of every
  fetch do, and then its columns are those of all the invocations of all the pages, in their order
  and with repetitions, except the ones that could not be fetched.
\<close>

theorem invocations_read:
  assumes "get_resultstore_config tg = Some rs"
    and "queryProw lb (rsc_query rs) (updateStop lb tg now oldCols defaultStop reprocess) = Inr q"
    and "page_chain (search_page client q (rsc_project rs)) [] idss"
    and "\<forall>i \<in> set (concat idss). FetchInvocation client i = Some (f i)"
  shows "ColumnReader lb client reprocess tg oldCols defaultStop now =
    Some (read_columns lb tg
      (List.map_filter (\<lambda>i. case f i of Inl _ \<Rightarrow> None | Inr r \<Rightarrow> Some r) (concat idss)))"
  by (rule ColumnReader_spec [OF assms])

lemma invocations_read_witness:
  "ColumnReader plain_libs (one_invocation_client raw_passed) 0 searched_group [] 0 9 =
     Some (read_columns plain_libs searched_group [raw_passed])"
proof -
  let ?c = "one_invocation_client raw_passed"
  let ?stop = "updateStop plain_libs searched_group 9 [] 0 0"
  have q: "queryProw plain_libs [] ?stop = Inr (queryAfter plain_libs prowLabel ?stop)" by (simp add: queryProw_def)
  have "\<not> str_contains (queryAfter plain_libs prowLabel ?stop) ''id.target_id=''"
    unfolding queryAfter_def plain_libs_def by code_simp
  then have p: "page_chain (search_page ?c (queryAfter plain_libs prowLabel ?stop) ''p'') [] [[''inv'']]"
    by (intro last_page) (simp add: search_page_def invocationSearch_def one_invocation_client_def raw_passed_def)
  have f: "FetchInvocation ?c ''inv'' = Some (Inr raw_passed)"
    by (simp add: FetchInvocation_def fetch_loop.simps one_invocation_client_def add_page_def empty_fetch_def raw_passed_def)
  have c: "get_resultstore_config searched_group = Some \<lparr>rsc_project = ''p'', rsc_query = []\<rparr>"
    by (simp add: get_resultstore_config_def searched_group_def)
  from invocations_read [OF c, of plain_libs 9 "[]" 0 0 "queryAfter plain_libs prowLabel ?stop" ?c "[[''inv'']]" "\<lambda>_. Inr raw_passed"]
    q p f show ?thesis by (simp add: List.map_filter_simps)
qed

text \<open>
  C8.  A column of the ResultStore reader has, under the name of a target, exactly the included
  results of that target in the invocations of the column's group, in their order: one cell with
  the target's status each, further ones under numbered names, up to the limit on duplicates.
\<close>

theorem reader_cells:
  assumes "libs_ok lb" "read_columns lb tg results = Inr cols" "col \<in> set cols" "plain_name k"
    and "apart k (fst ` set (group_entries lb tg (invocations_named lb tg results (col_name (ic_column col)))))"
  shows "map_of (ic_cells col) (split_name k i) =
    shown_cell (concat (map (target_cells tg k) (invocations_named lb tg results (col_name (ic_column col))))) i"
  by (rule read_columns_cells [OF assms])

lemma reader_cells_witness:
  "\<exists>col \<in> set passed_columns. map_of (ic_cells col) (split_name ''t'' 0) =
    shown_cell (concat (map (target_cells empty_test_group ''t'')
      (invocations_named plain_libs empty_test_group [raw_passed] ''inv''))) 0"
proof -
  from passed_columns_read(2) obtain col where c: "col \<in> set passed_columns" "col_name (ic_column col) = ''inv''"
    by (metis (no_types, lifting) list.set_intros(1) list.set_map image_iff)
  have "map fst (group_entries plain_libs empty_test_group
      (invocations_named plain_libs empty_test_group [raw_passed] ''inv'')) = [''t'']" by code_simp
  then have "fst ` set (group_entries plain_libs empty_test_group
      (invocations_named plain_libs empty_test_group [raw_passed] (col_name (ic_column col)))) = {''t''}"
    unfolding c(2) by (metis empty_set list.set_map list.simps(15))
  then have "apart ''t'' (fst ` set (group_entries plain_libs empty_test_group
      (invocations_named plain_libs empty_test_group [raw_passed] (col_name (ic_column col)))))"
    by (simp add: apart_def)
  moreover have "plain_name ''t''" by code_simp
  ultimately show ?thesis
    using reader_cells [OF plain_libs_ok passed_columns_read(1) c(1), of "''t''" 0] c by auto
qed

text \<open>
  C9.  AppendColumn simulates appending a column to the abstract list of columns: on a grid that
  represents the columns so far it does not panic and returns a grid that represents them and the
  new one, new rows padded with empty cells and missing rows extended by one.
\<close>

theorem append_column:
  assumes "holds cols g" "cells_ok col"
  shows "\<exists>g'. AppendColumn g col = Inr g' \<and> holds (cols @ [col]) g'"
  using AppendColumn_holds [OF assms] by blast

lemma append_column_witness: "\<exists>g'. AppendColumn empty_grid one_column = Inr g' \<and> holds ([] @ [one_column]) g'"
  by (rule append_column)
    (simp_all add: holds_empty one_column_def cells_ok_def zero_cell_def)

text \<open>
  C10.  In every state the work queue reaches by its operations, in any order, with a positive
  frequency: the names in the heap are pairwise different and are exactly the names with an item,
  every item knows its index, and no name is due before the one on top.
\<close>

theorem queue_invariant:
  assumes "queue_reach frequency q" "frequency \<noteq> 0"
  shows "distinct (wq_queue q) \<and> set (wq_queue q) = fst ` set (wq_items q) \<and>
    (\<forall>k < length (wq_queue q). index_of q (wq_queue q ! k) = int k) \<and>
    (\<forall>n \<in> fst ` set (wq_items q). when_of q (hd (wq_queue q)) \<le> when_of q n)"
proof -
  from queue_reach_ok [OF assms] have ok: "queue_ok q" "all_queued q" by simp_all
  then have "set (wq_queue q) = fst ` set (wq_items q)" by (simp add: all_queued_def names_def)
  with earliest [OF ok(1)] ok(1) show ?thesis by (simp add: queue_ok_def indexed_def)
qed

lemma queue_invariant_witness:
  "let q = snd (Fix ''b'' 3 False (two_names 9)) in
    distinct (wq_queue q) \<and> set (wq_queue q) = fst ` set (wq_items q) \<and>
    (\<forall>k < length (wq_queue q). index_of q (wq_queue q ! k) = int k) \<and>
    (\<forall>n \<in> fst ` set (wq_items q). when_of q (hd (wq_queue q)) \<le> when_of q n)"
proof -
  have "queue_reach 1 (snd (Fix ''b'' 3 False (two_names 9)))"
    by (rule reach_step [OF two_names_reach step_Fix [where err = "fst (Fix ''b'' 3 False (two_names 9))"]]) simp
  from queue_invariant [OF this] show ?thesis by (simp add: Let_def)
qed

text \<open>
  C11.  No name waits forever: with a positive frequency a name is sent after at most as many
  other sends as there are names due no later than it, when every send reschedules its name to a
  later time.
\<close>

theorem queue_send_fair:
  assumes "queue_ok q" "n \<in> set (wq_queue q)" "frequency \<noteq> 0"
    "\<forall>now \<in> set nows. when_of q n < now + frequency"
    "card {m \<in> set (wq_queue q). m \<noteq> n \<and> when_of q m \<le> when_of q n} < length nows"
  shows "n \<in> set (sends frequency nows q)"
  by (rule sends_fair [OF assms(1-4)]) (use assms(5) in \<open>simp add: ahead_def\<close>)

lemma queue_send_fair_witness: "''b'' \<in> set (sends 1 [9, 10] (two_names 9))"
  by (rule queue_send_fair) (use two_names_ok in \<open>simp_all add: two_names_facts\<close>)

text \<open>
  C12.  However the workers of the updater interleave with each other, with the queue, the fixers
  and new configurations, no two of them update the same group at the same time, and a group is
  marked active exactly while one of them does.
\<close>

theorem updates_exclusive:
  assumes "pool_reach freq n p" "freq \<noteq> 0"
  shows "(\<forall>i j name. i < j \<and> j < length (pl_workers p) \<and> working_on name (pl_workers p ! i) \<longrightarrow>
       \<not> working_on name (pl_workers p ! j)) \<and>
    (\<forall>name. is_active (pl_active p) name \<longleftrightarrow> (\<exists>w \<in> set (pl_workers p). working_on name w))"
proof -
  from pool_reach_ok [OF assms] have ok: "exclusive working_on (is_active (pl_active p)) (pl_workers p)"
    by (simp add: pool_ok_def)
  show ?thesis
    using updaters.apart [OF ok] updaters.active_held [OF ok] updaters.held_active [OF ok]
    by (auto simp: in_set_conv_nth)
qed

lemma updates_exclusive_witness:
  "let p = one_worker (Updating ''g'') in
    pl_workers p = [Updating ''g'', Claiming ''g''] \<and> \<not> working_on ''g'' (pl_workers p ! 1) \<and>
    (\<forall>name. is_active (pl_active p) name \<longleftrightarrow> (\<exists>w \<in> set (pl_workers p). working_on name w))"
  using updates_exclusive [OF busy_pool_reach] by (simp add: Let_def one_worker_def)

text \<open>
  C13.  Locks: whatever updaters do to storage, in any order, at most one attempt to lock an
  object at a generation succeeds, and one that succeeds has found the object at that generation
  (no object, when the generation is zero). Of the storage this uses that it never gives a name
  the same generation twice, not that generations grow.
\<close>

theorem lock_won_once:
  assumes "gcs_writes gl obj" "storage_steps ul gl w steps = (answers, w')"
  shows "length answers = length steps \<and> length (filter (won place generation) (zip steps answers)) \<le> 1 \<and>
    (\<forall>i < length steps. won place generation (steps ! i, answers ! i) \<longrightarrow>
       map_option snd (obj (wd_cloud (snd (storage_steps ul gl w (take i steps)))) place) =
         (if generation = 0 then None else Some generation))"
proof -
  from assms(1) obtain used where us: "gcs_uses gl obj used" unfolding gcs_writes_def by blast
  from storage_steps_won [OF us assms(2), of generation place] storage_steps_found [OF us assms(2), of place generation]
  show ?thesis by blast
qed

lemma lock_won_once_witness:
  "length (filter (won (''b'', ''g'') 0) (zip (replicate 3 (Attempt (cloud_path ''g'') 0 ''empty''))
     (fst (storage_steps plain_urls toy_cloud toy_world (replicate 3 (Attempt (cloud_path ''g'') 0 ''empty'')))))) = 1"
proof -
  let ?sts = "replicate 3 (Attempt (cloud_path ''g'') 0 ''empty'')"
  let ?won = "filter (won (''b'', ''g'') 0) (zip ?sts (fst (storage_steps plain_urls toy_cloud toy_world ?sts)))"
  have "gcs_writes toy_cloud toy_object" using toy_contract by (simp add: gcs_contract_def)
  then have "length ?won \<le> 1" using lock_won_once [where gl = toy_cloud and obj = toy_object] by (metis prod.collapse)
  moreover have "hd ?won \<noteq> hd [] \<or> ?won \<noteq> []"
    by (simp add: numeral_3_eq_3 storage_step_run_def Touch_def client_Upload_def is_cloud_def cloud_path_def client_If_def toy_cloud_def
        on_cloud_def toy_world_def cond_holds_def no_conditions_def toy_object_def toy_put_def Bucket_def Object_def
        won_def split: prod.split)
  ultimately show ?thesis by (cases ?won) auto
qed

text \<open>
  C14.  No update is lost: over any history of updates of any groups by any number of updaters, an
  update of a grid in cloud storage that is stored replaces exactly the object it has read, which
  it could decompress, by one of a generation that it had in no earlier state of the history, and
  no other object changes; only a grid that is too large is replaced unconditionally.
\<close>

theorem update_not_stale:
  assumes "gcs_contract gl obj" "is_cloud p" "grid_history s gl marshal partial paths (w1 # ws)" "w0 \<in> set (w1 # ws)"
    and "update_grid s gl marshal partial nl ft rs cancelled expired now reprocess True tg p evs w0 w1 = Some (Inr unread, w2)"
    and "\<And>sz generation. opened_attrs gl w0 p = Some (sz, generation) \<Longrightarrow> sz < int byteCeiling"
  shows "let k = (Bucket p, Object p) in
    obj (wd_cloud w1) k = obj (wd_cloud w0) k \<and>
    (\<forall>w \<in> set (w1 # ws). generation_of (obj (wd_cloud w2) k) \<noteq> generation_of (obj (wd_cloud w) k)) \<and>
    (\<forall>k'. k' \<noteq> k \<longrightarrow> obj (wd_cloud w2) k' = obj (wd_cloud w1) k') \<and>
    (\<forall>content generation. obj (wd_cloud w0) k = Some (content, generation) \<longrightarrow>
       (\<exists>pbuf. go_bind (srv_zlib s (Inr content)) id = Inr pbuf))"
proof -
  from history_runs [OF assms(3)] have runs: "gcs_run gl (wd_cloud w) (wd_cloud w1)" if "w \<in> set (w1 # ws)" for w
    using that by simp
  have "obj (wd_cloud w1) (Bucket p, Object p) = obj (wd_cloud w0) (Bucket p, Object p) \<and>
    (\<forall>w. gcs_run gl (wd_cloud w) (wd_cloud w1) \<longrightarrow>
      generation_of (obj (wd_cloud w2) (Bucket p, Object p)) \<noteq> generation_of (obj (wd_cloud w) (Bucket p, Object p))) \<and>
    (\<forall>k'. k' \<noteq> (Bucket p, Object p) \<longrightarrow> obj (wd_cloud w2) k' = obj (wd_cloud w1) k') \<and>
    (\<forall>content generation. obj (wd_cloud w0) (Bucket p, Object p) = Some (content, generation) \<longrightarrow>
       (\<exists>pbuf. go_bind (srv_zlib s (Inr content)) id = Inr pbuf))"
    by (rule update_not_lost [OF assms(1,2) runs [OF assms(4)] assms(5)]) (rule assms(6))
  with runs show ?thesis unfolding Let_def by blast
qed

lemma update_not_stale_witness:
  "toy_object (wd_cloud toy_world) (''b'', ''grid/unit-tests'') = None \<and>
   generation_of (toy_object (wd_cloud pass_world) (''b'', ''grid/unit-tests'')) \<noteq> 0"
proof -
  have p: "is_cloud (cloud_path ''grid/unit-tests'')" by (simp add: is_cloud_def cloud_path_def)
  have "opened_attrs toy_cloud toy_world (cloud_path ''grid/unit-tests'') = None"
    by (simp add: opened_attrs_def p toy_cloud_def toy_object_def toy_world_def)
  then have "let k = (Bucket (cloud_path ''grid/unit-tests''), Object (cloud_path ''grid/unit-tests'')) in
      toy_object (wd_cloud toy_world) k = toy_object (wd_cloud toy_world) k \<and>
      (\<forall>w \<in> set [toy_world]. generation_of (toy_object (wd_cloud pass_world) k) \<noteq> generation_of (toy_object (wd_cloud w) k)) \<and>
      (\<forall>k'. k' \<noteq> k \<longrightarrow> toy_object (wd_cloud pass_world) k' = toy_object (wd_cloud toy_world) k') \<and>
      (\<forall>content generation. toy_object (wd_cloud toy_world) k = Some (content, generation) \<longrightarrow>
         (\<exists>pbuf. go_bind (srv_zlib pass_server (Inr content)) id = Inr pbuf))"
    by (intro update_not_stale [OF toy_contract p history_start _ pass_update]) simp_all
  then show ?thesis by (simp add: Let_def cloud_path_def Bucket_def Object_def toy_object_def toy_world_def generation_of_def)
qed

text \<open>
  C15.  A dashboard that comes out of the queue while it is being summarized is not forgotten:
  from then on, in every state the summarizer reaches, it waits or a worker is about to put it
  back, until a worker does and it is due at once; and no two workers summarize it at the same
  time.
\<close>

theorem no_request_lost:
  assumes "summary_reach freq n p" "freq \<noteq> 0" "summary_step freq ev p p'"
  shows "(ev = Taken name \<and> name \<in> sp_active p \<longrightarrow> pending p' name) \<and>
    (pending p name \<and> name \<in> names (sp_queue p) \<longrightarrow>
       pending p' name \<or> (\<exists>now. ev = Requeued name now \<and> when_of (sp_queue p') name \<le> now)) \<and>
    (\<forall>i j. i < j \<and> j < length (sp_workers p) \<and> summarizes name (sp_workers p ! i) \<longrightarrow>
       \<not> summarizes name (sp_workers p ! j))"
proof -
  from summary_reach_ok [OF assms(1,2)] have ok: "summary_pool_ok p"
    and ex: "exclusive summarizes (\<lambda>n. n \<in> sp_active p) (sp_workers p)"
    by (simp_all add: summary_pool_ok_def)
  show ?thesis
    using taken_pending [of freq name p p'] pending_until_requeued [OF assms(3) _ ok] assms(3)
      summarizers.apart [OF ex] by blast
qed

lemma no_request_lost_witness:
  "pending (summary_busy (Restarting ''g'') {}) ''g'' \<and>
   (\<exists>now. Requeued ''g'' 7 = Requeued ''g'' now \<and>
      when_of (sp_queue (restart_dashboard 7 0 ''g'' (summary_busy (Restarting ''g'') {}))) ''g'' \<le> now)"
proof -
  let ?p = "summary_busy (Restarting ''g'') {}"
  have step: "summary_step 1 (Requeued ''g'' 7) ?p (restart_dashboard 7 0 ''g'' ?p)"
    by (rule sum_restart) (simp_all add: summary_busy_def)
  have "\<not> pending (restart_dashboard 7 0 ''g'' ?p) ''g''"
    by (simp add: pending_def restart_dashboard_def summary_busy_def)
  moreover have "pending ?p ''g''" "''g'' \<in> names (sp_queue ?p)"
    by (simp_all add: pending_def summary_busy_def names_def one_name_def)
  ultimately show ?thesis using no_request_lost [OF summary_busy_reach step, of "''g''"] by auto
qed

text \<open>
  C16.  alertRow reports an alert exactly when the results that count (coalesced, newest first,
  running and unknown ones skipped) have a run of at least k consecutive failures that ends before
  any run of p consecutive passes is complete.
\<close>

theorem alert_iff_outage:
  assumes "packed r" "0 < k" "0 < p" "length cols \<le> length (row_statuses r)"
  shows "\<exists>a. alertRow cols r (int k) (int p) commit user hdrs = Inr a \<and>
    (a \<noteq> None \<longleftrightarrow> outage k p (relevant (take (length cols) (row_statuses r))))"
  using assms by (rule alertRow_iff_outage)

lemma alert_iff_outage_witness:
  "\<exists>a. alertRow [empty_column] failed_row (int 1) (int 1) True ''user'' [] = Inr a \<and>
    (a \<noteq> None \<longleftrightarrow> outage 1 1 (relevant (take (length [empty_column]) (row_statuses failed_row))))"
  by (rule alert_iff_outage) (simp_all add: packed_failed_row row_statuses_failed_row)

text \<open>
  C17.  On a tab that is neither broken nor stale and has no alert, and whose columns hold no
  running and no ignored results: with the feature of a minimum number of runs on, the tab is
  pending while fewer columns are completed, the ignored ones aside, than its options ask for.
  Otherwise the overall status looks at the recent columns, the first that hold some result: one
  of them with a result other than a pass makes the tab flaky (or acceptable), else it passes, and
  with no result at all it is unknown.
\<close>

theorem tab_status:
  assumes "distinct (map row_name (grid_rows g))"
    "\<forall>col \<in> set (tab_columns g). RUNNING \<notin> set col \<and> \<not> column_ignored features opts col"
  shows "overallStatus g recent [] False [] features colCells opts =
    (if allow_min_number_of_runs features \<and>
        so_min_acceptable_runs opts > gs_completed_cols colCells - gs_ignored_cols colCells
     then TAB_PENDING
     else let inspected = take (nat recent)
           (filter (\<lambda>col. column_bad features opts col \<or> column_green features opts col) (tab_columns g))
     in if \<exists>col \<in> set inspected. column_bad features opts col
        then (if isAcceptable colCells opts features then TAB_ACCEPTABLE else TAB_FLAKY)
        else if inspected \<noteq> [] then TAB_PASS else TAB_UNKNOWN)"
  unfolding overallStatus_scan [OF assms(1)] status_scan_settled [OF assms(2)]
  by (simp only: bad_status_def simp_thms if_False)

lemma tab_status_witness:
  "overallStatus one_grid 3 [] False [] no_features zero_stats zero_status_options = TAB_FLAKY \<and>
   overallStatus one_grid 3 [] False [] (no_features\<lparr>allow_min_number_of_runs := True\<rparr>) zero_stats
     (zero_status_options\<lparr>so_min_acceptable_runs := 2\<rparr>) = TAB_PENDING"
proof -
  have cols: "tab_columns one_grid = [[FAIL]]"
    by (simp add: tab_columns_def one_grid_def row_statuses_failed_row)
  have bad: "column_bad no_features zero_status_options [FAIL]" by code_simp
  from tab_status [of one_grid no_features zero_status_options 3 zero_stats] cols bad
  have flaky: "overallStatus one_grid 3 [] False [] no_features zero_stats zero_status_options = TAB_FLAKY"
    by (simp add: one_grid_def no_features_def column_ignored_def isAcceptable_def Let_def)
  from tab_status [of one_grid "no_features\<lparr>allow_min_number_of_runs := True\<rparr>"
      "zero_status_options\<lparr>so_min_acceptable_runs := 2\<rparr>" 3 zero_stats] cols
  have "overallStatus one_grid 3 [] False [] (no_features\<lparr>allow_min_number_of_runs := True\<rparr>) zero_stats
     (zero_status_options\<lparr>so_min_acceptable_runs := 2\<rparr>) = TAB_PENDING"
    by (simp add: one_grid_def no_features_def column_ignored_def zero_stats_def)
  with flaky show ?thesis by simp
qed

text \<open>
  C18.  The latest green column the summarizer reports for a grid the updater constructed is the
  newest column all of whose cells pass (cells that count for nothing aside, and with at least one
  pass); it reads this off the run-length-encoded rows.
\<close>

theorem latest_green:
  assumes "\<forall>c \<in> set cols. cells_ok c" "0 \<le> failures"
  shows "\<exists>g. ConstructGrid nl cols issues failures passes commit user threshold hdrs = Inr g \<and>
    latestGreen g useFirstExtra =
      (case find (\<lambda>i. green_cells (cols ! i)) [0..<length cols] of
         None \<Rightarrow> noGreens | Some i \<Rightarrow> green_header useFirstExtra (ic_column (cols ! i)))"
proof -
  let ?shown = "map (with_stats threshold) cols"
  from ConstructGrid_shows [OF assms] obtain g where
    g: "ConstructGrid nl cols issues failures passes commit user threshold hdrs = Inr g" "shows_cells ?shown g" by blast
  have "green_cells (with_stats threshold c) = green_cells c" "green_header u (ic_column (with_stats threshold c)) =
      green_header u (ic_column c)" for c u
    by (simp_all add: green_cells_def green_header_def with_stats_def split: list.split)
  moreover have "find (\<lambda>i. green_cells (?shown ! i)) [0..<length cols] = find (\<lambda>i. green_cells (cols ! i)) [0..<length cols]"
    by (rule find_cong) (simp_all add: calculation)
  moreover have "i < length cols" if "find (\<lambda>i. green_cells (cols ! i)) [0..<length cols] = Some i" for i
    using that by (auto simp: find_Some_iff)
  ultimately show ?thesis using latestGreen_shows [OF g(2), of useFirstExtra] assms(1) g(1)
    by (auto split: option.splits)
qed

lemma latest_green_witness:
  "\<exists>g. ConstructGrid (<) [one_column] [] 2 1 True ''user'' 0 [] = Inr g \<and> latestGreen g False = noGreens"
  using latest_green [of "[one_column]" 2 "(<)" "[]" 1 True "''user''" 0 "[]" False] one_column_cells_ok
  by (simp add: one_column_red)

text \<open>
  C19.  updateDashboard, not interrupted, on a dashboard whose tabs have different names: it
  leaves nothing to do, and every tab with a state gets a summary. That is the one it had when
  that was made from the current state, otherwise the outcome of summarizing the tab now, which
  shows the error if that failed. Tabs that share one state are treated alike: the group of the
  first summarizes all of them, and the summary that the last one had decides whether any is made
  anew; when it is current, the others keep what they had, and one that had none is reported as
  newly created.
\<close>

theorem dashboard_fresh:
  assumes "updateDashboard dash previous find_group stat update None = Inr (summaries, todo)"
    and "distinct (map tab_name (dash_tabs dash))"
    and "i < length (dash_tabs dash)" "dash_tabs dash ! i = tab" "find_group tab = Inr (Some (p, tg))"
    and "sharing = at_path p (states find_group (dash_tabs dash))"
  shows "\<not> todo \<and> (tg, tab) \<in> set sharing \<and> summaries ! i =
    Some (let fresh = outcome (dash_name dash) update tab (fst (hd sharing)) in
      case (stat p, previous_summary previous (tab_name (snd (last sharing)))) of
        (Some updated, Some s) \<Rightarrow>
          if dts_last_update_timestamp s = of_int updated
          then (case previous_summary previous (tab_name tab) of
                  Some own \<Rightarrow> own | None \<Rightarrow> tabStatus (dash_name dash) (tab_name tab) ''Newly created tab'')
          else fresh
      | _ \<Rightarrow> fresh)"
proof -
  have "(p, tg, tab) \<in> set (states find_group (dash_tabs dash))" using assms(3-5) by (auto simp: states_in)
  then have "(tg, tab) \<in> set sharing" by (simp add: assms(6) at_path_in)
  with updateDashboard_shared [OF assms(1-5)] show ?thesis
    by (auto simp: assms(6) tab_delay_def waiting_summary_def Let_def split: option.splits)
qed

lemma dashboard_fresh_witness:
  "\<exists>s. updateDashboard shared_dashboard [kept_summary] (\<lambda>_. Inr (Some (''p'', empty_test_group))) (\<lambda>_. Some 5) failed_update None =
      Inr (s, False) \<and>
    s ! 0 = Some (tabStatus ''d'' (tab_name plain_tab) ''Newly created tab'') \<and> s ! 1 = Some kept_summary"
proof -
  let ?fg = "\<lambda>_ :: dashboard_tab. Inr (Some (''p'', empty_test_group)) :: (string \<times> test_group) option go"
  obtain s todo where run: "updateDashboard shared_dashboard [kept_summary] ?fg (\<lambda>_. Some 5) failed_update None = Inr (s, todo)"
    using shared_dashboard_runs by blast
  have share: "[(empty_test_group, plain_tab), (empty_test_group, plain_tab\<lparr>tab_name := ''u''\<rparr>)] =
      at_path ''p'' (states ?fg (dash_tabs shared_dashboard))"
    by (simp add: shared_dashboard_def found_def at_path_def)
  have d: "distinct (map tab_name (dash_tabs shared_dashboard))" "length (dash_tabs shared_dashboard) = 2"
    "dash_tabs shared_dashboard ! 0 = plain_tab" "dash_tabs shared_dashboard ! 1 = plain_tab\<lparr>tab_name := ''u''\<rparr>"
    by (simp_all add: shared_dashboard_def plain_tab_def empty_dashboard_tab_def)
  have old: "previous_summary [kept_summary] ''u'' = Some kept_summary" "previous_summary [kept_summary] (tab_name plain_tab) = None"
    by (simp_all add: previous_summary_def kept_summary_def tabStatus_def plain_tab_def empty_dashboard_tab_def)
  have facts: "dash_name shared_dashboard = ''d''" "dts_last_update_timestamp kept_summary = 5"
    by (simp_all add: shared_dashboard_def kept_summary_def)
  from dashboard_fresh [OF run d(1) _ d(3) refl share] dashboard_fresh [OF run d(1) _ d(4) refl share] run show ?thesis
    by (simp add: d(2) old facts Let_def)
qed

text \<open>
  C20.  The server finds a tab under every way to write the names of its dashboard and of itself
  that agrees in letters and digits, and under no others, and answers with the tab and the test
  group it shows.
\<close>

theorem tab_found:
  assumes "serves s scope cfg snap"
  shows "GetDashboardTab s scope dq tq = Inr r \<longleftrightarrow>
    (\<exists>d \<in> set (cfg_dashboards cfg). \<exists>t \<in> set (dash_tabs d). \<exists>tg \<in> set (cfg_test_groups cfg).
       Normalize (dash_name d) = Normalize dq \<and> Normalize (tab_name t) = Normalize tq \<and>
       tg_name tg = tab_test_group_name t \<and> r = tab_answer t tg)"
  by (rule GetDashboardTab_iff [OF assms])

lemma tab_found_witness:
  "\<exists>tg. GetDashboardTab (sample_server one_grid \<lparr>ds_tab_summaries = []\<rparr>) [] ''First Board'' ''TESTS'' =
    Inr (tab_answer (hd (dash_tabs sample_board)) tg)"
proof -
  have "tab_test_group_name (hd (dash_tabs sample_board)) = ''unit-tests''"
    "map tg_name (cfg_test_groups sample_config) = [''unit-tests'']"
    by (simp_all add: sample_board_def sample_config_def mini_config_def empty_dashboard_def)
  then obtain tg where "tg \<in> set (cfg_test_groups sample_config)"
    "tg_name tg = tab_test_group_name (hd (dash_tabs sample_board))"
    by (metis (no_types, lifting) image_iff list.set_intros(1) list.set_map)
  note tg = this
  note d = sample_board_facts(1) sample_names(1) [folded sample_board_facts(2)]
  note t = sample_board_facts(3) sample_names(2) [folded sample_board_facts(4)]
  show ?thesis
    by (intro exI [where x = tg] tab_found [OF sample_serves, THEN iffD2] bexI [OF _ d(1)] bexI [OF _ t(1)] bexI [OF _ tg(1)] conjI d(2) t(2) tg(2) refl)
qed

text \<open>
  C21.  The times of a queue survive a restart: after a load that succeeded, any number of ticks
  and a last one that saved, the first tick of the next run loads, and every name of its queue
  that was saved gets the saved time if it is the earlier one; other names keep theirs, and none
  is added.
\<close>

theorem persisted_queue:
  assumes "gcs_contract gl obj" "json_ok js" "fst (tryLoad ul gl js p w q0) = None"
    and "fst (trySave ul gl js p (snd (persist_ticks ul gl js p (q0 # qs) (False, w))) q) = None"
    and "queue_ok q2"
  shows "let w' = snd (persist_ticks ul gl js p (q0 # qs @ [q]) (False, w)) in
    \<exists>q3. persist_tick ul gl js p q2 (False, w') = (None, q3, True, w') \<and> queue_ok q3 \<and>
      mset (wq_queue q3) = mset (wq_queue q2) \<and> names q3 = names q2 \<and>
      (\<forall>n \<in> set (wq_queue q2). when_of q3 n =
         (if n \<in> set (wq_queue q) then min (when_of q n) (when_of q2 n) else when_of q2 n))"
  unfolding Let_def by (rule ticks_save_last [OF assms])

lemma persisted_queue_witness:
  "\<exists>q3. fst (snd (persist_tick plain_urls toy_cloud toy_json (cloud_path ''q'') (one_name 9)
      (False, snd (persist_ticks plain_urls toy_cloud toy_json (cloud_path ''q'') [one_name 9, one_name 5] (False, toy_world))))) = q3 \<and>
    when_of q3 ''g'' = 5"
proof -
  let ?p = "cloud_path ''q''"
  have absent: "client_Open plain_urls toy_cloud NewClient toy_world ?p = Inl ErrObjectNotExist"
    by (simp add: client_Open_def is_cloud_def cloud_path_def real_Open_def toy_cloud_def toy_world_def toy_object_def)
  then have load: "fst (tryLoad plain_urls toy_cloud toy_json ?p toy_world (one_name 9)) = None"
    by (simp add: tryLoad_def)
  have stored: "\<exists>a w'. client_Upload plain_urls toy_cloud NewClient w ?p ''five'' = (Inr a, w')" for w
    by (simp add: client_Upload_def is_cloud_def cloud_path_def toy_cloud_def cond_holds_def NewClient_def on_cloud_def
        toy_put_def Let_def)
  have "Current (one_name 5) = [(''g'', 5)]" by code_simp
  then have save: "fst (trySave plain_urls toy_cloud toy_json ?p w (one_name 5)) = None" for w
    using stored [of w] by (auto simp: trySave_def toy_json_def)
  from persisted_queue [where qs = "[]", OF toy_contract toy_json_ok load save one_name_ok [of 9]]
  show ?thesis by (simp add: Let_def) (auto simp: one_name_def when_of_def item_at_def)
qed

text \<open>
  C22.  A configuration that was gathered from YAML files with an overall default, in directories
  without default files, written as one YAML file and read again with that default is the same:
  everything that a default could fill in has been filled in. This holds for every configuration
  that the YAML package reads back as it wrote it, which it does not for one with a oneof field,
  such as the result source of a test group.
\<close>

theorem config_read_back:
  assumes "\<forall>p \<in> set paths. fs_stat fs p \<noteq> None"
    and "defaultpath \<noteq> []" "read_default fs yaml defaultpath = Inr overall"
    and "\<forall>p \<in> set (yaml_files fs paths). \<not> is_default p"
    and "\<forall>p \<in> set (yaml_files fs paths). \<exists>b. fs_read fs p = Inr b \<and> yl_config yaml strict b = Inr (content p)"
    and "ReadConfig fs yaml paths defaultpath strict = Inr (Some c)"
    and "MarshalYAML rx subexps yaml (Some c) = Inr b" "yaml_restores yaml strict c"
    and "fs_stat fs' p = Some FileNode" "is_yaml p" "\<not> is_default p" "fs_read fs' p = Inr b"
    and "read_default fs' yaml defaultpath = Inr overall"
  shows "ReadConfig fs' yaml [p] defaultpath strict = Inr (Some c)"
  by (rule written_then_read [OF assms])

lemma config_read_back_witness:
  "ReadConfig toy_files toy_yaml [''c.yaml''] ''d.yaml'' True = Inr (Some (with_defaults toy_defaults sample_config)) \<and>
   ReadConfig toy_files toy_yaml [''written.yaml''] ''d.yaml'' True = Inr (Some (with_defaults toy_defaults sample_config))"
proof -
  note f = toy_files_facts
  let ?c = "with_defaults toy_defaults sample_config"
  have st: "\<forall>p \<in> set [''c.yaml'']. fs_stat toy_files p \<noteq> None" and dp: "''d.yaml'' \<noteq> []"
    and d: "\<forall>p \<in> set (yaml_files toy_files [''c.yaml'']). \<not> is_default p"
    and r: "\<forall>p \<in> set (yaml_files toy_files [''c.yaml'']). \<exists>b. fs_read toy_files p = Inr b \<and>
      yl_config toy_yaml True b = Inr ((\<lambda>_. sample_config) p)"
    using f(1,2) by (simp_all add: toy_files_def toy_yaml_def)
  have ds: "distinct (map file_Dir (filter is_default (yaml_files toy_files [''c.yaml''])))" using f(1,2) by simp
  from ReadConfig_spec [where dflt = "\<lambda>_. toy_defaults" and content = "\<lambda>_. sample_config", OF st dp f(5) ds] d r
  have c: "ReadConfig toy_files toy_yaml [''c.yaml''] ''d.yaml'' True = Inr (Some ?c)"
    by (simp add: f(1,2) file_defaults_def dir_defaults_def)
  have m: "MarshalYAML (\<lambda>_. Some (\<lambda>_. True)) (\<lambda>_. Some []) toy_yaml (Some ?c) = Inr ''written.yaml''"
    by (simp add: MarshalYAML_def sample_defaulted_valid toy_yaml_def wrap_error_def)
  have p: "fs_stat toy_files ''written.yaml'' = Some FileNode" "fs_read toy_files ''written.yaml'' = Inr ''written.yaml''"
    by (simp_all add: toy_files_def)
  from config_read_back [where content = "\<lambda>_. sample_config", OF st dp f(5) d r c m toy_yaml_restores p(1) f(3,4) p(2) f(5)] c
  show ?thesis by blast
qed

text \<open>
  C23.  The summarizer and the server: when the summarizer is done with a dashboard and had the
  time for it, nothing is left to do, and for each of its tabs the server shows the summary of the
  grid that is stored for the tab, or the one that was stored before exactly when the state of the
  tab is as old as that summary.
\<close>

theorem dashboard_pass_shown:
  assumes "gcs_contract gl obj" "\<And>x buf. marshal x = Inr buf \<Longrightarrow> srv_summary s buf = Inr x"
    and "updateName s gl marshal showTime seconds modified now features dashboards groups cfgPath tabPrefix
      (srv_summary_prefix s) True None (dash_name d) w = (Inr todo, w')"
    and "configPath s scope = Inr (cfgPath, b)" "map_of dashboards (dash_name d) = Some d"
    and "serves s scope cfg snap" "d \<in> set (cfg_dashboards cfg)" "Normalize (dash_name d) = Normalize dq"
    and "t \<in> set (dash_tabs d)" "Normalize (tab_name t) = Normalize tq"
    and "findGroup (srv_urls s) groups cfgPath tabPrefix (dash_name d) t = Inr (Some (p, tg))"
    and "distinct (map fst (states (\<lambda>tab. go_bind (findGroup (srv_urls s) groups cfgPath tabPrefix (dash_name d) tab)
          (\<lambda>x. Inr (map_option (\<lambda>(p, tg). (ul_string (srv_urls s) p, tg)) x))) (dash_tabs d)))"
    and "SummaryPath (srv_urls s) cfgPath (srv_summary_prefix s) (dash_name d) = Inr sp"
    and "ReadSummary (server_on gl w s) sp = Inr summ"
  shows "let previous = previous_summary (case summ of None \<Rightarrow> [] | Some x \<Rightarrow> ds_tab_summaries x) (tab_name t);
      fresh = outcome (dash_name d) (\<lambda>tab tg. updateTab showTime now features (readGrid s gl modified w p) tab tg) t tg;
      changed = stat_seconds s gl seconds w (tab_paths (srv_urls s) groups cfgPath tabPrefix d) (ul_string (srv_urls s) p)
    in \<not> todo \<and> GetTabSummary (server_on gl w' s) scope dq tq = Inr (convertSummary
      (case (changed, previous) of
         (Some updated, Some x) \<Rightarrow> if dts_last_update_timestamp x = of_int updated then x else fresh
       | _ \<Rightarrow> fresh))"
  unfolding Let_def by (rule dashboard_pass_served [OF assms(1) _ assms(3-14)]) (rule assms(2))

lemma dashboard_pass_shown_witness:
  "\<exists>w'. updateName board_server toy_cloud board_marshal (\<lambda>_. []) id (\<lambda>_. None) 5 no_features [(''first-board'', sample_board)]
      [(''unit-tests'', pass_group)] pass_config ''tabs'' ''summaries'' True None ''first-board'' board_world = (Inr False, w') \<and>
    GetTabSummary (server_on toy_cloud w' board_server) [] ''First Board'' ''TESTS'' =
      Inr (convertSummary (outcome ''first-board'' board_update pass_tab pass_group))"
proof -
  let ?p = "(cloud_path [])\<lparr>u_path := ''tabs/first-board/tests''\<rparr>" and ?groups = "[(''unit-tests'', pass_group)]"
  let ?sp = "(cloud_path [])\<lparr>u_path := ''summaries/summary-firstboard''\<rparr>"
  note f = pass_facts
  have s: "srv_urls board_server = plain_urls" "srv_summary_prefix board_server = ''summaries''"
      "\<And>b. srv_summary board_server b = Inr board_summary"
    by (simp_all add: board_server_def pass_server_def sample_server_def)
  have serves: "serves board_server [] sample_config (mapped_config sample_config (Some 1))"
      and cp: "configPath board_server [] = Inr (pass_config, True)"
  proof -
    have c: "configPath board_server scope = configPath pass_server scope" for scope
      by (simp add: board_server_def configPath_def)
    moreover have "observed_cache board_server p = observed_cache pass_server p" for p
      by (simp add: observed_cache_def board_server_def cong: sum.case_cong go_error.case_cong)
    moreover have "srv_cache board_server = srv_cache pass_server" by (simp add: board_server_def)
    ultimately have "fst (getConfig board_server []) = fst (getConfig pass_server [])"
      by (simp add: getConfig_def Let_def split: sum.split prod.split option.split)
    then show "serves board_server [] sample_config (mapped_config sample_config (Some 1))"
      using pass_serves(1) by (simp add: serves_def)
    show "configPath board_server [] = Inr (pass_config, True)" using c pass_serves(2) by simp
  qed
  have fg: "findGroup plain_urls ?groups pass_config ''tabs'' ''first-board'' pass_tab = Inr (Some (?p, pass_group))"
    by (simp add: findGroup_def f)
  have sp: "SummaryPath plain_urls pass_config ''summaries'' ''first-board'' = Inr ?sp" by code_simp
  have absent: "ReadSummary (server_on toy_cloud board_world board_server) ?sp = Inr None"
    by (simp add: ReadSummary_def server_on_def client_Open_def is_cloud_def cloud_path_def real_Open_def toy_cloud_def
        toy_object_def board_world_def toy_world_def Bucket_def Object_def NewClient_def s wrap_error_def)
  have read: "readGrid board_server toy_cloud (\<lambda>_. None) board_world ?p = Inr (pass_grid, None)"
    by (simp add: readGrid_def client_Open_def is_cloud_def cloud_path_def real_Open_def toy_cloud_def toy_object_def
        board_world_def toy_world_def Bucket_def Object_def NewClient_def wrap_error_def board_server_def pass_server_def
        sample_server_def)
  then have upd: "(\<lambda>tab tg. updateTab (\<lambda>_. []) 5 no_features (readGrid board_server toy_cloud (\<lambda>_. None) board_world ?p) tab tg) =
      board_update" by (simp add: board_update_def fun_eq_iff)
  have up: "updated_summary board_server toy_cloud (\<lambda>_. []) id (\<lambda>_. None) 5 no_features ?groups pass_config ''tabs'' None
      sample_board [] board_world = Inr ([Some (outcome ''first-board'' board_update pass_tab pass_group)], False)"
    unfolding updated_summary_def by (rule board_updated) (simp_all add: f s fg read board_update_def)
  obtain a w' where stored: "client_Upload plain_urls toy_cloud NewClient board_world ?sp ''summary'' = (Inr a, w')"
    by (simp add: client_Upload_def is_cloud_def cloud_path_def toy_cloud_def toy_put_def cond_holds_def NewClient_def on_cloud_def Let_def)
  have run: "updateName board_server toy_cloud board_marshal (\<lambda>_. []) id (\<lambda>_. None) 5 no_features
      [(''first-board'', sample_board)] ?groups pass_config ''tabs'' ''summaries'' True None ''first-board'' board_world = (Inr False, w')"
    unfolding updateName_def by (simp add: s sp absent up wrap_error_def writeSummary_def board_marshal_def
        board_summary_def [symmetric] stored del: url.update_convs)
  have dec: "board_marshal x = Inr buf \<Longrightarrow> srv_summary board_server buf = Inr x" for x buf
    by (auto simp: board_marshal_def s split: if_splits)
  let ?fg = "\<lambda>tab. go_bind (findGroup plain_urls ?groups pass_config ''tabs'' ''first-board'' tab)
    (\<lambda>x. Inr (map_option (\<lambda>(p, tg). (ul_string plain_urls p, tg)) x))"
  have "length (states ?fg [pass_tab]) \<le> 1" by (simp split: option.split)
  then have "distinct (map fst (states ?fg [pass_tab]))" by (cases "states ?fg [pass_tab]") auto
  then have "let previous = previous_summary [] (tab_name pass_tab);
      fresh = outcome (dash_name sample_board) board_update pass_tab pass_group;
      changed = stat_seconds board_server toy_cloud id board_world (tab_paths (srv_urls board_server) ?groups pass_config ''tabs'' sample_board)
        (ul_string (srv_urls board_server) ?p)
    in \<not> False \<and> GetTabSummary (server_on toy_cloud w' board_server) [] ''First Board'' ''TESTS'' = Inr (convertSummary
      (case (changed, previous) of
         (Some updated, Some x) \<Rightarrow> if dts_last_update_timestamp x = of_int updated then x else fresh
       | _ \<Rightarrow> fresh))"
    using dashboard_pass_shown [where s = board_server and w = board_world and marshal = board_marshal and d = sample_board and
      t = pass_tab and groups = ?groups and p = ?p and tg = pass_group and sp = ?sp and summ = None and todo = False and w' = w' and
      dq = "''First Board''" and tq = "''TESTS''" and seconds = id and modified = "\<lambda>_. None" and now = 5 and features = no_features and
      showTime = "\<lambda>_. []" and dashboards = "[(''first-board'', sample_board)]" and tabPrefix = "''tabs''",
      OF toy_contract dec _ cp _ serves, unfolded upd option.case] run fg sp absent sample_names
    by (simp only: f s list.set insert_iff simp_thms map_of.simps fst_conv snd_conv fun_upd_same)
  with run show ?thesis by (simp add: Let_def previous_summary_def f split: option.split)
qed

text \<open>
  C24.  The merger uploads only what it could read in full: with a read that fails it uploads
  nothing, and otherwise, in whatever order the reads end, exactly the convergence of the sources
  that are valid, once, to the target; every reference in it is resolved.
\<close>

theorem merge_uploads:
  assumes ok: "merge_list_ok lst" and order: "mset order = mset (ml_sources lst)"
    and valid: "valid = (\<lambda>c. Validate rx subexps (Some c) = [])"
    and shards: "shards = merged_shards rd valid False (ml_sources lst)" "shards \<noteq> []"
  shows "((\<exists>s \<in> set (ml_sources lst). \<exists>e. rd s = Inl e) \<longrightarrow>
      snd (MergeAndUpdate ul rd valid marshal upload lst order False True) = []) \<and>
    ((\<forall>s \<in> set (ml_sources lst). \<exists>x. rd s = Inr x) \<longrightarrow>
      (\<exists>r p. Converge shards = Inr r \<and> ml_path lst = Some p \<and> refs_resolved r \<and>
        (\<forall>buf. marshal r = Inr buf \<longrightarrow>
           snd (MergeAndUpdate ul rd valid marshal upload lst order False True) = [(p, buf)])))"
proof (intro conjI impI)
  assume "\<exists>s \<in> set (ml_sources lst). \<exists>e. rd s = Inl e"
  from MergeAndUpdate_fatal [OF ok order this] show
    "snd (MergeAndUpdate ul rd valid marshal upload lst order False True) = []" by (metis snd_conv)
next
  assume all: "\<forall>s \<in> set (ml_sources lst). \<exists>x. rd s = Inr x"
  from MergeAndUpdate_reads [OF ok order all, of valid False ul marshal upload True] shards obtain r where
    r: "Converge shards = Inr r" "\<forall>buf p. marshal r = Inr buf \<and> ml_path lst = Some p \<longrightarrow>
      snd (MergeAndUpdate ul rd valid marshal upload lst order False True) = [(p, buf)]" by auto
  obtain p where p: "ml_path lst = Some p" using ok by (auto simp: merge_list_ok_def)
  have "refs_resolved (snd s)" if "s \<in> set shards" for s
  proof -
    have "valid (snd s)" using merged_shards_valid [of "fst s" "snd s" rd valid False "ml_sources lst"] that by (simp add: shards(1))
    then show ?thesis by (simp add: valid Validate_iff references_ok_resolved)
  qed
  then have "refs_resolved r" using Converge_refs [OF r(1)] by blast
  with r p show "\<exists>r p. Converge shards = Inr r \<and> ml_path lst = Some p \<and> refs_resolved r \<and>
      (\<forall>buf. marshal r = Inr buf \<longrightarrow>
         snd (MergeAndUpdate ul rd valid marshal upload lst order False True) = [(p, buf)])" by blast
qed

lemma merge_uploads_witness:
  "snd (MergeAndUpdate plain_urls (\<lambda>_. Inr (sample_config, None))
      (\<lambda>c. Validate (\<lambda>_. Some (\<lambda>_. True)) (\<lambda>_. Some []) (Some c) = []) (\<lambda>_. Inr ''bytes'') (\<lambda>_ _. Inr ())
      sample_list (ml_sources sample_list) False True) = [(the (ml_path sample_list), ''bytes'')]"
proof -
  let ?v = "\<lambda>c. Validate (\<lambda>_. Some (\<lambda>_. True)) (\<lambda>_. Some []) (Some c) = []"
  have "merged_shards (\<lambda>_. Inr (sample_config, None)) ?v False (ml_sources sample_list) = [(''a'', sample_config)]"
    by (simp add: sample_list_def shard_of_def sample_config_valid)
  from merge_uploads [OF sample_list_ok refl refl this [symmetric], of plain_urls "\<lambda>_. Inr ''bytes''" "\<lambda>_ _. Inr ()"]
  show ?thesis by auto
qed

text \<open>
  C25.  The snapshots that Observe sends follow the stored configuration: every one decodes the
  object as it was at the start or at a tick, no two in a row are of the same generation, and
  after a tick at which one of three attempts to read succeeds, the last one sent is of the object
  that is stored then.
\<close>

theorem observed_config:
  assumes "conditional_store op obj" "Observe Unmarshal op path start ticks = Inr snaps"
  shows "snaps \<noteq> [] \<and> successively (\<lambda>a b. sn_generation a \<noteq> sn_generation b) snaps \<and>
    (\<forall>snap \<in> set snaps. \<exists>t \<in> insert start (set ticks). shows_object Unmarshal obj t snap) \<and>
    (ticks \<noteq> [] \<and> read_answers Unmarshal op obj (last ticks) \<longrightarrow>
       shows_object Unmarshal obj (last ticks) (last snaps))"
  by (rule Observe_follows [OF assms])

lemma observed_config_witness:
  "\<exists>snaps. Observe (\<lambda>_. Inr sample_config) growing_store ''p'' 0 [1] = Inr snaps \<and>
    shows_object (\<lambda>_. Inr sample_config) (\<lambda>t. ([], int t + 1)) 1 (last snaps)"
proof -
  have st: "conditional_store growing_store (\<lambda>t. ([], int t + 1))"
    by (auto simp: conditional_store_def growing_store_def split: if_splits)
  have run: "Observe (\<lambda>_. Inr sample_config) growing_store ''p'' 0 [1] =
      Inr [mapped_config sample_config (Some 1), mapped_config sample_config (Some 2)]"
    by (simp add: Observe_def updateHash_def fetchConfig_def fetchConfigOnce_def wrap_error_def growing_store_def
        mapped_config_def)
  have "\<exists>k < 3. \<exists>x. growing_store g 1 k = Inr x" if "g \<noteq> 2" for g
    using that by (intro exI [of _ 0]) (simp add: growing_store_def)
  then have "read_answers (\<lambda>_. Inr sample_config) growing_store (\<lambda>t. ([], int t + 1)) 1"
    by (simp add: read_answers_def)
  with observed_config [OF st run] run show ?thesis by auto
qed

text \<open>
  C26.  The ResultStore reader returns columns exactly when every fetched invocation is in order:
  it has a start time where the build is formatted from it, and no included result holds an empty
  test suite at any depth. One such suite crashes the reader, and one unordered invocation stops
  the columns of all the others.
\<close>

theorem reader_total:
  assumes "libs_ok lb"
  shows "(\<exists>cols. read_columns lb tg results = Inr cols) \<longleftrightarrow>
    (\<forall>iv \<in> set (processRawResults results). invocation_ok tg iv)"
  by (rule read_columns_returns [OF assms])

lemma reader_total_witness:
  "(\<exists>iv \<in> set (processRawResults [raw_passed]). invocation_ok empty_test_group iv) \<and>
   \<not> (\<exists>cols. read_columns plain_libs empty_test_group [raw_passed, raw_empty_suite] = Inr cols)"
proof
  have "processRawResults [raw_passed] \<noteq> []" by code_simp
  then show "\<exists>iv \<in> set (processRawResults [raw_passed]). invocation_ok empty_test_group iv"
    using reader_total [OF plain_libs_ok, of empty_test_group "[raw_passed]"] passed_columns_read(1) hd_in_set by blast
  have "\<not> (\<forall>iv \<in> set (processRawResults [raw_passed, raw_empty_suite]). invocation_ok empty_test_group iv)"
    by code_simp
  then show "\<not> (\<exists>cols. read_columns plain_libs empty_test_group [raw_passed, raw_empty_suite] = Inr cols)"
    using reader_total [OF plain_libs_ok, of empty_test_group "[raw_passed, raw_empty_suite]"] by blast
qed

text \<open>
  C27.  On a well-formed grid InflateGrid never panics and returns exactly the columns whose start
  lies between the two bounds (the first column not too recent stays however old it is), each with
  the cell every row encodes at that index.
\<close>

theorem inflate_window:
  assumes "grid_ok g" "\<forall>j. \<not> cancelled j"
  shows "InflateGrid cancelled g earliest latest =
    Inr (map (inflated_at g) (kept_columns earliest latest False 0 (grid_columns g)),
         grid_issues (grid_rows g))"
  using assms by (rule InflateGrid_kept)

lemma inflate_window_witness:
  "InflateGrid (\<lambda>_. False) one_grid 0 10 =
    Inr (map (inflated_at one_grid) (kept_columns 0 10 False 0 (grid_columns one_grid)),
         grid_issues (grid_rows one_grid))"
  by (rule inflate_window)
    (simp_all add: one_grid_def grid_ok_def packed_inflatable packed_failed_row row_statuses_failed_row)

text \<open>
  C28.  Converge keeps references intact: when every tab of every shard names a test group of its
  shard, and every group of dashboards names dashboards of its shard, so it is in the merged
  configuration, with all renamed; and when names are apart in each shard and the negotiation
  gives no name twice, they are apart in the result.
\<close>

theorem merged_references:
  assumes "Converge shards = Inr r" "\<forall>s \<in> set shards. refs_resolved (snd s)"
  shows "refs_resolved r \<and>
    ((\<forall>s \<in> set shards. names_apart (snd s)) \<and> clash_free converge_start (sort_key fst shards) \<longrightarrow> names_apart r)"
proof
  show "refs_resolved r" by (rule Converge_refs [OF assms])
  show "(\<forall>s \<in> set shards. names_apart (snd s)) \<and> clash_free converge_start (sort_key fst shards) \<longrightarrow> names_apart r"
    using Converge_apart [OF assms(1)] assms(2) by blast
qed

lemma merged_references_witness:
  "refs_resolved (mini_config ''g'' ''d'') \<and> names_apart (mini_config ''g'' ''d'')"
proof -
  have c: "Converge [(''a'', mini_config ''g'' ''d'')] = Inr (mini_config ''g'' ''d'')"
    "clash_free converge_start (sort_key fst [(''a'', mini_config ''g'' ''d'')])"
    by code_simp+
  have "refs_resolved (mini_config ''g'' ''d'')" "names_apart (mini_config ''g'' ''d'')" by code_simp+
  with merged_references [OF c(1)] c(2) show ?thesis by simp
qed

text \<open>
  C29.  Validate reports no error exactly when the configuration has test groups and dashboards,
  its names are well formed and different after normalisation, every test group is used by a tab
  and every tab and every member of a group of dashboards refers to something that exists, and
  every test group and tab is valid by itself.
\<close>

theorem valid_configuration:
  "Validate rx subexps (Some c) = [] \<longleftrightarrow>
   cfg_test_groups c \<noteq> [] \<and> cfg_dashboards c \<noteq> [] \<and> names_ok c \<and> references_ok c \<and> entities_ok rx subexps c"
  by (rule Validate_iff)

text \<open>
  C30.  From a message to the queue: when a Pub/Sub message is understood and its notification is
  taken, every test group that subscribes to a path above the object is due within the delay of
  that kind of object; the names of the queue stay.
\<close>

theorem messages_make_due:
  assumes "gcsSubscribedPaths url_parse ms tgs = Inr (paths, subs)" "queue_ok q" "all_queued q"
    and "processGCSNotifications paths (map (\<lambda>n. (updater_notice n, clock n)) (snd (sendToReceivers ul pt msgs))) q = Inr q'"
    and "(msg, True) \<in> set msgs" "notice_of ul pt msg = Inr n"
    and "notice_delay (path_object (gn_path (updater_notice n))) = Some delay"
    and "tg \<in> set tgs" "subscribes url_parse ms tg p" "gp_bucket p = u_host (no_path n)"
    and "has_prefix (path_object (gn_path (updater_notice n))) (path_object p)"
  shows "when_of q' (tg_name tg) \<le> max (clock n) (no_time n + delay) \<and> names q' = names q"
  by (rule messages_due [where clock = clock, OF assms])

lemma messages_make_due_witness:
  "snd (sendToReceivers notice_urls ParseInt64 [(junit_message, True)]) = [junit_read] \<and>
   when_of (one_name 300000000002) (tg_name subscribed_group) \<le> max 5 (no_time junit_read + 300000000000)"
proof -
  note facts = subscribed_group_facts and r = junit_message_read
  have s: "snd (sendToReceivers notice_urls ParseInt64 [(junit_message, True)]) = [junit_read]"
    by (simp add: sendToReceivers_def receive_message_def r Let_def map_filter_simps)
  have run: "processGCSNotifications [(\<lparr>gp_bucket = ''b'', gp_url_path = ''/g/''\<rparr>, [''g''])]
      (map (\<lambda>n. (updater_notice n, (\<lambda>_. 5) n)) (snd (sendToReceivers notice_urls ParseInt64 [(junit_message, True)])))
      (one_name 900000000000) = Inr (one_name 300000000002)"
    using facts(2) by (simp add: s r(2))
  have b: "u_host (no_path junit_read) = ''b''" by (simp add: junit_read_def cloud_path_def)
  from messages_make_due [where clock = "\<lambda>_. 5", OF facts(1) one_name_ok one_name_queued run _ r(1)] facts(3-6) b s
  show ?thesis by (simp add: r(2))
qed

text \<open>
  C31.  A test action that is sent to ResultStore and read back is the same, with its suites in
  their order at every depth, except for what the messages do not carry: the files of the cases,
  the results of the suites and negative durations. The times are those since 1970 that fit 64
  bits of nanoseconds.
\<close>

theorem test_sent_back:
  assumes "action_ok (ta_action t)" "suite_times_ok (ta_suite t)"
  shows "fromTest (Test_To t) = Inr
    (t\<lparr>ta_action := (ta_action t)\<lparr>ac_duration := max (ac_duration (ta_action t)) 0\<rparr>,
       ta_suite := kept_suite (ta_suite t)\<rparr>)"
  by (rule test_round_trip [OF assms])

lemma test_sent_back_witness:
  "fromTest (Test_To \<lparr>ta_action = \<lparr>ac_description = ''d'', ac_status = 5, ac_start = 1500000000, ac_duration = 7,
      ac_node = [], ac_exit_code = 0\<rparr>, ta_suite = no_suite, ta_warnings = [''w'']\<rparr>) =
    Inr \<lparr>ta_action = \<lparr>ac_description = ''d'', ac_status = 5, ac_start = 1500000000, ac_duration = 7,
      ac_node = [], ac_exit_code = 0\<rparr>, ta_suite = no_suite, ta_warnings = [''w'']\<rparr>"
  using test_sent_back [of "\<lparr>ta_action = \<lparr>ac_description = ''d'', ac_status = 5, ac_start = 1500000000, ac_duration = 7,
      ac_node = [], ac_exit_code = 0\<rparr>, ta_suite = no_suite, ta_warnings = [''w'']\<rparr>"]
  by (simp add: action_ok_def time_ok_def duration_ok_def no_suite_def)

text \<open>
  C32.  The healthiness that the API reports counts the tests whose flakiness is positive and
  lists the most flaky of them, at most five: they are flaky, in falling order, and no test that
  is left out is more flaky than one that is listed.
\<close>

theorem flaky_tests_listed:
  "\<exists>hs listed left. extractHealthinessSummary (Some h) = Some hs \<and>
    hs_num_flaky hs = int (length (filter (\<lambda>t. 0 < ti_flakiness t) (hi_tests h))) \<and>
    hs_top_flaky hs = map flaky_info_of listed \<and>
    length listed = min 5 (length (filter (\<lambda>t. 0 < ti_flakiness t) (hi_tests h))) \<and>
    mset (hi_tests h) = mset listed + mset left \<and>
    sorted_wrt (\<lambda>a b. ti_flakiness a \<ge> ti_flakiness b) listed \<and>
    (\<forall>x \<in> set listed. 0 < ti_flakiness x \<and> (\<forall>y \<in> set left. ti_flakiness y \<le> ti_flakiness x))"
  by (rule extractHealthinessSummary_spec)

lemma flaky_tests_listed_witness:
  "\<exists>hs. extractHealthinessSummary (Some \<lparr>hi_start = 0, hi_end = 0, hi_tests = [], hi_average_flakiness = 0,
      hi_previous_flakiness = []\<rparr>) = Some hs \<and> hs_num_flaky hs = 0"
  using flaky_tests_listed [of "\<lparr>hi_start = 0, hi_end = 0, hi_tests = [], hi_average_flakiness = 0,
      hi_previous_flakiness = []\<rparr>"] by auto

text \<open>
  C33.  A stored grid that cannot be decompressed is never replaced: the updater goes on as if
  there were no grid, but its upload then demands that there be no object and is refused, whatever
  happened since. An update either reports the error met in making the new grid, which it makes
  without the old one, or a failed precondition, as if another updater had been faster; the stored
  objects stay as they are.
\<close>

theorem unreadable_grid_stuck:
  assumes "gcs_contract gl obj" "gcs_refuses gl obj" "is_cloud p" "gcs_run gl (wd_cloud w0) (wd_cloud w1)"
    and "obj (wd_cloud w0) (Bucket p, Object p) = Some (content, generation)"
    and "go_bind (srv_zlib s (Inr content)) id = Inl e"
    and "update_grid s gl marshal partial nl ft rs cancelled expired now reprocess True tg p evs w0 w1 = Some (r, w2)"
  shows "obj (wd_cloud w2) = obj (wd_cloud w1) \<and>
    r = (case the (InflateDropAppend nl ft rs marshal cancelled expired now reprocess tg None None evs) of
           Inl e' \<Rightarrow> Inl e'
         | Inr result \<Rightarrow> wrap_error ''upload: '' (Inl (opened PreconditionFailed)))"
  by (rule unreadable_stuck [OF assms])

lemma unreadable_grid_stuck_witness:
  "\<exists>w2. update_grid (pass_server\<lparr>srv_zlib := \<lambda>_. Inl (Failed ''invalid header'')\<rparr>) toy_cloud (\<lambda>_. Inr ''bytes'') (\<lambda>_. empty_grid) (<)
      (\<lambda>_ s. s) [] (\<lambda>_. False) (\<lambda>_. False) 9999999 0 True empty_test_group (cloud_path ''grid/unit-tests'')
      [NewColumn one_column, ReaderDone None] pass_world pass_world =
        Some (wrap_error ''upload: '' (Inl (opened PreconditionFailed)), w2) \<and>
    toy_object (wd_cloud w2) = toy_object (wd_cloud pass_world)"
proof -
  let ?s = "pass_server\<lparr>srv_zlib := \<lambda>_. Inl (Failed ''invalid header'')\<rparr>" and ?p = "cloud_path ''grid/unit-tests''"
  let ?run = "update_grid ?s toy_cloud (\<lambda>_. Inr ''bytes'') (\<lambda>_. empty_grid) (<) (\<lambda>_ s. s) [] (\<lambda>_. False) (\<lambda>_. False) 9999999 0 True
    empty_test_group ?p [NewColumn one_column, ReaderDone None] pass_world pass_world"
  have p: "is_cloud ?p" by (simp add: is_cloud_def cloud_path_def)
  have there: "toy_object (wd_cloud pass_world) (Bucket ?p, Object ?p) = Some (''grid'', 1)"
    by (simp add: toy_object_def pass_world_def toy_world_def cloud_path_def Bucket_def Object_def)
  have bad: "go_bind (srv_zlib ?s (Inr ''grid'')) id = Inl (Failed ''invalid header'')" by simp
  have "gcs_reads toy_cloud toy_object" using toy_contract by (simp add: gcs_contract_def)
  from old_grid_cloud [OF this p, of ?s "\<lambda>_. empty_grid" pass_world]
  have "old_grid ?s toy_cloud (\<lambda>_. empty_grid) pass_world ?p = (None, None)" by (simp add: there)
  moreover obtain x where x: "InflateDropAppend (<) (\<lambda>_ s. s) [] (\<lambda>_. Inr ''bytes'') (\<lambda>_. False) (\<lambda>_. False) 9999999 0
      empty_test_group None None [NewColumn one_column, ReaderDone None] = Some (Inr x)" using small_update_runs by blast
  ultimately have "?run \<noteq> None" by (auto simp: update_grid_def split: prod.split sum.split)
  then obtain r w2 where run: "?run = Some (r, w2)" by auto
  from unreadable_grid_stuck [OF toy_contract toy_refuses p run_none there bad run] run show ?thesis by (simp add: x)
qed

text \<open>
  C34.  The search for a new name ends and finds one: negotiateConversions gives exactly the names
  that are taken in the merged configuration a new name, which is none of the old names and none
  of the names of the shard, and has the form prefix-name or prefix-n-name.
\<close>

theorem fresh_names:
  "map fst (negotiateConversions prefix original new) =
     (if original = [] \<or> new = [] then [] else filter (\<lambda>k. k \<in> set original) new) \<and>
   (\<forall>(k, k') \<in> set (negotiateConversions prefix original new).
      k' \<notin> set original \<and> k' \<notin> set new \<and> (\<exists>b \<ge> 1. k' = candidate prefix k b))"
proof
  show "map fst (negotiateConversions prefix original new) =
      (if original = [] \<or> new = [] then [] else filter (\<lambda>k. k \<in> set original) new)"
    by (simp add: negotiateConversions_def comp_def)
  show "\<forall>(k, k') \<in> set (negotiateConversions prefix original new).
      k' \<notin> set original \<and> k' \<notin> set new \<and> (\<exists>b \<ge> 1. k' = candidate prefix k b)"
    using free_name_free [of 1 prefix _ "original @ new"]
    by (auto simp: negotiateConversions_def split: if_splits)
qed

lemma fresh_names_witness:
  "map fst (negotiateConversions ''p'' [''a'', ''b''] [''a'', ''c'']) = [''a'']"
  using fresh_names [of "''p''" "[''a'', ''b'']" "[''a'', ''c'']"] by simp

text \<open>
  C35.  Uninterrupted, shrinkGridInline returns the grid of all columns when its bytes are below
  the ceiling. Otherwise it tries the first half of the columns, the first quarter and so on, the
  cells of the last one replaced by a note, and returns the first trial whose bytes are below half
  of the ceiling; only when every trial down to the one with one column is too large, the grid is
  the single column that reports the deletion. The bytes it returns encode the grid it returns.
\<close>

theorem shrunk_grid_fits:
  assumes "shrinkGridInline nl marshal expired tg cols issues m = Inr (g, buf)"
    "\<forall>k. \<not> expired k" "0 < m"
  shows "\<exists>whole bytes. constructGridFromGroupConfig nl tg cols issues = Inr whole \<and> marshal whole = Inr bytes \<and>
    marshal g = Inr buf \<and>
    (if length bytes < m then (g, buf) = (whole, bytes)
     else let shrunk = trial (\<lambda>cs. constructGridFromGroupConfig nl tg cs issues) marshal (length bytes) m cols;
              sizes = halves (length cols div 2) in
       (\<exists>ks k rest. sizes = ks @ k # rest \<and> (\<forall>j \<in> set ks. too_large (shrunk j) (m div 2)) \<and>
          shrunk k = Inr (g, buf) \<and> length buf < m div 2) \<or>
       (\<forall>j \<in> set sizes. too_large (shrunk j) (m div 2)) \<and> cols \<noteq> [] \<and>
          constructGridFromGroupConfig nl tg (deletedColumn (hd cols)) [] = Inr g)"
proof -
  have "marshal g = Inr buf" if "trial mkgrid marshal b m cols k = Inr (g, buf)" for mkgrid b k
    using that by (auto simp: trial_def go_simps)
  with shrinkGridInline_trials [OF assms] show ?thesis unfolding Let_def by (metis prod.inject)
qed

lemma shrunk_grid_fits_witness:
  "\<exists>g whole bytes. shrinkGridInline (\<lambda>_ _. False) toy_marshal (\<lambda>_. False) empty_test_group [one_column] [] 9 = Inr (g, ''r'') \<and>
    toy_marshal whole = Inr bytes \<and> toy_marshal g = Inr ''r'' \<and> (length bytes < 9 \<longrightarrow> (g, ''r'') = (whole, bytes))"
proof -
  have "case shrinkGridInline (\<lambda>_ _. False) toy_marshal (\<lambda>_. False) empty_test_group [one_column] [] 9 of
      Inl e \<Rightarrow> False | Inr (g, b) \<Rightarrow> b = ''r''"
    by code_simp
  then obtain g where run:
    "shrinkGridInline (\<lambda>_ _. False) toy_marshal (\<lambda>_. False) empty_test_group [one_column] [] 9 = Inr (g, ''r'')"
    by (auto split: sum.splits)
  from shrunk_grid_fits [OF run] run show ?thesis by (simp del: halves.simps) (metis (full_types))
qed

text \<open>
  C36.  The names of JUnit files: of a file junit_CONTEXT_TIMESTAMP_THREAD.xml below some
  directory, parseSuitesMeta gives back the context, the time stamp and the thread.
\<close>

theorem suites_named:
  assumes "dir \<noteq> []" "c \<noteq> []" "CHR ''_'' \<notin> set c" "CHR ''/'' \<notin> set c" "is_timestamp t" "is_digits h"
  shows "parseSuitesMeta (dir @ ''/junit_'' @ c @ ''_'' @ t @ ''_'' @ h @ ''.xml'') = Some (suites_metadata c t h)"
  by (rule parseSuitesMeta_name [OF assms])

lemma suites_named_witness:
  "parseSuitesMeta ''artifacts/junit_context_20180102-1256_07.xml'' = Some (suites_metadata ''context'' ''20180102-1256'' ''07'')"
proof -
  have "is_timestamp ''20180102-1256''" "is_digits ''07''" by code_simp+
  from suites_named [OF _ _ _ _ this, of "''artifacts''" "''context''"] show ?thesis by simp
qed

text \<open>
  C37.  Two tabs of a valid configuration may share one place: a slash in the name of a dashboard
  or of a tab passes the validation, and the path of a tab's state does not tell where the name of
  the dashboard ends.
\<close>

theorem tab_states_collide:
  assumes "rx [] \<noteq> None"
  shows "Validate rx subexps (Some slashed_config) = [] \<and>
    (\<exists>d t d' t'. d \<in> set (cfg_dashboards slashed_config) \<and> t \<in> set (dash_tabs d) \<and>
       d' \<in> set (cfg_dashboards slashed_config) \<and> t' \<in> set (dash_tabs d') \<and>
       dash_name d \<noteq> dash_name d' \<and> tab_name t \<noteq> tab_name t' \<and>
       TabStatePath ul g prefix (dash_name d) (tab_name t) = TabStatePath ul g prefix (dash_name d') (tab_name t'))"
proof
  show "Validate rx subexps (Some slashed_config) = []" by (rule slashed_config_valid) (rule assms)
  let ?ds = "cfg_dashboards slashed_config"
  have "dash_name (?ds ! 0) \<noteq> dash_name (?ds ! 1)"
    "tab_name (hd (dash_tabs (?ds ! 0))) \<noteq> tab_name (hd (dash_tabs (?ds ! 1)))"
    "dash_name (?ds ! 0) = ''team''" "dash_name (?ds ! 1) = ''team/unit''"
    "tab_name (hd (dash_tabs (?ds ! 0))) = ''unit/tests''" "tab_name (hd (dash_tabs (?ds ! 1))) = ''tests''"
    "?ds ! 0 \<in> set ?ds" "?ds ! 1 \<in> set ?ds" "hd (dash_tabs (?ds ! 0)) \<in> set (dash_tabs (?ds ! 0))"
    "hd (dash_tabs (?ds ! 1)) \<in> set (dash_tabs (?ds ! 1))"
    by (simp_all add: slashed_config_def empty_dashboard_def empty_dashboard_tab_def)
  with slashed_places show "\<exists>d t d' t'. d \<in> set ?ds \<and> t \<in> set (dash_tabs d) \<and> d' \<in> set ?ds \<and> t' \<in> set (dash_tabs d') \<and>
       dash_name d \<noteq> dash_name d' \<and> tab_name t \<noteq> tab_name t' \<and>
       TabStatePath ul g prefix (dash_name d) (tab_name t) = TabStatePath ul g prefix (dash_name d') (tab_name t')" by metis
qed

lemma tab_states_collide_witness:
  "Validate (\<lambda>_. Some (\<lambda>_. True)) (\<lambda>_. Some []) (Some slashed_config) = []"
  using tab_states_collide [of "\<lambda>_. Some (\<lambda>_. True)"] by simp

text \<open>
  C38.  Links of failing tests: for a template of text, tokens and encodings of the two, the link
  is the address with every known token replaced by its value and every encoding of known text
  escaped, and the options so filled in as its query; in whatever order each range over the map of
  the parameters visits them (ord). It is empty when the address does not parse. The values must
  be free of angle brackets.
\<close>

theorem link_expanded:
  assumes "template_ok items options" "plain testID" "plain target" "plain failed_build" "plain prefix"
    and "\<forall>(k, v) \<in> set props. plain v \<and> \<not> has_prefix k ''encode:''"
    and "\<forall>(k, v) \<in> set custom_headers. plain v"
    and "val = token_value props testID target failed_build prefix header_names custom_headers"
    and "range_ok ord"
  shows "testResultLink ord parse show_url (template_of name items options) props testID target failed_build prefix
      header_names custom_headers =
    (case parse (expanded val PathEscape items) of
       Inl _ \<Rightarrow> []
     | Inr u \<Rightarrow> show_url u (encode_values (map (\<lambda>(k, v). (expanded val id k, expanded val id v)) options)))"
  by (rule testResultLink_items [OF assms])

lemma link_expanded_witness:
  "testResultLink (\<lambda>_. rev) Inr (\<lambda>u q. u @ ''?'' @ q)
     (template_of ''open'' [Simple (Text ''https://prow/''), Simple (Token ''gcs-prefix''), Encode [Token ''test-name'']]
        [([Simple (Text ''id'')], [Simple (Token ''test-id'')])])
     [] ''t 1'' ''a b'' ''7'' ''logs/x/'' [] [] = ''https://prow/logs/x/a%20b?id=t+1''"
proof -
  let ?items = "[Simple (Text ''https://prow/''), Simple (Token ''gcs-prefix''), Encode [Token ''test-name'']]"
  let ?options = "[([Simple (Text ''id'')], [Simple (Token ''test-id'')])]"
  let ?val = "token_value [] ''t 1'' ''a b'' ''7'' ''logs/x/'' [] []"
  have "template_ok ?items ?options" "plain ''t 1''" "plain ''a b''" "plain ''7''" "plain ''logs/x/''" by code_simp+
  moreover have "range_ok (\<lambda>_. rev)" by (simp add: range_ok_def)
  ultimately have "testResultLink (\<lambda>_. rev) Inr (\<lambda>u q. u @ ''?'' @ q) (template_of ''open'' ?items ?options) [] ''t 1'' ''a b'' ''7'' ''logs/x/'' [] [] =
      expanded ?val PathEscape ?items @ ''?'' @ encode_values (map (\<lambda>(k, v). (expanded ?val id k, expanded ?val id v)) ?options)"
    by (subst link_expanded [OF _ _ _ _ _ _ _ refl]) simp_all
  also have "expanded ?val PathEscape ?items = ''https://prow/logs/x/a%20b''" by code_simp
  also have "encode_values (map (\<lambda>(k, v). (expanded ?val id k, expanded ?val id v)) ?options) = ''id=t+1''" by code_simp
  finally show ?thesis by simp
qed

text \<open>
  C39.  Without an overall default and without default files, reading YAML gives a configuration
  exactly when every test group and tab of every file has all the fields that a default could fill
  in; one that leaves such a field unset, a flag that is false included, crashes the program.
\<close>

theorem no_defaults_panic:
  assumes "\<forall>p \<in> set paths. fs_stat fs p \<noteq> None" "\<forall>p \<in> set (yaml_files fs paths). \<not> is_default p"
    and "\<forall>p \<in> set (yaml_files fs paths). \<exists>b. fs_read fs p = Inr b \<and> yl_config yaml strict b = Inr (content p)"
  shows "((\<exists>c. ReadConfig fs yaml paths [] strict = Inr c) \<longleftrightarrow>
      (\<forall>p \<in> set (yaml_files fs paths). complete_config (content p))) \<and>
    ((\<exists>m. ReadConfig fs yaml paths [] strict = Inl (Panic m)) \<longleftrightarrow>
      (\<exists>p \<in> set (yaml_files fs paths). \<not> complete_config (content p)))"
  using ReadConfig_no_defaults [OF assms] by blast

lemma no_defaults_panic_witness:
  "\<exists>m. ReadConfig toy_files toy_yaml [''c.yaml''] [] True = Inl (Panic m)"
proof -
  note f = toy_files_facts
  have "\<not> complete_config sample_config"
    by (simp add: complete_config_def sample_config_def mini_config_def complete_group_def empty_test_group_def)
  moreover have "\<forall>p \<in> set [''c.yaml'']. fs_stat toy_files p \<noteq> None"
    "\<forall>p \<in> set (yaml_files toy_files [''c.yaml'']). \<not> is_default p"
    "\<forall>p \<in> set (yaml_files toy_files [''c.yaml'']). \<exists>b. fs_read toy_files p = Inr b \<and>
      yl_config toy_yaml True b = Inr ((\<lambda>_. sample_config) p)"
    using f(1,2) by (simp_all add: toy_files_def toy_yaml_def)
  ultimately show ?thesis
    using no_defaults_panic [of "[''c.yaml'']" toy_files toy_yaml True "\<lambda>_. sample_config"] f(1) by simp
qed

text \<open>
  C40.  On the local file system, starting the updater replaces the stored grid of every
  configured group by the empty grid: local attributes always have generation zero, so that
  fixOnce takes every group for a new one, and the conditional upload of its first state drops its
  condition.
\<close>

theorem local_states_wiped:
  assumes "marshal empty_grid = Inr buf" "p \<in> set paths" "\<not> is_cloud p"
    and "local_Open ul (wd_disk w) p = Inr old" "\<not> dk_refused (wd_disk w) (cleanFilepath ul p)"
  shows "client_Open ul gl NewClient (first_states ul gl marshal w paths) p = Inr buf"
  by (rule first_states_local [where marshal = marshal, OF assms])

lemma local_states_wiped_witness:
  "local_Open plain_urls (wd_disk toy_world) (local_path ''grid'') = Inr ''old'' \<and>
   client_Open plain_urls toy_cloud NewClient
     (first_states plain_urls toy_cloud (\<lambda>_. Inr ''empty'') toy_world [local_path ''grid'']) (local_path ''grid'') = Inr ''empty''"
proof -
  have clean: "cleanFilepath plain_urls (local_path ''grid'') = ''/grid''"
    by (simp add: cleanFilepath_def plain_urls_def local_path_def cloud_path_def strip_file.simps has_prefix_def)
  then have old: "local_Open plain_urls (wd_disk toy_world) (local_path ''grid'') = Inr ''old''"
    by (simp add: local_Open_def toy_world_def)
  then show ?thesis using local_states_wiped [where w = toy_world and ul = plain_urls and marshal = "\<lambda>_. Inr ''empty''" and
      p = "local_path ''grid''" and paths = "[local_path ''grid'']" and gl = toy_cloud, OF refl _ _ old]
    by (simp add: is_cloud_def local_path_def toy_world_def)
qed

section \<open>Further facts\<close>

text \<open>
  appendCell adds k copies of a cell to a packed row and loses nothing: every cell the row held
  before decodes as it did, the k new ones decode to the stored form of the cell, and the row
  stays well formed.
\<close>

theorem append_cell:
  assumes "packed r" "canonical (c_result c)" "distinct (map fst (c_metrics c))"
    and "n = length (row_statuses r)"
  shows "\<exists>r'. appendCell r c n k = Inr r' \<and> packed r' \<and>
    row_statuses r' = row_statuses r @ replicate k (c_result c) \<and>
    (\<forall>i < n. same_cell (cell_at r' i) (cell_at r i)) \<and>
    (\<forall>i < k. same_cell (cell_at r' (n + i)) (stored (row_name r) (row_id r) c))"
  using appendCell_spec [OF assms] by blast

text \<open>
  When alertRow opens an alert it counts at least k failures of the row, and its message and
  identifiers are those of the newest failing column, its start (time, build and test identifier,
  mail addresses) those of the oldest failing column of the outage.
\<close>

theorem alert_reports:
  assumes "packed r" "0 < k"
  shows "\<exists>a. alertRow cols r k p commit user hdrs = Inr a \<and>
    (case a of None \<Rightarrow> True | Some x \<Rightarrow> reports cols r k commit user x)"
  using assms by (rule alertRow_reports)

text \<open>
  The closure inflateRow returns hands out the cells of the row in order, one per call, and
  nothing afterwards: calling it as often as the row has results yields exactly the decoded cells.
\<close>

theorem row_decoder:
  assumes "inflatable r"
  shows "\<exists>rc. inflateRow r = Inr rc \<and>
    fst (calls row_step (length (row_cells r) + k) rc) = map Some (row_cells r) @ replicate k None"
proof -
  from inflateRow_cursor [OF assms] obtain rc where rc: "inflateRow r = Inr rc" "cursor_at r 0 rc" by blast
  have "row_ok rc" "row_todo rc = row_cells r"
    using row_ok_cursor_at [OF assms rc(2)] row_todo_cursor_at [OF rc(2)] by simp_all
  with rw.calls_todo [of rc "length (row_cells r) + k"] rc(1) show ?thesis by simp
qed

text \<open>
  The two run-length decoders of the repository agree: on an encoding of even length the closure
  of inflateResults and the iterator of internal/result hand out the same results, those of the
  plain expansion.
\<close>

theorem result_decoders_agree:
  assumes "even (length results)"
  shows "fst (calls res_step (length (rle_expand results)) (inflateResults results)) =
      map Some (rle_expand results) \<and>
    fst (calls iter_step (length (rle_expand results)) (Iter results)) = map Some (rle_expand results)"
  using res.calls_all [of "inflateResults results"] it.calls_all [of "Iter results"] assms by simp

text \<open>
  MergeCells of several cells shows the number of passing cells over all cells as its icon,
  becomes flaky when flakiness is tracked and both kinds occur, has otherwise the most severe
  result of the cells, and averages every metric over the cells that have it.
\<close>

theorem merge_cells:
  assumes "2 \<le> length cs"
  shows "\<exists>out. MergeCells flaky cs = Inr out \<and>
    c_icon out = nat_str (cell_count Passing cs) @ ''/'' @ nat_str (length cs) \<and>
    (if flaky \<and> 0 < cell_count Passing cs \<and> 0 < cell_count Failing cs then c_result out = FLAKY
     else c_result out \<in> c_result ` set cs \<and> (\<forall>c \<in> set cs. c_result c \<le> c_result out)) \<and>
    (\<forall>k. map_of (c_metrics out) k =
       (if metric_values k cs = [] then None else Some (mean (metric_values k cs))))"
  using assms by (rule MergeCells_spec)

text \<open>
  SplitCells keeps the cells in order under pairwise different names, the first under the name
  itself, and replaces everything past the limit by one overflow cell.
\<close>

theorem split_cells:
  "SplitCells name cs =
     map (\<lambda>k. (split_name name k, if k = maxDuplicates then overflowCell else cs ! k))
       [0..<min (length cs) (Suc maxDuplicates)] \<and>
   distinct (map fst (SplitCells name cs))"
  using SplitCells_spec SplitCells_distinct by blast

text \<open>
  Every column that convertResult produces has the overall row of its job, whatever the suites
  contain and whether duplicates are merged or split.
\<close>

theorem overall_row_present:
  assumes "convertResult rx pf ff now nc i headers r opt = Inr col"
  shows "gr_job r @ ''.'' @ overallRow \<in> fst ` set (ic_cells col)"
  using assms by (rule convertResult_overall)

text \<open>
  A build that failed is never shown without a reason: the overall cell of a failing build carries
  a message, or some cell of the column fails.
\<close>

theorem failure_is_explained:
  assumes "c_result (overall_with_reason (overallCell now r) cells) = FAIL"
  shows "c_message (overall_with_reason (overallCell now r) cells) \<noteq> [] \<or>
    (\<exists>n cs c. (n, cs) \<in> set cells \<and> c \<in> set cs \<and> c_result c = FAIL)"
  using assms by (rule overall_with_reason_explained)

text \<open>
  The downloads of a build run concurrently and each writes its own part of the result: when none
  of them fails, the result of readResult does not depend on the order in which they finish.
\<close>

theorem read_order_irrelevant:
  assumes "mset evs = mset evs'" "distinct (map read_kind evs)" "\<forall>ev \<in> set evs. read_error stop ev = None"
  shows "readResult job build b stop evs = readResult job build b stop evs' \<and>
    (\<exists>r. readResult job build b stop evs = Inr r)"
  using assms by (rule readResult_order)

text \<open>
  truncateGrid returns the longest prefix of the columns whose cells fit the ceiling, except that
  two columns are kept whatever their size.
\<close>

theorem truncate_grid:
  "\<exists>n \<le> length cols. truncateGrid cols m = take n cols \<and>
     (n \<le> 2 \<or> total_cells (take n cols) \<le> m) \<and>
     (n < length cols \<longrightarrow> 2 \<le> n \<and> m < total_cells (take (Suc n) cols))"
  by (rule truncateGrid_spec)

text \<open>
  truncateRunning drops everything up to and including the oldest column that started after the
  floor and still has a running cell, so what stays has no such column; without one it drops
  nothing.
\<close>

theorem truncate_running:
  "truncateRunning cols t =
     (if \<exists>c \<in> set cols. still_running t c
      then rev (takeWhile (\<lambda>c. \<not> still_running t c) (rev cols)) else cols) \<and>
   (\<forall>c \<in> set (truncateRunning cols t). \<not> still_running t c)"
  unfolding truncateRunning_spec by (auto dest: set_takeWhileD)

text \<open>
  SortStarted orders the columns by their start, newest first, as a permutation that leaves
  columns of the same start in their order.
\<close>

theorem newest_first:
  "sorted_wrt (\<lambda>a b. col_started (ic_column a) \<ge> col_started (ic_column b)) (SortStarted cols) \<and>
   mset (SortStarted cols) = mset cols \<and>
   filter (\<lambda>c. col_started (ic_column c) = t) (SortStarted cols) =
     filter (\<lambda>c. col_started (ic_column c) = t) cols"
  using SortStarted_sorted SortStarted_mset SortStarted_stable by blast

text \<open>
  FormatStrftime ranges over a Go map, in any order: every order gives the one-pass translation of
  the format codes.
\<close>

theorem strftime_order_irrelevant:
  assumes "mset rs = mset strftime_replacements"
  shows "FormatStrftime rs s = scan_codes strftime_replacements s"
  using assms by (rule FormatStrftime_scan)

text \<open>
  groupColumns merges the columns that agree on name and build, one column per pair in the order
  of first occurrence, leaves columns that already differ as they are, and starts a merged column
  when its earliest member started.
\<close>

theorem group_columns:
  "map column_id (groupColumns nl tg cols) = first_occurrences (map column_id cols) \<and>
   (distinct (map column_id cols) \<longrightarrow> groupColumns nl tg cols = cols) \<and>
   groupColumns nl tg (groupColumns nl tg cols) = groupColumns nl tg cols \<and>
   (\<forall>grp. grp \<noteq> [] \<longrightarrow> col_started (ic_column (merge_group nl tg grp)) =
      Min ((\<lambda>c. col_started (ic_column c)) ` set grp))"
  by (simp add: groupColumns_ids groupColumns_distinct merge_group_started)

text \<open>
  InflateDropAppend sets the configuration of the grid only after it has encoded it: the bytes it
  uploads encode a grid without configuration, on which reprocessColumn never asks for a column to
  be read again.
\<close>

theorem stored_grid_lacks_config:
  assumes "InflateDropAppend nl ft rs marshal cancelled expired now reprocess tg old bytes evs =
    Some (Inr (g, buf, unread))"
  shows "\<exists>stored. marshal stored = Inr buf \<and> stored = g\<lparr>grid_config := None\<rparr> \<and>
    (\<forall>tg' when. reprocessColumn stored tg' when = None)"
  using assms by (rule InflateDropAppend_config)

text \<open>
  Of the listed builds ListBuilds returns exactly those after the offset in natural order, newest
  first; the reverse scan that stops at the first older name loses none.
\<close>

theorem builds_after_offset:
  assumes "natural_order nl" "offset \<noteq> []" "builds_of resolve new_path bucket objs = Inr bs"
  shows "ListBuilds nl resolve new_path bucket offset objs =
      Inr (filter (\<lambda>b. nl offset (b_base_name b)) (Sort nl bs)) \<and>
    sorted_wrt (\<lambda>a b. \<not> nl (b_base_name a) (b_base_name b)) (Sort nl bs) \<and> mset (Sort nl bs) = mset bs"
  using newer_than_spec [OF assms(1,2)] Sort_sorted [OF assms(1)] assms(3)
  by (simp add: ListBuilds_def Sort_def)

text \<open>
  The hint from which listing resumes is the hint of one of the known columns, and no known column
  has a larger one in natural order.
\<close>

theorem hint_is_largest:
  assumes "natural_order nl" "cols \<noteq> []"
  shows "hintStarted nl cols \<in> (\<lambda>c. col_hint (ic_column c)) ` set cols \<and>
    (\<forall>c \<in> set cols. \<not> nl (hintStarted nl cols) (col_hint (ic_column c)))"
proof -
  from assms(2) obtain c cs where cols: "cols = c # cs" by (cases cols) auto
  show ?thesis using hint_loop_max [OF assms(1), of "col_hint (ic_column c)" cs]
    by (auto simp: cols hintStarted_def)
qed

text \<open>
  readColumns returns one column per listed build, oldest first, whether its download succeeds or
  fails, with the name of the build as its hint and a value for every configured header.
\<close>

theorem one_column_per_build:
  assumes "readColumns rx pf ff now grp builds read skip = Inr cols"
  shows "map (\<lambda>c. col_hint (ic_column c)) cols = map (\<lambda>b. path_base (b_path b)) (rev builds) \<and>
    (\<forall>c \<in> set cols. length (col_extra (ic_column c)) = length (tg_column_header grp))"
  using assms by (rule readColumns_hints)

text \<open>
  CustomStatus gives the status of the first rule all of whose comparisons hold, and no status
  when none does, provided no rule compares a name or a count with an operator that has no
  function for it.
\<close>

theorem first_matching_rule:
  assumes "\<forall>rule \<in> set rules. \<forall>c \<in> set (rule_comparisons rule). comparison_ok c"
  shows "CustomStatus rx rules tr =
    Inr (map_option rule_computed_status (find (rule_matches rx tr) rules))"
  using assms by (rule CustomStatus_find)

text \<open>
  A comparison of a rule panics, by calling a nil function, exactly when it compares a name with
  an operator other than the five on strings or a count with one other than equality and its
  negation; on the other fields the same operators make it fail quietly.
\<close>

theorem comparison_panics:
  "(\<exists>e. eval_comparison rx tr c = Inl e) \<longleftrightarrow>
     (\<exists>cmp. rc_comparison c = Some cmp \<and>
       (rc_info c = TestResultField ''name'' \<and>
          cmp_op cmp \<notin> {OP_CONTAINS, OP_REGEX, OP_STARTS_WITH, OP_EQ, OP_NE} \<or>
        rc_info c \<in> {TestResultField ''error_count'', TestResultField ''failure_count''} \<and>
          cmp_op cmp \<notin> {OP_EQ, OP_NE}))"
proof -
  have "(\<exists>e. eval_comparison rx tr c = Inl e) \<longleftrightarrow> \<not> (\<exists>b. eval_comparison rx tr c = Inr b)"
    by (cases "eval_comparison rx tr c") simp_all
  then show ?thesis unfolding eval_comparison_ok comparison_ok_def by auto
qed

text \<open>
  Version panics exactly when one of the three metadata keys it reads holds something other than a
  string; otherwise it returns at most nine characters.
\<close>

theorem version_panics:
  "((\<exists>e. Version s f = Inl e) \<longleftrightarrow>
     (\<exists>key \<in> {''revision'', ''repo-commit'', ''job-version''}.
        \<exists>v. map_of (fd_metadata f) key = Some v \<and> (\<forall>t. v \<noteq> MString t))) \<and>
   (case Version s f of Inl e \<Rightarrow> True | Inr v \<Rightarrow> length v \<le> 9)"
  using Version_panics [of s f] Version_length [of s f] by (simp split: sum.split)

text \<open>
  The message of a JUnit result is valid UTF-8 whatever bytes the result holds, also when the
  truncation cuts a character in two.
\<close>

theorem message_is_utf8: "valid_utf8 (Message r mx)"
  by (rule valid_Message)

text \<open>
  A pod that was scheduled and initialised passes exactly when every init container is fine and
  every other container is fine or has terminated and is not the sidecar, whose result the sidecar
  reports.
\<close>

theorem pod_passes:
  "fst (Summarize (Some p)) \<longleftrightarrow>
     pod_phase p = ''Succeeded'' \<or>
     unmet (find_condition (pod_conditions p) ''PodScheduled'') = None \<and>
     unmet (find_condition (pod_conditions p) ''Initialized'') = None \<and>
     (\<forall>s \<in> set (pod_init_containers p). fst (checkContainerStatus s)) \<and>
     (\<forall>s \<in> set (pod_containers p). fst (checkContainerStatus s) \<or>
        ct_name s \<noteq> ''sidecar'' \<and> cs_terminated (ct_state s) \<noteq> None)"
proof -
  have init: "\<not> b" if "summarize_init ss = Some (b, msg)" for ss b msg
    using that by (induction ss) (auto split: prod.splits bool.splits)
  show ?thesis
    using summarize_init_pass [of "pod_init_containers p"]
      summarize_containers_pass [of False "pod_containers p"]
    by (auto simp: Summarize_def split: option.splits dest: init)
qed

text \<open>
  columnStats counts the failing, the passing and all cells with a result of a column, says
  whether one is running, and marks the column broken exactly when the failing share exceeds the
  threshold.
\<close>

theorem column_stats:
  "columnStats cells threshold =
     (if threshold \<le> 0 then None
      else map_option (\<lambda>m. let cs = map snd m; total = count_cells (\<lambda>s. s \<noteq> NO_RESULT) cs in
        \<lparr>st_fail_count = count_cells Failing cs, st_pass_count = count_cells Passing cs,
         st_total_count = total, st_pending = (\<exists>c \<in> set cs. c_result c = RUNNING),
         st_broken = (0 < total \<and> of_int (count_cells Failing cs) / of_int total > threshold)\<rparr>) cells)"
proof -
  have "count_cells P cs \<noteq> 0 \<longleftrightarrow> 0 < count_cells P cs" for P and cs :: "cell list"
    by (auto simp: count_cells_def)
  then show ?thesis
    by (auto simp: columnStats_def stats_loop_counts Let_def split: option.splits)
qed

text \<open>
  The truncation of cell messages leaves a short message as it is and never returns more than
  three bytes over the limit.
\<close>

theorem truncated_length:
  "(length msg \<le> mx \<longrightarrow> truncate_msg msg mx = msg) \<and>
   (0 < mx \<longrightarrow> length (truncate_msg msg mx) \<le> mx + 3)"
  by (simp add: length_truncate truncate_short)

text \<open>
  Two valid configurations can have a merge that is not: there are two configurations that pass
  Validate whose merge does not, since Converge compares names as they are and Validate compares
  them normalised.
\<close>

theorem merge_not_valid:
  assumes "rx [] \<noteq> None"
  shows "\<exists>a b r. Validate rx subexps (Some a) = [] \<and> Validate rx subexps (Some b) = [] \<and>
    Converge [(''a'', a), (''b'', b)] = Inr r \<and> Validate rx subexps (Some r) \<noteq> []"
  by (rule Converge_not_valid [where rx = rx, OF assms])

text \<open>
  After a run of notifications that ends without an error, every group that subscribes to a path
  above the object of one of them is due no later than the notification allows (five minutes or
  thirty seconds later by the kind of object, not in the past), no group is due later than before,
  and the queue has the same names.
\<close>

theorem notified_groups_due:
  assumes "gcsSubscribedPaths url_parse ms tgs = Inr (paths, subs)" "queue_ok q" "all_queued q"
    "processGCSNotifications paths notices q = Inr q'" "(notice, now) \<in> set notices"
    "notice_delay (path_object (gn_path notice)) = Some delay" "tg \<in> set tgs" "subscribes url_parse ms tg p"
    "gp_bucket p = gp_bucket (gn_path notice)" "has_prefix (path_object (gn_path notice)) (path_object p)"
  shows "when_of q' (tg_name tg) \<le> max now (gn_time notice + delay) \<and> names q' = names q \<and>
    (\<forall>n \<in> names q. when_of q' n \<le> when_of q n)"
proof -
  have "tg_name tg \<in> set (fst (processNotification paths notice))"
    unfolding notified_groups [OF assms(1)] using assms(6-10) by auto
  with processGCSNotifications_spec [OF assms(2-4)] assms(5) have
    "when_of q' (tg_name tg) \<le> notice_time notice now" "names q' = names q" "\<forall>n \<in> names q. when_of q' n \<le> when_of q n"
    by fastforce+
  then show ?thesis by (simp add: notice_time_def assms(6))
qed

text \<open>
  Before the loop starts, the queue of the updater holds the configured groups, each due one
  frequency after the last update of its stored grid, or now when there is no grid, unless it was
  due earlier already; the groups without a stored grid, and only they, get an empty one.
\<close>

theorem initial_times:
  assumes "queue_ok (tq_queue q)" "all_queued (tq_queue q)" "distinct (map tg_name tgs)" "length ss = length tgs"
  shows "\<exists>created q'. fixOnce freq now now_init (Inr ss) tgs q = Inr (created, q') \<and>
    queue_ok (tq_queue q') \<and> all_queued (tq_queue q') \<and> names (tq_queue q') = tg_name ` set tgs \<and>
    (\<forall>k < length tgs. let n = tg_name (tgs ! k);
        due = (if n \<in> names (tq_queue q) then when_of (tq_queue q) n else now_init + freq) in
      when_of (tq_queue q') n = (case stored_time freq (now k) (StatExisting ss ! k) of
        None \<Rightarrow> due | Some t \<Rightarrow> min t due)) \<and>
    set created = {tg_name (tgs ! k) | k. k < length tgs \<and> map_option at_generation (StatExisting ss ! k) = Some 0}"
  by (rule fixOnce_spec [OF assms])

text \<open>
  FixAll moves the names it is given to the new time, which it takes when it is earlier or when
  later times are asked for, leaves all others alone, restores the order of the heap, and returns
  exactly the names that are missing as its error.
\<close>

theorem queue_fix_all:
  assumes "indexed q" "distinct (map fst whens)"
  shows "let missing = filter (\<lambda>n. n \<notin> names q) (map fst whens) in
    \<exists>q'. FixAll whens later q = (if missing = [] then None else Some missing, q') \<and>
    queue_ok q' \<and> mset (wq_queue q') = mset (wq_queue q) \<and> names q' = names q \<and>
    (\<forall>n. when_of q' n = (case map_of whens n of
        Some t \<Rightarrow> if n \<notin> names q then when_of q n else if later then t else min t (when_of q n)
      | None \<Rightarrow> when_of q n))"
  using FixAll_spec [OF assms, of later] unfolding Let_def fixed_time_def by (auto split: option.split)

text \<open>
  A name that Send has popped (frequency zero) stays known to the queue but is never queued again:
  Init panics when it is not among the new names, and does nothing when the names are the same as
  before.
\<close>

theorem popped_name:
  assumes "queue_ok q" "name \<in> names q" "name \<notin> set (wq_queue q)"
  shows "(name \<notin> set ns \<longrightarrow> (\<exists>e. Init ns t q = Inl e)) \<and> (set ns = names q \<longrightarrow> Init ns t q = Inr q)"
  using Init_popped [OF assms] by blast

text \<open>
  updateTab never fails on a well-formed grid, and its summary is consistent: it names the tab, a
  stale tab has an alert, a failing tab lists failing tests, the other states have neither, and
  the passing and ignored columns of its metrics are among the completed ones.
\<close>

theorem tab_summary_consistent:
  assumes "rows_ok g"
  shows "\<exists>s m. updateTab showTime now features (Inr (g, md)) tab tg = Inr s \<and>
    dts_dashboard_tab_name s = tab_name tab \<and>
    (dts_overall_status s = TAB_STALE \<longrightarrow> dts_alert s \<noteq> []) \<and>
    (dts_overall_status s = TAB_FAIL \<longrightarrow> dts_failing_test_summaries s \<noteq> []) \<and>
    (dts_overall_status s \<in> {TAB_PASS, TAB_FLAKY, TAB_ACCEPTABLE, TAB_UNKNOWN, TAB_PENDING} \<longrightarrow>
       dts_alert s = [] \<and> dts_failing_test_summaries s = []) \<and>
    dts_summary_metrics s = Some m \<and> 0 \<le> tm_passing_columns m \<and> 0 \<le> tm_ignored_columns m \<and>
    tm_passing_columns m + tm_ignored_columns m \<le> tm_completed_columns m"
  using updateTab_summary_ok [OF assms] unfolding summary_ok_def by metis

text \<open>
  The flip analyzer, which skips runs of consecutive failures with index arithmetic, computes the
  share of runs at which the outcome turns after these runs are dropped; the result lies between 0
  and 100.
\<close>

theorem flip_flakiness:
  "calculateFlipFlakiness ss =
     (let t = drop_long_runs ss in if t = [] then 0 else 100 * of_nat (flips True t) / of_nat (length t)) \<and>
   0 \<le> calculateFlipFlakiness ss \<and> calculateFlipFlakiness ss \<le> 100"
  using calculateFlipFlakiness_eq calculateFlipFlakiness_bounds by blast

text \<open>
  Every test the healthiness of a tab reports has run, has as many runs as it has passes and
  failures outside of the infrastructure, and a flakiness between 0 and 100, and so is their
  average.
\<close>

theorem healthiness_bounds:
  "(\<forall>t \<in> set (hi_tests (GetFlakiness rel gms n st en)).
      0 \<le> ti_flakiness t \<and> ti_flakiness t \<le> 100 \<and> 0 < ti_total_non_infra_runs t \<and>
      ti_total_non_infra_runs t = ti_passed_non_infra_runs t + ti_failed_non_infra_runs t \<and>
      (\<exists>gm \<in> set gms. ti_display_name t = gm_name gm \<and> ti_passed_non_infra_runs t = gm_passed gm \<and>
         ti_failed_non_infra_runs t = gm_failed gm \<and> ti_failed_infra_runs t = gm_failed_infra_count gm)) \<and>
   0 \<le> hi_average_flakiness (GetFlakiness rel gms n st en) \<and>
   hi_average_flakiness (GetFlakiness rel gms n st en) \<le> 100"
  by (rule GetFlakiness_bounds)

text \<open>
  gridMetrics looks at no more than the recent columns; of the columns it counts as completed the
  passing and the ignored ones are disjoint, every completed column has a filled cell, and no more
  cells pass than are filled. So an acceptable tab has a valid column and its share of passing
  ones reaches the limit.
\<close>

theorem column_metrics:
  assumes "distinct (map row_name rows)"
  shows "let gs = fst (gridMetrics cols rows recent threshold features opts) in
    0 \<le> gs_passing_cols gs \<and> 0 \<le> gs_ignored_cols gs \<and>
    gs_passing_cols gs + gs_ignored_cols gs \<le> gs_completed_cols gs \<and>
    gs_completed_cols gs \<le> int (min cols (nat recent)) \<and> gs_completed_cols gs \<le> gs_filled_cells gs \<and>
    0 \<le> gs_passing_cells gs \<and> gs_passing_cells gs \<le> gs_filled_cells gs \<and>
    (isAcceptable gs opts features \<longrightarrow> gs_ignored_cols gs < gs_completed_cols gs \<and>
       100 * of_int (gs_passing_cols gs) / of_int (gs_completed_cols gs - gs_ignored_cols gs) \<ge>
       100 - so_max_acceptable_flakiness opts)"
proof -
  note ok = gridMetrics_ok [OF assms, of cols recent threshold features opts]
  from acceptable_valid [OF ok] ok show ?thesis unfolding Let_def stats_ok_def by blast
qed

text \<open>
  With a prefix for tab states a notification about the state of a tab moves nothing: the name
  that is found is the one of the dashboard, which is then looked up among the test groups, so
  unless a test group of some tab has this name, the queue stays as it is.
\<close>

theorem dashboard_notice_lost:
  assumes "dashboard_queue_ok ds q" "gp_bucket gridPrefix = gp_bucket (gn_path n)"
    "path_object gridPrefix = dir @ ''/''" "path_object (gn_path n) = dir @ ''/'' @ dash @ ''/'' @ tab"
    "CHR ''/'' \<notin> set dash" "CHR ''/'' \<notin> set tab"
    "\<forall>d \<in> set ds. \<forall>t \<in> set (dash_tabs d). tab_test_group_name t \<noteq> dash"
  shows "\<exists>q'. summary_notice_step gridPrefix True n q = Inr q' \<and>
    (\<forall>m. when_of (dq_queue q') m = when_of (dq_queue q) m)"
  using summary_notice_lost [OF assms(1) summary_notice_tab [OF assms(2-6)] assms(7)] by blast

text \<open>
  When a new configuration lacks one of the groups the updater was started for, the update of the
  queue removes all of its groups, also those that the configuration still has.
\<close>

theorem config_update_empties:
  assumes "queue_ok (tq_queue q)" "all_queued (tq_queue q)" "name \<in> set ns" "map_of groups name = None"
  shows "\<exists>q'. config_update ns t groups q = Inr q' \<and> names (tq_queue q') = {} \<and> tq_groups q' = []"
  by (rule config_update_missing [OF assms])

text \<open>
  The next search of the ResultStore reader starts too late: the start of a column counts the
  nanoseconds of its invocation as if they were microseconds, so with n milliseconds past the
  second the stop is at least n seconds after the start of the newest invocation, up to 999, and
  what started in between is never read.
\<close>

theorem search_too_late:
  assumes "libs_ok lb" "processGroup lb tg (Some g) = Inr (Some col)" "ig_invocations g = [iv]"
    and "start_time (iv_proto iv) = Some t" "0 < ts_seconds t" "0 \<le> ts_nanos t" "col \<in> set oldCols"
    and "(ts_seconds t + ts_nanos t div 1000000) * second_ns \<le> now"
  shows "(ts_seconds t + ts_nanos t div 1000000) * second_ns \<le> updateStop lb tg' now oldCols defaultStop 0"
  by (rule updateStop_late(2) [OF assms])

text \<open>
  No cell of a column that the ResultStore reader returns has a metric or a property: the metrics
  and properties that are computed for a target are written to a copy of its cell after the cell
  was stored.
\<close>

theorem metrics_lost:
  assumes "libs_ok lb" "read_columns lb tg results = Inr cols" "col \<in> set cols" "(n, c) \<in> set (ic_cells col)"
  shows "c_metrics c = [] \<and> c_properties c = []"
  by (rule read_columns_bare [OF assms])

text \<open>
  What the updater or the tabulator constructs is what the API lists: when the grid stored for a
  tab is the one made from columns, ListRows reads none of its slices out of bounds and answers
  with one row per name that has a result, whose cells are, column by column, the stored form of
  the column's cell of that name.
\<close>

theorem rows_served:
  assumes "serves s scope cfg snap" "d \<in> set (cfg_dashboards cfg)" "Normalize (dash_name d) = Normalize dq"
    and "t \<in> set (dash_tabs d)" "Normalize (tab_name t) = Normalize tq"
    and "Grid s scope (dash_name d) (tab_name t) = Inr (Some g)"
    and cols: "\<forall>c \<in> set cols. cells_ok c" "0 \<le> failures"
    and run: "ConstructGrid nl cols issues failures passes commit user threshold hdrs = Inr g"
  shows "ListRows s scope dq tq = Inr (map (\<lambda>r.
      \<lparr>ar_name = row_name r, ar_issues = row_issues r, ar_alert = row_alert r,
       ar_cells = map (\<lambda>col. api_cell_of (stored (row_name r) (row_id r) (cell_of col (row_name r)))) cols\<rparr>)
      (grid_rows g)) \<and> row_name ` set (grid_rows g) = shown_names cols"
proof -
  from ConstructGrid_shows [OF cols] run have g: "shows_cells (map (with_stats threshold) cols) g" by (metis sum.inject(2))
  then have "row_name ` set (grid_rows g) = shown_names cols"
    by (simp add: shows_cells_def shown_names_def)
  with ListRows_spec [OF assms(1-6) g] show ?thesis by (simp add: comp_def)
qed

text \<open>
  ListDashboards lists all the dashboards in the order of their names, and the link it gives to
  each leads to the handler that answers with that dashboard, provided its name has a letter or a
  digit.
\<close>

theorem dashboards_linked:
  assumes "serves s scope cfg snap"
  shows "\<exists>rs. ListDashboards s scope = Inr rs \<and> map dr_name rs = sort (map dash_name (cfg_dashboards cfg)) \<and>
    (\<forall>r \<in> set rs. \<exists>d \<in> set (cfg_dashboards cfg). dr_name r = dash_name d \<and>
       (Normalize (dash_name d) \<noteq> [] \<longrightarrow>
         (\<exists>q. Route (link_segments (dr_link r)) = Some (GetDashboard_request q) \<and>
            GetDashboard s scope q = Inr
              \<lparr>dresp_default_tab = dash_default_tab d, dresp_highlight_today = dash_highlight_today d,
               dresp_suppress_failing_tabs = dash_downplay_failing_tabs d,
               dresp_notifications = dash_notifications d\<rparr>)))"
proof -
  from ListDashboards_spec [OF assms] obtain rs where
    rs: "ListDashboards s scope = Inr rs" "map dr_name rs = sort (map dash_name (cfg_dashboards cfg))" by blast
  with dashboard_link_routed [OF assms rs(1)] show ?thesis by blast
qed

text \<open>
  The links that ListDashboardTabs gives to the tabs of a dashboard lead nowhere: no route of the
  server has their form.
\<close>

theorem tab_links_unrouted:
  assumes "serves s scope cfg snap" "d \<in> set (cfg_dashboards cfg)" "Normalize (dash_name d) = Normalize q"
    and "ListDashboardTabs s scope q = Inr rs" "r \<in> set rs"
  shows "Route (link_segments (res_link r)) = None"
  by (rule tab_link_unrouted [OF assms])

text \<open>
  Once the summarizer has stored the summary of a dashboard, the server has a summary for every
  tab of it, under every way to write the names of the two that agrees in letters and digits: the
  tab's own, converted.
\<close>

theorem summary_served:
  assumes "serves s scope cfg snap" "d \<in> set (cfg_dashboards cfg)" "Normalize (dash_name d) = Normalize dq"
    and "t \<in> set (dash_tabs d)" "Normalize (tab_name t) = Normalize tq"
    and "updateDashboard d previous find_group stat update grace = Inr (summaries, todo)"
    and "\<And>tab tg s. update tab tg = Inr s \<Longrightarrow> dts_dashboard_tab_name s = tab_name tab"
    and "stored_summary s scope (dash_name d) \<lparr>ds_tab_summaries = map the summaries\<rparr>"
  shows "\<exists>x. Some x \<in> set summaries \<and> dts_dashboard_tab_name x = tab_name t \<and>
    GetTabSummary s scope dq tq = Inr (convertSummary x)"
  by (rule summarized_tab_served [OF assms(1-6) _ assms(8)]) (rule assms(7))

text \<open>
  The status of a dashboard is that of its worst tab, in the order broken, stale, failing, flaky,
  pending, acceptable, passing, whatever tabs have an unknown status, and unknown when no tab has
  one of these; and the count of a status is the number of tabs that have it.
\<close>

theorem dashboard_status:
  "ads_overall_status (dashboardSummary summary name) =
     (case find (\<lambda>u. \<exists>t \<in> set (ds_tab_summaries summary). dts_overall_status t = u) status_severity of
        Some u \<Rightarrow> lookup_or_empty tabStatusStr u | None \<Rightarrow> ''UNKNOWN'') \<and>
   count_of (ads_tab_status_count (dashboardSummary summary name)) k =
     int (length (filter (\<lambda>t. lookup_or_empty tabStatusStr (dts_overall_status t) = k) (ds_tab_summaries summary)))"
  using dashboardSummary_spec(2,3) [of summary name] by blast

text \<open>
  Every answer of ReadGCS, from an empty cache on, is what its own read gives, or what a read of
  the same path gave that an earlier call ended less than five minutes before; errors are never
  cached.
\<close>

theorem cached_config_fresh:
  assumes "i < length cs"
  shows "\<exists>j \<le> i. rc_path (cs ! j) = rc_path (cs ! i) \<and>
    fst (ReadGCS_all Unmarshal InitCache cs) ! i = read_config Unmarshal (cs ! j) \<and>
    (j = i \<or> rc_now (cs ! i) - rc_later (cs ! j) < cacheRefreshInterval)"
  by (rule ReadGCS_fresh [OF assms])

text \<open>
  The details of an invocation are sent as the description of its attributes and never read back:
  the description that is read is the one of the status.
\<close>

theorem details_lost:
  assumes "time_ok (iv_start i)" "duration_ok (iv_duration i)"
  shows "fromInvocation (Invocation_To i) = i\<lparr>iv_details := [], iv_duration := max (iv_duration i) 0\<rparr>"
  by (rule invocation_round_trip [OF assms])

text \<open>
  Whether the invocations are grouped by build has no effect on where the search stops: the half
  hour that is subtracted for this grouping is thrown away.
\<close>

theorem grouping_ignored:
  "updateStop lb (tg\<lparr>tg_primary_grouping := p\<rparr>) now oldCols defaultStop reprocess =
   updateStop lb tg now oldCols defaultStop reprocess"
  by (rule updateStop_grouping)

text \<open>
  In cloud storage, fixOnce keeps every object that is there: its first states are written only
  where there is none.
\<close>

theorem cloud_states_kept:
  assumes "gcs_writes gl obj" "obj (wd_cloud w) k \<noteq> None"
  shows "obj (wd_cloud (first_states ul gl marshal w paths)) k = obj (wd_cloud w) k"
  by (rule first_states_kept [OF assms])

text \<open>
  Metrics in the log: whatever is set and reported, every measurement that was set for a value of
  a field is in exactly one report or still held, in the order in which it was set.
\<close>

theorem measurements_reported:
  assumes "int64_run ops m = Inr (rs, m')"
    and "distinct (li_fields m)" "length (li_current m) = length (li_fields m)" "i < length (li_fields m)"
  shows "measured (li_current m ! i) v @ set_values ops i v =
    concat (map (\<lambda>r. in_report r (li_fields m ! i) v) rs) @ measured (li_current m' ! i) v"
  by (rule int64_measurements [OF assms])

text \<open>
  The tabulator and the server: after a pass over a test group that met no error, the server shows
  for every tab of the group, whatever the spelling of the names in the request, the columns of
  the group's grid with the rows that the options of the tab keep, and without the columns that
  have then no result.
\<close>

theorem group_pass_served:
  assumes "gcs_contract gl obj" "resolves_apart (srv_urls s) cfgPath (srv_tab_prefix s)" "decodes s marshal"
    and "serves s scope cfg snap" "configPath s scope = Inr (cfgPath, b)"
    and "\<forall>d \<in> set (cfg_dashboards cfg). \<forall>t \<in> set (dash_tabs d).
      plain_part (dash_name d) \<and> name_chars (dash_name d) \<and> plain_part (tab_name t) \<and> name_chars (tab_name t)"
    and "tabulate_group (\<lambda>task data. createTabState s gl marshal nl rx cancelled now task data cfgPath (srv_tab_prefix s) True
        stats useTab False)
      (\<lambda>w. read_group s gl (mapTasks (sn_groups snap) (sn_dashboards snap)) cfgPath gridPrefix w (Some tg)) w = (Inr rs, w')"
    and "\<forall>r \<in> set rs. r = Inr ()"
    and "TestGroupPath (srv_urls s) cfgPath gridPrefix (tg_name tg) = Inr gp" "DownloadGrid (server_on gl w s) gp = Inr (Some g)"
    and "d \<in> set (cfg_dashboards cfg)" "Normalize (dash_name d) = Normalize dq"
    and "t \<in> set (dash_tabs d)" "Normalize (tab_name t) = Normalize tq"
    and "tab_test_group_name t = tg_name tg" "tg \<in> set (cfg_test_groups cfg)"
    and "grid_ok g" "\<forall>j. \<not> cancelled j" "filterGrid rx (tab_base_options t) (grid_rows g) = Inr rows"
    and "0 \<le> tab_alerts useTab t tg"
  shows "let cols = dropEmptyColumns (map (inflated_at (g\<lparr>grid_rows := rows\<rparr>))
        (kept_columns zero_unix now False 0 (grid_columns g))) in
    \<exists>rs. ListRows (server_on gl w' s) scope dq tq = Inr rs \<and> ar_name ` set rs = shown_names cols \<and>
      (\<forall>r \<in> set rs. \<exists>i. ar_cells r =
         map (\<lambda>col. api_cell_of (stored (ar_name r) i (cell_of col (ar_name r)))) cols)"
  unfolding Let_def by (rule pass_served [OF assms refl])

end
